(* ===== verification/Prelude.thy ===== *)
theory Prelude
  imports Main "HOL-Library.Word" "HOL-Library.While_Combinator"
begin

text \<open>
  Shared vocabulary of the development: the fixed-width integer types of the C code, the
  faults that end a C function early, memory blocks whose cells may be uninitialised, and the
  generic lemmas that the component theories use.

  A fault is what the code does instead of returning: \<open>OutOfBounds\<close> (a read or write outside
  the allocated block), \<open>NullPointer\<close> (a dereferenced NULL), \<open>Uninitialised\<close> (a read of a cell
  that was never written), \<open>Abort\<close> (a call of abort(), or of free with a pointer that malloc has
  not returned), \<open>Exit\<close> (a call of exit(EXIT_FAILURE) with the text already written to stderr), \<open>NoReturn\<close> (a loop that runs forever).
\<close>

type_synonym u8 = "8 word"
type_synonym u16 = "16 word"
type_synonym u32 = "32 word"
type_synonym u64 = "64 word"

datatype fault = OutOfBounds | NullPointer | Uninitialised | Abort | Exit string | NoReturn

type_synonym 'a result = "fault + 'a"

text \<open>A pointer that may be NULL; \<open>None\<close> is NULL.\<close>
type_synonym 'a ptr = "'a option"

text \<open>A memory block: one cell per element, \<open>None\<close> for a cell that was never written.\<close>
type_synonym 'a block = "'a option list"

named_theorems fault_simps "rewriting of computations that may fault"
named_theorems block_simps "rewriting of block accesses"

subsection \<open>Sequencing of computations that may fault\<close>

definition bnd :: "'a result \<Rightarrow> ('a \<Rightarrow> 'b result) \<Rightarrow> 'b result" where
  "bnd m f = (case m of Inl e \<Rightarrow> Inl e | Inr x \<Rightarrow> f x)"

definition check :: "bool \<Rightarrow> fault \<Rightarrow> unit result" where
  "check c e = (if c then Inr () else Inl e)"

lemma bnd_Inr [simp, fault_simps]: "bnd (Inr x) f = f x"
  by (simp add: bnd_def)

lemma bnd_Inl [simp, fault_simps]: "bnd (Inl e) f = Inl e"
  by (simp add: bnd_def)

lemma bnd_assoc: "bnd (bnd m f) g = bnd m (\<lambda>x. bnd (f x) g)"
  by (simp add: bnd_def split: sum.split)

lemma bnd_eq_Inr [fault_simps]: "bnd m f = Inr y \<longleftrightarrow> (\<exists>x. m = Inr x \<and> f x = Inr y)"
  by (auto simp: bnd_def split: sum.splits)

lemma bnd_eq_Inl: "bnd m f = Inl e \<longleftrightarrow> m = Inl e \<or> (\<exists>x. m = Inr x \<and> f x = Inl e)"
  by (auto simp: bnd_def split: sum.splits)

lemma bnd_Inr_right [simp]: "bnd m Inr = m"
  by (simp add: bnd_def split: sum.split)

lemma bnd_cong [fundef_cong]:
  "m = m' \<Longrightarrow> (\<And>x. m' = Inr x \<Longrightarrow> f x = f' x) \<Longrightarrow> bnd m f = bnd m' f'"
  by (auto simp: bnd_def split: sum.splits)

lemma check_True [simp, fault_simps]: "check True e = Inr ()"
  by (simp add: check_def)

lemma check_False [simp, fault_simps]: "check False e = Inl e"
  by (simp add: check_def)

lemma check_eq_Inr [fault_simps]: "check c e = Inr u \<longleftrightarrow> c"
  by (simp add: check_def)

text \<open>Reading through a pointer that may be NULL.\<close>

definition deref :: "'a ptr \<Rightarrow> 'a result" where
  "deref p = (case p of None \<Rightarrow> Inl NullPointer | Some x \<Rightarrow> Inr x)"

lemma deref_simps [simp, fault_simps]: "deref (Some x) = Inr x" "deref None = Inl NullPointer"
  by (simp_all add: deref_def)

lemma deref_eq_Inr [fault_simps]: "deref p = Inr x \<longleftrightarrow> p = Some x"
  by (simp add: deref_def split: option.split)

subsection \<open>Blocks\<close>

definition fresh :: "nat \<Rightarrow> 'a block" where
  "fresh n = replicate n None"

definition rd :: "'a block \<Rightarrow> nat \<Rightarrow> 'a result" where
  "rd b i = (if i < length b
             then (case b ! i of None \<Rightarrow> Inl Uninitialised | Some x \<Rightarrow> Inr x)
             else Inl OutOfBounds)"

definition wr :: "'a block \<Rightarrow> nat \<Rightarrow> 'a \<Rightarrow> 'a block result" where
  "wr b i x = (if i < length b then Inr (b[i := Some x]) else Inl OutOfBounds)"

text \<open>Copy of \<open>n\<close> cells, initialised or not, from offset \<open>si\<close> of one block to offset \<open>di\<close> of another.\<close>

definition blit :: "'a block \<Rightarrow> nat \<Rightarrow> nat \<Rightarrow> 'a block \<Rightarrow> nat \<Rightarrow> 'a block result" where
  "blit src si n dst di =
     (if si + n \<le> length src \<and> di + n \<le> length dst
      then Inr (take di dst @ take n (drop si src) @ drop (di + n) dst)
      else Inl OutOfBounds)"

text \<open>The first \<open>n\<close> cells of the block hold exactly the values \<open>xs\<close>.\<close>

definition holds :: "'a block \<Rightarrow> 'a list \<Rightarrow> bool" where
  "holds b xs \<longleftrightarrow> length xs \<le> length b \<and> take (length xs) b = map Some xs"

lemma length_fresh [simp, block_simps]: "length (fresh n) = n"
  by (simp add: fresh_def)

lemma wr_ok [block_simps]: "i < length b \<Longrightarrow> wr b i x = Inr (b[i := Some x])"
  by (simp add: wr_def)

lemma wr_eq_Inr [fault_simps]: "wr b i x = Inr b' \<longleftrightarrow> i < length b \<and> b' = b[i := Some x]"
  by (auto simp: wr_def)

lemma rd_eq_Inr [fault_simps]: "rd b i = Inr x \<longleftrightarrow> i < length b \<and> b ! i = Some x"
  by (auto simp: rd_def split: option.split)

lemma rd_wr_same: "wr b i x = Inr b' \<Longrightarrow> rd b' i = Inr x"
  by (auto simp: wr_def rd_def split: if_splits)

lemma rd_wr_other: "wr b i x = Inr b' \<Longrightarrow> i \<noteq> j \<Longrightarrow> rd b' j = rd b j"
  by (auto simp: wr_def rd_def split: if_splits)

lemma blit_ok [block_simps]:
  "si + n \<le> length src \<Longrightarrow> di + n \<le> length dst \<Longrightarrow>
   blit src si n dst di = Inr (take di dst @ take n (drop si src) @ drop (di + n) dst)"
  by (simp add: blit_def)

lemma length_blit: "blit src si n dst di = Inr b \<Longrightarrow> length b = length dst"
  by (auto simp: blit_def split: if_splits)

lemma holds_Nil [simp]: "holds b []"
  by (simp add: holds_def)

lemma holds_length: "holds b xs \<Longrightarrow> length xs \<le> length b"
  by (simp add: holds_def)

lemma holds_nth:
  assumes "holds b xs" and "i < length xs"
  shows "b ! i = Some (xs ! i)"
proof -
  from assms have "take (length xs) b ! i = map Some xs ! i" by (simp add: holds_def)
  with assms(2) show ?thesis by simp
qed

lemma holds_iff_nth:
  "holds b xs \<longleftrightarrow> length xs \<le> length b \<and> (\<forall>i < length xs. b ! i = Some (xs ! i))"
  by (auto simp: holds_def list_eq_iff_nth_eq)

lemma holds_rd: "holds b xs \<Longrightarrow> i < length xs \<Longrightarrow> rd b i = Inr (xs ! i)"
  using holds_nth [of b xs i] holds_length [of b xs] by (simp add: rd_def)

lemma holds_snoc: "holds b xs \<Longrightarrow> length xs < length b \<Longrightarrow> holds (b[length xs := Some x]) (xs @ [x])"
  by (auto simp: holds_iff_nth nth_append nth_list_update less_Suc_eq)

lemma holds_butlast: "holds b (xs @ ys) \<Longrightarrow> holds b xs"
  by (auto simp: holds_iff_nth nth_append split: if_splits)

lemma holds_take: "holds b xs \<Longrightarrow> holds b (take n xs)"
  by (auto simp: holds_iff_nth)

lemma holds_append_cells: "holds (map Some xs @ rest) xs"
  by (simp add: holds_def)

lemma holds_update_beyond: "holds b xs \<Longrightarrow> length xs \<le> i \<Longrightarrow> holds (b[i := c]) xs"
  by (auto simp: holds_iff_nth)

lemma take_eq_of_holds: "holds b xs \<Longrightarrow> take (length xs) b = map Some xs"
  by (simp add: holds_def)

subsection \<open>Fixed-width arithmetic\<close>

lemma unat_inc: "unat w < 2 ^ LENGTH('a) - 1 \<Longrightarrow> unat ((w::'a::len word) + 1) = unat w + 1"
  by (simp add: unat_word_ariths)

lemma unat_inc_less:
  "(w::'a::len word) < v \<Longrightarrow> unat (w + 1) = unat w + 1"
proof -
  assume "w < v"
  then have "unat w < unat v" by (simp add: word_less_nat_alt)
  moreover have "unat v < 2 ^ LENGTH('a)" by simp
  ultimately have "Suc (unat w) < 2 ^ LENGTH('a)" by linarith
  then show ?thesis by (simp add: unat_word_ariths)
qed

lemma unat_dec: "(w::'a::len word) \<noteq> 0 \<Longrightarrow> unat (w - 1) = unat w - 1"
  by (simp add: unat_gt_0 unat_sub word_le_nat_alt Suc_leI)

lemma unat_plus_fits:
  "unat (a::'a::len word) + unat b < 2 ^ LENGTH('a) \<Longrightarrow> unat (a + b) = unat a + unat b"
  by (simp add: unat_word_ariths)

lemma unat_minus_fits: "(b::'a::len word) \<le> a \<Longrightarrow> unat (a - b) = unat a - unat b"
  by (simp add: unat_sub)

lemma unat_shl1_fits:
  "unat (w::u32) < 2 ^ 31 \<Longrightarrow> unat (push_bit 1 w) = 2 * unat w"
  by (simp add: push_bit_eq_mult unat_word_ariths)

lemma unat_u32_lt: "unat (w::u32) < 4294967296"
proof -
  have "unat w < 2 ^ LENGTH(32)" by (rule unsigned_less)
  then show ?thesis by simp
qed

lemma unat_u64_lt: "unat (w::u64) < 18446744073709551616"
proof -
  have "unat w < 2 ^ LENGTH(64)" by (rule unsigned_less)
  then show ?thesis by simp
qed

lemma uint_neg_sint32:
  assumes "sint (w::u32) < 0" and "w \<noteq> 0x80000000"
  shows "uint (- w) = - sint w" and "int (unat (- w)) = - sint w"
proof -
  have "sint w \<noteq> sint (0x80000000::u32)"
  proof
    assume "sint w = sint (0x80000000::u32)"
    then have "of_int (sint w) = (of_int (sint (0x80000000::u32)) :: u32)" by (rule arg_cong)
    with assms(2) show False by (simp only: of_int_sint) simp
  qed
  moreover have "sint (0x80000000::u32) = - (2 ^ 31)" by simp
  moreover have "- (2 ^ 31) \<le> sint w" using sint_ge [of w] by simp
  ultimately have lo: "- (2 ^ 31) < sint w" by linarith
  have "sint (- w) = - sint w"
    using assms(1) lo unfolding sint_word_minus by (simp add: signed_take_bit_int_eq_self_iff)
  then have "uint (- w) = take_bit 32 (- sint w)" by (simp add: uint_sint)
  also have "\<dots> = - sint w" using assms(1) lo by (simp add: take_bit_int_eq_self_iff)
  finally show u: "uint (- w) = - sint w" .
  show "int (unat (- w)) = - sint w" using u by (simp only: uint_nat)
qed

lemma uint_sint32_pos: "0 \<le> sint (w::u32) \<Longrightarrow> int (unat w) = sint w"
proof -
  assume w: "0 \<le> sint w"
  moreover have "sint w < 2 ^ 31" using sint_lt [of w] by simp
  ultimately have "take_bit 32 (sint w) = sint w" by (simp add: take_bit_int_eq_self_iff)
  then have "uint w = sint w" by (simp add: uint_sint)
  then show ?thesis by (simp only: uint_nat)
qed

lemma uint_neg_sint64:
  assumes "sint (w::u64) < 0" and "w \<noteq> 0x8000000000000000"
  shows "uint (- w) = - sint w" and "int (unat (- w)) = - sint w"
proof -
  have "sint w \<noteq> sint (0x8000000000000000::u64)"
  proof
    assume "sint w = sint (0x8000000000000000::u64)"
    then have "of_int (sint w) = (of_int (sint (0x8000000000000000::u64)) :: u64)" by (rule arg_cong)
    with assms(2) show False by (simp only: of_int_sint) simp
  qed
  moreover have "sint (0x8000000000000000::u64) = - (2 ^ 63)" by simp
  moreover have "- (2 ^ 63) \<le> sint w" using sint_ge [of w] by simp
  ultimately have lo: "- (2 ^ 63) < sint w" by linarith
  have "sint (- w) = - sint w"
    using assms(1) lo unfolding sint_word_minus by (simp add: signed_take_bit_int_eq_self_iff)
  then have "uint (- w) = take_bit 64 (- sint w)" by (simp add: uint_sint)
  also have "\<dots> = - sint w" using assms(1) lo by (simp add: take_bit_int_eq_self_iff)
  finally show u: "uint (- w) = - sint w" .
  show "int (unat (- w)) = - sint w" using u by (simp only: uint_nat)
qed

lemma uint_sint64_pos: "0 \<le> sint (w::u64) \<Longrightarrow> int (unat w) = sint w"
proof -
  assume w: "0 \<le> sint w"
  moreover have "sint w < 2 ^ 63" using sint_lt [of w] by simp
  ultimately have "take_bit 64 (sint w) = sint w" by (simp add: take_bit_int_eq_self_iff)
  then have "uint w = sint w" by (simp add: uint_sint)
  then show ?thesis by (simp only: uint_nat)
qed

lemma sint_small:
  assumes "unat (w::u32) < 2 ^ 31"
  shows "sint w = int (unat w)"
proof -
  have "unat w < 2147483648" using assms by simp
  then have "uint w < 2147483648" unfolding uint_nat by linarith
  moreover have "- 2147483648 \<le> uint w" by (rule order_trans [of _ 0]) simp_all
  ultimately have "sint w = uint w" by (simp add: sint_uint signed_take_bit_int_eq_self_iff)
  then show ?thesis by (simp only: uint_nat)
qed

subsection \<open>Iterating operations that may fault\<close>

text \<open>A list of calls in order; the state is threaded and the first fault stops the run.\<close>

primrec fold_result :: "('s \<Rightarrow> 'x \<Rightarrow> 's result) \<Rightarrow> 's \<Rightarrow> 'x list \<Rightarrow> 's result" where
  "fold_result f s [] = Inr s"
| "fold_result f s (x # xs) = bnd (f s x) (\<lambda>s'. fold_result f s' xs)"

text \<open>\<open>n\<close> calls that each yield a value; the values in call order.\<close>

primrec collect :: "nat \<Rightarrow> ('s \<Rightarrow> ('x \<times> 's) result) \<Rightarrow> 's \<Rightarrow> ('x list \<times> 's) result" where
  "collect 0 f s = Inr ([], s)"
| "collect (Suc n) f s =
     bnd (f s) (\<lambda>(x, s'). bnd (collect n f s') (\<lambda>(xs, s''). Inr (x # xs, s'')))"

text \<open>The cells \<open>i, i+1, ...\<close> (\<open>n\<close> of them) read in ascending order.\<close>

primrec read_cells :: "'a block \<Rightarrow> nat \<Rightarrow> nat \<Rightarrow> 'a list result" where
  "read_cells b i 0 = Inr []"
| "read_cells b i (Suc n) =
     bnd (rd b i) (\<lambda>x. bnd (read_cells b (Suc i) n) (\<lambda>xs. Inr (x # xs)))"

lemma fold_result_append:
  "fold_result f s (xs @ ys) = bnd (fold_result f s xs) (\<lambda>s'. fold_result f s' ys)"
  by (induction xs arbitrary: s) (simp_all add: bnd_assoc)

lemma fold_result_invariant:
  assumes "P s" and "\<And>s x. P s \<Longrightarrow> x \<in> set xs \<Longrightarrow> \<exists>s'. f s x = Inr s' \<and> P s'"
  shows "\<exists>s'. fold_result f s xs = Inr s' \<and> P s'"
  using assms
proof (induction xs arbitrary: s)
  case (Cons x xs)
  from Cons.prems obtain s1 where "f s x = Inr s1" "P s1" by force
  with Cons.IH [of s1] Cons.prems(2) show ?case by auto
qed simp

lemma read_cells_holds:
  assumes "holds b (xs @ ys)"
  shows "read_cells b (length xs) (length ys) = Inr ys"
  using assms
proof (induction ys arbitrary: xs)
  case (Cons y ys)
  have "rd b (length xs) = Inr y" using holds_rd [OF Cons.prems, of "length xs"] by simp
  moreover have "read_cells b (length (xs @ [y])) (length ys) = Inr ys"
    by (rule Cons.IH) (use Cons.prems in simp)
  ultimately show ?case by simp
qed simp

lemma read_cells_all: "holds b xs \<Longrightarrow> read_cells b 0 (length xs) = Inr xs"
  using read_cells_holds [of b "[]" xs] by simp

subsection \<open>Loops\<close>

text \<open>
  A loop whose body yields the next state (\<open>Inl\<close>) or leaves the loop with a value (\<open>Inr\<close>). A loop
  that never leaves is the fault \<open>NoReturn\<close>, so that a statement that excludes every fault also
  says that the loop ends.
\<close>

definition goes_on :: "('s + 'r) result \<Rightarrow> bool" where
  "goes_on x = (case x of Inr (Inl s) \<Rightarrow> True | _ \<Rightarrow> False)"

definition repeat_until :: "('s \<Rightarrow> ('s + 'r) result) \<Rightarrow> 's \<Rightarrow> 'r result" where
  "repeat_until body s =
     (case while_option goes_on (\<lambda>x. case x of Inr (Inl s) \<Rightarrow> body s | _ \<Rightarrow> x) (Inr (Inl s)) of
        None \<Rightarrow> Inl NoReturn
      | Some x \<Rightarrow> (case x of Inl e \<Rightarrow> Inl e | Inr (Inl s) \<Rightarrow> Inl NoReturn | Inr (Inr r) \<Rightarrow> Inr r))"

lemma repeat_until_unfold:
  "repeat_until body s =
     bnd (body s) (\<lambda>x. case x of Inl s' \<Rightarrow> repeat_until body s' | Inr r \<Rightarrow> Inr r)"
proof -
  let ?c = "\<lambda>x. case x of Inr (Inl s) \<Rightarrow> body s | _ \<Rightarrow> x"
  have "while_option goes_on ?c (Inr (Inl s)) = while_option goes_on ?c (body s)"
    by (subst while_option_unfold) (simp add: goes_on_def)
  moreover have "while_option goes_on ?c y = Some y" if "\<not> goes_on y" for y
    using that by (subst while_option_unfold) simp
  ultimately show ?thesis
    by (auto simp: repeat_until_def bnd_def goes_on_def split: sum.split)
qed

text \<open>
  Rule for a loop with an invariant \<open>P\<close> and a measure: it ends, and its outcome satisfies what the
  bodies promise.
\<close>

lemma repeat_until_rule:
  fixes m :: "'s \<Rightarrow> nat"
  assumes "P s"
    and "\<And>s. P s \<Longrightarrow> (case body s of Inl e \<Rightarrow> E e | Inr (Inl s') \<Rightarrow> P s' \<and> m s' < m s | Inr (Inr r) \<Rightarrow> Q r)"
  shows "case repeat_until body s of Inl e \<Rightarrow> E e | Inr r \<Rightarrow> Q r"
  using assms(1)
proof (induction "m s" arbitrary: s rule: less_induct)
  case less
  note step = assms(2) [OF less.prems]
  show ?case
  proof (cases "body s")
    case (Inl e)
    then show ?thesis using step by (simp add: repeat_until_unfold [of body s])
  next
    case (Inr x)
    then show ?thesis
      using step less.hyps by (cases x) (simp_all add: repeat_until_unfold [of body s])
  qed
qed

end
