(* ===== verification/CMemory.thy ===== *)
theory CMemory
  imports Prelude
begin

text \<open>
  The allocation and copy routines of lang/memory: the C part (memory.c) and the routines of
  memory.linux-x86_64.asm that the C components call. Sizes are \<open>size_t\<close> values read as \<open>nat\<close>;
  the overflow checks of the code are kept. A block is counted in cells of the element type, so
  the routines take the size \<open>t\<close> of one cell in bytes. Running out of memory (a NULL from
  aligned_alloc, which makes the code abort) is left out: an allocation that passes the size
  checks succeeds.
\<close>

subsection \<open>Allocation\<close>

text \<open>\<open>jo\<close> after an addition of 15: the signed overflow flag of a 64-bit addition.\<close>

definition add15_overflows :: "nat \<Rightarrow> bool" where
  "add15_overflows n \<longleftrightarrow> n < 2 ^ 63 \<and> 2 ^ 63 \<le> n + 15"

definition alloc_size :: "nat \<Rightarrow> nat result" where
  "alloc_size n = (if add15_overflows n then Inl Abort
                   else Inr (((n + 15) mod 2 ^ 64) div 16 * 16))"

definition f668c4bd_malloc :: "nat \<Rightarrow> nat \<Rightarrow> 'a block result" where
  "f668c4bd_malloc t sz = bnd (alloc_size sz) (\<lambda>n. Inr (fresh (n div t)))"

definition f668c4bd_mallocArray :: "nat \<Rightarrow> nat \<Rightarrow> 'a block result" where
  "f668c4bd_mallocArray t numBlocks =
     (if 2 ^ 64 \<le> t * numBlocks then Inl Abort else f668c4bd_malloc t (t * numBlocks))"

text \<open>A struct of \<open>structSize\<close> bytes followed by \<open>numBlocks\<close> cells: the trailing cells.\<close>

definition f668c4bd_mallocFlexibleStruct :: "nat \<Rightarrow> nat \<Rightarrow> nat \<Rightarrow> 'a block result" where
  "f668c4bd_mallocFlexibleStruct structSize t numBlocks =
     (if 2 ^ 64 \<le> t * numBlocks then Inl Abort
      else bnd (alloc_size (t * numBlocks + structSize)) (\<lambda>n. Inr (fresh ((n - structSize) div t))))"

text \<open>A string buffer always gets at least one byte more than asked for.\<close>

definition f668c4bd_stralloc :: "nat \<Rightarrow> 'a block result" where
  "f668c4bd_stralloc sz =
     (let n = (sz div 16 + 1) * 16 mod 2 ^ 64
      in if n = 0 then Inl Abort else Inr (fresh n))"

text \<open>The eight-byte copy loop of resizeArray moves whole quadwords.\<close>

definition copied_cells :: "nat \<Rightarrow> nat \<Rightarrow> nat" where
  "copied_cells t arrayLen = 8 * ((t * arrayLen + 7) div 8) div t"

definition f668c4bd_resizeArray :: "'a block ptr \<Rightarrow> u32 \<Rightarrow> nat \<Rightarrow> nat \<Rightarrow> 'a block result" where
  "f668c4bd_resizeArray arrayPtr arrayLen t numBlocks =
     (case arrayPtr of None \<Rightarrow> Inl Abort
      | Some old \<Rightarrow>
          if arrayLen = 0 \<or> t = 0 \<or> numBlocks = 0 \<or> 2 ^ 64 \<le> t * numBlocks then Inl Abort
          else bnd (alloc_size (t * numBlocks)) (\<lambda>n.
               blit old 0 (copied_cells t (unat arrayLen)) (fresh (n div t)) 0))"

subsection \<open>Copying and clearing\<close>

definition f668c4bd_memcopy :: "'a block \<Rightarrow> nat \<Rightarrow> 'a block \<Rightarrow> nat \<Rightarrow> nat \<Rightarrow> 'a block result" where
  "f668c4bd_memcopy source si dest di n = blit source si n dest di"

definition f668c4bd_meminit :: "'a \<Rightarrow> 'a block \<Rightarrow> nat \<Rightarrow> nat \<Rightarrow> 'a block result" where
  "f668c4bd_meminit zero b i n =
     (if i + n \<le> length b then Inr (take i b @ replicate n (Some zero) @ drop (i + n) b)
      else Inl OutOfBounds)"

subsection \<open>The C part: free and the realloc wrappers\<close>

text \<open>
  \<open>usable\<close> is malloc_usable_size of the pointer; the result says whether free() is called.
  realloc() may return NULL because it failed (\<open>fails\<close>) or because the new size is 0.
\<close>

definition f668c4bd_free :: "('p \<Rightarrow> nat) \<Rightarrow> 'p \<Rightarrow> bool" where
  "f668c4bd_free usable p = (usable p > 0)"

definition c_realloc :: "bool \<Rightarrow> 'a block \<Rightarrow> nat \<Rightarrow> 'a block ptr" where
  "c_realloc fails b n =
     (if fails \<or> n = 0 then None else Some (take n b @ fresh (n - length b)))"

definition f668c4bd_realloc_void_size :: "bool \<Rightarrow> 'a block \<Rightarrow> nat \<Rightarrow> 'a block ptr result" where
  "f668c4bd_realloc_void_size fails b newSize =
     (let buffer = c_realloc fails b newSize
      in if buffer = None \<and> newSize \<noteq> 0 then Inl Abort else Inr buffer)"

definition f668c4bd_realloc_void_size_size ::
    "bool \<Rightarrow> 'a block \<Rightarrow> nat \<Rightarrow> nat \<Rightarrow> 'a block ptr result" where
  "f668c4bd_realloc_void_size_size fails b typeSize numBlocks =
     (let newSize = typeSize * numBlocks mod 2 ^ 64;
          buffer = c_realloc fails b newSize
      in if buffer = None \<and> newSize \<noteq> 0 then Inl Abort else Inr buffer)"

subsection \<open>Lemmas\<close>

lemma alloc_size_small: "n < 2 ^ 40 \<Longrightarrow> alloc_size n = Inr ((n + 15) div 16 * 16)"
  by (simp add: alloc_size_def add15_overflows_def)

lemma malloc_small [block_simps]:
  "n < 2 ^ 40 \<Longrightarrow> f668c4bd_malloc t n = Inr (fresh ((n + 15) div 16 * 16 div t))"
  by (simp add: f668c4bd_malloc_def alloc_size_small)

lemma mallocArray_small [block_simps]:
  "t * n < 2 ^ 40 \<Longrightarrow> f668c4bd_mallocArray t n = Inr (fresh ((t * n + 15) div 16 * 16 div t))"
  by (simp add: f668c4bd_mallocArray_def malloc_small)

lemma cells8: "(8 * n + 15) div 16 * 16 div 8 = (n + 1) div 2 * (2::nat)"
proof -
  have "(8 * n + 15) div 16 = (8 * n + 15) div 8 div 2" by (simp add: div_mult2_eq [symmetric])
  also have "(8 * n + 15) div 8 = n + 1" by simp
  finally show ?thesis by simp
qed

lemma even_above: "n \<le> (n + 1) div 2 * (2::nat)"
  by simp

lemma malloc8_cells:
  "f668c4bd_malloc 8 (8 * unat (n::u32)) = Inr (fresh ((unat n + 1) div 2 * 2))"
proof -
  have "8 * unat n < 2 ^ 40" using unat_u32_lt [of n] by simp
  then show ?thesis by (simp add: malloc_small cells8)
qed

lemma mallocArray8_cells:
  "f668c4bd_mallocArray 8 (unat (n::u32)) = Inr (fresh ((unat n + 1) div 2 * 2))"
proof -
  have "8 * unat n < 2 ^ 40" using unat_u32_lt [of n] by simp
  then show ?thesis by (simp add: mallocArray_small cells8)
qed

lemma copied_cells8 [simp]: "copied_cells 8 n = n"
  by (simp add: copied_cells_def)

lemma copied_cells1: "copied_cells 1 n = 8 * ((n + 7) div 8)"
  by (simp add: copied_cells_def)

lemma copied_cells4: "copied_cells 4 n = (n + 1) div 2 * 2"
proof -
  have "(4 * n + 7) div 8 = (4 * n + 7) div 4 div 2" by (simp add: div_mult2_eq [symmetric])
  also have "(4 * n + 7) div 4 = n + 1" by simp
  finally show ?thesis by (simp add: copied_cells_def)
qed

text \<open>
  Growing a block: with room for \<open>newSize\<close> cells the values are kept, the length grows, and the
  remaining cells are unwritten.
\<close>

lemma resizeArray8:
  assumes "0 < unat len" and "unat len \<le> n" and "n < 2 ^ 33" and "unat len \<le> length b"
  shows "f668c4bd_resizeArray (Some b) len 8 n =
           Inr (take (unat len) b @ fresh ((n + 1) div 2 * 2 - unat len))"
proof -
  have "len \<noteq> 0" using assms(1) by auto
  moreover have "n \<noteq> 0" using assms by auto
  moreover have "alloc_size (8 * n) = Inr ((8 * n + 15) div 16 * 16)"
    using assms by (intro alloc_size_small) simp
  ultimately show ?thesis
    using assms by (simp add: f668c4bd_resizeArray_def cells8 blit_def fresh_def)
qed

lemma resizeArray_empty: "f668c4bd_resizeArray p 0 t n = Inl Abort"
  by (simp add: f668c4bd_resizeArray_def split: option.split)

lemma holds_resize:
  assumes "holds b xs" and "length xs \<le> k"
  shows "holds (take k b @ c) xs"
  using assms by (auto simp: holds_iff_nth nth_append)

lemma meminit_all: "f668c4bd_meminit z (fresh n) 0 n = Inr (replicate n (Some z))"
  by (simp add: f668c4bd_meminit_def fresh_def)

end
