(* ===== verification/StackArray.thy ===== *)
theory StackArray
  imports CMemory
begin

text \<open>
  adt/stackarray.c: a stack of pointers in a block that doubles when it is full. The record has
  the fields of struct StackArray; an element is a \<open>void *\<close>, hence \<open>'a ptr\<close>. The contract of a
  last-in first-out store is the locale \<open>lifo\<close>; the pools of memory/, io/filebuffer.c and
  io/async.c are its clients.
\<close>

record 'a StackArray =
  sa_values :: "'a ptr block ptr"
  sa_length :: u32
  sa_size :: u32

subsection \<open>Operations\<close>

definition F106C0AB_DEFAULT_SIZE :: u32 where
  "F106C0AB_DEFAULT_SIZE = 8"

definition f106c0ab_createStackArray :: "'a StackArray result" where
  "f106c0ab_createStackArray =
     bnd (f668c4bd_malloc 8 (8 * unat F106C0AB_DEFAULT_SIZE)) (\<lambda>values.
     Inr \<lparr>sa_values = Some values, sa_length = 0, sa_size = F106C0AB_DEFAULT_SIZE\<rparr>)"

definition f106c0ab_createStackArray_size :: "u32 \<Rightarrow> 'a StackArray result" where
  "f106c0ab_createStackArray_size sz =
     (let sz = (if sz < F106C0AB_DEFAULT_SIZE then F106C0AB_DEFAULT_SIZE else sz)
      in bnd (f668c4bd_malloc 8 (8 * unat sz)) (\<lambda>values.
         Inr \<lparr>sa_values = Some values, sa_length = 0, sa_size = sz\<rparr>))"

definition f106c0ab_initStackArray :: "'a StackArray \<Rightarrow> 'a StackArray result" where
  "f106c0ab_initStackArray stackArray =
     bnd (f668c4bd_malloc 8 (8 * unat F106C0AB_DEFAULT_SIZE)) (\<lambda>values.
     Inr (stackArray\<lparr>sa_values := Some values, sa_size := F106C0AB_DEFAULT_SIZE, sa_length := 0\<rparr>))"

definition f106c0ab_initStackArray_size :: "'a StackArray \<Rightarrow> u32 \<Rightarrow> 'a StackArray result" where
  "f106c0ab_initStackArray_size stackArray sz =
     (let sz = (if sz < F106C0AB_DEFAULT_SIZE then F106C0AB_DEFAULT_SIZE else sz)
      in bnd (f668c4bd_malloc 8 (8 * unat sz)) (\<lambda>values.
         Inr (stackArray\<lparr>sa_values := Some values, sa_size := sz, sa_length := 0\<rparr>)))"

text \<open>
  The elements handed to freeElement by the loop of cleanUpStackArray, in call order. The flag
  tells whether a function was passed (it is not NULL).
\<close>

primrec sa_free_loop :: "'a ptr block \<Rightarrow> nat \<Rightarrow> 'a ptr list result" where
  "sa_free_loop values 0 = Inr []"
| "sa_free_loop values (Suc n) =
     bnd (rd values n) (\<lambda>e. bnd (sa_free_loop values n) (\<lambda>es. Inr (e # es)))"

definition f106c0ab_cleanUpStackArray ::
    "'a StackArray \<Rightarrow> bool \<Rightarrow> ('a ptr list \<times> 'a StackArray) result" where
  "f106c0ab_cleanUpStackArray stackArray freeElement =
     (case sa_values stackArray of
        None \<Rightarrow> Inr ([], stackArray)
      | Some values \<Rightarrow>
          if freeElement then
            bnd (sa_free_loop values (unat (sa_length stackArray))) (\<lambda>es.
            Inr (es, stackArray\<lparr>sa_length := 0\<rparr>))
          else Inr ([], stackArray))"

definition f106c0ab_clear :: "'a StackArray \<Rightarrow> 'a StackArray" where
  "f106c0ab_clear stackArray = stackArray\<lparr>sa_length := 0\<rparr>"

definition f106c0ab_peek :: "'a StackArray \<Rightarrow> 'a ptr result" where
  "f106c0ab_peek stackArray =
     (if sa_length stackArray = 0 then Inr None
      else bnd (deref (sa_values stackArray)) (\<lambda>values.
           rd values (unat (sa_length stackArray - 1))))"

definition f106c0ab_pop :: "'a StackArray \<Rightarrow> ('a ptr \<times> 'a StackArray) result" where
  "f106c0ab_pop stackArray =
     (if sa_length stackArray = 0 then Inr (None, stackArray)
      else (let len = sa_length stackArray - 1
            in bnd (deref (sa_values stackArray)) (\<lambda>values.
               bnd (rd values (unat len)) (\<lambda>e.
               Inr (e, stackArray\<lparr>sa_length := len\<rparr>)))))"

definition f106c0ab_push :: "'a StackArray \<Rightarrow> 'a ptr \<Rightarrow> 'a StackArray result" where
  "f106c0ab_push stackArray item =
     bnd (if sa_length stackArray = sa_size stackArray then
            let sz = push_bit 1 (sa_size stackArray)
            in bnd (f668c4bd_resizeArray (sa_values stackArray) (sa_length stackArray) 8 (unat sz)) (\<lambda>values.
               Inr (stackArray\<lparr>sa_size := sz, sa_values := Some values\<rparr>))
          else Inr stackArray) (\<lambda>stackArray.
     bnd (deref (sa_values stackArray)) (\<lambda>values.
     bnd (wr values (unat (sa_length stackArray)) item) (\<lambda>values.
     Inr (stackArray\<lparr>sa_values := Some values, sa_length := sa_length stackArray + 1\<rparr>))))"

subsection \<open>The abstract stack\<close>

text \<open>\<open>sa_rep s xs\<close>: the stack is well formed and holds \<open>xs\<close>, bottom first.\<close>

definition sa_rep :: "'a StackArray \<Rightarrow> 'a ptr list \<Rightarrow> bool" where
  "sa_rep s xs \<longleftrightarrow>
     (case sa_values s of None \<Rightarrow> False
      | Some b \<Rightarrow> unat (sa_size s) \<le> length b \<and> holds b xs) \<and>
     length xs = unat (sa_length s) \<and> sa_length s \<le> sa_size s \<and> 8 \<le> sa_size s"

lemma sa_repE:
  assumes "sa_rep s xs"
  obtains b where "sa_values s = Some b" "unat (sa_size s) \<le> length b" "holds b xs"
    "length xs = unat (sa_length s)" "sa_length s \<le> sa_size s" "8 \<le> sa_size s"
  using assms by (auto simp: sa_rep_def split: option.splits)

lemma sa_create: "\<exists>s. f106c0ab_createStackArray = Inr s \<and> sa_rep s []"
  by (simp add: f106c0ab_createStackArray_def malloc_small sa_rep_def F106C0AB_DEFAULT_SIZE_def)

lemma sa_create_size: "\<exists>s. f106c0ab_createStackArray_size n = Inr s \<and> sa_rep s [] \<and> n \<le> sa_size s"
  by (auto simp: f106c0ab_createStackArray_size_def malloc8_cells sa_rep_def
      F106C0AB_DEFAULT_SIZE_def Let_def not_less)

lemma sa_init: "\<exists>s'. f106c0ab_initStackArray s = Inr s' \<and> sa_rep s' []"
  by (simp add: f106c0ab_initStackArray_def malloc_small sa_rep_def F106C0AB_DEFAULT_SIZE_def)

lemma sa_init_size:
  "\<exists>s'. f106c0ab_initStackArray_size s n = Inr s' \<and> sa_rep s' []"
  by (auto simp: f106c0ab_initStackArray_size_def malloc8_cells sa_rep_def
      F106C0AB_DEFAULT_SIZE_def Let_def not_less)

lemma sa_clear: "sa_rep s xs \<Longrightarrow> sa_rep (f106c0ab_clear s) []"
  by (auto simp: f106c0ab_clear_def sa_rep_def split: option.splits)

lemma sa_pop_Nil: "sa_rep s [] \<Longrightarrow> f106c0ab_pop s = Inr (None, s)"
  by (auto elim!: sa_repE simp: f106c0ab_pop_def unat_eq_0)

lemma length_snoc_word:
  assumes "length (xs @ [x]) = unat (n::u32)"
  shows "n \<noteq> 0" and "unat (n - 1) = length xs" and "n - 1 \<le> n"
proof -
  show n: "n \<noteq> 0" using assms by auto
  show len: "unat (n - 1) = length xs" using assms unat_dec [OF n] by simp
  show "n - 1 \<le> n" using len assms by (simp add: word_le_nat_alt)
qed

lemma sa_pop_snoc:
  assumes "sa_rep s (xs @ [x])"
  shows "\<exists>s'. f106c0ab_pop s = Inr (x, s') \<and> sa_rep s' xs"
proof -
  from assms obtain b where b: "sa_values s = Some b" "unat (sa_size s) \<le> length b"
    "holds b (xs @ [x])" and len: "length (xs @ [x]) = unat (sa_length s)"
    and sz: "sa_length s \<le> sa_size s" "8 \<le> sa_size s" by (rule sa_repE)
  note w = length_snoc_word [OF len]
  have "rd b (length xs) = Inr x" using holds_rd [OF b(3), of "length xs"] by simp
  moreover have "holds b xs" using b(3) by (rule holds_butlast)
  moreover have "sa_length s - 1 \<le> sa_size s" using w(3) sz(1) by simp
  ultimately show ?thesis
    using w b sz by (simp add: f106c0ab_pop_def Let_def sa_rep_def)
qed

lemma sa_peek_snoc: "sa_rep s (xs @ [x]) \<Longrightarrow> f106c0ab_peek s = Inr x"
proof -
  assume "sa_rep s (xs @ [x])"
  then obtain b where b: "sa_values s = Some b" "holds b (xs @ [x])"
    and len: "length (xs @ [x]) = unat (sa_length s)" by (rule sa_repE)
  show ?thesis
    using length_snoc_word [OF len] b holds_rd [OF b(2), of "length xs"]
    by (simp add: f106c0ab_peek_def)
qed

lemma sa_push_room:
  assumes "sa_rep s xs" and "sa_length s < sa_size s"
  shows "\<exists>s'. f106c0ab_push s x = Inr s' \<and> sa_rep s' (xs @ [x])"
proof -
  from assms(1) obtain b where b: "sa_values s = Some b" "unat (sa_size s) \<le> length b" "holds b xs"
    and len: "length xs = unat (sa_length s)" and sz: "8 \<le> sa_size s" by (rule sa_repE)
  have lt: "length xs < length b" using assms(2) len b(2) by (simp add: word_less_nat_alt)
  moreover have inc: "unat (sa_length s + 1) = length xs + 1"
    using unat_inc_less [OF assms(2)] len by simp
  moreover have "sa_length s + 1 \<le> sa_size s"
    using assms(2) inc len by (simp add: word_le_nat_alt word_less_nat_alt)
  moreover have "sa_length s \<noteq> sa_size s" using assms(2) by simp
  ultimately show ?thesis
    using b len sz holds_snoc [OF b(3) lt]
    by (simp add: f106c0ab_push_def wr_ok sa_rep_def)
qed

text \<open>A full stack doubles; the elements survive and the new size has room.\<close>

lemma sa_push_grow:
  assumes "sa_rep s xs" and "sa_length s = sa_size s" and "length xs < 2 ^ 31"
  obtains s' where "f106c0ab_push s x = f106c0ab_push s' x" "sa_rep s' xs" "sa_length s' < sa_size s'"
    "sa_size s' = push_bit 1 (sa_size s)"
proof -
  from assms(1) obtain b where b: "sa_values s = Some b" "unat (sa_size s) \<le> length b" "holds b xs"
    and len: "length xs = unat (sa_length s)" and sz: "8 \<le> sa_size s" by (rule sa_repE)
  let ?n = "push_bit 1 (sa_size s)"
  have sn: "unat (sa_size s) < 2 ^ 31" using assms(2,3) len by simp
  then have n: "unat ?n = 2 * unat (sa_size s)" by (rule unat_shl1_fits)
  have pos: "8 \<le> unat (sa_size s)" using sz by (simp add: word_le_nat_alt)
  let ?b = "take (length xs) b @ fresh ((unat ?n + 1) div 2 * 2 - length xs)"
  have res: "f668c4bd_resizeArray (Some b) (sa_length s) 8 (unat ?n) = Inr ?b"
    unfolding len by (rule resizeArray8) (use assms n pos sn b(2) in auto)
  have hb: "holds ?b xs" by (rule holds_resize [OF b(3)]) simp
  let ?s = "s\<lparr>sa_size := ?n, sa_values := Some ?b\<rparr>"
  have lt: "sa_length s < ?n" using assms(2) n pos by (simp add: word_less_nat_alt)
  have "sa_rep ?s xs"
    using hb len lt b(2) n pos assms(2) by (auto simp: sa_rep_def word_le_nat_alt less_imp_le)
  moreover have "sa_length s \<noteq> ?n" using lt by simp
  then have "f106c0ab_push s x = f106c0ab_push ?s x"
    using assms(2) res b by (simp add: f106c0ab_push_def Let_def)
  ultimately show thesis using that [of ?s] lt by simp
qed

lemma sa_push:
  assumes "sa_rep s xs" and "length xs < 2 ^ 31"
  shows "\<exists>s'. f106c0ab_push s x = Inr s' \<and> sa_rep s' (xs @ [x])"
proof (cases "sa_length s = sa_size s")
  case True
  from assms(1) True assms(2) obtain s' where "f106c0ab_push s x = f106c0ab_push s' x"
    "sa_rep s' xs" "sa_length s' < sa_size s'" by (rule sa_push_grow)
  with sa_push_room [of s' xs x] show ?thesis by simp
next
  case False
  with assms(1) have "sa_length s < sa_size s" by (auto elim!: sa_repE)
  with assms(1) show ?thesis by (rule sa_push_room)
qed

lemma sa_free_loop_rev: "holds b xs \<Longrightarrow> sa_free_loop b (length xs) = Inr (rev xs)"
proof (induction xs rule: rev_induct)
  case (snoc x xs)
  then show ?case using holds_rd [OF snoc.prems, of "length xs"] holds_butlast [OF snoc.prems] by simp
qed simp

lemma sa_cleanUp:
  assumes "sa_rep s xs"
  shows "f106c0ab_cleanUpStackArray s True = Inr (rev xs, s\<lparr>sa_length := 0\<rparr>)"
proof -
  from assms obtain b where "sa_values s = Some b" "holds b xs" "length xs = unat (sa_length s)"
    by (rule sa_repE)
  then show ?thesis using sa_free_loop_rev [of b xs] by (simp add: f106c0ab_cleanUpStackArray_def)
qed

subsection \<open>The contract of a stack\<close>

locale lifo =
  fixes rep :: "'s \<Rightarrow> 'e ptr list \<Rightarrow> bool"
    and push :: "'s \<Rightarrow> 'e ptr \<Rightarrow> 's result"
    and pop :: "'s \<Rightarrow> ('e ptr \<times> 's) result"
    and limit :: nat
  assumes push_law: "rep s xs \<Longrightarrow> length xs < limit \<Longrightarrow> \<exists>s'. push s x = Inr s' \<and> rep s' (xs @ [x])"
    and pop_Nil_law: "rep s [] \<Longrightarrow> pop s = Inr (None, s)"
    and pop_snoc_law: "rep s (xs @ [x]) \<Longrightarrow> \<exists>s'. pop s = Inr (x, s') \<and> rep s' xs"
begin

lemma push_many:
  assumes "rep s xs" and "length xs + length ys \<le> limit"
  shows "\<exists>s'. fold_result push s ys = Inr s' \<and> rep s' (xs @ ys)"
  using assms
proof (induction ys arbitrary: s xs)
  case (Cons y ys)
  from push_law [OF Cons.prems(1), of y] Cons.prems(2)
  obtain s1 where "push s y = Inr s1" "rep s1 (xs @ [y])" by auto
  with Cons.IH [of s1 "xs @ [y]"] Cons.prems(2) show ?case by simp
qed simp

lemma pop_many:
  assumes "rep s (xs @ ys)"
  shows "\<exists>s'. collect (length ys) pop s = Inr (rev ys, s') \<and> rep s' xs"
  using assms
proof (induction ys arbitrary: s rule: rev_induct)
  case (snoc y ys)
  from pop_snoc_law [of s "xs @ ys" y] snoc.prems
  obtain s1 where "pop s = Inr (y, s1)" "rep s1 (xs @ ys)" by auto
  with snoc.IH [of s1] show ?case by auto
qed simp

lemma push_pop_many:
  assumes "rep s xs" and "length xs + length ys \<le> limit"
  shows "\<exists>s' s''. fold_result push s ys = Inr s' \<and>
           collect (length ys) pop s' = Inr (rev ys, s'') \<and> rep s'' xs"
  using push_many [OF assms] pop_many by blast

end

interpretation sa: lifo sa_rep f106c0ab_push f106c0ab_pop "2 ^ 31"
  by unfold_locales (rule sa_push sa_pop_Nil sa_pop_snoc; assumption)+

subsection \<open>Properties\<close>

text \<open>C18: pushing any elements onto a well-formed stack and popping as many returns them in
  reverse order and leaves the former contents, growing the block as often as needed.\<close>

theorem stack_push_pop:
  assumes "sa_rep s xs" and "length xs + length ys \<le> 2 ^ 31"
  shows "\<exists>s' s''. fold_result f106c0ab_push s ys = Inr s' \<and>
           collect (length ys) f106c0ab_pop s' = Inr (rev ys, s'') \<and> sa_rep s'' xs"
  using assms by (rule sa.push_pop_many)

lemma stack_push_pop_witness:
  "\<exists>s s' s''. f106c0ab_createStackArray = Inr (s::nat StackArray) \<and>
     fold_result f106c0ab_push s (map Some [0..<20]) = Inr s' \<and>
     collect 20 f106c0ab_pop s' = Inr (rev (map Some [0..<20]), s'') \<and> sa_rep s'' []"
proof -
  obtain s :: "nat StackArray" where s: "f106c0ab_createStackArray = Inr s" "sa_rep s []"
    using sa_create by blast
  have len: "length (map Some [0..<20]) = 20" by simp
  show ?thesis using stack_push_pop [OF s(2), of "map Some [0..<20]"] s(1) unfolding len by auto
qed

text \<open>Popping an empty stack, and only an empty stack, changes nothing and returns NULL
  without touching the block.\<close>

lemma stack_pop_empty:
  assumes "sa_rep s []"
  shows "f106c0ab_pop s = Inr (None, s) \<and> f106c0ab_peek s = Inr None"
  using sa_pop_Nil [OF assms] assms by (auto elim!: sa_repE simp: f106c0ab_peek_def unat_eq_0)

lemma stack_pop_empty_witness:
  "\<exists>s. f106c0ab_createStackArray = Inr (s::nat StackArray) \<and>
       f106c0ab_pop s = Inr (None, s) \<and> f106c0ab_peek s = Inr None"
proof -
  obtain s :: "nat StackArray" where s: "f106c0ab_createStackArray = Inr s" "sa_rep s []"
    using sa_create by blast
  show ?thesis using stack_pop_empty [OF s(2)] s(1) by blast
qed

end
