(* ===== verification/QueueBounded.thy ===== *)
theory QueueBounded
  imports CMemory
begin

text \<open>
  adt/queuebounded.c: a bounded first-in first-out queue of pointers in a ring. The ring is the
  flexible array member of the struct, so its block is allocated with the struct. The contract
  is the locale \<open>fifo\<close>; io/async.c hands its requests through such a queue.
\<close>

record 'a QueueBounded =
  qb_head :: u32
  qb_tail :: u32
  qb_length :: u32
  qb_capacity :: u32
  qb_values :: "'a ptr block"

subsection \<open>Operations\<close>

definition sizeof_QueueBounded :: nat where
  "sizeof_QueueBounded = 16"

definition b8da7268_createQueueBounded :: "u32 \<Rightarrow> 'a QueueBounded result" where
  "b8da7268_createQueueBounded capacity =
     bnd (f668c4bd_mallocFlexibleStruct sizeof_QueueBounded 8 (unat capacity)) (\<lambda>values.
     Inr \<lparr>qb_head = 0, qb_tail = 0, qb_length = 0, qb_capacity = capacity, qb_values = values\<rparr>)"

definition b8da7268_dequeue :: "'a QueueBounded \<Rightarrow> ('a ptr \<times> 'a QueueBounded) result" where
  "b8da7268_dequeue queue =
     (if 0 < qb_length queue then
        bnd (rd (qb_values queue) (unat (qb_head queue))) (\<lambda>value.
          let queue = queue\<lparr>qb_length := qb_length queue - 1, qb_head := qb_head queue + 1\<rparr>
          in Inr (value, if qb_head queue = qb_capacity queue then queue\<lparr>qb_head := 0\<rparr> else queue))
      else Inr (None, queue))"

definition b8da7268_enqueue :: "'a QueueBounded \<Rightarrow> 'a ptr \<Rightarrow> (bool \<times> 'a QueueBounded) result" where
  "b8da7268_enqueue queue value =
     (if qb_length queue = qb_capacity queue then Inr (False, queue)
      else bnd (wr (qb_values queue) (unat (qb_tail queue)) value) (\<lambda>values.
        let queue = queue\<lparr>qb_values := values, qb_length := qb_length queue + 1,
                          qb_tail := qb_tail queue + 1\<rparr>
        in Inr (True, if qb_tail queue = qb_capacity queue then queue\<lparr>qb_tail := 0\<rparr> else queue)))"

definition b8da7268_isEmpty :: "'a QueueBounded \<Rightarrow> bool" where
  "b8da7268_isEmpty queue = (qb_length queue = 0)"

definition b8da7268_isFull :: "'a QueueBounded \<Rightarrow> bool" where
  "b8da7268_isFull queue = (qb_length queue = qb_capacity queue)"

definition b8da7268_peek :: "'a QueueBounded \<Rightarrow> 'a ptr result" where
  "b8da7268_peek queue =
     (if 0 < qb_length queue then rd (qb_values queue) (unat (qb_head queue)) else Inr None)"

definition b8da7268_reset :: "'a QueueBounded \<Rightarrow> 'a QueueBounded" where
  "b8da7268_reset queue = queue\<lparr>qb_head := 0, qb_tail := 0, qb_length := 0\<rparr>"

definition b8da7268_toArray :: "'a QueueBounded \<Rightarrow> 'a ptr block result" where
  "b8da7268_toArray queue =
     bnd (f668c4bd_mallocArray 8 (unat (qb_length queue))) (\<lambda>array.
       if qb_tail queue < qb_head queue then
         let firstSectionLength = qb_capacity queue - qb_head queue
         in bnd (f668c4bd_memcopy (qb_values queue) (unat (qb_head queue)) array 0
                   (unat firstSectionLength)) (\<lambda>array.
            if firstSectionLength < qb_length queue then
              f668c4bd_memcopy (qb_values queue) 0 array (unat firstSectionLength)
                (unat (qb_tail queue))
            else Inr array)
       else f668c4bd_memcopy (qb_values queue) (unat (qb_head queue)) array 0
              (unat (qb_length queue)))"

subsection \<open>The abstract queue\<close>

text \<open>\<open>ring h c i\<close>: the cell of the \<open>i\<close>-th element after the head \<open>h\<close> in a ring of \<open>c\<close> cells.\<close>

definition ring :: "nat \<Rightarrow> nat \<Rightarrow> nat \<Rightarrow> nat" where
  "ring h c i = (if h + i < c then h + i else h + i - c)"

definition qb_rep :: "nat \<Rightarrow> 'a QueueBounded \<Rightarrow> 'a ptr list \<Rightarrow> bool" where
  "qb_rep c q xs \<longleftrightarrow>
     unat (qb_capacity q) = c \<and> c \<le> length (qb_values q) \<and> length (qb_values q) \<le> c + 1 \<and>
     unat (qb_length q) = length xs \<and> length xs \<le> c \<and>
     (if 0 < c then unat (qb_head q) < c \<and> unat (qb_tail q) = ring (unat (qb_head q)) c (length xs)
      else qb_head q = 0 \<and> qb_tail q = 0) \<and>
     (\<forall>i < length xs. qb_values q ! ring (unat (qb_head q)) c i = Some (xs ! i))"

lemma ring_less: "h < c \<Longrightarrow> i \<le> c \<Longrightarrow> ring h c i < c"
  by (auto simp: ring_def)

lemma ring_inj: "h < c \<Longrightarrow> i < c \<Longrightarrow> j < c \<Longrightarrow> ring h c i = ring h c j \<longleftrightarrow> i = j"
  by (auto simp: ring_def split: if_splits)

lemma ring_0: "h < c \<Longrightarrow> ring h c 0 = h"
  by (simp add: ring_def)

lemma ring_next: "h < c \<Longrightarrow> i < c \<Longrightarrow>
   ring h c (Suc i) = (if ring h c i + 1 = c then 0 else ring h c i + 1)"
  by (auto simp: ring_def)

lemma ring_shift:
  "h < c \<Longrightarrow> i < c \<Longrightarrow> ring (if h + 1 = c then 0 else h + 1) c i = ring h c (Suc i)"
  by (auto simp: ring_def)

text \<open>The wrap-around step of the code, read as a number.\<close>

lemma wrap_word:
  assumes "(w::u32) < cap"
  shows "unat (if w + 1 = cap then 0 else w + 1) = (if unat w + 1 = unat cap then 0 else unat w + 1)"
proof -
  have "unat (w + 1) = unat w + 1" using assms by (rule unat_inc_less)
  then show ?thesis by (auto simp: word_unat_eq_iff)
qed

lemma qb_create: "\<exists>q. b8da7268_createQueueBounded cap = Inr q \<and> qb_rep (unat cap) q []"
proof -
  have lt: "8 * unat cap + 16 < 2 ^ 40" using unat_u32_lt [of cap] by simp
  have "unat cap \<le> ((8 * unat cap + 16 + 15) div 16 * 16 - 16) div 8" by linarith
  moreover have "((8 * unat cap + 16 + 15) div 16 * 16 - 16) div 8 \<le> unat cap + 1" by linarith
  ultimately show ?thesis
    using lt alloc_size_small [OF lt]
    by (simp add: b8da7268_createQueueBounded_def f668c4bd_mallocFlexibleStruct_def
        sizeof_QueueBounded_def qb_rep_def ring_def)
qed

lemma qb_reset: "qb_rep c q xs \<Longrightarrow> qb_rep c (b8da7268_reset q) []"
  by (simp add: qb_rep_def b8da7268_reset_def ring_def)

lemma qb_isEmpty: "qb_rep c q xs \<Longrightarrow> b8da7268_isEmpty q \<longleftrightarrow> xs = []"
  by (auto simp: qb_rep_def b8da7268_isEmpty_def unat_eq_0)

lemma qb_isFull: "qb_rep c q xs \<Longrightarrow> b8da7268_isFull q \<longleftrightarrow> length xs = c"
  by (auto simp: qb_rep_def b8da7268_isFull_def word_unat_eq_iff)

lemma qb_enqueue_full: "qb_rep c q xs \<Longrightarrow> length xs = c \<Longrightarrow> b8da7268_enqueue q x = Inr (False, q)"
  by (auto simp: qb_rep_def b8da7268_enqueue_def word_unat_eq_iff)

lemma qb_enqueue_room:
  assumes q: "qb_rep c q xs" and room: "length xs < c"
  shows "\<exists>q'. b8da7268_enqueue q x = Inr (True, q') \<and> qb_rep c q' (xs @ [x])"
proof -
  let ?h = "unat (qb_head q)" and ?t = "unat (qb_tail q)"
  have h: "?h < c" and t: "?t = ring ?h c (length xs)" and c: "unat (qb_capacity q) = c"
    and b: "c \<le> length (qb_values q)" "length (qb_values q) \<le> c + 1" and len: "unat (qb_length q) = length xs"
    and cells: "\<And>i. i < length xs \<Longrightarrow> qb_values q ! ring ?h c i = Some (xs ! i)"
    using q room by (auto simp: qb_rep_def)
  have tc: "?t < c" using t h room by (simp add: ring_less)
  have neq: "qb_length q \<noteq> qb_capacity q" using len c room by (auto simp: word_unat_eq_iff)
  have inc: "unat (qb_length q + 1) = length xs + 1"
    using unat_inc_less [of "qb_length q" "qb_capacity q"] len c room by (simp add: word_less_nat_alt)
  have tail: "unat (if qb_tail q + 1 = qb_capacity q then 0 else qb_tail q + 1) = ring ?h c (Suc (length xs))"
    using wrap_word [of "qb_tail q" "qb_capacity q"] tc c ring_next [OF h room] t
    by (simp add: word_less_nat_alt)
  have "(qb_values q)[?t := Some x] ! ring ?h c i = Some ((xs @ [x]) ! i)" if "i < Suc (length xs)" for i
  proof (cases "i = length xs")
    case True
    then show ?thesis using tc b t by simp
  next
    case False
    then have i: "i < length xs" using that by simp
    then have "ring ?h c i \<noteq> ?t" using t ring_inj [OF h, of i "length xs"] room by simp
    then show ?thesis using cells [OF i] i by (simp add: nth_append)
  qed
  then show ?thesis
    using neq tc b inc tail c h room
    by (auto simp: b8da7268_enqueue_def wr_ok Let_def qb_rep_def split: if_splits)
qed

lemma qb_dequeue_Nil: "qb_rep c q [] \<Longrightarrow> b8da7268_dequeue q = Inr (None, q)"
  by (auto simp: qb_rep_def b8da7268_dequeue_def unat_eq_0)

lemma qb_head_cell:
  assumes "qb_rep c q (x # xs)"
  shows "rd (qb_values q) (unat (qb_head q)) = Inr x" and "unat (qb_head q) < c" and "qb_length q \<noteq> 0"
proof -
  show h: "unat (qb_head q) < c" using assms by (auto simp: qb_rep_def)
  have "qb_values q ! ring (unat (qb_head q)) c 0 = Some x" using assms by (force simp: qb_rep_def)
  then show "rd (qb_values q) (unat (qb_head q)) = Inr x"
    using h assms by (auto simp: qb_rep_def ring_0 rd_def)
  show "qb_length q \<noteq> 0" using assms by (auto simp: qb_rep_def)
qed

lemma qb_dequeue_Cons:
  assumes q: "qb_rep c q (x # xs)"
  shows "\<exists>q'. b8da7268_dequeue q = Inr (x, q') \<and> qb_rep c q' xs"
proof -
  let ?h = "unat (qb_head q)"
  have t: "unat (qb_tail q) = ring ?h c (Suc (length xs))" and c: "unat (qb_capacity q) = c"
    and b: "c \<le> length (qb_values q)" "length (qb_values q) \<le> c + 1" and len: "unat (qb_length q) = Suc (length xs)"
    and room: "length xs < c"
    and cells: "\<And>i. i < Suc (length xs) \<Longrightarrow> qb_values q ! ring ?h c i = Some ((x # xs) ! i)"
    using q by (auto simp: qb_rep_def)
  note hd = qb_head_cell [OF q]
  let ?h' = "if qb_head q + 1 = qb_capacity q then 0 else qb_head q + 1"
  have h': "unat ?h' = (if ?h + 1 = c then 0 else ?h + 1)"
    using wrap_word [of "qb_head q" "qb_capacity q"] hd(2) c by (simp add: word_less_nat_alt)
  have shift: "ring (unat ?h') c i = ring ?h c (Suc i)" if "i \<le> length xs" for i
    using that room unfolding h' by (intro ring_shift [OF hd(2)]) simp
  have "qb_values q ! ring (unat ?h') c i = Some (xs ! i)" if "i < length xs" for i
    using shift [of i] cells [of "Suc i"] that by simp
  moreover have "unat ?h' < c" using h' hd(2) by auto
  moreover have "unat (qb_length q - 1) = length xs" using unat_dec [OF hd(3)] len by simp
  ultimately show ?thesis
    using hd(1,3) t c b room shift [of "length xs"]
    by (auto simp: b8da7268_dequeue_def Let_def qb_rep_def word_neq_0_conv split: if_splits)
qed

lemma qb_peek_Cons: "qb_rep c q (x # xs) \<Longrightarrow> b8da7268_peek q = Inr x"
  using qb_head_cell [of c q x xs] by (simp add: b8da7268_peek_def word_neq_0_conv)

lemma qb_peek_Nil: "qb_rep c q [] \<Longrightarrow> b8da7268_peek q = Inr None"
  by (auto simp: qb_rep_def b8da7268_peek_def unat_eq_0)

text \<open>Reading a run of cells out of the ring.\<close>

lemma qb_cells_straight:
  assumes q: "qb_rep c q xs" and h: "unat (qb_head q) + length xs \<le> c"
  shows "take (length xs) (drop (unat (qb_head q)) (qb_values q)) = map Some xs"
proof (rule nth_equalityI)
  show "length (take (length xs) (drop (unat (qb_head q)) (qb_values q))) = length (map Some xs)"
    using q h by (auto simp: qb_rep_def)
  fix i assume "i < length (take (length xs) (drop (unat (qb_head q)) (qb_values q)))"
  then have i: "i < length xs" by simp
  then have "qb_values q ! ring (unat (qb_head q)) c i = Some (xs ! i)"
    using q by (simp add: qb_rep_def)
  then show "take (length xs) (drop (unat (qb_head q)) (qb_values q)) ! i = map Some xs ! i"
    using i h q by (auto simp: ring_def qb_rep_def)
qed

lemma qb_cells_wrapped:
  assumes q: "qb_rep c q xs" and h: "c < unat (qb_head q) + length xs"
  shows "take (c - unat (qb_head q)) (drop (unat (qb_head q)) (qb_values q)) @
           take (unat (qb_tail q)) (qb_values q) = map Some xs"
proof (rule nth_equalityI)
  let ?h = "unat (qb_head q)" and ?t = "unat (qb_tail q)"
  have hc: "?h < c" "?t = ?h + length xs - c" "length xs \<le> c" "c \<le> length (qb_values q)"
    using q h by (auto simp: qb_rep_def ring_def split: if_splits)
  show len: "length (take (c - ?h) (drop ?h (qb_values q)) @ take ?t (qb_values q)) = length (map Some xs)"
    using hc h by simp
  fix i assume "i < length (take (c - ?h) (drop ?h (qb_values q)) @ take ?t (qb_values q))"
  then have i: "i < length xs" using len by simp
  then have "qb_values q ! ring ?h c i = Some (xs ! i)" using q by (simp add: qb_rep_def)
  moreover have "?h + i - c = i - (c - ?h)" using hc by simp
  ultimately show "(take (c - ?h) (drop ?h (qb_values q)) @ take ?t (qb_values q)) ! i = map Some xs ! i"
    using i hc h by (auto simp: ring_def nth_append split: if_splits)
qed

lemma qb_mallocArray:
  "qb_rep c q xs \<Longrightarrow> f668c4bd_mallocArray 8 (length xs) = Inr (fresh ((length xs + 1) div 2 * 2))"
  using mallocArray8_cells [of "qb_length q"] by (simp add: qb_rep_def)

lemma qb_toArray_straight:
  assumes q: "qb_rep c q xs" and h: "unat (qb_head q) + length xs \<le> c" and nw: "qb_head q \<le> qb_tail q"
  shows "\<exists>a. b8da7268_toArray q = Inr a \<and> holds a xs"
proof -
  have "unat (qb_length q) = length xs" "c \<le> length (qb_values q)" using q by (auto simp: qb_rep_def)
  moreover have "\<not> qb_tail q < qb_head q" using nw by simp
  moreover have "length xs \<le> Suc (length xs) div 2 * 2" by presburger
  ultimately show ?thesis
    using qb_cells_straight [OF q h] h
    by (simp add: b8da7268_toArray_def qb_mallocArray [OF q] f668c4bd_memcopy_def blit_def holds_def)
qed

lemma qb_toArray_wrapped:
  assumes q: "qb_rep c q xs" and tl: "qb_tail q < qb_head q"
  shows "\<exists>a. b8da7268_toArray q = Inr a \<and> holds a xs"
proof -
  let ?h = "unat (qb_head q)" and ?t = "unat (qb_tail q)"
  have c0: "0 < c" using q tl by (auto simp: qb_rep_def split: if_splits)
  then have len: "unat (qb_length q) = length xs" and c: "unat (qb_capacity q) = c"
    and b: "c \<le> length (qb_values q)" and lc: "length xs \<le> c"
    and h: "?h < c" and t: "?t = ring ?h c (length xs)"
    using q by (auto simp: qb_rep_def)
  have "?t < ?h" using tl by (simp add: word_less_nat_alt)
  then have hc: "c \<le> ?h + length xs" and t': "?t = ?h + length xs - c"
    using t by (auto simp: ring_def split: if_splits)
  have first: "unat (qb_capacity q - qb_head q) = c - ?h"
    using h c by (simp add: unat_sub word_le_nat_alt)
  show ?thesis
  proof (cases "?h + length xs = c")
    case True
    then have "\<not> qb_capacity q - qb_head q < qb_length q" "c - ?h = length xs"
      using first len by (auto simp: word_less_nat_alt)
    then show ?thesis
      using qb_cells_straight [OF q] True b tl first h
      by (simp add: b8da7268_toArray_def qb_mallocArray [OF q] f668c4bd_memcopy_def blit_def
          holds_def Let_def len)
  next
    case False
    then have "qb_capacity q - qb_head q < qb_length q"
      using first len hc h by (simp add: word_less_nat_alt)
    moreover have "c < ?h + length xs" using False hc by simp
    note cells = qb_cells_wrapped [OF q this]
    define k where "k = c - ?h"
    have lk: "length xs = k + ?t" and "?h + k \<le> length (qb_values q)" "?t \<le> length (qb_values q)"
      using t' hc h b lc unfolding k_def by simp_all
    moreover have "k + ?t \<le> Suc (k + ?t) div 2 * 2" "k \<le> Suc (k + ?t) div 2 * 2" by presburger+
    ultimately show ?thesis
      using cells tl first unfolding k_def [symmetric]
      by (simp add: b8da7268_toArray_def qb_mallocArray [OF q, unfolded lk] f668c4bd_memcopy_def
          blit_def holds_def Let_def len lk)
  qed
qed

text \<open>Outside a queue that is full with its head in the middle, the array holds the elements in order.\<close>

lemma qb_toArray:
  assumes q: "qb_rep c q xs" and nf: "\<not> (length xs = c \<and> qb_head q \<noteq> 0)"
  shows "\<exists>a. b8da7268_toArray q = Inr a \<and> holds a xs"
proof (cases "qb_tail q < qb_head q")
  case True
  with q show ?thesis by (rule qb_toArray_wrapped)
next
  case False
  then have le: "unat (qb_head q) \<le> unat (qb_tail q)" by (simp add: word_le_nat_alt not_less)
  have "unat (qb_head q) + length xs \<le> c"
    using q nf le by (auto simp: qb_rep_def ring_def unat_eq_0 split: if_splits)
  moreover have "qb_head q \<le> qb_tail q" using False by simp
  ultimately show ?thesis using q by (intro qb_toArray_straight)
qed

text \<open>A full queue whose head is past the first cell has head = tail and is read as one run.\<close>

lemma qb_toArray_full_rotated:
  assumes q: "qb_rep c q xs" and full: "length xs = c" and h: "2 \<le> unat (qb_head q)"
  shows "b8da7268_toArray q = Inl OutOfBounds"
proof -
  have "0 < c" using q h by (auto simp: qb_rep_def split: if_splits)
  then have "unat (qb_tail q) = unat (qb_head q)" and hc: "unat (qb_head q) < c"
    using q full by (auto simp: qb_rep_def ring_def)
  then have "\<not> qb_tail q < qb_head q" by (simp add: word_less_nat_alt)
  moreover have "unat (qb_length q) = c" "length (qb_values q) \<le> c + 1"
    using q full by (auto simp: qb_rep_def)
  ultimately show ?thesis
    using h full
    by (simp add: b8da7268_toArray_def qb_mallocArray [OF q, unfolded full] f668c4bd_memcopy_def
        blit_def)
qed

subsection \<open>The contract of a bounded queue\<close>

datatype 'e queue_op = Enq "'e ptr" | Deq
datatype 'e queue_out = Accepted bool | Taken "'e ptr"

fun queue_run ::
    "('s \<Rightarrow> 'e ptr \<Rightarrow> (bool \<times> 's) result) \<Rightarrow> ('s \<Rightarrow> ('e ptr \<times> 's) result) \<Rightarrow> 's \<Rightarrow>
     'e queue_op list \<Rightarrow> ('e queue_out list \<times> 's) result" where
  "queue_run enq deq s [] = Inr ([], s)"
| "queue_run enq deq s (Enq x # ops) =
     bnd (enq s x) (\<lambda>(ok, s'). bnd (queue_run enq deq s' ops) (\<lambda>(os, t). Inr (Accepted ok # os, t)))"
| "queue_run enq deq s (Deq # ops) =
     bnd (deq s) (\<lambda>(x, s'). bnd (queue_run enq deq s' ops) (\<lambda>(os, t). Inr (Taken x # os, t)))"

text \<open>The same operations on a list of at most \<open>c\<close> elements.\<close>

fun fifo_run :: "nat \<Rightarrow> 'e ptr list \<Rightarrow> 'e queue_op list \<Rightarrow> 'e queue_out list \<times> 'e ptr list" where
  "fifo_run c xs [] = ([], xs)"
| "fifo_run c xs (Enq x # ops) =
     (if length xs = c then (let (os, ys) = fifo_run c xs ops in (Accepted False # os, ys))
      else (let (os, ys) = fifo_run c (xs @ [x]) ops in (Accepted True # os, ys)))"
| "fifo_run c [] (Deq # ops) = (let (os, ys) = fifo_run c [] ops in (Taken None # os, ys))"
| "fifo_run c (x # xs) (Deq # ops) = (let (os, ys) = fifo_run c xs ops in (Taken x # os, ys))"

locale fifo =
  fixes rep :: "nat \<Rightarrow> 's \<Rightarrow> 'e ptr list \<Rightarrow> bool"
    and enq :: "'s \<Rightarrow> 'e ptr \<Rightarrow> (bool \<times> 's) result"
    and deq :: "'s \<Rightarrow> ('e ptr \<times> 's) result"
  assumes bounded: "rep c s xs \<Longrightarrow> length xs \<le> c"
    and enq_full_law: "rep c s xs \<Longrightarrow> length xs = c \<Longrightarrow> enq s x = Inr (False, s)"
    and enq_room_law:
      "rep c s xs \<Longrightarrow> length xs < c \<Longrightarrow> \<exists>s'. enq s x = Inr (True, s') \<and> rep c s' (xs @ [x])"
    and deq_Nil_law: "rep c s [] \<Longrightarrow> deq s = Inr (None, s)"
    and deq_Cons_law: "rep c s (x # xs) \<Longrightarrow> \<exists>s'. deq s = Inr (x, s') \<and> rep c s' xs"
begin

lemma run_refines:
  assumes "rep c s xs"
  shows "\<exists>t. queue_run enq deq s ops = Inr (fst (fifo_run c xs ops), t) \<and>
             rep c t (snd (fifo_run c xs ops))"
  using assms
proof (induction c xs ops arbitrary: s rule: fifo_run.induct)
  case (2 c xs x ops)
  show ?case
  proof (cases "length xs = c")
    case True
    with enq_full_law [OF 2(3) True, of x] 2(1) [OF True 2(3)] show ?thesis
      by (auto simp: case_prod_unfold Let_def)
  next
    case False
    with bounded [OF 2(3)] enq_room_law [OF 2(3), of x]
    obtain s1 where "enq s x = Inr (True, s1)" "rep c s1 (xs @ [x])" by auto
    with False 2(2) [OF False, of s1] show ?thesis by (auto simp: case_prod_unfold Let_def)
  qed
next
  case (3 c ops)
  note IH = 3(1) [OF 3(2)]
  then obtain t where "queue_run enq deq s ops = Inr (fst (fifo_run c [] ops), t)"
    "rep c t (snd (fifo_run c [] ops))" by blast
  with deq_Nil_law [OF 3(2)] show ?case by (simp add: case_prod_unfold Let_def)
next
  case (4 c x xs ops)
  from deq_Cons_law [OF 4(2)] obtain s1 where "deq s = Inr (x, s1)" "rep c s1 xs" by auto
  with 4(1) [of s1] show ?case by (auto simp: case_prod_unfold Let_def)
qed simp

end

lemma qb_bounded: "qb_rep c q xs \<Longrightarrow> length xs \<le> c"
  by (simp add: qb_rep_def)

interpretation qb: fifo qb_rep b8da7268_enqueue b8da7268_dequeue
  by unfold_locales
    (rule qb_bounded qb_enqueue_full qb_enqueue_room qb_dequeue_Nil qb_dequeue_Cons; assumption)+

subsection \<open>Properties\<close>

text \<open>C2: for every capacity, a new queue answers every sequence of enqueue and dequeue calls
  exactly as a first-in first-out list of at most that many elements does.\<close>

theorem queue_is_fifo:
  "\<exists>q. b8da7268_createQueueBounded cap = Inr q \<and>
     (\<exists>t. queue_run b8da7268_enqueue b8da7268_dequeue q ops = Inr (fst (fifo_run (unat cap) [] ops), t) \<and>
          qb_rep (unat cap) t (snd (fifo_run (unat cap) [] ops)))"
  using qb_create qb.run_refines by blast

text \<open>ToArray copies the elements in queue order, except from a full queue whose head is not
  the first cell.\<close>

theorem queue_toArray_in_order:
  assumes "qb_rep c q xs" and "\<not> (length xs = c \<and> qb_head q \<noteq> 0)"
  shows "\<exists>a. b8da7268_toArray q = Inr a \<and> holds a xs"
  using assms by (rule qb_toArray)

lemma queue_toArray_in_order_witness:
  "\<exists>a. b8da7268_toArray \<lparr>qb_head = 2, qb_tail = 1, qb_length = 2, qb_capacity = 3,
         qb_values = [Some (Some 8), None, Some (Some (7::nat)), None]\<rparr> = Inr a \<and> holds a [Some 7, Some 8]"
proof (rule queue_toArray_in_order)
  show "qb_rep 3 \<lparr>qb_head = 2, qb_tail = 1, qb_length = 2, qb_capacity = 3,
         qb_values = [Some (Some 8), None, Some (Some (7::nat)), None]\<rparr> [Some 7, Some 8]"
    by code_simp
qed simp

text \<open>From a full queue whose head has moved past the second cell, toArray reads beyond the
  ring: head equals tail, so the wrapped part is not recognised.\<close>

theorem queue_toArray_overread:
  assumes "qb_rep c q xs" and "length xs = c" and "2 \<le> unat (qb_head q)"
  shows "b8da7268_toArray q = Inl OutOfBounds"
  using assms by (rule qb_toArray_full_rotated)

lemma queue_toArray_overread_witness:
  "b8da7268_toArray \<lparr>qb_head = 2, qb_tail = 2, qb_length = 3, qb_capacity = 3,
     qb_values = [Some (Some 8), Some (Some 9), Some (Some (7::nat)), None]\<rparr> = Inl OutOfBounds"
proof (rule queue_toArray_overread)
  show "qb_rep 3 \<lparr>qb_head = 2, qb_tail = 2, qb_length = 3, qb_capacity = 3,
     qb_values = [Some (Some 8), Some (Some 9), Some (Some (7::nat)), None]\<rparr> [Some 7, Some 8, Some 9]"
    by code_simp
qed simp_all

end
