(* ===== verification/ArraySort.thy ===== *)
theory ArraySort
  imports CMemory "HOL-Library.Multiset"
begin

text \<open>
  lang/array.c: the in-place quicksort of an array of pointers. The recursion is replaced by an
  auxiliary stack of index pairs in a variable-length array of \<open>h - l + 1\<close> ints; every push is
  checked against that size. The outer loop runs on fuel; \<open>sort_sorts\<close> shows that the fuel given is
  enough, that the stack never overflows when there are at least two elements, and that the result
  is a sorted permutation.
\<close>

subsection \<open>The routine\<close>

definition rdi :: "'e block \<Rightarrow> int \<Rightarrow> 'e result" where
  "rdi arr i = (if i < 0 then Inl OutOfBounds else rd arr (nat i))"

definition wri :: "'e block \<Rightarrow> int \<Rightarrow> 'e \<Rightarrow> 'e block result" where
  "wri arr i x = (if i < 0 then Inl OutOfBounds else wr arr (nat i) x)"

text \<open>The inner loop: \<open>n\<close> iterations are left, \<open>j = h - n\<close>.\<close>

primrec partition_loop ::
    "('e \<Rightarrow> 'e \<Rightarrow> int) \<Rightarrow> 'e \<Rightarrow> int \<Rightarrow> nat \<Rightarrow> int \<Rightarrow> 'e block \<Rightarrow> (int \<times> 'e block) result" where
  "partition_loop compare highPtr h 0 pivot arr = Inr (pivot, arr)"
| "partition_loop compare highPtr h (Suc n) pivot arr =
     (let j = h - int (Suc n)
      in bnd (rdi arr j) (\<lambda>currentPtr.
         if compare currentPtr highPtr \<le> 0 then
           bnd (rdi arr (pivot + 1)) (\<lambda>tempPtr.
           bnd (wri arr (pivot + 1) currentPtr) (\<lambda>arr.
           bnd (wri arr j tempPtr) (\<lambda>arr.
           partition_loop compare highPtr h n (pivot + 1) arr)))
         else partition_loop compare highPtr h n pivot arr))"

text \<open>A push of one int on the auxiliary stack of \<open>cap\<close> ints (top of the stack first).\<close>

definition push_int :: "nat \<Rightarrow> int list \<Rightarrow> int \<Rightarrow> int list result" where
  "push_int cap stk i = (if length stk < cap then Inr (i # stk) else Inl OutOfBounds)"

definition push_range :: "nat \<Rightarrow> int list \<Rightarrow> int \<Rightarrow> int \<Rightarrow> int list result" where
  "push_range cap stk l h = bnd (push_int cap stk l) (\<lambda>stk. push_int cap stk h)"

text \<open>One iteration of the outer loop, for the popped range \<open>l\<close>, \<open>h\<close>.\<close>

definition sort_step ::
    "('e \<Rightarrow> 'e \<Rightarrow> int) \<Rightarrow> nat \<Rightarrow> int \<Rightarrow> int \<Rightarrow> int list \<Rightarrow> 'e block \<Rightarrow> ('e block \<times> int list) result" where
  "sort_step compare cap l h stk arr =
     bnd (rdi arr h) (\<lambda>highPtr.
     bnd (partition_loop compare highPtr h (nat (h - l)) (l - 1) arr) (\<lambda>(pivot, arr).
     let pivot = pivot + 1
     in bnd (rdi arr pivot) (\<lambda>tempPtr.
        bnd (wri arr pivot highPtr) (\<lambda>arr.
        bnd (wri arr h tempPtr) (\<lambda>arr.
        bnd (if pivot - 1 > l then push_range cap stk l (pivot - 1) else Inr stk) (\<lambda>stk.
        bnd (if pivot + 1 < h then push_range cap stk (pivot + 1) h else Inr stk) (\<lambda>stk.
        Inr (arr, stk))))))))"

fun sort_loop ::
    "nat \<Rightarrow> ('e \<Rightarrow> 'e \<Rightarrow> int) \<Rightarrow> nat \<Rightarrow> int list \<Rightarrow> 'e block \<Rightarrow> 'e block result option" where
  "sort_loop fuel compare cap [] arr = Some (Inr arr)"
| "sort_loop fuel compare cap [h] arr = Some (Inl OutOfBounds)"
| "sort_loop 0 compare cap (h # l # stk) arr = None"
| "sort_loop (Suc fuel) compare cap (h # l # stk) arr =
     (case sort_step compare cap l h stk arr of
        Inl e \<Rightarrow> Some (Inl e)
      | Inr (arr, stk) \<Rightarrow> sort_loop fuel compare cap stk arr)"

definition b33b0483_sortPtrArray ::
    "'e block \<Rightarrow> int \<Rightarrow> int \<Rightarrow> ('e \<Rightarrow> 'e \<Rightarrow> int) \<Rightarrow> 'e block result option" where
  "b33b0483_sortPtrArray arr l h compare =
     (case push_range (nat (h - l + 1)) [] l h of
        Inl e \<Rightarrow> Some (Inl e)
      | Inr stk \<Rightarrow> sort_loop (nat (h - l + 1)) compare (nat (h - l + 1)) stk arr)"

subsection \<open>The partition\<close>

definition cmp_order :: "('e \<Rightarrow> 'e \<Rightarrow> int) \<Rightarrow> bool" where
  "cmp_order compare \<longleftrightarrow>
     (\<forall>x y. compare x y \<le> 0 \<or> compare y x \<le> 0) \<and>
     (\<forall>x y z. compare x y \<le> 0 \<longrightarrow> compare y z \<le> 0 \<longrightarrow> compare x z \<le> 0)"

lemma rdi_cells: "0 \<le> i \<Longrightarrow> nat i < length xs \<Longrightarrow> rdi (map Some xs @ rest) i = Inr (xs ! nat i)"
  by (simp add: rdi_def rd_def nth_append)

lemma wri_cells: "0 \<le> i \<Longrightarrow> nat i < length xs \<Longrightarrow> wri (map Some xs @ rest) i x = Inr (map Some (xs[nat i := x]) @ rest)"
  by (simp add: wri_def wr_def map_update list_update_append)

text \<open>\<open>within l h xs ys\<close>: \<open>ys\<close> permutes the elements \<open>l..h\<close> of \<open>xs\<close> and keeps the others.\<close>

definition within :: "nat \<Rightarrow> nat \<Rightarrow> 'e list \<Rightarrow> 'e list \<Rightarrow> bool" where
  "within l h xs ys \<longleftrightarrow> length ys = length xs \<and> mset ys = mset xs \<and>
     (\<forall>i < length xs. i < l \<or> h < i \<longrightarrow> ys ! i = xs ! i) \<and>
     (\<forall>i. l \<le> i \<and> i \<le> h \<and> i < length xs \<longrightarrow> (\<exists>k. l \<le> k \<and> k \<le> h \<and> k < length xs \<and> ys ! i = xs ! k))"

lemma within_refl: "within l h xs xs"
  by (auto simp: within_def)

lemma within_trans: "within l h xs ys \<Longrightarrow> within l h ys zs \<Longrightarrow> within l h xs zs"
  unfolding within_def by (auto; metis)

lemma within_mono:
  assumes w: "within l h xs ys" and "lo \<le> l" "h \<le> hi"
  shows "within lo hi xs ys"
proof -
  have "\<exists>k. lo \<le> k \<and> k \<le> hi \<and> k < length xs \<and> ys ! i = xs ! k"
    if i: "lo \<le> i" "i \<le> hi" "i < length xs" for i
  proof (cases "l \<le> i \<and> i \<le> h")
    case True
    with w i obtain k where "l \<le> k" "k \<le> h" "k < length xs" "ys ! i = xs ! k"
      unfolding within_def by blast
    with assms show ?thesis by (auto intro!: exI [of _ k])
  next
    case False
    with w i have "ys ! i = xs ! i" unfolding within_def by auto
    with i show ?thesis by blast
  qed
  moreover have "i < lo \<or> hi < i \<Longrightarrow> i < l \<or> h < i" for i using assms by auto
  ultimately show ?thesis using w unfolding within_def by blast
qed

lemma within_swap:
  assumes "i < length xs" "j < length xs" "l \<le> i" "i \<le> h" "l \<le> j" "j \<le> h"
  shows "within l h xs (xs[i := xs ! j, j := xs ! i])"
  using assms mset_swap [of j xs i]
  by (auto simp: within_def nth_list_update)

text \<open>
  The partition loop: cells \<open>l..p-1\<close> compare at most equal to the pivot element, cells \<open>p..j-1\<close>
  do not; \<open>p = pivot + 1\<close>.
\<close>

definition split_at :: "('e \<Rightarrow> 'e \<Rightarrow> int) \<Rightarrow> 'e \<Rightarrow> nat \<Rightarrow> nat \<Rightarrow> nat \<Rightarrow> 'e list \<Rightarrow> bool" where
  "split_at compare x l p j xs \<longleftrightarrow> l \<le> p \<and> p \<le> j \<and>
     (\<forall>i. l \<le> i \<and> i < p \<longrightarrow> compare (xs ! i) x \<le> 0) \<and>
     (\<forall>i. p \<le> i \<and> i < j \<longrightarrow> 0 < compare (xs ! i) x)"

lemma split_at_swap:
  assumes "split_at compare x l p j xs" and "j < length xs" and "compare (xs ! j) x \<le> 0"
  shows "split_at compare x l (Suc p) (Suc j) (xs[p := xs ! j, j := xs ! p])"
  using assms unfolding split_at_def by (auto simp: nth_list_update less_Suc_eq)

lemma split_at_skip:
  assumes "split_at compare x l p j xs" and "\<not> compare (xs ! j) x \<le> 0"
  shows "split_at compare x l p (Suc j) xs"
  using assms unfolding split_at_def by (auto simp: less_Suc_eq)

lemma partition_loop_splits:
  assumes "split_at compare x l p j xs" and "h = j + n" and "h < length xs"
  shows "\<exists>q ys. partition_loop compare x (int h) n (int p - 1) (map Some xs @ rest)
                  = Inr (int q - 1, map Some ys @ rest) \<and>
                split_at compare x l q h ys \<and> within l h xs ys \<and> ys ! h = xs ! h"
  using assms
proof (induction n arbitrary: p j xs)
  case 0
  then show ?case using within_refl by fastforce
next
  case (Suc n)
  have j: "j < length xs" "l \<le> p" "p \<le> j" "j < h" using Suc.prems by (auto simp: split_at_def)
  have jj: "int h - int (Suc n) = int j" using Suc.prems by simp
  note loop = partition_loop.simps(2) [of compare x "int h" n, unfolded Let_def jj]
  show ?case
  proof (cases "compare (xs ! j) x \<le> 0")
    case True
    let ?ys = "xs[p := xs ! j, j := xs ! p]"
    have "split_at compare x l (Suc p) (Suc j) ?ys"
      using Suc.prems(1) j(1) True by (rule split_at_swap)
    then obtain q zs where z: "partition_loop compare x (int h) n (int (Suc p) - 1) (map Some ?ys @ rest)
        = Inr (int q - 1, map Some zs @ rest)" "split_at compare x l q h zs" "within l h ?ys zs" "zs ! h = ?ys ! h"
      using Suc.IH [of "Suc p" "Suc j" ?ys] Suc.prems by auto
    have "within l h xs ?ys" using j Suc.prems by (intro within_swap) auto
    with z(3) have "within l h xs zs" by (rule within_trans [rotated])
    moreover have "?ys ! h = xs ! h" using j by simp
    moreover have "partition_loop compare x (int h) (Suc n) (int p - 1) (map Some xs @ rest)
        = partition_loop compare x (int h) n (int (Suc p) - 1) (map Some ?ys @ rest)"
      using j True by (simp add: loop rdi_cells wri_cells del: partition_loop.simps)
    ultimately show ?thesis using z by auto
  next
    case False
    then have "split_at compare x l p (Suc j) xs" using Suc.prems(1) by (intro split_at_skip)
    moreover have "partition_loop compare x (int h) (Suc n) (int p - 1) (map Some xs @ rest)
        = partition_loop compare x (int h) n (int p - 1) (map Some xs @ rest)"
      using j False by (simp add: loop rdi_cells del: partition_loop.simps)
    ultimately show ?thesis using Suc.IH [of p "Suc j" xs] Suc.prems by simp
  qed
qed

text \<open>After the last swap the pivot element stands between the two parts.\<close>

definition parted :: "('e \<Rightarrow> 'e \<Rightarrow> int) \<Rightarrow> nat \<Rightarrow> nat \<Rightarrow> nat \<Rightarrow> 'e list \<Rightarrow> bool" where
  "parted compare l h p xs \<longleftrightarrow> l \<le> p \<and> p \<le> h \<and>
     (\<forall>i. l \<le> i \<and> i < p \<longrightarrow> compare (xs ! i) (xs ! p) \<le> 0) \<and>
     (\<forall>i. p < i \<and> i \<le> h \<longrightarrow> 0 < compare (xs ! i) (xs ! p))"

lemma split_at_parted:
  assumes "split_at compare (ys ! h) l q h ys" and "h < length ys"
  shows "parted compare l h q (ys[q := ys ! h, h := ys ! q])"
  using assms unfolding split_at_def parted_def
  by (auto simp: nth_list_update)

definition new_ranges :: "nat \<Rightarrow> nat \<Rightarrow> nat \<Rightarrow> (nat \<times> nat) list \<Rightarrow> (nat \<times> nat) list" where
  "new_ranges l h p S =
     (if Suc p < h then [(Suc p, h)] else []) @ (if l + 1 < p then [(l, p - 1)] else []) @ S"

definition flat :: "(nat \<times> nat) list \<Rightarrow> int list" where
  "flat S = concat (map (\<lambda>(l, h). [int h, int l]) S)"

lemma length_flat: "length (flat S) = 2 * length S"
  by (induction S) (auto simp: flat_def)

lemma push_range_flat:
  "2 * length S + 2 \<le> cap \<Longrightarrow> push_range cap (flat S) (int l) (int h) = Inr (flat ((l, h) # S))"
  using length_flat [of S] by (simp add: push_range_def push_int_def flat_def)

lemma push_new_ranges:
  assumes room: "2 * length (new_ranges l h p S) \<le> cap" and p: "l \<le> p" "p \<le> h"
  shows "bnd (if int p - 1 > int l then push_range cap (flat S) (int l) (int p - 1) else Inr (flat S))
           (\<lambda>stk. if int p + 1 < int h then push_range cap stk (int p + 1) (int h) else Inr stk)
         = Inr (flat (new_ranges l h p S))"
proof -
  let ?T = "(if l + 1 < p then [(l, p - 1)] else []) @ S"
  have T: "2 * length ?T \<le> cap" using room by (simp add: new_ranges_def split: if_splits)
  have left: "(if int p - 1 > int l then push_range cap (flat S) (int l) (int p - 1) else Inr (flat S))
      = Inr (flat ?T)"
    using T push_range_flat [of S cap l "p - 1"] by (auto simp: of_nat_diff)
  have right: "(if int p + 1 < int h then push_range cap (flat ?T) (int p + 1) (int h) else Inr (flat ?T))
      = Inr (flat (new_ranges l h p S))"
    using room push_range_flat [of ?T cap "Suc p" h]
    by (simp add: new_ranges_def add.commute split del: if_split split: if_splits)
  show ?thesis unfolding left bnd_Inr by (rule right)
qed

lemma sort_step_parts:
  assumes h: "l < h" "h < length xs"
    and room: "\<And>p. l \<le> p \<Longrightarrow> p \<le> h \<Longrightarrow> 2 * length (new_ranges l h p S) \<le> cap"
  shows "\<exists>p ys. sort_step compare cap (int l) (int h) (flat S) (map Some xs @ rest)
                  = Inr (map Some ys @ rest, flat (new_ranges l h p S)) \<and>
                within l h xs ys \<and> parted compare l h p ys"
proof -
  let ?x = "xs ! h"
  have "split_at compare ?x l l l xs" by (simp add: split_at_def)
  from partition_loop_splits [OF this, of h "h - l" rest] h
  obtain q ys where q: "partition_loop compare ?x (int h) (h - l) (int l - 1) (map Some xs @ rest)
      = Inr (int q - 1, map Some ys @ rest)" "split_at compare ?x l q h ys" "within l h xs ys" "ys ! h = ?x"
    by auto
  let ?zs = "ys[q := ys ! h, h := ys ! q]"
  have len: "length ys = length xs" using q(3) by (simp add: within_def)
  have qh: "l \<le> q" "q \<le> h" using q(2) by (auto simp: split_at_def)
  have "within l h ys ?zs" using qh h len by (intro within_swap) auto
  with q(3) have w: "within l h xs ?zs" by (rule within_trans)
  have pt: "parted compare l h q ?zs" using q(2,4) h len by (intro split_at_parted) auto
  have "nat (int h - int l) = h - l" by simp
  then have "sort_step compare cap (int l) (int h) (flat S) (map Some xs @ rest)
      = bnd (bnd (if int q - 1 > int l then push_range cap (flat S) (int l) (int q - 1) else Inr (flat S))
          (\<lambda>stk. if int q + 1 < int h then push_range cap stk (int q + 1) (int h) else Inr stk))
          (\<lambda>stk. Inr (map Some ?zs @ rest, stk))"
    using q(1,4) h qh len by (simp add: sort_step_def rdi_cells wri_cells bnd_assoc Let_def)
  also have "\<dots> = Inr (map Some ?zs @ rest, flat (new_ranges l h q S))"
    using push_new_ranges [OF room qh] qh by simp
  finally show ?thesis using w pt by blast
qed

subsection \<open>The outer loop\<close>

text \<open>
  \<open>pending n S\<close>: the ranges on the stack have at least two elements each and at most \<open>n\<close> together.
  \<open>ordered\<close>: two positions of \<open>[lo, hi]\<close> are in order unless some range still holds both.
\<close>

definition pending :: "nat \<Rightarrow> nat \<Rightarrow> nat \<Rightarrow> (nat \<times> nat) list \<Rightarrow> bool" where
  "pending n lo hi S \<longleftrightarrow> (\<forall>(a, b) \<in> set S. a < b \<and> lo \<le> a \<and> b \<le> hi) \<and>
     (\<Sum>(a, b)\<leftarrow>S. b - a + 1) \<le> n"

definition disjoint_ranges :: "(nat \<times> nat) list \<Rightarrow> bool" where
  "disjoint_ranges S \<longleftrightarrow> sorted_wrt (\<lambda>(a, b) (c, d). b < c \<or> d < a) S"

definition ordered :: "('e \<Rightarrow> 'e \<Rightarrow> int) \<Rightarrow> nat \<Rightarrow> nat \<Rightarrow> (nat \<times> nat) list \<Rightarrow> 'e list \<Rightarrow> bool" where
  "ordered compare lo hi S xs \<longleftrightarrow>
     (\<forall>i j. lo \<le> i \<and> i < j \<and> j \<le> hi \<longrightarrow>
        compare (xs ! i) (xs ! j) \<le> 0 \<or> (\<exists>(a, b) \<in> set S. a \<le> i \<and> j \<le> b))"

lemma pending_length: "pending n lo hi S \<Longrightarrow> 2 * length S \<le> n"
proof -
  assume p: "pending n lo hi S"
  have "\<forall>(a, b) \<in> set S. a < b \<Longrightarrow> 2 * length S \<le> (\<Sum>(a, b)\<leftarrow>S. b - a + 1)"
    by (induction S) auto
  with p show ?thesis unfolding pending_def by fastforce
qed

lemma pending_new:
  assumes "pending n lo hi ((l, h) # S)" and "l \<le> p" "p \<le> h"
  shows "pending n lo hi (new_ranges l h p S)"
  using assms by (auto simp: pending_def new_ranges_def)

lemma disjoint_new:
  assumes "disjoint_ranges ((l, h) # S)" and "l \<le> p" "p \<le> h"
  shows "disjoint_ranges (new_ranges l h p S)"
  using assms by (auto simp: disjoint_ranges_def new_ranges_def)

text \<open>The work left: each iteration removes at least one unit.\<close>

definition work :: "(nat \<times> nat) list \<Rightarrow> nat" where
  "work S = (\<Sum>(a, b)\<leftarrow>S. b - a)"

lemma work_new:
  assumes "l < h" and "l \<le> p" "p \<le> h"
  shows "work (new_ranges l h p S) < work ((l, h) # S)"
  using assms by (auto simp: work_def new_ranges_def)

lemma ordered_new:
  assumes ord: "ordered compare lo hi ((l, h) # S) xs" and cmp: "cmp_order compare"
    and dis: "disjoint_ranges ((l, h) # S)" and rng: "l < h" "lo \<le> l" "h \<le> hi" "hi < length xs"
    and w: "within l h xs ys" and pt: "parted compare l h p ys"
  shows "ordered compare lo hi (new_ranges l h p S) ys"
  unfolding ordered_def
proof (intro allI impI)
  fix i j assume ij: "lo \<le> i \<and> i < j \<and> j \<le> hi"
  let ?goal = "compare (ys ! i) (ys ! j) \<le> 0 \<or> (\<exists>(a, b) \<in> set (new_ranges l h p S). a \<le> i \<and> j \<le> b)"
  have out: "ys ! k = xs ! k" if "k < l \<or> h < k" "k \<le> hi" for k
    using w that rng unfolding within_def by auto
  have inn: "\<exists>m. l \<le> m \<and> m \<le> h \<and> ys ! k = xs ! m" if "l \<le> k" "k \<le> h" for k
    using w that rng unfolding within_def by (meson le_trans le_less_trans)
  have sep: "b < l \<or> h < a" if "(a, b) \<in> set S" for a b
    using dis that by (auto simp: disjoint_ranges_def)
  have new: "(a, b) \<in> set S \<Longrightarrow> (a, b) \<in> set (new_ranges l h p S)" for a b
    by (simp add: new_ranges_def)
  have old: "compare (xs ! u) (xs ! v) \<le> 0 \<or> (\<exists>(a, b) \<in> set S. a \<le> u \<and> v \<le> b)"
    if "lo \<le> u" "u < v" "v \<le> hi" "\<not> (l \<le> u \<and> v \<le> h)" for u v
    using ord that unfolding ordered_def by auto
  consider (both) "l \<le> i" "j \<le> h" | (left) "l \<le> i" "i \<le> h" "h < j" | (right) "i < l" "l \<le> j" "j \<le> h"
    | (out) "(i < l \<or> h < i) \<and> (j < l \<or> h < j)" by linarith
  then show ?goal
  proof cases
    case both
    have le: "compare (ys ! u) (ys ! p) \<le> 0" if "l \<le> u" "u < p" for u
      using pt that by (simp add: parted_def)
    have ge: "compare (ys ! p) (ys ! v) \<le> 0" if "p < v" "v \<le> h" for v
      using pt cmp that unfolding parted_def cmp_order_def by (metis not_less)
    consider "j < p" | "p < i" | "i = p" | "j = p" | "i < p" "p < j" using ij by linarith
    then show ?thesis
    proof cases
      case 1
      then have "(l, p - 1) \<in> set (new_ranges l h p S)" using both ij by (auto simp: new_ranges_def)
      then show ?thesis using 1 both by force
    next
      case 2
      then have "(Suc p, h) \<in> set (new_ranges l h p S)" using both ij by (auto simp: new_ranges_def)
      then show ?thesis using 2 both by force
    next
      case 3 then show ?thesis using ge [of j] both ij by simp
    next
      case 4 then show ?thesis using le [of i] both ij by simp
    next
      case 5
      then show ?thesis using le [of i] ge [of j] both cmp unfolding cmp_order_def by blast
    qed
  next
    case left
    then obtain m where m: "l \<le> m" "m \<le> h" "ys ! i = xs ! m" using inn by blast
    have "compare (xs ! m) (xs ! j) \<le> 0" using old [of m j] m left ij rng sep by fastforce
    then show ?thesis using m out [of j] left ij by simp
  next
    case right
    then obtain m where m: "l \<le> m" "m \<le> h" "ys ! j = xs ! m" using inn by blast
    have "compare (xs ! i) (xs ! m) \<le> 0" using old [of i m] m right ij rng sep by fastforce
    then show ?thesis using m out [of i] right ij by simp
  next
    case out
    then have "\<not> (l \<le> i \<and> j \<le> h)" using ij by linarith
    then have "compare (xs ! i) (xs ! j) \<le> 0 \<or> (\<exists>(a, b) \<in> set S. a \<le> i \<and> j \<le> b)"
      using old ij by blast
    moreover have "ys ! i = xs ! i" "ys ! j = xs ! j"
      using w out ij rng unfolding within_def by auto
    ultimately show ?thesis using new by auto
  qed
qed

lemma sort_loop_sorts:
  assumes "cmp_order compare" and "pending n lo hi S" and "disjoint_ranges S"
    and "ordered compare lo hi S xs" and "hi < length xs" and "work S \<le> fuel"
  shows "\<exists>ys. sort_loop fuel compare n (flat S) (map Some xs @ rest) = Some (Inr (map Some ys @ rest)) \<and>
              within lo hi xs ys \<and> ordered compare lo hi [] ys"
  using assms
proof (induction fuel arbitrary: S xs)
  case 0
  have "S = []"
    using 0(2,6) by (cases S) (auto simp: pending_def work_def)
  then show ?case using 0 within_refl by (auto simp: flat_def)
next
  case (Suc fuel)
  show ?case
  proof (cases S)
    case Nil
    then show ?thesis using Suc.prems within_refl by (auto simp: flat_def)
  next
    case (Cons r S')
    obtain l h where S: "S = (l, h) # S'" using Cons by (cases r) auto
    have lh: "l < h" "lo \<le> l" "h \<le> hi" using Suc.prems(2) S by (auto simp: pending_def)
    have pend: "pending n lo hi (new_ranges l h p S')" if "l \<le> p" "p \<le> h" for p
      using pending_new Suc.prems(2) S that by blast
    obtain p ys where step: "sort_step compare n (int l) (int h) (flat S') (map Some xs @ rest)
        = Inr (map Some ys @ rest, flat (new_ranges l h p S'))" and w: "within l h xs ys"
      and pt: "parted compare l h p ys"
      using sort_step_parts [of l h xs S' n compare rest] lh Suc.prems(5) pending_length [OF pend] by auto
    have p: "l \<le> p" "p \<le> h" using pt by (auto simp: parted_def)
    have "ordered compare lo hi (new_ranges l h p S') ys"
      using Suc.prems S lh w pt by (intro ordered_new [of compare lo hi l h S' xs ys p]) auto
    moreover have "disjoint_ranges (new_ranges l h p S')"
      using disjoint_new Suc.prems(3) S p by blast
    moreover have "work (new_ranges l h p S') \<le> fuel"
      using work_new [OF lh(1) p, of S'] Suc.prems(6) S by simp
    moreover have "hi < length ys" using w Suc.prems(5) by (simp add: within_def)
    ultimately obtain zs where z: "sort_loop fuel compare n (flat (new_ranges l h p S')) (map Some ys @ rest)
        = Some (Inr (map Some zs @ rest))" "within lo hi ys zs" "ordered compare lo hi [] zs"
      using Suc.IH [OF Suc.prems(1) pend [OF p]] by blast
    have "within lo hi xs ys" using w lh(2,3) by (rule within_mono)
    then have "within lo hi xs zs" using z(2) by (rule within_trans)
    moreover have "flat S = int h # int l # flat S'" by (simp add: S flat_def)
    ultimately show ?thesis using z step by simp
  qed
qed

theorem sort_range:
  assumes cmp: "cmp_order compare" and lh: "l < h" and len: "h < length xs"
  shows "\<exists>ys. b33b0483_sortPtrArray (map Some xs @ rest) (int l) (int h) compare = Some (Inr (map Some ys @ rest)) \<and>
              within l h xs ys \<and> ordered compare l h [] ys"
proof -
  let ?n = "h - l + 1"
  have n: "nat (int h - int l + 1) = ?n" using lh by simp
  have push: "push_range ?n [] (int l) (int h) = Inr (flat [(l, h)])"
    using push_range_flat [of "[]" ?n l h] lh by (simp add: flat_def)
  have "pending ?n l h [(l, h)]" using lh by (simp add: pending_def)
  moreover have "disjoint_ranges [(l, h)]" by (simp add: disjoint_ranges_def)
  moreover have "ordered compare l h [(l, h)] xs" by (auto simp: ordered_def)
  moreover have "work [(l, h)] \<le> ?n" by (simp add: work_def)
  ultimately obtain ys where "sort_loop ?n compare ?n (flat [(l, h)]) (map Some xs @ rest) = Some (Inr (map Some ys @ rest))"
    "within l h xs ys" "ordered compare l h [] ys"
    using sort_loop_sorts [OF cmp, of ?n l h "[(l, h)]" xs ?n] len by blast
  then show ?thesis unfolding b33b0483_sortPtrArray_def n push by auto
qed

lemma ordered_sorted_wrt:
  "length ys = Suc n \<Longrightarrow> ordered compare 0 n [] ys \<Longrightarrow> sorted_wrt (\<lambda>x y. compare x y \<le> 0) ys"
  by (auto simp: ordered_def sorted_wrt_iff_nth_less)

lemma sort_all:
  assumes "cmp_order compare" and "2 \<le> length xs"
  shows "\<exists>ys. b33b0483_sortPtrArray (map Some xs @ rest) 0 (int (length xs) - 1) compare = Some (Inr (map Some ys @ rest)) \<and>
              mset ys = mset xs \<and> sorted_wrt (\<lambda>x y. compare x y \<le> 0) ys"
proof -
  have lt: "0 < length xs - 1" "length xs - 1 < length xs" using assms(2) by auto
  have eq: "int (length xs) - 1 = int (length xs - 1)" using assms(2) by simp
  obtain ys where ys: "b33b0483_sortPtrArray (map Some xs @ rest) (int 0) (int (length xs - 1)) compare
      = Some (Inr (map Some ys @ rest))" "within 0 (length xs - 1) xs ys" "ordered compare 0 (length xs - 1) [] ys"
    using sort_range [OF assms(1) lt(1,2)] by blast
  have m: "mset ys = mset xs" "length ys = length xs" using ys(2) unfolding within_def by blast+
  have "sorted_wrt (\<lambda>x y. compare x y \<le> 0) ys"
    using ys(3) by (rule ordered_sorted_wrt [rotated]) (use m(2) assms(2) in simp)
  with ys(1) m(1) show ?thesis unfolding eq by (intro exI [of _ ys]) simp
qed

text \<open>A single element: the two initial pushes do not fit in the one-int stack.\<close>

lemma sort_singleton: "b33b0483_sortPtrArray arr l l compare = Some (Inl OutOfBounds)"
  by (simp add: b33b0483_sortPtrArray_def push_range_def push_int_def)

end
