(* ===== verification/ListArray.thy ===== *)
theory ListArray
  imports ArraySort
begin

text \<open>
  adt/listarray.c: a growable list of pointers. The three routines that add elements exist twice
  in the repository: in C for ARM and in listarray.linux-x86_64.asm for x86-64; both are modelled
  (the latter with the suffix \<open>_x86\<close>) and both are instances of the locale \<open>growable\<close>.
\<close>

record 'a ListArray =
  la_values :: "'a ptr block ptr"
  la_length :: u32
  la_size :: u32

subsection \<open>Create and destroy\<close>

definition LISTARRAY_DEFAULT_SIZE :: u32 where
  "LISTARRAY_DEFAULT_SIZE = 8"

definition b196167f_createListArrayWithSize :: "u32 \<Rightarrow> 'a ListArray result" where
  "b196167f_createListArrayWithSize sz =
     bnd (f668c4bd_malloc 8 (8 * unat sz)) (\<lambda>values.
     Inr \<lparr>la_values = Some values, la_length = 0, la_size = sz\<rparr>)"

definition b196167f_createListArray :: "'a ListArray result" where
  "b196167f_createListArray =
     bnd (f668c4bd_malloc 8 (8 * unat LISTARRAY_DEFAULT_SIZE)) (\<lambda>values.
     Inr \<lparr>la_values = Some values, la_length = 0, la_size = LISTARRAY_DEFAULT_SIZE\<rparr>)"

definition b196167f_initListArrayWithSize :: "'a ListArray \<Rightarrow> u32 \<Rightarrow> 'a ListArray result" where
  "b196167f_initListArrayWithSize listArray sz =
     bnd (f668c4bd_malloc 8 (8 * unat sz)) (\<lambda>values.
     Inr (listArray\<lparr>la_values := Some values, la_size := sz, la_length := 0\<rparr>))"

definition b196167f_initListArray :: "'a ListArray \<Rightarrow> 'a ListArray result" where
  "b196167f_initListArray listArray =
     bnd (f668c4bd_malloc 8 (8 * unat LISTARRAY_DEFAULT_SIZE)) (\<lambda>values.
     Inr (listArray\<lparr>la_values := Some values, la_size := LISTARRAY_DEFAULT_SIZE, la_length := 0\<rparr>))"

text \<open>
  The elements handed to freeElement, in call order; the flag tells whether the function pointer
  is not NULL. The loop is the same in destroyListArray, cleanUpListArray and clear.
\<close>

definition la_free_loop :: "'a ListArray \<Rightarrow> bool \<Rightarrow> 'a ptr list result" where
  "la_free_loop listArray freeElement =
     (case la_values listArray of
        None \<Rightarrow> Inr []
      | Some values \<Rightarrow>
          if freeElement then read_cells values 0 (unat (la_length listArray)) else Inr [])"

definition b196167f_destroyListArray :: "'a ListArray \<Rightarrow> bool \<Rightarrow> 'a ptr list result" where
  "b196167f_destroyListArray listArray freeElement = la_free_loop listArray freeElement"

definition b196167f_cleanUpListArray :: "'a ListArray \<Rightarrow> bool \<Rightarrow> 'a ptr list result" where
  "b196167f_cleanUpListArray listArray freeElement = la_free_loop listArray freeElement"

definition b196167f_clear :: "'a ListArray \<Rightarrow> bool \<Rightarrow> ('a ptr list \<times> 'a ListArray) result" where
  "b196167f_clear listArray freeElement =
     bnd (la_free_loop listArray freeElement) (\<lambda>freed. Inr (freed, listArray\<lparr>la_length := 0\<rparr>))"

subsection \<open>Adding elements, the C routines (ARM)\<close>

definition round8 :: "u32 \<Rightarrow> u32" where
  "round8 n = push_bit 3 (drop_bit 3 (n + 7))"

definition la_grow :: "'a ListArray \<Rightarrow> u32 \<Rightarrow> 'a ListArray result" where
  "la_grow listArray capacity =
     bnd (f668c4bd_resizeArray (la_values listArray) (la_length listArray) 8 (unat capacity)) (\<lambda>values.
     Inr (listArray\<lparr>la_values := Some values, la_size := capacity\<rparr>))"

definition b196167f_add :: "'a ListArray \<Rightarrow> 'a ptr \<Rightarrow> 'a ListArray result" where
  "b196167f_add listArray element =
     bnd (if la_length listArray = la_size listArray
          then la_grow listArray (push_bit 1 (round8 (la_length listArray)))
          else Inr listArray) (\<lambda>listArray.
     bnd (deref (la_values listArray)) (\<lambda>values.
     bnd (wr values (unat (la_length listArray)) element) (\<lambda>values.
     Inr (listArray\<lparr>la_values := Some values, la_length := la_length listArray + 1\<rparr>))))"

text \<open>The copy loop: elements are read from \<open>src\<close> at index 0, 1, ...; \<open>n\<close> are left.\<close>

primrec la_copy :: "'a ptr block \<Rightarrow> nat \<Rightarrow> 'a ptr list \<Rightarrow> nat \<Rightarrow> nat \<Rightarrow> 'a ptr block result" where
  "la_copy values i src k 0 = Inr values"
| "la_copy values i src k (Suc n) =
     (if k < length src then
        bnd (wr values i (src ! k)) (\<lambda>values. la_copy values (Suc i) src (Suc k) n)
      else Inl OutOfBounds)"

definition b196167f_addAll :: "'a ListArray \<Rightarrow> 'a ptr list \<Rightarrow> u32 \<Rightarrow> 'a ListArray result" where
  "b196167f_addAll listArray elementArray numElements =
     (let newLength = la_length listArray + numElements
      in bnd (if la_size listArray \<le> newLength
              then la_grow listArray (push_bit 1 (round8 newLength)) else Inr listArray) (\<lambda>listArray.
         bnd (deref (la_values listArray)) (\<lambda>values.
         bnd (la_copy values (unat (la_length listArray)) elementArray 0
                (unat newLength - unat (la_length listArray))) (\<lambda>values.
         Inr (listArray\<lparr>la_values := Some values, la_length := newLength\<rparr>)))))"

text \<open>\<open>stack\<close> lists the elements downwards from the pointer that is passed.\<close>

definition b196167f_addFromStack :: "'a ListArray \<Rightarrow> 'a ptr list \<Rightarrow> u32 \<Rightarrow> 'a ListArray result" where
  "b196167f_addFromStack listArray stk numElements =
     (let newLength = la_length listArray + numElements
      in bnd (if la_size listArray \<le> newLength
              then la_grow listArray (push_bit 1 (round8 newLength)) else Inr listArray) (\<lambda>listArray.
         bnd (deref (la_values listArray)) (\<lambda>values.
         bnd (la_copy values (unat (la_length listArray)) stk 0
                (unat newLength - unat (la_length listArray))) (\<lambda>values.
         Inr (listArray\<lparr>la_values := Some values, la_length := newLength\<rparr>)))))"

subsection \<open>Adding elements, the x86-64 routines\<close>

definition b196167f_add_x86 :: "'a ListArray \<Rightarrow> 'a ptr \<Rightarrow> 'a ListArray result" where
  "b196167f_add_x86 listArray element =
     (if element = None then Inr listArray
      else bnd (if la_length listArray = la_size listArray
                then la_grow listArray (push_bit 1 (la_size listArray)) else Inr listArray) (\<lambda>listArray.
           bnd (deref (la_values listArray)) (\<lambda>values.
           bnd (wr values (unat (la_length listArray)) element) (\<lambda>values.
           Inr (listArray\<lparr>la_values := Some values, la_length := la_length listArray + 1\<rparr>)))))"

definition b196167f_addAll_x86 :: "'a ListArray \<Rightarrow> 'a ptr list \<Rightarrow> u32 \<Rightarrow> 'a ListArray result" where
  "b196167f_addAll_x86 listArray elementArray numElements =
     (if numElements = 0 then Inr listArray
      else let newLength = la_length listArray + numElements
           in bnd (if la_size listArray < newLength
                   then la_grow listArray (newLength + drop_bit 1 newLength) else Inr listArray) (\<lambda>listArray.
              bnd (deref (la_values listArray)) (\<lambda>values.
              bnd (la_copy values (unat (la_length listArray)) elementArray 0 (unat numElements)) (\<lambda>values.
              Inr (listArray\<lparr>la_values := Some values, la_length := newLength\<rparr>)))))"

subsection \<open>The other operations\<close>

definition b196167f_ensureCapacity :: "'a ListArray \<Rightarrow> u32 \<Rightarrow> 'a ListArray result" where
  "b196167f_ensureCapacity listArray capacity =
     (if la_size listArray < capacity then la_grow listArray (round8 capacity) else Inr listArray)"

definition b196167f_get :: "'a ListArray \<Rightarrow> u32 \<Rightarrow> 'a ptr result" where
  "b196167f_get listArray index =
     (if index < la_length listArray
      then bnd (deref (la_values listArray)) (\<lambda>values. rd values (unat index))
      else Inr None)"

definition b196167f_last :: "'a ListArray \<Rightarrow> 'a ptr result" where
  "b196167f_last listArray =
     (if 0 < la_length listArray
      then bnd (deref (la_values listArray)) (\<lambda>values. rd values (unat (la_length listArray - 1)))
      else Inr None)"

primrec null_cells :: "'a ptr block \<Rightarrow> nat \<Rightarrow> nat \<Rightarrow> 'a ptr block result" where
  "null_cells values i 0 = Inr values"
| "null_cells values i (Suc n) = bnd (wr values i None) (\<lambda>values. null_cells values (Suc i) n)"

definition b196167f_reset :: "'a ListArray \<Rightarrow> 'a ListArray result" where
  "b196167f_reset listArray =
     (if la_length listArray = 0 then Inr listArray
      else bnd (deref (la_values listArray)) (\<lambda>values.
           bnd (null_cells values 0 (unat (la_length listArray))) (\<lambda>values.
           Inr (listArray\<lparr>la_values := Some values, la_length := 0\<rparr>))))"

text \<open>The index is passed as an int; \<open>None\<close> would be a run out of fuel.\<close>

definition b196167f_sort :: "'a ListArray \<Rightarrow> ('a ptr \<Rightarrow> 'a ptr \<Rightarrow> int) \<Rightarrow> 'a ListArray result option" where
  "b196167f_sort listArray compare =
     (if 0 < la_length listArray then
        case la_values listArray of
          None \<Rightarrow> Some (Inl NullPointer)
        | Some values \<Rightarrow>
            map_option (\<lambda>r. bnd r (\<lambda>values. Inr (listArray\<lparr>la_values := Some values\<rparr>)))
              (b33b0483_sortPtrArray values 0 (sint (la_length listArray - 1)) compare)
      else Some (Inr listArray))"

subsection \<open>The abstract list\<close>

definition la_rep :: "'a ListArray \<Rightarrow> 'a ptr list \<Rightarrow> bool" where
  "la_rep s xs \<longleftrightarrow>
     (case la_values s of None \<Rightarrow> False
      | Some b \<Rightarrow> unat (la_size s) \<le> length b \<and> holds b xs) \<and>
     length xs = unat (la_length s) \<and> la_length s \<le> la_size s \<and> 0 < la_size s"

lemma la_repE:
  assumes "la_rep s xs"
  obtains b where "la_values s = Some b" "unat (la_size s) \<le> length b" "holds b xs"
    "length xs = unat (la_length s)" "la_length s \<le> la_size s" "0 < la_size s"
  using assms by (auto simp: la_rep_def split: option.splits)

lemma la_create: "\<exists>s. b196167f_createListArray = Inr s \<and> la_rep s []"
  by (simp add: b196167f_createListArray_def malloc_small la_rep_def LISTARRAY_DEFAULT_SIZE_def)

lemma la_create_size: "0 < n \<Longrightarrow> \<exists>s. b196167f_createListArrayWithSize n = Inr s \<and> la_rep s []"
  by (auto simp: b196167f_createListArrayWithSize_def malloc8_cells la_rep_def)

lemma la_init: "\<exists>s'. b196167f_initListArray s = Inr s' \<and> la_rep s' []"
  by (simp add: b196167f_initListArray_def malloc_small la_rep_def LISTARRAY_DEFAULT_SIZE_def)

lemma la_init_size: "0 < n \<Longrightarrow> \<exists>s'. b196167f_initListArrayWithSize s n = Inr s' \<and> la_rep s' []"
  by (auto simp: b196167f_initListArrayWithSize_def malloc8_cells la_rep_def)

lemma la_get:
  assumes "la_rep s xs"
  shows "b196167f_get s i = Inr (if unat i < length xs then xs ! unat i else None)"
  using assms
  by (auto elim!: la_repE simp: b196167f_get_def word_less_nat_alt intro!: holds_rd)

lemma la_last:
  assumes "la_rep s xs"
  shows "b196167f_last s = Inr (if xs = [] then None else last xs)"
proof -
  from assms obtain b where b: "la_values s = Some b" "holds b xs" "length xs = unat (la_length s)"
    by (rule la_repE)
  show ?thesis
  proof (cases "la_length s = 0")
    case True
    then show ?thesis using b by (simp add: b196167f_last_def)
  next
    case False
    then have "unat (la_length s - 1) = length xs - 1" "xs \<noteq> []"
      using unat_dec [OF False] b(3) by (auto simp: unat_eq_0)
    then have "rd b (unat (la_length s - 1)) = Inr (last xs)"
      using holds_rd [OF b(2), of "length xs - 1"] by (simp add: last_conv_nth)
    then show ?thesis
      using False b \<open>xs \<noteq> []\<close> by (simp add: b196167f_last_def word_neq_0_conv)
  qed
qed

lemma la_free_rep: "la_rep s xs \<Longrightarrow> la_free_loop s True = Inr xs"
  using read_cells_all by (fastforce elim!: la_repE simp: la_free_loop_def)

lemma la_clear:
  assumes "la_rep s xs"
  shows "\<exists>s'. b196167f_clear s free = Inr (if free then xs else [], s') \<and> la_rep s' []"
proof -
  have "la_free_loop s free = Inr (if free then xs else [])"
    using la_free_rep [OF assms] by (cases free) (auto simp: la_free_loop_def split: option.split)
  moreover have "la_rep (s\<lparr>la_length := 0\<rparr>) []"
    using assms by (auto simp: la_rep_def split: option.splits)
  ultimately show ?thesis by (simp add: b196167f_clear_def)
qed

lemma null_cells_ok:
  "i + n \<le> length b \<Longrightarrow> \<exists>b'. null_cells b i n = Inr b' \<and> length b' = length b"
proof (induction n arbitrary: b i)
  case (Suc n)
  have "Suc i + n \<le> length (b[i := Some None])" using Suc.prems by simp
  from Suc.IH [OF this] Suc.prems show ?case by (auto simp: wr_def)
qed simp

lemma la_reset:
  assumes "la_rep s xs"
  shows "\<exists>s'. b196167f_reset s = Inr s' \<and> la_rep s' []"
proof -
  from assms obtain b where b: "la_values s = Some b" "unat (la_size s) \<le> length b" "holds b xs"
    and len: "length xs = unat (la_length s)" and sz: "la_length s \<le> la_size s" "0 < la_size s"
    by (rule la_repE)
  have "0 + unat (la_length s) \<le> length b" using b(2) sz by (simp add: word_le_nat_alt)
  from null_cells_ok [OF this] obtain b' where "null_cells b 0 (unat (la_length s)) = Inr b'"
    "length b' = length b" by blast
  then show ?thesis using assms b sz len by (auto simp: b196167f_reset_def la_rep_def)
qed

text \<open>Growing: an empty list cannot be enlarged, a list with elements keeps them.\<close>

lemma la_grow_empty: "la_length s = 0 \<Longrightarrow> la_grow s cap = Inl Abort"
  by (simp add: la_grow_def resizeArray_empty)

lemma la_grow_rep:
  assumes "la_rep s xs" and "xs \<noteq> []" and "length xs \<le> unat cap"
  shows "\<exists>s'. la_grow s cap = Inr s' \<and> la_rep s' xs \<and> la_size s' = cap \<and> la_length s' = la_length s"
proof -
  from assms(1) obtain b where b: "la_values s = Some b" "unat (la_size s) \<le> length b" "holds b xs"
    and len: "length xs = unat (la_length s)" and sz: "la_length s \<le> la_size s" by (rule la_repE)
  let ?b = "take (unat (la_length s)) b @ fresh ((unat cap + 1) div 2 * 2 - unat (la_length s))"
  have "f668c4bd_resizeArray (Some b) (la_length s) 8 (unat cap) = Inr ?b"
  proof (rule resizeArray8)
    show "0 < unat (la_length s)" using len assms(2) by (simp flip: len)
    show "unat cap < 2 ^ 33" using unat_u32_lt [of cap] by simp
    show "unat (la_length s) \<le> length b" using b(2) sz by (simp add: word_le_nat_alt)
  qed (use assms len in simp)
  moreover have "holds ?b xs" using len by (intro holds_resize [OF b(3)]) simp
  moreover have "unat cap \<le> length ?b"
    using b(2) sz assms(3) len by (simp add: word_le_nat_alt; presburger)
  moreover have "la_length s \<le> cap" "0 < cap"
    using assms(2,3) len by (cases xs; simp add: word_le_nat_alt word_less_nat_alt)+
  ultimately show ?thesis using b len by (simp add: la_grow_def la_rep_def)
qed

text \<open>Writing the element after a resize that left room.\<close>

lemma la_put_rep:
  assumes "la_rep s xs" and "la_length s < la_size s"
  shows "\<exists>s'. bnd (deref (la_values s)) (\<lambda>values.
               bnd (wr values (unat (la_length s)) x) (\<lambda>values.
               Inr (s\<lparr>la_values := Some values, la_length := la_length s + 1\<rparr>))) = Inr s' \<and>
             la_rep s' (xs @ [x])"
proof -
  from assms(1) obtain b where b: "la_values s = Some b" "unat (la_size s) \<le> length b" "holds b xs"
    and len: "length xs = unat (la_length s)" and sz: "0 < la_size s" by (rule la_repE)
  have lt: "length xs < length b" using assms(2) len b(2) by (simp add: word_less_nat_alt)
  moreover have inc: "unat (la_length s + 1) = length xs + 1"
    using unat_inc_less [OF assms(2)] len by simp
  moreover have "la_length s + 1 \<le> la_size s"
    using assms(2) inc len by (simp add: word_le_nat_alt word_less_nat_alt)
  ultimately show ?thesis
    using b len sz holds_snoc [OF b(3) lt] by (simp add: wr_ok la_rep_def)
qed

lemma la_room_or_full: "la_rep s xs \<Longrightarrow> la_length s \<noteq> la_size s \<Longrightarrow> la_length s < la_size s"
  by (auto simp: la_rep_def)

lemma la_full_nonempty:
  "la_rep s xs \<Longrightarrow> la_size s \<le> la_length s + n \<Longrightarrow> unat n < unat (la_size s) \<Longrightarrow>
   unat (la_length s + n) = unat (la_length s) + unat n \<Longrightarrow> xs \<noteq> []"
  by (auto simp: la_rep_def word_le_nat_alt)

lemma round8_bounds:
  assumes "unat n < 2 ^ 30"
  shows "unat n \<le> unat (round8 n)" "unat (round8 n) \<le> unat n + 7"
proof -
  have "unat (n + 7) = unat n + 7" using assms by (simp add: unat_plus_fits)
  then have e: "unat (round8 n) = (unat n + 7) div 8 * 8"
    using assms unfolding round8_def
    by (simp add: push_bit_eq_mult drop_bit_eq_div unat_word_ariths unat_div)
  then show "unat n \<le> unat (round8 n)" "unat (round8 n) \<le> unat n + 7" by linarith+
qed

lemma shl1_round8:
  assumes "unat n < 2 ^ 30"
  shows "2 * unat n \<le> unat (push_bit 1 (round8 n))"
proof -
  have "unat (round8 n) < 2 ^ 31" using round8_bounds [OF assms] assms by simp
  then have "unat (push_bit 1 (round8 n)) = 2 * unat (round8 n)" by (rule unat_shl1_fits)
  with round8_bounds(1) [OF assms] show ?thesis by simp
qed

text \<open>
  Both single-element routines, seen as: make room (by growing to \<open>cap\<close> when full), then write.
\<close>

lemma la_add_rep:
  assumes rep: "la_rep s xs" and cap: "la_length s = la_size s \<Longrightarrow> length xs < unat cap"
  shows "\<exists>s'. bnd (if la_length s = la_size s then la_grow s cap else Inr s) (\<lambda>s.
               bnd (deref (la_values s)) (\<lambda>values.
               bnd (wr values (unat (la_length s)) x) (\<lambda>values.
               Inr (s\<lparr>la_values := Some values, la_length := la_length s + 1\<rparr>)))) = Inr s' \<and>
             la_rep s' (xs @ [x])"
proof (cases "la_length s = la_size s")
  case True
  have "xs \<noteq> []" using rep True by (auto simp: la_rep_def unat_eq_0)
  with la_grow_rep [OF rep, of cap] cap [OF True] obtain s1
    where s1: "la_grow s cap = Inr s1" "la_rep s1 xs" "la_size s1 = cap" "la_length s1 = la_length s"
    by auto
  have "la_length s1 < la_size s1"
    using s1 cap [OF True] by (auto simp: la_rep_def word_less_nat_alt)
  from la_put_rep [OF s1(2) this, of x] True s1(1) show ?thesis by simp
next
  case False
  from la_put_rep [OF rep la_room_or_full [OF rep False], of x] False show ?thesis by simp
qed

lemma la_add:
  assumes "la_rep s xs" and "length xs < 2 ^ 30"
  shows "\<exists>s'. b196167f_add s x = Inr s' \<and> la_rep s' (xs @ [x])"
  unfolding b196167f_add_def
proof (rule la_add_rep [OF assms(1)])
  assume "la_length s = la_size s"
  moreover have "length xs = unat (la_length s)" "0 < la_size s" using assms(1) by (auto simp: la_rep_def)
  ultimately show "length xs < unat (push_bit 1 (round8 (la_length s)))"
    using shl1_round8 [of "la_length s"] assms(2) by (simp add: word_less_nat_alt)
qed

lemma la_add_x86:
  assumes "la_rep s xs" and "length xs < 2 ^ 30" and "x \<noteq> None"
  shows "\<exists>s'. b196167f_add_x86 s x = Inr s' \<and> la_rep s' (xs @ [x])"
proof -
  have "\<exists>s'. bnd (if la_length s = la_size s then la_grow s (push_bit 1 (la_size s)) else Inr s) (\<lambda>s.
               bnd (deref (la_values s)) (\<lambda>values.
               bnd (wr values (unat (la_length s)) x) (\<lambda>values.
               Inr (s\<lparr>la_values := Some values, la_length := la_length s + 1\<rparr>)))) = Inr s' \<and>
             la_rep s' (xs @ [x])"
  proof (rule la_add_rep [OF assms(1)])
    assume full: "la_length s = la_size s"
    have "length xs = unat (la_length s)" "0 < la_size s" using assms(1) by (auto simp: la_rep_def)
    with full assms(2) show "length xs < unat (push_bit 1 (la_size s))"
      using unat_shl1_fits [of "la_size s"] by (simp add: word_less_nat_alt)
  qed
  with assms(3) show ?thesis unfolding b196167f_add_x86_def by (simp only: if_False)
qed

text \<open>Copying several elements.\<close>

lemma la_copy_holds:
  assumes "holds b xs" and "length xs + n \<le> length b" and "k + n \<le> length src"
  shows "\<exists>b'. la_copy b (length xs) src k n = Inr b' \<and> length b' = length b \<and>
              holds b' (xs @ take n (drop k src))"
  using assms
proof (induction n arbitrary: b xs k)
  case (Suc n)
  let ?b = "b[length xs := Some (src ! k)]"
  have "holds ?b (xs @ [src ! k])" using Suc.prems by (intro holds_snoc) auto
  from Suc.IH [OF this, of "Suc k"] Suc.prems
  obtain b' where "la_copy ?b (Suc (length xs)) src (Suc k) n = Inr b'" "length b' = length b"
    "holds b' ((xs @ [src ! k]) @ take n (drop (Suc k) src))" by auto
  moreover have "take (Suc n) (drop k src) = src ! k # take n (drop (Suc k) src)"
    using Suc.prems by (simp add: Cons_nth_drop_Suc [symmetric])
  ultimately show ?case using Suc.prems by (simp add: wr_ok)
qed simp

lemma la_copy_rep:
  assumes rep: "la_rep s xs" and n: "unat n \<le> length src"
    and fits: "unat (la_length s) + unat n \<le> unat (la_size s)"
  shows "\<exists>s'. bnd (deref (la_values s)) (\<lambda>values.
               bnd (la_copy values (unat (la_length s)) src 0 (unat n)) (\<lambda>values.
               Inr (s\<lparr>la_values := Some values, la_length := la_length s + n\<rparr>))) = Inr s' \<and>
             la_rep s' (xs @ take (unat n) src)"
proof -
  from rep obtain b where b: "la_values s = Some b" "unat (la_size s) \<le> length b" "holds b xs"
    and len: "length xs = unat (la_length s)" and sz: "0 < la_size s" by (rule la_repE)
  have sum: "unat (la_length s + n) = length xs + unat n"
    using fits len unat_u32_lt [of "la_size s"] by (simp add: unat_plus_fits)
  obtain b' where "la_copy b (length xs) src 0 (unat n) = Inr b'" "length b' = length b"
    "holds b' (xs @ take (unat n) src)"
    using la_copy_holds [OF b(3), of "unat n" 0 src] b(2) fits n len by auto
  then show ?thesis
    using b len sum sz n fits by (simp add: la_rep_def word_le_nat_alt)
qed

text \<open>addAll on a list that has room, or that has elements and may grow.\<close>

lemma la_addAll_x86:
  assumes rep: "la_rep s xs" and n: "unat n \<le> length src" and small: "length xs + unat n < 2 ^ 30"
    and ok: "xs \<noteq> [] \<or> n \<le> la_size s"
  shows "\<exists>s'. b196167f_addAll_x86 s src n = Inr s' \<and> la_rep s' (xs @ take (unat n) src)"
proof (cases "n = 0")
  case True
  then show ?thesis using rep by (simp add: b196167f_addAll_x86_def)
next
  case False
  have len: "length xs = unat (la_length s)" using rep by (simp add: la_rep_def)
  have sum: "unat (la_length s + n) = length xs + unat n"
    using small len by (simp add: unat_plus_fits)
  let ?new = "la_length s + n" and ?cap = "la_length s + n + drop_bit 1 (la_length s + n)"
  have half: "unat (drop_bit 1 ?new) = (length xs + unat n) div 2"
    using sum by (simp add: drop_bit_eq_div unat_div)
  then have cap: "unat ?cap = length xs + unat n + (length xs + unat n) div 2"
    using sum small by (subst unat_plus_fits) auto
  show ?thesis
  proof (cases "la_size s < ?new")
    case True
    have "xs \<noteq> []" using ok True sum by (auto simp: word_le_nat_alt word_less_nat_alt)
    then obtain s1 where s1: "la_grow s ?cap = Inr s1" "la_rep s1 xs" "la_size s1 = ?cap"
      "la_length s1 = la_length s" using la_grow_rep [OF rep, of ?cap] cap by auto
    then show ?thesis
      using la_copy_rep [OF s1(2) n] True False cap sum len
      by (simp add: b196167f_addAll_x86_def Let_def)
  next
    case no: False
    then have "unat (la_length s) + unat n \<le> unat (la_size s)"
      using sum len by (simp add: word_less_nat_alt)
    from la_copy_rep [OF rep n this] no False show ?thesis
      by (simp add: b196167f_addAll_x86_def Let_def)
  qed
qed

text \<open>addAll and addFromStack make an empty list abort as soon as it would have to grow.\<close>

lemma la_addAll_empty_aborts:
  "la_rep s [] \<Longrightarrow> la_size s < n \<Longrightarrow> b196167f_addAll_x86 s src n = Inl Abort"
  "la_rep s [] \<Longrightarrow> la_size s \<le> n \<Longrightarrow> b196167f_addAll s src n = Inl Abort"
  "la_rep s [] \<Longrightarrow> la_size s \<le> n \<Longrightarrow> b196167f_addFromStack s src n = Inl Abort"
  by (auto simp: la_rep_def b196167f_addAll_x86_def b196167f_addAll_def b196167f_addFromStack_def
      Let_def unat_eq_0 la_grow_empty)

lemma la_ensure_empty_aborts: "la_rep s [] \<Longrightarrow> la_size s < cap \<Longrightarrow> b196167f_ensureCapacity s cap = Inl Abort"
  by (simp add: la_rep_def b196167f_ensureCapacity_def unat_eq_0 la_grow_empty)

lemma la_ensure:
  assumes "la_rep s xs" and "xs \<noteq> []" and "unat cap < 2 ^ 30" and "length xs < 2 ^ 30"
  shows "\<exists>s'. b196167f_ensureCapacity s cap = Inr s' \<and> la_rep s' xs \<and> cap \<le> la_size s'"
proof (cases "la_size s < cap")
  case True
  have "unat (la_size s) < unat (round8 cap)" "unat cap \<le> unat (round8 cap)"
    using True round8_bounds [OF assms(3)] by (auto simp: word_less_nat_alt)
  moreover have "length xs \<le> unat (la_size s)" using assms(1) by (auto simp: la_rep_def word_le_nat_alt)
  ultimately obtain s1 where "la_grow s (round8 cap) = Inr s1" "la_rep s1 xs" "la_size s1 = round8 cap"
    using la_grow_rep [OF assms(1,2), of "round8 cap"] by auto
  then show ?thesis
    using True \<open>unat cap \<le> _\<close> by (simp add: b196167f_ensureCapacity_def word_le_nat_alt)
next
  case False
  then show ?thesis using assms(1) by (simp add: b196167f_ensureCapacity_def)
qed

subsection \<open>Sorting\<close>

lemma la_sort:
  assumes rep: "la_rep s xs" and cmp: "cmp_order compare" and len: "2 \<le> length xs" "length xs < 2 ^ 31"
  shows "\<exists>s' ys. b196167f_sort s compare = Some (Inr s') \<and> la_rep s' ys \<and> mset ys = mset xs \<and>
                 sorted_wrt (\<lambda>x y. compare x y \<le> 0) ys"
proof -
  from rep obtain b where b: "la_values s = Some b" "unat (la_size s) \<le> length b" "holds b xs"
    and l: "length xs = unat (la_length s)" and sz: "la_length s \<le> la_size s" by (rule la_repE)
  have bb: "b = map Some xs @ drop (length xs) b"
    using b(3) append_take_drop_id [of "length xs" b] by (simp add: holds_def)
  have n0: "la_length s \<noteq> 0" using l len by auto
  then have "unat (la_length s - 1) = length xs - 1" using unat_dec l by simp
  then have idx: "sint (la_length s - 1) = int (length xs) - 1"
    using len by (simp add: sint_small of_nat_diff)
  from sort_all [OF cmp len(1), of "drop (length xs) b"] bb obtain ys
    where ys: "b33b0483_sortPtrArray b 0 (int (length xs) - 1) compare
             = Some (Inr (map Some ys @ drop (length xs) b))"
      and m: "mset ys = mset xs" "sorted_wrt (\<lambda>x y. compare x y \<le> 0) ys" by auto
  have leq: "length ys = length xs" using m(1) by (rule mset_eq_length)
  let ?s = "s\<lparr>la_values := Some (map Some ys @ drop (length xs) b)\<rparr>"
  have "length xs \<le> length b" using b(3) by (rule holds_length)
  then have "la_rep ?s ys"
    using rep b leq l by (simp add: la_rep_def holds_append_cells)
  moreover have "b196167f_sort s compare = Some (Inr ?s)"
    using n0 b idx ys by (simp add: b196167f_sort_def word_neq_0_conv)
  ultimately show ?thesis using m by blast
qed

lemma la_sort_empty: "la_rep s [] \<Longrightarrow> b196167f_sort s compare = Some (Inr s)"
  by (simp add: la_rep_def b196167f_sort_def unat_eq_0)

lemma la_sort_one: "la_rep s [x] \<Longrightarrow> b196167f_sort s compare = Some (Inl OutOfBounds)"
proof -
  assume rep: "la_rep s [x]"
  then have "la_length s = 1" by (auto simp: la_rep_def word_unat_eq_iff)
  with rep show ?thesis
    by (auto simp: la_rep_def b196167f_sort_def sort_singleton split: option.splits)
qed

subsection \<open>The contract of a growable list\<close>

locale growable =
  fixes rep :: "'s \<Rightarrow> 'e ptr list \<Rightarrow> bool"
    and add :: "'s \<Rightarrow> 'e ptr \<Rightarrow> 's result"
    and get :: "'s \<Rightarrow> u32 \<Rightarrow> 'e ptr result"
    and storable :: "'e ptr \<Rightarrow> bool"
    and limit :: nat
  assumes add_law: "rep s xs \<Longrightarrow> length xs < limit \<Longrightarrow> storable x \<Longrightarrow>
                      \<exists>s'. add s x = Inr s' \<and> rep s' (xs @ [x])"
    and get_law: "rep s xs \<Longrightarrow> get s i = Inr (if unat i < length xs then xs ! unat i else None)"
begin

lemma add_many:
  assumes "rep s xs" and "length xs + length ys \<le> limit" and "\<forall>y \<in> set ys. storable y"
  shows "\<exists>s'. fold_result add s ys = Inr s' \<and> rep s' (xs @ ys)"
  using assms
proof (induction ys arbitrary: s xs)
  case (Cons y ys)
  from add_law [OF Cons.prems(1), of y] Cons.prems(2,3)
  obtain s1 where "add s y = Inr s1" "rep s1 (xs @ [y])" by auto
  with Cons.IH [of s1 "xs @ [y]"] Cons.prems show ?case by simp
qed simp

lemma add_many_get:
  assumes "rep s []" and "length ys \<le> limit" and "\<forall>y \<in> set ys. storable y" and "unat i < length ys"
  shows "\<exists>s'. fold_result add s ys = Inr s' \<and> get s' i = Inr (ys ! unat i)"
proof -
  from add_many [OF assms(1), of ys] assms(2,3) obtain s'
    where "fold_result add s ys = Inr s'" "rep s' ys" by auto
  with get_law [of s' ys i] assms(4) show ?thesis by auto
qed

end

interpretation la: growable la_rep b196167f_add b196167f_get "\<lambda>_. True" "2 ^ 30"
  by unfold_locales (simp_all add: la_add la_get)

interpretation la_x86: growable la_rep b196167f_add_x86 b196167f_get "\<lambda>x. x \<noteq> None" "2 ^ 30"
  by unfold_locales (simp_all add: la_add_x86 la_get)

subsection \<open>Properties\<close>

text \<open>After adding elements one by one to a new list, reading an index returns the element
  added at that position (the x86-64 routine, which skips NULL elements).\<close>

theorem list_add_get:
  assumes "la_rep s []" and "length ys \<le> 2 ^ 30" and "None \<notin> set ys" and "unat i < length ys"
  shows "\<exists>s'. fold_result b196167f_add_x86 s ys = Inr s' \<and> b196167f_get s' i = Inr (ys ! unat i)"
  using assms by (intro la_x86.add_many_get) metis+

lemma list_add_get_witness:
  "\<exists>s s'. b196167f_createListArray = Inr (s::nat ListArray) \<and>
     fold_result b196167f_add_x86 s (map Some [0..<20]) = Inr s' \<and> b196167f_get s' 11 = Inr (Some 11)"
proof -
  obtain s :: "nat ListArray" where s: "b196167f_createListArray = Inr s" "la_rep s []"
    using la_create by blast
  have "None \<notin> set (map Some [0..<20])" by auto
  then show ?thesis using list_add_get [OF s(2), of "map Some [0..<20]" 11] s(1) by auto
qed

text \<open>C26: sorting a list with a total preorder permutes the elements and leaves them in order, and the auxiliary stack of
  the quicksort never overflows, unless the list has exactly one element: then the stack, whose size is the number of
  elements, is too small for the two bounds that are put on it, and the second is written outside of it.\<close>

theorem list_sort_sorts:
  assumes "la_rep s xs" and "cmp_order compare" and "length xs < 2 ^ 31"
  shows "if length xs = 1 then b196167f_sort s compare = Some (Inl OutOfBounds)
         else \<exists>s' ys. b196167f_sort s compare = Some (Inr s') \<and> la_rep s' ys \<and> mset ys = mset xs \<and>
                      sorted_wrt (\<lambda>x y. compare x y \<le> 0) ys"
proof -
  consider "xs = []" | x where "xs = [x]" | "2 \<le> length xs" by (cases xs rule: remdups_adj.cases) auto
  then show ?thesis
  proof cases
    case 1
    then show ?thesis using la_sort_empty [of s] assms(1) by auto
  next
    case 2
    then show ?thesis using la_sort_one assms(1) by simp
  next
    case 3
    then show ?thesis using la_sort [OF assms(1,2) _ assms(3)] by simp
  qed
qed

definition by_value :: "nat ptr \<Rightarrow> nat ptr \<Rightarrow> int" where
  "by_value a b = int (case a of None \<Rightarrow> 0 | Some x \<Rightarrow> x) - int (case b of None \<Rightarrow> 0 | Some x \<Rightarrow> x)"

lemma list_sort_sorts_witness:
  "\<exists>s' ys. b196167f_sort \<lparr>la_values = Some (map (Some \<circ> Some) [3, 1, 2, 0] @ [None]),
              la_length = 4, la_size = 5\<rparr> by_value = Some (Inr s') \<and> la_rep s' ys \<and>
            mset ys = mset (map Some [3, 1, 2, 0]) \<and> sorted_wrt (\<lambda>x y. by_value x y \<le> 0) ys"
proof -
  have rep: "la_rep \<lparr>la_values = Some (map (Some \<circ> Some) [3, 1, 2, 0] @ [None]), la_length = 4, la_size = 5\<rparr>
          (map Some [3, 1, 2, 0 :: nat])"
    by (simp add: la_rep_def holds_def)
  have cmp: "cmp_order by_value" by (auto simp: cmp_order_def by_value_def)
  show ?thesis using list_sort_sorts [OF rep cmp] by simp
qed

text \<open>Sorting a list of exactly one element writes past the auxiliary stack, whose size is the
  number of elements.\<close>

theorem list_sort_single_overflows:
  assumes "la_rep s [x]"
  shows "b196167f_sort s compare = Some (Inl OutOfBounds)"
  using assms by (rule la_sort_one)

lemma list_sort_single_overflows_witness:
  "b196167f_sort \<lparr>la_values = Some [Some (Some 3)], la_length = 1, la_size = 1\<rparr> by_value
     = Some (Inl OutOfBounds)"
  by (rule list_sort_single_overflows [where x = "Some 3"]) (simp add: la_rep_def holds_def)

end
