(* ===== verification/IntText.thy ===== *)
theory IntText
  imports CMemory
begin

text \<open>
  The integer-to-text half of lang/integer.c and lang/long.c, with the digit tables of
  lang/string.c. A buffer that is filled from its end is a pair of the room left before the
  target pointer and the text already written after it; the closing NUL takes one byte of the
  allocation. \<open>dec_string\<close> is the reference: ordinary decimal notation.
\<close>

subsection \<open>Digit tables (lang/string.c)\<close>

definition f6215943_digitOnes :: string where
  "f6215943_digitOnes =
     ''01234567890123456789012345678901234567890123456789012345678901234567890123456789012345678901234567890123456789012345678901234567''"

definition f6215943_digitTens :: string where
  "f6215943_digitTens =
     ''00000000001111111111222222222233333333334444444444555555555566666666667777777777888888888899999999990000000000000000000000000000''"

definition f6215943_digitHex :: string where
  "f6215943_digitHex = ''0123456789abcdef''"

subsection \<open>Text sizes\<close>

definition f45efac2_getStringSize_uint32 :: "u32 \<Rightarrow> u32" where
  "f45efac2_getStringSize_uint32 value =
     (if value < 100000 then
        if value < 10 then 2
        else if value < 100 then 3
        else if value < 1000 then 4
        else if value < 10000 then 5
        else 6
      else if value < 1000000 then 7
      else if value < 10000000 then 8
      else if value < 100000000 then 9
      else if value < 1000000000 then 10
      else 11)"

definition f45efac2_getStringSize_int32 :: "u32 \<Rightarrow> u32" where
  "f45efac2_getStringSize_int32 value =
     (if 0 \<le> sint value then f45efac2_getStringSize_uint32 value
      else f45efac2_getStringSize_uint32 (- value) + 1)"

definition db0acb04_getStringSize_uint64 :: "u64 \<Rightarrow> u32" where
  "db0acb04_getStringSize_uint64 value =
     (if value < 10000000000 then
        if value < 100000 then
          if value < 10 then 2
          else if value < 100 then 3
          else if value < 1000 then 4
          else if value < 10000 then 5
          else 6
        else if value < 1000000 then 7
        else if value < 10000000 then 8
        else if value < 100000000 then 9
        else if value < 1000000000 then 10
        else 11
      else if value < 1000000000000000 then
        if value < 100000000000 then 12
        else if value < 1000000000000 then 13
        else if value < 10000000000000 then 14
        else if value < 100000000000000 then 15
        else 16
      else if value < 10000000000000000 then 17
      else if value < 100000000000000000 then 18
      else if value < 1000000000000000000 then 19
      else if value < 10000000000000000000 then 20
      else 21)"

definition db0acb04_getStringSize_int64 :: "u64 \<Rightarrow> u32" where
  "db0acb04_getStringSize_int64 value =
     (if 0 \<le> sint value then db0acb04_getStringSize_uint64 value
      else db0acb04_getStringSize_uint64 (- value) + 1)"

subsection \<open>Inline functions of integer.h and long.h\<close>

definition f45efac2_max_uint32 :: "u32 \<Rightarrow> u32 \<Rightarrow> u32" where
  "f45efac2_max_uint32 foo bar = (if bar < foo then foo else bar)"

definition f45efac2_min_uint32 :: "u32 \<Rightarrow> u32 \<Rightarrow> u32" where
  "f45efac2_min_uint32 foo bar = (if foo < bar then foo else bar)"

definition f45efac2_range :: "int \<Rightarrow> int \<Rightarrow> int \<Rightarrow> int" where
  "f45efac2_range value low high = (if value < low then low else if high < value then high else value)"

subsection \<open>Filling a buffer from its end\<close>

text \<open>\<open>(*--target) = ch\<close>: no room left means a write before the allocation.\<close>

definition put_back :: "char \<Rightarrow> nat \<times> string \<Rightarrow> (nat \<times> string) result" where
  "put_back ch t = (if fst t = 0 then Inl OutOfBounds else Inr (fst t - 1, ch # snd t))"

definition digit_at :: "string \<Rightarrow> nat \<Rightarrow> char result" where
  "digit_at tab i = (if i < length tab then Inr (tab ! i) else Inl OutOfBounds)"

text \<open>\<open>'0' + value\<close> for a value below ten.\<close>

definition ascii_digit :: "nat \<Rightarrow> char" where
  "ascii_digit d = char_of (48 + d)"

definition put_pair :: "nat \<Rightarrow> nat \<times> string \<Rightarrow> (nat \<times> string) result" where
  "put_pair r t =
     bnd (digit_at f6215943_digitOnes r) (\<lambda>ones. bnd (put_back ones t) (\<lambda>t.
     bnd (digit_at f6215943_digitTens r) (\<lambda>tens. put_back tens t)))"

fun dec_loop :: "nat \<Rightarrow> nat \<times> string \<Rightarrow> (nat \<times> string) result" where
  "dec_loop value t =
     (if 100 \<le> value then bnd (put_pair (value mod 100) t) (dec_loop (value div 100))
      else if value < 10 then put_back (ascii_digit value) t
      else put_pair value t)"

declare dec_loop.simps [simp del]

text \<open>
  The result is the offset of the returned pointer in the allocation (free needs it to be 0) and
  the text. The smallest negative values are string literals, which are in no allocation: \<open>None\<close>.
\<close>

definition allocated :: "(nat \<times> string) result \<Rightarrow> (nat option \<times> string) result" where
  "allocated str = bnd str (\<lambda>(offset, text). Inr (Some offset, text))"

definition f45efac2_toString_uint32 :: "u32 \<Rightarrow> (nat \<times> string) result" where
  "f45efac2_toString_uint32 value =
     dec_loop (unat value) (unat (f45efac2_getStringSize_uint32 value) - 1, [])"

definition f45efac2_toString_int32 :: "u32 \<Rightarrow> (nat option \<times> string) result" where
  "f45efac2_toString_int32 value =
     (if value = 0x80000000 then Inr (None, ''-2147483648'')
      else let mallocSize = unat (f45efac2_getStringSize_int32 value);
               sign = (sint value < 0);
               value = (if sign then - value else value)
           in allocated (bnd (dec_loop (unat value) (mallocSize - 1, [])) (\<lambda>t.
              if sign then put_back CHR ''-'' t else Inr t)))"

definition db0acb04_toString_uint64 :: "u64 \<Rightarrow> (nat \<times> string) result" where
  "db0acb04_toString_uint64 value =
     dec_loop (unat value) (unat (db0acb04_getStringSize_uint64 value) - 1, [])"

definition db0acb04_toString_int64 :: "u64 \<Rightarrow> (nat option \<times> string) result" where
  "db0acb04_toString_int64 value =
     (if value = 0x8000000000000000 then Inr (None, ''-9223372036854775808'')
      else let mallocSize = unat (db0acb04_getStringSize_int64 value);
               sign = (sint value < 0);
               value = (if sign then - value else value)
           in allocated (bnd (dec_loop (unat value) (mallocSize - 1, [])) (\<lambda>t.
              if sign then put_back CHR ''-'' t else Inr t)))"

subsection \<open>Hexadecimal\<close>

definition put_hex :: "nat \<Rightarrow> nat \<times> string \<Rightarrow> (nat \<times> string) result" where
  "put_hex d t = bnd (digit_at f6215943_digitHex d) (\<lambda>c. put_back c t)"

fun hex_loop :: "nat \<Rightarrow> nat \<times> string \<Rightarrow> (nat \<times> string) result" where
  "hex_loop value t =
     (if 256 \<le> value then
        bnd (put_hex (value mod 16) t) (\<lambda>t.
        bnd (put_hex (value div 16 mod 16) t) (\<lambda>t.
        hex_loop (value div 16 div 16) t))
      else if value < 16 then put_hex value t
      else bnd (put_hex (value mod 16) t) (put_hex (value div 16)))"

declare hex_loop.simps [simp del]

text \<open>\<open>while (target != end)\<close> with \<open>end\<close> two bytes into the allocation.\<close>

definition pad_zeros :: "nat \<times> string \<Rightarrow> (nat \<times> string) result" where
  "pad_zeros t = (if fst t < 2 then Inl OutOfBounds
                  else Inr (2, replicate (fst t - 2) CHR ''0'' @ snd t))"

definition f45efac2_toStringHex_uint32 :: "u32 \<Rightarrow> u32 \<Rightarrow> (nat \<times> string) result" where
  "f45efac2_toStringHex_uint32 value precision =
     (let mallocSize = unat (f45efac2_max_uint32 (precision + 1) (f45efac2_getStringSize_uint32 value) + 2)
      in bnd (hex_loop (unat value) (mallocSize - 1, [])) (\<lambda>t.
         bnd (pad_zeros t) (\<lambda>t.
         bnd (put_back CHR ''x'' t) (\<lambda>t. put_back CHR ''0'' t))))"

subsection \<open>The reference: decimal notation\<close>

fun dec_string :: "nat \<Rightarrow> string" where
  "dec_string n = (if n < 10 then [ascii_digit n] else dec_string (n div 10) @ [ascii_digit (n mod 10)])"

declare dec_string.simps [simp del]

text \<open>
  The conversions %u, %d and %ld of printf, and %s, where the C library at hand writes (null) for NULL.
\<close>

definition fmt_u :: "u32 \<Rightarrow> string" where
  "fmt_u n = dec_string (unat n)"

definition int_string :: "int \<Rightarrow> string" where
  "int_string i = (if i < 0 then CHR ''-'' # dec_string (nat (- i)) else dec_string (nat i))"

definition fmt_d :: "u32 \<Rightarrow> string" where
  "fmt_d n = int_string (sint n)"

definition fmt_ld :: "u64 \<Rightarrow> string" where
  "fmt_ld n = int_string (sint n)"

definition fmt_s :: "string option \<Rightarrow> string" where
  "fmt_s s = (case s of None \<Rightarrow> ''(null)'' | Some t \<Rightarrow> t)"

lemma dec_string_length:
  "n < 10 ^ Suc k \<Longrightarrow> (k = 0 \<or> 10 ^ k \<le> n) \<Longrightarrow> length (dec_string n) = Suc k"
proof (induction k arbitrary: n)
  case 0
  then show ?case by (simp add: dec_string.simps)
next
  case (Suc k)
  have "n div 10 < 10 ^ Suc k" using Suc.prems(1) by (simp add: div_less_iff_less_mult)
  moreover have "10 ^ k \<le> n div 10" using Suc.prems(2) by (simp add: less_eq_div_iff_mult_less_eq mult.commute)
  ultimately have "length (dec_string (n div 10)) = Suc k" by (intro Suc.IH) auto
  moreover have "\<not> n < 10"
  proof -
    have "(1::nat) \<le> 10 ^ k" by simp
    with Suc.prems(2) show ?thesis unfolding power_Suc by linarith
  qed
  ultimately show ?case by (simp add: dec_string.simps [of n])
qed

lemma all_below_100: "(\<forall>n < 100. P n) \<longleftrightarrow> (\<forall>n \<in> set [0..<100]. P (n::nat))"
  by auto

text \<open>The two tables give the two digits of every number below one hundred.\<close>

lemma digit_tables:
  "r < 100 \<Longrightarrow> digit_at f6215943_digitOnes r = Inr (ascii_digit (r mod 10)) \<and>
              digit_at f6215943_digitTens r = Inr (ascii_digit (r div 10))"
proof -
  have "\<forall>r \<in> set [0..<100]. digit_at f6215943_digitOnes r = Inr (ascii_digit (r mod 10)) \<and>
              digit_at f6215943_digitTens r = Inr (ascii_digit (r div 10))" by code_simp
  then show "r < 100 \<Longrightarrow> ?thesis" by simp
qed

lemma put_pair_digits:
  "r < 100 \<Longrightarrow> 2 \<le> room \<Longrightarrow>
   put_pair r (room, acc) = Inr (room - 2, ascii_digit (r div 10) # ascii_digit (r mod 10) # acc)"
  by (simp add: put_pair_def digit_tables put_back_def)

lemma dec_string_two: "100 \<le> n \<Longrightarrow>
   dec_string n = dec_string (n div 100) @ [ascii_digit (n mod 100 div 10), ascii_digit (n mod 100 mod 10)]"
proof -
  assume n: "100 \<le> n"
  have "n mod 100 = 10 * (n div 10 mod 10) + n mod 10" using mod_mult2_eq [of n 10 10] by simp
  then have "n div 10 mod 10 = n mod 100 div 10" "n mod 10 = n mod 100 mod 10" by simp_all
  moreover have "n div 10 div 10 = n div 100" by (simp add: div_mult2_eq [symmetric])
  moreover have "\<not> n < 10" "\<not> n div 10 < 10" using n by auto
  ultimately show ?thesis by (simp add: dec_string.simps [of n] dec_string.simps [of "n div 10"])
qed

lemma dec_loop_writes:
  "length (dec_string n) \<le> room \<Longrightarrow>
   dec_loop n (room, acc) = Inr (room - length (dec_string n), dec_string n @ acc)"
proof (induction n arbitrary: room acc rule: less_induct)
  case (less n)
  show ?case
  proof (cases "100 \<le> n")
    case True
    note two = dec_string_two [OF True]
    then have "2 \<le> room" and l: "length (dec_string (n div 100)) \<le> room - 2" using less.prems by auto
    moreover have "n div 100 < n" using True by simp
    ultimately show ?thesis
      using True two by (simp add: dec_loop.simps [of n] put_pair_digits less.IH)
  next
    case False
    show ?thesis
    proof (cases "n < 10")
      case True
      then show ?thesis using less.prems by (simp add: dec_loop.simps dec_string.simps put_back_def)
    next
      case no: False
      moreover have "n div 10 < 10" using False by simp
      ultimately have "dec_string n = [ascii_digit (n div 10), ascii_digit (n mod 10)]"
        using False by (simp add: dec_string.simps [of n] dec_string.simps [of "n div 10"])
      then show ?thesis using False no less.prems by (simp add: dec_loop.simps put_pair_digits)
    qed
  qed
qed

text \<open>The size tables are exact: one byte more than the digits.\<close>

lemma getStringSize_uint32_exact:
  "unat (f45efac2_getStringSize_uint32 v) = length (dec_string (unat v)) + 1"
  using unat_u32_lt [of v]
  unfolding f45efac2_getStringSize_uint32_def word_less_nat_alt
  by (simp add: not_less dec_string_length [of _ 0, simplified] dec_string_length [of _ 1, simplified]
    dec_string_length [of _ 2, simplified] dec_string_length [of _ 3, simplified]
    dec_string_length [of _ 4, simplified] dec_string_length [of _ 5, simplified]
    dec_string_length [of _ 6, simplified] dec_string_length [of _ 7, simplified]
    dec_string_length [of _ 8, simplified] dec_string_length [of _ 9, simplified]
      split: if_split)

lemma getStringSize_uint64_exact:
  "unat (db0acb04_getStringSize_uint64 v) = length (dec_string (unat v)) + 1"
  using unat_u64_lt [of v]
  unfolding db0acb04_getStringSize_uint64_def word_less_nat_alt
  by (simp add: not_less dec_string_length [of _ 0, simplified] dec_string_length [of _ 1, simplified]
    dec_string_length [of _ 2, simplified] dec_string_length [of _ 3, simplified]
    dec_string_length [of _ 4, simplified] dec_string_length [of _ 5, simplified]
    dec_string_length [of _ 6, simplified] dec_string_length [of _ 7, simplified]
    dec_string_length [of _ 8, simplified] dec_string_length [of _ 9, simplified]
    dec_string_length [of _ 10, simplified] dec_string_length [of _ 11, simplified]
    dec_string_length [of _ 12, simplified] dec_string_length [of _ 13, simplified]
    dec_string_length [of _ 14, simplified] dec_string_length [of _ 15, simplified]
    dec_string_length [of _ 16, simplified] dec_string_length [of _ 17, simplified]
    dec_string_length [of _ 18, simplified] dec_string_length [of _ 19, simplified]
      split: if_split)

lemma dec_string_length_le: "length (dec_string (unat (v::u32))) \<le> 10"
proof -
  have "unat (f45efac2_getStringSize_uint32 v) \<le> 11"
    unfolding f45efac2_getStringSize_uint32_def by (simp split: if_split)
  then show ?thesis using getStringSize_uint32_exact [of v] by simp
qed

lemma dec_string_length_u64: "length (dec_string (unat (v::u64))) \<le> 20"
  using getStringSize_uint64_exact [of v] by (simp add: db0acb04_getStringSize_uint64_def split: if_splits)

lemma toString_uint32_dec: "f45efac2_toString_uint32 v = Inr (0, dec_string (unat v))"
  by (simp add: f45efac2_toString_uint32_def getStringSize_uint32_exact dec_loop_writes)

lemma toString_uint64_dec: "db0acb04_toString_uint64 v = Inr (0, dec_string (unat v))"
  by (simp add: db0acb04_toString_uint64_def getStringSize_uint64_exact dec_loop_writes)

subsection \<open>Signed values and hexadecimal\<close>

lemma ascii_digit_table:
  "ascii_digit 0 = CHR ''0''" "ascii_digit 1 = CHR ''1''" "ascii_digit 2 = CHR ''2''"
  "ascii_digit 3 = CHR ''3''" "ascii_digit 4 = CHR ''4''" "ascii_digit 5 = CHR ''5''"
  "ascii_digit 6 = CHR ''6''" "ascii_digit 7 = CHR ''7''" "ascii_digit 8 = CHR ''8''"
  "ascii_digit 9 = CHR ''9''"
  by code_simp+

lemma toString_int32_dec:
  "f45efac2_toString_int32 v = Inr (if v = 0x80000000 then None else Some 0, int_string (sint v))"
proof (cases "v = 0x80000000")
  case True
  have "dec_string 2147483648 = ''2147483648''"
    by (simp add: dec_string.simps ascii_digit_table del: One_nat_def)
  with True show ?thesis by (simp add: f45efac2_toString_int32_def int_string_def)
next
  case False
  show ?thesis
  proof (cases "sint v < 0")
    case True
    have "nat (- sint v) = unat (- v)" using uint_neg_sint32(2) [OF True False] by linarith
    moreover have "unat (f45efac2_getStringSize_int32 v) = length (dec_string (unat (- v))) + 2"
    proof -
      have "length (dec_string (unat (- v))) + 2 < 2 ^ 32"
        using dec_string_length_le [of "- v"] by simp
      then show ?thesis
        using True getStringSize_uint32_exact [of "- v"]
        by (simp add: f45efac2_getStringSize_int32_def unat_plus_fits)
    qed
    ultimately show ?thesis
      using True False
      by (simp add: f45efac2_toString_int32_def allocated_def Let_def dec_loop_writes put_back_def int_string_def)
  next
    case pos: False
    have "nat (sint v) = unat v" using uint_sint32_pos [of v] pos by linarith
    moreover have "unat (f45efac2_getStringSize_int32 v) = length (dec_string (unat v)) + 1"
      using pos getStringSize_uint32_exact [of v] by (simp add: f45efac2_getStringSize_int32_def)
    ultimately show ?thesis
      using pos False by (simp add: f45efac2_toString_int32_def allocated_def Let_def dec_loop_writes int_string_def)
  qed
qed

lemma toString_int64_dec:
  "db0acb04_toString_int64 v = Inr (if v = 0x8000000000000000 then None else Some 0, int_string (sint v))"
proof (cases "v = 0x8000000000000000")
  case True
  have "dec_string 9223372036854775808 = ''9223372036854775808''"
    by (simp add: dec_string.simps ascii_digit_table del: One_nat_def)
  with True show ?thesis by (simp add: db0acb04_toString_int64_def int_string_def)
next
  case False
  show ?thesis
  proof (cases "sint v < 0")
    case True
    have "nat (- sint v) = unat (- v)" using uint_neg_sint64 [OF True False] by linarith
    moreover have "unat (db0acb04_getStringSize_int64 v) = length (dec_string (unat (- v))) + 2"
    proof -
      have "length (dec_string (unat (- v))) + 2 < 2 ^ 32"
        using dec_string_length_u64 [of "- v"] by simp
      then show ?thesis
        using True getStringSize_uint64_exact [of "- v"]
        by (simp add: db0acb04_getStringSize_int64_def unat_plus_fits)
    qed
    ultimately show ?thesis
      using True False
      by (simp add: db0acb04_toString_int64_def allocated_def Let_def dec_loop_writes put_back_def int_string_def)
  next
    case pos: False
    have "nat (sint v) = unat v" using uint_sint64_pos [of v] pos by linarith
    moreover have "unat (db0acb04_getStringSize_int64 v) = length (dec_string (unat v)) + 1"
      using pos getStringSize_uint64_exact [of v] by (simp add: db0acb04_getStringSize_int64_def)
    ultimately show ?thesis
      using pos False by (simp add: db0acb04_toString_int64_def allocated_def Let_def dec_loop_writes int_string_def)
  qed
qed

fun hex_string :: "nat \<Rightarrow> string" where
  "hex_string n = (if n < 16 then [f6215943_digitHex ! n]
                   else hex_string (n div 16) @ [f6215943_digitHex ! (n mod 16)])"

declare hex_string.simps [simp del]

lemma length_digitHex [simp]: "length f6215943_digitHex = 16"
  by (simp add: f6215943_digitHex_def)

lemma put_hex_digit: "d < 16 \<Longrightarrow> 1 \<le> room \<Longrightarrow>
   put_hex d (room, acc) = Inr (room - 1, f6215943_digitHex ! d # acc)"
  by (simp add: put_hex_def digit_at_def put_back_def)

lemma hex_loop_writes:
  "length (hex_string n) \<le> room \<Longrightarrow>
   hex_loop n (room, acc) = Inr (room - length (hex_string n), hex_string n @ acc)"
proof (induction n arbitrary: room acc rule: less_induct)
  case (less n)
  show ?case
  proof (cases "256 \<le> n")
    case True
    then have "\<not> n div 16 < 16" by simp
    then have two: "hex_string n = hex_string (n div 16 div 16) @
        [f6215943_digitHex ! (n div 16 mod 16), f6215943_digitHex ! (n mod 16)]"
      using True by (simp add: hex_string.simps [of n] hex_string.simps [of "n div 16"])
    then have "2 \<le> room" and l: "length (hex_string (n div 16 div 16)) \<le> room - 2"
      using less.prems by auto
    moreover have "n div 16 div 16 < n" using True by (simp add: div_mult2_eq [symmetric])
    ultimately show ?thesis
      using True two by (simp add: hex_loop.simps [of n] put_hex_digit less.IH)
  next
    case False
    then have "n div 16 < 16" by simp
    then show ?thesis
      using False less.prems hex_string.simps [of "n div 16"]
      by (cases "n < 16") (simp_all add: hex_loop.simps [of n] hex_string.simps [of n] put_hex_digit)
  qed
qed

lemma hex_shorter_than_dec: "length (hex_string n) \<le> length (dec_string n)"
proof (induction n rule: less_induct)
  case (less n)
  show ?case
  proof (cases "n < 16")
    case True
    then show ?thesis using dec_string.simps [of n] by (simp add: hex_string.simps [of n])
  next
    case False
    have mono: "length (dec_string a) \<le> length (dec_string b)" if "a \<le> b" for a b
      using that
    proof (induction b arbitrary: a rule: less_induct)
      case (less b)
      show ?case
      proof (cases "a < 10")
        case True then show ?thesis using dec_string.simps [of b] by (simp add: dec_string.simps [of a])
      next
        case False
        with less.prems have "b div 10 < b" "a div 10 \<le> b div 10" by (auto intro: div_le_mono)
        with less.IH False less.prems show ?thesis by (simp add: dec_string.simps [of a] dec_string.simps [of b])
      qed
    qed
    have "length (hex_string (n div 16)) \<le> length (dec_string (n div 16))" using False by (intro less.IH) simp
    also have "\<dots> \<le> length (dec_string (n div 10))" by (intro mono div_le_mono2) auto
    finally show ?thesis using False by (simp add: hex_string.simps [of n] dec_string.simps [of n])
  qed
qed

text \<open>
  The hexadecimal text has as many digits as the larger of the precision and the number of
  DECIMAL digits of the value, because the buffer is sized with the decimal size table.
\<close>

lemma toStringHex_text:
  assumes "unat precision < 2 ^ 32 - 4"
  shows "f45efac2_toStringHex_uint32 v precision =
     Inr (0, ''0x'' @ replicate (max (unat precision) (length (dec_string (unat v)))
                                  - length (hex_string (unat v))) CHR ''0'' @ hex_string (unat v))"
proof -
  let ?d = "length (dec_string (unat v))" and ?h = "length (hex_string (unat v))"
  have hd: "?h \<le> ?d" by (rule hex_shorter_than_dec)
  have p1: "unat (precision + 1) = unat precision + 1" using assms by (simp add: unat_plus_fits)
  have sz: "unat (f45efac2_getStringSize_uint32 v) = ?d + 1" by (rule getStringSize_uint32_exact)
  have m: "unat (f45efac2_max_uint32 (precision + 1) (f45efac2_getStringSize_uint32 v)) = max (unat precision) ?d + 1"
    using p1 sz by (auto simp: f45efac2_max_uint32_def word_less_nat_alt max_def)
  have "?d + 3 < 2 ^ 32" using dec_string_length_le [of v] by simp
  then have "unat (f45efac2_max_uint32 (precision + 1) (f45efac2_getStringSize_uint32 v) + 2)
      = max (unat precision) ?d + 3"
    using m assms by (subst unat_plus_fits) (auto simp: max_def)
  then show ?thesis
    using hd by (simp add: f45efac2_toStringHex_uint32_def hex_loop_writes pad_zeros_def put_back_def)
qed

subsection \<open>Properties\<close>

text \<open>The texts of 32-bit and 64-bit unsigned and of 32-bit signed values are their decimal notation, for
  every value, and start at the allocation so that they can be freed, except for the smallest signed value.\<close>

theorem toString_is_decimal:
  "f45efac2_toString_uint32 u = Inr (0, dec_string (unat u)) \<and>
   db0acb04_toString_uint64 l = Inr (0, dec_string (unat l)) \<and>
   f45efac2_toString_int32 s = Inr (if s = 0x80000000 then None else Some 0, int_string (sint s))"
  by (simp add: toString_uint32_dec toString_uint64_dec toString_int32_dec)

end
