(* ===== verification/StringBuilder.thy ===== *)
theory StringBuilder
  imports IntText
begin

text \<open>
  lang/stringbuilder.c. The buffer is a block of chars; a C string argument is the list of its
  chars without the closing NUL. \<open>target\<close> is the write position, kept apart from the length as in
  the code. resizeStringBuilder enlarges the buffer but leaves the field \<open>size\<close> as it was, so a
  buffer is enlarged at most once by append_string and the text that fits is below twice
  the size: \<open>sb_room\<close> is that bound, \<open>append_string_ok\<close> and \<open>append_string_overflows\<close> show it is exact.
\<close>

record StringBuilder =
  sb_buffer :: "char block"
  sb_length :: u32
  sb_size :: u32

abbreviation NUL :: char where "NUL \<equiv> CHR 0x00"

definition STRINGBUILDER_DEFAULT_SIZE :: u32 where
  "STRINGBUILDER_DEFAULT_SIZE = 64"

subsection \<open>Create, initialise, reset\<close>

definition c598a24c_createStringBuilder_uint32 :: "u32 \<Rightarrow> StringBuilder result" where
  "c598a24c_createStringBuilder_uint32 bufSize =
     bnd (f668c4bd_mallocArray 1 (unat bufSize)) (\<lambda>buffer.
     bnd (wr buffer 0 NUL) (\<lambda>buffer.
     Inr \<lparr>sb_buffer = buffer, sb_length = 0, sb_size = bufSize\<rparr>))"

definition c598a24c_createStringBuilder :: "StringBuilder result" where
  "c598a24c_createStringBuilder =
     bnd (f668c4bd_mallocArray 1 (unat STRINGBUILDER_DEFAULT_SIZE)) (\<lambda>buffer.
     bnd (wr buffer 0 NUL) (\<lambda>buffer.
     Inr \<lparr>sb_buffer = buffer, sb_length = 0, sb_size = STRINGBUILDER_DEFAULT_SIZE\<rparr>))"

text \<open>The init functions overwrite every field of the struct they are given.\<close>

definition c598a24c_initStringBuilder :: "StringBuilder result" where
  "c598a24c_initStringBuilder =
     bnd (f668c4bd_mallocArray 1 (unat STRINGBUILDER_DEFAULT_SIZE)) (\<lambda>buffer.
     bnd (wr buffer 0 NUL) (\<lambda>buffer.
     Inr \<lparr>sb_buffer = buffer, sb_length = 0, sb_size = STRINGBUILDER_DEFAULT_SIZE\<rparr>))"

definition c598a24c_initStringBuilder_uint32 :: "u32 \<Rightarrow> StringBuilder result" where
  "c598a24c_initStringBuilder_uint32 bufSize =
     bnd (f668c4bd_mallocArray 1 (unat bufSize)) (\<lambda>buffer.
     bnd (wr buffer 0 NUL) (\<lambda>buffer.
     Inr \<lparr>sb_buffer = buffer, sb_length = 0, sb_size = bufSize\<rparr>))"

definition c598a24c_resetStringBuilder :: "StringBuilder \<Rightarrow> StringBuilder result" where
  "c598a24c_resetStringBuilder sb =
     bnd (wr (sb_buffer sb) 0 NUL) (\<lambda>buffer. Inr (sb\<lparr>sb_buffer := buffer, sb_length := 0\<rparr>))"

subsection \<open>Appending\<close>

definition resizeStringBuilder :: "StringBuilder \<Rightarrow> u32 \<Rightarrow> (StringBuilder \<times> nat) result" where
  "resizeStringBuilder sb newSize =
     bnd (f668c4bd_resizeArray (Some (sb_buffer sb)) (sb_length sb) 1 (unat newSize)) (\<lambda>buffer.
     Inr (sb\<lparr>sb_buffer := buffer\<rparr>, unat (sb_length sb)))"

definition sb_write :: "StringBuilder \<Rightarrow> nat \<Rightarrow> char \<Rightarrow> StringBuilder result" where
  "sb_write sb target ch = bnd (wr (sb_buffer sb) target ch) (\<lambda>buffer. Inr (sb\<lparr>sb_buffer := buffer\<rparr>))"

text \<open>The test that precedes every single write of append_string and append_stringArray.\<close>

definition resize_if_full :: "StringBuilder \<Rightarrow> nat \<Rightarrow> (StringBuilder \<times> nat) result" where
  "resize_if_full sb target =
     (if sb_length sb = sb_size sb then resizeStringBuilder sb (push_bit 1 (sb_size sb))
      else Inr (sb, target))"

definition appendNull :: "StringBuilder \<Rightarrow> nat \<Rightarrow> StringBuilder result" where
  "appendNull sb target = bnd (resize_if_full sb target) (\<lambda>(sb, target). sb_write sb target NUL)"

definition c598a24c_appendBytes :: "StringBuilder \<Rightarrow> string \<Rightarrow> u32 \<Rightarrow> StringBuilder result" where
  "c598a24c_appendBytes sb bufPtr len =
     (let target = unat (sb_length sb);
          newLength = sb_length sb + len + 1
      in bnd (if sb_size sb \<le> newLength
              then resizeStringBuilder sb (newLength + drop_bit 1 newLength)
              else Inr (sb, target)) (\<lambda>(sb, target).
         bnd (f668c4bd_memcopy (map Some bufPtr) 0 (sb_buffer sb) target (unat len)) (\<lambda>buffer.
         sb_write (sb\<lparr>sb_buffer := buffer, sb_length := sb_length sb + len\<rparr>) (target + unat len) NUL)))"

definition c598a24c_append_char :: "StringBuilder \<Rightarrow> char \<Rightarrow> StringBuilder result" where
  "c598a24c_append_char sb ch =
     bnd (if sb_size sb \<le> sb_length sb + 1
          then resizeStringBuilder sb (push_bit 1 (sb_size sb))
          else Inr (sb, unat (sb_length sb))) (\<lambda>(sb, target).
     bnd (sb_write (sb\<lparr>sb_length := sb_length sb + 1\<rparr>) target ch) (\<lambda>sb.
     sb_write sb (target + 1) NUL))"

text \<open>The copy loop of append_string and of append_stringArray.\<close>

primrec append_loop :: "string \<Rightarrow> StringBuilder \<Rightarrow> nat \<Rightarrow> (StringBuilder \<times> nat) result" where
  "append_loop [] sb target = Inr (sb, target)"
| "append_loop (ch # source) sb target =
     bnd (resize_if_full sb target) (\<lambda>(sb, target).
     bnd (sb_write (sb\<lparr>sb_length := sb_length sb + 1\<rparr>) target ch) (\<lambda>sb.
     append_loop source sb (target + 1)))"

definition c598a24c_append_string :: "StringBuilder \<Rightarrow> string \<Rightarrow> StringBuilder result" where
  "c598a24c_append_string sb source =
     bnd (append_loop source sb (unat (sb_length sb))) (\<lambda>(sb, target). appendNull sb target)"

text \<open>
  The number's text is freed after the append; free needs the pointer that malloc returned, so a text in the middle of an
  allocation, or a literal, is a fault.
\<close>

definition append_and_free :: "StringBuilder \<Rightarrow> (nat option \<times> string) result \<Rightarrow> StringBuilder result" where
  "append_and_free sb str =
     bnd str (\<lambda>(offset, text). bnd (c598a24c_append_string sb text) (\<lambda>sb.
     if offset = Some 0 then Inr sb else Inl Abort))"

definition c598a24c_append_int :: "StringBuilder \<Rightarrow> u32 \<Rightarrow> StringBuilder result" where
  "c598a24c_append_int sb signedInt = append_and_free sb (f45efac2_toString_int32 signedInt)"

definition c598a24c_append_int64 :: "StringBuilder \<Rightarrow> u64 \<Rightarrow> StringBuilder result" where
  "c598a24c_append_int64 sb signedLong = append_and_free sb (db0acb04_toString_int64 signedLong)"

definition c598a24c_append_uint :: "StringBuilder \<Rightarrow> u32 \<Rightarrow> StringBuilder result" where
  "c598a24c_append_uint sb unsignedInt = append_and_free sb (allocated (f45efac2_toString_uint32 unsignedInt))"

definition c598a24c_append_uint64 :: "StringBuilder \<Rightarrow> u64 \<Rightarrow> StringBuilder result" where
  "c598a24c_append_uint64 sb unsignedLong = append_and_free sb (allocated (db0acb04_toString_uint64 unsignedLong))"

text \<open>Variable arguments: strings up to a NULL; running off the list is a read out of bounds.\<close>

fun c598a24c_append_string_va_list :: "StringBuilder \<Rightarrow> string ptr list \<Rightarrow> StringBuilder result" where
  "c598a24c_append_string_va_list sb [] = Inl OutOfBounds"
| "c598a24c_append_string_va_list sb (None # args) = Inr sb"
| "c598a24c_append_string_va_list sb (Some str # args) =
     bnd (c598a24c_append_string sb str) (\<lambda>sb. c598a24c_append_string_va_list sb args)"

definition c598a24c_append_string_varg ::
    "StringBuilder \<Rightarrow> string \<Rightarrow> string ptr list \<Rightarrow> StringBuilder result" where
  "c598a24c_append_string_varg sb str args =
     bnd (c598a24c_append_string sb str) (\<lambda>sb. c598a24c_append_string_va_list sb args)"

text \<open>The loop over the strings after the first one.\<close>

fun stringArray_loop :: "string ptr list \<Rightarrow> StringBuilder \<Rightarrow> nat \<Rightarrow> (StringBuilder \<times> nat) result" where
  "stringArray_loop [] sb target = Inl OutOfBounds"
| "stringArray_loop (None # array) sb target = Inr (sb, target)"
| "stringArray_loop (Some str # array) sb target =
     bnd (resize_if_full sb target) (\<lambda>(sb, target).
     bnd (sb_write (sb\<lparr>sb_length := sb_length sb + 1\<rparr>) target CHR '','') (\<lambda>sb.
     bnd (append_loop str sb (target + 1)) (\<lambda>(sb, target).
     stringArray_loop array sb target)))"

definition c598a24c_append_stringArray :: "StringBuilder \<Rightarrow> string ptr list \<Rightarrow> StringBuilder result" where
  "c598a24c_append_stringArray sb array =
     bnd (if sb_size sb \<le> sb_length sb + 3
          then resizeStringBuilder sb (push_bit 1 (sb_size sb))
          else Inr (sb, unat (sb_length sb))) (\<lambda>(sb, target).
     bnd (sb_write sb target CHR ''['') (\<lambda>sb.
     let sb = sb\<lparr>sb_length := sb_length sb + 1\<rparr>; target = target + 1
     in bnd (case array of
               [] \<Rightarrow> Inl OutOfBounds
             | None # _ \<Rightarrow> Inr (sb, target)
             | Some str # array \<Rightarrow>
                 bnd (append_loop str sb target) (\<lambda>(sb, target). stringArray_loop array sb target))
          (\<lambda>(sb, target).
        bnd (sb_write (sb\<lparr>sb_length := sb_length sb + 1\<rparr>) target CHR '']'') (\<lambda>sb.
        appendNull sb target))))"

definition c598a24c_append_string_uint32 :: "StringBuilder \<Rightarrow> string \<Rightarrow> u32 \<Rightarrow> StringBuilder result" where
  "c598a24c_append_string_uint32 sb source len =
     (let target = unat (sb_length sb);
          newLength = sb_length sb + len + 1
      in bnd (if sb_size sb \<le> newLength
              then resizeStringBuilder sb (newLength + drop_bit 1 newLength)
              else Inr (sb, target)) (\<lambda>(sb, target).
         bnd (f668c4bd_memcopy (map Some source) 0 (sb_buffer sb) target (unat len)) (\<lambda>buffer.
         sb_write (sb\<lparr>sb_buffer := buffer, sb_length := sb_length sb + len\<rparr>) (target + unat len) NUL)))"

subsection \<open>Reading and shortening\<close>

definition c598a24c_getLastChar :: "StringBuilder \<Rightarrow> char result" where
  "c598a24c_getLastChar sb =
     (if 0 < sb_length sb then rd (sb_buffer sb) (unat (sb_length sb - 1)) else Inr NUL)"

definition c598a24c_reduceLength :: "StringBuilder \<Rightarrow> u32 \<Rightarrow> StringBuilder result" where
  "c598a24c_reduceLength sb newLength =
     (if newLength < sb_length sb
      then bnd (sb_write sb (unat newLength) NUL) (\<lambda>sb. Inr (sb\<lparr>sb_length := newLength\<rparr>))
      else Inr sb)"

text \<open>A fresh copy of the buffer's text, or NULL for an empty builder.\<close>

definition copy_out :: "StringBuilder \<Rightarrow> string result" where
  "copy_out sb =
     bnd (f668c4bd_stralloc (unat (sb_length sb))) (\<lambda>s.
     bnd (f668c4bd_memcopy (sb_buffer sb) 0 s 0 (unat (sb_length sb))) (\<lambda>s.
     bnd (wr s (unat (sb_length sb)) NUL) (\<lambda>s.
     read_cells s 0 (unat (sb_length sb)))))"

definition c598a24c_createString :: "StringBuilder \<Rightarrow> string ptr \<Rightarrow> (string ptr \<times> StringBuilder) result" where
  "c598a24c_createString sb suffix =
     (if 0 < sb_length sb then
        case suffix of
          None \<Rightarrow> bnd (copy_out sb) (\<lambda>str. Inr (Some str, sb))
        | Some suf \<Rightarrow>
            let origLength = sb_length sb
            in bnd (c598a24c_append_string sb suf) (\<lambda>sb.
               bnd (copy_out sb) (\<lambda>str.
               bnd (c598a24c_reduceLength sb origLength) (\<lambda>sb.
               Inr (Some str, sb))))
      else Inr (None, sb))"

subsection \<open>The abstract text\<close>

text \<open>
  \<open>sb_core\<close>: the first cells hold the text and the block is as large as the code relies on;
  \<open>sb_rep\<close>: in addition the text is closed by a NUL.
\<close>

definition sb_core :: "StringBuilder \<Rightarrow> string \<Rightarrow> bool" where
  "sb_core sb cs \<longleftrightarrow> unat (sb_length sb) = length cs \<and> holds (sb_buffer sb) cs \<and>
     16 dvd length (sb_buffer sb) \<and> length (sb_buffer sb) < 2 ^ 32 \<and>
     (length cs \<le> unat (sb_size sb) \<longrightarrow> unat (sb_size sb) \<le> length (sb_buffer sb)) \<and>
     1 < unat (sb_size sb) \<and> unat (sb_size sb) < 2 ^ 30"

definition sb_rep :: "StringBuilder \<Rightarrow> string \<Rightarrow> bool" where
  "sb_rep sb cs \<longleftrightarrow> sb_core sb cs \<and> holds (sb_buffer sb) (cs @ [NUL])"

text \<open>The text length that can be reached without another kind of append.\<close>

definition sb_room :: "StringBuilder \<Rightarrow> nat" where
  "sb_room sb = (if unat (sb_length sb) \<le> unat (sb_size sb) then 2 * unat (sb_size sb)
                 else length (sb_buffer sb))"

lemma sb_coreD:
  assumes "sb_core sb cs"
  shows "unat (sb_length sb) = length cs" "holds (sb_buffer sb) cs" "16 dvd length (sb_buffer sb)"
    "length cs \<le> unat (sb_size sb) \<Longrightarrow> unat (sb_size sb) \<le> length (sb_buffer sb)"
    "1 < unat (sb_size sb)" "unat (sb_size sb) < 2 ^ 30" "length cs \<le> length (sb_buffer sb)"
    "length (sb_buffer sb) < 2 ^ 32"
  using assms holds_length [of "sb_buffer sb" cs] by (auto simp: sb_core_def)

lemma round16: "n \<le> (n + 15) div 16 * 16" "16 dvd (n + 15) div 16 * (16::nat)"
proof -
  show "n \<le> (n + 15) div 16 * 16" by linarith
qed simp

lemma eight_cells:
  assumes "n \<le> p" and "16 dvd (p::nat)"
  shows "8 * ((n + 7) div 8) \<le> p"
proof -
  have "(8::nat) dvd p" using assms(2) by (rule dvd_trans [rotated]) simp
  then obtain k where "p = 8 * k" by blast
  with assms(1) have "(n + 7) div 8 \<le> k" by linarith
  with \<open>p = 8 * k\<close> show ?thesis by simp
qed

lemma resizeArray1:
  assumes "0 < unat len" and "unat len \<le> n" and "n < 2 ^ 33" and "unat len \<le> length b"
    and "16 dvd length b"
  shows "\<exists>b'. f668c4bd_resizeArray (Some b) len 1 n = Inr b' \<and> length b' = (n + 15) div 16 * 16 \<and>
              take (unat len) b' = take (unat len) b"
proof -
  define m where "m = copied_cells 1 (unat len)"
  have m: "m \<le> length b" "m \<le> (n + 15) div 16 * 16" "unat len \<le> m"
    unfolding m_def copied_cells1
    using assms round16 [of n] by (auto intro!: eight_cells intro: order_trans)
  have "len \<noteq> 0" "n \<noteq> 0" using assms(1,2) by auto
  moreover have "alloc_size n = Inr ((n + 15) div 16 * 16)"
    using assms by (intro alloc_size_small) simp
  ultimately show ?thesis
    using assms(3) m by (simp add: f668c4bd_resizeArray_def m_def [symmetric] blit_def min_def
        del: One_nat_def)
qed

lemma resize_core:
  assumes "sb_core sb cs" and "cs \<noteq> []" and "length cs \<le> unat n"
  shows "\<exists>b. resizeStringBuilder sb n = Inr (sb\<lparr>sb_buffer := b\<rparr>, length cs) \<and>
             length b = (unat n + 15) div 16 * 16 \<and> holds b cs"
proof -
  note D = sb_coreD [OF assms(1)]
  have "unat n < 2 ^ 33" using unat_u32_lt [of n] by simp
  moreover have "0 < unat (sb_length sb)" using D(1) assms(2) by simp
  ultimately obtain b where b: "f668c4bd_resizeArray (Some (sb_buffer sb)) (sb_length sb) 1 (unat n) = Inr b"
    "length b = (unat n + 15) div 16 * 16" "take (length cs) b = take (length cs) (sb_buffer sb)"
    using resizeArray1 [of "sb_length sb" "unat n" "sb_buffer sb"] D assms(3) by auto
  moreover have "length cs \<le> length b" using assms(3) round16(1) [of "unat n"] b(2) by simp
  ultimately show ?thesis
    using D(1,2) by (auto simp: resizeStringBuilder_def holds_def)
qed

lemma size_shl: "unat (w::u32) < 2 ^ 30 \<Longrightarrow> unat (push_bit 1 w) = 2 * unat w"
  by (rule unat_shl1_fits) simp

text \<open>The guard that runs before every write: after it the write position is inside the buffer.\<close>

lemma resize_if_full_core:
  assumes core: "sb_core sb cs" and room: "length cs < sb_room sb"
  shows "\<exists>sb'. resize_if_full sb (length cs) = Inr (sb', length cs) \<and> sb_core sb' cs \<and>
               length cs < length (sb_buffer sb') \<and> sb_size sb' = sb_size sb \<and>
               sb_room sb \<le> sb_room sb' \<and> sb_length sb' = sb_length sb \<and>
               (unat (sb_size sb) \<le> length cs \<longrightarrow> sb_room sb \<le> length (sb_buffer sb'))"
proof (cases "sb_length sb = sb_size sb")
  case True
  note D = sb_coreD [OF core]
  let ?n = "push_bit 1 (sb_size sb)"
  have n: "unat ?n = 2 * unat (sb_size sb)" using D(6) by (rule size_shl)
  have len: "length cs = unat (sb_size sb)" using True D(1) by simp
  then have "cs \<noteq> []" using D(5) by auto
  moreover have "length cs \<le> unat ?n" using n len by simp
  ultimately obtain b where b: "resizeStringBuilder sb ?n = Inr (sb\<lparr>sb_buffer := b\<rparr>, length cs)"
    "length b = (unat ?n + 15) div 16 * 16" "holds b cs"
    using resize_core [OF core, of ?n] by blast
  have "2 * unat (sb_size sb) \<le> length b" using b(2) n round16(1) [of "unat ?n"] by simp
  moreover have "length b < 2 ^ 32" using b(2) n D(6) by (simp; linarith)
  moreover have "16 dvd length b" unfolding b(2) by (rule round16)
  ultimately show ?thesis
    using b(1,3) True D len by (simp add: resize_if_full_def sb_core_def sb_room_def)
next
  case False
  note D = sb_coreD [OF core]
  have "length cs \<noteq> unat (sb_size sb)" using False D(1) by (metis word_unat_eq_iff)
  then have "length cs < length (sb_buffer sb)"
    using D room by (auto simp: sb_room_def split: if_splits)
  then show ?thesis
    using False core D \<open>length cs \<noteq> _\<close> by (auto simp: resize_if_full_def sb_room_def)
qed

text \<open>One char written at the end of the text.\<close>

lemma sb_put_core:
  assumes core: "sb_core sb cs" and lt: "length cs < length (sb_buffer sb)"
    and grow: "unat (sb_size sb) \<le> length cs \<longrightarrow> r \<le> length (sb_buffer sb)"
    and r: "length cs < unat (sb_size sb) \<longrightarrow> r = 2 * unat (sb_size sb)"
  shows "\<exists>sb'. sb_write (sb\<lparr>sb_length := sb_length sb + 1\<rparr>) (length cs) ch = Inr sb' \<and>
               sb_core sb' (cs @ [ch]) \<and> sb_size sb' = sb_size sb \<and> r \<le> sb_room sb'"
proof -
  note D = sb_coreD [OF core]
  let ?sb = "sb\<lparr>sb_length := sb_length sb + 1, sb_buffer := (sb_buffer sb)[length cs := Some ch]\<rparr>"
  have inc: "unat (sb_length sb + 1) = length cs + 1"
    using D(1,8) lt by (simp add: unat_plus_fits)
  have "sb_core ?sb (cs @ [ch])"
    using D inc holds_snoc [OF D(2) lt, of ch] lt by (auto simp: sb_core_def)
  moreover have "r \<le> sb_room ?sb"
    using inc grow r by (auto simp: sb_room_def)
  ultimately show ?thesis using lt by (simp add: sb_write_def wr_ok)
qed

lemma append_loop_core:
  assumes "sb_core sb cs" and "length cs + length src < sb_room sb"
  shows "\<exists>sb'. append_loop src sb (length cs) = Inr (sb', length (cs @ src)) \<and> sb_core sb' (cs @ src) \<and>
               sb_size sb' = sb_size sb \<and> sb_room sb \<le> sb_room sb'"
  using assms
proof (induction src arbitrary: sb cs)
  case (Cons ch src)
  from resize_if_full_core [OF Cons.prems(1)] Cons.prems(2) obtain s1 where s1:
    "resize_if_full sb (length cs) = Inr (s1, length cs)" "sb_core s1 cs"
    "length cs < length (sb_buffer s1)" "sb_size s1 = sb_size sb" "sb_length s1 = sb_length sb"
    "unat (sb_size sb) \<le> length cs \<longrightarrow> sb_room sb \<le> length (sb_buffer s1)"
    by auto
  have "length cs < unat (sb_size s1) \<longrightarrow> sb_room sb = 2 * unat (sb_size s1)"
    using sb_coreD(1) [OF Cons.prems(1)] s1(4) by (simp add: sb_room_def)
  with sb_put_core [OF s1(2,3), of "sb_room sb" ch] s1(4,6) obtain s2 where s2:
    "sb_write (s1\<lparr>sb_length := sb_length s1 + 1\<rparr>) (length cs) ch = Inr s2" "sb_core s2 (cs @ [ch])"
    "sb_size s2 = sb_size s1" "sb_room sb \<le> sb_room s2" by auto
  have "length (cs @ [ch]) + length src < sb_room s2" using Cons.prems(2) s2(4) by simp
  from Cons.IH [OF s2(2) this] obtain s3 where s3:
    "append_loop src s2 (length (cs @ [ch])) = Inr (s3, length ((cs @ [ch]) @ src))"
    "sb_core s3 ((cs @ [ch]) @ src)" "sb_size s3 = sb_size s2" "sb_room s2 \<le> sb_room s3" by blast
  then show ?case using s1(1,4) s2(1,3,4) by simp
qed simp

lemma appendNull_core:
  assumes "sb_core sb cs" and "length cs < sb_room sb"
  shows "\<exists>sb'. appendNull sb (length cs) = Inr sb' \<and> sb_rep sb' cs \<and> sb_size sb' = sb_size sb \<and>
               sb_room sb \<le> sb_room sb'"
proof -
  from resize_if_full_core [OF assms] obtain s1 where s1:
    "resize_if_full sb (length cs) = Inr (s1, length cs)" "sb_core s1 cs"
    "length cs < length (sb_buffer s1)" "sb_size s1 = sb_size sb" "sb_room sb \<le> sb_room s1" by blast
  note D = sb_coreD [OF s1(2)]
  let ?sb = "s1\<lparr>sb_buffer := (sb_buffer s1)[length cs := Some NUL]\<rparr>"
  have "holds (sb_buffer ?sb) (cs @ [NUL])" using holds_snoc [OF D(2) s1(3)] by simp
  then have "sb_rep ?sb cs"
    using D holds_butlast by (auto simp: sb_rep_def sb_core_def)
  moreover have "sb_room ?sb = sb_room s1" by (simp add: sb_room_def)
  ultimately show ?thesis using s1 by (simp add: appendNull_def sb_write_def wr_ok)
qed

lemma append_string_ok:
  assumes "sb_rep sb cs" and "length cs + length src < sb_room sb"
  shows "\<exists>sb'. c598a24c_append_string sb src = Inr sb' \<and> sb_rep sb' (cs @ src) \<and>
               sb_size sb' = sb_size sb \<and> sb_room sb \<le> sb_room sb'"
proof -
  have core: "sb_core sb cs" using assms(1) by (simp add: sb_rep_def)
  from append_loop_core [OF core assms(2)] obtain s1 where s1:
    "append_loop src sb (length cs) = Inr (s1, length (cs @ src))" "sb_core s1 (cs @ src)"
    "sb_size s1 = sb_size sb" "sb_room sb \<le> sb_room s1" by blast
  have "length (cs @ src) < sb_room s1" using assms(2) s1(4) by simp
  from appendNull_core [OF s1(2) this] s1 sb_coreD(1) [OF core] show ?thesis
    by (auto simp: c598a24c_append_string_def)
qed

text \<open>Whether the room stays depends on the buffer: append_char may shrink one that appendBytes enlarged.\<close>

lemma append_char_core:
  assumes rep: "sb_rep sb cs" and room: "length cs + 1 < 2 * unat (sb_size sb)"
  shows "\<exists>sb'. c598a24c_append_char sb ch = Inr sb' \<and> sb_rep sb' (cs @ [ch]) \<and>
               sb_size sb' = sb_size sb \<and>
               (length (sb_buffer sb) \<le> 2 * unat (sb_size sb) \<longrightarrow> sb_room sb \<le> sb_room sb')"
proof -
  define r where "r = (if length (sb_buffer sb) \<le> 2 * unat (sb_size sb) \<or> length cs < unat (sb_size sb)
                       then sb_room sb else 0)"
  have core: "sb_core sb cs" using rep by (simp add: sb_rep_def)
  note D = sb_coreD [OF core]
  have inc: "unat (sb_length sb + 1) = length cs + 1" using D(1,6) room by (simp add: unat_plus_fits)
  have "\<exists>s1. (if sb_size sb \<le> sb_length sb + 1 then resizeStringBuilder sb (push_bit 1 (sb_size sb))
              else Inr (sb, unat (sb_length sb))) = Inr (s1, length cs) \<and> sb_core s1 cs \<and>
             length cs + 1 < length (sb_buffer s1) \<and> sb_size s1 = sb_size sb \<and>
             sb_length s1 = sb_length sb \<and>
             (unat (sb_size sb) \<le> length cs \<longrightarrow> r \<le> length (sb_buffer s1))"
  proof (cases "sb_size sb \<le> sb_length sb + 1")
    case True
    let ?n = "push_bit 1 (sb_size sb)"
    have n: "unat ?n = 2 * unat (sb_size sb)" using D(6) by (rule size_shl)
    have "unat (sb_size sb) \<le> length cs + 1" using True inc by (simp add: word_le_nat_alt)
    then have "cs \<noteq> []" using D(5) by auto
    then obtain b where b: "resizeStringBuilder sb ?n = Inr (sb\<lparr>sb_buffer := b\<rparr>, length cs)"
      "length b = (unat ?n + 15) div 16 * 16" "holds b cs"
      using resize_core [OF core, of ?n] room n by auto
    have l: "2 * unat (sb_size sb) \<le> length b" using b(2) n round16(1) [of "unat ?n"] by simp
    moreover have "length b < 2 ^ 32" using b(2) n D(6) by (simp; linarith)
    moreover have "16 dvd length b" unfolding b(2) by (rule round16)
    moreover have "r \<le> length b"
      using l D(1) by (auto simp: sb_room_def r_def)
    ultimately show ?thesis
      using True b(1,3) D room by (simp add: sb_core_def)
  next
    case False
    then have "length cs + 1 < unat (sb_size sb)" using inc by (simp add: word_le_nat_alt)
    then show ?thesis using False core D by auto
  qed
  then obtain s1 where s1: "(if sb_size sb \<le> sb_length sb + 1 then resizeStringBuilder sb (push_bit 1 (sb_size sb))
              else Inr (sb, unat (sb_length sb))) = Inr (s1, length cs)" "sb_core s1 cs"
    "length cs + 1 < length (sb_buffer s1)" "sb_size s1 = sb_size sb" "sb_length s1 = sb_length sb"
    "unat (sb_size sb) \<le> length cs \<longrightarrow> r \<le> length (sb_buffer s1)" by blast
  have "length cs < unat (sb_size s1) \<longrightarrow> r = 2 * unat (sb_size s1)"
    using D(1) s1(4) by (simp add: sb_room_def r_def)
  with sb_put_core [OF s1(2) _ , of r ch] s1(3,4,6) obtain s2 where s2:
    "sb_write (s1\<lparr>sb_length := sb_length s1 + 1\<rparr>) (length cs) ch = Inr s2" "sb_core s2 (cs @ [ch])"
    "sb_size s2 = sb_size s1" "r \<le> sb_room s2" by auto
  have len: "length (sb_buffer s2) = length (sb_buffer s1)"
    using s2(1) by (auto simp: sb_write_def wr_def split: if_splits)
  let ?s3 = "s2\<lparr>sb_buffer := (sb_buffer s2)[length cs + 1 := Some NUL]\<rparr>"
  note E = sb_coreD [OF s2(2)]
  have "holds (sb_buffer ?s3) ((cs @ [ch]) @ [NUL])"
    using holds_snoc [OF E(2), of NUL] s1(3) len by simp
  then have "sb_rep ?s3 (cs @ [ch])"
    using E holds_butlast [of _ "cs @ [ch]" "[NUL]"] by (simp add: sb_rep_def sb_core_def)
  moreover have "sb_write s2 (length cs + 1) NUL = Inr ?s3"
    using s1(3) len by (simp add: sb_write_def wr_ok)
  moreover have "sb_room ?s3 = sb_room s2" by (simp add: sb_room_def)
  moreover have r: "length (sb_buffer sb) \<le> 2 * unat (sb_size sb) \<longrightarrow> sb_room sb = r"
    by (simp add: r_def)
  ultimately show ?thesis
    unfolding c598a24c_append_char_def s1(1) using s2 s1(4) r by simp
qed

lemma append_char_ok:
  assumes "sb_rep sb cs" and "length cs + 1 < 2 * unat (sb_size sb)"
    and "length (sb_buffer sb) \<le> 2 * unat (sb_size sb)"
  shows "\<exists>sb'. c598a24c_append_char sb ch = Inr sb' \<and> sb_rep sb' (cs @ [ch]) \<and>
               sb_size sb' = sb_size sb \<and> sb_room sb \<le> sb_room sb'"
  using append_char_core [OF assms(1,2), of ch] assms(3) by auto

text \<open>A text that would reach twice the size leaves the buffer: nothing enlarges it a second time.\<close>

lemma append_loop_beyond:
  assumes "unat (sb_length sb) = target" and "unat (sb_size sb) < target"
    and "length (sb_buffer sb) \<le> target + length src" and "length (sb_buffer sb) < 2 ^ 32"
    and "target \<le> length (sb_buffer sb)"
  shows "append_loop src sb target = Inl OutOfBounds \<or>
         (\<exists>sb'. append_loop src sb target = Inr (sb', target + length src) \<and> sb_length sb' \<noteq> sb_size sb' \<and>
                length (sb_buffer sb') = target + length src)"
  using assms
proof (induction src arbitrary: sb target)
  case Nil
  then show ?case by auto
next
  case (Cons ch src)
  have ne: "sb_length sb \<noteq> sb_size sb" using Cons.prems(1,2) by auto
  show ?case
  proof (cases "target < length (sb_buffer sb)")
    case False
    then show ?thesis using ne by (simp add: resize_if_full_def sb_write_def wr_def)
  next
    case True
    let ?s = "sb\<lparr>sb_length := sb_length sb + 1, sb_buffer := (sb_buffer sb)[target := Some ch]\<rparr>"
    have "unat (sb_length sb + 1) = target + 1"
      using Cons.prems(1,4) True by (simp add: unat_plus_fits)
    then have "append_loop src ?s (target + 1) = Inl OutOfBounds \<or>
         (\<exists>sb'. append_loop src ?s (target + 1) = Inr (sb', target + 1 + length src) \<and>
                sb_length sb' \<noteq> sb_size sb' \<and> length (sb_buffer sb') = target + 1 + length src)"
      using Cons.prems True by (intro Cons.IH) auto
    then show ?thesis using ne True by (simp add: resize_if_full_def sb_write_def wr_def)
  qed
qed

lemma append_string_beyond:
  assumes "unat (sb_size sb) < unat (sb_length sb)" and "unat (sb_length sb) \<le> length (sb_buffer sb)"
    and "length (sb_buffer sb) \<le> unat (sb_length sb) + length src" and "length (sb_buffer sb) < 2 ^ 32"
  shows "c598a24c_append_string sb src = Inl OutOfBounds"
proof -
  let ?t = "unat (sb_length sb)"
  consider "append_loop src sb ?t = Inl OutOfBounds"
    | sb' where "append_loop src sb ?t = Inr (sb', ?t + length src)" "sb_length sb' \<noteq> sb_size sb'"
        "length (sb_buffer sb') = ?t + length src"
    using append_loop_beyond [of sb ?t src] assms by auto
  then show ?thesis
    by cases (simp_all add: c598a24c_append_string_def appendNull_def resize_if_full_def sb_write_def wr_def)
qed

subsection \<open>The other operations\<close>

lemma create_default: "\<exists>sb. c598a24c_createStringBuilder = Inr sb \<and> sb_rep sb [] \<and>
    sb_size sb = 64 \<and> sb_room sb = 128 \<and> length (sb_buffer sb) = 64"
  by (simp add: c598a24c_createStringBuilder_def STRINGBUILDER_DEFAULT_SIZE_def mallocArray_small
      wr_ok sb_rep_def sb_core_def sb_room_def holds_iff_nth fresh_def)

lemma init_default: "\<exists>sb. c598a24c_initStringBuilder = Inr sb \<and> sb_rep sb [] \<and>
    sb_size sb = 64 \<and> sb_room sb = 128 \<and> length (sb_buffer sb) = 64"
  using create_default by (simp add: c598a24c_createStringBuilder_def c598a24c_initStringBuilder_def)

lemma reset_rep:
  assumes "sb_rep sb cs" and "unat (sb_size sb) \<le> length (sb_buffer sb)"
  shows "\<exists>sb'. c598a24c_resetStringBuilder sb = Inr sb' \<and> sb_rep sb' []"
proof -
  have "sb_core sb cs" using assms(1) by (simp add: sb_rep_def)
  note D = sb_coreD [OF this]
  have "0 < length (sb_buffer sb)" using D(5) assms(2) by linarith
  then show ?thesis
    using assms D by (auto simp: c598a24c_resetStringBuilder_def wr_ok sb_rep_def sb_core_def holds_iff_nth)
qed

lemma getLastChar_rep:
  assumes "sb_rep sb cs"
  shows "c598a24c_getLastChar sb = Inr (if cs = [] then NUL else last cs)"
proof -
  have "sb_core sb cs" using assms by (simp add: sb_rep_def)
  note D = sb_coreD [OF this]
  show ?thesis
  proof (cases "sb_length sb = 0")
    case True
    then show ?thesis using D(1) by (simp add: c598a24c_getLastChar_def)
  next
    case False
    then have "cs \<noteq> []" "unat (sb_length sb - 1) = length cs - 1"
      using unat_dec [OF False] D(1) by (auto simp: unat_eq_0)
    then have "rd (sb_buffer sb) (unat (sb_length sb - 1)) = Inr (last cs)"
      using holds_rd [OF D(2), of "length cs - 1"] by (simp add: last_conv_nth)
    then show ?thesis using False \<open>cs \<noteq> []\<close> by (simp add: c598a24c_getLastChar_def word_neq_0_conv)
  qed
qed

lemma reduceLength_rep:
  assumes "sb_rep sb cs" and "unat n < length cs" and "unat (sb_size sb) \<le> length (sb_buffer sb)"
  shows "\<exists>sb'. c598a24c_reduceLength sb n = Inr sb' \<and> sb_rep sb' (take (unat n) cs)"
proof -
  have "sb_core sb cs" using assms(1) by (simp add: sb_rep_def)
  note D = sb_coreD [OF this]
  have n: "n < sb_length sb" "unat n < length (sb_buffer sb)"
    using assms(2) D(1,7) by (auto simp: word_less_nat_alt)
  let ?b = "(sb_buffer sb)[unat n := Some NUL]"
  have "holds ?b (take (unat n) cs @ [NUL])"
    using holds_snoc [OF holds_take [OF D(2), of "unat n"], of NUL] assms(2) n by (simp add: min_def)
  moreover from this have "holds ?b (take (unat n) cs)" by (rule holds_butlast)
  ultimately show ?thesis
    using n D assms by (simp add: c598a24c_reduceLength_def sb_write_def wr_ok sb_rep_def sb_core_def)
qed

lemma copy_out_rep:
  assumes "sb_core sb cs"
  shows "copy_out sb = Inr cs"
proof -
  note D = sb_coreD [OF assms]
  let ?k = "(length cs div 16 + 1) * 16"
  have k: "length cs < ?k" by presburger
  have "length cs < 4294967296" using D(7,8) by simp
  then have k2: "?k < 2 ^ 64" by simp
  have st: "f668c4bd_stralloc (length cs) = Inr (fresh ?k :: char block)"
    using k2 by (simp add: f668c4bd_stralloc_def Let_def)
  let ?s = "map Some cs @ replicate (?k - length cs) None"
  have cp: "f668c4bd_memcopy (sb_buffer sb) 0 (fresh ?k) 0 (length cs) = Inr ?s"
    using k D(2,7) by (simp add: f668c4bd_memcopy_def blit_def holds_def fresh_def)
  have "read_cells (?s[length cs := Some NUL]) 0 (length cs) = Inr cs"
    by (intro read_cells_all holds_update_beyond holds_append_cells) simp
  then show ?thesis using D(1) st cp k by (simp add: copy_out_def wr_ok)
qed

lemma createString_plain:
  assumes "sb_rep sb cs"
  shows "c598a24c_createString sb None = Inr (if cs = [] then None else Some cs, sb)"
proof -
  have core: "sb_core sb cs" using assms by (simp add: sb_rep_def)
  show ?thesis
    using copy_out_rep [OF core] sb_coreD(1) [OF core]
    by (cases "cs = []") (auto simp: c598a24c_createString_def word_neq_0_conv [symmetric] unat_eq_0)
qed

text \<open>appendBytes enlarges by half of what is needed; on an empty builder the enlargement aborts.\<close>

lemma appendBytes_empty_aborts:
  assumes "sb_rep sb []" and "unat n + 1 < 2 ^ 32" and "unat (sb_size sb) \<le> unat n + 1"
  shows "c598a24c_appendBytes sb src n = Inl Abort"
proof -
  have l: "sb_length sb = 0" using assms(1) by (simp add: sb_rep_def sb_core_def unat_eq_0)
  have "unat (n + 1) = unat n + 1" using assms(2) by (simp add: unat_plus_fits)
  then have "sb_size sb \<le> n + 1" using assms(3) by (simp add: word_le_nat_alt)
  then show ?thesis using l by (simp add: c598a24c_appendBytes_def resizeStringBuilder_def resizeArray_empty)
qed

lemma bytes_target:
  assumes core: "sb_core sb cs" and n: "length cs + unat n < 2 ^ 30"
    and ok: "cs \<noteq> [] \<or> unat n + 1 < unat (sb_size sb)"
    and big: "length cs + unat n + 1 < unat (sb_size sb) \<longrightarrow> unat (sb_size sb) \<le> length (sb_buffer sb)"
  shows "\<exists>s1. (if sb_size sb \<le> sb_length sb + n + 1
               then resizeStringBuilder sb (sb_length sb + n + 1 + drop_bit 1 (sb_length sb + n + 1))
               else Inr (sb, unat (sb_length sb))) = Inr (s1, length cs) \<and>
             holds (sb_buffer s1) cs \<and> length cs + unat n < length (sb_buffer s1) \<and>
             16 dvd length (sb_buffer s1) \<and> length (sb_buffer s1) < 2 ^ 32 \<and>
             unat (sb_size s1) = unat (sb_size sb) \<and> sb_length s1 = sb_length sb \<and>
             unat (sb_size sb) \<le> length (sb_buffer s1)"
proof -
  note D = sb_coreD [OF core]
  let ?new = "sb_length sb + n + 1"
  have a: "unat (sb_length sb + n) = length cs + unat n" using D(1) n by (simp add: unat_plus_fits)
  then have new: "unat ?new = length cs + unat n + 1" using n by (simp add: unat_plus_fits)
  have half: "unat (drop_bit 1 ?new) = (length cs + unat n + 1) div 2"
    using new by (simp add: drop_bit_eq_div unat_div)
  then have cap: "unat (?new + drop_bit 1 ?new) = length cs + unat n + 1 + (length cs + unat n + 1) div 2"
    using new n by (subst unat_plus_fits) auto
  show ?thesis
  proof (cases "sb_size sb \<le> ?new")
    case True
    then have le: "unat (sb_size sb) \<le> length cs + unat n + 1" using new by (simp add: word_le_nat_alt)
    then have "cs \<noteq> []" using ok by auto
    then obtain b where b: "resizeStringBuilder sb (?new + drop_bit 1 ?new) = Inr (sb\<lparr>sb_buffer := b\<rparr>, length cs)"
      "length b = (unat (?new + drop_bit 1 ?new) + 15) div 16 * 16" "holds b cs"
      using resize_core [OF core, of "?new + drop_bit 1 ?new"] cap by auto
    have "unat (?new + drop_bit 1 ?new) \<le> length b" using b(2) round16(1) by simp
    then have "length cs + unat n < length b" "unat (sb_size sb) \<le> length b" using cap le by linarith+
    moreover have "length b < 2 ^ 32" using b(2) cap n by (simp; linarith)
    moreover have "16 dvd length b" unfolding b(2) by (rule round16)
    ultimately show ?thesis using True b(1,3) by simp
  next
    case False
    then have "length cs + unat n + 1 < unat (sb_size sb)" using new by (simp add: word_le_nat_alt)
    then show ?thesis using False D big by auto
  qed
qed

lemma appendBytes_ok:
  assumes rep: "sb_rep sb cs" and src: "unat n \<le> length src" and n: "length cs + unat n < 2 ^ 30"
    and ok: "cs \<noteq> [] \<or> unat n + 1 < unat (sb_size sb)"
  shows "\<exists>sb'. c598a24c_appendBytes sb src n = Inr sb' \<and> sb_rep sb' (cs @ take (unat n) src) \<and>
               sb_size sb' = sb_size sb"
proof -
  have core: "sb_core sb cs" using rep by (simp add: sb_rep_def)
  note D = sb_coreD [OF core]
  have big: "length cs + unat n + 1 < unat (sb_size sb) \<longrightarrow> unat (sb_size sb) \<le> length (sb_buffer sb)"
    using D(4) by auto
  from bytes_target [OF core n ok big] obtain s1 where s1:
    "(if sb_size sb \<le> sb_length sb + n + 1
               then resizeStringBuilder sb (sb_length sb + n + 1 + drop_bit 1 (sb_length sb + n + 1))
               else Inr (sb, unat (sb_length sb))) = Inr (s1, length cs)"
    "holds (sb_buffer s1) cs" "length cs + unat n < length (sb_buffer s1)" "16 dvd length (sb_buffer s1)"
    "length (sb_buffer s1) < 2 ^ 32" "unat (sb_size s1) = unat (sb_size sb)" "sb_length s1 = sb_length sb"
    "unat (sb_size sb) \<le> length (sb_buffer s1)" by blast
  let ?t = "take (unat n) src"
  have lt: "length ?t = unat n" using src by simp
  let ?b = "take (length cs) (sb_buffer s1) @ map Some ?t @ drop (length cs + unat n) (sb_buffer s1)"
  have cp: "f668c4bd_memcopy (map Some src) 0 (sb_buffer s1) (length cs) (unat n) = Inr ?b"
    using src s1(3) by (simp add: f668c4bd_memcopy_def blit_def take_map)
  have b: "?b = map Some (cs @ ?t) @ drop (length cs + unat n) (sb_buffer s1)"
    using s1(2) by (simp add: holds_def)
  have hb: "holds ?b (cs @ ?t)" unfolding b by (rule holds_append_cells)
  have lb: "length ?b = length (sb_buffer s1)" using s1(3) lt by simp
  let ?s = "s1\<lparr>sb_buffer := ?b[length cs + unat n := Some NUL], sb_length := sb_length sb + n\<rparr>"
  have l: "unat (sb_length sb + n) = length (cs @ ?t)" using D(1) n lt by (simp add: unat_plus_fits)
  have "holds (sb_buffer ?s) ((cs @ ?t) @ [NUL])"
    using holds_snoc [OF hb, of NUL] s1(3) lb lt by simp
  moreover from this have "holds (sb_buffer ?s) (cs @ ?t)" by (rule holds_butlast)
  ultimately have "sb_rep ?s (cs @ ?t)"
    using l s1 D(5,6) lb by (simp add: sb_rep_def sb_core_def)
  moreover have "sb_write (s1\<lparr>sb_buffer := ?b, sb_length := sb_length sb + n\<rparr>) (length cs + unat n) NUL = Inr ?s"
    using s1(3) lb by (simp add: sb_write_def wr_ok)
  ultimately show ?thesis
    unfolding c598a24c_appendBytes_def Let_def s1(1) using s1(7) word_unat_eq_iff [THEN iffD2, OF s1(6)] cp by simp
qed

lemma append_string_uint32_is_appendBytes: "c598a24c_append_string_uint32 = c598a24c_appendBytes"
  by (intro ext) (simp add: c598a24c_append_string_uint32_def c598a24c_appendBytes_def)

text \<open>The closing bracket of append_stringArray is overwritten by the NUL at the same position.\<close>

lemma stringArray_loses_bracket:
  "\<exists>sb. bnd c598a24c_createStringBuilder (\<lambda>sb. c598a24c_append_stringArray sb [Some ''a'', Some ''b'', None])
          = Inr sb \<and> sb_length sb = 5 \<and> sb_buffer sb ! 3 = Some CHR ''b'' \<and> sb_buffer sb ! 4 = Some NUL"
  by (simp add: c598a24c_createStringBuilder_def STRINGBUILDER_DEFAULT_SIZE_def mallocArray_small
      wr_def fresh_def c598a24c_append_stringArray_def sb_write_def resize_if_full_def
      appendNull_def Let_def) (simp add: numeral_eq_Suc)

subsection \<open>The contract of a text sink\<close>

locale text_sink =
  fixes rep :: "'s \<Rightarrow> string \<Rightarrow> bool"
    and room :: "'s \<Rightarrow> nat"
    and append :: "'s \<Rightarrow> string \<Rightarrow> 's result"
  assumes append_law: "rep s cs \<Longrightarrow> length cs + length t < room s \<Longrightarrow>
      \<exists>s'. append s t = Inr s' \<and> rep s' (cs @ t) \<and> room s \<le> room s'"
begin

lemma append_pieces:
  assumes "rep s cs" and "length cs + length (concat ts) < room s"
  shows "\<exists>s'. fold_result append s ts = Inr s' \<and> rep s' (cs @ concat ts) \<and> room s \<le> room s'"
  using assms
proof (induction ts arbitrary: s cs)
  case (Cons t ts)
  from append_law [OF Cons.prems(1), of t] Cons.prems(2) obtain s1 where s1:
    "append s t = Inr s1" "rep s1 (cs @ t)" "room s \<le> room s1" by auto
  have "length (cs @ t) + length (concat ts) < room s1" using Cons.prems(2) s1(3) by simp
  from Cons.IH [OF s1(2) this] s1 show ?case by auto
qed auto

end

interpretation sb: text_sink sb_rep sb_room c598a24c_append_string
  by unfold_locales (use append_string_ok in blast)

lemma append_va_list_ok:
  assumes "sb_rep sb cs" and "length cs + length (concat ts) < sb_room sb"
  shows "\<exists>sb'. c598a24c_append_string_va_list sb (map Some ts @ None # rest) = Inr sb' \<and>
               sb_rep sb' (cs @ concat ts) \<and> sb_room sb \<le> sb_room sb'"
proof -
  have "c598a24c_append_string_va_list sb (map Some ts @ None # rest) = fold_result c598a24c_append_string sb ts"
    by (induction ts arbitrary: sb) auto
  with sb.append_pieces [OF assms] show ?thesis by simp
qed

lemma append_uint_ok:
  assumes "sb_rep sb cs" and "length cs + length (dec_string (unat v)) < sb_room sb"
  shows "\<exists>sb'. c598a24c_append_uint sb v = Inr sb' \<and> sb_rep sb' (cs @ dec_string (unat v)) \<and>
               sb_room sb \<le> sb_room sb'"
  using append_string_ok [OF assms]
  by (auto simp: c598a24c_append_uint_def append_and_free_def allocated_def toString_uint32_dec)

subsection \<open>Properties\<close>

text \<open>C25: a text that stays below the room of the builder (twice its size, while it has not grown) is appended
  in full, ends in a NUL inside the buffer, and leaves at least as much room.\<close>

theorem append_string_appends:
  assumes "sb_rep sb cs" and "length cs + length src < sb_room sb"
  shows "\<exists>sb'. c598a24c_append_string sb src = Inr sb' \<and> sb_rep sb' (cs @ src) \<and> sb_room sb \<le> sb_room sb'"
  using append_string_ok [OF assms] by blast

lemma append_string_appends_witness:
  "\<exists>sb sb'. c598a24c_createStringBuilder = Inr sb \<and>
     c598a24c_append_string sb ''hello'' = Inr sb' \<and> sb_rep sb' ([] @ ''hello'') \<and> sb_room sb \<le> sb_room sb'"
proof -
  obtain sb where "c598a24c_createStringBuilder = Inr sb" "sb_rep sb []" "sb_room sb = 128"
    using create_default by blast
  with append_string_appends [of sb "[]" "''hello''"] show ?thesis by auto
qed

text \<open>Once a builder has grown, an append that reaches the end of its buffer writes past it: the size
  field is not updated by growing, so the test for a full buffer never fires again.\<close>

theorem append_string_overflows:
  assumes "unat (sb_size sb) < unat (sb_length sb)" and "unat (sb_length sb) \<le> length (sb_buffer sb)"
    and "length (sb_buffer sb) \<le> unat (sb_length sb) + length src" and "length (sb_buffer sb) < 2 ^ 32"
  shows "c598a24c_append_string sb src = Inl OutOfBounds"
  using assms by (rule append_string_beyond)

lemma append_string_overflows_witness:
  "c598a24c_append_string \<lparr>sb_buffer = replicate 128 (Some CHR ''a''), sb_length = 100, sb_size = 64\<rparr>
     (replicate 28 CHR ''b'') = Inl OutOfBounds"
  by (rule append_string_overflows) simp_all

text \<open>AppendBytes on an empty builder aborts as soon as the bytes do not fit the initial size: the growth
  goes through a resize of an array of length 0.\<close>

lemma appendBytes_on_empty_aborts:
  assumes "sb_rep sb []" and "unat n + 1 < 2 ^ 32" and "unat (sb_size sb) \<le> unat n + 1"
  shows "c598a24c_appendBytes sb src n = Inl Abort"
  using assms by (rule appendBytes_empty_aborts)

lemma appendBytes_on_empty_aborts_witness:
  "\<exists>sb. c598a24c_createStringBuilder = Inr sb \<and> c598a24c_appendBytes sb (replicate 63 CHR ''a'') 63 = Inl Abort"
proof -
  obtain sb where "c598a24c_createStringBuilder = Inr sb" "sb_rep sb []" "sb_size sb = 64"
    using create_default by blast
  with appendBytes_on_empty_aborts [of sb 63 "replicate 63 CHR ''a''"] show ?thesis by auto
qed

end
