(* ===== verification/BuilderRuns.thy ===== *)
theory BuilderRuns
  imports StringBuilder
begin

text \<open>
  Arbitrary sequences of calls on one string builder of lang/stringbuilder.c: the abstract value is the text, every call has
  an effect on it, and the representation invariant of \<open>StringBuilder\<close> is kept as long as the text stays below twice
  the size of the builder, and below the size for the calls that copy bytes. Two calls are left out because they break it:
  append_stringArray counts a bracket that is not there (\<open>stringArray_loses_bracket\<close>), and appendMD5 writes outside of the buffer
  (\<open>MemoryRoutines.appendMD5_overflows\<close>).
\<close>

subsection \<open>Calls and their effect on the text\<close>

datatype build_call =
    AppendString string
  | AppendChar char
  | AppendBytes string u32
  | AppendStringUint32 string u32
  | AppendInt u32
  | AppendInt64 u64
  | AppendUint u32
  | AppendUint64 u64
  | AppendVarg string "string list"
  | AppendVaList "string list"
  | CreateString "string option"
  | Reset
  | ReduceLength u32

fun run_call :: "StringBuilder \<Rightarrow> build_call \<Rightarrow> StringBuilder result" where
  "run_call sb (AppendString s) = c598a24c_append_string sb s"
| "run_call sb (AppendChar c) = c598a24c_append_char sb c"
| "run_call sb (AppendBytes s n) = c598a24c_appendBytes sb s n"
| "run_call sb (AppendStringUint32 s n) = c598a24c_append_string_uint32 sb s n"
| "run_call sb (AppendInt n) = c598a24c_append_int sb n"
| "run_call sb (AppendInt64 n) = c598a24c_append_int64 sb n"
| "run_call sb (AppendUint n) = c598a24c_append_uint sb n"
| "run_call sb (AppendUint64 n) = c598a24c_append_uint64 sb n"
| "run_call sb (AppendVarg s ts) = c598a24c_append_string_varg sb s (map Some ts @ [None])"
| "run_call sb (AppendVaList ts) = c598a24c_append_string_va_list sb (map Some ts @ [None])"
| "run_call sb (CreateString suffix) = bnd (c598a24c_createString sb suffix) (\<lambda>(_, sb). Inr sb)"
| "run_call sb Reset = c598a24c_resetStringBuilder sb"
| "run_call sb (ReduceLength n) = c598a24c_reduceLength sb n"

fun call_text :: "string \<Rightarrow> build_call \<Rightarrow> string" where
  "call_text cs (AppendString s) = cs @ s"
| "call_text cs (AppendChar c) = cs @ [c]"
| "call_text cs (AppendBytes s n) = cs @ take (unat n) s"
| "call_text cs (AppendStringUint32 s n) = cs @ take (unat n) s"
| "call_text cs (AppendInt n) = cs @ int_string (sint n)"
| "call_text cs (AppendInt64 n) = cs @ int_string (sint n)"
| "call_text cs (AppendUint n) = cs @ dec_string (unat n)"
| "call_text cs (AppendUint64 n) = cs @ dec_string (unat n)"
| "call_text cs (AppendVarg s ts) = cs @ s @ concat ts"
| "call_text cs (AppendVaList ts) = cs @ concat ts"
| "call_text cs (CreateString suffix) = cs"
| "call_text cs Reset = []"
| "call_text cs (ReduceLength n) = take (unat n) cs"

text \<open>The texts that fit a builder of a size; the text of the smallest number of a type cannot be freed.\<close>

fun call_fits :: "nat \<Rightarrow> string \<Rightarrow> build_call \<Rightarrow> bool" where
  "call_fits k cs (AppendBytes s n) = (unat n \<le> length s \<and> length cs + unat n + 1 < k)"
| "call_fits k cs (AppendStringUint32 s n) = (unat n \<le> length s \<and> length cs + unat n + 1 < k)"
| "call_fits k cs (AppendInt n) = (n \<noteq> 0x80000000 \<and> length (cs @ int_string (sint n)) < 2 * k)"
| "call_fits k cs (AppendInt64 n) = (n \<noteq> 0x8000000000000000 \<and> length (cs @ int_string (sint n)) < 2 * k)"
| "call_fits k cs (CreateString suffix) = (case suffix of None \<Rightarrow> True | Some t \<Rightarrow> length (cs @ t) < 2 * k)"
| "call_fits k cs c = (length (call_text cs c) < 2 * k)"

primrec calls_fit :: "nat \<Rightarrow> string \<Rightarrow> build_call list \<Rightarrow> bool" where
  "calls_fit k cs [] = True"
| "calls_fit k cs (c # calls) = (call_fits k cs c \<and> calls_fit k (call_text cs c) calls)"

subsection \<open>The invariant\<close>

definition sb_valid :: "StringBuilder \<Rightarrow> string \<Rightarrow> bool" where
  "sb_valid sb cs \<longleftrightarrow> sb_rep sb cs \<and> 2 * unat (sb_size sb) \<le> sb_room sb"

lemma sb_valid_new: "\<exists>sb. c598a24c_createStringBuilder = Inr sb \<and> sb_valid sb [] \<and> unat (sb_size sb) = 64"
  using create_default by (auto simp: sb_valid_def)

lemma sb_valid_size: "sb_valid sb cs \<Longrightarrow> unat (sb_size sb) \<le> length (sb_buffer sb)"
  using sb_coreD(1,4) [of sb cs] by (auto simp: sb_valid_def sb_rep_def sb_room_def split: if_splits)

lemma sb_valid_short: "sb_rep sb cs \<Longrightarrow> length cs \<le> unat (sb_size sb) \<Longrightarrow> sb_valid sb cs"
  using sb_coreD(1) [of sb cs] by (simp add: sb_valid_def sb_rep_def sb_room_def)

lemma append_string_valid:
  assumes "sb_valid sb cs" "length (cs @ t) < 2 * unat (sb_size sb)"
  shows "\<exists>sb'. c598a24c_append_string sb t = Inr sb' \<and> sb_valid sb' (cs @ t) \<and> sb_size sb' = sb_size sb"
  using append_string_ok [of sb cs t] assms by (auto simp: sb_valid_def)

text \<open>A builder that append_char enlarges has twice its size afterwards, whatever it had.\<close>

lemma append_char_valid:
  assumes "sb_valid sb cs" "length (cs @ [ch]) < 2 * unat (sb_size sb)"
  shows "\<exists>sb'. c598a24c_append_char sb ch = Inr sb' \<and> sb_valid sb' (cs @ [ch]) \<and> sb_size sb' = sb_size sb"
proof -
  have rep: "sb_rep sb cs" and core: "sb_core sb cs" using assms(1) by (auto simp: sb_valid_def sb_rep_def)
  note D = sb_coreD [OF core]
  from append_char_core [OF rep, of ch] assms(2) obtain sb' where sb':
    "c598a24c_append_char sb ch = Inr sb'" "sb_rep sb' (cs @ [ch])" "sb_size sb' = sb_size sb" by auto
  show ?thesis
  proof (cases "length (cs @ [ch]) \<le> unat (sb_size sb)")
    case True
    then show ?thesis using sb' sb_valid_short by auto
  next
    case False
    let ?n = "push_bit 1 (sb_size sb)"
    have inc: "unat (sb_length sb + 1) = length cs + 1" using D(1,6) assms(2) by (simp add: unat_plus_fits)
    have full: "sb_size sb \<le> sb_length sb + 1" using False inc by (simp add: word_le_nat_alt)
    have n: "unat ?n = 2 * unat (sb_size sb)" using D(6) by (rule size_shl)
    have "cs \<noteq> []" using False D(5) by auto
    then obtain b where b: "resizeStringBuilder sb ?n = Inr (sb\<lparr>sb_buffer := b\<rparr>, length cs)"
      "length b = (unat ?n + 15) div 16 * 16"
      using resize_core [OF core, of ?n] assms(2) n by auto
    have "2 * unat (sb_size sb) \<le> length b" using b(2) n round16(1) [of "unat ?n"] by simp
    moreover have "length (sb_buffer sb') = length b"
      using sb'(1) full b(1) by (auto simp: c598a24c_append_char_def sb_write_def wr_def split: if_splits)
    ultimately have "2 * unat (sb_size sb') \<le> sb_room sb'" using sb'(3) by (simp add: sb_room_def)
    then show ?thesis using sb' by (simp add: sb_valid_def)
  qed
qed

lemma reset_valid:
  assumes "sb_valid sb cs"
  shows "\<exists>sb'. c598a24c_resetStringBuilder sb = Inr sb' \<and> sb_valid sb' [] \<and> sb_size sb' = sb_size sb"
proof -
  from reset_rep sb_valid_size [OF assms] assms obtain sb' where sb': "c598a24c_resetStringBuilder sb = Inr sb'" "sb_rep sb' []"
    by (auto simp: sb_valid_def)
  moreover have "sb_size sb' = sb_size sb"
    using sb'(1) by (auto simp: c598a24c_resetStringBuilder_def bnd_eq_Inr)
  ultimately show ?thesis using sb_valid_short by auto
qed

lemma reduceLength_valid:
  assumes "sb_valid sb cs"
  shows "\<exists>sb'. c598a24c_reduceLength sb n = Inr sb' \<and> sb_valid sb' (take (unat n) cs) \<and> sb_size sb' = sb_size sb"
proof -
  have rep: "sb_rep sb cs" and room: "2 * unat (sb_size sb) \<le> sb_room sb" using assms by (simp_all add: sb_valid_def)
  then have len: "unat (sb_length sb) = length cs" using sb_coreD(1) by (auto simp: sb_rep_def)
  show ?thesis
  proof (cases "unat n < length cs")
    case True
    from reduceLength_rep [OF rep True sb_valid_size [OF assms]] obtain sb' where sb':
      "c598a24c_reduceLength sb n = Inr sb'" "sb_rep sb' (take (unat n) cs)" by auto
    from sb'(1) True len have f: "sb_size sb' = sb_size sb" "length (sb_buffer sb') = length (sb_buffer sb)" "sb_length sb' = n"
      by (auto simp: c598a24c_reduceLength_def word_less_nat_alt sb_write_def bnd_eq_Inr wr_eq_Inr)
    have "2 * unat (sb_size sb) \<le> length (sb_buffer sb)" if "unat (sb_size sb) < unat n"
      using room True len that by (simp add: sb_room_def split: if_splits)
    then have "2 * unat (sb_size sb') \<le> sb_room sb'" using f by (simp add: sb_room_def)
    then show ?thesis using sb' f by (simp add: sb_valid_def)
  next
    case False
    then show ?thesis using assms len by (simp add: c598a24c_reduceLength_def word_less_nat_alt)
  qed
qed

lemma va_list_valid:
  "sb_valid sb cs \<Longrightarrow> length (cs @ concat ts) < 2 * unat (sb_size sb) \<Longrightarrow>
     \<exists>sb'. c598a24c_append_string_va_list sb (map Some ts @ [None]) = Inr sb' \<and> sb_valid sb' (cs @ concat ts) \<and>
           sb_size sb' = sb_size sb"
proof (induction ts arbitrary: sb cs)
  case (Cons t ts)
  then obtain s1 where s1: "c598a24c_append_string sb t = Inr s1" "sb_valid s1 (cs @ t)" "sb_size s1 = sb_size sb"
    using append_string_valid [of sb cs t] by auto
  with Cons.IH [OF s1(2)] Cons.prems(2) show ?case by auto
qed auto

lemma appendBytes_valid:
  assumes "sb_valid sb cs" "unat n \<le> length s" "length cs + unat n + 1 < unat (sb_size sb)"
  shows "\<exists>sb'. c598a24c_appendBytes sb s n = Inr sb' \<and> sb_valid sb' (cs @ take (unat n) s) \<and> sb_size sb' = sb_size sb"
proof -
  have rep: "sb_rep sb cs" using assms(1) by (simp add: sb_valid_def)
  then have "unat (sb_size sb) < 2 ^ 30" using sb_coreD(6) by (auto simp: sb_rep_def)
  then have "\<exists>sb'. c598a24c_appendBytes sb s n = Inr sb' \<and> sb_rep sb' (cs @ take (unat n) s) \<and> sb_size sb' = sb_size sb"
    using assms by (intro appendBytes_ok [OF rep]) auto
  then show ?thesis using assms sb_valid_short by fastforce
qed

text \<open>createString with a suffix appends it and takes it off again.\<close>

lemma createString_valid:
  assumes "sb_valid sb cs" "case suffix of None \<Rightarrow> True | Some t \<Rightarrow> length (cs @ t) < 2 * unat (sb_size sb)"
  shows "\<exists>sb'. c598a24c_createString sb suffix =
           Inr (if cs = [] then None else Some (cs @ (case suffix of None \<Rightarrow> [] | Some t \<Rightarrow> t)), sb') \<and>
         sb_valid sb' cs \<and> sb_size sb' = sb_size sb"
proof (cases suffix)
  case None
  have rep: "sb_rep sb cs" using assms(1) by (simp add: sb_valid_def)
  show ?thesis using None createString_plain [OF rep] assms(1) by simp
next
  case (Some t)
  have core: "sb_core sb cs" using assms(1) by (simp add: sb_valid_def sb_rep_def)
  have len: "unat (sb_length sb) = length cs" by (rule sb_coreD(1) [OF core])
  show ?thesis
  proof (cases "cs = []")
    case True
    then have "\<not> 0 < sb_length sb" using len by (simp add: word_less_nat_alt)
    then show ?thesis using True assms(1) by (simp add: c598a24c_createString_def)
  next
    case False
    then have pos: "0 < sb_length sb" using len by (simp add: word_less_nat_alt)
    obtain s1 where s1: "c598a24c_append_string sb t = Inr s1" "sb_valid s1 (cs @ t)" "sb_size s1 = sb_size sb"
      using append_string_valid [OF assms(1), of t] assms(2) Some by auto
    then have "copy_out s1 = Inr (cs @ t)" using False by (intro copy_out_rep) (auto simp: sb_valid_def sb_rep_def)
    moreover obtain s2 where "c598a24c_reduceLength s1 (sb_length sb) = Inr s2" "sb_valid s2 (take (length cs) (cs @ t))"
      "sb_size s2 = sb_size sb"
      using reduceLength_valid [OF s1(2), of "sb_length sb"] s1(3) len by auto
    ultimately show ?thesis using Some False pos s1(1) by (simp add: c598a24c_createString_def)
  qed
qed

lemma call_valid:
  assumes "sb_valid sb cs" "call_fits (unat (sb_size sb)) cs c"
  shows "\<exists>sb'. run_call sb c = Inr sb' \<and> sb_valid sb' (call_text cs c) \<and> sb_size sb' = sb_size sb"
proof (cases c)
  case (AppendBytes s n)
  with appendBytes_valid [OF assms(1), of n s] assms(2) show ?thesis by simp
next
  case (AppendStringUint32 s n)
  with appendBytes_valid [OF assms(1), of n s] assms(2) show ?thesis by (simp add: append_string_uint32_is_appendBytes)
next
  case (AppendVarg s ts)
  with append_string_valid [OF assms(1), of s] assms(2) obtain s1 where s1:
    "c598a24c_append_string sb s = Inr s1" "sb_valid s1 (cs @ s)" "sb_size s1 = sb_size sb" by auto
  with va_list_valid [OF s1(2), of ts] assms(2) AppendVarg show ?thesis
    by (auto simp: c598a24c_append_string_varg_def)
next
  case (AppendVaList ts)
  with va_list_valid [OF assms(1), of ts] assms(2) show ?thesis by auto
next
  case (CreateString suffix)
  with createString_valid [OF assms(1), of suffix] assms(2) show ?thesis by auto
qed (use assms append_string_valid append_char_valid reset_valid reduceLength_valid in
      \<open>auto simp: c598a24c_append_int_def c598a24c_append_int64_def c598a24c_append_uint_def c598a24c_append_uint64_def
         append_and_free_def allocated_def toString_uint32_dec toString_uint64_dec toString_int32_dec toString_int64_dec\<close>)

text \<open>The text of the smallest number is appended, and then free gets a string literal.\<close>

lemma smallest_int_faults:
  assumes "sb_valid sb cs" "length (cs @ int_string (- (2 ^ 31))) < 2 * unat (sb_size sb)"
  shows "c598a24c_append_int sb 0x80000000 = Inl Abort"
  using append_string_valid [OF assms(1), of "int_string (- (2 ^ 31))"] assms(2)
  by (auto simp: c598a24c_append_int_def append_and_free_def toString_int32_dec)

lemma calls_valid:
  "sb_valid sb cs \<Longrightarrow> calls_fit (unat (sb_size sb)) cs calls \<Longrightarrow>
     \<exists>sb'. fold_result run_call sb calls = Inr sb' \<and> sb_valid sb' (foldl call_text cs calls)"
proof (induction calls arbitrary: sb cs)
  case (Cons c calls)
  then obtain s1 where "run_call sb c = Inr s1" "sb_valid s1 (call_text cs c)" "sb_size s1 = sb_size sb"
    using call_valid [of sb cs c] by auto
  with Cons.IH [of s1 "call_text cs c"] Cons.prems(2) show ?case by auto
qed simp

subsection \<open>Properties\<close>

text \<open>C39: after any sequence of appends, resets, cuts and copies on a new builder whose texts fit it, the builder is well formed: its
  length is that of the text, the buffer holds the text and the closing NUL, and a string created from it is the text. The calls are those
  of lang/stringbuilder.c except append_stringArray, which breaks the invariant, and the smallest signed numbers, whose text is a literal
  that append_int and append_int64 pass to free.\<close>

theorem builder_stays_well_formed:
  assumes "calls_fit 64 [] calls"
  shows "\<exists>sb. bnd c598a24c_createStringBuilder (\<lambda>sb. fold_result run_call sb calls) = Inr sb \<and>
              sb_rep sb (foldl call_text [] calls) \<and>
              c598a24c_createString sb None =
                Inr (if foldl call_text [] calls = [] then None else Some (foldl call_text [] calls), sb)"
proof -
  from sb_valid_new obtain s0 where s0: "c598a24c_createStringBuilder = Inr s0" "sb_valid s0 []" "unat (sb_size s0) = 64"
    by blast
  from calls_valid [OF s0(2)] assms s0(3) obtain sb where
    sb: "fold_result run_call s0 calls = Inr sb" "sb_valid sb (foldl call_text [] calls)" by auto
  then have rep: "sb_rep sb (foldl call_text [] calls)" by (simp add: sb_valid_def)
  show ?thesis unfolding s0(1) bnd_Inr sb(1) using rep createString_plain [OF rep] by (intro exI [of _ sb]) simp
qed

lemma builder_stays_well_formed_witness:
  "\<exists>sb. bnd c598a24c_createStringBuilder
      (\<lambda>sb. fold_result run_call sb [AppendString ''size '', AppendUint 7, AppendChar CHR '','', CreateString (Some ''x''), ReduceLength 6]) = Inr sb \<and>
      sb_rep sb ''size 7''"
proof -
  have "foldl call_text [] [AppendString ''size '', AppendUint 7, AppendChar CHR '','', CreateString (Some ''x''), ReduceLength 6] = ''size 7''"
    by (simp add: dec_string.simps ascii_digit_table)
  moreover have "calls_fit 64 [] [AppendString ''size '', AppendUint 7, AppendChar CHR '','', CreateString (Some ''x''), ReduceLength 6]"
    by (simp add: dec_string.simps)
  ultimately show ?thesis
    using builder_stays_well_formed [of "[AppendString ''size '', AppendUint 7, AppendChar CHR '','', CreateString (Some ''x''), ReduceLength 6]"] by metis
qed

end
