(* ===== verification/CString.thy ===== *)
theory CString
  imports StringBuilder "HOL-Library.Sublist"
begin

text \<open>
  lang/string.c and the routines of string.linux-x86_64.asm that the C components call. A C string
  is the list of its chars without the closing NUL; a pointer into it is the suffix that starts
  there. The assembly routines handle NULL arguments, hence the \<open>ptr\<close> arguments.
\<close>

subsection \<open>lang/string.c\<close>

text \<open>The clone is built in a String of the source's length field; the copy loop stops at the NUL.\<close>

definition f6215943_cloneString :: "u32 \<Rightarrow> string \<Rightarrow> string result" where
  "f6215943_cloneString len value =
     bnd (f668c4bd_stralloc (unat len)) (\<lambda>b.
     bnd (blit (map Some (value @ [NUL])) 0 (length value + 1) b 0) (\<lambda>b.
     read_cells b 0 (length value)))"

text \<open>The returned buffer is read up to its NUL.\<close>

fun c_string :: "char block \<Rightarrow> string result" where
  "c_string [] = Inl OutOfBounds"
| "c_string (None # b) = Inl Uninitialised"
| "c_string (Some ch # b) = (if ch = NUL then Inr [] else bnd (c_string b) (\<lambda>s. Inr (ch # s)))"

definition f6215943_concatenate :: "string \<Rightarrow> string ptr list \<Rightarrow> string result" where
  "f6215943_concatenate str ap =
     bnd c598a24c_initStringBuilder (\<lambda>strBuilder.
     bnd (c598a24c_append_string strBuilder str) (\<lambda>strBuilder.
     bnd (c598a24c_append_string_va_list strBuilder ap) (\<lambda>strBuilder.
     c_string (sb_buffer strBuilder))))"

text \<open>The comparison loop: it ends at the first NUL or difference.\<close>

fun differ :: "string \<Rightarrow> string \<Rightarrow> bool" where
  "differ (a # foo) (b # bar) = (if a = b then differ foo bar else True)"
| "differ [] [] = False"
| "differ foo bar = True"

text \<open>\<open>same\<close>: the two pointers are equal.\<close>

definition f6215943_isNotEqual :: "bool \<Rightarrow> string ptr \<Rightarrow> string ptr \<Rightarrow> bool" where
  "f6215943_isNotEqual same foo bar =
     (if same then False
      else case foo of
        None \<Rightarrow> True
      | Some f \<Rightarrow> (case bar of None \<Rightarrow> True | Some b \<Rightarrow> differ f b))"

text \<open>The rest of the text after the pattern, or NULL.\<close>

fun f6215943_startsWith :: "string \<Rightarrow> string \<Rightarrow> string ptr" where
  "f6215943_startsWith [] text = Some text"
| "f6215943_startsWith (ch # pattern) (t # text) =
     (if ch = t then f6215943_startsWith pattern text else None)"
| "f6215943_startsWith (ch # pattern) [] = None"

subsection \<open>string.linux-x86_64.asm\<close>

text \<open>\<open>h = (h << 3) xor ch\<close> over the bytes of the string; 0 for NULL.\<close>

definition hash_step :: "u32 \<Rightarrow> char \<Rightarrow> u32" where
  "hash_step h ch = xor (push_bit 3 h) (of_nat (of_char ch))"

definition f6215943_hashCode :: "string ptr \<Rightarrow> u32" where
  "f6215943_hashCode s = (case s of None \<Rightarrow> 0 | Some str \<Rightarrow> foldl hash_step 0 str)"

definition f6215943_isEqual :: "string ptr \<Rightarrow> string ptr \<Rightarrow> bool" where
  "f6215943_isEqual foo bar =
     (case (foo, bar) of
        (None, None) \<Rightarrow> True
      | (Some f, Some b) \<Rightarrow> \<not> differ f b
      | _ \<Rightarrow> False)"

text \<open>
  Pattern search: on a mismatch the pattern restarts, but the text pointer only moves on by one
  char and never back. The result points behind the match.
\<close>

fun search_loop :: "string \<Rightarrow> string \<Rightarrow> string \<Rightarrow> string ptr" where
  "search_loop pattern [] text = Some text"
| "search_loop pattern (p # ps) [] = None"
| "search_loop pattern (p # ps) (t # text) =
     (if p = t then search_loop pattern ps text else search_loop pattern pattern text)"

definition f6215943_search :: "string ptr \<Rightarrow> string ptr \<Rightarrow> string ptr" where
  "f6215943_search pattern text =
     (case (pattern, text) of (Some p, Some t) \<Rightarrow> search_loop p p t | _ \<Rightarrow> None)"

definition f6215943_getLength :: "string ptr \<Rightarrow> u32" where
  "f6215943_getLength s = (case s of None \<Rightarrow> 0 | Some str \<Rightarrow> of_nat (length str))"

text \<open>endsWith restarts after a failed comparison one char behind its start.\<close>

fun f6215943_endsWith :: "string \<Rightarrow> string \<Rightarrow> bool" where
  "f6215943_endsWith pattern [] = (pattern = [])"
| "f6215943_endsWith pattern (t # text) =
     (\<not> differ pattern (t # text) \<or> f6215943_endsWith pattern text)"

text \<open>The suffix that starts at the last occurrence of the char.\<close>

primrec find_last :: "char \<Rightarrow> string \<Rightarrow> string ptr \<Rightarrow> string ptr" where
  "find_last ch [] acc = acc"
| "find_last ch (c # str) acc = find_last ch str (if c = ch then Some (c # str) else acc)"

definition f6215943_findLastChar :: "string ptr \<Rightarrow> char \<Rightarrow> string ptr" where
  "f6215943_findLastChar s ch = (case s of None \<Rightarrow> None | Some str \<Rightarrow> find_last ch str None)"

definition is_blank :: "char \<Rightarrow> bool" where
  "is_blank c \<longleftrightarrow> c = CHR '' '' \<or> c = CHR 0x09"

text \<open>Leading blanks are skipped, trailing blanks are cut; a blank string becomes the empty one.\<close>

definition f6215943_trim :: "string \<Rightarrow> string" where
  "f6215943_trim s = rev (dropWhile is_blank (rev (dropWhile is_blank s)))"

definition f6215943_truncate :: "string \<Rightarrow> u32 \<Rightarrow> string" where
  "f6215943_truncate s n = take (unat n) s"

text \<open>numBytes are copied and a NUL is written behind them.\<close>

definition f6215943_copyToBuffer :: "string \<Rightarrow> char block \<Rightarrow> nat \<Rightarrow> nat \<Rightarrow> char block result" where
  "f6215943_copyToBuffer source buffer off numBytes =
     (if numBytes = 0 then Inr buffer
      else bnd (blit (map Some (source @ [NUL])) 0 numBytes buffer off) (\<lambda>b. wr b (off + numBytes) NUL))"

subsection \<open>Lemmas\<close>

lemma differ_iff: "differ a b \<longleftrightarrow> a \<noteq> b"
  by (induction a b rule: differ.induct) auto

lemma isEqual_iff: "f6215943_isEqual a b \<longleftrightarrow> a = b"
  by (cases a; cases b) (auto simp: f6215943_isEqual_def differ_iff)

lemma isNotEqual_iff: "f6215943_isNotEqual False (Some a) (Some b) \<longleftrightarrow> a \<noteq> b"
  by (simp add: f6215943_isNotEqual_def differ_iff)

lemma startsWith_iff: "f6215943_startsWith pat str = Some rest \<longleftrightarrow> str = pat @ rest"
  by (induction pat str rule: f6215943_startsWith.induct) auto

lemma startsWith_None: "f6215943_startsWith pat str = None \<longleftrightarrow> \<not> prefix pat str"
  by (induction pat str rule: f6215943_startsWith.induct) auto

lemma endsWith_iff: "f6215943_endsWith pat str \<longleftrightarrow> suffix pat str"
  by (induction str) (auto simp: differ_iff suffix_Cons)

lemma trim_no_blank:
  assumes "s \<noteq> []" and "\<not> is_blank (hd s)" and "\<not> is_blank (last s)"
  shows "f6215943_trim s = s"
proof -
  have "dropWhile is_blank s = s" using assms by (cases s) auto
  moreover have "dropWhile is_blank (rev s) = rev s" using assms by (cases s rule: rev_cases) auto
  ultimately show ?thesis by (simp add: f6215943_trim_def)
qed

text \<open>A reported match is one: the str contains the pattern right before the result.\<close>

lemma search_loop_sound:
  "search_loop pat ps str = Some rest \<Longrightarrow> pat = seen @ ps \<Longrightarrow>
   \<exists>pre. seen @ str = pre @ pat @ rest"
proof (induction pat ps str arbitrary: seen rule: search_loop.induct)
  case (1 pat str)
  then show ?case by auto
next
  case (3 pat p ps t str)
  show ?case
  proof (cases "p = t")
    case True
    with 3 have "\<exists>pre. (seen @ [p]) @ str = pre @ pat @ rest" by auto
    with True show ?thesis by simp
  next
    case False
    with 3 obtain pre where "[] @ str = pre @ pat @ rest" by force
    then have "seen @ t # str = (seen @ t # pre) @ pat @ rest" by simp
    then show ?thesis by blast
  qed
qed simp

text \<open>A one-char pattern is found at its first occurrence.\<close>

lemma search_first_char:
  "c \<notin> set pre \<Longrightarrow> search_loop [c] [c] (pre @ c # rest) = Some rest"
  by (induction pre) auto

lemma c_string_holds:
  "holds b (s @ [NUL]) \<Longrightarrow> NUL \<notin> set s \<Longrightarrow> c_string b = Inr s"
proof (induction s arbitrary: b)
  case Nil
  then obtain b' where "b = Some NUL # b'" by (cases b) (auto simp: holds_def)
  then show ?case by simp
next
  case (Cons ch s)
  then obtain b' where b: "b = Some ch # b'" "holds b' (s @ [NUL])" by (cases b) (auto simp: holds_def)
  with Cons show ?case by auto
qed

lemma concatenate_ok:
  assumes "NUL \<notin> set str" and "\<forall>t \<in> set ts. NUL \<notin> set t" and "length str + length (concat ts) < 128"
  shows "f6215943_concatenate str (map Some ts @ [None]) = Inr (str @ concat ts)"
proof -
  from init_default obtain s0 where s0: "c598a24c_initStringBuilder = Inr s0" "sb_rep s0 []" "sb_room s0 = 128"
    by blast
  from append_string_ok [OF s0(2), of str] s0(3) assms(3) obtain s1 where s1:
    "c598a24c_append_string s0 str = Inr s1" "sb_rep s1 str" "128 \<le> sb_room s1" by auto
  from append_va_list_ok [OF s1(2), of ts "[]"] s1(3) assms(3) obtain s2 where s2:
    "c598a24c_append_string_va_list s1 (map Some ts @ [None]) = Inr s2" "sb_rep s2 (str @ concat ts)"
    by auto
  have "c_string (sb_buffer s2) = Inr (str @ concat ts)"
    using s2(2) assms(1,2) by (intro c_string_holds) (auto simp: sb_rep_def)
  then show ?thesis unfolding f6215943_concatenate_def s0(1) bnd_Inr s1(1) s2(1) .
qed

subsection \<open>Properties\<close>

text \<open>The comparisons decide equality, prefix (with the rest of the text as the answer) and suffix.\<close>

theorem comparisons_correct:
  "(f6215943_isEqual a b = (a = b)) \<and> (f6215943_isNotEqual False (Some s) (Some t) = (s \<noteq> t)) \<and>
   (f6215943_startsWith p t = Some rest) = (t = p @ rest) \<and> f6215943_endsWith p t = suffix p t"
  by (simp add: isEqual_iff isNotEqual_iff startsWith_iff endsWith_iff)

text \<open>C28: what search reports is an occurrence: the answer points just behind the pattern.\<close>

theorem search_finds_occurrence:
  assumes "f6215943_search (Some pat) (Some str) = Some rest"
  shows "\<exists>pre. str = pre @ pat @ rest"
  using search_loop_sound [of pat pat str rest "[]"] assms by (simp add: f6215943_search_def)

lemma search_finds_occurrence_witness: "\<exists>pre. ''xaby'' = pre @ ''ab'' @ ''y''"
  by (rule search_finds_occurrence) (simp add: f6215943_search_def)

text \<open>Search is not complete: it overlooks an occurrence that starts inside a failed partial match.\<close>

theorem search_overlooks_occurrence:
  "f6215943_search (Some ''ab'') (Some ''aab'') = None \<and> ''aab'' = ''a'' @ ''ab'' @ []"
  by (simp add: f6215943_search_def)

text \<open>Concatenate yields the texts in order when the whole is shorter than twice the default size.\<close>

theorem concatenate_concatenates:
  assumes "NUL \<notin> set str" and "\<forall>t \<in> set ts. NUL \<notin> set t" and "length str + length (concat ts) < 128"
  shows "f6215943_concatenate str (map Some ts @ [None]) = Inr (str @ concat ts)"
  using assms by (rule concatenate_ok)

lemma concatenate_concatenates_witness:
  "f6215943_concatenate ''a'' (map Some [''b'', ''cd''] @ [None]) = Inr (''a'' @ concat [''b'', ''cd''])"
  by (rule concatenate_concatenates) simp_all

end
