(* ===== verification/ErrorReport.thy ===== *)
theory ErrorReport
  imports CString
begin

text \<open>
  lang/error.c, the inline functions of lang/error.h and system/linux.c: the messages written to
  stderr. The program name and strerror() are the fields of an environment record. A function that prints
  and returns yields the text; one that then calls exit() yields \<open>Exit\<close> with the text.
  \<open>sysret\<close> is the outcome of a system call: a value, or the errno of a failure.
\<close>

record env =
  programName :: string
  strerror :: "int \<Rightarrow> string"

datatype 'a sysret = SysOk 'a | SysErr int

subsection \<open>Escape sequences (terminal/ansi.h)\<close>

definition ANSI_BOLD :: string where "ANSI_BOLD = CHR 0x1B # ''[1m''"
definition ANSI_RESET :: string where "ANSI_RESET = CHR 0x1B # ''[0m''"
definition ANSI_RED :: string where "ANSI_RED = CHR 0x1B # ''[91m''"
definition ANSI_AQUA :: string where "ANSI_AQUA = CHR 0x1B # ''[96m''"
definition ANSI_YELLOW :: string where "ANSI_YELLOW = CHR 0x1B # ''[93m''"
definition ANSI_WHITE :: string where "ANSI_WHITE = CHR 0x1B # ''[97m''"

definition newline :: string where "newline = [CHR 0x0A]"

subsection \<open>Messages\<close>

definition c7c88e52_cannotPerformAction :: "env \<Rightarrow> string \<Rightarrow> string \<Rightarrow> string \<Rightarrow> string" where
  "c7c88e52_cannotPerformAction e actionName opt noSuchDesc =
     ANSI_BOLD @ programName e @ '': '' @ ANSI_RED @ ''Cannot '' @ actionName @ '' '' @ [CHR 0x27] @ opt @
     [CHR 0x27] @ '': No such '' @ noSuchDesc @ newline @ newline @ ANSI_RESET"

definition c7c88e52_invalidOption :: "env \<Rightarrow> string \<Rightarrow> string" where
  "c7c88e52_invalidOption e opt =
     ANSI_BOLD @ programName e @ '': '' @ ANSI_RED @ ''Invalid option: '' @ [CHR 0x27] @ opt @ [CHR 0x27] @
     newline @ newline @ ANSI_RESET"

definition c7c88e52_invalidValue :: "env \<Rightarrow> string \<Rightarrow> string \<Rightarrow> string" where
  "c7c88e52_invalidValue e paramName paramValue =
     ANSI_BOLD @ programName e @ '': '' @ ANSI_RED @ ''Invalid '' @ paramName @ '': '' @ [CHR 0x27] @
     paramValue @ [CHR 0x27] @ newline @ newline @ ANSI_RESET"

definition c7c88e52_missingParam :: "env \<Rightarrow> string \<Rightarrow> string" where
  "c7c88e52_missingParam e paramName =
     ANSI_BOLD @ programName e @ '': '' @ ANSI_RED @ ''Missing '' @ paramName @ newline @ newline @ ANSI_RESET"

definition c7c88e52_printLibError :: "env \<Rightarrow> string \<Rightarrow> int \<Rightarrow> string" where
  "c7c88e52_printLibError e errorMessage errorNumber =
     ANSI_BOLD @ programName e @ '': '' @ ANSI_RED @ errorMessage @ '': '' @ strerror e errorNumber @
     newline @ ANSI_RESET"

definition c7c88e52_printNotice :: "env \<Rightarrow> string \<Rightarrow> string" where
  "c7c88e52_printNotice e message =
     ANSI_BOLD @ programName e @ '': '' @ ANSI_AQUA @ message @ newline @ ANSI_RESET"

definition c7c88e52_printUsage :: "string \<Rightarrow> string" where
  "c7c88e52_printUsage message = ANSI_BOLD @ ''Usage: '' @ ANSI_YELLOW @ message @ newline @ ANSI_RESET"

definition c7c88e52_printError_string :: "env \<Rightarrow> string \<Rightarrow> string" where
  "c7c88e52_printError_string e errorMessage =
     ANSI_BOLD @ programName e @ '': '' @ ANSI_RED @ errorMessage @ newline @ ANSI_RESET"

text \<open>\<open>user\<close> is the value of the environment variable USER.\<close>

definition c7c88e52_ensureUserIsRoot :: "env \<Rightarrow> string ptr \<Rightarrow> unit result" where
  "c7c88e52_ensureUserIsRoot e user =
     (if f6215943_isNotEqual False user (Some ''root'')
      then Inl (Exit (ANSI_BOLD @ programName e @ '': '' @ ANSI_RED @
                      ''Permission denied (you must be root)'' @ newline @ ANSI_RESET))
      else Inr ())"

subsection \<open>Building a message\<close>

text \<open>
  Most messages are put together by a run of appends on a builder of the default size and read back
  with \<open>%s\<close>. \<open>message ps\<close> is that run for the pieces \<open>ps\<close>.
\<close>

datatype piece = Str string | Chr char | Uint u32 | Sint u32 | StrArray "string ptr list"

fun append_piece :: "StringBuilder \<Rightarrow> piece \<Rightarrow> StringBuilder result" where
  "append_piece sb (Str s) = c598a24c_append_string sb s"
| "append_piece sb (Chr c) = c598a24c_append_char sb c"
| "append_piece sb (Uint n) = c598a24c_append_uint sb n"
| "append_piece sb (Sint n) = c598a24c_append_int sb n"
| "append_piece sb (StrArray a) = c598a24c_append_stringArray sb a"

definition message_in :: "StringBuilder result \<Rightarrow> piece list \<Rightarrow> string result" where
  "message_in create ps =
     bnd create (\<lambda>sb. bnd (fold_result append_piece sb ps) (\<lambda>sb. c_string (sb_buffer sb)))"

definition message :: "piece list \<Rightarrow> string result" where
  "message ps = message_in c598a24c_initStringBuilder ps"

abbreviation quote :: char where "quote \<equiv> CHR 0x27"

text \<open>Print the message with the error text of \<open>errno\<close>, then exit.\<close>

definition die_lib :: "env \<Rightarrow> piece list \<Rightarrow> int \<Rightarrow> 'a result" where
  "die_lib e ps errno = bnd (message ps) (\<lambda>m. Inl (Exit (c7c88e52_printLibError e m errno)))"

text \<open>Print the message with the error text of \<open>errno\<close> and go on.\<close>

definition warn_lib :: "env \<Rightarrow> piece list \<Rightarrow> int \<Rightarrow> string result" where
  "warn_lib e ps errno = bnd (message ps) (\<lambda>m. Inr (c7c88e52_printLibError e m errno))"

definition die_error :: "env \<Rightarrow> piece list \<Rightarrow> 'a result" where
  "die_error e ps = bnd (message ps) (\<lambda>m. Inl (Exit (c7c88e52_printError_string e m)))"

definition warn_error :: "env \<Rightarrow> piece list \<Rightarrow> string result" where
  "warn_error e ps = bnd (message ps) (\<lambda>m. Inr (c7c88e52_printError_string e m))"

subsection \<open>system/linux.c\<close>

definition ENOENT :: int where "ENOENT = 2"
definition EBADF :: int where "EBADF = 9"
definition EACCES :: int where "EACCES = 13"
definition EISDIR :: int where "EISDIR = 21"

definition e0004944_printError :: "env \<Rightarrow> string \<Rightarrow> u32 \<Rightarrow> string result" where
  "e0004944_printError e infoPath errorNum =
     bnd (if sint errorNum = ENOENT then
            Inr (''no such file or directory for path '' @ ANSI_WHITE @ [quote])
          else if sint errorNum = EBADF \<or> sint errorNum = EACCES then
            Inr (''permission denied on path '' @ ANSI_WHITE @ [quote])
          else bnd (f45efac2_toString_int32 errorNum) (\<lambda>t. Inr (snd t))) (\<lambda>errorMessage.
     bnd (message [Str errorMessage, Str infoPath, Chr quote]) (\<lambda>m.
     Inr (c7c88e52_printError_string e m)))"

subsection \<open>Messages that fit\<close>

text \<open>The text of a piece.\<close>

fun piece_text :: "piece \<Rightarrow> string" where
  "piece_text (Str s) = s"
| "piece_text (Chr c) = [c]"
| "piece_text (Uint n) = dec_string (unat n)"
| "piece_text (Sint n) = int_string (sint n)"
| "piece_text (StrArray a) = []"

fun simple_piece :: "piece \<Rightarrow> bool" where
  "simple_piece (Chr c) = False"
| "simple_piece (StrArray a) = False"
| "simple_piece (Sint n) = (n \<noteq> 0x80000000)"
| "simple_piece _ = True"

lemma append_simple_piece:
  assumes "sb_rep sb cs" and "simple_piece p" and "length cs + length (piece_text p) < sb_room sb"
  shows "\<exists>sb'. append_piece sb p = Inr sb' \<and> sb_rep sb' (cs @ piece_text p) \<and>
               sb_size sb' = sb_size sb \<and> sb_room sb \<le> sb_room sb'"
  using assms append_string_ok [of sb cs "piece_text p"]
  by (cases p) (auto simp: c598a24c_append_uint_def c598a24c_append_int_def append_and_free_def allocated_def
      toString_uint32_dec toString_int32_dec)

lemma append_simple_pieces:
  assumes "sb_rep sb cs" and "\<forall>p \<in> set ps. simple_piece p"
    and "length cs + length (concat (map piece_text ps)) < sb_room sb"
  shows "\<exists>sb'. fold_result append_piece sb ps = Inr sb' \<and> sb_rep sb' (cs @ concat (map piece_text ps)) \<and>
               sb_size sb' = sb_size sb \<and> sb_room sb \<le> sb_room sb'"
  using assms
proof (induction ps arbitrary: sb cs)
  case (Cons p ps)
  from append_simple_piece [OF Cons.prems(1), of p] Cons.prems(2,3) obtain s1 where s1:
    "append_piece sb p = Inr s1" "sb_rep s1 (cs @ piece_text p)" "sb_size s1 = sb_size sb"
    "sb_room sb \<le> sb_room s1" by auto
  have "length (cs @ piece_text p) + length (concat (map piece_text ps)) < sb_room s1"
    using Cons.prems(3) s1(4) by simp
  from Cons.IH [OF s1(2) _ this] Cons.prems(2) s1 show ?case by auto
qed auto

lemma message_simple:
  assumes "\<forall>p \<in> set ps. simple_piece p" and "NUL \<notin> set (concat (map piece_text ps))"
    and "length (concat (map piece_text ps)) < 128"
  shows "message ps = Inr (concat (map piece_text ps))"
proof -
  from init_default obtain s0 where s0: "c598a24c_initStringBuilder = Inr s0" "sb_rep s0 []" "sb_room s0 = 128"
    by blast
  from append_simple_pieces [OF s0(2) assms(1)] assms(3) s0(3) obtain s1 where s1:
    "fold_result append_piece s0 ps = Inr s1" "sb_rep s1 (concat (map piece_text ps))" by auto
  have "c_string (sb_buffer s1) = Inr (concat (map piece_text ps))"
    using s1(2) assms(2) by (intro c_string_holds) (auto simp: sb_rep_def)
  then show ?thesis unfolding message_def message_in_def s0(1) bnd_Inr s1(1) .
qed

text \<open>The commonest message: a text, a name and a closing quote.\<close>

lemma fold_result_snoc: "fold_result f a (xs @ [x]) = bnd (fold_result f a xs) (\<lambda>b. f b x)"
  by (simp add: fold_result_append)

lemma message_then_char:
  assumes "\<forall>p \<in> set ps. simple_piece p" and "NUL \<notin> set (concat (map piece_text ps))" and "c \<noteq> NUL"
    and "length (concat (map piece_text ps)) < 127"
  shows "message (ps @ [Chr c]) = Inr (concat (map piece_text ps) @ [c])"
proof -
  let ?t = "concat (map piece_text ps)"
  from init_default obtain s0 where s0: "c598a24c_initStringBuilder = Inr s0" "sb_rep s0 []"
    "sb_size s0 = 64" "sb_room s0 = 128" by blast
  from append_simple_pieces [OF s0(2) assms(1)] assms(4) s0(3,4) obtain s1 where s1:
    "fold_result append_piece s0 ps = Inr s1" "sb_rep s1 ?t" "sb_size s1 = 64" by auto
  from append_char_core [OF s1(2), of c] s1(3) assms(4) obtain s2 where s2:
    "c598a24c_append_char s1 c = Inr s2" "sb_rep s2 (?t @ [c])" by auto
  have "c_string (sb_buffer s2) = Inr (?t @ [c])"
    using s2(2) assms(2,3) by (intro c_string_holds) (auto simp: sb_rep_def)
  then show ?thesis
    unfolding message_def message_in_def s0(1) bnd_Inr fold_result_snoc s1(1) append_piece.simps s2(1) .
qed

definition quoted :: "string \<Rightarrow> string \<Rightarrow> piece list" where
  "quoted t name = [Str t, Str name, Chr quote]"

lemma message_quoted:
  assumes "NUL \<notin> set t" "NUL \<notin> set name" "length t + length name < 127"
  shows "message (quoted t name) = Inr (t @ name @ [quote])"
  using message_then_char [of "[Str t, Str name]" quote] assms by (auto simp: quoted_def)

lemma die_lib_quoted:
  "NUL \<notin> set t \<Longrightarrow> NUL \<notin> set name \<Longrightarrow> length t + length name < 127 \<Longrightarrow>
   die_lib e (quoted t name) errno = Inl (Exit (c7c88e52_printLibError e (t @ name @ [quote]) errno))"
  by (simp add: die_lib_def message_quoted)

lemma warn_lib_quoted:
  "NUL \<notin> set t \<Longrightarrow> NUL \<notin> set name \<Longrightarrow> length t + length name < 127 \<Longrightarrow>
   warn_lib e (quoted t name) errno = Inr (c7c88e52_printLibError e (t @ name @ [quote]) errno)"
  by (simp add: warn_lib_def message_quoted)

end
