(* ===== verification/IntParse.thy ===== *)
theory IntParse
  imports ErrorReport
begin

text \<open>
  The text-to-integer half of lang/integer.c and lang/long.c. A char is read as the signed byte it
  is in C. The 32-bit parser reports a bad digit and exits, the other parsers abort. Values wrap
  at their width.
\<close>

definition schar :: "char \<Rightarrow> int" where
  "schar ch = (let n = of_char ch in if 128 \<le> n then n - 256 else n)"

definition digit_of :: "char \<Rightarrow> int" where
  "digit_of ch = schar ch - 48"

subsection \<open>Decimal parsers\<close>

text \<open>\<open>source\<close> has been advanced when the error is reported, so the message shows the rest only.\<close>

fun parse_loop32 :: "env \<Rightarrow> string \<Rightarrow> u32 \<Rightarrow> u32 result" where
  "parse_loop32 e [] value = Inr value"
| "parse_loop32 e (ch # source) value =
     (let digit = digit_of ch
      in if digit < 0 \<or> 9 < digit then
           die_error e [Str (''Invalid unsigned integer: '' @ [quote]), Str (ch # source), Chr quote]
         else parse_loop32 e source (value * 10 + of_int digit))"

definition f45efac2_parse_uint32 :: "env \<Rightarrow> string \<Rightarrow> u32 result" where
  "f45efac2_parse_uint32 e source = parse_loop32 e source 0"

fun parse_loop64 :: "string \<Rightarrow> u64 \<Rightarrow> u64 result" where
  "parse_loop64 [] value = Inr value"
| "parse_loop64 (ch # source) value =
     (let digit = digit_of ch
      in if digit < 0 \<or> 9 < digit then Inl Abort
         else parse_loop64 source (value * 10 + of_int digit))"

definition db0acb04_parse_uint64 :: "string \<Rightarrow> u64 result" where
  "db0acb04_parse_uint64 source = parse_loop64 source 0"

text \<open>
  The variant with a length reads the char before it tests the index: \<open>source\<close> is a block, read at
  index 0 and then at every index up to the length.
\<close>

fun parse_ssize_loop :: "char block \<Rightarrow> nat \<Rightarrow> nat \<Rightarrow> char \<Rightarrow> u64 \<Rightarrow> u64 result" where
  "parse_ssize_loop source i 0 ch value = Inr value"
| "parse_ssize_loop source i (Suc n) ch value =
     (let digit = digit_of ch
      in if digit < 0 \<or> 9 < digit then Inl Abort
         else bnd (rd source (Suc i)) (\<lambda>ch'.
              parse_ssize_loop source (Suc i) n ch' (value * 10 + of_int digit)))"

definition db0acb04_parse_uint64_ssize :: "char block \<Rightarrow> int \<Rightarrow> u64 result" where
  "db0acb04_parse_uint64_ssize source len =
     bnd (rd source 0) (\<lambda>ch. parse_ssize_loop source 0 (nat len) ch 0)"

subsection \<open>Hexadecimal parser\<close>

text \<open>\<open>*source | 0x20\<close>; the closing NUL reads as a blank, like a blank itself.\<close>

fun lower_bit :: "char \<Rightarrow> char" where
  "lower_bit (Char b0 b1 b2 b3 b4 b5 b6 b7) = Char b0 b1 b2 b3 b4 True b6 b7"

fun skip_hex_prefix :: "string \<Rightarrow> string" where
  "skip_hex_prefix [] = []"
| "skip_hex_prefix (ch # source) =
     (if lower_bit ch = CHR ''0'' \<or> lower_bit ch = CHR ''x'' then skip_hex_prefix source else ch # source)"

definition hex_digit_of :: "char \<Rightarrow> int" where
  "hex_digit_of ch = (if schar CHR ''a'' \<le> schar ch then schar ch - schar CHR ''a'' + 10 else schar ch - 48)"

fun parse_hex_loop :: "string \<Rightarrow> u32 \<Rightarrow> u32 result" where
  "parse_hex_loop [] value = Inr value"
| "parse_hex_loop (c # source) value =
     (let ch = lower_bit c
      in if ch = CHR '' '' then Inr value
         else let digit = hex_digit_of ch
              in if digit < 0 \<or> 15 < digit then Inl Abort
                 else parse_hex_loop source (push_bit 4 value + of_int digit))"

definition f45efac2_parseHex_uint32 :: "string \<Rightarrow> u32 result" where
  "f45efac2_parseHex_uint32 source = parse_hex_loop (skip_hex_prefix source) 0"

subsection \<open>What a digit string means\<close>

definition is_digit :: "char \<Rightarrow> bool" where
  "is_digit ch \<longleftrightarrow> 0 \<le> digit_of ch \<and> digit_of ch \<le> 9"

definition digits_value :: "string \<Rightarrow> nat" where
  "digits_value s = foldl (\<lambda>v ch. 10 * v + nat (digit_of ch)) 0 s"

lemma digit_of_ascii: "d < 10 \<Longrightarrow> digit_of (ascii_digit d) = int d"
proof -
  have "\<forall>d \<in> set [0..<10]. digit_of (ascii_digit d) = int d" by code_simp
  then show "d < 10 \<Longrightarrow> ?thesis" by simp
qed

lemma is_digit_ascii: "d < 10 \<Longrightarrow> is_digit (ascii_digit d)"
  by (simp add: is_digit_def digit_of_ascii)

lemma foldl_value: "foldl (\<lambda>v ch. 10 * v + nat (digit_of ch)) a s
    = a * 10 ^ length s + digits_value s"
proof (induction s arbitrary: a rule: rev_induct)
  case (snoc c s)
  have "digits_value (s @ [c]) = 10 * digits_value s + nat (digit_of c)" by (simp add: digits_value_def)
  with snoc [of a] show ?case by (simp add: algebra_simps)
qed (simp add: digits_value_def)

lemma parse_loop32_value:
  "\<forall>ch \<in> set s. is_digit ch \<Longrightarrow>
   parse_loop32 e s v = Inr (v * 10 ^ length s + of_nat (digits_value s))"
proof (induction s arbitrary: v)
  case (Cons ch s)
  have "digits_value (ch # s) = nat (digit_of ch) * 10 ^ length s + digits_value s"
    using foldl_value [of "nat (digit_of ch)" s] by (simp add: digits_value_def)
  moreover have "of_int (digit_of ch) = (of_nat (nat (digit_of ch)) :: u32)"
    using Cons.prems by (simp add: is_digit_def)
  ultimately show ?case using Cons by (simp add: is_digit_def Let_def algebra_simps)
qed (simp add: digits_value_def)

lemma parse_loop64_value:
  "\<forall>ch \<in> set s. is_digit ch \<Longrightarrow>
   parse_loop64 s v = Inr (v * 10 ^ length s + of_nat (digits_value s))"
proof (induction s arbitrary: v)
  case (Cons ch s)
  have "digits_value (ch # s) = nat (digit_of ch) * 10 ^ length s + digits_value s"
    using foldl_value [of "nat (digit_of ch)" s] by (simp add: digits_value_def)
  moreover have "of_int (digit_of ch) = (of_nat (nat (digit_of ch)) :: u64)"
    using Cons.prems by (simp add: is_digit_def)
  ultimately show ?case using Cons by (simp add: is_digit_def Let_def algebra_simps)
qed (simp add: digits_value_def)

lemma dec_string_digits: "\<forall>ch \<in> set (dec_string n). is_digit ch"
proof (induction n rule: dec_string.induct)
  case (1 n)
  then show ?case by (cases "n < 10") (auto simp: dec_string.simps [of n] is_digit_ascii)
qed

lemma dec_string_no_NUL: "CHR 0x00 \<notin> set (dec_string n)"
proof -
  have "\<not> is_digit CHR 0x00" by code_simp
  then show ?thesis using dec_string_digits by blast
qed

lemma dec_string_value: "digits_value (dec_string n) = n"
proof (induction n rule: dec_string.induct)
  case (1 n)
  show ?case
  proof (cases "n < 10")
    case True
    then show ?thesis by (simp add: dec_string.simps [of n] digits_value_def digit_of_ascii)
  next
    case False
    have "digits_value (dec_string (n div 10) @ [ascii_digit (n mod 10)]) = 10 * (n div 10) + n mod 10"
      using 1 [OF False] by (simp add: digits_value_def digit_of_ascii)
    then show ?thesis using False by (simp add: dec_string.simps [of n])
  qed
qed

text \<open>Every digit string is read modulo the width.\<close>

lemma parse_uint32_digits:
  "\<forall>ch \<in> set s. is_digit ch \<Longrightarrow> f45efac2_parse_uint32 e s = Inr (of_nat (digits_value s))"
  by (simp add: f45efac2_parse_uint32_def parse_loop32_value)

lemma parse_uint64_digits:
  "\<forall>ch \<in> set s. is_digit ch \<Longrightarrow> db0acb04_parse_uint64 s = Inr (of_nat (digits_value s))"
  by (simp add: db0acb04_parse_uint64_def parse_loop64_value)

lemma parse_ssize_loop_value:
  assumes "holds b (pre @ s @ [z])" and "\<forall>ch \<in> set s. is_digit ch"
  shows "parse_ssize_loop b (length pre) (length s) (hd (s @ [z])) v
           = Inr (v * 10 ^ length s + of_nat (digits_value s))"
  using assms
proof (induction s arbitrary: v pre)
  case (Cons ch s)
  have "digits_value (ch # s) = nat (digit_of ch) * 10 ^ length s + digits_value s"
    using foldl_value [of "nat (digit_of ch)" s] by (simp add: digits_value_def)
  moreover have "of_int (digit_of ch) = (of_nat (nat (digit_of ch)) :: u64)"
    using Cons.prems by (simp add: is_digit_def)
  moreover have "rd b (Suc (length pre)) = Inr (hd (s @ [z]))"
    using holds_rd [OF Cons.prems(1), of "Suc (length pre)"] by (cases s) (auto simp: nth_append)
  moreover have "parse_ssize_loop b (length (pre @ [ch])) (length s) (hd (s @ [z])) w
           = Inr (w * 10 ^ length s + of_nat (digits_value s))" for w
    by (rule Cons.IH) (use Cons.prems in auto)
  ultimately show ?case using Cons.prems by (simp add: is_digit_def Let_def algebra_simps)
qed (simp add: digits_value_def)

lemma parse_uint64_ssize_digits:
  assumes "holds b (s @ [z])" and "\<forall>ch \<in> set s. is_digit ch"
  shows "db0acb04_parse_uint64_ssize b (int (length s)) = Inr (of_nat (digits_value s))"
proof -
  have "rd b 0 = Inr (hd (s @ [z]))"
    using holds_rd [OF assms(1), of 0] by (cases s) auto
  with parse_ssize_loop_value [of b "[]" s z 0] assms show ?thesis
    by (simp add: db0acb04_parse_uint64_ssize_def)
qed

subsection \<open>Round trips\<close>

lemma parse_toString_uint32:
  "bnd (f45efac2_toString_uint32 v) (\<lambda>t. f45efac2_parse_uint32 e (snd t)) = Inr v"
  by (simp add: toString_uint32_dec parse_uint32_digits dec_string_digits dec_string_value)

lemma parse_toString_uint64:
  "bnd (db0acb04_toString_uint64 v) (\<lambda>t. db0acb04_parse_uint64 (snd t)) = Inr v"
  by (simp add: toString_uint64_dec parse_uint64_digits dec_string_digits dec_string_value)

text \<open>Hexadecimal digits.\<close>

lemma hex_digit_char:
  "d < 16 \<Longrightarrow> lower_bit (f6215943_digitHex ! d) = f6215943_digitHex ! d \<and>
             f6215943_digitHex ! d \<noteq> CHR '' '' \<and> hex_digit_of (f6215943_digitHex ! d) = int d \<and>
             f6215943_digitHex ! d \<noteq> CHR ''x'' \<and> (f6215943_digitHex ! d = CHR ''0'' \<longleftrightarrow> d = 0)"
proof -
  have "\<forall>d \<in> set [0..<16]. lower_bit (f6215943_digitHex ! d) = f6215943_digitHex ! d \<and>
             f6215943_digitHex ! d \<noteq> CHR '' '' \<and> hex_digit_of (f6215943_digitHex ! d) = int d \<and>
             f6215943_digitHex ! d \<noteq> CHR ''x'' \<and> (f6215943_digitHex ! d = CHR ''0'' \<longleftrightarrow> d = 0)"
    by code_simp
  then show "d < 16 \<Longrightarrow> ?thesis" by simp
qed

lemma parse_hex_loop_append:
  "parse_hex_loop xs v = Inr w \<Longrightarrow> CHR '' '' \<notin> lower_bit ` set xs \<Longrightarrow>
   parse_hex_loop (xs @ ys) v = parse_hex_loop ys w"
  by (induction xs arbitrary: v) (auto simp: Let_def split: if_splits)

lemma hex_string_digits: "ch \<in> set (hex_string n) \<Longrightarrow> \<exists>d < 16. ch = f6215943_digitHex ! d"
proof (induction n rule: hex_string.induct)
  case (1 n)
  have "n mod 16 < 16" by simp
  with 1 show ?case by (cases "n < 16") (auto simp: hex_string.simps [of n] simp del: mod_less_divisor)
qed

lemma hex_string_no_blank: "CHR '' '' \<notin> lower_bit ` set (hex_string n)"
  using hex_string_digits hex_digit_char by fastforce

lemma parse_hex_string: "parse_hex_loop (hex_string n) 0 = Inr (of_nat n)"
proof (induction n rule: hex_string.induct)
  case (1 n)
  show ?case
  proof (cases "n < 16")
    case True
    then show ?thesis by (simp add: hex_string.simps [of n] hex_digit_char Let_def)
  next
    case False
    have "parse_hex_loop (hex_string (n div 16) @ [f6215943_digitHex ! (n mod 16)]) 0
        = parse_hex_loop [f6215943_digitHex ! (n mod 16)] (of_nat (n div 16))"
      by (rule parse_hex_loop_append [OF 1 [OF False] hex_string_no_blank])
    also have "\<dots> = Inr (push_bit 4 (of_nat (n div 16)) + of_nat (n mod 16))"
      by (simp add: hex_digit_char Let_def)
    also have "push_bit 4 (of_nat (n div 16)) + of_nat (n mod 16) = (of_nat (n div 16 * 16 + n mod 16) :: u32)"
      by (simp only: of_nat_add of_nat_mult) (simp add: push_bit_eq_mult)
    also have "n div 16 * 16 + n mod 16 = n" by (rule div_mult_mod_eq)
    finally show ?thesis using False by (simp add: hex_string.simps [of n])
  qed
qed

lemma hex_string_head: "n \<noteq> 0 \<Longrightarrow> \<exists>d cs. hex_string n = f6215943_digitHex ! d # cs \<and> 0 < d \<and> d < 16"
proof (induction n rule: hex_string.induct)
  case (1 n)
  show ?case
  proof (cases "n < 16")
    case True
    then show ?thesis using 1 by (auto simp: hex_string.simps [of n])
  next
    case False
    then have "n div 16 \<noteq> 0" by simp
    with 1 False obtain d cs where "hex_string (n div 16) = f6215943_digitHex ! d # cs" "0 < d" "d < 16" by blast
    then show ?thesis using False by (auto simp: hex_string.simps [of n])
  qed
qed

lemma skip_zeros: "skip_hex_prefix (replicate k CHR ''0'' @ s) = skip_hex_prefix s"
proof (induction k)
  case (Suc k)
  have "lower_bit CHR ''0'' = CHR ''0''" by code_simp
  with Suc show ?case by simp
qed simp

lemma parse_toStringHex:
  assumes "unat precision < 2 ^ 32 - 4"
  shows "bnd (f45efac2_toStringHex_uint32 v precision) (\<lambda>t. f45efac2_parseHex_uint32 (snd t)) = Inr v"
proof -
  let ?k = "max (unat precision) (length (dec_string (unat v))) - length (hex_string (unat v))"
  have pre: "lower_bit CHR ''0'' = CHR ''0''" "lower_bit CHR ''x'' = CHR ''x''" by code_simp+
  have "parse_hex_loop (skip_hex_prefix (hex_string (unat v))) 0 = Inr v"
  proof (cases "v = 0")
    case True
    then show ?thesis by (simp add: hex_string.simps hex_digit_char f6215943_digitHex_def pre)
  next
    case False
    then obtain d cs where "hex_string (unat v) = f6215943_digitHex ! d # cs" "0 < d" "d < 16"
      using hex_string_head [of "unat v"] by (auto simp: unat_eq_0)
    then have "skip_hex_prefix (hex_string (unat v)) = hex_string (unat v)"
      using hex_digit_char [of d] by simp
    then show ?thesis using parse_hex_string [of "unat v"] by simp
  qed
  then show ?thesis
    by (simp add: toStringHex_text [OF assms] f45efac2_parseHex_uint32_def skip_zeros pre)
qed

subsection \<open>Properties\<close>

text \<open>C21: parsing the text of an unsigned value gives the value back, at both widths.\<close>

theorem decimal_roundtrip:
  "bnd (f45efac2_toString_uint32 v) (\<lambda>t. f45efac2_parse_uint32 e (snd t)) = Inr v \<and>
   bnd (db0acb04_toString_uint64 w) (\<lambda>t. db0acb04_parse_uint64 (snd t)) = Inr w"
  by (simp add: parse_toString_uint32 parse_toString_uint64)

text \<open>Parsing the hexadecimal text of a value gives the value back, whatever the precision pads.\<close>

theorem hex_roundtrip:
  assumes "unat precision < 2 ^ 32 - 4"
  shows "bnd (f45efac2_toStringHex_uint32 v precision) (\<lambda>t. f45efac2_parseHex_uint32 (snd t)) = Inr v"
  using assms by (rule parse_toStringHex)

lemma hex_roundtrip_witness:
  "bnd (f45efac2_toStringHex_uint32 0xBEEF 8) (\<lambda>t. f45efac2_parseHex_uint32 (snd t)) = Inr 0xBEEF"
  by (rule hex_roundtrip) simp

end
