(* ===== verification/HashMap.thy ===== *)
theory HashMap
  imports CString
begin

text \<open>
  adt/hashmap.c: chained hash map over untyped keys and values. A chain of MapEntry structs is the
  list of its entries, so a table cell is such a list and the empty list is NULL. The
  contract of the two function pointers is the locale \<open>keyed\<close>; string keys are its instance.
\<close>

record ('k, 'v) MapEntry =
  me_key :: "'k ptr"
  me_value :: "'v ptr"
  me_hash :: u32

record ('k, 'v) HashMap =
  hm_table :: "('k, 'v) MapEntry list block"
  hm_hashCode :: "'k ptr \<Rightarrow> u32"
  hm_equals :: "'k ptr \<Rightarrow> 'k ptr \<Rightarrow> bool"
  hm_capacity :: u32
  hm_size :: u32
  hm_length :: u32

subsection \<open>The table length\<close>

text \<open>
  \<open>capacity * 1.375f\<close>: the capacity is converted to a float (24 significant bits, ties to even), multiplied,
  rounded again and truncated. \<open>round24\<close> rounds a number to 24 significant bits; the product is
  counted in eighths.
\<close>

fun num_bits :: "nat \<Rightarrow> nat" where
  "num_bits n = (if n = 0 then 0 else Suc (num_bits (n div 2)))"

declare num_bits.simps [simp del]

definition round24 :: "nat \<Rightarrow> nat" where
  "round24 n =
     (if n < 2 ^ 24 then n
      else let e = num_bits n - 24; q = n div 2 ^ e; r = n mod 2 ^ e
           in (if 2 ^ e < 2 * r \<or> (2 * r = 2 ^ e \<and> odd q) then q + 1 else q) * 2 ^ e)"

definition float_scaled :: "u32 \<Rightarrow> u32" where
  "float_scaled capacity = of_nat (round24 (11 * round24 (unat capacity)) div 8)"

definition table_length :: "u32 \<Rightarrow> u32" where
  "table_length capacity =
     (let len = float_scaled capacity in if and len 1 = 0 then len + 1 else len)"

subsection \<open>Create, initialise, clear\<close>

text \<open>createHashMap does not clear the table it allocates; initHashMap does.\<close>

definition c47905f7_createHashMap ::
    "('k ptr \<Rightarrow> u32) \<Rightarrow> ('k ptr \<Rightarrow> 'k ptr \<Rightarrow> bool) \<Rightarrow> u32 \<Rightarrow> ('k, 'v) HashMap result" where
  "c47905f7_createHashMap hashCode equals capacity =
     (let len = table_length capacity
      in bnd (f668c4bd_mallocArray 8 (unat len)) (\<lambda>table.
         Inr \<lparr>hm_table = table, hm_hashCode = hashCode, hm_equals = equals, hm_capacity = capacity,
              hm_size = 0, hm_length = len\<rparr>))"

definition c47905f7_initHashMap ::
    "('k ptr \<Rightarrow> u32) \<Rightarrow> ('k ptr \<Rightarrow> 'k ptr \<Rightarrow> bool) \<Rightarrow> u32 \<Rightarrow> ('k, 'v) HashMap result" where
  "c47905f7_initHashMap hashCode equals capacity =
     (let capacity = push_bit 3 (drop_bit 3 (capacity + 7));
          len = table_length capacity
      in bnd (f668c4bd_mallocArray 8 (unat len)) (\<lambda>table.
         bnd (f668c4bd_meminit [] table 0 (unat len)) (\<lambda>table.
         Inr \<lparr>hm_table = table, hm_hashCode = hashCode, hm_equals = equals, hm_capacity = capacity,
              hm_size = 0, hm_length = len\<rparr>)))"

text \<open>The entries freed by clear, bucket by bucket; every bucket is read before it is emptied.\<close>

primrec clear_loop ::
    "('k, 'v) MapEntry list block \<Rightarrow> nat \<Rightarrow> nat \<Rightarrow>
     (('k, 'v) MapEntry list \<times> ('k, 'v) MapEntry list block) result" where
  "clear_loop table i 0 = Inr ([], table)"
| "clear_loop table i (Suc n) =
     bnd (rd table i) (\<lambda>chain.
     bnd (wr table i []) (\<lambda>table.
     bnd (clear_loop table (Suc i) n) (\<lambda>(freed, table). Inr (chain @ freed, table))))"

definition c47905f7_clear ::
    "('k, 'v) HashMap \<Rightarrow> (('k, 'v) MapEntry list \<times> ('k, 'v) HashMap) result" where
  "c47905f7_clear hashMap =
     bnd (clear_loop (hm_table hashMap) 0 (unat (hm_length hashMap))) (\<lambda>(freed, table).
     Inr (freed, hashMap\<lparr>hm_table := table, hm_size := 0\<rparr>))"

definition c47905f7_destroyHashMap :: "('k, 'v) HashMap \<Rightarrow> ('k, 'v) MapEntry list result" where
  "c47905f7_destroyHashMap hashMap = bnd (c47905f7_clear hashMap) (\<lambda>(freed, _). Inr freed)"

definition c47905f7_cleanUpHashMap :: "('k, 'v) HashMap \<Rightarrow> ('k, 'v) MapEntry list result" where
  "c47905f7_cleanUpHashMap hashMap = bnd (c47905f7_clear hashMap) (\<lambda>(freed, _). Inr freed)"

subsection \<open>Lookup\<close>

definition hm_index :: "('k, 'v) HashMap \<Rightarrow> u32 \<Rightarrow> nat" where
  "hm_index hashMap hash = unat (hash mod hm_length hashMap)"

definition c47905f7_containsKey :: "('k, 'v) HashMap \<Rightarrow> 'k ptr \<Rightarrow> bool result" where
  "c47905f7_containsKey hashMap key =
     bnd (rd (hm_table hashMap) (hm_index hashMap (hm_hashCode hashMap key))) (\<lambda>chain.
     Inr (list_ex (\<lambda>e. hm_equals hashMap (me_key e) key) chain))"

definition c47905f7_get :: "('k, 'v) HashMap \<Rightarrow> 'k ptr \<Rightarrow> 'v ptr result" where
  "c47905f7_get hashMap key =
     bnd (rd (hm_table hashMap) (hm_index hashMap (hm_hashCode hashMap key))) (\<lambda>chain.
     case List.find (\<lambda>e. hm_equals hashMap (me_key e) key) chain of
       Some e \<Rightarrow> Inr (me_value e)
     | None \<Rightarrow> Inr None)"

subsection \<open>Insertion\<close>

text \<open>The rehashing loops of resize: every entry is put at the head of its new chain.\<close>

definition relink ::
    "u32 \<Rightarrow> ('k, 'v) MapEntry list block \<Rightarrow> ('k, 'v) MapEntry \<Rightarrow> ('k, 'v) MapEntry list block result" where
  "relink len table entry =
     (let index = unat (me_hash entry mod len)
      in bnd (rd table index) (\<lambda>chain. wr table index (entry # chain)))"

primrec rehash_loop ::
    "u32 \<Rightarrow> ('k, 'v) MapEntry list block \<Rightarrow> nat \<Rightarrow> nat \<Rightarrow> ('k, 'v) MapEntry list block \<Rightarrow>
     ('k, 'v) MapEntry list block result" where
  "rehash_loop len oldTable i 0 table = Inr table"
| "rehash_loop len oldTable i (Suc n) table =
     bnd (rd oldTable i) (\<lambda>chain.
     bnd (fold_result (relink len) table chain) (\<lambda>table. rehash_loop len oldTable (Suc i) n table))"

definition resize :: "('k, 'v) HashMap \<Rightarrow> u32 \<Rightarrow> (u32 \<times> ('k, 'v) HashMap) result" where
  "resize hashMap hashCode =
     (let oldTable = hm_table hashMap;
          oldLength = hm_length hashMap;
          capacity = push_bit 1 (hm_capacity hashMap);
          len = table_length capacity
      in bnd (f668c4bd_mallocArray 8 (unat len)) (\<lambda>table.
         bnd (f668c4bd_meminit [] table 0 (unat len)) (\<lambda>table.
         bnd (rehash_loop len oldTable 0 (unat oldLength) table) (\<lambda>table.
         Inr (hashCode mod len,
              hashMap\<lparr>hm_table := table, hm_capacity := capacity, hm_length := len\<rparr>)))))"

text \<open>The first entry with an equal key gets the new value; its old value is returned.\<close>

fun replace_value ::
    "('k ptr \<Rightarrow> 'k ptr \<Rightarrow> bool) \<Rightarrow> 'k ptr \<Rightarrow> 'v ptr \<Rightarrow> ('k, 'v) MapEntry list \<Rightarrow>
     ('v ptr \<times> ('k, 'v) MapEntry list) option" where
  "replace_value equals key v [] = None"
| "replace_value equals key v (e # chain) =
     (if equals (me_key e) key then Some (me_value e, e\<lparr>me_value := v\<rparr> # chain)
      else map_option (\<lambda>(old, chain). (old, e # chain)) (replace_value equals key v chain))"

definition c47905f7_put ::
    "('k, 'v) HashMap \<Rightarrow> 'k ptr \<Rightarrow> 'v ptr \<Rightarrow> ('v ptr \<times> ('k, 'v) HashMap) result" where
  "c47905f7_put hashMap key v =
     (let hashCode = hm_hashCode hashMap key;
          i = hashCode mod hm_length hashMap
      in bnd (rd (hm_table hashMap) (unat i)) (\<lambda>chain.
         case replace_value (hm_equals hashMap) key v chain of
           Some (old, chain) \<Rightarrow>
             bnd (wr (hm_table hashMap) (unat i) chain) (\<lambda>table.
             Inr (old, hashMap\<lparr>hm_table := table\<rparr>))
         | None \<Rightarrow>
             let full = (hm_size hashMap = hm_capacity hashMap);
                 hashMap = hashMap\<lparr>hm_size := hm_size hashMap + 1\<rparr>
             in bnd (if full then resize hashMap hashCode else Inr (i, hashMap)) (\<lambda>(i, hashMap).
                bnd (rd (hm_table hashMap) (unat i)) (\<lambda>chain.
                bnd (wr (hm_table hashMap) (unat i)
                       (\<lparr>me_key = key, me_value = v, me_hash = hashCode\<rparr> # chain)) (\<lambda>table.
                Inr (None, hashMap\<lparr>hm_table := table\<rparr>))))))"

text \<open>Keys and values alternate in the array; in the stack the value comes first.\<close>

fun c47905f7_putAll ::
    "('k, 'v) HashMap \<Rightarrow> ('k ptr \<times> 'v ptr) list \<Rightarrow> ('k, 'v) HashMap result" where
  "c47905f7_putAll hashMap [] = Inr hashMap"
| "c47905f7_putAll hashMap ((key, v) # elementArray) =
     bnd (c47905f7_put hashMap key v) (\<lambda>(_, hashMap). c47905f7_putAll hashMap elementArray)"

fun c47905f7_putFromStack ::
    "('k, 'v) HashMap \<Rightarrow> ('v ptr \<times> 'k ptr) list \<Rightarrow> ('k, 'v) HashMap result" where
  "c47905f7_putFromStack hashMap [] = Inr hashMap"
| "c47905f7_putFromStack hashMap ((v, key) # stk) =
     bnd (c47905f7_put hashMap key v) (\<lambda>(_, hashMap). c47905f7_putFromStack hashMap stk)"

subsection \<open>Removal\<close>

fun unlink ::
    "('k ptr \<Rightarrow> 'k ptr \<Rightarrow> bool) \<Rightarrow> 'k ptr \<Rightarrow> ('k, 'v) MapEntry list \<Rightarrow>
     ('v ptr \<times> ('k, 'v) MapEntry list) option" where
  "unlink equals key [] = None"
| "unlink equals key (e # chain) =
     (if equals (me_key e) key then Some (me_value e, chain)
      else map_option (\<lambda>(old, chain). (old, e # chain)) (unlink equals key chain))"

definition c47905f7_remove ::
    "('k, 'v) HashMap \<Rightarrow> 'k ptr \<Rightarrow> ('v ptr \<times> ('k, 'v) HashMap) result" where
  "c47905f7_remove hashMap key =
     (let i = unat (hm_hashCode hashMap key mod hm_length hashMap)
      in bnd (rd (hm_table hashMap) i) (\<lambda>chain.
         case unlink (hm_equals hashMap) key chain of
           Some (v, chain) \<Rightarrow>
             bnd (wr (hm_table hashMap) i chain) (\<lambda>table.
             Inr (v, hashMap\<lparr>hm_table := table, hm_size := hm_size hashMap - 1\<rparr>))
         | None \<Rightarrow> Inr (None, hashMap)))"

subsection \<open>Buckets\<close>

definition bucket_of :: "('k ptr \<Rightarrow> u32) \<Rightarrow> 'e list list \<Rightarrow> 'k ptr \<Rightarrow> nat" where
  "bucket_of H bs key = unat (H key) mod length bs"

definition wf_buckets ::
    "('k ptr \<Rightarrow> u32) \<Rightarrow> ('k ptr \<Rightarrow> 'k ptr \<Rightarrow> bool) \<Rightarrow> ('k, 'v) MapEntry list list \<Rightarrow> bool" where
  "wf_buckets H EQ bs \<longleftrightarrow> bs \<noteq> [] \<and>
     (\<forall>i < length bs. (\<forall>e \<in> set (bs ! i). me_hash e = H (me_key e) \<and> bucket_of H bs (me_key e) = i) \<and>
        sorted_wrt (\<lambda>a b. \<not> EQ (me_key a) (me_key b)) (bs ! i))"

definition lookup_in ::
    "('k ptr \<Rightarrow> u32) \<Rightarrow> ('k ptr \<Rightarrow> 'k ptr \<Rightarrow> bool) \<Rightarrow> ('k, 'v) MapEntry list list \<Rightarrow> 'k ptr \<Rightarrow> 'v ptr option" where
  "lookup_in H EQ bs key =
     map_option me_value (List.find (\<lambda>e. EQ (me_key e) key) (bs ! bucket_of H bs key))"

text \<open>
  \<open>hm_rep m M\<close>: the map is well formed for its own hash and equality functions and stands for the
  function \<open>M\<close> from keys to values.
\<close>

definition hm_rep :: "('k, 'v) HashMap \<Rightarrow> ('k ptr \<Rightarrow> 'v ptr option) \<Rightarrow> bool" where
  "hm_rep m M \<longleftrightarrow> (\<exists>bs. wf_buckets (hm_hashCode m) (hm_equals m) bs \<and> holds (hm_table m) bs \<and>
     length bs = unat (hm_length m) \<and> M = lookup_in (hm_hashCode m) (hm_equals m) bs)"

lemma find_replace:
  "List.find P xs = None \<longleftrightarrow> (\<forall>x \<in> set xs. \<not> P x)"
  by (induction xs) auto

lemma replace_value_None: "replace_value EQ key v chain = None \<longleftrightarrow> (\<forall>e \<in> set chain. \<not> EQ (me_key e) key)"
  by (induction chain) auto

lemma replace_value_Some:
  "replace_value EQ key v chain = Some (old, chain') \<Longrightarrow>
   \<exists>pre e post. chain = pre @ e # post \<and> chain' = pre @ e\<lparr>me_value := v\<rparr> # post \<and> old = me_value e \<and>
     EQ (me_key e) key \<and> (\<forall>x \<in> set pre. \<not> EQ (me_key x) key)"
proof (induction chain arbitrary: chain')
  case (Cons e chain)
  show ?case
  proof (cases "EQ (me_key e) key")
    case True
    with Cons.prems show ?thesis by (intro exI [of _ "[]"]) auto
  next
    case False
    with Cons.prems obtain c where c: "replace_value EQ key v chain = Some (old, c)" "chain' = e # c" by auto
    from Cons.IH [OF c(1)] obtain pre e' post where "chain = pre @ e' # post"
      "c = pre @ e'\<lparr>me_value := v\<rparr> # post" "old = me_value e'" "EQ (me_key e') key"
      "\<forall>x \<in> set pre. \<not> EQ (me_key x) key" by blast
    with False c(2) show ?thesis by (intro exI [of _ "e # pre"] exI [of _ e'] exI [of _ post]) auto
  qed
qed simp

lemma unlink_None: "unlink EQ key chain = None \<longleftrightarrow> (\<forall>e \<in> set chain. \<not> EQ (me_key e) key)"
  by (induction chain) auto

lemma unlink_Some:
  "unlink EQ key chain = Some (old, chain') \<Longrightarrow>
   \<exists>pre e post. chain = pre @ e # post \<and> chain' = pre @ post \<and> old = me_value e \<and>
     EQ (me_key e) key \<and> (\<forall>x \<in> set pre. \<not> EQ (me_key x) key)"
proof (induction chain arbitrary: chain')
  case (Cons e chain)
  show ?case
  proof (cases "EQ (me_key e) key")
    case True
    with Cons.prems show ?thesis by (intro exI [of _ "[]"]) auto
  next
    case False
    with Cons.prems obtain c where c: "unlink EQ key chain = Some (old, c)" "chain' = e # c" by auto
    from Cons.IH [OF c(1)] obtain pre e' post where "chain = pre @ e' # post"
      "c = pre @ post" "old = me_value e'" "EQ (me_key e') key"
      "\<forall>x \<in> set pre. \<not> EQ (me_key x) key" by blast
    with False c(2) show ?thesis by (intro exI [of _ "e # pre"] exI [of _ e'] exI [of _ post]) auto
  qed
qed simp

lemma find_append: "List.find P (xs @ ys) = (case List.find P xs of None \<Rightarrow> List.find P ys | Some x \<Rightarrow> Some x)"
  by (induction xs) auto

lemma unat_mod_word: "unat ((a::u32) mod b) = unat a mod unat b"
  by (simp add: unat_mod)

lemma hm_index_bucket:
  "length bs = unat (hm_length m) \<Longrightarrow> hm_index m (H key) = bucket_of H bs key"
  by (simp add: hm_index_def bucket_of_def unat_mod_word)

lemma holds_update: "holds b bs \<Longrightarrow> i < length bs \<Longrightarrow> holds (b[i := Some x]) (bs[i := x])"
  by (auto simp: holds_iff_nth nth_list_update)

text \<open>Replacing one bucket by a chain that is still well formed.\<close>

lemma wf_buckets_update:
  assumes "wf_buckets H EQ bs" and "i < length bs"
    and "\<And>e. e \<in> set c \<Longrightarrow> me_hash e = H (me_key e) \<and> bucket_of H bs (me_key e) = i"
    and "sorted_wrt (\<lambda>a b. \<not> EQ (me_key a) (me_key b)) c"
  shows "wf_buckets H EQ (bs[i := c])"
  using assms by (auto simp: wf_buckets_def bucket_of_def nth_list_update)

lemma wf_bucketD:
  assumes "wf_buckets H EQ bs" and "i < length bs"
  shows "e \<in> set (bs ! i) \<Longrightarrow> me_hash e = H (me_key e) \<and> bucket_of H bs (me_key e) = i"
    and "sorted_wrt (\<lambda>a b. \<not> EQ (me_key a) (me_key b)) (bs ! i)"
  using assms by (auto simp: wf_buckets_def)

lemma bucket_less: "wf_buckets H EQ bs \<Longrightarrow> bucket_of H bs key < length bs"
  by (simp add: wf_buckets_def bucket_of_def)

subsection \<open>The contract of hash and equality functions\<close>

locale keyed =
  fixes H :: "'k ptr \<Rightarrow> u32" and EQ :: "'k ptr \<Rightarrow> 'k ptr \<Rightarrow> bool"
  assumes eq_refl: "EQ a a"
    and eq_sym: "EQ a b \<Longrightarrow> EQ b a"
    and eq_trans: "EQ a b \<Longrightarrow> EQ b c \<Longrightarrow> EQ a c"
    and eq_hash: "EQ a b \<Longrightarrow> H a = H b"
begin

lemma eq_iff: "EQ a b \<Longrightarrow> EQ a c \<longleftrightarrow> EQ b c"
  using eq_sym eq_trans by blast

lemma eq_bucket: "EQ a b \<Longrightarrow> bucket_of H bs a = bucket_of H bs b"
  by (simp add: bucket_of_def eq_hash)

lemma lookup_update_other:
  "i \<noteq> bucket_of H bs key \<Longrightarrow> lookup_in H EQ (bs[i := c]) key = lookup_in H EQ bs key"
  by (simp add: lookup_in_def bucket_of_def)

lemma lookup_update_same:
  "i = bucket_of H bs key \<Longrightarrow> i < length bs \<Longrightarrow>
   lookup_in H EQ (bs[i := c]) key = map_option me_value (List.find (\<lambda>e. EQ (me_key e) key) c)"
  by (simp add: lookup_in_def bucket_of_def)

lemma lookup_replace:
  assumes wf: "wf_buckets H EQ bs" and i: "i = bucket_of H bs key"
    and r: "replace_value EQ key v (bs ! i) = Some (old, c)"
  shows "wf_buckets H EQ (bs[i := c])" and "lookup_in H EQ bs key = Some old"
    and "lookup_in H EQ (bs[i := c]) = (\<lambda>k. if EQ key k then Some v else lookup_in H EQ bs k)"
proof -
  have ib: "i < length bs" using bucket_less [OF wf] i by simp
  note B = wf_bucketD [OF wf ib]
  from replace_value_Some [OF r] obtain pre e post where c: "bs ! i = pre @ e # post"
    "c = pre @ e\<lparr>me_value := v\<rparr> # post" "old = me_value e" "EQ (me_key e) key"
    "\<forall>x \<in> set pre. \<not> EQ (me_key x) key" by blast
  have nf: "List.find (\<lambda>x. EQ (me_key x) k) pre = None" if "EQ key k" for k
    using c(5) that eq_sym eq_trans unfolding find_replace by blast
  show "wf_buckets H EQ (bs[i := c])"
    using wf ib by (rule wf_buckets_update) (use B c(1,2) in \<open>auto simp: sorted_wrt_append\<close>)
  show "lookup_in H EQ bs key = Some old"
    using nf [OF eq_refl] c by (simp add: lookup_in_def i [symmetric] find_append)
  show "lookup_in H EQ (bs[i := c]) = (\<lambda>k. if EQ key k then Some v else lookup_in H EQ bs k)"
  proof
    fix k
    show "lookup_in H EQ (bs[i := c]) k = (if EQ key k then Some v else lookup_in H EQ bs k)"
    proof (cases "EQ key k")
      case True
      then have "i = bucket_of H bs k" "EQ (me_key e) k" using i eq_bucket c(4) eq_trans by blast+
      then show ?thesis
        using True ib nf [OF True] c(2) by (simp add: lookup_update_same find_append)
    next
      case False
      then have "\<not> EQ (me_key e) k" using c(4) eq_sym eq_trans by blast
      then have "i = bucket_of H bs k \<Longrightarrow>
          map_option me_value (List.find (\<lambda>x. EQ (me_key x) k) c) = lookup_in H EQ bs k"
        using c(1,2) by (simp add: lookup_in_def find_append split: option.split)
      then show ?thesis
        using False ib by (cases "i = bucket_of H bs k") (simp_all add: lookup_update_same lookup_update_other)
    qed
  qed
qed

lemma lookup_push:
  assumes wf: "wf_buckets H EQ bs" and i: "i = bucket_of H bs (me_key e)" and h: "me_hash e = H (me_key e)"
    and new: "\<forall>x \<in> set (bs ! i). \<not> EQ (me_key x) (me_key e)"
  shows "wf_buckets H EQ (bs[i := e # bs ! i])" and "lookup_in H EQ bs (me_key e) = None"
    and "lookup_in H EQ (bs[i := e # bs ! i])
           = (\<lambda>k. if EQ (me_key e) k then Some (me_value e) else lookup_in H EQ bs k)"
proof -
  have ib: "i < length bs" using bucket_less [OF wf] i by simp
  note B = wf_bucketD [OF wf ib]
  show "wf_buckets H EQ (bs[i := e # bs ! i])"
    using wf ib by (rule wf_buckets_update) (use B i h new eq_sym in auto)
  show "lookup_in H EQ bs (me_key e) = None"
    using new i find_replace [of "\<lambda>x. EQ (me_key x) (me_key e)" "bs ! i"] by (simp add: lookup_in_def)
  show "lookup_in H EQ (bs[i := e # bs ! i])
           = (\<lambda>k. if EQ (me_key e) k then Some (me_value e) else lookup_in H EQ bs k)"
  proof
    fix k
    show "lookup_in H EQ (bs[i := e # bs ! i]) k
           = (if EQ (me_key e) k then Some (me_value e) else lookup_in H EQ bs k)"
    proof (cases "i = bucket_of H bs k")
      case True
      then show ?thesis using ib by (simp add: lookup_update_same) (simp add: lookup_in_def)
    next
      case False
      then have "\<not> EQ (me_key e) k" using i eq_bucket by blast
      then show ?thesis using False by (simp add: lookup_update_other)
    qed
  qed
qed

lemma lookup_unlink:
  assumes wf: "wf_buckets H EQ bs" and i: "i = bucket_of H bs key"
    and r: "unlink EQ key (bs ! i) = Some (old, c)"
  shows "wf_buckets H EQ (bs[i := c])" and "lookup_in H EQ bs key = Some old"
    and "lookup_in H EQ (bs[i := c]) = (\<lambda>k. if EQ key k then None else lookup_in H EQ bs k)"
proof -
  have ib: "i < length bs" using bucket_less [OF wf] i by simp
  note B = wf_bucketD [OF wf ib]
  from unlink_Some [OF r] obtain pre e post where c: "bs ! i = pre @ e # post"
    "c = pre @ post" "old = me_value e" "EQ (me_key e) key"
    "\<forall>x \<in> set pre. \<not> EQ (me_key x) key" by blast
  have nf: "List.find (\<lambda>x. EQ (me_key x) k) pre = None" if "EQ key k" for k
    using c(5) that eq_sym eq_trans unfolding find_replace by blast
  have nf': "List.find (\<lambda>x. EQ (me_key x) k) post = None" if "EQ key k" for k
  proof -
    have "EQ (me_key e) k" using c(4) that eq_trans by blast
    moreover have "\<forall>x \<in> set post. \<not> EQ (me_key e) (me_key x)"
      using B(2) c(1) by (simp add: sorted_wrt_append)
    ultimately show ?thesis using eq_sym eq_trans unfolding find_replace by blast
  qed
  show "wf_buckets H EQ (bs[i := c])"
    using wf ib by (rule wf_buckets_update) (use B c(1,2) in \<open>auto simp: sorted_wrt_append\<close>)
  show "lookup_in H EQ bs key = Some old"
    using nf [OF eq_refl] c by (simp add: lookup_in_def i [symmetric] find_append)
  show "lookup_in H EQ (bs[i := c]) = (\<lambda>k. if EQ key k then None else lookup_in H EQ bs k)"
  proof
    fix k
    show "lookup_in H EQ (bs[i := c]) k = (if EQ key k then None else lookup_in H EQ bs k)"
    proof (cases "EQ key k")
      case True
      then have "i = bucket_of H bs k" using i eq_bucket by blast
      then show ?thesis
        using True ib nf [OF True] nf' [OF True] c(2) by (simp add: lookup_update_same find_append)
    next
      case False
      then have "\<not> EQ (me_key e) k" using c(4) eq_sym eq_trans by blast
      then have "i = bucket_of H bs k \<Longrightarrow>
          map_option me_value (List.find (\<lambda>x. EQ (me_key x) k) c) = lookup_in H EQ bs k"
        using c(1,2) by (simp add: lookup_in_def find_append split: option.split)
      then show ?thesis
        using False ib by (cases "i = bucket_of H bs k") (simp_all add: lookup_update_same lookup_update_other)
    qed
  qed
qed

text \<open>All entries of a well-formed table have pairwise unequal keys, so lookup is membership.\<close>

lemma entries_distinct:
  assumes "wf_buckets H EQ bs"
  shows "sorted_wrt (\<lambda>a b. \<not> EQ (me_key a) (me_key b)) (concat bs)"
proof -
  have "n \<le> length bs \<Longrightarrow> sorted_wrt (\<lambda>a b. \<not> EQ (me_key a) (me_key b)) (concat (take n bs))" for n
  proof (induction n)
    case (Suc n)
    have sep: "\<not> EQ (me_key a) (me_key b)" if "a \<in> set (concat (take n bs))" "b \<in> set (bs ! n)" for a b
    proof
      assume "EQ (me_key a) (me_key b)"
      then have "bucket_of H bs (me_key a) = bucket_of H bs (me_key b)" by (rule eq_bucket)
      moreover have "bucket_of H bs (me_key b) = n" using wf_bucketD(1) [OF assms, of n b] Suc.prems that by auto
      moreover from that(1) obtain b' where "b' \<in> set (take n bs)" "a \<in> set b'" by auto
      then obtain j where "j < length (take n bs)" "take n bs ! j = b'" unfolding in_set_conv_nth by blast
      then have "j < n" "a \<in> set (bs ! j)" using \<open>a \<in> set b'\<close> by auto
      moreover from this have "bucket_of H bs (me_key a) = j" using wf_bucketD(1) [OF assms, of j a] Suc.prems by auto
      ultimately show False by simp
    qed
    then show ?case
      using Suc wf_bucketD(2) [OF assms, of n]
      by (simp add: take_Suc_conv_app_nth sorted_wrt_append)
  qed simp
  from this [of "length bs"] show ?thesis by simp
qed

lemma find_unique:
  assumes "sorted_wrt (\<lambda>a b. \<not> EQ (me_key a) (me_key b)) es" and "e \<in> set es" and "EQ (me_key e) key"
  shows "List.find (\<lambda>x. EQ (me_key x) key) es = Some e"
  using assms
proof (induction es)
  case (Cons x es)
  show ?case
  proof (cases "EQ (me_key x) key")
    case True
    then have "EQ (me_key x) (me_key e)" using Cons.prems(3) eq_sym eq_trans by blast
    then have "e = x" using Cons.prems(1,2) by auto
    then show ?thesis using True by simp
  next
    case False
    then show ?thesis using Cons by auto
  qed
qed simp

lemma lookup_entries:
  assumes wf: "wf_buckets H EQ bs"
  shows "lookup_in H EQ bs key = Some v \<longleftrightarrow> (\<exists>e \<in> set (concat bs). EQ (me_key e) key \<and> me_value e = v)"
proof -
  let ?i = "bucket_of H bs key"
  have i: "?i < length bs" using wf by (rule bucket_less)
  note B = wf_bucketD [OF wf i]
  have in_bucket: "e \<in> set (bs ! ?i)" if e: "e \<in> set (concat bs)" "EQ (me_key e) key" for e
  proof -
    from e(1) obtain b' where "b' \<in> set bs" "e \<in> set b'" by auto
    then obtain j where j: "j < length bs" "e \<in> set (bs ! j)" unfolding in_set_conv_nth [of b'] by blast
    then have "bucket_of H bs (me_key e) = j" using wf_bucketD(1) [OF wf] by blast
    then show ?thesis using e(2) j eq_bucket by metis
  qed
  have up: "e \<in> set (bs ! ?i) \<Longrightarrow> e \<in> set (concat bs)" for e using i by auto
  show ?thesis
  proof
    assume "lookup_in H EQ bs key = Some v"
    then obtain e where e: "List.find (\<lambda>e. EQ (me_key e) key) (bs ! ?i) = Some e" "me_value e = v"
      by (auto simp: lookup_in_def)
    from e(1) have "e \<in> set (bs ! ?i)" "EQ (me_key e) key" by (auto simp: find_Some_iff)
    with up e(2) show "\<exists>e \<in> set (concat bs). EQ (me_key e) key \<and> me_value e = v" by blast
  next
    assume "\<exists>e \<in> set (concat bs). EQ (me_key e) key \<and> me_value e = v"
    then obtain e where "e \<in> set (bs ! ?i)" "EQ (me_key e) key" "me_value e = v" using in_bucket by blast
    then show "lookup_in H EQ bs key = Some v" using find_unique [OF B(2)] by (simp add: lookup_in_def)
  qed
qed

lemma same_entries_same_lookup:
  assumes "wf_buckets H EQ bs" and "wf_buckets H EQ cs" and "set (concat bs) = set (concat cs)"
  shows "lookup_in H EQ bs = lookup_in H EQ cs"
proof
  fix key
  have "lookup_in H EQ bs key = Some v \<longleftrightarrow> lookup_in H EQ cs key = Some v" for v
    unfolding lookup_entries [OF assms(1)] lookup_entries [OF assms(2)] assms(3) ..
  then show "lookup_in H EQ bs key = lookup_in H EQ cs key" by (metis option.exhaust)
qed

text \<open>The rehashing loops keep all entries.\<close>

lemma relink_list:
  assumes "wf_buckets H EQ bs" and "holds t bs" and "length bs = unat len" and "me_hash e = H (me_key e)"
    and "\<forall>x \<in> set (concat bs). \<not> EQ (me_key x) (me_key e)"
  shows "\<exists>bs' t'. relink len t e = Inr t' \<and> holds t' bs' \<and> length t' = length t \<and> wf_buckets H EQ bs' \<and>
           length bs' = length bs \<and> set (concat bs') = insert e (set (concat bs))"
proof -
  let ?i = "bucket_of H bs (me_key e)"
  have i: "?i < length bs" using assms(1) by (rule bucket_less)
  have idx: "unat (me_hash e mod len) = ?i" using assms(3,4) by (simp add: unat_mod_word bucket_of_def)
  have lt: "?i < length t" using i holds_length [OF assms(2)] by simp
  let ?bs = "bs[?i := e # bs ! ?i]"
  have "relink len t e = Inr (t[?i := Some (e # bs ! ?i)])"
    using holds_rd [OF assms(2) i] lt by (simp add: relink_def idx wr_ok Let_def)
  moreover have "holds (t[?i := Some (e # bs ! ?i)]) ?bs" using assms(2) i by (rule holds_update)
  moreover have "wf_buckets H EQ ?bs"
    using assms i by (intro lookup_push(1)) auto
  moreover have "set (concat ?bs) = insert e (set (concat bs))"
  proof -
    have "concat ?bs = concat (take ?i bs) @ (e # bs ! ?i) @ concat (drop (Suc ?i) bs)"
      using i by (simp add: upd_conv_take_nth_drop)
    moreover have "concat bs = concat (take ?i bs) @ bs ! ?i @ concat (drop (Suc ?i) bs)"
      by (subst id_take_nth_drop [OF i]) simp
    ultimately show ?thesis by (simp only: set_append list.set) blast
  qed
  ultimately show ?thesis by (intro exI [of _ ?bs]) simp
qed

lemma fold_relink:
  assumes "wf_buckets H EQ bs" and "holds t bs" and "length bs = unat len"
    and "sorted_wrt (\<lambda>a b. \<not> EQ (me_key a) (me_key b)) es" and "\<forall>e \<in> set es. me_hash e = H (me_key e)"
    and "\<forall>x \<in> set (concat bs). \<forall>e \<in> set es. \<not> EQ (me_key x) (me_key e)"
  shows "\<exists>bs' t'. fold_result (relink len) t es = Inr t' \<and> holds t' bs' \<and> wf_buckets H EQ bs' \<and>
           length bs' = length bs \<and> set (concat bs') = set es \<union> set (concat bs)"
  using assms
proof (induction es arbitrary: bs t)
  case (Cons e es)
  from relink_list [OF Cons.prems(1-3), of e] Cons.prems(5,6) obtain b1 t1 where 1:
    "relink len t e = Inr t1" "holds t1 b1" "wf_buckets H EQ b1" "length b1 = length bs"
    "set (concat b1) = insert e (set (concat bs))" by auto
  have "\<exists>bs' t'. fold_result (relink len) t1 es = Inr t' \<and> holds t' bs' \<and> wf_buckets H EQ bs' \<and>
           length bs' = length b1 \<and> set (concat bs') = set es \<union> set (concat b1)"
    by (rule Cons.IH [OF 1(3,2)]) (use Cons.prems(3-6) 1(4) in \<open>auto simp only: 1(5) sorted_wrt.simps set_simps insert_iff\<close>)
  then show ?case using 1 by auto
qed auto

lemma rehash_list:
  assumes "wf_buckets H EQ old" and "holds ot old" and "wf_buckets H EQ bs" and "holds t bs"
    and "length bs = unat len" and "n \<le> length old"
    and "set (concat bs) = set (concat (take (length old - n) old))"
  shows "\<exists>bs' t'. rehash_loop len ot (length old - n) n t = Inr t' \<and> holds t' bs' \<and>
           wf_buckets H EQ bs' \<and> length bs' = length bs \<and> set (concat bs') = set (concat old)"
  using assms(3-)
proof (induction n arbitrary: bs t)
  case (Suc n)
  let ?i = "length old - Suc n"
  have i: "?i < length old" and next_i: "length old - n = Suc ?i" using Suc.prems(4) by auto
  have split: "take (Suc ?i) old = take ?i old @ [old ! ?i]" using i by (rule take_Suc_conv_app_nth)
  have sorted: "sorted_wrt (\<lambda>a b. \<not> EQ (me_key a) (me_key b)) (concat (take (Suc ?i) old))"
    using entries_distinct [OF assms(1)] concat_append [of "take (Suc ?i) old" "drop (Suc ?i) old"]
    by (simp add: sorted_wrt_append)
  have "\<forall>x \<in> set (concat bs). \<forall>e \<in> set (old ! ?i). \<not> EQ (me_key x) (me_key e)"
    using sorted unfolding split Suc.prems(5) by (simp add: sorted_wrt_append)
  then obtain b1 t1 where 1: "fold_result (relink len) t (old ! ?i) = Inr t1" "holds t1 b1"
    "wf_buckets H EQ b1" "length b1 = length bs" "set (concat b1) = set (old ! ?i) \<union> set (concat bs)"
    using fold_relink [OF Suc.prems(1-3) wf_bucketD(2) [OF assms(1) i]] wf_bucketD(1) [OF assms(1) i] by blast
  have "set (concat b1) = set (concat (take (length old - n) old))"
    unfolding 1(5) next_i split Suc.prems(5) by auto
  then obtain bs' t' where "rehash_loop len ot (Suc ?i) n t1 = Inr t'" "holds t' bs'"
    "wf_buckets H EQ bs'" "length bs' = length b1" "set (concat bs') = set (concat old)"
    using Suc.IH [OF 1(3,2)] 1(4) Suc.prems(3,4) next_i by auto
  then show ?case using holds_rd [OF assms(2) i] 1(1,4) by (intro exI [of _ bs'] exI [of _ t']) simp
qed auto

lemma fresh_table:
  "\<exists>t t'. f668c4bd_mallocArray 8 (unat (len::u32)) = Inr t \<and>
     f668c4bd_meminit [] t 0 (unat len) = Inr t' \<and> holds t' (replicate (unat len) [])"
proof -
  show ?thesis by (auto simp: mallocArray8_cells f668c4bd_meminit_def holds_def)
qed

lemma table_length_pos: "table_length c \<noteq> 0"
proof
  assume "table_length c = 0"
  then have z: "(if and (float_scaled c) 1 = 0 then float_scaled c + 1 else float_scaled c) = 0"
    by (simp add: table_length_def Let_def)
  show False
  proof (cases "and (float_scaled c) 1 = 0")
    case True
    then have "float_scaled c = -1" using z by (simp add: eq_neg_iff_add_eq_0)
    with True show False by simp
  next
    case False
    with z show False by simp
  qed
qed

lemma wf_empty: "0 < n \<Longrightarrow> wf_buckets H EQ (replicate n [])"
  by (auto simp: wf_buckets_def)

lemma lookup_empty: "0 < n \<Longrightarrow> lookup_in H EQ (replicate n []) = (\<lambda>_. None)"
  by (rule ext) (simp add: lookup_in_def bucket_of_def)

lemma resize_rep:
  assumes rep: "hm_rep (m :: ('k, 'v) HashMap) M" and f: "hm_hashCode m = H" "hm_equals m = EQ"
  shows "\<exists>m'. resize m h = Inr (h mod hm_length m', m') \<and> hm_rep m' M \<and>
           hm_hashCode m' = H \<and> hm_equals m' = EQ \<and> hm_size m' = hm_size m"
proof -
  from rep f obtain bs where bs: "wf_buckets H EQ bs" "holds (hm_table m) bs" "length bs = unat (hm_length m)"
    "M = lookup_in H EQ bs" by (auto simp: hm_rep_def)
  let ?len = "table_length (push_bit 1 (hm_capacity m))"
  have pos: "0 < unat ?len" using table_length_pos by (simp add: unat_gt_0)
  obtain t t' :: "('k, 'v) MapEntry list block" where t: "f668c4bd_mallocArray 8 (unat ?len) = Inr t"
    "f668c4bd_meminit [] t 0 (unat ?len) = Inr t'" "holds t' (replicate (unat ?len) [])"
    using fresh_table [of ?len] by blast
  obtain cs t'' where r: "rehash_loop ?len (hm_table m) 0 (length bs) t' = Inr t''" "holds t'' cs"
    "wf_buckets H EQ cs" "length cs = unat ?len" "set (concat cs) = set (concat bs)"
    using rehash_list [OF bs(1,2) wf_empty [OF pos] t(3), of ?len "length bs"] by auto
  have "lookup_in H EQ cs = M" using same_entries_same_lookup [OF r(3) bs(1) r(5)] bs(4) by simp
  then have "hm_rep (m\<lparr>hm_table := t'', hm_capacity := push_bit 1 (hm_capacity m), hm_length := ?len\<rparr>) M"
    unfolding hm_rep_def using r f by (intro exI [of _ cs]) simp
  then show ?thesis
    using t(1,2) r(1) bs(3) f by (simp add: resize_def Let_def)
qed

lemma get_rep:
  assumes "hm_rep m M" and f: "hm_hashCode m = H" "hm_equals m = EQ"
  shows "c47905f7_get m key = Inr (case M key of None \<Rightarrow> None | Some v \<Rightarrow> v)"
    and "c47905f7_containsKey m key = Inr (M key \<noteq> None)"
proof -
  from assms obtain bs where bs: "wf_buckets H EQ bs" "holds (hm_table m) bs" "length bs = unat (hm_length m)"
    "M = lookup_in H EQ bs" by (auto simp: hm_rep_def)
  have rd: "rd (hm_table m) (hm_index m (H key)) = Inr (bs ! bucket_of H bs key)"
    unfolding hm_index_bucket [OF bs(3), of H key] using bs(2) bucket_less [OF bs(1)] by (rule holds_rd)
  then show "c47905f7_get m key = Inr (case M key of None \<Rightarrow> None | Some v \<Rightarrow> v)"
    using f bs(4) by (simp add: c47905f7_get_def lookup_in_def split: option.split)
  show "c47905f7_containsKey m key = Inr (M key \<noteq> None)"
    using rd f bs(4) by (simp add: c47905f7_containsKey_def lookup_in_def list_ex_iff find_replace)
qed

lemma put_rep:
  assumes rep: "hm_rep m M" and f: "hm_hashCode m = H" "hm_equals m = EQ"
  shows "\<exists>m'. c47905f7_put m key v = Inr (case M key of None \<Rightarrow> None | Some old \<Rightarrow> old, m') \<and>
           hm_rep m' (\<lambda>k. if EQ key k then Some v else M k) \<and> hm_hashCode m' = H \<and> hm_equals m' = EQ"
proof -
  from assms obtain bs where bs: "wf_buckets H EQ bs" "holds (hm_table m) bs" "length bs = unat (hm_length m)"
    "M = lookup_in H EQ bs" by (auto simp: hm_rep_def)
  let ?i = "bucket_of H bs key"
  have i: "?i < length bs" using bs(1) by (rule bucket_less)
  have idx: "unat (H key mod hm_length m) = ?i" using bs(3) by (simp add: unat_mod_word bucket_of_def)
  have lt: "?i < length (hm_table m)" using i holds_length [OF bs(2)] by simp
  note rd = holds_rd [OF bs(2) i]
  show ?thesis
  proof (cases "replace_value EQ key v (bs ! ?i)")
    case (Some r)
    obtain old c where r: "r = (old, c)" by (cases r)
    note L = lookup_replace [OF bs(1) refl Some [unfolded r]]
    let ?m = "m\<lparr>hm_table := (hm_table m)[?i := Some c]\<rparr>"
    have "hm_rep ?m (\<lambda>k. if EQ key k then Some v else M k)"
      unfolding hm_rep_def bs(4) using L bs(1-3) f i
      by (intro exI [of _ "bs[?i := c]"]) (simp add: holds_update)
    moreover have "c47905f7_put m key v = Inr (old, ?m)"
      using f idx rd lt Some r by (simp add: c47905f7_put_def Let_def wr_ok)
    ultimately show ?thesis using L(2) bs(4) f by simp
  next
    case None
    then have new: "\<forall>x \<in> set (bs ! ?i). \<not> EQ (me_key x) key" by (simp add: replace_value_None)
    then have absent: "M key = None"
      using bs(4) by (simp add: lookup_in_def find_replace)
    let ?m = "m\<lparr>hm_size := hm_size m + 1\<rparr>"
    let ?full = "hm_size m = hm_capacity m"
    have "\<exists>m1. (if ?full then resize ?m (H key) else Inr (H key mod hm_length m, ?m))
                 = Inr (H key mod hm_length m1, m1) \<and> hm_rep m1 M \<and> hm_hashCode m1 = H \<and> hm_equals m1 = EQ"
    proof (cases ?full)
      case True
      have "hm_rep ?m M" using rep by (simp add: hm_rep_def)
      then show ?thesis using resize_rep [of ?m M "H key"] f True by auto
    next
      case False
      then show ?thesis using rep f by (simp add: hm_rep_def)
    qed
    then obtain m1 where m1: "(if ?full then resize ?m (H key) else Inr (H key mod hm_length m, ?m))
                 = Inr (H key mod hm_length m1, m1)" "hm_rep m1 M" "hm_hashCode m1 = H" "hm_equals m1 = EQ"
      by blast
    from m1(2-4) obtain cs where cs: "wf_buckets H EQ cs" "holds (hm_table m1) cs"
      "length cs = unat (hm_length m1)" "M = lookup_in H EQ cs" by (auto simp: hm_rep_def)
    let ?j = "bucket_of H cs key" and ?e = "\<lparr>me_key = key, me_value = v, me_hash = H key\<rparr>"
    have j: "?j < length cs" using cs(1) by (rule bucket_less)
    have idx1: "unat (H key mod hm_length m1) = ?j" using cs(3) by (simp add: unat_mod_word bucket_of_def)
    have lt1: "?j < length (hm_table m1)" using j holds_length [OF cs(2)] by simp
    have "\<forall>x \<in> set (cs ! ?j). \<not> EQ (me_key x) key"
      using absent cs(4) by (simp add: lookup_in_def find_replace)
    then have L: "wf_buckets H EQ (cs[?j := ?e # cs ! ?j])"
      "lookup_in H EQ (cs[?j := ?e # cs ! ?j]) = (\<lambda>k. if EQ key k then Some v else M k)"
      unfolding cs(4) using lookup_push [OF cs(1), of ?j ?e] by (simp_all cong: if_cong)
    let ?m1 = "m1\<lparr>hm_table := (hm_table m1)[?j := Some (?e # cs ! ?j)]\<rparr>"
    have "hm_rep ?m1 (\<lambda>k. if EQ key k then Some v else M k)"
      unfolding hm_rep_def using L cs j m1(3,4)
      by (intro exI [of _ "cs[?j := ?e # cs ! ?j]"]) (simp add: holds_update)
    moreover have "c47905f7_put m key v = Inr (None, ?m1)"
      unfolding c47905f7_put_def Let_def f idx rd bnd_Inr None option.case m1(1) prod.case idx1
        holds_rd [OF cs(2) j] by (simp add: wr_ok lt1)
    ultimately show ?thesis using absent m1(3,4) by simp
  qed
qed

lemma remove_rep:
  assumes rep: "hm_rep m M" and f: "hm_hashCode m = H" "hm_equals m = EQ"
  shows "\<exists>m'. c47905f7_remove m key = Inr (case M key of None \<Rightarrow> None | Some old \<Rightarrow> old, m') \<and>
           hm_rep m' (\<lambda>k. if EQ key k then None else M k) \<and> hm_hashCode m' = H \<and> hm_equals m' = EQ"
proof -
  from assms obtain bs where bs: "wf_buckets H EQ bs" "holds (hm_table m) bs" "length bs = unat (hm_length m)"
    "M = lookup_in H EQ bs" by (auto simp: hm_rep_def)
  let ?i = "bucket_of H bs key"
  have i: "?i < length bs" using bs(1) by (rule bucket_less)
  have idx: "unat (H key mod hm_length m) = ?i" using bs(3) by (simp add: unat_mod_word bucket_of_def)
  have lt: "?i < length (hm_table m)" using i holds_length [OF bs(2)] by simp
  note rd = holds_rd [OF bs(2) i]
  show ?thesis
  proof (cases "unlink EQ key (bs ! ?i)")
    case (Some r)
    obtain old c where r: "r = (old, c)" by (cases r)
    note L = lookup_unlink [OF bs(1) refl Some [unfolded r]]
    let ?m = "m\<lparr>hm_table := (hm_table m)[?i := Some c], hm_size := hm_size m - 1\<rparr>"
    have "hm_rep ?m (\<lambda>k. if EQ key k then None else M k)"
      unfolding hm_rep_def bs(4) using L bs(1-3) f i
      by (intro exI [of _ "bs[?i := c]"]) (simp add: holds_update)
    moreover have "c47905f7_remove m key = Inr (old, ?m)"
      using f idx rd lt Some r by (simp add: c47905f7_remove_def Let_def wr_ok)
    ultimately show ?thesis using L(2) bs(4) f by simp
  next
    case None
    then have absent: "M key = None"
      using bs(4) by (simp add: lookup_in_def find_replace unlink_None)
    have "M k = None" if "EQ key k" for k
    proof -
      have "bucket_of H bs k = ?i" by (rule eq_bucket [OF that, symmetric])
      moreover have "\<forall>x \<in> set (bs ! ?i). \<not> EQ (me_key x) k"
        using None that eq_sym eq_trans unfolding unlink_None by blast
      ultimately show ?thesis using bs(4) by (simp add: lookup_in_def find_replace)
    qed
    then have "(\<lambda>k. if EQ key k then None else M k) = M" by auto
    moreover have "c47905f7_remove m key = Inr (None, m)"
      using f idx rd None by (simp add: c47905f7_remove_def Let_def)
    ultimately show ?thesis using absent rep f by simp
  qed
qed

lemma init_rep:
  "\<exists>m :: ('k, 'v) HashMap. c47905f7_initHashMap H EQ capacity = Inr m \<and> hm_rep m (\<lambda>_. None) \<and>
       hm_hashCode m = H \<and> hm_equals m = EQ"
proof -
  let ?c = "push_bit 3 (drop_bit 3 (capacity + 7))"
  have pos: "0 < unat (table_length ?c)" using table_length_pos by (simp add: unat_gt_0)
  obtain t t' :: "('k, 'v) MapEntry list block" where t: "f668c4bd_mallocArray 8 (unat (table_length ?c)) = Inr t"
    "f668c4bd_meminit [] t 0 (unat (table_length ?c)) = Inr t'"
    "holds t' (replicate (unat (table_length ?c)) [])"
    using fresh_table [of "table_length ?c"] by blast
  have "hm_rep \<lparr>hm_table = t', hm_hashCode = H, hm_equals = EQ, hm_capacity = ?c, hm_size = 0,
               hm_length = table_length ?c\<rparr> (\<lambda>_. None)"
    unfolding hm_rep_def using t(3)
    by (intro exI [of _ "replicate (unat (table_length ?c)) []"]) (simp add: wf_empty [OF pos] lookup_empty [OF pos])
  then show ?thesis using t(1,2) by (simp add: c47905f7_initHashMap_def Let_def)
qed

end

interpretation string_key: keyed f6215943_hashCode f6215943_isEqual
  by unfold_locales (simp_all add: isEqual_iff)

subsection \<open>Runs of operations\<close>

datatype ('k, 'v) map_op = Put "'k ptr" "'v ptr" | Get "'k ptr" | Contains "'k ptr" | Remove "'k ptr"
datatype 'v map_out = Val "'v ptr" | Flag bool

fun map_step :: "('k, 'v) HashMap \<Rightarrow> ('k, 'v) map_op \<Rightarrow> ('v map_out \<times> ('k, 'v) HashMap) result" where
  "map_step m (Put k v) = bnd (c47905f7_put m k v) (\<lambda>(old, m). Inr (Val old, m))"
| "map_step m (Get k) = bnd (c47905f7_get m k) (\<lambda>v. Inr (Val v, m))"
| "map_step m (Contains k) = bnd (c47905f7_containsKey m k) (\<lambda>b. Inr (Flag b, m))"
| "map_step m (Remove k) = bnd (c47905f7_remove m k) (\<lambda>(old, m). Inr (Val old, m))"

fun map_run :: "('k, 'v) HashMap \<Rightarrow> ('k, 'v) map_op list \<Rightarrow> ('v map_out list \<times> ('k, 'v) HashMap) result" where
  "map_run m [] = Inr ([], m)"
| "map_run m (opn # ops) =
     bnd (map_step m opn) (\<lambda>(out, m). bnd (map_run m ops) (\<lambda>(outs, m). Inr (out # outs, m)))"

text \<open>The same operations on a function from keys to values.\<close>

definition or_null :: "'v ptr option \<Rightarrow> 'v ptr" where
  "or_null x = (case x of None \<Rightarrow> None | Some v \<Rightarrow> v)"

fun spec_step :: "('k ptr \<Rightarrow> 'v ptr option) \<Rightarrow> ('k, 'v) map_op \<Rightarrow> 'v map_out \<times> ('k ptr \<Rightarrow> 'v ptr option)" where
  "spec_step M (Put k v) = (Val (or_null (M k)), M(k := Some v))"
| "spec_step M (Get k) = (Val (or_null (M k)), M)"
| "spec_step M (Contains k) = (Flag (M k \<noteq> None), M)"
| "spec_step M (Remove k) = (Val (or_null (M k)), M(k := None))"

fun spec_run :: "('k ptr \<Rightarrow> 'v ptr option) \<Rightarrow> ('k, 'v) map_op list \<Rightarrow> 'v map_out list \<times> ('k ptr \<Rightarrow> 'v ptr option)" where
  "spec_run M [] = ([], M)"
| "spec_run M (opn # ops) =
     (let (out, M) = spec_step M opn; (outs, M) = spec_run M ops in (out # outs, M))"

definition string_map :: "(string, 'v) HashMap \<Rightarrow> (string ptr \<Rightarrow> 'v ptr option) \<Rightarrow> bool" where
  "string_map m M \<longleftrightarrow> hm_rep m M \<and> hm_hashCode m = f6215943_hashCode \<and> hm_equals m = f6215943_isEqual"

lemma string_map_step:
  assumes "string_map m M"
  shows "\<exists>m'. map_step m opn = Inr (fst (spec_step M opn), m') \<and> string_map m' (snd (spec_step M opn))"
proof -
  have rep: "hm_rep m M" and f: "hm_hashCode m = f6215943_hashCode" "hm_equals m = f6215943_isEqual"
    using assms by (auto simp: string_map_def)
  have upd: "(\<lambda>k'. if f6215943_isEqual k k' then x else M k') = M(k := x)" for k x
    by (auto simp: isEqual_iff)
  show ?thesis
  proof (cases opn)
    case (Put k v)
    from string_key.put_rep [OF rep f, of k v] show ?thesis
      unfolding upd Put by (auto simp: string_map_def or_null_def)
  next
    case (Get k)
    then show ?thesis using string_key.get_rep(1) [OF rep f, of k] assms by (simp add: or_null_def)
  next
    case (Contains k)
    then show ?thesis using string_key.get_rep(2) [OF rep f, of k] assms by simp
  next
    case (Remove k)
    from string_key.remove_rep [OF rep f, of k] show ?thesis
      unfolding upd Remove by (auto simp: string_map_def or_null_def)
  qed
qed

lemma string_map_run:
  "string_map m M \<Longrightarrow>
   \<exists>m'. map_run m ops = Inr (fst (spec_run M ops), m') \<and> string_map m' (snd (spec_run M ops))"
proof (induction ops arbitrary: m M)
  case (Cons opn ops)
  from string_map_step [OF Cons.prems, of opn] obtain m1 where m1:
    "map_step m opn = Inr (fst (spec_step M opn), m1)" "string_map m1 (snd (spec_step M opn))" by blast
  from Cons.IH [OF m1(2)] m1(1) show ?case by (auto simp: case_prod_unfold Let_def)
qed simp

subsection \<open>Properties\<close>

text \<open>C1: a hash map with string keys, for every initial capacity, answers every sequence of put, get,
  containsKey and remove calls exactly as a mathematical map from strings to values does; the
  growth of the table in between is not visible.\<close>

theorem hashmap_is_a_map:
  "\<exists>m :: (string, 'v) HashMap. c47905f7_initHashMap f6215943_hashCode f6215943_isEqual capacity = Inr m \<and>
     (\<exists>m'. map_run m ops = Inr (fst (spec_run (\<lambda>_. None) ops), m') \<and>
           string_map m' (snd (spec_run (\<lambda>_. None) ops)))"
proof -
  from string_key.init_rep obtain m :: "(string, 'v) HashMap" where m: "c47905f7_initHashMap f6215943_hashCode f6215943_isEqual capacity = Inr m"
    "string_map m (\<lambda>_. None)" by (auto simp: string_map_def)
  with string_map_run [OF m(2), of ops] show ?thesis by auto
qed

text \<open>Growing the table when it is full keeps every binding and every lookup.\<close>

theorem hashmap_resize_keeps_bindings:
  assumes "string_map m M"
  shows "\<exists>m'. resize m h = Inr (h mod hm_length m', m') \<and> string_map m' M \<and> hm_size m' = hm_size m"
  using string_key.resize_rep [of m M h] assms by (auto simp: string_map_def)

lemma hashmap_resize_keeps_bindings_witness:
  "\<exists>m m'. c47905f7_initHashMap f6215943_hashCode f6215943_isEqual 8 = Inr (m :: (string, nat) HashMap) \<and>
     resize m 5 = Inr (5 mod hm_length m', m') \<and> string_map m' (\<lambda>_. None)"
proof -
  from string_key.init_rep obtain m :: "(string, nat) HashMap"
    where m: "c47905f7_initHashMap f6215943_hashCode f6215943_isEqual 8 = Inr m"
      "string_map m (\<lambda>_. None)" by (auto simp: string_map_def)
  with hashmap_resize_keeps_bindings [OF m(2), of 5] show ?thesis by blast
qed

text \<open>A map made by createHashMap has an uncleared table: the first lookup reads a bucket that was
  never written.\<close>

theorem createHashMap_uninitialised:
  "\<exists>m. c47905f7_createHashMap H EQ capacity = Inr m \<and> c47905f7_get m key = Inl Uninitialised"
proof -
  let ?n = "table_length capacity"
  have "0 < unat ?n" using string_key.table_length_pos by (simp add: unat_gt_0)
  then have "unat (H key mod ?n) < (unat ?n + 1) div 2 * 2"
    using even_above [of "unat ?n"] by (simp add: unat_mod_word) (meson mod_less_divisor order_less_le_trans)
  then show ?thesis
    by (simp add: c47905f7_createHashMap_def Let_def c47905f7_get_def hm_index_def rd_def fresh_def
        mallocArray8_cells)
qed

end
