(* ===== verification/Pools.thy ===== *)
theory Pools
  imports StackArray ListArray ErrorReport
begin

text \<open>
  memory/slabpool.c, memory/pagepool.c and memory/memorypool.c: the three global pools, one on top
  of the other. Addresses are numbers. f668c4bd_alignedAlloc is the parameter \<open>alloc\<close>: \<open>alloc n\<close> is the address it
  returns on its \<open>n\<close>-th call, \<open>slabs_apart alloc\<close> that it returns page-aligned, non-overlapping
  slabs. All three pools live in one state record, because the page pool calls the slab pool and the
  memory pool calls the page pool.
\<close>

definition MEMORY_PAGE_SIZE :: nat where "MEMORY_PAGE_SIZE = 4096"
definition SLABPOOL_SLAB_SIZE :: nat where "SLABPOOL_SLAB_SIZE = 32768"

record SlabPool =
  slabStack :: "nat StackArray"
  numSlabsAlloc :: u32
  numSlabsFree :: u32
  numSlabsInUse :: u32
  numSlabsUsed :: u32

record PagePool =
  pageStack :: "nat StackArray"
  slabList :: "nat ListArray"
  numPagesAlloc :: u32
  numPagesFree :: u32
  numPagesInUse :: u32
  numPagesUsed :: u32

record MemoryPool =
  memPageStack :: "nat StackArray"
  memPagesAlloc :: u32
  numPageBytesUsed :: u32
  numPageBytesFree :: u32
  numBlocksAlloc :: u32

record pools =
  slabPool :: SlabPool
  pagePool :: PagePool
  memoryPool :: MemoryPool
  allocCalls :: nat

definition empty_stack :: "nat StackArray" where
  "empty_stack = \<lparr>sa_values = None, sa_length = 0, sa_size = 0\<rparr>"

text \<open>The static initialisers of the three globals.\<close>

definition initial_pools :: pools where
  "initial_pools = \<lparr>
     slabPool = \<lparr>slabStack = empty_stack, numSlabsAlloc = 0, numSlabsFree = 0, numSlabsInUse = 0,
                 numSlabsUsed = 0\<rparr>,
     pagePool = \<lparr>pageStack = empty_stack,
                 slabList = \<lparr>la_values = None, la_length = 0, la_size = 0\<rparr>,
                 numPagesAlloc = 0, numPagesFree = 0, numPagesInUse = 0, numPagesUsed = 0\<rparr>,
     memoryPool = \<lparr>memPageStack = empty_stack, memPagesAlloc = 0, numPageBytesUsed = 0,
                   numPageBytesFree = 0, numBlocksAlloc = 0\<rparr>,
     allocCalls = 0\<rparr>"

subsection \<open>memory/slabpool.c\<close>

definition populateSlabPool :: "(nat \<Rightarrow> nat) \<Rightarrow> pools \<Rightarrow> pools result" where
  "populateSlabPool alloc st =
     (let slab = alloc (allocCalls st); sp = slabPool st
      in bnd (f106c0ab_push (slabStack sp) (Some slab)) (\<lambda>stk.
         Inr (st\<lparr>slabPool := sp\<lparr>slabStack := stk, numSlabsAlloc := numSlabsAlloc sp + 1,
                                 numSlabsFree := numSlabsFree sp + 1\<rparr>,
                 allocCalls := Suc (allocCalls st)\<rparr>)))"

definition b426145b_acquireSlab :: "(nat \<Rightarrow> nat) \<Rightarrow> pools \<Rightarrow> (nat ptr \<times> pools) result" where
  "b426145b_acquireSlab alloc st =
     bnd (if numSlabsAlloc (slabPool st) = 0 then
            bnd (f106c0ab_initStackArray (slabStack (slabPool st))) (\<lambda>stk.
            Inr (st\<lparr>slabPool := slabPool st\<lparr>slabStack := stk\<rparr>\<rparr>))
          else Inr st) (\<lambda>st.
     bnd (if numSlabsFree (slabPool st) = 0 then populateSlabPool alloc st else Inr st) (\<lambda>st.
     let sp = slabPool st;
         sp = sp\<lparr>numSlabsFree := numSlabsFree sp - 1, numSlabsInUse := numSlabsInUse sp + 1,
                 numSlabsUsed := numSlabsUsed sp + 1\<rparr>
     in bnd (f106c0ab_pop (slabStack sp)) (\<lambda>(slabPtr, stk).
        Inr (slabPtr, st\<lparr>slabPool := sp\<lparr>slabStack := stk\<rparr>\<rparr>))))"

definition b426145b_releaseSlab :: "pools \<Rightarrow> nat ptr \<Rightarrow> pools result" where
  "b426145b_releaseSlab st slabPtr =
     (let sp = slabPool st;
          sp = sp\<lparr>numSlabsFree := numSlabsFree sp + 1, numSlabsInUse := numSlabsInUse sp - 1\<rparr>
      in bnd (f106c0ab_push (slabStack sp) slabPtr) (\<lambda>stk.
         Inr (st\<lparr>slabPool := sp\<lparr>slabStack := stk\<rparr>\<rparr>)))"

text \<open>The slabs handed to free, in order (the debug print is left out).\<close>

definition b426145b_destroySlabPool :: "pools \<Rightarrow> (nat ptr list \<times> pools) result" where
  "b426145b_destroySlabPool st =
     bnd (f106c0ab_cleanUpStackArray (slabStack (slabPool st)) True) (\<lambda>(freed, stk).
     Inr (freed, st\<lparr>slabPool := slabPool st\<lparr>slabStack := stk\<rparr>\<rparr>))"

subsection \<open>memory/pagepool.c\<close>

text \<open>The eight pages of a slab, pushed in ascending order.\<close>

definition pages_of :: "nat \<Rightarrow> nat ptr list" where
  "pages_of slab = map (\<lambda>i. Some (slab + i * MEMORY_PAGE_SIZE)) [0..<8]"

definition populatePagePool :: "(nat \<Rightarrow> nat) \<Rightarrow> pools \<Rightarrow> pools result" where
  "populatePagePool alloc st =
     bnd (b426145b_acquireSlab alloc st) (\<lambda>(slabBufferPtr, st).
     bnd (b196167f_add_x86 (slabList (pagePool st)) slabBufferPtr) (\<lambda>lst.
     bnd (deref slabBufferPtr) (\<lambda>slab.
     bnd (fold_result f106c0ab_push (pageStack (pagePool st)) (pages_of slab)) (\<lambda>stk.
     let pp = pagePool st
     in Inr (st\<lparr>pagePool := pp\<lparr>slabList := lst, pageStack := stk,
                               numPagesAlloc := numPagesAlloc pp + 8,
                               numPagesFree := numPagesFree pp + 8\<rparr>\<rparr>)))))"

definition f502a409_acquirePage :: "(nat \<Rightarrow> nat) \<Rightarrow> pools \<Rightarrow> (nat ptr \<times> pools) result" where
  "f502a409_acquirePage alloc st =
     bnd (if sa_values (pageStack (pagePool st)) = None then
            bnd (f106c0ab_initStackArray (pageStack (pagePool st))) (\<lambda>stk.
            bnd (b196167f_initListArray (slabList (pagePool st))) (\<lambda>lst.
            Inr (st\<lparr>pagePool := pagePool st\<lparr>pageStack := stk, slabList := lst\<rparr>\<rparr>)))
          else Inr st) (\<lambda>st.
     bnd (if numPagesFree (pagePool st) = 0 then populatePagePool alloc st else Inr st) (\<lambda>st.
     let pp = pagePool st;
         pp = pp\<lparr>numPagesFree := numPagesFree pp - 1, numPagesInUse := numPagesInUse pp + 1,
                 numPagesUsed := numPagesUsed pp + 1\<rparr>
     in bnd (f106c0ab_pop (pageStack pp)) (\<lambda>(pagePtr, stk).
        Inr (pagePtr, st\<lparr>pagePool := pp\<lparr>pageStack := stk\<rparr>\<rparr>))))"

definition f502a409_releasePage :: "pools \<Rightarrow> nat ptr \<Rightarrow> pools result" where
  "f502a409_releasePage st pagePtr =
     (let pp = pagePool st;
          pp = pp\<lparr>numPagesFree := numPagesFree pp + 1, numPagesInUse := numPagesInUse pp - 1\<rparr>
      in bnd (f106c0ab_push (pageStack pp) pagePtr) (\<lambda>stk.
         Inr (st\<lparr>pagePool := pp\<lparr>pageStack := stk\<rparr>\<rparr>)))"

text \<open>The page stack is dropped; every slab of the slab list goes back to the slab pool.\<close>

definition f502a409_destroyPagePool :: "pools \<Rightarrow> pools result" where
  "f502a409_destroyPagePool st =
     bnd (f106c0ab_cleanUpStackArray (pageStack (pagePool st)) False) (\<lambda>(_, stk).
     bnd (b196167f_cleanUpListArray (slabList (pagePool st)) True) (\<lambda>slabs.
     fold_result b426145b_releaseSlab (st\<lparr>pagePool := pagePool st\<lparr>pageStack := stk\<rparr>\<rparr>) slabs))"

subsection \<open>memory/memorypool.c\<close>

text \<open>
  The result is the block and the text written to stderr. \<open>block += used\<close> on a NULL block yields NULL
  when nothing is used.
\<close>

definition f502a409_acquireMemory ::
    "env \<Rightarrow> (nat \<Rightarrow> nat) \<Rightarrow> pools \<Rightarrow> u32 \<Rightarrow> (nat ptr \<times> string \<times> pools) result" where
  "f502a409_acquireMemory e alloc st sz =
     bnd (if sa_values (memPageStack (memoryPool st)) = None then
            bnd (f106c0ab_initStackArray (memPageStack (memoryPool st))) (\<lambda>stk.
            Inr (st\<lparr>memoryPool := memoryPool st\<lparr>memPageStack := stk\<rparr>\<rparr>))
          else Inr st) (\<lambda>st.
     if of_nat MEMORY_PAGE_SIZE < sz then
       bnd (warn_error e [Str ''f502a409_acquireMemory(): Invalid requested size of '', Uint sz]) (\<lambda>msg.
       Inr (None, msg, st))
     else
       bnd (if numPageBytesFree (memoryPool st) < sz then
              bnd (f502a409_acquirePage alloc st) (\<lambda>(block, st).
              let mp = memoryPool st
              in bnd (f106c0ab_push (memPageStack mp) block) (\<lambda>stk.
                 Inr (block, st\<lparr>memoryPool := mp\<lparr>memPageStack := stk, memPagesAlloc := memPagesAlloc mp + 1,
                                   numPageBytesUsed := 0,
                                   numPageBytesFree := of_nat MEMORY_PAGE_SIZE\<rparr>\<rparr>)))
            else
              bnd (f106c0ab_peek (memPageStack (memoryPool st))) (\<lambda>block. Inr (block, st)))
         (\<lambda>(block, st).
         let mp = memoryPool st
         in Inr (map_option (\<lambda>b. b + unat (numPageBytesUsed mp)) block, [],
                 st\<lparr>memoryPool := mp\<lparr>numPageBytesUsed := numPageBytesUsed mp + sz,
                                     numPageBytesFree := numPageBytesFree mp - sz,
                                     numBlocksAlloc := numBlocksAlloc mp + 1\<rparr>\<rparr>)))"

definition b86b2c8d_destroyMemoryPool :: "pools \<Rightarrow> pools result" where
  "b86b2c8d_destroyMemoryPool st =
     bnd (f106c0ab_cleanUpStackArray (memPageStack (memoryPool st)) True) (\<lambda>(pages, stk).
     fold_result f502a409_releasePage (st\<lparr>memoryPool := memoryPool st\<lparr>memPageStack := stk\<rparr>\<rparr>) pages)"

subsection \<open>The slab pool\<close>

definition slabs_apart :: "(nat \<Rightarrow> nat) \<Rightarrow> bool" where
  "slabs_apart alloc \<longleftrightarrow>
     (\<forall>i j. i \<noteq> j \<longrightarrow> alloc i + SLABPOOL_SLAB_SIZE \<le> alloc j \<or> alloc j + SLABPOOL_SLAB_SIZE \<le> alloc i)"

text \<open>
  \<open>slab_inv alloc st free out\<close>: the slabs \<open>free\<close> are on the stack, the slabs \<open>out\<close> are in use, together they
  are exactly the allocated ones, each once, and the counters agree.
\<close>

definition slab_inv :: "(nat \<Rightarrow> nat) \<Rightarrow> pools \<Rightarrow> nat list \<Rightarrow> nat list \<Rightarrow> bool" where
  "slab_inv alloc st free out \<longleftrightarrow>
     (let sp = slabPool st in
      (if allocCalls st = 0 then free = [] else sa_rep (slabStack sp) (map Some free)) \<and>
      distinct (free @ out) \<and> set (free @ out) = alloc ` {..<allocCalls st} \<and>
      unat (numSlabsAlloc sp) = allocCalls st \<and> unat (numSlabsFree sp) = length free \<and>
      unat (numSlabsInUse sp) = length out \<and> allocCalls st < 2 ^ 31)"

lemma slab_inv_initial: "slab_inv alloc initial_pools [] []"
  by (simp add: slab_inv_def initial_pools_def)

lemma alloc_inj: "slabs_apart alloc \<Longrightarrow> inj alloc"
proof (rule injI)
  fix i j assume a: "slabs_apart alloc" "alloc i = alloc j"
  show "i = j"
  proof (rule ccontr)
    assume "i \<noteq> j"
    with a(1) have "alloc i + SLABPOOL_SLAB_SIZE \<le> alloc j \<or> alloc j + SLABPOOL_SLAB_SIZE \<le> alloc i"
      unfolding slabs_apart_def by blast
    with a(2) show False by (simp add: SLABPOOL_SLAB_SIZE_def)
  qed
qed

lemma slab_count:
  assumes "slab_inv alloc st free out" and "slabs_apart alloc"
  shows "length free + length out = allocCalls st"
proof -
  have d: "distinct (free @ out)" and s: "set (free @ out) = alloc ` {..<allocCalls st}"
    using assms(1) unfolding slab_inv_def Let_def by blast+
  have "card (alloc ` {..<allocCalls st}) = card {..<allocCalls st}"
    by (rule card_image [OF inj_on_subset [OF alloc_inj [OF assms(2)] subset_UNIV]])
  then show ?thesis using distinct_card [OF d] unfolding s by simp
qed

text \<open>After populating, there is a free slab.\<close>

lemma populateSlab_inv:
  assumes inv: "slab_inv alloc st [] out" and rep: "sa_rep (slabStack (slabPool st)) []"
    and apart: "slabs_apart alloc" and more: "allocCalls st + 1 < 2 ^ 31"
  shows "\<exists>st'. populateSlabPool alloc st = Inr st' \<and> slab_inv alloc st' [alloc (allocCalls st)] out \<and>
               pagePool st' = pagePool st \<and> memoryPool st' = memoryPool st \<and> allocCalls st' = Suc (allocCalls st)"
proof -
  let ?slab = "alloc (allocCalls st)" and ?sp = "slabPool st"
  obtain stk where stk: "f106c0ab_push (slabStack ?sp) (Some ?slab) = Inr stk" "sa_rep stk [Some ?slab]"
    using sa_push [OF rep, of "Some ?slab"] by auto
  have fresh: "?slab \<notin> set out"
    using inv alloc_inj [OF apart] by (auto simp: slab_inv_def Let_def inj_eq)
  have n: "unat (numSlabsAlloc ?sp + 1) = allocCalls st + 1" "unat (numSlabsFree ?sp + 1) = 1"
    using inv more by (auto simp: slab_inv_def Let_def unat_plus_fits)
  let ?st = "st\<lparr>slabPool := ?sp\<lparr>slabStack := stk, numSlabsAlloc := numSlabsAlloc ?sp + 1,
                 numSlabsFree := numSlabsFree ?sp + 1\<rparr>, allocCalls := Suc (allocCalls st)\<rparr>"
  have "slab_inv alloc ?st [?slab] out"
    using inv stk(2) fresh n more by (auto simp: slab_inv_def Let_def lessThan_Suc)
  moreover have "populateSlabPool alloc st = Inr ?st"
    using stk(1) by (simp add: populateSlabPool_def Let_def)
  ultimately show ?thesis by simp
qed

lemma pop_slab_inv:
  assumes inv: "slab_inv alloc st (free @ [p]) out" and apart: "slabs_apart alloc"
    and a: "allocCalls st \<noteq> 0"
  shows "\<exists>st'. (let sp = slabPool st;
         sp = sp\<lparr>numSlabsFree := numSlabsFree sp - 1, numSlabsInUse := numSlabsInUse sp + 1,
                 numSlabsUsed := numSlabsUsed sp + 1\<rparr>
     in bnd (f106c0ab_pop (slabStack sp)) (\<lambda>(slabPtr, stk).
        Inr (slabPtr, st\<lparr>slabPool := sp\<lparr>slabStack := stk\<rparr>\<rparr>))) = Inr (Some p, st') \<and>
     slab_inv alloc st' free (p # out) \<and> pagePool st' = pagePool st \<and> memoryPool st' = memoryPool st \<and>
     allocCalls st' = allocCalls st"
proof -
  let ?sp = "slabPool st"
  have rep: "sa_rep (slabStack ?sp) (map Some free @ [Some p])"
    using inv a by (simp add: slab_inv_def Let_def)
  obtain stk where stk: "f106c0ab_pop (slabStack ?sp) = Inr (Some p, stk)" "sa_rep stk (map Some free)"
    using sa_pop_snoc [OF rep] by blast
  have cnt: "length free + 1 + length out = allocCalls st" using slab_count [OF inv apart] by simp
  have sm: "allocCalls st < 2 ^ 31" and f: "unat (numSlabsFree ?sp) = length free + 1"
    and u: "unat (numSlabsInUse ?sp) = length out" using inv by (auto simp: slab_inv_def Let_def)
  have "numSlabsFree ?sp \<noteq> 0" using f by auto
  then have n: "unat (numSlabsFree ?sp - 1) = length free" using f unat_dec [of "numSlabsFree ?sp"] by simp
  have m: "unat (numSlabsInUse ?sp + 1) = length out + 1" using u cnt sm by (simp add: unat_plus_fits)
  show ?thesis
    using inv stk n m a by (auto simp: slab_inv_def Let_def)
qed

lemma acquireSlab_inv:
  assumes inv: "slab_inv alloc st free out" and apart: "slabs_apart alloc" and more: "allocCalls st + 1 < 2 ^ 31"
  shows "\<exists>p st' free'. b426145b_acquireSlab alloc st = Inr (Some p, st') \<and> slab_inv alloc st' free' (p # out) \<and>
           pagePool st' = pagePool st \<and> memoryPool st' = memoryPool st \<and>
           allocCalls st' \<le> Suc (allocCalls st) \<and> p \<notin> set out"
proof -
  let ?init = "if numSlabsAlloc (slabPool st) = 0 then
            bnd (f106c0ab_initStackArray (slabStack (slabPool st))) (\<lambda>stk.
            Inr (st\<lparr>slabPool := slabPool st\<lparr>slabStack := stk\<rparr>\<rparr>))
          else Inr st"
  obtain s1 where s1: "?init = Inr s1" "slab_inv alloc s1 free out" "sa_rep (slabStack (slabPool s1)) (map Some free)"
    "pagePool s1 = pagePool st" "memoryPool s1 = memoryPool st" "allocCalls s1 = allocCalls st"
  proof (cases "allocCalls st = 0")
    case True
    then have z: "numSlabsAlloc (slabPool st) = 0" "free = []" using inv by (auto simp: slab_inv_def Let_def unat_eq_0)
    obtain stk where "f106c0ab_initStackArray (slabStack (slabPool st)) = Inr stk" "sa_rep stk []"
      using sa_init by blast
    then show thesis
      using z inv True by (intro that [of "st\<lparr>slabPool := slabPool st\<lparr>slabStack := stk\<rparr>\<rparr>"]) (auto simp: slab_inv_def Let_def)
  next
    case False
    then have "numSlabsAlloc (slabPool st) \<noteq> 0" using inv by (auto simp: slab_inv_def Let_def)
    then show thesis using inv False by (intro that [of st]) (auto simp: slab_inv_def Let_def)
  qed
  let ?pop = "if numSlabsFree (slabPool s1) = 0 then populateSlabPool alloc s1 else Inr s1"
  obtain s2 free2 p where s2: "?pop = Inr s2" "slab_inv alloc s2 (free2 @ [p]) out" "allocCalls s2 \<noteq> 0"
    "pagePool s2 = pagePool st" "memoryPool s2 = memoryPool st" "allocCalls s2 \<le> Suc (allocCalls st)"
  proof (cases "free = []")
    case True
    then have "numSlabsFree (slabPool s1) = 0" using s1(2) by (auto simp: slab_inv_def Let_def unat_eq_0)
    moreover obtain s where "populateSlabPool alloc s1 = Inr s" "slab_inv alloc s [alloc (allocCalls s1)] out"
      "pagePool s = pagePool s1" "memoryPool s = memoryPool s1" "allocCalls s = Suc (allocCalls s1)"
      using populateSlab_inv [of alloc s1 out] s1 True apart more by auto
    ultimately show thesis using s1 by (intro that [of s "[]" "alloc (allocCalls s1)"]) auto
  next
    case False
    then obtain f q where fq: "free = f @ [q]" by (cases free rule: rev_cases) auto
    have "numSlabsFree (slabPool s1) \<noteq> 0" using s1(2) False by (auto simp: slab_inv_def Let_def)
    moreover have "allocCalls s1 \<noteq> 0" using s1(2) False by (auto simp: slab_inv_def Let_def)
    ultimately show thesis using s1 fq by (intro that [of s1 f q]) auto
  qed
  from pop_slab_inv [OF s2(2) apart s2(3)] obtain s3 where s3:
    "(let sp = slabPool s2;
         sp = sp\<lparr>numSlabsFree := numSlabsFree sp - 1, numSlabsInUse := numSlabsInUse sp + 1,
                 numSlabsUsed := numSlabsUsed sp + 1\<rparr>
     in bnd (f106c0ab_pop (slabStack sp)) (\<lambda>(slabPtr, stk).
        Inr (slabPtr, s2\<lparr>slabPool := sp\<lparr>slabStack := stk\<rparr>\<rparr>))) = Inr (Some p, s3)"
     "slab_inv alloc s3 free2 (p # out)" "pagePool s3 = pagePool s2" "memoryPool s3 = memoryPool s2"
     "allocCalls s3 = allocCalls s2" by blast
  have "p \<notin> set out" using s3(2) by (simp add: slab_inv_def Let_def)
  moreover have "b426145b_acquireSlab alloc st = Inr (Some p, s3)"
    unfolding b426145b_acquireSlab_def s1(1) bnd_Inr s2(1) s3(1) ..
  ultimately show ?thesis using s3 s2 by auto
qed

lemma releaseSlab_inv:
  assumes inv: "slab_inv alloc st free out" and apart: "slabs_apart alloc" and p: "p \<in> set out"
  shows "\<exists>st'. b426145b_releaseSlab st (Some p) = Inr st' \<and> slab_inv alloc st' (free @ [p]) (remove1 p out) \<and>
               pagePool st' = pagePool st \<and> memoryPool st' = memoryPool st \<and> allocCalls st' = allocCalls st"
proof -
  let ?sp = "slabPool st"
  have cnt: "length free + length out = allocCalls st" by (rule slab_count [OF inv apart])
  have lo: "0 < length out" using p by (auto simp: length_pos_if_in_set)
  then have a: "allocCalls st \<noteq> 0" using cnt by linarith
  have sm: "allocCalls st < 2 ^ 31" and f: "unat (numSlabsFree ?sp) = length free"
    and u: "unat (numSlabsInUse ?sp) = length out" and rep: "sa_rep (slabStack ?sp) (map Some free)"
    using inv a by (auto simp: slab_inv_def Let_def)
  obtain stk where stk: "f106c0ab_push (slabStack ?sp) (Some p) = Inr stk" "sa_rep stk (map Some free @ [Some p])"
    using sa_push [OF rep, of "Some p"] cnt sm by auto
  have n: "unat (numSlabsFree ?sp + 1) = length free + 1" using f cnt sm by (simp add: unat_plus_fits)
  have "numSlabsInUse ?sp \<noteq> 0" using u lo by auto
  then have m: "unat (numSlabsInUse ?sp - 1) = length (remove1 p out)"
    using u p unat_dec [of "numSlabsInUse ?sp"] by (simp add: length_remove1)
  have d: "distinct free" "distinct out" "set free \<inter> set out = {}" "set free \<union> set out = alloc ` {..<allocCalls st}"
    "unat (numSlabsAlloc ?sp) = allocCalls st"
    using inv by (auto simp: slab_inv_def Let_def)
  have "distinct ((free @ [p]) @ remove1 p out)" using d p by (auto simp: distinct_remove1)
  moreover have "set ((free @ [p]) @ remove1 p out) = alloc ` {..<allocCalls st}"
    using d(2,4) p by (auto simp: set_remove1_eq)
  ultimately have "slab_inv alloc (st\<lparr>slabPool := ?sp\<lparr>numSlabsFree := numSlabsFree ?sp + 1,
       numSlabsInUse := numSlabsInUse ?sp - 1, slabStack := stk\<rparr>\<rparr>) (free @ [p]) (remove1 p out)"
    using stk(2) n m a sm d(5) unfolding slab_inv_def Let_def by simp
  then show ?thesis using stk(1) by (simp add: b426145b_releaseSlab_def Let_def)
qed

subsection \<open>The page pool\<close>

definition page_addrs :: "nat \<Rightarrow> nat list" where
  "page_addrs slab = map (\<lambda>i. slab + i * MEMORY_PAGE_SIZE) [0..<8]"

lemma pages_of_addrs: "pages_of slab = map Some (page_addrs slab)"
  by (simp add: pages_of_def page_addrs_def)

text \<open>
  The pages of the slabs \<open>sl\<close> that the pool holds are the free and the handed-out pages, each once.
  \<open>limit\<close> on the slabs keeps the page counters inside their width.
\<close>

definition page_inv :: "(nat \<Rightarrow> nat) \<Rightarrow> pools \<Rightarrow> nat list \<Rightarrow> nat list \<Rightarrow> bool" where
  "page_inv alloc st free out \<longleftrightarrow>
     (\<exists>sfree sout sl. slab_inv alloc st sfree sout \<and> distinct sl \<and> set sl \<subseteq> set sout \<and>
        length free + length out = 8 * length sl \<and> distinct (free @ out) \<and>
        set (free @ out) = (\<Union>s \<in> set sl. set (page_addrs s)) \<and>
        (if sa_values (pageStack (pagePool st)) = None then sl = []
         else sa_rep (pageStack (pagePool st)) (map Some free) \<and> la_rep (slabList (pagePool st)) (map Some sl)) \<and>
        unat (numPagesFree (pagePool st)) = length free \<and> allocCalls st < 2 ^ 27)"

lemma page_inv_initial: "page_inv alloc initial_pools [] []"
  unfolding page_inv_def
  by (intro exI [of _ "[]"]) (simp add: slab_inv_initial, simp add: initial_pools_def empty_stack_def)

lemma page_addrs_distinct: "distinct (page_addrs s)"
  by (simp add: page_addrs_def MEMORY_PAGE_SIZE_def distinct_map inj_on_def)

lemma page_addrs_range: "q \<in> set (page_addrs s) \<Longrightarrow> s \<le> q \<and> q < s + SLABPOOL_SLAB_SIZE"
  by (auto simp: page_addrs_def MEMORY_PAGE_SIZE_def SLABPOOL_SLAB_SIZE_def)

lemma page_addrs_apart:
  assumes "slabs_apart alloc" and "alloc i \<noteq> alloc j"
  shows "set (page_addrs (alloc i)) \<inter> set (page_addrs (alloc j)) = {}"
proof -
  have "i \<noteq> j" using assms(2) by auto
  then have "alloc i + SLABPOOL_SLAB_SIZE \<le> alloc j \<or> alloc j + SLABPOOL_SLAB_SIZE \<le> alloc i"
    using assms(1) unfolding slabs_apart_def by blast
  then have "q \<notin> set (page_addrs (alloc j))" if "q \<in> set (page_addrs (alloc i))" for q
    using page_addrs_range [OF that] page_addrs_range [of q "alloc j"] by linarith
  then show ?thesis by blast
qed

lemma slab_out_alloc: "slab_inv alloc st free out \<Longrightarrow> s \<in> set out \<Longrightarrow> \<exists>i. s = alloc i"
  by (auto simp: slab_inv_def Let_def)

lemma slab_out_length:
  assumes "slab_inv alloc st free out" "slabs_apart alloc" "distinct sl" "set sl \<subseteq> set out"
  shows "length sl \<le> allocCalls st"
proof -
  have "distinct out" using assms(1) by (simp add: slab_inv_def Let_def)
  have "length sl = card (set sl)" using assms(3) by (simp add: distinct_card)
  also have "\<dots> \<le> card (set out)" using assms(4) by (intro card_mono) auto
  also have "\<dots> = length out" using \<open>distinct out\<close> by (rule distinct_card)
  finally show ?thesis using slab_count [OF assms(1,2)] by simp
qed

lemma slab_inv_same:
  "slab_inv alloc st free out \<Longrightarrow> slabPool st' = slabPool st \<Longrightarrow> allocCalls st' = allocCalls st \<Longrightarrow>
   slab_inv alloc st' free out"
  by (simp add: slab_inv_def)

text \<open>Populating an empty page pool makes the eight pages of a new slab free.\<close>

lemma populatePage_inv:
  assumes inv: "page_inv alloc st [] out" and apart: "slabs_apart alloc" and more: "allocCalls st + 1 < 2 ^ 27"
    and init: "sa_rep (pageStack (pagePool st)) []" "sa_values (pageStack (pagePool st)) \<noteq> None"
  shows "\<exists>st' s. populatePagePool alloc st = Inr st' \<and> page_inv alloc st' (page_addrs s) out \<and>
           sa_values (pageStack (pagePool st')) \<noteq> None \<and> memoryPool st' = memoryPool st"
proof -
  let ?pp = "pagePool st"
  from inv init obtain sfree sout sl where I: "slab_inv alloc st sfree sout" "distinct sl" "set sl \<subseteq> set sout"
    "length out = 8 * length sl" "distinct out" "set out = (\<Union>s \<in> set sl. set (page_addrs s))"
    "la_rep (slabList ?pp) (map Some sl)" "unat (numPagesFree ?pp) = 0"
    unfolding page_inv_def by auto
  have more': "allocCalls st + 1 < 2 ^ 31" using more by simp
  from acquireSlab_inv [OF I(1) apart more'] obtain p s1 sf where s1:
    "b426145b_acquireSlab alloc st = Inr (Some p, s1)" "slab_inv alloc s1 sf (p # sout)" "pagePool s1 = ?pp"
    "memoryPool s1 = memoryPool st" "allocCalls s1 \<le> Suc (allocCalls st)" "p \<notin> set sout" by blast
  have lsl: "length sl < 2 ^ 27" using slab_out_length [OF I(1) apart I(2,3)] more by simp
  from la_add_x86 [OF I(7), of "Some p"] lsl obtain lst where lst:
    "b196167f_add_x86 (slabList ?pp) (Some p) = Inr lst" "la_rep lst (map Some sl @ [Some p])" by auto
  from sa.push_many [OF init(1), of "pages_of p"] obtain stk where stk:
    "fold_result f106c0ab_push (pageStack ?pp) (pages_of p) = Inr stk" "sa_rep stk (pages_of p)"
    by (auto simp: pages_of_def)
  let ?st = "s1\<lparr>pagePool := ?pp\<lparr>slabList := lst, pageStack := stk, numPagesAlloc := numPagesAlloc ?pp + 8,
                               numPagesFree := numPagesFree ?pp + 8\<rparr>\<rparr>"
  have new: "set (page_addrs p) \<inter> set out = {}"
  proof -
    have "set (page_addrs p) \<inter> set (page_addrs s) = {}" if s: "s \<in> set sl" for s
    proof -
      obtain i where "p = alloc i" using slab_out_alloc [OF s1(2), of p] by auto
      moreover obtain j where "s = alloc j" using slab_out_alloc [OF I(1), of s] s I(3) by blast
      moreover have "p \<noteq> s" using s1(6) s I(3) by blast
      ultimately show ?thesis using page_addrs_apart [OF apart] by blast
    qed
    then show ?thesis unfolding I(6) by blast
  qed
  have len: "length (page_addrs p) = 8" by (simp add: page_addrs_def)
  have "unat (numPagesFree ?pp + 8) = 8" using I(8) by (simp add: unat_plus_fits)
  moreover have "allocCalls s1 < 2 ^ 27" using s1(5) more by simp
  moreover have "slab_inv alloc ?st sf (p # sout)" by (rule slab_inv_same [OF s1(2)]) simp_all
  moreover have "distinct (sl @ [p])" "set (sl @ [p]) \<subseteq> set (p # sout)" using I(2,3) s1(6) by auto
  moreover have "sa_values stk \<noteq> None" using stk(2) by (auto elim: sa_repE)
  ultimately have "page_inv alloc ?st (page_addrs p) out"
    unfolding page_inv_def using I(4-6) new len lst(2) stk(2) page_addrs_distinct
    by (intro exI [of _ sf] exI [of _ "p # sout"] exI [of _ "sl @ [p]"]) (auto simp: pages_of_addrs)
  moreover have "populatePagePool alloc st = Inr ?st"
    using s1 lst(1) stk(1) by (simp add: populatePagePool_def Let_def)
  moreover have "sa_values stk \<noteq> None" using stk(2) by (auto elim: sa_repE)
  ultimately show ?thesis using s1(4) by auto
qed

lemma pop_page_inv:
  assumes inv: "page_inv alloc st (free @ [p]) out" and v: "sa_values (pageStack (pagePool st)) \<noteq> None"
  shows "\<exists>st'. (let pp = pagePool st;
         pp = pp\<lparr>numPagesFree := numPagesFree pp - 1, numPagesInUse := numPagesInUse pp + 1,
                 numPagesUsed := numPagesUsed pp + 1\<rparr>
     in bnd (f106c0ab_pop (pageStack pp)) (\<lambda>(pagePtr, stk).
        Inr (pagePtr, st\<lparr>pagePool := pp\<lparr>pageStack := stk\<rparr>\<rparr>))) = Inr (Some p, st') \<and>
     page_inv alloc st' free (p # out) \<and> memoryPool st' = memoryPool st"
proof -
  let ?pp = "pagePool st"
  from inv v obtain sfree sout sl where I: "slab_inv alloc st sfree sout" "distinct sl" "set sl \<subseteq> set sout"
    "length (free @ [p]) + length out = 8 * length sl" "distinct ((free @ [p]) @ out)"
    "set ((free @ [p]) @ out) = (\<Union>s \<in> set sl. set (page_addrs s))"
    "sa_rep (pageStack ?pp) (map Some (free @ [p]))"
    "la_rep (slabList ?pp) (map Some sl)" "unat (numPagesFree ?pp) = length (free @ [p])" "allocCalls st < 2 ^ 27"
    unfolding page_inv_def by auto
  have "sa_rep (pageStack ?pp) (map Some free @ [Some p])" using I(7) by simp
  from sa_pop_snoc [OF this] obtain stk where stk: "f106c0ab_pop (pageStack ?pp) = Inr (Some p, stk)"
    "sa_rep stk (map Some free)" by blast
  have "numPagesFree ?pp \<noteq> 0" using I(9) by auto
  then have n: "unat (numPagesFree ?pp - 1) = length free" using I(9) unat_dec [of "numPagesFree ?pp"] by simp
  have sv: "sa_values stk \<noteq> None" using stk(2) by (auto elim: sa_repE)
  let ?st = "st\<lparr>pagePool := ?pp\<lparr>numPagesFree := numPagesFree ?pp - 1, numPagesInUse := numPagesInUse ?pp + 1,
                 numPagesUsed := numPagesUsed ?pp + 1, pageStack := stk\<rparr>\<rparr>"
  have "slab_inv alloc ?st sfree sout" by (rule slab_inv_same [OF I(1)]) simp_all
  then have "page_inv alloc ?st free (p # out)"
    unfolding page_inv_def using I(2-6,8,10) stk(2) n sv
    by (intro exI [of _ sfree] exI [of _ sout] exI [of _ sl]) auto
  then show ?thesis using stk(1) by (simp add: Let_def)
qed

lemma acquirePage_inv:
  assumes inv: "page_inv alloc st free out" and apart: "slabs_apart alloc" and more: "allocCalls st + 1 < 2 ^ 27"
  shows "\<exists>p st' free'. f502a409_acquirePage alloc st = Inr (Some p, st') \<and> page_inv alloc st' free' (p # out) \<and>
           memoryPool st' = memoryPool st \<and> p \<notin> set out"
proof -
  let ?init = "if sa_values (pageStack (pagePool st)) = None then
            bnd (f106c0ab_initStackArray (pageStack (pagePool st))) (\<lambda>stk.
            bnd (b196167f_initListArray (slabList (pagePool st))) (\<lambda>lst.
            Inr (st\<lparr>pagePool := pagePool st\<lparr>pageStack := stk, slabList := lst\<rparr>\<rparr>)))
          else Inr st"
  obtain s1 where s1: "?init = Inr s1" "page_inv alloc s1 free out" "sa_rep (pageStack (pagePool s1)) (map Some free)"
    "sa_values (pageStack (pagePool s1)) \<noteq> None" "memoryPool s1 = memoryPool st" "allocCalls s1 = allocCalls st"
  proof (cases "sa_values (pageStack (pagePool st)) = None")
    case True
    with inv obtain sfree sout where I: "slab_inv alloc st sfree sout" "free = []" "out = []"
      "unat (numPagesFree (pagePool st)) = 0" "allocCalls st < 2 ^ 27" unfolding page_inv_def by auto
    obtain stk where stk: "f106c0ab_initStackArray (pageStack (pagePool st)) = Inr stk" "sa_rep stk []"
      using sa_init by blast
    obtain lst where lst: "b196167f_initListArray (slabList (pagePool st)) = Inr lst" "la_rep lst []"
      using la_init by blast
    have sv: "sa_values stk \<noteq> None" using stk(2) by (auto elim: sa_repE)
    let ?st = "st\<lparr>pagePool := pagePool st\<lparr>pageStack := stk, slabList := lst\<rparr>\<rparr>"
    have "slab_inv alloc ?st sfree sout" by (rule slab_inv_same [OF I(1)]) simp_all
    then have "page_inv alloc ?st [] []"
      unfolding page_inv_def using I stk(2) lst(2) sv
      by (intro exI [of _ sfree] exI [of _ sout] exI [of _ "[]"]) auto
    then show thesis using True stk lst I sv by (intro that [of ?st]) auto
  next
    case False
    then have "sa_rep (pageStack (pagePool st)) (map Some free)" using inv unfolding page_inv_def by auto
    then show thesis using False inv by (intro that [of st]) auto
  qed
  let ?pop = "if numPagesFree (pagePool s1) = 0 then populatePagePool alloc s1 else Inr s1"
  obtain s2 f2 p where s2: "?pop = Inr s2" "page_inv alloc s2 (f2 @ [p]) out"
    "sa_values (pageStack (pagePool s2)) \<noteq> None" "memoryPool s2 = memoryPool st"
  proof (cases "free = []")
    case True
    then have "numPagesFree (pagePool s1) = 0" using s1(2) by (auto simp: page_inv_def unat_eq_0)
    moreover obtain s b where "populatePagePool alloc s1 = Inr s" "page_inv alloc s (page_addrs b) out"
      "sa_values (pageStack (pagePool s)) \<noteq> None" "memoryPool s = memoryPool s1"
      using populatePage_inv [of alloc s1 out] s1 True apart more by auto
    moreover have "page_addrs b = butlast (page_addrs b) @ [last (page_addrs b)]"
      by (rule append_butlast_last_id [symmetric]) (simp add: page_addrs_def)
    ultimately show thesis using s1(5) by (intro that [of s "butlast (page_addrs b)" "last (page_addrs b)"]) auto
  next
    case False
    then obtain f q where fq: "free = f @ [q]" by (cases free rule: rev_cases) auto
    have "numPagesFree (pagePool s1) \<noteq> 0" using s1(2) False by (auto simp: page_inv_def)
    then show thesis using s1 fq by (intro that [of s1 f q]) auto
  qed
  from pop_page_inv [OF s2(2,3)] obtain s3 where s3:
    "(let pp = pagePool s2;
         pp = pp\<lparr>numPagesFree := numPagesFree pp - 1, numPagesInUse := numPagesInUse pp + 1,
                 numPagesUsed := numPagesUsed pp + 1\<rparr>
     in bnd (f106c0ab_pop (pageStack pp)) (\<lambda>(pagePtr, stk).
        Inr (pagePtr, s2\<lparr>pagePool := pp\<lparr>pageStack := stk\<rparr>\<rparr>))) = Inr (Some p, s3)"
    "page_inv alloc s3 f2 (p # out)" "memoryPool s3 = memoryPool s2" by blast
  have "p \<notin> set out" using s3(2) by (auto simp: page_inv_def)
  moreover have "f502a409_acquirePage alloc st = Inr (Some p, s3)"
    unfolding f502a409_acquirePage_def s1(1) bnd_Inr s2(1) s3(1) ..
  ultimately show ?thesis using s3 s2 by auto
qed

subsection \<open>Properties\<close>

text \<open>C19: a slab from the slab pool is never one that is already in use, and the pool's invariant (free
  and used slabs partition the allocated ones, the counters agree) is kept.\<close>

theorem slab_pool_no_double_use:
  assumes "slab_inv alloc st free out" and "slabs_apart alloc" and "allocCalls st + 1 < 2 ^ 31"
  shows "\<exists>p st' free'. b426145b_acquireSlab alloc st = Inr (Some p, st') \<and> p \<notin> set out \<and>
           slab_inv alloc st' free' (p # out)"
  using acquireSlab_inv [OF assms] by blast

lemma slab_pool_no_double_use_witness:
  "\<exists>p st' free'. b426145b_acquireSlab (\<lambda>n. 32768 * Suc n) initial_pools = Inr (Some p, st') \<and> p \<notin> set [] \<and>
     slab_inv (\<lambda>n. 32768 * Suc n) st' free' [p]"
  by (rule slab_pool_no_double_use)
    (rule slab_inv_initial, simp_all add: slabs_apart_def SLABPOOL_SLAB_SIZE_def initial_pools_def, arith)

text \<open>C20: a page from the page pool is never NULL and never one that is already in use; the pages of the
  slabs the pool has taken are exactly the free and the used ones, each once.\<close>

theorem page_pool_no_double_use:
  assumes "page_inv alloc st free out" and "slabs_apart alloc" and "allocCalls st + 1 < 2 ^ 27"
  shows "\<exists>p st' free'. f502a409_acquirePage alloc st = Inr (Some p, st') \<and> p \<notin> set out \<and>
           page_inv alloc st' free' (p # out)"
  using acquirePage_inv [OF assms] by blast

lemma page_pool_no_double_use_witness:
  "\<exists>p st' free'. f502a409_acquirePage (\<lambda>n. 32768 * Suc n) initial_pools = Inr (Some p, st') \<and> p \<notin> set [] \<and>
     page_inv (\<lambda>n. 32768 * Suc n) st' free' [p]"
  by (rule page_pool_no_double_use)
    (rule page_inv_initial, simp_all add: slabs_apart_def SLABPOOL_SLAB_SIZE_def initial_pools_def, arith)

end
