(* ===== verification/File.thy ===== *)
theory File
  imports IntParse
begin

text \<open>
  io/file.c. The system calls are parameters: an outcome (\<open>sysret\<close>) where the call's arguments do not
  matter, a function of the arguments where they do. A function that reports a failure and exits
  yields \<open>Exit\<close> with the text written to stderr; one that reports and goes on yields that text next
  to its value. File descriptors and flags are C ints, kept as 32-bit words.
\<close>

subsection \<open>Flags and modes\<close>

definition SYSTEM_ERROR_CODE :: u32 where "SYSTEM_ERROR_CODE = - 1"
definition END_OF_FILE :: nat where "END_OF_FILE = 0"
definition O_RDONLY :: u32 where "O_RDONLY = 0"
definition O_WRONLY :: u32 where "O_WRONLY = 1"
definition O_RDWR :: u32 where "O_RDWR = 2"
definition O_CREAT :: u32 where "O_CREAT = 64"
definition F_OK :: u32 where "F_OK = 0"
definition X_OK :: u32 where "X_OK = 1"
definition W_OK :: u32 where "W_OK = 2"
definition R_OK :: u32 where "R_OK = 4"
definition PATH_MAX :: nat where "PATH_MAX = 4096"

datatype FileAccessMode = FOPEN_READONLY | FOPEN_READWRITE | FOPEN_WRITEONLY

fun access_flag :: "FileAccessMode \<Rightarrow> u32" where
  "access_flag FOPEN_READONLY = O_RDONLY"
| "access_flag FOPEN_READWRITE = O_RDWR"
| "access_flag FOPEN_WRITEONLY = O_WRONLY"

subsection \<open>Open, close, create\<close>

definition e2f74138_openFile :: "env \<Rightarrow> (string \<Rightarrow> u32 \<Rightarrow> u32 sysret) \<Rightarrow> string \<Rightarrow> u32 \<Rightarrow> u32 result" where
  "e2f74138_openFile e sys_open pathName flags =
     (case sys_open pathName flags of
        SysOk fd \<Rightarrow> Inr fd
      | SysErr errno \<Rightarrow>
          if errno = EISDIR then Inl (Exit (c7c88e52_printLibError e pathName errno))
          else die_lib e (quoted (''Cannot open '' @ [quote]) pathName) errno)"

definition e2f74138_closeFile :: "env \<Rightarrow> (u32 \<Rightarrow> unit sysret) \<Rightarrow> u32 \<Rightarrow> string \<Rightarrow> unit result" where
  "e2f74138_closeFile e sys_close fd pathName =
     (case sys_close fd of
        SysOk u \<Rightarrow> Inr ()
      | SysErr errno \<Rightarrow> die_lib e (quoted (''Cannot close '' @ [quote]) pathName) errno)"

text \<open>The printed text, if any, and the returned descriptor.\<close>

definition e2f74138_createFile ::
    "env \<Rightarrow> (string \<Rightarrow> u32 \<Rightarrow> u32 \<Rightarrow> u32 sysret) \<Rightarrow> string \<Rightarrow> FileAccessMode \<Rightarrow> u32 \<Rightarrow> u32 \<Rightarrow>
     (string \<times> u32) result" where
  "e2f74138_createFile e sys_open pathName aMode flags mode =
     (if aMode = FOPEN_READONLY then
        bnd (warn_error e [Str (''Cannot create file '' @ [quote]), Str pathName,
                           Str ([quote] @ '': read-only File Access Mode specified'')])
          (\<lambda>out. Inr (out, SYSTEM_ERROR_CODE))
      else case sys_open pathName (or (or O_CREAT (access_flag aMode)) flags) mode of
        SysOk fd \<Rightarrow> Inr ([], fd)
      | SysErr errno \<Rightarrow>
          bnd (warn_lib e (quoted (''Cannot create file '' @ [quote]) pathName) errno)
            (\<lambda>out. Inr (out, SYSTEM_ERROR_CODE)))"

subsection \<open>Permissions\<close>

text \<open>\<open>sys_access\<close> is the return value of access(): 0 or -1.\<close>

definition e2f74138_fileExists :: "(string \<Rightarrow> u32 \<Rightarrow> int) \<Rightarrow> string \<Rightarrow> bool" where
  "e2f74138_fileExists sys_access pathName = (sys_access pathName F_OK = 0)"

definition e2f74138_isReadable :: "(string \<Rightarrow> u32 \<Rightarrow> int) \<Rightarrow> string \<Rightarrow> bool" where
  "e2f74138_isReadable sys_access pathName = (sys_access pathName R_OK = 0)"

definition e2f74138_isWritable :: "(string \<Rightarrow> u32 \<Rightarrow> int) \<Rightarrow> string \<Rightarrow> bool" where
  "e2f74138_isWritable sys_access pathName = (sys_access pathName W_OK = 0)"

definition e2f74138_isExecutable :: "(string \<Rightarrow> u32 \<Rightarrow> int) \<Rightarrow> string \<Rightarrow> bool" where
  "e2f74138_isExecutable sys_access pathName = (sys_access pathName X_OK = 0)"

definition e2f74138_isAccessible :: "(string \<Rightarrow> u32 \<Rightarrow> int) \<Rightarrow> string \<Rightarrow> u32 \<Rightarrow> bool" where
  "e2f74138_isAccessible sys_access pathName mode = (sys_access pathName mode = 0)"

subsection \<open>Status\<close>

text \<open>\<open>'st\<close> is struct stat; a failed call leaves the caller's struct as it was.\<close>

definition e2f74138_getDescriptorStatus ::
    "env \<Rightarrow> (u32 \<Rightarrow> 'st sysret) \<Rightarrow> u32 \<Rightarrow> 'st \<Rightarrow> (string \<times> bool \<times> 'st) result" where
  "e2f74138_getDescriptorStatus e sys_fstat fd fileStatus =
     (case sys_fstat fd of
        SysOk st \<Rightarrow> Inr ([], True, st)
      | SysErr errno \<Rightarrow>
          bnd (warn_lib e [Str (''Cannot fstat '' @ [quote]), Sint fd, Chr quote] errno)
            (\<lambda>out. Inr (out, False, fileStatus)))"

definition e2f74138_getFileStatus :: "env \<Rightarrow> (string \<Rightarrow> 'st sysret) \<Rightarrow> string \<Rightarrow> 'st result" where
  "e2f74138_getFileStatus e sys_stat pathName =
     (case sys_stat pathName of
        SysOk st \<Rightarrow> Inr st
      | SysErr errno \<Rightarrow> die_lib e (quoted (''Cannot stat '' @ [quote]) pathName) errno)"

definition e2f74138_getLinkStatus :: "env \<Rightarrow> (string \<Rightarrow> 'st sysret) \<Rightarrow> string \<Rightarrow> 'st result" where
  "e2f74138_getLinkStatus e sys_lstat pathName =
     (case sys_lstat pathName of
        SysOk st \<Rightarrow> Inr st
      | SysErr errno \<Rightarrow> die_lib e (quoted (''Cannot stat '' @ [quote]) pathName) errno)"

subsection \<open>Reading and writing\<close>

text \<open>
  read(fd, buffer, count) yields the bytes read; they overwrite the first cells of the buffer. The
  kernel writes at most \<open>count\<close> bytes; if the buffer is shorter, that is out of bounds.
\<close>

definition e2f74138_readFile ::
    "env \<Rightarrow> (u32 \<Rightarrow> nat \<Rightarrow> string sysret) \<Rightarrow> u32 \<Rightarrow> char block \<Rightarrow> nat \<Rightarrow> string \<Rightarrow> (nat \<times> char block) result" where
  "e2f74138_readFile e sys_read fd buffer count pathName =
     (case sys_read fd count of
        SysOk bytes \<Rightarrow> bnd (blit (map Some bytes) 0 (length bytes) buffer 0)
                        (\<lambda>buffer. Inr (length bytes, buffer))
      | SysErr errno \<Rightarrow> die_lib e (quoted (''Cannot read from file '' @ [quote]) pathName) errno)"

text \<open>The terminator goes to index \<open>fileSize\<close>, also when the buffer was made for PATH_MAX.\<close>

definition e2f74138_readlink ::
    "env \<Rightarrow> (string \<Rightarrow> nat \<Rightarrow> string sysret) \<Rightarrow> string \<Rightarrow> nat \<Rightarrow> char block result" where
  "e2f74138_readlink e sys_readlink pathName fileSize =
     (let bufSize = (if fileSize = 0 then PATH_MAX else fileSize)
      in bnd (f668c4bd_mallocArray 1 (bufSize + 1)) (\<lambda>realPathName.
         bnd (case sys_readlink pathName bufSize of
                SysOk bytes \<Rightarrow> blit (map Some bytes) 0 (length bytes) realPathName 0
              | SysErr errno \<Rightarrow> die_lib e (quoted (''Cannot read link '' @ [quote]) pathName) errno)
           (\<lambda>realPathName. wr realPathName fileSize NUL)))"

text \<open>The first line of a file such as those of sysfs, as a number: the last byte read is dropped.\<close>

definition e2f74138_read_uint64 ::
    "env \<Rightarrow> (string \<Rightarrow> u32 \<Rightarrow> u32 sysret) \<Rightarrow> (u32 \<Rightarrow> nat \<Rightarrow> string sysret) \<Rightarrow> (u32 \<Rightarrow> unit sysret) \<Rightarrow>
     string \<Rightarrow> u64 result" where
  "e2f74138_read_uint64 e sys_open sys_read sys_close pathName =
     bnd (e2f74138_openFile e sys_open pathName O_RDONLY) (\<lambda>fileDescriptor.
     bnd (e2f74138_readFile e sys_read fileDescriptor (fresh 32) 32 pathName) (\<lambda>(numBytes, buffer).
     bnd (e2f74138_closeFile e sys_close fileDescriptor pathName) (\<lambda>_.
     if numBytes \<noteq> END_OF_FILE then db0acb04_parse_uint64_ssize buffer (int numBytes - 1)
     else Inr 0)))"

definition e2f74138_realpath :: "env \<Rightarrow> (string \<Rightarrow> string sysret) \<Rightarrow> string \<Rightarrow> string result" where
  "e2f74138_realpath e c_realpath pathName =
     (case c_realpath pathName of
        SysOk realPathName \<Rightarrow> Inr realPathName
      | SysErr errno \<Rightarrow> die_lib e (quoted (''Cannot find absolute pathname for '' @ [quote]) pathName) errno)"

text \<open>struct timeval: seconds and microseconds. The result is the printed text.\<close>

record TimeValue =
  tv_sec :: int
  tv_usec :: int

definition e2f74138_setTimestamp ::
    "env \<Rightarrow> (u32 \<Rightarrow> TimeValue list \<Rightarrow> unit sysret) \<Rightarrow> u32 \<Rightarrow> string \<Rightarrow> int \<Rightarrow> int \<Rightarrow> string result" where
  "e2f74138_setTimestamp e sys_futimes fd pathName accessTime modTime =
     (case sys_futimes fd [\<lparr>tv_sec = accessTime, tv_usec = 0\<rparr>, \<lparr>tv_sec = modTime, tv_usec = 0\<rparr>] of
        SysOk u \<Rightarrow> Inr []
      | SysErr errno \<Rightarrow> warn_lib e (quoted (''Cannot modify timestamp of file '' @ [quote]) pathName) errno)"

text \<open>The number of bytes written is an ssize_t, -1 for a failure.\<close>

definition e2f74138_writeFile ::
    "env \<Rightarrow> (u32 \<Rightarrow> 'b list \<Rightarrow> nat sysret) \<Rightarrow> u32 \<Rightarrow> 'b block \<Rightarrow> nat \<Rightarrow> string \<Rightarrow> (string \<times> int) result" where
  "e2f74138_writeFile e sys_write fd buffer count pathName =
     bnd (read_cells buffer 0 count) (\<lambda>bytes.
     case sys_write fd bytes of
       SysOk n \<Rightarrow> Inr ([], int n)
     | SysErr errno \<Rightarrow>
         bnd (warn_lib e (quoted (''Cannot write to file '' @ [quote]) pathName) errno)
           (\<lambda>out. Inr (out, - 1)))"

definition e2f74138_printOpenError :: "env \<Rightarrow> string \<Rightarrow> int \<Rightarrow> string result" where
  "e2f74138_printOpenError e pathName errorNum =
     (if errorNum = EISDIR then Inr (c7c88e52_printLibError e pathName errorNum)
      else warn_lib e (quoted (''Cannot open '' @ [quote]) pathName) errorNum)"

subsection \<open>Lemmas\<close>

lemma openFile_ok: "sys_open p f = SysOk fd \<Longrightarrow> e2f74138_openFile e sys_open p f = Inr fd"
  by (simp add: e2f74138_openFile_def)

lemma closeFile_ok: "sys_close fd = SysOk () \<Longrightarrow> e2f74138_closeFile e sys_close fd p = Inr ()"
  by (simp add: e2f74138_closeFile_def)

lemma readFile_ok:
  assumes "sys_read fd n = SysOk bytes" and "length bytes \<le> length buffer"
  shows "e2f74138_readFile e sys_read fd buffer n p =
           Inr (length bytes, map Some bytes @ drop (length bytes) buffer)"
  using assms by (simp add: e2f74138_readFile_def blit_def)

lemma readFile_fails:
  assumes "sys_read fd n = SysErr errno" and "NUL \<notin> set p" and "length p < 100"
  shows "e2f74138_readFile e sys_read fd buffer n p =
           Inl (Exit (c7c88e52_printLibError e (''Cannot read from file '' @ [quote] @ p @ [quote]) errno))"
  using assms by (simp add: e2f74138_readFile_def die_lib_quoted)

lemma openFile_fails:
  assumes "sys_open p f = SysErr errno" and "errno \<noteq> EISDIR" and "NUL \<notin> set p" and "length p < 100"
  shows "e2f74138_openFile e sys_open p f =
           Inl (Exit (c7c88e52_printLibError e (''Cannot open '' @ [quote] @ p @ [quote]) errno))"
  using assms by (simp add: e2f74138_openFile_def die_lib_quoted)

lemma createFile_readonly:
  assumes "NUL \<notin> set p" and "length p < 60"
  shows "e2f74138_createFile e sys_open p FOPEN_READONLY flags mode =
           Inr (c7c88e52_printError_string e (''Cannot create file '' @ [quote] @ p @ [quote] @
                  '': read-only File Access Mode specified''), SYSTEM_ERROR_CODE)"
  using assms by (simp add: e2f74138_createFile_def warn_error_def message_simple)

text \<open>A short file of digits and one more byte.\<close>

lemma read_uint64_digits:
  assumes "sys_open p O_RDONLY = SysOk fd" and "sys_read fd 32 = SysOk (s @ [z])"
    and "sys_close fd = SysOk ()" and "\<forall>ch \<in> set s. is_digit ch" and "length s < 32"
  shows "e2f74138_read_uint64 e sys_open sys_read sys_close p = Inr (of_nat (digits_value s))"
proof -
  let ?b = "map Some (s @ [z]) @ drop (length (s @ [z])) (fresh 32)"
  have "e2f74138_readFile e sys_read fd (fresh 32) 32 p = Inr (length (s @ [z]), ?b)"
    using assms(5) by (intro readFile_ok [of sys_read fd 32 "s @ [z]", OF assms(2)]) simp
  moreover have "holds ?b (s @ [z])" by (rule holds_append_cells)
  then have "db0acb04_parse_uint64_ssize ?b (int (length s)) = Inr (of_nat (digits_value s))"
    using assms(4) by (rule parse_uint64_ssize_digits)
  ultimately show ?thesis
    by (simp add: e2f74138_read_uint64_def openFile_ok [of sys_open p O_RDONLY fd, OF assms(1)]
        closeFile_ok [of sys_close fd, OF assms(3)]
        END_OF_FILE_def)
qed

lemma readlink_cells:
  assumes "sys_readlink p n = SysOk bytes" and "length bytes \<le> n" and "n < 2 ^ 32"
    and "n = (if fileSize = 0 then PATH_MAX else fileSize)"
  shows "e2f74138_readlink e sys_readlink p fileSize =
           Inr ((map Some bytes @ drop (length bytes) (fresh ((n + 16) div 16 * 16)))[fileSize := Some NUL])"
proof -
  have "n + 1 \<le> (n + 16) div 16 * 16" by linarith
  moreover have "fileSize \<le> n" using assms(4) by (simp split: if_splits)
  ultimately show ?thesis using assms(1-3)
    by (simp add: e2f74138_readlink_def Let_def assms(4) [symmetric] mallocArray_small blit_def wr_ok
        add.commute [of 16] del: One_nat_def)
qed

subsection \<open>Properties\<close>

text \<open>C27: a file that holds the decimal digits of a number and one byte more, as the files of sysfs do
  with their newline, is read back as that number.\<close>

theorem read_uint64_roundtrip:
  assumes "sys_open p O_RDONLY = SysOk fd" and "sys_read fd 32 = SysOk (dec_string (unat v) @ [z])"
    and "sys_close fd = SysOk ()"
  shows "e2f74138_read_uint64 e sys_open sys_read sys_close p = Inr v"
  using read_uint64_digits [of sys_open p fd sys_read "dec_string (unat v)" z sys_close, OF assms] dec_string_length_u64 [of v]
  by (simp add: dec_string_digits dec_string_value)

lemma read_uint64_roundtrip_witness:
  "e2f74138_read_uint64 \<lparr>programName = ''p'', strerror = (\<lambda>_. ''err'')\<rparr>
     (\<lambda>_ _. SysOk 3) (\<lambda>_ _. SysOk (dec_string (unat (512::u64)) @ [CHR 0x0A]))
     (\<lambda>_. SysOk ()) ''/sys/block/sda/size'' = Inr 512"
  by (rule read_uint64_roundtrip) simp_all

text \<open>Readlink returns the link's target when it is given the size that lstat reported, and the
  empty string when it is given 0, the size that it treats as unknown: the terminator is then
  written over the first char.\<close>

lemma readlink_result:
  assumes "sys_readlink p n = SysOk bytes" and "n = (if fileSize = 0 then PATH_MAX else fileSize)"
    and "fileSize = 0 \<and> length bytes \<le> PATH_MAX \<or> fileSize = length bytes \<and> fileSize < 2 ^ 32"
    and "NUL \<notin> set bytes"
  shows "bnd (e2f74138_readlink e sys_readlink p fileSize) c_string = Inr (if fileSize = 0 then [] else bytes)"
proof -
  have le: "length bytes \<le> n" and lt: "n < 2 ^ 32" using assms(2,3) by (auto simp: PATH_MAX_def split: if_splits)
  let ?b = "map Some bytes @ drop (length bytes) (fresh ((n + 16) div 16 * 16))"
  have len: "n < length ?b" using le by simp
  show ?thesis
  proof (cases "fileSize = 0")
    case True
    have "holds (?b[0 := Some NUL]) ([] @ [NUL])" 
      using holds_snoc [of ?b "[]" NUL] len by (simp only: list.size holds_Nil)
    then have "c_string (?b[0 := Some NUL]) = Inr []" by (intro c_string_holds) auto
    then show ?thesis using True readlink_cells [of sys_readlink p n bytes fileSize, OF assms(1) le lt assms(2)] by simp
  next
    case False
    then have f: "fileSize = length bytes" "n = length bytes" using assms(2,3) by auto
    have "holds (?b[length bytes := Some NUL]) (bytes @ [NUL])"
      using len f by (intro holds_snoc holds_append_cells) simp
    then have "c_string (?b[fileSize := Some NUL]) = Inr bytes"
      unfolding f(1) using assms(4) by (intro c_string_holds)
    then show ?thesis using False readlink_cells [of sys_readlink p n bytes fileSize, OF assms(1) le lt assms(2)] by simp
  qed
qed

lemma readlink_result_witness:
  "bnd (e2f74138_readlink \<lparr>programName = ''p'', strerror = (\<lambda>_. ''err'')\<rparr>
     (\<lambda>_ _. SysOk ''/bin'') ''/x'' 0) c_string = Inr (if (0::nat) = 0 then [] else ''/bin'') \<and>
   bnd (e2f74138_readlink \<lparr>programName = ''p'', strerror = (\<lambda>_. ''err'')\<rparr>
     (\<lambda>_ _. SysOk ''/bin'') ''/x'' 4) c_string = Inr (if (4::nat) = 0 then [] else ''/bin'')"
  by (intro conjI; rule readlink_result) (simp_all add: PATH_MAX_def)

end
