(* ===== verification/Process.thy ===== *)
theory Process
  imports File
begin

text \<open>
  io/pipe.h, io/shell.c and lang/system.c: pipes, a shell stream, and the execution of a child
  process whose output is collected in a StringBuilder. fork() makes two processes; a function that
  forks is modelled by what each of them does, chosen by the value fork() returns in it.
\<close>

subsection \<open>Pipes\<close>

text \<open>\<open>read\<close> and \<open>write\<close> point to the two cells of \<open>io\<close>; they are kept as indices.\<close>

record Pipe =
  pipe_io :: "u32 list"
  pipe_read :: nat
  pipe_write :: nat

definition PIPE_BUFFER_LENGTH :: nat where "PIPE_BUFFER_LENGTH = 4096"
definition STDOUT_FILENO :: u32 where "STDOUT_FILENO = 1"

definition c31ab0c3_closeRead :: "env \<Rightarrow> (u32 \<Rightarrow> unit sysret) \<Rightarrow> Pipe \<Rightarrow> unit result" where
  "c31ab0c3_closeRead e sys_close pipe =
     (case sys_close (pipe_io pipe ! pipe_read pipe) of
        SysOk u \<Rightarrow> Inr ()
      | SysErr errno \<Rightarrow>
          Inl (Exit (c7c88e52_printLibError e ''Attempt to close read end of pipe() failed'' errno)))"

definition c31ab0c3_closeWrite :: "env \<Rightarrow> (u32 \<Rightarrow> unit sysret) \<Rightarrow> Pipe \<Rightarrow> unit result" where
  "c31ab0c3_closeWrite e sys_close pipe =
     (case sys_close (pipe_io pipe ! pipe_write pipe) of
        SysOk u \<Rightarrow> Inr ()
      | SysErr errno \<Rightarrow>
          Inl (Exit (c7c88e52_printLibError e ''Attempt to close write end of pipe() failed'' errno)))"

definition c31ab0c3_closePipe :: "env \<Rightarrow> (u32 \<Rightarrow> unit sysret) \<Rightarrow> Pipe \<Rightarrow> unit result" where
  "c31ab0c3_closePipe e sys_close pipe =
     (case sys_close (pipe_io pipe ! pipe_read pipe) of
        SysErr errno \<Rightarrow>
          Inl (Exit (c7c88e52_printLibError e ''Attempt to close read end of pipe() failed'' errno))
      | SysOk u \<Rightarrow>
          (case sys_close (pipe_io pipe ! pipe_write pipe) of
             SysErr errno \<Rightarrow>
               Inl (Exit (c7c88e52_printLibError e ''Attempt to close write end of pipe() failed'' errno))
           | SysOk u \<Rightarrow> Inr ()))"

text \<open>pipe() yields the read end and the write end, in this order.\<close>

definition c31ab0c3_createPipe :: "env \<Rightarrow> (u32 \<times> u32) sysret \<Rightarrow> Pipe result" where
  "c31ab0c3_createPipe e sys_pipe =
     (case sys_pipe of
        SysOk (r, w) \<Rightarrow> Inr \<lparr>pipe_io = [r, w], pipe_read = 0, pipe_write = 1\<rparr>
      | SysErr errno \<Rightarrow> Inl (Exit (c7c88e52_printLibError e ''Attempt to create pipe() failed'' errno)))"

definition c31ab0c3_redirectToStdout ::
    "env \<Rightarrow> (u32 \<Rightarrow> u32 \<Rightarrow> unit sysret) \<Rightarrow> Pipe \<Rightarrow> unit result" where
  "c31ab0c3_redirectToStdout e sys_dup2 pipe =
     (case sys_dup2 (pipe_io pipe ! pipe_write pipe) STDOUT_FILENO of
        SysOk u \<Rightarrow> Inr ()
      | SysErr errno \<Rightarrow>
          Inl (Exit (c7c88e52_printLibError e ''Attempt to redirect pipe() to STDOUT failed'' errno)))"

subsection \<open>The shell stream\<close>

text \<open>
  The stream is the text still to be read. A scan yields None at the end of the text, else the
  number of conversions and the rest; a conversion that matches nothing leaves the variable unset.
\<close>

record Shell =
  sh_file :: "string ptr"
  sh_fd :: u32

definition f6843e7e_openShellForRead ::
    "(string \<Rightarrow> string ptr) \<Rightarrow> (string \<Rightarrow> u32) \<Rightarrow> string \<Rightarrow> Shell result" where
  "f6843e7e_openShellForRead c_popen c_fileno command =
     (case c_popen command of
        None \<Rightarrow> Inl (Exit [])
      | Some file \<Rightarrow> Inr \<lparr>sh_file = Some file, sh_fd = c_fileno file\<rparr>)"

definition f6843e7e_readInt ::
    "(string \<Rightarrow> (u32 option \<times> string) option) \<Rightarrow> Shell \<Rightarrow> (u32 \<times> Shell) result" where
  "f6843e7e_readInt scan_d shell =
     bnd (deref (sh_file shell)) (\<lambda>file.
     case scan_d file of
       None \<Rightarrow> Inl (Exit [])
     | Some (None, rest) \<Rightarrow> Inl Uninitialised
     | Some (Some value, rest) \<Rightarrow> Inr (value, shell\<lparr>sh_file := Some rest\<rparr>))"

text \<open>\<open>%s\<close> has no width: the word and its NUL must fit the caller's buffer.\<close>

definition f6843e7e_readString ::
    "(string \<Rightarrow> (string \<times> string) option) \<Rightarrow> Shell \<Rightarrow> char block \<Rightarrow> (char block \<times> Shell) result" where
  "f6843e7e_readString scan_s shell buffer =
     bnd (deref (sh_file shell)) (\<lambda>file.
     case scan_s file of
       None \<Rightarrow> Inl (Exit [])
     | Some (word, rest) \<Rightarrow>
         bnd (blit (map Some (word @ [NUL])) 0 (length word + 1) buffer 0) (\<lambda>buffer.
         Inr (buffer, shell\<lparr>sh_file := Some rest\<rparr>)))"

subsection \<open>Child processes\<close>

text \<open>The wait status as Linux encodes it.\<close>

definition WIFEXITED :: "u32 \<Rightarrow> bool" where "WIFEXITED status \<longleftrightarrow> and status 0x7F = 0"
definition WEXITSTATUS :: "u32 \<Rightarrow> u32" where "WEXITSTATUS status = drop_bit 8 (and status 0xFF00)"
definition EXIT_SUCCESS :: u32 where "EXIT_SUCCESS = 0"

definition c16819a0_waitForChild :: "env \<Rightarrow> (u32 \<Rightarrow> u32 sysret) \<Rightarrow> u32 \<Rightarrow> unit result" where
  "c16819a0_waitForChild e sys_waitpid child =
     (case sys_waitpid child of
        SysErr errno \<Rightarrow>
          die_lib e [Str (''Attempt to wait() on child process '' @ [quote]), Sint child,
                     Str ([quote] @ '' failed'')] errno
      | SysOk status \<Rightarrow>
          if \<not> WIFEXITED status \<or> WEXITSTATUS status \<noteq> EXIT_SUCCESS then
            die_error e [Str (''Invalid child process exit status '' @ [quote]), Sint status, Chr quote]
          else Inr ())"

text \<open>
  The parent's loop: \<open>chunks\<close> are the answers of the successive read() calls; the loop ends at the
  first empty one. No answer left stands for a read() that never returns.
\<close>

fun collect_output ::
    "env \<Rightarrow> u32 \<Rightarrow> string \<Rightarrow> char block \<Rightarrow> string sysret list \<Rightarrow> StringBuilder \<Rightarrow> StringBuilder option result" where
  "collect_output e fd path buffer [] execOutput = Inr None"
| "collect_output e fd path buffer (chunk # chunks) execOutput =
     bnd (e2f74138_readFile e (\<lambda>_ _. chunk) fd buffer PIPE_BUFFER_LENGTH path) (\<lambda>(numBytes, buffer).
     if numBytes = END_OF_FILE then Inr (Some execOutput)
     else bnd (read_cells buffer 0 numBytes) (\<lambda>bytes.
          bnd (c598a24c_append_string_uint32 execOutput bytes (of_nat numBytes)) (\<lambda>execOutput.
          collect_output e fd path buffer chunks execOutput)))"

text \<open>What fork() returns: an error, 0 in the child, the child's id in the parent.\<close>

definition child_fails :: "env \<Rightarrow> StringBuilder result \<Rightarrow> string \<Rightarrow> string ptr list \<Rightarrow> int \<Rightarrow> 'a result" where
  "child_fails e create path argv errno =
     bnd (message_in create
           [Str (''Attempt to execute() child process '' @ [quote]), Str path,
            Str ([quote] @ '' with arguments '' @ [quote]), StrArray argv, Str ([quote] @ '' failed'')])
       (\<lambda>m. Inl (Exit (c7c88e52_printLibError e m errno)))"

text \<open>
  In the parent the value is the collected output. In the child a successful execv() does not
  return, so the outcome there is None unless it failed.
\<close>

definition c16819a0_execute ::
    "env \<Rightarrow> (u32 \<times> u32) sysret \<Rightarrow> u32 sysret \<Rightarrow> (u32 \<Rightarrow> unit sysret) \<Rightarrow> string sysret list \<Rightarrow>
     (u32 \<Rightarrow> u32 sysret) \<Rightarrow> (u32 \<Rightarrow> u32 \<Rightarrow> unit sysret) \<Rightarrow> int option \<Rightarrow>
     string \<Rightarrow> string ptr list \<Rightarrow> StringBuilder option result" where
  "c16819a0_execute e sys_pipe sys_fork sys_close chunks sys_waitpid sys_dup2 execv_errno path argv =
     bnd (c31ab0c3_createPipe e sys_pipe) (\<lambda>pipe.
     case sys_fork of
       SysErr errno \<Rightarrow>
         Inl (Exit (c7c88e52_printLibError e ''Attempt to fork() child process failed'' errno))
     | SysOk child \<Rightarrow>
         if 0 < sint child then
           bnd (c31ab0c3_closeWrite e sys_close pipe) (\<lambda>_.
           bnd (c598a24c_createStringBuilder_uint32 (of_nat PIPE_BUFFER_LENGTH)) (\<lambda>execOutput.
           bnd (collect_output e (pipe_io pipe ! pipe_read pipe) path (fresh PIPE_BUFFER_LENGTH) chunks execOutput)
             (\<lambda>out. case out of
                None \<Rightarrow> Inr None
              | Some execOutput \<Rightarrow>
                  bnd (c31ab0c3_closeRead e sys_close pipe) (\<lambda>_.
                  bnd (c16819a0_waitForChild e sys_waitpid child) (\<lambda>_. Inr (Some execOutput))))))
         else
           bnd (c31ab0c3_redirectToStdout e sys_dup2 pipe) (\<lambda>_.
           bnd (c31ab0c3_closeRead e sys_close pipe) (\<lambda>_.
           case execv_errno of
             None \<Rightarrow> Inr None
           | Some errno \<Rightarrow> child_fails e (c598a24c_createStringBuilder_uint32 256) path argv errno)))"

text \<open>execute_pipe leaves the reading to the caller; its child exits silently when execv() returns.\<close>

definition c16819a0_execute_pipe ::
    "env \<Rightarrow> (u32 \<times> u32) sysret \<Rightarrow> u32 sysret \<Rightarrow> (u32 \<Rightarrow> unit sysret) \<Rightarrow> (u32 \<Rightarrow> u32 \<Rightarrow> unit sysret) \<Rightarrow>
     int option \<Rightarrow> string \<Rightarrow> string ptr list \<Rightarrow> (u32 option \<times> Pipe) result" where
  "c16819a0_execute_pipe e sys_pipe sys_fork sys_close sys_dup2 execv_errno path argv =
     bnd (c31ab0c3_createPipe e sys_pipe) (\<lambda>pipe.
     case sys_fork of
       SysErr errno \<Rightarrow>
         Inl (Exit (c7c88e52_printLibError e ''Attempt to fork() child process failed'' errno))
     | SysOk child \<Rightarrow>
         if 0 < sint child then
           bnd (c31ab0c3_closeWrite e sys_close pipe) (\<lambda>_. Inr (Some child, pipe))
         else
           bnd (c31ab0c3_redirectToStdout e sys_dup2 pipe) (\<lambda>_.
           bnd (c31ab0c3_closeRead e sys_close pipe) (\<lambda>_.
           case execv_errno of
             None \<Rightarrow> Inr (None, pipe)
           | Some errno \<Rightarrow> child_fails e (c598a24c_initStringBuilder_uint32 256) path argv errno)))"

subsection \<open>Collecting the output\<close>

lemma execOutput_init:
  "\<exists>sb. c598a24c_createStringBuilder_uint32 (of_nat PIPE_BUFFER_LENGTH) = Inr sb \<and> sb_rep sb [] \<and> sb_size sb = 4096"
  by (simp add: c598a24c_createStringBuilder_uint32_def PIPE_BUFFER_LENGTH_def mallocArray_small wr_ok
      sb_rep_def sb_core_def holds_iff_nth fresh_def)

lemma read_chunk:
  assumes "length bytes \<le> 4096" and "length buffer = 4096"
  shows "\<exists>b. e2f74138_readFile e (\<lambda>_ _. SysOk bytes) fd buffer PIPE_BUFFER_LENGTH path = Inr (length bytes, b) \<and>
             length b = 4096 \<and> read_cells b 0 (length bytes) = Inr bytes"
  using assms readFile_ok [of "\<lambda>_ _. SysOk bytes" fd PIPE_BUFFER_LENGTH bytes buffer e path]
  by (auto intro: read_cells_all holds_append_cells)

lemma collect_output_rest:
  assumes "\<forall>c \<in> set cs. c \<noteq> [] \<and> length c \<le> 4096" and "length buffer = 4096"
    and "sb_rep sb s" and "sb_size sb = 4096" and "length s + length (concat cs) < 2 ^ 30"
    and "s \<noteq> [] \<or> (case cs of [] \<Rightarrow> True | c # _ \<Rightarrow> length c < 4095)"
  shows "\<exists>sb'. collect_output e fd path buffer (map SysOk cs @ [SysOk []]) sb = Inr (Some sb') \<and>
               sb_rep sb' (s @ concat cs)"
  using assms
proof (induction cs arbitrary: buffer sb s)
  case Nil
  then obtain b where "e2f74138_readFile e (\<lambda>_ _. SysOk []) fd buffer PIPE_BUFFER_LENGTH path = Inr (length [], b)"
    using read_chunk [of "[]" buffer e fd path] by auto
  with Nil show ?case by (simp add: END_OF_FILE_def)
next
  case (Cons c cs)
  from Cons.prems have c: "c \<noteq> []" "length c \<le> 4096" by auto
  obtain b where b: "e2f74138_readFile e (\<lambda>_ _. SysOk c) fd buffer PIPE_BUFFER_LENGTH path = Inr (length c, b)"
    "length b = 4096" "read_cells b 0 (length c) = Inr c"
    using read_chunk [OF c(2) Cons.prems(2)] by blast
  have n: "unat (of_nat (length c) :: u32) = length c" using c(2) by (simp add: unat_of_nat)
  have "s \<noteq> [] \<or> unat (of_nat (length c) :: u32) + 1 < unat (sb_size sb)"
    using Cons.prems(4,6) n by auto
  with appendBytes_ok [OF Cons.prems(3), of "of_nat (length c)" c] n Cons.prems(5) obtain sb1 where sb1:
    "c598a24c_append_string_uint32 sb c (of_nat (length c)) = Inr sb1" "sb_rep sb1 (s @ c)" "sb_size sb1 = sb_size sb"
    by (auto simp: append_string_uint32_is_appendBytes)
  have "\<exists>sb'. collect_output e fd path b (map SysOk cs @ [SysOk []]) sb1 = Inr (Some sb') \<and>
               sb_rep sb' ((s @ c) @ concat cs)"
    using Cons.prems c sb1 b by (intro Cons.IH) auto
  then show ?case using b sb1 c by (simp add: END_OF_FILE_def)
qed

subsection \<open>Properties\<close>

text \<open>C22: the parent of execute gets the whole output of its child in order, whatever the sizes of the
  pieces in which read() delivers it, provided the first piece leaves room in the builder; the child's
  exit status has been checked.\<close>

theorem execute_collects_output:
  assumes "0 < sint child" and "\<forall>fd. sys_close fd = SysOk ()" and "sys_waitpid child = SysOk 0"
    and "\<forall>c \<in> set cs. c \<noteq> [] \<and> length c \<le> 4096" and "length (concat cs) < 2 ^ 30"
    and "case cs of [] \<Rightarrow> True | c # _ \<Rightarrow> length c < 4095"
  shows "\<exists>sb. c16819a0_execute e (SysOk (r, w)) (SysOk child) sys_close (map SysOk cs @ [SysOk []])
                sys_waitpid sys_dup2 execv path argv = Inr (Some sb) \<and> sb_rep sb (concat cs)"
proof -
  obtain sb0 where sb0: "c598a24c_createStringBuilder_uint32 (of_nat PIPE_BUFFER_LENGTH) = Inr sb0"
    "sb_rep sb0 []" "sb_size sb0 = 4096" using execOutput_init by blast
  have "length (fresh PIPE_BUFFER_LENGTH :: char block) = 4096" by (simp add: PIPE_BUFFER_LENGTH_def)
  from collect_output_rest [OF assms(4) this sb0(2,3), of e r path] assms(5,6) obtain sb where
    "collect_output e r path (fresh PIPE_BUFFER_LENGTH) (map SysOk cs @ [SysOk []]) sb0 = Inr (Some sb)"
    "sb_rep sb (concat cs)" by auto
  moreover have "c16819a0_waitForChild e sys_waitpid child = Inr ()"
    using assms(3) by (simp add: c16819a0_waitForChild_def WIFEXITED_def WEXITSTATUS_def EXIT_SUCCESS_def)
  ultimately show ?thesis
    using assms(1,2) sb0(1)
    by (simp add: c16819a0_execute_def c31ab0c3_createPipe_def c31ab0c3_closeWrite_def c31ab0c3_closeRead_def)
qed

lemma execute_collects_output_witness:
  "\<exists>sb. c16819a0_execute \<lparr>programName = ''p'', strerror = (\<lambda>_. ''err'')\<rparr> (SysOk (3, 4)) (SysOk 77) (\<lambda>_. SysOk ())
          (map SysOk [''ab'', ''c''] @ [SysOk []]) (\<lambda>_. SysOk 0) (\<lambda>_ _. SysOk ()) None ''/bin/x'' [None] =
        Inr (Some sb) \<and> sb_rep sb (concat [''ab'', ''c''])"
  by (rule execute_collects_output) simp_all

text \<open>C23: if the first read() delivers 4095 or 4096 bytes, execute aborts: the builder must grow while it is
  still empty, and resizing an empty array aborts.\<close>

theorem execute_aborts_on_full_read:
  assumes "0 < sint child" and "\<forall>fd. sys_close fd = SysOk ()" and "4095 \<le> length c" and "length c \<le> 4096"
  shows "c16819a0_execute e (SysOk (r, w)) (SysOk child) sys_close (SysOk c # chunks)
           sys_waitpid sys_dup2 execv path argv = Inl Abort"
proof -
  obtain sb0 where sb0: "c598a24c_createStringBuilder_uint32 (of_nat PIPE_BUFFER_LENGTH) = Inr sb0"
    "sb_rep sb0 []" "sb_size sb0 = 4096" using execOutput_init by blast
  have "length (fresh PIPE_BUFFER_LENGTH :: char block) = 4096" by (simp add: PIPE_BUFFER_LENGTH_def)
  from read_chunk [OF assms(4) this, of e r path] obtain b where b:
    "e2f74138_readFile e (\<lambda>_ _. SysOk c) r (fresh PIPE_BUFFER_LENGTH) PIPE_BUFFER_LENGTH path = Inr (length c, b)"
    "read_cells b 0 (length c) = Inr c" by blast
  have n: "unat (of_nat (length c) :: u32) = length c" using assms(4) by (simp add: unat_of_nat)
  have "c598a24c_append_string_uint32 sb0 c (of_nat (length c)) = Inl Abort"
    unfolding append_string_uint32_is_appendBytes
    using assms(3,4) n sb0(3) by (intro appendBytes_empty_aborts [OF sb0(2)]) auto
  moreover have "length c \<noteq> END_OF_FILE" using assms(3) by (auto simp: END_OF_FILE_def)
  ultimately show ?thesis
    using assms(1,2) sb0(1) b
    by (simp add: c16819a0_execute_def c31ab0c3_createPipe_def c31ab0c3_closeWrite_def)
qed

lemma execute_aborts_on_full_read_witness:
  "c16819a0_execute \<lparr>programName = ''p'', strerror = (\<lambda>_. ''err'')\<rparr> (SysOk (3, 4)) (SysOk 77) (\<lambda>_. SysOk ())
     (SysOk (replicate 4096 CHR ''x'') # []) (\<lambda>_. SysOk 0) (\<lambda>_ _. SysOk ()) None ''/bin/x'' [None] = Inl Abort"
  by (rule execute_aborts_on_full_read) simp_all

end
