(* ===== verification/Bits.thy ===== *)
theory Bits
  imports Prelude
begin

unbundle bit_operations_syntax

text \<open>
  compress/bits (assembly): reversal of the low bits of a 16-bit value through a table of
  six-bit reversals, and hash/crc32 (assembly): CRC-32 through a table of sixteen half-byte
  entries. \<open>reverse16_bit\<close> gives the meaning of the first, \<open>crc32_bitwise\<close> equates the second with
  the bit-by-bit definition of CRC-32. Both routines read a 64-byte or 16-entry table that the
  index mask keeps in range.
\<close>

subsection \<open>Bit reversal\<close>

definition reverseBitLUT :: "u8 list" where
  "reverseBitLUT =
    [0x00,0x20,0x10,0x30,0x08,0x28,0x18,0x38,
     0x04,0x24,0x14,0x34,0x0c,0x2c,0x1c,0x3c,
     0x02,0x22,0x12,0x32,0x0a,0x2a,0x1a,0x3a,
     0x06,0x26,0x16,0x36,0x0e,0x2e,0x1e,0x3e,
     0x01,0x21,0x11,0x31,0x09,0x29,0x19,0x39,
     0x05,0x25,0x15,0x35,0x0d,0x2d,0x1d,0x3d,
     0x03,0x23,0x13,0x33,0x0b,0x2b,0x1b,0x3b,
     0x07,0x27,0x17,0x37,0x0f,0x2f,0x1f,0x3f]"

definition reverse_lookup :: "u16 \<Rightarrow> u16" where
  "reverse_lookup v = ucast (reverseBitLUT ! unat (v AND 0x3F))"

text \<open>The shift count of the last instruction is the byte \<open>16 - numBits\<close>, of which the processor uses five bits.\<close>

definition e474415b_reverse16 :: "u16 \<Rightarrow> u32 \<Rightarrow> u16" where
  "e474415b_reverse16 v numBits =
     (let ax = push_bit 10 (reverse_lookup v);
          di = drop_bit 6 v;
          ax = (if di = 0 then ax
                else let ax = ax OR push_bit 4 (reverse_lookup di);
                         di = drop_bit 6 di
                     in if di = 0 then ax
                        else ax OR ucast (drop_bit 2 (ucast (reverse_lookup di) :: u8)));
          adjust = unat ((16 - ucast numBits :: u8) AND 0x1F)
      in drop_bit adjust ax)"

lemma all_below: "(\<forall>i < n. P i) \<longleftrightarrow> list_all P [0..<n]"
  by (auto simp: list_all_iff)

lemma reverseBitLUT_bits:
  "\<forall>k < 64. \<forall>i < 8. bit (reverseBitLUT ! k) i \<longleftrightarrow> i < 6 \<and> bit (of_nat k :: u8) (5 - i)"
  unfolding all_below reverseBitLUT_def by code_simp

lemma bit_reverse_lookup: "bit (reverse_lookup v) i \<longleftrightarrow> i < 6 \<and> bit v (5 - i)"
proof -
  define k where "k = unat (v AND 0x3F)"
  have k: "k < 64"
    using word_and_le1 [of v "0x3F"] by (simp add: k_def word_le_nat_alt)
  have b: "bit (of_nat k :: u8) j \<longleftrightarrow> bit v j" if "j < 6" for j
  proof -
    have "(of_nat k :: u8) = ucast (v AND 0x3F)" by (simp add: k_def)
    then show ?thesis using that by (auto simp: bit_simps less_Suc_eq numeral_eq_Suc)
  qed
  show ?thesis
  proof (cases "i < 8")
    case True
    then have "bit (reverseBitLUT ! k) i \<longleftrightarrow> i < 6 \<and> bit (of_nat k :: u8) (5 - i)"
      using reverseBitLUT_bits k by blast
    then show ?thesis using b [of "5 - i"] True
      by (auto simp: reverse_lookup_def k_def [symmetric] bit_ucast_iff)
  next
    case False
    then have "\<not> bit (reverseBitLUT ! k) i" using bit_imp_le_length [of "reverseBitLUT ! k" i] by auto
    then show ?thesis using False by (simp add: reverse_lookup_def k_def [symmetric] bit_ucast_iff)
  qed
qed

lemma bit_reverse_all:
  "bit (push_bit 10 (reverse_lookup v) OR push_bit 4 (reverse_lookup (drop_bit 6 v)) OR
        ucast (drop_bit 2 (ucast (reverse_lookup (drop_bit 12 v)) :: u8))) i
     \<longleftrightarrow> i < 16 \<and> bit v (15 - i)"
proof (cases "i < 16")
  case True
  have high: "\<not> bit v j" if "16 \<le> j" for j
    using that bit_imp_le_length [of v j] by auto
  from True consider "10 \<le> i" | "4 \<le> i" "i < 10" | "i < 4" by linarith
  then show ?thesis
  proof cases
    case 1
    then have "5 - (i - 10) = 15 - i" using True by linarith
    with 1 True show ?thesis by (auto simp: bit_simps bit_reverse_lookup)
  next
    case 2
    then have "6 + (5 - (i - 4)) = 15 - i" by linarith
    with 2 True show ?thesis by (auto simp: bit_simps bit_reverse_lookup)
  next
    case 3
    then have "12 + (5 - (2 + i)) = 15 - i" by linarith
    with 3 True show ?thesis by (auto simp: bit_simps bit_reverse_lookup)
  qed
next
  case False
  then show ?thesis by (auto simp: bit_simps bit_reverse_lookup)
qed

lemma reverse_lookup_0: "reverse_lookup 0 = 0"
  by (rule bit_word_eqI) (simp add: bit_reverse_lookup)

text \<open>The early exits only skip parts that are zero.\<close>

lemma reverse16_unfold:
  "e474415b_reverse16 v numBits =
     drop_bit (unat ((16 - ucast numBits :: u8) AND 0x1F))
       (push_bit 10 (reverse_lookup v) OR push_bit 4 (reverse_lookup (drop_bit 6 v)) OR
        ucast (drop_bit 2 (ucast (reverse_lookup (drop_bit 12 v)) :: u8)))"
proof -
  have "drop_bit 12 v = 0" if "drop_bit 6 v = 0"
  proof -
    have "drop_bit 12 v = drop_bit 6 (drop_bit 6 v)" by simp
    then show ?thesis using that by simp
  qed
  then show ?thesis
    by (simp add: e474415b_reverse16_def Let_def reverse_lookup_0 or.assoc del: drop_bit_or)
qed

lemma reverse16_bit:
  assumes "unat numBits \<le> 16"
  shows "bit (e474415b_reverse16 v numBits) i \<longleftrightarrow> i < unat numBits \<and> bit v (unat numBits - 1 - i)"
proof -
  have "numBits = of_nat (unat numBits)" by simp
  moreover have "\<forall>n < 17. unat ((16 - ucast (of_nat n :: u32) :: u8) AND 0x1F) = 16 - n"
    unfolding all_below by code_simp
  ultimately have a: "unat ((16 - ucast numBits :: u8) AND 0x1F) = 16 - unat numBits"
    using assms by (metis le_imp_less_Suc numeral_plus_one semiring_norm(5) Suc_eq_plus1 semiring_norm(2))
  have high: "\<not> bit v j" if "16 \<le> j" for j
    using that bit_imp_le_length [of v j] by auto
  have "15 - (16 - unat numBits + i) = unat numBits - 1 - i" using assms by linarith
  moreover have "16 - unat numBits + i < 16 \<longleftrightarrow> i < unat numBits" using assms by linarith
  ultimately show ?thesis
    unfolding reverse16_unfold a bit_drop_bit_eq comp_apply bit_reverse_all by simp
qed

subsection \<open>CRC-32\<close>

definition halfByteLUT :: "u32 list" where
  "halfByteLUT =
    [0x00000000,0x1DB71064,0x3B6E20C8,0x26D930AC,0x76DC4190,0x6B6B51F4,0x4DB26158,0x5005713C,
     0xEDB88320,0xF00F9344,0xD6D6A3E8,0xCB61B38C,0x9B64C2B0,0x86D3D2D4,0xA00AE278,0xBDBDF21C]"

definition crc_byte :: "u32 \<Rightarrow> u8 \<Rightarrow> u32" where
  "crc_byte crc current =
     (let crc = halfByteLUT ! unat ((crc XOR ucast current) AND 0x0F) XOR drop_bit 4 crc
      in halfByteLUT ! unat ((crc XOR ucast (drop_bit 4 current)) AND 0x0F) XOR drop_bit 4 crc)"

definition b7e0468d_crc32 :: "u8 list \<Rightarrow> u32 \<Rightarrow> u32" where
  "b7e0468d_crc32 buffer crc32 = NOT (foldl crc_byte (NOT crc32) buffer)"

text \<open>The reference: one bit at a time, reflected polynomial EDB88320.\<close>

definition crc_bit :: "u32 \<Rightarrow> u32" where
  "crc_bit crc = (if bit crc 0 then drop_bit 1 crc XOR 0xEDB88320 else drop_bit 1 crc)"

definition crc32_ref :: "u8 list \<Rightarrow> u32 \<Rightarrow> u32" where
  "crc32_ref bytes crc32 = NOT (foldl (\<lambda>crc b. (crc_bit ^^ 8) (crc XOR ucast b)) (NOT crc32) bytes)"

lemma crc_bit_xor: "crc_bit (a XOR b) = crc_bit a XOR crc_bit b"
  by (rule bit_word_eqI) (auto simp: crc_bit_def bit_simps)

lemma crc_bits_xor: "(crc_bit ^^ n) (a XOR b) = (crc_bit ^^ n) a XOR (crc_bit ^^ n) b"
  by (induction n) (simp_all add: crc_bit_xor)

lemma crc_bits_low_zero: "(\<forall>i < n. \<not> bit a i) \<Longrightarrow> (crc_bit ^^ n) a = drop_bit n a"
proof (induction n)
  case (Suc n)
  then have "(crc_bit ^^ n) a = drop_bit n a" by simp
  moreover have "\<not> bit (drop_bit n a) 0" using Suc.prems by (simp add: bit_drop_bit_eq)
  moreover have "drop_bit (Suc n) a = drop_bit 1 (drop_bit n a)" by simp
  ultimately show ?case by (simp add: crc_bit_def [of "drop_bit n a"])
qed simp

lemma halfByteLUT_crc: "\<forall>k < 16. halfByteLUT ! k = (crc_bit ^^ 4) (of_nat k)"
  unfolding all_below halfByteLUT_def crc_bit_def by code_simp

lemma bit_nibble_int [simp]: "bit (15 :: int) i \<longleftrightarrow> i < 4"
proof -
  have "(15 :: int) = mask 4" by (simp add: mask_eq_exp_minus_1)
  then show ?thesis by (simp only: bit_mask_iff) simp
qed

lemma bit_byte: "bit (b :: u8) i \<Longrightarrow> i < 8"
  using bit_imp_le_length [of b i] by simp

lemma nibble_bits: "halfByteLUT ! unat (x AND 0x0F) XOR drop_bit 4 x = (crc_bit ^^ 4) x"
proof -
  define k where "k = unat (x AND 0x0F)"
  have k: "k < 16" using word_and_le1 [of x "0x0F"] by (simp add: k_def word_le_nat_alt)
  have "of_nat k = x AND 0x0F" by (simp add: k_def)
  then have lut: "halfByteLUT ! k = (crc_bit ^^ 4) (x AND 0x0F)" using halfByteLUT_crc k by metis
  let ?h = "push_bit 4 (drop_bit 4 x)"
  have split: "x = (x AND 0x0F) XOR ?h"
    by (rule bit_word_eqI) (auto simp: bit_push_bit_iff bit_drop_bit_eq bit_xor_iff bit_and_iff)
  have low: "\<forall>i < 4. \<not> bit ?h i" by (simp add: bit_push_bit_iff)
  have "drop_bit 4 ?h = drop_bit 4 x"
    by (rule bit_word_eqI) (auto simp: bit_drop_bit_eq bit_push_bit_iff dest: bit_imp_le_length)
  then have "(crc_bit ^^ 4) ?h = drop_bit 4 x" using crc_bits_low_zero [OF low] by simp
  then have "(crc_bit ^^ 4) x = (crc_bit ^^ 4) (x AND 0x0F) XOR drop_bit 4 x"
    by (subst split) (simp only: crc_bits_xor)
  then show ?thesis using lut by (simp add: k_def)
qed

text \<open>The operand's low half-byte decides the index, its upper half-byte does not reach the shifted crc.\<close>

lemma crc_byte_bits: "crc_byte crc b = (crc_bit ^^ 8) (crc XOR ucast b)"
proof -
  let ?lo = "ucast b AND 0x0F :: u32"
  let ?hi = "ucast (drop_bit 4 b) :: u32"
  have idx: "(crc XOR ucast b) AND 0x0F = (crc XOR ?lo) AND 0x0F"
    by (rule bit_word_eqI) (auto simp: bit_simps)
  have sh: "drop_bit 4 crc = drop_bit 4 (crc XOR ?lo)"
    by (rule bit_word_eqI) (auto simp: bit_drop_bit_eq bit_xor_iff bit_and_iff)
  have one: "halfByteLUT ! unat ((crc XOR ucast b) AND 0x0F) XOR drop_bit 4 crc = (crc_bit ^^ 4) (crc XOR ?lo)"
    unfolding idx sh by (rule nibble_bits)
  let ?t = "(crc_bit ^^ 4) (crc XOR ?lo)"
  have sh2: "drop_bit 4 ?t = drop_bit 4 (?t XOR ?hi)"
    by (rule bit_word_eqI) (auto simp: bit_drop_bit_eq bit_xor_iff bit_ucast_iff dest: bit_byte)
  have two: "crc_byte crc b = (crc_bit ^^ 4) (?t XOR ?hi)"
    unfolding crc_byte_def Let_def one by (subst sh2) (rule nibble_bits)
  have low: "\<forall>i < 4. \<not> bit (push_bit 4 ?hi) i" by (simp add: bit_push_bit_iff)
  have "drop_bit 4 (push_bit 4 ?hi) = ?hi"
    by (rule bit_word_eqI) (auto simp: bit_drop_bit_eq bit_push_bit_iff bit_ucast_iff dest: bit_byte)
  then have hi: "(crc_bit ^^ 4) (push_bit 4 ?hi) = ?hi" using crc_bits_low_zero [OF low] by simp
  have parts: "crc XOR ucast b = (crc XOR ?lo) XOR push_bit 4 ?hi"
    by (rule bit_word_eqI) (auto simp: bit_drop_bit_eq bit_push_bit_iff bit_xor_iff bit_and_iff bit_ucast_iff)
  have "(crc_bit ^^ 8) x = (crc_bit ^^ 4) ((crc_bit ^^ 4) x)" for x
    using funpow_add [of 4 4 crc_bit] by simp
  then have "(crc_bit ^^ 8) (crc XOR ucast b) = (crc_bit ^^ 4) ((crc_bit ^^ 4) ((crc XOR ?lo) XOR push_bit 4 ?hi))"
    unfolding parts by simp
  also have "\<dots> = (crc_bit ^^ 4) (?t XOR ?hi)" unfolding crc_bits_xor hi ..
  finally show ?thesis using two by simp
qed

lemma crc32_append: "b7e0468d_crc32 (xs @ ys) crc = b7e0468d_crc32 ys (b7e0468d_crc32 xs crc)"
  by (simp add: b7e0468d_crc32_def)

subsection \<open>Properties\<close>

text \<open>Bit reversal: bit \<open>i\<close> of the result is bit \<open>numBits - 1 - i\<close> of the value, and the bits from
  \<open>numBits\<close> on are zero.\<close>

theorem reverse16_reverses:
  assumes "unat numBits \<le> 16"
  shows "bit (e474415b_reverse16 v numBits) i = (i < unat numBits \<and> bit v (unat numBits - 1 - i))"
  using assms by (rule reverse16_bit)

lemma reverse16_reverses_witness:
  "bit (e474415b_reverse16 0b1101 4) 0 = (0 < unat (4::u32) \<and> bit (0b1101::u16) (unat (4::u32) - 1 - 0))"
  using reverse16_reverses [of 4 "0b1101"] by simp

text \<open>C10: the half-byte table algorithm computes CRC-32 as the bit-by-bit definition does, for every
  input and start value.\<close>

theorem crc32_bitwise: "b7e0468d_crc32 buffer crc32 = crc32_ref buffer crc32"
  by (simp add: b7e0468d_crc32_def crc32_ref_def crc_byte_bits [abs_def])

end
