(* ===== verification/Async.thy ===== *)
theory Async
  imports Pools QueueBounded File
begin

text \<open>
  io/async.c: batched asynchronous I/O. Requests are objects of the memory pool, named by their
  address in a store, and reused through a stack of free ones. A context queues requests in a
  bounded queue; a file's ticket takes up to eight of them per submission and collects the events.
  The context that an AIOFile points at is an argument of the operations. The kernel's answers
  are parameters.
\<close>

definition AIO_READ :: u16 where "AIO_READ = 0"
definition AIO_WRITE :: u16 where "AIO_WRITE = 1"
definition O_DIRECT :: u32 where "O_DIRECT = 0x4000"
definition ASYNC_MAX_REQUEST_QUEUE_CAPACITY :: u32 where "ASYNC_MAX_REQUEST_QUEUE_CAPACITY = 2048"
definition ASYNC_TIMEOUT_NSEC :: int where "ASYNC_TIMEOUT_NSEC = 6000000"
definition ASYNC_AIOTICKET_MAXSIZE :: u32 where "ASYNC_AIOTICKET_MAXSIZE = 32768"

text \<open>struct iocb and struct io_event of the kernel interface.\<close>

record AIORequest =
  aio_data :: u64
  aio_fildes :: u32
  aio_lio_opcode :: u16
  aio_reqprio :: u16
  aio_buf :: "nat ptr"
  aio_nbytes :: u64
  aio_offset :: u64
  aio_flags :: u32
  aio_resfd :: u32

record AIOEvent =
  ev_data :: u64
  ev_obj :: "nat ptr"
  ev_res :: u64
  ev_res2 :: u64

record AIORequestPool =
  arp_structStack :: "nat StackArray"
  numAIORequestAlloc :: u32
  numAIORequestFree :: u32
  numAIORequestInUse :: u32
  numAIORequestUsed :: u32

record AIOContext =
  ctx_id :: u64
  requestQueue :: "nat QueueBounded"
  timeout_sec :: int
  timeout_nsec :: int
  ctx_numBytesRead :: u64
  ctx_numBytesWrite :: u64
  maxOperations :: u32
  ctx_numRequests :: u32
  numReadRequests :: u32
  numWriteRequests :: u32

record AIOTicket =
  requestList :: "nat ptr block"
  eventList :: "AIOEvent block"
  tk_numRequests :: u32
  tk_numEvents :: u32
  tk_numBytesRead :: u64
  tk_numBytesWrite :: u64

record AIOFile =
  aioTicket :: AIOTicket
  fileName :: string
  fileSize :: u64
  aio_file_offset :: u64
  aio_fd :: u32
  numRequestsRemaining :: u32

text \<open>The global state: the memory pools, the request pool and the store of request objects.\<close>

record io_state =
  io_pools :: pools
  aioRequestPool :: AIORequestPool
  aioRequests :: "nat \<Rightarrow> AIORequest option"

subsection \<open>The request pool\<close>

definition sizeof_AIORequest :: u32 where "sizeof_AIORequest = 64"

text \<open>A request is handed out uninitialised, or with what its last use left in it.\<close>

definition f1207515_acquireAIORequest ::
    "env \<Rightarrow> (nat \<Rightarrow> nat) \<Rightarrow> 'z io_state_scheme \<Rightarrow> (nat ptr \<times> 'z io_state_scheme) result" where
  "f1207515_acquireAIORequest e alloc st =
     bnd (if sa_values (arp_structStack (aioRequestPool st)) = None then
            bnd (f106c0ab_initStackArray (arp_structStack (aioRequestPool st))) (\<lambda>stk.
            Inr (st\<lparr>aioRequestPool := (aioRequestPool st)\<lparr>arp_structStack := stk\<rparr>\<rparr>))
          else Inr st) (\<lambda>st.
     bnd (if sa_length (arp_structStack (aioRequestPool st)) = 0 then
            bnd (f502a409_acquireMemory e alloc (io_pools st) sizeof_AIORequest) (\<lambda>(aioRequest, msg, pools).
            Inr (aioRequest, st\<lparr>io_pools := pools,
              aioRequestPool := (aioRequestPool st)\<lparr>numAIORequestAlloc := numAIORequestAlloc (aioRequestPool st) + 1\<rparr>\<rparr>))
          else
            bnd (f106c0ab_pop (arp_structStack (aioRequestPool st))) (\<lambda>(aioRequest, stk).
            Inr (aioRequest, st\<lparr>aioRequestPool := (aioRequestPool st)\<lparr>arp_structStack := stk,
              numAIORequestFree := numAIORequestFree (aioRequestPool st) - 1\<rparr>\<rparr>))) (\<lambda>(aioRequest, st).
     Inr (aioRequest, st\<lparr>aioRequestPool := (aioRequestPool st)\<lparr>
            numAIORequestInUse := numAIORequestInUse (aioRequestPool st) + 1,
            numAIORequestUsed := numAIORequestUsed (aioRequestPool st) + 1\<rparr>\<rparr>)))"

definition f1207515_releaseAIORequest :: "'z io_state_scheme \<Rightarrow> nat ptr \<Rightarrow> 'z io_state_scheme result" where
  "f1207515_releaseAIORequest st aioRequest =
     bnd (f106c0ab_push (arp_structStack (aioRequestPool st)) aioRequest) (\<lambda>stk.
     Inr (st\<lparr>aioRequestPool := (aioRequestPool st)\<lparr>arp_structStack := stk,
            numAIORequestFree := numAIORequestFree (aioRequestPool st) + 1,
            numAIORequestInUse := numAIORequestInUse (aioRequestPool st) - 1\<rparr>\<rparr>))"

subsection \<open>Contexts\<close>

text \<open>
  The calls of the kernel go through the function syscall, which has set errno and returns -1 when one fails; the code stores the
  negated result in errno again.
\<close>

definition SYSCALL_ERROR :: int where "SYSCALL_ERROR = - 1"

definition new_AIOContext :: "u64 \<Rightarrow> u32 \<Rightarrow> AIOContext result" where
  "new_AIOContext aioContextId maxOps =
     bnd (b8da7268_createQueueBounded maxOps) (\<lambda>queue.
     Inr \<lparr>ctx_id = aioContextId, requestQueue = queue, timeout_sec = 0, timeout_nsec = ASYNC_TIMEOUT_NSEC,
          ctx_numBytesRead = 0, ctx_numBytesWrite = 0, maxOperations = maxOps, ctx_numRequests = 0,
          numReadRequests = 0, numWriteRequests = 0\<rparr>)"

text \<open>\<open>io_setup n\<close>: the new context id, or a failure, after which the code stores errno and returns NULL.\<close>

definition f1207515_createAIOContext ::
    "(u32 \<Rightarrow> u64 sysret) \<Rightarrow> u32 \<Rightarrow> (int option \<times> AIOContext ptr) result" where
  "f1207515_createAIOContext io_setup maxOps =
     (let maxOps = min maxOps ASYNC_MAX_REQUEST_QUEUE_CAPACITY
      in case io_setup maxOps of
           SysErr _ \<Rightarrow> Inr (Some (- SYSCALL_ERROR), None)
         | SysOk aioContextId \<Rightarrow> bnd (new_AIOContext aioContextId maxOps) (\<lambda>ctx. Inr (None, Some ctx)))"

text \<open>The return value with errno and the context, which a failure leaves as it was.\<close>

definition f1207515_initAIOContext ::
    "(u32 \<Rightarrow> u64 sysret) \<Rightarrow> AIOContext \<Rightarrow> u32 \<Rightarrow> (int option \<times> u32 \<times> AIOContext) result" where
  "f1207515_initAIOContext io_setup aioContext maxOps =
     (let maxOps = min maxOps ASYNC_MAX_REQUEST_QUEUE_CAPACITY
      in case io_setup maxOps of
           SysErr _ \<Rightarrow> Inr (Some (- SYSCALL_ERROR), SYSTEM_ERROR_CODE, aioContext)
         | SysOk aioContextId \<Rightarrow> bnd (new_AIOContext aioContextId maxOps) (\<lambda>ctx. Inr (None, 0, ctx)))"

text \<open>Both return the errno and the value; the queue is freed only when io_destroy succeeded.\<close>

definition f1207515_destroyAIOContext :: "(u64 \<Rightarrow> unit sysret) \<Rightarrow> AIOContext \<Rightarrow> int option \<times> u32 \<times> AIOContext ptr" where
  "f1207515_destroyAIOContext io_destroy aioContext =
     (case io_destroy (ctx_id aioContext) of
        SysErr _ \<Rightarrow> (Some (- SYSCALL_ERROR), SYSTEM_ERROR_CODE, Some aioContext)
      | SysOk u \<Rightarrow> (None, 0, None))"

definition f1207515_cleanUpAIOContext ::
    "(u64 \<Rightarrow> unit sysret) \<Rightarrow> AIOContext \<Rightarrow> int option \<times> u32 \<times> nat QueueBounded ptr" where
  "f1207515_cleanUpAIOContext io_destroy aioContext =
     (case io_destroy (ctx_id aioContext) of
        SysErr _ \<Rightarrow> (Some (- SYSCALL_ERROR), SYSTEM_ERROR_CODE, Some (requestQueue aioContext))
      | SysOk u \<Rightarrow> (None, 0, None))"

subsection \<open>Files and tickets\<close>

definition zero_event :: AIOEvent where "zero_event = \<lparr>ev_data = 0, ev_obj = None, ev_res = 0, ev_res2 = 0\<rparr>"

definition zero_ticket :: AIOTicket where
  "zero_ticket = \<lparr>requestList = replicate 8 (Some None), eventList = replicate 8 (Some zero_event),
                  tk_numRequests = 0, tk_numEvents = 0, tk_numBytesRead = 0, tk_numBytesWrite = 0\<rparr>"

definition f1207515_initAIOFile :: "string \<Rightarrow> AIOFile" where
  "f1207515_initAIOFile name =
     \<lparr>aioTicket = zero_ticket, fileName = name, fileSize = 0, aio_file_offset = 0, aio_fd = 0,
      numRequestsRemaining = 0\<rparr>"

definition f1207515_cleanUpAIOFile :: "env \<Rightarrow> (u32 \<Rightarrow> unit sysret) \<Rightarrow> AIOFile \<Rightarrow> unit result" where
  "f1207515_cleanUpAIOFile e sys_close aioFile = e2f74138_closeFile e sys_close (aio_fd aioFile) (fileName aioFile)"

definition f1207515_initAIOTicket :: "AIOTicket \<Rightarrow> AIOTicket" where
  "f1207515_initAIOTicket ticket = ticket\<lparr>tk_numRequests := 0, tk_numEvents := 0\<rparr>"

text \<open>The requests go back to the pool only when every one of them has had its event.\<close>

definition f1207515_cleanUpAIOTicket :: "'z io_state_scheme \<Rightarrow> AIOTicket \<Rightarrow> 'z io_state_scheme result" where
  "f1207515_cleanUpAIOTicket st ticket =
     (if tk_numEvents ticket = tk_numRequests ticket then
        bnd (read_cells (requestList ticket) 0 (unat (tk_numRequests ticket))) (\<lambda>requests.
        fold_result f1207515_releaseAIORequest st requests)
      else Inr st)"

definition f1207515_create ::
    "env \<Rightarrow> (string \<Rightarrow> u32 \<Rightarrow> u32 \<Rightarrow> u32 sysret) \<Rightarrow> AIOFile \<Rightarrow> FileAccessMode \<Rightarrow> u32 \<Rightarrow> u32 \<Rightarrow>
     (string \<times> u32 \<times> AIOFile) result" where
  "f1207515_create e sys_open aioFile aMode flags mode =
     (if aMode = FOPEN_READONLY then
        bnd (warn_error e [Str (''Cannot create AIO file '' @ [quote]), Str (fileName aioFile),
                           Str ([quote] @ '': read-only File Access Mode specified'')])
          (\<lambda>out. Inr (out, SYSTEM_ERROR_CODE, aioFile))
      else
        let fd = (case sys_open (fileName aioFile) (or (or (or O_DIRECT O_CREAT) (access_flag aMode)) flags) mode of
                    SysOk fd \<Rightarrow> fd | SysErr errno \<Rightarrow> SYSTEM_ERROR_CODE)
        in Inr ([], fd, aioFile\<lparr>aio_fd := fd\<rparr>))"

text \<open>\<open>sys_fstat\<close> gives the file size. When the status call fails, the size is read from an unset struct.\<close>

definition f1207515_open ::
    "env \<Rightarrow> (string \<Rightarrow> u32 \<Rightarrow> u32 sysret) \<Rightarrow> (u32 \<Rightarrow> u64 sysret) \<Rightarrow> AIOFile \<Rightarrow> FileAccessMode \<Rightarrow> u32 \<Rightarrow>
     (string \<times> u32 \<times> AIOFile) result" where
  "f1207515_open e sys_open sys_fstat aioFile aMode flags =
     (let fd = (case sys_open (fileName aioFile) (or (or (access_flag aMode) O_DIRECT) flags) of
                  SysOk fd \<Rightarrow> fd | SysErr errno \<Rightarrow> SYSTEM_ERROR_CODE)
      in bnd (e2f74138_getDescriptorStatus e
               (\<lambda>fd. case sys_fstat fd of SysOk sz \<Rightarrow> SysOk (Some sz) | SysErr errno \<Rightarrow> SysErr errno) fd None)
           (\<lambda>(out, ok, fileStatus).
         case fileStatus of
           None \<Rightarrow> Inl Uninitialised
         | Some st_size \<Rightarrow> Inr (out, fd, aioFile\<lparr>fileSize := st_size, aio_file_offset := 0, aio_fd := fd\<rparr>)))"

subsection \<open>Queueing\<close>

text \<open>What read and write put into a request; they differ in the operation code.\<close>

definition fill_request :: "u16 \<Rightarrow> AIOFile \<Rightarrow> nat ptr \<Rightarrow> u64 \<Rightarrow> AIORequest" where
  "fill_request opcode aioFile buf n =
     \<lparr>aio_data = 0, aio_fildes = aio_fd aioFile, aio_lio_opcode = opcode, aio_reqprio = 0, aio_buf = buf,
      aio_nbytes = n, aio_offset = aio_file_offset aioFile, aio_flags = 0, aio_resfd = 0\<rparr>"

definition f1207515_read ::
    "env \<Rightarrow> (nat \<Rightarrow> nat) \<Rightarrow> 'z io_state_scheme \<Rightarrow> AIOContext \<Rightarrow> AIOFile \<Rightarrow> nat ptr \<Rightarrow> u64 \<Rightarrow>
     (nat ptr \<times> 'z io_state_scheme \<times> AIOContext \<times> AIOFile) result" where
  "f1207515_read e alloc st ctx aioFile buf bufSize =
     (if b8da7268_isFull (requestQueue ctx) then Inr (None, st, ctx, aioFile)
      else
        bnd (f1207515_acquireAIORequest e alloc st) (\<lambda>(aioReadRequest, st).
        bnd (deref aioReadRequest) (\<lambda>p.
        bnd (b8da7268_enqueue (requestQueue ctx) aioReadRequest) (\<lambda>(ok, queue).
        Inr (aioReadRequest,
             st\<lparr>aioRequests := (aioRequests st)(p := Some (fill_request AIO_READ aioFile buf bufSize))\<rparr>,
             ctx\<lparr>requestQueue := queue, ctx_numRequests := ctx_numRequests ctx + 1,
                 numReadRequests := numReadRequests ctx + 1\<rparr>,
             aioFile\<lparr>aio_file_offset := aio_file_offset aioFile + bufSize\<rparr>)))))"

definition f1207515_write ::
    "env \<Rightarrow> (nat \<Rightarrow> nat) \<Rightarrow> 'z io_state_scheme \<Rightarrow> AIOContext \<Rightarrow> AIOFile \<Rightarrow> nat ptr \<Rightarrow> u64 \<Rightarrow>
     (nat ptr \<times> 'z io_state_scheme \<times> AIOContext \<times> AIOFile) result" where
  "f1207515_write e alloc st ctx aioFile buf n =
     (if b8da7268_isFull (requestQueue ctx) then Inr (None, st, ctx, aioFile)
      else
        bnd (f1207515_acquireAIORequest e alloc st) (\<lambda>(aioWriteRequest, st).
        bnd (deref aioWriteRequest) (\<lambda>p.
        bnd (b8da7268_enqueue (requestQueue ctx) aioWriteRequest) (\<lambda>(ok, queue).
        Inr (aioWriteRequest,
             st\<lparr>aioRequests := (aioRequests st)(p := Some (fill_request AIO_WRITE aioFile buf n))\<rparr>,
             ctx\<lparr>requestQueue := queue, ctx_numRequests := ctx_numRequests ctx + 1,
                 numWriteRequests := numWriteRequests ctx + 1\<rparr>,
             aioFile\<lparr>aio_file_offset := aio_file_offset aioFile + n\<rparr>)))))"

subsection \<open>Submission and events\<close>

text \<open>The loop takes requests off the queue until it is empty or the ticket's eight cells are used.\<close>

function submit_loop :: "nat QueueBounded \<Rightarrow> nat ptr block \<Rightarrow> nat \<Rightarrow> (nat QueueBounded \<times> nat ptr block \<times> nat) result" where
  "submit_loop queue cells numRequests =
     (if \<not> b8da7268_isEmpty queue \<and> numRequests < 8 then
        bnd (b8da7268_dequeue queue) (\<lambda>(aioRequest, queue).
        bnd (wr cells numRequests aioRequest) (\<lambda>cells.
        submit_loop queue cells (numRequests + 1)))
      else Inr (queue, cells, numRequests))"
  by pat_completeness auto
termination by (relation "measure (\<lambda>(queue, cells, n). 8 - n)") auto

declare submit_loop.simps [simp del]

text \<open>
  \<open>io_submit\<close> gets the context id and the requests. The result is the errno, the returned flag, the
  context and the file.
\<close>

definition f1207515_submit ::
    "(u64 \<Rightarrow> nat ptr list \<Rightarrow> u32 sysret) \<Rightarrow> AIOContext \<Rightarrow> AIOFile \<Rightarrow>
     (int option \<times> bool \<times> AIOContext \<times> AIOFile) result" where
  "f1207515_submit io_submit ctx aioFile =
     (if b8da7268_isEmpty (requestQueue ctx) then Inr (None, False, ctx, aioFile)
      else
        bnd (submit_loop (requestQueue ctx) (requestList (aioTicket aioFile)) 0) (\<lambda>(queue, cells, numRequests).
        bnd (read_cells cells 0 numRequests) (\<lambda>requests.
        let aioFile = aioFile\<lparr>aioTicket := (aioTicket aioFile)\<lparr>requestList := cells,
                                tk_numRequests := of_nat numRequests\<rparr>\<rparr>;
            ctx = ctx\<lparr>requestQueue := queue\<rparr>
        in case io_submit (ctx_id ctx) requests of
             SysErr _ \<Rightarrow> Inr (Some (- SYSCALL_ERROR), False, ctx, aioFile)
           | SysOk n \<Rightarrow> Inr (None, True, ctx, aioFile))))"

text \<open>One event: the bytes are added to the context's and the ticket's counters.\<close>

fun count_event :: "(nat \<Rightarrow> AIORequest option) \<Rightarrow> AIOContext \<times> AIOTicket \<Rightarrow> AIOEvent \<Rightarrow>
    (AIOContext \<times> AIOTicket) result" where
  "count_event store (ctx, ticket) ev =
     bnd (deref (ev_obj ev)) (\<lambda>p.
     bnd (case store p of None \<Rightarrow> Inl Uninitialised | Some r \<Rightarrow> Inr r) (\<lambda>aioRequest.
     if aio_lio_opcode aioRequest = AIO_READ then
       Inr (ctx\<lparr>ctx_numBytesRead := ctx_numBytesRead ctx + ev_res ev\<rparr>,
            ticket\<lparr>tk_numBytesRead := tk_numBytesRead ticket + ev_res ev\<rparr>)
     else if aio_lio_opcode aioRequest = AIO_WRITE then
       Inr (ctx\<lparr>ctx_numBytesWrite := ctx_numBytesWrite ctx + ev_res ev\<rparr>,
            ticket\<lparr>tk_numBytesWrite := tk_numBytesWrite ticket + ev_res ev\<rparr>)
     else Inr (ctx, ticket)))"

definition f1207515_getEvents ::
    "(u64 \<Rightarrow> u32 \<Rightarrow> AIOEvent list sysret) \<Rightarrow> 'z io_state_scheme \<Rightarrow> AIOContext \<Rightarrow> AIOFile \<Rightarrow>
     (int option \<times> u32 \<times> AIOContext \<times> AIOFile) result" where
  "f1207515_getEvents io_getevents st ctx aioFile =
     (case io_getevents (ctx_id ctx) (tk_numRequests (aioTicket aioFile)) of
        SysErr _ \<Rightarrow> Inr (Some (- SYSCALL_ERROR), SYSTEM_ERROR_CODE, ctx, aioFile)
      | SysOk events \<Rightarrow>
          bnd (blit (map Some events) 0 (length events) (eventList (aioTicket aioFile)) 0) (\<lambda>cells.
          let ticket = (aioTicket aioFile)\<lparr>eventList := cells,
                         tk_numEvents := tk_numEvents (aioTicket aioFile) + of_nat (length events)\<rparr>
          in bnd (fold_result (count_event (aioRequests st)) (ctx, ticket) events) (\<lambda>(ctx, ticket).
             Inr (None, of_nat (length events), ctx, aioFile\<lparr>aioTicket := ticket\<rparr>))))"

subsection \<open>Lemmas\<close>

subsection \<open>Submission takes the oldest eight requests\<close>

text \<open>Whatever the kernel reports, errno is 1 afterwards.\<close>

lemma errno_is_lost:
  "f1207515_createAIOContext (\<lambda>_. SysErr errno) n = Inr (Some 1, None)"
  "f1207515_getEvents (\<lambda>_ _. SysErr errno) st ctx aioFile = Inr (Some 1, SYSTEM_ERROR_CODE, ctx, aioFile)"
  by (simp_all add: f1207515_createAIOContext_def f1207515_getEvents_def SYSCALL_ERROR_def)

lemma submit_loop_takes:
  assumes "qb_rep c q xs" and "holds cells ys" and "length ys \<le> 8" and "length cells = 8"
  shows "\<exists>q' cells'. submit_loop q cells (length ys) = Inr (q', cells', length (ys @ take (8 - length ys) xs)) \<and>
           qb_rep c q' (drop (8 - length ys) xs) \<and> holds cells' (ys @ take (8 - length ys) xs) \<and> length cells' = 8"
  using assms
proof (induction xs arbitrary: q cells ys)
  case Nil
  then have "b8da7268_isEmpty q" by (simp add: qb_isEmpty)
  then show ?case using Nil by (simp add: submit_loop.simps [of q])
next
  case (Cons x xs)
  have ne: "\<not> b8da7268_isEmpty q" using qb_isEmpty [OF Cons.prems(1)] by simp
  show ?case
  proof (cases "length ys = 8")
    case True
    then show ?thesis using Cons.prems by (simp add: submit_loop.simps [of q])
  next
    case False
    then have lt: "length ys < 8" using Cons.prems(3) by simp
    obtain q1 where q1: "b8da7268_dequeue q = Inr (x, q1)" "qb_rep c q1 xs"
      using qb.deq_Cons_law [OF Cons.prems(1)] by blast
    let ?cells = "cells[length ys := Some x]"
    have "holds ?cells (ys @ [x])" using holds_snoc [OF Cons.prems(2)] lt Cons.prems(4) by simp
    from Cons.IH [OF q1(2) this] lt Cons.prems(4) obtain q' cells' where I:
      "submit_loop q1 ?cells (length (ys @ [x])) = Inr (q', cells', length ((ys @ [x]) @ take (8 - length (ys @ [x])) xs))"
      "qb_rep c q' (drop (8 - length (ys @ [x])) xs)"
      "holds cells' ((ys @ [x]) @ take (8 - length (ys @ [x])) xs)" "length cells' = 8" by auto
    have d: "8 - length ys = Suc (8 - length (ys @ [x]))" using lt by simp
    have "submit_loop q cells (length ys) = submit_loop q1 ?cells (length (ys @ [x]))"
      using ne lt q1(1) Cons.prems(4) by (simp add: submit_loop.simps [of q cells] wr_ok)
    then show ?thesis using I unfolding d by auto
  qed
qed

subsection \<open>Properties\<close>

text \<open>A submission hands the kernel the oldest requests of the queue in their order, at most eight; the
  others stay queued, and the ticket records exactly the ones handed over.\<close>

theorem submit_takes_oldest:
  assumes "qb_rep c (requestQueue ctx) xs" and "xs \<noteq> []"
    and "length (requestList (aioTicket aioFile)) = 8"
    and "io_submit (ctx_id ctx) (take 8 xs) = SysOk n"
  shows "\<exists>ctx' f'. f1207515_submit io_submit ctx aioFile = Inr (None, True, ctx', f') \<and>
           qb_rep c (requestQueue ctx') (drop 8 xs) \<and> holds (requestList (aioTicket f')) (take 8 xs) \<and>
           unat (tk_numRequests (aioTicket f')) = min 8 (length xs)"
proof -
  obtain q' cells' where L: "submit_loop (requestQueue ctx) (requestList (aioTicket aioFile)) 0 =
      Inr (q', cells', length (take 8 xs))"
    "qb_rep c q' (drop 8 xs)" "holds cells' (take 8 xs)"
    using submit_loop_takes [OF assms(1), of "requestList (aioTicket aioFile)" "[]"] assms(3) by auto
  have "\<not> b8da7268_isEmpty (requestQueue ctx)" using qb_isEmpty [OF assms(1)] assms(2) by simp
  moreover have "read_cells cells' 0 (length (take 8 xs)) = Inr (take 8 xs)" by (rule read_cells_all [OF L(3)])
  ultimately show ?thesis
    using L assms(4) by (simp add: f1207515_submit_def Let_def unat_of_nat min.commute)
qed

lemma submit_takes_oldest_witness:
  "\<exists>ctx' f'. f1207515_submit (\<lambda>_ _. SysOk 1)
       \<lparr>ctx_id = 1, requestQueue = \<lparr>qb_head = 0, qb_tail = 1, qb_length = 1, qb_capacity = 2, qb_values = [Some (Some 64), None]\<rparr>,
        timeout_sec = 0, timeout_nsec = 0, ctx_numBytesRead = 0, ctx_numBytesWrite = 0, maxOperations = 2,
        ctx_numRequests = 1, numReadRequests = 1, numWriteRequests = 0\<rparr>
       (f1207515_initAIOFile ''f'') = Inr (None, True, ctx', f') \<and>
     qb_rep 2 (requestQueue ctx') (drop 8 [Some 64]) \<and> holds (requestList (aioTicket f')) (take 8 [Some 64]) \<and>
     unat (tk_numRequests (aioTicket f')) = min 8 (length [Some (64::nat)])"
  by (rule submit_takes_oldest)
    (simp_all add: qb_rep_def ring_def f1207515_initAIOFile_def zero_ticket_def)

end
