(* ===== verification/AsyncSystem.thy ===== *)
theory AsyncSystem
  imports Async
begin

text \<open>
  Asynchronous I/O as a whole: one context, any number of files that share it, the request pool, and a kernel whose
  answers are arbitrary. A step is a call of one of the operations of io/async.c; calls come in any order. Which requests
  were accepted, handed to the kernel and refused by it is recorded beside the state.
\<close>

subsection \<open>States and steps\<close>

record aio_system =
  sys_io :: io_state
  sys_context :: AIOContext
  sys_files :: "nat \<Rightarrow> AIOFile"
  accepted :: "nat ptr list"
  handed :: "nat ptr list"
  refused :: "nat ptr list"

definition start_system :: "io_state \<Rightarrow> AIOContext \<Rightarrow> (nat \<Rightarrow> string) \<Rightarrow> aio_system" where
  "start_system io ctx names =
     \<lparr>sys_io = io, sys_context = ctx, sys_files = (\<lambda>k. f1207515_initAIOFile (names k)),
      accepted = [], handed = [], refused = []\<rparr>"

text \<open>The requests of a ticket are those of its last submission.\<close>

definition ticket_requests :: "AIOTicket \<Rightarrow> nat ptr list result" where
  "ticket_requests ticket = read_cells (requestList ticket) 0 (unat (tk_numRequests ticket))"

text \<open>What read and write return is the request, or a null pointer when the queue is full.\<close>

definition queued :: "nat \<Rightarrow> aio_system \<Rightarrow> nat ptr \<times> io_state \<times> AIOContext \<times> AIOFile \<Rightarrow> aio_system" where
  "queued k s = (\<lambda>(r, io, ctx, aioFile).
     s\<lparr>sys_io := io, sys_context := ctx, sys_files := (sys_files s)(k := aioFile),
       accepted := accepted s @ (if r = None then [] else [r])\<rparr>)"

definition submit_by :: "(u64 \<Rightarrow> nat ptr list \<Rightarrow> u32 sysret) \<Rightarrow> nat \<Rightarrow> aio_system \<Rightarrow> aio_system result" where
  "submit_by io_submit k s =
     bnd (f1207515_submit io_submit (sys_context s) (sys_files s k)) (\<lambda>(errno, ok, ctx, aioFile).
     bnd (if b8da7268_isEmpty (requestQueue (sys_context s)) then Inr [] else ticket_requests (aioTicket aioFile)) (\<lambda>rs.
     Inr (s\<lparr>sys_context := ctx, sys_files := (sys_files s)(k := aioFile), handed := handed s @ rs,
            refused := refused s @ (if ok then [] else rs)\<rparr>)))"

inductive aio_step :: "env \<Rightarrow> (nat \<Rightarrow> nat) \<Rightarrow> aio_system \<Rightarrow> aio_system \<Rightarrow> bool" for e alloc where
  read_step:
    "f1207515_read e alloc (sys_io s) (sys_context s) (sys_files s k) buf n = Inr r \<Longrightarrow> aio_step e alloc s (queued k s r)"
| write_step:
    "f1207515_write e alloc (sys_io s) (sys_context s) (sys_files s k) buf n = Inr r \<Longrightarrow> aio_step e alloc s (queued k s r)"
| submit_step: "submit_by io_submit k s = Inr t \<Longrightarrow> aio_step e alloc s t"
| events_step:
    "f1207515_getEvents io_getevents (sys_io s) (sys_context s) (sys_files s k) = Inr (errno, n, ctx, aioFile) \<Longrightarrow>
       aio_step e alloc s (s\<lparr>sys_context := ctx, sys_files := (sys_files s)(k := aioFile)\<rparr>)"
| cleanup_step:
    "f1207515_cleanUpAIOTicket (sys_io s) (aioTicket (sys_files s k)) = Inr io \<Longrightarrow> aio_step e alloc s (s\<lparr>sys_io := io\<rparr>)"
| init_ticket_step:
    "aioFile = (sys_files s k)\<lparr>aioTicket := f1207515_initAIOTicket (aioTicket (sys_files s k))\<rparr> \<Longrightarrow>
       aio_step e alloc s (s\<lparr>sys_files := (sys_files s)(k := aioFile)\<rparr>)"
| open_step:
    "f1207515_open e sys_open sys_fstat (sys_files s k) aMode flags = Inr (out, fd, aioFile) \<Longrightarrow>
       aio_step e alloc s (s\<lparr>sys_files := (sys_files s)(k := aioFile)\<rparr>)"
| create_step:
    "f1207515_create e sys_creat (sys_files s k) aMode flags mode = Inr (out, fd, aioFile) \<Longrightarrow>
       aio_step e alloc s (s\<lparr>sys_files := (sys_files s)(k := aioFile)\<rparr>)"
| init_file_step: "aio_step e alloc s (s\<lparr>sys_files := (sys_files s)(k := f1207515_initAIOFile name)\<rparr>)"

subsection \<open>The invariant\<close>

definition ticket_ok :: "nat ptr list \<Rightarrow> AIOTicket \<Rightarrow> bool" where
  "ticket_ok hs ticket \<longleftrightarrow>
     length (requestList ticket) = 8 \<and> (\<exists>rs. ticket_requests ticket = Inr rs \<and> length rs \<le> 8 \<and> set rs \<subseteq> set hs)"

definition stored :: "io_state \<Rightarrow> nat ptr \<Rightarrow> bool" where
  "stored io r \<longleftrightarrow> (\<exists>p q. r = Some p \<and> aioRequests io p = Some q)"

definition aio_inv :: "nat \<Rightarrow> aio_system \<Rightarrow> bool" where
  "aio_inv c s \<longleftrightarrow>
     (\<exists>xs. qb_rep c (requestQueue (sys_context s)) xs \<and> accepted s = handed s @ xs) \<and>
     ctx_numRequests (sys_context s) = of_nat (length (accepted s)) \<and>
     numReadRequests (sys_context s) + numWriteRequests (sys_context s) = of_nat (length (accepted s)) \<and>
     (\<forall>r \<in> set (accepted s). stored (sys_io s) r) \<and> (\<forall>k. ticket_ok (handed s) (aioTicket (sys_files s k)))"

lemma acquire_keeps_store: "f1207515_acquireAIORequest e alloc st = Inr (r, st') \<Longrightarrow> aioRequests st' = aioRequests st"
  by (auto simp: f1207515_acquireAIORequest_def bnd_eq_Inr split: if_splits)

text \<open>Reading and writing: the common part of the two.\<close>

lemma queue_request:
  assumes "qb_rep c (requestQueue ctx) xs"
    and "f1207515_read e alloc st ctx aioFile buf n = Inr (r, st', ctx', aioFile') \<or>
      f1207515_write e alloc st ctx aioFile buf n = Inr (r, st', ctx', aioFile')"
  shows "if length xs = c then r = None \<and> st' = st \<and> ctx' = ctx \<and> aioFile' = aioFile
     else \<exists>p q. r = Some p \<and> aioRequests st' = (aioRequests st)(p := Some q) \<and> qb_rep c (requestQueue ctx') (xs @ [r]) \<and>
       ctx_numRequests ctx' = ctx_numRequests ctx + 1 \<and>
       numReadRequests ctx' + numWriteRequests ctx' = numReadRequests ctx + numWriteRequests ctx + 1 \<and>
       aioTicket aioFile' = aioTicket aioFile"
proof (cases "length xs = c")
  case True
  then show ?thesis using assms qb_isFull [OF assms(1)] by (auto simp: f1207515_read_def f1207515_write_def)
next
  case False
  then have "length xs < c" using qb_bounded [OF assms(1)] by simp
  note room = qb.enq_room_law [OF assms(1) this]
  have enq: "\<exists>q'. b8da7268_enqueue (requestQueue ctx) x = Inr (True, q') \<and> qb_rep c q' (xs @ [x])" for x using room .
  from assms(2) show ?thesis using False qb_isFull [OF assms(1)]
    by (auto simp: f1207515_read_def f1207515_write_def bnd_eq_Inr deref_eq_Inr acquire_keeps_store add.commute
        dest!: acquire_keeps_store) (metis Inr_inject enq prod.inject)+
qed

text \<open>A submission never faults; it takes the oldest eight requests, whatever the kernel answers.\<close>

lemma submit_effect:
  assumes "qb_rep c (requestQueue (sys_context s)) xs" and "length (requestList (aioTicket (sys_files s k))) = 8"
  shows "\<exists>q' aioFile. submit_by io_submit k s =
           Inr (s\<lparr>sys_context := (sys_context s)\<lparr>requestQueue := q'\<rparr>, sys_files := (sys_files s)(k := aioFile),
                  handed := handed s @ take 8 xs,
                  refused := refused s @ (case io_submit (ctx_id (sys_context s)) (take 8 xs) of
                               SysOk n \<Rightarrow> [] | SysErr errno \<Rightarrow> take 8 xs)\<rparr>) \<and>
           qb_rep c q' (drop 8 xs) \<and> length (requestList (aioTicket aioFile)) = 8 \<and>
           (if xs = [] then aioFile = sys_files s k else ticket_requests (aioTicket aioFile) = Inr (take 8 xs))"
proof (cases "xs = []")
  case True
  then have "b8da7268_isEmpty (requestQueue (sys_context s))" using qb_isEmpty [OF assms(1)] by simp
  then have "submit_by io_submit k s = Inr (s\<lparr>sys_context := (sys_context s)\<lparr>requestQueue := requestQueue (sys_context s)\<rparr>,
      sys_files := (sys_files s)(k := sys_files s k), handed := handed s @ [], refused := refused s @ []\<rparr>)"
    by (simp add: submit_by_def f1207515_submit_def)
  then show ?thesis using True assms
    by (intro exI [of _ "requestQueue (sys_context s)"] exI [of _ "sys_files s k"]) (simp split: sysret.split)
next
  case False
  let ?ctx = "sys_context s" and ?ticket = "aioTicket (sys_files s k)"
  obtain q' cells where L: "submit_loop (requestQueue ?ctx) (requestList ?ticket) 0 = Inr (q', cells, length (take 8 xs))"
    "qb_rep c q' (drop 8 xs)" "holds cells (take 8 xs)" "length cells = 8"
    using submit_loop_takes [OF assms(1), of "requestList ?ticket" "[]"] assms(2) by auto
  have r: "read_cells cells 0 (length (take 8 xs)) = Inr (take 8 xs)" by (rule read_cells_all [OF L(3)])
  have ne: "\<not> b8da7268_isEmpty (requestQueue ?ctx)" using qb_isEmpty [OF assms(1)] False by simp
  define aioFile where "aioFile = (sys_files s k)\<lparr>aioTicket := ?ticket\<lparr>requestList := cells,
      tk_numRequests := of_nat (length (take 8 xs))\<rparr>\<rparr>"
  have "unat (of_nat (length (take 8 xs)) :: u32) = length (take 8 xs)" by (intro of_nat_inverse [OF refl]) simp
  then have t: "ticket_requests (aioTicket aioFile) = Inr (take 8 xs)" "length (requestList (aioTicket aioFile)) = 8"
    using r L(4) by (simp_all add: ticket_requests_def aioFile_def)
  have "f1207515_submit io_submit ?ctx (sys_files s k) =
      (case io_submit (ctx_id ?ctx) (take 8 xs) of
         SysErr _ \<Rightarrow> Inr (Some (- SYSCALL_ERROR), False, ?ctx\<lparr>requestQueue := q'\<rparr>, aioFile)
       | SysOk n \<Rightarrow> Inr (None, True, ?ctx\<lparr>requestQueue := q'\<rparr>, aioFile))"
    using ne by (simp only: f1207515_submit_def if_False L(1) bnd_Inr prod.case r Let_def aioFile_def) simp
  then have "submit_by io_submit k s =
      Inr (s\<lparr>sys_context := ?ctx\<lparr>requestQueue := q'\<rparr>, sys_files := (sys_files s)(k := aioFile), handed := handed s @ take 8 xs,
             refused := refused s @ (case io_submit (ctx_id ?ctx) (take 8 xs) of SysOk n \<Rightarrow> [] | SysErr errno \<Rightarrow> take 8 xs)\<rparr>)"
    using ne t(1) by (simp add: submit_by_def split: sysret.split)
  then show ?thesis using L(2) t False by (intro exI [of _ q'] exI [of _ aioFile]) simp
qed

lemma count_events_frame:
  "fold_result (count_event store) (ctx, ticket) evs = Inr (ctx', ticket') \<Longrightarrow>
     requestQueue ctx' = requestQueue ctx \<and> ctx_numRequests ctx' = ctx_numRequests ctx \<and>
     numReadRequests ctx' = numReadRequests ctx \<and> numWriteRequests ctx' = numWriteRequests ctx \<and>
     requestList ticket' = requestList ticket \<and> tk_numRequests ticket' = tk_numRequests ticket"
proof (induction evs arbitrary: ctx ticket)
  case (Cons ev evs)
  from Cons.prems obtain ctx1 ticket1 where 1: "count_event store (ctx, ticket) ev = Inr (ctx1, ticket1)"
    "fold_result (count_event store) (ctx1, ticket1) evs = Inr (ctx', ticket')"
    by (auto simp: bnd_eq_Inr)
  from 1(1) have "requestQueue ctx1 = requestQueue ctx \<and> ctx_numRequests ctx1 = ctx_numRequests ctx \<and>
     numReadRequests ctx1 = numReadRequests ctx \<and> numWriteRequests ctx1 = numWriteRequests ctx \<and>
     requestList ticket1 = requestList ticket \<and> tk_numRequests ticket1 = tk_numRequests ticket"
    by (auto simp: bnd_eq_Inr split: if_splits)
  with Cons.IH [OF 1(2)] show ?case by simp
qed simp

lemma events_frame:
  assumes "f1207515_getEvents io_getevents st ctx aioFile = Inr (errno, n, ctx', aioFile')"
  shows "requestQueue ctx' = requestQueue ctx \<and> ctx_numRequests ctx' = ctx_numRequests ctx \<and>
     numReadRequests ctx' = numReadRequests ctx \<and> numWriteRequests ctx' = numWriteRequests ctx \<and>
     requestList (aioTicket aioFile') = requestList (aioTicket aioFile) \<and>
     tk_numRequests (aioTicket aioFile') = tk_numRequests (aioTicket aioFile)"
proof (cases "io_getevents (ctx_id ctx) (tk_numRequests (aioTicket aioFile))")
  case (SysOk evs)
  then show ?thesis using assms
    by (auto simp: f1207515_getEvents_def bnd_eq_Inr Let_def dest!: count_events_frame)
qed (use assms in \<open>simp add: f1207515_getEvents_def\<close>)

lemma release_keeps_store:
  "fold_result f1207515_releaseAIORequest st rs = Inr st' \<Longrightarrow> aioRequests st' = aioRequests st"
  by (induction rs arbitrary: st) (auto simp: bnd_eq_Inr f1207515_releaseAIORequest_def)

lemma cleanup_keeps_store: "f1207515_cleanUpAIOTicket st ticket = Inr st' \<Longrightarrow> aioRequests st' = aioRequests st"
  by (auto simp: f1207515_cleanUpAIOTicket_def bnd_eq_Inr release_keeps_store split: if_splits)

lemma ticket_ok_cong:
  "ticket_ok hs ticket \<Longrightarrow> requestList ticket' = requestList ticket \<Longrightarrow> tk_numRequests ticket' = tk_numRequests ticket \<Longrightarrow>
     ticket_ok hs ticket'"
  by (simp add: ticket_ok_def ticket_requests_def)

lemma ticket_ok_more: "ticket_ok hs ticket \<Longrightarrow> ticket_ok (hs @ hs') ticket"
  by (auto simp: ticket_ok_def)

lemma ticket_ok_empty: "length (requestList ticket) = 8 \<Longrightarrow> tk_numRequests ticket = 0 \<Longrightarrow> ticket_ok hs ticket"
  by (simp add: ticket_ok_def ticket_requests_def)

text \<open>A step that changes the files only.\<close>

lemma inv_file:
  "aio_inv c s \<Longrightarrow> ticket_ok (handed s) (aioTicket aioFile) \<Longrightarrow> aio_inv c (s\<lparr>sys_files := (sys_files s)(k := aioFile)\<rparr>)"
  by (simp add: aio_inv_def)

lemma inv_queued:
  assumes "aio_inv c s"
    and "f1207515_read e alloc (sys_io s) (sys_context s) (sys_files s k) buf n = Inr r \<or>
      f1207515_write e alloc (sys_io s) (sys_context s) (sys_files s k) buf n = Inr r"
  shows "aio_inv c (queued k s r)"
proof -
  obtain p io ctx aioFile where r: "r = (p, io, ctx, aioFile)" by (cases r)
  from assms(1) obtain xs where xs: "qb_rep c (requestQueue (sys_context s)) xs" "accepted s = handed s @ xs"
    by (auto simp: aio_inv_def)
  note step = queue_request [OF xs(1) assms(2) [unfolded r]]
  show ?thesis
  proof (cases "length xs = c")
    case True
    with step have "queued k s r = s" by (simp add: r queued_def)
    with assms(1) show ?thesis by simp
  next
    case False
    with step obtain q r0 where n: "p = Some q" "aioRequests io = (aioRequests (sys_io s))(q := Some r0)"
      "qb_rep c (requestQueue ctx) (xs @ [p])" "ctx_numRequests ctx = ctx_numRequests (sys_context s) + 1"
      "numReadRequests ctx + numWriteRequests ctx = numReadRequests (sys_context s) + numWriteRequests (sys_context s) + 1"
      "aioTicket aioFile = aioTicket (sys_files s k)" by auto
    have "stored io x" if "stored (sys_io s) x \<or> x = p" for x using that n(1,2) by (auto simp: stored_def)
    with n xs(2) assms(1) show ?thesis by (auto simp: aio_inv_def r queued_def)
  qed
qed

lemma inv_submit:
  assumes "aio_inv c s" and "submit_by io_submit k s = Inr t"
  shows "aio_inv c t"
proof -
  from assms(1) obtain xs where xs: "qb_rep c (requestQueue (sys_context s)) xs" "accepted s = handed s @ xs"
    by (auto simp: aio_inv_def)
  have "length (requestList (aioTicket (sys_files s k))) = 8" using assms(1) by (simp add: aio_inv_def ticket_ok_def)
  from submit_effect [OF xs(1) this, of io_submit] assms(2) obtain q' aioFile rf where t:
    "t = s\<lparr>sys_context := (sys_context s)\<lparr>requestQueue := q'\<rparr>, sys_files := (sys_files s)(k := aioFile),
            handed := handed s @ take 8 xs, refused := rf\<rparr>"
    "qb_rep c q' (drop 8 xs)" "length (requestList (aioTicket aioFile)) = 8"
    "if xs = [] then aioFile = sys_files s k else ticket_requests (aioTicket aioFile) = Inr (take 8 xs)" by auto
  have "ticket_ok (handed s @ take 8 xs) (aioTicket aioFile)"
  proof (cases "xs = []")
    case True
    with t(4) assms(1) show ?thesis by (simp add: aio_inv_def)
  next
    case False
    with t(3,4) show ?thesis by (simp add: ticket_ok_def)
  qed
  then have "\<forall>j. ticket_ok (handed t) (aioTicket (sys_files t j))"
    using assms(1) ticket_ok_more [of "handed s"] by (simp add: t(1) aio_inv_def)
  moreover have "qb_rep c (requestQueue (sys_context t)) (drop 8 xs) \<and> accepted t = handed t @ drop 8 xs"
    using xs(2) t(2) by (simp add: t(1))
  ultimately show ?thesis using assms(1) unfolding aio_inv_def by (auto simp: t(1))
qed

text \<open>Every step keeps the invariant.\<close>

lemma aio_step_inv: "aio_step e alloc s t \<Longrightarrow> aio_inv c s \<Longrightarrow> aio_inv c t"
proof (induction rule: aio_step.induct)
  case (read_step s k buf n r)
  then show ?case using inv_queued by blast
next
  case (write_step s k buf n r)
  then show ?case using inv_queued by blast
next
  case (submit_step io_submit k s t)
  then show ?case using inv_submit by blast
next
  case (events_step io_getevents s k errno n ctx aioFile)
  then have "ticket_ok (handed s) (aioTicket aioFile)"
    using events_frame ticket_ok_cong by (metis aio_inv_def)
  with events_step events_frame [OF events_step(1)] show ?case by (simp add: aio_inv_def)
next
  case (cleanup_step s k io)
  then show ?case by (simp add: aio_inv_def stored_def cleanup_keeps_store)
next
  case (init_ticket_step aioFile s k)
  then show ?case by (intro inv_file ticket_ok_empty) (simp_all add: f1207515_initAIOTicket_def aio_inv_def ticket_ok_def)
next
  case (open_step sys_open sys_fstat s k aMode flags out fd aioFile)
  then have "aioTicket aioFile = aioTicket (sys_files s k)"
    by (auto simp: f1207515_open_def bnd_eq_Inr Let_def split: option.splits)
  with open_step show ?case by (intro inv_file) (simp_all add: aio_inv_def)
next
  case (create_step sys_creat s k aMode flags mode out fd aioFile)
  then have "aioTicket aioFile = aioTicket (sys_files s k)"
    by (auto simp: f1207515_create_def bnd_eq_Inr Let_def split: if_splits)
  with create_step show ?case by (intro inv_file) (simp_all add: aio_inv_def)
next
  case (init_file_step s k name)
  then show ?case by (intro inv_file ticket_ok_empty) (simp_all add: f1207515_initAIOFile_def zero_ticket_def)
qed

lemma start_inv:
  assumes "f1207515_createAIOContext io_setup maxOps = Inr (None, Some ctx)"
  shows "aio_inv (unat (min maxOps 2048)) (start_system io ctx names)"
proof -
  from assms obtain i where "new_AIOContext i (min maxOps ASYNC_MAX_REQUEST_QUEUE_CAPACITY) = Inr ctx"
    by (auto simp: f1207515_createAIOContext_def Let_def bnd_eq_Inr split: sysret.splits)
  moreover obtain q where "b8da7268_createQueueBounded (min maxOps ASYNC_MAX_REQUEST_QUEUE_CAPACITY) = Inr (q :: nat QueueBounded)"
    "qb_rep (unat (min maxOps ASYNC_MAX_REQUEST_QUEUE_CAPACITY)) q []" using qb_create by blast
  ultimately have "qb_rep (unat (min maxOps 2048)) (requestQueue ctx) []" "ctx_numRequests ctx = 0"
    "numReadRequests ctx = 0" "numWriteRequests ctx = 0"
    by (auto simp: new_AIOContext_def ASYNC_MAX_REQUEST_QUEUE_CAPACITY_def)
  then show ?thesis
    by (simp add: aio_inv_def start_system_def ticket_ok_empty f1207515_initAIOFile_def zero_ticket_def)
qed

lemma reachable_inv: "(aio_step e alloc)\<^sup>*\<^sup>* s t \<Longrightarrow> aio_inv c s \<Longrightarrow> aio_inv c t"
  by (induction rule: rtranclp_induct) (auto intro: aio_step_inv)

subsection \<open>Progress\<close>

lemma submissions_drain:
  "aio_inv c s \<Longrightarrow> accepted s = handed s @ xs \<Longrightarrow> length xs \<le> 8 * m \<Longrightarrow> \<forall>i rs. \<exists>n. io_submit i rs = SysOk n \<Longrightarrow>
     \<exists>t. fold_result (\<lambda>s j. submit_by io_submit k s) s [j..<j + m] = Inr t \<and> handed t = accepted s \<and> accepted t = accepted s \<and>
         refused t = refused s \<and> b8da7268_isEmpty (requestQueue (sys_context t))"
proof (induction m arbitrary: s xs j)
  case 0
  from 0(1) obtain ys where "qb_rep c (requestQueue (sys_context s)) ys" "accepted s = handed s @ ys" by (auto simp: aio_inv_def)
  with 0 show ?case using qb_isEmpty [of c _ ys] by auto
next
  case (Suc m)
  from Suc.prems(1,2) have q: "qb_rep c (requestQueue (sys_context s)) xs" by (auto simp: aio_inv_def)
  have l: "length (requestList (aioTicket (sys_files s k))) = 8" using Suc.prems(1) by (simp add: aio_inv_def ticket_ok_def)
  obtain n where n: "io_submit (ctx_id (sys_context s)) (take 8 xs) = SysOk n" using Suc.prems(4) by blast
  from submit_effect [OF q l, of io_submit] n obtain s' where s': "submit_by io_submit k s = Inr s'"
    "handed s' = handed s @ take 8 xs" "accepted s' = accepted s" "refused s' = refused s" by auto
  have "accepted s' = handed s' @ drop 8 xs" using Suc.prems(2) s'(2,3) by simp
  moreover have "length (drop 8 xs) \<le> 8 * m" using Suc.prems(3) by simp
  ultimately obtain t where "fold_result (\<lambda>s j. submit_by io_submit k s) s' [Suc j..<Suc j + m] = Inr t"
    "handed t = accepted s'" "accepted t = accepted s'" "refused t = refused s'" "b8da7268_isEmpty (requestQueue (sys_context t))"
    using Suc.IH [OF inv_submit [OF Suc.prems(1) s'(1)] _ _ Suc.prems(4)] by blast
  moreover have "[j..<j + Suc m] = j # [Suc j..<Suc j + m]" by (simp add: upt_rec)
  ultimately show ?case using s' by simp
qed

subsection \<open>Defects\<close>

text \<open>The requests that the kernel refuses have left the queue; the next submission writes over them in the ticket.\<close>

lemma refused_requests_are_lost:
  assumes "qb_rep c (requestQueue (sys_context s)) xs" and "length (requestList (aioTicket (sys_files s k))) = 8"
    and "io_submit (ctx_id (sys_context s)) (take 8 xs) = SysErr errno"
  shows "\<exists>t. submit_by io_submit k s = Inr t \<and> refused t = refused s @ take 8 xs \<and>
           qb_rep c (requestQueue (sys_context t)) (drop 8 xs)"
  using submit_effect [OF assms(1,2), of io_submit] assms(3) by auto

subsection \<open>Properties\<close>

text \<open>C3: however calls for the files of a context are interleaved, and whatever the kernel answers: the accepted requests are
  those handed to the kernel, in the same order, followed by those in the queue; they are counted, each is a request in
  memory, and every ticket names at most eight requests that the kernel got.\<close>

theorem aio_requests_in_order:
  assumes "f1207515_createAIOContext io_setup maxOps = Inr (None, Some ctx)"
    and "(aio_step e alloc)\<^sup>*\<^sup>* (start_system io ctx names) s"
  shows "\<exists>xs. qb_rep (unat (min maxOps 2048)) (requestQueue (sys_context s)) xs \<and> accepted s = handed s @ xs \<and>
           ctx_numRequests (sys_context s) = of_nat (length (accepted s)) \<and>
           numReadRequests (sys_context s) + numWriteRequests (sys_context s) = of_nat (length (accepted s)) \<and>
           (\<forall>r \<in> set (accepted s). stored (sys_io s) r) \<and> (\<forall>k. ticket_ok (handed s) (aioTicket (sys_files s k)))"
  using reachable_inv [OF assms(2) start_inv [OF assms(1)]] by (simp add: aio_inv_def)

text \<open>C36: from every state that calls in any order can lead to, submitting for any one file often enough, when the kernel
  refuses nothing, hands over all requests that were accepted; one submission for every eight that wait is enough.\<close>

theorem aio_requests_reach_kernel:
  assumes "f1207515_createAIOContext io_setup maxOps = Inr (None, Some ctx)"
    and "(aio_step e alloc)\<^sup>*\<^sup>* (start_system io ctx names) s"
    and "\<forall>i rs. \<exists>n. io_submit i rs = SysOk n" and "length (accepted s) - length (handed s) \<le> 8 * m"
  shows "\<exists>t. fold_result (\<lambda>s j. submit_by io_submit k s) s [0..<m] = Inr t \<and> handed t = accepted s \<and>
           refused t = refused s \<and> b8da7268_isEmpty (requestQueue (sys_context t))"
proof -
  have inv: "aio_inv (unat (min maxOps 2048)) s" by (rule reachable_inv [OF assms(2) start_inv [OF assms(1)]])
  then obtain xs where "accepted s = handed s @ xs" by (auto simp: aio_inv_def)
  moreover from this have "length xs \<le> 8 * m" using assms(4) by simp
  ultimately show ?thesis using submissions_drain [OF inv _ _ assms(3), where k = k and j = 0] by fastforce
qed

text \<open>An example: a pool with one free request, and one call of read.\<close>

definition one_free_request :: "io_state" where
  "one_free_request = \<lparr>io_pools = initial_pools,
     aioRequestPool = \<lparr>arp_structStack = \<lparr>sa_values = Some [Some (Some 64)], sa_length = 1, sa_size = 1\<rparr>,
                       numAIORequestAlloc = 1, numAIORequestFree = 1, numAIORequestInUse = 0, numAIORequestUsed = 1\<rparr>,
     aioRequests = (\<lambda>_. None)\<rparr>"

lemma one_read:
  "\<exists>ctx s. f1207515_createAIOContext (\<lambda>_. SysOk 7) 2 = Inr (None, Some ctx) \<and>
     (aio_step e alloc)\<^sup>*\<^sup>* (start_system one_free_request ctx (\<lambda>_. ''f'')) s \<and> accepted s = [Some 64] \<and> handed s = []"
proof -
  obtain q :: "nat QueueBounded" where q: "b8da7268_createQueueBounded 2 = Inr q" "qb_rep 2 q []"
    using qb_create [of 2, where 'a = nat] by auto
  define ctx where "ctx = \<lparr>ctx_id = 7, requestQueue = q, timeout_sec = 0, timeout_nsec = ASYNC_TIMEOUT_NSEC,
          ctx_numBytesRead = 0, ctx_numBytesWrite = 0, maxOperations = 2, ctx_numRequests = 0,
          numReadRequests = 0, numWriteRequests = 0\<rparr>"
  have ctx: "f1207515_createAIOContext (\<lambda>_. SysOk 7) 2 = Inr (None, Some ctx)"
    using q(1) by (simp add: f1207515_createAIOContext_def new_AIOContext_def ctx_def ASYNC_MAX_REQUEST_QUEUE_CAPACITY_def min_def)
  let ?s = "start_system one_free_request ctx (\<lambda>_. ''f'')"
  obtain q' where q': "b8da7268_enqueue q (Some 64) = Inr (True, q')" using qb.enq_room_law [OF q(2), of "Some 64"] by auto
  have "\<not> b8da7268_isFull q" using qb_isFull [OF q(2)] by simp
  moreover obtain io where "f1207515_acquireAIORequest e alloc one_free_request = Inr (Some 64, io)"
    by (simp add: f1207515_acquireAIORequest_def one_free_request_def f106c0ab_pop_def Let_def rd_def)
  ultimately obtain io' ctx' f' where
    "f1207515_read e alloc (sys_io ?s) (sys_context ?s) (sys_files ?s 0) (Some 512) 512 = Inr (Some 64, io', ctx', f')"
    using q' by (simp add: f1207515_read_def start_system_def ctx_def)
  from read_step [OF this] have "aio_step e alloc ?s (queued 0 ?s (Some 64, io', ctx', f'))" .
  then show ?thesis using ctx
    by (intro exI [of _ ctx] exI [of _ "queued 0 ?s (Some 64, io', ctx', f')"]) (auto simp: queued_def start_system_def)
qed

lemma aio_requests_in_order_witness:
  "\<forall>e alloc. \<exists>ctx s xs. (aio_step e alloc)\<^sup>*\<^sup>* (start_system one_free_request ctx (\<lambda>_. ''f'')) s \<and> accepted s = [Some 64] \<and>
     qb_rep 2 (requestQueue (sys_context s)) xs \<and> accepted s = handed s @ xs"
proof (intro allI)
  fix e alloc
  obtain ctx s where s: "f1207515_createAIOContext (\<lambda>_. SysOk 7) 2 = Inr (None, Some ctx)"
    "(aio_step e alloc)\<^sup>*\<^sup>* (start_system one_free_request ctx (\<lambda>_. ''f'')) s" "accepted s = [Some 64]"
    using one_read by blast
  have "unat (min 2 2048 :: u32) = 2" by (simp add: min_def)
  with aio_requests_in_order [OF s(1,2)] obtain xs where
    "qb_rep 2 (requestQueue (sys_context s)) xs" "accepted s = handed s @ xs" by auto
  with s(2,3) show "\<exists>ctx s xs. (aio_step e alloc)\<^sup>*\<^sup>* (start_system one_free_request ctx (\<lambda>_. ''f'')) s \<and>
     accepted s = [Some 64] \<and> qb_rep 2 (requestQueue (sys_context s)) xs \<and> accepted s = handed s @ xs" by blast
qed

lemma aio_requests_reach_kernel_witness:
  "\<forall>e alloc. \<exists>ctx s t. (aio_step e alloc)\<^sup>*\<^sup>* (start_system one_free_request ctx (\<lambda>_. ''f'')) s \<and>
     fold_result (\<lambda>s j. submit_by (\<lambda>_ _. SysOk 1) 0 s) s [0..<1] = Inr t \<and> handed t = [Some 64] \<and> refused t = refused s"
proof (intro allI)
  fix e alloc
  obtain ctx s where s: "f1207515_createAIOContext (\<lambda>_. SysOk 7) 2 = Inr (None, Some ctx)"
    "(aio_step e alloc)\<^sup>*\<^sup>* (start_system one_free_request ctx (\<lambda>_. ''f'')) s" "accepted s = [Some 64]" "handed s = []"
    using one_read by blast
  from aio_requests_reach_kernel [OF s(1,2), of "\<lambda>_ _. SysOk 1" 1 0] s
  show "\<exists>ctx s t. (aio_step e alloc)\<^sup>*\<^sup>* (start_system one_free_request ctx (\<lambda>_. ''f'')) s \<and>
     fold_result (\<lambda>s j. submit_by (\<lambda>_ _. SysOk 1) 0 s) s [0..<1] = Inr t \<and> handed t = [Some 64] \<and> refused t = refused s"
    by fastforce
qed

end
