(* ===== verification/FileBuffer.thy ===== *)
theory FileBuffer
  imports Async Bits
begin

text \<open>
  io/filebuffer.c: pages of file data. A FileBuffer object describes one page and links to the next;
  objects live in a store by address and are reused through a free stack. The bytes of a page are
  in \<open>pageBytes\<close> by the address of the page. A FileBufferList is a growing array of FileBuffers with the
  file offset and the number of bytes they cover. int64 values are 64-bit words compared as signed.
\<close>

record FileBuffer =
  fb_buffer :: "nat ptr"
  fb_next :: "nat ptr"
  fb_fileOffset :: u64
  fb_dataOffset :: u32
  fb_numBytes :: u32

record FileBufferList =
  fl_values :: "nat ptr block"
  fl_numBytes :: u64
  fl_fileOffset :: u64
  fl_length :: u32
  fl_size :: u32

record FileBufferPool =
  fbp_structStack :: "nat StackArray"
  numFileBufferAlloc :: u32
  numFileBufferFree :: u32
  numFileBufferInUse :: u32
  numFileBufferUsed :: u32

record fb_state = io_state +
  fileBufferPool :: FileBufferPool
  fileBuffers :: "nat \<Rightarrow> FileBuffer option"
  pageBytes :: "nat \<Rightarrow> u8 block option"

text \<open>The state at program start: the static initialisers of the globals.\<close>

definition initial_state :: fb_state where
  "initial_state = \<lparr>
     io_pools = initial_pools,
     aioRequestPool = \<lparr>arp_structStack = empty_stack, numAIORequestAlloc = 0, numAIORequestFree = 0,
                       numAIORequestInUse = 0, numAIORequestUsed = 0\<rparr>,
     aioRequests = (\<lambda>_. None),
     fileBufferPool = \<lparr>fbp_structStack = empty_stack, numFileBufferAlloc = 0, numFileBufferFree = 0,
                       numFileBufferInUse = 0, numFileBufferUsed = 0\<rparr>,
     fileBuffers = (\<lambda>_. None),
     pageBytes = (\<lambda>_. None)\<rparr>"

definition FILEBUFFERLIST_DEFAULT_SIZE :: u32 where "FILEBUFFERLIST_DEFAULT_SIZE = 8"
definition sizeof_FileBuffer :: u32 where "sizeof_FileBuffer = 32"

text \<open>Access through a FileBuffer pointer.\<close>

definition fb_get :: "'z fb_state_scheme \<Rightarrow> nat ptr \<Rightarrow> FileBuffer result" where
  "fb_get st p = bnd (deref p) (\<lambda>a. case fileBuffers st a of None \<Rightarrow> Inl Uninitialised | Some fb \<Rightarrow> Inr fb)"

definition fb_set :: "'z fb_state_scheme \<Rightarrow> nat ptr \<Rightarrow> FileBuffer \<Rightarrow> 'z fb_state_scheme result" where
  "fb_set st p fb = bnd (deref p) (\<lambda>a. Inr (st\<lparr>fileBuffers := (fileBuffers st)(a := Some fb)\<rparr>))"

definition page_get :: "'z fb_state_scheme \<Rightarrow> nat ptr \<Rightarrow> u8 block result" where
  "page_get st p = bnd (deref p) (\<lambda>a. case pageBytes st a of None \<Rightarrow> Inl Uninitialised | Some b \<Rightarrow> Inr b)"

subsection \<open>The pool of FileBuffer objects\<close>

definition ce97d170_acquireFileBuffer ::
    "env \<Rightarrow> (nat \<Rightarrow> nat) \<Rightarrow> 'z fb_state_scheme \<Rightarrow> nat ptr \<Rightarrow> (nat ptr \<times> 'z fb_state_scheme) result" where
  "ce97d170_acquireFileBuffer e alloc st internalBuf =
     bnd (if sa_values (fbp_structStack (fileBufferPool st)) = None then
            bnd (f106c0ab_initStackArray (fbp_structStack (fileBufferPool st))) (\<lambda>stk.
            Inr (st\<lparr>fileBufferPool := (fileBufferPool st)\<lparr>fbp_structStack := stk\<rparr>\<rparr>))
          else Inr st) (\<lambda>st.
     bnd (if sa_length (fbp_structStack (fileBufferPool st)) = 0 then
            bnd (f502a409_acquireMemory e alloc (io_pools st) sizeof_FileBuffer) (\<lambda>(fileBuffer, msg, pools).
            Inr (fileBuffer, st\<lparr>io_pools := pools,
              fileBufferPool := (fileBufferPool st)\<lparr>numFileBufferAlloc := numFileBufferAlloc (fileBufferPool st) + 1\<rparr>\<rparr>))
          else
            bnd (f106c0ab_pop (fbp_structStack (fileBufferPool st))) (\<lambda>(fileBuffer, stk).
            Inr (fileBuffer, st\<lparr>fileBufferPool := (fileBufferPool st)\<lparr>fbp_structStack := stk,
              numFileBufferFree := numFileBufferFree (fileBufferPool st) - 1\<rparr>\<rparr>))) (\<lambda>(fileBuffer, st).
     bnd (fb_set st fileBuffer \<lparr>fb_buffer = internalBuf, fb_next = None, fb_fileOffset = 0,
                                fb_dataOffset = 0, fb_numBytes = 0\<rparr>) (\<lambda>st.
     Inr (fileBuffer, st\<lparr>fileBufferPool := (fileBufferPool st)\<lparr>
            numFileBufferInUse := numFileBufferInUse (fileBufferPool st) + 1,
            numFileBufferUsed := numFileBufferUsed (fileBufferPool st) + 1\<rparr>\<rparr>))))"

definition ce97d170_releaseFileBuffer :: "'z fb_state_scheme \<Rightarrow> nat ptr \<Rightarrow> 'z fb_state_scheme result" where
  "ce97d170_releaseFileBuffer st fileBuffer =
     bnd (f106c0ab_push (fbp_structStack (fileBufferPool st)) fileBuffer) (\<lambda>stk.
     Inr (st\<lparr>fileBufferPool := (fileBufferPool st)\<lparr>fbp_structStack := stk,
            numFileBufferFree := numFileBufferFree (fileBufferPool st) + 1,
            numFileBufferInUse := numFileBufferInUse (fileBufferPool st) - 1\<rparr>\<rparr>))"

subsection \<open>Lists: create, initialise, clean up\<close>

definition ce97d170_createFileBufferList :: "FileBufferList result" where
  "ce97d170_createFileBufferList =
     bnd (f668c4bd_mallocArray 8 (unat FILEBUFFERLIST_DEFAULT_SIZE)) (\<lambda>values.
     Inr \<lparr>fl_values = values, fl_numBytes = 0, fl_fileOffset = 0, fl_length = 0,
          fl_size = FILEBUFFERLIST_DEFAULT_SIZE\<rparr>)"

definition ce97d170_initFileBufferList :: "FileBufferList result" where
  "ce97d170_initFileBufferList =
     bnd (f668c4bd_mallocArray 8 (unat FILEBUFFERLIST_DEFAULT_SIZE)) (\<lambda>values.
     Inr \<lparr>fl_values = values, fl_numBytes = 0, fl_fileOffset = 0, fl_length = 0,
          fl_size = FILEBUFFERLIST_DEFAULT_SIZE\<rparr>)"

definition ce97d170_initFileBuffer :: "nat ptr \<Rightarrow> FileBuffer" where
  "ce97d170_initFileBuffer buffer =
     \<lparr>fb_buffer = buffer, fb_next = None, fb_fileOffset = 0, fb_dataOffset = 0, fb_numBytes = 0\<rparr>"

text \<open>The loop over the values: give the page back, if the caller says how, and release the object.\<close>

definition release_one ::
    "('z fb_state_scheme \<Rightarrow> nat ptr \<Rightarrow> 'z fb_state_scheme result) option \<Rightarrow> 'z fb_state_scheme \<Rightarrow> nat ptr \<Rightarrow>
     'z fb_state_scheme result" where
  "release_one freeBuffer st fileBuffer =
     (case freeBuffer of
        None \<Rightarrow> ce97d170_releaseFileBuffer st fileBuffer
      | Some f \<Rightarrow> bnd (fb_get st fileBuffer) (\<lambda>fb. bnd (f st (fb_buffer fb)) (\<lambda>st.
                  ce97d170_releaseFileBuffer st fileBuffer)))"

definition ce97d170_cleanUpFileBufferList ::
    "'z fb_state_scheme \<Rightarrow> FileBufferList \<Rightarrow> ('z fb_state_scheme \<Rightarrow> nat ptr \<Rightarrow> 'z fb_state_scheme result) option \<Rightarrow>
     'z fb_state_scheme result" where
  "ce97d170_cleanUpFileBufferList st bufferList freeBuffer =
     bnd (read_cells (fl_values bufferList) 0 (unat (fl_length bufferList))) (\<lambda>values.
     fold_result (release_one freeBuffer) st values)"

definition ce97d170_resetFileBufferList ::
    "'z fb_state_scheme \<Rightarrow> FileBufferList \<Rightarrow> ('z fb_state_scheme \<Rightarrow> nat ptr \<Rightarrow> 'z fb_state_scheme result) option \<Rightarrow>
     ('z fb_state_scheme \<times> FileBufferList) result" where
  "ce97d170_resetFileBufferList st bufferList freeBuffer =
     bnd (read_cells (fl_values bufferList) 0 (unat (fl_length bufferList))) (\<lambda>values.
     bnd (fold_result (release_one freeBuffer) st values) (\<lambda>st.
     Inr (st, bufferList\<lparr>fl_numBytes := 0, fl_fileOffset := 0, fl_length := 0\<rparr>)))"

text \<open>destroy passes the objects themselves to free(); the result lists the freed objects and pages.\<close>

definition ce97d170_destroyFileBufferList ::
    "'z fb_state_scheme \<Rightarrow> FileBufferList \<Rightarrow> bool \<Rightarrow> (nat ptr list \<times> nat ptr list) result" where
  "ce97d170_destroyFileBufferList st bufferList hasFreeBuffer =
     bnd (read_cells (fl_values bufferList) 0 (unat (fl_length bufferList))) (\<lambda>values.
     if hasFreeBuffer then
       bnd (fold_result (\<lambda>pages v. bnd (fb_get st v) (\<lambda>fb. Inr (pages @ [fb_buffer fb]))) [] values) (\<lambda>pages. Inr (values, pages))
     else Inr (values, []))"

subsection \<open>Lists: operations\<close>

definition ce97d170_addBuffer ::
    "'z fb_state_scheme \<Rightarrow> FileBufferList \<Rightarrow> nat ptr \<Rightarrow> ('z fb_state_scheme \<times> FileBufferList) result" where
  "ce97d170_addBuffer st bufferList fileBuffer =
     bnd (fb_get st fileBuffer) (\<lambda>fb.
     let bufferList = bufferList\<lparr>fl_numBytes := fl_numBytes bufferList + ucast (fb_numBytes fb)\<rparr>
     in bnd (if fl_length bufferList = 0 then
               Inr (st, bufferList\<lparr>fl_fileOffset := fb_fileOffset fb\<rparr>)
             else
               bnd (rd (fl_values bufferList) (unat (fl_length bufferList - 1))) (\<lambda>prevFileBuffer.
               bnd (fb_get st prevFileBuffer) (\<lambda>prev.
               bnd (fb_set st prevFileBuffer (prev\<lparr>fb_next := fileBuffer\<rparr>)) (\<lambda>st.
               Inr (st, bufferList))))) (\<lambda>(st, bufferList).
        bnd (if fl_length bufferList = fl_size bufferList then
               let bufferList = bufferList\<lparr>fl_size := push_bit 1 (fl_size bufferList)\<rparr>
               in bnd (f668c4bd_resizeArray (Some (fl_values bufferList)) (fl_length bufferList) 8
                         (unat (fl_size bufferList))) (\<lambda>values.
                  Inr (bufferList\<lparr>fl_values := values\<rparr>))
             else Inr bufferList) (\<lambda>bufferList.
        bnd (wr (fl_values bufferList) (unat (fl_length bufferList)) fileBuffer) (\<lambda>values.
        Inr (st, bufferList\<lparr>fl_values := values, fl_length := fl_length bufferList + 1\<rparr>)))))"

text \<open>The last buffer, from index \<open>i\<close> on, that starts at or before the offset.\<close>

primrec find_buffer ::
    "'z fb_state_scheme \<Rightarrow> nat ptr block \<Rightarrow> u64 \<Rightarrow> nat \<Rightarrow> nat \<Rightarrow> nat ptr \<Rightarrow> nat ptr result" where
  "find_buffer st values offset 0 i fileBuffer = Inr fileBuffer"
| "find_buffer st values offset (Suc n) i fileBuffer =
     bnd (rd values i) (\<lambda>v. bnd (fb_get st v) (\<lambda>fb.
     if fb_fileOffset fb <=s offset then find_buffer st values offset n (Suc i) v else Inr fileBuffer))"

definition ce97d170_containsData ::
    "'z fb_state_scheme \<Rightarrow> FileBufferList \<Rightarrow> u64 \<Rightarrow> u32 \<Rightarrow> (nat ptr \<times> 'z fb_state_scheme) result" where
  "ce97d170_containsData st bufferList offset len =
     (if 0 < fl_length bufferList \<and> fl_fileOffset bufferList <=s offset then
        let bufferListEnd = fl_fileOffset bufferList + fl_numBytes bufferList;
            dataEnd = offset + ucast len
        in if dataEnd <=s bufferListEnd then
             bnd (rd (fl_values bufferList) 0) (\<lambda>v.
             bnd (find_buffer st (fl_values bufferList) offset (unat (fl_length bufferList) - 1) 1 v) (\<lambda>fileBuffer.
             bnd (fb_get st fileBuffer) (\<lambda>fb.
             bnd (fb_set st fileBuffer (fb\<lparr>fb_dataOffset := ucast (offset - fb_fileOffset fb)\<rparr>)) (\<lambda>st.
             Inr (fileBuffer, st)))))
           else Inr (None, st)
      else Inr (None, st))"

definition ce97d170_getBuffer :: "FileBufferList \<Rightarrow> u32 \<Rightarrow> nat ptr result" where
  "ce97d170_getBuffer bufferList index =
     (if index < fl_length bufferList then rd (fl_values bufferList) (unat index) else Inr None)"

text \<open>
  The part of the current buffer that crc32 and write use next: the bytes from the data offset to the
  buffer's end, or as many as are still wanted.
\<close>

definition next_bytes :: "'z fb_state_scheme \<Rightarrow> nat ptr \<Rightarrow> u32 \<Rightarrow> (u8 list \<times> u32 \<times> nat ptr) result" where
  "next_bytes st fileBuffer len =
     bnd (fb_get st fileBuffer) (\<lambda>fb.
     let bufferLength = fb_numBytes fb - fb_dataOffset fb;
         bufferLength = (if len < bufferLength then len else bufferLength)
     in bnd (page_get st (fb_buffer fb)) (\<lambda>page.
        bnd (read_cells page (unat (fb_dataOffset fb)) (unat bufferLength)) (\<lambda>bytes.
        Inr (bytes, bufferLength, fb_next fb))))"

definition ce97d170_crc32 :: "'z fb_state_scheme \<Rightarrow> nat ptr \<Rightarrow> u32 \<Rightarrow> u32 result" where
  "ce97d170_crc32 st fileBuffer len =
     repeat_until (\<lambda>(fileBuffer, len, crc32).
       if 0 < len then
         bnd (next_bytes st fileBuffer len) (\<lambda>(bytes, bufferLength, nxt).
         Inr (Inl (nxt, len - bufferLength, b7e0468d_crc32 bytes crc32)))
       else Inr (Inr crc32)) (fileBuffer, len, 0)"

text \<open>The result is the text that failed writes printed and the pieces passed to write(), in order.\<close>

definition ce97d170_write ::
    "env \<Rightarrow> (u32 \<Rightarrow> u8 list \<Rightarrow> nat sysret) \<Rightarrow> 'z fb_state_scheme \<Rightarrow> nat ptr \<Rightarrow> u32 \<Rightarrow> u32 \<Rightarrow> string \<Rightarrow>
     (string \<times> u8 list list) result" where
  "ce97d170_write e sys_write st fileBuffer fd len pathName =
     repeat_until (\<lambda>(fileBuffer, len, out, pieces).
       if 0 < len then
         bnd (next_bytes st fileBuffer len) (\<lambda>(bytes, bufferLength, nxt).
         bnd (e2f74138_writeFile e sys_write fd (map Some bytes) (unat bufferLength) pathName) (\<lambda>(msg, n).
         Inr (Inl (nxt, len - bufferLength, out @ msg, pieces @ [bytes]))))
       else Inr (Inr (out, pieces))) (fileBuffer, len, [], [])"

subsection \<open>Reading a file\<close>

text \<open>
  What the kernel does for one ticket: the answers to io_submit and io_getevents and, by the time of the
  events, the pages it has written.
\<close>

record kernel =
  io_submit :: "u64 \<Rightarrow> nat ptr list \<Rightarrow> u32 sysret"
  io_getevents :: "u64 \<Rightarrow> u32 \<Rightarrow> AIOEvent list sysret"
  io_pages :: "(nat \<Rightarrow> u8 block option) \<Rightarrow> nat \<Rightarrow> u8 block option"

definition ce97d170_readFileBuffer ::
    "env \<Rightarrow> kernel \<Rightarrow> (nat \<Rightarrow> nat) \<Rightarrow> fb_state \<Rightarrow> AIOContext \<Rightarrow> AIOFile \<Rightarrow> u64 \<Rightarrow>
     (string \<times> nat ptr \<times> fb_state \<times> AIOContext \<times> AIOFile) result" where
  "ce97d170_readFileBuffer e k alloc st ctx aioFile len =
     (if of_nat MEMORY_PAGE_SIZE < len then
        bnd (warn_error e [Str ''Cannot read FileBuffer: length '', Uint (ucast len),
                           Str '' greater than PagePool page size of 4096'']) (\<lambda>out.
        Inr (out, None, st, ctx, aioFile))
      else
        bnd (f502a409_acquirePage alloc (io_pools st)) (\<lambda>(bufferPtr, pools).
        bnd (ce97d170_acquireFileBuffer e alloc (st\<lparr>io_pools := pools\<rparr>) bufferPtr) (\<lambda>(fileBuffer, st).
        bnd (fb_get st fileBuffer) (\<lambda>fb.
        bnd (fb_set st fileBuffer (fb\<lparr>fb_fileOffset := aio_file_offset aioFile\<rparr>)) (\<lambda>st.
        let aioFile = aioFile\<lparr>aioTicket := f1207515_initAIOTicket (aioTicket aioFile)\<rparr>
        in bnd (f1207515_read e alloc st ctx aioFile bufferPtr (of_nat MEMORY_PAGE_SIZE)) (\<lambda>(r, st, ctx, aioFile).
           bnd (f1207515_submit (io_submit k) ctx aioFile) (\<lambda>(errno, ok, ctx, aioFile).
           bnd (f1207515_getEvents (io_getevents k) st ctx aioFile) (\<lambda>(errno, n, ctx, aioFile).
           let st = st\<lparr>pageBytes := io_pages k (pageBytes st)\<rparr>
           in bnd (rd (eventList (aioTicket aioFile)) 0) (\<lambda>ev.
              bnd (fb_get st fileBuffer) (\<lambda>fb.
              bnd (fb_set st fileBuffer (fb\<lparr>fb_numBytes := ucast (ev_res ev)\<rparr>)) (\<lambda>st.
              bnd (f1207515_cleanUpAIOTicket st (aioTicket aioFile)) (\<lambda>st.
              Inr ([], fileBuffer, st, ctx, aioFile)))))))))))))"

text \<open>One page and one read request per block.\<close>

primrec request_blocks ::
    "env \<Rightarrow> (nat \<Rightarrow> nat) \<Rightarrow> nat \<Rightarrow> fb_state \<Rightarrow> AIOContext \<Rightarrow> AIOFile \<Rightarrow> (fb_state \<times> AIOContext \<times> AIOFile) result" where
  "request_blocks e alloc 0 st ctx aioFile = Inr (st, ctx, aioFile)"
| "request_blocks e alloc (Suc n) st ctx aioFile =
     bnd (f502a409_acquirePage alloc (io_pools st)) (\<lambda>(bufferPtr, pools).
     bnd (f1207515_read e alloc (st\<lparr>io_pools := pools\<rparr>) ctx aioFile bufferPtr (of_nat MEMORY_PAGE_SIZE))
       (\<lambda>(r, st, ctx, aioFile). request_blocks e alloc n st ctx aioFile))"

text \<open>One event becomes one buffer at the end of the list.\<close>

definition event_buffer ::
    "env \<Rightarrow> (nat \<Rightarrow> nat) \<Rightarrow> fb_state \<times> FileBufferList \<Rightarrow> AIOEvent \<Rightarrow> (fb_state \<times> FileBufferList) result" where
  "event_buffer e alloc s ev =
     (let (st, bufferList) = s
      in bnd (deref (ev_obj ev)) (\<lambda>p.
         bnd (case aioRequests st p of None \<Rightarrow> Inl Uninitialised | Some r \<Rightarrow> Inr r) (\<lambda>aioRequest.
         bnd (ce97d170_acquireFileBuffer e alloc st (aio_buf aioRequest)) (\<lambda>(fileBuffer, st).
         bnd (fb_get st fileBuffer) (\<lambda>fb.
         bnd (fb_set st fileBuffer (fb\<lparr>fb_numBytes := ucast (ev_res ev), fb_fileOffset := aio_offset aioRequest\<rparr>)) (\<lambda>st.
         ce97d170_addBuffer st bufferList fileBuffer))))))"

definition page_release :: "fb_state \<Rightarrow> nat ptr \<Rightarrow> fb_state result" where
  "page_release st p = bnd (f502a409_releasePage (io_pools st) p) (\<lambda>pools. Inr (st\<lparr>io_pools := pools\<rparr>))"

text \<open>Events that did not arrive in time are collected by the next call.\<close>

definition ce97d170_readFileBufferList ::
    "env \<Rightarrow> kernel \<Rightarrow> (nat \<Rightarrow> nat) \<Rightarrow> fb_state \<Rightarrow> AIOContext \<Rightarrow> AIOFile \<Rightarrow> FileBufferList \<Rightarrow> u64 \<Rightarrow>
     (fb_state \<times> AIOContext \<times> AIOFile \<times> FileBufferList) result" where
  "ce97d170_readFileBufferList e k alloc st ctx aioFile bufferList len =
     bnd (if 0 < fl_length bufferList then ce97d170_resetFileBufferList st bufferList (Some page_release)
          else Inr (st, bufferList)) (\<lambda>(st, bufferList).
     bnd (if 0 < numRequestsRemaining aioFile then
            bnd (f1207515_getEvents (io_getevents k) st ctx aioFile) (\<lambda>(errno, numEvents, ctx, aioFile).
            Inr (numEvents, st, ctx, aioFile))
          else
            let aioFile = aioFile\<lparr>aioTicket := f1207515_initAIOTicket (aioTicket aioFile)\<rparr>;
                len = (ucast (min (ucast len :: u32) ASYNC_AIOTICKET_MAXSIZE) :: u64);
                numBlocks = (ucast (drop_bit 12 (len + 4095)) :: u32)
            in bnd (request_blocks e alloc (unat numBlocks) st ctx aioFile) (\<lambda>(st, ctx, aioFile).
               bnd (f1207515_submit (io_submit k) ctx (aioFile\<lparr>numRequestsRemaining := numBlocks\<rparr>))
                 (\<lambda>(errno, ok, ctx, aioFile).
               bnd (f1207515_getEvents (io_getevents k) st ctx aioFile) (\<lambda>(errno, numEvents, ctx, aioFile).
               Inr (numEvents, st, ctx, aioFile))))) (\<lambda>(numEvents, st, ctx, aioFile).
     let aioFile = aioFile\<lparr>numRequestsRemaining := numRequestsRemaining aioFile - numEvents\<rparr>;
         st = st\<lparr>pageBytes := io_pages k (pageBytes st)\<rparr>
     in bnd (read_cells (eventList (aioTicket aioFile)) 0 (nat (sint numEvents))) (\<lambda>events.
        bnd (fold_result (event_buffer e alloc) (st, bufferList) events) (\<lambda>(st, bufferList).
        bnd (f1207515_cleanUpAIOTicket st (aioTicket aioFile)) (\<lambda>st.
        Inr (st, ctx, aioFile, bufferList))))))"

subsection \<open>A chain of buffers as one text\<close>

text \<open>
  \<open>fb_data st p ds\<close>: the chain from \<open>p\<close> on starts with buffers whose bytes, from the data offset on, are
  the pieces \<open>ds\<close>.
\<close>

fun fb_data :: "'z fb_state_scheme \<Rightarrow> nat ptr \<Rightarrow> u8 list list \<Rightarrow> bool" where
  "fb_data st p [] = True"
| "fb_data st p (d # ds) =
     (case p of None \<Rightarrow> False
      | Some a \<Rightarrow> (case fileBuffers st a of None \<Rightarrow> False
        | Some fb \<Rightarrow> fb_data st (fb_next fb) ds \<and> unat (fb_dataOffset fb) + length d = unat (fb_numBytes fb) \<and>
            (case page_get st (fb_buffer fb) of Inl e \<Rightarrow> False
             | Inr page \<Rightarrow> \<exists>pre. length pre = unat (fb_dataOffset fb) \<and> holds page (pre @ d))))"

lemma holds_read_prefix:
  assumes "holds page (pre @ d)" and "n \<le> length d"
  shows "read_cells page (length pre) n = Inr (take n d)"
proof -
  have "holds page (pre @ take n d)"
    using assms(1) holds_take [of page "pre @ d" "length pre + n"] by simp
  from read_cells_holds [OF this] assms(2) show ?thesis by simp
qed

lemma next_bytes_data:
  assumes "fb_data st p (d # ds)"
  shows "\<exists>nxt. next_bytes st p len =
           Inr (take (unat len) d, (if unat len < length d then len else of_nat (length d)), nxt) \<and>
           fb_data st nxt ds \<and> length d < 2 ^ 32"
proof -
  from assms obtain a fb page pre where f: "p = Some a" "fileBuffers st a = Some fb" "fb_data st (fb_next fb) ds"
    "unat (fb_dataOffset fb) + length d = unat (fb_numBytes fb)" "page_get st (fb_buffer fb) = Inr page"
    "length pre = unat (fb_dataOffset fb)" "holds page (pre @ d)"
    by (auto split: option.splits sum.splits)
  have u: "unat (fb_numBytes fb - fb_dataOffset fb) = length d"
    using f(4) by (subst unat_minus_fits) (auto simp: word_le_nat_alt)
  then have w: "fb_numBytes fb - fb_dataOffset fb = of_nat (length d)" unfolding u [symmetric] by simp
  have lt: "length d < 2 ^ 32" using u unat_u32_lt [of "fb_numBytes fb - fb_dataOffset fb"] by simp
  have c: "len < of_nat (length d) \<longleftrightarrow> unat len < length d"
    unfolding w [symmetric] using u by (simp add: word_less_nat_alt)
  have "read_cells page (unat (fb_dataOffset fb)) (unat (if len < of_nat (length d) then len else of_nat (length d))) =
          Inr (take (unat len) d)"
    using holds_read_prefix [OF f(7), of "if unat len < length d then unat len else length d"] f(6) lt c
    by (auto simp: unat_of_nat split: if_splits)
  then show ?thesis using f lt c by (auto simp: next_bytes_def fb_get_def w Let_def)
qed

text \<open>The checksum over a chain, piece by piece.\<close>

lemma crc32_chain:
  assumes "fb_data st p ds" and "unat len \<le> length (concat ds)"
  shows "ce97d170_crc32 st p len = Inr (b7e0468d_crc32 (take (unat len) (concat ds)) 0)"
proof -
  let ?body = "\<lambda>(fileBuffer, len, crc32).
       if 0 < len then
         bnd (next_bytes st fileBuffer len) (\<lambda>(bytes, bufferLength, nxt).
         Inr (Inl (nxt, len - bufferLength, b7e0468d_crc32 bytes crc32)))
       else Inr (Inr crc32)"
  have "repeat_until ?body (p, len, c) = Inr (b7e0468d_crc32 (take (unat len) (concat ds)) c)" for c
    using assms
  proof (induction ds arbitrary: p len c)
    case Nil
    then have "len = 0" by (simp add: unat_eq_0)
    then show ?case by (simp add: repeat_until_unfold b7e0468d_crc32_def)
  next
    case (Cons d ds)
    show ?case
    proof (cases "len = 0")
      case True
      then show ?thesis by (simp add: repeat_until_unfold b7e0468d_crc32_def)
    next
      case False
      let ?n = "if unat len < length d then len else of_nat (length d) :: u32"
      obtain nxt where n: "next_bytes st p len = Inr (take (unat len) d, ?n, nxt)" "fb_data st nxt ds"
        "length d < 2 ^ 32" using next_bytes_data [OF Cons.prems(1), of len] by blast
      have k: "unat (len - ?n) = unat len - length d"
        using n(3) by (cases "unat len < length d") (auto simp: unat_minus_fits word_le_nat_alt unat_of_nat)
      have "repeat_until ?body (nxt, len - ?n, b7e0468d_crc32 (take (unat len) d) c) =
              Inr (b7e0468d_crc32 (take (unat (len - ?n)) (concat ds)) (b7e0468d_crc32 (take (unat len) d) c))"
        using Cons.prems(2) k by (intro Cons.IH n(2)) auto
      then show ?thesis
        using False n(1) k
        by (subst repeat_until_unfold) (simp add: word_neq_0_conv crc32_append)
    qed
  qed
  then show ?thesis by (simp add: ce97d170_crc32_def)
qed

subsection \<open>Properties\<close>

text \<open>C16: the checksum over a chain of buffers ends and equals the CRC-32 of the first \<open>len\<close> bytes of the
  concatenated pieces, however the bytes are spread over the pages.\<close>

theorem crc32_of_chain:
  assumes "fb_data st p ds" and "unat len \<le> length (concat ds)"
  shows "ce97d170_crc32 st p len = Inr (b7e0468d_crc32 (take (unat len) (concat ds)) 0)"
  using assms by (rule crc32_chain)

lemma crc32_of_chain_witness:
  "ce97d170_crc32 (initial_state\<lparr>fileBuffers := [8 \<mapsto> \<lparr>fb_buffer = Some 4096, fb_next = None, fb_fileOffset = 0,
                                                       fb_dataOffset = 1, fb_numBytes = 3\<rparr>],
                                 pageBytes := [4096 \<mapsto> [Some 7, Some 8, Some 9, None]]\<rparr>) (Some 8) 2 =
     Inr (b7e0468d_crc32 (take (unat (2::u32)) (concat [[8, 9]])) 0)"
proof (rule crc32_of_chain)
  show "fb_data (initial_state\<lparr>fileBuffers := [8 \<mapsto> \<lparr>fb_buffer = Some 4096, fb_next = None, fb_fileOffset = 0,
                                                       fb_dataOffset = 1, fb_numBytes = 3\<rparr>],
                                 pageBytes := [4096 \<mapsto> [Some 7, Some 8, Some 9, None]]\<rparr>) (Some 8) [[8, 9]]"
    by (auto simp: initial_state_def page_get_def holds_def intro!: exI [of _ "[7]"])
qed simp

end
