(* ===== verification/IOBuffer.thy ===== *)
theory IOBuffer
  imports FileBuffer
begin

text \<open>
  compress/iobuffer.c: the bit reader over a chain of file pages and the output slab of the
  decompressor. The reader keeps the page it is in and the bit offset in that page; a read takes
  eight bytes, from two pages if they do not fit in one, and drops the bits before the offset, so
  57 bits are valid. Slab contents are kept with the page contents, by address. An output chain is
  the list of its buffers.
\<close>

record InputBuffer =
  ib_fileBuffer :: "nat ptr"
  ib_buffer :: "nat ptr"
  ib_bits :: u64
  ib_bitPos :: u64
  ib_totalNumBits :: u64
  ib_offsetBitPos :: u32

record OutputBuffer =
  ob_buffer :: "nat ptr"
  ob_length :: u32
  ob_size :: u32

definition OFFSET_BIT_END_POS :: u32 where "OFFSET_BIT_END_POS = 32768"
definition OFFSET_BIT_MIN :: u32 where "OFFSET_BIT_MIN = 57"

subsection \<open>Create and initialise\<close>

definition c49f5b0d_initInputBuffer :: "'z fb_state_scheme \<Rightarrow> nat ptr \<Rightarrow> u32 \<Rightarrow> InputBuffer result" where
  "c49f5b0d_initInputBuffer st fileBuffer len =
     bnd (fb_get st fileBuffer) (\<lambda>fb.
     Inr \<lparr>ib_fileBuffer = fileBuffer, ib_buffer = fb_buffer fb, ib_bits = 0, ib_bitPos = 0,
          ib_totalNumBits = ucast (push_bit 3 len), ib_offsetBitPos = push_bit 3 (fb_dataOffset fb)\<rparr>)"

definition c49f5b0d_createInputBuffer :: "'z fb_state_scheme \<Rightarrow> nat ptr \<Rightarrow> u32 \<Rightarrow> InputBuffer result" where
  "c49f5b0d_createInputBuffer st fileBuffer len =
     bnd (fb_get st fileBuffer) (\<lambda>fb.
     Inr \<lparr>ib_fileBuffer = fileBuffer, ib_buffer = fb_buffer fb, ib_bits = 0, ib_bitPos = 0,
          ib_totalNumBits = ucast (push_bit 3 len), ib_offsetBitPos = push_bit 3 (fb_dataOffset fb)\<rparr>)"

text \<open>A slab that was never used is unwritten; a reused one keeps what it held.\<close>

definition slab_memory :: "(nat \<Rightarrow> u8 block option) \<Rightarrow> nat ptr \<Rightarrow> nat \<Rightarrow> u8 block option" where
  "slab_memory mem p =
     (case p of None \<Rightarrow> mem
      | Some a \<Rightarrow> mem(a := Some (case mem a of None \<Rightarrow> fresh SLABPOOL_SLAB_SIZE | Some b \<Rightarrow> b)))"

definition c49f5b0d_initOutputBuffer ::
    "(nat \<Rightarrow> nat) \<Rightarrow> 'z fb_state_scheme \<Rightarrow> (OutputBuffer \<times> 'z fb_state_scheme) result" where
  "c49f5b0d_initOutputBuffer alloc st =
     bnd (b426145b_acquireSlab alloc (io_pools st)) (\<lambda>(slab, pools).
     Inr (\<lparr>ob_buffer = slab, ob_length = 0, ob_size = 0\<rparr>,
          st\<lparr>io_pools := pools, pageBytes := slab_memory (pageBytes st) slab\<rparr>))"

definition c49f5b0d_createOutputBuffer ::
    "(nat \<Rightarrow> nat) \<Rightarrow> 'z fb_state_scheme \<Rightarrow> (OutputBuffer \<times> 'z fb_state_scheme) result" where
  "c49f5b0d_createOutputBuffer alloc st =
     bnd (b426145b_acquireSlab alloc (io_pools st)) (\<lambda>(slab, pools).
     Inr (\<lparr>ob_buffer = slab, ob_length = 0, ob_size = 0\<rparr>,
          st\<lparr>io_pools := pools, pageBytes := slab_memory (pageBytes st) slab\<rparr>))"

definition release_slab :: "'z fb_state_scheme \<Rightarrow> OutputBuffer \<Rightarrow> 'z fb_state_scheme result" where
  "release_slab st ob = bnd (b426145b_releaseSlab (io_pools st) (ob_buffer ob)) (\<lambda>pools. Inr (st\<lparr>io_pools := pools\<rparr>))"

definition c49f5b0d_cleanUpOutputBuffer ::
    "'z fb_state_scheme \<Rightarrow> OutputBuffer list \<Rightarrow> 'z fb_state_scheme result" where
  "c49f5b0d_cleanUpOutputBuffer st chain = fold_result release_slab st chain"

definition c49f5b0d_destroyOutputBuffer ::
    "'z fb_state_scheme \<Rightarrow> OutputBuffer list \<Rightarrow> 'z fb_state_scheme result" where
  "c49f5b0d_destroyOutputBuffer st chain = fold_result release_slab st chain"

subsection \<open>Output\<close>

text \<open>The loop over the chain: at most one slab's worth from each buffer.\<close>

fun output_crc :: "'z fb_state_scheme \<Rightarrow> OutputBuffer list \<Rightarrow> u32 \<Rightarrow> u32 \<Rightarrow> u32 result" where
  "output_crc st [] len crc32 = Inr crc32"
| "output_crc st (ob # chain) len crc32 =
     (if 0 < len then
        let bufferLength = (if len < of_nat SLABPOOL_SLAB_SIZE then len else of_nat SLABPOOL_SLAB_SIZE)
        in bnd (page_get st (ob_buffer ob)) (\<lambda>slab.
           bnd (read_cells slab 0 (unat bufferLength)) (\<lambda>bytes.
           output_crc st chain (len - bufferLength) (b7e0468d_crc32 bytes crc32)))
      else Inr crc32)"

definition c49f5b0d_crc32 :: "'z fb_state_scheme \<Rightarrow> OutputBuffer list \<Rightarrow> u32 \<Rightarrow> u32 result" where
  "c49f5b0d_crc32 st chain len = output_crc st chain len 0"

definition c49f5b0d_write ::
    "env \<Rightarrow> (u32 \<Rightarrow> u8 list \<Rightarrow> nat sysret) \<Rightarrow> 'z fb_state_scheme \<Rightarrow> OutputBuffer \<Rightarrow> u32 \<Rightarrow> string \<Rightarrow>
     (string \<times> int) result" where
  "c49f5b0d_write e sys_write st ob fd pathName =
     bnd (page_get st (ob_buffer ob)) (\<lambda>slab.
     e2f74138_writeFile e sys_write fd slab (unat (ob_length ob)) pathName)"

subsection \<open>Bit input\<close>

text \<open>\<open>bits |= (uint64_t) next[j] << (i * 8)\<close> for consecutive \<open>i\<close> and \<open>j\<close>.\<close>

fun or_bytes :: "nat \<Rightarrow> u8 list \<Rightarrow> u64" where
  "or_bytes i [] = 0"
| "or_bytes i (b # bs) = push_bit (8 * i) (ucast b) OR or_bytes (Suc i) bs"

definition has_next :: "'z fb_state_scheme \<Rightarrow> InputBuffer \<Rightarrow> nat ptr result" where
  "has_next st ib = bnd (fb_get st (ib_fileBuffer ib)) (\<lambda>fb. Inr (fb_next fb))"

text \<open>
  The eight bytes from the current offset on, the common part of getNextBits and useNumBits: all from
  the current page if they are in it or there is no other page, else from this and the next page.
\<close>

definition read_bits :: "'z fb_state_scheme \<Rightarrow> InputBuffer \<Rightarrow> u64 result" where
  "read_bits st ib =
     (let next = ib_offsetBitPos ib div 8;
          minOffsetBitPos = ib_offsetBitPos ib + OFFSET_BIT_MIN
      in bnd (has_next st ib) (\<lambda>nextBuffer.
         if minOffsetBitPos \<le> OFFSET_BIT_END_POS \<or> nextBuffer = None then
           bnd (page_get st (ib_buffer ib)) (\<lambda>page.
           bnd (read_cells page (unat next) 8) (\<lambda>bytes. Inr (or_bytes 0 bytes)))
         else
           let endCurrentBuf = unat (of_nat MEMORY_PAGE_SIZE - next)
           in bnd (page_get st (ib_buffer ib)) (\<lambda>page.
              bnd (read_cells page (unat next) endCurrentBuf) (\<lambda>xs.
              bnd (fb_get st nextBuffer) (\<lambda>fb.
              bnd (page_get st (fb_buffer fb)) (\<lambda>page2.
              bnd (read_cells page2 0 (8 - endCurrentBuf)) (\<lambda>ys.
              Inr (or_bytes 0 xs OR or_bytes endCurrentBuf ys))))))))"

text \<open>
  Moving the offset, the common end of advanceNumBits and useNumBits; None when the chain ends, which
  leaves the fields set so far.
\<close>

definition next_offset :: "'z fb_state_scheme \<Rightarrow> InputBuffer \<Rightarrow> u32 \<Rightarrow> (InputBuffer \<times> u32) option result" where
  "next_offset st ib numBits =
     (let nextOffsetBitPos = ib_offsetBitPos ib + numBits
      in if OFFSET_BIT_END_POS < nextOffsetBitPos then
           bnd (has_next st ib) (\<lambda>nextBuffer.
           if nextBuffer = None then Inr None
           else bnd (fb_get st nextBuffer) (\<lambda>fb.
                Inr (Some (ib\<lparr>ib_fileBuffer := nextBuffer, ib_buffer := fb_buffer fb\<rparr>,
                           nextOffsetBitPos - OFFSET_BIT_END_POS))))
         else Inr (Some (ib, nextOffsetBitPos)))"

definition c49f5b0d_advanceNumBits ::
    "'z fb_state_scheme \<Rightarrow> InputBuffer \<Rightarrow> u32 \<Rightarrow> (bool \<times> InputBuffer) result" where
  "c49f5b0d_advanceNumBits st ib numBits =
     (let nextBitPos = ib_bitPos ib + ucast numBits
      in if ib_totalNumBits ib < nextBitPos then Inr (False, ib)
         else
           let ib = ib\<lparr>ib_bitPos := nextBitPos\<rparr>
           in bnd (next_offset st ib numBits) (\<lambda>r.
              case r of
                None \<Rightarrow> Inr (False, ib)
              | Some (ib, nextOffsetBitPos) \<Rightarrow> Inr (True, ib\<lparr>ib_offsetBitPos := nextOffsetBitPos\<rparr>)))"

definition c49f5b0d_getNextBits :: "'z fb_state_scheme \<Rightarrow> InputBuffer \<Rightarrow> InputBuffer result" where
  "c49f5b0d_getNextBits st ib =
     bnd (read_bits st ib) (\<lambda>bits.
     Inr (ib\<lparr>ib_bits := drop_bit (unat (ib_offsetBitPos ib mod 8)) bits\<rparr>))"

definition c49f5b0d_useNumBits ::
    "'z fb_state_scheme \<Rightarrow> InputBuffer \<Rightarrow> u32 \<Rightarrow> (bool \<times> InputBuffer) result" where
  "c49f5b0d_useNumBits st ib numBits =
     (let nextBitPos = ib_bitPos ib + ucast numBits
      in if ib_totalNumBits ib < nextBitPos then Inr (False, ib)
         else
           let ib = ib\<lparr>ib_bitPos := nextBitPos\<rparr>
           in bnd (read_bits st ib) (\<lambda>bits.
              bnd (next_offset st ib numBits) (\<lambda>r.
              case r of
                None \<Rightarrow> Inr (False, ib)
              | Some (ib', nextOffsetBitPos) \<Rightarrow>
                  Inr (True, ib'\<lparr>ib_bits := drop_bit (unat (ib_offsetBitPos ib mod 8)) bits,
                                 ib_offsetBitPos := nextOffsetBitPos\<rparr>))))"

subsection \<open>The bits that remain\<close>

text \<open>The bits of a byte string, lowest bit of each byte first.\<close>

definition bits_of :: "u8 list \<Rightarrow> bool list" where
  "bits_of bs = concat (map (\<lambda>b. map (bit b) [0..<8]) bs)"

lemma bits_of_simps [simp]: "bits_of [] = []" "bits_of (b # bs) = map (bit b) [0..<8] @ bits_of bs"
  by (simp_all add: bits_of_def)

lemma length_bits_of [simp]: "length (bits_of bs) = 8 * length bs"
  by (induction bs) simp_all

lemma bits_of_append [simp]: "bits_of (xs @ ys) = bits_of xs @ bits_of ys"
  by (simp add: bits_of_def)

lemma bits_of_nth: "i < 8 * length bs \<Longrightarrow> bits_of bs ! i = bit (bs ! (i div 8)) (i mod 8)"
proof (induction bs arbitrary: i)
  case (Cons b bs)
  show ?case
  proof (cases "i < 8")
    case True
    then show ?thesis by (simp add: nth_append del: upt_Suc)
  next
    case False
    then have "i div 8 = Suc ((i - 8) div 8)" "i mod 8 = (i - 8) mod 8"
      by (simp_all add: le_div_geq le_mod_geq)
    with False Cons show ?thesis by (simp add: nth_append del: upt_Suc)
  qed
qed simp

lemma bit_or_bytes:
  "bit (or_bytes i bs) k \<longleftrightarrow> k < 64 \<and> 8 * i \<le> k \<and> k < 8 * (i + length bs) \<and> bit (bs ! (k div 8 - i)) (k mod 8)"
proof (induction bs arbitrary: i)
  case (Cons b bs)
  consider "k < 8 * i" | "8 * i \<le> k" "k < 8 * i + 8" | "8 * i + 8 \<le> k" by linarith
  then show ?case
  proof cases
    case 1
    then show ?thesis by (simp add: Cons bit_simps)
  next
    case 2
    then have "k div 8 = i" by (auto intro: div_nat_eqI)
    then have "k mod 8 = k - 8 * i" using div_mult_mod_eq [of k 8] by simp
    with 2 \<open>k div 8 = i\<close> show ?thesis by (auto simp: Cons bit_simps dest: bit_byte)
  next
    case 3
    then have "Suc i \<le> k div 8" by linarith
    then have "k div 8 - i = Suc (k div 8 - Suc i)" by linarith
    with 3 show ?thesis by (auto simp: Cons bit_simps dest: bit_byte)
  qed
qed simp

text \<open>The chain of full pages from a FileBuffer on.\<close>

fun page_chain :: "'z fb_state_scheme \<Rightarrow> nat ptr \<Rightarrow> u8 list list \<Rightarrow> bool" where
  "page_chain st p [] = (p = None)"
| "page_chain st p (pg # pgs) =
     (case p of None \<Rightarrow> False
      | Some a \<Rightarrow> (case fileBuffers st a of None \<Rightarrow> False
        | Some fb \<Rightarrow> page_get st (fb_buffer fb) = Inr (map Some pg) \<and> length pg = MEMORY_PAGE_SIZE \<and>
                    page_chain st (fb_next fb) pgs))"

text \<open>\<open>bs\<close> are the bits from the current offset to the end of the chain.\<close>

definition ib_rep :: "'z fb_state_scheme \<Rightarrow> InputBuffer \<Rightarrow> bool list \<Rightarrow> bool" where
  "ib_rep st ib bs \<longleftrightarrow>
     (\<exists>pg pgs fb. page_chain st (ib_fileBuffer ib) (pg # pgs) \<and> fb_get st (ib_fileBuffer ib) = Inr fb \<and>
        ib_buffer ib = fb_buffer fb \<and> unat (ib_offsetBitPos ib) \<le> 32768 \<and>
        bs = drop (unat (ib_offsetBitPos ib)) (bits_of (concat (pg # pgs))))"

lemma page_chain_Cons:
  "page_chain st p (pg # pgs) \<longleftrightarrow>
     (\<exists>fb. fb_get st p = Inr fb \<and> page_get st (fb_buffer fb) = Inr (map Some pg) \<and>
           length pg = 4096 \<and> page_chain st (fb_next fb) pgs)"
  by (auto simp: fb_get_def MEMORY_PAGE_SIZE_def split: option.splits)

declare page_chain.simps(2) [simp del]

lemma page_chain_None [simp]: "page_chain st None pgs \<longleftrightarrow> pgs = []"
  by (cases pgs) (simp_all add: page_chain.simps(2))

lemma read_page:
  assumes "k + n \<le> length pg"
  shows "read_cells (map Some pg) k n = Inr (take n (drop k pg))"
proof -
  have "holds (map Some pg) (take k pg @ take n (drop k pg))"
    using assms by (auto simp: holds_def take_map take_add [symmetric])
  from read_cells_holds [OF this] assms show ?thesis by simp
qed

subsection \<open>Reading\<close>

lemma or_bytes_append: "or_bytes i (xs @ ys) = or_bytes i xs OR or_bytes (i + length xs) ys"
  by (induction xs arbitrary: i) (simp_all add: or.assoc)

lemma or_bytes_window:
  assumes "length (take 8 (drop k all)) = 8" and "j < 64"
  shows "bit (or_bytes 0 (take 8 (drop k all))) j = bits_of all ! (8 * k + j)"
proof -
  have k: "k + 8 \<le> length all" using assms(1) by (simp split: if_splits)
  then have "8 * k + j < 8 * length all" using assms(2) by linarith
  moreover have "j div 8 < 8" using assms(2) by linarith
  ultimately show ?thesis
    using assms(2) k by (simp add: bit_or_bytes bits_of_nth)
qed

lemma offset_words:
  fixes w :: u32
  assumes "unat w \<le> 32768"
  shows "unat (w div 8) = unat w div 8" "unat (w mod 8) = unat w mod 8" "unat (w + 57) = unat w + 57"
    "unat (4096 - w div 8) = 4096 - unat w div 8"
proof -
  show d: "unat (w div 8) = unat w div 8" by (simp add: unat_div)
  show "unat (w mod 8) = unat w mod 8" by (simp add: unat_mod)
  show "unat (w + 57) = unat w + 57" using assms by (simp add: unat_plus_fits)
  have "w div 8 \<le> 4096" using d assms by (simp add: word_le_nat_alt)
  then show "unat (4096 - w div 8) = 4096 - unat w div 8" using d by (simp add: unat_minus_fits)
qed

lemma read_bits_ok:
  assumes rep: "ib_rep st ib bs" and enough: "64 \<le> length bs"
  shows "\<exists>w. read_bits st ib = Inr w \<and>
             (\<forall>k < 57. bit (drop_bit (unat (ib_offsetBitPos ib mod 8)) w) k = bs ! k)"
proof -
  define o' where "o' = unat (ib_offsetBitPos ib)"
  from rep obtain pg pgs fb where R: "page_chain st (ib_fileBuffer ib) (pg # pgs)"
    "fb_get st (ib_fileBuffer ib) = Inr fb" "ib_buffer ib = fb_buffer fb" "o' \<le> 32768"
    "bs = drop o' (bits_of (concat (pg # pgs)))" unfolding ib_rep_def o'_def by blast
  from R(1,2) have P: "page_get st (fb_buffer fb) = Inr (map Some pg)" "length pg = 4096"
    "page_chain st (fb_next fb) pgs" by (auto simp: page_chain_Cons)
  note W = offset_words [of "ib_offsetBitPos ib", folded o'_def, OF R(4)]
  let ?all = "concat (pg # pgs)" and ?k = "o' div 8"
  have len: "o' + 64 \<le> 8 * length ?all" using enough R(5) by simp
  have eight: "length (take 8 (drop ?k ?all)) = 8" using len by simp
  have "read_bits st ib = Inr (or_bytes 0 (take 8 (drop ?k ?all)))"
  proof (cases "o' + 57 \<le> 32768 \<or> fb_next fb = None")
    case True
    have in_page: "?k + 8 \<le> length pg"
    proof (cases "o' + 57 \<le> 32768")
      case False
      then have "pgs = []" using True P(3) by (cases pgs) auto
      then have "o' + 64 \<le> 32768" using len P(2) by simp
      then show ?thesis using P(2) by linarith
    qed (use P(2) in linarith)
    then have "take 8 (drop ?k ?all) = take 8 (drop ?k pg)" by simp
    moreover have "ib_offsetBitPos ib + OFFSET_BIT_MIN \<le> OFFSET_BIT_END_POS \<or> fb_next fb = None"
      using True W(3) by (simp add: OFFSET_BIT_MIN_def OFFSET_BIT_END_POS_def word_le_nat_alt)
    ultimately show ?thesis
      using in_page R(2,3) P(1) W(1) by (simp add: read_bits_def has_next_def Let_def read_page)
  next
    case False
    then obtain pg2 pgs2 fb2 where N: "pgs = pg2 # pgs2" "fb_get st (fb_next fb) = Inr fb2"
      "page_get st (fb_buffer fb2) = Inr (map Some pg2)" "length pg2 = 4096"
      using P(3) by (cases pgs) (auto simp: page_chain_Cons)
    have nn: "\<exists>y. fb_next fb = Some y" using False by auto
    have ke: "?k \<le> 4096" "4096 - ?k \<le> 8" using False R(4) by linarith+
    have "take 8 (drop ?k ?all) = drop ?k pg @ take (8 - (4096 - ?k)) pg2"
      using ke P(2) N(1,4) by simp
    moreover have "take (4096 - ?k) (drop ?k pg) = drop ?k pg" using P(2) by simp
    moreover have "\<not> (ib_offsetBitPos ib + OFFSET_BIT_MIN \<le> OFFSET_BIT_END_POS)"
      using False W(3) by (simp add: OFFSET_BIT_MIN_def OFFSET_BIT_END_POS_def word_le_nat_alt)
    ultimately show ?thesis
      using nn ke R(2,3) P(1,2) N W(1,4)
      by (auto simp add: read_bits_def has_next_def Let_def read_page or_bytes_append MEMORY_PAGE_SIZE_def)
  qed
  moreover have "bit (drop_bit (unat (ib_offsetBitPos ib mod 8)) (or_bytes 0 (take 8 (drop ?k ?all)))) j = bs ! j"
    if "j < 57" for j
  proof -
    have "o' mod 8 + j < 64" using that by linarith
    then have "bit (or_bytes 0 (take 8 (drop ?k ?all))) (o' mod 8 + j) = bits_of ?all ! (8 * ?k + (o' mod 8 + j))"
      by (rule or_bytes_window [OF eight])
    also have "8 * ?k + (o' mod 8 + j) = o' + j" by simp
    also have "bits_of ?all ! (o' + j) = bs ! j"
      unfolding R(5) using len by (intro nth_drop [symmetric]) simp
    finally show ?thesis using W(2) by (simp only: bit_drop_bit_eq comp_apply)
  qed
  ultimately show ?thesis by blast
qed

subsection \<open>Moving on\<close>

lemma next_offset_ok:
  assumes rep: "ib_rep st ib bs" and n: "unat n \<le> length bs" "unat n \<le> 32768"
  shows "\<exists>ib' off. next_offset st ib n = Inr (Some (ib', off)) \<and>
           ib_rep st (ib'\<lparr>ib_offsetBitPos := off\<rparr>) (drop (unat n) bs) \<and>
           ib_bits ib' = ib_bits ib \<and> ib_bitPos ib' = ib_bitPos ib \<and> ib_totalNumBits ib' = ib_totalNumBits ib"
proof -
  define o' where "o' = unat (ib_offsetBitPos ib)"
  from rep obtain pg pgs fb where R: "page_chain st (ib_fileBuffer ib) (pg # pgs)"
    "fb_get st (ib_fileBuffer ib) = Inr fb" "ib_buffer ib = fb_buffer fb" "o' \<le> 32768"
    "bs = drop o' (bits_of (concat (pg # pgs)))" unfolding ib_rep_def o'_def by blast
  from R(1,2) have P: "page_get st (fb_buffer fb) = Inr (map Some pg)" "length pg = 4096"
    "page_chain st (fb_next fb) pgs" by (auto simp: page_chain_Cons)
  have sum: "unat (ib_offsetBitPos ib + n) = o' + unat n"
    using R(4) n(2) by (simp add: o'_def unat_plus_fits)
  have beyond: "OFFSET_BIT_END_POS < ib_offsetBitPos ib + n \<longleftrightarrow> 32768 < o' + unat n"
    using sum by (simp add: OFFSET_BIT_END_POS_def word_less_nat_alt)
  show ?thesis
  proof (cases "32768 < o' + unat n")
    case False
    have "drop (unat n) bs = drop (unat (ib_offsetBitPos ib + n)) (bits_of (concat (pg # pgs)))"
      unfolding R(5) sum by (simp only: drop_drop add.commute)
    then have "ib_rep st (ib\<lparr>ib_offsetBitPos := ib_offsetBitPos ib + n\<rparr>) (drop (unat n) bs)"
      unfolding ib_rep_def using R(1-4) sum False
      by (intro exI [of _ pg] exI [of _ pgs] exI [of _ fb]) simp
    then show ?thesis using False beyond by (simp add: next_offset_def)
  next
    case True
    have "pgs \<noteq> []" using True n(1) R(4,5) P(2) by auto
    then obtain pg2 pgs2 where pgs: "pgs = pg2 # pgs2" by (cases pgs) auto
    then obtain fb2 where N: "fb_get st (fb_next fb) = Inr fb2" using P(3) by (auto simp: page_chain_Cons)
    let ?off = "ib_offsetBitPos ib + n - OFFSET_BIT_END_POS"
    have off: "unat ?off = o' + unat n - 32768"
      using sum True by (simp add: OFFSET_BIT_END_POS_def unat_minus_fits word_le_nat_alt)
    have "bits_of (concat (pg # pgs)) = bits_of pg @ bits_of (concat pgs)" by simp
    moreover have "unat n + (o' - 32768) - (32768 - o') = o' + unat n - 32768" using R(4) True by linarith
    ultimately have "drop (unat n) bs = drop (o' + unat n - 32768) (bits_of (concat pgs))"
      using R(5) True P(2) by (simp add: add.commute)
    then have "ib_rep st (ib\<lparr>ib_fileBuffer := fb_next fb, ib_buffer := fb_buffer fb2, ib_offsetBitPos := ?off\<rparr>)
                 (drop (unat n) bs)"
      unfolding ib_rep_def using P(3) pgs N off n(2) R(4)
      by (intro exI [of _ pg2] exI [of _ pgs2] exI [of _ fb2]) simp
    moreover have "fb_next fb \<noteq> None" using P(3) pgs by (cases "fb_next fb") auto
    ultimately show ?thesis
      using True beyond R(2) N by (simp add: next_offset_def has_next_def)
  qed
qed

text \<open>
  A bit reader whose file holds what it claims: the bits that remain are the stream, and the bits that
  the caller may still use are counted down in \<open>bitPos\<close>.
\<close>

definition ib_left :: "InputBuffer \<Rightarrow> nat" where
  "ib_left ib = unat (ib_totalNumBits ib) - unat (ib_bitPos ib)"

definition ib_wf :: "InputBuffer \<Rightarrow> bool" where
  "ib_wf ib \<longleftrightarrow> ib_bitPos ib \<le> ib_totalNumBits ib \<and> unat (ib_totalNumBits ib) < 2 ^ 32"

lemma bitPos_step:
  assumes "ib_wf ib"
  shows "unat (ib_bitPos ib + ucast (n::u32)) = unat (ib_bitPos ib) + unat n"
    and "ib_totalNumBits ib < ib_bitPos ib + ucast n \<longleftrightarrow> ib_left ib < unat n"
proof -
  have le: "unat (ib_bitPos ib) \<le> unat (ib_totalNumBits ib)" "unat (ib_totalNumBits ib) < 2 ^ 32"
    using assms by (auto simp: ib_wf_def word_le_nat_alt)
  have u: "unat (ucast n :: u64) = unat n" using unat_u32_lt [of n]
    by (simp add: unsigned_ucast_eq take_bit_nat_eq_self)
  show s: "unat (ib_bitPos ib + ucast n) = unat (ib_bitPos ib) + unat n"
    using le unat_u32_lt [of n] u by (subst unat_plus_fits) simp_all
  show "ib_totalNumBits ib < ib_bitPos ib + ucast n \<longleftrightarrow> ib_left ib < unat n"
    using s le by (auto simp: word_less_nat_alt ib_left_def)
qed

lemma advanceNumBits_ok:
  assumes rep: "ib_rep st ib bs" and wf: "ib_wf ib" and n: "unat n \<le> ib_left ib" "ib_left ib \<le> length bs" "unat n \<le> 32768"
  shows "\<exists>ib'. c49f5b0d_advanceNumBits st ib n = Inr (True, ib') \<and> ib_rep st ib' (drop (unat n) bs) \<and>
           ib_wf ib' \<and> ib_left ib' = ib_left ib - unat n \<and> ib_bits ib' = ib_bits ib"
proof -
  let ?ib = "ib\<lparr>ib_bitPos := ib_bitPos ib + ucast n\<rparr>"
  have rep': "ib_rep st ?ib bs" using rep by (simp add: ib_rep_def)
  from next_offset_ok [OF rep', of n] n obtain ib' off where o: "next_offset st ?ib n = Inr (Some (ib', off))"
    "ib_rep st (ib'\<lparr>ib_offsetBitPos := off\<rparr>) (drop (unat n) bs)" "ib_bits ib' = ib_bits ib"
    "ib_bitPos ib' = ib_bitPos ib + ucast n" "ib_totalNumBits ib' = ib_totalNumBits ib" by auto
  note B = bitPos_step [OF wf, of n]
  have "\<not> ib_totalNumBits ib < ib_bitPos ib + ucast n" using B(2) n(1) by simp
  moreover have "ib_wf (ib'\<lparr>ib_offsetBitPos := off\<rparr>)"
    using o(4,5) wf B(2) n(1) by (simp add: ib_wf_def not_less)
  moreover have "ib_left (ib'\<lparr>ib_offsetBitPos := off\<rparr>) = ib_left ib - unat n"
    using o(4,5) B(1) by (simp add: ib_left_def)
  ultimately show ?thesis
    using o by (simp add: c49f5b0d_advanceNumBits_def Let_def)
qed

lemma advanceNumBits_end:
  assumes "ib_wf ib" and "ib_left ib < unat n"
  shows "c49f5b0d_advanceNumBits st ib n = Inr (False, ib)"
  using bitPos_step(2) [OF assms(1), of n] assms(2) by (simp add: c49f5b0d_advanceNumBits_def)

lemma getNextBits_ok:
  assumes "ib_rep st ib bs" and "64 \<le> length bs"
  shows "\<exists>w. c49f5b0d_getNextBits st ib = Inr (ib\<lparr>ib_bits := w\<rparr>) \<and> (\<forall>k < 57. bit w k = bs ! k)"
  using read_bits_ok [OF assms] by (auto simp: c49f5b0d_getNextBits_def)

lemma ib_rep_bits [simp]: "ib_rep st (ib\<lparr>ib_bits := w\<rparr>) bs = ib_rep st ib bs"
  by (simp add: ib_rep_def)

lemma ib_wf_bits [simp]: "ib_wf (ib\<lparr>ib_bits := w\<rparr>) = ib_wf ib" "ib_left (ib\<lparr>ib_bits := w\<rparr>) = ib_left ib"
  by (simp_all add: ib_wf_def ib_left_def)

text \<open>useNumBits is a read followed by an advance.\<close>

lemma useNumBits_ok:
  assumes rep: "ib_rep st ib bs" and wf: "ib_wf ib" and n: "unat n \<le> ib_left ib" "ib_left ib \<le> length bs"
    "unat n \<le> 32768" and enough: "64 \<le> length bs"
  shows "\<exists>ib'. c49f5b0d_useNumBits st ib n = Inr (True, ib') \<and> ib_rep st ib' (drop (unat n) bs) \<and>
           ib_wf ib' \<and> ib_left ib' = ib_left ib - unat n \<and> (\<forall>k < 57. bit (ib_bits ib') k = bs ! k)"
proof -
  let ?ib = "ib\<lparr>ib_bitPos := ib_bitPos ib + ucast n\<rparr>"
  have rep': "ib_rep st ?ib bs" using rep by (simp add: ib_rep_def)
  from next_offset_ok [OF rep', of n] n obtain ib' off where o: "next_offset st ?ib n = Inr (Some (ib', off))"
    "ib_rep st (ib'\<lparr>ib_offsetBitPos := off\<rparr>) (drop (unat n) bs)"
    "ib_bitPos ib' = ib_bitPos ib + ucast n" "ib_totalNumBits ib' = ib_totalNumBits ib" by auto
  from read_bits_ok [OF rep' enough] obtain w where w: "read_bits st ?ib = Inr w"
    "\<forall>k < 57. bit (drop_bit (unat (ib_offsetBitPos ib mod 8)) w) k = bs ! k" by auto
  note B = bitPos_step [OF wf, of n]
  let ?r = "ib'\<lparr>ib_bits := drop_bit (unat (ib_offsetBitPos ib mod 8)) w, ib_offsetBitPos := off\<rparr>"
  have "\<not> ib_totalNumBits ib < ib_bitPos ib + ucast n" using B(2) n(1) by simp
  moreover have "ib_rep st ?r (drop (unat n) bs)" using o(2) by (simp add: ib_rep_def)
  moreover have "ib_wf ?r" using o(3,4) wf B(2) n(1) by (simp add: ib_wf_def not_less)
  moreover have "ib_left ?r = ib_left ib - unat n" using o(3,4) B(1) by (simp add: ib_left_def)
  ultimately show ?thesis
    using o(1) w by (simp add: c49f5b0d_useNumBits_def Let_def)
qed

lemma useNumBits_end:
  assumes "ib_wf ib" and "ib_left ib < unat n"
  shows "c49f5b0d_useNumBits st ib n = Inr (False, ib)"
  using bitPos_step(2) [OF assms(1), of n] assms(2) by (simp add: c49f5b0d_useNumBits_def)

subsection \<open>The contract of a bit source\<close>

text \<open>A run of reads: the pieces of the stream it looked at, until the source ends.\<close>

primrec read_run :: "('s \<Rightarrow> u64) \<Rightarrow> ('s \<Rightarrow> u32 \<Rightarrow> (bool \<times> 's) result) \<Rightarrow> u32 list \<Rightarrow> 's \<Rightarrow> (bool list list \<times> 's) result" where
  "read_run window use_bits [] s = Inr ([], s)"
| "read_run window use_bits (n # ns) s =
     bnd (use_bits s n) (\<lambda>(ok, s). if ok then
       bnd (read_run window use_bits ns s) (\<lambda>(rs, t). Inr (map (bit (window s)) [0..<unat n] # rs, t))
     else Inr ([], s))"

text \<open>
  What the decompressor relies on: a source of bits that can be looked at (57 of them), moved on, or both
  at once, and that says so when fewer bits are left than are asked for.
\<close>

locale bit_source =
  fixes rep :: "'s \<Rightarrow> bool list \<Rightarrow> bool"
    and left :: "'s \<Rightarrow> nat"
    and window :: "'s \<Rightarrow> u64"
    and use_bits :: "'s \<Rightarrow> u32 \<Rightarrow> (bool \<times> 's) result"
  assumes use_law: "rep s bs \<Longrightarrow> unat n \<le> left s \<Longrightarrow> left s + 64 \<le> length bs \<Longrightarrow> unat n \<le> 57 \<Longrightarrow>
      \<exists>s'. use_bits s n = Inr (True, s') \<and> rep s' (drop (unat n) bs) \<and> left s' = left s - unat n \<and>
           (\<forall>k < 57. bit (window s') k = bs ! k)"
    and end_law: "rep s bs \<Longrightarrow> left s < unat n \<Longrightarrow> use_bits s n = Inr (False, s)"
begin

lemma read_run_pieces:
  assumes "rep s bs" and "\<forall>n \<in> set ns. unat n \<le> 57" and "sum_list (map unat ns) \<le> left s" and "left s + 64 \<le> length bs"
  shows "\<exists>rs t. read_run window use_bits ns s = Inr (rs, t) \<and> concat rs = take (sum_list (map unat ns)) bs \<and>
           map length rs = map unat ns \<and> rep t (drop (sum_list (map unat ns)) bs)"
  using assms
proof (induction ns arbitrary: s bs)
  case Nil
  then show ?case by auto
next
  case (Cons n ns)
  have n: "unat n \<le> left s" "unat n \<le> 57" using Cons.prems by auto
  from use_law [OF Cons.prems(1) n(1) Cons.prems(4) n(2)] obtain s1 where s1: "use_bits s n = Inr (True, s1)"
    "rep s1 (drop (unat n) bs)" "left s1 = left s - unat n" "\<forall>k < 57. bit (window s1) k = bs ! k" by blast
  have head: "map (bit (window s1)) [0..<unat n] = take (unat n) bs"
    using s1(4) n Cons.prems(4) by (intro nth_equalityI) auto
  have "left s1 + 64 \<le> length (drop (unat n) bs)" using s1(3) n(1) Cons.prems(4) by simp
  moreover have "sum_list (map unat ns) \<le> left s1" using s1(3) n(1) Cons.prems(3) by simp
  ultimately obtain rs t where I: "read_run window use_bits ns s1 = Inr (rs, t)"
    "concat rs = take (sum_list (map unat ns)) (drop (unat n) bs)" "map length rs = map unat ns"
    "rep t (drop (sum_list (map unat ns)) (drop (unat n) bs))"
    using Cons.IH [OF s1(2)] Cons.prems(2) by auto
  then show ?case using s1(1) n Cons.prems(4) head by (auto simp: take_add add.commute)
qed

end

definition ib_source :: "'z fb_state_scheme \<Rightarrow> InputBuffer \<Rightarrow> bool list \<Rightarrow> bool" where
  "ib_source st ib bs \<longleftrightarrow> ib_rep st ib bs \<and> ib_wf ib"

interpretation ibs: bit_source "ib_source st" ib_left ib_bits "c49f5b0d_useNumBits st"
  for st :: "'z fb_state_scheme"
proof unfold_locales
  fix s bs and n :: u32
  assume "ib_source st s bs" "unat n \<le> ib_left s" "ib_left s + 64 \<le> length bs" "unat n \<le> 57"
  then show "\<exists>s'. c49f5b0d_useNumBits st s n = Inr (True, s') \<and> ib_source st s' (drop (unat n) bs) \<and>
      ib_left s' = ib_left s - unat n \<and> (\<forall>k < 57. bit (ib_bits s') k = bs ! k)"
    using useNumBits_ok [of st s bs n] by (auto simp: ib_source_def)
next
  fix s bs and n :: u32
  assume "ib_source st s bs" "ib_left s < unat n"
  then show "c49f5b0d_useNumBits st s n = Inr (False, s)"
    using useNumBits_end by (auto simp: ib_source_def)
qed

text \<open>A fresh reader is at the data offset of its first page.\<close>

lemma initInputBuffer_source:
  assumes "page_chain st p (pg # pgs)" and "fb_get st p = Inr fb" and "unat (fb_dataOffset fb) \<le> 4096"
    and "unat len < 2 ^ 29"
  shows "\<exists>ib. c49f5b0d_initInputBuffer st p len = Inr ib \<and>
           ib_source st ib (bits_of (drop (unat (fb_dataOffset fb)) (concat (pg # pgs)))) \<and> ib_left ib = 8 * unat len"
proof -
  have off: "unat (push_bit 3 (fb_dataOffset fb)) = 8 * unat (fb_dataOffset fb)"
    using assms(3) by (simp add: push_bit_eq_mult unat_word_ariths)
  have l: "unat (push_bit 3 len) = 8 * unat len"
    using assms(4) by (simp add: push_bit_eq_mult unat_word_ariths)
  then have l64: "unat (ucast (push_bit 3 len) :: u64) = 8 * unat len"
    using unat_u32_lt [of len] by (simp add: unsigned_ucast_eq take_bit_nat_eq_self)
  have drops: "drop (8 * k) (bits_of bs) = bits_of (drop k bs)" for k bs
  proof (induction k arbitrary: bs)
    case (Suc k)
    then show ?case by (cases bs) simp_all
  qed simp
  show ?thesis
    using assms(1-3) off l64 assms(4)
    by (simp add: c49f5b0d_initInputBuffer_def ib_source_def ib_wf_def ib_left_def ib_rep_def)
      (intro exI [of _ pg] exI [of _ pgs], simp add: drops [symmetric] diff_mult_distrib2 del: bits_of_append)
qed

subsection \<open>Properties\<close>

text \<open>C29: reading any sequence of bit counts, each at most 57, from a chain of full pages yields consecutive
  pieces of the file's bit stream from the data offset on, across page boundaries, as long as 64 bits
  lie behind the compressed data.\<close>

theorem bit_reader_pieces:
  assumes "page_chain st p (pg # pgs)" and "fb_get st p = Inr fb" and "unat (fb_dataOffset fb) \<le> 4096"
    and "unat len < 2 ^ 29" and "\<forall>n \<in> set ns. unat n \<le> 57" and "sum_list (map unat ns) \<le> 8 * unat len"
    and "unat (fb_dataOffset fb) + unat len + 8 \<le> length (concat (pg # pgs))"
  shows "\<exists>ib rs t. c49f5b0d_initInputBuffer st p len = Inr ib \<and>
           read_run ib_bits (c49f5b0d_useNumBits st) ns ib = Inr (rs, t) \<and> map length rs = map unat ns \<and>
           concat rs = take (sum_list (map unat ns)) (bits_of (drop (unat (fb_dataOffset fb)) (concat (pg # pgs))))"
proof -
  let ?bs = "bits_of (drop (unat (fb_dataOffset fb)) (concat (pg # pgs)))"
  from initInputBuffer_source [OF assms(1-4)] obtain ib where ib: "c49f5b0d_initInputBuffer st p len = Inr ib"
    "ib_source st ib ?bs" "ib_left ib = 8 * unat len" by blast
  have "sum_list (map unat ns) \<le> ib_left ib" using ib(3) assms(6) by simp
  moreover have "ib_left ib + 64 \<le> length ?bs" using ib(3) assms(7) by simp
  ultimately obtain rs t where "read_run ib_bits (c49f5b0d_useNumBits st) ns ib = Inr (rs, t)"
    "concat rs = take (sum_list (map unat ns)) ?bs" "map length rs = map unat ns"
    using ibs.read_run_pieces [OF ib(2) assms(5)] by blast
  with ib(1) show ?thesis by blast
qed

lemma bit_reader_pieces_witness:
  "\<exists>st p fb ib rs t. fb_get st p = Inr fb \<and> c49f5b0d_initInputBuffer (st :: fb_state) p 2 = Inr ib \<and>
     read_run ib_bits (c49f5b0d_useNumBits st) [3, 5] ib = Inr (rs, t) \<and> map length rs = map unat [3 :: u32, 5] \<and>
     concat rs = take (sum_list (map unat [3 :: u32, 5]))
       (bits_of (drop (unat (fb_dataOffset fb)) (concat [replicate 4096 (7 :: u8)])))"
proof -
  let ?fb = "\<lparr>fb_buffer = Some 4096, fb_next = None, fb_fileOffset = 0, fb_dataOffset = 0, fb_numBytes = 4096\<rparr>"
  let ?st = "initial_state\<lparr>fileBuffers := [8 \<mapsto> ?fb], pageBytes := [4096 \<mapsto> map Some (replicate 4096 7)]\<rparr>"
  have g: "fb_get ?st (Some 8) = Inr ?fb" by (simp add: fb_get_def)
  moreover have "page_chain ?st (Some 8) [replicate 4096 7]"
    using g by (simp add: page_chain_Cons page_get_def)
  ultimately show ?thesis
    using bit_reader_pieces [of ?st "Some 8" "replicate 4096 7" "[]" ?fb 2 "[3, 5]"] by force
qed

end
