(* ===== verification/HuffmanCode.thy ===== *)
theory HuffmanCode
  imports Prelude
begin

text \<open>
  Canonical prefix codes, the reference for compress/huffman.c. A code is given by the lengths of
  its words (0: the symbol has no word). Words of one length are consecutive numbers in symbol
  order, and the first word of a length follows from the numbers of shorter words. A word of
  length \<open>l\<close> owns the 15-bit values whose first \<open>l\<close> bits it is: \<open>code_owner_unique\<close> shows that no value has
  two owners as soon as the lengths satisfy Kraft's inequality.
\<close>

definition cnt :: "nat list \<Rightarrow> nat \<Rightarrow> nat" where
  "cnt ls l = (if l = 0 then 0 else count_list ls l)"

primrec first_code :: "nat list \<Rightarrow> nat \<Rightarrow> nat" where
  "first_code ls 0 = 0"
| "first_code ls (Suc l) = 2 * (first_code ls l + cnt ls l)"

lemma first_code_numeral:
  "first_code ls (numeral k) = 2 * (first_code ls (pred_numeral k) + cnt ls (pred_numeral k))"
  by (simp add: numeral_eq_Suc)

primrec first_idx :: "nat list \<Rightarrow> nat \<Rightarrow> nat" where
  "first_idx ls 0 = 0"
| "first_idx ls (Suc l) = first_idx ls l + cnt ls l"

text \<open>The number of symbols before \<open>i\<close> with a word of length \<open>l\<close>.\<close>

definition before :: "nat list \<Rightarrow> nat \<Rightarrow> nat \<Rightarrow> nat" where
  "before ls i l = count_list (take i ls) l"

definition code :: "nat list \<Rightarrow> nat \<Rightarrow> nat" where
  "code ls i = first_code ls (ls ! i) + before ls i (ls ! i)"

definition kraft :: "nat list \<Rightarrow> bool" where
  "kraft ls \<longleftrightarrow> first_code ls 15 + cnt ls 15 \<le> 2 ^ 15"

text \<open>Symbol \<open>i\<close> owns the 15-bit value \<open>v\<close>.\<close>

definition owns :: "nat list \<Rightarrow> nat \<Rightarrow> nat \<Rightarrow> bool" where
  "owns ls v i \<longleftrightarrow> i < length ls \<and> 0 < ls ! i \<and> ls ! i \<le> 15 \<and> v div 2 ^ (15 - ls ! i) = code ls i"

lemma count_list_append: "count_list (xs @ ys) x = count_list xs x + count_list ys x"
  by (induction xs) simp_all

lemma before_0 [simp]: "before ls 0 l = 0"
  by (simp add: before_def)

lemma before_Suc: "i < length ls \<Longrightarrow> before ls (Suc i) l = before ls i l + (if ls ! i = l then 1 else 0)"
  by (simp add: before_def take_Suc_conv_app_nth count_list_append)

lemma before_all [simp]: "before ls (length ls) l = count_list ls l"
  by (simp add: before_def)

lemma before_le: "before ls i l \<le> count_list ls l"
proof -
  have "count_list ls l = count_list (take i ls) l + count_list (drop i ls) l"
    by (metis append_take_drop_id count_list_append)
  then show ?thesis by (simp add: before_def)
qed

lemma before_mono: "i \<le> j \<Longrightarrow> before ls i l \<le> before ls j l"
proof -
  assume "i \<le> j"
  then have "take j ls = take i ls @ drop i (take j ls)"
    by (metis append_take_drop_id min.absorb1 take_take)
  then show ?thesis unfolding before_def by (metis count_list_append le_add1)
qed

lemma before_less:
  assumes "i < length ls"
  shows "before ls i (ls ! i) < count_list ls (ls ! i)"
  using before_Suc [OF assms, of "ls ! i"] before_le [of ls "Suc i" "ls ! i"] by simp

lemma before_strict: "i < j \<Longrightarrow> j \<le> length ls \<Longrightarrow> ls ! i = l \<Longrightarrow> before ls i l < before ls j l"
  using before_Suc [of i ls l] before_mono [of "Suc i" j ls l] by simp

text \<open>The values below the words of a length, and those of the shorter words.\<close>

definition top_value :: "nat list \<Rightarrow> nat \<Rightarrow> nat" where
  "top_value ls l = (first_code ls l + cnt ls l) * 2 ^ (15 - l)"

lemma top_first: "l < l' \<Longrightarrow> l' \<le> 15 \<Longrightarrow> top_value ls l \<le> first_code ls l' * 2 ^ (15 - l')"
proof (induction l')
  case (Suc m)
  have p: "(2::nat) * 2 ^ (15 - Suc m) = 2 ^ (15 - m)"
    using Suc.prems(2) by (simp flip: power_Suc add: Suc_diff_Suc)
  have eq: "first_code ls (Suc m) * 2 ^ (15 - Suc m) = top_value ls m"
    unfolding top_value_def p [symmetric] by simp
  show ?case
  proof (cases "l = m")
    case True
    then show ?thesis using eq by simp
  next
    case False
    then have "top_value ls l \<le> first_code ls m * 2 ^ (15 - m)" using Suc by simp
    also have "\<dots> \<le> top_value ls m" by (simp add: top_value_def)
    finally show ?thesis using eq by simp
  qed
qed simp

lemma top_mono: "l \<le> l' \<Longrightarrow> l' \<le> 15 \<Longrightarrow> top_value ls l \<le> top_value ls l'"
  using top_first [of l l' ls] by (cases "l = l'") (auto simp: top_value_def intro: order_trans)

lemma top_bound: "kraft ls \<Longrightarrow> l \<le> 15 \<Longrightarrow> top_value ls l \<le> 2 ^ 15"
  using top_mono [of l 15 ls] by (simp add: kraft_def top_value_def)

lemma words_bound:
  assumes "kraft ls" and "l \<le> 15"
  shows "first_code ls l + cnt ls l \<le> 2 ^ l"
proof -
  have "(first_code ls l + cnt ls l) * 2 ^ (15 - l) \<le> 2 ^ l * 2 ^ (15 - l)"
    using top_bound [OF assms] assms(2) by (simp add: top_value_def flip: power_add)
  then show ?thesis by simp
qed

lemma code_bound:
  assumes "kraft ls" and "i < length ls" and "0 < ls ! i" and "ls ! i \<le> 15"
  shows "code ls i < first_code ls (ls ! i) + cnt ls (ls ! i)" and "code ls i < 2 ^ (ls ! i)"
proof -
  show a: "code ls i < first_code ls (ls ! i) + cnt ls (ls ! i)"
    using before_less [OF assms(2)] assms(3) by (simp add: code_def cnt_def)
  show "code ls i < 2 ^ (ls ! i)" using a words_bound [OF assms(1,4)] by linarith
qed

text \<open>The values that a symbol owns lie between the first word of its length and the top.\<close>

lemma owns_range:
  assumes "owns ls v i"
  shows "first_code ls (ls ! i) * 2 ^ (15 - ls ! i) \<le> v" and "v < top_value ls (ls ! i)"
proof -
  let ?p = "2 ^ (15 - ls ! i) :: nat"
  have c: "v div ?p = code ls i" "i < length ls" "0 < ls ! i" using assms by (auto simp: owns_def)
  have "first_code ls (ls ! i) * ?p \<le> code ls i * ?p" by (simp add: code_def)
  also have "\<dots> \<le> v" unfolding c(1) [symmetric] by (rule div_times_less_eq_dividend)
  finally show "first_code ls (ls ! i) * ?p \<le> v" .
  have "v div ?p < first_code ls (ls ! i) + cnt ls (ls ! i)"
    unfolding c(1) using before_less [OF c(2)] c(3) by (simp add: code_def cnt_def)
  then show "v < top_value ls (ls ! i)" by (simp add: top_value_def div_less_iff_less_mult)
qed

lemma owner_length_unique:
  assumes "owns ls v i" and "owns ls v j"
  shows "ls ! i = ls ! j"
proof (rule ccontr)
  have False if "owns ls v i" "owns ls v j" "ls ! i < ls ! j" for i j
    using owns_range [OF that(1)] owns_range [OF that(2)] top_first [OF that(3), of ls] that(2)
    by (auto simp: owns_def)
  moreover assume "ls ! i \<noteq> ls ! j"
  ultimately show False using assms by (meson linorder_neqE_nat)
qed

lemma code_inj:
  assumes "i < length ls" "j < length ls" "ls ! i = ls ! j" "code ls i = code ls j"
  shows "i = j"
proof (rule ccontr)
  have False if "i < j" "j < length ls" "ls ! i = ls ! j" "code ls i = code ls j" for i j
    using before_strict [of i j ls "ls ! j"] that by (simp add: code_def)
  moreover assume "i \<noteq> j"
  ultimately show False using assms by (metis linorder_neqE_nat)
qed

lemma code_owner_unique:
  assumes "owns ls v i" and "owns ls v j"
  shows "i = j"
proof (rule code_inj)
  have l: "ls ! i = ls ! j" by (rule owner_length_unique [OF assms])
  then show "ls ! i = ls ! j" .
  have "v div 2 ^ (15 - ls ! i) = code ls i" "v div 2 ^ (15 - ls ! j) = code ls j"
    using assms unfolding owns_def by blast+
  then show "code ls i = code ls j" unfolding l by simp
qed (use assms in \<open>auto simp: owns_def\<close>)

subsection \<open>Every value below the top has an owner\<close>

lemma nth_of_length: "m < count_list ls l \<Longrightarrow> \<exists>i < length ls. ls ! i = l \<and> before ls i l = m"
proof (induction ls rule: rev_induct)
  case (snoc x xs)
  show ?case
  proof (cases "m < count_list xs l")
    case True
    then obtain i where "i < length xs" "xs ! i = l" "before xs i l = m" using snoc.IH by blast
    then show ?thesis by (intro exI [of _ i]) (simp add: before_def nth_append)
  next
    case False
    then have "x = l" "m = count_list xs l" using snoc.prems by (auto simp: count_list_append split: if_splits)
    then show ?thesis by (intro exI [of _ "length xs"]) (simp add: before_def)
  qed
qed simp

lemma top_value_first: "first_code ls (Suc l) * 2 ^ (15 - Suc l) = top_value ls l" if "l < 15"
proof -
  have p: "(2::nat) * 2 ^ (15 - Suc l) = 2 ^ (15 - l)"
    using that by (simp flip: power_Suc add: Suc_diff_Suc)
  show ?thesis unfolding top_value_def first_code.simps p [symmetric] by (simp only: mult.assoc mult.left_commute)
qed

lemma owner_exists:
  assumes "v < top_value ls 15"
  shows "\<exists>i. owns ls v i"
proof -
  define l where "l = (LEAST l. v < top_value ls l)"
  have l: "v < top_value ls l" unfolding l_def by (rule LeastI) (rule assms)
  have le: "l \<le> 15" unfolding l_def by (rule Least_le) (rule assms)
  have "l \<noteq> 0" using l by (cases "l = 0") (simp_all add: top_value_def cnt_def)
  then obtain k where k: "l = Suc k" by (cases l) auto
  have "\<not> v < top_value ls k" unfolding l_def by (rule not_less_Least) (simp flip: l_def add: k)
  then have lo: "first_code ls l * 2 ^ (15 - l) \<le> v" using top_value_first [of k ls] k le by simp
  let ?d = "v div 2 ^ (15 - l)"
  have "first_code ls l \<le> ?d" using lo by (simp add: less_eq_div_iff_mult_less_eq)
  moreover have "?d < first_code ls l + count_list ls l"
    using l k by (simp add: top_value_def cnt_def div_less_iff_less_mult)
  ultimately obtain m where m: "?d = first_code ls l + m" "m < count_list ls l"
    using le_Suc_ex by force
  from nth_of_length [OF m(2)] obtain i where "i < length ls" "ls ! i = l" "before ls i l = m" by blast
  then have "owns ls v i" using k le m(1) by (simp add: owns_def code_def)
  then show ?thesis ..
qed

subsection \<open>Positions in the sorted symbol table\<close>

definition pos :: "nat list \<Rightarrow> nat \<Rightarrow> nat" where
  "pos ls i = first_idx ls (ls ! i) + before ls i (ls ! i)"

lemma first_idx_filter: "first_idx ls (Suc l) = length (filter (\<lambda>x. 0 < x \<and> x \<le> l) ls)"
proof (induction l)
  case 0
  have "filter (\<lambda>x. 0 < x \<and> x \<le> 0) ls = []" by (induction ls) auto
  then show ?case by (simp add: cnt_def)
next
  case (Suc l)
  have "length (filter (\<lambda>x. 0 < x \<and> x \<le> Suc l) ls) = length (filter (\<lambda>x. 0 < x \<and> x \<le> l) ls) + count_list ls (Suc l)"
    by (induction ls) (auto simp: le_Suc_eq)
  then show ?case using Suc by (simp add: cnt_def)
qed

lemma first_idx_mono: "l < l' \<Longrightarrow> first_idx ls l + cnt ls l \<le> first_idx ls l'"
proof (induction l')
  case (Suc m)
  then show ?case by (cases "l = m") auto
qed simp

lemma pos_range:
  assumes "i < length ls" and "0 < ls ! i"
  shows "pos ls i < first_idx ls (ls ! i) + cnt ls (ls ! i)" and "pos ls i < length ls"
proof -
  show a: "pos ls i < first_idx ls (ls ! i) + cnt ls (ls ! i)"
    using before_less [OF assms(1)] assms(2) by (simp add: pos_def cnt_def)
  also have "\<dots> = first_idx ls (Suc (ls ! i))" by simp
  also have "\<dots> \<le> length ls" unfolding first_idx_filter by (rule length_filter_le)
  finally show "pos ls i < length ls" .
qed

lemma pos_inj:
  assumes "i < length ls" "j < length ls" "0 < ls ! i" "0 < ls ! j" "pos ls i = pos ls j"
  shows "i = j"
proof -
  have no: False if "i < length ls" "0 < ls ! i" "pos ls i = pos ls j" "ls ! i < ls ! j" for i j
    using pos_range(1) [OF that(1,2)] first_idx_mono [OF that(4), of ls] that(3) by (simp add: pos_def)
  have l: "ls ! i = ls ! j"
    using no [of i j] no [of j i] assms by (metis linorder_neqE_nat)
  have no2: False if "i < j" "j < length ls" "ls ! i = ls ! j" "pos ls i = pos ls j" for i j
    using before_strict [of i j ls "ls ! j"] that by (simp add: pos_def)
  show ?thesis using no2 [of i j] no2 [of j i] assms l by (metis linorder_neqE_nat)
qed

end
