(* ===== verification/Huffman.thy ===== *)
theory Huffman
  imports HuffmanCode IOBuffer
begin

text \<open>
  compress/huffman.c: the table-driven decoder of canonical codes. Words of at most eight bits are
  decoded through a table indexed by the next eight input bits, longer ones by comparing the next
  fifteen bits, reversed, with a bound per length. Table entries are bit fields of nine and seven
  bits. The counters of the initialisation have eight bits for the lengths and sixteen for the
  codes, as in the code.
\<close>

definition MAX_HUFFMAN_BITS :: nat where "MAX_HUFFMAN_BITS = 15"
definition MAX_HUFFMAN_SYMBOLS :: nat where "MAX_HUFFMAN_SYMBOLS = 288"
definition HUFFMAN_LOOKUP_TABLE_BITS :: nat where "HUFFMAN_LOOKUP_TABLE_BITS = 8"

record HuffmanDecoder =
  hd_table :: "(u16 \<times> u16) block"
  sentinel_bits :: "u16 block"
  offset_first_sym_idx :: "u16 block"
  hd_syms :: "u16 block"
  numSymbols :: u64

text \<open>The struct after meminit.\<close>

definition zero_decoder :: HuffmanDecoder where
  "zero_decoder = \<lparr>hd_table = replicate 256 (Some (0, 0)), sentinel_bits = replicate 16 (Some 0),
     offset_first_sym_idx = replicate 16 (Some 0), hd_syms = replicate MAX_HUFFMAN_SYMBOLS (Some 0), numSymbols = 0\<rparr>"

subsection \<open>Initialisation\<close>

definition table_insert :: "(u16 \<times> u16) block \<Rightarrow> nat \<Rightarrow> nat \<Rightarrow> u16 \<Rightarrow> (u16 \<times> u16) block result" where
  "table_insert table symbol len codeword =
     (let codeword = e474415b_reverse16 codeword (of_nat len);
          padLength = 2 ^ (HUFFMAN_LOOKUP_TABLE_BITS - len)
      in fold_result (\<lambda>table padding.
           wr table (unat (codeword OR push_bit len (of_nat padding :: u16)))
              (of_nat symbol AND 0x1FF, of_nat len AND 0x7F)) table [0..<padLength])"

text \<open>One round of each of the three loops.\<close>

definition count_step :: "u8 block \<Rightarrow> u8 block \<Rightarrow> nat \<Rightarrow> u8 block result" where
  "count_step lengthArray counts i =
     bnd (rd lengthArray i) (\<lambda>l. bnd (rd counts (unat l)) (\<lambda>c. wr counts (unat l) (c + 1)))"

definition code_step ::
    "u8 block \<Rightarrow> u16 block \<times> u16 block \<times> HuffmanDecoder \<Rightarrow> nat \<Rightarrow> (u16 block \<times> u16 block \<times> HuffmanDecoder) result" where
  "code_step counts s l =
     (let (next_code, sym_idx, decoder) = s; i = l - 1
      in bnd (rd next_code i) (\<lambda>prev. bnd (rd counts i) (\<lambda>c.
         bnd (wr next_code l (push_bit 1 (prev + ucast c))) (\<lambda>next_code.
         bnd (rd next_code l) (\<lambda>nl. bnd (rd counts l) (\<lambda>cl.
         bnd (wr (sentinel_bits decoder) l (push_bit (MAX_HUFFMAN_BITS - l) (nl + ucast cl))) (\<lambda>sentinels.
         bnd (rd sym_idx i) (\<lambda>si.
         bnd (wr sym_idx l (si + ucast c)) (\<lambda>sym_idx.
         bnd (rd sym_idx l) (\<lambda>sl.
         bnd (wr (offset_first_sym_idx decoder) l (sl - nl)) (\<lambda>offsets.
         Inr (next_code, sym_idx, decoder\<lparr>sentinel_bits := sentinels, offset_first_sym_idx := offsets\<rparr>))))))))))))"

definition symbol_step ::
    "u8 block \<Rightarrow> u16 block \<times> u16 block \<times> HuffmanDecoder \<Rightarrow> nat \<Rightarrow> (u16 block \<times> u16 block \<times> HuffmanDecoder) result" where
  "symbol_step lengthArray s i =
     (let (next_code, sym_idx, decoder) = s
      in bnd (rd lengthArray i) (\<lambda>lw. let l = unat lw in
         if l = 0 then Inr (next_code, sym_idx, decoder)
         else
           bnd (rd sym_idx l) (\<lambda>k.
           bnd (wr (hd_syms decoder) (unat k) (of_nat i)) (\<lambda>syms.
           bnd (wr sym_idx l (k + 1)) (\<lambda>sym_idx.
           if l \<le> HUFFMAN_LOOKUP_TABLE_BITS then
             bnd (rd next_code l) (\<lambda>codeword.
             bnd (table_insert (hd_table decoder) i l codeword) (\<lambda>table.
             bnd (wr next_code l (codeword + 1)) (\<lambda>next_code.
             Inr (next_code, sym_idx, decoder\<lparr>hd_table := table, hd_syms := syms\<rparr>))))
           else Inr (next_code, sym_idx, decoder\<lparr>hd_syms := syms\<rparr>))))))"

text \<open>The number of symbols is stored before the struct is cleared, so it ends up 0.\<close>

definition f173ab5a_initHuffmanDecoder :: "u8 block \<Rightarrow> nat \<Rightarrow> HuffmanDecoder result" where
  "f173ab5a_initHuffmanDecoder lengthArray numElements =
     bnd (fold_result (count_step lengthArray) (replicate 16 (Some 0)) [0..<numElements]) (\<lambda>counts.
     bnd (wr counts 0 0) (\<lambda>counts.
     bnd (fold_result (code_step counts) (replicate 16 (Some 0), replicate 16 (Some 0), zero_decoder)
            [1..<Suc MAX_HUFFMAN_BITS]) (\<lambda>s.
     bnd (fold_result (symbol_step lengthArray) s [0..<numElements]) (\<lambda>(next_code, sym_idx, decoder).
     Inr decoder))))"

definition f173ab5a_createHuffmanDecoder :: "u8 block \<Rightarrow> nat \<Rightarrow> HuffmanDecoder result" where
  "f173ab5a_createHuffmanDecoder lengthArray numElements = f173ab5a_initHuffmanDecoder lengthArray numElements"

subsection \<open>Decoding\<close>

text \<open>The loop over the lengths above eight; None is the error code -1.\<close>

primrec long_word :: "HuffmanDecoder \<Rightarrow> u16 \<Rightarrow> nat list \<Rightarrow> (u16 \<times> u64) option result" where
  "long_word decoder bits [] = Inr None"
| "long_word decoder bits (l # ls) =
     bnd (rd (sentinel_bits decoder) l) (\<lambda>s.
     if bits < s then
       bnd (rd (offset_first_sym_idx decoder) l) (\<lambda>off.
       bnd (rd (hd_syms decoder) (unat (off + drop_bit (MAX_HUFFMAN_BITS - l) bits))) (\<lambda>sym.
       Inr (Some (sym, of_nat l))))
     else long_word decoder bits ls)"

text \<open>The symbol and the number of bits used; the latter stays as it was when there is no symbol.\<close>

definition f173ab5a_huffmanDecode :: "InputBuffer \<Rightarrow> HuffmanDecoder \<Rightarrow> (u16 \<times> u64) option result" where
  "f173ab5a_huffmanDecode inputBuffer decoder =
     (let bits = (ucast (ib_bits inputBuffer) :: u16);
          lookupBits = bits AND 0xFF
      in bnd (rd (hd_table decoder) (unat lookupBits)) (\<lambda>(sym, len).
         if len \<noteq> 0 then Inr (Some (sym, ucast len))
         else long_word decoder (e474415b_reverse16 bits (of_nat MAX_HUFFMAN_BITS))
                [HUFFMAN_LOOKUP_TABLE_BITS + 1..<Suc MAX_HUFFMAN_BITS]))"

subsection \<open>Arrays as functions\<close>

definition arr :: "nat \<Rightarrow> (nat \<Rightarrow> 'a) \<Rightarrow> 'a block" where
  "arr n f = map (\<lambda>i. Some (f i)) [0..<n]"

lemma length_arr [simp]: "length (arr n f) = n"
  by (simp add: arr_def)

lemma arr_const: "replicate n (Some x) = arr n (\<lambda>_. x)"
  by (simp add: arr_def map_replicate_const)

lemma rd_arr [simp]: "i < n \<Longrightarrow> rd (arr n f) i = Inr (f i)"
  by (simp add: rd_def arr_def)

lemma wr_arr [simp]: "i < n \<Longrightarrow> wr (arr n f) i x = Inr (arr n (f(i := x)))"
  by (auto simp: wr_def arr_def intro!: nth_equalityI simp: nth_list_update)

lemma arr_cong: "(\<And>i. i < n \<Longrightarrow> f i = g i) \<Longrightarrow> arr n f = arr n g"
  by (simp add: arr_def)

lemma fold_result_upt:
  assumes "P a s" and "a \<le> b"
    and "\<And>i s. a \<le> i \<Longrightarrow> i < b \<Longrightarrow> P i s \<Longrightarrow> \<exists>s'. f s i = Inr s' \<and> P (Suc i) s'"
  shows "\<exists>s'. fold_result f s [a..<b] = Inr s' \<and> P b s'"
  using assms(2,1,3)
proof (induction b rule: dec_induct)
  case (step n)
  then obtain s' where "fold_result f s [a..<n] = Inr s'" "P n s'" by force
  with step show ?case by (simp add: fold_result_append)
qed auto

subsection \<open>The first two loops\<close>

text \<open>The code lengths of the input and the conditions under which the counters do not overflow.\<close>

definition lengths_ok :: "u8 block \<Rightarrow> nat list \<Rightarrow> bool" where
  "lengths_ok lengthArray ls \<longleftrightarrow>
     (\<forall>i < length ls. \<exists>w. rd lengthArray i = Inr w \<and> unat w = ls ! i) \<and> (\<forall>l \<in> set ls. l \<le> 15) \<and>
     length ls \<le> 288 \<and> kraft ls \<and> (\<forall>l > 0. count_list ls l < 256)"

lemma lengths_okD:
  assumes "lengths_ok a ls" and "i < length ls"
  shows "\<exists>w. rd a i = Inr w \<and> unat w = ls ! i" "ls ! i \<le> 15"
  using assms by (auto simp: lengths_ok_def)

lemma count_loop:
  assumes "lengths_ok a ls"
  shows "fold_result (count_step a) (replicate 16 (Some 0)) [0..<length ls] =
           Inr (arr 16 (\<lambda>l. of_nat (count_list ls l)))"
proof -
  have "\<exists>c. fold_result (count_step a) (replicate 16 (Some 0)) [0..<length ls] = Inr c \<and>
            c = arr 16 (\<lambda>l. of_nat (before ls (length ls) l))"
  proof (rule fold_result_upt [where P = "\<lambda>i c. c = arr 16 (\<lambda>l. of_nat (before ls i l))"])
    fix i and c :: "u8 block"
    assume i: "i < length ls" and c: "c = arr 16 (\<lambda>l. of_nat (before ls i l))"
    obtain w where w: "rd a i = Inr w" "unat w = ls ! i" "ls ! i < 16"
      using lengths_okD [OF assms i] by auto
    have "(\<lambda>l. of_nat (before ls i l))(ls ! i := of_nat (before ls i (ls ! i)) + 1 :: u8) =
            (\<lambda>l. of_nat (before ls (Suc i) l))"
      by (auto simp: before_Suc [OF i])
    then show "\<exists>c'. count_step a c i = Inr c' \<and> c' = arr 16 (\<lambda>l. of_nat (before ls (Suc i) l))"
      using w c by (simp add: count_step_def)
  qed (simp_all add: arr_const)
  then show ?thesis by simp
qed

lemma clear_count:
  "wr (arr 16 (\<lambda>l. of_nat (count_list ls l) :: u8)) 0 0 = Inr (arr 16 (\<lambda>l. of_nat (cnt ls l)))"
  by (auto simp: cnt_def intro!: arr_cong)

lemma small_cnt:
  assumes "lengths_ok a ls"
  shows "ucast (of_nat (cnt ls l) :: u8) = (of_nat (cnt ls l) :: u16)"
proof -
  have "cnt ls l < 256" using assms by (auto simp: lengths_ok_def cnt_def)
  then show ?thesis by (simp add: word_unat_eq_iff unsigned_ucast_eq unat_of_nat take_bit_nat_eq_self)
qed

lemma extend_below: "(\<lambda>k. if k < l then f k else z)(l := f l) = (\<lambda>k. if k < Suc l then f k else z)"
  by auto

lemma extend_between:
  "0 < l \<Longrightarrow> (\<lambda>k. if 0 < k \<and> k < l then f k else z)(l := f l) = (\<lambda>k. if 0 < k \<and> k < Suc l then f k else z)"
  by auto

definition coded :: "nat list \<Rightarrow> nat \<Rightarrow> u16 block \<times> u16 block \<times> HuffmanDecoder \<Rightarrow> bool" where
  "coded ls n s \<longleftrightarrow> s =
     (arr 16 (\<lambda>l. if l < n then of_nat (first_code ls l) else 0),
      arr 16 (\<lambda>l. if l < n then of_nat (first_idx ls l) else 0),
      zero_decoder\<lparr>sentinel_bits := arr 16 (\<lambda>l. if 0 < l \<and> l < n then of_nat (top_value ls l) else 0),
        offset_first_sym_idx := arr 16 (\<lambda>l. if 0 < l \<and> l < n then of_nat (first_idx ls l) - of_nat (first_code ls l) else 0)\<rparr>)"

lemma code_loop:
  assumes "lengths_ok a ls"
  shows "\<exists>s. fold_result (code_step (arr 16 (\<lambda>l. of_nat (cnt ls l))))
           (replicate 16 (Some 0), replicate 16 (Some 0), zero_decoder) [1..<Suc MAX_HUFFMAN_BITS] = Inr s \<and> coded ls 16 s"
proof -
  have "\<exists>s. fold_result (code_step (arr 16 (\<lambda>l. of_nat (cnt ls l))))
           (replicate 16 (Some 0), replicate 16 (Some 0), zero_decoder) [1..<16] = Inr s \<and> coded ls 16 s"
  proof (rule fold_result_upt [where P = "coded ls"])
    show "coded ls 1 (replicate 16 (Some 0), replicate 16 (Some 0), zero_decoder)"
      by (auto simp: coded_def zero_decoder_def arr_const intro!: arr_cong)
    fix l and s :: "u16 block \<times> u16 block \<times> HuffmanDecoder"
    assume l: "1 \<le> l" "l < 16" and s: "coded ls l s"
    have sh: "push_bit 1 (of_nat (first_code ls (l - 1)) + of_nat (cnt ls (l - 1))) = (of_nat (first_code ls l) :: u16)"
      using l by (cases l) (simp_all add: push_bit_eq_mult algebra_simps)
    have si: "of_nat (first_idx ls (l - 1)) + of_nat (cnt ls (l - 1)) = (of_nat (first_idx ls l) :: u16)"
      using l by (cases l) simp_all
    have se: "push_bit (15 - l) (of_nat (first_code ls l) + of_nat (cnt ls l)) = (of_nat (top_value ls l) :: u16)"
      by (simp add: top_value_def push_bit_eq_mult algebra_simps)
    have r: "l - 1 < 16" "l - 1 < l" "0 < l" using l by auto
    show "\<exists>s'. code_step (arr 16 (\<lambda>l. of_nat (cnt ls l))) s l = Inr s' \<and> coded ls (Suc l) s'"
      using s l(2) r unfolding coded_def
      by (simp add: code_step_def small_cnt [OF assms] sh si se MAX_HUFFMAN_BITS_def
          extend_below [of l "\<lambda>k. of_nat (first_code ls k)"] extend_below [of l "\<lambda>k. of_nat (first_idx ls k)"]
          extend_between [of l "\<lambda>k. of_nat (top_value ls k)"]
          extend_between [of l "\<lambda>k. of_nat (first_idx ls k) - of_nat (first_code ls k)"]
          del: One_nat_def fun_upd_apply add: fun_upd_same)
  qed simp
  then show ?thesis by (simp add: MAX_HUFFMAN_BITS_def)
qed

subsection \<open>Words and their reversals\<close>

text \<open>The low bits of \<open>W\<close> are the word of symbol \<open>i\<close>, first bit lowest, as they come from the stream.\<close>

definition matches :: "nat list \<Rightarrow> u16 \<Rightarrow> nat \<Rightarrow> bool" where
  "matches ls W i \<longleftrightarrow> i < length ls \<and> 0 < ls ! i \<and> ls ! i \<le> 15 \<and>
     (\<forall>k < ls ! i. bit W k = bit (code ls i) (ls ! i - 1 - k))"

lemma bit_below: "(c::nat) < 2 ^ l \<Longrightarrow> bit c m \<Longrightarrow> m < l"
  by (metis bit_take_bit_iff take_bit_nat_eq_self)

lemma rev15_bit: "bit (e474415b_reverse16 W 15) m \<longleftrightarrow> m < 15 \<and> bit W (14 - m)"
  using reverse16_bit [of 15 W m] by simp

lemma matches_owns:
  assumes "kraft ls"
  shows "matches ls W i \<longleftrightarrow> owns ls (unat (e474415b_reverse16 W 15)) i"
proof (cases "i < length ls \<and> 0 < ls ! i \<and> ls ! i \<le> 15")
  case True
  let ?l = "ls ! i" and ?v = "unat (e474415b_reverse16 W 15)"
  have low: "bit (code ls i) m \<Longrightarrow> m < ?l" for m
    using code_bound(2) [OF assms] True bit_below by blast
  have v: "bit (drop_bit (15 - ?l) ?v) m \<longleftrightarrow> m < ?l \<and> bit W (?l - 1 - m)" for m
  proof -
    have "14 - (15 - ?l + m) = ?l - 1 - m" "15 - ?l + m < 15 \<longleftrightarrow> m < ?l" using True by linarith+
    then show ?thesis by (simp add: bit_drop_bit_eq bit_unsigned_iff rev15_bit)
  qed
  have "?v div 2 ^ (15 - ?l) = code ls i \<longleftrightarrow> drop_bit (15 - ?l) ?v = code ls i"
    by (simp add: drop_bit_eq_div)
  also have "\<dots> \<longleftrightarrow> (\<forall>m. (m < ?l \<and> bit W (?l - 1 - m)) = bit (code ls i) m)"
    by (simp add: bit_eq_iff v)
  also have "\<dots> \<longleftrightarrow> (\<forall>k < ?l. bit W k = bit (code ls i) (?l - 1 - k))"
  proof
    assume a: "\<forall>m. (m < ?l \<and> bit W (?l - 1 - m)) = bit (code ls i) m"
    show "\<forall>k < ?l. bit W k = bit (code ls i) (?l - 1 - k)"
    proof (intro allI impI)
      fix k assume "k < ?l"
      then have "?l - 1 - (?l - 1 - k) = k" "?l - 1 - k < ?l" by linarith+
      then show "bit W k = bit (code ls i) (?l - 1 - k)" using a [rule_format, of "?l - 1 - k"] by simp
    qed
  next
    assume a: "\<forall>k < ?l. bit W k = bit (code ls i) (?l - 1 - k)"
    show "\<forall>m. (m < ?l \<and> bit W (?l - 1 - m)) = bit (code ls i) m"
    proof
      fix m
      show "(m < ?l \<and> bit W (?l - 1 - m)) = bit (code ls i) m"
      proof (cases "m < ?l")
        case True
        then have "?l - 1 - (?l - 1 - m) = m" "?l - 1 - m < ?l" by linarith+
        then show ?thesis using a [rule_format, of "?l - 1 - m"] True by simp
      qed (use low in auto)
    qed
  qed
  finally show ?thesis using True by (simp add: matches_def owns_def)
qed (auto simp: matches_def owns_def)

lemma matches_unique: "kraft ls \<Longrightarrow> matches ls W i \<Longrightarrow> matches ls W j \<Longrightarrow> i = j"
  by (simp add: matches_owns code_owner_unique)

subsection \<open>The lookup table\<close>

definition table_index :: "nat \<Rightarrow> nat \<Rightarrow> nat \<Rightarrow> u16" where
  "table_index c len q = e474415b_reverse16 (of_nat c) (of_nat len) OR push_bit len (of_nat q :: u16)"

lemma bit_table_index:
  assumes "len \<le> 8" and "c < 2 ^ len" and "q < 2 ^ (8 - len)"
  shows "bit (table_index c len q) k \<longleftrightarrow> (if k < len then bit c (len - 1 - k) else k < 8 \<and> bit q (k - len))"
proof -
  have n: "unat (of_nat len :: u32) = len" using assms(1) by (simp add: unat_of_nat)
  have "bit q (k - len) \<Longrightarrow> len \<le> k \<Longrightarrow> k < 8" using bit_below [OF assms(3)] by fastforce
  moreover have "bit (of_nat c :: u16) m \<longleftrightarrow> bit c m" if "m < 16" for m
    using that by (simp add: bit_of_nat_iff)
  ultimately show ?thesis
    using assms(1) n by (auto simp: table_index_def bit_or_iff bit_push_bit_iff reverse16_bit bit_of_nat_iff)
qed

lemma table_index_small:
  assumes "len \<le> 8" and "c < 2 ^ len" and "q < 2 ^ (8 - len)"
  shows "unat (table_index c len q) < 256"
proof -
  have "table_index c len q = take_bit 8 (table_index c len q)"
    by (rule bit_word_eqI) (use assms(1) in \<open>auto simp: bit_take_bit_iff bit_table_index [OF assms] split: if_splits\<close>)
  also have "\<dots> = table_index c len q AND 0xFF" by (simp add: take_bit_eq_mask mask_eq_exp_minus_1)
  finally have "table_index c len q \<le> 0xFF" by (metis word_and_le1)
  then show ?thesis by (simp add: word_le_nat_alt)
qed

text \<open>The entries that the padded word reaches are those whose low bits are the word.\<close>

definition hits :: "nat \<Rightarrow> nat \<Rightarrow> nat \<Rightarrow> bool" where
  "hits c len t \<longleftrightarrow> (\<forall>k < len. bit (of_nat t :: u16) k = bit c (len - 1 - k))"

lemma hits_index:
  assumes "len \<le> 8" and "c < 2 ^ len" and "t < 256"
  shows "hits c len t \<longleftrightarrow> (\<exists>q < 2 ^ (8 - len). t = unat (table_index c len q))"
proof
  assume h: "hits c len t"
  let ?q = "t div 2 ^ len"
  have "(2::nat) ^ (8 - len) * 2 ^ len = 256" using assms(1) by (simp flip: power_add)
  then have q: "?q < 2 ^ (8 - len)" using assms(3) by (simp add: div_less_iff_less_mult)
  have low: "bit t k \<Longrightarrow> k < 8" for k using bit_below [of t 8 k] assms(3) by simp
  have qb: "bit ?q m = bit t (len + m)" for m
    by (simp flip: drop_bit_eq_div add: bit_drop_bit_eq)
  have "(of_nat t :: u16) = table_index c len ?q"
  proof (rule bit_word_eqI)
    fix k assume "k < LENGTH(16)"
    then show "bit (of_nat t :: u16) k = bit (table_index c len ?q) k"
      using h low [of k] by (auto simp: hits_def bit_table_index [OF assms(1,2) q] bit_of_nat_iff qb)
  qed
  then have "unat (of_nat t :: u16) = unat (table_index c len ?q)" by simp
  then show "\<exists>q < 2 ^ (8 - len). t = unat (table_index c len q)"
    using q assms(3) by (auto simp: unat_of_nat)
next
  assume "\<exists>q < 2 ^ (8 - len). t = unat (table_index c len q)"
  then show "hits c len t" by (auto simp: hits_def bit_table_index [OF assms(1,2)])
qed

lemma table_insert_ok:
  assumes "0 < len" "len \<le> 8" and c: "c < 2 ^ len" and "sy < 512"
  shows "table_insert (arr 256 T) sy len (of_nat c) =
           Inr (arr 256 (\<lambda>t. if hits c len t then (of_nat sy, of_nat len) else T t))"
proof -
  let ?f = "\<lambda>table padding. wr table (unat (table_index c len padding)) (of_nat sy AND 0x1FF, of_nat len AND 0x7F :: u16)"
  have fold: "\<exists>tb. fold_result ?f (arr 256 T) [0..<2 ^ (8 - len)] = Inr tb \<and>
           tb = arr 256 (\<lambda>t. if \<exists>q < 2 ^ (8 - len). t = unat (table_index c len q)
                             then (of_nat sy AND 0x1FF, of_nat len AND 0x7F) else T t)"
  proof (rule fold_result_upt [where P = "\<lambda>n tb. tb = arr 256 (\<lambda>t. if \<exists>q < n. t = unat (table_index c len q)
                             then (of_nat sy AND 0x1FF, of_nat len AND 0x7F) else T t)"])
    fix i tb assume i: "i < 2 ^ (8 - len)"
      and tb: "tb = arr 256 (\<lambda>t. if \<exists>q < i. t = unat (table_index c len q)
                             then (of_nat sy AND 0x1FF, of_nat len AND 0x7F) else T t)"
    show "\<exists>tb'. ?f tb i = Inr tb' \<and> tb' = arr 256 (\<lambda>t. if \<exists>q < Suc i. t = unat (table_index c len q)
                             then (of_nat sy AND 0x1FF, of_nat len AND 0x7F) else T t)"
      using table_index_small [OF assms(2) c i]
      by (auto simp: tb less_Suc_eq intro!: arr_cong)
  qed simp_all
  have start: "table_insert (arr 256 T) sy len (of_nat c) = fold_result ?f (arr 256 T) [0..<2 ^ (8 - len)]"
    by (simp add: table_insert_def Let_def HUFFMAN_LOOKUP_TABLE_BITS_def table_index_def)
  have mask: "of_nat sy AND 0x1FF = (of_nat sy :: u16)" "of_nat len AND 0x7F = (of_nat len :: u16)"
  proof -
    have "of_nat sy AND (0x1FF :: u16) = take_bit 9 (of_nat sy)" "of_nat len AND (0x7F :: u16) = take_bit 7 (of_nat len)"
      by (simp_all add: take_bit_eq_mask mask_eq_exp_minus_1)
    then show "of_nat sy AND 0x1FF = (of_nat sy :: u16)" "of_nat len AND 0x7F = (of_nat len :: u16)"
      using assms by (simp_all flip: of_nat_take_bit add: take_bit_nat_eq_self)
  qed
  have "arr 256 (\<lambda>t. if \<exists>q < 2 ^ (8 - len). t = unat (table_index c len q) then (of_nat sy, of_nat len) else T t) =
      arr 256 (\<lambda>t. if hits c len t then (of_nat sy :: u16, of_nat len :: u16) else T t)"
    by (intro arr_cong) (simp add: hits_index [OF assms(2) c])
  then show ?thesis using fold start unfolding mask by simp
qed

subsection \<open>The symbol loop\<close>

lemma matches_hits:
  "i < length ls \<Longrightarrow> 0 < ls ! i \<Longrightarrow> ls ! i \<le> 15 \<Longrightarrow> hits (code ls i) (ls ! i) t \<longleftrightarrow> matches ls (of_nat t) i"
  by (simp add: hits_def matches_def)

text \<open>The decoder after the symbols before \<open>n\<close> have been entered.\<close>

definition entered :: "nat list \<Rightarrow> nat \<Rightarrow> (nat \<Rightarrow> u16 \<times> u16) \<Rightarrow> (nat \<Rightarrow> u16) \<Rightarrow> bool" where
  "entered ls n T S \<longleftrightarrow>
     (\<forall>t < 256. \<forall>j < n. ls ! j \<le> 8 \<longrightarrow> matches ls (of_nat t) j \<longrightarrow> T t = (of_nat j, of_nat (ls ! j))) \<and>
     (\<forall>t < 256. (\<forall>j < n. ls ! j \<le> 8 \<longrightarrow> \<not> matches ls (of_nat t) j) \<longrightarrow> T t = (0, 0)) \<and>
     (\<forall>j < n. 0 < ls ! j \<longrightarrow> S (pos ls j) = of_nat j)"

definition decoder_of :: "nat list \<Rightarrow> (nat \<Rightarrow> u16 \<times> u16) \<Rightarrow> (nat \<Rightarrow> u16) \<Rightarrow> HuffmanDecoder" where
  "decoder_of ls T S = \<lparr>hd_table = arr 256 T,
     sentinel_bits = arr 16 (\<lambda>l. if 0 < l \<and> l < 16 then of_nat (top_value ls l) else 0),
     offset_first_sym_idx = arr 16 (\<lambda>l. if 0 < l \<and> l < 16 then of_nat (first_idx ls l) - of_nat (first_code ls l) else 0),
     hd_syms = arr 288 S, numSymbols = 0\<rparr>"

definition symbols_done :: "nat list \<Rightarrow> nat \<Rightarrow> u16 block \<times> u16 block \<times> HuffmanDecoder \<Rightarrow> bool" where
  "symbols_done ls n s \<longleftrightarrow> (\<exists>T S. entered ls n T S \<and> s =
     (arr 16 (\<lambda>l. of_nat (first_code ls l + (if 0 < l \<and> l \<le> 8 then before ls n l else 0))),
      arr 16 (\<lambda>l. of_nat (first_idx ls l + (if 0 < l then before ls n l else 0))),
      decoder_of ls T S))"

lemma entered_table:
  assumes ok: "lengths_ok a ls" and n: "n < length ls" and e: "entered ls n T S"
    and l: "0 < ls ! n" "ls ! n \<le> 8"
  shows "entered ls (Suc n) (\<lambda>t. if hits (code ls n) (ls ! n) t then (of_nat n, of_nat (ls ! n)) else T t)
           (S(pos ls n := of_nat n))"
proof -
  have k: "kraft ls" using ok by (simp add: lengths_ok_def)
  have h: "hits (code ls n) (ls ! n) t \<longleftrightarrow> matches ls (of_nat t) n" for t
    using l n by (intro matches_hits) auto
  have other: "pos ls j \<noteq> pos ls n" if "j < n" "0 < ls ! j" for j
    using pos_inj [of j ls n] that n l by auto
  have uniq: "matches ls (of_nat t) j \<Longrightarrow> matches ls (of_nat t) n \<Longrightarrow> j < n \<Longrightarrow> False" for t j
    using matches_unique [OF k] by blast
  show ?thesis
    unfolding entered_def h
  proof (intro conjI allI impI)
    fix t j :: nat assume "t < 256" "j < Suc n" "ls ! j \<le> 8" "matches ls (of_nat t) j"
    then show "(if matches ls (of_nat t) n then (of_nat n, of_nat (ls ! n)) else T t) = (of_nat j, of_nat (ls ! j))"
      using e uniq [of t j] by (cases "j = n") (auto simp: entered_def)
  next
    fix t :: nat assume "t < 256" "\<forall>j < Suc n. ls ! j \<le> 8 \<longrightarrow> \<not> matches ls (of_nat t) j"
    then show "(if matches ls (of_nat t) n then (of_nat n, of_nat (ls ! n)) else T t) = (0, 0)"
      using e l(2) by (auto simp: entered_def)
  next
    fix j assume "j < Suc n" "0 < ls ! j"
    then show "(S(pos ls n := of_nat n)) (pos ls j) = of_nat j"
      using e other [of j] by (cases "j = n") (auto simp: entered_def)
  qed
qed

lemma entered_plain:
  assumes n: "n < length ls" and e: "entered ls n T S" and l: "8 < ls ! n"
  shows "entered ls (Suc n) T (S(pos ls n := of_nat n))"
proof -
  have "pos ls j \<noteq> pos ls n" if "j < n" "0 < ls ! j" for j
    using pos_inj [of j ls n] that n l by auto
  then show ?thesis using e l unfolding entered_def by (auto simp: less_Suc_eq)
qed

lemma entered_none: "entered ls n T S \<Longrightarrow> ls ! n = 0 \<Longrightarrow> entered ls (Suc n) T S"
  by (auto simp: entered_def less_Suc_eq matches_def)

lemma symbol_round:
  assumes ok: "lengths_ok a ls" and n: "n < length ls" and s: "symbols_done ls n s"
  shows "\<exists>s'. symbol_step a s n = Inr s' \<and> symbols_done ls (Suc n) s'"
proof -
  obtain w where w: "rd a n = Inr w" "unat w = ls ! n" and le: "ls ! n \<le> 15" using lengths_okD [OF ok n] by blast
  from s obtain T S where e: "entered ls n T S" and sd: "s =
     (arr 16 (\<lambda>l. of_nat (first_code ls l + (if 0 < l \<and> l \<le> 8 then before ls n l else 0))),
      arr 16 (\<lambda>l. of_nat (first_idx ls l + (if 0 < l then before ls n l else 0))), decoder_of ls T S)"
    unfolding symbols_done_def by blast
  let ?l = "ls ! n"
  have len: "length ls \<le> 288" and k: "kraft ls" using ok by (auto simp: lengths_ok_def)
  show ?thesis
  proof (cases "?l = 0")
    case True
    then have "symbols_done ls (Suc n) s"
      unfolding symbols_done_def sd using entered_none [OF e True] True
      by (intro exI [of _ T] exI [of _ S]) (auto simp: before_Suc [OF n] intro!: arr_cong)
    then show ?thesis using w True by (simp add: symbol_step_def sd)
  next
    case False
    then have pos: "pos ls n < length ls" "pos ls n = first_idx ls ?l + before ls n ?l"
      using pos_range(2) [OF n] by (auto simp: pos_def)
    have u: "unat (of_nat (first_idx ls ?l + before ls n ?l) :: u16) = pos ls n"
      using pos len by (simp add: unat_of_nat del: of_nat_add)
    have si: "arr 16 ((\<lambda>l. of_nat (first_idx ls l + (if 0 < l then before ls n l else 0)))
                (?l := of_nat (first_idx ls ?l + before ls n ?l) + 1)) =
              arr 16 (\<lambda>l. of_nat (first_idx ls l + (if 0 < l then before ls (Suc n) l else 0)) :: u16)"
      using False by (intro arr_cong) (auto simp: before_Suc [OF n])
    show ?thesis
    proof (cases "?l \<le> 8")
      case True
      have c: "code ls n < 2 ^ ?l" using code_bound(2) [OF k n] False le by blast
      have nc: "arr 16 ((\<lambda>l. of_nat (first_code ls l + (if 0 < l \<and> l \<le> 8 then before ls n l else 0)))
                (?l := of_nat (first_code ls ?l + before ls n ?l) + 1)) =
              arr 16 (\<lambda>l. of_nat (first_code ls l + (if 0 < l \<and> l \<le> 8 then before ls (Suc n) l else 0)) :: u16)"
        using False True by (intro arr_cong) (auto simp: before_Suc [OF n])
      let ?T = "\<lambda>t. if hits (code ls n) ?l t then (of_nat n, of_nat ?l) else T t"
      have "table_insert (arr 256 T) n ?l (of_nat (code ls n)) = Inr (arr 256 ?T)"
        using False True n len by (intro table_insert_ok c) auto
      then have "symbol_step a s n = Inr
          (arr 16 (\<lambda>l. of_nat (first_code ls l + (if 0 < l \<and> l \<le> 8 then before ls (Suc n) l else 0))),
           arr 16 (\<lambda>l. of_nat (first_idx ls l + (if 0 < l then before ls (Suc n) l else 0))),
           decoder_of ls ?T (S(pos ls n := of_nat n)))"
        using w False True le u pos(1) len si nc
        by (simp add: symbol_step_def sd decoder_of_def Let_def HUFFMAN_LOOKUP_TABLE_BITS_def code_def
            del: of_nat_add fun_upd_apply)
      then show ?thesis
        using entered_table [OF ok n e _ True] False unfolding symbols_done_def by blast
    next
      case long: False
      then have nc: "arr 16 (\<lambda>l. of_nat (first_code ls l + (if 0 < l \<and> l \<le> 8 then before ls n l else 0)) :: u16) =
         arr 16 (\<lambda>l. of_nat (first_code ls l + (if 0 < l \<and> l \<le> 8 then before ls (Suc n) l else 0)))"
        by (intro arr_cong) (auto simp: before_Suc [OF n])
      have "symbol_step a s n = Inr
          (arr 16 (\<lambda>l. of_nat (first_code ls l + (if 0 < l \<and> l \<le> 8 then before ls (Suc n) l else 0))),
           arr 16 (\<lambda>l. of_nat (first_idx ls l + (if 0 < l then before ls (Suc n) l else 0))),
           decoder_of ls T (S(pos ls n := of_nat n)))"
        using w False long le u pos(1) len si nc
        by (simp add: symbol_step_def sd decoder_of_def Let_def HUFFMAN_LOOKUP_TABLE_BITS_def
            del: of_nat_add fun_upd_apply)
      then show ?thesis
        using entered_plain [OF n e] long unfolding symbols_done_def by fastforce
    qed
  qed
qed

text \<open>The initialised decoder.\<close>

lemma initHuffmanDecoder_ok:
  assumes ok: "lengths_ok a ls"
  shows "\<exists>T S. f173ab5a_initHuffmanDecoder a (length ls) = Inr (decoder_of ls T S) \<and> entered ls (length ls) T S"
proof -
  from code_loop [OF ok] obtain s0 where s0: "fold_result (code_step (arr 16 (\<lambda>l. of_nat (cnt ls l))))
           (replicate 16 (Some 0), replicate 16 (Some 0), zero_decoder) [1..<Suc MAX_HUFFMAN_BITS] = Inr s0"
    "coded ls 16 s0" by blast
  have start: "symbols_done ls 0 s0"
    unfolding symbols_done_def
    by (intro exI [of _ "\<lambda>_. (0, 0)"] exI [of _ "\<lambda>_. 0"])
      (auto simp: entered_def s0(2) [unfolded coded_def] decoder_of_def zero_decoder_def arr_const
        MAX_HUFFMAN_SYMBOLS_def intro!: arr_cong)
  have "\<exists>s. fold_result (symbol_step a) s0 [0..<length ls] = Inr s \<and> symbols_done ls (length ls) s"
    by (rule fold_result_upt [where P = "symbols_done ls"]) (use start symbol_round [OF ok] in auto)
  then obtain s where s: "fold_result (symbol_step a) s0 [0..<length ls] = Inr s" "symbols_done ls (length ls) s"
    by blast
  then obtain T S x y where "s = (x, y, decoder_of ls T S)" "entered ls (length ls) T S"
    unfolding symbols_done_def by blast
  then show ?thesis
    using s(1) unfolding f173ab5a_initHuffmanDecoder_def count_loop [OF ok] bnd_Inr clear_count s0(1)
    by auto
qed

subsection \<open>Decoding finds the owner\<close>

lemma unat_top: "kraft ls \<Longrightarrow> l \<le> 15 \<Longrightarrow> unat (of_nat (top_value ls l) :: u16) = top_value ls l"
  using top_bound [of ls l] by (simp add: unat_of_nat)

lemma long_word_found:
  assumes ok: "lengths_ok a ls" and e: "entered ls (length ls) T S"
    and own: "owns ls (unat v) i" and fr: "0 < k" "k \<le> ls ! i"
  shows "long_word (decoder_of ls T S) v [k..<16] = Inr (Some (of_nat i, of_nat (ls ! i)))"
  using fr
proof (induction "ls ! i - k" arbitrary: k)
  case 0
  let ?l = "ls ! i"
  have k: "k = ?l" "?l < 16" "0 < ?l" "i < length ls" and kr: "kraft ls" and len: "length ls \<le> 288"
    using 0 own ok by (auto simp: owns_def lengths_ok_def)
  have "v < of_nat (top_value ls ?l)"
    using owns_range(2) [OF own] unat_top [OF kr, of ?l] k(2) by (simp add: word_less_nat_alt)
  moreover have "drop_bit (15 - ?l) v = of_nat (code ls i)"
  proof -
    have "unat (drop_bit (15 - ?l) v) = code ls i"
    proof -
      have "unat (drop_bit (15 - ?l) v) = drop_bit (15 - ?l) (unat v)" by (rule unat_drop_bit_eq)
      also have "\<dots> = unat v div 2 ^ (15 - ?l)" by (rule drop_bit_eq_div)
      also have "\<dots> = code ls i" using own by (simp add: owns_def)
      finally show ?thesis .
    qed
    then have "of_nat (unat (drop_bit (15 - ?l) v)) = (of_nat (code ls i) :: u16)" by (rule arg_cong)
    then show ?thesis by simp
  qed
  moreover have "of_nat (first_idx ls ?l) - of_nat (first_code ls ?l) + of_nat (code ls i) = (of_nat (pos ls i) :: u16)"
    by (simp add: code_def pos_def)
  moreover have "unat (of_nat (pos ls i) :: u16) = pos ls i" "pos ls i < 288"
    using pos_range(2) [OF k(4,3)] len by (simp_all add: unat_of_nat)
  moreover have "S (pos ls i) = of_nat i" using e k(3,4) by (simp add: entered_def)
  moreover have "[k..<16] = ?l # [Suc ?l..<16]" using k by (simp add: upt_conv_Cons)
  ultimately show ?case
    using k by (simp add: decoder_of_def MAX_HUFFMAN_BITS_def)
next
  case (Suc d)
  let ?l = "ls ! i"
  have k: "k < ?l" "?l \<le> 15" and kr: "kraft ls" using Suc own ok by (auto simp: owns_def lengths_ok_def)
  have "top_value ls k \<le> unat v"
    using top_first [OF k, of ls] owns_range(1) [OF own] by linarith
  then have "\<not> v < of_nat (top_value ls k)" using unat_top [OF kr, of k] k by (simp add: word_less_nat_alt)
  moreover have "[k..<16] = k # [Suc k..<16]" using k by (simp add: upt_conv_Cons)
  moreover have "long_word (decoder_of ls T S) v [Suc k..<16] = Inr (Some (of_nat i, of_nat ?l))"
    using Suc k by (intro Suc.hyps(1)) auto
  ultimately show ?case using k Suc.prems(1) by (simp add: decoder_of_def)
qed

lemma long_word_none:
  assumes kr: "kraft ls" and v: "top_value ls 15 \<le> unat v" and fr: "0 < k"
  shows "long_word (decoder_of ls T S) v [k..<16] = Inr None"
  using fr
proof (induction "16 - k" arbitrary: k)
  case (Suc d)
  then have k: "k < 16" by linarith
  have "top_value ls k \<le> unat v" using top_mono [of k 15 ls] k v by linarith
  then have "\<not> v < of_nat (top_value ls k)" using unat_top [OF kr, of k] k by (simp add: word_less_nat_alt)
  moreover have "[k..<16] = k # [Suc k..<16]" using k by (simp add: upt_conv_Cons)
  moreover have "long_word (decoder_of ls T S) v [Suc k..<16] = Inr None" using Suc k by (intro Suc.hyps(1)) auto
  ultimately show ?case using k Suc.prems by (simp add: decoder_of_def)
qed simp

lemma matches_low_byte:
  assumes "ls ! i \<le> 8"
  shows "matches ls (W AND 0xFF) i \<longleftrightarrow> matches ls W i"
proof -
  have "W AND 0xFF = take_bit 8 W" by (simp add: take_bit_eq_mask mask_eq_exp_minus_1)
  then have "bit (W AND 0xFF) k = bit W k" if "k < ls ! i" for k
    using that assms by (simp add: bit_take_bit_iff)
  then show ?thesis by (auto simp: matches_def)
qed

lemma low_byte_small: "unat ((W::u16) AND 0xFF) < 256"
  using word_and_le1 [of W "0xFF"] by (simp add: word_le_nat_alt)

lemma huffmanDecode_match:
  assumes ok: "lengths_ok a ls" and e: "entered ls (length ls) T S"
    and m: "matches ls (ucast (ib_bits ib)) i"
  shows "f173ab5a_huffmanDecode ib (decoder_of ls T S) = Inr (Some (of_nat i, of_nat (ls ! i)))"
proof -
  let ?W = "ucast (ib_bits ib) :: u16" and ?t = "unat ((ucast (ib_bits ib) :: u16) AND 0xFF)"
  have kr: "kraft ls" using ok by (simp add: lengths_ok_def)
  have i: "i < length ls" "0 < ls ! i" "ls ! i \<le> 15" using m by (auto simp: matches_def)
  have t: "?t < 256" by (rule low_byte_small)
  have mt: "matches ls (of_nat ?t) j \<longleftrightarrow> matches ls ?W j" if "ls ! j \<le> 8" for j
    using matches_low_byte [OF that, of ?W] by simp
  show ?thesis
  proof (cases "ls ! i \<le> 8")
    case True
    then have T: "T ?t = (of_nat i, of_nat (ls ! i))"
      using e i t m mt [OF True] by (auto simp: entered_def)
    have "(of_nat (ls ! i) :: u16) \<noteq> 0"
      using i by (simp add: word_unat_eq_iff unat_of_nat)
    moreover have "ucast (of_nat (ls ! i) :: u16) = (of_nat (ls ! i) :: u64)"
      using i by (simp add: word_unat_eq_iff unsigned_ucast_eq unat_of_nat take_bit_nat_eq_self)
    ultimately show ?thesis
      using T t by (simp add: f173ab5a_huffmanDecode_def Let_def decoder_of_def)
  next
    case False
    have "\<not> matches ls (of_nat ?t) j" if "ls ! j \<le> 8" for j
      using matches_unique [OF kr m, of j] that False mt [OF that] by auto
    then have T: "T ?t = (0, 0)" using e t by (auto simp: entered_def)
    have "owns ls (unat (e474415b_reverse16 ?W 15)) i" using m matches_owns [OF kr] by blast
    then have "long_word (decoder_of ls T S) (e474415b_reverse16 ?W 15) [9..<16] = Inr (Some (of_nat i, of_nat (ls ! i)))"
      using False by (intro long_word_found [OF ok e]) auto
    then show ?thesis
      using T t by (simp add: f173ab5a_huffmanDecode_def Let_def decoder_of_def MAX_HUFFMAN_BITS_def
          HUFFMAN_LOOKUP_TABLE_BITS_def del: upt_Suc)
  qed
qed

lemma huffmanDecode_no_match:
  assumes ok: "lengths_ok a ls" and e: "entered ls (length ls) T S"
    and none: "\<forall>i. \<not> matches ls (ucast (ib_bits ib)) i"
  shows "f173ab5a_huffmanDecode ib (decoder_of ls T S) = Inr None"
proof -
  let ?W = "ucast (ib_bits ib) :: u16" and ?t = "unat ((ucast (ib_bits ib) :: u16) AND 0xFF)"
  have kr: "kraft ls" using ok by (simp add: lengths_ok_def)
  have t: "?t < 256" by (rule low_byte_small)
  have "\<not> matches ls (of_nat ?t) j" if "ls ! j \<le> 8" for j
    using matches_low_byte [OF that, of ?W] none by simp
  then have T: "T ?t = (0, 0)" using e t by (auto simp: entered_def)
  have "\<not> (\<exists>i. owns ls (unat (e474415b_reverse16 ?W 15)) i)" using none matches_owns [OF kr] by blast
  then have "top_value ls 15 \<le> unat (e474415b_reverse16 ?W 15)" using owner_exists not_le by blast
  then have "long_word (decoder_of ls T S) (e474415b_reverse16 ?W 15) [9..<16] = Inr None"
    by (intro long_word_none kr) auto
  then show ?thesis
    using T t by (simp add: f173ab5a_huffmanDecode_def Let_def decoder_of_def MAX_HUFFMAN_BITS_def
        HUFFMAN_LOOKUP_TABLE_BITS_def del: upt_Suc)
qed

subsection \<open>Properties\<close>

text \<open>C30: for lengths that satisfy Kraft's inequality, the decoder built from them returns, for every input
  window, the one symbol whose canonical word the window starts with and the length of that word, and
  the error code exactly when the window starts with no word.\<close>

theorem huffman_decodes_canonical_code:
  assumes "lengths_ok a ls"
  shows "\<exists>decoder. f173ab5a_initHuffmanDecoder a (length ls) = Inr decoder \<and>
    (\<forall>ib i. matches ls (ucast (ib_bits ib)) i \<longrightarrow>
       f173ab5a_huffmanDecode ib decoder = Inr (Some (of_nat i, of_nat (ls ! i)))) \<and>
    (\<forall>ib. (\<forall>i. \<not> matches ls (ucast (ib_bits ib)) i) \<longrightarrow> f173ab5a_huffmanDecode ib decoder = Inr None)"
proof -
  obtain T S where "f173ab5a_initHuffmanDecoder a (length ls) = Inr (decoder_of ls T S)" "entered ls (length ls) T S"
    using initHuffmanDecoder_ok [OF assms] by blast
  then show ?thesis
    using huffmanDecode_match [OF assms] huffmanDecode_no_match [OF assms] by blast
qed

lemma huffman_decodes_canonical_code_witness:
  "\<exists>decoder. f173ab5a_initHuffmanDecoder [Some 1, Some 2, Some 2] (length [1, 2, 2 :: nat]) = Inr decoder \<and>
    (\<forall>ib i. matches [1, 2, 2] (ucast (ib_bits ib)) i \<longrightarrow>
       f173ab5a_huffmanDecode ib decoder = Inr (Some (of_nat i, of_nat ([1, 2, 2] ! i)))) \<and>
    (\<forall>ib. (\<forall>i. \<not> matches [1, 2, 2] (ucast (ib_bits ib)) i) \<longrightarrow> f173ab5a_huffmanDecode ib decoder = Inr None)"
proof (rule huffman_decodes_canonical_code)
  have k: "kraft [1, 2, 2]" by (simp add: kraft_def cnt_def first_code_numeral)
  have cells: "\<exists>w. rd [Some 1, Some 2, Some (2::u8)] i = Inr w \<and> unat w = [1, 2, 2] ! i" if "i < 3" for i
  proof -
    have "i = 0 \<or> i = 1 \<or> i = 2" using that by linarith
    then show ?thesis by (elim disjE) (simp_all add: rd_def)
  qed
  have few: "count_list [1, 2, 2 :: nat] l < 256" for l by (simp add: count_list.simps)
  show "lengths_ok [Some 1, Some 2, Some 2] [1, 2, 2]"
    unfolding lengths_ok_def using k cells few by simp
qed

end
