(* ===== verification/Inflate.thy ===== *)
theory Inflate
  imports Huffman
begin

text \<open>
  compress/inflate.c: the decompressor. One Inflate struct holds the bit reader and one output buffer of
  32768 bytes, which is also the window that back references copy from. Blocks are read until one is
  marked as the last; the loops are \<open>repeat_until\<close>, so that a loop that does not end would be \<open>NoReturn\<close>.
  The handlers of stored and of fixed-code blocks do nothing but print a line and report success, as in
  the code. A local variable that is not yet set is None; reading it is the fault \<open>Uninitialised\<close>.
\<close>

definition LITLEN_EOB :: u16 where "LITLEN_EOB = 256"
definition LITLEN_MAX :: u16 where "LITLEN_MAX = 285"
definition LITLEN_TBL_OFFSET :: u16 where "LITLEN_TBL_OFFSET = 257"
definition DISTSYM_MAX :: u16 where "DISTSYM_MAX = 29"
definition MIN_CODELEN_LENS :: u64 where "MIN_CODELEN_LENS = 4"
definition MAX_CODELEN_LENS :: nat where "MAX_CODELEN_LENS = 19"
definition MIN_LITLEN_LENS :: u64 where "MIN_LITLEN_LENS = 257"
definition MAX_LITLEN_LENS :: nat where "MAX_LITLEN_LENS = 288"
definition MIN_DIST_LENS :: u64 where "MIN_DIST_LENS = 1"
definition MAX_DIST_LENS :: nat where "MAX_DIST_LENS = 32"
definition CODELEN_MAX_LIT :: u16 where "CODELEN_MAX_LIT = 15"
definition CODELEN_COPY :: u16 where "CODELEN_COPY = 16"
definition CODELEN_ZEROS :: u16 where "CODELEN_ZEROS = 17"
definition CODELEN_ZEROS2 :: u16 where "CODELEN_ZEROS2 = 18"
definition CODELEN_COPY_MIN :: nat where "CODELEN_COPY_MIN = 3"
definition CODELEN_ZEROS_MIN :: nat where "CODELEN_ZEROS_MIN = 3"
definition CODELEN_ZEROS2_MIN :: nat where "CODELEN_ZEROS2_MIN = 11"
definition INFLATE_OUTPUT_LENGTH :: u32 where "INFLATE_OUTPUT_LENGTH = 32768"

text \<open>The tables of lengths and distances: base value and number of extra bits.\<close>

definition codelenLengthsOrder :: "nat block" where
  "codelenLengthsOrder = map Some [16, 17, 18, 0, 8, 7, 9, 6, 10, 5, 11, 4, 12, 3, 13, 2, 14, 1, 15]"

definition litlen_tbl :: "(u16 \<times> u16) block" where
  "litlen_tbl = map Some
     [(3, 0), (4, 0), (5, 0), (6, 0), (7, 0), (8, 0), (9, 0), (10, 0), (11, 1), (13, 1), (15, 1), (17, 1),
      (19, 2), (23, 2), (27, 2), (31, 2), (35, 3), (43, 3), (51, 3), (59, 3), (67, 4), (83, 4), (99, 4),
      (115, 4), (131, 5), (163, 5), (195, 5), (227, 5), (258, 0)]"

definition dist_tbl :: "(u32 \<times> u32) block" where
  "dist_tbl = map Some
     [(1, 0), (2, 0), (3, 0), (4, 0), (5, 1), (7, 1), (9, 2), (13, 2), (17, 3), (25, 3), (33, 4), (49, 4),
      (65, 5), (97, 5), (129, 6), (193, 6), (257, 7), (385, 7), (513, 8), (769, 8), (1025, 9), (1537, 9),
      (2049, 10), (3073, 10), (4097, 11), (6145, 11), (8193, 12), (12289, 12), (16385, 13), (24577, 13)]"

datatype InflationStatus =
  INFLATE_SUCCESS | INFLATE_NEED_INPUT | INFLATE_OUTPUT_FULL | INFLATE_INPUT_ERROR

record Inflate =
  in_inputBuffer :: InputBuffer
  in_outputBuffer :: OutputBuffer
  inputBlockStart :: u32
  in_status :: InflationStatus

subsection \<open>Create and initialise\<close>

definition d592eb82_initInflate ::
    "(nat \<Rightarrow> nat) \<Rightarrow> 'z fb_state_scheme \<Rightarrow> nat ptr \<Rightarrow> u32 \<Rightarrow> (Inflate \<times> 'z fb_state_scheme) result" where
  "d592eb82_initInflate alloc st fileBuffer compressSize =
     bnd (c49f5b0d_initInputBuffer st fileBuffer compressSize) (\<lambda>ib.
     bnd (c49f5b0d_initOutputBuffer alloc st) (\<lambda>(ob, st).
     Inr (\<lparr>in_inputBuffer = ib, in_outputBuffer = ob, inputBlockStart = 0, in_status = INFLATE_SUCCESS\<rparr>, st)))"

definition d592eb82_createInflate ::
    "(nat \<Rightarrow> nat) \<Rightarrow> 'z fb_state_scheme \<Rightarrow> nat ptr \<Rightarrow> u32 \<Rightarrow> (Inflate \<times> 'z fb_state_scheme) result" where
  "d592eb82_createInflate alloc st fileBuffer compressSize =
     bnd (c49f5b0d_initInputBuffer st fileBuffer compressSize) (\<lambda>ib.
     bnd (c49f5b0d_initOutputBuffer alloc st) (\<lambda>(ob, st).
     Inr (\<lparr>in_inputBuffer = ib, in_outputBuffer = ob, inputBlockStart = 0, in_status = INFLATE_SUCCESS\<rparr>, st)))"

definition d592eb82_cleanUpInflate :: "'z fb_state_scheme \<Rightarrow> Inflate \<Rightarrow> 'z fb_state_scheme result" where
  "d592eb82_cleanUpInflate st inflate = c49f5b0d_cleanUpOutputBuffer st [in_outputBuffer inflate]"

definition d592eb82_destroyInflate :: "'z fb_state_scheme \<Rightarrow> Inflate \<Rightarrow> 'z fb_state_scheme result" where
  "d592eb82_destroyInflate st inflate = c49f5b0d_cleanUpOutputBuffer st [in_outputBuffer inflate]"

subsection \<open>Output\<close>

definition slab_put :: "'z fb_state_scheme \<Rightarrow> nat ptr \<Rightarrow> u8 block \<Rightarrow> 'z fb_state_scheme result" where
  "slab_put st p slab = bnd (deref p) (\<lambda>a. Inr (st\<lparr>pageBytes := (pageBytes st)(a \<mapsto> slab)\<rparr>))"

definition put_byte :: "'z fb_state_scheme \<Rightarrow> OutputBuffer \<Rightarrow> u8 \<Rightarrow> 'z fb_state_scheme result" where
  "put_byte st ob x =
     bnd (page_get st (ob_buffer ob)) (\<lambda>slab.
     bnd (wr slab (unat (ob_length ob)) x) (\<lambda>slab. slab_put st (ob_buffer ob) slab))"

definition round_up :: "u64 \<Rightarrow> u64 \<Rightarrow> u64" where
  "round_up x m = (x + m - 1) AND (- m)"

text \<open>A back reference may start before the end of what it copies; the copy goes byte by byte.\<close>

definition copy_step :: "nat \<Rightarrow> nat \<Rightarrow> u8 block \<Rightarrow> nat \<Rightarrow> u8 block result" where
  "copy_step start dist slab i = bnd (rd slab (start - dist + i)) (\<lambda>x. wr slab (start + i) x)"

definition lz77_output_backref ::
    "'z fb_state_scheme \<Rightarrow> OutputBuffer \<Rightarrow> u64 \<Rightarrow> u64 \<Rightarrow> 'z fb_state_scheme result" where
  "lz77_output_backref st ob dist len =
     bnd (check (unat dist \<le> unat (ob_length ob)) OutOfBounds) (\<lambda>_.
     bnd (page_get st (ob_buffer ob)) (\<lambda>slab.
     bnd (fold_result (copy_step (unat (ob_length ob)) (unat dist)) slab [0..<unat len]) (\<lambda>slab.
     slab_put st (ob_buffer ob) slab)))"

definition output_backref64 ::
    "'z fb_state_scheme \<Rightarrow> OutputBuffer \<Rightarrow> u64 \<Rightarrow> u64 \<Rightarrow> 'z fb_state_scheme result" where
  "output_backref64 st ob dist len =
     (if dist < len then lz77_output_backref st ob dist len
      else
        bnd (check (unat dist \<le> unat (ob_length ob)) OutOfBounds) (\<lambda>_.
        bnd (page_get st (ob_buffer ob)) (\<lambda>slab.
        bnd (f668c4bd_memcopy slab (unat (ob_length ob) - unat dist) slab (unat (ob_length ob)) (unat len)) (\<lambda>slab.
        slab_put st (ob_buffer ob) slab))))"

subsection \<open>Input\<close>

definition drop_bits :: "nat \<Rightarrow> Inflate \<Rightarrow> Inflate" where
  "drop_bits n inflate =
     inflate\<lparr>in_inputBuffer := (in_inputBuffer inflate)\<lparr>ib_bits := drop_bit n (ib_bits (in_inputBuffer inflate))\<rparr>\<rparr>"

definition low_bits :: "Inflate \<Rightarrow> u64 \<Rightarrow> u64" where
  "low_bits inflate m = ib_bits (in_inputBuffer inflate) AND m"

definition get_bits :: "'z fb_state_scheme \<Rightarrow> Inflate \<Rightarrow> Inflate result" where
  "get_bits st inflate =
     bnd (c49f5b0d_getNextBits st (in_inputBuffer inflate)) (\<lambda>ib. Inr (inflate\<lparr>in_inputBuffer := ib\<rparr>))"

definition advance_bits :: "'z fb_state_scheme \<Rightarrow> Inflate \<Rightarrow> u64 \<Rightarrow> (bool \<times> Inflate) result" where
  "advance_bits st inflate n =
     bnd (c49f5b0d_advanceNumBits st (in_inputBuffer inflate) (ucast n)) (\<lambda>(ok, ib).
     Inr (ok, inflate\<lparr>in_inputBuffer := ib\<rparr>))"

definition use_bits :: "'z fb_state_scheme \<Rightarrow> Inflate \<Rightarrow> u32 \<Rightarrow> (bool \<times> Inflate) result" where
  "use_bits st inflate n =
     bnd (c49f5b0d_useNumBits st (in_inputBuffer inflate) n) (\<lambda>(ok, ib).
     Inr (ok, inflate\<lparr>in_inputBuffer := ib\<rparr>))"

text \<open>
  \<open>symbol = huffmanDecode(..., &numBitsUsed); bits >>= numBitsUsed\<close>. Without a symbol \<open>numBitsUsed\<close> is
  what it was before, if it was set at all.
\<close>

definition decode_symbol ::
    "HuffmanDecoder \<Rightarrow> Inflate \<Rightarrow> u64 option \<Rightarrow> (u16 option \<times> u64 \<times> Inflate) result" where
  "decode_symbol decoder inflate numBitsUsed =
     bnd (f173ab5a_huffmanDecode (in_inputBuffer inflate) decoder) (\<lambda>r.
     bnd (case r of
            Some (symbol, n) \<Rightarrow> Inr n
          | None \<Rightarrow> (case numBitsUsed of None \<Rightarrow> Inl Uninitialised | Some n \<Rightarrow> Inr n)) (\<lambda>n.
     Inr (map_option fst r, n, drop_bits (unat n) inflate)))"

subsection \<open>Literals and back references\<close>

text \<open>How a handler leaves its loop.\<close>

type_synonym 'z lit_state = "Inflate \<times> 'z fb_state_scheme \<times> u64 option"
type_synonym 'z outcome = "bool \<times> Inflate \<times> 'z fb_state_scheme"

definition stop :: "bool \<Rightarrow> InflationStatus \<Rightarrow> Inflate \<Rightarrow> 'z fb_state_scheme \<Rightarrow> ('s + 'z outcome) result" where
  "stop ok status inflate st = Inr (Inr (ok, inflate\<lparr>in_status := status\<rparr>, st))"

definition grow_output :: "Inflate \<Rightarrow> u64 \<Rightarrow> Inflate" where
  "grow_output inflate n =
     inflate\<lparr>in_outputBuffer := (in_outputBuffer inflate)\<lparr>ob_length := ob_length (in_outputBuffer inflate) + ucast n\<rparr>\<rparr>"

text \<open>The extra bits of a length or a distance, and the bits used for them.\<close>

definition extra :: "Inflate \<Rightarrow> u64 \<Rightarrow> nat \<Rightarrow> u64 \<Rightarrow> u64 \<times> Inflate \<times> u64" where
  "extra inflate base extraBits totalBitsUsed =
     (if extraBits \<noteq> 0 then
        (base + low_bits inflate (push_bit extraBits 1 - 1), drop_bits extraBits inflate,
         totalBitsUsed + of_nat extraBits)
      else (base, inflate, totalBitsUsed))"

definition write_backref ::
    "'z fb_state_scheme \<Rightarrow> Inflate \<Rightarrow> u64 \<Rightarrow> u64 \<Rightarrow> u64 option \<Rightarrow> ('z lit_state + 'z outcome) result" where
  "write_backref st inflate dist len numBitsUsed =
     (let ob = in_outputBuffer inflate; room = ucast (INFLATE_OUTPUT_LENGTH - ob_length ob)
      in if ucast (ob_length ob) < dist then stop False INFLATE_INPUT_ERROR inflate st
         else if round_up len 8 \<le> room then
           bnd (output_backref64 st ob dist len) (\<lambda>st. Inr (Inl (grow_output inflate len, st, numBitsUsed)))
         else if len \<le> room then
           bnd (lz77_output_backref st ob dist len) (\<lambda>st. Inr (Inl (grow_output inflate len, st, numBitsUsed)))
         else stop False INFLATE_OUTPUT_FULL inflate st)"

definition backref_step ::
    "HuffmanDecoder \<Rightarrow> u16 \<Rightarrow> 'z fb_state_scheme \<Rightarrow> Inflate \<Rightarrow> u64 \<Rightarrow> ('z lit_state + 'z outcome) result" where
  "backref_step distDecoder litlen st inflate numBitsUsed =
     bnd (rd litlen_tbl (unat (litlen - LITLEN_TBL_OFFSET))) (\<lambda>(baseLength, extraBits).
     let (len, inflate, totalBitsUsed) = extra inflate (ucast baseLength) (unat extraBits) numBitsUsed
     in bnd (decode_symbol distDecoder inflate (Some numBitsUsed)) (\<lambda>(distSymbol, numBitsUsed, inflate).
        let totalBitsUsed = totalBitsUsed + numBitsUsed
        in case distSymbol of None \<Rightarrow> stop False INFLATE_INPUT_ERROR inflate st
           | Some distSymbol \<Rightarrow>
               if DISTSYM_MAX < distSymbol then stop False INFLATE_INPUT_ERROR inflate st
               else
                 bnd (rd dist_tbl (unat distSymbol)) (\<lambda>(baseDist, extraBits).
                 let (dist, inflate, totalBitsUsed) = extra inflate (ucast baseDist) (unat extraBits) totalBitsUsed
                 in bnd (advance_bits st inflate totalBitsUsed) (\<lambda>(ok, inflate).
                    if \<not> ok then stop False INFLATE_NEED_INPUT inflate st
                    else write_backref st inflate dist len (Some numBitsUsed)))))"

definition literal_backref_step ::
    "HuffmanDecoder \<Rightarrow> HuffmanDecoder \<Rightarrow> 'z lit_state \<Rightarrow> ('z lit_state + 'z outcome) result" where
  "literal_backref_step litlenDecoder distDecoder = (\<lambda>(inflate, st, numBitsUsed).
     bnd (get_bits st inflate) (\<lambda>inflate.
     bnd (decode_symbol litlenDecoder inflate numBitsUsed) (\<lambda>(litlen, numBitsUsed, inflate).
     case litlen of None \<Rightarrow> stop False INFLATE_INPUT_ERROR inflate st
     | Some litlen \<Rightarrow>
         if LITLEN_MAX < litlen then stop False INFLATE_INPUT_ERROR inflate st
         else if litlen \<le> 255 then
           bnd (advance_bits st inflate numBitsUsed) (\<lambda>(ok, inflate).
           if \<not> ok then stop False INFLATE_NEED_INPUT inflate st
           else if ob_length (in_outputBuffer inflate) = INFLATE_OUTPUT_LENGTH
           then stop False INFLATE_OUTPUT_FULL inflate st
           else bnd (put_byte st (in_outputBuffer inflate) (ucast litlen)) (\<lambda>st.
                Inr (Inl (grow_output inflate 1, st, Some numBitsUsed))))
         else if litlen = LITLEN_EOB then
           bnd (advance_bits st inflate numBitsUsed) (\<lambda>(ok, inflate).
           if \<not> ok then stop False INFLATE_NEED_INPUT inflate st
           else stop True INFLATE_SUCCESS inflate st)
         else backref_step distDecoder litlen st inflate numBitsUsed)))"

definition processLiteralBackrefBlock ::
    "'z fb_state_scheme \<Rightarrow> Inflate \<Rightarrow> HuffmanDecoder \<Rightarrow> HuffmanDecoder \<Rightarrow> 'z outcome result" where
  "processLiteralBackrefBlock st inflate litlenDecoder distDecoder =
     repeat_until (literal_backref_step litlenDecoder distDecoder) (inflate, st, None)"

subsection \<open>The decoders of a dynamic block\<close>

text \<open>The 3-bit lengths of the code length code.\<close>

primrec codelen_loop ::
    "'z fb_state_scheme \<Rightarrow> nat list \<Rightarrow> Inflate \<Rightarrow> u8 block \<Rightarrow> (u8 block option \<times> Inflate) result" where
  "codelen_loop st [] inflate codelenLengthArray = Inr (Some codelenLengthArray, inflate)"
| "codelen_loop st (i # is) inflate codelenLengthArray =
     bnd (use_bits st inflate 3) (\<lambda>(ok, inflate).
     if \<not> ok then Inr (None, inflate\<lparr>in_status := INFLATE_NEED_INPUT\<rparr>)
     else
       bnd (rd codelenLengthsOrder i) (\<lambda>k.
       bnd (wr codelenLengthArray k (ucast (low_bits inflate 0x07))) (\<lambda>codelenLengthArray.
       codelen_loop st is (drop_bits 3 inflate) codelenLengthArray)))"

type_synonym len_state = "nat \<times> u8 block \<times> Inflate \<times> u64 option"
type_synonym len_outcome = "u8 block option \<times> Inflate"

definition len_fail :: "InflationStatus \<Rightarrow> Inflate \<Rightarrow> (len_state + len_outcome) result" where
  "len_fail status inflate = Inr (Inr (None, inflate\<lparr>in_status := status\<rparr>))"

definition put_lens :: "u8 \<Rightarrow> nat \<Rightarrow> nat \<Rightarrow> u8 block \<Rightarrow> u8 block result" where
  "put_lens x i j codeLengthArray = fold_result (\<lambda>a k. wr a k x) codeLengthArray [i..<i + j]"

text \<open>\<open>codeLengthArray[i] = codeLengthArray[i - 1]\<close>, \<open>j\<close> times; with \<open>i\<close> 0 it reads before the array.\<close>

definition copy_lens :: "nat \<Rightarrow> nat \<Rightarrow> u8 block \<Rightarrow> u8 block result" where
  "copy_lens i j codeLengthArray =
     fold_result (\<lambda>a k. bnd (check (0 < k) OutOfBounds) (\<lambda>_. bnd (rd a (k - 1)) (\<lambda>x. wr a k x)))
       codeLengthArray [i..<i + j]"

text \<open>A run-length symbol: \<open>n\<close> extra bits, masked, and the least run length.\<close>

definition len_run ::
    "'z fb_state_scheme \<Rightarrow> Inflate \<Rightarrow> u64 \<Rightarrow> u64 \<Rightarrow> nat \<Rightarrow> (nat \<Rightarrow> nat \<Rightarrow> u8 block \<Rightarrow> u8 block result) \<Rightarrow> nat \<Rightarrow>
     u8 block \<Rightarrow> u64 \<Rightarrow> (len_state + len_outcome) result" where
  "len_run st inflate n low least put i codeLengthArray numBitsUsed =
     bnd (advance_bits st inflate n) (\<lambda>(ok, inflate).
     if \<not> ok then len_fail INFLATE_NEED_INPUT inflate
     else
       let j = unat (low_bits inflate low) + least
       in bnd (put i j codeLengthArray) (\<lambda>codeLengthArray.
          Inr (Inl (i + j, codeLengthArray, inflate, Some numBitsUsed))))"

definition len_step ::
    "'z fb_state_scheme \<Rightarrow> nat \<Rightarrow> HuffmanDecoder \<Rightarrow> len_state \<Rightarrow> (len_state + len_outcome) result" where
  "len_step st numLens codelenDecoder = (\<lambda>(i, codeLengthArray, inflate, numBitsUsed).
     if i < numLens then
       bnd (get_bits st inflate) (\<lambda>inflate.
       bnd (decode_symbol codelenDecoder inflate numBitsUsed) (\<lambda>(symbol, numBitsUsed, inflate).
       bnd (advance_bits st inflate numBitsUsed) (\<lambda>(ok, inflate).
       if \<not> ok then len_fail INFLATE_NEED_INPUT inflate
       else case symbol of None \<Rightarrow> len_fail INFLATE_INPUT_ERROR inflate
       | Some symbol \<Rightarrow>
           if symbol \<le> CODELEN_MAX_LIT then
             bnd (wr codeLengthArray i (ucast symbol)) (\<lambda>codeLengthArray.
             Inr (Inl (i + 1, codeLengthArray, inflate, Some numBitsUsed)))
           else if symbol = CODELEN_COPY then
             len_run st inflate 2 0x03 CODELEN_COPY_MIN copy_lens i codeLengthArray numBitsUsed
           else if symbol = CODELEN_ZEROS then
             len_run st inflate 3 0x07 CODELEN_ZEROS_MIN (put_lens 0) i codeLengthArray numBitsUsed
           else if symbol = CODELEN_ZEROS2 then
             len_run st inflate 7 0x7F CODELEN_ZEROS2_MIN (put_lens 0) i codeLengthArray numBitsUsed
           else len_fail INFLATE_INPUT_ERROR inflate)))
     else Inr (Inr (Some codeLengthArray, inflate)))"

text \<open>The 14-bit header; None when a count is too large, with the input moved as far as it was read.\<close>

definition read_count ::
    "Inflate \<Rightarrow> u64 \<Rightarrow> u64 \<Rightarrow> nat \<Rightarrow> nat \<Rightarrow> nat option \<times> Inflate" where
  "read_count inflate low least n most =
     (let num = unat (low_bits inflate low + least); inflate = drop_bits n inflate
      in if most < num then (None, inflate\<lparr>in_status := INFLATE_INPUT_ERROR\<rparr>) else (Some num, inflate))"

definition initDynamicDecoder ::
    "'z fb_state_scheme \<Rightarrow> Inflate \<Rightarrow> ((HuffmanDecoder \<times> HuffmanDecoder) option \<times> Inflate) result" where
  "initDynamicDecoder st inflate =
     bnd (use_bits st inflate 14) (\<lambda>(ok, inflate).
     if \<not> ok then Inr (None, inflate\<lparr>in_status := INFLATE_NEED_INPUT\<rparr>)
     else case read_count inflate 0x1F MIN_LITLEN_LENS 5 MAX_LITLEN_LENS of
       (None, inflate) \<Rightarrow> Inr (None, inflate)
     | (Some numLitlenLens, inflate) \<Rightarrow>
     (case read_count inflate 0x1F MIN_DIST_LENS 5 MAX_DIST_LENS of
       (None, inflate) \<Rightarrow> Inr (None, inflate)
     | (Some numDistLens, inflate) \<Rightarrow>
     (case read_count inflate 0x0F MIN_CODELEN_LENS 4 MAX_CODELEN_LENS of
       (None, inflate) \<Rightarrow> Inr (None, inflate)
     | (Some numCodelenLens, inflate) \<Rightarrow>
         bnd (codelen_loop st [0..<numCodelenLens] inflate (fresh MAX_CODELEN_LENS)) (\<lambda>(codelens, inflate).
         case codelens of None \<Rightarrow> Inr (None, inflate)
         | Some codelenLengthArray \<Rightarrow>
             bnd (fold_result (\<lambda>a i. bnd (rd codelenLengthsOrder i) (\<lambda>k. wr a k 0)) codelenLengthArray
                    [numCodelenLens..<MAX_CODELEN_LENS]) (\<lambda>codelenLengthArray.
             bnd (f173ab5a_initHuffmanDecoder codelenLengthArray MAX_CODELEN_LENS) (\<lambda>codelenDecoder.
             bnd (repeat_until (len_step st (numLitlenLens + numDistLens) codelenDecoder)
                    (0, fresh (MAX_LITLEN_LENS + MAX_DIST_LENS), inflate, None)) (\<lambda>(lens, inflate).
             case lens of None \<Rightarrow> Inr (None, inflate)
             | Some codeLengthArray \<Rightarrow>
                 bnd (f173ab5a_initHuffmanDecoder codeLengthArray numLitlenLens) (\<lambda>litlenDecoder.
                 bnd (f173ab5a_initHuffmanDecoder (drop numLitlenLens codeLengthArray) numDistLens) (\<lambda>distDecoder.
                 Inr (Some (litlenDecoder, distDecoder), inflate))))))))))"

definition processDynamicDeflateBlock :: "'z fb_state_scheme \<Rightarrow> Inflate \<Rightarrow> 'z outcome result" where
  "processDynamicDeflateBlock st inflate =
     bnd (initDynamicDecoder st inflate) (\<lambda>(decoders, inflate).
     case decoders of None \<Rightarrow> Inr (False, inflate, st)
     | Some (litlenDecoder, distDecoder) \<Rightarrow> processLiteralBackrefBlock st inflate litlenDecoder distDecoder)"

definition processNonCompressionBlock :: "'z fb_state_scheme \<Rightarrow> Inflate \<Rightarrow> 'z outcome result" where
  "processNonCompressionBlock st inflate = Inr (True, inflate, st)"

definition processFixedDeflateBlock :: "'z fb_state_scheme \<Rightarrow> Inflate \<Rightarrow> 'z outcome result" where
  "processFixedDeflateBlock st inflate = Inr (True, inflate, st)"

subsection \<open>The blocks\<close>

definition block_step :: "Inflate \<times> 'z fb_state_scheme \<Rightarrow> (Inflate \<times> 'z fb_state_scheme + 'z outcome) result" where
  "block_step = (\<lambda>(inflate, st).
     bnd (use_bits st inflate 3) (\<lambda>(ok, inflate).
     if \<not> ok then stop False INFLATE_INPUT_ERROR inflate st
     else
       let isFinalBlock = (low_bits inflate 0x01 \<noteq> 0);
           blockType = low_bits inflate 0x06;
           inflate = drop_bits 3 inflate;
           next_block = (\<lambda>(okStatus, inflate, st).
             if okStatus then (if isFinalBlock then stop True INFLATE_SUCCESS inflate st else Inr (Inl (inflate, st)))
             else Inr (Inr (False, inflate, st)))
       in if blockType = 0 then bnd (processNonCompressionBlock st inflate) next_block
          else if blockType = 2 then bnd (processFixedDeflateBlock st inflate) next_block
          else if blockType = 4 then bnd (processDynamicDeflateBlock st inflate) next_block
          else stop False INFLATE_INPUT_ERROR inflate st))"

definition d592eb82_inflate :: "'z fb_state_scheme \<Rightarrow> Inflate \<Rightarrow> 'z outcome result" where
  "d592eb82_inflate st inflate = repeat_until block_step (inflate, st)"

end
