(* ===== verification/InflateEnds.thy ===== *)
theory InflateEnds
  imports Inflate
begin

text \<open>
  The decompressor ends on every input. Nothing is assumed of the file's contents: whatever the bits
  say, each round of each loop either leaves it or uses up at least one of the bits that
  \<open>compressSize\<close> allows, and the output never grows beyond the buffer. \<open>outcome P r\<close> says that the
  computation \<open>r\<close> ends, in a fault or in a value with property \<open>P\<close>.
\<close>

definition outcome :: "('a \<Rightarrow> bool) \<Rightarrow> 'a result \<Rightarrow> bool" where
  "outcome P r = (case r of Inl e \<Rightarrow> e \<noteq> NoReturn | Inr x \<Rightarrow> P x)"

named_theorems outcomes "computations that end"

lemma outcome_Inr [simp]: "outcome P (Inr x) = P x"
  by (simp add: outcome_def)

lemma outcome_Inl [simp]: "outcome P (Inl e) = (e \<noteq> NoReturn)"
  by (simp add: outcome_def)

lemma outcome_bnd: "outcome P m \<Longrightarrow> (\<And>x. P x \<Longrightarrow> outcome Q (f x)) \<Longrightarrow> outcome Q (bnd m f)"
  by (cases m) simp_all

lemma outcome_weaken: "outcome P r \<Longrightarrow> (\<And>x. P x \<Longrightarrow> Q x) \<Longrightarrow> outcome Q r"
  by (cases r) simp_all

lemma outcome_fold: "P s \<Longrightarrow> (\<And>s x. P s \<Longrightarrow> outcome P (f s x)) \<Longrightarrow> outcome P (fold_result f s xs)"
  by (induction xs arbitrary: s) (auto intro: outcome_bnd)

lemma outcome_loop:
  fixes m :: "'s \<Rightarrow> nat"
  assumes "P s"
    and "\<And>s. P s \<Longrightarrow> outcome (\<lambda>x. case x of Inl s' \<Rightarrow> P s' \<and> m s' < m s | Inr r \<Rightarrow> Q r) (body s)"
  shows "outcome Q (repeat_until body s)"
proof -
  have "case repeat_until body s of Inl e \<Rightarrow> e \<noteq> NoReturn | Inr r \<Rightarrow> Q r"
  proof (rule repeat_until_rule [where P = P and m = m, OF assms(1)])
    fix s
    assume "P s"
    from assms(2) [OF this]
    show "case body s of Inl e \<Rightarrow> e \<noteq> NoReturn | Inr (Inl s') \<Rightarrow> P s' \<and> m s' < m s | Inr (Inr r) \<Rightarrow> Q r"
      by (simp add: outcome_def split: sum.splits)
  qed
  then show ?thesis by (simp add: outcome_def)
qed

abbreviation ends :: "'a result \<Rightarrow> bool" where "ends r \<equiv> outcome (\<lambda>_. True) r"

lemma ends_bnd: "ends m \<Longrightarrow> (\<And>x. ends (f x)) \<Longrightarrow> ends (bnd m f)"
  by (rule outcome_bnd)

lemma ends_fold: "(\<And>s x. ends (f s x)) \<Longrightarrow> ends (fold_result f s xs)"
  by (rule outcome_fold) simp_all

subsection \<open>Memory and input\<close>

lemma access_ends [outcomes]:
  "ends (rd b i)" "ends (wr b i x)" "ends (deref p)" "e \<noteq> NoReturn \<Longrightarrow> ends (check c e)" "ends (blit a i n d j)"
  by (auto simp: outcome_def rd_def wr_def deref_def check_def blit_def split: option.split)

lemma rd_outcome: "(\<And>x. rd b i = Inr x \<Longrightarrow> P x) \<Longrightarrow> outcome P (rd b i)"
  by (auto simp: outcome_def rd_def split: option.split)

lemma read_cells_ends [outcomes]: "ends (read_cells b i n)"
  by (induction n arbitrary: i) (auto intro!: ends_bnd access_ends)

lemma fb_ends [outcomes]: "ends (fb_get st p)" "ends (page_get st p)" "ends (has_next st ib)"
  by (auto simp: fb_get_def page_get_def has_next_def outcome_def bnd_def deref_def split: option.splits sum.splits)

lemma read_bits_ends [outcomes]: "ends (read_bits st ib)"
  unfolding read_bits_def Let_def
  by (auto intro!: outcome_bnd [OF fb_ends(1)] outcome_bnd [OF fb_ends(2)] outcome_bnd [OF fb_ends(3)]
      outcome_bnd [OF read_cells_ends])

text \<open>The reader after a step: well formed, and with no more bits left than before.\<close>

definition reader_at :: "nat \<Rightarrow> InputBuffer \<Rightarrow> bool" where
  "reader_at n ib \<longleftrightarrow> ib_wf ib \<and> ib_left ib = n"

lemma next_offset_ends:
  "outcome (\<lambda>r. case r of None \<Rightarrow> True
     | Some (ib', off) \<Rightarrow> ib_bitPos ib' = ib_bitPos ib \<and> ib_totalNumBits ib' = ib_totalNumBits ib)
     (next_offset st ib n)"
  unfolding next_offset_def Let_def
  by (auto intro!: outcome_bnd [OF fb_ends(1)] outcome_bnd [OF fb_ends(3)])

lemma moved_reader:
  assumes "ib_wf ib" and "\<not> ib_totalNumBits ib < ib_bitPos ib + ucast (n::u32)"
    and "ib_bitPos ib' = ib_bitPos ib + ucast n" "ib_totalNumBits ib' = ib_totalNumBits ib"
  shows "reader_at (ib_left ib - unat n) ib'" "unat n \<le> ib_left ib"
proof -
  note B = bitPos_step [OF assms(1), of n]
  show "unat n \<le> ib_left ib" using assms(2) B(2) by simp
  show "reader_at (ib_left ib - unat n) ib'"
    using assms B(1) by (simp add: reader_at_def ib_wf_def ib_left_def not_less)
qed

definition moved :: "nat \<Rightarrow> u32 \<Rightarrow> bool \<times> InputBuffer \<Rightarrow> bool" where
  "moved k n = (\<lambda>(ok, ib). ib_wf ib \<and> ib_left ib \<le> k \<and> (ok \<longrightarrow> ib_left ib + unat n = k))"

lemma advanceNumBits_ends:
  assumes "ib_wf ib"
  shows "outcome (moved (ib_left ib) n) (c49f5b0d_advanceNumBits st ib n)"
proof (cases "ib_totalNumBits ib < ib_bitPos ib + ucast n")
  case True
  then show ?thesis using assms by (simp add: c49f5b0d_advanceNumBits_def moved_def)
next
  case False
  have m: "moved (ib_left ib) n (ok, ib')"
    if "ib_bitPos ib' = ib_bitPos ib + ucast n" "ib_totalNumBits ib' = ib_totalNumBits ib" for ok ib'
    using moved_reader [OF assms False that] by (auto simp: moved_def reader_at_def)
  from False show ?thesis
    unfolding c49f5b0d_advanceNumBits_def Let_def
    by (auto intro!: outcome_bnd [OF next_offset_ends] m split: option.splits)
qed

lemma useNumBits_ends:
  assumes "ib_wf ib"
  shows "outcome (moved (ib_left ib) n) (c49f5b0d_useNumBits st ib n)"
proof (cases "ib_totalNumBits ib < ib_bitPos ib + ucast n")
  case True
  then show ?thesis using assms by (simp add: c49f5b0d_useNumBits_def moved_def)
next
  case False
  have m: "moved (ib_left ib) n (ok, ib')"
    if "ib_bitPos ib' = ib_bitPos ib + ucast n" "ib_totalNumBits ib' = ib_totalNumBits ib" for ok ib'
    using moved_reader [OF assms False that] by (auto simp: moved_def reader_at_def)
  from False show ?thesis
    unfolding c49f5b0d_useNumBits_def Let_def
    by (auto intro!: outcome_bnd [OF next_offset_ends] outcome_bnd [OF read_bits_ends] m split: option.splits)
qed

subsection \<open>Decoders\<close>

lemma huffmanDecode_ends:
  "outcome (\<lambda>r. case r of None \<Rightarrow> True | Some (symbol, n) \<Rightarrow> 0 < unat n \<and> unat n < 65536)
     (f173ab5a_huffmanDecode ib decoder)"
proof -
  let ?P = "\<lambda>r. case r of None \<Rightarrow> True | Some (symbol :: u16, n :: u64) \<Rightarrow> 0 < unat n \<and> unat n < 65536"
  have long: "outcome ?P (long_word decoder v ls)" if "\<forall>l \<in> set ls. 0 < l \<and> l < 65536" for v ls
    using that
    by (induction ls) (auto intro!: outcome_bnd [OF access_ends(1)] simp: unat_of_nat)
  have u: "unat (ucast len :: u64) = unat len" for len :: u16
  proof -
    have "unat len < 2 ^ LENGTH(16)" by (rule unsigned_less)
    then show ?thesis by (simp add: unsigned_ucast_eq take_bit_nat_eq_self)
  qed
  have lt: "unat len < 65536" for len :: u16
    using unsigned_less [of len] by simp
  have pos: "0 < unat len" if "len \<noteq> 0" for len :: u16
    using that by (simp add: unat_gt_0)
  show ?thesis
    unfolding f173ab5a_huffmanDecode_def Let_def
    by (auto intro!: outcome_bnd [OF access_ends(1)] long simp: u lt pos MAX_HUFFMAN_BITS_def
        HUFFMAN_LOOKUP_TABLE_BITS_def simp del: upt_Suc)
qed

lemma table_insert_ends [outcomes]: "ends (table_insert table symbol len codeword)"
  unfolding table_insert_def Let_def by (auto intro!: outcome_fold access_ends)

lemma initHuffmanDecoder_ends [outcomes]: "ends (f173ab5a_initHuffmanDecoder a n)"
proof -
  have 1: "ends (count_step a c i)" for c i
    unfolding count_step_def by (auto intro!: outcome_bnd [OF access_ends(1)] access_ends)
  have 2: "ends (code_step counts s l)" for counts s l
    unfolding code_step_def Let_def
    by (auto intro!: outcome_bnd [OF access_ends(1)] outcome_bnd [OF access_ends(2)] split: prod.split)
  have 3: "ends (symbol_step a s i)" for s i
    unfolding symbol_step_def Let_def
    by (auto intro!: outcome_bnd [OF access_ends(1)] outcome_bnd [OF access_ends(2)]
        outcome_bnd [OF table_insert_ends] split: prod.split)
  show ?thesis
    unfolding f173ab5a_initHuffmanDecoder_def
    by (auto intro!: ends_bnd ends_fold access_ends 1 2 3 split: prod.split)
qed

subsection \<open>Steps of the decompressor\<close>

abbreviation left :: "Inflate \<Rightarrow> nat" where "left i \<equiv> ib_left (in_inputBuffer i)"

definition sound :: "Inflate \<Rightarrow> bool" where
  "sound i \<longleftrightarrow> ib_wf (in_inputBuffer i) \<and> unat (ob_length (in_outputBuffer i)) \<le> 32768"

text \<open>Nothing but the window and the status has changed.\<close>

definition same_place :: "Inflate \<Rightarrow> Inflate \<Rightarrow> bool" where
  "same_place i i' \<longleftrightarrow> (sound i \<longrightarrow> sound i') \<and> left i' = left i \<and> in_outputBuffer i' = in_outputBuffer i"

definition moves :: "Inflate \<Rightarrow> nat \<Rightarrow> bool \<times> Inflate \<Rightarrow> bool" where
  "moves i n = (\<lambda>(ok, i'). sound i' \<and> in_outputBuffer i' = in_outputBuffer i \<and> left i' \<le> left i \<and>
     (ok \<longrightarrow> left i' + n = left i))"

lemma same_place_drop_bits [simp]: "same_place i (drop_bits n i)"
  by (simp add: same_place_def sound_def drop_bits_def)

lemma same_place_trans: "same_place i j \<Longrightarrow> same_place j k \<Longrightarrow> same_place i k"
  by (simp add: same_place_def)

lemma get_bits_ends: "outcome (same_place i) (get_bits st i)"
  unfolding get_bits_def c49f5b0d_getNextBits_def
  by (auto intro!: outcome_bnd [OF outcome_bnd [OF read_bits_ends, where Q = "\<lambda>ib. \<exists>w. ib = (in_inputBuffer i)\<lparr>ib_bits := w\<rparr>"]]
      simp: same_place_def sound_def)

lemma use_bits_ends: "sound i \<Longrightarrow> outcome (moves i (unat n)) (use_bits st i n)"
  unfolding use_bits_def
  by (rule outcome_bnd [OF useNumBits_ends]) (auto simp: sound_def moved_def moves_def)

lemma advance_bits_ends:
  assumes "sound i" and "unat n < 2 ^ 32"
  shows "outcome (moves i (unat n)) (advance_bits st i n)"
proof -
  have "unat (ucast n :: u32) = unat n"
    using assms(2) by (simp add: unsigned_ucast_eq take_bit_nat_eq_self)
  then show ?thesis
    unfolding advance_bits_def using assms(1)
    by (intro outcome_bnd [OF advanceNumBits_ends]) (auto simp: sound_def moved_def moves_def)
qed

lemma decode_symbol_ends:
  assumes "\<forall>k. n = Some k \<longrightarrow> unat k < 65536"
  shows "outcome (\<lambda>(symbol, n, i'). same_place i i' \<and> unat n < 65536 \<and> (symbol \<noteq> None \<longrightarrow> 0 < unat n))
     (decode_symbol decoder i n)"
  unfolding decode_symbol_def
  by (rule outcome_bnd [OF huffmanDecode_ends]) (use assms in \<open>auto split: option.splits\<close>)

subsection \<open>Back references\<close>

lemma litlen_tbl_bounds: "rd litlen_tbl i = Inr (base, e) \<Longrightarrow> unat base \<le> 258 \<and> unat e \<le> 5"
proof -
  assume "rd litlen_tbl i = Inr (base, e)"
  then have "Some (base, e) \<in> set litlen_tbl" by (metis rd_eq_Inr nth_mem)
  then show ?thesis unfolding litlen_tbl_def by auto
qed

lemma dist_tbl_bounds: "rd dist_tbl i = Inr (base, e) \<Longrightarrow> unat base \<le> 24577 \<and> unat e \<le> 13"
proof -
  assume "rd dist_tbl i = Inr (base, e)"
  then have "Some (base, e) \<in> set dist_tbl" by (metis rd_eq_Inr nth_mem)
  then show ?thesis unfolding dist_tbl_def by auto
qed

lemma low_bits_bound: "e < 64 \<Longrightarrow> unat (low_bits i (push_bit e 1 - 1)) < 2 ^ e"
proof -
  assume e: "e < 64"
  have "low_bits i (push_bit e 1 - 1) = take_bit e (ib_bits (in_inputBuffer i))"
    by (simp add: low_bits_def take_bit_eq_mask mask_eq_exp_minus_1 push_bit_eq_mult)
  then show ?thesis by (simp add: unsigned_take_bit_eq)
qed

lemma extra_ends:
  assumes "extra i base e used = (v, i', used')" and "e \<le> 13" and "unat base < 65536" and "unat used < 2 ^ 31"
  shows "same_place i i'" "unat v < unat base + 2 ^ e" "unat used' = unat used + e"
proof -
  have u: "unat (used + of_nat e) = unat used + e" using assms(2,4)
    by (subst unat_plus_fits) (simp_all add: unat_of_nat)
  have p: "(2::nat) ^ e \<le> 2 ^ 13" using assms(2) by (intro power_increasing) auto
  have b: "unat (low_bits i (push_bit e 1 - 1)) < 2 ^ e" using assms(2) by (intro low_bits_bound) auto
  then have v: "unat (base + low_bits i (push_bit e 1 - 1)) = unat base + unat (low_bits i (push_bit e 1 - 1))"
    using assms(3) p by (intro unat_plus_fits) simp
  show "same_place i i'" using assms(1) by (auto simp: extra_def same_place_def sound_def drop_bits_def split: if_splits)
  show "unat v < unat base + 2 ^ e" "unat used' = unat used + e"
    using assms(1) u v b by (auto simp: extra_def split: if_splits)
qed

lemma unat_and_minus8: "unat ((w::u64) AND (- 8)) = 8 * (unat w div 8)"
proof -
  have m: "(- 8 :: u64) = NOT (mask 3)" by (simp add: mask_eq_exp_minus_1 not_eq_complement)
  have "w AND (- 8) = push_bit 3 (drop_bit 3 w)"
    unfolding m by (rule bit_word_eqI) (auto simp: bit_simps)
  moreover have "unat (drop_bit 3 w) = drop_bit 3 (unat w)" by (rule unat_drop_bit_eq)
  moreover have "drop_bit 3 (unat w) = unat w div 8" by (simp add: drop_bit_eq_div)
  moreover have "unat w div 8 * 8 < 2 ^ 64" using unat_u64_lt [of w] by simp
  ultimately show ?thesis by (simp add: push_bit_eq_mult unat_word_ariths)
qed

lemma round_up_8: "unat x + 7 < 2 ^ 64 \<Longrightarrow> unat (round_up x 8) = 8 * ((unat x + 7) div 8)"
proof -
  assume "unat x + 7 < 2 ^ 64"
  then have "unat (x + 7) = unat x + 7" by (subst unat_plus_fits) simp_all
  moreover have "round_up x 8 = (x + 7) AND (- 8)" by (simp add: round_up_def add.commute)
  ultimately show ?thesis using unat_and_minus8 [of "x + 7"] by simp
qed

lemma copies_end [outcomes]:
  "ends (slab_put st p slab)" "ends (lz77_output_backref st ob dist len)" "ends (output_backref64 st ob dist len)"
  "ends (put_byte st ob x)"
  unfolding slab_put_def lz77_output_backref_def output_backref64_def put_byte_def copy_step_def f668c4bd_memcopy_def
  by (auto intro!: ends_bnd ends_fold access_ends fb_ends)

text \<open>What a round of the loop over literals and back references leaves behind.\<close>

definition lit_round :: "Inflate \<Rightarrow> 'z lit_state + 'z outcome \<Rightarrow> bool" where
  "lit_round i x = (case x of
     Inl (i', st, n) \<Rightarrow> sound i' \<and> left i' < left i \<and> (\<forall>k. n = Some k \<longrightarrow> unat k < 65536)
   | Inr (ok, i', st) \<Rightarrow> sound i' \<and> left i' \<le> left i)"

lemma stop_round: "sound i' \<Longrightarrow> left i' \<le> left i \<Longrightarrow> outcome (lit_round i) (stop ok s i' st)"
  by (simp add: stop_def lit_round_def sound_def)

lemma room_word:
  assumes "sound i"
  shows "unat (ucast (INFLATE_OUTPUT_LENGTH - ob_length (in_outputBuffer i)) :: u64) =
    32768 - unat (ob_length (in_outputBuffer i))"
proof -
  have "unat (INFLATE_OUTPUT_LENGTH - ob_length (in_outputBuffer i)) = 32768 - unat (ob_length (in_outputBuffer i))"
    using assms by (simp add: sound_def INFLATE_OUTPUT_LENGTH_def unat_minus_fits word_le_nat_alt)
  then show ?thesis by (simp add: unsigned_ucast_eq take_bit_nat_eq_self)
qed

lemma grow_sound:
  assumes "sound i" and "unat (ob_length (in_outputBuffer i)) + unat n \<le> 32768"
  shows "sound (grow_output i n)" "unat (ob_length (in_outputBuffer (grow_output i n))) =
    unat (ob_length (in_outputBuffer i)) + unat n"
proof -
  have "unat (ucast n :: u32) = unat n" using assms(2) by (simp add: unsigned_ucast_eq take_bit_nat_eq_self)
  then have "unat (ob_length (in_outputBuffer i) + ucast n) = unat (ob_length (in_outputBuffer i)) + unat n"
    using assms(2) by (subst unat_plus_fits) simp_all
  then show "sound (grow_output i n)" "unat (ob_length (in_outputBuffer (grow_output i n))) =
    unat (ob_length (in_outputBuffer i)) + unat n"
    using assms by (simp_all add: sound_def grow_output_def)
qed

lemma write_backref_ends:
  assumes "sound i'" and "left i' < left i" and "unat len < 1024" and "\<forall>k. n = Some k \<longrightarrow> unat k < 65536"
  shows "outcome (lit_round i) (write_backref st i' dist len n)"
proof -
  have grown: "lit_round i (Inl (grow_output i' len, st', n))"
    if "unat len \<le> 32768 - unat (ob_length (in_outputBuffer i'))" for st'
  proof -
    have "unat (ob_length (in_outputBuffer i')) + unat len \<le> 32768" using that assms(1) unfolding sound_def by linarith
    from grow_sound(1) [OF assms(1) this] assms(2,4) show ?thesis by (simp add: lit_round_def grow_output_def)
  qed
  have "unat len + 7 < 2 ^ 64" using assms(3) by simp
  then have r: "unat len \<le> unat (round_up len 8)" by (simp add: round_up_8)
  show ?thesis
    unfolding write_backref_def Let_def
    using assms(1,2) r
    by (auto intro!: outcome_bnd [OF copies_end(2)] outcome_bnd [OF copies_end(3)] grown stop_round
        simp: word_le_nat_alt room_word [OF assms(1)])
qed

lemma backref_step_ends:
  assumes i: "sound i'" "left i' = left i" and n: "unat n < 65536" "0 < unat n"
  shows "outcome (lit_round i) (backref_step distDecoder litlen st i' n)"
  unfolding backref_step_def
proof (rule outcome_bnd [where P = "\<lambda>(base, e). unat base \<le> 258 \<and> unat e \<le> 5"], goal_cases)
  case 1
  show ?case by (rule rd_outcome) (use litlen_tbl_bounds in auto)
next
  case (2 x)
  then obtain base e where x: "x = (base, e)" "unat base \<le> 258" "unat e \<le> 5" by auto
  have uc: "unat (ucast base :: u64) = unat base"
    using x(2) by (simp add: unsigned_ucast_eq take_bit_nat_eq_self)
  obtain len i1 t1 where E: "extra i' (ucast base) (unat e) n = (len, i1, t1)" by (metis surj_pair)
  note E' = extra_ends [OF E]
  have p5: "(2::nat) ^ unat e \<le> 2 ^ 5" using x(3) by (intro power_increasing) auto
  have e1: "same_place i' i1" "unat len < 1024" "unat t1 = unat n + unat e"
    using E' x uc n(1) p5 by auto
  have "outcome (lit_round i)
     (bnd (decode_symbol distDecoder i1 (Some n)) (\<lambda>(distSymbol, numBitsUsed, inflate).
        let totalBitsUsed = t1 + numBitsUsed
        in case distSymbol of None \<Rightarrow> stop False INFLATE_INPUT_ERROR inflate st
           | Some distSymbol \<Rightarrow>
               if DISTSYM_MAX < distSymbol then stop False INFLATE_INPUT_ERROR inflate st
               else
                 bnd (rd dist_tbl (unat distSymbol)) (\<lambda>(baseDist, extraBits).
                 let (dist, inflate, totalBitsUsed) = extra inflate (ucast baseDist) (unat extraBits) totalBitsUsed
                 in bnd (advance_bits st inflate totalBitsUsed) (\<lambda>(ok, inflate).
                    if \<not> ok then stop False INFLATE_NEED_INPUT inflate st
                    else write_backref st inflate dist len (Some numBitsUsed)))))"
  proof (rule outcome_bnd [OF decode_symbol_ends], goal_cases)
    case 1
    then show ?case using n by simp
  next
    case (2 y)
    then obtain s n2 i2 where y: "y = (s, n2, i2)" "same_place i1 i2" "unat n2 < 65536" by auto
    have t: "unat (t1 + n2) = unat t1 + unat n2" using e1(3) y(3) n(1) x(3) by (intro unat_plus_fits) simp
    have i2: "sound i2" "left i2 = left i" using i e1(1) y(2) by (auto simp: same_place_def)
    have "outcome (lit_round i) (bnd (rd dist_tbl (unat d)) (\<lambda>(baseDist, extraBits).
                 let (dist, inflate, totalBitsUsed) = extra i2 (ucast baseDist) (unat extraBits) (t1 + n2)
                 in bnd (advance_bits st inflate totalBitsUsed) (\<lambda>(ok, inflate).
                    if \<not> ok then stop False INFLATE_NEED_INPUT inflate st
                    else write_backref st inflate dist len (Some n2))))" for d :: u16
    proof (rule outcome_bnd [where P = "\<lambda>(base, e). unat base \<le> 24577 \<and> unat e \<le> 13"], goal_cases)
      case 1
      show ?case by (rule rd_outcome) (use dist_tbl_bounds in auto)
    next
      case (2 z)
      then obtain db de where z: "z = (db, de)" "unat db \<le> 24577" "unat de \<le> 13" by auto
      have uc2: "unat (ucast db :: u64) = unat db"
        using z(2) by (simp add: unsigned_ucast_eq take_bit_nat_eq_self)
      obtain dist i3 t3 where D: "extra i2 (ucast db) (unat de) (t1 + n2) = (dist, i3, t3)" by (metis surj_pair)
      have d: "same_place i2 i3" "unat t3 = unat (t1 + n2) + unat de"
        using extra_ends [OF D] z uc2 t e1(3) x(3) n(1) y(3) by auto
      have i3: "sound i3" "left i3 = left i" using i2 d(1) by (auto simp: same_place_def)
      have t3: "unat t3 < 2 ^ 32" "0 < unat t3" using d(2) t e1(3) x(3) n y(3) z(3) by auto
      have "outcome (lit_round i) (bnd (advance_bits st i3 t3) (\<lambda>(ok, inflate).
                    if \<not> ok then stop False INFLATE_NEED_INPUT inflate st
                    else write_backref st inflate dist len (Some n2)))"
        by (rule outcome_bnd [OF advance_bits_ends [OF i3(1) t3(1)]])
          (use i3 t3 e1(2) y(3) in \<open>auto simp: moves_def intro!: stop_round write_backref_ends\<close>)
      then show ?case using z D by simp
    qed
    then show ?case using y i2 by (auto simp: Let_def intro!: stop_round split: option.split)
  qed
  then show ?case using x E by simp
qed

lemma literal_backref_step_ends:
  assumes i: "sound i" and n: "\<forall>k. n = Some k \<longrightarrow> unat k < 65536"
  shows "outcome (lit_round i) (literal_backref_step litlenDecoder distDecoder (i, st, n))"
  unfolding literal_backref_step_def prod.case
proof (rule outcome_bnd [OF get_bits_ends], rule outcome_bnd [OF decode_symbol_ends [OF n]], goal_cases)
  case (1 i1 y)
  then obtain s k i2 where y: "y = (s, k, i2)" "sound i2" "left i2 = left i" "unat k < 65536"
    "s \<noteq> None \<longrightarrow> 0 < unat k"
    using i by (auto simp: same_place_def)
  have k: "unat k < 2 ^ 32" using y(4) by simp
  show ?case
  proof (cases s)
    case None
    then show ?thesis using y by (simp add: stop_round)
  next
    case (Some litlen)
    have eob: "outcome (lit_round i) (bnd (advance_bits st i2 k) (\<lambda>(ok, inflate).
        if \<not> ok then stop False INFLATE_NEED_INPUT inflate st else stop True INFLATE_SUCCESS inflate st))"
      by (rule outcome_bnd [OF advance_bits_ends [OF y(2) k]])
        (use y(3) in \<open>auto simp: moves_def intro!: stop_round\<close>)
    have grown: "lit_round i (Inl (grow_output i3 1, st', Some k))"
      if "sound i3" "ob_length (in_outputBuffer i3) \<noteq> INFLATE_OUTPUT_LENGTH" "left i3 < left i" for i3 st'
    proof -
      have "unat (ob_length (in_outputBuffer i3)) \<noteq> 32768"
        using that(2) by (auto simp: INFLATE_OUTPUT_LENGTH_def word_unat_eq_iff)
      then have "sound (grow_output i3 1)" using that(1) by (intro grow_sound) (simp_all add: sound_def)
      then show ?thesis using that(3) y(4) by (simp add: lit_round_def grow_output_def)
    qed
    have lit: "outcome (lit_round i) (bnd (advance_bits st i2 k) (\<lambda>(ok, inflate).
           if \<not> ok then stop False INFLATE_NEED_INPUT inflate st
           else if ob_length (in_outputBuffer inflate) = INFLATE_OUTPUT_LENGTH
           then stop False INFLATE_OUTPUT_FULL inflate st
           else bnd (put_byte st (in_outputBuffer inflate) (ucast litlen)) (\<lambda>st.
                Inr (Inl (grow_output inflate 1, st, Some k)))))"
      by (rule outcome_bnd [OF advance_bits_ends [OF y(2) k]])
        (use y(3,5) Some in \<open>auto simp: moves_def intro!: stop_round outcome_bnd [OF copies_end(4)] grown\<close>)
    have "0 < unat k" using y(5) Some by simp
    then show ?thesis
      using Some y(1-4) eob lit backref_step_ends [OF y(2,3,4), of distDecoder litlen st] by (simp add: stop_round)
  qed
qed

lemma processLiteralBackrefBlock_ends:
  assumes "sound i"
  shows "outcome (\<lambda>(ok, i', st'). sound i' \<and> left i' \<le> left i) (processLiteralBackrefBlock st i litlenDecoder distDecoder)"
  unfolding processLiteralBackrefBlock_def
proof (rule outcome_loop [where m = "\<lambda>(i', st, n). left i'"
      and P = "\<lambda>(i', st, n). sound i' \<and> left i' \<le> left i \<and> (\<forall>k. n = Some k \<longrightarrow> unat k < 65536)"], goal_cases)
  case (2 s)
  obtain i' st' n where s: "s = (i', st', n)" by (cases s)
  with 2 literal_backref_step_ends [of i' n litlenDecoder distDecoder st'] show ?case
    by (auto simp: lit_round_def elim!: outcome_weaken split: sum.splits)
qed (use assms in simp)

subsection \<open>Dynamic blocks\<close>

definition behind :: "Inflate \<Rightarrow> 'a \<times> Inflate \<Rightarrow> bool" where
  "behind i x \<longleftrightarrow> sound (snd x) \<and> left (snd x) \<le> left i"

lemma codelen_loop_ends: "sound i \<Longrightarrow> outcome (behind i) (codelen_loop st is i a)"
proof (induction "is" arbitrary: i a)
  case (Cons k ks)
  have rest: "outcome (behind i) (codelen_loop st ks (drop_bits 3 i1) a)" if "sound i1" "left i1 \<le> left i" for i1 a
  proof (rule outcome_weaken [OF Cons.IH])
    show "sound (drop_bits 3 i1)" using that(1) by (simp add: sound_def drop_bits_def)
  qed (use that in \<open>auto simp: behind_def drop_bits_def\<close>)
  have stopped: "behind i (None :: u8 block option, i1\<lparr>in_status := s\<rparr>)" if "sound i1" "left i1 \<le> left i" for i1 s
    using that by (simp add: behind_def sound_def)
  show ?case
    unfolding codelen_loop.simps
    by (rule outcome_bnd [OF use_bits_ends [OF Cons.prems]])
      (auto simp: moves_def intro!: outcome_bnd [OF access_ends(1)] outcome_bnd [OF access_ends(2)] rest stopped)
qed (simp add: behind_def)

definition len_round :: "Inflate \<Rightarrow> len_state + len_outcome \<Rightarrow> bool" where
  "len_round i x = (case x of
     Inl (k, a, i', n) \<Rightarrow> sound i' \<and> left i' < left i \<and> (\<forall>k. n = Some k \<longrightarrow> unat k < 65536)
   | Inr r \<Rightarrow> behind i r)"

lemma len_fail_round: "sound i' \<Longrightarrow> left i' \<le> left i \<Longrightarrow> outcome (len_round i) (len_fail s i')"
  by (simp add: len_fail_def len_round_def behind_def sound_def)

lemma len_run_ends:
  assumes "sound i'" and "left i' < left i" and "unat n < 2 ^ 32" and "unat k < 65536"
    and "\<And>i j a. ends (put i j a)"
  shows "outcome (len_round i) (len_run st i' n low least put p a k)"
  unfolding len_run_def Let_def
  by (rule outcome_bnd [OF advance_bits_ends [OF assms(1,3)]])
    (use assms(2,4) in \<open>auto simp: moves_def len_round_def intro!: len_fail_round outcome_bnd [OF assms(5)]\<close>)

lemma fills_end [outcomes]: "ends (put_lens x i j a)" "ends (copy_lens i j a)"
  unfolding put_lens_def copy_lens_def by (auto intro!: ends_fold ends_bnd access_ends)

lemma len_step_ends:
  assumes i: "sound i" and n: "\<forall>k. n = Some k \<longrightarrow> unat k < 65536"
  shows "outcome (len_round i) (len_step st numLens decoder (p, a, i, n))"
proof (cases "p < numLens")
  case False
  then show ?thesis using i by (simp add: len_step_def len_round_def behind_def)
next
  case True
  have "outcome (len_round i) (bnd (get_bits st i) (\<lambda>inflate.
       bnd (decode_symbol decoder inflate n) (\<lambda>(symbol, numBitsUsed, inflate).
       bnd (advance_bits st inflate numBitsUsed) (\<lambda>(ok, inflate).
       if \<not> ok then len_fail INFLATE_NEED_INPUT inflate
       else case symbol of None \<Rightarrow> len_fail INFLATE_INPUT_ERROR inflate
       | Some symbol \<Rightarrow>
           if symbol \<le> CODELEN_MAX_LIT then
             bnd (wr a p (ucast symbol)) (\<lambda>codeLengthArray.
             Inr (Inl (p + 1, codeLengthArray, inflate, Some numBitsUsed)))
           else if symbol = CODELEN_COPY then
             len_run st inflate 2 0x03 CODELEN_COPY_MIN copy_lens p a numBitsUsed
           else if symbol = CODELEN_ZEROS then
             len_run st inflate 3 0x07 CODELEN_ZEROS_MIN (put_lens 0) p a numBitsUsed
           else if symbol = CODELEN_ZEROS2 then
             len_run st inflate 7 0x7F CODELEN_ZEROS2_MIN (put_lens 0) p a numBitsUsed
           else len_fail INFLATE_INPUT_ERROR inflate))))"
  proof (rule outcome_bnd [OF get_bits_ends], rule outcome_bnd [OF decode_symbol_ends [OF n]], goal_cases)
    case (1 i1 y)
    then obtain s k i2 where y: "y = (s, k, i2)" "sound i2" "left i2 = left i" "unat k < 65536"
      "s \<noteq> None \<longrightarrow> 0 < unat k"
      using i by (auto simp: same_place_def)
    have k: "unat k < 2 ^ 32" using y(4) by simp
    show ?case
      unfolding y(1) prod.case
      by (rule outcome_bnd [OF advance_bits_ends [OF y(2) k]])
        (use y(3-5) in \<open>auto simp: moves_def len_round_def split: option.split
          intro!: len_fail_round len_run_ends fills_end outcome_bnd [OF access_ends(2)]\<close>)
  qed
  then show ?thesis using True by (simp add: len_step_def)
qed

lemma len_loop_ends:
  assumes "sound i"
  shows "outcome (behind i) (repeat_until (len_step st numLens decoder) (0, a, i, None))"
proof (rule outcome_loop [where m = "\<lambda>(p, a, i', n). left i'"
      and P = "\<lambda>(p, a, i', n). sound i' \<and> left i' \<le> left i \<and> (\<forall>k. n = Some k \<longrightarrow> unat k < 65536)"], goal_cases)
  case (2 s)
  obtain p a i' n where s: "s = (p, a, i', n)" by (cases s)
  with 2 len_step_ends [of i' n st numLens decoder p a] show ?case
    by (auto simp: len_round_def behind_def elim!: outcome_weaken split: sum.splits)
qed (use assms in simp)

lemma read_count_behind:
  assumes "read_count i low least n most = (r, i')" and "sound i"
  shows "sound i'" "left i' = left i"
  using assms by (auto simp: read_count_def Let_def sound_def drop_bits_def split: if_splits)

lemma count_then_behind:
  assumes "sound i1" and "left i1 \<le> left i"
    and "\<And>num i'. sound i' \<Longrightarrow> left i' \<le> left i \<Longrightarrow> outcome (behind i) (f num i')"
  shows "outcome (behind i) (case read_count i1 low least n most of
    (None, i') \<Rightarrow> Inr (None, i') | (Some num, i') \<Rightarrow> f num i')"
proof -
  obtain r i' where r: "read_count i1 low least n most = (r, i')" by (cases "read_count i1 low least n most")
  with read_count_behind [OF r assms(1)] assms show ?thesis by (cases r) (simp_all add: behind_def)
qed

lemma behind_trans: "left j \<le> left i \<Longrightarrow> outcome (behind j) r \<Longrightarrow> outcome (behind i) r"
  by (erule outcome_weaken) (auto simp: behind_def)

lemma behind_status: "sound i' \<Longrightarrow> left i' \<le> left i \<Longrightarrow> behind i (x, i'\<lparr>in_status := s\<rparr>)"
  by (simp add: behind_def sound_def)

lemma initDynamicDecoder_ends:
  assumes "sound i"
  shows "outcome (behind i) (initDynamicDecoder st i)"
proof -
  have lens: "outcome (behind i) (bnd (codelen_loop st [0..<c] i1 (fresh MAX_CODELEN_LENS)) (\<lambda>(codelens, inflate).
         case codelens of None \<Rightarrow> Inr (None, inflate)
         | Some codelenLengthArray \<Rightarrow>
             bnd (fold_result (\<lambda>a i. bnd (rd codelenLengthsOrder i) (\<lambda>k. wr a k 0)) codelenLengthArray
                    [c..<MAX_CODELEN_LENS]) (\<lambda>codelenLengthArray.
             bnd (f173ab5a_initHuffmanDecoder codelenLengthArray MAX_CODELEN_LENS) (\<lambda>codelenDecoder.
             bnd (repeat_until (len_step st (l + d) codelenDecoder)
                    (0, fresh (MAX_LITLEN_LENS + MAX_DIST_LENS), inflate, None)) (\<lambda>(lens, inflate).
             case lens of None \<Rightarrow> Inr (None, inflate)
             | Some codeLengthArray \<Rightarrow>
                 bnd (f173ab5a_initHuffmanDecoder codeLengthArray l) (\<lambda>litlenDecoder.
                 bnd (f173ab5a_initHuffmanDecoder (drop l codeLengthArray) d) (\<lambda>distDecoder.
                 Inr (Some (litlenDecoder, distDecoder), inflate))))))))"
    if "sound i1" "left i1 \<le> left i" for i1 l d c
  proof (rule outcome_bnd [OF codelen_loop_ends [OF that(1)]], goal_cases)
    case (1 x)
    obtain a i2 where x: "x = (a, i2)" by (cases x)
    with 1 that(2) have i2: "sound i2" "left i2 \<le> left i" by (auto simp: behind_def)
    have b: "behind i (a, i3)" if "behind i2 (a', i3)"
      for i3 and a :: "(HuffmanDecoder \<times> HuffmanDecoder) option" and a' :: "u8 block option"
      using that i2 by (simp add: behind_def)
    have f: "ends (bnd (rd codelenLengthsOrder j) (\<lambda>k. wr b k 0))" for b :: "u8 block" and j
      by (auto intro!: ends_bnd access_ends)
    show ?case
      unfolding x prod.case using i2
      by (auto simp: behind_def intro!: outcome_bnd [OF ends_fold [OF f]] outcome_bnd [OF initHuffmanDecoder_ends]
          outcome_bnd [OF len_loop_ends [OF i2(1)]] split: option.split)
  qed
  show ?thesis
    unfolding initDynamicDecoder_def
  proof (rule outcome_bnd [OF use_bits_ends [OF assms]], goal_cases)
    case (1 x)
    obtain ok i1 where x: "x = (ok, i1)" "sound i1" "left i1 \<le> left i" using 1 by (cases x) (auto simp: moves_def)
    show ?case
    proof (cases ok)
      case True
      then show ?thesis unfolding x(1) prod.case
        using x(2,3) by (simp only: not_True_eq_False if_False) (intro count_then_behind lens)
    next
      case False
      then show ?thesis using x by (simp add: behind_status)
    qed
  qed
qed

lemma processDynamicDeflateBlock_ends:
  assumes "sound i"
  shows "outcome (\<lambda>(ok, i', st'). sound i' \<and> left i' \<le> left i) (processDynamicDeflateBlock st i)"
  unfolding processDynamicDeflateBlock_def
proof (rule outcome_bnd [OF initDynamicDecoder_ends [OF assms]], goal_cases)
  case (1 x)
  obtain ds i1 where x: "x = (ds, i1)" "sound i1" "left i1 \<le> left i" using 1 by (cases x) (auto simp: behind_def)
  have "outcome (\<lambda>(ok, i', st'). sound i' \<and> left i' \<le> left i) (processLiteralBackrefBlock st i1 l d)" for l d
    by (rule outcome_weaken [OF processLiteralBackrefBlock_ends [OF x(2)]]) (use x(3) in auto)
  then show ?case using x by (auto split: option.split)
qed

subsection \<open>All blocks\<close>

definition block_round :: "Inflate \<Rightarrow> Inflate \<times> 'z fb_state_scheme + 'z outcome \<Rightarrow> bool" where
  "block_round i x = (case x of Inl (i', st) \<Rightarrow> sound i' \<and> left i' < left i
     | Inr (ok, i', st') \<Rightarrow> sound i' \<and> left i' \<le> left i)"

lemma block_stop: "sound i' \<Longrightarrow> left i' \<le> left i \<Longrightarrow> outcome (block_round i) (stop ok s i' st)"
  by (simp add: stop_def block_round_def sound_def)

lemma block_rest:
  assumes "outcome (\<lambda>(ok, i', st'). sound i' \<and> left i' < left i) r"
  shows "outcome (block_round i) (bnd r (\<lambda>(okStatus, inflate, st).
    if okStatus then (if final then stop True INFLATE_SUCCESS inflate st else Inr (Inl (inflate, st)))
    else Inr (Inr (False, inflate, st))))"
proof (rule outcome_bnd [OF assms], goal_cases)
  case (1 x)
  obtain okStatus i' st where x: "x = (okStatus, i', st)" by (cases x)
  have "outcome (block_round i) (stop True INFLATE_SUCCESS i' st)" if "sound i'" "left i' < left i"
    using that by (intro block_stop) auto
  then show ?case using 1 x by (auto simp: block_round_def)
qed

lemma block_step_ends:
  assumes "sound j"
  shows "outcome (block_round j) (block_step (j, st))"
  unfolding block_step_def prod.case
proof (rule outcome_bnd [OF use_bits_ends [OF assms]], goal_cases)
  case (1 x)
  obtain ok i1 where x: "x = (ok, i1)" "sound i1" "left i1 \<le> left j" "ok \<longrightarrow> left i1 + 3 = left j"
    using 1 by (cases x) (auto simp: moves_def)
  have d: "sound (drop_bits 3 i1)" "left (drop_bits 3 i1) = left i1"
    using x(2) by (simp_all add: sound_def drop_bits_def)
  show ?case
  proof (cases ok)
    case True
    then have l: "left i1 < left j" using x(4) by simp
    have "outcome (\<lambda>(ok, i', st'). sound i' \<and> left i' < left j) (processDynamicDeflateBlock st (drop_bits 3 i1))"
      by (rule outcome_weaken [OF processDynamicDeflateBlock_ends [OF d(1)]]) (use d(2) l in auto)
    then show ?thesis
      using x(1,2) True d l by (auto simp: Let_def processNonCompressionBlock_def processFixedDeflateBlock_def
          intro!: block_stop block_rest simp del: bnd_Inr)
  next
    case False
    then show ?thesis using x by (simp add: block_stop)
  qed
qed

lemma inflate_ends:
  assumes "sound i"
  shows "outcome (\<lambda>(ok, i', st'). sound i' \<and> left i' \<le> left i) (d592eb82_inflate st i)"
  unfolding d592eb82_inflate_def
proof (rule outcome_loop [where m = "\<lambda>(i', st). left i'" and P = "\<lambda>(i', st). sound i' \<and> left i' \<le> left i"], goal_cases)
  case (2 s)
  obtain j st' where s: "s = (j, st')" by (cases s)
  with 2 block_step_ends [of j st'] show ?case
    by (auto simp: block_round_def elim!: outcome_weaken split: sum.splits)
qed (use assms in simp)

subsection \<open>Properties\<close>

lemma initInflate_sound:
  assumes "d592eb82_initInflate alloc st p len = Inr (inflate, st')"
  shows "sound inflate"
proof -
  have u: "unat (ucast w :: u64) < 2 ^ 32" for w :: u32
    using unat_u32_lt [of w] by (simp add: unsigned_ucast_eq take_bit_nat_eq_self)
  from assms show ?thesis
    using u [of "push_bit 3 len"]
    by (auto simp: d592eb82_initInflate_def bnd_eq_Inr c49f5b0d_initInputBuffer_def c49f5b0d_initOutputBuffer_def
        sound_def ib_wf_def)
qed

text \<open>C31: the decompressor returns or faults, whatever the compressed file holds: no loop of it runs forever. When
  it returns, the output fits in its 32768 bytes and no more input bits were used than the file announces.\<close>

theorem inflate_terminates:
  assumes "d592eb82_initInflate alloc st fileBuffer compressSize = Inr (inflate, st1)"
  shows "d592eb82_inflate st1 inflate \<noteq> Inl NoReturn \<and>
    (\<forall>ok inflate' st2. d592eb82_inflate st1 inflate = Inr (ok, inflate', st2) \<longrightarrow>
       unat (ob_length (in_outputBuffer inflate')) \<le> 32768 \<and>
       ib_bitPos (in_inputBuffer inflate') \<le> ib_totalNumBits (in_inputBuffer inflate'))"
  using inflate_ends [OF initInflate_sound [OF assms], of st1]
  by (auto simp: outcome_def sound_def ib_wf_def split: sum.splits)

lemma inflate_terminates_witness:
  "\<exists>st inflate st1. d592eb82_initInflate (\<lambda>n. 32768 * Suc n) (st :: fb_state) (Some 8) 2 = Inr (inflate, st1) \<and>
     d592eb82_inflate st1 inflate \<noteq> Inl NoReturn"
proof -
  let ?fb = "\<lparr>fb_buffer = Some 4096, fb_next = None, fb_fileOffset = 0, fb_dataOffset = 0, fb_numBytes = 4096\<rparr>"
  let ?st = "initial_state\<lparr>fileBuffers := [8 \<mapsto> ?fb], pageBytes := [4096 \<mapsto> map Some (replicate 4096 7)]\<rparr>"
  have "\<exists>p st' free'. b426145b_acquireSlab (\<lambda>n. 32768 * Suc n) initial_pools = Inr (Some p, st') \<and>
      slab_inv (\<lambda>n. 32768 * Suc n) st' free' [p] \<and> pagePool st' = pagePool initial_pools \<and>
      memoryPool st' = memoryPool initial_pools \<and> allocCalls st' \<le> Suc (allocCalls initial_pools) \<and> p \<notin> set []"
    by (rule acquireSlab_inv)
      (rule slab_inv_initial, simp_all add: slabs_apart_def SLABPOOL_SLAB_SIZE_def initial_pools_def, arith)
  then obtain inflate st1 where "d592eb82_initInflate (\<lambda>n. 32768 * Suc n) ?st (Some 8) 2 = Inr (inflate, st1)"
    by (force simp: d592eb82_initInflate_def c49f5b0d_initInputBuffer_def c49f5b0d_initOutputBuffer_def fb_get_def
        initial_state_def)
  with inflate_terminates [OF this] show ?thesis by blast
qed

end
