(* ===== verification/Deflate.thy ===== *)
theory Deflate
  imports InflateEnds
begin

text \<open>
  The compressed format of a block, as a reference for compress/inflate.c: tokens, the bits that encode
  them under two canonical codes, and the bytes they stand for. The lengths and distances are given by
  their formulas; \<open>litlen_tbl_formula\<close> and \<open>dist_tbl_formula\<close> show that the tables of the code agree.
\<close>

subsection \<open>Tokens\<close>

text \<open>
  A literal byte, or a back reference: length symbol (less 257), value of its extra bits, distance symbol,
  value of its extra bits.
\<close>

datatype token = Literal nat | Copy nat nat nat nat

definition len_extra :: "nat \<Rightarrow> nat" where
  "len_extra k = (if k < 8 \<or> k = 28 then 0 else k div 4 - 1)"

definition len_base :: "nat \<Rightarrow> nat" where
  "len_base k = (if k < 8 then 3 + k else if k = 28 then 258 else 3 + (4 + k mod 4) * 2 ^ (k div 4 - 1))"

definition dist_extra :: "nat \<Rightarrow> nat" where
  "dist_extra k = (if k < 4 then 0 else k div 2 - 1)"

definition dist_base :: "nat \<Rightarrow> nat" where
  "dist_base k = (if k < 4 then 1 + k else 1 + (2 + k mod 2) * 2 ^ (k div 2 - 1))"

text \<open>The word of a symbol, most significant bit first; a number, least significant bit first.\<close>

definition word_bits :: "nat list \<Rightarrow> nat \<Rightarrow> bool list" where
  "word_bits ls i = map (\<lambda>k. bit (code ls i) (ls ! i - 1 - k)) [0..<ls ! i]"

definition num_bits :: "nat \<Rightarrow> nat \<Rightarrow> bool list" where
  "num_bits e v = map (bit v) [0..<e]"

fun token_bits :: "nat list \<Rightarrow> nat list \<Rightarrow> token \<Rightarrow> bool list" where
  "token_bits ls ds (Literal b) = word_bits ls b"
| "token_bits ls ds (Copy l x d y) =
     word_bits ls (257 + l) @ num_bits (len_extra l) x @ word_bits ds d @ num_bits (dist_extra d) y"

definition block_bits :: "nat list \<Rightarrow> nat list \<Rightarrow> token list \<Rightarrow> bool list" where
  "block_bits ls ds toks = concat (map (token_bits ls ds) toks) @ word_bits ls 256"

text \<open>The bytes: a back reference repeats the byte \<open>dist\<close> positions back, byte by byte.\<close>

primrec backref :: "nat \<Rightarrow> nat \<Rightarrow> u8 list \<Rightarrow> u8 list" where
  "backref dist 0 out = out"
| "backref dist (Suc n) out = backref dist n (out @ [out ! (length out - dist)])"

fun expand :: "u8 list \<Rightarrow> token \<Rightarrow> u8 list" where
  "expand out (Literal b) = out @ [of_nat b]"
| "expand out (Copy l x d y) = backref (dist_base d + y) (len_base l + x) out"

primrec expand_all :: "u8 list \<Rightarrow> token list \<Rightarrow> u8 list" where
  "expand_all out [] = out"
| "expand_all out (t # ts) = expand_all (expand out t) ts"

definition has_word :: "nat list \<Rightarrow> nat \<Rightarrow> bool" where
  "has_word ls i \<longleftrightarrow> i < length ls \<and> 0 < ls ! i"

fun valid_token :: "nat list \<Rightarrow> nat list \<Rightarrow> u8 list \<Rightarrow> token \<Rightarrow> bool" where
  "valid_token ls ds out (Literal b) = (b < 256 \<and> has_word ls b)"
| "valid_token ls ds out (Copy l x d y) =
     (l < 29 \<and> has_word ls (257 + l) \<and> x < 2 ^ len_extra l \<and> d < 30 \<and> has_word ds d \<and> y < 2 ^ dist_extra d \<and>
      dist_base d + y \<le> length out)"

fun valid_tokens :: "nat list \<Rightarrow> nat list \<Rightarrow> u8 list \<Rightarrow> token list \<Rightarrow> bool" where
  "valid_tokens ls ds out [] = True"
| "valid_tokens ls ds out (t # ts) = (valid_token ls ds out t \<and> valid_tokens ls ds (expand out t) ts)"

subsection \<open>Dynamic blocks\<close>

text \<open>
  The code lengths of a dynamic block come run-length encoded under a third code, whose own lengths come
  as three-bit numbers in a fixed order. The second argument of a run is the value of its extra bits.
\<close>

datatype run = Length nat | Again nat | Zeros nat | Many_zeros nat

definition codelen_order :: "nat list" where
  "codelen_order = [16, 17, 18, 0, 8, 7, 9, 6, 10, 5, 11, 4, 12, 3, 13, 2, 14, 1, 15]"

fun run_bits :: "nat list \<Rightarrow> run \<Rightarrow> bool list" where
  "run_bits cs (Length l) = word_bits cs l"
| "run_bits cs (Again v) = word_bits cs 16 @ num_bits 2 v"
| "run_bits cs (Zeros v) = word_bits cs 17 @ num_bits 3 v"
| "run_bits cs (Many_zeros v) = word_bits cs 18 @ num_bits 7 v"

fun expand_run :: "nat list \<Rightarrow> run \<Rightarrow> nat list" where
  "expand_run acc (Length l) = acc @ [l]"
| "expand_run acc (Again v) = acc @ replicate (v + 3) (last acc)"
| "expand_run acc (Zeros v) = acc @ replicate (v + 3) 0"
| "expand_run acc (Many_zeros v) = acc @ replicate (v + 11) 0"

fun valid_run :: "nat list \<Rightarrow> nat list \<Rightarrow> run \<Rightarrow> bool" where
  "valid_run cs acc (Length l) = (l \<le> 15 \<and> has_word cs l)"
| "valid_run cs acc (Again v) = (acc \<noteq> [] \<and> v < 4 \<and> has_word cs 16)"
| "valid_run cs acc (Zeros v) = (v < 8 \<and> has_word cs 17)"
| "valid_run cs acc (Many_zeros v) = (v < 128 \<and> has_word cs 18)"

text \<open>Runs that make up exactly \<open>n\<close> lengths.\<close>

fun valid_runs :: "nat list \<Rightarrow> nat \<Rightarrow> nat list \<Rightarrow> run list \<Rightarrow> bool" where
  "valid_runs cs n acc [] = (length acc = n)"
| "valid_runs cs n acc (r # rs) = (length acc < n \<and> valid_run cs acc r \<and> valid_runs cs n (expand_run acc r) rs)"

primrec expand_runs :: "nat list \<Rightarrow> run list \<Rightarrow> nat list" where
  "expand_runs acc [] = acc"
| "expand_runs acc (r # rs) = expand_runs (expand_run acc r) rs"

record dynamic_block =
  num_litlen :: nat
  num_dist :: nat
  num_codelen :: nat
  codelens :: "nat list"
  runs :: "run list"
  tokens :: "token list"

definition litlen_lens :: "dynamic_block \<Rightarrow> nat list" where
  "litlen_lens b = take (num_litlen b) (expand_runs [] (runs b))"

definition dist_lens :: "dynamic_block \<Rightarrow> nat list" where
  "dist_lens b = drop (num_litlen b) (expand_runs [] (runs b))"

definition dynamic_bits :: "dynamic_block \<Rightarrow> bool list" where
  "dynamic_bits b =
     num_bits 5 (num_litlen b - 257) @ num_bits 5 (num_dist b - 1) @ num_bits 4 (num_codelen b - 4) @
     concat (map (\<lambda>k. num_bits 3 (codelens b ! (codelen_order ! k))) [0..<num_codelen b]) @
     concat (map (run_bits (codelens b)) (runs b)) @
     block_bits (litlen_lens b) (dist_lens b) (tokens b)"

text \<open>
  What an encoder guarantees. That fewer than 256 symbols share a length is not in the format; it is what
  the eight-bit counters of the code need.
\<close>

definition valid_dynamic :: "u8 list \<Rightarrow> dynamic_block \<Rightarrow> bool" where
  "valid_dynamic out b \<longleftrightarrow>
     257 \<le> num_litlen b \<and> num_litlen b \<le> 288 \<and> 1 \<le> num_dist b \<and> num_dist b \<le> 32 \<and>
     4 \<le> num_codelen b \<and> num_codelen b \<le> 19 \<and>
     length (codelens b) = 19 \<and> (\<forall>l \<in> set (codelens b). l < 8) \<and>
     (\<forall>k < 19. num_codelen b \<le> k \<longrightarrow> codelens b ! (codelen_order ! k) = 0) \<and>
     kraft (codelens b) \<and> valid_runs (codelens b) (num_litlen b + num_dist b) [] (runs b) \<and>
     kraft (litlen_lens b) \<and> (\<forall>l > 0. count_list (litlen_lens b) l < 256) \<and> kraft (dist_lens b) \<and>
     has_word (litlen_lens b) 256 \<and> valid_tokens (litlen_lens b) (dist_lens b) out (tokens b)"

text \<open>A stream is one or more blocks, each with its three-bit head; the last one is marked.\<close>

fun stream_bits :: "dynamic_block list \<Rightarrow> bool list" where
  "stream_bits [] = []"
| "stream_bits (b # bs) = [bs = [], False, True] @ dynamic_bits b @ stream_bits bs"

primrec expand_stream :: "u8 list \<Rightarrow> dynamic_block list \<Rightarrow> u8 list" where
  "expand_stream out [] = out"
| "expand_stream out (b # bs) = expand_stream (expand_all out (tokens b)) bs"

primrec valid_stream :: "u8 list \<Rightarrow> dynamic_block list \<Rightarrow> bool" where
  "valid_stream out [] = True"
| "valid_stream out (b # bs) = (valid_dynamic out b \<and> valid_stream (expand_all out (tokens b)) bs)"

subsection \<open>The tables\<close>

lemma less_upt: "k < n \<Longrightarrow> list_all P [0..<n] \<Longrightarrow> P k"
  by (simp add: list_all_iff)

lemma litlen_tbl_formula:
  assumes "k < 29"
  shows "rd litlen_tbl k = Inr (of_nat (len_base k), of_nat (len_extra k))"
proof -
  have "list_all (\<lambda>k. rd litlen_tbl k = Inr (of_nat (len_base k), of_nat (len_extra k))) [0..<29]"
    by (simp add: upt_rec rd_def litlen_tbl_def len_base_def len_extra_def)
  then show ?thesis using assms by (simp add: list_all_iff)
qed

lemma dist_tbl_formula:
  assumes "k < 30"
  shows "rd dist_tbl k = Inr (of_nat (dist_base k), of_nat (dist_extra k))"
proof -
  have "list_all (\<lambda>k. rd dist_tbl k = Inr (of_nat (dist_base k), of_nat (dist_extra k))) [0..<30]"
    by (simp add: upt_rec rd_def dist_tbl_def dist_base_def dist_extra_def)
  then show ?thesis using assms by (simp add: list_all_iff)
qed

end
