(* ===== verification/InflateBlock.thy ===== *)
theory InflateBlock
  imports Deflate
begin

text \<open>
  The decompressor against the format: for decoders of the codes that a block was encoded with, the loop
  over literals and back references consumes exactly the bits of the block and appends exactly the
  bytes its tokens stand for.
\<close>

subsection \<open>The window over the input\<close>

text \<open>The low \<open>m\<close> bits of the window are the next bits of the stream.\<close>

definition window :: "Inflate \<Rightarrow> bool list \<Rightarrow> nat \<Rightarrow> bool" where
  "window i bs m \<longleftrightarrow> m \<le> length bs \<and> m \<le> 64 \<and> (\<forall>k < m. bit (ib_bits (in_inputBuffer i)) k = bs ! k)"

definition decodes :: "nat list \<Rightarrow> HuffmanDecoder \<Rightarrow> bool" where
  "decodes ls decoder \<longleftrightarrow> length ls \<le> 288 \<and> (\<forall>l \<in> set ls. l \<le> 15) \<and>
     (\<forall>ib i. matches ls (ucast (ib_bits ib)) i \<longrightarrow>
        f173ab5a_huffmanDecode ib decoder = Inr (Some (of_nat i, of_nat (ls ! i))))"

lemma decodes_init:
  assumes "lengths_ok a ls"
  shows "\<exists>decoder. f173ab5a_initHuffmanDecoder a (length ls) = Inr decoder \<and> decodes ls decoder"
proof -
  obtain T S where "f173ab5a_initHuffmanDecoder a (length ls) = Inr (decoder_of ls T S)" "entered ls (length ls) T S"
    using initHuffmanDecoder_ok [OF assms] by blast
  then show ?thesis
    using huffmanDecode_match [OF assms] assms by (auto simp: decodes_def lengths_ok_def)
qed

lemma window_drop: "window i bs m \<Longrightarrow> n \<le> m \<Longrightarrow> window (drop_bits n i) (drop n bs) (m - n)"
  by (auto simp: window_def drop_bits_def bit_drop_bit_eq add.commute)

lemma length_word_bits [simp]: "length (word_bits ls i) = ls ! i"
  by (simp add: word_bits_def)

lemma length_num_bits [simp]: "length (num_bits e v) = e"
  by (simp add: num_bits_def)

lemma drop_bits_more:
  "in_outputBuffer (drop_bits n i) = in_outputBuffer i" "left (drop_bits n i) = left i"
  "drop_bits 0 i = i"
  by (simp_all add: drop_bits_def)

lemma window_matches:
  assumes "window i (word_bits ls s @ rest) m" and "ls ! s \<le> m" and "has_word ls s" and "ls ! s \<le> 15"
  shows "matches ls (ucast (ib_bits (in_inputBuffer i))) s"
proof -
  have "bit (ucast (ib_bits (in_inputBuffer i)) :: u16) k = bit (code ls s) (ls ! s - 1 - k)" if "k < ls ! s" for k
  proof -
    have "bit (ib_bits (in_inputBuffer i)) k = (word_bits ls s @ rest) ! k"
      using assms(1,2) that unfolding window_def by auto
    then show ?thesis using that assms(4) by (simp add: bit_ucast_iff nth_append word_bits_def)
  qed
  then show ?thesis using assms(3,4) by (simp add: matches_def has_word_def)
qed

lemma decodesD: "decodes ls d \<Longrightarrow> has_word ls s \<Longrightarrow> ls ! s \<le> 15" "decodes ls d \<Longrightarrow> has_word ls s \<Longrightarrow> s < 288"
  by (auto simp: decodes_def has_word_def)

lemma decode_symbol_word:
  assumes "decodes ls decoder" and "window i (word_bits ls s @ rest) m" and "ls ! s \<le> m" and "has_word ls s"
  shows "decode_symbol decoder i n = Inr (Some (of_nat s), of_nat (ls ! s), drop_bits (ls ! s) i)"
    and "window (drop_bits (ls ! s) i) rest (m - ls ! s)"
proof -
  have l: "ls ! s \<le> 15" using assms(1,4) by (rule decodesD)
  have "f173ab5a_huffmanDecode (in_inputBuffer i) decoder = Inr (Some (of_nat s, of_nat (ls ! s)))"
    using assms(1) window_matches [OF assms(2-4) l] unfolding decodes_def by blast
  then show "decode_symbol decoder i n = Inr (Some (of_nat s), of_nat (ls ! s), drop_bits (ls ! s) i)"
    using l by (simp add: decode_symbol_def unat_of_nat)
  show "window (drop_bits (ls ! s) i) rest (m - ls ! s)"
    using window_drop [OF assms(2,3)] by simp
qed

lemma low_bits_value:
  assumes "window i (num_bits e v @ rest) m" and "e \<le> m" and "v < 2 ^ e"
  shows "low_bits i (push_bit e 1 - 1) = of_nat v"
proof (rule bit_word_eqI)
  fix k
  assume "k < LENGTH(64)"
  have "low_bits i (push_bit e 1 - 1) = take_bit e (ib_bits (in_inputBuffer i))"
    by (simp add: low_bits_def take_bit_eq_mask mask_eq_exp_minus_1 push_bit_eq_mult)
  moreover have "bit (ib_bits (in_inputBuffer i)) k = bit v k" if "k < e"
  proof -
    have "bit (ib_bits (in_inputBuffer i)) k = (num_bits e v @ rest) ! k"
      using assms(1,2) that unfolding window_def by auto
    then show ?thesis using that by (simp add: nth_append num_bits_def)
  qed
  moreover have "\<not> bit v k" if "\<not> k < e"
    using assms(3) that bit_below by blast
  ultimately show "bit (low_bits i (push_bit e 1 - 1)) k = bit (of_nat v :: u64) k"
    using \<open>k < LENGTH(64)\<close> by (auto simp: bit_take_bit_iff bit_of_nat_iff)
qed

lemma extra_value:
  assumes "window i (num_bits e v @ rest) m" and "e \<le> m" and "v < 2 ^ e"
  shows "extra i base e used = (base + of_nat v, drop_bits e i, used + of_nat e)"
    and "window (drop_bits e i) rest (m - e)"
proof -
  have "low_bits i (push_bit e 1 - 1) = of_nat v" by (rule low_bits_value [OF assms])
  then show "extra i base e used = (base + of_nat v, drop_bits e i, used + of_nat e)"
    using assms(3) by (auto simp: extra_def drop_bits_more)
  show "window (drop_bits e i) rest (m - e)"
    using window_drop [OF assms(1,2)] by simp
qed

subsection \<open>The state of a decompression\<close>

text \<open>The reader's stream does not depend on what is in the slab at address \<open>a\<close>.\<close>

definition source :: "'z fb_state_scheme \<Rightarrow> nat \<Rightarrow> InputBuffer \<Rightarrow> bool list \<Rightarrow> bool" where
  "source st a ib bs \<longleftrightarrow> (\<forall>slab. ib_source (st\<lparr>pageBytes := (pageBytes st)(a \<mapsto> slab)\<rparr>) ib bs)"

text \<open>
  The bits \<open>bs\<close> are still to be read, 64 of them more than may be used, and \<open>out\<close> has been written to the
  slab at \<open>a\<close>.
\<close>

definition inf_rep :: "'z fb_state_scheme \<Rightarrow> nat \<Rightarrow> Inflate \<Rightarrow> bool list \<Rightarrow> u8 list \<Rightarrow> bool" where
  "inf_rep st a i bs out \<longleftrightarrow>
     source st a (in_inputBuffer i) bs \<and> left i + 64 \<le> length bs \<and> ob_buffer (in_outputBuffer i) = Some a \<and>
     unat (ob_length (in_outputBuffer i)) = length out \<and> length out \<le> 32768 \<and>
     (\<exists>slab. pageBytes st a = Some slab \<and> length slab = 32768 \<and> holds slab out)"

lemma source_st: "source st a ib bs \<Longrightarrow> pageBytes st a = Some slab \<Longrightarrow> ib_source st ib bs"
proof -
  assume s: "source st a ib bs" and "pageBytes st a = Some slab"
  then have "(pageBytes st)(a \<mapsto> slab) = pageBytes st" by auto
  with s [unfolded source_def, rule_format, of slab] show "ib_source st ib bs" by simp
qed

lemma source_slab [simp]:
  "source (st\<lparr>pageBytes := (pageBytes st)(a \<mapsto> slab)\<rparr>) a ib bs = source st a ib bs"
  by (simp add: source_def)

lemma source_bits [simp]: "source st a (ib\<lparr>ib_bits := w\<rparr>) bs = source st a ib bs"
  by (simp add: source_def ib_source_def)

lemma advance_slab [simp]:
  "c49f5b0d_advanceNumBits (st\<lparr>pageBytes := m\<rparr>) ib n = c49f5b0d_advanceNumBits st ib n"
  by (simp add: c49f5b0d_advanceNumBits_def next_offset_def has_next_def fb_get_def Let_def cong: if_cong)

lemma source_advance:
  assumes "source st a ib bs" and "unat n \<le> ib_left ib" and "ib_left ib \<le> length bs" and "unat n \<le> 32768"
  shows "\<exists>ib'. c49f5b0d_advanceNumBits st ib n = Inr (True, ib') \<and> source st a ib' (drop (unat n) bs) \<and>
           ib_left ib' = ib_left ib - unat n \<and> ib_bits ib' = ib_bits ib"
proof -
  have each: "\<exists>ib'. c49f5b0d_advanceNumBits st ib n = Inr (True, ib') \<and>
      ib_source (st\<lparr>pageBytes := (pageBytes st)(a \<mapsto> slab)\<rparr>) ib' (drop (unat n) bs) \<and>
      ib_left ib' = ib_left ib - unat n \<and> ib_bits ib' = ib_bits ib" for slab
  proof -
    let ?st = "st\<lparr>pageBytes := (pageBytes st)(a \<mapsto> slab)\<rparr>"
    from assms(1) have "ib_rep ?st ib bs" "ib_wf ib" unfolding source_def ib_source_def by auto
    from advanceNumBits_ok [OF this assms(2-4)] show ?thesis by (auto simp: ib_source_def)
  qed
  from each obtain ib' where ib': "c49f5b0d_advanceNumBits st ib n = Inr (True, ib')"
    "ib_left ib' = ib_left ib - unat n" "ib_bits ib' = ib_bits ib" by blast
  have "source st a ib' (drop (unat n) bs)" unfolding source_def using each ib'(1) by auto
  with ib' show ?thesis by blast
qed

lemma get_bits_rep:
  assumes "inf_rep st a i bs out"
  shows "\<exists>i'. get_bits st i = Inr i' \<and> inf_rep st a i' bs out \<and> window i' bs 57 \<and> left i' = left i"
proof -
  from assms obtain slab where s: "pageBytes st a = Some slab" "source st a (in_inputBuffer i) bs" "64 \<le> length bs"
    by (auto simp: inf_rep_def)
  then have "ib_rep st (in_inputBuffer i) bs" using source_st [OF s(2,1)] by (simp add: ib_source_def)
  from getNextBits_ok [OF this s(3)] obtain w where
    "c49f5b0d_getNextBits st (in_inputBuffer i) = Inr ((in_inputBuffer i)\<lparr>ib_bits := w\<rparr>)" "\<forall>k < 57. bit w k = bs ! k"
    by blast
  then show ?thesis
    using assms s(3) by (auto simp: get_bits_def inf_rep_def window_def)
qed

lemma drop_bits_rep [simp]: "inf_rep st a (drop_bits n i) bs out = inf_rep st a i bs out"
  by (simp add: inf_rep_def drop_bits_def)

lemma advance_bits_rep:
  assumes "inf_rep st a i bs out" and "n \<le> left i" and "n < 32768"
  shows "\<exists>i'. advance_bits st i (of_nat n) = Inr (True, i') \<and> inf_rep st a i' (drop n bs) out \<and> left i' = left i - n \<and>
    ib_bits (in_inputBuffer i') = ib_bits (in_inputBuffer i) \<and> in_outputBuffer i' = in_outputBuffer i"
proof -
  have u: "unat (ucast (of_nat n :: u64) :: u32) = n"
    using assms(3) by (simp add: unsigned_ucast_eq unat_of_nat take_bit_nat_eq_self)
  have "source st a (in_inputBuffer i) bs" "left i + 64 \<le> length bs" using assms(1) by (auto simp: inf_rep_def)
  with source_advance [of st a "in_inputBuffer i" bs "ucast (of_nat n :: u64)"] u assms(2,3)
  obtain ib' where ib': "c49f5b0d_advanceNumBits st (in_inputBuffer i) (ucast (of_nat n :: u64)) = Inr (True, ib')"
    "source st a ib' (drop n bs)" "ib_left ib' = left i - n" "ib_bits ib' = ib_bits (in_inputBuffer i)" by auto
  then show ?thesis
    using assms(1,2) by (auto simp: advance_bits_def inf_rep_def)
qed

subsection \<open>Output\<close>

lemma length_backref [simp]: "length (backref dist n out) = length out + n"
  by (induction n arbitrary: out) simp_all

lemma backref_snoc:
  "backref dist (Suc n) out = backref dist n out @ [backref dist n out ! (length out + n - dist)]"
proof (induction n arbitrary: out)
  case (Suc n)
  let ?o = "out @ [out ! (length out - dist)]"
  have "backref dist (Suc (Suc n)) out = backref dist (Suc n) ?o" by simp
  also have "\<dots> = backref dist n ?o @ [backref dist n ?o ! (length ?o + n - dist)]" by (rule Suc)
  finally show ?case by simp
qed simp

text \<open>A back reference that does not reach its own output is a plain copy.\<close>

lemma backref_plain:
  assumes "dist \<le> length out" and "n \<le> dist"
  shows "backref dist n out = out @ take n (drop (length out - dist) out)"
  using assms(2)
proof (induction n)
  case (Suc n)
  have "backref dist n out ! (length out + n - dist) = out ! (length out + n - dist)"
    using Suc assms(1) by (simp add: nth_append)
  moreover have "take (Suc n) (drop (length out - dist) out) =
      take n (drop (length out - dist) out) @ [out ! (length out + n - dist)]"
    using Suc.prems assms(1) by (simp add: take_Suc_conv_app_nth)
  ultimately show ?case using Suc unfolding backref_snoc by simp
qed simp

lemma copy_loop:
  assumes "holds slab out" and "0 < dist" and "dist \<le> length out" and "length out + n \<le> length slab"
  shows "\<exists>slab'. fold_result (copy_step (length out) dist) slab [0..<n] = Inr slab' \<and>
           holds slab' (backref dist n out) \<and> length slab' = length slab"
proof -
  have "\<exists>slab'. fold_result (copy_step (length out) dist) slab [0..<n] = Inr slab' \<and>
      (holds slab' (backref dist n out) \<and> length slab' = length slab)"
  proof (rule fold_result_upt [where P = "\<lambda>j s. holds s (backref dist j out) \<and> length s = length slab"])
    fix j s
    assume j: "j < n" and s: "holds s (backref dist j out) \<and> length s = length slab"
    let ?o = "backref dist j out"
    have "length out + j - dist < length ?o" using assms(2,3) by simp
    then have "rd s (length out + j - dist) = Inr (?o ! (length out + j - dist))"
      using s by (blast intro: holds_rd)
    moreover have "holds (s[length ?o := Some x]) (?o @ [x])" for x
      using s j assms(4) by (intro holds_snoc) auto
    ultimately show "\<exists>s'. copy_step (length out) dist s j = Inr s' \<and>
        holds s' (backref dist (Suc j) out) \<and> length s' = length slab"
      using s j assms(3,4) unfolding backref_snoc by (simp add: copy_step_def wr_def)
  qed (use assms in auto)
  then show ?thesis by blast
qed

text \<open>Both ways of writing a back reference append what the format says.\<close>

definition appended :: "'z fb_state_scheme \<Rightarrow> nat \<Rightarrow> u8 list \<Rightarrow> 'z fb_state_scheme result \<Rightarrow> bool" where
  "appended st a out r \<longleftrightarrow> (\<exists>slab. r = Inr (st\<lparr>pageBytes := (pageBytes st)(a \<mapsto> slab)\<rparr>) \<and>
     length slab = 32768 \<and> holds slab out)"

lemma lz77_output_backref_ok:
  assumes "inf_rep st a i bs out" and "0 < dist" and "dist \<le> length out" and "length out + n \<le> 32768"
  shows "appended st a (backref dist n out) (lz77_output_backref st (in_outputBuffer i) (of_nat dist) (of_nat n))"
proof -
  from assms(1) obtain slab where s: "ob_buffer (in_outputBuffer i) = Some a" "pageBytes st a = Some slab"
    "unat (ob_length (in_outputBuffer i)) = length out" "length slab = 32768" "holds slab out" "length out \<le> 32768"
    by (auto simp: inf_rep_def)
  from copy_loop [OF s(5) assms(2,3)] assms(4) s(4) obtain slab' where c:
    "fold_result (copy_step (length out) dist) slab [0..<n] = Inr slab'" "holds slab' (backref dist n out)"
    "length slab' = 32768" by auto
  have "unat (of_nat dist :: u64) = dist" "unat (of_nat n :: u64) = n"
    using assms(3,4) s(6) by (simp_all add: unat_of_nat)
  then show ?thesis
    using s c assms(3) by (auto simp: appended_def lz77_output_backref_def page_get_def slab_put_def)
qed

lemma output_backref64_ok:
  assumes "inf_rep st a i bs out" and "0 < dist" and "dist \<le> length out" and "length out + n \<le> 32768"
  shows "appended st a (backref dist n out) (output_backref64 st (in_outputBuffer i) (of_nat dist) (of_nat n))"
proof -
  from assms(1) obtain slab where s: "ob_buffer (in_outputBuffer i) = Some a" "pageBytes st a = Some slab"
    "unat (ob_length (in_outputBuffer i)) = length out" "length slab = 32768" "holds slab out" "length out \<le> 32768"
    by (auto simp: inf_rep_def)
  have u: "unat (of_nat dist :: u64) = dist" "unat (of_nat n :: u64) = n"
    using assms(3,4) s(6) by (simp_all add: unat_of_nat)
  show ?thesis
  proof (cases "dist < n")
    case True
    then show ?thesis
      using lz77_output_backref_ok [OF assms] u by (simp add: output_backref64_def word_less_nat_alt)
  next
    case False
    let ?k = "length out - dist"
    have t: "take (length out) slab = map Some out" using s(5) by (simp add: holds_def)
    have "drop ?k (take (length out) slab) = take dist (drop ?k slab)" using assms(3) by (simp add: drop_take)
    then have "take n (drop ?k slab) = take n (drop ?k (map Some out))"
      using False t by (metis min.absorb1 not_less take_take)
    then have "take (length out) slab @ take n (drop ?k slab) @ drop (length out + n) slab =
        map Some (backref dist n out) @ drop (length out + n) slab"
      using t False backref_plain [OF assms(3), of n] by (simp add: take_map drop_map)
    then have b: "f668c4bd_memcopy slab ?k slab (length out) n =
        Inr (map Some (backref dist n out) @ drop (length out + n) slab)"
      using assms(3,4) s(4) False by (simp add: f668c4bd_memcopy_def blit_def)
    then show ?thesis
      using s u assms(3,4) False
      by (auto simp: appended_def output_backref64_def page_get_def slab_put_def word_less_nat_alt holds_append_cells)
  qed
qed

lemma grow_rep:
  assumes "inf_rep st a i bs out" and "appended st a out' (Inr st')" and "length out' = length out + n"
    and "length out' \<le> 32768"
  shows "inf_rep st' a (grow_output i (of_nat n)) bs out'" "left (grow_output i (of_nat n)) = left i"
proof -
  have u: "unat (ucast (of_nat n :: u64) :: u32) = n"
    using assms(3,4) by (simp add: unsigned_ucast_eq unat_of_nat take_bit_nat_eq_self)
  have "unat (ob_length (in_outputBuffer i)) = length out" using assms(1) by (simp add: inf_rep_def)
  then have "unat (ob_length (in_outputBuffer i) + ucast (of_nat n :: u64)) = length out'"
    using u assms(3,4) by (subst unat_plus_fits) simp_all
  then show "inf_rep st' a (grow_output i (of_nat n)) bs out'"
    using assms(1,2,4) by (auto simp: inf_rep_def appended_def grow_output_def)
qed (simp add: grow_output_def)

lemma write_backref_ok:
  assumes "inf_rep st a i bs out" and "0 < dist" and "dist \<le> length out" and "length out + n \<le> 32768"
  shows "\<exists>st'. write_backref st i (of_nat dist) (of_nat n) k = Inr (Inl (grow_output i (of_nat n), st', k)) \<and>
           inf_rep st' a (grow_output i (of_nat n)) bs (backref dist n out)"
proof -
  have sz: "unat (ob_length (in_outputBuffer i)) = length out" "length out \<le> 32768"
    using assms(1) by (auto simp: inf_rep_def)
  have u: "unat (of_nat dist :: u64) = dist" "unat (of_nat n :: u64) = n"
    using assms(3,4) sz(2) by (simp_all add: unat_of_nat)
  have "unat (INFLATE_OUTPUT_LENGTH - ob_length (in_outputBuffer i)) = 32768 - length out"
    using sz by (simp add: INFLATE_OUTPUT_LENGTH_def unat_minus_fits word_le_nat_alt)
  then have room: "unat (ucast (INFLATE_OUTPUT_LENGTH - ob_length (in_outputBuffer i)) :: u64) = 32768 - length out"
    by (simp add: unsigned_ucast_eq take_bit_nat_eq_self)
  have l: "unat (ucast (ob_length (in_outputBuffer i)) :: u64) = length out"
    using sz by (simp add: unsigned_ucast_eq take_bit_nat_eq_self)
  note A = output_backref64_ok [OF assms] lz77_output_backref_ok [OF assms]
  have "\<exists>st'. write_backref st i (of_nat dist) (of_nat n) k = Inr (Inl (grow_output i (of_nat n), st', k)) \<and>
          appended st a (backref dist n out) (Inr st')"
    using A u room l assms(3,4)
    by (auto simp: write_backref_def Let_def word_less_nat_alt word_le_nat_alt appended_def)
  then show ?thesis using grow_rep(1) [OF assms(1)] assms(4) by fastforce
qed

subsection \<open>One round per token\<close>

lemma put_byte_ok:
  assumes "inf_rep st a i bs out" and "length out < 32768"
  shows "appended st a (out @ [x]) (put_byte st (in_outputBuffer i) x)"
proof -
  from assms(1) obtain slab where s: "ob_buffer (in_outputBuffer i) = Some a" "pageBytes st a = Some slab"
    "unat (ob_length (in_outputBuffer i)) = length out" "length slab = 32768" "holds slab out"
    by (auto simp: inf_rep_def)
  with assms(2) holds_snoc [OF s(5), of x] show ?thesis
    by (auto simp: appended_def put_byte_def page_get_def slab_put_def wr_def)
qed

text \<open>The symbol at the head of the stream, and the reader moved behind it.\<close>

lemma next_symbol:
  assumes "inf_rep st a i (word_bits ls s @ rest) out" and "decodes ls decoder" and "has_word ls s"
  shows "\<exists>i1 i2. get_bits st i = Inr i1 \<and>
      (\<forall>n. decode_symbol decoder i1 n = Inr (Some (of_nat s), of_nat (ls ! s), i2)) \<and>
      inf_rep st a i2 (word_bits ls s @ rest) out \<and> window i2 rest (57 - ls ! s) \<and> left i2 = left i"
proof -
  from get_bits_rep [OF assms(1)] obtain i1 where i1: "get_bits st i = Inr i1"
    "inf_rep st a i1 (word_bits ls s @ rest) out" "window i1 (word_bits ls s @ rest) 57" "left i1 = left i" by blast
  have l: "ls ! s \<le> 57" using decodesD(1) [OF assms(2,3)] by simp
  show ?thesis
    using i1 decode_symbol_word [OF assms(2) i1(3) l assms(3)] by (auto simp: drop_bits_more)
qed

lemma literal_symbol_word: "s < 288 \<Longrightarrow> unat (of_nat s :: u16) = s"
  by (simp add: unat_of_nat)

lemma literal_round:
  assumes rep: "inf_rep st a i (token_bits ls ds (Literal b) @ rest) out" and d: "decodes ls ld"
    and v: "valid_token ls ds out (Literal b)"
    and room: "length out < 32768" "length (token_bits ls ds (Literal b)) \<le> left i"
  shows "\<exists>i' st' k. literal_backref_step ld dd (i, st, n) = Inr (Inl (i', st', k)) \<and>
    inf_rep st' a i' rest (expand out (Literal b)) \<and> left i' = left i - length (token_bits ls ds (Literal b))"
proof -
  have b: "b < 256" "has_word ls b" using v by auto
  from next_symbol [OF rep [unfolded token_bits.simps] d b(2)] obtain i1 i2 where i2: "get_bits st i = Inr i1"
    "decode_symbol ld i1 n = Inr (Some (of_nat b), of_nat (ls ! b), i2)"
    "inf_rep st a i2 (word_bits ls b @ rest) out" "left i2 = left i" by metis
  have l: "ls ! b \<le> 15" using d b(2) by (rule decodesD)
  from advance_bits_rep [OF i2(3), of "ls ! b"] l room(2) i2(4) obtain i3 where i3:
    "advance_bits st i2 (of_nat (ls ! b)) = Inr (True, i3)" "inf_rep st a i3 rest out" "left i3 = left i - ls ! b" by auto
  have "appended st a (out @ [of_nat b]) (put_byte st (in_outputBuffer i3) (of_nat b))"
    by (rule put_byte_ok [OF i3(2) room(1)])
  then obtain st' where st': "put_byte st (in_outputBuffer i3) (of_nat b) = Inr st'"
    "appended st a (out @ [of_nat b]) (Inr st')" by (auto simp: appended_def)
  have u: "unat (of_nat b :: u16) = b" using b(1) by (simp add: unat_of_nat)
  have full: "ob_length (in_outputBuffer i3) \<noteq> INFLATE_OUTPUT_LENGTH"
    using i3(2) room(1) by (auto simp: inf_rep_def INFLATE_OUTPUT_LENGTH_def)
  have "ucast (of_nat b :: u16) = (of_nat b :: u8)"
    using b(1) u by (simp add: word_unat_eq_iff unsigned_ucast_eq unat_of_nat take_bit_nat_eq_self)
  then have "literal_backref_step ld dd (i, st, n) = Inr (Inl (grow_output i3 (of_nat 1), st', Some (of_nat (ls ! b))))"
    using i2 i3 st' u b(1) full
    by (simp add: literal_backref_step_def word_less_nat_alt word_le_nat_alt LITLEN_MAX_def)
  then show ?thesis
    using grow_rep [OF i3(2) st'(2), of 1] i3(3) room(1) by auto
qed

lemma end_round:
  assumes rep: "inf_rep st a i (word_bits ls 256 @ rest) out" and d: "decodes ls ld" and w: "has_word ls 256"
    and room: "ls ! 256 \<le> left i"
  shows "\<exists>i'. literal_backref_step ld dd (i, st, n) = Inr (Inr (True, i', st)) \<and>
    inf_rep st a i' rest out \<and> left i' = left i - ls ! 256 \<and> in_status i' = INFLATE_SUCCESS"
proof -
  from next_symbol [OF rep d w] obtain i1 i2 where i2: "get_bits st i = Inr i1"
    "decode_symbol ld i1 n = Inr (Some (of_nat 256), of_nat (ls ! 256), i2)"
    "inf_rep st a i2 (word_bits ls 256 @ rest) out" "left i2 = left i" by metis
  have l: "ls ! 256 \<le> 15" using d w by (rule decodesD)
  from advance_bits_rep [OF i2(3), of "ls ! 256"] l room i2(4) obtain i3 where i3:
    "advance_bits st i2 (of_nat (ls ! 256)) = Inr (True, i3)" "inf_rep st a i3 rest out" "left i3 = left i - ls ! 256"
    by auto
  have "literal_backref_step ld dd (i, st, n) = Inr (Inr (True, i3\<lparr>in_status := INFLATE_SUCCESS\<rparr>, st))"
    using i2(1,2) i3(1) by (simp add: literal_backref_step_def LITLEN_MAX_def LITLEN_EOB_def stop_def)
  then show ?thesis using i3 by (simp add: inf_rep_def)
qed

lemma extra_bounds:
  "l < 29 \<Longrightarrow> len_extra l \<le> 5 \<and> len_base l \<le> 258" "d < 30 \<Longrightarrow> dist_extra d \<le> 13 \<and> dist_base d \<le> 24577 \<and> 0 < dist_base d"
proof -
  show "l < 29 \<Longrightarrow> len_extra l \<le> 5 \<and> len_base l \<le> 258"
  proof -
    have "list_all (\<lambda>l. len_extra l \<le> 5 \<and> len_base l \<le> 258) [0..<29]"
      by (simp add: upt_rec len_base_def len_extra_def)
    then show "l < 29 \<Longrightarrow> ?thesis" by (simp add: list_all_iff)
  qed
  show "d < 30 \<Longrightarrow> dist_extra d \<le> 13 \<and> dist_base d \<le> 24577 \<and> 0 < dist_base d"
  proof -
    have "list_all (\<lambda>d. dist_extra d \<le> 13 \<and> dist_base d \<le> 24577 \<and> 0 < dist_base d) [0..<30]"
      by (simp add: upt_rec dist_base_def dist_extra_def)
    then show "d < 30 \<Longrightarrow> ?thesis" by (simp add: list_all_iff)
  qed
qed

lemma copy_round:
  assumes rep: "inf_rep st a i (token_bits ls ds (Copy l x d y) @ rest) out" and dl: "decodes ls ld" and dd: "decodes ds dd"
    and v: "valid_token ls ds out (Copy l x d y)"
    and room: "length (expand out (Copy l x d y)) \<le> 32768" "length (token_bits ls ds (Copy l x d y)) \<le> left i"
  shows "\<exists>i' st' k. literal_backref_step ld dd (i, st, n) = Inr (Inl (i', st', k)) \<and>
    inf_rep st' a i' rest (expand out (Copy l x d y)) \<and> left i' = left i - length (token_bits ls ds (Copy l x d y))"
proof -
  let ?s = "257 + l" and ?e = "len_extra l" and ?f = "dist_extra d"
  let ?r3 = "num_bits ?f y @ rest" and ?r1 = "num_bits ?e x @ word_bits ds d @ num_bits ?f y @ rest"
  let ?total = "ls ! ?s + ?e + ds ! d + ?f"
  have V: "l < 29" "has_word ls ?s" "x < 2 ^ ?e" "d < 30" "has_word ds d" "y < 2 ^ ?f" "dist_base d + y \<le> length out"
    using v by auto
  have B: "?e \<le> 5" "len_base l \<le> 258" "?f \<le> 13" "dist_base d \<le> 24577" "0 < dist_base d" "ls ! ?s \<le> 15" "ds ! d \<le> 15"
    using extra_bounds(1) [OF V(1)] extra_bounds(2) [OF V(4)] decodesD(1) [OF dl V(2)] decodesD(1) [OF dd V(5)] by auto
  have bits: "token_bits ls ds (Copy l x d y) @ rest = word_bits ls ?s @ ?r1" by simp
  from next_symbol [OF rep [unfolded bits] dl V(2)] obtain i1 i2 where i2: "get_bits st i = Inr i1"
    "decode_symbol ld i1 n = Inr (Some (of_nat ?s), of_nat (ls ! ?s), i2)"
    "inf_rep st a i2 (word_bits ls ?s @ ?r1) out" "window i2 ?r1 (57 - ls ! ?s)" "left i2 = left i" by metis
  have x32: "x < 32" using V(3) power_increasing [OF B(1), of "2::nat"] by simp
  have y13: "y < 8192" using V(6) power_increasing [OF B(3), of "2::nat"] by simp
  have E1: "extra i2 base ?e used = (base + of_nat x, drop_bits ?e i2, used + of_nat ?e)"
    "window (drop_bits ?e i2) (word_bits ds d @ ?r3) (57 - ls ! ?s - ?e)" for base used
    using extra_value [OF i2(4) _ V(3)] B by auto
  let ?i3 = "drop_bits (ds ! d) (drop_bits ?e i2)"
  have D: "decode_symbol dd (drop_bits ?e i2) k = Inr (Some (of_nat d), of_nat (ds ! d), ?i3)"
    "window ?i3 ?r3 (57 - ls ! ?s - ?e - ds ! d)" for k
    using decode_symbol_word [OF dd E1(2) _ V(5)] B by auto
  have E2: "extra ?i3 base ?f used = (base + of_nat y, drop_bits ?f ?i3, used + of_nat ?f)" for base used
    using extra_value(1) [OF D(2) _ V(6)] B by auto
  let ?i4 = "drop_bits ?f ?i3"
  have r4: "inf_rep st a ?i4 (word_bits ls ?s @ ?r1) out" "left ?i4 = left i" using i2(3,5) by (simp_all add: drop_bits_more)
  have used: "of_nat ?total = of_nat (ls ! ?s) + of_nat ?e + of_nat (ds ! d) + (of_nat ?f :: u64)" by simp
  from advance_bits_rep [OF r4(1), of ?total] r4(2) room(2) B obtain i5 where i5:
    "advance_bits st ?i4 (of_nat ?total) = Inr (True, i5)" "inf_rep st a i5 rest out" "left i5 = left i - ?total" by auto
  have "length out + (len_base l + x) \<le> 32768" using room(1) by simp
  from write_backref_ok [OF i5(2) _ V(7) this, of "Some (of_nat (ds ! d))"] B(5) obtain st' where st':
    "write_backref st i5 (of_nat (dist_base d + y)) (of_nat (len_base l + x)) (Some (of_nat (ds ! d))) =
       Inr (Inl (grow_output i5 (of_nat (len_base l + x)), st', Some (of_nat (ds ! d))))"
    "inf_rep st' a (grow_output i5 (of_nat (len_base l + x))) rest (expand out (Copy l x d y))" by auto
  have s16: "unat (of_nat ?s :: u16) = ?s" using V(1) by (simp add: unat_of_nat del: of_nat_add)
  have u: "unat (of_nat ?s - LITLEN_TBL_OFFSET :: u16) = l" "unat (of_nat d :: u16) = d"
    "unat (of_nat ?e :: u16) = ?e" "unat (of_nat ?f :: u32) = ?f"
    "ucast (of_nat (len_base l) :: u16) = (of_nat (len_base l) :: u64)"
    "ucast (of_nat (dist_base d) :: u32) = (of_nat (dist_base d) :: u64)"
    using V(1,4) B by (simp_all add: unat_of_nat LITLEN_TBL_OFFSET_def word_unat_eq_iff unsigned_ucast_eq take_bit_nat_eq_self)
  have "backref_step dd (of_nat ?s) st i2 (of_nat (ls ! ?s)) =
      Inr (Inl (grow_output i5 (of_nat (len_base l + x)), st', Some (of_nat (ds ! d))))"
    using V(1,4) litlen_tbl_formula [OF V(1)] dist_tbl_formula [OF V(4)] i5(1) st'(1) s16 u E1(1) D(1) E2 used
    by (simp add: backref_step_def DISTSYM_MAX_def word_less_nat_alt add.assoc)
  moreover have "\<not> LITLEN_MAX < (of_nat ?s :: u16)" "\<not> (of_nat ?s :: u16) \<le> 255" "(of_nat ?s :: u16) \<noteq> LITLEN_EOB"
    using V(1) by (simp_all add: word_less_nat_alt word_le_nat_alt word_unat_eq_iff s16 LITLEN_MAX_def LITLEN_EOB_def
        del: of_nat_add)
  ultimately have "literal_backref_step ld dd (i, st, n) =
      Inr (Inl (grow_output i5 (of_nat (len_base l + x)), st', Some (of_nat (ds ! d))))"
    using i2(1,2) by (simp add: literal_backref_step_def)
  then show ?thesis using st'(2) i5(3) by (auto simp: grow_output_def)
qed

subsection \<open>The whole block\<close>

lemma expand_longer: "length out \<le> length (expand out t)"
  by (cases t) simp_all

lemma expand_all_longer: "length out \<le> length (expand_all out ts)"
proof (induction ts arbitrary: out)
  case (Cons t ts)
  show ?case using expand_longer [of out t] Cons [of "expand out t"] by simp
qed simp

lemma token_round:
  assumes "inf_rep st a i (token_bits ls ds t @ rest) out" and "decodes ls ld" and "decodes ds dd"
    and "valid_token ls ds out t" and "length (expand out t) \<le> 32768" and "length (token_bits ls ds t) \<le> left i"
  shows "\<exists>i' st' k. literal_backref_step ld dd (i, st, n) = Inr (Inl (i', st', k)) \<and>
    inf_rep st' a i' rest (expand out t) \<and> left i' = left i - length (token_bits ls ds t)"
proof (cases t)
  case (Literal b)
  then show ?thesis using literal_round [of st a i ls ds b rest out ld dd n] assms by auto
next
  case (Copy l x d y)
  then show ?thesis using copy_round [of st a i ls ds l x d y rest out ld dd n] assms by auto
qed

lemma block_loop:
  assumes "inf_rep st a i (block_bits ls ds toks @ rest) out" and "decodes ls ld" and "decodes ds dd"
    and "has_word ls 256" and "valid_tokens ls ds out toks" and "length (expand_all out toks) \<le> 32768"
    and "length (block_bits ls ds toks) \<le> left i"
  shows "\<exists>i' st'. repeat_until (literal_backref_step ld dd) (i, st, n) = Inr (True, i', st') \<and>
    inf_rep st' a i' rest (expand_all out toks) \<and> left i' = left i - length (block_bits ls ds toks)"
  using assms(1,5-7)
proof (induction toks arbitrary: i st out n)
  case Nil
  then have "inf_rep st a i (word_bits ls 256 @ rest) out" "ls ! 256 \<le> left i" by (simp_all add: block_bits_def)
  from end_round [OF this(1) assms(2,4) this(2), of dd n] show ?case
    by (subst repeat_until_unfold) (auto simp: block_bits_def)
next
  case (Cons t ts)
  have bits: "block_bits ls ds (t # ts) = token_bits ls ds t @ block_bits ls ds ts" by (simp add: block_bits_def)
  have "length (expand out t) \<le> 32768" using Cons.prems(3) expand_all_longer [of "expand out t" ts] by simp
  then obtain i1 st1 k where r: "literal_backref_step ld dd (i, st, n) = Inr (Inl (i1, st1, k))"
    "inf_rep st1 a i1 (block_bits ls ds ts @ rest) (expand out t)" "left i1 = left i - length (token_bits ls ds t)"
    using token_round [of st a i ls ds t "block_bits ls ds ts @ rest" out ld dd n] Cons.prems bits assms(2,3) by auto
  have "length (block_bits ls ds ts) \<le> left i1" using Cons.prems(4) bits r(3) by simp
  with Cons.IH [OF r(2), of k] Cons.prems(2,3) obtain i' st' where
    "repeat_until (literal_backref_step ld dd) (i1, st1, k) = Inr (True, i', st')"
    "inf_rep st' a i' rest (expand_all (expand out t) ts)" "left i' = left i1 - length (block_bits ls ds ts)" by auto
  then show ?case using r(1,3) bits by (subst repeat_until_unfold) auto
qed

lemma processLiteralBackrefBlock_ok:
  assumes "inf_rep st a i (block_bits ls ds toks @ rest) out" and "decodes ls ld" and "decodes ds dd"
    and "has_word ls 256" and "valid_tokens ls ds out toks" and "length (expand_all out toks) \<le> 32768"
    and "length (block_bits ls ds toks) \<le> left i"
  shows "\<exists>i' st'. processLiteralBackrefBlock st i ld dd = Inr (True, i', st') \<and>
    inf_rep st' a i' rest (expand_all out toks) \<and> left i' = left i - length (block_bits ls ds toks)"
  unfolding processLiteralBackrefBlock_def by (rule block_loop [OF assms])

end
