(* ===== verification/InflateDynamic.thy ===== *)
theory InflateDynamic
  imports InflateBlock
begin

text \<open>
  The decompressor on dynamic blocks: the header yields decoders of the codes the block was encoded
  with, and a stream of blocks yields the bytes it stands for.
\<close>

subsection \<open>Reading numbers\<close>

lemma window_same:
  "ib_bits (in_inputBuffer i') = ib_bits (in_inputBuffer i) \<Longrightarrow> window i' bs m = window i bs m"
  by (simp add: window_def)

lemma window_less: "window i bs m \<Longrightarrow> k \<le> m \<Longrightarrow> window i bs k"
  by (auto simp: window_def)

lemma source_use:
  assumes "source st a ib bs" and "pageBytes st a = Some slab" and "unat n \<le> ib_left ib" and "ib_left ib + 64 \<le> length bs"
    and "unat n \<le> 57"
  shows "\<exists>ib'. c49f5b0d_useNumBits st ib n = Inr (True, ib') \<and> source st a ib' (drop (unat n) bs) \<and>
           ib_left ib' = ib_left ib - unat n \<and> (\<forall>k < 57. bit (ib_bits ib') k = bs ! k)"
proof -
  from source_st [OF assms(1,2)] have "ib_source st ib bs" .
  then obtain ib' where ib': "c49f5b0d_useNumBits st ib n = Inr (True, ib')" "ib_left ib' = ib_left ib - unat n"
    "\<forall>k < 57. bit (ib_bits ib') k = bs ! k"
    using useNumBits_ok [of st ib bs n] assms(3-5) by (auto simp: ib_source_def)
  obtain ib1 where ib1: "c49f5b0d_advanceNumBits st ib n = Inr (True, ib1)" "source st a ib1 (drop (unat n) bs)"
    using source_advance [OF assms(1,3)] assms(4,5) by auto
  have "ib' = ib1\<lparr>ib_bits := ib_bits ib'\<rparr>"
    using ib'(1) ib1(1)
    by (auto simp: c49f5b0d_useNumBits_def c49f5b0d_advanceNumBits_def Let_def bnd_eq_Inr split: if_splits option.splits)
  then have "source st a ib' (drop (unat n) bs)" using ib1(2) by (metis source_bits)
  with ib' show ?thesis by blast
qed

lemma use_bits_rep:
  assumes "inf_rep st a i bs out" and "unat n \<le> left i" and "unat n \<le> 57"
  shows "\<exists>i'. use_bits st i n = Inr (True, i') \<and> inf_rep st a i' (drop (unat n) bs) out \<and> left i' = left i - unat n \<and>
    window i' bs 57"
proof -
  from assms(1) obtain slab where s: "pageBytes st a = Some slab" "source st a (in_inputBuffer i) bs" "left i + 64 \<le> length bs"
    by (auto simp: inf_rep_def)
  from source_use [OF s(2,1) assms(2) s(3) assms(3)] show ?thesis
    using assms(1,2) s(3) by (auto simp: use_bits_def inf_rep_def window_def)
qed

lemma read_count_ok:
  assumes "window i (num_bits e v @ rest) m" and "e \<le> m" and "v < 2 ^ e" and "e \<le> 5" and "unat least = k"
    and "k \<le> 257" and "v + k \<le> most" and "low = push_bit e 1 - 1"
  shows "read_count i low least e most = (Some (v + k), drop_bits e i)" and "window (drop_bits e i) rest (m - e)"
proof -
  have v: "v < 32" using assms(3) power_increasing [OF assms(4), of "2::nat"] by simp
  have "unat (of_nat v + least) = v + k"
    using v assms(5,6) by (subst unat_plus_fits) (simp_all add: unat_of_nat)
  then show "read_count i low least e most = (Some (v + k), drop_bits e i)"
    using low_bits_value [OF assms(1-3)] assms(7,8) by (simp add: read_count_def Let_def)
  show "window (drop_bits e i) rest (m - e)"
    using window_drop [OF assms(1,2)] by simp
qed

lemma advance_ok:
  assumes "inf_rep st a i (piece @ rest) out" and "length piece = n" and "n \<le> left i" and "n < 32768"
  shows "\<exists>i'. advance_bits st i (of_nat n) = Inr (True, i') \<and> inf_rep st a i' rest out \<and> left i' = left i - n \<and>
    ib_bits (in_inputBuffer i') = ib_bits (in_inputBuffer i)"
  using advance_bits_rep [OF assms(1,3,4)] assms(2) by auto

subsection \<open>The code length code\<close>

lemma codelen_order_perm: "distinct codelen_order" "set codelen_order = {..<19}" "length codelen_order = 19"
proof -
  show d: "distinct codelen_order" and l: "length codelen_order = 19" by (simp_all add: codelen_order_def)
  have "set codelen_order \<subseteq> {..<19}" by (simp add: codelen_order_def)
  moreover have "card (set codelen_order) = 19" using distinct_card [OF d] l by simp
  ultimately show "set codelen_order = {..<19}" by (simp add: card_subset_eq)
qed

lemma codelenLengthsOrder_eq: "codelenLengthsOrder = map Some codelen_order"
  unfolding codelenLengthsOrder_def codelen_order_def by (rule refl)

lemma codelen_order_code: "k < 19 \<Longrightarrow> rd codelenLengthsOrder k = Inr (codelen_order ! k)"
  using codelen_order_perm(3) by (simp add: rd_def codelenLengthsOrder_eq)

lemma codelen_order_less: "k < 19 \<Longrightarrow> codelen_order ! k < 19"
  using codelen_order_perm nth_mem [of k codelen_order] by auto

text \<open>The first \<open>k\<close> entries, in the order of transmission, are set.\<close>

definition codelens_set :: "nat list \<Rightarrow> nat \<Rightarrow> u8 block \<Rightarrow> bool" where
  "codelens_set cs k cells \<longleftrightarrow> length cells = 19 \<and>
     (\<forall>j < k. cells ! (codelen_order ! j) = Some (of_nat (cs ! (codelen_order ! j))))"

lemma codelens_set_next:
  assumes "codelens_set cs k cells" and "k < 19"
  shows "codelens_set cs (Suc k) (cells[codelen_order ! k := Some (of_nat (cs ! (codelen_order ! k)))])"
proof -
  have "codelen_order ! k \<noteq> codelen_order ! j" if "j < k" for j
    using that assms(2) codelen_order_perm(1,3) by (simp add: nth_eq_iff_index_eq)
  then show ?thesis
    using assms codelen_order_less [OF assms(2)] by (auto simp: codelens_set_def less_Suc_eq)
qed

lemma codelen_loop_ok:
  assumes "inf_rep st a i (concat (map (\<lambda>k. num_bits 3 (cs ! (codelen_order ! k))) [k..<n]) @ rest) out"
    and "codelens_set cs k cells" and "k \<le> n" and "n \<le> 19" and "\<forall>l \<in> set cs. l < 8" and "length cs = 19"
    and "3 * (n - k) \<le> left i"
  shows "\<exists>i' cells'. codelen_loop st [k..<n] i cells = Inr (Some cells', i') \<and> codelens_set cs n cells' \<and>
    inf_rep st a i' rest out \<and> left i' = left i - 3 * (n - k)"
  using assms(1-3,7)
proof (induction "n - k" arbitrary: i cells k)
  case 0
  then show ?case by auto
next
  case (Suc d)
  then have k: "k < n" by simp
  then have upt: "[k..<n] = k # [Suc k..<n]" by (rule upt_conv_Cons)
  let ?v = "cs ! (codelen_order ! k)"
  let ?rest = "concat (map (\<lambda>k. num_bits 3 (cs ! (codelen_order ! k))) [Suc k..<n]) @ rest"
  have rep: "inf_rep st a i (num_bits 3 ?v @ ?rest) out" using Suc.prems(1) unfolding upt by simp
  have v: "?v < 8" using assms(4-6) k codelen_order_less [of k] by simp
  have "unat (3 :: u32) \<le> left i" "unat (3 :: u32) \<le> 57" using Suc.prems(4) k by simp_all
  from use_bits_rep [OF rep this] obtain i1 where i1: "use_bits st i 3 = Inr (True, i1)"
    "inf_rep st a i1 ?rest out" "left i1 = left i - 3" "window i1 (num_bits 3 ?v @ ?rest) 57" by auto
  have low: "low_bits i1 0x07 = of_nat ?v" using low_bits_value [OF i1(4)] v by simp
  have "ucast (of_nat ?v :: u64) = (of_nat ?v :: u8)"
    using v by (simp add: word_unat_eq_iff unsigned_ucast_eq unat_of_nat take_bit_nat_eq_self)
  then have w: "wr cells (codelen_order ! k) (ucast (low_bits i1 0x07)) =
      Inr (cells[codelen_order ! k := Some (of_nat ?v)])"
    using Suc.prems(2) k assms(4) codelen_order_less [of k] low by (simp add: codelens_set_def wr_def)
  have set': "codelens_set cs (Suc k) (cells[codelen_order ! k := Some (of_nat ?v)])"
    using codelens_set_next [OF Suc.prems(2)] k assms(4) by simp
  have step: "inf_rep st a (drop_bits 3 i1) ?rest out" "3 * (n - Suc k) \<le> left (drop_bits 3 i1)"
    using i1(2,3) Suc.prems(4) k by (simp_all add: drop_bits_more)
  have d: "d = n - Suc k" using Suc.hyps(2) by simp
  have "Suc k \<le> n" using k by simp
  from Suc.hyps(1) [OF d step(1) set' this step(2)] obtain i' cells' where r:
    "codelen_loop st [Suc k..<n] (drop_bits 3 i1) (cells[codelen_order ! k := Some (of_nat ?v)]) = Inr (Some cells', i')"
    "codelens_set cs n cells'" "inf_rep st a i' rest out" "left i' = left (drop_bits 3 i1) - 3 * (n - Suc k)" by auto
  have "codelen_loop st [k..<n] i cells = Inr (Some cells', i')"
    using i1(1) w r(1) k assms(4) unfolding upt by (simp add: codelen_order_code)
  moreover have "left i' = left i - 3 * (n - k)" using r(4) i1(3) k by (simp add: drop_bits_more)
  ultimately show ?case using r(2,3) by blast
qed

lemma codelen_zero_fill:
  assumes "codelens_set cs n cells" and "n \<le> 19" and "\<forall>k < 19. n \<le> k \<longrightarrow> cs ! (codelen_order ! k) = 0"
  shows "\<exists>cells'. fold_result (\<lambda>a i. bnd (rd codelenLengthsOrder i) (\<lambda>k. wr a k 0)) cells [n..<19] = Inr cells' \<and>
    codelens_set cs 19 cells'"
proof (rule fold_result_upt [where P = "codelens_set cs"])
  fix k s
  assume k: "n \<le> k" "k < 19" and s: "codelens_set cs k s"
  from codelens_set_next [OF s k(2)] assms(3) k s codelen_order_less [OF k(2)]
  show "\<exists>s'. bnd (rd codelenLengthsOrder k) (\<lambda>k. wr s k 0) = Inr s' \<and> codelens_set cs (Suc k) s'"
    by (simp add: codelen_order_code codelens_set_def wr_def)
qed (use assms in auto)

lemma codelens_complete:
  assumes "codelens_set cs 19 cells" and "j < 19"
  shows "rd cells j = Inr (of_nat (cs ! j))"
proof -
  have "j \<in> set codelen_order" using codelen_order_perm(2) assms(2) by simp
  then obtain k where "k < 19" "codelen_order ! k = j" using codelen_order_perm(3) by (metis in_set_conv_nth)
  then show ?thesis using assms by (auto simp: codelens_set_def rd_def)
qed

lemma few_equal: "length ls < 256 \<Longrightarrow> count_list ls l < 256"
  using count_le_length [of ls l] by linarith

lemma codelen_lengths_ok:
  assumes "codelens_set cs 19 cells" and "length cs = 19" and "\<forall>l \<in> set cs. l < 8" and "kraft cs"
  shows "lengths_ok cells cs"
proof -
  have "\<exists>w. rd cells j = Inr w \<and> unat w = cs ! j" if "j < length cs" for j
  proof -
    have "cs ! j < 8" using assms(3) that by simp
    then show ?thesis using codelens_complete [OF assms(1), of j] that assms(2) by (simp add: unat_of_nat)
  qed
  moreover have "\<forall>l \<in> set cs. l \<le> 15" using assms(3) by fastforce
  ultimately show ?thesis using assms(2,4) few_equal [of cs] by (simp add: lengths_ok_def)
qed

subsection \<open>The code lengths\<close>

lemma put_lens_ok:
  assumes "holds cells xs" and "length xs + j \<le> length cells"
  shows "\<exists>cells'. put_lens x (length xs) j cells = Inr cells' \<and> holds cells' (xs @ replicate j x) \<and>
    length cells' = length cells"
proof -
  have "\<exists>cells'. put_lens x (length xs) j cells = Inr cells' \<and>
      (holds cells' (xs @ replicate (length xs + j - length xs) x) \<and> length cells' = length cells)"
    unfolding put_lens_def
  proof (rule fold_result_upt [where P = "\<lambda>k a. holds a (xs @ replicate (k - length xs) x) \<and> length a = length cells"])
    fix k a
    assume k: "length xs \<le> k" "k < length xs + j" and a: "holds a (xs @ replicate (k - length xs) x) \<and> length a = length cells"
    then have l: "length (xs @ replicate (k - length xs) x) = k" by simp
    have "holds (a[k := Some x]) ((xs @ replicate (k - length xs) x) @ [x])"
      using a k assms(2) holds_snoc [of a "xs @ replicate (k - length xs) x" x] unfolding l by simp
    then show "\<exists>a'. wr a k x = Inr a' \<and> holds a' (xs @ replicate (Suc k - length xs) x) \<and> length a' = length cells"
      using a k assms(2) by (simp add: wr_def Suc_diff_le replicate_append_same)
  qed (use assms in auto)
  then show ?thesis by auto
qed

lemma copy_lens_ok:
  assumes "holds cells xs" and "xs \<noteq> []" and "length xs + j \<le> length cells"
  shows "\<exists>cells'. copy_lens (length xs) j cells = Inr cells' \<and> holds cells' (xs @ replicate j (last xs)) \<and>
    length cells' = length cells"
proof -
  have "\<exists>cells'. copy_lens (length xs) j cells = Inr cells' \<and>
      (holds cells' (xs @ replicate (length xs + j - length xs) (last xs)) \<and> length cells' = length cells)"
    unfolding copy_lens_def
  proof (rule fold_result_upt [where P = "\<lambda>k a. holds a (xs @ replicate (k - length xs) (last xs)) \<and> length a = length cells"])
    fix k a
    let ?ys = "xs @ replicate (k - length xs) (last xs)"
    assume k: "length xs \<le> k" "k < length xs + j" and a: "holds a ?ys \<and> length a = length cells"
    then have l: "length ?ys = k" by simp
    have pos: "0 < k" using assms(2) k(1) by (cases xs) auto
    have "?ys ! (k - 1) = last ?ys" using l assms(2) by (subst last_conv_nth) auto
    then have "?ys ! (k - 1) = last xs" by (simp add: last_append last_replicate)
    then have r: "rd a (k - 1) = Inr (last xs)" using holds_rd [of a ?ys "k - 1"] a l pos by simp
    have "holds (a[k := Some (last xs)]) (?ys @ [last xs])"
      using a k assms(3) holds_snoc [of a ?ys "last xs"] unfolding l by simp
    then show "\<exists>a'. bnd (check (0 < k) OutOfBounds) (\<lambda>_. bnd (rd a (k - 1)) (\<lambda>x. wr a k x)) = Inr a' \<and>
        holds a' (xs @ replicate (Suc k - length xs) (last xs)) \<and> length a' = length cells"
      using r pos a k assms(3) by (simp add: wr_def Suc_diff_le replicate_append_same)
  qed (use assms in auto)
  then show ?thesis by auto
qed

text \<open>The lengths so far, as bytes, are at the start of the array.\<close>

definition lens_set :: "nat list \<Rightarrow> u8 block \<Rightarrow> bool" where
  "lens_set acc cells \<longleftrightarrow> holds cells (map of_nat acc) \<and> length cells = 320"

text \<open>A run-length symbol, once its word has been read.\<close>

lemma len_run_ok:
  assumes "inf_rep st a i (num_bits e v @ rest) out" and "window i (num_bits e v @ rest) m" and "e \<le> m" and "v < 2 ^ e"
    and "e \<le> left i" and "e < 10" and "low = push_bit e 1 - 1"
    and "put (length acc) (v + least) cells = Inr cells'"
  shows "\<exists>i'. len_run st i (of_nat e) low least put (length acc) cells n =
      Inr (Inl (length acc + (v + least), cells', i', Some n)) \<and> inf_rep st a i' rest out \<and> left i' = left i - e"
proof -
  from advance_ok [OF assms(1) _ assms(5)] assms(6) obtain i1 where i1: "advance_bits st i (of_nat e) = Inr (True, i1)"
    "inf_rep st a i1 rest out" "left i1 = left i - e" "ib_bits (in_inputBuffer i1) = ib_bits (in_inputBuffer i)" by auto
  have "window i1 (num_bits e v @ rest) m" using assms(2) window_same [OF i1(4)] by simp
  then have "low_bits i1 low = of_nat v" using low_bits_value [OF _ assms(3,4)] assms(7) by simp
  moreover have "v < 2 ^ 64" using assms(4,6) power_strict_increasing [of e 64 "2::nat"] by linarith
  ultimately have "unat (low_bits i1 low) = v" by (simp add: unat_of_nat)
  then show ?thesis
    using i1 assms(8) by (simp add: len_run_def Let_def)
qed

lemma run_round:
  assumes rep: "inf_rep st a i (run_bits cs r @ rest) out" and d: "decodes cs decoder" and v: "valid_run cs acc r"
    and cells: "lens_set acc cells" and fits: "length (expand_run acc r) \<le> 320" and n: "length acc < numLens"
    and room: "length (run_bits cs r) \<le> left i"
  shows "\<exists>cells' i' k. len_step st numLens decoder (length acc, cells, i, k0) =
      Inr (Inl (length (expand_run acc r), cells', i', k)) \<and>
    lens_set (expand_run acc r) cells' \<and> inf_rep st a i' rest out \<and> left i' = left i - length (run_bits cs r)"
proof -
  have head: "\<exists>i1 i2 i3. get_bits st i = Inr i1 \<and> decode_symbol decoder i1 k0 = Inr (Some (of_nat s), of_nat (cs ! s), i2) \<and>
      advance_bits st i2 (of_nat (cs ! s)) = Inr (True, i3) \<and> inf_rep st a i3 tl out \<and> window i3 tl 42 \<and>
      left i3 = left i - cs ! s"
    if "run_bits cs r @ rest = word_bits cs s @ tl" "has_word cs s" "cs ! s \<le> left i" for s tl
  proof -
    have l: "cs ! s \<le> 15" using d that(2) by (rule decodesD)
    from next_symbol [OF rep [unfolded that(1)] d that(2)] obtain i1 i2 where i2: "get_bits st i = Inr i1"
      "decode_symbol decoder i1 k0 = Inr (Some (of_nat s), of_nat (cs ! s), i2)"
      "inf_rep st a i2 (word_bits cs s @ tl) out" "window i2 tl (57 - cs ! s)" "left i2 = left i" by metis
    from advance_ok [OF i2(3) length_word_bits] that(3) i2(5) l obtain i3 where i3:
      "advance_bits st i2 (of_nat (cs ! s)) = Inr (True, i3)" "inf_rep st a i3 tl out" "left i3 = left i - cs ! s"
      "ib_bits (in_inputBuffer i3) = ib_bits (in_inputBuffer i2)" by auto
    have "window i3 tl (57 - cs ! s)" using i2(4) window_same [OF i3(4)] by blast
    then have "window i3 tl 42" using l by (elim window_less) simp
    then show ?thesis using i2(1,2) i3 by blast
  qed
  have L: "length cells = 320" "holds cells (map of_nat acc)" using cells by (auto simp: lens_set_def)
  show ?thesis
  proof (cases r)
    case (Length l)
    then obtain i1 i2 i3 where H: "get_bits st i = Inr i1"
      "decode_symbol decoder i1 k0 = Inr (Some (of_nat l), of_nat (cs ! l), i2)"
      "advance_bits st i2 (of_nat (cs ! l)) = Inr (True, i3)" "inf_rep st a i3 rest out" "left i3 = left i - cs ! l"
      using head [of l rest] v room by auto
    have l: "l \<le> 15" using v Length by simp
    then have u: "unat (of_nat l :: u16) = l" by (simp add: unat_of_nat)
    have "(of_nat l :: u16) \<le> CODELEN_MAX_LIT" using l u by (simp add: CODELEN_MAX_LIT_def word_le_nat_alt)
    moreover have "ucast (of_nat l :: u16) = (of_nat l :: u8)"
      using l u by (simp add: word_unat_eq_iff unsigned_ucast_eq unat_of_nat take_bit_nat_eq_self)
    ultimately show ?thesis
      using H n L holds_snoc [OF L(2), of "of_nat l"] Length fits
      by (simp add: len_step_def wr_def lens_set_def)
  next
    case (Again e)
    then obtain i1 i2 i3 where H: "get_bits st i = Inr i1"
      "decode_symbol decoder i1 k0 = Inr (Some (of_nat 16), of_nat (cs ! 16), i2)"
      "advance_bits st i2 (of_nat (cs ! 16)) = Inr (True, i3)" "inf_rep st a i3 (num_bits 2 e @ rest) out"
      "window i3 (num_bits 2 e @ rest) 42" "left i3 = left i - cs ! 16"
      using head [of 16 "num_bits 2 e @ rest"] v room by auto
    from copy_lens_ok [OF L(2), of "e + 3"] L(1) fits v Again obtain cells' where c:
      "copy_lens (length acc) (e + 3) cells = Inr cells'" "holds cells' (map of_nat acc @ replicate (e + 3) (last (map of_nat acc)))"
      "length cells' = 320" by auto
    have lft: "2 \<le> left i3" using H(6) room Again by simp
    have "e < 2 ^ 2" using v Again by simp
    from len_run_ok [OF H(4,5) _ this, where put = copy_lens and least = 3, OF _ _ _ _ c(1), of "0x03" "of_nat (cs ! 16)"]
    obtain i4 where "len_run st i3 2 0x03 3 copy_lens (length acc) cells (of_nat (cs ! 16)) =
        Inr (Inl (length acc + (e + 3), cells', i4, Some (of_nat (cs ! 16))))" "inf_rep st a i4 rest out" "left i4 = left i3 - 2"
      using lft by auto
    then show ?thesis
      using H(1-3,6) n c v Again
      by (auto simp add: len_step_def CODELEN_MAX_LIT_def CODELEN_COPY_def CODELEN_COPY_MIN_def lens_set_def last_map)
  next
    case (Zeros e)
    then obtain i1 i2 i3 where H: "get_bits st i = Inr i1"
      "decode_symbol decoder i1 k0 = Inr (Some (of_nat 17), of_nat (cs ! 17), i2)"
      "advance_bits st i2 (of_nat (cs ! 17)) = Inr (True, i3)" "inf_rep st a i3 (num_bits 3 e @ rest) out"
      "window i3 (num_bits 3 e @ rest) 42" "left i3 = left i - cs ! 17"
      using head [of 17 "num_bits 3 e @ rest"] v room by auto
    from put_lens_ok [OF L(2), of "e + 3" 0] L(1) fits Zeros obtain cells' where c:
      "put_lens 0 (length acc) (e + 3) cells = Inr cells'" "holds cells' (map of_nat acc @ replicate (e + 3) 0)"
      "length cells' = 320" by auto
    have lft: "3 \<le> left i3" using H(6) room Zeros by simp
    have "e < 2 ^ 3" using v Zeros by simp
    from len_run_ok [OF H(4,5) _ this, where put = "put_lens 0" and least = 3, OF _ _ _ _ c(1), of "0x07" "of_nat (cs ! 17)"]
    obtain i4 where "len_run st i3 3 0x07 3 (put_lens 0) (length acc) cells (of_nat (cs ! 17)) =
        Inr (Inl (length acc + (e + 3), cells', i4, Some (of_nat (cs ! 17))))" "inf_rep st a i4 rest out" "left i4 = left i3 - 3"
      using lft by auto
    then show ?thesis
      using H(1-3,6) n c Zeros
      by (auto simp add: len_step_def CODELEN_MAX_LIT_def CODELEN_COPY_def CODELEN_ZEROS_def CODELEN_ZEROS_MIN_def lens_set_def)
  next
    case (Many_zeros e)
    then obtain i1 i2 i3 where H: "get_bits st i = Inr i1"
      "decode_symbol decoder i1 k0 = Inr (Some (of_nat 18), of_nat (cs ! 18), i2)"
      "advance_bits st i2 (of_nat (cs ! 18)) = Inr (True, i3)" "inf_rep st a i3 (num_bits 7 e @ rest) out"
      "window i3 (num_bits 7 e @ rest) 42" "left i3 = left i - cs ! 18"
      using head [of 18 "num_bits 7 e @ rest"] v room by auto
    from put_lens_ok [OF L(2), of "e + 11" 0] L(1) fits Many_zeros obtain cells' where c:
      "put_lens 0 (length acc) (e + 11) cells = Inr cells'" "holds cells' (map of_nat acc @ replicate (e + 11) 0)"
      "length cells' = 320" by auto
    have lft: "7 \<le> left i3" using H(6) room Many_zeros by simp
    have "e < 2 ^ 7" using v Many_zeros by simp
    from len_run_ok [OF H(4,5) _ this, where put = "put_lens 0" and least = 11, OF _ _ _ _ c(1), of "0x7F" "of_nat (cs ! 18)"]
    obtain i4 where "len_run st i3 7 0x7F 11 (put_lens 0) (length acc) cells (of_nat (cs ! 18)) =
        Inr (Inl (length acc + (e + 11), cells', i4, Some (of_nat (cs ! 18))))" "inf_rep st a i4 rest out" "left i4 = left i3 - 7"
      using lft by auto
    then show ?thesis
      using H(1-3,6) n c Many_zeros
      by (auto simp add: len_step_def CODELEN_MAX_LIT_def CODELEN_COPY_def CODELEN_ZEROS_def CODELEN_ZEROS2_def
          CODELEN_ZEROS2_MIN_def lens_set_def)
  qed
qed

lemma expand_run_longer: "length acc \<le> length (expand_run acc r)"
  by (cases r) simp_all

lemma valid_runs_length:
  assumes "valid_runs cs n acc rs"
  shows "length acc \<le> n" "length (expand_runs acc rs) = n"
proof -
  from assms have "length acc \<le> n \<and> length (expand_runs acc rs) = n"
  proof (induction rs arbitrary: acc)
    case (Cons r rs)
    then show ?case by (auto intro: order_trans [OF expand_run_longer])
  qed simp
  then show "length acc \<le> n" "length (expand_runs acc rs) = n" by auto
qed

lemma valid_runs_small:
  "valid_runs cs n acc rs \<Longrightarrow> \<forall>l \<in> set acc. l \<le> 15 \<Longrightarrow> \<forall>l \<in> set (expand_runs acc rs). l \<le> 15"
proof (induction rs arbitrary: acc)
  case (Cons r rs)
  have "\<forall>l \<in> set (expand_run acc r). l \<le> 15"
    using Cons.prems by (cases r) (auto split: if_splits)
  moreover have "valid_runs cs n (expand_run acc r) rs" using Cons.prems by simp
  ultimately show ?case using Cons.IH by simp
qed simp

lemma len_loop_ok:
  assumes "inf_rep st a i (concat (map (run_bits cs) rs) @ rest) out" and "decodes cs decoder" and "valid_runs cs n acc rs"
    and "n \<le> 320" and "lens_set acc cells" and "length (concat (map (run_bits cs) rs)) \<le> left i"
  shows "\<exists>cells' i'. repeat_until (len_step st n decoder) (length acc, cells, i, k0) = Inr (Some cells', i') \<and>
    lens_set (expand_runs acc rs) cells' \<and> inf_rep st a i' rest out \<and>
    left i' = left i - length (concat (map (run_bits cs) rs))"
  using assms(1,3,5,6)
proof (induction rs arbitrary: i acc cells k0)
  case Nil
  then show ?case by (subst repeat_until_unfold) (simp add: len_step_def)
next
  case (Cons r rs)
  let ?R = "concat (map (run_bits cs) rs)"
  have V: "length acc < n" "valid_run cs acc r" "valid_runs cs n (expand_run acc r) rs" using Cons.prems(2) by auto
  have fits: "length (expand_run acc r) \<le> 320" using valid_runs_length(1) [OF V(3)] assms(4) by simp
  have rep: "inf_rep st a i (run_bits cs r @ ?R @ rest) out" using Cons.prems(1) by simp
  have room: "length (run_bits cs r) \<le> left i" using Cons.prems(4) by simp
  from run_round [OF rep assms(2) V(2) Cons.prems(3) fits V(1) room, of k0] obtain cells1 i1 k1 where r:
    "len_step st n decoder (length acc, cells, i, k0) = Inr (Inl (length (expand_run acc r), cells1, i1, k1))"
    "lens_set (expand_run acc r) cells1" "inf_rep st a i1 (?R @ rest) out" "left i1 = left i - length (run_bits cs r)"
    by blast
  have "length ?R \<le> left i1" using Cons.prems(4) r(4) by simp
  from Cons.IH [OF r(3) V(3) r(2) this, of k1] obtain cells' i' where
    "repeat_until (len_step st n decoder) (length (expand_run acc r), cells1, i1, k1) = Inr (Some cells', i')"
    "lens_set (expand_runs (expand_run acc r) rs) cells'" "inf_rep st a i' rest out" "left i' = left i1 - length ?R" by blast
  then show ?case using r(1,4) by (subst repeat_until_unfold) auto
qed

lemma lens_part_ok:
  assumes "lens_set (xs @ ys @ zs) cells" and "\<forall>l \<in> set ys. l \<le> 15" and "length ys \<le> 288" and "kraft ys"
    and "\<forall>l > 0. count_list ys l < 256"
  shows "lengths_ok (drop (length xs) cells) ys"
proof -
  have "\<exists>w. rd (drop (length xs) cells) i = Inr w \<and> unat w = ys ! i" if i: "i < length ys" for i
  proof -
    have "rd cells (length xs + i) = Inr (map of_nat (xs @ ys @ zs) ! (length xs + i))"
      using assms(1) i by (intro holds_rd) (auto simp: lens_set_def)
    moreover have "rd (drop (length xs) cells) i = rd cells (length xs + i)"
      using i holds_length assms(1) by (auto simp: rd_def lens_set_def dest!: holds_length)
    ultimately have "rd (drop (length xs) cells) i = Inr (of_nat (ys ! i))"
      using i by (simp add: nth_append)
    moreover have "ys ! i \<le> 15" using assms(2) i by simp
    ultimately show ?thesis by (simp add: unat_of_nat)
  qed
  then show ?thesis using assms(2-5) by (simp add: lengths_ok_def)
qed

subsection \<open>The header of a dynamic block\<close>

text \<open>The bits of the header, its 14-bit counts and what follows them.\<close>

definition header_rest :: "dynamic_block \<Rightarrow> bool list" where
  "header_rest b = concat (map (\<lambda>k. num_bits 3 (codelens b ! (codelen_order ! k))) [0..<num_codelen b]) @
     concat (map (run_bits (codelens b)) (runs b))"

definition header_bits :: "dynamic_block \<Rightarrow> bool list" where
  "header_bits b = num_bits 5 (num_litlen b - 257) @ num_bits 5 (num_dist b - 1) @ num_bits 4 (num_codelen b - 4) @ header_rest b"

lemma dynamic_bits_header:
  "dynamic_bits b = header_bits b @ block_bits (litlen_lens b) (dist_lens b) (tokens b)"
  by (simp add: dynamic_bits_def header_bits_def header_rest_def)

lemma counts_ok:
  assumes v: "valid_dynamic o' b" and w: "window i (header_bits b @ rest) 57"
  shows "\<exists>i1 i2 i3. read_count i 0x1F MIN_LITLEN_LENS 5 MAX_LITLEN_LENS = (Some (num_litlen b), i1) \<and>
    read_count i1 0x1F MIN_DIST_LENS 5 MAX_DIST_LENS = (Some (num_dist b), i2) \<and>
    read_count i2 0x0F MIN_CODELEN_LENS 4 MAX_CODELEN_LENS = (Some (num_codelen b), i3) \<and>
    i3 = drop_bits 4 (drop_bits 5 (drop_bits 5 i))"
proof -
  have V: "257 \<le> num_litlen b" "num_litlen b \<le> 288" "1 \<le> num_dist b" "num_dist b \<le> 32" "4 \<le> num_codelen b"
    "num_codelen b \<le> 19" using v by (auto simp: valid_dynamic_def)
  note D = MIN_LITLEN_LENS_def MAX_LITLEN_LENS_def MIN_DIST_LENS_def MAX_DIST_LENS_def MIN_CODELEN_LENS_def
    MAX_CODELEN_LENS_def
  have w0: "window i (num_bits 5 (num_litlen b - 257) @ num_bits 5 (num_dist b - 1) @ num_bits 4 (num_codelen b - 4) @
      header_rest b @ rest) 57" using w by (simp add: header_bits_def)
  have 1: "read_count i 0x1F MIN_LITLEN_LENS 5 MAX_LITLEN_LENS = (Some (num_litlen b - 257 + 257), drop_bits 5 i)"
    by (rule read_count_ok [OF w0]) (use V in \<open>simp_all add: D\<close>)
  have w1: "window (drop_bits 5 i) (num_bits 5 (num_dist b - 1) @ num_bits 4 (num_codelen b - 4) @ header_rest b @ rest) 52"
    using window_drop [OF w0, of 5] by simp
  have 2: "read_count (drop_bits 5 i) 0x1F MIN_DIST_LENS 5 MAX_DIST_LENS =
      (Some (num_dist b - 1 + 1), drop_bits 5 (drop_bits 5 i))"
    by (rule read_count_ok [OF w1]) (use V in \<open>simp_all add: D\<close>)
  have w2: "window (drop_bits 5 (drop_bits 5 i)) (num_bits 4 (num_codelen b - 4) @ header_rest b @ rest) 47"
    using window_drop [OF w1, of 5] by simp
  have "read_count (drop_bits 5 (drop_bits 5 i)) 0x0F MIN_CODELEN_LENS 4 MAX_CODELEN_LENS =
      (Some (num_codelen b - 4 + 4), drop_bits 4 (drop_bits 5 (drop_bits 5 i)))"
    by (rule read_count_ok [OF w2]) (use V in \<open>simp_all add: D\<close>)
  with 1 2 V show ?thesis by simp
qed

lemma initDynamicDecoder_ok:
  assumes rep: "inf_rep st a i (header_bits b @ rest) out" and v: "valid_dynamic o' b"
    and room: "length (header_bits b) \<le> left i"
  shows "\<exists>ld dd i'. initDynamicDecoder st i = Inr (Some (ld, dd), i') \<and> decodes (litlen_lens b) ld \<and>
    decodes (dist_lens b) dd \<and> inf_rep st a i' rest out \<and> left i' = left i - length (header_bits b)"
proof -
  let ?cs = "codelens b" and ?lens = "expand_runs [] (runs b)"
  let ?C = "concat (map (\<lambda>k. num_bits 3 (?cs ! (codelen_order ! k))) [0..<num_codelen b])"
  let ?R = "concat (map (run_bits ?cs) (runs b))"
  have V: "num_codelen b \<le> 19" "length ?cs = 19" "\<forall>l \<in> set ?cs. l < 8" "kraft ?cs"
    "\<forall>k < 19. num_codelen b \<le> k \<longrightarrow> ?cs ! (codelen_order ! k) = 0"
    "valid_runs ?cs (num_litlen b + num_dist b) [] (runs b)" "num_litlen b \<le> 288" "num_dist b \<le> 32"
    "kraft (litlen_lens b)" "\<forall>l > 0. count_list (litlen_lens b) l < 256" "kraft (dist_lens b)"
    using v by (auto simp: valid_dynamic_def)
  have lenC: "length ?C = 3 * num_codelen b" by (simp add: length_concat comp_def sum_list_triv)
  have lenH: "length (header_bits b) = 14 + 3 * num_codelen b + length ?R"
    unfolding header_bits_def header_rest_def using lenC by simp
  have "unat (14 :: u32) \<le> left i" "unat (14 :: u32) \<le> 57" using room lenH by simp_all
  from use_bits_rep [OF rep this] obtain i1 where i1: "use_bits st i 14 = Inr (True, i1)"
    "inf_rep st a i1 (drop 14 (header_bits b @ rest)) out" "left i1 = left i - 14" "window i1 (header_bits b @ rest) 57" by auto
  from counts_ok [OF v i1(4)] obtain i2 i3 i4 where i4: "read_count i1 0x1F MIN_LITLEN_LENS 5 MAX_LITLEN_LENS = (Some (num_litlen b), i2)"
    "read_count i2 0x1F MIN_DIST_LENS 5 MAX_DIST_LENS = (Some (num_dist b), i3)"
    "read_count i3 0x0F MIN_CODELEN_LENS 4 MAX_CODELEN_LENS = (Some (num_codelen b), i4)"
    "i4 = drop_bits 4 (drop_bits 5 (drop_bits 5 i1))" by blast
  have "drop 14 (header_bits b @ rest) = ?C @ ?R @ rest" by (simp add: header_bits_def header_rest_def)
  then have r4: "inf_rep st a i4 (?C @ ?R @ rest) out" "left i4 = left i - 14"
    using i1(2,3) i4(4) by (simp_all add: drop_bits_more)
  have c0: "codelens_set ?cs 0 (fresh MAX_CODELEN_LENS)" by (simp add: codelens_set_def MAX_CODELEN_LENS_def)
  have "3 * (num_codelen b - 0) \<le> left i4" using r4(2) room lenH by simp
  from codelen_loop_ok [OF r4(1) c0 _ V(1,3,2) this] obtain i5 c5 where i5:
    "codelen_loop st [0..<num_codelen b] i4 (fresh MAX_CODELEN_LENS) = Inr (Some c5, i5)"
    "codelens_set ?cs (num_codelen b) c5" "inf_rep st a i5 (?R @ rest) out" "left i5 = left i4 - 3 * num_codelen b" by auto
  from codelen_zero_fill [OF i5(2) V(1,5)] obtain c6 where c6:
    "fold_result (\<lambda>a i. bnd (rd codelenLengthsOrder i) (\<lambda>k. wr a k 0)) c5 [num_codelen b..<19] = Inr c6"
    "codelens_set ?cs 19 c6" by blast
  from decodes_init [OF codelen_lengths_ok [OF c6(2) V(2-4)]] V(2) obtain cd where cd:
    "f173ab5a_initHuffmanDecoder c6 19 = Inr cd" "decodes ?cs cd" by auto
  have l0: "lens_set [] (fresh (MAX_LITLEN_LENS + MAX_DIST_LENS))"
    by (simp add: lens_set_def MAX_LITLEN_LENS_def MAX_DIST_LENS_def)
  have "length ?R \<le> left i5" "num_litlen b + num_dist b \<le> 320" using i5(4) r4(2) room lenH V(7,8) by simp_all
  from len_loop_ok [OF i5(3) cd(2) V(6) this(2) l0 this(1), of None] obtain cells i6 where i6:
    "repeat_until (len_step st (num_litlen b + num_dist b) cd) (0, fresh (MAX_LITLEN_LENS + MAX_DIST_LENS), i5, None) =
       Inr (Some cells, i6)" "lens_set ?lens cells" "inf_rep st a i6 rest out" "left i6 = left i5 - length ?R" by auto
  have small: "\<forall>l \<in> set ?lens. l \<le> 15" using valid_runs_small [OF V(6)] by simp
  have len: "length ?lens = num_litlen b + num_dist b" by (rule valid_runs_length(2) [OF V(6)])
  have split: "?lens = litlen_lens b @ dist_lens b" by (simp add: litlen_lens_def dist_lens_def)
  have ll: "length (litlen_lens b) = num_litlen b" "length (dist_lens b) = num_dist b"
    using len by (simp_all add: litlen_lens_def dist_lens_def)
  have parts: "\<forall>l \<in> set (litlen_lens b). l \<le> 15" "\<forall>l \<in> set (dist_lens b). l \<le> 15"
    using small unfolding split by auto
  have set: "lens_set (litlen_lens b @ dist_lens b) cells" using i6(2) unfolding split .
  have "lengths_ok (drop (length ([] :: nat list)) cells) (litlen_lens b)"
    by (rule lens_part_ok [where zs = "dist_lens b"]) (use set parts V ll in auto)
  then obtain ld where ld: "f173ab5a_initHuffmanDecoder cells (num_litlen b) = Inr ld" "decodes (litlen_lens b) ld"
    using decodes_init [of cells "litlen_lens b"] ll(1) by auto
  have "lengths_ok (drop (length (litlen_lens b)) cells) (dist_lens b)"
    by (rule lens_part_ok [where zs = "[]"]) (use set parts V ll few_equal [of "dist_lens b"] in auto)
  then obtain dd where dd: "f173ab5a_initHuffmanDecoder (drop (num_litlen b) cells) (num_dist b) = Inr dd"
    "decodes (dist_lens b) dd" using decodes_init [of _ "dist_lens b"] ll by auto
  have "initDynamicDecoder st i = Inr (Some (ld, dd), i6)"
    using i1(1) i4(1-3) i5(1) c6(1) cd(1) i6(1) ld(1) dd(1)
    by (simp add: initDynamicDecoder_def MAX_CODELEN_LENS_def)
  moreover have "left i6 = left i - length (header_bits b)" using i6(4) i5(4) r4(2) lenH by simp
  ultimately show ?thesis using ld(2) dd(2) i6(3) by blast
qed

subsection \<open>A dynamic block\<close>

lemma processDynamicDeflateBlock_ok:
  assumes rep: "inf_rep st a i (dynamic_bits b @ rest) out" and v: "valid_dynamic out b"
    and fits: "length (expand_all out (tokens b)) \<le> 32768" and room: "length (dynamic_bits b) \<le> left i"
  shows "\<exists>i' st'. processDynamicDeflateBlock st i = Inr (True, i', st') \<and>
    inf_rep st' a i' rest (expand_all out (tokens b)) \<and> left i' = left i - length (dynamic_bits b)"
proof -
  let ?B = "block_bits (litlen_lens b) (dist_lens b) (tokens b)"
  have len: "length (dynamic_bits b) = length (header_bits b) + length ?B" by (simp add: dynamic_bits_header)
  have "inf_rep st a i (header_bits b @ ?B @ rest) out" "length (header_bits b) \<le> left i"
    using rep room len by (simp_all add: dynamic_bits_header)
  from initDynamicDecoder_ok [OF this(1) v this(2)] obtain ld dd i1 where i1:
    "initDynamicDecoder st i = Inr (Some (ld, dd), i1)" "decodes (litlen_lens b) ld" "decodes (dist_lens b) dd"
    "inf_rep st a i1 (?B @ rest) out" "left i1 = left i - length (header_bits b)" by blast
  have "has_word (litlen_lens b) 256" "valid_tokens (litlen_lens b) (dist_lens b) out (tokens b)"
    using v by (auto simp: valid_dynamic_def)
  moreover have "length ?B \<le> left i1" using room len i1(5) by simp
  ultimately obtain i' st' where "processLiteralBackrefBlock st i1 ld dd = Inr (True, i', st')"
    "inf_rep st' a i' rest (expand_all out (tokens b))" "left i' = left i1 - length ?B"
    using processLiteralBackrefBlock_ok [OF i1(4,2,3)] fits by blast
  then show ?thesis using i1(1,5) len by (auto simp: processDynamicDeflateBlock_def)
qed

subsection \<open>A stream of blocks\<close>

lemma head_bits: "[f, False, True] = num_bits 3 (if f then 5 else 4)"
  by (simp add: num_bits_def upt_rec bit_0)

lemma block_head:
  assumes "window i ([f, False, True] @ rest) m" and "3 \<le> m"
  shows "(low_bits i 0x01 \<noteq> 0) = f" "low_bits i 0x06 = 4"
proof -
  let ?v = "if f then 5 else 4 :: nat"
  have "?v < 2 ^ 3" by simp
  then have v: "ib_bits (in_inputBuffer i) AND 7 = of_nat ?v"
    using low_bits_value [OF assms(1) [unfolded head_bits] assms(2)] by (simp add: low_bits_def split: if_splits)
  have "low_bits i 1 = (ib_bits (in_inputBuffer i) AND 7) AND 1" "low_bits i 6 = (ib_bits (in_inputBuffer i) AND 7) AND 6"
    by (simp_all add: low_bits_def and.assoc)
  then show "(low_bits i 0x01 \<noteq> 0) = f" "low_bits i 0x06 = 4"
    unfolding v by (cases f; simp)+
qed

lemma block_step_ok:
  assumes rep: "inf_rep st a i ([f, False, True] @ dynamic_bits b @ rest) out" and v: "valid_dynamic out b"
    and fits: "length (expand_all out (tokens b)) \<le> 32768" and room: "3 + length (dynamic_bits b) \<le> left i"
  shows "\<exists>i' st'. block_step (i, st) = (if f then Inr (Inr (True, i'\<lparr>in_status := INFLATE_SUCCESS\<rparr>, st')) else Inr (Inl (i', st'))) \<and>
    inf_rep st' a i' rest (expand_all out (tokens b)) \<and> left i' = left i - (3 + length (dynamic_bits b))"
proof -
  have "unat (3 :: u32) \<le> left i" "unat (3 :: u32) \<le> 57" using room by simp_all
  from use_bits_rep [OF rep this] obtain i1 where i1: "use_bits st i 3 = Inr (True, i1)"
    "inf_rep st a i1 (dynamic_bits b @ rest) out" "left i1 = left i - 3"
    "window i1 ([f, False, True] @ dynamic_bits b @ rest) 57" by auto
  have r: "inf_rep st a (drop_bits 3 i1) (dynamic_bits b @ rest) out" using i1(2) by simp
  have "length (dynamic_bits b) \<le> left (drop_bits 3 i1)" using room i1(3) by (simp add: drop_bits_more)
  from processDynamicDeflateBlock_ok [OF r v fits this] obtain i' st' where
    "processDynamicDeflateBlock st (drop_bits 3 i1) = Inr (True, i', st')"
    "inf_rep st' a i' rest (expand_all out (tokens b))" "left i' = left i1 - length (dynamic_bits b)"
    by (auto simp: drop_bits_more)
  then show ?thesis
    using i1(1,3) block_head [OF i1(4)] by (auto simp: block_step_def Let_def stop_def)
qed

lemma expand_stream_longer: "length out \<le> length (expand_stream out bs)"
proof (induction bs arbitrary: out)
  case (Cons b bs)
  show ?case using expand_all_longer [of out "tokens b"] Cons [of "expand_all out (tokens b)"] by simp
qed simp

lemma inflate_stream:
  assumes "inf_rep st a i (stream_bits blocks @ rest) out" and "blocks \<noteq> []" and "valid_stream out blocks"
    and "length (expand_stream out blocks) \<le> 32768" and "length (stream_bits blocks) \<le> left i"
  shows "\<exists>i' st'. d592eb82_inflate st i = Inr (True, i', st') \<and> in_status i' = INFLATE_SUCCESS \<and>
    inf_rep st' a i' rest (expand_stream out blocks)"
  using assms
proof (induction blocks arbitrary: st i out)
  case (Cons b bs)
  let ?f = "bs = []" and ?out = "expand_all out (tokens b)"
  have rep: "inf_rep st a i ([?f, False, True] @ dynamic_bits b @ stream_bits bs @ rest) out" using Cons.prems(1) by simp
  have v: "valid_dynamic out b" using Cons.prems(3) by simp
  have fits: "length ?out \<le> 32768" using expand_stream_longer [of ?out bs] Cons.prems(4) by simp
  have room: "3 + length (dynamic_bits b) \<le> left i" using Cons.prems(5) by simp
  from block_step_ok [OF rep v fits room] obtain i1 st1 where s:
    "block_step (i, st) = (if ?f then Inr (Inr (True, i1\<lparr>in_status := INFLATE_SUCCESS\<rparr>, st1)) else Inr (Inl (i1, st1)))"
    "inf_rep st1 a i1 (stream_bits bs @ rest) ?out" "left i1 = left i - (3 + length (dynamic_bits b))" by blast
  show ?case
  proof (cases ?f)
    case True
    then have "d592eb82_inflate st i = Inr (True, i1\<lparr>in_status := INFLATE_SUCCESS\<rparr>, st1)"
      unfolding d592eb82_inflate_def using s(1) by (subst repeat_until_unfold) simp
    then show ?thesis using s(2) True by (simp add: inf_rep_def)
  next
    case False
    then have "d592eb82_inflate st i = d592eb82_inflate st1 i1"
      unfolding d592eb82_inflate_def using s(1) by (subst repeat_until_unfold) simp
    moreover have "length (stream_bits bs) \<le> left i1" using Cons.prems(5) s(3) by simp
    ultimately show ?thesis using Cons.IH [OF s(2) False] Cons.prems(3,4) by simp
  qed
qed simp

subsection \<open>From a file\<close>

lemma initInflate_rep:
  assumes "b426145b_acquireSlab alloc (io_pools st) = Inr (Some a, pools)"
    and "\<forall>slab. page_chain (st\<lparr>pageBytes := (pageBytes st)(a \<mapsto> slab)\<rparr>) p (pg # pgs)"
    and "pageBytes st a = None \<or> (\<exists>slab. pageBytes st a = Some slab \<and> length slab = 32768)"
    and "fb_get st p = Inr fb" and "unat (fb_dataOffset fb) \<le> 4096" and "unat len < 2 ^ 29"
    and "unat (fb_dataOffset fb) + unat len + 8 \<le> length (concat (pg # pgs))"
  shows "\<exists>i st1. d592eb82_initInflate alloc st p len = Inr (i, st1) \<and>
    inf_rep st1 a i (bits_of (drop (unat (fb_dataOffset fb)) (concat (pg # pgs)))) [] \<and> left i = 8 * unat len"
proof -
  let ?bs = "bits_of (drop (unat (fb_dataOffset fb)) (concat (pg # pgs)))"
  let ?m = "slab_memory (pageBytes st) (Some a)"
  define ib where "ib = \<lparr>ib_fileBuffer = p, ib_buffer = fb_buffer fb, ib_bits = 0, ib_bitPos = 0,
          ib_totalNumBits = ucast (push_bit 3 len), ib_offsetBitPos = push_bit 3 (fb_dataOffset fb)\<rparr>"
  let ?st1 = "st\<lparr>io_pools := pools, pageBytes := ?m\<rparr>"
  have each: "ib_source (?st1\<lparr>pageBytes := (pageBytes ?st1)(a \<mapsto> slab)\<rparr>) ib ?bs \<and> ib_left ib = 8 * unat len" for slab
  proof -
    let ?st2 = "?st1\<lparr>pageBytes := (pageBytes ?st1)(a \<mapsto> slab)\<rparr>"
    have m: "?m(a \<mapsto> slab) = (pageBytes st)(a \<mapsto> slab)" by (simp add: slab_memory_def)
    have g: "fb_get ?st2 q = fb_get st q" for q by (simp add: fb_get_def)
    have pg: "page_get ?st2 q = page_get (st\<lparr>pageBytes := (pageBytes st)(a \<mapsto> slab)\<rparr>) q" for q
      by (simp add: page_get_def m)
    have "page_chain ?st2 q xs = page_chain (st\<lparr>pageBytes := (pageBytes st)(a \<mapsto> slab)\<rparr>) q xs" for q xs
    proof (induction xs arbitrary: q)
      case (Cons x xs)
      have "fb_get (st\<lparr>pageBytes := (pageBytes st)(a \<mapsto> slab)\<rparr>) q = fb_get st q" by (simp add: fb_get_def)
      then show ?case by (simp only: page_chain_Cons g pg Cons.IH)
    qed simp
    then have "page_chain ?st2 p (pg # pgs)" using assms(2) by blast
    from initInputBuffer_source [OF this _ assms(5,6)] show ?thesis
      using assms(4) unfolding c49f5b0d_initInputBuffer_def g ib_def by simp
  qed
  let ?i = "\<lparr>in_inputBuffer = ib, in_outputBuffer = \<lparr>ob_buffer = Some a, ob_length = 0, ob_size = 0\<rparr>,
      inputBlockStart = 0, in_status = INFLATE_SUCCESS\<rparr>"
  have "d592eb82_initInflate alloc st p len = Inr (?i, ?st1)"
    using assms(1,4) by (simp add: d592eb82_initInflate_def c49f5b0d_initInputBuffer_def c49f5b0d_initOutputBuffer_def ib_def)
  moreover have "source ?st1 a ib ?bs" unfolding source_def using each by blast
  moreover have "\<exists>slab. ?m a = Some slab \<and> length slab = 32768"
    using assms(3) by (auto simp: slab_memory_def SLABPOOL_SLAB_SIZE_def)
  moreover have "8 * unat len + 64 \<le> length ?bs" using assms(7) by simp
  ultimately show ?thesis using each by (auto simp: inf_rep_def)
qed

subsection \<open>Properties\<close>

text \<open>C4: decompressing a file is the inverse of compressing it. If the bits of a chain of pages, from the data
  offset on, encode a stream of dynamic blocks (literals and back references under canonical codes, the code
  lengths run-length encoded), then inflate succeeds and the output slab holds exactly the bytes the
  blocks stand for.\<close>

theorem inflate_decodes_stream:
  assumes "b426145b_acquireSlab alloc (io_pools st) = Inr (Some a, pools)"
    and "\<forall>slab. page_chain (st\<lparr>pageBytes := (pageBytes st)(a \<mapsto> slab)\<rparr>) p (pg # pgs)"
    and "pageBytes st a = None \<or> (\<exists>slab. pageBytes st a = Some slab \<and> length slab = 32768)"
    and "fb_get st p = Inr fb" and "unat (fb_dataOffset fb) \<le> 4096" and "unat len < 2 ^ 29"
    and "unat (fb_dataOffset fb) + unat len + 8 \<le> length (concat (pg # pgs))"
    and "bits_of (drop (unat (fb_dataOffset fb)) (concat (pg # pgs))) = stream_bits blocks @ rest"
    and "length (stream_bits blocks) \<le> 8 * unat len"
    and "blocks \<noteq> []" and "valid_stream [] blocks" and "length (expand_stream [] blocks) \<le> 32768"
  shows "\<exists>i st1 i' st2 slab. d592eb82_initInflate alloc st p len = Inr (i, st1) \<and>
    d592eb82_inflate st1 i = Inr (True, i', st2) \<and> in_status i' = INFLATE_SUCCESS \<and>
    unat (ob_length (in_outputBuffer i')) = length (expand_stream [] blocks) \<and>
    page_get st2 (ob_buffer (in_outputBuffer i')) = Inr slab \<and> holds slab (expand_stream [] blocks)"
proof -
  from initInflate_rep [OF assms(1-7)] obtain i st1 where i: "d592eb82_initInflate alloc st p len = Inr (i, st1)"
    "inf_rep st1 a i (stream_bits blocks @ rest) []" "left i = 8 * unat len" unfolding assms(8) by blast
  have "length (stream_bits blocks) \<le> left i" using assms(9) i(3) by simp
  from inflate_stream [OF i(2) assms(10-12) this] obtain i' st2 where i': "d592eb82_inflate st1 i = Inr (True, i', st2)"
    "in_status i' = INFLATE_SUCCESS" "inf_rep st2 a i' rest (expand_stream [] blocks)" by blast
  from i'(3) obtain slab where "pageBytes st2 a = Some slab" "holds slab (expand_stream [] blocks)"
    "ob_buffer (in_outputBuffer i') = Some a" "unat (ob_length (in_outputBuffer i')) = length (expand_stream [] blocks)"
    by (auto simp: inf_rep_def)
  then show ?thesis using i(1) i'(1,2) by (auto simp: page_get_def)
qed

text \<open>An example: the text \<open>aaaa\<close> as a literal and a back reference that overlaps its own output.\<close>

definition sample_block :: dynamic_block where
  "sample_block = \<lparr>num_litlen = 258, num_dist = 1, num_codelen = 18,
     codelens = [0, 2, 2, 0, 0, 0, 0, 0, 0, 0, 0, 0, 0, 0, 0, 0, 0, 0, 1],
     runs = [Many_zeros 86, Length 1, Many_zeros 127, Many_zeros 9, Length 2, Length 2, Length 1],
     tokens = [Literal 97, Copy 0 0 0 0]\<rparr>"

definition sample_bytes :: "u8 list" where
  "sample_bytes = [13, 192, 129, 0, 0, 0, 0, 128, 32, 214, 252, 37, 62, 11]"

lemma count_list_replicate: "count_list (replicate n x) y = (if x = y then n else 0)"
  by (induction n) auto

lemma kraft_unfold: "kraft ls \<longleftrightarrow> first_code ls 15 + cnt ls 15 \<le> 32768"
  by (simp add: kraft_def)

lemma sample_lens:
  "litlen_lens sample_block = replicate 97 0 @ 1 # replicate 158 0 @ [2, 2]" "dist_lens sample_block = [1]"
proof -
  have r: "replicate 158 (0::nat) = replicate 138 0 @ replicate 20 0" by (simp add: replicate_add [symmetric])
  have "expand_runs [] (runs sample_block) = (replicate 97 0 @ 1 # replicate 158 0 @ [2, 2]) @ [1]"
    unfolding r by (simp add: sample_block_def)
  then show "litlen_lens sample_block = replicate 97 0 @ 1 # replicate 158 0 @ [2, 2]" "dist_lens sample_block = [1]"
    by (simp_all add: litlen_lens_def dist_lens_def sample_block_def)
qed

lemma sample_valid: "valid_stream [] [sample_block]"
proof -
  let ?ls = "replicate 97 0 @ 1 # replicate 158 0 @ [2, 2 :: nat]"
  have runs: "valid_runs (codelens sample_block) 259 [] (runs sample_block)"
    by (simp add: sample_block_def has_word_def)
  have ls: "kraft ?ls" "\<forall>l > 0. count_list ?ls l < 256"
    by (simp_all add: kraft_unfold first_code_numeral cnt_def count_list_append count_list_replicate)
  have ds: "kraft [1]" by (simp add: kraft_unfold first_code_numeral cnt_def)
  have cs: "kraft (codelens sample_block)" by (simp add: kraft_unfold first_code_numeral cnt_def sample_block_def)
  have words: "has_word ?ls 256" "has_word ?ls 97" "has_word ?ls 257" "has_word [1] 0"
    by (simp_all add: has_word_def nth_append nth_Cons')
  have toks: "valid_tokens ?ls [1] [] (tokens sample_block)"
    using words by (simp add: sample_block_def len_extra_def dist_extra_def dist_base_def)
  have order: "\<forall>k < 19. num_codelen sample_block \<le> k \<longrightarrow> codelens sample_block ! (codelen_order ! k) = 0"
  proof (intro allI impI)
    fix k :: nat
    assume "k < 19" "num_codelen sample_block \<le> k"
    then have "k = 18" by (simp add: sample_block_def)
    then show "codelens sample_block ! (codelen_order ! k) = 0" by (simp add: sample_block_def codelen_order_def)
  qed
  show ?thesis
    using runs ls ds cs words(1) toks order
    by (simp add: valid_dynamic_def sample_lens) (simp add: sample_block_def)
qed

lemma sample_stream: "bits_of sample_bytes = stream_bits [sample_block] @ [False, False, False]"
proof -
  let ?ls = "replicate 97 0 @ 1 # replicate 158 0 @ [2, 2 :: nat]"
  let ?cs = "[0, 2, 2, 0, 0, 0, 0, 0, 0, 0, 0, 0, 0, 0, 0, 0, 0, 0, 1 :: nat]"
  have "code ?ls 97 = 0" "code ?ls 256 = 2" "code ?ls 257 = 3" "code [1] 0 = 0" "code ?cs 18 = 0" "code ?cs 1 = 2" "code ?cs 2 = 3"
    by (simp_all add: code_def before_def first_code_numeral cnt_def count_list_append count_list_replicate nth_append nth_Cons')
  then have words: "word_bits ?ls 97 = [False]" "word_bits ?ls 256 = [True, False]" "word_bits ?ls 257 = [True, True]"
    "word_bits [1] 0 = [False]" "word_bits ?cs 18 = [False]" "word_bits ?cs 1 = [True, False]" "word_bits ?cs 2 = [True, True]"
    by (simp_all add: word_bits_def nth_append nth_Cons' upt_rec bit_0)
  show ?thesis
    by (simp add: dynamic_bits_def sample_lens block_bits_def)
      (simp add: sample_block_def sample_bytes_def codelen_order_def words [unfolded One_nat_def] num_bits_def upt_rec
        len_extra_def dist_extra_def bit_0)
qed

lemma sample_text: "expand_stream [] [sample_block] = [97, 97, 97, 97]"
  by (simp add: sample_block_def len_base_def dist_base_def numeral_3_eq_3)

lemma inflate_decodes_stream_witness:
  "\<exists>(st :: fb_state) i st1 i' st2 slab. d592eb82_initInflate (\<lambda>n. 32768 * Suc n) st (Some 8) 14 = Inr (i, st1) \<and>
    d592eb82_inflate st1 i = Inr (True, i', st2) \<and>
    page_get st2 (ob_buffer (in_outputBuffer i')) = Inr slab \<and> holds slab [97, 97, 97, 97]"
proof -
  let ?alloc = "\<lambda>n. 32768 * Suc n" and ?page = "sample_bytes @ replicate 4082 0"
  let ?fb = "\<lparr>fb_buffer = Some 4096, fb_next = None, fb_fileOffset = 0, fb_dataOffset = 0, fb_numBytes = 4096\<rparr>"
  let ?st = "initial_state\<lparr>fileBuffers := [8 \<mapsto> ?fb], pageBytes := [4096 \<mapsto> map Some ?page]\<rparr>"
  have "\<exists>p st' free'. b426145b_acquireSlab ?alloc initial_pools = Inr (Some p, st') \<and> slab_inv ?alloc st' free' [p] \<and>
      pagePool st' = pagePool initial_pools \<and> memoryPool st' = memoryPool initial_pools \<and>
      allocCalls st' \<le> Suc (allocCalls initial_pools) \<and> p \<notin> set []"
    by (rule acquireSlab_inv)
      (rule slab_inv_initial, simp_all add: slabs_apart_def SLABPOOL_SLAB_SIZE_def initial_pools_def, arith)
  then obtain a pools free' where a: "b426145b_acquireSlab ?alloc initial_pools = Inr (Some a, pools)"
    "slab_inv ?alloc pools free' [a]" by blast
  have "a \<in> ?alloc ` {..<allocCalls pools}" using a(2) by (simp add: slab_inv_def Let_def) auto
  then have ne: "a \<noteq> 4096" by auto
  have io: "io_pools ?st = initial_pools" by (simp add: initial_state_def)
  have len: "length ?page = 4096" by (simp add: sample_bytes_def)
  have g: "fb_get ?st (Some 8) = Inr ?fb" by (simp add: fb_get_def)
  have chain: "page_chain (?st\<lparr>pageBytes := (pageBytes ?st)(a \<mapsto> slab)\<rparr>) (Some 8) [?page]" for slab
    using ne len by (simp add: page_chain_Cons fb_get_def page_get_def)
  have bits: "bits_of ?page = stream_bits [sample_block] @ ([False, False, False] @ bits_of (replicate 4082 0))"
    using sample_stream by simp
  have "length (stream_bits [sample_block]) = length (bits_of sample_bytes) - 3" unfolding sample_stream by simp
  then have "length (stream_bits [sample_block]) \<le> 112" by (simp add: sample_bytes_def)
  then have "\<exists>i st1 i' st2 slab. d592eb82_initInflate ?alloc ?st (Some 8) 14 = Inr (i, st1) \<and>
    d592eb82_inflate st1 i = Inr (True, i', st2) \<and> in_status i' = INFLATE_SUCCESS \<and>
    unat (ob_length (in_outputBuffer i')) = length (expand_stream [] [sample_block]) \<and>
    page_get st2 (ob_buffer (in_outputBuffer i')) = Inr slab \<and> holds slab (expand_stream [] [sample_block])"
    by (intro inflate_decodes_stream [where fb = ?fb and pg = ?page and pgs = "[]" and a = a and pools = pools
          and rest = "[False, False, False] @ bits_of (replicate 4082 0)"])
      (use a(1) io chain ne g len bits sample_valid sample_text in simp_all)
  then show ?thesis unfolding sample_text by blast
qed

end
