(* ===== verification/InflateFrame.thy ===== *)
theory InflateFrame
  imports Inflate
begin

text \<open>
  What inflate leaves alone: of the global state only the contents of the output slab change, so the pools, the chain of
  input buffers and all other pages are afterwards what they were before.
\<close>

definition framed :: "nat \<Rightarrow> 'z fb_state_scheme \<Rightarrow> 'z fb_state_scheme \<Rightarrow> bool" where
  "framed a st st' \<longleftrightarrow> (\<exists>m. st' = st\<lparr>pageBytes := m\<rparr> \<and> (\<forall>q. q \<noteq> a \<longrightarrow> m q = pageBytes st q))"

lemma framed_refl [simp]: "framed a st st"
proof -
  have "st = st\<lparr>pageBytes := pageBytes st\<rparr>" by simp
  then show ?thesis unfolding framed_def by blast
qed

lemma framed_trans: "framed a st st1 \<Longrightarrow> framed a st1 st2 \<Longrightarrow> framed a st st2"
  by (auto simp: framed_def)

lemma framed_pools: "framed a st st' \<Longrightarrow> io_pools st' = io_pools st"
  by (auto simp: framed_def)

text \<open>Every value of a computation satisfies a predicate; the rule for loops needs no measure.\<close>

definition yields :: "('a \<Rightarrow> bool) \<Rightarrow> 'a result \<Rightarrow> bool" where
  "yields P r \<longleftrightarrow> (\<forall>x. r = Inr x \<longrightarrow> P x)"

lemma yields_Inr [simp]: "yields P (Inr x) = P x"
  by (simp add: yields_def)

lemma yields_Inl [simp]: "yields P (Inl e)"
  by (simp add: yields_def)

lemma yields_bnd: "yields P m \<Longrightarrow> (\<And>x. P x \<Longrightarrow> yields Q (f x)) \<Longrightarrow> yields Q (bnd m f)"
  by (cases m) simp_all

lemma yields_any: "(\<And>x. yields Q (f x)) \<Longrightarrow> yields Q (bnd m f)"
  by (cases m) simp_all

lemma yields_loop:
  assumes "P s" and step: "\<And>s. P s \<Longrightarrow> yields (\<lambda>x. case x of Inl s' \<Rightarrow> P s' | Inr r \<Rightarrow> Q r) (body s)"
  shows "yields Q (repeat_until body s)"
proof -
  let ?c = "\<lambda>x. case x of Inr (Inl s) \<Rightarrow> body s | _ \<Rightarrow> x"
  let ?I = "yields (\<lambda>x. case x of Inl s' \<Rightarrow> P s' | Inr r \<Rightarrow> Q r)"
  have "?I y" if "while_option goes_on ?c (Inr (Inl s)) = Some y" for y
  proof (rule while_option_rule [where P = ?I, OF _ that])
    fix x assume "?I x" "goes_on x"
    then show "?I (?c x)" using step by (auto simp: goes_on_def split: sum.splits)
  qed (simp add: assms(1))
  then show ?thesis
    by (auto simp: repeat_until_def split: option.split sum.split)
qed

subsection \<open>The output buffer stays\<close>

definition to :: "nat \<Rightarrow> Inflate \<Rightarrow> bool" where
  "to a i \<longleftrightarrow> ob_buffer (in_outputBuffer i) = Some a"

lemma to_bits [simp]: "to a (drop_bits n i) = to a i" "to a (grow_output i k) = to a i" "to a (i\<lparr>in_status := status\<rparr>) = to a i"
  "to a (i\<lparr>in_inputBuffer := ib\<rparr>) = to a i"
  by (simp_all add: drop_bits_def grow_output_def to_def)

lemma to_extra:
  assumes "to a i" and "\<And>len j u. to a j \<Longrightarrow> yields Q (g len j u)"
  shows "yields Q (case extra i base n used of (len, j, u) \<Rightarrow> g len j u)"
proof -
  obtain len j u where "extra i base n used = (len, j, u)" by (cases "extra i base n used") auto
  moreover from this have "to a j" using assms(1) by (auto simp: extra_def split: if_splits)
  ultimately show ?thesis using assms(2) by simp
qed

lemma to_count:
  assumes "to a i" and "\<And>num j. to a j \<Longrightarrow> yields Q (g num j)"
  shows "yields Q (case read_count i low least n most of (num, j) \<Rightarrow> g num j)"
proof -
  obtain num j where "read_count i low least n most = (num, j)" by (cases "read_count i low least n most") auto
  moreover from this have "to a j" using assms(1) by (auto simp: read_count_def Let_def split: if_splits)
  ultimately show ?thesis using assms(2) by simp
qed

lemma to_input:
  assumes "to a i"
  shows "(\<And>j. to a j \<Longrightarrow> yields Q (f j)) \<Longrightarrow> yields Q (bnd (get_bits st i) f)"
    "(\<And>ok j. to a j \<Longrightarrow> yields Q (g (ok, j))) \<Longrightarrow> yields Q (bnd (advance_bits st i n) g)"
    "(\<And>ok j. to a j \<Longrightarrow> yields Q (g (ok, j))) \<Longrightarrow> yields Q (bnd (use_bits st i k) g)"
    "(\<And>sym n j. to a j \<Longrightarrow> yields Q (h (sym, n, j))) \<Longrightarrow> yields Q (bnd (decode_symbol d i used) h)"
  using assms unfolding get_bits_def advance_bits_def use_bits_def decode_symbol_def
  by (auto simp: bnd_assoc case_prod_unfold intro!: yields_any)

text \<open>Steps that do not touch the state.\<close>

lemmas yields_plain =
  yields_any [where m = "rd b k" for b k] yields_any [where m = "wr b k x" for b k x]
  yields_any [where m = "fold_result f s xs" for f s xs] yields_any [where m = "f173ab5a_initHuffmanDecoder ls n" for ls n]

lemma to_codelens: "to a i \<Longrightarrow> yields (\<lambda>(ls, i'). to a i') (codelen_loop st is i lens)"
proof (induction "is" arbitrary: i lens)
  case (Cons k ks)
  then show ?case
    by (auto intro!: to_input(3) [where a = a] yields_plain Cons.IH)
qed simp

lemma to_len_run: "to a i \<Longrightarrow> yields (\<lambda>x. case x of Inl (k, ls, i', n) \<Rightarrow> to a i' | Inr (ls, i') \<Rightarrow> to a i')
    (len_run st i n low least put k lens used)"
  unfolding len_run_def Let_def
  by (rule to_input(2) [where a = a]) (auto intro: yields_any simp: len_fail_def)

lemma to_len_step: "to a i \<Longrightarrow> yields (\<lambda>x. case x of Inl (k, ls, i', n) \<Rightarrow> to a i' | Inr (ls, i') \<Rightarrow> to a i')
    (len_step st num d (k, lens, i, used))"
  unfolding len_step_def
  by (auto intro!: to_input [where a = a] yields_plain to_len_run simp: len_fail_def split: option.split)

lemma to_decoders: "to a i \<Longrightarrow> yields (\<lambda>(ds, i'). to a i') (initDynamicDecoder st i)"
proof -
  assume i: "to a i"
  have loop: "yields (\<lambda>(ls, i'). to a i') (repeat_until (len_step st num d) (0, lens, j, None))" if "to a j" for num d lens j
    using that by (intro yields_loop [where P = "\<lambda>(k, ls, i', n). to a i'"]) (auto intro: to_len_step)
  have cells: "(\<And>ls j. to a j \<Longrightarrow> yields Q (f (ls, j))) \<Longrightarrow> yields Q (bnd (codelen_loop st ks j lens) f)" if "to a j" for ks j lens Q and f :: "_ \<Rightarrow> 'b result"
    by (rule yields_bnd [OF to_codelens [OF that]]) auto
  have runs: "(\<And>ls j. to a j \<Longrightarrow> yields Q (f (ls, j))) \<Longrightarrow> yields Q (bnd (repeat_until (len_step st num d) (0, lens, j, None)) f)"
    if "to a j" for num d lens j Q and f :: "_ \<Rightarrow> 'b result"
    by (rule yields_bnd [OF loop [OF that]]) auto
  show ?thesis
    unfolding initDynamicDecoder_def using i
    by (auto intro!: to_input(3) [where a = a] to_count [where a = a] cells runs yields_plain split: option.split)
qed

subsection \<open>The steps of inflate\<close>

lemma put_frames:
  assumes "ob_buffer ob = Some a"
  shows "yields (framed a st) (slab_put st (ob_buffer ob) slab)" "yields (framed a st) (put_byte st ob x)"
proof -
  show put: "yields (framed a st) (slab_put st (ob_buffer ob) slab)" for slab
    using assms by (auto simp: slab_put_def framed_def)
  show "yields (framed a st) (put_byte st ob x)"
    unfolding put_byte_def by (intro yields_any put)
qed

lemma put_to: "to a i \<Longrightarrow> yields (framed a st) (put_byte st (in_outputBuffer i) x)"
  by (rule put_frames) (simp add: to_def)

lemma backref_frames:
  assumes "ob_buffer ob = Some a"
  shows "yields (framed a st) (lz77_output_backref st ob dist len)" "yields (framed a st) (output_backref64 st ob dist len)"
proof -
  show lz: "yields (framed a st) (lz77_output_backref st ob dist len)"
    unfolding lz77_output_backref_def by (intro yields_any put_frames assms)
  show "yields (framed a st) (output_backref64 st ob dist len)"
    unfolding output_backref64_def using lz by (auto intro!: yields_any put_frames assms)
qed

text \<open>A step of the literal loop, and what it hands on.\<close>

definition lit_framed :: "nat \<Rightarrow> 'z fb_state_scheme \<Rightarrow> 'z lit_state + 'z outcome \<Rightarrow> bool" where
  "lit_framed a st x = (case x of Inl (i, st', n) \<Rightarrow> framed a st st' \<and> to a i | Inr (ok, i, st') \<Rightarrow> framed a st st' \<and> to a i)"

lemma stop_frames [simp]: "to a i \<Longrightarrow> yields (lit_framed a st) (stop ok status i st)"
  by (simp add: stop_def lit_framed_def)

lemma go_on_frames:
  "to a i \<Longrightarrow> yields (framed a st) m \<Longrightarrow> yields (lit_framed a st) (bnd m (\<lambda>st. Inr (Inl (i, st, n))))"
  by (erule yields_bnd) (simp add: lit_framed_def)

lemma write_backref_frames: "to a i \<Longrightarrow> yields (lit_framed a st) (write_backref st i dist len n)"
  by (auto simp: write_backref_def Let_def to_def [symmetric] intro!: go_on_frames backref_frames intro: to_def [THEN iffD1])

lemma backref_step_frames: "to a i \<Longrightarrow> yields (lit_framed a st) (backref_step d litlen st i n)"
  unfolding backref_step_def Let_def
  by (auto intro!: to_input(2,4) [where a = a] to_extra [where a = a] yields_plain write_backref_frames split: option.split)

lemma literal_backref_step_frames: "to a i \<Longrightarrow> yields (lit_framed a st) (literal_backref_step l d (i, st, n))"
  unfolding literal_backref_step_def
  by (auto intro!: to_input [where a = a] go_on_frames put_to backref_step_frames split: option.split)

lemma processLiteralBackrefBlock_frames:
  assumes "to a i"
  shows "yields (\<lambda>(ok, i, st'). framed a st st' \<and> to a i) (processLiteralBackrefBlock st i l d)"
  unfolding processLiteralBackrefBlock_def
proof (rule yields_loop [where P = "\<lambda>(i, st', n). framed a st st' \<and> to a i"])
  fix s :: "'a lit_state" assume "case s of (i, st', n) \<Rightarrow> framed a st st' \<and> to a i"
  then obtain i st' n where s: "s = (i, st', n)" "framed a st st'" "to a i" by (cases s) auto
  have "yields (lit_framed a st') (literal_backref_step l d s)"
    unfolding s(1) using s(3) by (rule literal_backref_step_frames)
  then show "yields (\<lambda>x. case x of Inl (i, st', n) \<Rightarrow> framed a st st' \<and> to a i | Inr (ok, i, st') \<Rightarrow> framed a st st' \<and> to a i)
      (literal_backref_step l d s)"
    using s(2) by (fastforce simp: yields_def lit_framed_def intro: framed_trans split: sum.splits)
qed (simp add: assms)

lemma block_step_frames:
  assumes "to a i"
  shows "yields (\<lambda>x. case x of Inl (i, st') \<Rightarrow> framed a st st' \<and> to a i | Inr (ok, i, st') \<Rightarrow> framed a st st' \<and> to a i) (block_step (i, st))"
proof -
  have dyn: "yields (\<lambda>(ok, i, st'). framed a st st' \<and> to a i) (processDynamicDeflateBlock st j)" if "to a j" for j
    unfolding processDynamicDeflateBlock_def
    by (rule yields_bnd [OF to_decoders [OF that]])
      (auto intro!: processLiteralBackrefBlock_frames split: option.split prod.split)
  show ?thesis
    unfolding block_step_def Let_def using assms
    by (auto intro!: to_input(3) [where a = a] yields_bnd [OF dyn]
        simp: stop_def processNonCompressionBlock_def processFixedDeflateBlock_def)
qed

lemma inflate_frames:
  assumes "to a i"
  shows "yields (\<lambda>(ok, i', st'). framed a st st' \<and> to a i') (d592eb82_inflate st i)"
  unfolding d592eb82_inflate_def
proof (rule yields_loop [where P = "\<lambda>(i, st'). framed a st st' \<and> to a i"])
  fix s :: "Inflate \<times> 'a fb_state_scheme" assume "case s of (i, st') \<Rightarrow> framed a st st' \<and> to a i"
  then obtain i st' where s: "s = (i, st')" "framed a st st'" "to a i" by (cases s) auto
  show "yields (\<lambda>x. case x of Inl (i, st') \<Rightarrow> framed a st st' \<and> to a i | Inr (ok, i', st') \<Rightarrow> framed a st st' \<and> to a i') (block_step s)"
    unfolding s(1) using block_step_frames [OF s(3), of st'] s(2)
    by (fastforce simp: yields_def intro: framed_trans split: sum.splits)
qed (simp add: assms)

end
