(* ===== verification/Md5.thy ===== *)
theory Md5
  imports ErrorReport
begin

text \<open>
  hash/md5.c and md5.linux-x86_64.asm: the MD5 transform of one 64-byte block and the digests built from
  it. The digest is the four words of \<open>state\<close>; words are little-endian. The assembly
  computes the 64 operations from the loop index; \<open>Md5Reference\<close> compares them with the C routine. The
  digest functions close a message with a byte 0x80, zeros and the length as a 64-bit number; the
  length is in bytes here, where the algorithm has bits.
\<close>

unbundle bit_operations_syntax

type_synonym digest = "u32 \<times> u32 \<times> u32 \<times> u32"

subsection \<open>The transform\<close>

definition sines :: "u32 list" where
  "sines =
     [0xd76aa478, 0xe8c7b756, 0x242070db, 0xc1bdceee, 0xf57c0faf, 0x4787c62a, 0xa8304613, 0xfd469501,
      0x698098d8, 0x8b44f7af, 0xffff5bb1, 0x895cd7be, 0x6b901122, 0xfd987193, 0xa679438e, 0x49b40821,
      0xf61e2562, 0xc040b340, 0x265e5a51, 0xe9b6c7aa, 0xd62f105d, 0x02441453, 0xd8a1e681, 0xe7d3fbc8,
      0x21e1cde6, 0xc33707d6, 0xf4d50d87, 0x455a14ed, 0xa9e3e905, 0xfcefa3f8, 0x676f02d9, 0x8d2a4c8a,
      0xfffa3942, 0x8771f681, 0x6d9d6122, 0xfde5380c, 0xa4beea44, 0x4bdecfa9, 0xf6bb4b60, 0xbebfbc70,
      0x289b7ec6, 0xeaa127fa, 0xd4ef3085, 0x04881d05, 0xd9d4d039, 0xe6db99e5, 0x1fa27cf8, 0xc4ac5665,
      0xf4292244, 0x432aff97, 0xab9423a7, 0xfc93a039, 0x655b59c3, 0x8f0ccc92, 0xffeff47d, 0x85845dd1,
      0x6fa87e4f, 0xfe2ce6e0, 0xa3014314, 0x4e0811a1, 0xf7537e82, 0xbd3af235, 0x2ad7d2bb, 0xeb86d391]"

definition le_word :: "u8 list \<Rightarrow> nat \<Rightarrow> u32" where
  "le_word bs i = ucast (bs ! (4 * i)) OR push_bit 8 (ucast (bs ! (4 * i + 1))) OR
     push_bit 16 (ucast (bs ! (4 * i + 2))) OR push_bit 24 (ucast (bs ! (4 * i + 3)))"

text \<open>Round \<open>i\<close>: which mix of the other three words, which word of the block, how far to rotate.\<close>

definition mix :: "nat \<Rightarrow> u32 \<Rightarrow> u32 \<Rightarrow> u32 \<Rightarrow> u32" where
  "mix i b c d =
     (if i < 16 then (b AND c) OR (NOT b AND d)
      else if i < 32 then (b AND d) OR (NOT d AND c)
      else if i < 48 then b XOR c XOR d
      else (NOT d OR b) XOR c)"

definition block_word :: "nat \<Rightarrow> nat" where
  "block_word i =
     (if i < 16 then i else if i < 32 then (5 * i + 1) mod 16 else if i < 48 then (3 * i + 5) mod 16
      else (7 * i) mod 16)"

definition rotation :: "nat \<Rightarrow> nat" where
  "rotation i = [[7, 12, 17, 22], [5, 9, 14, 20], [4, 11, 16, 23], [6, 10, 15, 21]] ! (i div 16) ! (i mod 4)"

definition round_value :: "u8 list \<Rightarrow> nat \<Rightarrow> u32 \<Rightarrow> u32 \<Rightarrow> u32 \<Rightarrow> u32 \<Rightarrow> u32" where
  "round_value block i a b c d =
     b + word_rotl (rotation i) (a + (mix i b c d + sines ! i + le_word block (block_word i)))"

text \<open>The four slots a, b, c, d are written in turn: a, d, c, b.\<close>

definition md5_round :: "u8 list \<Rightarrow> digest \<Rightarrow> nat \<Rightarrow> digest" where
  "md5_round block s i =
     (let (a, b, c, d) = s
      in if i mod 4 = 0 then (round_value block i a b c d, b, c, d)
         else if i mod 4 = 1 then (a, b, c, round_value block i d a b c)
         else if i mod 4 = 2 then (a, b, round_value block i c d a b, d)
         else (a, round_value block i b c d a, c, d))"

definition f1518caf_md5Transform :: "digest \<Rightarrow> u8 list \<Rightarrow> digest" where
  "f1518caf_md5Transform state block =
     (let (a, b, c, d) = foldl (md5_round block) state [0..<64]; (a0, b0, c0, d0) = state
      in (a0 + a, b0 + b, c0 + c, d0 + d))"

subsection \<open>The digest functions\<close>

definition f1518caf_initMD5State :: digest where
  "f1518caf_initMD5State = (0x67452301, 0xefcdab89, 0x98badcfe, 0x10325476)"

definition ONE_BIT_VALUE :: u8 where "ONE_BIT_VALUE = 0x80"

text \<open>A block of the caller's buffer.\<close>

definition transform_at :: "digest \<Rightarrow> u8 block \<Rightarrow> nat \<Rightarrow> digest result" where
  "transform_at state buffer off = bnd (read_cells buffer off 64) (\<lambda>block. Inr (f1518caf_md5Transform state block))"

fun full_blocks :: "digest \<Rightarrow> u8 block \<Rightarrow> nat \<Rightarrow> nat \<Rightarrow> (digest \<times> nat \<times> nat) result" where
  "full_blocks state buffer off len =
     (if 64 < len then bnd (transform_at state buffer off) (\<lambda>state. full_blocks state buffer (off + 64) (len - 64))
      else Inr (state, off, len))"

declare full_blocks.simps [simp del]

definition le64 :: "u64 \<Rightarrow> u8 list" where
  "le64 w = map (\<lambda>k. ucast (drop_bit (8 * k) w)) [0..<8]"

text \<open>\<open>((uint64_t* ) message)[7] = msgLength\<close> and the transform of \<open>message\<close>.\<close>

definition last_block :: "digest \<Rightarrow> u8 block \<Rightarrow> u64 \<Rightarrow> digest result" where
  "last_block state msg msgLength =
     bnd (blit (map Some (le64 msgLength)) 0 8 msg 56) (\<lambda>msg. transform_at state msg 0)"

definition md5_tail :: "digest \<Rightarrow> u8 block \<Rightarrow> nat \<Rightarrow> nat \<Rightarrow> u64 \<Rightarrow> digest result" where
  "md5_tail state buffer off len msgLength =
     (let msg = fresh 64
      in if 0 < len then
           if len < 56 then
             bnd (f668c4bd_memcopy buffer off msg 0 len) (\<lambda>msg.
             bnd (wr msg len ONE_BIT_VALUE) (\<lambda>msg.
             bnd (f668c4bd_meminit 0 msg (len + 1) (64 - (len + 1))) (\<lambda>msg.
             last_block state msg msgLength)))
           else if len < 64 then
             bnd (f668c4bd_memcopy buffer off msg 0 len) (\<lambda>msg.
             bnd (wr msg len ONE_BIT_VALUE) (\<lambda>msg.
             bnd (fold_result (\<lambda>m k. wr m k 0) msg [len + 1..<64]) (\<lambda>msg.
             bnd (transform_at state msg 0) (\<lambda>state.
             bnd (f668c4bd_meminit 0 msg 0 56) (\<lambda>msg.
             last_block state msg msgLength)))))
           else
             bnd (transform_at state buffer off) (\<lambda>state.
             bnd (f668c4bd_meminit 0 msg 0 56) (\<lambda>msg.
             bnd (wr msg 0 ONE_BIT_VALUE) (\<lambda>msg.
             last_block state msg msgLength)))
         else
           bnd (f668c4bd_meminit 0 msg 0 56) (\<lambda>msg.
           bnd (wr msg 0 ONE_BIT_VALUE) (\<lambda>msg.
           last_block state msg msgLength)))"

definition f1518caf_md5 :: "digest \<Rightarrow> u8 block \<Rightarrow> u32 \<Rightarrow> digest result" where
  "f1518caf_md5 state buffer len =
     bnd (full_blocks state buffer 0 (unat len)) (\<lambda>(state, off, rest). md5_tail state buffer off rest (ucast len))"

definition f1518caf_md5StreamEnd :: "digest \<Rightarrow> u8 block \<Rightarrow> u32 \<Rightarrow> u64 \<Rightarrow> digest result" where
  "f1518caf_md5StreamEnd state buffer len origLen =
     bnd (full_blocks state buffer 0 (unat len)) (\<lambda>(state, off, rest). md5_tail state buffer off rest origLen)"

text \<open>The do loop runs at least once; its length counter is a 32-bit word.\<close>

definition f1518caf_md5Stream :: "env \<Rightarrow> digest \<Rightarrow> u8 block \<Rightarrow> u32 \<Rightarrow> digest result" where
  "f1518caf_md5Stream e state buffer len =
     (if len AND 0x3F \<noteq> 0 then die_error e [Str ''f1518caf_md5Stream(): Invalid buffer length of '', Uint len]
      else repeat_until (\<lambda>(state, off, len).
        bnd (transform_at state buffer off) (\<lambda>state.
        let len = len - 64 in if 0 < len then Inr (Inl (state, off + 64, len)) else Inr (Inr state)))
        (state, 0, len))"

definition le32 :: "u32 \<Rightarrow> u8 list" where
  "le32 w = map (\<lambda>k. ucast (drop_bit (8 * k) w)) [0..<4]"

definition digest_bytes :: "digest \<Rightarrow> u8 list" where
  "digest_bytes state = (let (a, b, c, d) = state in le32 a @ le32 b @ le32 c @ le32 d)"

definition rounds_message :: "digest \<Rightarrow> u8 list" where
  "rounds_message state = digest_bytes state @ ONE_BIT_VALUE # replicate 39 0 @ le64 16"

primrec rounds_loop :: "nat \<Rightarrow> digest \<Rightarrow> digest" where
  "rounds_loop 0 state = state"
| "rounds_loop (Suc n) state = rounds_loop n (f1518caf_md5Transform state (rounds_message state))"

definition f1518caf_md5Rounds :: "digest \<Rightarrow> u32 \<Rightarrow> digest" where
  "f1518caf_md5Rounds state numRounds = rounds_loop (unat numRounds) state"

definition f1518caf_md5WithSalt :: "env \<Rightarrow> digest \<Rightarrow> u8 block \<Rightarrow> u32 \<Rightarrow> u8 block \<Rightarrow> u32 \<Rightarrow> digest result" where
  "f1518caf_md5WithSalt e state salt saltLen buffer len =
     (if 64 < saltLen then die_error e [Str ''f1518caf_md5WithSalt(): Invalid salt length of '', Uint saltLen]
      else bnd (f1518caf_md5 state salt saltLen) (\<lambda>state. f1518caf_md5 state buffer len))"

text \<open>\<open>%02x\<close> for every byte, and the routine of the assembly that yields the same text.\<close>

definition hex_byte :: "u8 \<Rightarrow> string" where
  "hex_byte b = [''0123456789abcdef'' ! unat (drop_bit 4 b), ''0123456789abcdef'' ! unat (b AND 0x0F)]"

definition f1518caf_printMD5 :: "digest \<Rightarrow> string" where
  "f1518caf_printMD5 state = concat (map hex_byte (digest_bytes state))"

definition hex_char :: "u8 \<Rightarrow> char" where
  "hex_char v = char_of (unat v + (if v \<le> 9 then 0x30 else 0x57))"

definition f1518caf_getHexString :: "digest \<Rightarrow> string" where
  "f1518caf_getHexString state =
     concat (map (\<lambda>b. [hex_char (drop_bit 4 (b AND 0xF0)), hex_char (b AND 0x0F)]) (digest_bytes state))"

subsection \<open>The padded message\<close>

text \<open>The reference: the message, 0x80, zeros up to 56 modulo 64, the length; cut into blocks of 64 bytes.\<close>

definition md5_pad :: "u64 \<Rightarrow> u8 list \<Rightarrow> u8 list" where
  "md5_pad n bs = bs @ ONE_BIT_VALUE # replicate ((119 - length bs mod 64) mod 64) 0 @ le64 n"

function chunks :: "u8 list \<Rightarrow> u8 list list" where
  "chunks bs = (if bs = [] then [] else take 64 bs # chunks (drop 64 bs))"
  by auto
termination by (relation "measure length") auto

declare chunks.simps [simp del]

definition digest_of :: "digest \<Rightarrow> u8 list \<Rightarrow> digest" where
  "digest_of state bs = foldl f1518caf_md5Transform state (chunks bs)"

lemma digest_of_simps:
  "digest_of state [] = state"
  "length b = 64 \<Longrightarrow> digest_of state (b @ bs) = digest_of (f1518caf_md5Transform state b) bs"
proof -
  show "digest_of state [] = state" by (simp add: digest_of_def chunks.simps)
  assume "length b = 64"
  then have "chunks (b @ bs) = b # chunks bs" by (subst chunks.simps) auto
  then show "digest_of state (b @ bs) = digest_of (f1518caf_md5Transform state b) bs" by (simp add: digest_of_def)
qed

lemma digest_of_block: "length b = 64 \<Longrightarrow> digest_of state b = f1518caf_md5Transform state b"
  using digest_of_simps(2) [of b state "[]"] digest_of_simps(1) by simp

lemma length_le64 [simp]: "length (le64 w) = 8"
  by (simp add: le64_def)

lemma transform_at_ok:
  assumes "holds buffer (pre @ b @ post)" and "length b = 64"
  shows "transform_at state buffer (length pre) = Inr (f1518caf_md5Transform state b)"
proof -
  have "holds buffer (pre @ b)" using holds_butlast [of buffer "pre @ b" post] assms(1) by simp
  from read_cells_holds [OF this] assms(2) show ?thesis by (simp add: transform_at_def)
qed

lemma last_block_ok:
  assumes "length xs = 56" and "length cells = 8"
  shows "last_block state (map Some xs @ cells) n = Inr (digest_of state (xs @ le64 n))"
proof -
  have "holds (map Some (xs @ le64 n)) ([] @ (xs @ le64 n) @ [])" by (simp add: holds_def)
  from transform_at_ok [OF this] have "transform_at state (map Some (xs @ le64 n)) 0 = Inr (f1518caf_md5Transform state (xs @ le64 n))"
    using assms(1) by simp
  then show ?thesis
    using assms by (simp add: last_block_def blit_def digest_of_block)
qed

lemma wr_next: "wr (map Some xs @ replicate (Suc n) None) (length xs) x = Inr (map Some (xs @ [x]) @ replicate n None)"
  using list_update_length [of "map Some xs"] by (simp add: wr_def)

lemma meminit_rest:
  "f668c4bd_meminit 0 (map Some xs @ replicate n None) (length xs) n = Inr (map Some xs @ replicate n (Some (0::u8)))"
  by (simp add: f668c4bd_meminit_def)

lemma zero_fill:
  "fold_result (\<lambda>m k. wr m k 0) (map Some xs @ replicate n None) [length xs..<length xs + n] =
     Inr (map Some (xs @ replicate n (0::u8)))"
proof (induction n arbitrary: xs)
  case (Suc n)
  have "[length xs..<length xs + Suc n] = length xs # [length (xs @ [0])..<length (xs @ [0]) + n]"
    by (simp add: upt_rec)
  moreover have "wr (map Some xs @ replicate (Suc n) None) (length xs) 0 = Inr (map Some (xs @ [0]) @ replicate n None)"
    by (rule wr_next)
  ultimately show ?case using Suc [of "xs @ [0]"] by simp
qed simp

lemma md5_tail_ok:
  assumes buf: "holds buffer (pre @ bs)" and len: "length bs \<le> 64"
  shows "md5_tail state buffer (length pre) (length bs) n = Inr (digest_of state (md5_pad n bs))"
proof -
  have init: "f668c4bd_meminit 0 m 0 56 = Inr (map Some (replicate 56 (0::u8)) @ drop 56 m)" if "length m = 64" for m
    using that by (simp add: f668c4bd_meminit_def)
  have final: "bnd (f668c4bd_meminit 0 m 0 56) (\<lambda>msg. bnd (wr msg 0 ONE_BIT_VALUE) (\<lambda>msg. last_block st msg n)) =
      Inr (digest_of st (ONE_BIT_VALUE # replicate 55 0 @ le64 n))" if "length m = 64" for m st
  proof -
    have "wr (map Some (replicate 56 (0::u8)) @ drop 56 m) 0 ONE_BIT_VALUE =
        Inr (map Some (ONE_BIT_VALUE # replicate 55 0) @ drop 56 m)"
      using replicate_Suc [of 55 "0::u8"] by (simp add: wr_def)
    then show ?thesis
      using init [OF that] last_block_ok [of "ONE_BIT_VALUE # replicate 55 0" "drop 56 m" st n] that by simp
  qed
  have lb: "length pre + length bs \<le> length buffer" using holds_length [OF buf] by simp
  have cells: "take (length bs) (drop (length pre) buffer) = map Some bs"
  proof -
    have "take (length pre + length bs) buffer = map Some (pre @ bs)" using buf by (simp add: holds_def)
    then have "drop (length pre) (take (length pre + length bs) buffer) = map Some bs" by simp
    then show ?thesis by (simp add: drop_take)
  qed
  let ?l = "length bs"
  have copy: "f668c4bd_memcopy buffer (length pre) (fresh 64) 0 ?l = Inr (map Some bs @ replicate (64 - ?l) None)"
    using lb len cells by (simp add: f668c4bd_memcopy_def blit_def fresh_def)
  have mark: "wr (map Some bs @ replicate (64 - ?l) None) ?l ONE_BIT_VALUE =
      Inr (map Some (bs @ [ONE_BIT_VALUE]) @ replicate (63 - ?l) None)" if "?l < 64"
  proof -
    have "64 - ?l = Suc (63 - ?l)" using that by simp
    then show ?thesis by (simp only: wr_next)
  qed
  consider "?l = 0" | "0 < ?l" "?l < 56" | "56 \<le> ?l" "?l < 64" | "?l = 64" using len by linarith
  then show ?thesis
  proof cases
    case 1
    then show ?thesis using final [of "fresh 64" state] by (simp add: md5_tail_def md5_pad_def)
  next
    case 2
    have split: "replicate (63 - ?l) (0::u8) = replicate (55 - ?l) 0 @ replicate 8 0"
      using 2(2) by (simp add: replicate_add [symmetric])
    have "f668c4bd_meminit 0 (map Some (bs @ [ONE_BIT_VALUE]) @ replicate (63 - ?l) None) (?l + 1) (64 - (?l + 1)) =
        Inr (map Some (bs @ ONE_BIT_VALUE # replicate (55 - ?l) 0) @ replicate 8 (Some 0))"
    proof -
      have "replicate (63 - ?l) (Some (0::u8)) = replicate (55 - ?l) (Some 0) @ replicate 8 (Some 0)"
        using split by (metis map_append map_replicate)
      moreover have "64 - (?l + 1) = 63 - ?l" by simp
      ultimately show ?thesis using meminit_rest [of "bs @ [ONE_BIT_VALUE]" "63 - ?l"] by simp
    qed
    moreover have "(119 - ?l mod 64) mod 64 = 55 - ?l" using 2(2) by (simp add: mod_if)
    ultimately show ?thesis
      using 2 copy mark last_block_ok [of "bs @ ONE_BIT_VALUE # replicate (55 - ?l) 0" "replicate 8 (Some 0)" state n]
      by (simp add: md5_tail_def md5_pad_def)
  next
    case 3
    define b where "b = bs @ ONE_BIT_VALUE # replicate (63 - ?l) 0"
    have zeros: "fold_result (\<lambda>m k. wr m k 0) (map Some (bs @ [ONE_BIT_VALUE]) @ replicate (63 - ?l) None) [?l + 1..<64] =
        Inr (map Some b)"
      using zero_fill [of "bs @ [ONE_BIT_VALUE]" "63 - ?l"] 3 by (simp add: b_def)
    have "(119 - ?l mod 64) mod 64 = 119 - ?l" using 3 by (simp add: mod_if)
    moreover have "replicate (119 - ?l) (0::u8) = replicate (63 - ?l) 0 @ replicate 56 0"
      using 3 by (simp add: replicate_add [symmetric])
    ultimately have pad: "md5_pad n bs = b @ (replicate 56 0 @ le64 n)" using 3 by (simp add: md5_pad_def b_def)
    have b: "length b = 64" using 3 by (simp add: b_def)
    have "transform_at state (map Some b) 0 = Inr (f1518caf_md5Transform state b)"
      using transform_at_ok [of "map Some b" "[]" b "[]" state] b by (simp add: holds_def)
    moreover have "f668c4bd_meminit 0 (map Some b) 0 56 = Inr (map Some (replicate 56 0) @ drop 56 (map Some b))"
      using b by (intro init) simp
    moreover have "digest_of state (md5_pad n bs) = digest_of (f1518caf_md5Transform state b) (replicate 56 0 @ le64 n)"
      unfolding pad using b by (rule digest_of_simps(2))
    moreover have "last_block (f1518caf_md5Transform state b) (map Some (replicate 56 0) @ drop 56 (map Some b)) n =
        Inr (digest_of (f1518caf_md5Transform state b) (replicate 56 0 @ le64 n))"
      using b by (intro last_block_ok) simp_all
    moreover have "bs \<noteq> []" using 3 by auto
    ultimately show ?thesis
      using 3 copy mark zeros by (simp add: md5_tail_def Let_def del: map_append map_replicate)
  next
    case 4
    have "transform_at state buffer (length pre) = Inr (f1518caf_md5Transform state bs)"
      using transform_at_ok [of buffer pre bs "[]" state] buf 4 by simp
    moreover have "md5_pad n bs = bs @ (ONE_BIT_VALUE # replicate 55 0 @ le64 n)" using 4 by (simp add: md5_pad_def)
    moreover have "digest_of state (bs @ (ONE_BIT_VALUE # replicate 55 0 @ le64 n)) =
        digest_of (f1518caf_md5Transform state bs) (ONE_BIT_VALUE # replicate 55 0 @ le64 n)"
      using 4 by (rule digest_of_simps(2))
    ultimately show ?thesis
      using 4 final [of "fresh 64" "f1518caf_md5Transform state bs"] by (simp add: md5_tail_def)
  qed
qed

lemma md5_pad_block: "length b = 64 \<Longrightarrow> md5_pad n (b @ bs) = b @ md5_pad n bs"
  by (simp add: md5_pad_def)

lemma digest_loop:
  assumes "holds buffer (pre @ bs)"
  shows "bnd (full_blocks state buffer (length pre) (length bs)) (\<lambda>(state, off, rest). md5_tail state buffer off rest n) =
    Inr (digest_of state (md5_pad n bs))"
  using assms
proof (induction "length bs" arbitrary: pre bs state rule: less_induct)
  case less
  show ?case
  proof (cases "64 < length bs")
    case False
    then show ?thesis using md5_tail_ok [OF less.prems, of state n] by (simp add: full_blocks.simps)
  next
    case True
    define b where "b = take 64 bs"
    define rest where "rest = drop 64 bs"
    have bs: "bs = b @ rest" "length b = 64" using True by (simp_all add: b_def rest_def)
    have "holds buffer (pre @ b @ rest)" using less.prems bs(1) by simp
    from transform_at_ok [OF this bs(2)] have t: "transform_at state buffer (length pre) = Inr (f1518caf_md5Transform state b)" .
    have "holds buffer ((pre @ b) @ rest)" using less.prems bs(1) by simp
    from less.hyps [OF _ this, of "f1518caf_md5Transform state b"] bs True show ?thesis
      by (subst full_blocks.simps) (simp add: t md5_pad_block digest_of_simps(2))
  qed
qed

lemma md5_ok:
  assumes "holds buffer bs" and "length bs < 2 ^ 32"
  shows "f1518caf_md5 state buffer (of_nat (length bs)) = Inr (digest_of state (md5_pad (of_nat (length bs)) bs))"
proof -
  have u: "unat (of_nat (length bs) :: u32) = length bs" using assms(2) by (simp add: unat_of_nat)
  then have "ucast (of_nat (length bs) :: u32) = (of_nat (length bs) :: u64)"
    using assms(2) by (simp add: word_unat_eq_iff unsigned_ucast_eq unat_of_nat take_bit_nat_eq_self)
  then show ?thesis
    using digest_loop [of buffer "[]" bs state] assms(1) u by (simp add: f1518caf_md5_def)
qed

lemma md5StreamEnd_ok:
  assumes "holds buffer bs" and "length bs < 2 ^ 32"
  shows "f1518caf_md5StreamEnd state buffer (of_nat (length bs)) n = Inr (digest_of state (md5_pad n bs))"
proof -
  have "unat (of_nat (length bs) :: u32) = length bs" using assms(2) by (simp add: unat_of_nat)
  then show ?thesis
    using digest_loop [of buffer "[]" bs state n] assms(1) by (simp add: f1518caf_md5StreamEnd_def)
qed

subsection \<open>Streams\<close>

lemma digest_of_append:
  "length xs mod 64 = 0 \<Longrightarrow> digest_of state (xs @ ys) = digest_of (digest_of state xs) ys"
proof (induction "length xs" arbitrary: xs state rule: less_induct)
  case less
  show ?case
  proof (cases "xs = []")
    case False
    define b where "b = take 64 xs"
    define rest where "rest = drop 64 xs"
    have "64 \<le> length xs" using less.prems False by (metis dvd_imp_le length_greater_0_conv mod_0_imp_dvd)
    then have xs: "xs = b @ rest" "length b = 64" "length rest mod 64 = 0" "length rest < length xs"
      using less.prems by (simp_all add: b_def rest_def le_mod_geq [symmetric])
    from less.hyps [OF xs(4,3)] show ?thesis
      by (simp add: xs(1) digest_of_simps(2) [OF xs(2)])
  qed (simp add: digest_of_simps)
qed

lemma stream_loop:
  assumes "holds buffer (pre @ bs)" and "length bs mod 64 = 0" and "bs \<noteq> []" and "unat len = length bs"
  shows "repeat_until (\<lambda>(state, off, len). bnd (transform_at state buffer off) (\<lambda>state.
      let len = len - 64 in if (0::u32) < len then Inr (Inl (state, off + 64, len)) else Inr (Inr state)))
      (state, length pre, len) = Inr (digest_of state bs)" (is "repeat_until ?step _ = _")
  using assms
proof (induction "length bs" arbitrary: pre bs state len rule: less_induct)
  case less
  define b where "b = take 64 bs"
  define rest where "rest = drop 64 bs"
  have ge: "64 \<le> length bs" using less.prems(2,3) by (metis dvd_imp_le length_greater_0_conv mod_0_imp_dvd)
  then have bs: "bs = b @ rest" "length b = 64" "length rest mod 64 = 0" "length rest < length bs"
    using less.prems(2) by (simp_all add: b_def rest_def le_mod_geq [symmetric])
  have "holds buffer (pre @ b @ rest)" using less.prems(1) bs(1) by simp
  from transform_at_ok [OF this bs(2)] have t: "transform_at state buffer (length pre) = Inr (f1518caf_md5Transform state b)" .
  have l: "unat (len - 64) = length rest"
    using less.prems(4) ge by (subst unat_minus_fits) (simp_all add: word_le_nat_alt rest_def)
  have d: "digest_of state bs = digest_of (f1518caf_md5Transform state b) rest"
    unfolding bs(1) by (rule digest_of_simps(2) [OF bs(2)])
  show ?case
  proof (cases "rest = []")
    case True
    then have "len - 64 = 0" using l by (simp add: unat_eq_zero)
    then show ?thesis using t d True by (subst repeat_until_unfold) (simp add: Let_def digest_of_simps)
  next
    case False
    have "holds buffer ((pre @ b) @ rest)" using less.prems(1) bs(1) by simp
    from less.hyps [OF bs(4) this bs(3) False l, of "f1518caf_md5Transform state b"]
    have "repeat_until ?step (f1518caf_md5Transform state b, length pre + 64, len - 64) = Inr (digest_of state bs)"
      using bs(2) d by simp
    moreover have "0 < len - 64" using l False by (simp add: word_less_nat_alt)
    ultimately show ?thesis using t by (subst repeat_until_unfold) (simp add: Let_def)
  qed
qed

lemma aligned_word: "unat (w::u32) mod 64 = 0 \<Longrightarrow> w AND 0x3F = 0"
proof -
  assume "unat w mod 64 = 0"
  moreover have "w AND 0x3F = take_bit 6 w" by (simp add: take_bit_eq_mask mask_eq_exp_minus_1)
  moreover have "unat (take_bit 6 w) = take_bit 6 (unat w)" by (rule unsigned_take_bit_eq)
  moreover have "take_bit 6 (unat w) = unat w mod 64" by (simp add: take_bit_eq_mod)
  ultimately show ?thesis by (simp add: unat_eq_zero)
qed

subsection \<open>Properties\<close>

text \<open>The padding of RFC 1321, with the length in bits.\<close>

definition rfc1321_pad :: "u8 list \<Rightarrow> u8 list" where
  "rfc1321_pad bs = md5_pad (of_nat (8 * length bs)) bs"

lemma le64_inj: "le64 v = le64 w \<Longrightarrow> v = w"
proof -
  assume eq: "le64 v = le64 w"
  show "v = w"
  proof (rule bit_word_eqI)
    fix n assume n: "n < LENGTH(64)"
    have "ucast (drop_bit (8 * (n div 8)) v) = (ucast (drop_bit (8 * (n div 8)) w) :: u8)"
      using arg_cong [OF eq, of "\<lambda>b. b ! (n div 8)"] n nth_upt [of 0 "n div 8" 8] by (simp add: le64_def)
    then have "bit (ucast (drop_bit (8 * (n div 8)) v) :: u8) (n mod 8) = bit (ucast (drop_bit (8 * (n div 8)) w) :: u8) (n mod 8)"
      by simp
    then show "bit v n = bit w n" by (simp add: bit_simps)
  qed
qed

lemma pad_differs:
  assumes "length bs < 2 ^ 32" "bs \<noteq> []"
  shows "md5_pad (of_nat (length bs)) bs \<noteq> rfc1321_pad bs"
proof
  assume "md5_pad (of_nat (length bs)) bs = rfc1321_pad bs"
  then have "le64 (of_nat (length bs)) = le64 (of_nat (8 * length bs))" by (simp only: rfc1321_pad_def md5_pad_def same_append_eq list.inject)
  then have "(of_nat (length bs) :: u64) = of_nat (8 * length bs)" by (rule le64_inj)
  then have "unat (of_nat (length bs) :: u64) = unat (of_nat (8 * length bs) :: u64)" by (rule arg_cong)
  moreover have "unat (of_nat (length bs) :: u64) = length bs" using assms(1) by (intro of_nat_inverse [OF refl]) simp
  moreover have "unat (of_nat (8 * length bs) :: u64) = 8 * length bs" using assms(1) by (intro of_nat_inverse [OF refl]) simp
  ultimately show False using assms(2) by simp
qed

text \<open>C33: the digest of a buffer of any length is the transform iterated over the 64-byte blocks of the message padded
  with 0x80, the least number of zeros, and the length in bytes as a 64-bit number. MD5 wants the length in bits there: the padded
  message is that of RFC 1321 only when the buffer is empty, so for no other buffer is the digest computed from the blocks that the
  MD5 of the buffer is computed from.\<close>

theorem md5_digests_padded_message:
  assumes "length bs < 2 ^ 32"
  shows "f1518caf_md5 state (map Some bs) (of_nat (length bs)) =
      Inr (foldl f1518caf_md5Transform state (chunks (md5_pad (of_nat (length bs)) bs))) \<and>
    (md5_pad (of_nat (length bs)) bs = rfc1321_pad bs \<longleftrightarrow> bs = [])"
proof -
  have "rfc1321_pad [] = md5_pad (of_nat (length [])) []" by (simp add: rfc1321_pad_def)
  then show ?thesis
    using md5_ok [of "map Some bs" bs state] assms pad_differs [OF assms] by (auto simp: holds_def digest_of_def)
qed

lemma md5_digests_padded_message_witness:
  "f1518caf_md5 f1518caf_initMD5State (map Some [97, 98, 99]) 3 =
    Inr (foldl f1518caf_md5Transform f1518caf_initMD5State (chunks (md5_pad 3 [97, 98, 99]))) \<and>
   md5_pad 3 [97, 98, 99] \<noteq> rfc1321_pad [97, 98, 99]"
  using md5_digests_padded_message [of "[97, 98, 99]" f1518caf_initMD5State] by simp

text \<open>C34: digesting in pieces gives the digest of the whole: a first part of whole blocks through md5Stream,
  the rest through md5StreamEnd with the total length.\<close>

theorem md5_stream_is_md5:
  assumes "length xs mod 64 = 0" and "xs \<noteq> []" and "length (xs @ ys) < 2 ^ 32"
  shows "bnd (f1518caf_md5Stream e state (map Some xs) (of_nat (length xs))) (\<lambda>state.
      f1518caf_md5StreamEnd state (map Some ys) (of_nat (length ys)) (of_nat (length (xs @ ys)))) =
    f1518caf_md5 state (map Some (xs @ ys)) (of_nat (length (xs @ ys)))"
proof -
  have ux: "unat (of_nat (length xs) :: u32) = length xs" using assms(3) by (simp add: unat_of_nat)
  have "f1518caf_md5Stream e state (map Some xs) (of_nat (length xs)) = Inr (digest_of state xs)"
    using stream_loop [of "map Some xs" "[]" xs "of_nat (length xs)" state] assms(1,2) ux
      aligned_word [of "of_nat (length xs)"] by (simp add: f1518caf_md5Stream_def holds_def)
  moreover have "md5_pad n (xs @ ys) = xs @ md5_pad n ys" for n
    using assms(1) by (simp add: md5_pad_def mod_add_left_eq [symmetric, of "length xs"])
  ultimately show ?thesis
    using md5StreamEnd_ok [of "map Some ys" ys] md5_ok [of "map Some (xs @ ys)" "xs @ ys" state] assms(1,3)
    by (simp add: holds_def digest_of_append)
qed

lemma md5_stream_is_md5_witness:
  "\<exists>e. bnd (f1518caf_md5Stream e f1518caf_initMD5State (map Some (replicate 64 7)) 64) (\<lambda>state.
      f1518caf_md5StreamEnd state (map Some [1, 2]) 2 66) =
    f1518caf_md5 f1518caf_initMD5State (map Some (replicate 64 7 @ [1, 2])) 66"
  using md5_stream_is_md5 [of "replicate 64 7" "[1, 2]" _ f1518caf_initMD5State] by simp

end
