(* ===== verification/Md5Reference.thy ===== *)
theory Md5Reference
  imports Md5
begin

text \<open>
  The C routine that hash/md5.c keeps in a comment as the reference for the assembler one, macro by macro. The comment says
  that the two do the same.
\<close>

unbundle bit_operations_syntax

subsection \<open>The reference\<close>

definition md5_F :: "u32 \<Rightarrow> u32 \<Rightarrow> u32 \<Rightarrow> u32" where "md5_F x y z = (x AND y) OR (NOT x AND z)"
definition md5_G :: "u32 \<Rightarrow> u32 \<Rightarrow> u32 \<Rightarrow> u32" where "md5_G x y z = (x AND z) OR (y AND NOT z)"
definition md5_H :: "u32 \<Rightarrow> u32 \<Rightarrow> u32 \<Rightarrow> u32" where "md5_H x y z = x XOR y XOR z"
definition md5_I :: "u32 \<Rightarrow> u32 \<Rightarrow> u32 \<Rightarrow> u32" where "md5_I x y z = y XOR (x OR NOT z)"

definition ROTATE_LEFT :: "u32 \<Rightarrow> nat \<Rightarrow> u32" where
  "ROTATE_LEFT x n = push_bit n x OR drop_bit (32 - n) x"

text \<open>A macro is what its first argument becomes.\<close>

type_synonym md5_macro = "u32 \<Rightarrow> u32 \<Rightarrow> u32 \<Rightarrow> u32 \<Rightarrow> u32 \<Rightarrow> nat \<Rightarrow> u32 \<Rightarrow> u32"

definition FF :: md5_macro where
  "FF a b c d x s ac = (let a = a + (md5_F b c d + x + ac); a = ROTATE_LEFT a s; a = a + b in a)"
definition GG :: md5_macro where
  "GG a b c d x s ac = (let a = a + (md5_G b c d + x + ac); a = ROTATE_LEFT a s; a = a + b in a)"
definition HH :: md5_macro where
  "HH a b c d x s ac = (let a = a + (md5_H b c d + x + ac); a = ROTATE_LEFT a s; a = a + b in a)"
definition II :: md5_macro where
  "II a b c d x s ac = (let a = a + (md5_I b c d + x + ac); a = ROTATE_LEFT a s; a = a + b in a)"

text \<open>The variables in the order in which the call names them.\<close>

definition abcd :: "md5_macro \<Rightarrow> u32 \<Rightarrow> nat \<Rightarrow> u32 \<Rightarrow> digest \<Rightarrow> digest" where
  "abcd f x s ac = (\<lambda>(a, b, c, d). (f a b c d x s ac, b, c, d))"
definition dabc :: "md5_macro \<Rightarrow> u32 \<Rightarrow> nat \<Rightarrow> u32 \<Rightarrow> digest \<Rightarrow> digest" where
  "dabc f x s ac = (\<lambda>(a, b, c, d). (a, b, c, f d a b c x s ac))"
definition cdab :: "md5_macro \<Rightarrow> u32 \<Rightarrow> nat \<Rightarrow> u32 \<Rightarrow> digest \<Rightarrow> digest" where
  "cdab f x s ac = (\<lambda>(a, b, c, d). (a, b, f c d a b x s ac, d))"
definition bcda :: "md5_macro \<Rightarrow> u32 \<Rightarrow> nat \<Rightarrow> u32 \<Rightarrow> digest \<Rightarrow> digest" where
  "bcda f x s ac = (\<lambda>(a, b, c, d). (a, f b c d a x s ac, c, d))"

definition md5_round1 :: "u32 list \<Rightarrow> digest \<Rightarrow> digest" where
  "md5_round1 x st =
     (let st = abcd FF (x ! 0) 7 0xd76aa478 st;
          st = dabc FF (x ! 1) 12 0xe8c7b756 st;
          st = cdab FF (x ! 2) 17 0x242070db st;
          st = bcda FF (x ! 3) 22 0xc1bdceee st;
          st = abcd FF (x ! 4) 7 0xf57c0faf st;
          st = dabc FF (x ! 5) 12 0x4787c62a st;
          st = cdab FF (x ! 6) 17 0xa8304613 st;
          st = bcda FF (x ! 7) 22 0xfd469501 st;
          st = abcd FF (x ! 8) 7 0x698098d8 st;
          st = dabc FF (x ! 9) 12 0x8b44f7af st;
          st = cdab FF (x ! 10) 17 0xffff5bb1 st;
          st = bcda FF (x ! 11) 22 0x895cd7be st;
          st = abcd FF (x ! 12) 7 0x6b901122 st;
          st = dabc FF (x ! 13) 12 0xfd987193 st;
          st = cdab FF (x ! 14) 17 0xa679438e st;
          st = bcda FF (x ! 15) 22 0x49b40821 st
      in st)"

definition md5_round2 :: "u32 list \<Rightarrow> digest \<Rightarrow> digest" where
  "md5_round2 x st =
     (let st = abcd GG (x ! 1) 5 0xf61e2562 st;
          st = dabc GG (x ! 6) 9 0xc040b340 st;
          st = cdab GG (x ! 11) 14 0x265e5a51 st;
          st = bcda GG (x ! 0) 20 0xe9b6c7aa st;
          st = abcd GG (x ! 5) 5 0xd62f105d st;
          st = dabc GG (x ! 10) 9 0x2441453 st;
          st = cdab GG (x ! 15) 14 0xd8a1e681 st;
          st = bcda GG (x ! 4) 20 0xe7d3fbc8 st;
          st = abcd GG (x ! 9) 5 0x21e1cde6 st;
          st = dabc GG (x ! 14) 9 0xc33707d6 st;
          st = cdab GG (x ! 3) 14 0xf4d50d87 st;
          st = bcda GG (x ! 8) 20 0x455a14ed st;
          st = abcd GG (x ! 13) 5 0xa9e3e905 st;
          st = dabc GG (x ! 2) 9 0xfcefa3f8 st;
          st = cdab GG (x ! 7) 14 0x676f02d9 st;
          st = bcda GG (x ! 12) 20 0x8d2a4c8a st
      in st)"

definition md5_round3 :: "u32 list \<Rightarrow> digest \<Rightarrow> digest" where
  "md5_round3 x st =
     (let st = abcd HH (x ! 5) 4 0xfffa3942 st;
          st = dabc HH (x ! 8) 11 0x8771f681 st;
          st = cdab HH (x ! 11) 16 0x6d9d6122 st;
          st = bcda HH (x ! 14) 23 0xfde5380c st;
          st = abcd HH (x ! 1) 4 0xa4beea44 st;
          st = dabc HH (x ! 4) 11 0x4bdecfa9 st;
          st = cdab HH (x ! 7) 16 0xf6bb4b60 st;
          st = bcda HH (x ! 10) 23 0xbebfbc70 st;
          st = abcd HH (x ! 13) 4 0x289b7ec6 st;
          st = dabc HH (x ! 0) 11 0xeaa127fa st;
          st = cdab HH (x ! 3) 16 0xd4ef3085 st;
          st = bcda HH (x ! 6) 23 0x4881d05 st;
          st = abcd HH (x ! 9) 4 0xd9d4d039 st;
          st = dabc HH (x ! 12) 11 0xe6db99e5 st;
          st = cdab HH (x ! 15) 16 0x1fa27cf8 st;
          st = bcda HH (x ! 2) 23 0xc4ac5665 st
      in st)"

definition md5_round4 :: "u32 list \<Rightarrow> digest \<Rightarrow> digest" where
  "md5_round4 x st =
     (let st = abcd II (x ! 0) 6 0xf4292244 st;
          st = dabc II (x ! 7) 10 0x432aff97 st;
          st = cdab II (x ! 14) 15 0xab9423a7 st;
          st = bcda II (x ! 5) 21 0xfc93a039 st;
          st = abcd II (x ! 12) 6 0x655b59c3 st;
          st = dabc II (x ! 3) 10 0x8f0ccc92 st;
          st = cdab II (x ! 10) 15 0xffeff47d st;
          st = bcda II (x ! 1) 21 0x85845dd1 st;
          st = abcd II (x ! 8) 6 0x6fa87e4f st;
          st = dabc II (x ! 15) 10 0xfe2ce6e0 st;
          st = cdab II (x ! 6) 15 0xa3014314 st;
          st = bcda II (x ! 13) 21 0x4e0811a1 st;
          st = abcd II (x ! 4) 6 0xf7537e82 st;
          st = dabc II (x ! 11) 10 0xbd3af235 st;
          st = cdab II (x ! 2) 15 0x2ad7d2bb st;
          st = bcda II (x ! 9) 21 0xeb86d391 st
      in st)"

definition MD5Transform :: "digest \<Rightarrow> u8 list \<Rightarrow> digest" where
  "MD5Transform state block =
     (let x = map (\<lambda>i. let j = 4 * i in ucast (block ! j) OR push_bit 8 (ucast (block ! (j + 1))) OR
            push_bit 16 (ucast (block ! (j + 2))) OR push_bit 24 (ucast (block ! (j + 3)))) [0..<16];
          (a, b, c, d) = md5_round4 x (md5_round3 x (md5_round2 x (md5_round1 x state)));
          (a0, b0, c0, d0) = state
      in (a0 + a, b0 + b, c0 + c, d0 + d))"

subsection \<open>Lemmas\<close>

lemma rotate_left: "0 < n \<Longrightarrow> n < 32 \<Longrightarrow> ROTATE_LEFT x n = word_rotl n x"
proof (rule bit_word_eqI)
  fix k assume n: "0 < n" "n < 32" and k: "k < LENGTH(32)"
  have high: "\<not> bit x (32 + m)" for m by (auto dest: bit_imp_le_length)
  show "bit (ROTATE_LEFT x n) k = bit (word_rotl n x) k"
  proof (cases "n \<le> k")
    case True
    then have "(k + 32 - n) mod 32 = k - n" using k by (simp add: mod_if)
    moreover have "\<not> bit x (32 - n + k)" using high [of "k - n"] True n by (simp add: algebra_simps)
    ultimately show ?thesis using True n k by (simp add: ROTATE_LEFT_def bit_simps)
  next
    case False
    then have "k + 32 - n = 32 - n + k" "32 - n + k < 32" using n by linarith+
    then have "(k + 32 - n) mod 32 = 32 - n + k" by simp
    then show ?thesis using False n k by (simp add: ROTATE_LEFT_def bit_simps)
  qed
qed

text \<open>An operation of the assembler routine is the macro of its round.\<close>

definition slot :: "nat \<Rightarrow> md5_macro \<Rightarrow> u32 \<Rightarrow> nat \<Rightarrow> u32 \<Rightarrow> digest \<Rightarrow> digest" where
  "slot i = [abcd, dabc, cdab, bcda] ! (i mod 4)"

lemma rotation_bounds: "i < 64 \<Longrightarrow> 0 < rotation i \<and> rotation i < 32"
proof -
  have "\<forall>i \<in> set [0..<64]. 0 < rotation i \<and> rotation i < 32" by code_simp
  then show "i < 64 \<Longrightarrow> 0 < rotation i \<and> rotation i < 32" by simp
qed

lemma macro_value:
  assumes "0 < s" "s < 32"
  shows "FF a b c d x s ac = b + word_rotl s (a + (((b AND c) OR (NOT b AND d)) + ac + x))"
    "GG a b c d x s ac = b + word_rotl s (a + (((b AND d) OR (NOT d AND c)) + ac + x))"
    "HH a b c d x s ac = b + word_rotl s (a + ((b XOR c XOR d) + ac + x))"
    "II a b c d x s ac = b + word_rotl s (a + (((NOT d OR b) XOR c) + ac + x))"
  using assms
  by (simp_all add: FF_def GG_def HH_def II_def md5_F_def md5_G_def md5_H_def md5_I_def rotate_left ac_simps)

text \<open>Which macro round \<open>i\<close> uses.\<close>

definition macro_of :: "nat \<Rightarrow> md5_macro" where
  "macro_of i = [FF, GG, HH, II] ! (i div 16)"

lemma round_is_macro:
  assumes "i < 64"
  shows "md5_round block st i = slot i (macro_of i) (le_word block (block_word i)) (rotation i) (sines ! i) st"
proof -
  note val = macro_value [OF conjunct1 [OF rotation_bounds [OF assms]] conjunct2 [OF rotation_bounds [OF assms]]]
  have r: "round_value block i a b c d = macro_of i a b c d (le_word block (block_word i)) (rotation i) (sines ! i)" for a b c d
  proof -
    consider "i div 16 = 0" "i < 16" | "i div 16 = 1" "16 \<le> i" "i < 32" | "i div 16 = 2" "32 \<le> i" "i < 48"
      | "i div 16 = 3" "48 \<le> i"
      using assms by linarith
    then show ?thesis
      by cases (simp_all add: round_value_def mix_def macro_of_def val)
  qed
  consider "i mod 4 = 0" | "i mod 4 = 1" | "i mod 4 = 2" | "i mod 4 = 3" by linarith
  then show ?thesis
    by cases (auto simp: md5_round_def slot_def r abcd_def dabc_def cdab_def bcda_def split: prod.split)
qed

definition words :: "u8 list \<Rightarrow> u32 list" where "words block = map (le_word block) [0..<16]"

lemma round_of_words:
  assumes "i < 64"
  shows "md5_round block st i = slot i (macro_of i) (words block ! block_word i) (rotation i) (sines ! i) st"
proof -
  have "block_word i < 16" using assms by (simp add: block_word_def)
  then have "words block ! block_word i = le_word block (block_word i)" by (simp add: words_def)
  then show ?thesis by (simp add: round_is_macro [OF assms])
qed

lemma four_rounds:
  "foldl (md5_round block) st [0..<16] = md5_round1 (words block) st"
  "foldl (md5_round block) st [16..<32] = md5_round2 (words block) st"
  "foldl (md5_round block) st [32..<48] = md5_round3 (words block) st"
  "foldl (md5_round block) st [48..<64] = md5_round4 (words block) st"
proof -
  have "[0..<16] = [0, 1, 2, 3, 4, 5, 6, 7, 8, 9, 10, 11, 12, 13, 14, 15]" "[16..<32] = [16, 17, 18, 19, 20, 21, 22, 23, 24, 25, 26, 27, 28, 29, 30, 31]"
    "[32..<48] = [32, 33, 34, 35, 36, 37, 38, 39, 40, 41, 42, 43, 44, 45, 46, 47]" "[48..<64] = [48, 49, 50, 51, 52, 53, 54, 55, 56, 57, 58, 59, 60, 61, 62, 63]"
    by code_simp+
  note upts = this
  show "foldl (md5_round block) st [0..<16] = md5_round1 (words block) st"
    "foldl (md5_round block) st [16..<32] = md5_round2 (words block) st"
    "foldl (md5_round block) st [32..<48] = md5_round3 (words block) st"
    "foldl (md5_round block) st [48..<64] = md5_round4 (words block) st"
    unfolding upts
    by (simp_all add: round_of_words slot_def macro_of_def block_word_def rotation_def sines_def Let_def
      md5_round1_def md5_round2_def md5_round3_def md5_round4_def)
qed

subsection \<open>Properties\<close>

text \<open>C32: on every digest and every block the assembler routine yields what the reference in C yields.\<close>

theorem md5_transform_is_reference: "f1518caf_md5Transform st block = MD5Transform st block"
proof -
  have "[0..<64::nat] = [0..<16] @ [16..<32] @ [32..<48] @ [48..<64]" by code_simp
  then have "foldl (md5_round block) st [0..<64] =
      md5_round4 (words block) (md5_round3 (words block) (md5_round2 (words block) (md5_round1 (words block) st)))"
    by (simp only: foldl_append four_rounds)
  moreover have "MD5Transform st block =
      (let (a, b, c, d) = md5_round4 (words block) (md5_round3 (words block) (md5_round2 (words block) (md5_round1 (words block) st)));
         (a0, b0, c0, d0) = st in (a0 + a, b0 + b, c0 + c, d0 + d))"
    by (simp only: MD5Transform_def words_def le_word_def [abs_def] Let_def)
  ultimately show ?thesis by (simp only: f1518caf_md5Transform_def)
qed

end
