(* ===== verification/MemoryRoutines.thy ===== *)
theory MemoryRoutines
  imports ErrorReport IntParse Md5
begin

text \<open>
  The routines of lang/memory.linux-x86_64.asm as the loops that they are, on one memory in which both objects lie, so that
  source and target may overlap; the block operations of \<open>CMemory\<close> that the other components use are shown to be what
  they compute. Further the message of lang/memory.c, the two routines that no C component calls, and
  f1518caf_appendMD5, which uses one of them, adt/vararg, lang/enum, and f6215943_createString of lang/string.h.
\<close>

lemma unat_count_down: "w \<noteq> 1 \<Longrightarrow> unat (w - 2 :: 'a::len word) < unat (w - 1)"
  using measure_unat [of "w - 1"] by (simp add: diff_diff_eq)

subsection \<open>memcopy\<close>

text \<open>Registers RDI and RSI are places in the memory; a move of several bytes reads all of them before it writes.\<close>

function copy_bytes :: "'a block \<Rightarrow> nat \<Rightarrow> nat \<Rightarrow> u8 \<Rightarrow> 'a block result" where
  "copy_bytes mem rdi rsi dl =
     bnd (blit mem rdi 1 mem rsi) (\<lambda>mem.
     if dl - 1 = 0 then Inr mem else copy_bytes mem (rdi + 1) (rsi + 1) (dl - 1))"
  by pat_completeness auto
termination
  by (relation "measure (\<lambda>(mem, rdi, rsi, dl). unat (dl - 1))") (auto simp: unat_count_down)

definition copy_four :: "'a block \<Rightarrow> nat \<Rightarrow> nat \<Rightarrow> u8 \<Rightarrow> 'a block result" where
  "copy_four mem rdi rsi dl =
     bnd (blit mem rdi 4 mem rsi) (\<lambda>mem.
     if dl - 4 = 0 then Inr mem else copy_bytes mem (rdi + 4) (rsi + 4) (dl - 4))"

function copy_eights :: "'a block \<Rightarrow> nat \<Rightarrow> nat \<Rightarrow> u64 \<Rightarrow> 'a block result" where
  "copy_eights mem rdi rsi rdx =
     bnd (blit mem rdi 8 mem rsi) (\<lambda>mem.
     let rdx' = rdx - 8
     in if rdx' = 0 then Inr mem
        else if rdx' \<ge> 8 then copy_eights mem (rdi + 8) (rsi + 8) rdx'
        else if (ucast rdx' :: u8) < 4 then copy_bytes mem (rdi + 8) (rsi + 8) (ucast rdx')
        else copy_four mem (rdi + 8) (rsi + 8) (ucast rdx'))"
  by pat_completeness auto
termination
proof (relation "measure (\<lambda>(mem, rdi, rsi, rdx). unat (rdx - 8))", goal_cases)
  case (2 mem rdi rsi rdx m r)
  then have le: "8 \<le> rdx - 8" by simp
  then have "unat (rdx - 8 - 8) < unat (rdx - 8)" unfolding unat_minus_fits [OF le] by (simp add: word_le_nat_alt)
  with 2 show ?case by simp
qed simp

declare copy_bytes.simps [simp del] copy_eights.simps [simp del]

definition f668c4bd_memcopy_x86 :: "'a block \<Rightarrow> nat \<Rightarrow> nat \<Rightarrow> u64 \<Rightarrow> 'a block result" where
  "f668c4bd_memcopy_x86 mem rdi rsi rdx =
     (if rdx \<ge> 8 then copy_eights mem rdi rsi rdx
      else let dl = ucast rdx :: u8
           in if dl \<ge> 4 then copy_four mem rdi rsi dl
              else if dl = 0 then Inr mem
              else copy_bytes mem rdi rsi dl)"

subsection \<open>meminit\<close>

function init_blocks :: "'a \<Rightarrow> 'a block \<Rightarrow> nat \<Rightarrow> u64 \<Rightarrow> u64 \<Rightarrow> ('a block \<times> u64) result" where
  "init_blocks zero mem rdi rcx rax =
     bnd (f668c4bd_meminit zero mem (rdi + 8 * unat rcx) 8) (\<lambda>mem.
     if rax - 1 = 0 then Inr (mem, rcx + 1) else init_blocks zero mem rdi (rcx + 1) (rax - 1))"
  by pat_completeness auto
termination
  by (relation "measure (\<lambda>(zero, mem, rdi, rcx, rax). unat (rax - 1))") (auto simp: unat_count_down)

function init_bytes :: "'a \<Rightarrow> 'a block \<Rightarrow> nat \<Rightarrow> u8 \<Rightarrow> 'a block result" where
  "init_bytes zero mem rdi sil =
     bnd (wr mem rdi zero) (\<lambda>mem.
     if sil - 1 = 0 then Inr mem else init_bytes zero mem (rdi + 1) (sil - 1))"
  by pat_completeness auto
termination
  by (relation "measure (\<lambda>(zero, mem, rdi, sil). unat (sil - 1))") (auto simp: unat_count_down)

declare init_blocks.simps [simp del] init_bytes.simps [simp del]

definition f668c4bd_meminit_x86 :: "'a \<Rightarrow> 'a block \<Rightarrow> nat ptr \<Rightarrow> u64 \<Rightarrow> 'a block result" where
  "f668c4bd_meminit_x86 zero mem ptr sz =
     (case ptr of None \<Rightarrow> Inr mem
      | Some rdi \<Rightarrow>
          if sz = 0 then Inr mem
          else
            let rax = drop_bit 3 sz
            in if rax = 0 then init_bytes zero mem rdi (ucast sz)
               else
                 let rsi = sz - push_bit 3 rax
                 in bnd (init_blocks zero mem rdi 0 rax) (\<lambda>(mem, rcx).
                    if rsi = 0 then Inr mem
                    else init_bytes zero mem (rdi + unat (push_bit 3 rcx)) (ucast rsi)))"

subsection \<open>The loops as block operations\<close>

text \<open>A move in two parts: the second part of the source is not what the first part has written.\<close>

definition safe_move :: "nat \<Rightarrow> nat \<Rightarrow> nat \<Rightarrow> bool" where
  "safe_move src n dest \<longleftrightarrow> dest \<le> src \<or> src + n \<le> dest"

lemma blit_cells:
  assumes "blit mem s n mem d = Inr m"
  shows "length m = length mem" "i < length mem \<Longrightarrow> m ! i = (if d \<le> i \<and> i < d + n then mem ! (s + (i - d)) else mem ! i)"
  using assms by (auto simp: blit_def nth_append split: if_splits)

lemma blit_split:
  assumes "safe_move s (k + j) d"
  shows "bnd (blit mem s k mem d) (\<lambda>m. blit m (s + k) j m (d + k)) = blit mem s (k + j) mem d"
proof (cases "s + (k + j) \<le> length mem \<and> d + (k + j) \<le> length mem")
  case True
  then obtain m where m: "blit mem s k mem d = Inr m" by (simp add: blit_def)
  note cells = blit_cells [OF m]
  from True cells(1) obtain m' where m': "blit m (s + k) j m (d + k) = Inr m'" by (simp add: blit_def)
  from True obtain r where r: "blit mem s (k + j) mem d = Inr r" by (simp add: blit_def)
  have "m' = r"
  proof (rule nth_equalityI)
    show "length m' = length r" using blit_cells(1) [OF m'] blit_cells(1) [OF r] cells(1) by simp
    fix i assume "i < length m'"
    then have i: "i < length mem" using blit_cells(1) [OF m'] cells(1) by simp
    have src: "m ! (s + k + (i - (d + k))) = mem ! (s + k + (i - (d + k)))" if "d + k \<le> i" "i < d + k + j"
      using that True assms cells(2) [of "s + k + (i - (d + k))"] by (auto simp: safe_move_def)
    show "m' ! i = r ! i"
      using src i blit_cells(2) [OF m', of i] blit_cells(2) [OF r, of i] cells by auto
  qed
  then show ?thesis by (simp add: m m' r)
next
  case False
  then show ?thesis by (auto simp: blit_def split: if_splits)
qed

lemma copy_bytes_blit:
  "dl \<noteq> 0 \<Longrightarrow> safe_move rdi (unat dl) rsi \<Longrightarrow> copy_bytes mem rdi rsi dl = blit mem rdi (unat dl) mem rsi"
proof (induction mem rdi rsi dl rule: copy_bytes.induct)
  case (1 mem rdi rsi dl)
  have n: "unat dl = 1 + unat (dl - 1)" using 1(2) by (simp add: unat_dec unat_gt_0 Suc_leI)
  show ?case
  proof (cases "dl - 1 = 0")
    case True
    then have "unat dl = 1" using n by simp
    then show ?thesis using True by (subst copy_bytes.simps) simp
  next
    case False
    have safe: "safe_move (rdi + 1) (unat (dl - 1)) (rsi + 1)" using 1(3) n by (auto simp: safe_move_def)
    have "copy_bytes mem rdi rsi dl = bnd (blit mem rdi 1 mem rsi) (\<lambda>m. copy_bytes m (rdi + 1) (rsi + 1) (dl - 1))"
      using False by (subst copy_bytes.simps) simp
    also have "\<dots> = bnd (blit mem rdi 1 mem rsi) (\<lambda>m. blit m (rdi + 1) (unat (dl - 1)) m (rsi + 1))"
      by (rule bnd_cong [OF refl]) (rule 1(1) [OF _ False False safe])
    also have "\<dots> = blit mem rdi (unat dl) mem rsi"
      using blit_split [of rdi 1 "unat (dl - 1)" rsi mem] 1(3) n by simp
    finally show ?thesis .
  qed
qed

lemma copy_four_blit:
  assumes "4 \<le> dl" "safe_move rdi (unat dl) rsi"
  shows "copy_four mem rdi rsi dl = blit mem rdi (unat dl) mem rsi"
proof -
  have n: "unat dl = 4 + unat (dl - 4)" using assms(1) by (simp add: unat_minus_fits word_le_nat_alt)
  show ?thesis
  proof (cases "dl - 4 = 0")
    case True
    then show ?thesis using n by (simp add: copy_four_def)
  next
    case False
    have "safe_move (rdi + 4) (unat (dl - 4)) (rsi + 4)" using assms(2) n by (auto simp: safe_move_def)
    then have "copy_four mem rdi rsi dl = bnd (blit mem rdi 4 mem rsi) (\<lambda>m. blit m (rdi + 4) (unat (dl - 4)) m (rsi + 4))"
      using False by (simp add: copy_four_def copy_bytes_blit)
    then show ?thesis using blit_split [of rdi 4 "unat (dl - 4)" rsi mem] assms(2) n by simp
  qed
qed

lemma low_byte: "w < 8 \<Longrightarrow> unat (ucast (w :: u64) :: u8) = unat w"
  by (simp add: unsigned_ucast_eq take_bit_nat_eq_self word_less_nat_alt)

lemma copy_eights_blit:
  "8 \<le> rdx \<Longrightarrow> safe_move rdi (unat rdx) rsi \<Longrightarrow> copy_eights mem rdi rsi rdx = blit mem rdi (unat rdx) mem rsi"
proof (induction mem rdi rsi rdx rule: copy_eights.induct)
  case (1 mem rdi rsi rdx)
  let ?r = "rdx - 8"
  have n: "unat rdx = 8 + unat ?r" using 1(2) by (simp add: unat_minus_fits word_le_nat_alt)
  have safe: "safe_move (rdi + 8) (unat ?r) (rsi + 8)" using 1(3) n by (auto simp: safe_move_def)
  have rest: "(if ?r = 0 then Inr m
        else if ?r \<ge> 8 then copy_eights m (rdi + 8) (rsi + 8) ?r
        else if (ucast ?r :: u8) < 4 then copy_bytes m (rdi + 8) (rsi + 8) (ucast ?r)
        else copy_four m (rdi + 8) (rsi + 8) (ucast ?r)) = blit m (rdi + 8) (unat ?r) m (rsi + 8)"
    if m: "blit mem rdi 8 mem rsi = Inr m" for m
  proof -
    have len: "length m = length mem" "rdi + 8 \<le> length mem" "rsi + 8 \<le> length mem"
      using blit_cells(1) [OF m] m by (auto simp: blit_def split: if_splits)
    consider "?r = 0" | "?r \<ge> 8" | "?r \<noteq> 0" "?r < 8" by force
    then show ?thesis
    proof cases
      case 1
      then show ?thesis using len by (simp add: blit_def)
    next
      case 2
      have nz: "?r \<noteq> 0"
      proof
        assume "?r = 0"
        with 2 have "8 \<le> (0 :: u64)" by (simp only:)
        then show False by simp
      qed
      have "copy_eights m (rdi + 8) (rsi + 8) ?r = blit m (rdi + 8) (unat ?r) m (rsi + 8)"
        by (rule "1.IH" [OF m refl nz 2 2 safe])
      then show ?thesis using 2 nz by (simp only: if_True if_False)
    next
      case 3
      then have b: "unat (ucast ?r :: u8) = unat ?r" by (simp only: low_byte)
      then have "(ucast ?r :: u8) \<noteq> 0" using 3(1) by (metis unat_eq_0)
      moreover have "\<not> 8 \<le> ?r" using 3(2) by simp
      ultimately show ?thesis using 3 b safe
        by (cases "(ucast ?r :: u8) < 4") (simp_all add: copy_bytes_blit copy_four_blit del: unsigned_ucast_eq)
    qed
  qed
  have "copy_eights mem rdi rsi rdx = bnd (blit mem rdi 8 mem rsi) (\<lambda>m. blit m (rdi + 8) (unat ?r) m (rsi + 8))"
    unfolding copy_eights.simps [of mem rdi rsi rdx] Let_def by (rule bnd_cong [OF refl]) (rule rest)
  then show ?case using blit_split [of rdi 8 "unat ?r" rsi mem] 1(3) n by simp
qed

lemma memcopy_x86_blit:
  assumes "safe_move rdi (unat rdx) rsi" "rdx = 0 \<Longrightarrow> rdi \<le> length mem \<and> rsi \<le> length mem"
  shows "f668c4bd_memcopy_x86 mem rdi rsi rdx = f668c4bd_memcopy mem rdi mem rsi (unat rdx)"
proof (cases "rdx \<ge> 8")
  case True
  then show ?thesis using assms by (simp add: f668c4bd_memcopy_x86_def f668c4bd_memcopy_def copy_eights_blit)
next
  case False
  then have b: "unat (ucast rdx :: u8) = unat rdx" by (simp add: low_byte)
  show ?thesis
  proof (cases "rdx = 0")
    case True
    then show ?thesis using assms(2) by (simp add: f668c4bd_memcopy_x86_def f668c4bd_memcopy_def blit_def)
  next
    case nz: False
    then have "(ucast rdx :: u8) \<noteq> 0" using b by (metis unat_eq_0)
    then show ?thesis using False b assms(1)
      by (cases "(ucast rdx :: u8) \<ge> 4")
        (simp_all add: f668c4bd_memcopy_x86_def f668c4bd_memcopy_def copy_bytes_blit copy_four_blit del: unsigned_ucast_eq)
  qed
qed

text \<open>Two objects in one memory, in either order: memcopy moves between them as the block operation does.\<close>

lemma memcopy_x86_objects:
  assumes "f668c4bd_memcopy source si dest di (unat n) = Inr dest'"
  shows "f668c4bd_memcopy_x86 (a @ source @ b @ dest @ c) (length a + si) (length a + length source + length b + di) n =
           Inr (a @ source @ b @ dest' @ c)" (is ?one)
    and "f668c4bd_memcopy_x86 (a @ dest @ b @ source @ c) (length a + length dest + length b + si) (length a + di) n =
           Inr (a @ dest' @ b @ source @ c)" (is ?two)
proof -
  from assms have le: "si + unat n \<le> length source" "di + unat n \<le> length dest"
    and d: "dest' = take di dest @ take (unat n) (drop si source) @ drop (di + unat n) dest"
    by (auto simp: f668c4bd_memcopy_def blit_def split: if_splits)
  show ?one using le d by (subst memcopy_x86_blit) (auto simp: safe_move_def f668c4bd_memcopy_def blit_def)
  show ?two using le d by (subst memcopy_x86_blit) (auto simp: safe_move_def f668c4bd_memcopy_def blit_def)
qed

text \<open>When the target overlaps the source from behind, what has been written is copied again.\<close>

lemma memcopy_overlap:
  "f668c4bd_memcopy_x86 (map Some ''abcdefghijkl'') 0 2 10 = Inr (map Some ''ababcdefghgh'')"
  by (simp add: f668c4bd_memcopy_x86_def copy_eights.simps copy_bytes.simps blit_def Let_def)

lemma meminit_split:
  "bnd (f668c4bd_meminit z mem a k) (\<lambda>m. f668c4bd_meminit z m (a + k) j) = f668c4bd_meminit z mem a (k + j)"
  by (auto simp: f668c4bd_meminit_def replicate_add min_def ac_simps) (metis add.commute replicate_add)

lemma wr_meminit: "wr mem a z = f668c4bd_meminit z mem a 1"
  by (simp add: f668c4bd_meminit_def wr_def upd_conv_take_nth_drop)

lemma init_bytes_meminit: "sil \<noteq> 0 \<Longrightarrow> init_bytes z mem rdi sil = f668c4bd_meminit z mem rdi (unat sil)"
proof (induction z mem rdi sil rule: init_bytes.induct)
  case (1 z mem rdi sil)
  have n: "unat sil = 1 + unat (sil - 1)" using 1(2) by (simp add: unat_dec unat_gt_0 Suc_leI)
  show ?case
  proof (cases "sil - 1 = 0")
    case True
    then have "unat sil = 1" using n by simp
    then show ?thesis using True by (subst init_bytes.simps) (simp add: wr_meminit)
  next
    case False
    have "init_bytes z mem rdi sil = bnd (wr mem rdi z) (\<lambda>m. init_bytes z m (rdi + 1) (sil - 1))"
      using False by (subst init_bytes.simps) simp
    also have "\<dots> = bnd (wr mem rdi z) (\<lambda>m. f668c4bd_meminit z m (rdi + 1) (unat (sil - 1)))"
      by (rule bnd_cong [OF refl]) (rule 1(1) [OF _ False False])
    also have "\<dots> = f668c4bd_meminit z mem rdi (unat sil)"
      using meminit_split [of z mem rdi 1 "unat (sil - 1)"] n by (simp add: wr_meminit)
    finally show ?thesis .
  qed
qed

lemma init_blocks_meminit:
  "rax \<noteq> 0 \<Longrightarrow> unat rcx + unat rax < 2 ^ 64 \<Longrightarrow>
     init_blocks z mem rdi rcx rax =
       bnd (f668c4bd_meminit z mem (rdi + 8 * unat rcx) (8 * unat rax)) (\<lambda>m. Inr (m, rcx + rax))"
proof (induction z mem rdi rcx rax rule: init_blocks.induct)
  case (1 z mem rdi rcx rax)
  have n: "unat rax = 1 + unat (rax - 1)" using 1(2) by (simp add: unat_dec unat_gt_0 Suc_leI)
  show ?case
  proof (cases "rax - 1 = 0")
    case True
    then have "unat rax = 1" "rax = 1" using n by simp_all
    then show ?thesis by (subst init_blocks.simps) simp
  next
    case False
    have c: "unat (rcx + 1) = unat rcx + 1" using 1(3) n by (intro unat_inc) simp
    have "init_blocks z mem rdi rcx rax =
        bnd (f668c4bd_meminit z mem (rdi + 8 * unat rcx) 8) (\<lambda>m. init_blocks z m rdi (rcx + 1) (rax - 1))"
      using False by (subst init_blocks.simps) simp
    also have "\<dots> = bnd (f668c4bd_meminit z mem (rdi + 8 * unat rcx) 8) (\<lambda>m.
        bnd (f668c4bd_meminit z m (rdi + 8 * unat (rcx + 1)) (8 * unat (rax - 1))) (\<lambda>m. Inr (m, rcx + 1 + (rax - 1))))"
      using 1(3) c n by (intro bnd_cong [OF refl] 1(1) [OF _ False False]) simp_all
    also have "\<dots> = bnd (f668c4bd_meminit z mem (rdi + 8 * unat rcx) (8 * unat rax)) (\<lambda>m. Inr (m, rcx + rax))"
      using meminit_split [of z mem "rdi + 8 * unat rcx" 8 "8 * unat (rax - 1)"] n c
      by (simp add: bnd_assoc [symmetric] algebra_simps)
    finally show ?thesis .
  qed
qed

lemma meminit_x86_block:
  assumes "sz = 0 \<Longrightarrow> a \<le> length mem"
  shows "f668c4bd_meminit_x86 z mem (Some a) sz = f668c4bd_meminit z mem a (unat sz)"
proof (cases "sz = 0")
  case True
  then show ?thesis using assms by (simp add: f668c4bd_meminit_x86_def f668c4bd_meminit_def)
next
  case nz: False
  let ?rax = "drop_bit 3 sz" and ?rsi = "sz - push_bit 3 (drop_bit 3 sz)"
  have rax: "unat ?rax = unat sz div 8" by (simp only: unat_drop_bit_eq) (simp add: drop_bit_eq_div)
  show ?thesis
  proof (cases "?rax = 0")
    case True
    then have "unat sz < 8" using rax by (simp add: div_eq_0_iff)
    then have b: "unat (ucast sz :: u8) = unat sz" by (intro low_byte) (simp add: word_less_nat_alt)
    then have "(ucast sz :: u8) \<noteq> 0" using nz by (metis unat_eq_0)
    then show ?thesis using True nz b init_bytes_meminit [of "ucast sz" z mem a]
      by (simp add: f668c4bd_meminit_x86_def del: unsigned_ucast_eq)
  next
    case False
    have p: "unat (push_bit 3 ?rax) = 8 * (unat sz div 8)"
      using rax unat_u64_lt [of sz] by (simp add: push_bit_eq_mult unat_word_ariths)
    then have "push_bit 3 ?rax \<le> sz" by (simp add: word_le_nat_alt)
    then have r: "unat ?rsi = unat sz mod 8" using p by (simp add: unat_minus_fits minus_mult_div_eq_mod)
    then have b: "unat (ucast ?rsi :: u8) = unat sz mod 8" by (subst low_byte) (simp_all add: word_less_nat_alt)
    have blocks: "init_blocks z mem a 0 ?rax =
        bnd (f668c4bd_meminit z mem a (8 * (unat sz div 8))) (\<lambda>m. Inr (m, ?rax))"
      using init_blocks_meminit [OF False, of 0 z mem a] rax unat_u64_lt [of ?rax] by simp
    show ?thesis
    proof (cases "?rsi = 0")
      case True
      then have "8 * (unat sz div 8) = unat sz" using r by (simp add: mult_div_mod_eq [symmetric] dvd_imp_mod_0 mod_eq_0_iff_dvd)
      then show ?thesis using False nz True blocks
        by (simp add: f668c4bd_meminit_x86_def bnd_assoc Let_def del: right_minus_eq)
    next
      case rsi: False
      then have "(ucast ?rsi :: u8) \<noteq> 0" using r b by (metis unat_eq_0)
      then have "init_bytes z m (a + 8 * (unat sz div 8)) (ucast ?rsi) =
          f668c4bd_meminit z m (a + 8 * (unat sz div 8)) (unat sz mod 8)" for m
        using init_bytes_meminit [of "ucast ?rsi" z m "a + 8 * (unat sz div 8)"] b by (simp del: unsigned_ucast_eq)
      then show ?thesis using False nz rsi blocks p meminit_split [of z mem a "8 * (unat sz div 8)" "unat sz mod 8"]
        by (simp add: f668c4bd_meminit_x86_def bnd_assoc Let_def del: right_minus_eq)
    qed
  qed
qed

subsection \<open>Allocation\<close>

definition f668c4bd_alignedAlloc :: "(nat \<Rightarrow> nat \<Rightarrow> 'a block ptr) \<Rightarrow> nat \<Rightarrow> nat \<Rightarrow> 'a block result" where
  "f668c4bd_alignedAlloc aligned_alloc alignment sz =
     (case aligned_alloc alignment sz of None \<Rightarrow> Inl Abort | Some b \<Rightarrow> Inr b)"

text \<open>lang/memory.c: what is on stderr before the abort of a failed realloc.\<close>

definition printErrorMessage :: "env \<Rightarrow> u64 \<Rightarrow> int \<Rightarrow> string result" where
  "printErrorMessage e sz errno =
     bnd c598a24c_initStringBuilder (\<lambda>errorMessage.
     bnd (c598a24c_append_string errorMessage (''Cannot allocate buffer of size '' @ [quote])) (\<lambda>errorMessage.
     bnd (c598a24c_append_uint64 errorMessage sz) (\<lambda>errorMessage.
     bnd (c598a24c_append_char errorMessage quote) (\<lambda>errorMessage.
     bnd (c_string (sb_buffer errorMessage)) (\<lambda>m. Inr (c7c88e52_printLibError e m errno))))))"

text \<open>
  f668c4bd_realloc: RAX still holds 15 when it becomes the size of the new block, and the number of copies of
  16 bytes is the old size times 16.
\<close>

definition round_up :: "u64 \<Rightarrow> u64" where
  "round_up n = push_bit 4 (drop_bit 4 (n + 15))"

function whileData :: "'a block \<Rightarrow> 'a block \<Rightarrow> nat \<Rightarrow> u64 \<Rightarrow> 'a block result" where
  "whileData old new i rsi =
     bnd (blit old i 16 new i) (\<lambda>new. if rsi - 1 = 0 then Inr new else whileData old new (i + 16) (rsi - 1))"
  by pat_completeness auto
termination
  by (relation "measure (\<lambda>(old, new, i, rsi). unat (rsi - 1))") (auto simp: unat_count_down)

declare whileData.simps [simp del]

definition f668c4bd_realloc :: "'a block ptr \<Rightarrow> u64 \<Rightarrow> u64 \<Rightarrow> 'a block result" where
  "f668c4bd_realloc ptr origSize newSize =
     (let rax = 15; rsi = round_up origSize; rdx = round_up newSize
      in if rsi > rdx then Inl Abort
         else bnd (deref ptr) (\<lambda>old. whileData old (fresh rax) 0 (push_bit 4 rsi)))"

text \<open>
  f668c4bd_resizeStrArray: a null pointer, an empty text or no new size end it with what the caller had in R13. The rounded size
  is overwritten by the one that was asked for.
\<close>

definition f668c4bd_resizeStrArray :: "'a block ptr \<Rightarrow> 'a block ptr \<Rightarrow> u32 \<Rightarrow> nat \<Rightarrow> 'a block ptr result" where
  "f668c4bd_resizeStrArray r13 strPtr strLen newSize =
     (case strPtr of None \<Rightarrow> Inr r13
      | Some str \<Rightarrow>
          if strLen = 0 \<or> newSize = 0 then Inr r13
          else bnd (f668c4bd_memcopy str 0 (fresh newSize) 0 (unat strLen)) (\<lambda>b. Inr (Some b)))"

subsection \<open>hash/md5: a digest appended to a builder\<close>

definition f1518caf_appendMD5 :: "char block ptr \<Rightarrow> StringBuilder \<Rightarrow> digest \<Rightarrow> StringBuilder result" where
  "f1518caf_appendMD5 r13 builder state =
     (let edx = sb_length builder + 32; ecx = sb_size builder; r8d = sb_length builder
      in bnd (if edx < ecx then Inr builder
              else
                let ecx = ecx + r8d; r8d = drop_bit 1 r8d; ecx = ecx + r8d; builder = builder\<lparr>sb_size := ecx\<rparr>
                in bnd (f668c4bd_resizeStrArray r13 (Some (sb_buffer builder)) r8d (unat edx)) (\<lambda>p.
                   bnd (deref p) (\<lambda>b. Inr (builder\<lparr>sb_buffer := b\<rparr>)))) (\<lambda>builder.
         let rdx = unat (sb_length builder); builder = builder\<lparr>sb_length := edx\<rparr>
         in bnd (blit (map Some (f1518caf_getHexString state)) 0 32 (sb_buffer builder) rdx) (\<lambda>b.
            bnd (wr b (rdx + 32) NUL) (\<lambda>b. Inr (builder\<lparr>sb_buffer := b\<rparr>)))))"

subsection \<open>adt/vararg, lang/enum, and strings with a length\<close>

text \<open>The list is behind the size at offset 8, in a struct of 16 bytes and one pointer for each argument. malloc is not checked.\<close>

record 'p Vararg =
  va_size :: "u32 option"
  va_list :: "'p block"

definition f590a9e5_createVararg :: "bool \<Rightarrow> u32 \<Rightarrow> 'p list \<Rightarrow> 'p Vararg ptr result" where
  "f590a9e5_createVararg mallocFails numArgs args =
     (let n = unat numArgs
      in if mallocFails then (if n = 0 then Inr None else Inl NullPointer)
         else bnd (blit (map Some args) 0 n (fresh (n + 1)) 0) (\<lambda>b. Inr (Some \<lparr>va_size = None, va_list = b\<rparr>)))"

text \<open>A text at an offset of a list of texts.\<close>

definition c5033972_toStringEnum :: "char block \<Rightarrow> nat \<Rightarrow> char block" where
  "c5033972_toStringEnum enumStringList enumValue = drop enumValue enumStringList"

record CharString =
  str_value :: "char block"
  str_length :: u32
  str_size :: "u32 option"

definition f6215943_createString :: "nat \<Rightarrow> CharString result" where
  "f6215943_createString len =
     bnd (f668c4bd_mallocArray 1 ((len + 1) mod 2 ^ 64)) (\<lambda>b.
     Inr \<lparr>str_value = b, str_length = of_nat len, str_size = None\<rparr>)"

subsection \<open>Lemmas\<close>

lemma printErrorMessage_text:
  "printErrorMessage e sz errno =
     Inr (c7c88e52_printLibError e (''Cannot allocate buffer of size '' @ [quote] @ dec_string (unat sz) @ [quote]) errno)"
proof -
  let ?t = "''Cannot allocate buffer of size '' @ [quote]" and ?n = "dec_string (unat sz)"
  have n: "length ?n \<le> 20" by (rule dec_string_length_u64)
  from init_default obtain s0 where s0: "c598a24c_initStringBuilder = Inr s0" "sb_rep s0 []" "sb_room s0 = 128" "sb_size s0 = 64"
    by blast
  from append_string_ok [OF s0(2), of ?t] s0(3,4) obtain s1 where s1:
    "c598a24c_append_string s0 ?t = Inr s1" "sb_rep s1 ?t" "128 \<le> sb_room s1" "sb_size s1 = 64" by auto
  from append_string_ok [OF s1(2), of ?n] s1(3,4) n obtain s2 where s2:
    "c598a24c_append_uint64 s1 sz = Inr s2" "sb_rep s2 (?t @ ?n)" "sb_size s2 = 64"
    by (auto simp: c598a24c_append_uint64_def append_and_free_def allocated_def toString_uint64_dec)
  from append_char_core [OF s2(2), of quote] s2(3) n obtain s3 where s3:
    "c598a24c_append_char s2 quote = Inr s3" "sb_rep s3 ((?t @ ?n) @ [quote])" by auto
  have "NUL \<notin> set ?n" by (rule dec_string_no_NUL)
  then have "c_string (sb_buffer s3) = Inr ((?t @ ?n) @ [quote])"
    using s3(2) by (intro c_string_holds) (auto simp: sb_rep_def)
  then show ?thesis unfolding printErrorMessage_def s0(1) bnd_Inr s1(1) s2(1) s3(1) by simp
qed

text \<open>No call of f668c4bd_realloc returns.\<close>

lemma realloc_never_returns: "f668c4bd_realloc ptr origSize newSize \<noteq> Inr b"
  by (auto simp: f668c4bd_realloc_def whileData.simps [of _ _ 0] blit_def Let_def deref_def split: option.splits if_splits)

lemma createVararg_list:
  assumes "length args = unat numArgs"
  shows "\<exists>v. f590a9e5_createVararg False numArgs args = Inr (Some v) \<and> holds (va_list v) args \<and> va_size v = None"
  using assms by (auto simp: f590a9e5_createVararg_def blit_def Let_def holds_append_cells)

text \<open>A list of texts and the offset of one of them.\<close>

definition packed_texts :: "string list \<Rightarrow> char block" where
  "packed_texts ts = concat (map (\<lambda>t. map Some (t @ [NUL])) ts)"

definition text_offset :: "string list \<Rightarrow> nat \<Rightarrow> nat" where
  "text_offset ts k = length (packed_texts (take k ts))"

lemma toStringEnum_text:
  assumes "\<forall>t \<in> set ts. NUL \<notin> set t" "k < length ts"
  shows "c_string (c5033972_toStringEnum (packed_texts ts) (text_offset ts k)) = Inr (ts ! k)"
proof -
  have "packed_texts ts = packed_texts (take k ts) @ map Some (ts ! k @ [NUL]) @ packed_texts (drop (Suc k) ts)"
    using assms(2) unfolding packed_texts_def by (subst id_take_nth_drop [OF assms(2)]) simp
  then have "c5033972_toStringEnum (packed_texts ts) (text_offset ts k) =
      map Some (ts ! k @ [NUL]) @ packed_texts (drop (Suc k) ts)"
    by (simp add: c5033972_toStringEnum_def text_offset_def)
  then show ?thesis using assms by (auto intro!: c_string_holds simp del: map_append simp: holds_append_cells)
qed

text \<open>A string with a length is not closed and its size is not set; the length loses the bits above 32.\<close>

lemma createString_new:
  "len < 2 ^ 40 - 1 \<Longrightarrow> f6215943_createString len =
     Inr \<lparr>str_value = fresh ((16 + len) div 16 * 16), str_length = of_nat len, str_size = None\<rparr>"
  by (simp add: f6215943_createString_def mallocArray_small ac_simps)

subsection \<open>The digest in a builder\<close>

lemma hex_string_length: "length (f1518caf_getHexString state) = 32"
  by (cases state) (simp add: f1518caf_getHexString_def digest_bytes_def le32_def length_concat comp_def sum_list_triv)

text \<open>Where the builder has room, the text of the digest is appended and closed.\<close>

lemma appendMD5_appends:
  assumes "holds (sb_buffer sb) cs" "unat (sb_length sb) = length cs" "unat (sb_size sb) \<le> length (sb_buffer sb)"
    and "length cs + 32 < unat (sb_size sb)"
  shows "\<exists>sb'. f1518caf_appendMD5 r13 sb state = Inr sb' \<and>
               holds (sb_buffer sb') (cs @ f1518caf_getHexString state @ [NUL]) \<and> unat (sb_length sb') = length cs + 32"
proof -
  let ?h = "f1518caf_getHexString state" and ?n = "length cs"
  have len: "unat (sb_length sb + 32) = ?n + 32"
    using assms(2,4) unat_u32_lt [of "sb_size sb"] by (simp add: unat_plus_fits)
  then have room: "sb_length sb + 32 < sb_size sb" using assms(4) by (simp add: word_less_nat_alt)
  let ?b = "take ?n (sb_buffer sb) @ map Some ?h @ drop (?n + 32) (sb_buffer sb)"
  have b: "take ?n (sb_buffer sb) = map Some cs" using assms(1) by (rule take_eq_of_holds)
  have l: "?n + 32 < length (sb_buffer sb)" using assms(3,4) by simp
  then have "blit (map Some ?h) 0 32 (sb_buffer sb) ?n = Inr ?b" by (simp add: blit_def hex_string_length)
  moreover have "wr ?b (?n + 32) NUL = Inr (?b[?n + 32 := Some NUL])"
    using l by (intro wr_ok) (simp add: hex_string_length)
  moreover have "holds ?b (cs @ ?h)" using b holds_append_cells [of "cs @ ?h"] by simp
  then have "holds (?b[?n + 32 := Some NUL]) ((cs @ ?h) @ [NUL])"
    using holds_snoc [of ?b "cs @ ?h" NUL] l by (simp add: hex_string_length)
  ultimately show ?thesis using room len assms(2) by (simp add: f1518caf_appendMD5_def Let_def)
qed

text \<open>
  Where it has not, half of the text is copied into a block without room for the closing NUL: the last write is
  outside of it.
\<close>

lemma appendMD5_overflows:
  assumes "unat (sb_length sb) + 32 < 2 ^ 32" "unat (sb_size sb) \<le> unat (sb_length sb) + 32"
    and "2 \<le> unat (sb_length sb)" "unat (sb_length sb) \<le> length (sb_buffer sb)"
  shows "f1518caf_appendMD5 r13 sb state = Inl OutOfBounds"
proof -
  let ?n = "unat (sb_length sb)" and ?h = "f1518caf_getHexString state"
  have len: "unat (sb_length sb + 32) = ?n + 32" using assms(1) by (simp add: unat_plus_fits)
  then have full: "\<not> sb_length sb + 32 < sb_size sb" using assms(2) by (simp add: word_less_nat_alt)
  have half: "unat (drop_bit 1 (sb_length sb)) = ?n div 2" by (simp only: unat_drop_bit_eq) (simp add: drop_bit_eq_div)
  then have nz: "drop_bit 1 (sb_length sb) \<noteq> 0" using assms(3) by (auto simp: div_eq_0_iff)
  define b where "b = take (?n div 2) (sb_buffer sb) @ fresh (?n + 32 - ?n div 2)"
  have b: "length b = ?n + 32" using assms(4) by (simp add: b_def)
  have "?n div 2 \<le> length (sb_buffer sb)" "?n div 2 \<le> ?n + 32" using assms(4) by linarith+
  then have "f668c4bd_resizeStrArray r13 (Some (sb_buffer sb)) (drop_bit 1 (sb_length sb)) (unat (sb_length sb + 32)) = Inr (Some b)"
    using nz half len assms(4) by (simp add: f668c4bd_resizeStrArray_def f668c4bd_memcopy_def blit_def b_def fresh_def)
  moreover obtain b' where "blit (map Some ?h) 0 32 b ?n = Inr b'" "length b' = ?n + 32"
    using b by (auto simp: blit_def hex_string_length)
  ultimately show ?thesis using full by (simp add: f1518caf_appendMD5_def Let_def wr_def)
qed

text \<open>On an empty builder that is too small the register R13 is taken for the buffer.\<close>

lemma appendMD5_short_text:
  "sb_length sb = 0 \<Longrightarrow> sb_size sb \<le> 32 \<Longrightarrow> f1518caf_appendMD5 None sb state = Inl NullPointer"
  by (simp add: f1518caf_appendMD5_def f668c4bd_resizeStrArray_def Let_def leD)

subsection \<open>Properties\<close>

text \<open>C40: the assembler's copy and clear loops, by eight, four and single bytes, are the block operations that the components
  use: a copy moves the bytes of the source as they were before the call, unless the target overlaps the source from behind.\<close>

theorem memory_routines_are_block_operations:
  assumes "dest \<le> src \<or> src + unat n \<le> dest" "src \<le> length mem" "dest \<le> length mem"
  shows "f668c4bd_memcopy_x86 mem src dest n = f668c4bd_memcopy mem src mem dest (unat n) \<and>
         f668c4bd_meminit_x86 z mem (Some dest) n = f668c4bd_meminit z mem dest (unat n)"
  using assms by (auto intro: memcopy_x86_blit meminit_x86_block simp: safe_move_def)

lemma memory_routines_are_block_operations_witness:
  "f668c4bd_memcopy_x86 (map Some ''abcdefghijklmnopqrst'') 1 0 15 = Inr (map Some ''bcdefghijklmnoppqrst'') \<and>
   f668c4bd_meminit_x86 CHR ''0'' (map Some ''abcdefghijklmnopqrst'') (Some 0) 15 = Inr (replicate 15 (Some CHR ''0'') @ map Some ''pqrst'')"
  using memory_routines_are_block_operations [of 0 1 15 "map Some ''abcdefghijklmnopqrst''" "CHR ''0''"]
  by (simp add: f668c4bd_memcopy_def f668c4bd_meminit_def blit_def)

end
