(* ===== verification/Time.thy ===== *)
theory Time
  imports ErrorReport
begin

text \<open>
  time/time.c: broken-down times. gmtime_r and mktime of the C library are parameters; time_t is
  a 64-bit word. The fields of struct tm are C ints, here numbers, since all values stored fit.
\<close>

unbundle bit_operations_syntax

record Time =
  tm_sec :: int
  tm_min :: int
  tm_hour :: int
  tm_mday :: int
  tm_mon :: int
  tm_year :: int
  tm_wday :: int
  tm_yday :: int
  tm_isdst :: int

definition zero_time :: Time where
  "zero_time = \<lparr>tm_sec = 0, tm_min = 0, tm_hour = 0, tm_mday = 0, tm_mon = 0, tm_year = 0,
                tm_wday = 0, tm_yday = 0, tm_isdst = 0\<rparr>"

text \<open>The message shows the low 32 bits of the number of seconds, as append_int takes an int.\<close>

definition a66923ff_initTime :: "env \<Rightarrow> (u64 \<Rightarrow> Time sysret) \<Rightarrow> u64 \<Rightarrow> Time result" where
  "a66923ff_initTime e gmtime_r seconds =
     (case gmtime_r seconds of
        SysOk t \<Rightarrow> Inr t
      | SysErr errno \<Rightarrow>
          bnd (message_in (c598a24c_initStringBuilder_uint32 128)
                 [Str (''Error converting time_t '' @ [quote]), Sint (ucast seconds), Chr quote]) (\<lambda>m.
          Inl (Exit (c7c88e52_printLibError e m errno))))"

definition dos_fields :: "u16 \<Rightarrow> u16 \<Rightarrow> Time" where
  "dos_fields dosDate dosTime = zero_time\<lparr>
     tm_isdst := - 1,
     tm_mday := uint (dosDate AND 0x1F),
     tm_mon := uint (drop_bit 5 (dosDate AND 0x1E0)) - 1,
     tm_year := uint (drop_bit 9 (dosDate AND 0xFE00)) + 80,
     tm_sec := 2 * uint (dosTime AND 0x1F),
     tm_min := uint (drop_bit 5 (dosTime AND 0x7E0)),
     tm_hour := uint (drop_bit 11 (dosTime AND 0xF800))\<rparr>"

definition a66923ff_convertTimeFromDOS :: "(Time \<Rightarrow> u64) \<Rightarrow> u16 \<Rightarrow> u16 \<Rightarrow> u64" where
  "a66923ff_convertTimeFromDOS mktime dosDate dosTime = mktime (dos_fields dosDate dosTime)"

definition a66923ff_getYear :: "Time \<Rightarrow> int" where
  "a66923ff_getYear t = tm_year t + 1900"

subsection \<open>The MS-DOS format\<close>

text \<open>The packing that the header file describes: the day, month and year offset; half the seconds, the minute, the hour.\<close>

definition dos_date :: "nat \<Rightarrow> nat \<Rightarrow> nat \<Rightarrow> u16" where
  "dos_date year month day = of_nat (day + 32 * month + 512 * (year - 1980))"

definition dos_time :: "nat \<Rightarrow> nat \<Rightarrow> nat \<Rightarrow> u16" where
  "dos_time hour minute second = of_nat (second div 2 + 32 * minute + 2048 * hour)"

text \<open>A field of \<open>n\<close> bits at position \<open>k\<close>, cut out with a mask.\<close>

lemma field_value:
  fixes w :: u16
  assumes "m = push_bit k (mask n)"
  shows "uint (drop_bit k (w AND m)) = int (unat w div 2 ^ k mod 2 ^ n)"
proof -
  have "drop_bit k (w AND m) = drop_bit k w AND drop_bit k (push_bit k (mask n))"
    by (simp add: assms)
  also have "\<dots> = take_bit n (drop_bit k w)"
    by (rule bit_eqI) (auto simp: bit_simps dest: bit_imp_le_length)
  finally have "unat (drop_bit k (w AND m)) = unat w div 2 ^ k mod 2 ^ n"
    by (simp add: unsigned_take_bit_eq unat_drop_bit_eq take_bit_eq_mod [of _ "unat _"] drop_bit_eq_div [of _ "unat _"]
          take_bit_eq_mod [of _ "_ :: nat"] drop_bit_eq_div [of _ "_ :: nat"])
  then show ?thesis by (simp only: uint_nat)
qed

lemma dos_fields_values:
  "dos_fields d t = zero_time\<lparr>tm_isdst := - 1, tm_mday := int (unat d mod 32),
     tm_mon := int (unat d div 32 mod 16) - 1, tm_year := int (unat d div 512 mod 128) + 80,
     tm_sec := 2 * int (unat t mod 32), tm_min := int (unat t div 32 mod 64),
     tm_hour := int (unat t div 2048 mod 32)\<rparr>"
proof -
  have m: "(0x1F :: u16) = push_bit 0 (mask 5)" "(0x1E0 :: u16) = push_bit 5 (mask 4)"
    "(0xFE00 :: u16) = push_bit 9 (mask 7)" "(0x7E0 :: u16) = push_bit 5 (mask 6)"
    "(0xF800 :: u16) = push_bit 11 (mask 5)"
    by (simp_all add: mask_eq_exp_minus_1 push_bit_eq_mult)
  show ?thesis
    using field_value [OF m(1), of d] field_value [OF m(2), of d] field_value [OF m(3), of d]
      field_value [OF m(1), of t] field_value [OF m(4), of t] field_value [OF m(5), of t]
    by (simp add: dos_fields_def)
qed

lemma packed:
  fixes a b c k m :: nat
  assumes "a < k" and "b < m"
  shows "(a + k * b + k * m * c) mod k = a" "(a + k * b + k * m * c) div k mod m = b"
    "(a + k * b + k * m * c) div (k * m) = c"
proof -
  have e: "a + k * b + k * m * c = a + k * (b + m * c)" by (simp add: algebra_simps)
  have d: "(a + k * b + k * m * c) div k = b + m * c" unfolding e using assms by simp
  show "(a + k * b + k * m * c) mod k = a" unfolding e using assms by simp
  show "(a + k * b + k * m * c) div k mod m = b" unfolding d using assms by simp
  show "(a + k * b + k * m * c) div (k * m) = c" unfolding div_mult2_eq d using assms by simp
qed

text \<open>The MS-DOS packing of a date and a time of day, seconds rounded down to even, comes back as the
  fields that mktime gets: the month from 0, the year from 1900, the daylight saving flag unknown.\<close>

theorem dos_time_roundtrip:
  assumes "1980 \<le> year" "year < 2108" "month < 16" "day < 32" "hour < 24" "minute < 60" "second < 60"
  shows "a66923ff_convertTimeFromDOS mktime (dos_date year month day) (dos_time hour minute second) =
    mktime (zero_time\<lparr>tm_isdst := - 1, tm_mday := int day, tm_mon := int month - 1, tm_year := int year - 1900,
      tm_sec := int (second - second mod 2), tm_min := int minute, tm_hour := int hour\<rparr>)"
proof -
  have d: "unat (dos_date year month day) = day + 32 * month + 512 * (year - 1980)"
    unfolding dos_date_def using assms by (intro of_nat_inverse) simp_all
  have t: "unat (dos_time hour minute second) = second div 2 + 32 * minute + 2048 * hour"
    unfolding dos_time_def using assms by (intro of_nat_inverse) simp_all
  have "unat (dos_date year month day) mod 32 = day" "unat (dos_date year month day) div 32 mod 16 = month"
      "unat (dos_date year month day) div 512 mod 128 = year - 1980"
    using packed [of day 32 month 16 "year - 1980"] assms(1-4) by (simp_all add: d)
  moreover have "unat (dos_time hour minute second) mod 32 = second div 2"
      "unat (dos_time hour minute second) div 32 mod 64 = minute"
      "unat (dos_time hour minute second) div 2048 mod 32 = hour"
    using packed [of "second div 2" 32 minute 64 hour] assms(5-7) by (simp_all add: t)
  moreover have "2 * int (second div 2) = int (second - second mod 2)"
    using minus_mod_eq_mult_div [of second 2] by (simp add: mult.commute)
  ultimately show ?thesis
    using assms(1) by (simp add: a66923ff_convertTimeFromDOS_def dos_fields_values of_nat_diff)
qed

lemma dos_time_roundtrip_witness:
  "a66923ff_convertTimeFromDOS (\<lambda>t. of_int (tm_year t)) (dos_date 2024 2 29) (dos_time 23 59 58) = 124"
  using dos_time_roundtrip [of 2024 2 29 23 59 58 "\<lambda>t. of_int (tm_year t)"] by (simp add: zero_time_def)

end
