(* ===== verification/StringSplit.thy ===== *)
theory StringSplit
  imports CString ListArray
begin

text \<open>
  Three more routines of string.linux-x86_64.asm that fs/directory.c calls: the lexicographic comparison, the
  unbounded copy and the split of a string at a delimiter, with the assembler routine of
  listarray.linux-x86_64.asm that takes over the parts. Splitting overwrites the string, so it is a block
  of chars here, and a pointer into it is an index.
\<close>

subsection \<open>Compare and copy\<close>

fun compare_chars :: "string \<Rightarrow> string \<Rightarrow> int" where
  "compare_chars [] [] = 0"
| "compare_chars [] (b # bs) = 0 - of_char b"
| "compare_chars (a # as) [] = of_char a"
| "compare_chars (a # as) (b # bs) = 
     (if a \<noteq> b then of_char a - of_char b else if a = NUL then 0 else compare_chars as bs)"

definition f6215943_compare :: "string ptr \<Rightarrow> string ptr \<Rightarrow> int" where
  "f6215943_compare first second =
     (case (first, second) of
        (None, None) \<Rightarrow> 0
      | (None, Some _) \<Rightarrow> - 1
      | (Some _, None) \<Rightarrow> 1
      | (Some a, Some b) \<Rightarrow> compare_chars a b)"

definition f6215943_copy :: "string \<Rightarrow> char block \<Rightarrow> char block result" where
  "f6215943_copy source dest = blit (map Some (source @ [NUL])) 0 (length source + 1) dest 0"

subsection \<open>Split\<close>

text \<open>\<open>stk\<close> lists the elements from the first pushed to the last.\<close>

definition b196167f_addFromStack_x86 :: "'a ListArray \<Rightarrow> 'a ptr list \<Rightarrow> u32 \<Rightarrow> 'a ListArray result" where
  "b196167f_addFromStack_x86 listArray stk numElements =
     (if numElements = 0 then Inr listArray
      else let newLength = la_length listArray + numElements
           in bnd (if la_size listArray < newLength
                   then la_grow listArray (newLength + drop_bit 1 newLength) else Inr listArray) (\<lambda>listArray.
              bnd (deref (la_values listArray)) (\<lambda>values.
              bnd (la_copy values (unat (la_length listArray)) stk 0 (unat numElements)) (\<lambda>values.
              Inr (listArray\<lparr>la_values := Some values, la_length := newLength\<rparr>)))))"

text \<open>
  From index \<open>i\<close> on: each delimiter becomes a NUL, and the place behind it starts the next part unless
  the string ends there.
\<close>

function split_loop :: "char block \<Rightarrow> char \<Rightarrow> nat \<Rightarrow> nat ptr list \<Rightarrow> (char block \<times> nat ptr list) result" where
  "split_loop str delimiter i parts =
     bnd (rd str i) (\<lambda>ch.
     if ch = NUL then Inr (str, parts)
     else if ch = delimiter then
       bnd (wr str i NUL) (\<lambda>str'.
       bnd (rd str' (i + 1)) (\<lambda>ch.
       if ch = NUL then Inr (str', parts)
       else split_loop str' delimiter (i + 1) (parts @ [Some (i + 1)])))
     else split_loop str delimiter (i + 1) parts)"
  by pat_completeness auto
termination
  by (relation "measure (\<lambda>(str, d, i, parts). length str - i)") (auto simp: fault_simps)

declare split_loop.simps [simp del]

definition f6215943_splitWithChar ::
    "char block ptr \<Rightarrow> char \<Rightarrow> nat ListArray \<Rightarrow> (char block ptr \<times> nat ListArray) result" where
  "f6215943_splitWithChar str delimiter substrList =
     (case str of
        None \<Rightarrow> Inr (None, substrList)
      | Some b \<Rightarrow>
          if delimiter = NUL then Inr (Some b, substrList)
          else
            bnd (split_loop b delimiter 0 [Some 0]) (\<lambda>(b, parts).
            bnd (b196167f_addFromStack_x86 substrList parts (of_nat (length parts))) (\<lambda>substrList.
            Inr (Some b, substrList))))"

subsection \<open>Lemmas\<close>

lemma addFromStack_x86_eq: "b196167f_addFromStack_x86 = b196167f_addAll_x86"
  by (simp add: fun_eq_iff b196167f_addFromStack_x86_def b196167f_addAll_x86_def)

lemma of_char_eq_0 [simp]: "of_char ch = (0::int) \<longleftrightarrow> ch = NUL"
  using of_char_eq_iff [of ch NUL, where 'a = int] by simp

lemma of_char_nonneg [simp]: "0 \<le> (of_char ch :: int)"
  by (simp add: of_char_def)

lemma compare_chars_zero: "NUL \<notin> set a \<Longrightarrow> NUL \<notin> set b \<Longrightarrow> compare_chars a b = 0 \<longleftrightarrow> a = b"
  by (induction a b rule: compare_chars.induct) auto

lemma compare_chars_swap: "compare_chars b a = - compare_chars a b"
  by (induction a b rule: compare_chars.induct) auto

lemma of_char_le_0 [simp]: "of_char ch \<le> (0::int) \<longleftrightarrow> ch = NUL"
  using of_char_nonneg [of ch] of_char_eq_0 [of ch] by linarith

lemma of_char_ne: "a \<noteq> b \<Longrightarrow> of_char a \<noteq> (of_char b :: int)"
  by simp

lemma compare_chars_trans:
  "compare_chars a b \<le> 0 \<Longrightarrow> compare_chars b c \<le> 0 \<Longrightarrow> compare_chars a c \<le> 0"
proof (induction a arbitrary: b c)
  case Nil
  then show ?case by (cases c) simp_all
next
  case (Cons a as)
  show ?case
  proof (cases b)
    case Nil
    then show ?thesis using Cons.prems by (cases c) simp_all
  next
    case b: (Cons b1 bs)
    show ?thesis
    proof (cases c)
      case Nil
      then show ?thesis using Cons.prems b of_char_nonneg [of a] by (auto split: if_splits)
    next
      case c: (Cons c1 cs)
      have le: "of_char a \<le> (of_char b1 :: int)" "of_char b1 \<le> (of_char c1 :: int)"
        using Cons.prems b c by (auto split: if_splits)
      show ?thesis
      proof (cases "a = c1")
        case True
        then have "a = b1" using le by (metis of_char_eq_iff order_antisym)
        then show ?thesis using True Cons b c by (auto split: if_splits)
      next
        case False
        then show ?thesis using le c by simp
      qed
    qed
  qed
qed

lemma cmp_order_compare: "cmp_order (\<lambda>x y. compare_chars (f x) (f y))"
  unfolding cmp_order_def
proof (intro conjI allI impI)
  fix x y show "compare_chars (f x) (f y) \<le> 0 \<or> compare_chars (f y) (f x) \<le> 0"
    using compare_chars_swap [of "f x" "f y"] by linarith
qed (rule compare_chars_trans)

text \<open>
  The string behind index \<open>k\<close> with its delimiters turned into NULs, as the split leaves it when the last char
  is not a delimiter; what lies behind the string is untouched.
\<close>

definition cut :: "char \<Rightarrow> nat \<Rightarrow> string \<Rightarrow> string" where
  "cut d k s = take k s @ map (\<lambda>ch. if ch = d then NUL else ch) (drop k s)"

lemma cut_Nil [simp]: "length (cut d k s) = length s" "cut d (length s) s = s"
  by (simp_all add: cut_def min_def)

lemma cut_step:
  assumes "k < length s"
  shows "cut d k s = take k s @ (if s ! k = d then NUL else s ! k) # map (\<lambda>ch. if ch = d then NUL else ch) (drop (Suc k) s)"
  using assms by (simp add: cut_def Cons_nth_drop_Suc [symmetric])

lemma split_loop_ok:
  assumes "pre @ suf \<noteq> [] \<longrightarrow> last (pre @ suf) \<noteq> d" and "NUL \<notin> set suf" and "d \<noteq> NUL"
  shows "\<exists>ks. split_loop (map Some (pre @ suf @ [NUL]) @ rest) d (length pre) parts =
      Inr (map Some (pre @ cut d 0 suf @ [NUL]) @ rest, parts @ ks) \<and> length ks = count_list suf d"
  using assms
proof (induction suf arbitrary: pre parts)
  case Nil
  then show ?case by (simp add: split_loop.simps rd_def nth_append cut_def)
next
  case (Cons ch suf)
  let ?b = "map Some (pre @ (ch # suf) @ [NUL]) @ rest"
  have rd0: "rd ?b (length pre) = Inr ch" by (simp add: rd_def nth_append)
  have ch: "ch \<noteq> NUL" using Cons.prems(2) by auto
  have last: "pre @ ch # suf \<noteq> [] \<longrightarrow> last ((pre @ [ch]) @ suf) \<noteq> d" using Cons.prems(1) by simp
  show ?case
  proof (cases "ch = d")
    case False
    have "\<exists>ks. split_loop (map Some ((pre @ [ch]) @ suf @ [NUL]) @ rest) d (length (pre @ [ch])) parts =
        Inr (map Some ((pre @ [ch]) @ cut d 0 suf @ [NUL]) @ rest, parts @ ks) \<and> length ks = count_list suf d"
      using last Cons.prems by (intro Cons.IH) auto
    then show ?thesis
      using False rd0 ch by (subst split_loop.simps) (simp add: cut_def)
  next
    case True
    then obtain c1 suf' where suf: "suf = c1 # suf'" using Cons.prems(1) by (cases suf) auto
    have w: "wr ?b (length pre) NUL = Inr (map Some ((pre @ [NUL]) @ suf @ [NUL]) @ rest)"
      by (simp add: wr_def list_update_append)
    have rd1: "rd (map Some ((pre @ [NUL]) @ suf @ [NUL]) @ rest) (length pre + 1) = Inr c1"
      using suf by (simp add: rd_def nth_append)
    have c1: "c1 \<noteq> NUL" using Cons.prems(2) suf by auto
    have "last ((pre @ [NUL]) @ suf) \<noteq> d" using Cons.prems(1) suf by simp
    then have "\<exists>ks. split_loop (map Some ((pre @ [NUL]) @ suf @ [NUL]) @ rest) d (length (pre @ [NUL])) (parts @ [Some (length pre + 1)]) =
        Inr (map Some ((pre @ [NUL]) @ cut d 0 suf @ [NUL]) @ rest, (parts @ [Some (length pre + 1)]) @ ks) \<and> length ks = count_list suf d"
      using Cons.prems by (intro Cons.IH) auto
    then obtain ks where ks: "split_loop (map Some ((pre @ [NUL]) @ suf @ [NUL]) @ rest) d (length pre + 1) (parts @ [Some (length pre + 1)]) =
        Inr (map Some ((pre @ [NUL]) @ cut d 0 suf @ [NUL]) @ rest, (parts @ [Some (length pre + 1)]) @ ks)" "length ks = count_list suf d"
      by auto
    have "split_loop ?b d (length pre) parts = split_loop (map Some ((pre @ [NUL]) @ suf @ [NUL]) @ rest) d (length pre + 1) (parts @ [Some (length pre + 1)])"
      using rd0 ch True w rd1 c1 by (subst split_loop.simps) simp
    then show ?thesis
      using ks True by (intro exI [of _ "Some (length pre + 1) # ks"]) (simp add: cut_def)
  qed
qed

text \<open>A delimiter at the end becomes a NUL as well, but no part begins behind it.\<close>

lemma split_loop_closed:
  assumes "NUL \<notin> set suf" and "d \<noteq> NUL"
  shows "\<exists>ks. split_loop (map Some (pre @ suf @ [d, NUL]) @ rest) d (length pre) parts =
      Inr (map Some (pre @ cut d 0 suf @ [NUL, NUL]) @ rest, parts @ ks) \<and> length ks = count_list suf d"
  using assms
proof (induction suf arbitrary: pre parts)
  case Nil
  then show ?case by (simp add: split_loop.simps rd_def wr_def nth_append list_update_append cut_def)
next
  case (Cons ch suf)
  let ?b = "map Some (pre @ (ch # suf) @ [d, NUL]) @ rest"
  have rd0: "rd ?b (length pre) = Inr ch" by (simp add: rd_def nth_append)
  have ch: "ch \<noteq> NUL" using Cons.prems(1) by auto
  show ?case
  proof (cases "ch = d")
    case False
    have "\<exists>ks. split_loop (map Some ((pre @ [ch]) @ suf @ [d, NUL]) @ rest) d (length (pre @ [ch])) parts =
        Inr (map Some ((pre @ [ch]) @ cut d 0 suf @ [NUL, NUL]) @ rest, parts @ ks) \<and> length ks = count_list suf d"
      using Cons.prems by (intro Cons.IH) auto
    then show ?thesis
      using False rd0 ch by (subst split_loop.simps) (simp add: cut_def)
  next
    case True
    let ?c = "map Some ((pre @ [NUL]) @ suf @ [d, NUL]) @ rest"
    have w: "wr ?b (length pre) NUL = Inr ?c" by (simp add: wr_def list_update_append)
    have rd1: "rd ?c (length pre + 1) = Inr (hd (suf @ [d]))" by (cases suf) (simp_all add: rd_def nth_append)
    have c1: "hd (suf @ [d]) \<noteq> NUL" using Cons.prems by (cases suf) auto
    have "\<exists>ks. split_loop ?c d (length (pre @ [NUL])) (parts @ [Some (length pre + 1)]) =
        Inr (map Some ((pre @ [NUL]) @ cut d 0 suf @ [NUL, NUL]) @ rest, (parts @ [Some (length pre + 1)]) @ ks) \<and>
        length ks = count_list suf d"
      using Cons.prems by (intro Cons.IH) auto
    then obtain ks where ks: "split_loop ?c d (length pre + 1) (parts @ [Some (length pre + 1)]) =
        Inr (map Some ((pre @ [NUL]) @ cut d 0 suf @ [NUL, NUL]) @ rest, (parts @ [Some (length pre + 1)]) @ ks)" "length ks = count_list suf d"
      by auto
    have "split_loop ?b d (length pre) parts = split_loop ?c d (length pre + 1) (parts @ [Some (length pre + 1)])"
      using rd0 ch True w rd1 c1 by (subst split_loop.simps) simp
    then show ?thesis
      using ks True by (intro exI [of _ "Some (length pre + 1) # ks"]) (simp add: cut_def)
  qed
qed

text \<open>
  A list that was just initialised has room for eight parts, and asking for more aborts.
\<close>

lemma split_few_parts:
  assumes "split_loop b d 0 [Some 0] = Inr (b', Some 0 # ks)" "length ks = m" "d \<noteq> NUL"
    and lst: "la_rep lst []" "m < unat (la_size lst)" "m < 2 ^ 29"
  shows "\<exists>lst'. f6215943_splitWithChar (Some b) d lst = Inr (Some b', lst') \<and> la_length lst' = of_nat (m + 1)"
proof -
  let ?n = "of_nat (length (Some 0 # ks)) :: u32"
  have n: "unat ?n = m + 1"
    using lst(3) assms(2) by (simp add: unat_of_nat del: of_nat_Suc)
  then have "?n \<le> la_size lst" using lst(2) by (simp add: word_le_nat_alt)
  moreover have "unat ?n \<le> length (Some 0 # ks)" "length ([]::nat ptr list) + unat ?n < 2 ^ 30"
    unfolding n using assms(2) lst(3) by simp_all
  ultimately obtain lst' where "b196167f_addFromStack_x86 lst (Some 0 # ks) ?n = Inr lst'"
    "la_rep lst' ([] @ take (unat ?n) (Some 0 # ks))"
    using la_addAll_x86 [OF lst(1)] unfolding addFromStack_x86_eq by blast
  moreover from this have "unat (la_length lst') = m + 1"
    unfolding n using assms(2) by (simp add: la_rep_def)
  then have "of_nat (unat (la_length lst')) = (of_nat (m + 1) :: u32)" by (rule arg_cong)
  then have "la_length lst' = of_nat (m + 1)" by simp
  ultimately show ?thesis
    using assms(1,3) by (simp add: f6215943_splitWithChar_def)
qed

lemma split_many_parts:
  assumes "split_loop b d 0 [Some 0] = Inr (b', Some 0 # ks)" "length ks = m" "d \<noteq> NUL"
    and lst: "la_rep lst []" "unat (la_size lst) \<le> m" "m < 2 ^ 29"
  shows "f6215943_splitWithChar (Some b) d lst = Inl Abort"
proof -
  let ?n = "of_nat (length (Some 0 # ks)) :: u32"
  have n: "unat ?n = m + 1"
    using lst(3) assms(2) by (simp add: unat_of_nat del: of_nat_Suc)
  then have "la_size lst < ?n" using lst(2) by (simp add: word_less_nat_alt)
  then have "b196167f_addFromStack_x86 lst (Some 0 # ks) ?n = Inl Abort"
    unfolding addFromStack_x86_eq using lst(1) by (rule la_addAll_empty_aborts(1) [rotated])
  then show ?thesis
    using assms(1,3) by (simp add: f6215943_splitWithChar_def)
qed

end
