(* ===== verification/Directory.thy ===== *)
theory Directory
  imports StringSplit File
begin

text \<open>
  fs/directory.c: directory trees in memory, the recursive search and the creation of nested directories. A
  Directory is an object of a store, its list of subdirectories holds addresses; the files in its list are
  values. A char[256] name is the string in it, put there through a block of 256 chars. The outcome
  of opendir, readdir and closedir is one record per path; the recursive functions get the depth of the call
  stack as fuel and yield \<open>NoReturn\<close> beyond it.
\<close>

definition DIRPATH_BUFFER_SIZE :: u32 where "DIRPATH_BUFFER_SIZE = 64"
definition FILEPATHLIST_SIZE :: u32 where "FILEPATHLIST_SIZE = 64"
definition DT_DIR :: u8 where "DT_DIR = 4"
definition DT_REG :: u8 where "DT_REG = 8"

record File =
  file_name :: string

record Directory =
  dir_name :: string
  subdirList :: "nat ListArray"
  fileList :: "File ListArray"

type_synonym DirPath = StringBuilder
type_synonym FilePathList = "string ListArray"

record dir_state =
  directories :: "nat \<Rightarrow> Directory option"
  dirAllocs :: nat

text \<open>The stream behind a path: its entries, the errno that readdir leaves at the end, the outcome of closedir.\<close>

record dirent =
  d_type :: u8
  d_name :: string

record DIR =
  entries :: "dirent list"
  end_errno :: int
  close_result :: "unit sysret"

definition zero_list :: "'a ListArray" where
  "zero_list = \<lparr>la_values = None, la_length = 0, la_size = 0\<rparr>"

definition copy_name :: "string \<Rightarrow> string result" where
  "copy_name name = bnd (f6215943_copy name (fresh 256)) c_string"

definition dir_get :: "dir_state \<Rightarrow> nat ptr \<Rightarrow> Directory result" where
  "dir_get st p = bnd (deref p) (\<lambda>a. case directories st a of None \<Rightarrow> Inl Uninitialised | Some d \<Rightarrow> Inr d)"

definition dir_set :: "dir_state \<Rightarrow> nat ptr \<Rightarrow> Directory \<Rightarrow> dir_state result" where
  "dir_set st p d = bnd (deref p) (\<lambda>a. Inr (st\<lparr>directories := (directories st)(a := Some d)\<rparr>))"

subsection \<open>Create and initialise\<close>

definition d0059b5b_initDirectory :: "string \<Rightarrow> Directory result" where
  "d0059b5b_initDirectory name =
     bnd (copy_name name) (\<lambda>n. Inr \<lparr>dir_name = n, subdirList = zero_list, fileList = zero_list\<rparr>)"

definition d0059b5b_createDirectory :: "(nat \<Rightarrow> nat) \<Rightarrow> dir_state \<Rightarrow> string \<Rightarrow> (nat ptr \<times> dir_state) result" where
  "d0059b5b_createDirectory alloc st name =
     (let a = alloc (dirAllocs st)
      in bnd (copy_name name) (\<lambda>n.
         Inr (Some a, st\<lparr>directories := (directories st)
                           (a := Some \<lparr>dir_name = n, subdirList = zero_list, fileList = zero_list\<rparr>),
                         dirAllocs := Suc (dirAllocs st)\<rparr>)))"

text \<open>As many bytes are copied from the path as the buffer is long, and the NUL goes behind them.\<close>

definition d0059b5b_initDirPath :: "string \<Rightarrow> DirPath result" where
  "d0059b5b_initDirPath path =
     (let len = f6215943_getLength (Some path); size = len + DIRPATH_BUFFER_SIZE
      in bnd (f668c4bd_mallocArray 1 (unat size)) (\<lambda>buffer.
         bnd (f6215943_copyToBuffer path buffer 0 (unat size)) (\<lambda>buffer.
         Inr \<lparr>sb_buffer = buffer, sb_length = len, sb_size = size\<rparr>)))"

definition d0059b5b_createDirPath :: "string \<Rightarrow> DirPath result" where
  "d0059b5b_createDirPath path =
     (let len = f6215943_getLength (Some path); size = len + DIRPATH_BUFFER_SIZE
      in bnd (f668c4bd_mallocArray 1 (unat size)) (\<lambda>buffer.
         bnd (f6215943_copyToBuffer path buffer 0 (unat size)) (\<lambda>buffer.
         Inr \<lparr>sb_buffer = buffer, sb_length = len, sb_size = size\<rparr>)))"

definition d0059b5b_createFile :: "string \<Rightarrow> File ptr result" where
  "d0059b5b_createFile name = bnd (copy_name name) (\<lambda>n. Inr (Some \<lparr>file_name = n\<rparr>))"

definition d0059b5b_createFilePathList :: "FilePathList result" where
  "d0059b5b_createFilePathList =
     bnd (f668c4bd_mallocArray 8 (unat FILEPATHLIST_SIZE)) (\<lambda>values.
     Inr \<lparr>la_values = Some values, la_length = 0, la_size = FILEPATHLIST_SIZE\<rparr>)"

definition d0059b5b_initFilePathList :: "FilePathList result" where
  "d0059b5b_initFilePathList =
     bnd (f668c4bd_mallocArray 8 (unat FILEPATHLIST_SIZE)) (\<lambda>values.
     Inr \<lparr>la_values = Some values, la_length = 0, la_size = FILEPATHLIST_SIZE\<rparr>)"

subsection \<open>Destroy and clean up\<close>

text \<open>The addresses in the list of subdirectories, read one by one as the loop does.\<close>

definition subdir_at :: "Directory \<Rightarrow> nat \<Rightarrow> nat ptr result" where
  "subdir_at directory i = bnd (deref (la_values (subdirList directory))) (\<lambda>values. rd values i)"

fun d0059b5b_destroyDirectory :: "nat \<Rightarrow> dir_state \<Rightarrow> nat ptr \<Rightarrow> dir_state result" where
  "d0059b5b_destroyDirectory 0 st p = Inl NoReturn"
| "d0059b5b_destroyDirectory (Suc depth) st p =
     bnd (dir_get st p) (\<lambda>directory.
     bnd (fold_result (\<lambda>st i. bnd (subdir_at directory i) (d0059b5b_destroyDirectory depth st)) st
            [0..<unat (la_length (subdirList directory))]) (\<lambda>st.
     bnd (b196167f_cleanUpListArray (subdirList directory) False) (\<lambda>_.
     bnd (b196167f_cleanUpListArray (fileList directory) True) (\<lambda>_.
     bnd (deref p) (\<lambda>a. Inr (st\<lparr>directories := (directories st)(a := None)\<rparr>))))))"

definition d0059b5b_cleanUpDirectory :: "nat \<Rightarrow> dir_state \<Rightarrow> Directory \<Rightarrow> dir_state result" where
  "d0059b5b_cleanUpDirectory depth st directory =
     bnd (fold_result (\<lambda>st i. bnd (subdir_at directory i) (d0059b5b_destroyDirectory depth st)) st
            [0..<unat (la_length (subdirList directory))]) (\<lambda>st.
     bnd (b196167f_cleanUpListArray (subdirList directory) False) (\<lambda>_.
     bnd (b196167f_cleanUpListArray (fileList directory) True) (\<lambda>_. Inr st)))"

text \<open>The result is what goes to free().\<close>

definition d0059b5b_destroyFilePathList :: "FilePathList \<Rightarrow> string ptr list result" where
  "d0059b5b_destroyFilePathList filePathList = b196167f_destroyListArray filePathList True"
subsection \<open>Reading one directory\<close>

definition addSubdir :: "Directory \<Rightarrow> nat ptr \<Rightarrow> Directory result" where
  "addSubdir directory subdir =
     bnd (if la_values (subdirList directory) = None then b196167f_initListArray (subdirList directory)
          else Inr (subdirList directory)) (\<lambda>lst.
     bnd (b196167f_add_x86 lst subdir) (\<lambda>lst. Inr (directory\<lparr>subdirList := lst\<rparr>)))"

definition addFile :: "Directory \<Rightarrow> File ptr \<Rightarrow> Directory result" where
  "addFile directory file =
     bnd (if la_values (fileList directory) = None then b196167f_initListArray (fileList directory)
          else Inr (fileList directory)) (\<lambda>lst.
     bnd (b196167f_add_x86 lst file) (\<lambda>lst. Inr (directory\<lparr>fileList := lst\<rparr>)))"

definition compareDirectory :: "dir_state \<Rightarrow> nat ptr \<Rightarrow> nat ptr \<Rightarrow> int" where
  "compareDirectory st first second =
     (let name = (\<lambda>p. map_option dir_name (Option.bind p (directories st)))
      in f6215943_compare (name first) (name second))"

definition compareFile :: "File ptr \<Rightarrow> File ptr \<Rightarrow> int" where
  "compareFile first second = f6215943_compare (map_option file_name first) (map_option file_name second)"

definition add_entry ::
    "(nat \<Rightarrow> nat) \<Rightarrow> dir_state \<times> Directory \<Rightarrow> dirent \<Rightarrow> (dir_state \<times> Directory) result" where
  "add_entry alloc s dirEntry =
     (let (st, directory) = s
      in if d_type dirEntry = DT_DIR then
           if d_name dirEntry = ''.'' \<or> d_name dirEntry = ''..'' then Inr (st, directory)
           else
             bnd (d0059b5b_createDirectory alloc st (d_name dirEntry)) (\<lambda>(subdir, st).
             bnd (addSubdir directory subdir) (\<lambda>directory. Inr (st, directory)))
         else if d_type dirEntry = DT_REG then
           bnd (d0059b5b_createFile (d_name dirEntry)) (\<lambda>file.
           bnd (addFile directory file) (\<lambda>directory. Inr (st, directory)))
         else Inr (st, directory))"

text \<open>The sort runs on fuel that is always enough; its absence of an answer would be a loop without end.\<close>

definition sort_list :: "'a ListArray \<Rightarrow> ('a ptr \<Rightarrow> 'a ptr \<Rightarrow> int) \<Rightarrow> 'a ListArray result" where
  "sort_list lst compare = (case b196167f_sort lst compare of None \<Rightarrow> Inl NoReturn | Some r \<Rightarrow> r)"

text \<open>The three failures print a message and call abort().\<close>

definition readDirectory ::
    "(string \<Rightarrow> DIR sysret) \<Rightarrow> (nat \<Rightarrow> nat) \<Rightarrow> dir_state \<Rightarrow> Directory \<Rightarrow> DirPath \<Rightarrow> (dir_state \<times> Directory) result" where
  "readDirectory opendir alloc st directory dirPath =
     bnd (c_string (sb_buffer dirPath)) (\<lambda>path.
     case opendir path of
       SysErr errno \<Rightarrow> bnd (message (quoted (''Cannot open directory stream for path '' @ [quote]) path)) (\<lambda>_. Inl Abort)
     | SysOk dirStream \<Rightarrow>
         bnd (fold_result (add_entry alloc) (st, directory) (entries dirStream)) (\<lambda>(st, directory).
         bnd (check (end_errno dirStream = 0) Abort) (\<lambda>_.
         bnd (case close_result dirStream of SysErr errno \<Rightarrow> Inl Abort | SysOk u \<Rightarrow> Inr ()) (\<lambda>_.
         bnd (sort_list (subdirList directory) (compareDirectory st)) (\<lambda>subdirs.
         bnd (sort_list (fileList directory) compareFile) (\<lambda>files.
         Inr (st, directory\<lparr>subdirList := subdirs, fileList := files\<rparr>)))))))"

subsection \<open>Walking a tree\<close>

text \<open>What the three recursive functions do for one subdirectory: its name is appended for the time of the call.\<close>

definition in_subdir ::
    "DirPath \<Rightarrow> string \<Rightarrow> (DirPath \<Rightarrow> ('a \<times> DirPath) result) \<Rightarrow> u32 \<Rightarrow> ('a \<times> DirPath) result" where
  "in_subdir dirPath name visit dirPathLen =
     bnd (c598a24c_append_string dirPath name) (\<lambda>dirPath.
     bnd (visit dirPath) (\<lambda>(x, dirPath).
     bnd (c598a24c_reduceLength dirPath dirPathLen) (\<lambda>dirPath. Inr (x, dirPath))))"

fun d0059b5b_listContents ::
    "nat \<Rightarrow> (string \<Rightarrow> DIR sysret) \<Rightarrow> (nat \<Rightarrow> nat) \<Rightarrow> dir_state \<Rightarrow> nat ptr \<Rightarrow> DirPath \<Rightarrow> bool \<Rightarrow>
     (dir_state \<times> DirPath) result" where
  "d0059b5b_listContents 0 opendir alloc st p dirPath isRecursive = Inl NoReturn"
| "d0059b5b_listContents (Suc depth) opendir alloc st p dirPath isRecursive =
     bnd (dir_get st p) (\<lambda>directory.
     bnd (readDirectory opendir alloc st directory dirPath) (\<lambda>(st, directory).
     bnd (dir_set st p directory) (\<lambda>st.
     bnd (c598a24c_append_char dirPath (CHR ''/'')) (\<lambda>dirPath.
     let dirPathLen = sb_length dirPath
     in bnd (if isRecursive then
               fold_result (\<lambda>(st, dirPath) i.
                 bnd (subdir_at directory i) (\<lambda>subdir.
                 bnd (dir_get st subdir) (\<lambda>d.
                 in_subdir dirPath (dir_name d)
                   (\<lambda>dirPath. d0059b5b_listContents depth opendir alloc st subdir dirPath isRecursive) dirPathLen)))
                 (st, dirPath) [0..<unat (la_length (subdirList directory))]
             else Inr (st, dirPath)) (\<lambda>(st, dirPath).
        bnd (c598a24c_reduceLength dirPath (dirPathLen - 1)) (\<lambda>dirPath.
        Inr (st, dirPath)))))))"

text \<open>The matching files of one directory; a NULL list is replaced by a new one, which only this call knows.\<close>

definition find_file ::
    "(string \<Rightarrow> bool) \<Rightarrow> Directory \<Rightarrow> FilePathList ptr \<times> DirPath \<Rightarrow> nat \<Rightarrow> (FilePathList ptr \<times> DirPath) result" where
  "find_file isMatch currentDir s i =
     (let (filePathList, dirPath) = s
      in bnd (deref (la_values (fileList currentDir))) (\<lambda>values.
         bnd (rd values i) (\<lambda>file.
         bnd (deref file) (\<lambda>file.
         if isMatch (file_name file) then
           bnd (c598a24c_createString dirPath (Some (file_name file))) (\<lambda>(filePath, dirPath).
           bnd (case filePathList of None \<Rightarrow> d0059b5b_createFilePathList | Some l \<Rightarrow> Inr l) (\<lambda>l.
           bnd (b196167f_add_x86 l filePath) (\<lambda>l. Inr (Some l, dirPath))))
         else Inr (filePathList, dirPath)))))"

text \<open>The caller's view: a list given as NULL stays NULL.\<close>

fun d0059b5b_find ::
    "nat \<Rightarrow> (string \<Rightarrow> DIR sysret) \<Rightarrow> (nat \<Rightarrow> nat) \<Rightarrow> (string \<Rightarrow> bool) \<Rightarrow> dir_state \<Rightarrow> FilePathList ptr \<Rightarrow> DirPath \<Rightarrow>
     ((dir_state \<times> FilePathList ptr) \<times> DirPath) result" where
  "d0059b5b_find 0 opendir alloc isMatch st filePathList dirPath = Inl NoReturn"
| "d0059b5b_find (Suc depth) opendir alloc isMatch st filePathList dirPath =
     bnd (bnd (c_string (sb_buffer dirPath)) d0059b5b_initDirectory) (\<lambda>currentDir.
     bnd (readDirectory opendir alloc st currentDir dirPath) (\<lambda>(st, currentDir).
     bnd (c598a24c_append_char dirPath (CHR ''/'')) (\<lambda>dirPath.
     let dirPathLen = sb_length dirPath
     in bnd (fold_result (\<lambda>((st, filePathList), dirPath) i.
               bnd (subdir_at currentDir i) (\<lambda>subdir.
               bnd (dir_get st subdir) (\<lambda>d.
               in_subdir dirPath (dir_name d)
                 (d0059b5b_find depth opendir alloc isMatch st filePathList) dirPathLen)))
               ((st, filePathList), dirPath) [0..<unat (la_length (subdirList currentDir))])
          (\<lambda>((st, callerList), dirPath).
        bnd (fold_result (find_file isMatch currentDir) (callerList, dirPath)
               [0..<unat (la_length (fileList currentDir))]) (\<lambda>(found, dirPath).
        bnd (c598a24c_reduceLength dirPath (dirPathLen - 1)) (\<lambda>dirPath.
        bnd (d0059b5b_cleanUpDirectory depth st currentDir) (\<lambda>st.
        Inr ((st, if filePathList = None then None else found), dirPath))))))))"

subsection \<open>Printing\<close>

definition ANSI_BLUE :: string where "ANSI_BLUE = CHR 0x1B # ''[94m''"

fun d0059b5b_printDirectory :: "nat \<Rightarrow> dir_state \<Rightarrow> nat ptr \<Rightarrow> DirPath \<Rightarrow> (string \<times> DirPath) result" where
  "d0059b5b_printDirectory 0 st p dirPath = Inl NoReturn"
| "d0059b5b_printDirectory (Suc depth) st p dirPath =
     bnd (dir_get st p) (\<lambda>directory.
     bnd (c_string (sb_buffer dirPath)) (\<lambda>path.
     let subdirs = [0..<unat (la_length (subdirList directory))]
     in bnd (fold_result (\<lambda>out i. bnd (subdir_at directory i) (\<lambda>subdir. bnd (dir_get st subdir) (\<lambda>d.
               Inr (out @ dir_name d @ newline)))) (path @ '':'' @ newline @ ANSI_BLUE) subdirs) (\<lambda>out.
        bnd (fold_result (\<lambda>out i. bnd (deref (la_values (fileList directory))) (\<lambda>values.
               bnd (rd values i) (\<lambda>file. bnd (deref file) (\<lambda>file. Inr (out @ file_name file @ newline)))))
               (out @ ANSI_RESET) [0..<unat (la_length (fileList directory))]) (\<lambda>out.
        let out = out @ newline
        in if subdirs = [] then Inr (out, dirPath)
           else
             let dirPathLen = sb_length dirPath + 1
             in bnd (c598a24c_append_char dirPath (CHR ''/'')) (\<lambda>dirPath.
                fold_result (\<lambda>(out, dirPath) i.
                  bnd (subdir_at directory i) (\<lambda>subdir.
                  bnd (dir_get st subdir) (\<lambda>d.
                  in_subdir dirPath (dir_name d)
                    (\<lambda>dirPath. bnd (d0059b5b_printDirectory depth st subdir dirPath) (\<lambda>(t, dirPath). Inr (out @ t, dirPath)))
                    dirPathLen)))
                  (out, dirPath) subdirs)))))"

definition d0059b5b_printFilePathList :: "FilePathList \<Rightarrow> string result" where
  "d0059b5b_printFilePathList filePathList =
     fold_result (\<lambda>out i. bnd (deref (la_values filePathList)) (\<lambda>values. bnd (rd values i) (\<lambda>path.
       bnd (deref path) (\<lambda>path. Inr (out @ path @ newline))))) [] [0..<unat (la_length filePathList)]"

subsection \<open>Making nested directories\<close>

text \<open>
  One call of stat and, if nothing is there, of mkdir. \<open>sys_stat\<close> and \<open>sys_mkdir\<close> work on the state of the
  file system; the run keeps it with the text of the messages and whether a directory was made.
\<close>

type_synonym 'fs mkdir_run = "'fs \<times> string \<times> bool"

definition make_one ::
    "env \<Rightarrow> ('fs \<Rightarrow> string \<Rightarrow> unit sysret) \<Rightarrow> ('fs \<Rightarrow> string \<Rightarrow> u32 \<Rightarrow> unit sysret \<times> 'fs) \<Rightarrow> u32 \<Rightarrow> 'fs mkdir_run \<Rightarrow>
     string \<Rightarrow> 'fs mkdir_run result" where
  "make_one e sys_stat sys_mkdir mode run path =
     (let (fs, out, makeDir) = run
      in if sys_stat fs path = SysErr ENOENT then
           (case sys_mkdir fs path mode of
              (SysErr errno, fs) \<Rightarrow>
                bnd (warn_lib e (quoted (''Cannot make directory '' @ [quote]) path) errno) (\<lambda>m.
                Inr (fs, out @ m, makeDir))
            | (SysOk u, fs) \<Rightarrow> Inr (fs, out, True))
         else Inr (fs, out, makeDir))"

text \<open>The index of the first NUL from \<open>i\<close> on.\<close>

function find_nul :: "char block \<Rightarrow> nat \<Rightarrow> nat result" where
  "find_nul b i = bnd (rd b i) (\<lambda>ch. if ch = NUL then Inr i else find_nul b (i + 1))"
  by pat_completeness auto
termination by (relation "measure (\<lambda>(b, i). length b - i)") (auto simp: fault_simps)

declare find_nul.simps [simp del]

definition make_step ::
    "env \<Rightarrow> ('fs \<Rightarrow> string \<Rightarrow> unit sysret) \<Rightarrow> ('fs \<Rightarrow> string \<Rightarrow> u32 \<Rightarrow> unit sysret \<times> 'fs) \<Rightarrow> u32 \<Rightarrow> bool \<Rightarrow> nat \<Rightarrow>
     'fs mkdir_run \<times> char block \<times> nat \<Rightarrow> nat \<Rightarrow> ('fs mkdir_run \<times> char block \<times> nat) result" where
  "make_step e sys_stat sys_mkdir mode hasFilename len s i =
     (let (run, pathName, subdir) = s
      in bnd (if i < len \<or> \<not> hasFilename then
                bnd (c_string pathName) (\<lambda>path. make_one e sys_stat sys_mkdir mode run path)
              else Inr run) (\<lambda>run.
         if i < len then
           bnd (find_nul pathName subdir) (\<lambda>subdir.
           bnd (wr pathName subdir (CHR ''/'')) (\<lambda>pathName. Inr (run, pathName, subdir)))
         else Inr (run, pathName, subdir)))"

definition d0059b5b_makeDirectory ::
    "env \<Rightarrow> ('fs \<Rightarrow> string \<Rightarrow> unit sysret) \<Rightarrow> ('fs \<Rightarrow> string \<Rightarrow> u32 \<Rightarrow> unit sysret \<times> 'fs) \<Rightarrow> 'fs \<Rightarrow> char block ptr \<Rightarrow>
     u32 \<Rightarrow> bool \<Rightarrow> ('fs mkdir_run \<times> char block) result" where
  "d0059b5b_makeDirectory e sys_stat sys_mkdir fs pathName mode hasFilename =
     bnd (b196167f_initListArray zero_list) (\<lambda>subdirs.
     bnd (f6215943_splitWithChar pathName (CHR ''/'') subdirs) (\<lambda>(pathName, subdirs).
     bnd (deref pathName) (\<lambda>pathName.
     bnd (rd pathName 0) (\<lambda>ch.
     bnd (if ch = NUL then
            bnd (wr pathName 0 (CHR ''/'')) (\<lambda>pathName. Inr (pathName, la_length subdirs - 1))
          else Inr (pathName, la_length subdirs)) (\<lambda>(pathName, len).
     bnd (fold_result (make_step e sys_stat sys_mkdir mode hasFilename (unat len))
            ((fs, [], False), pathName, 0) [1..<unat len + 1]) (\<lambda>(run, pathName, subdir).
     Inr (run, pathName)))))))"

subsection \<open>Which directories are made\<close>

text \<open>
  The paths that are tried: for every slash behind the first char what stands before it, then, unless a file
  name comes last, the whole path.
\<close>

definition slashes :: "nat \<Rightarrow> string \<Rightarrow> nat list" where
  "slashes k path = filter (\<lambda>i. path ! i = CHR ''/'') [k..<length path]"

definition parents :: "bool \<Rightarrow> string \<Rightarrow> string list" where
  "parents hasFilename path = map (\<lambda>k. take k path) (slashes 1 path) @ (if hasFilename then [] else [path])"

lemma slashes_Cons:
  assumes "slashes k path = c # cs"
  shows "k \<le> c" "c < length path" "path ! c = CHR ''/''" "slashes (Suc c) path = cs"
    "CHR ''/'' \<notin> set (take (c - k) (drop k path))"
proof -
  obtain us vs where uv: "[k..<length path] = us @ c # vs" "\<forall>u\<in>set us. path ! u \<noteq> CHR ''/''" "path ! c = CHR ''/''"
      "cs = filter (\<lambda>i. path ! i = CHR ''/'') vs"
    using assms by (auto simp: slashes_def filter_eq_Cons_iff)
  have lt: "length us < length path - k" using arg_cong [OF uv(1), of length] by simp
  have c: "c = k + length us" using arg_cong [OF uv(1), of "\<lambda>xs. xs ! length us"] lt by (simp add: nth_append)
  have us: "us = [k..<c]"
    using arg_cong [OF uv(1), of "take (length us)"] c lt by (simp add: take_upt)
  have vs: "vs = [Suc c..<length path]"
    using arg_cong [OF uv(1), of "drop (Suc (length us))"] c by simp
  show "k \<le> c" "path ! c = CHR ''/''" using c uv(3) by simp_all
  show "c < length path" using c lt by linarith
  show "slashes (Suc c) path = cs" using uv(4) vs by (simp add: slashes_def)
  show "CHR ''/'' \<notin> set (take (c - k) (drop k path))"
  proof
    assume "CHR ''/'' \<in> set (take (c - k) (drop k path))"
    then obtain j where j: "j < c - k" "path ! (k + j) = CHR ''/''"
      using c lt by (auto simp: in_set_conv_nth)
    then have "k + j \<in> set us" using us by simp
    with j uv(2) show False by blast
  qed
qed

lemma slashes_Nil:
  assumes "slashes k path = []"
  shows "CHR ''/'' \<notin> set (drop k path)"
proof
  assume "CHR ''/'' \<in> set (drop k path)"
  then obtain i where "i < length path - k" "path ! (k + i) = CHR ''/''" by (auto simp: in_set_conv_nth)
  then have "k + i \<in> set (slashes k path)" by (simp add: slashes_def)
  then show False using assms by simp
qed

lemma length_slashes: "length (slashes k path) = count_list (drop k path) (CHR ''/'')"
proof -
  have "drop k path = map ((!) path) [k..<length path]"
    by (rule nth_equalityI) auto
  moreover have "count_list (map ((!) path) xs) (CHR ''/'') = length (filter (\<lambda>i. path ! i = CHR ''/'') xs)" for xs
    by (induction xs) auto
  ultimately show ?thesis by (simp add: slashes_def)
qed

lemma find_nul_ok:
  assumes "NUL \<notin> set mid"
  shows "find_nul (map Some (pre @ mid @ NUL # post) @ rest) (length pre) = Inr (length pre + length mid)"
  using assms
proof (induction mid arbitrary: pre)
  case Nil
  then show ?case by (subst find_nul.simps) (simp add: rd_def nth_append)
next
  case (Cons ch mid)
  have "find_nul (map Some ((pre @ [ch]) @ mid @ NUL # post) @ rest) (length (pre @ [ch])) =
      Inr (length (pre @ [ch]) + length mid)" using Cons.prems by (intro Cons.IH) simp
  then show ?case using Cons.prems by (subst find_nul.simps) (auto simp: rd_def nth_append)
qed

text \<open>The loop from index \<open>k\<close> of the path on: before it every slash is back in place.\<close>

lemma make_loop_ok:
  assumes path: "NUL \<notin> set path" and "subdir \<le> k" and "k \<le> length path"
    and len: "i + length (slashes k path) = len" and first: "k \<le> hd (slashes k path @ [length path])"
  shows "bnd (fold_result (make_step e sys_stat sys_mkdir mode hasFilename len)
           (run, map Some (cut (CHR ''/'') k path @ [NUL]) @ rest, subdir) [i..<Suc len]) (\<lambda>(run, p, q). Inr (run, p)) =
         bnd (fold_result (make_one e sys_stat sys_mkdir mode) run
           (map (\<lambda>k. take k path) (slashes k path) @ (if hasFilename then [] else [path])))
           (\<lambda>run. Inr (run, map Some (path @ [NUL]) @ rest))"
  using assms
proof (induction "slashes k path" arbitrary: k i run subdir)
  case Nil
  have "cut (CHR ''/'') k path = path"
    using slashes_Nil [OF Nil.hyps [symmetric]]
      map_idI [of "drop k path" "\<lambda>ch. if ch = CHR ''/'' then NUL else ch"] by (fastforce simp: cut_def)
  moreover from this have "c_string (map Some (cut (CHR ''/'') k path @ [NUL]) @ rest) = Inr path"
    using path by (intro c_string_holds [of _ path]) (simp_all add: holds_append_cells del: map_append)
  moreover have "i = len" using Nil by simp
  ultimately show ?case
    unfolding Nil.hyps [symmetric] by (cases hasFilename) (simp_all add: make_step_def bnd_assoc)
next
  case (Cons c cs)
  note c = slashes_Cons [OF Cons.hyps(2) [symmetric]]
  let ?p = "map Some (cut (CHR ''/'') k path @ [NUL]) @ rest"
  have low: "map (\<lambda>ch. if ch = CHR ''/'' then NUL else ch) (take (c - k) (drop k path)) = take (c - k) (drop k path)"
    using c(5) by (intro map_idI) auto
  have "drop k path = take (c - k) (drop k path) @ CHR ''/'' # drop (Suc c) path"
    using c(1-3) by (metis Cons_nth_drop_Suc append_take_drop_id drop_drop le_add_diff_inverse2)
  then have "cut (CHR ''/'') k path = take k path @ map (\<lambda>ch. if ch = CHR ''/'' then NUL else ch)
      (take (c - k) (drop k path) @ CHR ''/'' # drop (Suc c) path)" by (simp only: cut_def)
  also have "\<dots> = (take k path @ take (c - k) (drop k path)) @ NUL # map (\<lambda>ch. if ch = CHR ''/'' then NUL else ch) (drop (Suc c) path)"
    using low by simp
  also have "take k path @ take (c - k) (drop k path) = take c path"
    using c(1) by (metis le_add_diff_inverse take_add)
  finally have cut: "cut (CHR ''/'') k path = take c path @ NUL # map (\<lambda>ch. if ch = CHR ''/'' then NUL else ch) (drop (Suc c) path)" .
  have nn: "NUL \<notin> set (take c path)" using path by (meson in_set_takeD)
  have str: "c_string ?p = Inr (take c path)"
    unfolding cut using nn by (intro c_string_holds [of _ "take c path"]) (simp_all add: holds_def)
  have sub: "subdir \<le> c" "c < length path" using Cons.prems(2) c(1,2) by simp_all
  have "take subdir (take c path) = take subdir path" using sub(1) by (simp add: min_def)
  then have tk: "take c path = take subdir path @ drop subdir (take c path)"
    using append_take_drop_id [of subdir "take c path"] by simp
  have "find_nul (map Some (take subdir path @ drop subdir (take c path) @
      NUL # (map (\<lambda>ch. if ch = CHR ''/'' then NUL else ch) (drop (Suc c) path) @ [NUL])) @ rest) (length (take subdir path)) =
      Inr (length (take subdir path) + length (drop subdir (take c path)))"
    using nn by (intro find_nul_ok) (meson in_set_dropD)
  then have nul: "find_nul ?p subdir = Inr c"
    unfolding cut using sub by (subst tk) simp
  have put: "wr ?p c (CHR ''/'') = Inr (map Some (cut (CHR ''/'') (Suc c) path @ [NUL]) @ rest)"
    unfolding cut using sub(2) c(3) by (simp add: wr_def cut_def list_update_append take_Suc_conv_app_nth)
  have i: "i < len" using Cons.prems(4) unfolding Cons.hyps(2) [symmetric] by simp
  then have up: "[i..<Suc len] = i # [Suc i..<Suc len]" by (simp add: upt_conv_Cons)
  have "bnd (fold_result (make_step e sys_stat sys_mkdir mode hasFilename len)
        (r, map Some (cut (CHR ''/'') (Suc c) path @ [NUL]) @ rest, c) [Suc i..<Suc len]) (\<lambda>(run, p, q). Inr (run, p)) =
      bnd (fold_result (make_one e sys_stat sys_mkdir mode) r
        (map (\<lambda>k. take k path) (slashes (Suc c) path) @ (if hasFilename then [] else [path])))
        (\<lambda>run. Inr (run, map Some (path @ [NUL]) @ rest))" for r
  proof (rule Cons.hyps(1))
    show "cs = slashes (Suc c) path" using c(4) by simp
    show "Suc i + length (slashes (Suc c) path) = len" using Cons.prems(4) c(4) unfolding Cons.hyps(2) [symmetric] by simp
    show "Suc c \<le> hd (slashes (Suc c) path @ [length path])"
      using sub(2) slashes_Cons(1) [of "Suc c" path] by (cases "slashes (Suc c) path") auto
  qed (use path sub in simp_all)
  then show ?case
    unfolding up Cons.hyps(2) [symmetric] using i str nul put c(4)
    by (simp add: make_step_def bnd_assoc)
qed

text \<open>
  A path without a NUL, and without a slash at its end. Its parts are as many as its slashes and one more; an empty part in front
  of a leading slash counts too.
\<close>

definition path_text :: "string \<Rightarrow> bool" where
  "path_text path \<longleftrightarrow> path \<noteq> [] \<and> NUL \<notin> set path \<and> last path \<noteq> CHR ''/''"

lemma init_zero_list:
  "\<exists>lst. b196167f_initListArray zero_list = Inr lst \<and> la_rep lst [] \<and> unat (la_size lst) = 8"
  by (simp add: b196167f_initListArray_def malloc_small la_rep_def LISTARRAY_DEFAULT_SIZE_def)

text \<open>The loop after the split, whatever lies behind the path.\<close>

lemma makeDirectory_from_split:
  assumes lst: "b196167f_initListArray zero_list = Inr lst"
    and split: "f6215943_splitWithChar (Some b) (CHR ''/'') lst = Inr (Some (map Some (cut (CHR ''/'') 0 path @ [NUL]) @ rest), lst')"
      "la_length lst' = of_nat (count_list path (CHR ''/'') + 1)"
    and path: "path \<noteq> []" "NUL \<notin> set path" and few: "count_list path (CHR ''/'') < 8"
  shows "d0059b5b_makeDirectory e sys_stat sys_mkdir fs (Some b) mode hasFilename =
    bnd (fold_result (make_one e sys_stat sys_mkdir mode) (fs, [], False) (parents hasFilename path))
      (\<lambda>run. Inr (run, map Some (path @ [NUL]) @ rest))"
proof -
  from path obtain ch tl where cons: "path = ch # tl" by (cases path) auto
  have len: "unat (of_nat n :: u32) = n" if "n < 9" for n using that by (simp add: unat_of_nat)
  have run: "bnd (fold_result (make_step e sys_stat sys_mkdir mode hasFilename n)
      ((fs, [], False), map Some (cut (CHR ''/'') 1 path @ [NUL]) @ rest, 0) [1..<n + 1]) (\<lambda>(run, p, q). Inr (run, p)) =
    bnd (fold_result (make_one e sys_stat sys_mkdir mode) (fs, [], False) (parents hasFilename path))
      (\<lambda>run. Inr (run, map Some (path @ [NUL]) @ rest))" if "n = 1 + length (slashes 1 path)" for n
    using make_loop_ok [of path 0 1 1 n e sys_stat sys_mkdir mode hasFilename "(fs, [], False)" rest] path(2) that cons
      slashes_Cons(1) [of 1 path] by (cases "slashes 1 path") (auto simp: parents_def)
  have n1: "length (slashes 1 path) = count_list tl (CHR ''/'')" using length_slashes [of 1 path] cons by simp
  have cut1: "cut (CHR ''/'') 1 path = ch # map (\<lambda>ch. if ch = CHR ''/'' then NUL else ch) tl" by (simp add: cut_def cons)
  show ?thesis
  proof (cases "ch = CHR ''/''")
    case True
    have "la_length lst' - 1 = of_nat (1 + length (slashes 1 path))" using split(2) n1 True cons by simp
    moreover have "unat (of_nat (1 + length (slashes 1 path)) :: u32) = 1 + length (slashes 1 path)"
      using few n1 True cons by (intro len) simp
    ultimately show ?thesis
      using lst split(1) run [OF refl] True cons cut1
      by (simp add: d0059b5b_makeDirectory_def cut_def rd_def wr_def del: of_nat_Suc upt_Suc fold_result.simps)
  next
    case False
    have "la_length lst' = of_nat (1 + length (slashes 1 path))" using split(2) n1 False cons by simp
    moreover have "unat (of_nat (1 + length (slashes 1 path)) :: u32) = 1 + length (slashes 1 path)"
      using few n1 False cons by (intro len) simp
    moreover have "ch \<noteq> NUL" using path(2) cons by auto
    ultimately show ?thesis
      using lst split(1) run [OF refl] False cons cut1
      by (simp add: d0059b5b_makeDirectory_def cut_def rd_def wr_def del: of_nat_Suc upt_Suc fold_result.simps)
  qed
qed

lemma makeDirectory_parents:
  assumes path: "path_text path" and few: "count_list path (CHR ''/'') < 8"
  shows "d0059b5b_makeDirectory e sys_stat sys_mkdir fs (Some (map Some (path @ [NUL]) @ rest)) mode hasFilename =
    bnd (fold_result (make_one e sys_stat sys_mkdir mode) (fs, [], False) (parents hasFilename path))
      (\<lambda>run. Inr (run, map Some (path @ [NUL]) @ rest))"
proof -
  obtain lst where lst: "b196167f_initListArray zero_list = Inr (lst :: nat ListArray)" "la_rep lst []" "unat (la_size lst) = 8"
    using init_zero_list by blast
  obtain ks where "split_loop (map Some (path @ [NUL]) @ rest) (CHR ''/'') 0 [Some 0] =
      Inr (map Some (cut (CHR ''/'') 0 path @ [NUL]) @ rest, Some 0 # ks)" "length ks = count_list path (CHR ''/'')"
    using split_loop_ok [of "[]" path "CHR ''/''" rest "[Some 0]"] path by (auto simp: path_text_def)
  from split_few_parts [OF this _ lst(2)] lst(3) few obtain lst' where
    "f6215943_splitWithChar (Some (map Some (path @ [NUL]) @ rest)) (CHR ''/'') lst =
      Inr (Some (map Some (cut (CHR ''/'') 0 path @ [NUL]) @ rest), lst')"
    "la_length lst' = of_nat (count_list path (CHR ''/'') + 1)" by auto
  from makeDirectory_from_split [OF lst(1) this] path few show ?thesis by (simp add: path_text_def)
qed

text \<open>A slash at the end is turned into a NUL, and stays one; the directories are those of the path in front of it.\<close>

lemma makeDirectory_closed:
  assumes path: "path \<noteq> []" "NUL \<notin> set path" and few: "count_list path (CHR ''/'') < 8"
  shows "d0059b5b_makeDirectory e sys_stat sys_mkdir fs (Some (map Some (path @ [CHR ''/'', NUL]) @ rest)) mode hasFilename =
    bnd (fold_result (make_one e sys_stat sys_mkdir mode) (fs, [], False) (parents hasFilename path))
      (\<lambda>run. Inr (run, map Some (path @ [NUL, NUL]) @ rest))"
proof -
  obtain lst where lst: "b196167f_initListArray zero_list = Inr (lst :: nat ListArray)" "la_rep lst []" "unat (la_size lst) = 8"
    using init_zero_list by blast
  obtain ks where "split_loop (map Some (path @ [CHR ''/'', NUL]) @ rest) (CHR ''/'') 0 [Some 0] =
      Inr (map Some (cut (CHR ''/'') 0 path @ [NUL]) @ Some NUL # rest, Some 0 # ks)" "length ks = count_list path (CHR ''/'')"
    using split_loop_closed [of path "CHR ''/''" "[]" rest "[Some 0]"] path by auto
  from split_few_parts [OF this _ lst(2)] lst(3) few obtain lst' where
    "f6215943_splitWithChar (Some (map Some (path @ [CHR ''/'', NUL]) @ rest)) (CHR ''/'') lst =
      Inr (Some (map Some (cut (CHR ''/'') 0 path @ [NUL]) @ Some NUL # rest), lst')"
    "la_length lst' = of_nat (count_list path (CHR ''/'') + 1)" by auto
  from makeDirectory_from_split [OF lst(1) this path few] show ?thesis by simp
qed

lemma makeDirectory_root:
  "d0059b5b_makeDirectory e sys_stat sys_mkdir fs (Some (map Some ([CHR ''/''] @ [NUL]) @ rest)) mode hasFilename =
    Inr ((fs, [], False), map Some ([CHR ''/''] @ [NUL]) @ rest)"
proof -
  obtain lst where lst: "b196167f_initListArray zero_list = Inr (lst :: nat ListArray)" "la_rep lst []" "unat (la_size lst) = 8"
    using init_zero_list by blast
  obtain ks where "split_loop (map Some ([CHR ''/''] @ [NUL]) @ rest) (CHR ''/'') 0 [Some 0] =
      Inr (map Some [NUL, NUL] @ rest, Some 0 # ks)" "length ks = 0"
    using split_loop_closed [of "[]" "CHR ''/''" "[]" rest "[Some 0]"] by (auto simp: cut_def)
  from split_few_parts [OF this _ lst(2)] lst(3) obtain lst' where
    "f6215943_splitWithChar (Some (map Some ([CHR ''/''] @ [NUL]) @ rest)) (CHR ''/'') lst = Inr (Some (map Some [NUL, NUL] @ rest), lst')"
    "la_length lst' = 1" by auto
  then show ?thesis using lst(1) by (simp add: d0059b5b_makeDirectory_def rd_def wr_def)
qed

lemma makeDirectory_deep:
  assumes "NUL \<notin> set path" and "8 \<le> count_list path (CHR ''/'')" and "length path < 2 ^ 29"
    and b: "b = map Some (path @ [CHR ''/'', NUL]) @ rest \<or> last path \<noteq> CHR ''/'' \<and> b = map Some (path @ [NUL]) @ rest"
  shows "d0059b5b_makeDirectory e sys_stat sys_mkdir fs (Some b) mode hasFilename = Inl Abort"
proof -
  obtain lst where lst: "b196167f_initListArray zero_list = Inr (lst :: nat ListArray)" "la_rep lst []" "unat (la_size lst) = 8"
    using init_zero_list by blast
  have few: "count_list path (CHR ''/'') < 2 ^ 29"
    using count_le_length [of path "CHR ''/''"] assms(3) by linarith
  have "\<exists>b' ks. split_loop b (CHR ''/'') 0 [Some 0] = Inr (b', Some 0 # ks) \<and> length ks = count_list path (CHR ''/'')"
    using b
  proof
    assume "b = map Some (path @ [CHR ''/'', NUL]) @ rest"
    then show ?thesis using split_loop_closed [of path "CHR ''/''" "[]" rest "[Some 0]"] assms(1) by auto
  next
    assume "last path \<noteq> CHR ''/'' \<and> b = map Some (path @ [NUL]) @ rest"
    then show ?thesis using split_loop_ok [of "[]" path "CHR ''/''" rest "[Some 0]"] assms(1) by auto
  qed
  then obtain b' ks where "split_loop b (CHR ''/'') 0 [Some 0] = Inr (b', Some 0 # ks)" "length ks = count_list path (CHR ''/'')"
    by blast
  from split_many_parts [OF this _ lst(2)] lst(1,3) few assms(2) show ?thesis
    by (simp add: d0059b5b_makeDirectory_def)
qed

text \<open>What is tried for an arbitrary path, and what is left of it: a slash at its end goes, unless it is the whole path.\<close>

definition trimmed :: "string \<Rightarrow> string" where
  "trimmed path = (if last path = CHR ''/'' then butlast path else path)"

definition directories_tried :: "bool \<Rightarrow> string \<Rightarrow> string list" where
  "directories_tried hasFilename path = (if trimmed path = [] then [] else parents hasFilename (trimmed path))"

definition path_left :: "string \<Rightarrow> string" where
  "path_left path = (if trimmed path = [] \<or> trimmed path = path then path else trimmed path @ [NUL])"

lemma makeDirectory_any:
  assumes "path \<noteq> []" and "NUL \<notin> set path" and "length path < 2 ^ 29"
  shows "d0059b5b_makeDirectory e sys_stat sys_mkdir fs (Some (map Some (path @ [NUL]) @ rest)) mode hasFilename =
    (if count_list (trimmed path) (CHR ''/'') < 8 then
       bnd (fold_result (make_one e sys_stat sys_mkdir mode) (fs, [], False) (directories_tried hasFilename path))
         (\<lambda>run. Inr (run, map Some (path_left path @ [NUL]) @ rest))
     else Inl Abort)"
proof (cases "last path = CHR ''/''")
  case False
  then have t: "trimmed path = path" by (simp add: trimmed_def)
  have "path_text path" using assms False by (simp add: path_text_def)
  from makeDirectory_parents [OF this] makeDirectory_deep [OF assms(2) _ assms(3), of "map Some (path @ [NUL]) @ rest" rest] False show ?thesis
    using assms(1) by (auto simp: t directories_tried_def path_left_def not_less)
next
  case True
  then obtain p where p: "path = p @ [CHR ''/'']" using assms(1) by (cases path rule: rev_cases) auto
  then have t: "trimmed path = p" by (simp add: trimmed_def)
  have nul: "NUL \<notin> set p" "length p < 2 ^ 29" using assms(2,3) p by auto
  show ?thesis
  proof (cases "p = []")
    case True
    then show ?thesis using makeDirectory_root p t by (simp add: directories_tried_def path_left_def)
  next
    case False
    with makeDirectory_closed [OF False nul(1)] makeDirectory_deep [OF nul(1) _ nul(2), of "map Some (p @ [CHR ''/'', NUL]) @ rest" rest] show ?thesis
      using p t by (auto simp: directories_tried_def path_left_def not_less)
  qed
qed

text \<open>C35: for every path below \<open>2 ^ 29\<close> chars but the empty one, makeDirectory tries each prefix that ends before a slash, from the root down, and the
  whole path unless it names a file; where stat reports ENOENT it calls mkdir once, and afterwards the path is as it was. A slash at
  the end, as the names of directories in an archive have it, is taken off first and not put back. A path of more than eight parts
  makes it abort, since the list of parts must grow while it is still empty.\<close>

theorem makeDirectory_makes_parents:
  assumes "path \<noteq> []" and "NUL \<notin> set path" and "length path < 2 ^ 29"
  shows "d0059b5b_makeDirectory e sys_stat sys_mkdir fs (Some (map Some (path @ [NUL]) @ rest)) mode hasFilename =
    (if count_list (trimmed path) (CHR ''/'') < 8 then
       bnd (fold_result (make_one e sys_stat sys_mkdir mode) (fs, [], False) (directories_tried hasFilename path))
         (\<lambda>run. Inr (run, map Some (path_left path @ [NUL]) @ rest))
     else Inl Abort)"
  using assms by (rule makeDirectory_any)

definition set_stat :: "string set \<Rightarrow> string \<Rightarrow> unit sysret" where
  "set_stat fs path = (if path \<in> fs then SysOk () else SysErr ENOENT)"

definition set_mkdir :: "string set \<Rightarrow> string \<Rightarrow> u32 \<Rightarrow> unit sysret \<times> string set" where
  "set_mkdir fs path mode = (SysOk (), insert path fs)"

lemma makeDirectory_makes_parents_witness:
  "\<forall>e. d0059b5b_makeDirectory e set_stat set_mkdir {''a''} (Some (map Some (''a/b/c/'' @ [NUL]) @ [])) 0x1E8 False =
     Inr (({''a/b/c'', ''a/b'', ''a''}, [], True), map Some (''a/b/c'' @ [NUL, NUL]))"
proof
  fix e
  have "parents False ''a/b/c'' = [''a'', ''a/b'', ''a/b/c'']" by (simp add: parents_def slashes_def upt_rec)
  then show "d0059b5b_makeDirectory e set_stat set_mkdir {''a''} (Some (map Some (''a/b/c/'' @ [NUL]) @ [])) 0x1E8 False =
     Inr (({''a/b/c'', ''a/b'', ''a''}, [], True), map Some (''a/b/c'' @ [NUL, NUL]))"
    using makeDirectory_makes_parents [of "''a/b/c/''" e set_stat set_mkdir "{''a''}" "[]" "0x1E8" False]
    by (simp add: directories_tried_def trimmed_def path_left_def make_one_def set_stat_def set_mkdir_def)
qed

text \<open>For a path of more than eight parts makeDirectory aborts, because the list of parts must grow while it is
  still empty.\<close>

theorem makeDirectory_deep_path_aborts:
  assumes "path_text path" and "8 \<le> count_list path (CHR ''/'')" and "length path < 2 ^ 29"
  shows "d0059b5b_makeDirectory e sys_stat sys_mkdir fs (Some (map Some (path @ [NUL]) @ rest)) mode hasFilename = Inl Abort"
  using assms by (intro makeDirectory_deep) (auto simp: path_text_def)

lemma makeDirectory_deep_path_aborts_witness:
  "\<forall>e. d0059b5b_makeDirectory e set_stat set_mkdir {} (Some (map Some (''a/b/c/d/e/f/g/h/i'' @ [NUL]) @ [])) 0x1E8 False = Inl Abort"
  by (intro allI makeDirectory_deep_path_aborts) (simp_all add: path_text_def)

text \<open>The buffer of a new DirPath is overrun for every path: 64 bytes behind the path are read.\<close>

lemma initDirPath_overruns:
  assumes "length path < 2 ^ 31"
  shows "d0059b5b_initDirPath path = Inl OutOfBounds" "d0059b5b_createDirPath path = Inl OutOfBounds"
proof -
  have "unat (f6215943_getLength (Some path) + DIRPATH_BUFFER_SIZE) = length path + 64"
    using assms by (simp add: f6215943_getLength_def DIRPATH_BUFFER_SIZE_def unat_word_ariths unat_of_nat)
  moreover have "f668c4bd_mallocArray 1 (length path + 64) = Inr (fresh ((length path + 79) div 16 * 16) :: char block)"
    using mallocArray_small [of 1 "length path + 64"] assms by (simp add: add.commute)
  ultimately show "d0059b5b_initDirPath path = Inl OutOfBounds" "d0059b5b_createDirPath path = Inl OutOfBounds"
    by (simp_all add: d0059b5b_initDirPath_def d0059b5b_createDirPath_def Let_def f6215943_copyToBuffer_def blit_def)
qed

end
