(* ===== verification/LittleEndian.thy ===== *)
theory LittleEndian
  imports IOBuffer
begin

text \<open>
  Numbers in memory: the processor stores them with the low byte first, so a struct that lies in a buffer is
  read by its fields' offsets. Used for archive headers and for the messages of the kernel.
\<close>

unbundle bit_operations_syntax

definition rd16 :: "u8 block \<Rightarrow> nat \<Rightarrow> u16 result" where
  "rd16 page p = bnd (read_cells page p 2) (\<lambda>bs. Inr (ucast (or_bytes 0 bs)))"

definition rd32 :: "u8 block \<Rightarrow> nat \<Rightarrow> u32 result" where
  "rd32 page p = bnd (read_cells page p 4) (\<lambda>bs. Inr (ucast (or_bytes 0 bs)))"

definition le16 :: "u16 \<Rightarrow> u8 list" where
  "le16 w = [ucast w, ucast (drop_bit 8 w)]"

definition le32 :: "u32 \<Rightarrow> u8 list" where
  "le32 w = [ucast w, ucast (drop_bit 8 w), ucast (drop_bit 16 w), ucast (drop_bit 24 w)]"

lemma length_le [simp]: "length (le16 v) = 2" "length (le32 w) = 4"
  by (simp_all add: le16_def le32_def)

lemma le16_value: "ucast (or_bytes 0 (le16 w)) = w"
  by (rule bit_word_eqI) (auto simp: le16_def bit_simps)

lemma le32_value: "ucast (or_bytes 0 (le32 w)) = w"
proof (rule bit_word_eqI)
  fix n assume "n < LENGTH(32)"
  then show "bit (ucast (or_bytes 0 (le32 w)) :: u32) n = bit w n"
    by (cases "n < 16"; cases "n < 24") (auto simp: le32_def bit_simps)
qed

lemma le32_inject: "le32 v = le32 w \<longleftrightarrow> v = w"
  using le32_value [of v] le32_value [of w] by metis

lemma or_bytes_le32: "length bs = 4 \<Longrightarrow> le32 (ucast (or_bytes 0 bs)) = bs"
proof -
  assume "length bs = 4"
  then obtain a b c d where bs: "bs = [a, b, c, d]" by (auto simp: length_Suc_conv numeral_eq_Suc)
  have "\<not> bit (x :: u8) (8 + n)" "\<not> bit (x :: u8) (16 + n)" "\<not> bit (x :: u8) (24 + n)" for x n
    by (auto dest: bit_imp_le_length)
  then show ?thesis
    unfolding bs le32_def by (auto intro!: bit_word_eqI simp: bit_simps)
qed

lemma read_in:
  assumes "holds page (pre @ bs @ post)" and "k + n \<le> length bs"
  shows "read_cells page (length pre + k) n = Inr (take n (drop k bs))"
proof -
  have "pre @ bs @ post = (pre @ take k bs) @ take n (drop k bs) @ drop n (drop k bs) @ post"
    by (simp only: append_assoc [symmetric] append_take_drop_id) (simp only: append_assoc append_take_drop_id)
  then have "holds page ((pre @ take k bs) @ take n (drop k bs))"
    using assms(1) by (metis append.assoc holds_butlast)
  from read_cells_holds [OF this] assms(2) show ?thesis by simp
qed

lemma rd16_in:
  assumes "holds page (pre @ bs @ post)" and "k + 2 \<le> length bs" and "take 2 (drop k bs) = le16 w"
  shows "rd16 page (length pre + k) = Inr w"
  using read_in [OF assms(1,2)] assms(3) by (simp add: rd16_def le16_value)

lemma rd32_in:
  assumes "holds page (pre @ bs @ post)" and "k + 4 \<le> length bs" and "take 4 (drop k bs) = le32 w"
  shows "rd32 page (length pre + k) = Inr w"
  using read_in [OF assms(1,2)] assms(3) by (simp add: rd32_def le32_value)

lemma rd_in:
  assumes "holds page (pre @ bs @ post)" and "k < length bs"
  shows "rd page (length pre + k) = Inr (bs ! k)"
  using holds_rd [OF assms(1), of "length pre + k"] assms(2) by (simp add: nth_append)

end
