(* ===== verification/ZipArchive.thy ===== *)
theory ZipArchive
  imports InflateDynamic InflateFrame Directory Time LittleEndian
begin

text \<open>
  compress/ziparchive.c: extraction of a Zip archive. The end of central directory record is searched in
  the last page of the file, the central directory is parsed into a list of file headers, and each file is
  checked, decompressed and written. ce667b0d_mapEndOfCDR is declared but defined nowhere in the
  repository, so it is a parameter, as are the system calls; the calls that change something are recorded in
  order. Pointers into a page are indices into its 4096 bytes.
\<close>

unbundle bit_operations_syntax

definition ZIP_FILE_HEADER_SIG :: u32 where "ZIP_FILE_HEADER_SIG = 0x02014b50"
definition ZIP_FILE_LOCAL_HEADER_SIG :: u32 where "ZIP_FILE_LOCAL_HEADER_SIG = 0x04034b50"
definition ZIP_FILE_LOCAL_HEADER_SIZE :: u32 where "ZIP_FILE_LOCAL_HEADER_SIZE = 30"
definition ZIP_END_OF_CDR_SIG :: u32 where "ZIP_END_OF_CDR_SIG = 0x06054b50"
definition ZIP_END_OF_CDR_SIZE :: u32 where "ZIP_END_OF_CDR_SIZE = 22"
definition ZIP_METHOD_STORED :: u16 where "ZIP_METHOD_STORED = 0"
definition ZIP_METHOD_DEFLATE :: u16 where "ZIP_METHOD_DEFLATE = 8"
definition DIR_DEFAULT_MODE :: u32 where "DIR_DEFAULT_MODE = 0x1E8"
definition FILE_DEFAULT_MODE :: u32 where "FILE_DEFAULT_MODE = 0x1A0"

record LocalFileHeader =
  lh_fileName :: "char block ptr"
  lh_extraField :: "char block ptr"
  lh_signature :: u32
  lh_crc32 :: u32
  lh_compressSize :: u32
  lh_uncompressSize :: u32
  lh_needToExtractVersion :: u16
  lh_bitFlags :: u16
  lh_compressMethod :: u16
  lh_lastModFileTime :: u16
  lh_lastModFileDate :: u16
  lh_fileNameLen :: u16
  lh_extraFieldLen :: u16

record FileHeader =
  fh_fileName :: "char block ptr"
  fh_extraField :: "char block ptr"
  fh_fileComment :: "char block ptr"
  fh_signature :: u32
  fh_crc32 :: u32
  fh_compressSize :: u32
  fh_uncompressSize :: u32
  fh_externalFileAttribs :: u32
  fh_localHeaderOffset :: u32
  fh_madeByVersion :: u16
  fh_needToExtractVersion :: u16
  fh_bitFlags :: u16
  fh_compressMethod :: u16
  fh_lastModFileTime :: u16
  fh_lastModFileDate :: u16
  fh_fileNameLen :: u16
  fh_extraFieldLen :: u16
  fh_fileCommentLen :: u16
  fh_diskNumStart :: u16
  fh_internalFileAttribs :: u16

record EndOfCDR =
  ec_comment :: "char block ptr"
  ec_signature :: u32
  ec_size :: u32
  ec_startOffset :: u32
  ec_diskNum :: u16
  ec_startDiskNum :: u16
  ec_totalEntriesOnDisk :: u16
  ec_totalEntries :: u16
  ec_commentLength :: u16

text \<open>The digital signature and the Zip64 records of a ZipFormat stay zero; they are left out.\<close>

record ZipFormat =
  zf_fileHeaderList :: "FileHeader ListArray"
  zf_endOfCDR :: EndOfCDR

record ZipArchive =
  za_aioFile :: AIOFile
  za_bufferList :: FileBufferList
  za_aioContext :: AIOContext
  za_outputDir :: "string ptr"

text \<open>The system below, and the calls that change it.\<close>

record 'fs host =
  h_env :: env
  h_kernel :: kernel
  h_alloc :: "nat \<Rightarrow> nat"
  h_mapEndOfCDR :: "EndOfCDR \<Rightarrow> u8 block \<Rightarrow> nat \<Rightarrow> EndOfCDR result"
  h_stat :: "'fs \<Rightarrow> string \<Rightarrow> unit sysret"
  h_mkdir :: "'fs \<Rightarrow> string \<Rightarrow> u32 \<Rightarrow> unit sysret \<times> 'fs"
  h_open :: "string \<Rightarrow> u32 \<Rightarrow> u32 \<Rightarrow> u32 sysret"
  h_write :: "u32 \<Rightarrow> u8 list \<Rightarrow> nat sysret"
  h_futimes :: "u32 \<Rightarrow> TimeValue list \<Rightarrow> unit sysret"
  h_close :: "u32 \<Rightarrow> unit sysret"
  h_mktime :: "Time \<Rightarrow> u64"

datatype call = Created string u32 | Written u32 "u8 list" | Stamped u32 int | Closed u32

record 'fs zip_run =
  zr_st :: fb_state
  zr_fs :: 'fs
  zr_calls :: "call list"
  zr_out :: string

subsection \<open>Reading from a page\<close>

definition byte_char :: "u8 \<Rightarrow> char" where
  "byte_char b = char_of (unat b)"

text \<open>stralloc, memcopy and the closing NUL, for a length above 0; the pointer behind the copied bytes.\<close>

definition copy_field :: "u8 block \<Rightarrow> nat \<Rightarrow> u16 \<Rightarrow> (char block ptr \<times> nat) result" where
  "copy_field page p len =
     (if 0 < len then
        bnd (f668c4bd_stralloc (unat len)) (\<lambda>field.
        bnd (f668c4bd_memcopy (map (map_option byte_char) page) p field 0 (unat len)) (\<lambda>field.
        bnd (wr field (unat len) NUL) (\<lambda>field.
        Inr (Some field, p + unat len))))
      else Inr (None, p))"

subsection \<open>Init and clean up\<close>

definition ce667b0d_initZipArchive ::
    "env \<Rightarrow> (string \<Rightarrow> u32 \<Rightarrow> u32 sysret) \<Rightarrow> (u32 \<Rightarrow> u64 sysret) \<Rightarrow> AIOContext \<Rightarrow> string \<Rightarrow> (string \<times> ZipArchive) result" where
  "ce667b0d_initZipArchive e sys_open sys_fstat aioContext name =
     bnd ce97d170_initFileBufferList (\<lambda>bufferList.
     bnd (f1207515_open e sys_open sys_fstat (f1207515_initAIOFile name) FOPEN_READONLY 0) (\<lambda>(out, fd, aioFile).
     bnd (e2f74138_getDescriptorStatus e
            (\<lambda>fd. case sys_fstat fd of SysOk sz \<Rightarrow> SysOk (Some sz) | SysErr errno \<Rightarrow> SysErr errno) (aio_fd aioFile) None)
       (\<lambda>(out2, ok, fileStatus).
     case fileStatus of
       None \<Rightarrow> Inl Uninitialised
     | Some st_size \<Rightarrow>
         Inr (out @ out2, \<lparr>za_aioFile = aioFile\<lparr>fileSize := st_size\<rparr>, za_bufferList = bufferList,
                          za_aioContext = aioContext, za_outputDir = None\<rparr>))))"

definition ce667b0d_cleanUpZipArchive ::
    "env \<Rightarrow> (u32 \<Rightarrow> unit sysret) \<Rightarrow> fb_state \<Rightarrow> ZipArchive \<Rightarrow> fb_state result" where
  "ce667b0d_cleanUpZipArchive e sys_close st zipArchive =
     bnd (f1207515_cleanUpAIOFile e sys_close (za_aioFile zipArchive)) (\<lambda>_.
     ce97d170_cleanUpFileBufferList st (za_bufferList zipArchive) (Some page_release))"

definition zero_EndOfCDR :: EndOfCDR where
  "zero_EndOfCDR = \<lparr>ec_comment = None, ec_signature = 0, ec_size = 0, ec_startOffset = 0, ec_diskNum = 0,
     ec_startDiskNum = 0, ec_totalEntriesOnDisk = 0, ec_totalEntries = 0, ec_commentLength = 0\<rparr>"

definition initZipFormat :: "ZipFormat result" where
  "initZipFormat =
     bnd (b196167f_initListArray zero_list) (\<lambda>lst. Inr \<lparr>zf_fileHeaderList = lst, zf_endOfCDR = zero_EndOfCDR\<rparr>)"

text \<open>The headers that are destroyed, and the comment, if there is one.\<close>

definition cleanUpZipFormat :: "ZipFormat \<Rightarrow> (FileHeader ptr list \<times> char block ptr) result" where
  "cleanUpZipFormat zipFormat =
     bnd (b196167f_cleanUpListArray (zf_fileHeaderList zipFormat) True) (\<lambda>freed.
     Inr (freed, ec_comment (zf_endOfCDR zipFormat)))"

subsection \<open>Finding the end of central directory record\<close>

text \<open>From index \<open>p\<close> downwards to the start of the page.\<close>

primrec scan_back :: "u8 block \<Rightarrow> nat \<Rightarrow> nat option result" where
  "scan_back page 0 = bnd (rd32 page 0) (\<lambda>sig. Inr (if sig = ZIP_END_OF_CDR_SIG then Some 0 else None))"
| "scan_back page (Suc p) =
     bnd (rd32 page (Suc p)) (\<lambda>sig. if sig = ZIP_END_OF_CDR_SIG then Inr (Some (Suc p)) else scan_back page p)"

definition last_page_offset :: "AIOFile \<Rightarrow> AIOFile" where
  "last_page_offset aioFile =
     (if of_nat MEMORY_PAGE_SIZE <s fileSize aioFile then
        aioFile\<lparr>aio_file_offset := push_bit 9 (signed_drop_bit 9 (fileSize aioFile - of_nat MEMORY_PAGE_SIZE + 511))\<rparr>
      else aioFile)"

definition findEndOfCDR ::
    "'fs host \<Rightarrow> 'fs zip_run \<Rightarrow> ZipArchive \<Rightarrow> ZipFormat \<Rightarrow> (bool \<times> 'fs zip_run \<times> ZipArchive \<times> ZipFormat) result" where
  "findEndOfCDR h run zipArchive zipFormat =
     (let aioFile = last_page_offset (za_aioFile zipArchive);
          len = (ucast (fileSize aioFile - aio_file_offset aioFile) :: u32)
      in bnd (ce97d170_readFileBuffer (h_env h) (h_kernel h) (h_alloc h) (zr_st run) (za_aioContext zipArchive) aioFile
                (ucast len)) (\<lambda>(out, fileBuffer, st, ctx, aioFile).
         bnd (ce97d170_addBuffer st (za_bufferList zipArchive) fileBuffer) (\<lambda>(st, bufferList).
         bnd (fb_get st fileBuffer) (\<lambda>fb.
         let run = run\<lparr>zr_st := st, zr_out := zr_out run @ out\<rparr>;
             zipArchive = zipArchive\<lparr>za_aioFile := aioFile, za_aioContext := ctx, za_bufferList := bufferList\<rparr>
         in if ZIP_END_OF_CDR_SIZE < fb_numBytes fb then
              bnd (page_get st (fb_buffer fb)) (\<lambda>page.
              bnd (scan_back page (unat (fb_numBytes fb - ZIP_END_OF_CDR_SIZE))) (\<lambda>found.
              case found of
                None \<Rightarrow> Inr (False, run, zipArchive, zipFormat)
              | Some p \<Rightarrow>
                  bnd (h_mapEndOfCDR h (zf_endOfCDR zipFormat) page p) (\<lambda>endOfCDR.
                  Inr (True, run, zipArchive, zipFormat\<lparr>zf_endOfCDR := endOfCDR\<rparr>))))
            else Inr (False, run, zipArchive, zipFormat)))))"

text \<open>printf's \<open>%#x\<close> puts 0x before a value that is not 0.\<close>

definition hex_text :: "nat \<Rightarrow> string" where
  "hex_text n = (if n = 0 then ''0'' else ''0x'' @ hex_string n)"

definition printEndOfCDR :: "EndOfCDR \<Rightarrow> string" where
  "printEndOfCDR r =
     (let tab = [CHR 0x09]
      in ''EndOfCDR Data:'' @ newline @
         tab @ ''signature:          '' @ hex_text (unat (ec_signature r)) @ newline @
         tab @ ''diskNum:            '' @ dec_string (unat (ec_diskNum r)) @ newline @
         tab @ ''startDiskNum:       '' @ dec_string (unat (ec_startDiskNum r)) @ newline @
         tab @ ''totalEntriesOnDisk: '' @ dec_string (unat (ec_totalEntriesOnDisk r)) @ newline @
         tab @ ''totalEntries:       '' @ dec_string (unat (ec_totalEntries r)) @ newline @
         tab @ ''size:               '' @ dec_string (unat (ec_size r)) @ newline @
         tab @ ''startOffset:        '' @ dec_string (unat (ec_startOffset r)) @ newline @
         tab @ ''commentLength:      '' @ dec_string (unat (ec_commentLength r)) @ newline @ newline)"

subsection \<open>Loading a range of the file\<close>

text \<open>
  The buffer of the list that contains the range; if there is none, the list is read again from the
  block of 512 bytes on in which the range starts, and the length grows by what lies before the range.
\<close>

definition load_range ::
    "'fs host \<Rightarrow> fb_state \<Rightarrow> ZipArchive \<Rightarrow> u32 \<Rightarrow> u32 \<Rightarrow> (nat ptr \<times> u32 \<times> fb_state \<times> ZipArchive) result" where
  "load_range h st zipArchive offset len =
     bnd (ce97d170_containsData st (za_bufferList zipArchive) (ucast offset) len) (\<lambda>(fileBuffer, st).
     if fileBuffer = None then
       bnd (ce97d170_resetFileBufferList st (za_bufferList zipArchive) (Some page_release)) (\<lambda>(st, bufferList).
       let start = (ucast (push_bit 9 (drop_bit 9 offset)) :: u64);
           len = (ucast (ucast offset - start + ucast len) :: u32);
           aioFile = (za_aioFile zipArchive)\<lparr>aio_file_offset := start\<rparr>
       in bnd (ce97d170_readFileBufferList (h_env h) (h_kernel h) (h_alloc h) st (za_aioContext zipArchive) aioFile
                 bufferList (ucast len)) (\<lambda>(st, ctx, aioFile, bufferList).
          bnd (ce97d170_containsData st bufferList (ucast offset) len) (\<lambda>(fileBuffer, st).
          Inr (fileBuffer, len, st,
               zipArchive\<lparr>za_aioFile := aioFile, za_aioContext := ctx, za_bufferList := bufferList\<rparr>))))
     else Inr (fileBuffer, len, st, zipArchive))"

text \<open>The page of a buffer and the index of its data.\<close>

definition data_at :: "fb_state \<Rightarrow> nat ptr \<Rightarrow> (u8 block \<times> nat) result" where
  "data_at st fileBuffer =
     bnd (fb_get st fileBuffer) (\<lambda>fb. bnd (page_get st (fb_buffer fb)) (\<lambda>page. Inr (page, unat (fb_dataOffset fb))))"

subsection \<open>The central directory\<close>

text \<open>The fixed part of a file header, 46 bytes.\<close>

definition read_fixed :: "u8 block \<Rightarrow> nat \<Rightarrow> FileHeader result" where
  "read_fixed page p =
     bnd (rd32 page p) (\<lambda>signature.
     bnd (rd16 page (p + 4)) (\<lambda>madeByVersion.
     bnd (rd16 page (p + 6)) (\<lambda>needToExtractVersion.
     bnd (rd16 page (p + 8)) (\<lambda>bitFlags.
     bnd (rd16 page (p + 10)) (\<lambda>compressMethod.
     bnd (rd16 page (p + 12)) (\<lambda>lastModFileTime.
     bnd (rd16 page (p + 14)) (\<lambda>lastModFileDate.
     bnd (rd32 page (p + 16)) (\<lambda>crc32.
     bnd (rd32 page (p + 20)) (\<lambda>compressSize.
     bnd (rd32 page (p + 24)) (\<lambda>uncompressSize.
     bnd (rd16 page (p + 28)) (\<lambda>fileNameLen.
     bnd (rd16 page (p + 30)) (\<lambda>extraFieldLen.
     bnd (rd16 page (p + 32)) (\<lambda>fileCommentLen.
     bnd (rd16 page (p + 34)) (\<lambda>diskNumStart.
     bnd (rd16 page (p + 36)) (\<lambda>internalFileAttribs.
     bnd (rd32 page (p + 38)) (\<lambda>externalFileAttribs.
     bnd (rd32 page (p + 42)) (\<lambda>localHeaderOffset.
     Inr \<lparr>fh_fileName = None, fh_extraField = None, fh_fileComment = None, fh_signature = signature,
          fh_crc32 = crc32, fh_compressSize = compressSize, fh_uncompressSize = uncompressSize,
          fh_externalFileAttribs = externalFileAttribs, fh_localHeaderOffset = localHeaderOffset,
          fh_madeByVersion = madeByVersion, fh_needToExtractVersion = needToExtractVersion,
          fh_bitFlags = bitFlags, fh_compressMethod = compressMethod, fh_lastModFileTime = lastModFileTime,
          fh_lastModFileDate = lastModFileDate, fh_fileNameLen = fileNameLen, fh_extraFieldLen = extraFieldLen,
          fh_fileCommentLen = fileCommentLen, fh_diskNumStart = diskNumStart,
          fh_internalFileAttribs = internalFileAttribs\<rparr>)))))))))))))))))"

text \<open>The file name: as stored, or behind the output directory and a slash.\<close>

definition read_name :: "string ptr \<Rightarrow> u8 block \<Rightarrow> nat \<Rightarrow> u16 \<Rightarrow> (char block ptr \<times> nat) result" where
  "read_name outputDir page p len =
     (if len = 0 then Inr (None, p)
      else
        case outputDir of
          None \<Rightarrow> copy_field page p len
        | Some dir \<Rightarrow>
            bnd c598a24c_initStringBuilder (\<lambda>sb.
            bnd (c598a24c_append_string sb dir) (\<lambda>sb.
            bnd (c598a24c_getLastChar sb) (\<lambda>ch.
            bnd (if ch \<noteq> CHR ''/'' then c598a24c_append_char sb (CHR ''/'') else Inr sb) (\<lambda>sb.
            bnd (read_cells page p (unat len)) (\<lambda>bytes.
            bnd (c598a24c_appendBytes sb (map byte_char bytes) (ucast len)) (\<lambda>sb.
            bnd (c598a24c_createString sb None) (\<lambda>(name, sb).
            Inr (map_option (\<lambda>str. map Some (str @ [NUL])) name, p + unat len)))))))))"

definition read_header :: "string ptr \<Rightarrow> u8 block \<Rightarrow> nat \<Rightarrow> (FileHeader \<times> nat) result" where
  "read_header outputDir page p =
     bnd (read_fixed page p) (\<lambda>fileHeader.
     bnd (read_name outputDir page (p + 46) (fh_fileNameLen fileHeader)) (\<lambda>(name, p).
     bnd (copy_field page p (fh_extraFieldLen fileHeader)) (\<lambda>(extra, p).
     bnd (copy_field page p (fh_fileCommentLen fileHeader)) (\<lambda>(comment, p).
     Inr (fileHeader\<lparr>fh_fileName := name, fh_extraField := extra, fh_fileComment := comment\<rparr>, p)))))"

definition header_step ::
    "string ptr \<Rightarrow> u8 block \<Rightarrow> FileHeader ListArray \<times> nat \<Rightarrow> nat \<Rightarrow> (FileHeader ListArray \<times> nat) result" where
  "header_step outputDir page s i =
     (let (lst, p) = s
      in bnd (rd32 page p) (\<lambda>signature.
         if signature = ZIP_FILE_HEADER_SIG then
           bnd (read_header outputDir page p) (\<lambda>(fileHeader, p).
           bnd (b196167f_add_x86 lst (Some fileHeader)) (\<lambda>lst. Inr (lst, p)))
         else Inr (lst, p)))"

definition loadCentralDirectory ::
    "'fs host \<Rightarrow> 'fs zip_run \<Rightarrow> ZipArchive \<Rightarrow> ZipFormat \<Rightarrow> ('fs zip_run \<times> ZipArchive \<times> ZipFormat) result" where
  "loadCentralDirectory h run zipArchive zipFormat =
     (let endOfCDR = zf_endOfCDR zipFormat
      in bnd (load_range h (zr_st run) zipArchive (ec_startOffset endOfCDR) (ec_size endOfCDR))
           (\<lambda>(fileBuffer, len, st, zipArchive).
         bnd (data_at st fileBuffer) (\<lambda>(page, p).
         bnd (fold_result (header_step (za_outputDir zipArchive) page) (zf_fileHeaderList zipFormat, p)
                [0..<unat (ec_totalEntries endOfCDR)]) (\<lambda>(lst, p).
         Inr (run\<lparr>zr_st := st\<rparr>, zipArchive, zipFormat\<lparr>zf_fileHeaderList := lst\<rparr>)))))"

subsection \<open>Extracting the files\<close>

definition read_local :: "u8 block \<Rightarrow> nat \<Rightarrow> LocalFileHeader result" where
  "read_local page p =
     bnd (rd32 page p) (\<lambda>signature.
     bnd (rd16 page (p + 4)) (\<lambda>needToExtractVersion.
     bnd (rd16 page (p + 6)) (\<lambda>bitFlags.
     bnd (rd16 page (p + 8)) (\<lambda>compressMethod.
     bnd (rd16 page (p + 10)) (\<lambda>lastModFileTime.
     bnd (rd16 page (p + 12)) (\<lambda>lastModFileDate.
     bnd (rd32 page (p + 14)) (\<lambda>crc32.
     bnd (rd32 page (p + 18)) (\<lambda>compressSize.
     bnd (rd32 page (p + 22)) (\<lambda>uncompressSize.
     bnd (rd16 page (p + 26)) (\<lambda>fileNameLen.
     bnd (rd16 page (p + 28)) (\<lambda>extraFieldLen.
     bnd (copy_field page (p + 30) fileNameLen) (\<lambda>(name, p).
     bnd (copy_field page p extraFieldLen) (\<lambda>(extra, p).
     Inr \<lparr>lh_fileName = name, lh_extraField = extra, lh_signature = signature, lh_crc32 = crc32,
          lh_compressSize = compressSize, lh_uncompressSize = uncompressSize,
          lh_needToExtractVersion = needToExtractVersion, lh_bitFlags = bitFlags,
          lh_compressMethod = compressMethod, lh_lastModFileTime = lastModFileTime,
          lh_lastModFileDate = lastModFileDate, lh_fileNameLen = fileNameLen,
          lh_extraFieldLen = extraFieldLen\<rparr>)))))))))))))"

definition make_dirs ::
    "'fs host \<Rightarrow> 'fs zip_run \<Rightarrow> char block ptr \<Rightarrow> bool \<Rightarrow> ('fs zip_run \<times> char block) result" where
  "make_dirs h run name hasFilename =
     bnd (d0059b5b_makeDirectory (h_env h) (h_stat h) (h_mkdir h) (zr_fs run) name DIR_DEFAULT_MODE hasFilename)
       (\<lambda>((fs, out, made), name). Inr (run\<lparr>zr_fs := fs, zr_out := zr_out run @ out\<rparr>, name))"

text \<open>Create the file, write it, set its time and close it: the same calls in the three cases.\<close>

definition write_out ::
    "'fs host \<Rightarrow> 'fs zip_run \<Rightarrow> FileHeader \<Rightarrow> string \<Rightarrow> (u32 \<Rightarrow> 'fs zip_run \<Rightarrow> 'fs zip_run result) \<Rightarrow> 'fs zip_run result" where
  "write_out h run fileHeader name write =
     bnd (e2f74138_createFile (h_env h) (h_open h) name FOPEN_WRITEONLY 0 FILE_DEFAULT_MODE) (\<lambda>(out, fd).
     bnd (write fd (run\<lparr>zr_calls := zr_calls run @ [Created name fd], zr_out := zr_out run @ out\<rparr>)) (\<lambda>run.
     let timestamp = sint (a66923ff_convertTimeFromDOS (h_mktime h) (fh_lastModFileDate fileHeader)
                             (fh_lastModFileTime fileHeader))
     in bnd (e2f74138_setTimestamp (h_env h) (h_futimes h) fd name timestamp timestamp) (\<lambda>out.
        bnd (e2f74138_closeFile (h_env h) (h_close h) fd name) (\<lambda>_.
        Inr (run\<lparr>zr_calls := zr_calls run @ [Stamped fd timestamp, Closed fd], zr_out := zr_out run @ out\<rparr>)))))"

definition write_stored ::
    "'fs host \<Rightarrow> FileHeader \<Rightarrow> string \<Rightarrow> nat ptr \<Rightarrow> u32 \<Rightarrow> 'fs zip_run \<Rightarrow> 'fs zip_run result" where
  "write_stored h fileHeader name fileBuffer fd run =
     bnd (ce97d170_write (h_env h) (h_write h) (zr_st run) fileBuffer fd (fh_uncompressSize fileHeader) name)
       (\<lambda>(out, pieces).
     Inr (run\<lparr>zr_calls := zr_calls run @ map (Written fd) pieces, zr_out := zr_out run @ out\<rparr>))"

definition write_inflated ::
    "'fs host \<Rightarrow> string \<Rightarrow> OutputBuffer \<Rightarrow> u32 \<Rightarrow> 'fs zip_run \<Rightarrow> 'fs zip_run result" where
  "write_inflated h name ob fd run =
     bnd (c49f5b0d_write (h_env h) (h_write h) (zr_st run) ob fd name) (\<lambda>(out, n).
     bnd (page_get (zr_st run) (ob_buffer ob)) (\<lambda>slab.
     bnd (read_cells slab 0 (unat (ob_length ob))) (\<lambda>bytes.
     Inr (run\<lparr>zr_calls := zr_calls run @ [Written fd bytes], zr_out := zr_out run @ out\<rparr>))))"

text \<open>A stored file: its data are written if the checksum over the buffers is that of the header.\<close>

definition extract_stored ::
    "'fs host \<Rightarrow> 'fs zip_run \<Rightarrow> ZipArchive \<Rightarrow> FileHeader \<Rightarrow> string \<Rightarrow> u32 \<Rightarrow> 'fs zip_run result" where
  "extract_stored h run zipArchive fileHeader name dataLength =
     bnd (ce97d170_containsData (zr_st run) (za_bufferList zipArchive)
            (ucast (fh_localHeaderOffset fileHeader + dataLength)) (fh_compressSize fileHeader)) (\<lambda>(fileBuffer, st).
     bnd (ce97d170_crc32 st fileBuffer (fh_uncompressSize fileHeader)) (\<lambda>crc32.
     let run = run\<lparr>zr_st := st\<rparr>
     in if crc32 = fh_crc32 fileHeader then
          write_out h run fileHeader name (write_stored h fileHeader name fileBuffer)
        else Inr run))"

text \<open>A compressed file: the same with what inflate makes of the data. inflate's return value is not looked at.\<close>

definition extract_inflated ::
    "'fs host \<Rightarrow> 'fs zip_run \<Rightarrow> ZipArchive \<Rightarrow> FileHeader \<Rightarrow> string \<Rightarrow> u32 \<Rightarrow> 'fs zip_run result" where
  "extract_inflated h run zipArchive fileHeader name dataLength =
     bnd (ce97d170_containsData (zr_st run) (za_bufferList zipArchive)
            (ucast (fh_localHeaderOffset fileHeader + dataLength)) (fh_compressSize fileHeader)) (\<lambda>(fileBuffer, st).
     bnd (d592eb82_initInflate (h_alloc h) st fileBuffer (fh_compressSize fileHeader)) (\<lambda>(inflateData, st).
     bnd (d592eb82_inflate st inflateData) (\<lambda>(ok, inflateData, st).
     bnd (c49f5b0d_crc32 st [in_outputBuffer inflateData] (fh_uncompressSize fileHeader)) (\<lambda>crc32.
     let run = run\<lparr>zr_st := st\<rparr>
     in bnd (if crc32 = fh_crc32 fileHeader then
               write_out h run fileHeader name (write_inflated h name (in_outputBuffer inflateData))
             else Inr (run\<lparr>zr_out := zr_out run @ ''CRC-32 does not match!''\<rparr>)) (\<lambda>run.
        bnd (d592eb82_cleanUpInflate (zr_st run) inflateData) (\<lambda>st.
        Inr (run\<lparr>zr_st := st\<rparr>)))))))"

definition extract_file ::
    "'fs host \<Rightarrow> 'fs zip_run \<Rightarrow> ZipArchive \<Rightarrow> FileHeader \<Rightarrow> string \<Rightarrow> u32 \<Rightarrow> 'fs zip_run result" where
  "extract_file h run zipArchive fileHeader name dataLength =
     (if fh_compressMethod fileHeader = ZIP_METHOD_STORED then
        extract_stored h run zipArchive fileHeader name dataLength
      else if fh_compressMethod fileHeader = ZIP_METHOD_DEFLATE then
        if fh_uncompressSize fileHeader = 0 then write_out h run fileHeader name (\<lambda>fd run. Inr run)
        else extract_inflated h run zipArchive fileHeader name dataLength
      else Inr run)"

text \<open>One file header. A stored entry without data makes a directory.\<close>

definition process_file ::
    "'fs host \<Rightarrow> 'fs zip_run \<times> ZipArchive \<Rightarrow> FileHeader \<Rightarrow> ('fs zip_run \<times> ZipArchive) result" where
  "process_file h s fileHeader =
     (let (run, zipArchive) = s
      in if fh_compressMethod fileHeader = ZIP_METHOD_STORED \<and> fh_compressSize fileHeader = 0 then
           bnd (make_dirs h run (fh_fileName fileHeader) False) (\<lambda>(run, name). Inr (run, zipArchive))
         else
           let dataLength = ZIP_FILE_LOCAL_HEADER_SIZE + ucast (fh_fileNameLen fileHeader) + ucast (fh_extraFieldLen fileHeader)
           in bnd (load_range h (zr_st run) zipArchive (fh_localHeaderOffset fileHeader) dataLength)
                (\<lambda>(fileBuffer, dataLength, st, zipArchive).
              let run = run\<lparr>zr_st := st\<rparr>
              in bnd (data_at st fileBuffer) (\<lambda>(page, p).
                 bnd (rd32 page p) (\<lambda>signature.
                 if signature = ZIP_FILE_LOCAL_HEADER_SIG then
                   bnd (read_local page p) (\<lambda>localFileHeader.
                   bnd (make_dirs h run (fh_fileName fileHeader) True) (\<lambda>(run, fname).
                   bnd (c_string fname) (\<lambda>name.
                   bnd (extract_file h run zipArchive fileHeader name dataLength) (\<lambda>run.
                   Inr (run, zipArchive)))))
                 else Inr (run, zipArchive)))))"

definition processFileHeaderList ::
    "'fs host \<Rightarrow> 'fs zip_run \<Rightarrow> ZipArchive \<Rightarrow> FileHeader ListArray \<Rightarrow> ('fs zip_run \<times> ZipArchive) result" where
  "processFileHeaderList h run zipArchive fileHeaderList =
     fold_result (\<lambda>s i. bnd (b196167f_get fileHeaderList (of_nat i)) (\<lambda>p. bnd (deref p) (process_file h s)))
       (run, zipArchive) [0..<unat (la_length fileHeaderList)]"

subsection \<open>unzip\<close>

definition ce667b0d_unzip :: "'fs host \<Rightarrow> 'fs zip_run \<Rightarrow> ZipArchive \<Rightarrow> ('fs zip_run \<times> ZipArchive) result" where
  "ce667b0d_unzip h run zipArchive =
     bnd initZipFormat (\<lambda>zipFormat.
     bnd (findEndOfCDR h run zipArchive zipFormat) (\<lambda>(found, run, zipArchive, zipFormat).
     bnd (if found then
            let run = run\<lparr>zr_out := zr_out run @ printEndOfCDR (zf_endOfCDR zipFormat)\<rparr>
            in bnd (loadCentralDirectory h run zipArchive zipFormat) (\<lambda>(run, zipArchive, zipFormat).
               bnd (if 0 <s fl_fileOffset (za_bufferList zipArchive) then
                      bnd (ce97d170_resetFileBufferList (zr_st run) (za_bufferList zipArchive) (Some page_release))
                        (\<lambda>(st, bufferList).
                      let aioFile = (za_aioFile zipArchive)\<lparr>aio_file_offset := 0\<rparr>;
                          dataLength = (if ucast ASYNC_AIOTICKET_MAXSIZE <s fileSize aioFile then ASYNC_AIOTICKET_MAXSIZE
                                        else ucast (fileSize aioFile))
                      in bnd (ce97d170_readFileBufferList (h_env h) (h_kernel h) (h_alloc h) st (za_aioContext zipArchive)
                                aioFile bufferList (ucast dataLength)) (\<lambda>(st, ctx, aioFile, bufferList).
                         Inr (run\<lparr>zr_st := st\<rparr>,
                              zipArchive\<lparr>za_aioFile := aioFile, za_aioContext := ctx, za_bufferList := bufferList\<rparr>)))
                    else Inr (run, zipArchive)) (\<lambda>(run, zipArchive).
               bnd (processFileHeaderList h run zipArchive (zf_fileHeaderList zipFormat)) (\<lambda>(run, zipArchive).
               Inr (run, zipArchive, zipFormat))))
          else Inr (run, zipArchive, zipFormat)) (\<lambda>(run, zipArchive, zipFormat).
     bnd (cleanUpZipFormat zipFormat) (\<lambda>_. Inr (run, zipArchive)))))"

subsection \<open>Bytes of a field\<close>

text \<open>A copied field: the chars, the NUL, and the cells of the allocation behind it.\<close>

definition field_of :: "u8 list \<Rightarrow> char block ptr" where
  "field_of bs =
     (if bs = [] then None
      else Some (map (Some \<circ> byte_char) bs @ Some NUL # replicate ((length bs div 16 + 1) * 16 - (length bs + 1)) None))"

lemma copy_field_ok:
  assumes "holds page (pre @ bs @ post)" and "unat len = length bs"
  shows "copy_field page (length pre) len = Inr (field_of bs, length pre + length bs)"
proof (cases "bs = []")
  case True
  then have "len = 0" using assms(2) by (simp add: unat_eq_0)
  then show ?thesis using True by (simp add: copy_field_def field_of_def)
next
  case False
  let ?n = "(length bs div 16 + 1) * 16"
  have n: "length bs < ?n" "?n < 2 ^ 64"
  proof -
    show "length bs < ?n" by presburger
    have "unat len < 2 ^ LENGTH(16)" by (rule unsigned_less)
    then have "length bs < 65536" using assms(2) by simp
    then show "?n < 2 ^ 64" by simp
  qed
  have pos: "0 < len" using False assms(2) by (simp add: word_less_nat_alt)
  have new: "f668c4bd_stralloc (unat len) = Inr (fresh ?n :: char block)"
    using n(2) assms(2) by (simp add: f668c4bd_stralloc_def Let_def)
  have cells: "take (length bs) (drop (length pre) page) = map Some bs" "length pre + length bs \<le> length page"
  proof -
    have h: "take (length (pre @ bs)) page = map Some (pre @ bs)" "length (pre @ bs) \<le> length page"
      using holds_butlast [of page "pre @ bs" post] assms(1) by (simp_all add: holds_def)
    from h(2) show "length pre + length bs \<le> length page" by simp
    have "take (length bs) (drop (length pre) page) = drop (length pre) (take (length (pre @ bs)) page)"
      by (simp add: drop_take)
    then show "take (length bs) (drop (length pre) page) = map Some bs" unfolding h(1) by simp
  qed
  have "take (length bs) (drop (length pre) (map (map_option byte_char) page)) = map (Some \<circ> byte_char) bs"
    using arg_cong [OF cells(1), of "map (map_option byte_char)"] by (simp add: take_map drop_map)
  with cells(2) have "f668c4bd_memcopy (map (map_option byte_char) page) (length pre) (fresh ?n) 0 (unat len) =
      Inr (map (Some \<circ> byte_char) bs @ replicate (?n - length bs) None)"
    using n(1) assms(2) by (simp add: f668c4bd_memcopy_def blit_def fresh_def)
  moreover have "wr (map (Some \<circ> byte_char) bs @ replicate (?n - length bs) None) (unat len) NUL =
      Inr (map (Some \<circ> byte_char) bs @ Some NUL # replicate (?n - (length bs + 1)) None)"
  proof -
    have "?n - length bs = Suc (?n - (length bs + 1))" using n(1) by simp
    then show ?thesis using assms(2) by (simp only: replicate.simps) (simp add: wr_def list_update_append)
  qed
  ultimately show ?thesis using pos new False assms(2) by (simp add: copy_field_def field_of_def)
qed

subsection \<open>The central directory comes back\<close>

text \<open>The 46 bytes of a file header, and a whole entry with its three texts.\<close>

definition fixed_bytes :: "FileHeader \<Rightarrow> u8 list" where
  "fixed_bytes f =
     le32 (fh_signature f) @ le16 (fh_madeByVersion f) @ le16 (fh_needToExtractVersion f) @ le16 (fh_bitFlags f) @
     le16 (fh_compressMethod f) @ le16 (fh_lastModFileTime f) @ le16 (fh_lastModFileDate f) @ le32 (fh_crc32 f) @
     le32 (fh_compressSize f) @ le32 (fh_uncompressSize f) @ le16 (fh_fileNameLen f) @ le16 (fh_extraFieldLen f) @
     le16 (fh_fileCommentLen f) @ le16 (fh_diskNumStart f) @ le16 (fh_internalFileAttribs f) @
     le32 (fh_externalFileAttribs f) @ le32 (fh_localHeaderOffset f)"

record entry =
  en_header :: FileHeader
  en_name :: "u8 list"
  en_extra :: "u8 list"
  en_comment :: "u8 list"

definition entry_ok :: "entry \<Rightarrow> bool" where
  "entry_ok en \<longleftrightarrow> fh_signature (en_header en) = ZIP_FILE_HEADER_SIG \<and>
     unat (fh_fileNameLen (en_header en)) = length (en_name en) \<and>
     unat (fh_extraFieldLen (en_header en)) = length (en_extra en) \<and>
     unat (fh_fileCommentLen (en_header en)) = length (en_comment en)"

definition entry_bytes :: "entry \<Rightarrow> u8 list" where
  "entry_bytes en = fixed_bytes (en_header en) @ en_name en @ en_extra en @ en_comment en"

definition loaded :: "entry \<Rightarrow> FileHeader" where
  "loaded en = (en_header en)\<lparr>fh_fileName := field_of (en_name en), fh_extraField := field_of (en_extra en),
                              fh_fileComment := field_of (en_comment en)\<rparr>"

lemma length_fixed_bytes [simp]: "length (fixed_bytes f) = 46"
  by (simp add: fixed_bytes_def)

lemma read_fixed_ok:
  assumes "holds page (pre @ fixed_bytes f @ post)"
  shows "read_fixed page (length pre) =
    Inr (f\<lparr>fh_fileName := None, fh_extraField := None, fh_fileComment := None\<rparr>)"
proof -
  note r16 = rd16_in [OF assms] and r32 = rd32_in [OF assms]
  have "rd32 page (length pre + 0) = Inr (fh_signature f)"
    "rd16 page (length pre + 4) = Inr (fh_madeByVersion f)"
    "rd16 page (length pre + 6) = Inr (fh_needToExtractVersion f)"
    "rd16 page (length pre + 8) = Inr (fh_bitFlags f)"
    "rd16 page (length pre + 10) = Inr (fh_compressMethod f)"
    "rd16 page (length pre + 12) = Inr (fh_lastModFileTime f)"
    "rd16 page (length pre + 14) = Inr (fh_lastModFileDate f)"
    "rd32 page (length pre + 16) = Inr (fh_crc32 f)"
    "rd32 page (length pre + 20) = Inr (fh_compressSize f)"
    "rd32 page (length pre + 24) = Inr (fh_uncompressSize f)"
    "rd16 page (length pre + 28) = Inr (fh_fileNameLen f)"
    "rd16 page (length pre + 30) = Inr (fh_extraFieldLen f)"
    "rd16 page (length pre + 32) = Inr (fh_fileCommentLen f)"
    "rd16 page (length pre + 34) = Inr (fh_diskNumStart f)"
    "rd16 page (length pre + 36) = Inr (fh_internalFileAttribs f)"
    "rd32 page (length pre + 38) = Inr (fh_externalFileAttribs f)"
    "rd32 page (length pre + 42) = Inr (fh_localHeaderOffset f)"
    by (intro r16 r32; simp add: fixed_bytes_def)+
  then show ?thesis by (simp add: read_fixed_def)
qed

lemma read_header_ok:
  assumes "holds page (pre @ entry_bytes en @ post)" and "entry_ok en"
  shows "read_header None page (length pre) = Inr (loaded en, length (pre @ entry_bytes en))"
proof -
  let ?f = "fixed_bytes (en_header en)"
  have "holds page (pre @ ?f @ (en_name en @ en_extra en @ en_comment en @ post))"
    using assms(1) by (simp add: entry_bytes_def)
  from read_fixed_ok [OF this] have fixed: "read_fixed page (length pre) =
      Inr ((en_header en)\<lparr>fh_fileName := None, fh_extraField := None, fh_fileComment := None\<rparr>)" .
  have name: "copy_field page (length (pre @ ?f)) (fh_fileNameLen (en_header en)) =
      Inr (field_of (en_name en), length (pre @ ?f) + length (en_name en))"
    using assms by (intro copy_field_ok [of page _ _ "en_extra en @ en_comment en @ post"])
      (simp_all add: entry_bytes_def entry_ok_def)
  have extra: "copy_field page (length (pre @ ?f @ en_name en)) (fh_extraFieldLen (en_header en)) =
      Inr (field_of (en_extra en), length (pre @ ?f @ en_name en) + length (en_extra en))"
    using assms by (intro copy_field_ok [of page _ _ "en_comment en @ post"])
      (simp_all add: entry_bytes_def entry_ok_def)
  have comment: "copy_field page (length (pre @ ?f @ en_name en @ en_extra en)) (fh_fileCommentLen (en_header en)) =
      Inr (field_of (en_comment en), length (pre @ ?f @ en_name en @ en_extra en) + length (en_comment en))"
    using assms by (intro copy_field_ok [of page _ _ post]) (simp_all add: entry_bytes_def entry_ok_def)
  have rname: "read_name None page (length pre + 46) (fh_fileNameLen (en_header en)) =
      Inr (field_of (en_name en), length pre + 46 + length (en_name en))"
    using name assms(2) by (auto simp: read_name_def field_of_def entry_ok_def)
  show ?thesis
    using fixed rname extra comment
    by (simp add: read_header_def loaded_def entry_bytes_def add.assoc)
qed

lemma header_steps_ok:
  assumes "holds page (pre @ concat (map entry_bytes ens) @ post)" and "\<forall>en \<in> set ens. entry_ok en"
    and "la_rep lst xs" and "length xs + length ens < 2 ^ 29" and "length is = length ens"
  shows "\<exists>lst'. fold_result (header_step None page) (lst, length pre) is =
      Inr (lst', length (pre @ concat (map entry_bytes ens))) \<and> la_rep lst' (xs @ map (\<lambda>en. Some (loaded en)) ens)"
  using assms
proof (induction ens arbitrary: pre lst xs "is")
  case (Cons en ens)
  then obtain i is' where is': "is = i # is'" by (cases "is") auto
  have h: "holds page (pre @ entry_bytes en @ (concat (map entry_bytes ens) @ post))" using Cons.prems(1) by simp
  have ok: "entry_ok en" using Cons.prems(2) by simp
  have "holds page (pre @ fixed_bytes (en_header en) @ (en_name en @ en_extra en @ en_comment en @ concat (map entry_bytes ens) @ post))"
    using h by (simp add: entry_bytes_def)
  from rd32_in [OF this, of 0] have sig: "rd32 page (length pre) = Inr ZIP_FILE_HEADER_SIG"
    using ok by (simp add: fixed_bytes_def entry_ok_def)
  have "length xs < 2 ^ 30" using Cons.prems(4) by simp
  from la_add_x86 [OF Cons.prems(3) this, of "Some (loaded en)"] obtain lst1 where
    lst1: "b196167f_add_x86 lst (Some (loaded en)) = Inr lst1" "la_rep lst1 (xs @ [Some (loaded en)])" by auto
  have "holds page ((pre @ entry_bytes en) @ concat (map entry_bytes ens) @ post)" using h by simp
  moreover have "\<forall>en \<in> set ens. entry_ok en" "length (xs @ [Some (loaded en)]) + length ens < 2 ^ 29" "length is' = length ens"
    using Cons.prems(2,4,5) is' by simp_all
  ultimately obtain lst' where
    "fold_result (header_step None page) (lst1, length (pre @ entry_bytes en)) is' =
       Inr (lst', length ((pre @ entry_bytes en) @ concat (map entry_bytes ens)))"
    "la_rep lst' ((xs @ [Some (loaded en)]) @ map (\<lambda>en. Some (loaded en)) ens)"
    using Cons.IH lst1(2) by blast
  moreover have "header_step None page (lst, length pre) i = Inr (lst1, length (pre @ entry_bytes en))"
    using sig read_header_ok [OF h ok] lst1(1) by (simp add: header_step_def)
  ultimately show ?case unfolding is' by simp
qed simp

text \<open>C8: the central directory comes back as it was written. If the page that contains it holds the bytes of
  a list of entries from the data offset on, loadCentralDirectory appends exactly their headers, with
  names, extra fields and comments, to the list, in order.\<close>

theorem central_directory_roundtrip:
  assumes "ce97d170_containsData (zr_st run) (za_bufferList zipArchive) (ucast (ec_startOffset (zf_endOfCDR zipFormat)))
      (ec_size (zf_endOfCDR zipFormat)) = Inr (Some a, st)"
    and "fb_get st (Some a) = Inr fb" and "page_get st (fb_buffer fb) = Inr page"
    and "holds page (pre @ concat (map entry_bytes ens) @ post)" and "length pre = unat (fb_dataOffset fb)"
    and "\<forall>en \<in> set ens. entry_ok en" and "unat (ec_totalEntries (zf_endOfCDR zipFormat)) = length ens"
    and "za_outputDir zipArchive = None" and "la_rep (zf_fileHeaderList zipFormat) xs" and "length xs < 2 ^ 28"
  shows "\<exists>lst. loadCentralDirectory h run zipArchive zipFormat =
      Inr (run\<lparr>zr_st := st\<rparr>, zipArchive, zipFormat\<lparr>zf_fileHeaderList := lst\<rparr>) \<and>
    la_rep lst (xs @ map (\<lambda>en. Some (loaded en)) ens)"
proof -
  have "unat (ec_totalEntries (zf_endOfCDR zipFormat)) < 2 ^ LENGTH(16)" by (rule unsigned_less)
  then have "length xs + length ens < 2 ^ 29" using assms(7,10) by simp
  from header_steps_ok [OF assms(4,6,9) this, of "[0..<length ens]"] show ?thesis
    using assms(1-3,5,7,8) by (auto simp: loadCentralDirectory_def load_range_def data_at_def Let_def)
qed

text \<open>An example: a directory of one entry named \<open>ab\<close> at offset 3 of a page.\<close>

definition sample_entry :: entry where
  "sample_entry = \<lparr>en_header = \<lparr>fh_fileName = None, fh_extraField = None, fh_fileComment = None,
     fh_signature = ZIP_FILE_HEADER_SIG, fh_crc32 = 0, fh_compressSize = 0, fh_uncompressSize = 0,
     fh_externalFileAttribs = 0, fh_localHeaderOffset = 0, fh_madeByVersion = 0, fh_needToExtractVersion = 0,
     fh_bitFlags = 0, fh_compressMethod = 0, fh_lastModFileTime = 0, fh_lastModFileDate = 0, fh_fileNameLen = 2,
     fh_extraFieldLen = 0, fh_fileCommentLen = 0, fh_diskNumStart = 0, fh_internalFileAttribs = 0\<rparr>,
     en_name = [97, 98], en_extra = [], en_comment = []\<rparr>"

definition one_page :: "u8 block \<Rightarrow> u32 \<Rightarrow> u32 \<Rightarrow> fb_state" where
  "one_page page offset n = initial_state\<lparr>
     fileBuffers := [1 \<mapsto> \<lparr>fb_buffer = Some 4096, fb_next = None, fb_fileOffset = 0, fb_dataOffset = offset,
                         fb_numBytes = n\<rparr>],
     pageBytes := [4096 \<mapsto> page]\<rparr>"

definition one_page_archive :: "u32 \<Rightarrow> AIOContext \<Rightarrow> ZipArchive" where
  "one_page_archive n ctx = \<lparr>za_aioFile = f1207515_initAIOFile ''x.zip'',
     za_bufferList = \<lparr>fl_values = [Some (Some 1)], fl_numBytes = ucast n, fl_fileOffset = 0, fl_length = 1, fl_size = 1\<rparr>,
     za_aioContext = ctx, za_outputDir = None\<rparr>"

lemma one_page_contains:
  assumes "unat offset + unat len \<le> unat n" and "unat n < 2 ^ 31"
  shows "ce97d170_containsData (one_page page k n) (za_bufferList (one_page_archive n ctx)) (ucast offset) len =
    Inr (Some 1, one_page page offset n)"
proof -
  have u: "unat (ucast w :: u64) = unat w" for w :: u32
    using unat_u32_lt [of w] by (simp add: unsigned_ucast_eq take_bit_nat_eq_self)
  have s: "sint (w :: u64) = int (unat w)" if "unat w < 9223372036854775808" for w
  proof -
    have "uint w < 9223372036854775808" using that unfolding uint_nat by linarith
    moreover have "- 9223372036854775808 \<le> uint w" by (rule order_trans [of _ 0]) simp_all
    ultimately have "sint w = uint w" by (simp add: sint_uint signed_take_bit_int_eq_self_iff)
    then show ?thesis by (simp only: uint_nat)
  qed
  have "unat (ucast offset + ucast len :: u64) = unat offset + unat len"
    using assms by (subst unat_plus_fits) (simp_all add: u)
  then have "sint (ucast offset + ucast len :: u64) = int (unat offset + unat len)"
    using s [of "ucast offset + ucast len"] assms by simp
  moreover have "sint (ucast n :: u64) = int (unat n)" using s [of "ucast n"] assms(2) by (simp only: u) simp
  moreover have "sint (ucast offset :: u64) = int (unat offset)"
    using s [of "ucast offset"] assms by (simp only: u) simp
  ultimately have "ucast offset + ucast len \<le>s (ucast n :: u64)" "0 \<le>s (ucast offset :: u64)"
    using assms(1) unfolding word_sle_eq by (simp_all only: signed_0 of_nat_le_iff of_nat_0_le_iff)
  moreover have "(ucast (ucast offset :: u64) :: u32) = offset" by (rule bit_word_eqI) (simp add: bit_simps)
  ultimately show ?thesis
    by (simp add: ce97d170_containsData_def one_page_def one_page_archive_def rd_def fb_get_def fb_set_def Let_def
        initial_state_def fun_eq_iff cong: if_cong)
qed

definition sample_list :: "FileHeader ListArray" where
  "sample_list = \<lparr>la_values = Some (replicate 8 None), la_length = 0, la_size = 8\<rparr>"

definition sample_format :: ZipFormat where
  "sample_format = \<lparr>zf_fileHeaderList = sample_list,
     zf_endOfCDR = zero_EndOfCDR\<lparr>ec_startOffset := 3, ec_size := 48, ec_totalEntries := 1\<rparr>\<rparr>"

definition sample_page :: "u8 block" where
  "sample_page = map Some ([0, 0, 0] @ entry_bytes sample_entry)"

lemma central_directory_roundtrip_witness:
  "\<forall>(h :: unit host) run ctx. \<exists>lst.
     loadCentralDirectory h (run\<lparr>zr_st := one_page sample_page 0 51\<rparr>) (one_page_archive 51 ctx) sample_format =
       Inr (run\<lparr>zr_st := one_page sample_page 3 51\<rparr>, one_page_archive 51 ctx, sample_format\<lparr>zf_fileHeaderList := lst\<rparr>) \<and>
     la_rep lst [Some (loaded sample_entry)]"
proof (intro allI)
  fix h :: "unit host" and run ctx
  have "ce97d170_containsData (one_page sample_page 0 51) (za_bufferList (one_page_archive 51 ctx)) (ucast (3 :: u32)) 48 =
      Inr (Some 1, one_page sample_page 3 51)"
    by (rule one_page_contains) simp_all
  moreover have "entry_ok sample_entry" by (simp add: entry_ok_def sample_entry_def)
  moreover have "holds sample_page ([0, 0, 0] @ entry_bytes sample_entry)"
    by (simp add: sample_page_def holds_def)
  ultimately show "\<exists>lst. loadCentralDirectory h (run\<lparr>zr_st := one_page sample_page 0 51\<rparr>) (one_page_archive 51 ctx) sample_format =
       Inr (run\<lparr>zr_st := one_page sample_page 3 51\<rparr>, one_page_archive 51 ctx, sample_format\<lparr>zf_fileHeaderList := lst\<rparr>) \<and>
     la_rep lst [Some (loaded sample_entry)]"
    using central_directory_roundtrip [of "run\<lparr>zr_st := one_page sample_page 0 51\<rparr>" "one_page_archive 51 ctx"
        sample_format 1 "one_page sample_page 3 51" _ sample_page "[0, 0, 0]" "[sample_entry]" "[]" "[]" h]
    by (simp add: sample_format_def sample_list_def one_page_def one_page_archive_def fb_get_def page_get_def la_rep_def)
qed

subsection \<open>A compressed file is written out\<close>

lemma output_crc_one:
  assumes "page_get st (ob_buffer ob) = Inr slab" and "holds slab ds" and "unat len = length ds"
    and "0 < length ds" and "length ds \<le> 32768"
  shows "c49f5b0d_crc32 st [ob] len = Inr (b7e0468d_crc32 ds 0)"
proof -
  have "unat (if len < of_nat SLABPOOL_SLAB_SIZE then len else of_nat SLABPOOL_SLAB_SIZE) = length ds"
    using assms(3,5) by (auto simp: SLABPOOL_SLAB_SIZE_def word_less_nat_alt)
  moreover have "read_cells slab 0 (length ds) = Inr ds"
    using read_cells_holds [of slab "[]" ds] assms(2) by simp
  moreover have "0 < len" using assms(3,4) by (simp add: word_less_nat_alt)
  ultimately show ?thesis using assms(1) by (simp add: c49f5b0d_crc32_def Let_def)
qed

text \<open>The system accepts what is written to the file: it can be created, written, stamped and closed.\<close>

definition accepts :: "'fs host \<Rightarrow> FileHeader \<Rightarrow> string \<Rightarrow> u32 \<Rightarrow> u8 list \<Rightarrow> bool" where
  "accepts h fileHeader name fd ds \<longleftrightarrow>
     h_open h name (or (or O_CREAT O_WRONLY) 0) FILE_DEFAULT_MODE = SysOk fd \<and>
     (\<exists>n. h_write h fd ds = SysOk n) \<and> (\<forall>times. h_futimes h fd times = SysOk ()) \<and> h_close h fd = SysOk ()"

definition stamp :: "'fs host \<Rightarrow> FileHeader \<Rightarrow> int" where
  "stamp h fileHeader =
     sint (a66923ff_convertTimeFromDOS (h_mktime h) (fh_lastModFileDate fileHeader) (fh_lastModFileTime fileHeader))"

lemma write_out_inflated:
  assumes "accepts h fileHeader name fd ds" and "page_get (zr_st run) (ob_buffer ob) = Inr slab"
    and "holds slab ds" and "unat (ob_length ob) = length ds"
  shows "write_out h run fileHeader name (write_inflated h name ob) =
    Inr (run\<lparr>zr_calls := zr_calls run @ [Created name fd, Written fd ds, Stamped fd (stamp h fileHeader), Closed fd]\<rparr>)"
proof -
  have "read_cells slab 0 (length ds) = Inr ds"
    using read_cells_holds [of slab "[]" ds] assms(3) by simp
  then show ?thesis
    using assms by (auto simp: write_out_def write_inflated_def e2f74138_createFile_def c49f5b0d_write_def
        e2f74138_writeFile_def e2f74138_setTimestamp_def e2f74138_closeFile_def accepts_def stamp_def Let_def)
qed

text \<open>Beside the calls: only the slab of the output and the pools are changed.\<close>

lemma extract_deflated:
  assumes "fh_compressMethod fileHeader = ZIP_METHOD_DEFLATE"
    and "ce97d170_containsData (zr_st run) (za_bufferList zipArchive)
           (ucast (fh_localHeaderOffset fileHeader + dataLength)) (fh_compressSize fileHeader) = Inr (p, st)"
    and "b426145b_acquireSlab (h_alloc h) (io_pools st) = Inr (Some a, pools)"
    and "b426145b_releaseSlab pools (Some a) = Inr pools'"
    and "\<forall>slab. page_chain (st\<lparr>pageBytes := (pageBytes st)(a \<mapsto> slab)\<rparr>) p (pg # pgs)"
    and "pageBytes st a = None \<or> (\<exists>slab. pageBytes st a = Some slab \<and> length slab = 32768)"
    and "fb_get st p = Inr fb" and "unat (fb_dataOffset fb) \<le> 4096" and "unat (fh_compressSize fileHeader) < 2 ^ 29"
    and "unat (fb_dataOffset fb) + unat (fh_compressSize fileHeader) + 8 \<le> length (concat (pg # pgs))"
    and "bits_of (drop (unat (fb_dataOffset fb)) (concat (pg # pgs))) = stream_bits blocks @ rest"
    and "length (stream_bits blocks) \<le> 8 * unat (fh_compressSize fileHeader)"
    and "blocks \<noteq> []" and "valid_stream [] blocks" and "expand_stream [] blocks = ds" and "ds \<noteq> []" and "length ds \<le> 32768"
    and "unat (fh_uncompressSize fileHeader) = length ds" and "fh_crc32 fileHeader = b7e0468d_crc32 ds 0"
    and "accepts h fileHeader name fd ds"
  shows "\<exists>m. extract_file h run zipArchive fileHeader name dataLength =
      Inr (run\<lparr>zr_st := st\<lparr>io_pools := pools', pageBytes := m\<rparr>, zr_calls := zr_calls run @
             [Created name fd, Written fd ds, Stamped fd (stamp h fileHeader), Closed fd]\<rparr>) \<and>
    (\<forall>q. q \<noteq> a \<longrightarrow> m q = pageBytes st q) \<and> (\<exists>slab. m a = Some slab \<and> length slab = 32768)"
proof -
  let ?len = "fh_compressSize fileHeader"
  from initInflate_rep [OF assms(3,5-10)] obtain i st1 where i: "d592eb82_initInflate (h_alloc h) st p ?len = Inr (i, st1)"
    "inf_rep st1 a i (stream_bits blocks @ rest) []" "left i = 8 * unat ?len" unfolding assms(11) by blast
  have st1: "st1 = st\<lparr>io_pools := pools, pageBytes := slab_memory (pageBytes st) (Some a)\<rparr>"
    using i(1) assms(3) by (auto simp: d592eb82_initInflate_def c49f5b0d_initOutputBuffer_def bnd_eq_Inr)
  have "length (expand_stream [] blocks) \<le> 32768" "length (stream_bits blocks) \<le> left i"
    using assms(12,15,17) i(3) by simp_all
  from inflate_stream [OF i(2) assms(13,14) this] obtain i' st2 where
    i': "d592eb82_inflate st1 i = Inr (True, i', st2)" "inf_rep st2 a i' rest ds" unfolding assms(15) by blast
  have "to a i" using i(2) by (simp add: inf_rep_def to_def)
  from inflate_frames [OF this, of st1] i'(1) have "framed a st1 st2" by (simp add: yields_def)
  then obtain m where m: "st2 = st\<lparr>io_pools := pools, pageBytes := m\<rparr>" "\<forall>q. q \<noteq> a \<longrightarrow> m q = pageBytes st q"
    unfolding framed_def st1 by (auto simp: slab_memory_def)
  then have pools2: "io_pools st2 = pools" by simp
  have whole: "\<exists>slab. m a = Some slab \<and> length slab = 32768" using i'(2) m(1) by (auto simp: inf_rep_def)
  from i'(2) obtain slab where slab: "page_get st2 (ob_buffer (in_outputBuffer i')) = Inr slab" "holds slab ds"
    "unat (ob_length (in_outputBuffer i')) = length ds" "ob_buffer (in_outputBuffer i') = Some a"
    by (auto simp: inf_rep_def page_get_def)
  have "c49f5b0d_crc32 st2 [in_outputBuffer i'] (fh_uncompressSize fileHeader) = Inr (fh_crc32 fileHeader)"
    using output_crc_one [OF slab(1,2) assms(18) _ assms(17)] assms(16,19) by simp
  moreover have "fh_uncompressSize fileHeader \<noteq> 0" using assms(16,18) by auto
  moreover have "ZIP_METHOD_DEFLATE \<noteq> ZIP_METHOD_STORED" by (simp add: ZIP_METHOD_DEFLATE_def ZIP_METHOD_STORED_def)
  moreover have "d592eb82_cleanUpInflate st2 i' = Inr (st2\<lparr>io_pools := pools'\<rparr>)"
    using slab(4) pools2 assms(4)
    by (simp add: d592eb82_cleanUpInflate_def c49f5b0d_cleanUpOutputBuffer_def release_slab_def)
  ultimately show ?thesis
    using assms(1,2) i(1) i'(1) write_out_inflated [OF assms(20), of "run\<lparr>zr_st := st2\<rparr>"] slab(1-3) m whole
    by (intro exI [of _ m]) (simp add: extract_file_def extract_inflated_def Let_def)
qed

text \<open>C7: a compressed file is extracted. If its data, in the chain of pages that containsData finds, are the
  deflate encoding of a text whose length and checksum the file header gives, then the file is created,
  exactly that text is written, and the file is stamped and closed.\<close>

theorem extract_deflated_file:
  assumes "fh_compressMethod fileHeader = ZIP_METHOD_DEFLATE"
    and "ce97d170_containsData (zr_st run) (za_bufferList zipArchive)
           (ucast (fh_localHeaderOffset fileHeader + dataLength)) (fh_compressSize fileHeader) = Inr (p, st)"
    and "b426145b_acquireSlab (h_alloc h) (io_pools st) = Inr (Some a, pools)"
    and "b426145b_releaseSlab pools (Some a) = Inr pools'"
    and "\<forall>slab. page_chain (st\<lparr>pageBytes := (pageBytes st)(a \<mapsto> slab)\<rparr>) p (pg # pgs)"
    and "pageBytes st a = None \<or> (\<exists>slab. pageBytes st a = Some slab \<and> length slab = 32768)"
    and "fb_get st p = Inr fb" and "unat (fb_dataOffset fb) \<le> 4096" and "unat (fh_compressSize fileHeader) < 2 ^ 29"
    and "unat (fb_dataOffset fb) + unat (fh_compressSize fileHeader) + 8 \<le> length (concat (pg # pgs))"
    and "bits_of (drop (unat (fb_dataOffset fb)) (concat (pg # pgs))) = stream_bits blocks @ rest"
    and "length (stream_bits blocks) \<le> 8 * unat (fh_compressSize fileHeader)"
    and "blocks \<noteq> []" and "valid_stream [] blocks" and "expand_stream [] blocks = ds" and "ds \<noteq> []" and "length ds \<le> 32768"
    and "unat (fh_uncompressSize fileHeader) = length ds" and "fh_crc32 fileHeader = b7e0468d_crc32 ds 0"
    and "accepts h fileHeader name fd ds"
  shows "\<exists>st'. extract_file h run zipArchive fileHeader name dataLength =
    Inr (run\<lparr>zr_st := st', zr_calls := zr_calls run @
           [Created name fd, Written fd ds, Stamped fd (stamp h fileHeader), Closed fd]\<rparr>)"
  using extract_deflated [OF assms] by blast

text \<open>An example: the four bytes of the sample block of Inflate.\<close>

definition sample_host :: "unit host" where
  "sample_host = \<lparr>h_env = \<lparr>programName = ''unzip'', strerror = (\<lambda>_. [])\<rparr>,
     h_kernel = \<lparr>io_submit = (\<lambda>_ _. SysErr 0), io_getevents = (\<lambda>_ _. SysErr 0), io_pages = (\<lambda>m. m)\<rparr>,
     h_alloc = (\<lambda>n. 32768 * Suc n), h_mapEndOfCDR = (\<lambda>r page p. Inr r), h_stat = (\<lambda>fs path. SysOk ()),
     h_mkdir = (\<lambda>fs path mode. (SysOk (), fs)), h_open = (\<lambda>path flags mode. SysOk 3),
     h_write = (\<lambda>fd bytes. SysOk (length bytes)), h_futimes = (\<lambda>fd times. SysOk ()), h_close = (\<lambda>fd. SysOk ()),
     h_mktime = (\<lambda>t. 0)\<rparr>"

definition sample_header :: FileHeader where
  "sample_header = (en_header sample_entry)\<lparr>fh_compressMethod := ZIP_METHOD_DEFLATE, fh_compressSize := 14,
     fh_uncompressSize := 4, fh_crc32 := b7e0468d_crc32 [97, 97, 97, 97] 0\<rparr>"

definition deflated_page :: "u8 block" where
  "deflated_page = map Some (sample_bytes @ replicate 4082 0)"

lemma extract_deflated_file_witness:
  "\<forall>(run :: unit zip_run) ctx. \<exists>st'.
     extract_file sample_host (run\<lparr>zr_st := one_page deflated_page 0 4096\<rparr>) (one_page_archive 4096 ctx) sample_header ''a'' 0 =
       Inr (run\<lparr>zr_st := st', zr_calls := zr_calls run @
              [Created ''a'' 3, Written 3 [97, 97, 97, 97], Stamped 3 (stamp sample_host sample_header), Closed 3]\<rparr>)"
proof (intro allI)
  fix run :: "unit zip_run" and ctx
  let ?alloc = "\<lambda>n. 32768 * Suc n" and ?page = "sample_bytes @ replicate 4082 0" and ?st = "one_page deflated_page 0 4096"
  let ?fb = "\<lparr>fb_buffer = Some 4096, fb_next = None, fb_fileOffset = 0, fb_dataOffset = 0, fb_numBytes = 4096\<rparr>"
  have "\<exists>p st' free'. b426145b_acquireSlab ?alloc initial_pools = Inr (Some p, st') \<and> slab_inv ?alloc st' free' [p] \<and>
      pagePool st' = pagePool initial_pools \<and> memoryPool st' = memoryPool initial_pools \<and>
      allocCalls st' \<le> Suc (allocCalls initial_pools) \<and> p \<notin> set []"
    by (rule acquireSlab_inv)
      (rule slab_inv_initial, simp_all add: slabs_apart_def SLABPOOL_SLAB_SIZE_def initial_pools_def, arith)
  then obtain a pools free' where a: "b426145b_acquireSlab ?alloc initial_pools = Inr (Some a, pools)"
    "slab_inv ?alloc pools free' [a]" by blast
  have apart: "slabs_apart ?alloc" by (simp add: slabs_apart_def SLABPOOL_SLAB_SIZE_def) arith
  obtain pools' where release: "b426145b_releaseSlab pools (Some a) = Inr pools'"
    using releaseSlab_inv [OF a(2) apart, of a] by auto
  have "a \<in> ?alloc ` {..<allocCalls pools}" using a(2) by (simp add: slab_inv_def Let_def) auto
  then have ne: "a \<noteq> 4096" by auto
  have len: "length ?page = 4096" by (simp add: sample_bytes_def)
  have g: "fb_get ?st (Some 1) = Inr ?fb" by (simp add: fb_get_def one_page_def)
  have chain: "\<forall>slab. page_chain (?st\<lparr>pageBytes := (pageBytes ?st)(a \<mapsto> slab)\<rparr>) (Some 1) [?page]"
    using ne len by (simp add: page_chain_Cons fb_get_def page_get_def one_page_def deflated_page_def)
  have bits: "bits_of (drop (unat (fb_dataOffset ?fb)) (concat [?page])) =
      stream_bits [sample_block] @ ([False, False, False] @ bits_of (replicate 4082 0))"
    using sample_stream by simp
  have "length (stream_bits [sample_block]) = length (bits_of sample_bytes) - 3" unfolding sample_stream by simp
  then have short: "length (stream_bits [sample_block]) \<le> 8 * unat (fh_compressSize sample_header)"
    by (simp add: sample_bytes_def sample_header_def)
  have data: "ce97d170_containsData (zr_st (run\<lparr>zr_st := ?st\<rparr>)) (za_bufferList (one_page_archive 4096 ctx))
      (ucast (fh_localHeaderOffset sample_header + 0)) (fh_compressSize sample_header) = Inr (Some 1, ?st)"
    using one_page_contains [of 0 14 4096 deflated_page 0 ctx] by (simp add: sample_header_def sample_entry_def)
  show "\<exists>st'. extract_file sample_host (run\<lparr>zr_st := ?st\<rparr>) (one_page_archive 4096 ctx) sample_header ''a'' 0 =
       Inr (run\<lparr>zr_st := st', zr_calls := zr_calls run @
              [Created ''a'' 3, Written 3 [97, 97, 97, 97], Stamped 3 (stamp sample_host sample_header), Closed 3]\<rparr>)"
    using extract_deflated_file [OF _ data _ release chain _ g _ _ _ bits short, of sample_host "[97, 97, 97, 97]" "''a''" 3]
      a(1) ne len sample_valid sample_text
    by (simp add: sample_header_def sample_host_def accepts_def one_page_def initial_state_def)
qed

subsection \<open>The end record is the last one\<close>

definition sig_at :: "u8 list \<Rightarrow> nat \<Rightarrow> bool" where
  "sig_at bs p \<longleftrightarrow> take 4 (drop p bs) = le32 ZIP_END_OF_CDR_SIG"

lemma rd32_sig:
  assumes "holds page bs" and "p + 4 \<le> length bs"
  shows "\<exists>w. rd32 page p = Inr w \<and> (w = ZIP_END_OF_CDR_SIG \<longleftrightarrow> sig_at bs p)"
proof -
  have r: "read_cells page p 4 = Inr (take 4 (drop p bs))"
    using read_in [of page "[]" bs "[]" p 4] assms by simp
  have "length (take 4 (drop p bs)) = 4" using assms(2) by simp
  from or_bytes_le32 [OF this] show ?thesis
    using r le32_value [of ZIP_END_OF_CDR_SIG] by (auto simp: rd32_def sig_at_def)
qed

text \<open>The backward scan finds the record that starts last: the answer is the greatest index, not above the
  one it starts from, at which the signature stands, or none if there is no such index.\<close>

theorem end_record_found:
  assumes "holds page bs" and "p + 4 \<le> length bs"
  shows "scan_back page p =
    Inr (if \<exists>q \<le> p. sig_at bs q then Some (GREATEST q. q \<le> p \<and> sig_at bs q) else None)"
  using assms
proof (induction p)
  case 0
  have "(GREATEST q. q \<le> 0 \<and> sig_at bs q) = 0" if "sig_at bs 0"
    using that by (intro Greatest_equality) auto
  with rd32_sig [OF 0] show ?case by auto
next
  case (Suc p)
  from rd32_sig [OF Suc.prems] obtain w where w: "rd32 page (Suc p) = Inr w" "w = ZIP_END_OF_CDR_SIG \<longleftrightarrow> sig_at bs (Suc p)" by blast
  show ?case
  proof (cases "sig_at bs (Suc p)")
    case True
    then have "(GREATEST q. q \<le> Suc p \<and> sig_at bs q) = Suc p" by (intro Greatest_equality) auto
    then show ?thesis using w True by auto
  next
    case False
    then have "q \<le> Suc p \<and> sig_at bs q \<longleftrightarrow> q \<le> p \<and> sig_at bs q" for q by (auto simp: le_Suc_eq)
    then show ?thesis using w False Suc by simp
  qed
qed

lemma end_record_found_witness:
  "scan_back (map Some ([1] @ le32 ZIP_END_OF_CDR_SIG @ [2] @ le32 ZIP_END_OF_CDR_SIG @ [3])) 7 = Inr (Some 6)"
proof -
  let ?bs = "[1] @ le32 ZIP_END_OF_CDR_SIG @ [2] @ le32 ZIP_END_OF_CDR_SIG @ [3]"
  have s: "sig_at ?bs 6" "\<not> sig_at ?bs 7" by (simp_all add: sig_at_def le32_def ZIP_END_OF_CDR_SIG_def)
  then have "(GREATEST q. q \<le> 7 \<and> sig_at ?bs q) = 6"
  proof (intro Greatest_equality)
    fix q assume "q \<le> 7 \<and> sig_at ?bs q"
    with s(2) have "q \<noteq> 7" "q \<le> 7" by auto
    then show "q \<le> 6" by simp
  qed simp
  moreover have "\<exists>q \<le> 7. sig_at ?bs q" using s(1) by (intro exI [of _ 6]) simp
  moreover have "holds (map Some ?bs) ?bs" "7 + 4 \<le> length ?bs" by (simp_all add: holds_def)
  ultimately show ?thesis
    using end_record_found [of "map Some ?bs" ?bs 7] by (simp only: if_True)
qed

end
