(* ===== verification/ZipFiles.thy ===== *)
theory ZipFiles
  imports ZipArchive
begin

text \<open>
  An archive that lies in one page: the central directory is loaded and every file is extracted, stored ones by copying, compressed
  ones through the decompressor. This puts together the buffers (\<open>FileBuffer\<close>), the list of headers (\<open>ListArray\<close>), the slabs
  (\<open>Pools\<close>), the decompressor (\<open>InflateDynamic\<close>), the directories of a path (\<open>Directory\<close>), the checksum (\<open>Bits\<close>) and the calls of
  the system (\<open>File\<close>, \<open>Time\<close>) the way compress/ziparchive.c does.
\<close>

subsection \<open>A buffer list of one page\<close>

text \<open>The buffer object is at \<open>b\<close>, the page at \<open>pg\<close> holds \<open>bytes\<close>, the first \<open>n\<close> of them from the file.\<close>

definition in_page :: "fb_state \<Rightarrow> FileBufferList \<Rightarrow> nat \<Rightarrow> nat \<Rightarrow> u8 list \<Rightarrow> u32 \<Rightarrow> bool" where
  "in_page st bufferList b pg bytes n \<longleftrightarrow>
     fl_length bufferList = 1 \<and> fl_fileOffset bufferList = 0 \<and> fl_numBytes bufferList = ucast n \<and>
     length bytes = 4096 \<and> unat n \<le> 4096 \<and> rd (fl_values bufferList) 0 = Inr (Some b) \<and> pageBytes st pg = Some (map Some bytes) \<and>
     (\<exists>k. fileBuffers st b = Some \<lparr>fb_buffer = Some pg, fb_next = None, fb_fileOffset = 0, fb_dataOffset = k, fb_numBytes = n\<rparr>)"

text \<open>The state after the search for a range that begins at \<open>offset\<close>.\<close>

definition looks_at :: "fb_state \<Rightarrow> nat \<Rightarrow> nat \<Rightarrow> u32 \<Rightarrow> u32 \<Rightarrow> fb_state" where
  "looks_at st b pg offset n = st\<lparr>fileBuffers := (fileBuffers st)(b \<mapsto>
     \<lparr>fb_buffer = Some pg, fb_next = None, fb_fileOffset = 0, fb_dataOffset = offset, fb_numBytes = n\<rparr>)\<rparr>"

lemma looks_at_simps [simp]:
  "io_pools (looks_at st b pg k n) = io_pools st" "pageBytes (looks_at st b pg k n) = pageBytes st"
  "fileBufferPool (looks_at st b pg k n) = fileBufferPool st"
  by (simp_all add: looks_at_def)

lemma looks_at_page: "in_page st bl b pg bytes n \<Longrightarrow> in_page (looks_at st b pg k n) bl b pg bytes n"
  by (auto simp: in_page_def looks_at_def)

lemma unat_ucast64: "unat (ucast (w :: u32) :: u64) = unat w"
  using unat_u32_lt [of w] by (simp add: unsigned_ucast_eq take_bit_nat_eq_self)

lemma unat_u16_lt: "unat (w :: u16) < 65536"
proof -
  have "unat w < 2 ^ LENGTH(16)" by (rule unsigned_less)
  then show ?thesis by simp
qed

lemma sint64_small:
  assumes "unat (w :: u64) < 9223372036854775808"
  shows "sint w = int (unat w)"
proof -
  have "uint w < 9223372036854775808" using assms unfolding uint_nat by linarith
  moreover have "- 9223372036854775808 \<le> uint w" by (rule order_trans [of _ 0]) simp_all
  ultimately have "sint w = uint w" by (simp add: sint_uint signed_take_bit_int_eq_self_iff)
  then show ?thesis by (simp only: uint_nat)
qed

lemma sle64: "unat (v :: u64) < 2 ^ 63 \<Longrightarrow> unat w < 2 ^ 63 \<Longrightarrow> v \<le>s w \<longleftrightarrow> unat v \<le> unat w"
  by (simp add: word_sle_eq sint64_small word_le_nat_alt [symmetric] word_le_def)

text \<open>The range is found, and the data offset is the place of it in the page.\<close>

lemma in_page_contains:
  fixes offset len :: u32
  assumes "in_page st bl b pg bytes n" and "unat offset + unat len \<le> unat n"
  shows "ce97d170_containsData st bl (ucast offset) len = Inr (Some b, looks_at st b pg offset n)"
proof -
  from assms(1) obtain k where b: "fl_length bl = 1" "fl_fileOffset bl = 0" "fl_numBytes bl = ucast n" "unat n \<le> 4096"
    "rd (fl_values bl) 0 = Inr (Some b)"
    "fileBuffers st b = Some \<lparr>fb_buffer = Some pg, fb_next = None, fb_fileOffset = 0, fb_dataOffset = k, fb_numBytes = n\<rparr>"
    by (auto simp: in_page_def)
  have sum: "unat (ucast offset + ucast len :: u64) = unat offset + unat len"
    using assms(2) b(4) by (subst unat_plus_fits) (simp_all add: unat_ucast64)
  have "(0 :: u64) \<le>s ucast offset" using assms(2) b(4) by (subst sle64) (simp_all add: unat_ucast64)
  moreover have "ucast offset + ucast len \<le>s (ucast n :: u64)"
    using assms(2) b(4) by (subst sle64) (unfold sum unat_ucast64, simp_all)
  moreover have "(ucast (ucast offset :: u64) :: u32) = offset" by (rule bit_word_eqI) (simp add: bit_simps)
  ultimately show ?thesis using b by (simp add: ce97d170_containsData_def fb_get_def fb_set_def looks_at_def Let_def)
qed

lemma looks_at_data:
  assumes "in_page st bl b pg bytes n"
  shows "data_at (looks_at st b pg offset n) (Some b) = Inr (map Some bytes, unat offset)"
    and "bytes = pre @ d @ post \<Longrightarrow> length pre = unat offset \<Longrightarrow> unat offset + length d = unat n \<Longrightarrow>
      fb_data (looks_at st b pg offset n) (Some b) [d]"
    and "a \<noteq> pg \<Longrightarrow> page_chain ((looks_at st b pg offset n)\<lparr>pageBytes := (pageBytes (looks_at st b pg offset n))(a \<mapsto> slab)\<rparr>) (Some b) [bytes]"
    and "\<exists>fb. fb_get (looks_at st b pg offset n) (Some b) = Inr fb \<and> fb_dataOffset fb = offset"
proof -
  have p: "pageBytes st pg = Some (map Some bytes)" "length bytes = 4096" using assms by (simp_all add: in_page_def)
  show "data_at (looks_at st b pg offset n) (Some b) = Inr (map Some bytes, unat offset)"
    using p by (simp add: data_at_def fb_get_def page_get_def looks_at_def)
  have h: "holds (map Some (pre @ d @ post)) (pre @ d)" using holds_append_cells [of "pre @ d" "map Some post"] by simp
  show "fb_data (looks_at st b pg offset n) (Some b) [d]"
    if "bytes = pre @ d @ post" "length pre = unat offset" "unat offset + length d = unat n"
    using that p h by (auto simp: page_get_def looks_at_def)
  show "page_chain ((looks_at st b pg offset n)\<lparr>pageBytes := (pageBytes (looks_at st b pg offset n))(a \<mapsto> slab)\<rparr>) (Some b) [bytes]"
    if "a \<noteq> pg"
    using that p by (simp add: page_chain_Cons fb_get_def page_get_def looks_at_def)
  show "\<exists>fb. fb_get (looks_at st b pg offset n) (Some b) = Inr fb \<and> fb_dataOffset fb = offset"
    by (simp add: fb_get_def looks_at_def)
qed

subsection \<open>The slab of the output\<close>

text \<open>The slab that the pool hands out next: a new one, or the one on top of the stack.\<close>

definition slab_next :: "(nat \<Rightarrow> nat) \<Rightarrow> pools \<Rightarrow> nat \<Rightarrow> bool" where
  "slab_next alloc pools a \<longleftrightarrow>
     (let sp = slabPool pools
      in numSlabsAlloc sp \<noteq> 0 \<and> (\<exists>xs. sa_rep (slabStack sp) xs \<and>
           (if numSlabsFree sp = 0 then a = alloc (allocCalls pools) \<and> numSlabsAlloc sp + 1 \<noteq> 0 \<and> length xs < 2 ^ 30
            else \<exists>ys. xs = ys @ [Some a] \<and> length ys < 2 ^ 30)))"

lemma slab_cycle:
  assumes "slab_next alloc pools a"
  shows "\<exists>p1 p2. b426145b_acquireSlab alloc pools = Inr (Some a, p1) \<and> b426145b_releaseSlab p1 (Some a) = Inr p2 \<and>
           slab_next alloc p2 a \<and> pagePool p2 = pagePool pools"
proof (cases "numSlabsFree (slabPool pools) = 0")
  case True
  let ?sp = "slabPool pools"
  from assms True obtain xs where x: "numSlabsAlloc ?sp \<noteq> 0" "sa_rep (slabStack ?sp) xs" "a = alloc (allocCalls pools)"
    "numSlabsAlloc ?sp + 1 \<noteq> 0" "length xs < 2 ^ 30" by (auto simp: slab_next_def Let_def)
  obtain s1 where s1: "f106c0ab_push (slabStack ?sp) (Some a) = Inr s1" "sa_rep s1 (xs @ [Some a])"
    using sa_push [OF x(2), of "Some a"] x(5) by auto
  obtain s2 where s2: "f106c0ab_pop s1 = Inr (Some a, s2)" "sa_rep s2 xs" using sa_pop_snoc [OF s1(2)] by blast
  obtain s3 where s3: "f106c0ab_push s2 (Some a) = Inr s3" "sa_rep s3 (xs @ [Some a])"
    using sa_push [OF s2(2), of "Some a"] x(5) by auto
  show ?thesis
    using x s1(1) s2(1) s3 True
    by (simp add: b426145b_acquireSlab_def populateSlabPool_def b426145b_releaseSlab_def slab_next_def Let_def) blast
next
  case False
  let ?sp = "slabPool pools"
  from assms False obtain ys where y: "numSlabsAlloc ?sp \<noteq> 0" "sa_rep (slabStack ?sp) (ys @ [Some a])" "length ys < 2 ^ 30"
    by (auto simp: slab_next_def Let_def)
  obtain s2 where s2: "f106c0ab_pop (slabStack ?sp) = Inr (Some a, s2)" "sa_rep s2 ys" using sa_pop_snoc [OF y(2)] by blast
  obtain s3 where s3: "f106c0ab_push s2 (Some a) = Inr s3" "sa_rep s3 (ys @ [Some a])"
    using sa_push [OF s2(2), of "Some a"] y(3) by auto
  show ?thesis
    using y s2(1) s3 False
    by (simp add: b426145b_acquireSlab_def b426145b_releaseSlab_def slab_next_def Let_def) blast
qed

text \<open>What holds between two files: the page of the archive, and the slab for the next output.\<close>

definition ready :: "'fs host \<Rightarrow> fb_state \<Rightarrow> FileBufferList \<Rightarrow> nat \<Rightarrow> nat \<Rightarrow> u8 list \<Rightarrow> u32 \<Rightarrow> nat \<Rightarrow> bool" where
  "ready h st bl b pg bytes n a \<longleftrightarrow>
     in_page st bl b pg bytes n \<and> a \<noteq> pg \<and> slab_next (h_alloc h) (io_pools st) a \<and>
     (pageBytes st a = None \<or> (\<exists>slab. pageBytes st a = Some slab \<and> length slab = 32768))"

definition kept :: "fb_state \<Rightarrow> fb_state \<Rightarrow> bool" where
  "kept st st' \<longleftrightarrow> pagePool (io_pools st') = pagePool (io_pools st) \<and> fileBufferPool st' = fileBufferPool st"

lemma kept_refl [simp]: "kept st st"
  by (simp add: kept_def)

lemma kept_trans: "kept st st1 \<Longrightarrow> kept st1 st2 \<Longrightarrow> kept st st2"
  by (simp add: kept_def)

lemma kept_looks_at [simp]: "kept st (looks_at st' b pg k n) = kept st st'"
  by (simp add: kept_def)

lemma ready_looks_at: "ready h st bl b pg bytes n a \<Longrightarrow> ready h (looks_at st b pg k n) bl b pg bytes n a"
  by (simp add: ready_def looks_at_page)

subsection \<open>A file in the archive\<close>

record archive_file =
  af_entry :: entry
  af_extra :: "u8 list"
  af_packed :: "u8 list"
  af_data :: "u8 list"

abbreviation af_header :: "archive_file \<Rightarrow> FileHeader" where
  "af_header af \<equiv> en_header (af_entry af)"

definition af_name :: "archive_file \<Rightarrow> string" where
  "af_name af = map byte_char (en_name (af_entry af))"

definition local_fixed :: "archive_file \<Rightarrow> u8 list" where
  "local_fixed af = (let f = af_header af in
     le32 ZIP_FILE_LOCAL_HEADER_SIG @ le16 (fh_needToExtractVersion f) @ le16 (fh_bitFlags f) @
     le16 (fh_compressMethod f) @ le16 (fh_lastModFileTime f) @ le16 (fh_lastModFileDate f) @ le32 (fh_crc32 f) @
     le32 (fh_compressSize f) @ le32 (fh_uncompressSize f) @ le16 (fh_fileNameLen f) @ le16 (fh_extraFieldLen f))"

definition local_head :: "archive_file \<Rightarrow> u8 list" where
  "local_head af = local_fixed af @ en_name (af_entry af) @ af_extra af"

definition local_bytes :: "archive_file \<Rightarrow> u8 list" where
  "local_bytes af = local_head af @ af_packed af"

text \<open>The packed bytes are a stream of dynamic blocks that stands for the data, which fit into a slab.\<close>

definition deflated :: "u8 list \<Rightarrow> u8 list \<Rightarrow> bool" where
  "deflated packed ds \<longleftrightarrow> ds \<noteq> [] \<and> length ds \<le> 32768 \<and>
     (\<exists>blocks rest. bits_of packed = stream_bits blocks @ rest \<and> blocks \<noteq> [] \<and> valid_stream [] blocks \<and> expand_stream [] blocks = ds)"

text \<open>Its headers are those of the data, and begin at \<open>off\<close>; the extra field has the length that the central directory gives.\<close>

definition file_ok :: "nat \<Rightarrow> archive_file \<Rightarrow> bool" where
  "file_ok off af \<longleftrightarrow>
     entry_ok (af_entry af) \<and> af_packed af \<noteq> [] \<and> unat (fh_compressSize (af_header af)) = length (af_packed af) \<and>
     unat (fh_uncompressSize (af_header af)) = length (af_data af) \<and> fh_crc32 (af_header af) = b7e0468d_crc32 (af_data af) 0 \<and>
     unat (fh_localHeaderOffset (af_header af)) = off \<and> length (af_extra af) = length (en_extra (af_entry af)) \<and>
     (fh_compressMethod (af_header af) = ZIP_METHOD_STORED \<and> af_packed af = af_data af \<or>
      fh_compressMethod (af_header af) = ZIP_METHOD_DEFLATE \<and> deflated (af_packed af) (af_data af))"

fun files_from :: "nat \<Rightarrow> archive_file list \<Rightarrow> bool" where
  "files_from off [] = True"
| "files_from off (af # afs) = (file_ok off af \<and> files_from (off + length (local_bytes af)) afs)"

text \<open>The system takes the file, and the directories of its path are there.\<close>

definition host_takes :: "'fs host \<Rightarrow> 'fs \<Rightarrow> (archive_file \<Rightarrow> u32) \<Rightarrow> archive_file \<Rightarrow> bool" where
  "host_takes h fs fd af \<longleftrightarrow>
     accepts h (loaded (af_entry af)) (af_name af) (fd af) (af_data af) \<and> path_text (af_name af) \<and>
     count_list (af_name af) (CHR ''/'') < 8 \<and> (\<forall>p \<in> set (parents True (af_name af)). h_stat h fs p \<noteq> SysErr ENOENT)"

definition file_calls :: "'fs host \<Rightarrow> (archive_file \<Rightarrow> u32) \<Rightarrow> archive_file \<Rightarrow> call list" where
  "file_calls h fd af =
     [Created (af_name af) (fd af), Written (fd af) (af_data af), Stamped (fd af) (stamp h (loaded (af_entry af))), Closed (fd af)]"

lemma length_local_fixed [simp]: "length (local_fixed af) = 30"
  by (simp add: local_fixed_def Let_def)

lemma read_local_ok:
  assumes "holds page (pre @ local_bytes af @ post)" and "file_ok off af"
  shows "\<exists>lf. read_local page (length pre) = Inr lf" and "rd32 page (length pre) = Inr ZIP_FILE_LOCAL_HEADER_SIG"
proof -
  let ?f = "af_header af"
  have h: "holds page (pre @ local_fixed af @ (en_name (af_entry af) @ af_extra af @ af_packed af @ post))"
    using assms(1) by (simp add: local_bytes_def local_head_def)
  note r16 = rd16_in [OF h] and r32 = rd32_in [OF h]
  have f: "rd32 page (length pre) = Inr ZIP_FILE_LOCAL_HEADER_SIG"
    using r32 [of 0] by (simp add: local_fixed_def Let_def)
  have fixed: "rd16 page (length pre + 4) = Inr (fh_needToExtractVersion ?f)" "rd16 page (length pre + 6) = Inr (fh_bitFlags ?f)"
    "rd16 page (length pre + 8) = Inr (fh_compressMethod ?f)" "rd16 page (length pre + 10) = Inr (fh_lastModFileTime ?f)"
    "rd16 page (length pre + 12) = Inr (fh_lastModFileDate ?f)" "rd32 page (length pre + 14) = Inr (fh_crc32 ?f)"
    "rd32 page (length pre + 18) = Inr (fh_compressSize ?f)" "rd32 page (length pre + 22) = Inr (fh_uncompressSize ?f)"
    "rd16 page (length pre + 26) = Inr (fh_fileNameLen ?f)" "rd16 page (length pre + 28) = Inr (fh_extraFieldLen ?f)"
    by (intro r16 r32; simp add: local_fixed_def Let_def)+
  have lens: "unat (fh_fileNameLen ?f) = length (en_name (af_entry af))" "unat (fh_extraFieldLen ?f) = length (af_extra af)"
    using assms(2) by (simp_all add: file_ok_def entry_ok_def)
  have name: "copy_field page (length pre + 30) (fh_fileNameLen ?f) =
      Inr (field_of (en_name (af_entry af)), length pre + 30 + length (en_name (af_entry af)))"
    using copy_field_ok [of page "pre @ local_fixed af" "en_name (af_entry af)" "af_extra af @ af_packed af @ post"] h lens by simp
  have extra: "copy_field page (length pre + 30 + length (en_name (af_entry af))) (fh_extraFieldLen ?f) =
      Inr (field_of (af_extra af), length pre + 30 + length (en_name (af_entry af)) + length (af_extra af))"
    using copy_field_ok [of page "pre @ local_fixed af @ en_name (af_entry af)" "af_extra af" "af_packed af @ post"] h lens
    by (simp add: add.assoc)
  show "rd32 page (length pre) = Inr ZIP_FILE_LOCAL_HEADER_SIG" by (rule f)
  show "\<exists>lf. read_local page (length pre) = Inr lf" using f fixed name extra by (simp add: read_local_def)
qed

subsection \<open>One file\<close>

text \<open>The data are in one buffer, so they are written with one call.\<close>

lemma write_one_piece:
  assumes "fb_data st p [d]" "unat len \<le> length d" "0 < unat len" "h_write h fd (take (unat len) d) = SysOk k"
  shows "ce97d170_write e (h_write h) st p fd len name = Inr ([], [take (unat len) d])"
proof -
  obtain nxt where n: "next_bytes st p len = Inr (take (unat len) d, if unat len < length d then len else of_nat (length d), nxt)"
    "length d < 2 ^ 32"
    using next_bytes_data [OF assms(1), of len] by blast
  have k: "(if unat len < length d then len else of_nat (length d)) = len"
  proof (cases "unat len < length d")
    case False
    then have "length d = unat len" using assms(2) by simp
    then show ?thesis by simp
  qed simp
  have pos: "0 < len" using assms(3) by (simp add: word_less_nat_alt)
  have w: "e2f74138_writeFile e (h_write h) fd (map Some (take (unat len) d)) (unat len) name = Inr ([], int k)"
    using assms(2,4) read_cells_all [OF holds_append_cells [of "take (unat len) d" "[]"]] by (simp add: e2f74138_writeFile_def)
  show ?thesis
    unfolding ce97d170_write_def
    by (subst repeat_until_unfold) (simp add: pos n(1) k w, subst repeat_until_unfold, simp)
qed

lemma name_block:
  assumes "en_name (af_entry af) \<noteq> []"
  shows "\<exists>rest. field_of (en_name (af_entry af)) = Some (map Some (af_name af @ [NUL]) @ rest)"
  using assms by (simp add: field_of_def af_name_def comp_def)

lemma make_none:
  "\<forall>p \<in> set ps. sys_stat fs p \<noteq> SysErr ENOENT \<Longrightarrow>
     fold_result (make_one e sys_stat sys_mkdir mode) (fs, out, made) ps = Inr (fs, out, made)"
  by (induction ps) (simp_all add: make_one_def)

lemma target_ready:
  assumes "host_takes h fs fd af"
  shows "\<exists>cells. (\<forall>r. zr_fs r = fs \<longrightarrow> make_dirs h r (fh_fileName (loaded (af_entry af))) True = Inr (r, cells)) \<and>
           c_string cells = Inr (af_name af)"
proof -
  have host: "path_text (af_name af)" "count_list (af_name af) (CHR ''/'') < 8"
    "\<forall>p \<in> set (parents True (af_name af)). h_stat h fs p \<noteq> SysErr ENOENT"
    using assms by (simp_all add: host_takes_def)
  have ne: "en_name (af_entry af) \<noteq> []" using host(1) by (auto simp: path_text_def af_name_def)
  from name_block [OF ne] obtain rest where rest: "fh_fileName (loaded (af_entry af)) = Some (map Some (af_name af @ [NUL]) @ rest)"
    by (auto simp: loaded_def)
  let ?cells = "map Some (af_name af @ [NUL]) @ rest"
  have "d0059b5b_makeDirectory (h_env h) (h_stat h) (h_mkdir h) fs (Some ?cells) DIR_DEFAULT_MODE True =
      Inr ((fs, [], False), ?cells)"
    unfolding makeDirectory_parents [OF host(1,2)]
      make_none [where sys_stat = "h_stat h" and fs = fs and ps = "parents True (af_name af)", OF host(3)] by simp
  then have "make_dirs h r (fh_fileName (loaded (af_entry af))) True = Inr (r, ?cells)" if "zr_fs r = fs" for r
    using that by (simp add: make_dirs_def rest)
  moreover have "c_string ?cells = Inr (af_name af)"
    using host(1) by (intro c_string_holds [OF holds_append_cells]) (simp add: path_text_def)
  ultimately show ?thesis by blast
qed

text \<open>The local header is read, and the file is extracted from behind it.\<close>

lemma process_reads_header:
  assumes page: "in_page (zr_st run) (za_bufferList za) b pg bytes n" "bytes = pre @ local_bytes af @ post"
      "length pre + length (local_bytes af) \<le> unat n"
    and ok: "file_ok (length pre) af" and host: "host_takes h (zr_fs run) fd af"
  shows "\<exists>dl. unat (fh_localHeaderOffset (loaded (af_entry af)) + dl) = length pre + length (local_head af) \<and>
    process_file h (run, za) (loaded (af_entry af)) =
      bnd (extract_file h (run\<lparr>zr_st := looks_at (zr_st run) b pg (fh_localHeaderOffset (loaded (af_entry af))) n\<rparr>) za
             (loaded (af_entry af)) (af_name af) dl) (\<lambda>run. Inr (run, za))"
proof -
  let ?f = "loaded (af_entry af)"
  let ?dl = "ZIP_FILE_LOCAL_HEADER_SIZE + ucast (fh_fileNameLen ?f) + ucast (fh_extraFieldLen ?f) :: u32"
  have f: "unat (fh_localHeaderOffset ?f) = length pre" "unat (fh_compressSize ?f) = length (af_packed af)" "af_packed af \<noteq> []"
    "unat (fh_fileNameLen ?f) = length (en_name (af_entry af))" "unat (fh_extraFieldLen ?f) = length (af_extra af)"
    using ok by (simp_all add: file_ok_def loaded_def entry_ok_def)
  have n: "unat n \<le> 4096" using page(1) by (simp add: in_page_def)
  have dl: "unat ?dl = length (local_head af)"
  proof -
    have u: "unat (ucast w :: u32) = unat w" for w :: u16
      using unat_u16_lt [of w] by (simp add: unsigned_ucast_eq take_bit_nat_eq_self)
    have "length (en_name (af_entry af)) < 65536" "length (af_extra af) < 65536"
      using f(4,5) unat_u16_lt [of "fh_fileNameLen ?f"] unat_u16_lt [of "fh_extraFieldLen ?f"] by simp_all
    then show ?thesis using f(4,5)
      by (simp add: local_head_def ZIP_FILE_LOCAL_HEADER_SIZE_def unat_word_ariths u)
  qed
  have "unat (fh_localHeaderOffset ?f) + unat ?dl \<le> unat n" using f(1) dl page(3) by (simp add: local_bytes_def)
  note found = in_page_contains [OF page(1) this]
  have sum: "unat (fh_localHeaderOffset ?f + ?dl) = length pre + length (local_head af)"
    using f(1) dl page(3) n by (subst unat_plus_fits) (simp_all add: local_bytes_def)
  have "holds (map Some bytes) (pre @ local_bytes af @ post)" using page(2) by (simp add: holds_def)
  from read_local_ok [OF this ok] obtain lf where lf: "read_local (map Some bytes) (length pre) = Inr lf"
    "rd32 (map Some bytes) (length pre) = Inr ZIP_FILE_LOCAL_HEADER_SIG" by blast
  obtain cells where cells: "\<forall>r. zr_fs r = zr_fs run \<longrightarrow> make_dirs h r (fh_fileName ?f) True = Inr (r, cells)"
    "c_string cells = Inr (af_name af)" using target_ready [OF host] by blast
  have "fh_compressSize ?f \<noteq> 0" using f(2,3) by auto
  then have "process_file h (run, za) ?f =
      bnd (extract_file h (run\<lparr>zr_st := looks_at (zr_st run) b pg (fh_localHeaderOffset ?f) n\<rparr>) za ?f (af_name af) ?dl) (\<lambda>run. Inr (run, za))"
    using found lf cells looks_at_data(1) [OF page(1), of "fh_localHeaderOffset ?f"] f(1)
    by (simp add: process_file_def load_range_def Let_def)
  then show ?thesis using sum by blast
qed

lemma extract_stored_file:
  assumes page: "in_page (zr_st run) (za_bufferList za) b pg bytes n" "bytes = pre @ local_bytes af @ post"
      "length pre + length (local_bytes af) \<le> unat n"
    and ok: "file_ok (length pre) af" "fh_compressMethod (af_header af) = ZIP_METHOD_STORED" and host: "host_takes h fs fd af"
    and dl: "unat (fh_localHeaderOffset (loaded (af_entry af)) + dl) = length pre + length (local_head af)"
  shows "\<exists>k. extract_file h run za (loaded (af_entry af)) (af_name af) dl =
    Inr (run\<lparr>zr_st := looks_at (zr_st run) b pg k n, zr_calls := zr_calls run @ file_calls h fd af\<rparr>)"
proof -
  let ?f = "loaded (af_entry af)" and ?k = "fh_localHeaderOffset (loaded (af_entry af)) + dl"
  let ?st = "looks_at (zr_st run) b pg ?k n"
  have "ZIP_METHOD_DEFLATE \<noteq> ZIP_METHOD_STORED" by (simp add: ZIP_METHOD_DEFLATE_def ZIP_METHOD_STORED_def)
  then have f: "fh_compressMethod ?f = ZIP_METHOD_STORED" "unat (fh_compressSize ?f) = length (af_data af)"
    "unat (fh_uncompressSize ?f) = length (af_data af)" "fh_crc32 ?f = b7e0468d_crc32 (af_data af) 0" "af_packed af = af_data af" "af_data af \<noteq> []"
    using ok by (auto simp: file_ok_def loaded_def)
  have "unat ?k + unat (fh_compressSize ?f) \<le> unat n" using f(2,5) dl page(3) by (simp add: local_bytes_def)
  note found = in_page_contains [OF page(1) this]
  let ?d = "take (unat n - unat ?k) (af_data af @ post)"
  have page2: "bytes = (pre @ local_head af) @ ?d @ drop (unat n - unat ?k) (af_data af @ post)"
    unfolding append_take_drop_id using page(2) f(5) by (simp add: local_bytes_def)
  have len: "length bytes = 4096" "unat n \<le> 4096" using page(1) by (simp_all add: in_page_def)
  have dlen: "unat ?k + length ?d = unat n" using dl page(2,3) len f(5) by (simp add: local_bytes_def)
  have data: "fb_data ?st (Some b) [?d]"
    by (rule looks_at_data(2) [OF page(1) page2 _ dlen]) (simp add: dl)
  have fits: "length (af_data af) \<le> length ?d" using dlen dl page(3) f(5) by (simp add: local_bytes_def)
  have "length (af_data af) \<le> unat n - unat ?k" using dl page(3) f(5) by (simp add: local_bytes_def)
  then have tk: "take (length (af_data af)) ?d = af_data af" by simp
  have crc: "ce97d170_crc32 ?st (Some b) (fh_uncompressSize ?f) = Inr (fh_crc32 ?f)"
    using crc32_chain [OF data, of "fh_uncompressSize ?f"] f(3,4,6) fits tk by simp
  have acc: "accepts h ?f (af_name af) (fd af) (af_data af)" using host by (simp add: host_takes_def)
  then obtain m where m: "h_write h (fd af) (af_data af) = SysOk m" by (auto simp: accepts_def)
  have wrt: "ce97d170_write (h_env h) (h_write h) ?st (Some b) (fd af) (fh_uncompressSize ?f) (af_name af) = Inr ([], [af_data af])"
    using write_one_piece [OF data, of "fh_uncompressSize ?f" h "fd af" m] f(3,6) fits tk m by simp
  have out: "write_out h r ?f (af_name af) (write_stored h ?f (af_name af) (Some b)) =
      Inr (r\<lparr>zr_calls := zr_calls r @ file_calls h fd af\<rparr>)" if "zr_st r = ?st" for r
    using acc wrt that
    by (auto simp: write_out_def write_stored_def accepts_def e2f74138_createFile_def e2f74138_setTimestamp_def e2f74138_closeFile_def
        file_calls_def stamp_def Let_def)
  show ?thesis
    using f(1) found crc out by (intro exI [of _ ?k]) (simp add: extract_file_def extract_stored_def Let_def)
qed

lemma extract_deflated_one:
  assumes state: "ready h (zr_st run) (za_bufferList za) b pg bytes n a" "bytes = pre @ local_bytes af @ post"
      "length pre + length (local_bytes af) \<le> unat n" "8 \<le> length post"
    and ok: "file_ok (length pre) af" "fh_compressMethod (af_header af) = ZIP_METHOD_DEFLATE" and host: "host_takes h fs fd af"
    and dl: "unat (fh_localHeaderOffset (loaded (af_entry af)) + dl) = length pre + length (local_head af)"
  shows "\<exists>st. extract_file h run za (loaded (af_entry af)) (af_name af) dl =
      Inr (run\<lparr>zr_st := st, zr_calls := zr_calls run @ file_calls h fd af\<rparr>) \<and>
    ready h st (za_bufferList za) b pg bytes n a \<and> kept (zr_st run) st"
proof -
  let ?f = "loaded (af_entry af)" and ?k = "fh_localHeaderOffset (loaded (af_entry af)) + dl"
  let ?st = "looks_at (zr_st run) b pg ?k n"
  have page: "in_page (zr_st run) (za_bufferList za) b pg bytes n" "a \<noteq> pg" "slab_next (h_alloc h) (io_pools ?st) a"
    "pageBytes ?st a = None \<or> (\<exists>slab. pageBytes ?st a = Some slab \<and> length slab = 32768)"
    using state(1) by (auto simp: ready_def)
  have "ZIP_METHOD_DEFLATE \<noteq> ZIP_METHOD_STORED" by (simp add: ZIP_METHOD_DEFLATE_def ZIP_METHOD_STORED_def)
  then have f: "fh_compressMethod ?f = ZIP_METHOD_DEFLATE" "unat (fh_compressSize ?f) = length (af_packed af)"
    "unat (fh_uncompressSize ?f) = length (af_data af)" "fh_crc32 ?f = b7e0468d_crc32 (af_data af) 0" "deflated (af_packed af) (af_data af)"
    using ok by (auto simp: file_ok_def loaded_def)
  obtain blocks rest where blocks: "bits_of (af_packed af) = stream_bits blocks @ rest" "blocks \<noteq> []" "valid_stream [] blocks"
    "expand_stream [] blocks = af_data af" "af_data af \<noteq> []" "length (af_data af) \<le> 32768" using f(5) by (auto simp: deflated_def)
  have len: "length bytes = 4096" "unat n \<le> 4096" using page(1) by (simp_all add: in_page_def)
  have "unat ?k + unat (fh_compressSize ?f) \<le> unat n" using f(2) dl state(3) by (simp add: local_bytes_def)
  note found = in_page_contains [OF page(1) this]
  obtain p1 p2 where slab: "b426145b_acquireSlab (h_alloc h) (io_pools ?st) = Inr (Some a, p1)"
    "b426145b_releaseSlab p1 (Some a) = Inr p2" "slab_next (h_alloc h) p2 a" "pagePool p2 = pagePool (io_pools ?st)"
    using slab_cycle [OF page(3)] by blast
  have chain: "\<forall>slab. page_chain (?st\<lparr>pageBytes := (pageBytes ?st)(a \<mapsto> slab)\<rparr>) (Some b) [bytes]"
    using looks_at_data(3) [OF page(1,2)] by blast
  obtain fb where fb: "fb_get ?st (Some b) = Inr fb" "fb_dataOffset fb = ?k" using looks_at_data(4) [OF page(1)] by blast
  have room: "unat ?k + unat (fh_compressSize ?f) + 8 \<le> length (concat [bytes])"
    using f(2) dl state(2,4) by (simp add: local_bytes_def)
  have "drop (unat ?k) bytes = af_packed af @ post" unfolding dl using state(2) by (simp add: local_bytes_def)
  then have bits: "bits_of (drop (unat ?k) (concat [bytes])) = stream_bits blocks @ (rest @ bits_of post)" using blocks(1) by simp
  have "length (bits_of (af_packed af)) = length (stream_bits blocks @ rest)" using blocks(1) by simp
  then have short: "length (stream_bits blocks) \<le> 8 * unat (fh_compressSize ?f)" using f(2) by simp
  have small: "unat ?k \<le> 4096" "unat (fh_compressSize ?f) < 2 ^ 29" using room len by simp_all
  have acc: "accepts h ?f (af_name af) (fd af) (af_data af)" using host by (simp add: host_takes_def)
  obtain m where m: "extract_file h run za ?f (af_name af) dl =
      Inr (run\<lparr>zr_st := ?st\<lparr>io_pools := p2, pageBytes := m\<rparr>, zr_calls := zr_calls run @ file_calls h fd af\<rparr>)"
    "\<forall>q. q \<noteq> a \<longrightarrow> m q = pageBytes ?st q" "\<exists>slab. m a = Some slab \<and> length slab = 32768"
    using extract_deflated [OF f(1) found slab(1,2) chain page(4) fb(1) _ small(2) _ _ short blocks(2-6) f(3,4) acc]
      small(1) room bits unfolding fb(2) file_calls_def by blast
  have "in_page (?st\<lparr>io_pools := p2, pageBytes := m\<rparr>) (za_bufferList za) b pg bytes n"
    using looks_at_page [OF page(1), of ?k] m(2) page(2) by (simp add: in_page_def)
  then have "ready h (?st\<lparr>io_pools := p2, pageBytes := m\<rparr>) (za_bufferList za) b pg bytes n a"
    using page(2) slab(3) m(3) by (simp add: ready_def)
  moreover have "kept (zr_st run) (?st\<lparr>io_pools := p2, pageBytes := m\<rparr>)" using slab(4) by (simp add: kept_def)
  ultimately show ?thesis using m(1) by blast
qed

lemma process_one:
  assumes state: "ready h (zr_st run) (za_bufferList za) b pg bytes n a" "bytes = pre @ local_bytes af @ post"
      "length pre + length (local_bytes af) \<le> unat n" "8 \<le> length post"
    and ok: "file_ok (length pre) af" and host: "host_takes h (zr_fs run) fd af"
  shows "\<exists>st. process_file h (run, za) (loaded (af_entry af)) =
      Inr (run\<lparr>zr_st := st, zr_calls := zr_calls run @ file_calls h fd af\<rparr>, za) \<and>
    ready h st (za_bufferList za) b pg bytes n a \<and> kept (zr_st run) st"
proof -
  let ?f = "loaded (af_entry af)"
  let ?run = "run\<lparr>zr_st := looks_at (zr_st run) b pg (fh_localHeaderOffset ?f) n\<rparr>"
  have page: "in_page (zr_st run) (za_bufferList za) b pg bytes n" using state(1) by (simp add: ready_def)
  obtain dl where dl: "unat (fh_localHeaderOffset ?f + dl) = length pre + length (local_head af)"
    "process_file h (run, za) ?f = bnd (extract_file h ?run za ?f (af_name af) dl) (\<lambda>run. Inr (run, za))"
    using process_reads_header [OF page state(2,3) ok host] by blast
  have rdy: "ready h (zr_st ?run) (za_bufferList za) b pg bytes n a" using ready_looks_at [OF state(1)] by simp
  then have page': "in_page (zr_st ?run) (za_bufferList za) b pg bytes n" by (simp add: ready_def)
  consider "fh_compressMethod (af_header af) = ZIP_METHOD_STORED" | "fh_compressMethod (af_header af) = ZIP_METHOD_DEFLATE"
    using ok by (auto simp: file_ok_def)
  then obtain st where "extract_file h ?run za ?f (af_name af) dl =
      Inr (?run\<lparr>zr_st := st, zr_calls := zr_calls ?run @ file_calls h fd af\<rparr>)"
    "ready h st (za_bufferList za) b pg bytes n a" "kept (zr_st ?run) st"
  proof cases
    case 1
    from extract_stored_file [OF page' state(2,3) ok 1 host dl(1)] obtain k where
      "extract_file h ?run za ?f (af_name af) dl =
         Inr (?run\<lparr>zr_st := looks_at (zr_st ?run) b pg k n, zr_calls := zr_calls ?run @ file_calls h fd af\<rparr>)" by blast
    then show thesis using ready_looks_at [OF rdy, of k] by (intro that [of "looks_at (zr_st ?run) b pg k n"]) (simp_all add: kept_def)
  next
    case 2
    from extract_deflated_one [OF rdy state(2-4) ok 2 host dl(1)] show thesis by (elim exE conjE) (rule that)
  qed
  then show ?thesis using dl(2) by (auto simp: kept_def)
qed

subsection \<open>All files\<close>

lemma files_entry_ok: "files_from off afs \<Longrightarrow> af \<in> set afs \<Longrightarrow> entry_ok (af_entry af)"
  by (induction off afs rule: files_from.induct) (auto simp: file_ok_def)

lemma process_all:
  assumes "ready h (zr_st run) (za_bufferList za) b pg bytes n a" "bytes = pre @ concat (map local_bytes afs) @ post"
    and "length (pre @ concat (map local_bytes afs)) \<le> unat n" "8 \<le> length post"
    and "files_from (length pre) afs" "\<forall>af \<in> set afs. host_takes h (zr_fs run) fd af"
    and "la_rep lst (xs @ map (\<lambda>af. Some (loaded (af_entry af))) afs)" "length xs + length afs < 2 ^ 29"
  shows "\<exists>st. fold_result (\<lambda>s i. bnd (b196167f_get lst (of_nat i)) (\<lambda>p. bnd (deref p) (process_file h s))) (run, za)
      [length xs..<length xs + length afs] =
    Inr (run\<lparr>zr_st := st, zr_calls := zr_calls run @ concat (map (file_calls h fd) afs)\<rparr>, za) \<and>
    ready h st (za_bufferList za) b pg bytes n a \<and> kept (zr_st run) st"
  using assms
proof (induction afs arbitrary: run pre xs)
  case Nil
  then show ?case by (intro exI [of _ "zr_st run"]) simp
next
  case (Cons af afs)
  let ?f = "loaded (af_entry af)" and ?post = "concat (map local_bytes afs) @ post"
  from process_one [OF Cons.prems(1), of pre af ?post fd] Cons.prems(2-6) obtain st1 where st1:
    "process_file h (run, za) ?f = Inr (run\<lparr>zr_st := st1, zr_calls := zr_calls run @ file_calls h fd af\<rparr>, za)"
    "ready h st1 (za_bufferList za) b pg bytes n a" "kept (zr_st run) st1" by auto
  let ?run = "run\<lparr>zr_st := st1, zr_calls := zr_calls run @ file_calls h fd af\<rparr>"
  have i: "unat (of_nat (length xs) :: u32) = length xs" using Cons.prems(8) by (simp add: unat_of_nat)
  have get: "b196167f_get lst (of_nat (length xs)) = Inr (Some ?f)"
    using la_get [OF Cons.prems(7), of "of_nat (length xs)"] by (simp add: i)
  have "[length xs..<length xs + length (af # afs)] = length xs # [length (xs @ [Some ?f])..<length (xs @ [Some ?f]) + length afs]"
    by (subst upt_conv_Cons) simp_all
  moreover have "\<exists>st. fold_result (\<lambda>s i. bnd (b196167f_get lst (of_nat i)) (\<lambda>p. bnd (deref p) (process_file h s))) (?run, za)
      [length (xs @ [Some ?f])..<length (xs @ [Some ?f]) + length afs] =
    Inr (?run\<lparr>zr_st := st, zr_calls := zr_calls ?run @ concat (map (file_calls h fd) afs)\<rparr>, za) \<and>
    ready h st (za_bufferList za) b pg bytes n a \<and> kept (zr_st ?run) st"
    using Cons.prems st1(2) by (intro Cons.IH [where pre = "pre @ local_bytes af"]) simp_all
  ultimately show ?case using get st1(1,3) by (auto simp del: of_nat_Suc intro: kept_trans)
qed

definition central_bytes :: "archive_file list \<Rightarrow> u8 list" where
  "central_bytes afs = concat (map entry_bytes (map af_entry afs))"

text \<open>The archive: the local headers and data in order, then the central directory, which the record at the end describes.\<close>

definition archive_bytes :: "archive_file list \<Rightarrow> u8 list" where
  "archive_bytes afs = concat (map local_bytes afs) @ central_bytes afs"

definition describes :: "EndOfCDR \<Rightarrow> archive_file list \<Rightarrow> bool" where
  "describes r afs \<longleftrightarrow>
     unat (ec_startOffset r) = length (concat (map local_bytes afs)) \<and> unat (ec_size r) = length (central_bytes afs) \<and>
     unat (ec_totalEntries r) = length afs"

lemma load_archive:
  assumes rdy: "ready h (zr_st run) (za_bufferList za) b pg bytes n a" and bytes: "bytes = archive_bytes afs @ post"
    and "length (archive_bytes afs) \<le> unat n" and "files_from 0 afs" and cdr: "describes (zf_endOfCDR zf) afs"
    and "za_outputDir za = None" and "la_rep (zf_fileHeaderList zf) []"
  shows "\<exists>st lst. loadCentralDirectory h run za zf = Inr (run\<lparr>zr_st := st\<rparr>, za, zf\<lparr>zf_fileHeaderList := lst\<rparr>) \<and>
         ready h st (za_bufferList za) b pg bytes n a \<and> kept (zr_st run) st \<and>
         la_rep lst (map (\<lambda>af. Some (loaded (af_entry af))) afs)"
proof -
  let ?pre = "concat (map local_bytes afs)" and ?ens = "map af_entry afs"
  let ?st = "looks_at (zr_st run) b pg (ec_startOffset (zf_endOfCDR zf)) n"
  note cdr = cdr [unfolded describes_def]
  have page: "in_page (zr_st run) (za_bufferList za) b pg bytes n" using rdy by (simp add: ready_def)
  have few: "length afs < 2 ^ 29" using unat_u16_lt [of "ec_totalEntries (zf_endOfCDR zf)"] cdr by simp
  have "unat (ec_startOffset (zf_endOfCDR zf)) + unat (ec_size (zf_endOfCDR zf)) \<le> unat n"
    using assms(3) cdr by (simp add: archive_bytes_def)
  note found = in_page_contains [OF page this]
  have "holds (map Some bytes) (?pre @ concat (map entry_bytes ?ens) @ post)"
    using bytes by (simp add: holds_def archive_bytes_def central_bytes_def)
  moreover have "\<forall>en \<in> set ?ens. entry_ok en" using files_entry_ok [OF assms(4)] by auto
  moreover have "length [0..<length afs] = length ?ens" "length ([] :: FileHeader ptr list) + length ?ens < 2 ^ 29" using few by simp_all
  ultimately obtain lst where lst: "fold_result (header_step None (map Some bytes)) (zf_fileHeaderList zf, length ?pre) [0..<length afs] =
      Inr (lst, length (?pre @ concat (map entry_bytes ?ens)))" "la_rep lst ([] @ map (\<lambda>en. Some (loaded en)) ?ens)"
    using header_steps_ok [OF _ _ assms(7)] by blast
  have "loadCentralDirectory h run za zf = Inr (run\<lparr>zr_st := ?st\<rparr>, za, zf\<lparr>zf_fileHeaderList := lst\<rparr>)"
    using found lst(1) cdr assms(6) looks_at_data(1) [OF page, of "ec_startOffset (zf_endOfCDR zf)"]
    by (simp add: loadCentralDirectory_def load_range_def)
  then show ?thesis using ready_looks_at [OF rdy] lst(2) by (intro exI conjI) (assumption | simp add: comp_def)+
qed

lemma central_bytes_room: "afs \<noteq> [] \<Longrightarrow> 8 \<le> length (central_bytes afs)"
  by (cases afs) (simp_all add: central_bytes_def entry_bytes_def)

lemma process_archive:
  assumes "ready h (zr_st run) (za_bufferList za) b pg bytes n a" "bytes = archive_bytes afs @ post"
    and "length (archive_bytes afs) \<le> unat n" and "files_from 0 afs" "\<forall>af \<in> set afs. host_takes h (zr_fs run) fd af"
    and rep: "la_rep lst (map (\<lambda>af. Some (loaded (af_entry af))) afs)" and "length afs < 2 ^ 29"
  shows "\<exists>st. processFileHeaderList h run za lst =
           Inr (run\<lparr>zr_st := st, zr_calls := zr_calls run @ concat (map (file_calls h fd) afs)\<rparr>, za) \<and>
         ready h st (za_bufferList za) b pg bytes n a \<and> kept (zr_st run) st"
proof (cases "afs = []")
  case True
  then have "unat (la_length lst) = 0" using rep by (simp add: la_rep_def)
  then show ?thesis using assms(1) True by (intro exI [of _ "zr_st run"]) (simp add: processFileHeaderList_def)
next
  case False
  have len: "unat (la_length lst) = length afs" using rep by (simp add: la_rep_def)
  have rep': "la_rep lst ([] @ map (\<lambda>af. Some (loaded (af_entry af))) afs)" using rep by simp
  have "bytes = [] @ concat (map local_bytes afs) @ central_bytes afs @ post"
    "length ([] @ concat (map local_bytes afs)) \<le> unat n" "8 \<le> length (central_bytes afs @ post)" "files_from (length ([] :: u8 list)) afs"
    using assms(2,3,4) central_bytes_room [OF False] by (simp_all add: archive_bytes_def)
  from process_all [OF assms(1) this assms(5) rep'] show ?thesis
    using assms(7) by (simp add: processFileHeaderList_def len)
qed

subsection \<open>Properties\<close>

text \<open>C6: an archive that is in one page, local headers and data in order, then the central directory, is taken apart again: the
  directory is loaded, and for every file in order, whether stored or compressed with dynamic blocks, the system is asked to create it
  under its name, to write exactly its data, to set its time, and to close it; nothing else is called, and nothing is printed.\<close>

theorem archive_is_extracted:
  assumes "ready h (zr_st run) (za_bufferList za) b pg bytes n a" and "bytes = archive_bytes afs @ post"
    and "length (archive_bytes afs) \<le> unat n" and "files_from 0 afs" and "describes (zf_endOfCDR zf) afs"
    and "\<forall>af \<in> set afs. host_takes h (zr_fs run) fd af" and "za_outputDir za = None" and "la_rep (zf_fileHeaderList zf) []"
  shows "\<exists>st. bnd (loadCentralDirectory h run za zf) (\<lambda>(run, za, zf). processFileHeaderList h run za (zf_fileHeaderList zf)) =
           Inr (run\<lparr>zr_st := st, zr_calls := zr_calls run @ concat (map (file_calls h fd) afs)\<rparr>, za) \<and>
         ready h st (za_bufferList za) b pg bytes n a"
proof -
  obtain st lst where load: "loadCentralDirectory h run za zf = Inr (run\<lparr>zr_st := st\<rparr>, za, zf\<lparr>zf_fileHeaderList := lst\<rparr>)"
    "ready h st (za_bufferList za) b pg bytes n a" "la_rep lst (map (\<lambda>af. Some (loaded (af_entry af))) afs)"
    using load_archive [OF assms(1-5,7,8)] by blast
  have "length afs < 2 ^ 29" using assms(5) unat_u16_lt [of "ec_totalEntries (zf_endOfCDR zf)"] by (simp add: describes_def)
  from process_archive [OF _ assms(2-4) _ load(3) this, of h "run\<lparr>zr_st := st\<rparr>" za b pg a fd]
  show ?thesis using load(1,2) assms(6) by auto
qed

text \<open>An example: a stored file \<open>d/a\<close> with the three bytes 7, 8, 9, and a compressed file \<open>b\<close>, the sample block of \<open>Inflate\<close>.\<close>

definition sample_stored :: archive_file where
  "sample_stored = \<lparr>af_entry = sample_entry\<lparr>en_header := (en_header sample_entry)\<lparr>fh_compressSize := 3, fh_uncompressSize := 3,
       fh_fileNameLen := 3, fh_crc32 := b7e0468d_crc32 [7, 8, 9] 0\<rparr>, en_name := [100, 47, 97]\<rparr>,
     af_extra = [], af_packed = [7, 8, 9], af_data = [7, 8, 9]\<rparr>"

definition sample_packed :: archive_file where
  "sample_packed = \<lparr>af_entry = sample_entry\<lparr>en_header := (en_header sample_entry)\<lparr>fh_compressMethod := ZIP_METHOD_DEFLATE,
       fh_compressSize := 14, fh_uncompressSize := 4, fh_fileNameLen := 1, fh_crc32 := b7e0468d_crc32 [97, 97, 97, 97] 0,
       fh_localHeaderOffset := 36\<rparr>, en_name := [98]\<rparr>,
     af_extra = [], af_packed = sample_bytes, af_data = [97, 97, 97, 97]\<rparr>"

abbreviation sample_files :: "archive_file list" where
  "sample_files \<equiv> [sample_stored, sample_packed]"

lemma sample_names: "af_name sample_stored = ''d/a''" "af_name sample_packed = ''b''"
proof -
  have "char_of (100 :: nat) = CHR ''d''" "char_of (47 :: nat) = CHR ''/''" "char_of (97 :: nat) = CHR ''a''" "char_of (98 :: nat) = CHR ''b''"
    by code_simp+
  then show "af_name sample_stored = ''d/a''" "af_name sample_packed = ''b''"
    by (simp_all add: af_name_def sample_stored_def sample_packed_def sample_entry_def byte_char_def)
qed

lemma sample_lengths: "length (local_bytes sample_stored) = 36" "length (local_bytes sample_packed) = 45" "length (central_bytes sample_files) = 96"
  by (simp_all add: local_bytes_def local_head_def central_bytes_def entry_bytes_def sample_stored_def sample_packed_def
      sample_entry_def sample_bytes_def)

lemma sample_deflated: "deflated sample_bytes [97, 97, 97, 97]"
  unfolding deflated_def using sample_stream sample_valid sample_text
  by (intro conjI exI [of _ "[sample_block]"] exI [of _ "[False, False, False]"]) simp_all

lemma sample_files_ok: "files_from 0 sample_files"
proof -
  have "file_ok 0 sample_stored" by (simp add: file_ok_def entry_ok_def sample_stored_def sample_entry_def ZIP_METHOD_STORED_def)
  moreover have "file_ok 36 sample_packed"
    using sample_deflated by (simp add: file_ok_def entry_ok_def sample_packed_def sample_entry_def) (simp add: sample_bytes_def)
  ultimately show ?thesis by (simp add: sample_lengths)
qed

lemma sample_taken: "\<forall>af \<in> set sample_files. host_takes sample_host fs (\<lambda>_. 3) af"
  by (simp add: host_takes_def sample_names) (simp add: accepts_def sample_host_def path_text_def ENOENT_def)

definition sample_pools :: pools where
  "sample_pools = initial_pools\<lparr>slabPool := \<lparr>slabStack = \<lparr>sa_values = Some (fresh 8), sa_length = 0, sa_size = 8\<rparr>,
     numSlabsAlloc = 1, numSlabsFree = 0, numSlabsInUse = 1, numSlabsUsed = 1\<rparr>, allocCalls := 1\<rparr>"

lemma archive_is_extracted_witness:
  "\<forall>(run :: unit zip_run) ctx. \<exists>st.
     bnd (loadCentralDirectory sample_host
            (run\<lparr>zr_st := (one_page (map Some (archive_bytes sample_files @ replicate 3919 0)) 0 177)\<lparr>io_pools := sample_pools\<rparr>\<rparr>)
            (one_page_archive 177 ctx)
            (sample_format\<lparr>zf_endOfCDR := zero_EndOfCDR\<lparr>ec_startOffset := 81, ec_size := 96, ec_totalEntries := 2\<rparr>\<rparr>))
       (\<lambda>(run, za, zf). processFileHeaderList sample_host run za (zf_fileHeaderList zf)) =
     Inr (run\<lparr>zr_st := st, zr_calls := zr_calls run @ [Created ''d/a'' 3, Written 3 [7, 8, 9],
            Stamped 3 (stamp sample_host (loaded (af_entry sample_stored))), Closed 3,
            Created ''b'' 3, Written 3 [97, 97, 97, 97], Stamped 3 (stamp sample_host (loaded (af_entry sample_packed))), Closed 3]\<rparr>,
          one_page_archive 177 ctx)"
proof (intro allI)
  fix run :: "unit zip_run" and ctx
  let ?bytes = "archive_bytes sample_files @ replicate 3919 0"
  let ?run = "run\<lparr>zr_st := (one_page (map Some ?bytes) 0 177)\<lparr>io_pools := sample_pools\<rparr>\<rparr>"
  let ?zf = "sample_format\<lparr>zf_endOfCDR := zero_EndOfCDR\<lparr>ec_startOffset := 81, ec_size := 96, ec_totalEntries := 2\<rparr>\<rparr>"
  have len: "length (archive_bytes sample_files) = 177" using sample_lengths by (simp add: archive_bytes_def)
  have "slab_next (h_alloc sample_host) sample_pools 65536"
    by (simp add: slab_next_def sample_pools_def sample_host_def sa_rep_def)
  then have rdy: "ready sample_host (zr_st ?run) (za_bufferList (one_page_archive 177 ctx)) 1 4096 ?bytes 177 65536"
    using len by (simp add: ready_def in_page_def one_page_def one_page_archive_def rd_def)
  have calls: "concat (map (file_calls sample_host (\<lambda>_. 3)) sample_files) =
      [Created ''d/a'' 3, Written 3 [7, 8, 9], Stamped 3 (stamp sample_host (loaded (af_entry sample_stored))), Closed 3,
       Created ''b'' 3, Written 3 [97, 97, 97, 97], Stamped 3 (stamp sample_host (loaded (af_entry sample_packed))), Closed 3]"
    by (simp add: file_calls_def sample_names) (simp add: sample_stored_def sample_packed_def)
  have lst: "la_rep (zf_fileHeaderList ?zf) []" by (simp add: sample_format_def sample_list_def la_rep_def)
  have desc: "describes (zf_endOfCDR ?zf) sample_files" using sample_lengths by (simp add: describes_def)
  have "length (archive_bytes sample_files) \<le> unat (177 :: u32)" "za_outputDir (one_page_archive 177 ctx) = None"
    by (simp_all add: len one_page_archive_def)
  from archive_is_extracted [OF rdy refl this(1) sample_files_ok desc _ this(2) lst, of "\<lambda>_. 3"] sample_taken [of "zr_fs ?run"]
  show "\<exists>st. bnd (loadCentralDirectory sample_host ?run (one_page_archive 177 ctx) ?zf)
       (\<lambda>(run, za, zf). processFileHeaderList sample_host run za (zf_fileHeaderList zf)) =
     Inr (run\<lparr>zr_st := st, zr_calls := zr_calls run @ [Created ''d/a'' 3, Written 3 [7, 8, 9],
            Stamped 3 (stamp sample_host (loaded (af_entry sample_stored))), Closed 3,
            Created ''b'' 3, Written 3 [97, 97, 97, 97], Stamped 3 (stamp sample_host (loaded (af_entry sample_packed))), Closed 3]\<rparr>,
          one_page_archive 177 ctx)"
    unfolding calls by auto
qed

end
