(* ===== verification/ZipProgram.thy ===== *)
theory ZipProgram
  imports ZipFiles AsyncSystem
begin

text \<open>
  unzip of an archive that fits into a page, from the start of the program: the pools are empty, the last page of the file is read
  by the kernel, the record at its end is found, and the files are extracted. This puts together the pools (\<open>Pools\<close>), asynchronous
  I/O (\<open>Async\<close>) and the archive (\<open>ZipArchive\<close>, \<open>ZipFiles\<close>).
\<close>

subsection \<open>The first objects of the pools\<close>

text \<open>Pages and memory are taken without a change to the slabs, once there is a slab.\<close>

abbreviation same_slabs :: "pools \<Rightarrow> pools \<Rightarrow> bool" where
  "same_slabs p p' \<equiv> slabPool p' = slabPool p \<and> allocCalls p' = allocCalls p"

lemma slab_next_same: "same_slabs p p' \<Longrightarrow> slab_next alloc p a \<Longrightarrow> slab_next alloc p' a"
  unfolding slab_next_def by (elim conjE) (simp only:)

lemma take_page:
  assumes "sa_rep (pageStack (pagePool st)) (ps @ [p])" and "numPagesFree (pagePool st) \<noteq> 0"
  shows "\<exists>st'. f502a409_acquirePage alloc st = Inr (p, st') \<and> sa_rep (pageStack (pagePool st')) ps \<and>
           numPagesFree (pagePool st') = numPagesFree (pagePool st) - 1 \<and> memoryPool st' = memoryPool st \<and> same_slabs st st'"
proof -
  obtain stk where "f106c0ab_pop (pageStack (pagePool st)) = Inr (p, stk)" "sa_rep stk ps"
    using sa_pop_snoc [OF assms(1)] by blast
  moreover obtain b where "sa_values (pageStack (pagePool st)) = Some b" using assms(1) by (rule sa_repE)
  ultimately show ?thesis using assms(2) by (simp add: f502a409_acquirePage_def Let_def)
qed

text \<open>The first page is the last of the first slab.\<close>

lemma first_page:
  "\<exists>st'. f502a409_acquirePage alloc initial_pools = Inr (Some (alloc 0 + 28672), st') \<and>
     sa_rep (pageStack (pagePool st')) (map (\<lambda>i. Some (alloc 0 + i * 4096)) [0..<7]) \<and>
     numPagesFree (pagePool st') = 7 \<and> memoryPool st' = memoryPool initial_pools \<and> slab_next alloc st' (alloc 1)"
proof -
  obtain stk where stk: "f106c0ab_initStackArray (empty_stack :: nat StackArray) = Inr stk" "sa_rep stk []"
    using sa_init by blast
  obtain lst where lst: "b196167f_initListArray \<lparr>la_values = None, la_length = 0, la_size = 0\<rparr> = Inr (lst :: nat ListArray)" "la_rep lst []"
    using la_init by blast
  obtain slabs where slabs: "f106c0ab_push stk (Some (alloc 0)) = Inr slabs" "sa_rep slabs ([] @ [Some (alloc 0)])"
    using sa_push [OF stk(2)] by auto
  obtain slabs' where slabs': "f106c0ab_pop slabs = Inr (Some (alloc 0), slabs')" "sa_rep slabs' []"
    using sa_pop_snoc [OF slabs(2)] by blast
  obtain lst' where lst': "b196167f_add_x86 lst (Some (alloc 0)) = Inr lst'"
    using la_add_x86 [OF lst(2)] by auto
  obtain ps where ps: "fold_result f106c0ab_push stk (pages_of (alloc 0)) = Inr ps" "sa_rep ps ([] @ pages_of (alloc 0))"
    using sa.push_many [OF stk(2), of "pages_of (alloc 0)"] by (auto simp: pages_of_def)
  have "[0..<8] = [0..<7] @ [7 :: nat]" using upt_Suc_append [of 0 7] by simp
  then have pages: "[] @ pages_of (alloc 0) = map (\<lambda>i. Some (alloc 0 + i * 4096)) [0..<7] @ [Some (alloc 0 + 28672)]"
    by (simp add: pages_of_def MEMORY_PAGE_SIZE_def)
  obtain ps' where ps': "f106c0ab_pop ps = Inr (Some (alloc 0 + 28672), ps')"
      "sa_rep ps' (map (\<lambda>i. Some (alloc 0 + i * 4096)) [0..<7])"
    using sa_pop_snoc [of ps] ps(2) unfolding pages by blast
  have "\<exists>xs. sa_rep slabs' xs \<and> length xs < 2 ^ 30" using slabs'(2) by (intro exI [of _ "[]"]) simp
  then show ?thesis
    using stk(1) lst(1) slabs(1) slabs'(1) lst' ps(1) ps'
    by (simp add: f502a409_acquirePage_def initial_pools_def empty_stack_def populatePagePool_def b426145b_acquireSlab_def
        populateSlabPool_def slab_next_def Let_def)
qed

lemma first_memory:
  assumes "memoryPool st = memoryPool initial_pools" and "sa_rep (pageStack (pagePool st)) (ps @ [Some q])"
    and "numPagesFree (pagePool st) \<noteq> 0" and "0 < sz" "sz \<le> 4096"
  shows "\<exists>st'. f502a409_acquireMemory e alloc st sz = Inr (Some q, [], st') \<and> sa_rep (memPageStack (memoryPool st')) [Some q] \<and>
           numPageBytesUsed (memoryPool st') = sz \<and> numPageBytesFree (memoryPool st') = 4096 - sz \<and>
           sa_rep (pageStack (pagePool st')) ps \<and> same_slabs st st'"
proof -
  obtain stk where stk: "f106c0ab_initStackArray (empty_stack :: nat StackArray) = Inr stk" "sa_rep stk []"
    using sa_init by blast
  let ?st = "st\<lparr>memoryPool := memoryPool st\<lparr>memPageStack := stk\<rparr>\<rparr>"
  obtain st1 where st1: "f502a409_acquirePage alloc ?st = Inr (Some q, st1)" "sa_rep (pageStack (pagePool st1)) ps"
      "memoryPool st1 = memoryPool ?st" "same_slabs ?st st1"
    using take_page [of ?st ps "Some q" alloc] assms(2,3) by auto
  obtain stk' where stk': "f106c0ab_push stk (Some q) = Inr stk'" "sa_rep stk' [Some q]"
    using sa_push [OF stk(2)] by auto
  have "\<not> 4096 < sz" "sa_values (empty_stack :: nat StackArray) = None" using assms(5) by (simp_all add: empty_stack_def)
  then show ?thesis
    using stk(1) st1 stk' assms(1,4)
    by (simp add: f502a409_acquireMemory_def initial_pools_def MEMORY_PAGE_SIZE_def Let_def)
qed

lemma next_memory:
  assumes "sa_rep (memPageStack (memoryPool st)) (ms @ [Some q])" and "sz \<le> numPageBytesFree (memoryPool st)" and "sz \<le> 4096"
  shows "\<exists>st'. f502a409_acquireMemory e alloc st sz = Inr (Some (q + unat (numPageBytesUsed (memoryPool st))), [], st') \<and>
           pagePool st' = pagePool st \<and> same_slabs st st'"
proof -
  have "\<not> 4096 < sz" "\<not> numPageBytesFree (memoryPool st) < sz" using assms(2,3) by simp_all
  moreover obtain b where "sa_values (memPageStack (memoryPool st)) = Some b" using assms(1) by (rule sa_repE)
  ultimately show ?thesis
    using sa_peek_snoc [OF assms(1)]
    by (simp add: f502a409_acquireMemory_def MEMORY_PAGE_SIZE_def Let_def)
qed

text \<open>The first page for the data, the first buffer object and the first request, which share the page before it.\<close>

definition first_data :: "(nat \<Rightarrow> nat) \<Rightarrow> nat" where "first_data alloc = alloc 0 + 28672"
definition first_buffer :: "(nat \<Rightarrow> nat) \<Rightarrow> nat" where "first_buffer alloc = alloc 0 + 24576"
definition first_request :: "(nat \<Rightarrow> nat) \<Rightarrow> nat" where "first_request alloc = first_buffer alloc + 32"

abbreviation new_buffer :: "nat \<Rightarrow> FileBuffer" where
  "new_buffer p \<equiv> \<lparr>fb_buffer = Some p, fb_next = None, fb_fileOffset = 0, fb_dataOffset = 0, fb_numBytes = 0\<rparr>"

lemma first_FileBuffer:
  assumes "memoryPool (io_pools st) = memoryPool initial_pools" and "numPagesFree (pagePool (io_pools st)) = 7"
    and "sa_rep (pageStack (pagePool (io_pools st))) (map (\<lambda>i. Some (alloc 0 + i * 4096)) [0..<7])"
    and "fileBufferPool st = fileBufferPool initial_state"
  shows "\<exists>st'. ce97d170_acquireFileBuffer e alloc st (Some p) = Inr (Some (first_buffer alloc), st') \<and>
           fileBuffers st' = (fileBuffers st)(first_buffer alloc \<mapsto> new_buffer p) \<and>
           aioRequestPool st' = aioRequestPool st \<and> aioRequests st' = aioRequests st \<and> pageBytes st' = pageBytes st \<and>
           sa_rep (fbp_structStack (fileBufferPool st')) [] \<and>
           sa_rep (memPageStack (memoryPool (io_pools st'))) [Some (first_buffer alloc)] \<and>
           numPageBytesUsed (memoryPool (io_pools st')) = 32 \<and> numPageBytesFree (memoryPool (io_pools st')) = 4064 \<and>
           sa_rep (pageStack (pagePool (io_pools st'))) (map (\<lambda>i. Some (alloc 0 + i * 4096)) [0..<6]) \<and>
           same_slabs (io_pools st) (io_pools st')"
proof -
  obtain stk where stk: "f106c0ab_initStackArray (empty_stack :: nat StackArray) = Inr stk" "sa_rep stk []"
    using sa_init by blast
  have "[0..<7] = [0..<6] @ [6 :: nat]" using upt_Suc_append [of 0 6] by simp
  then have "sa_rep (pageStack (pagePool (io_pools st))) (map (\<lambda>i. Some (alloc 0 + i * 4096)) [0..<6] @ [Some (first_buffer alloc)])"
    using assms(3) by (simp add: first_buffer_def)
  from first_memory [OF assms(1) this, of sizeof_FileBuffer e alloc] assms(2) obtain pools where pools:
    "f502a409_acquireMemory e alloc (io_pools st) sizeof_FileBuffer = Inr (Some (first_buffer alloc), [], pools)"
    "sa_rep (memPageStack (memoryPool pools)) [Some (first_buffer alloc)]" "numPageBytesUsed (memoryPool pools) = 32"
    "numPageBytesFree (memoryPool pools) = 4064" "sa_rep (pageStack (pagePool pools)) (map (\<lambda>i. Some (alloc 0 + i * 4096)) [0..<6])"
    "same_slabs (io_pools st) pools"
    by (auto simp: sizeof_FileBuffer_def)
  have "sa_length stk = 0" using stk(2) by (auto elim!: sa_repE simp: unat_eq_0)
  then show ?thesis using stk pools assms(4)
    by (simp add: ce97d170_acquireFileBuffer_def initial_state_def empty_stack_def fb_set_def)
qed

lemma first_AIORequest:
  assumes "sa_rep (memPageStack (memoryPool (io_pools st))) [Some (first_buffer alloc)]"
    and "numPageBytesUsed (memoryPool (io_pools st)) = 32" "numPageBytesFree (memoryPool (io_pools st)) = 4064"
    and "aioRequestPool st = aioRequestPool initial_state"
  shows "\<exists>pools arp. f1207515_acquireAIORequest e alloc st =
             Inr (Some (first_request alloc), st\<lparr>io_pools := pools, aioRequestPool := arp\<rparr>) \<and>
           pagePool pools = pagePool (io_pools st) \<and> sa_rep (arp_structStack arp) [] \<and> same_slabs (io_pools st) pools"
proof -
  obtain stk where stk: "f106c0ab_initStackArray (empty_stack :: nat StackArray) = Inr stk" "sa_rep stk []"
    using sa_init by blast
  have "sa_rep (memPageStack (memoryPool (io_pools st))) ([] @ [Some (first_buffer alloc)])" using assms(1) by simp
  from next_memory [OF this, of sizeof_AIORequest e alloc] assms(2,3) obtain pools where pools:
    "f502a409_acquireMemory e alloc (io_pools st) sizeof_AIORequest = Inr (Some (first_request alloc), [], pools)"
    "pagePool pools = pagePool (io_pools st)" "same_slabs (io_pools st) pools"
    by (auto simp: sizeof_AIORequest_def first_request_def)
  have "sa_length stk = 0" using stk(2) by (auto elim!: sa_repE simp: unat_eq_0)
  then show ?thesis using stk pools assms(4)
    by (intro exI [of _ pools] exI [of _ "\<lparr>arp_structStack = stk, numAIORequestAlloc = 1, numAIORequestFree = 0,
        numAIORequestInUse = 1, numAIORequestUsed = 1\<rparr>"])
      (simp add: f1207515_acquireAIORequest_def initial_state_def empty_stack_def)
qed

subsection \<open>The first read\<close>

text \<open>The kernel has read the file into the page by the time its event is there.\<close>

definition kernel_reads :: "kernel \<Rightarrow> (nat \<Rightarrow> nat) \<Rightarrow> AIOContext \<Rightarrow> u8 block \<Rightarrow> u32 \<Rightarrow> bool" where
  "kernel_reads k alloc ctx page n \<longleftrightarrow>
     (\<exists>m. io_submit k (ctx_id ctx) [Some (first_request alloc)] = SysOk m) \<and>
     (\<exists>ev. io_getevents k (ctx_id ctx) 1 = SysOk [ev] \<and> ev_obj ev = Some (first_request alloc) \<and> ev_res ev = ucast n) \<and>
     (\<forall>store. io_pages k store = store(first_data alloc \<mapsto> page))"

lemma read_first:
  assumes "qb_rep c (requestQueue ctx) []" and "0 < c" and "len \<le> 4096" and "aio_file_offset f = 0"
    and "length (requestList (aioTicket f)) = 8" and "length (eventList (aioTicket f)) = 8" and "kernel_reads k alloc ctx page n"
  shows "\<exists>st ctx' f'. ce97d170_readFileBuffer e k alloc initial_state ctx f len = Inr ([], Some (first_buffer alloc), st, ctx', f') \<and>
           fileBuffers st = [first_buffer alloc \<mapsto> (new_buffer (first_data alloc))\<lparr>fb_numBytes := n\<rparr>] \<and>
           pageBytes st = [first_data alloc \<mapsto> page] \<and> fileSize f' = fileSize f \<and> aio_fd f' = aio_fd f \<and> fileName f' = fileName f \<and>
           sa_rep (fbp_structStack (fileBufferPool st)) [] \<and>
           sa_rep (pageStack (pagePool (io_pools st))) (map (\<lambda>i. Some (alloc 0 + i * 4096)) [0..<6]) \<and>
           slab_next alloc (io_pools st) (alloc 1)"
proof -
  have no: "\<not> 4096 < len" using assms(3) by simp
  obtain pools where pools: "f502a409_acquirePage alloc (io_pools initial_state) = Inr (Some (first_data alloc), pools)"
    "sa_rep (pageStack (pagePool pools)) (map (\<lambda>i. Some (alloc 0 + i * 4096)) [0..<7])"
    "numPagesFree (pagePool pools) = 7" "memoryPool pools = memoryPool initial_pools" "slab_next alloc pools (alloc 1)"
    using first_page [of alloc] by (auto simp: first_data_def initial_state_def)
  obtain st where st: "ce97d170_acquireFileBuffer e alloc (initial_state\<lparr>io_pools := pools\<rparr>) (Some (first_data alloc)) =
      Inr (Some (first_buffer alloc), st)"
    "fileBuffers st = [first_buffer alloc \<mapsto> new_buffer (first_data alloc)]"
    "aioRequestPool st = aioRequestPool initial_state" "aioRequests st = Map.empty" "pageBytes st = Map.empty"
    "sa_rep (fbp_structStack (fileBufferPool st)) []"
    "sa_rep (memPageStack (memoryPool (io_pools st))) [Some (first_buffer alloc)]"
    "numPageBytesUsed (memoryPool (io_pools st)) = 32" "numPageBytesFree (memoryPool (io_pools st)) = 4064"
    "sa_rep (pageStack (pagePool (io_pools st))) (map (\<lambda>i. Some (alloc 0 + i * 4096)) [0..<6])"
    "same_slabs pools (io_pools st)"
    using first_FileBuffer [of "initial_state\<lparr>io_pools := pools\<rparr>" alloc e "first_data alloc"] pools
    by (auto simp: initial_state_def)
  let ?st = "st\<lparr>fileBuffers := (fileBuffers st)(first_buffer alloc \<mapsto> new_buffer (first_data alloc))\<rparr>"
  let ?f = "f\<lparr>aioTicket := f1207515_initAIOTicket (aioTicket f)\<rparr>"
  obtain pools' arp where req: "f1207515_acquireAIORequest e alloc ?st =
      Inr (Some (first_request alloc), ?st\<lparr>io_pools := pools', aioRequestPool := arp\<rparr>)"
    "pagePool pools' = pagePool (io_pools st)" "sa_rep (arp_structStack arp) []" "same_slabs (io_pools st) pools'"
    using first_AIORequest [of ?st alloc e] st by auto
  let ?req = "fill_request AIO_READ ?f (Some (first_data alloc)) 4096"
  have full: "\<not> b8da7268_isFull (requestQueue ctx)" using qb_isFull [OF assms(1)] assms(2) by simp
  obtain q1 where q1: "b8da7268_enqueue (requestQueue ctx) (Some (first_request alloc)) = Inr (True, q1)"
    "qb_rep c q1 [Some (first_request alloc)]"
    using qb.enq_room_law [OF assms(1), of "Some (first_request alloc)"] assms(2) by auto
  let ?st3 = "?st\<lparr>io_pools := pools', aioRequestPool := arp, aioRequests := [first_request alloc \<mapsto> ?req]\<rparr>"
  let ?ctx3 = "ctx\<lparr>requestQueue := q1, ctx_numRequests := ctx_numRequests ctx + 1, numReadRequests := numReadRequests ctx + 1\<rparr>"
  let ?f3 = "?f\<lparr>aio_file_offset := 4096\<rparr>"
  have read: "f1207515_read e alloc ?st ctx ?f (Some (first_data alloc)) (of_nat MEMORY_PAGE_SIZE) =
      Inr (Some (first_request alloc), ?st3, ?ctx3, ?f3)"
    using full req(1) q1(1) assms(4) st(4) by (simp add: f1207515_read_def MEMORY_PAGE_SIZE_def)
  obtain q2 cells where q2: "submit_loop q1 (requestList (aioTicket f)) 0 = Inr (q2, cells, 1)" "holds cells [Some (first_request alloc)]"
    using submit_loop_takes [OF q1(2), of "requestList (aioTicket f)" "[]"] assms(5) by auto
  let ?ctx4 = "?ctx3\<lparr>requestQueue := q2\<rparr>"
  let ?t4 = "(aioTicket ?f)\<lparr>requestList := cells, tk_numRequests := 1\<rparr>"
  have cells: "read_cells cells 0 1 = Inr [Some (first_request alloc)]" using read_cells_all [OF q2(2)] by simp
  obtain m where m: "io_submit k (ctx_id ctx) [Some (first_request alloc)] = SysOk m" using assms(7) by (auto simp: kernel_reads_def)
  have "\<not> b8da7268_isEmpty q1" using qb_isEmpty [OF q1(2)] by simp
  then have submit: "f1207515_submit (io_submit k) ?ctx3 ?f3 = Inr (None, True, ?ctx4, ?f3\<lparr>aioTicket := ?t4\<rparr>)"
    using q2(1) cells m by (simp add: f1207515_submit_def f1207515_initAIOTicket_def Let_def)
  obtain ev where ev: "io_getevents k (ctx_id ctx) 1 = SysOk [ev]" "ev_obj ev = Some (first_request alloc)" "ev_res ev = ucast n"
    using assms(7) by (auto simp: kernel_reads_def)
  let ?ctx5 = "?ctx4\<lparr>ctx_numBytesRead := ctx_numBytesRead ctx + ucast n\<rparr>"
  let ?evs = "Some ev # drop 1 (eventList (aioTicket f))"
  let ?t5 = "?t4\<lparr>eventList := ?evs, tk_numEvents := 1, tk_numBytesRead := tk_numBytesRead (aioTicket f) + ucast n\<rparr>"
  have "blit [Some ev] 0 1 (eventList (aioTicket f)) 0 = Inr ?evs" using assms(6) by (simp add: blit_def)
  then have events: "f1207515_getEvents (io_getevents k) ?st3 ?ctx4 (?f3\<lparr>aioTicket := ?t4\<rparr>) = Inr (None, 1, ?ctx5, ?f3\<lparr>aioTicket := ?t5\<rparr>)"
    using ev by (simp add: f1207515_getEvents_def f1207515_initAIOTicket_def fill_request_def)
  obtain stk where stk: "f106c0ab_push (arp_structStack arp) (Some (first_request alloc)) = Inr stk"
    using sa_push [OF req(3)] by auto
  let ?st6 = "?st3\<lparr>pageBytes := [first_data alloc \<mapsto> page],
      fileBuffers := [first_buffer alloc \<mapsto> (new_buffer (first_data alloc))\<lparr>fb_numBytes := n\<rparr>]\<rparr>"
  obtain arp' where arp': "f1207515_cleanUpAIOTicket ?st6 ?t5 = Inr (?st6\<lparr>aioRequestPool := arp'\<rparr>)"
    using cells stk by (simp add: f1207515_cleanUpAIOTicket_def f1207515_releaseAIORequest_def)
  have evres: "(ucast (ev_res ev) :: u32) = n" unfolding ev(3) by (rule bit_word_eqI) (simp add: bit_simps)
  have pages: "io_pages k (pageBytes st) = [first_data alloc \<mapsto> page]" using assms(7) st(5) by (simp add: kernel_reads_def)
  have "ce97d170_readFileBuffer e k alloc initial_state ctx f len =
      Inr ([], Some (first_buffer alloc), ?st6\<lparr>aioRequestPool := arp'\<rparr>, ?ctx5, ?f3\<lparr>aioTicket := ?t5\<rparr>)"
    using no pools(1) st(1,2) read submit events arp' pages assms(4) evres
    by (simp add: ce97d170_readFileBuffer_def MEMORY_PAGE_SIZE_def fb_get_def fb_set_def rd_def)
  moreover have "slab_next alloc pools' (alloc 1)" using slab_next_same [OF _ pools(5)] st(11) req(4) by simp
  ultimately show ?thesis using req(2) st(6,10) by simp
qed

subsection \<open>The record at the end\<close>

definition end_bytes :: "EndOfCDR \<Rightarrow> u8 list" where
  "end_bytes r = le32 (ec_signature r) @ le16 (ec_diskNum r) @ le16 (ec_startDiskNum r) @ le16 (ec_totalEntriesOnDisk r) @
     le16 (ec_totalEntries r) @ le32 (ec_size r) @ le32 (ec_startOffset r) @ le16 (ec_commentLength r)"

lemma length_end_bytes [simp]: "length (end_bytes r) = 22"
  by (simp add: end_bytes_def)

text \<open>A record without a comment; the routine that maps it, which the sources declare only, gives its fields.\<close>

definition plain_record :: "EndOfCDR \<Rightarrow> bool" where
  "plain_record r \<longleftrightarrow> ec_signature r = ZIP_END_OF_CDR_SIG \<and> ec_comment r = None \<and> ec_commentLength r = 0"

definition maps_records :: "'fs host \<Rightarrow> bool" where
  "maps_records h \<longleftrightarrow>
     (\<forall>r0 r page pre post. plain_record r \<longrightarrow> holds page (pre @ end_bytes r @ post) \<longrightarrow> h_mapEndOfCDR h r0 page (length pre) = Inr r)"

lemma scan_finds_end:
  assumes "holds page (bs @ end_bytes r @ post)" and "plain_record r"
  shows "scan_back page (length bs) = Inr (Some (length bs))"
proof -
  from rd32_in [OF assms(1), of 0] have "rd32 page (length bs) = Inr ZIP_END_OF_CDR_SIG"
    using assms(2) by (simp add: end_bytes_def plain_record_def)
  then show ?thesis by (cases "length bs") simp_all
qed

lemma find_end:
  assumes start: "zr_st run = initial_state" "fl_length (za_bufferList za) = 0" "fl_size (za_bufferList za) = 8"
      "fl_numBytes (za_bufferList za) = 0" "fl_values (za_bufferList za) = fresh 8" "aio_file_offset (za_aioFile za) = 0"
      "length (requestList (aioTicket (za_aioFile za))) = 8" "length (eventList (aioTicket (za_aioFile za))) = 8"
      "qb_rep c (requestQueue (za_aioContext za)) []" "0 < c"
    and arc: "bytes = bs @ end_bytes r @ post" "length bytes = 4096" "bs \<noteq> []"
      "fileSize (za_aioFile za) = of_nat (length (bs @ end_bytes r))" "plain_record r"
    and host: "kernel_reads (h_kernel h) (h_alloc h) (za_aioContext za) (map Some bytes) (of_nat (length (bs @ end_bytes r)))" "maps_records h"
  shows "\<exists>st f ctx bl. findEndOfCDR h run za zf =
           Inr (True, run\<lparr>zr_st := st\<rparr>, za\<lparr>za_aioFile := f, za_aioContext := ctx, za_bufferList := bl\<rparr>, zf\<lparr>zf_endOfCDR := r\<rparr>) \<and>
         in_page st bl (first_buffer (h_alloc h)) (first_data (h_alloc h)) bytes (of_nat (length (bs @ end_bytes r))) \<and> fileName f = fileName (za_aioFile za) \<and> aio_fd f = aio_fd (za_aioFile za) \<and>
         rd (fl_values bl) 0 = Inr (Some (first_buffer (h_alloc h))) \<and> pageBytes st = [first_data (h_alloc h) \<mapsto> map Some bytes] \<and>
         sa_rep (fbp_structStack (fileBufferPool st)) [] \<and>
         sa_rep (pageStack (pagePool (io_pools st))) (map (\<lambda>i. Some (h_alloc h 0 + i * 4096)) [0..<6]) \<and>
         slab_next (h_alloc h) (io_pools st) (h_alloc h 1)"
proof -
  have small: "length bs + 22 \<le> 4096" using arc(1,2) by simp
  have h: "holds (map Some bytes) (bs @ end_bytes r @ post)" using arc(1) by (simp add: holds_def)
  let ?n = "of_nat (length (bs @ end_bytes r)) :: u32" and ?f = "za_aioFile za"
  have n: "unat ?n = length bs + 22" using small by (subst unat_of_nat) simp
  have n64: "unat (fileSize ?f) = length bs + 22" unfolding arc(4) using small by (subst unat_of_nat) simp
  have "\<not> 4096 <s fileSize ?f"
    using small n64 by (simp add: word_sless_alt sint64_small)
  then have lp: "last_page_offset ?f = ?f" by (simp add: last_page_offset_def MEMORY_PAGE_SIZE_def)
  let ?len = "ucast (ucast (fileSize ?f - aio_file_offset ?f) :: u32) :: u64"
  have len: "?len \<le> 4096" using start(6) n64 small
    by (simp add: word_le_nat_alt unsigned_ucast_eq unsigned_take_bit_eq take_bit_nat_eq_self)
  obtain st ctx f where rf: "ce97d170_readFileBuffer (h_env h) (h_kernel h) (h_alloc h) initial_state (za_aioContext za) ?f ?len =
        Inr ([], Some (first_buffer (h_alloc h)), st, ctx, f)"
      "fileBuffers st = [first_buffer (h_alloc h) \<mapsto> (new_buffer (first_data (h_alloc h)))\<lparr>fb_numBytes := ?n\<rparr>]"
      "pageBytes st = [first_data (h_alloc h) \<mapsto> map Some bytes]" "fileName f = fileName ?f" "aio_fd f = aio_fd ?f"
      "sa_rep (fbp_structStack (fileBufferPool st)) []"
      "sa_rep (pageStack (pagePool (io_pools st))) (map (\<lambda>i. Some (h_alloc h 0 + i * 4096)) [0..<6])"
      "slab_next (h_alloc h) (io_pools st) (h_alloc h 1)"
    using read_first [OF start(9,10) len start(6-8) host(1)] by metis
  let ?bl = "(za_bufferList za)\<lparr>fl_numBytes := ucast ?n, fl_fileOffset := 0,
      fl_values := Some (Some (first_buffer (h_alloc h))) # fresh 7, fl_length := 1\<rparr>"
  have "wr (fresh 8) 0 (Some (first_buffer (h_alloc h))) = Inr (Some (Some (first_buffer (h_alloc h))) # fresh 7)"
    by (simp add: wr_def fresh_def numeral_eq_Suc)
  then have add: "ce97d170_addBuffer st (za_bufferList za) (Some (first_buffer (h_alloc h))) = Inr (st, ?bl)"
    using start(2-5) rf(2) by (simp add: ce97d170_addBuffer_def fb_get_def Let_def)
  have bs: "unat (of_nat (length bs) :: u32) = length bs" using small by (subst unat_of_nat) simp
  have long: "ZIP_END_OF_CDR_SIZE < ?n" "unat (?n - ZIP_END_OF_CDR_SIZE) = length bs"
    using n bs arc(3) by (simp_all add: ZIP_END_OF_CDR_SIZE_def word_less_nat_alt unat_sub word_le_nat_alt)
  have mp: "h_mapEndOfCDR h (zf_endOfCDR zf) (map Some bytes) (length bs) = Inr r"
    using host(2) h arc(5) unfolding maps_records_def by blast
  have "in_page st ?bl (first_buffer (h_alloc h)) (first_data (h_alloc h)) bytes ?n"
    using rf(2,3) n small arc(2) by (simp add: in_page_def rd_def)
  moreover have "findEndOfCDR h run za zf =
      Inr (True, run\<lparr>zr_st := st\<rparr>, za\<lparr>za_aioFile := f, za_aioContext := ctx, za_bufferList := ?bl\<rparr>, zf\<lparr>zf_endOfCDR := r\<rparr>)"
    using rf(1-3) add long mp scan_finds_end [OF h arc(5)] start(1)
    by (simp add: findEndOfCDR_def lp Let_def fb_get_def page_get_def)
  ultimately show ?thesis using rf(3-8) by (intro exI conjI) (assumption | simp add: rd_def)+
qed

subsection \<open>The whole program\<close>

text \<open>The calls of a program that unzips a file: initZipArchive, unzip, cleanUpZipArchive.\<close>

definition unzip_file ::
    "'fs host \<Rightarrow> (string \<Rightarrow> u32 \<Rightarrow> u32 sysret) \<Rightarrow> (u32 \<Rightarrow> u64 sysret) \<Rightarrow> AIOContext \<Rightarrow> 'fs zip_run \<Rightarrow> string \<Rightarrow> 'fs zip_run result" where
  "unzip_file h sys_open sys_fstat ctx run name =
     bnd (ce667b0d_initZipArchive (h_env h) sys_open sys_fstat ctx name) (\<lambda>(out, za).
     bnd (ce667b0d_unzip h (run\<lparr>zr_out := zr_out run @ out\<rparr>) za) (\<lambda>(run, za).
     bnd (ce667b0d_cleanUpZipArchive (h_env h) (h_close h) (zr_st run) za) (\<lambda>st.
     Inr (run\<lparr>zr_st := st\<rparr>))))"

lemma empty_list:
  "ce97d170_initFileBufferList = Inr \<lparr>fl_values = fresh 8, fl_numBytes = 0, fl_fileOffset = 0, fl_length = 0, fl_size = 8\<rparr>"
  by (simp add: ce97d170_initFileBufferList_def FILEBUFFERLIST_DEFAULT_SIZE_def mallocArray_small)

lemma init_archive:
  assumes "\<exists>fd. sys_open name (or (or (access_flag FOPEN_READONLY) O_DIRECT) 0) = SysOk fd \<and> sys_fstat fd = SysOk n"
  shows "\<exists>f. ce667b0d_initZipArchive e sys_open sys_fstat ctx name =
           Inr ([], \<lparr>za_aioFile = f, za_bufferList = \<lparr>fl_values = fresh 8, fl_numBytes = 0, fl_fileOffset = 0, fl_length = 0, fl_size = 8\<rparr>,
                     za_aioContext = ctx, za_outputDir = None\<rparr>) \<and>
         aioTicket f = zero_ticket \<and> fileSize f = n \<and> aio_file_offset f = 0 \<and>
         sys_open name (or (or (access_flag FOPEN_READONLY) O_DIRECT) 0) = SysOk (aio_fd f)"
proof -
  obtain fd where fd: "sys_open name (or (or (access_flag FOPEN_READONLY) O_DIRECT) 0) = SysOk fd" "sys_fstat fd = SysOk n"
    using assms by blast
  show ?thesis using fd
    by (simp add: empty_list ce667b0d_initZipArchive_def f1207515_open_def e2f74138_getDescriptorStatus_def f1207515_initAIOFile_def)
qed

subsection \<open>Properties\<close>

lemma clean_up_archive:
  assumes "fl_fileOffset bl = 0" "unat (fl_length bl) = 1" "rd (fl_values bl) 0 = Inr (Some b)" "fileBuffers st b = Some fb"
    and "fb_buffer fb = Some p" "fb_next fb = None" "close_call (aio_fd (za_aioFile za)) = SysOk ()" "za_bufferList za = bl"
    and "sa_rep (fbp_structStack (fileBufferPool st)) []" "sa_rep (pageStack (pagePool (io_pools st))) ps" "length ps < 8"
  shows "\<exists>st'. ce667b0d_cleanUpZipArchive e close_call st za = Inr st' \<and>
         sa_rep (fbp_structStack (fileBufferPool st')) [Some b] \<and> sa_rep (pageStack (pagePool (io_pools st'))) (ps @ [Some p])"
proof -
  obtain stk where stk: "f106c0ab_push (pageStack (pagePool (io_pools st))) (Some p) = Inr stk" "sa_rep stk (ps @ [Some p])"
    using sa_push [OF assms(10)] assms(11) by auto
  obtain stk' where stk': "f106c0ab_push (fbp_structStack (fileBufferPool st)) (Some b) = Inr stk'" "sa_rep stk' [Some b]"
    using sa_push [OF assms(9)] by auto
  show ?thesis
    using assms(1-8) stk stk'
    by (cases fb) (auto simp: ce667b0d_cleanUpZipArchive_def f1207515_cleanUpAIOFile_def e2f74138_closeFile_def
        ce97d170_cleanUpFileBufferList_def release_one_def fb_get_def page_release_def f502a409_releasePage_def
        ce97d170_releaseFileBuffer_def Let_def)
qed

text \<open>The parts of unzip: the list of headers is made, the record found, the directory loaded, the files extracted, the list freed.\<close>

lemma unzip_in_one_page:
  assumes bytes: "bytes = archive_bytes afs @ end_bytes r @ tail" "length bytes = 4096"
    and arc: "plain_record r" "describes r afs" "files_from 0 afs" "afs \<noteq> []" "n = of_nat (length (archive_bytes afs @ end_bytes r))"
    and start: "zr_st run = initial_state" "za_bufferList za = \<lparr>fl_values = fresh 8, fl_numBytes = 0, fl_fileOffset = 0, fl_length = 0, fl_size = 8\<rparr>"
      "aio_file_offset (za_aioFile za) = 0" "aioTicket (za_aioFile za) = zero_ticket" "fileSize (za_aioFile za) = of_nat (length (archive_bytes afs @ end_bytes r))"
      "qb_rep c (requestQueue (za_aioContext za)) []" "0 < c" "za_outputDir za = None"
    and host: "kernel_reads (h_kernel h) (h_alloc h) (za_aioContext za) (map Some bytes) n" "maps_records h" "slabs_apart (h_alloc h)"
      "\<forall>af \<in> set afs. host_takes h (zr_fs run) fd af"
  shows "\<exists>st f ctx bl. ce667b0d_unzip h run za =
           Inr (run\<lparr>zr_st := st, zr_calls := zr_calls run @ concat (map (file_calls h fd) afs), zr_out := zr_out run @ printEndOfCDR r\<rparr>,
                za\<lparr>za_aioFile := f, za_aioContext := ctx, za_bufferList := bl\<rparr>) \<and>
         aio_fd f = aio_fd (za_aioFile za) \<and> in_page st bl (first_buffer (h_alloc h)) (first_data (h_alloc h)) bytes n \<and>
         sa_rep (fbp_structStack (fileBufferPool st)) [] \<and>
         sa_rep (pageStack (pagePool (io_pools st))) (map (\<lambda>i. Some (h_alloc h 0 + i * 4096)) [0..<6])"
proof -
  let ?b = "first_buffer (h_alloc h)" and ?pg = "first_data (h_alloc h)" and ?a = "h_alloc h 1"
  obtain lst0 where lst0: "b196167f_initListArray zero_list = Inr (lst0 :: FileHeader ListArray)" "la_rep lst0 []"
    using la_init by blast
  let ?zf = "\<lparr>zf_fileHeaderList = lst0, zf_endOfCDR = zero_EndOfCDR\<rparr>"
  have "archive_bytes afs \<noteq> []" using central_bytes_room [OF arc(4)] by (auto simp: archive_bytes_def)
  from find_end [where za = za and zf = ?zf, OF start(1) _ _ _ _ start(3) _ _ start(6,7) bytes(1,2) this start(5) arc(1) _ host(2)]
  obtain st g ctx bl where found: "findEndOfCDR h run za ?zf =
      Inr (True, run\<lparr>zr_st := st\<rparr>, za\<lparr>za_aioFile := g, za_aioContext := ctx, za_bufferList := bl\<rparr>, ?zf\<lparr>zf_endOfCDR := r\<rparr>)"
    "in_page st bl ?b ?pg bytes n" "aio_fd g = aio_fd (za_aioFile za)" "pageBytes st = [?pg \<mapsto> map Some bytes]"
    "sa_rep (fbp_structStack (fileBufferPool st)) []"
    "sa_rep (pageStack (pagePool (io_pools st))) (map (\<lambda>i. Some (h_alloc h 0 + i * 4096)) [0..<6])"
    "slab_next (h_alloc h) (io_pools st) ?a"
    using host(1) start(2,4) unfolding arc(5) by (auto simp: zero_ticket_def)
  have "?a \<noteq> ?pg"
  proof -
    have "h_alloc h 0 + 32768 \<le> ?a \<or> ?a + 32768 \<le> h_alloc h 0"
      using host(3) unfolding slabs_apart_def SLABPOOL_SLAB_SIZE_def by (metis zero_neq_one)
    then show ?thesis unfolding first_data_def by linarith
  qed
  then have rdy: "ready h st bl ?b ?pg bytes n ?a" using found(2,4,7) by (simp add: ready_def)
  let ?run1 = "run\<lparr>zr_st := st, zr_out := zr_out run @ printEndOfCDR r\<rparr>"
  let ?za1 = "za\<lparr>za_aioFile := g, za_aioContext := ctx, za_bufferList := bl\<rparr>" and ?zf1 = "?zf\<lparr>zf_endOfCDR := r\<rparr>"
  have "unat n = length (archive_bytes afs @ end_bytes r)" unfolding arc(5) using bytes by (subst unat_of_nat) simp
  then have le: "length (archive_bytes afs) \<le> unat n" by simp
  obtain st1 lst where load: "loadCentralDirectory h ?run1 ?za1 ?zf1 = Inr (?run1\<lparr>zr_st := st1\<rparr>, ?za1, ?zf1\<lparr>zf_fileHeaderList := lst\<rparr>)"
    "ready h st1 bl ?b ?pg bytes n ?a" "kept st st1" "la_rep lst (map (\<lambda>af. Some (loaded (af_entry af))) afs)"
    using load_archive [of h ?run1 ?za1 ?b ?pg bytes n ?a afs "end_bytes r @ tail" ?zf1] rdy bytes(1) le arc(2,3) lst0(2) start(8) by auto
  have few: "length afs < 2 ^ 29" using arc(2) unat_u16_lt [of "ec_totalEntries r"] by (simp add: describes_def)
  let ?run2 = "?run1\<lparr>zr_st := st1\<rparr>"
  obtain st2 where proc: "processFileHeaderList h ?run2 ?za1 lst =
      Inr (?run2\<lparr>zr_st := st2, zr_calls := zr_calls run @ concat (map (file_calls h fd) afs)\<rparr>, ?za1)"
    "ready h st2 bl ?b ?pg bytes n ?a" "kept st1 st2"
    using process_archive [of h ?run2 ?za1 ?b ?pg bytes n ?a afs "end_bytes r @ tail" fd lst] load(2,4) bytes(1) le arc(3) host(4) few by auto
  have clean: "\<exists>x. cleanUpZipFormat (?zf1\<lparr>zf_fileHeaderList := lst\<rparr>) = Inr x"
    using la_free_rep [OF load(4)] by (simp add: cleanUpZipFormat_def b196167f_cleanUpListArray_def)
  have "fl_fileOffset bl = 0" using found(2) by (simp add: in_page_def)
  then have "ce667b0d_unzip h run za = Inr (?run2\<lparr>zr_st := st2, zr_calls := zr_calls run @ concat (map (file_calls h fd) afs)\<rparr>, ?za1)"
    using lst0(1) found(1) load(1) proc(1) clean by (auto simp: ce667b0d_unzip_def initZipFormat_def)
  moreover have "kept st st2" "in_page st2 bl ?b ?pg bytes n" using kept_trans [OF load(3) proc(3)] proc(2) by (simp_all add: ready_def)
  ultimately show ?thesis using found(3,5,6)
    by (intro exI [of _ st2] exI [of _ g] exI [of _ ctx] exI [of _ bl]) (simp add: kept_def)
qed

subsection \<open>Properties\<close>

text \<open>C5: a program that starts, opens an archive of stored and compressed files of at most a page, unzips it and cleans up: the one read
  of the file goes through the pools and the queue of requests, the record at the end of the file is found and printed, every file is
  created, written with exactly its data, stamped and closed, in the order of the directory, and the page and the buffer object that the
  program took for the archive are back on the stacks of their pools.\<close>

theorem archive_is_unzipped:
  assumes start: "zr_st run = initial_state" "qb_rep c (requestQueue ctx) []" "0 < c" "slabs_apart (h_alloc h)"
    and arc: "bytes = archive_bytes afs @ end_bytes r @ tail" "length bytes = 4096" "m = length (archive_bytes afs @ end_bytes r)"
      "plain_record r" "describes r afs" "files_from 0 afs" "afs \<noteq> []"
    and read: "kernel_reads (h_kernel h) (h_alloc h) ctx (map Some bytes) (of_nat m)" "maps_records h"
    and opened: "\<exists>f. sys_open name (or (or (access_flag FOPEN_READONLY) O_DIRECT) 0) = SysOk f \<and> sys_fstat f = SysOk (of_nat m) \<and>
       h_close h f = SysOk ()"
    and host: "\<forall>af \<in> set afs. host_takes h (zr_fs run) fd af"
  shows "\<exists>st. unzip_file h sys_open sys_fstat ctx run name =
           Inr (run\<lparr>zr_st := st, zr_calls := zr_calls run @ concat (map (file_calls h fd) afs),
                    zr_out := zr_out run @ printEndOfCDR r\<rparr>) \<and>
         sa_rep (fbp_structStack (fileBufferPool st)) [Some (first_buffer (h_alloc h))] \<and>
         sa_rep (pageStack (pagePool (io_pools st)))
           (map (\<lambda>i. Some (h_alloc h 0 + i * 4096)) [0..<6] @ [Some (first_data (h_alloc h))])"
proof -
  obtain f where f: "ce667b0d_initZipArchive (h_env h) sys_open sys_fstat ctx name =
      Inr ([], \<lparr>za_aioFile = f, za_bufferList = \<lparr>fl_values = fresh 8, fl_numBytes = 0, fl_fileOffset = 0, fl_length = 0, fl_size = 8\<rparr>,
                za_aioContext = ctx, za_outputDir = None\<rparr>)"
    "aioTicket f = zero_ticket" "fileSize f = of_nat m" "aio_file_offset f = 0" "h_close h (aio_fd f) = SysOk ()"
    using init_archive [of sys_open name sys_fstat "of_nat m" "h_env h" ctx] opened by auto
  let ?za = "\<lparr>za_aioFile = f, za_bufferList = \<lparr>fl_values = fresh 8, fl_numBytes = 0, fl_fileOffset = 0, fl_length = 0, fl_size = 8\<rparr>,
                za_aioContext = ctx, za_outputDir = None\<rparr>"
  obtain st g ctx' bl where unzip: "ce667b0d_unzip h run ?za =
      Inr (run\<lparr>zr_st := st, zr_calls := zr_calls run @ concat (map (file_calls h fd) afs), zr_out := zr_out run @ printEndOfCDR r\<rparr>,
           ?za\<lparr>za_aioFile := g, za_aioContext := ctx', za_bufferList := bl\<rparr>)"
    "aio_fd g = aio_fd f" "in_page st bl (first_buffer (h_alloc h)) (first_data (h_alloc h)) bytes (of_nat m)"
    "sa_rep (fbp_structStack (fileBufferPool st)) []"
    "sa_rep (pageStack (pagePool (io_pools st))) (map (\<lambda>i. Some (h_alloc h 0 + i * 4096)) [0..<6])"
    using unzip_in_one_page [of bytes afs r tail "of_nat m" run ?za c h fd] arc start read host f(2-4) by auto
  let ?fb = "\<lambda>k. \<lparr>fb_buffer = Some (first_data (h_alloc h)), fb_next = None, fb_fileOffset = 0, fb_dataOffset = k, fb_numBytes = of_nat m\<rparr>"
  let ?za1 = "?za\<lparr>za_aioFile := g, za_aioContext := ctx', za_bufferList := bl\<rparr>"
  obtain k where bl: "fl_fileOffset bl = 0" "unat (fl_length bl) = 1" "rd (fl_values bl) 0 = Inr (Some (first_buffer (h_alloc h)))"
    "fileBuffers st (first_buffer (h_alloc h)) = Some (?fb k)"
    using unzip(3) by (auto simp: in_page_def)
  have closed: "h_close h (aio_fd (za_aioFile ?za1)) = SysOk ()" using f(5) unzip(2) by simp
  obtain st' where "ce667b0d_cleanUpZipArchive (h_env h) (h_close h) st ?za1 = Inr st'"
    "sa_rep (fbp_structStack (fileBufferPool st')) [Some (first_buffer (h_alloc h))]"
    "sa_rep (pageStack (pagePool (io_pools st'))) (map (\<lambda>i. Some (h_alloc h 0 + i * 4096)) [0..<6] @ [Some (first_data (h_alloc h))])"
    using clean_up_archive [where close_call = "h_close h" and za = ?za1 and p = "first_data (h_alloc h)" and e = "h_env h",
        OF bl _ _ closed _ unzip(4,5)] by auto
  then show ?thesis using f(1) unzip(1) by (intro exI [of _ st']) (simp add: unzip_file_def)
qed

text \<open>An example: the archive with the stored file \<open>d/a\<close> and the compressed file \<open>b\<close>, and a system that reads the record field by
  field.\<close>

definition sample_map :: "EndOfCDR \<Rightarrow> u8 block \<Rightarrow> nat \<Rightarrow> EndOfCDR result" where
  "sample_map r0 page p =
     bnd (rd32 page p) (\<lambda>signature.
     bnd (rd16 page (p + 4)) (\<lambda>diskNum.
     bnd (rd16 page (p + 6)) (\<lambda>startDiskNum.
     bnd (rd16 page (p + 8)) (\<lambda>entriesOnDisk.
     bnd (rd16 page (p + 10)) (\<lambda>entries.
     bnd (rd32 page (p + 12)) (\<lambda>sz.
     bnd (rd32 page (p + 16)) (\<lambda>startOffset.
     bnd (rd16 page (p + 20)) (\<lambda>commentLength.
     Inr \<lparr>ec_comment = None, ec_signature = signature, ec_size = sz, ec_startOffset = startOffset, ec_diskNum = diskNum,
          ec_startDiskNum = startDiskNum, ec_totalEntriesOnDisk = entriesOnDisk, ec_totalEntries = entries,
          ec_commentLength = commentLength\<rparr>))))))))"

definition sample_end :: EndOfCDR where
  "sample_end = zero_EndOfCDR\<lparr>ec_signature := ZIP_END_OF_CDR_SIG, ec_startOffset := 81, ec_size := 96, ec_totalEntries := 2\<rparr>"

definition sample_page_bytes :: "u8 list" where
  "sample_page_bytes = archive_bytes sample_files @ end_bytes sample_end @ replicate 3897 0"

definition sample_reader :: "unit host" where
  "sample_reader = sample_host\<lparr>h_mapEndOfCDR := sample_map, h_alloc := (\<lambda>i. 32768 * Suc i),
     h_kernel := \<lparr>io_submit = (\<lambda>_ _. SysOk 1),
       io_getevents = (\<lambda>_ _. SysOk [\<lparr>ev_data = 0, ev_obj = Some (first_request (\<lambda>i. 32768 * Suc i)), ev_res = 199, ev_res2 = 0\<rparr>]),
       io_pages = (\<lambda>m. m(first_data (\<lambda>i. 32768 * Suc i) \<mapsto> map Some sample_page_bytes))\<rparr>\<rparr>"

lemma sample_map_maps:
  assumes "plain_record r" and "holds page (pre @ end_bytes r @ post)"
  shows "sample_map r0 page (length pre) = Inr r"
proof -
  have "rd32 page (length pre) = Inr (ec_signature r)" "rd16 page (length pre + 4) = Inr (ec_diskNum r)"
    "rd16 page (length pre + 6) = Inr (ec_startDiskNum r)" "rd16 page (length pre + 8) = Inr (ec_totalEntriesOnDisk r)"
    "rd16 page (length pre + 10) = Inr (ec_totalEntries r)" "rd32 page (length pre + 12) = Inr (ec_size r)"
    "rd32 page (length pre + 16) = Inr (ec_startOffset r)" "rd16 page (length pre + 20) = Inr (ec_commentLength r)"
    using rd32_in [OF assms(2), of 0] rd16_in [OF assms(2), of 4] rd16_in [OF assms(2), of 6] rd16_in [OF assms(2), of 8]
      rd16_in [OF assms(2), of 10] rd32_in [OF assms(2), of 12] rd32_in [OF assms(2), of 16] rd16_in [OF assms(2), of 20]
    by (simp_all add: end_bytes_def)
  then show ?thesis using assms(1) by (cases r) (simp add: sample_map_def plain_record_def)
qed

lemma archive_is_unzipped_witness:
  "\<exists>q :: nat QueueBounded. b8da7268_createQueueBounded 8 = Inr q \<and> (\<forall>(run :: unit zip_run) ctx.
     \<exists>st. unzip_file sample_reader (\<lambda>_ _. SysOk 4) (\<lambda>_. SysOk 199) (ctx\<lparr>requestQueue := q\<rparr>)
         (run\<lparr>zr_st := initial_state\<rparr>) ''x.zip'' =
       Inr (run\<lparr>zr_st := st, zr_calls := zr_calls run @ concat (map (file_calls sample_reader (\<lambda>_. 3)) sample_files),
                zr_out := zr_out run @ printEndOfCDR sample_end\<rparr>))"
proof -
  obtain q :: "nat QueueBounded" where q: "b8da7268_createQueueBounded 8 = Inr q" "qb_rep (unat (8 :: u32)) q []"
    using qb_create by blast
  have len: "199 = length (archive_bytes sample_files @ end_bytes sample_end)" "length sample_page_bytes = 4096"
    using sample_lengths by (simp_all add: archive_bytes_def sample_page_bytes_def)
  have r: "plain_record sample_end" "describes sample_end sample_files"
    using sample_lengths by (simp_all add: plain_record_def sample_end_def zero_EndOfCDR_def describes_def)
  have maps: "maps_records sample_reader" using sample_map_maps by (simp add: maps_records_def sample_reader_def)
  have host: "\<forall>af \<in> set sample_files. host_takes sample_reader fs (\<lambda>_. 3) af" for fs
    using sample_taken [of fs] by (simp add: host_takes_def accepts_def sample_reader_def)
  have reads: "kernel_reads (h_kernel sample_reader) (h_alloc sample_reader) ctx (map Some sample_page_bytes) (of_nat 199)" for ctx
    by (simp add: kernel_reads_def sample_reader_def)
  have o: "\<exists>f. (\<lambda>_ _. SysOk 4) ''x.zip'' (or (or (access_flag FOPEN_READONLY) O_DIRECT) 0) = SysOk f \<and>
      (\<lambda>_. SysOk 199) f = SysOk (of_nat 199) \<and> h_close sample_reader f = SysOk ()"
    by (simp add: sample_reader_def sample_host_def)
  have apart: "slabs_apart (h_alloc sample_reader)"
    by (simp_all add: slabs_apart_def SLABPOOL_SLAB_SIZE_def sample_reader_def, arith)
  have "\<exists>st. unzip_file sample_reader (\<lambda>_ _. SysOk 4) (\<lambda>_. SysOk 199) (ctx\<lparr>requestQueue := q\<rparr>)
         (run\<lparr>zr_st := initial_state\<rparr>) ''x.zip'' =
       Inr (run\<lparr>zr_st := st, zr_calls := zr_calls run @ concat (map (file_calls sample_reader (\<lambda>_. 3)) sample_files),
                zr_out := zr_out run @ printEndOfCDR sample_end\<rparr>)" for run :: "unit zip_run" and ctx
    using archive_is_unzipped [where run = "run\<lparr>zr_st := initial_state\<rparr>" and ctx = "ctx\<lparr>requestQueue := q\<rparr>",
        OF _ _ _ apart sample_page_bytes_def len(2,1) r sample_files_ok _ reads maps o, where c = 8 and fd = "\<lambda>_. 3"] q(2) host by auto
  then show ?thesis using q(1) by blast
qed

end
