(* ===== verification/DebugText.thy ===== *)
theory DebugText
  imports ZipArchive Async
begin

text \<open>
  The prints of compress/ziparchive.c and io/async.c that show a central directory, a local header, a context and a ticket: the text
  that each of them writes to stdout, on a machine with 64-bit pointers. The text of \<open>%p\<close> is a parameter.
\<close>

unbundle bit_operations_syntax

subsection \<open>Lines of a print\<close>

definition show_line :: "string \<Rightarrow> string \<Rightarrow> string" where
  "show_line caption v = CHR 0x09 # caption @ v @ newline"

definition fmt_u16 :: "u16 \<Rightarrow> string" where
  "fmt_u16 n = fmt_u (ucast n)"

definition fmt_lu :: "u64 \<Rightarrow> string" where
  "fmt_lu n = dec_string (unat n)"

definition text_of :: "char block ptr \<Rightarrow> string result" where
  "text_of p = (case p of None \<Rightarrow> Inr (fmt_s None) | Some b \<Rightarrow> bnd (c_string b) (\<lambda>t. Inr (fmt_s (Some t))))"

subsection \<open>compress/ziparchive: the central directory\<close>

definition ZIP_METHOD_IMPLODE :: u16 where "ZIP_METHOD_IMPLODE = 6"
definition ZIP_METHOD_DEFLATE64 :: u16 where "ZIP_METHOD_DEFLATE64 = 9"
definition ZIP_DEFLATE_MASK :: u16 where "ZIP_DEFLATE_MASK = 6"

definition deflate_option :: "u16 \<Rightarrow> string" where
  "deflate_option deflateOption =
     (if deflateOption = 6 then ''Super Fast '' else if deflateOption = 4 then ''Fast ''
      else if deflateOption = 2 then ''Maximum '' else if deflateOption = 0 then ''Normal '' else [])"

text \<open>The words for the set bits, and the mask after them; a header starts with the mask that the one before has left.\<close>

definition bit_words :: "u32 \<Rightarrow> FileHeader \<Rightarrow> string list \<times> u32" where
  "bit_words bitmask fileHeader =
     (let bitFlags = ucast (fh_bitFlags fileHeader) :: u32;
          encrypted = (if bitFlags AND bitmask = 1 then [''encrypted ''] else []);
          bitmask = push_bit 1 bitmask;
          (words, bitmask) =
            (if fh_compressMethod fileHeader = ZIP_METHOD_IMPLODE then
               let sliding = (if bitFlags AND bitmask = 0 then ''4K sliding '' else ''8K sliding '');
                   bitmask = push_bit 1 bitmask;
                   trees = (if bitFlags AND bitmask = 0 then ''2 SF Trees '' else ''3 SF Trees '')
               in ([sliding, trees], push_bit 1 bitmask)
             else if fh_compressMethod fileHeader = 8 \<or> fh_compressMethod fileHeader = ZIP_METHOD_DEFLATE64 then
               ([deflate_option (fh_bitFlags fileHeader AND ZIP_DEFLATE_MASK)], push_bit 2 bitmask)
             else ([], bitmask));
          zeroHeader = (if bitFlags AND bitmask = 1 then [''zero local header ''] else [])
      in (encrypted @ words @ zeroHeader, bitmask))"

definition file_header_text :: "u32 \<Rightarrow> FileHeader \<Rightarrow> string \<Rightarrow> string list \<Rightarrow> string" where
  "file_header_text i fileHeader name words =
     ''FileHeader #'' @ fmt_u i @ '':'' @ newline @
     show_line ''filename:             '' name @
     show_line ''signature:            '' (hex_text (unat (fh_signature fileHeader))) @
     show_line ''madeByVersion:        '' (fmt_u16 (fh_madeByVersion fileHeader)) @
     show_line ''needToExtractVersion: '' (fmt_u16 (fh_needToExtractVersion fileHeader)) @
     show_line ''bitFlags:             '' (concat words) @
     show_line ''compressMethod:       '' (fmt_u16 (fh_compressMethod fileHeader)) @
     show_line ''lastModFileTime:      '' (fmt_u16 (fh_lastModFileTime fileHeader)) @
     show_line ''lastModFileDate:      '' (fmt_u16 (fh_lastModFileDate fileHeader)) @
     show_line ''crc32:                '' (fmt_u (fh_crc32 fileHeader)) @
     show_line ''compressSize:         '' (fmt_u (fh_compressSize fileHeader)) @
     show_line ''uncompressSize:       '' (fmt_u (fh_uncompressSize fileHeader)) @
     show_line ''fileNameLen:          '' (fmt_u16 (fh_fileNameLen fileHeader)) @
     show_line ''extraFieldLen:        '' (fmt_u16 (fh_extraFieldLen fileHeader)) @
     show_line ''fileCommentLen:       '' (fmt_u16 (fh_fileCommentLen fileHeader)) @
     show_line ''diskNumStart:         '' (fmt_u16 (fh_diskNumStart fileHeader)) @
     show_line ''internalFileAttribs:  '' (fmt_u16 (fh_internalFileAttribs fileHeader)) @
     show_line ''externalFileAttribs:  '' (fmt_u (fh_externalFileAttribs fileHeader)) @
     show_line ''localHeaderOffset:    '' (fmt_u (fh_localHeaderOffset fileHeader)) @ newline"

definition print_header :: "FileHeader ListArray \<Rightarrow> string \<times> u32 \<Rightarrow> nat \<Rightarrow> (string \<times> u32) result" where
  "print_header fileHeaderList = (\<lambda>(out, bitmask) i.
     bnd (b196167f_get fileHeaderList (of_nat i)) (\<lambda>p.
     bnd (deref p) (\<lambda>fileHeader.
     bnd (text_of (fh_fileName fileHeader)) (\<lambda>name.
     let (words, bitmask) = bit_words bitmask fileHeader
     in Inr (out @ file_header_text (of_nat i) fileHeader name words, bitmask)))))"

definition printCentralDirectory :: "FileHeader ListArray \<Rightarrow> string result" where
  "printCentralDirectory fileHeaderList =
     bnd (fold_result (print_header fileHeaderList) ([], 0x0001) [0..<unat (la_length fileHeaderList)]) (\<lambda>(out, _). Inr out)"

definition printLocalFileHeader :: "LocalFileHeader \<Rightarrow> FileHeader \<Rightarrow> u32 \<Rightarrow> string result" where
  "printLocalFileHeader localFileHeader fileHeader index =
     bnd (text_of (lh_fileName localFileHeader)) (\<lambda>name. Inr (
     ''LocalFileHeader #'' @ fmt_u index @ '':'' @ newline @
     show_line ''filename:             '' name @
     show_line ''signature:            '' (hex_text (unat (lh_signature localFileHeader))) @
     show_line ''needToExtractVersion: '' (fmt_u16 (lh_needToExtractVersion localFileHeader)) @
     show_line ''bitFlags:             '' (fmt_u16 (lh_bitFlags localFileHeader)) @
     show_line ''compressMethod:       '' (fmt_u16 (lh_compressMethod localFileHeader)) @
     show_line ''lastModFileTime:      '' (fmt_u16 (lh_lastModFileTime localFileHeader)) @
     show_line ''lastModFileDate:      '' (fmt_u16 (lh_lastModFileDate localFileHeader)) @
     show_line ''crc32:                '' (fmt_u (fh_crc32 fileHeader)) @
     show_line ''compressSize:         '' (fmt_u (fh_compressSize fileHeader)) @
     show_line ''uncompressSize:       '' (fmt_u (fh_uncompressSize fileHeader)) @
     show_line ''fileNameLen:          '' (fmt_u16 (lh_fileNameLen localFileHeader)) @
     show_line ''extraFieldLen:        '' (fmt_u16 (lh_extraFieldLen localFileHeader)) @ newline))"

subsection \<open>io/async: a context and a ticket\<close>

definition f1207515_printContext :: "AIOContext \<Rightarrow> string" where
  "f1207515_printContext aioContext =
     ''AIOContext ID: '' @ fmt_lu (ctx_id aioContext) @ newline @
     show_line ''Max Operations:     '' (fmt_u (maxOperations aioContext)) @
     show_line ''Total Num Requests: '' (fmt_u (ctx_numRequests aioContext)) @
     show_line ''Num Read Requests:  '' (fmt_u (numReadRequests aioContext)) @
     show_line ''Num Bytes Read:     '' (fmt_ld (ctx_numBytesRead aioContext) @ '' bytes'') @
     show_line ''Num Write Requests: '' (fmt_u (numWriteRequests aioContext)) @
     show_line ''Num Bytes Written:  '' (fmt_ld (ctx_numBytesWrite aioContext) @ '' bytes'') @ newline"

text \<open>A request of the ticket; its priority is printed as the signed number of 16 bits that it is.\<close>

definition request_text :: "(nat ptr \<Rightarrow> string) \<Rightarrow> u32 \<Rightarrow> nat ptr \<Rightarrow> AIORequest \<Rightarrow> string" where
  "request_text fmt_p i requestPtr r =
     newline @ ''AIORequest #'' @ fmt_u i @ '':'' @ newline @
     show_line ''pointer:        '' (fmt_p requestPtr) @
     show_line ''aio_data:       '' (fmt_lu (aio_data r)) @
     show_line ''aio_lio_opcode: '' (fmt_u16 (aio_lio_opcode r)) @
     show_line ''aio_reqprio:    '' (fmt_d (scast (aio_reqprio r))) @
     show_line ''aio_fildes:     '' (fmt_u (aio_fildes r)) @
     show_line ''aio_buf:        '' (fmt_p (aio_buf r)) @
     show_line ''aio_nbytes:     '' (fmt_lu (aio_nbytes r)) @
     show_line ''aio_offset:     '' (fmt_ld (aio_offset r)) @
     show_line ''aio_flags:      '' (fmt_u (aio_flags r))"

definition event_text :: "(nat ptr \<Rightarrow> string) \<Rightarrow> u32 \<Rightarrow> AIOEvent \<Rightarrow> string" where
  "event_text fmt_p i ev =
     newline @ ''AIOEvent #'' @ fmt_u i @ '':'' @ newline @
     show_line ''data:           '' (fmt_lu (ev_data ev)) @
     show_line ''obj:            '' (fmt_p (ev_obj ev)) @
     show_line ''res:            '' (fmt_ld (ev_res ev)) @
     show_line ''res2:           '' (fmt_ld (ev_res2 ev))"

definition f1207515_printTicket ::
    "(nat ptr \<Rightarrow> string) \<Rightarrow> (nat \<Rightarrow> AIORequest option) \<Rightarrow> AIOTicket \<Rightarrow> string result" where
  "f1207515_printTicket fmt_p store ticket =
     bnd (fold_result (\<lambda>out i.
            bnd (rd (requestList ticket) i) (\<lambda>requestPtr.
            bnd (deref requestPtr) (\<lambda>a.
            bnd (case store a of None \<Rightarrow> Inl Uninitialised | Some r \<Rightarrow> Inr r) (\<lambda>r. Inr (out @ request_text fmt_p (of_nat i) requestPtr r)))))
          (''Number of AIORequests: '' @ fmt_u (tk_numRequests ticket) @ newline) [0..<unat (tk_numRequests ticket)]) (\<lambda>out.
     bnd (fold_result (\<lambda>out i.
            bnd (rd (eventList ticket) i) (\<lambda>ev. Inr (out @ event_text fmt_p (of_nat i) ev)))
          (out @ newline @ ''Number of AIOEvents:   '' @ fmt_u (tk_numEvents ticket) @ newline @
           show_line ''Num Bytes Read:     '' (fmt_ld (tk_numBytesRead ticket) @ '' bytes'') @
           show_line ''Num Bytes Written:  '' (fmt_ld (tk_numBytesWrite ticket) @ '' bytes''))
          [0..<unat (tk_numEvents ticket)]) (\<lambda>out.
     Inr (out @ newline)))"

subsection \<open>Lemmas\<close>

text \<open>The words are those of a header on its own only for the first one: with the mask shifted, bit 0 is not looked at.\<close>

lemma even_and_not_one: "even w \<Longrightarrow> v AND w \<noteq> (1 :: u32)"
  by (metis bit_0 bit_and_iff bit_1_0)

lemma zero_local_header_never: "''zero local header '' \<notin> set (fst (bit_words bitmask fileHeader))"
proof -
  have "even (push_bit (Suc n) w)" for n and w :: u32 by (simp add: push_bit_eq_mult)
  then have "v AND push_bit 1 w \<noteq> 1" "v AND push_bit 2 (push_bit 1 w) \<noteq> 1" for v w :: u32
    by (auto intro!: even_and_not_one simp: push_bit_push_bit numeral_eq_Suc)
  moreover have "v AND push_bit 1 (push_bit 1 (push_bit 1 w)) \<noteq> 1" for v w :: u32
    by (intro even_and_not_one) (simp add: push_bit_eq_mult)
  ultimately show ?thesis
    by (simp add: bit_words_def deflate_option_def Let_def split: if_split)
qed

lemma encrypted_only_first:
  "''encrypted '' \<in> set (fst (bit_words bitmask fileHeader)) \<Longrightarrow> odd bitmask"
  using even_and_not_one [of bitmask]
  by (auto simp: bit_words_def deflate_option_def Let_def split: if_splits)

end
