(* ===== verification/TextCursor.thy ===== *)
theory TextCursor
  imports IntParse
begin

text \<open>
  Parsing in place, as log/logline.c and sysfs/memoryarray.c do it: a text in a block of chars is searched for
  the name of a field, and the field's value is closed by a NUL written over the char behind it. A
  pointer into the text is an index; the search of lang/string is repeated here on cells, because it
  may run over cells behind the text.
\<close>

fun search_cells :: "string \<Rightarrow> string \<Rightarrow> nat \<Rightarrow> char block \<Rightarrow> nat ptr result" where
  "search_cells pattern [] i b = Inr (Some i)"
| "search_cells pattern (p # ps) i [] = Inl OutOfBounds"
| "search_cells pattern (p # ps) i (None # b) = Inl Uninitialised"
| "search_cells pattern (p # ps) i (Some t # b) =
     (if t = NUL then Inr None
      else if p = t then search_cells pattern ps (i + 1) b
      else search_cells pattern pattern (i + 1) b)"

definition search_at :: "string \<Rightarrow> char block \<Rightarrow> nat ptr \<Rightarrow> nat ptr result" where
  "search_at pattern b position =
     (case position of None \<Rightarrow> Inr None | Some i \<Rightarrow> search_cells pattern pattern i (drop i b))"

definition text_at :: "char block \<Rightarrow> nat \<Rightarrow> string result" where
  "text_at b i = c_string (drop i b)"

text \<open>The index of the next char that ends the scan.\<close>

function scan_to :: "(char \<Rightarrow> bool) \<Rightarrow> char block \<Rightarrow> nat \<Rightarrow> nat result" where
  "scan_to stops b i = bnd (rd b i) (\<lambda>ch. if stops ch then Inr i else scan_to stops b (i + 1))"
  by pat_completeness auto
termination
  by (relation "measure (\<lambda>(stops, b, i). length b - i)") (auto simp: rd_eq_Inr)

declare scan_to.simps [simp del]

lemma scan_to_bounds: "scan_to stops b i = Inr j \<Longrightarrow> i \<le> j \<and> j < length b"
proof (induction stops b i rule: scan_to.induct)
  case (1 stops b i)
  note unfolded = 1(2) [unfolded scan_to.simps [of stops b i]]
  show ?case
  proof (cases "rd b i")
    case (Inr ch)
    then have len: "i < length b" by (simp add: rd_eq_Inr)
    show ?thesis
    proof (cases "stops ch")
      case True
      with Inr unfolded len show ?thesis by simp
    next
      case False
      with Inr unfolded have "scan_to stops b (i + 1) = Inr j" by simp
      from 1(1) [OF Inr False this] show ?thesis by simp
    qed
  qed (use unfolded in simp)
qed

text \<open>The NUL is written over that char; the result points behind it.\<close>

definition close_field :: "(char \<Rightarrow> bool) \<Rightarrow> char block \<Rightarrow> nat ptr \<Rightarrow> (char block \<times> nat) result" where
  "close_field stops b field =
     bnd (deref field) (\<lambda>i. bnd (scan_to stops b i) (\<lambda>j. bnd (wr b j NUL) (\<lambda>b. Inr (b, j + 1))))"

text \<open>fgets with room for \<open>n\<close> chars and a NUL: up to the end of the line, which is kept; NULL at the end of the input.\<close>

fun fgets :: "nat \<Rightarrow> string \<Rightarrow> (string \<times> string) ptr" where
  "fgets n [] = None"
| "fgets n (ch # inp) =
     (if n = 0 then Some ([], ch # inp)
      else if ch = CHR 0x0A then Some ([ch], inp)
      else case fgets (n - 1) inp of
             None \<Rightarrow> Some ([ch], inp)
           | Some (line, rest) \<Rightarrow> Some (ch # line, rest))"

subsection \<open>Lemmas\<close>

lemma stralloc_room:
  "n < 2 ^ 63 \<Longrightarrow> \<exists>buffer. (f668c4bd_stralloc n :: char block result) = Inr buffer \<and> n < length buffer"
  by (simp add: f668c4bd_stralloc_def Let_def)

lemma search_cells_string:
  assumes "NUL \<notin> set s"
  shows "search_cells pat ps i (map Some s @ Some NUL # b) =
         Inr (map_option (\<lambda>rest. i + length s - length rest) (search_loop pat ps s))"
  using assms
proof (induction pat ps s arbitrary: i rule: search_loop.induct)
  case (3 pat p ps t s)
  have shift: "map_option (\<lambda>rest. i + 1 + length s - length rest) =
               map_option (\<lambda>rest. i + length (t # s) - length rest)"
    by (intro ext) (simp add: option.map_comp)
  show ?case using 3 by (auto simp flip: shift)
qed (auto split: list.split)

text \<open>
  A pattern that is not found in the text before a stretch that cannot continue a partial match is
  found behind it, if it stands there.
\<close>

lemma search_loop_restart:
  assumes "search_loop pat ps gap = None" and "c \<notin> set pat" and "set ps \<subseteq> set pat"
  shows "search_loop pat ps (gap @ c # rest) = search_loop pat pat rest"
  using assms
proof (induction pat ps gap rule: search_loop.induct)
  case (2 pat p ps)
  then show ?case by (cases "p = c") auto
qed (auto split: if_splits)

lemma search_loop_here: "search_loop pat ps (ps @ rest) = Some rest"
  by (induction ps) (auto split: list.split)

lemma search_loop_None:
  assumes "\<And>pre post. s \<noteq> pre @ pat @ post"
  shows "search_loop pat pat s = None"
proof (cases "search_loop pat pat s")
  case (Some rest)
  with search_loop_sound [of pat pat s rest "[]"] assms show ?thesis by auto
qed

text \<open>A gap: empty, or text that ends with a char that is not in the pattern and before which the pattern is not found.\<close>

definition gap_for :: "string \<Rightarrow> string \<Rightarrow> bool" where
  "gap_for pat gap \<longleftrightarrow>
     gap = [] \<or> last gap \<notin> set pat \<and> search_loop pat pat (butlast gap) = None"

lemma search_gap: "gap_for pat gap \<Longrightarrow> search_loop pat pat (gap @ pat @ rest) = Some rest"
  by (cases gap rule: rev_cases) (auto simp: gap_for_def search_loop_restart search_loop_here)

lemma search_at_field:
  assumes "gap_for pat gap" and "NUL \<notin> set (gap @ pat @ rest)" and "i = length pre"
  shows "search_at pat (map Some (pre @ gap @ pat @ rest) @ Some NUL # b) (Some i) =
         Inr (Some (length (pre @ gap @ pat)))"
  using search_cells_string [OF assms(2), of pat pat i b] search_gap [OF assms(1), of rest] assms(3)
  by (simp add: search_at_def)

lemma search_at_missing:
  assumes "search_loop pat pat rest = None" and "NUL \<notin> set rest" and "i = length pre"
  shows "search_at pat (map Some (pre @ rest) @ Some NUL # b) (Some i) = Inr None"
  using search_cells_string [OF assms(2), of pat pat i b] assms(1,3) by (simp add: search_at_def)

lemma scan_to_end:
  assumes "\<forall>ch \<in> set v. \<not> stops ch" and "stops c" and "i = length pre"
  shows "scan_to stops (map Some (pre @ v @ [c]) @ b) i = Inr (length (pre @ v))"
  using assms
proof (induction v arbitrary: pre i)
  case Nil
  then show ?case by (simp add: scan_to.simps rd_def nth_append)
next
  case (Cons ch v)
  have "rd (map Some (pre @ (ch # v) @ [c]) @ b) i = Inr ch"
    using Cons.prems(3) by (simp add: rd_def nth_append)
  with Cons.IH [where pre = "pre @ [ch]" and i = "i + 1"] Cons.prems show ?case by (subst scan_to.simps) simp
qed

lemma close_field_end:
  assumes "\<forall>ch \<in> set v. \<not> stops ch" and "stops c"
  shows "close_field stops (map Some (pre @ v @ [c]) @ b) (Some (length pre)) =
         Inr (map Some (pre @ v @ [NUL]) @ b, length (pre @ v @ [NUL]))"
  using scan_to_end [OF assms refl, of pre b]
  by (simp add: close_field_def wr_def list_update_append)

text \<open>A closed field is read back, whatever stands behind it.\<close>

lemma text_at_field:
  assumes "NUL \<notin> set v" and "i = length pre"
  shows "text_at (map Some (pre @ v @ [NUL]) @ b) i = Inr v"
proof -
  have "holds (drop i (map Some (pre @ v @ [NUL]) @ b)) (v @ [NUL])"
    using assms(2) holds_append_cells [of "v @ [NUL]" b] by simp
  then show ?thesis unfolding text_at_def using assms(1) by (rule c_string_holds)
qed

text \<open>Reading depends on the cells up to the NUL only.\<close>

lemma c_string_mono:
  "c_string c = Inr v \<Longrightarrow> length v < m \<Longrightarrow> take m c' = take m c \<Longrightarrow> c_string c' = Inr v"
proof (induction c arbitrary: v c' m)
  case (Cons a c)
  from Cons.prems(2) obtain m' where m: "m = Suc m'" by (cases m) auto
  with Cons.prems(3) obtain c'' where c': "c' = a # c''" "take m' c'' = take m' c" by (cases c') auto
  show ?case
  proof (cases a)
    case None
    with Cons.prems(1) show ?thesis by simp
  next
    case (Some ch)
    show ?thesis
    proof (cases "ch = NUL")
      case True
      with Some Cons.prems(1) c' show ?thesis by simp
    next
      case False
      with Some Cons.prems(1) obtain v' where v: "c_string c = Inr v'" "v = ch # v'"
        by (auto simp: bnd_eq_Inr)
      have "c_string c'' = Inr v'" using Cons.IH [OF v(1) _ c'(2)] Cons.prems(2) m v(2) by simp
      with Some False v(2) c'(1) show ?thesis by simp
    qed
  qed
qed simp

lemma text_at_mono:
  assumes "text_at b i = Inr v" and "take n b' = take n b" and "i + length v < n"
  shows "text_at b' i = Inr v"
proof -
  have "take (n - i) (drop i b') = take (n - i) (drop i b)"
    using arg_cong [OF assms(2), of "drop i"] by (simp add: drop_take)
  moreover have "length v < n - i" using assms(3) by linarith
  ultimately show ?thesis using assms(1) c_string_mono [of "drop i b" v "n - i" "drop i b'"] by (simp add: text_at_def)
qed

end
