(* ===== verification/LogLine.thy ===== *)
theory LogLine
  imports TextCursor
begin

text \<open>
  log/logline.c: one line of the firewall's log, taken apart in place. The pointers of a LogLine are indices
  into the block of the line, except for the protocol name of IGMP, a constant. A malloc'ed LogLine has
  unset fields, of which macAddress can stay unset; \<open>None\<close> there means that it was never written.
\<close>

datatype text_ptr = InLine nat | IGMP

record LogLine =
  ll_in :: "nat ptr"
  ll_out :: "nat ptr"
  ll_macAddress :: "nat ptr option"
  ll_sourceIPAddr :: "nat ptr"
  ll_destIPAddr :: "nat ptr"
  ll_protocol :: "text_ptr ptr"
  ll_sourcePort :: u32
  ll_destPort :: u32
  ll_count :: u32
  ll_lineLength :: u32

definition b45c9f7e_createLogLine :: LogLine where
  "b45c9f7e_createLogLine =
     \<lparr>ll_in = None, ll_out = None, ll_macAddress = Some None, ll_sourceIPAddr = None, ll_destIPAddr = None,
      ll_protocol = None, ll_sourcePort = 0, ll_destPort = 0, ll_count = 0, ll_lineLength = 0\<rparr>"

text \<open>free needs the pointer that malloc returned, the start of the block.\<close>

definition b45c9f7e_destroyLogLine :: "LogLine \<Rightarrow> unit result" where
  "b45c9f7e_destroyLogLine logLine =
     (case ll_in logLine of None \<Rightarrow> Inr () | Some i \<Rightarrow> check (i = 0) Abort)"

definition terminateField :: "char block \<Rightarrow> nat ptr \<Rightarrow> (char block \<times> nat) result" where
  "terminateField b field = close_field (\<lambda>ch. ch = NUL \<or> ch = CHR '' '') b field"

text \<open>The search for a field and its termination, which come in pairs; \<open>position\<close> is where the search starts.\<close>

definition take_field :: "string \<Rightarrow> char block \<Rightarrow> nat \<Rightarrow> (nat ptr \<times> char block \<times> nat) result" where
  "take_field name b position =
     bnd (search_at name b (Some position)) (\<lambda>field.
     bnd (terminateField b field) (\<lambda>(b, position). Inr (field, b, position)))"

definition protocol_text :: "char block \<Rightarrow> text_ptr ptr \<Rightarrow> string result" where
  "protocol_text b protocol =
     bnd (deref protocol) (\<lambda>p. case p of InLine i \<Rightarrow> text_at b i | IGMP \<Rightarrow> Inr ''IGMP'')"

text \<open>The number in the next field of the name.\<close>

definition take_number :: "env \<Rightarrow> string \<Rightarrow> char block \<Rightarrow> nat \<Rightarrow> (u32 \<times> char block \<times> nat) result" where
  "take_number e name b position =
     bnd (take_field name b position) (\<lambda>(field, b, position).
     bnd (deref field) (\<lambda>i. bnd (text_at b i) (\<lambda>s.
     bnd (f45efac2_parse_uint32 e s) (\<lambda>n. Inr (n, b, position)))))"

definition init_ports :: "env \<Rightarrow> char block \<Rightarrow> nat \<Rightarrow> LogLine \<Rightarrow> (char block \<times> LogLine) result" where
  "init_ports e b position logLine =
     bnd (protocol_text b (ll_protocol logLine)) (\<lambda>protocol.
     if f6215943_startsWith ''ICMP'' protocol \<noteq> None then
       bnd (take_number e ''TYPE='' b position) (\<lambda>(icmpType, b, position).
       Inr (b, logLine\<lparr>ll_sourcePort := icmpType, ll_destPort := 0\<rparr>))
     else if f6215943_isEqual (Some ''2'') (Some protocol) then
       Inr (b, logLine\<lparr>ll_protocol := Some IGMP, ll_sourcePort := 0, ll_destPort := 0\<rparr>)
     else
       bnd (take_number e ''SPT='' b position) (\<lambda>(sourcePort, b, position).
       bnd (take_number e ''DPT='' b position) (\<lambda>(destPort, b, position).
       Inr (b, logLine\<lparr>ll_sourcePort := sourcePort, ll_destPort := destPort\<rparr>))))"

text \<open>\<open>value\<close> is the value of the Line.\<close>

definition b45c9f7e_initLogLine :: "env \<Rightarrow> char block \<Rightarrow> LogLine \<Rightarrow> nat ptr \<Rightarrow> (char block \<times> LogLine) result" where
  "b45c9f7e_initLogLine e b logLine value =
     bnd (search_at ''IN='' b value) (\<lambda>inField.
     bnd (terminateField b inField) (\<lambda>(b, position).
     bnd (take_field ''OUT='' b position) (\<lambda>(outField, b, position).
     bnd (search_at ''MAC='' b (Some position)) (\<lambda>mac.
     bnd (case mac of None \<Rightarrow> Inr (b, position) | Some m \<Rightarrow> terminateField b mac) (\<lambda>(b, position).
     bnd (take_field ''SRC='' b position) (\<lambda>(src, b, position).
     bnd (take_field ''DST='' b position) (\<lambda>(dst, b, position).
     bnd (take_field ''PROTO='' b position) (\<lambda>(protocol, b, position).
     bnd (deref inField) (\<lambda>i.
     bnd (init_ports e b position (logLine\<lparr>ll_in := inField, ll_out := outField, ll_macAddress := Some mac,
            ll_sourceIPAddr := src, ll_destIPAddr := dst, ll_protocol := map_option InLine protocol,
            ll_lineLength := of_int (int position - int i)\<rparr>)) (\<lambda>(b, logLine).
     Inr (b, logLine\<lparr>ll_count := 1\<rparr>)))))))))))"

text \<open>
  The clone has a block of its own with a copy of the line from the first field on. A pointer of the
  clone is \<open>clone->in + (p - in)\<close>; a \<open>p\<close> that is NULL or before \<open>in\<close> would give a pointer outside the copy.
\<close>

definition rebase :: "nat \<Rightarrow> nat ptr \<Rightarrow> nat ptr result" where
  "rebase i p =
     (case p of None \<Rightarrow> Inl OutOfBounds | Some p \<Rightarrow> bnd (check (i \<le> p) OutOfBounds) (\<lambda>_. Inr (Some (p - i))))"

definition copy_line :: "char block \<Rightarrow> nat \<Rightarrow> nat \<Rightarrow> char block result" where
  "copy_line b i numBytes =
     bnd (f668c4bd_stralloc numBytes) (\<lambda>buffer.
     if numBytes = 0 then Inr buffer
     else bnd (blit b i numBytes buffer 0) (\<lambda>buffer. wr buffer numBytes NUL))"

definition b45c9f7e_cloneLogLine :: "char block \<Rightarrow> LogLine \<Rightarrow> (char block \<times> LogLine) result" where
  "b45c9f7e_cloneLogLine b logLine =
     bnd (deref (ll_in logLine)) (\<lambda>i.
     bnd (copy_line b i (unat (ll_lineLength logLine))) (\<lambda>c.
     bnd (rebase i (ll_out logLine)) (\<lambda>outField.
     bnd (case ll_macAddress logLine of
            None \<Rightarrow> Inl Uninitialised
          | Some None \<Rightarrow> Inr None
          | Some (Some m) \<Rightarrow> bnd (rebase i (Some m)) (\<lambda>p. Inr (Some p))) (\<lambda>mac.
     bnd (rebase i (ll_sourceIPAddr logLine)) (\<lambda>src.
     bnd (rebase i (ll_destIPAddr logLine)) (\<lambda>dst.
     bnd (if ll_protocol logLine = None then Inl OutOfBounds else protocol_text b (ll_protocol logLine)) (\<lambda>protocol.
     bnd (if f6215943_isEqual (Some ''IGMP'') (Some protocol) then Inr (Some IGMP, 0, 0)
          else case ll_protocol logLine of
                 Some (InLine p) \<Rightarrow> bnd (rebase i (Some p)) (\<lambda>p.
                   Inr (map_option InLine p, ll_sourcePort logLine, ll_destPort logLine))
               | _ \<Rightarrow> Inl OutOfBounds) (\<lambda>(protocol, sourcePort, destPort).
     Inr (c, \<lparr>ll_in = Some 0, ll_out = outField, ll_macAddress = mac, ll_sourceIPAddr = src,
              ll_destIPAddr = dst, ll_protocol = protocol, ll_sourcePort = sourcePort, ll_destPort = destPort,
              ll_count = ll_count logLine, ll_lineLength = ll_lineLength logLine\<rparr>)))))))))"

subsection \<open>A line in the firewall's format\<close>

text \<open>What stands behind the protocol: two ports, the type of an ICMP message, nothing for IGMP, or no port where one is looked for.\<close>

datatype transport = Ports u32 u32 | IcmpType u32 | Igmp | NoPorts

record packet =
  pk_in :: string
  pk_out :: string
  pk_mac :: "string option"
  pk_src :: string
  pk_dst :: string
  pk_proto :: string
  pk_transport :: transport

abbreviation space :: char where "space \<equiv> CHR '' ''"

definition field :: "string \<Rightarrow> string \<Rightarrow> string" where
  "field name v = name @ v @ [space]"

definition ports_text :: "packet \<Rightarrow> string \<Rightarrow> string" where
  "ports_text p tail =
     (case pk_transport p of
        Ports spt dpt \<Rightarrow> field ''SPT='' (dec_string (unat spt)) @ field ''DPT='' (dec_string (unat dpt)) @ tail
      | IcmpType t \<Rightarrow> field ''TYPE='' (dec_string (unat t)) @ tail
      | _ \<Rightarrow> tail)"

definition address_text :: "packet \<Rightarrow> string \<Rightarrow> string \<Rightarrow> string" where
  "address_text p mid tail =
     field ''SRC='' (pk_src p) @ field ''DST='' (pk_dst p) @ mid @ field ''PROTO='' (pk_proto p) @ ports_text p tail"

definition mac_text :: "packet \<Rightarrow> string" where
  "mac_text p = (case pk_mac p of None \<Rightarrow> [] | Some m \<Rightarrow> field ''MAC='' m)"

text \<open>Free text may stand before the first field, between the addresses and the protocol, and at the end.\<close>

definition log_text :: "string \<Rightarrow> packet \<Rightarrow> string \<Rightarrow> string \<Rightarrow> string" where
  "log_text head p mid tail =
     head @ field ''IN='' (pk_in p) @ field ''OUT='' (pk_out p) @ mac_text p @ address_text p mid tail"

definition gap_ok :: "string \<Rightarrow> string \<Rightarrow> bool" where
  "gap_ok name gap \<longleftrightarrow> (gap = [] \<or> last gap = space) \<and> \<not> sublist name gap \<and> NUL \<notin> set gap"

definition value_ok :: "string \<Rightarrow> bool" where
  "value_ok v \<longleftrightarrow> NUL \<notin> set v \<and> space \<notin> set v"

text \<open>IGMP is number 2, and every protocol that begins with ICMP has a type.\<close>

definition transport_ok :: "packet \<Rightarrow> string \<Rightarrow> bool" where
  "transport_ok p tail \<longleftrightarrow>
     (case pk_transport p of
        Igmp \<Rightarrow> pk_proto p = ''2''
      | IcmpType t \<Rightarrow> prefix ''ICMP'' (pk_proto p)
      | Ports spt dpt \<Rightarrow> \<not> prefix ''ICMP'' (pk_proto p) \<and> pk_proto p \<noteq> ''2''
      | NoPorts \<Rightarrow> \<not> prefix ''ICMP'' (pk_proto p) \<and> pk_proto p \<noteq> ''2'' \<and> \<not> sublist ''SPT='' tail)"

definition log_ok :: "string \<Rightarrow> packet \<Rightarrow> string \<Rightarrow> string \<Rightarrow> bool" where
  "log_ok head p mid tail \<longleftrightarrow>
     gap_ok ''IN='' head \<and> gap_ok ''PROTO='' mid \<and> NUL \<notin> set tail \<and>
     (\<forall>v \<in> {pk_in p, pk_out p, pk_src p, pk_dst p, pk_proto p}. value_ok v) \<and>
     (case pk_mac p of Some m \<Rightarrow> value_ok m | None \<Rightarrow> \<not> sublist ''MAC='' (address_text p mid tail)) \<and>
     transport_ok p tail \<and> length (log_text head p mid tail) < 2 ^ 32"

text \<open>The cells of a line: what is taken apart already, what is left, and whatever lies behind the NUL.\<close>

abbreviation line :: "string \<Rightarrow> string \<Rightarrow> char block \<Rightarrow> char block" where
  "line pre rest beyond \<equiv> map Some (pre @ rest) @ Some NUL # beyond"

definition closed :: "string \<Rightarrow> string \<Rightarrow> string" where
  "closed name v = name @ v @ [NUL]"

lemma gap_ok_for: "gap_ok name gap \<Longrightarrow> space \<notin> set name \<Longrightarrow> gap_for name gap"
proof (cases gap rule: rev_cases)
  case (snoc g c)
  assume *: "gap_ok name gap" "space \<notin> set name"
  have "g \<noteq> u @ name @ v" for u v
  proof
    assume "g = u @ name @ v"
    with snoc have "gap = u @ name @ (v @ [c])" by simp
    with *(1) show False unfolding gap_ok_def sublist_def by metis
  qed
  then have "search_loop name name g = None" by (rule search_loop_None)
  then show ?thesis using * snoc by (simp add: gap_for_def gap_ok_def)
qed (simp add: gap_for_def)

lemma terminateField_ok:
  assumes "value_ok v"
  shows "terminateField (line (pre @ name) (v @ space # rest) beyond) (Some (length (pre @ name))) =
         Inr (line (pre @ closed name v) rest beyond, length (pre @ closed name v))"
  using close_field_end [of v "\<lambda>ch. ch = NUL \<or> ch = space" space "pre @ name" "map Some rest @ Some NUL # beyond"] assms
  by (auto simp: terminateField_def closed_def value_ok_def)

lemma search_field_ok:
  assumes "gap_ok name gap" and "space \<notin> set name" and "NUL \<notin> set (name @ rest)" and "value_ok v"
  shows "search_at name (line pre (gap @ field name v @ rest) beyond) (Some (length pre)) =
         Inr (Some (length (pre @ gap @ name)))"
proof -
  have "NUL \<notin> set (gap @ name @ v @ space # rest)"
    using assms by (simp add: gap_ok_def value_ok_def)
  from search_at_field [OF gap_ok_for [OF assms(1,2)] this refl, of pre beyond] show ?thesis
    by (simp add: field_def)
qed

lemma take_field_ok:
  assumes "gap_ok name gap" and "space \<notin> set name" and "NUL \<notin> set (name @ rest)" and "value_ok v"
  shows "take_field name (line pre (gap @ field name v @ rest) beyond) (length pre) =
         Inr (Some (length (pre @ gap @ name)), line (pre @ gap @ closed name v) rest beyond,
              length (pre @ gap @ closed name v))"
  using terminateField_ok [OF assms(4), of "pre @ gap" name rest beyond] search_field_ok [OF assms, of pre beyond]
  by (simp add: take_field_def field_def)

lemma gap_ok_Nil [simp]: "name \<noteq> [] \<Longrightarrow> gap_ok name []"
  by (simp add: gap_ok_def)

lemma value_ok_dec: "value_ok (dec_string n)"
proof -
  have "is_digit ch \<Longrightarrow> ch \<noteq> NUL \<and> ch \<noteq> space" for ch
    by (auto simp: is_digit_def digit_of_def schar_def)
  then show ?thesis using dec_string_digits [of n] by (auto simp: value_ok_def)
qed

lemma take_number_ok:
  assumes "name \<noteq> []" and "space \<notin> set name" and "NUL \<notin> set (name @ rest)"
  shows "take_number e name (line pre (field name (dec_string (unat n)) @ rest) beyond) (length pre) =
         Inr (n, line (pre @ closed name (dec_string (unat n))) rest beyond,
              length (pre @ closed name (dec_string (unat n))))"
proof -
  let ?v = "dec_string (unat n)"
  have "text_at (line (pre @ closed name ?v) rest beyond) (length (pre @ name)) = Inr ?v"
    using text_at_field [of ?v _ "pre @ name" "map Some rest @ Some NUL # beyond"] value_ok_dec
    by (simp add: closed_def value_ok_def)
  moreover have "f45efac2_parse_uint32 e ?v = Inr n"
    using parse_uint32_digits [OF dec_string_digits] by (simp add: dec_string_value)
  ultimately show ?thesis
    using take_field_ok [OF gap_ok_Nil [OF assms(1)] assms(2,3) value_ok_dec, of pre "unat n" beyond]
    by (simp add: take_number_def)
qed

text \<open>What a line becomes, and where the fields are in it.\<close>

definition closed_mac :: "packet \<Rightarrow> string" where
  "closed_mac p = (case pk_mac p of None \<Rightarrow> [] | Some m \<Rightarrow> closed ''MAC='' m)"

definition to_src :: "string \<Rightarrow> packet \<Rightarrow> string" where
  "to_src head p = head @ closed ''IN='' (pk_in p) @ closed ''OUT='' (pk_out p) @ closed_mac p"

definition to_ports :: "string \<Rightarrow> packet \<Rightarrow> string \<Rightarrow> string" where
  "to_ports head p mid =
     to_src head p @ closed ''SRC='' (pk_src p) @ closed ''DST='' (pk_dst p) @ mid @ closed ''PROTO='' (pk_proto p)"

definition to_tail :: "string \<Rightarrow> packet \<Rightarrow> string \<Rightarrow> string" where
  "to_tail head p mid =
     to_ports head p mid @
     (case pk_transport p of
        Ports spt dpt \<Rightarrow> closed ''SPT='' (dec_string (unat spt)) @ closed ''DPT='' (dec_string (unat dpt))
      | IcmpType t \<Rightarrow> closed ''TYPE='' (dec_string (unat t))
      | _ \<Rightarrow> [])"

text \<open>The protocol, which becomes a constant for IGMP, and the two numbers that a LogLine has for a packet.\<close>

definition shown_protocol :: "packet \<Rightarrow> string" where
  "shown_protocol p = (if pk_transport p = Igmp then ''IGMP'' else pk_proto p)"

definition port_fields :: "packet \<Rightarrow> u32 \<times> u32" where
  "port_fields p = (case pk_transport p of Ports spt dpt \<Rightarrow> (spt, dpt) | IcmpType t \<Rightarrow> (t, 0) | _ \<Rightarrow> (0, 0))"

definition in_index :: "string \<Rightarrow> nat" where
  "in_index head = length (head @ ''IN='')"

definition out_index :: "string \<Rightarrow> packet \<Rightarrow> nat" where
  "out_index head p = length (head @ closed ''IN='' (pk_in p) @ ''OUT='')"

definition mac_index :: "string \<Rightarrow> packet \<Rightarrow> nat ptr" where
  "mac_index head p =
     (if pk_mac p = None then None
      else Some (length (head @ closed ''IN='' (pk_in p) @ closed ''OUT='' (pk_out p) @ ''MAC='')))"

definition src_index :: "string \<Rightarrow> packet \<Rightarrow> nat" where
  "src_index head p = length (to_src head p @ ''SRC='')"

definition dst_index :: "string \<Rightarrow> packet \<Rightarrow> nat" where
  "dst_index head p = length (to_src head p @ closed ''SRC='' (pk_src p) @ ''DST='')"

definition proto_index :: "string \<Rightarrow> packet \<Rightarrow> string \<Rightarrow> nat" where
  "proto_index head p mid =
     length (to_src head p @ closed ''SRC='' (pk_src p) @ closed ''DST='' (pk_dst p) @ mid @ ''PROTO='')"

definition log_line_of :: "string \<Rightarrow> packet \<Rightarrow> string \<Rightarrow> LogLine" where
  "log_line_of head p mid =
     \<lparr>ll_in = Some (in_index head), ll_out = Some (out_index head p), ll_macAddress = Some (mac_index head p),
      ll_sourceIPAddr = Some (src_index head p), ll_destIPAddr = Some (dst_index head p),
      ll_protocol = Some (if pk_transport p = Igmp then IGMP else InLine (proto_index head p mid)),
      ll_sourcePort = fst (port_fields p), ll_destPort = snd (port_fields p),
      ll_count = 1, ll_lineLength = of_nat (length (to_ports head p mid) - in_index head)\<rparr>"

lemma field_no_NUL: "value_ok v \<Longrightarrow> NUL \<notin> set name \<Longrightarrow> NUL \<notin> set (field name v)"
  by (simp add: field_def value_ok_def)

lemma log_ok_no_NUL:
  assumes "log_ok head p mid tail"
  shows "NUL \<notin> set (ports_text p tail)" "NUL \<notin> set (address_text p mid tail)" "NUL \<notin> set (mac_text p)"
    "NUL \<notin> set (log_text head p mid tail)"
proof -
  show t: "NUL \<notin> set (ports_text p tail)"
    using assms field_no_NUL [OF value_ok_dec] by (simp add: log_ok_def ports_text_def split: transport.split)
  show a: "NUL \<notin> set (address_text p mid tail)"
    using assms t by (simp add: log_ok_def address_text_def field_no_NUL gap_ok_def)
  show m: "NUL \<notin> set (mac_text p)"
    using assms by (auto simp: log_ok_def mac_text_def field_no_NUL split: option.splits)
  show "NUL \<notin> set (log_text head p mid tail)"
    using assms a m by (simp add: log_ok_def log_text_def field_no_NUL gap_ok_def)
qed

lemma mac_ok:
  assumes "log_ok head p mid tail" and "pre = head @ closed ''IN='' (pk_in p) @ closed ''OUT='' (pk_out p)"
  shows "\<exists>b position. search_at ''MAC='' (line pre (mac_text p @ address_text p mid tail) beyond) (Some (length pre))
             = Inr (mac_index head p) \<and>
           (case mac_index head p of
              None \<Rightarrow> Inr (line pre (mac_text p @ address_text p mid tail) beyond, length pre)
            | Some m \<Rightarrow> terminateField (line pre (mac_text p @ address_text p mid tail) beyond) (mac_index head p))
             = Inr (line (to_src head p) (address_text p mid tail) beyond, length (to_src head p))"
proof (cases "pk_mac p")
  case None
  have "search_loop ''MAC='' ''MAC='' (address_text p mid tail) = None"
    using assms(1) None by (intro search_loop_None) (auto simp: log_ok_def sublist_def)
  from search_at_missing [OF this log_ok_no_NUL(2) [OF assms(1)] refl, of pre beyond] None assms(2)
  show ?thesis by (simp add: mac_index_def mac_text_def to_src_def closed_mac_def)
next
  case (Some m)
  have v: "value_ok m" using assms(1) Some by (simp add: log_ok_def)
  have n: "NUL \<notin> set (''MAC='' @ address_text p mid tail)" using log_ok_no_NUL(2) [OF assms(1)] by simp
  from search_field_ok [OF gap_ok_Nil _ n v, of pre beyond]
    terminateField_ok [OF v, of pre "''MAC=''" "address_text p mid tail" beyond] Some assms(2)
  show ?thesis by (simp add: mac_index_def mac_text_def to_src_def closed_mac_def field_def)
qed

lemma protocol_at:
  assumes "log_ok head p mid tail"
  shows "text_at (line (to_ports head p mid) rest beyond) (proto_index head p mid) = Inr (pk_proto p)"
proof -
  let ?pre = "to_src head p @ closed ''SRC='' (pk_src p) @ closed ''DST='' (pk_dst p) @ mid @ ''PROTO=''"
  have "NUL \<notin> set (pk_proto p)" using assms by (simp add: log_ok_def value_ok_def)
  from text_at_field [OF this refl, of ?pre "map Some rest @ Some NUL # beyond"]
  show ?thesis by (simp add: to_ports_def proto_index_def closed_def)
qed

lemma init_ports_ok:
  assumes ok: "log_ok head p mid tail" and l: "ll_protocol l = Some (InLine (proto_index head p mid))"
    and "pk_transport p \<noteq> NoPorts"
  shows "init_ports e (line (to_ports head p mid) (ports_text p tail) beyond) (length (to_ports head p mid)) l =
         Inr (line (to_tail head p mid) tail beyond,
              l\<lparr>ll_protocol := Some (if pk_transport p = Igmp then IGMP else InLine (proto_index head p mid)),
                ll_sourcePort := fst (port_fields p), ll_destPort := snd (port_fields p)\<rparr>)"
proof -
  let ?pre = "to_ports head p mid"
  note proto = protocol_at [OF ok, of "ports_text p tail" beyond]
  have t: "NUL \<notin> set tail" and tr: "transport_ok p tail" using ok by (simp_all add: log_ok_def)
  have same: "l\<lparr>ll_protocol := Some (InLine (proto_index head p mid))\<rparr> = l" using l by (cases l) simp
  show ?thesis
  proof (cases "pk_transport p")
    case (Ports spt dpt)
    let ?rest = "field ''DPT='' (dec_string (unat dpt)) @ tail"
    have "f6215943_startsWith ''ICMP'' (pk_proto p) = None" and "pk_proto p \<noteq> ''2''"
      using tr Ports by (auto simp: transport_ok_def startsWith_None)
    moreover have "NUL \<notin> set ?rest" using t field_no_NUL [OF value_ok_dec] by simp
    ultimately show ?thesis
      using l proto t same Ports
        take_number_ok [of "''SPT=''" ?rest e ?pre spt beyond]
        take_number_ok [of "''DPT=''" tail e "?pre @ closed ''SPT='' (dec_string (unat spt))" dpt beyond]
      by (simp add: init_ports_def protocol_text_def isEqual_iff ports_text_def to_tail_def port_fields_def)
  next
    case (IcmpType ty)
    have "f6215943_startsWith ''ICMP'' (pk_proto p) \<noteq> None"
      using tr IcmpType startsWith_None [of "''ICMP''" "pk_proto p"] by (auto simp: transport_ok_def)
    then show ?thesis
      using l proto t same IcmpType take_number_ok [of "''TYPE=''" tail e ?pre ty beyond]
      by (simp add: init_ports_def protocol_text_def ports_text_def to_tail_def port_fields_def)
  next
    case Igmp
    have "f6215943_startsWith ''ICMP'' ''2'' = None" by (simp add: startsWith_None)
    moreover have "pk_proto p = ''2''" using tr Igmp by (simp add: transport_ok_def)
    ultimately show ?thesis
      using l proto Igmp by (simp add: init_ports_def protocol_text_def isEqual_iff ports_text_def to_tail_def port_fields_def)
  next
    case NoPorts
    then show ?thesis using assms(3) by simp
  qed
qed

text \<open>Without a port the search finds nothing, and its result is dereferenced.\<close>

lemma init_ports_faults:
  assumes ok: "log_ok head p mid tail" and l: "ll_protocol l = Some (InLine (proto_index head p mid))"
    and no: "pk_transport p = NoPorts"
  shows "init_ports e (line (to_ports head p mid) (ports_text p tail) beyond) (length (to_ports head p mid)) l = Inl NullPointer"
proof -
  have t: "NUL \<notin> set tail" and tr: "transport_ok p tail" using ok by (simp_all add: log_ok_def)
  have "search_loop ''SPT='' ''SPT='' tail = None"
    using tr no by (intro search_loop_None) (auto simp: transport_ok_def sublist_def)
  from search_at_missing [OF this t refl, of "to_ports head p mid" beyond]
  have "take_number e ''SPT='' (line (to_ports head p mid) tail beyond) (length (to_ports head p mid)) = Inl NullPointer"
    by (simp add: take_number_def take_field_def terminateField_def close_field_def)
  moreover have "f6215943_startsWith ''ICMP'' (pk_proto p) = None" and "pk_proto p \<noteq> ''2''"
    using tr no by (auto simp: transport_ok_def startsWith_None)
  ultimately show ?thesis
    using l no protocol_at [OF ok, of tail beyond]
    by (simp add: init_ports_def protocol_text_def isEqual_iff ports_text_def)
qed

lemma initLogLine_ports:
  assumes "log_ok head p mid tail"
  shows "b45c9f7e_initLogLine e (line [] (log_text head p mid tail) beyond) l (Some 0) =
         bnd (init_ports e (line (to_ports head p mid) (ports_text p tail) beyond) (length (to_ports head p mid))
                (l\<lparr>ll_in := Some (in_index head), ll_out := Some (out_index head p), ll_macAddress := Some (mac_index head p),
                  ll_sourceIPAddr := Some (src_index head p), ll_destIPAddr := Some (dst_index head p),
                  ll_protocol := Some (InLine (proto_index head p mid)),
                  ll_lineLength := of_nat (length (to_ports head p mid) - in_index head)\<rparr>)) (\<lambda>(b, l).
         Inr (b, l\<lparr>ll_count := 1\<rparr>))"
proof -
  note free = log_ok_no_NUL [OF assms]
  let ?p1 = "head @ closed ''IN='' (pk_in p)"
  let ?p2 = "?p1 @ closed ''OUT='' (pk_out p)"
  let ?r2 = "mac_text p @ address_text p mid tail"
  let ?r1 = "field ''OUT='' (pk_out p) @ ?r2"
  let ?r4 = "field ''DST='' (pk_dst p) @ mid @ field ''PROTO='' (pk_proto p) @ ports_text p tail"
  let ?r5 = "mid @ field ''PROTO='' (pk_proto p) @ ports_text p tail"
  have v: "value_ok (pk_in p)" "value_ok (pk_out p)" "value_ok (pk_src p)" "value_ok (pk_dst p)" "value_ok (pk_proto p)"
    and g: "gap_ok ''IN='' head" "gap_ok ''PROTO='' mid" and len: "length (log_text head p mid tail) < 2 ^ 32"
    using assms by (simp_all add: log_ok_def)
  have n: "NUL \<notin> set (''IN='' @ ?r1)" "NUL \<notin> set (''OUT='' @ ?r2)" "NUL \<notin> set (''SRC='' @ ?r4)"
    "NUL \<notin> set (''DST='' @ ?r5)" "NUL \<notin> set (''PROTO='' @ ports_text p tail)"
    using free v g(2) by (simp_all add: field_no_NUL gap_ok_def)
  have 1: "search_at ''IN='' (line [] (log_text head p mid tail) beyond) (Some 0) = Inr (Some (in_index head))"
    using search_field_ok [OF g(1) _ n(1) v(1), of "[]" beyond] by (simp add: log_text_def in_index_def)
  have 2: "terminateField (line [] (log_text head p mid tail) beyond) (Some (in_index head)) =
           Inr (line ?p1 ?r1 beyond, length ?p1)"
    using terminateField_ok [OF v(1), of head "''IN=''" ?r1 beyond] by (simp add: log_text_def in_index_def field_def)
  have 3: "take_field ''OUT='' (line ?p1 ?r1 beyond) (length ?p1) =
           Inr (Some (out_index head p), line ?p2 ?r2 beyond, length ?p2)"
    using take_field_ok [OF gap_ok_Nil _ n(2) v(2), of ?p1 beyond] by (simp add: out_index_def)
  have 4: "take_field ''SRC='' (line (to_src head p) (address_text p mid tail) beyond) (length (to_src head p)) =
           Inr (Some (src_index head p), line (to_src head p @ closed ''SRC='' (pk_src p)) ?r4 beyond,
                length (to_src head p @ closed ''SRC='' (pk_src p)))"
    using take_field_ok [OF gap_ok_Nil _ n(3) v(3), of "to_src head p" beyond]
    by (simp add: src_index_def address_text_def)
  let ?p5 = "to_src head p @ closed ''SRC='' (pk_src p) @ closed ''DST='' (pk_dst p)"
  have 5: "take_field ''DST='' (line (to_src head p @ closed ''SRC='' (pk_src p)) ?r4 beyond)
             (length (to_src head p @ closed ''SRC='' (pk_src p))) =
           Inr (Some (dst_index head p), line ?p5 ?r5 beyond, length ?p5)"
    using take_field_ok [OF gap_ok_Nil _ n(4) v(4), of "to_src head p @ closed ''SRC='' (pk_src p)" beyond]
    by (simp add: dst_index_def)
  have 6: "take_field ''PROTO='' (line ?p5 ?r5 beyond) (length ?p5) =
           Inr (Some (proto_index head p mid), line (to_ports head p mid) (ports_text p tail) beyond,
                length (to_ports head p mid))"
    using take_field_ok [OF g(2) _ n(5) v(5), of ?p5 beyond] by (simp add: proto_index_def to_ports_def)
  obtain b pos where 7: "search_at ''MAC='' (line ?p2 ?r2 beyond) (Some (length ?p2)) = Inr (mac_index head p)"
    "(case mac_index head p of None \<Rightarrow> Inr (line ?p2 ?r2 beyond, length ?p2)
      | Some m \<Rightarrow> terminateField (line ?p2 ?r2 beyond) (mac_index head p))
       = Inr (line (to_src head p) (address_text p mid tail) beyond, length (to_src head p))"
    using mac_ok [OF assms, of ?p2 beyond] by auto
  have le: "in_index head \<le> length (to_ports head p mid)"
    by (simp add: in_index_def to_ports_def to_src_def closed_def)
  show ?thesis
    unfolding b45c9f7e_initLogLine_def 1 bnd_Inr 2 prod.case 3 7 4 5 6 deref_simps
    using le by (simp flip: of_nat_diff)
qed

lemma initLogLine_ok:
  assumes "log_ok head p mid tail" and "pk_transport p \<noteq> NoPorts"
  shows "b45c9f7e_initLogLine e (line [] (log_text head p mid tail) beyond) l (Some 0) =
         Inr (line (to_tail head p mid) tail beyond, log_line_of head p mid)"
  unfolding initLogLine_ports [OF assms(1)]
  by (subst init_ports_ok [OF assms(1) _ assms(2)]) (simp_all add: log_line_of_def)

lemma initLogLine_faults:
  assumes "log_ok head p mid tail" and "pk_transport p = NoPorts"
  shows "b45c9f7e_initLogLine e (line [] (log_text head p mid tail) beyond) l (Some 0) = Inl NullPointer"
  unfolding initLogLine_ports [OF assms(1)] by (subst init_ports_faults [OF assms(1) _ assms(2)]) simp_all

subsection \<open>The fields of a line and of its clone\<close>

text \<open>The texts that a line's pointers show; \<open>no_mac\<close> is the cell of macAddress for a packet without one.\<close>

definition depicts :: "char block \<Rightarrow> LogLine \<Rightarrow> packet \<Rightarrow> nat ptr option \<Rightarrow> bool" where
  "depicts b l p no_mac \<longleftrightarrow>
     bnd (deref (ll_in l)) (text_at b) = Inr (pk_in p) \<and> bnd (deref (ll_out l)) (text_at b) = Inr (pk_out p) \<and>
     (case pk_mac p of
        None \<Rightarrow> ll_macAddress l = no_mac
      | Some m \<Rightarrow> \<exists>i. ll_macAddress l = Some (Some i) \<and> text_at b i = Inr m) \<and>
     bnd (deref (ll_sourceIPAddr l)) (text_at b) = Inr (pk_src p) \<and>
     bnd (deref (ll_destIPAddr l)) (text_at b) = Inr (pk_dst p) \<and>
     protocol_text b (ll_protocol l) = Inr (shown_protocol p) \<and>
     (ll_sourcePort l, ll_destPort l) = port_fields p \<and> ll_count l = 1"

text \<open>A copy of the line from index \<open>d\<close> on, with everything shifted.\<close>

definition copied :: "char block \<Rightarrow> nat \<Rightarrow> string \<Rightarrow> bool" where
  "copied b d s \<longleftrightarrow> take (length s - d) b = map Some (drop d s)"

lemma copied_text_at:
  assumes "copied b d (pre @ v @ [NUL] @ post)" and "d \<le> length pre" and "NUL \<notin> set v"
  shows "text_at b (length pre - d) = Inr v"
proof -
  let ?n = "length (pre @ v @ [NUL] @ post) - d"
  have "b = take ?n b @ drop ?n b" by simp
  also have "\<dots> = map Some (drop d pre @ v @ [NUL]) @ (map Some post @ drop ?n b)"
    using assms(1,2) by (simp add: copied_def)
  finally have "b = map Some (drop d pre @ v @ [NUL]) @ (map Some post @ drop ?n b)" .
  moreover have "length pre - d = length (drop d pre)" by simp
  ultimately show ?thesis using text_at_field [OF assms(3)] by metis
qed

lemma fields_shown:
  assumes "log_ok head p mid tail" and "copied b d (to_ports head p mid)" and "d \<le> in_index head"
  shows "text_at b (in_index head - d) = Inr (pk_in p)"
    and "text_at b (out_index head p - d) = Inr (pk_out p)"
    and "pk_mac p = Some m \<Longrightarrow> text_at b (the (mac_index head p) - d) = Inr m"
    and "text_at b (src_index head p - d) = Inr (pk_src p)"
    and "text_at b (dst_index head p - d) = Inr (pk_dst p)"
    and "text_at b (proto_index head p mid - d) = Inr (pk_proto p)"
proof -
  have n: "NUL \<notin> set (pk_in p)" "NUL \<notin> set (pk_out p)" "NUL \<notin> set (pk_src p)" "NUL \<notin> set (pk_dst p)"
    "NUL \<notin> set (pk_proto p)" and nm: "\<And>m. pk_mac p = Some m \<Longrightarrow> NUL \<notin> set m"
    using assms(1) by (simp_all add: log_ok_def value_ok_def)
  note d = assms(3) [unfolded in_index_def]
  note unfold = to_ports_def to_src_def closed_mac_def closed_def
  show "text_at b (in_index head - d) = Inr (pk_in p)"
    unfolding in_index_def by (rule copied_text_at) (use assms(2) d n in \<open>simp_all add: unfold\<close>)
  show "text_at b (out_index head p - d) = Inr (pk_out p)"
    unfolding out_index_def by (rule copied_text_at) (use assms(2) d n in \<open>simp_all add: unfold\<close>)
  show "text_at b (src_index head p - d) = Inr (pk_src p)"
    unfolding src_index_def by (rule copied_text_at) (use assms(2) d n in \<open>simp_all add: unfold\<close>)
  show "text_at b (dst_index head p - d) = Inr (pk_dst p)"
    unfolding dst_index_def by (rule copied_text_at) (use assms(2) d n in \<open>simp_all add: unfold\<close>)
  show "text_at b (proto_index head p mid - d) = Inr (pk_proto p)"
    unfolding proto_index_def by (rule copied_text_at) (use assms(2) d n in \<open>simp_all add: unfold\<close>)
  show "text_at b (the (mac_index head p) - d) = Inr m" if "pk_mac p = Some m"
    unfolding mac_index_def by (simp only: that option.simps if_False option.sel) 
      (rule copied_text_at, use assms(2) d nm that in \<open>simp_all add: unfold\<close>)
qed

lemma copied_line: "copied (line (to_tail head p mid) tail beyond) 0 (to_ports head p mid)"
  by (simp add: copied_def to_tail_def)

lemma log_line_depicts:
  assumes "log_ok head p mid tail"
  shows "depicts (line (to_tail head p mid) tail beyond) (log_line_of head p mid) p (Some None)"
  using fields_shown [OF assms copied_line [where beyond = beyond]]
  by (auto simp: depicts_def log_line_of_def protocol_text_def mac_index_def shown_protocol_def split: option.split)

lemma in_index_le:
  "in_index head \<le> out_index head p" "in_index head \<le> src_index head p" "in_index head \<le> dst_index head p"
  "in_index head \<le> proto_index head p mid" "mac_index head p = Some m \<Longrightarrow> in_index head \<le> m"
  "in_index head < length (to_ports head p mid)"
  by (auto simp: in_index_def out_index_def src_index_def dst_index_def proto_index_def mac_index_def to_src_def
      to_ports_def closed_def split: if_splits)

lemma to_ports_shorter: "length (to_ports head p mid) \<le> length (log_text head p mid tail)"
  by (simp add: to_ports_def to_src_def log_text_def address_text_def mac_text_def closed_mac_def closed_def field_def
      split: option.split)

lemma clone_ok:
  assumes "log_ok head p mid tail" and "pk_proto p \<noteq> ''IGMP''"
  shows "\<exists>c m. b45c9f7e_cloneLogLine (line (to_tail head p mid) tail beyond) (log_line_of head p mid) = Inr (c, m) \<and>
               depicts c m p None"
proof -
  let ?b = "line (to_tail head p mid) tail beyond" and ?d = "in_index head"
  let ?n = "length (to_ports head p mid) - ?d"
  have "length (log_text head p mid tail) < 2 ^ 32" using assms(1) by (simp add: log_ok_def)
  then have small: "?n < 2 ^ 32" using to_ports_shorter [of head p mid tail] by linarith
  then have len: "unat (of_nat ?n :: u32) = ?n" by (intro of_nat_inverse) simp_all
  have n: "0 < ?n" using in_index_le(6) by simp
  obtain buffer :: "char block" where buffer: "f668c4bd_stralloc ?n = Inr buffer" "?n < length buffer"
    using stralloc_room [of ?n] small by auto
  have blit: "blit ?b ?d ?n buffer 0 = Inr (map Some (drop ?d (to_ports head p mid)) @ drop ?n buffer)"
    using buffer(2) in_index_le(6) [of head p mid] by (subst blit_ok) (simp_all add: to_tail_def drop_map)
  define c where "c = (map Some (drop ?d (to_ports head p mid)) @ drop ?n buffer)[?n := Some NUL]"
  have copy: "copy_line ?b ?d ?n = Inr c"
    using buffer n blit by (simp add: copy_line_def wr_def c_def)
  have "copied c ?d (to_ports head p mid)"
    by (simp add: copied_def c_def)
  note copy_shown = fields_shown [OF assms(1) this order_refl]
  note line_shown = fields_shown [OF assms(1) copied_line [of head p mid tail beyond] le0, simplified]
  have "\<exists>m. b45c9f7e_cloneLogLine ?b (log_line_of head p mid) = Inr (c, m) \<and> depicts c m p None"
  proof (cases "pk_mac p")
    case None
    then show ?thesis
      using len copy in_index_le(1-4) copy_shown line_shown(6) assms(2)
      by (cases "pk_transport p") (simp_all add: b45c9f7e_cloneLogLine_def log_line_of_def rebase_def mac_index_def protocol_text_def isEqual_iff
          depicts_def shown_protocol_def port_fields_def)
  next
    case (Some a)
    then obtain i where i: "mac_index head p = Some i" by (simp add: mac_index_def)
    from Some i show ?thesis
      using len copy in_index_le(1-4) in_index_le(5) [OF i] copy_shown line_shown(6) assms(2)
      by (cases "pk_transport p") (simp_all add: b45c9f7e_cloneLogLine_def log_line_of_def rebase_def protocol_text_def isEqual_iff depicts_def
          shown_protocol_def port_fields_def)
  qed
  then show ?thesis by blast
qed

text \<open>A packet that arrived, with the time stamp and the other fields of the log around the ones that are read.\<close>

definition sample_packet :: packet where
  "sample_packet = \<lparr>pk_in = ''eth0'', pk_out = [], pk_mac = None, pk_src = ''10.0.0.1'', pk_dst = ''10.0.0.2'',
     pk_proto = ''TCP'', pk_transport = Ports 53 80\<rparr>"

lemma sample_log_ok:
  "log_ok ''[7.5] fw: '' sample_packet ''LEN=52 DF '' ''LEN=32 ''"
proof -
  have dec: "dec_string 53 = ''53''" "dec_string 80 = ''80''"
    by code_simp+
  show ?thesis
    by (simp add: log_ok_def transport_ok_def gap_ok_def value_ok_def sample_packet_def address_text_def ports_text_def log_text_def
        mac_text_def field_def dec sublist_Cons_right)
qed

subsection \<open>Properties\<close>

text \<open>C9: a line in the firewall's format, each field closed by a blank, is taken apart in place into its fields, whichever of the
  three forms it has: with two ports; of ICMP or ICMPv6, whose type is shown as the source port; or of protocol 2, which is shown
  as IGMP with the ports 0. A line of any other protocol in which no source port follows (GRE, ESP, a fragment) makes
  the search yield NULL, which is dereferenced.\<close>

theorem log_line_is_parsed:
  assumes "log_ok head p mid tail"
  shows "if pk_transport p = NoPorts
         then b45c9f7e_initLogLine e (line [] (log_text head p mid tail) beyond) l (Some 0) = Inl NullPointer
         else \<exists>b m. b45c9f7e_initLogLine e (line [] (log_text head p mid tail) beyond) l (Some 0) = Inr (b, m) \<and>
                    depicts b m p (Some None)"
  using initLogLine_ok [OF assms] initLogLine_faults [OF assms] log_line_depicts [OF assms] by auto

lemma log_line_is_parsed_witness:
  "\<forall>e beyond l. \<exists>b m. b45c9f7e_initLogLine e
     (line [] (log_text ''[7.5] fw: '' sample_packet ''LEN=52 DF '' ''LEN=32 '') beyond) l (Some 0) = Inr (b, m) \<and>
     depicts b m sample_packet (Some None)"
proof (intro allI)
  fix e beyond l
  have "pk_transport sample_packet \<noteq> NoPorts" by (simp add: sample_packet_def)
  then show "\<exists>b m. b45c9f7e_initLogLine e
     (line [] (log_text ''[7.5] fw: '' sample_packet ''LEN=52 DF '' ''LEN=32 '') beyond) l (Some 0) = Inr (b, m) \<and>
     depicts b m sample_packet (Some None)"
    using log_line_is_parsed [OF sample_log_ok, of e beyond l] by (simp only: if_False)
qed

text \<open>The clone of a line shows the same fields, except that macAddress stays unset where the line had none.\<close>

theorem log_line_clone_same:
  assumes "log_ok head p mid tail" and "pk_proto p \<noteq> ''IGMP''" and "pk_transport p \<noteq> NoPorts"
  shows "bnd (b45c9f7e_initLogLine e (line [] (log_text head p mid tail) beyond) l (Some 0)) (\<lambda>(b, m).
           bnd (b45c9f7e_cloneLogLine b m) (\<lambda>(c, m). Inr (depicts c m p None))) = Inr True"
proof -
  obtain c m where "b45c9f7e_cloneLogLine (line (to_tail head p mid) tail beyond) (log_line_of head p mid) = Inr (c, m)"
    "depicts c m p None"
    using clone_ok [OF assms(1,2)] by blast
  then show ?thesis unfolding initLogLine_ok [OF assms(1,3)] bnd_Inr prod.case by simp
qed

lemma log_line_clone_same_witness:
  "\<forall>e beyond l. bnd (b45c9f7e_initLogLine e
     (line [] (log_text ''[7.5] fw: '' sample_packet ''LEN=52 DF '' ''LEN=32 '') beyond) l (Some 0)) (\<lambda>(b, m).
     bnd (b45c9f7e_cloneLogLine b m) (\<lambda>(c, m). Inr (depicts c m sample_packet None))) = Inr True"
  by (intro allI log_line_clone_same [OF sample_log_ok]) (simp_all add: sample_packet_def)

text \<open>A packet of a protocol without ports, other than ICMP and IGMP: the search for SPT= finds nothing.\<close>

lemma portless_protocol_faults:
  "\<forall>e l. b45c9f7e_initLogLine e (line [] ''IN=e OUT= SRC=a DST=b PROTO=47 '' []) l (Some 0) = Inl NullPointer"
  by (simp add: b45c9f7e_initLogLine_def take_field_def search_at_def terminateField_def close_field_def
      scan_to.simps rd_def wr_def init_ports_def protocol_text_def text_at_def take_number_def isEqual_iff)

end
