(* ===== verification/Smbios.thy ===== *)
theory Smbios
  imports IntParse
begin

text \<open>
  sysfs/formfactor.c, sysfs/errorcorrectiontype.c and sysfs/memorytype.c: three enumerations of the
  system management BIOS with their texts. A C enum is its datatype; the cast of the loop index and the
  index of the text array are the two functions between constructors and numbers.
\<close>

datatype FormFactor = FormFactor_UNKNOWN | FormFactor_DIMM | FormFactor_SODIMM

datatype ErrorCorrectionType = NONE | ECC | MULTI_BIT_ECC

datatype MemoryType =
  MemoryType_UNKNOWN | MemoryType_SDRAM | MemoryType_DDR | MemoryType_DDR2 | MemoryType_DDR3 | MemoryType_DDR4

definition FormFactor_values :: "FormFactor list" where
  "FormFactor_values = [FormFactor_UNKNOWN, FormFactor_DIMM, FormFactor_SODIMM]"

definition ErrorCorrectionType_values :: "ErrorCorrectionType list" where
  "ErrorCorrectionType_values = [NONE, ECC, MULTI_BIT_ECC]"

definition MemoryType_values :: "MemoryType list" where
  "MemoryType_values = [MemoryType_UNKNOWN, MemoryType_SDRAM, MemoryType_DDR, MemoryType_DDR2, MemoryType_DDR3,
     MemoryType_DDR4]"

text \<open>The number of a constructor is its place in the list.\<close>

primrec number_of :: "'v list \<Rightarrow> 'v \<Rightarrow> nat" where
  "number_of [] v = 0"
| "number_of (x # xs) v = (if x = v then 0 else Suc (number_of xs v))"

text \<open>The loop over the values; it ends at the first one that fits.\<close>

primrec first_match :: "('v \<Rightarrow> bool) \<Rightarrow> 'v list \<Rightarrow> 'v ptr" where
  "first_match fits [] = None"
| "first_match fits (v # vs) = (if fits v then Some v else first_match fits vs)"

definition no_such :: "env \<Rightarrow> string \<Rightarrow> string \<Rightarrow> 'a result" where
  "no_such e source typeName =
     die_error e [Str (''Could not find '' @ [quote]), Str source, Str ([quote] @ '': No such '' @ typeName)]"

subsection \<open>formfactor.c\<close>

definition a88c5c62_stringList :: "string list" where
  "a88c5c62_stringList = [''Unknown'', ''DIMM'', ''SO-DIMM'']"

definition a88c5c62_toStringFormFactor :: "FormFactor \<Rightarrow> string" where
  "a88c5c62_toStringFormFactor formFactor = a88c5c62_stringList ! number_of FormFactor_values formFactor"

definition a88c5c62_getFormFactor :: "env \<Rightarrow> string \<Rightarrow> FormFactor result" where
  "a88c5c62_getFormFactor e source =
     (case first_match (\<lambda>v. f6215943_isEqual (Some source) (Some (a88c5c62_toStringFormFactor v))) FormFactor_values of
        Some v \<Rightarrow> Inr v
      | None \<Rightarrow> no_such e source ''MemoryType'')"

subsection \<open>errorcorrectiontype.c\<close>

definition d485dfa0_stringList :: "string list" where
  "d485dfa0_stringList = [''None'', ''ECC'', ''Multi-bit ECC'']"

definition d485dfa0_toStringErrorCorrectionType :: "ErrorCorrectionType \<Rightarrow> string" where
  "d485dfa0_toStringErrorCorrectionType ect = d485dfa0_stringList ! number_of ErrorCorrectionType_values ect"

definition d485dfa0_getErrorCorrectionType :: "env \<Rightarrow> string \<Rightarrow> ErrorCorrectionType result" where
  "d485dfa0_getErrorCorrectionType e source =
     (case first_match (\<lambda>v. f6215943_isEqual (Some source) (Some (d485dfa0_toStringErrorCorrectionType v)))
             ErrorCorrectionType_values of
        Some v \<Rightarrow> Inr v
      | None \<Rightarrow> no_such e source ''ErrorCorrectionType'')"

subsection \<open>memorytype.c\<close>

text \<open>The texts stand in one char array, each closed by a NUL; a text is given by its index there.\<close>

definition memoryTypes :: string where
  "memoryTypes = ''Unknown'' @ [NUL] @ ''SDRAM'' @ [NUL] @ ''DDR'' @ [NUL] @ ''DDR2'' @ [NUL] @ ''DDR3'' @ [NUL] @
     ''DDR4'' @ [NUL]"

definition c8391d73_stringIndexList :: "nat list" where
  "c8391d73_stringIndexList = [0, 8, 14, 18, 23, 28]"

definition c8391d73_toStringMemoryType :: "MemoryType \<Rightarrow> string" where
  "c8391d73_toStringMemoryType memoryType =
     takeWhile (\<lambda>ch. ch \<noteq> NUL) (drop (c8391d73_stringIndexList ! number_of MemoryType_values memoryType) memoryTypes)"

text \<open>Here the source is searched for in the text, not compared with it.\<close>

definition c8391d73_getMemoryType :: "env \<Rightarrow> string \<Rightarrow> MemoryType result" where
  "c8391d73_getMemoryType e source =
     (case first_match (\<lambda>v. f6215943_search (Some source) (Some (c8391d73_toStringMemoryType v)) \<noteq> None)
             MemoryType_values of
        Some v \<Rightarrow> Inr v
      | None \<Rightarrow> no_such e source ''MemoryType'')"

subsection \<open>Lemmas\<close>

lemma first_match_None: "first_match fits vs = None \<longleftrightarrow> (\<forall>v \<in> set vs. \<not> fits v)"
  by (induction vs) auto

text \<open>A text that is none of the values' texts ends the program.\<close>

lemma no_such_exits:
  assumes "length source < 64" and "NUL \<notin> set source" and "length typeName < 32" and "NUL \<notin> set typeName"
  shows "no_such e source typeName =
         Inl (Exit (c7c88e52_printError_string e
           (''Could not find '' @ [quote] @ source @ [quote] @ '': No such '' @ typeName)))"
  using assms by (simp add: no_such_def die_error_def message_simple)

subsection \<open>Property\<close>

text \<open>The text of a value is read back as the value, for each of the three enumerations.\<close>

theorem enum_texts_roundtrip:
  "a88c5c62_getFormFactor e (a88c5c62_toStringFormFactor f) = Inr f \<and>
   d485dfa0_getErrorCorrectionType e (d485dfa0_toStringErrorCorrectionType c) = Inr c \<and>
   c8391d73_getMemoryType e (c8391d73_toStringMemoryType m) = Inr m"
proof (intro conjI)
  show "a88c5c62_getFormFactor e (a88c5c62_toStringFormFactor f) = Inr f"
    by (cases f) (simp_all add: a88c5c62_getFormFactor_def a88c5c62_toStringFormFactor_def FormFactor_values_def
        a88c5c62_stringList_def isEqual_iff)
  show "d485dfa0_getErrorCorrectionType e (d485dfa0_toStringErrorCorrectionType c) = Inr c"
    by (cases c) (simp_all add: d485dfa0_getErrorCorrectionType_def d485dfa0_toStringErrorCorrectionType_def
        ErrorCorrectionType_values_def d485dfa0_stringList_def isEqual_iff)
  show "c8391d73_getMemoryType e (c8391d73_toStringMemoryType m) = Inr m"
    by (cases m) (simp_all add: c8391d73_getMemoryType_def c8391d73_toStringMemoryType_def MemoryType_values_def
        c8391d73_stringIndexList_def memoryTypes_def f6215943_search_def)
qed

text \<open>A text that is only a part of a value's text is taken for the value.\<close>

lemma part_of_a_type: "c8391d73_getMemoryType e ''RAM'' = Inr MemoryType_SDRAM"
  by (simp add: c8391d73_getMemoryType_def c8391d73_toStringMemoryType_def MemoryType_values_def
      c8391d73_stringIndexList_def memoryTypes_def f6215943_search_def)

end
