(* ===== verification/MemoryArray.thy ===== *)
theory MemoryArray
  imports Smbios TextCursor Process ListArray
begin

text \<open>
  sysfs/memoryarray.c: the memory of the machine, from the output of dmidecode. The output is taken apart in place,
  so the texts of a device are pointers into the buffer of the StringBuilder: indices here. Floats are a
  type of their own; b08dcfcc_parseFloat, an assembler routine on SSE registers, and the \<open>%0.2f\<close> of sprintf are
  parameters.
\<close>

type_synonym text_ref = "nat ptr"

record 'f MemoryDevice =
  md_assetTag :: text_ref
  md_bankLocator :: text_ref
  md_locator :: text_ref
  md_manufacturer :: text_ref
  md_partNumber :: text_ref
  md_serialNumber :: text_ref
  md_set :: text_ref
  md_typeDetail :: text_ref
  md_configClockSpeed :: u64
  md_size :: u64
  md_speed :: u64
  md_arrayHandle :: u32
  md_dataWidth :: u32
  md_errorInfoHandle :: u32
  md_rank :: u32
  md_totalWidth :: u32
  md_formFactor :: FormFactor
  md_type :: MemoryType
  md_configVoltage :: 'f
  md_maxVoltage :: 'f
  md_minVoltage :: 'f

record 'f MemoryArray =
  ma_dmidecodeData :: StringBuilder
  ma_location :: text_ref
  ma_use :: text_ref
  ma_minSpeed :: u64
  ma_errorCorrectionType :: ErrorCorrectionType
  ma_errorInfoHandle :: u32
  ma_maxCapacity :: u32
  ma_numChannelsInUse :: u32
  ma_numDevices :: u32
  ma_numInstalled :: u32
  ma_memoryDeviceList :: "'f MemoryDevice list"

definition UNITS_MiB :: u64 where "UNITS_MiB = 1048576"
definition UNITS_GiB :: u64 where "UNITS_GiB = 1073741824"

abbreviation eol :: char where "eol \<equiv> CHR 0x0A"

definition attr :: "string \<Rightarrow> string" where
  "attr name = CHR 0x09 # name @ '': ''"

subsection \<open>The readers\<close>

text \<open>The text and the place in it (\<open>*data\<close>), which every reader moves on.\<close>

type_synonym cursor = "char block \<times> nat ptr"

definition terminate :: "char block \<Rightarrow> nat ptr \<Rightarrow> char \<Rightarrow> (char block \<times> nat) result" where
  "terminate b line endChar = close_field (\<lambda>ch. ch = endChar) b line"

definition ref_text :: "char block \<Rightarrow> text_ref \<Rightarrow> string result" where
  "ref_text b ref = bnd (deref ref) (text_at b)"

text \<open>The value of an attribute as a pointer and, for the readers that parse it, as a text.\<close>

definition getStringValue :: "string \<Rightarrow> char \<Rightarrow> cursor \<Rightarrow> (text_ref \<times> cursor) result" where
  "getStringValue attrName endChar = (\<lambda>(b, data).
     bnd (search_at (attr attrName) b data) (\<lambda>attribute.
     bnd (terminate b attribute endChar) (\<lambda>(b, data). Inr (attribute, b, Some data))))"

definition get_parsed :: "(string \<Rightarrow> 'v result) \<Rightarrow> string \<Rightarrow> char \<Rightarrow> cursor \<Rightarrow> ('v \<times> cursor) result" where
  "get_parsed parse attrName endChar c =
     bnd (getStringValue attrName endChar c) (\<lambda>(attrValue, b, data).
     bnd (ref_text b attrValue) (\<lambda>s. bnd (parse s) (\<lambda>v. Inr (v, b, data))))"

definition getErrorCorrectionType :: "env \<Rightarrow> string \<Rightarrow> cursor \<Rightarrow> (ErrorCorrectionType \<times> cursor) result" where
  "getErrorCorrectionType e attrName = get_parsed (d485dfa0_getErrorCorrectionType e) attrName eol"

definition getHexValue :: "string \<Rightarrow> cursor \<Rightarrow> (u32 \<times> cursor) result" where
  "getHexValue attrName =
     get_parsed (\<lambda>s. if f6215943_isNotEqual False (Some s) (Some ''Not Provided'') then f45efac2_parseHex_uint32 s
                     else Inr 0) attrName eol"

definition getMaximumCapacity :: "env \<Rightarrow> string \<Rightarrow> cursor \<Rightarrow> (u32 \<times> cursor) result" where
  "getMaximumCapacity e attrName = get_parsed (f45efac2_parse_uint32 e) attrName CHR '' ''"

definition getUInt32Value :: "env \<Rightarrow> string \<Rightarrow> char \<Rightarrow> cursor \<Rightarrow> (u32 \<times> cursor) result" where
  "getUInt32Value e attrName endChar = get_parsed (f45efac2_parse_uint32 e) attrName endChar"

text \<open>
  The set functions store the value in the attribute that they are given the address of: \<open>upd\<close> is the
  update of a field of \<open>'d\<close>.
\<close>

type_synonym ('v, 'd) field_update = "('v \<Rightarrow> 'v) \<Rightarrow> 'd \<Rightarrow> 'd"

type_synonym 'd reader = "'d \<times> cursor \<Rightarrow> ('d \<times> cursor) result"

definition store :: "('v, 'd) field_update \<Rightarrow> (cursor \<Rightarrow> ('v \<times> cursor) result) \<Rightarrow> 'd reader" where
  "store upd get = (\<lambda>(d, c). bnd (get c) (\<lambda>(v, c). Inr (upd (\<lambda>_. v) d, c)))"

definition setFloat :: "(string \<Rightarrow> 'f result) \<Rightarrow> ('f, 'd) field_update \<Rightarrow> string \<Rightarrow> char \<Rightarrow> 'd reader" where
  "setFloat parseFloat upd attrName endChar = store upd (get_parsed parseFloat attrName endChar)"

definition setFormFactor :: "env \<Rightarrow> (FormFactor, 'd) field_update \<Rightarrow> string \<Rightarrow> 'd reader" where
  "setFormFactor e upd attrName = store upd (get_parsed (a88c5c62_getFormFactor e) attrName eol)"

definition setHexValue :: "(u32, 'd) field_update \<Rightarrow> string \<Rightarrow> 'd reader" where
  "setHexValue upd attrName =
     store upd (get_parsed (\<lambda>s. if f6215943_isNotEqual False (Some s) (Some ''Not Provided'')
                                then f45efac2_parseHex_uint32 s else Inr 0) attrName eol)"

definition setMemoryType :: "env \<Rightarrow> (MemoryType, 'd) field_update \<Rightarrow> string \<Rightarrow> 'd reader" where
  "setMemoryType e upd attrName = store upd (get_parsed (c8391d73_getMemoryType e) attrName eol)"

definition setSize :: "(u64, 'd) field_update \<Rightarrow> string \<Rightarrow> 'd reader" where
  "setSize upd attrName = store upd (\<lambda>c.
     bnd (get_parsed db0acb04_parse_uint64 attrName CHR '' '' c) (\<lambda>(attribute, b, data).
     bnd (ref_text b data) (\<lambda>rest.
     Inr (if f6215943_startsWith ''MB'' rest \<noteq> None then attribute * UNITS_MiB
          else if f6215943_startsWith ''GB'' rest \<noteq> None then attribute * UNITS_GiB
          else attribute, b, data))))"

definition setSpeed :: "(u64, 'd) field_update \<Rightarrow> string \<Rightarrow> 'd reader" where
  "setSpeed upd attrName = store upd (get_parsed db0acb04_parse_uint64 attrName CHR '' '')"

definition setStringValue :: "(text_ref, 'd) field_update \<Rightarrow> string \<Rightarrow> 'd reader" where
  "setStringValue upd attrName = store upd (getStringValue attrName eol)"

definition setUInt32Value :: "env \<Rightarrow> (u32, 'd) field_update \<Rightarrow> string \<Rightarrow> char \<Rightarrow> 'd reader" where
  "setUInt32Value e upd attrName endChar = store upd (get_parsed (f45efac2_parse_uint32 e) attrName endChar)"

text \<open>setVoltage is not called; \<open>of_u64\<close> is the conversion to float.\<close>

definition setVoltage :: "(u64 \<Rightarrow> 'f) \<Rightarrow> ('f, 'd) field_update \<Rightarrow> string \<Rightarrow> 'd reader" where
  "setVoltage of_u64 upd attrName =
     store upd (get_parsed (\<lambda>s. bnd (db0acb04_parse_uint64 s) (\<lambda>v. Inr (of_u64 v))) attrName CHR '' '')"

definition in_order :: "'d reader list \<Rightarrow> 'd reader" where
  "in_order readers s = fold_result (\<lambda>s r. r s) s readers"

subsection \<open>One device\<close>

text \<open>The constant \<open>zero\<close> is the float 0.0f. The fields of a slot without a module.\<close>

definition empty_slot :: "'f \<Rightarrow> 'f MemoryDevice \<Rightarrow> 'f MemoryDevice" where
  "empty_slot zero d =
     d\<lparr>md_totalWidth := 0, md_dataWidth := 0, md_size := 0, md_formFactor := FormFactor_UNKNOWN, md_set := None,
       md_type := MemoryType_UNKNOWN, md_typeDetail := None, md_speed := 0, md_manufacturer := None,
       md_serialNumber := None, md_assetTag := None, md_partNumber := None, md_rank := 0, md_configClockSpeed := 0,
       md_minVoltage := zero, md_maxVoltage := zero, md_configVoltage := zero\<rparr>"

definition read_module :: "env \<Rightarrow> (string \<Rightarrow> 'f result) \<Rightarrow> 'f MemoryDevice reader" where
  "read_module e parseFloat = in_order
     [setUInt32Value e md_dataWidth_update ''Data Width'' CHR '' '',
      setSize md_size_update ''Size'',
      setFormFactor e md_formFactor_update ''Form Factor'',
      setStringValue md_set_update ''Set'',
      setStringValue md_locator_update ''Locator'',
      setStringValue md_bankLocator_update ''Bank Locator'',
      setMemoryType e md_type_update ''Type'',
      setStringValue md_typeDetail_update ''Type Detail'',
      setSpeed md_speed_update ''Speed'',
      setStringValue md_manufacturer_update ''Manufacturer'',
      setStringValue md_serialNumber_update ''Serial Number'',
      setStringValue md_assetTag_update ''Asset Tag'',
      setStringValue md_partNumber_update ''Part Number'',
      setUInt32Value e md_rank_update ''Rank'' eol,
      setSpeed md_configClockSpeed_update ''Configured Memory Speed'',
      setFloat parseFloat md_minVoltage_update ''Minimum Voltage'' CHR '' '',
      setFloat parseFloat md_maxVoltage_update ''Maximum Voltage'' CHR '' '',
      setFloat parseFloat md_configVoltage_update ''Configured Voltage'' CHR '' '']"

text \<open>
  The result tells whether a module is installed. The total width has been cut at the end of the line
  when it is cut again at the blank, and the place of the text stays behind the line.
\<close>

definition read_device :: "env \<Rightarrow> (string \<Rightarrow> 'f result) \<Rightarrow> 'f \<Rightarrow> 'f MemoryDevice \<Rightarrow> cursor \<Rightarrow>
    (bool \<times> 'f MemoryDevice \<times> cursor) result" where
  "read_device e parseFloat zero d = (\<lambda>(b, data).
     bnd (search_at ''Memory Device'' b data) (\<lambda>data.
     bnd (in_order [setHexValue md_arrayHandle_update ''Array Handle'',
                    setHexValue md_errorInfoHandle_update ''Error Information Handle''] (d, b, data)) (\<lambda>(d, c).
     bnd (getStringValue ''Total Width'' eol c) (\<lambda>(totalWidth, b, data).
     bnd (ref_text b totalWidth) (\<lambda>s.
     if f6215943_startsWith ''Unknown'' s \<noteq> None then
       bnd (in_order [setStringValue md_locator_update ''Locator'', setStringValue md_bankLocator_update ''Bank Locator'']
              (empty_slot zero d, b, data)) (\<lambda>(d, c). Inr (False, d, c))
     else
       bnd (terminate b totalWidth CHR '' '') (\<lambda>(b, _).
       bnd (ref_text b totalWidth) (\<lambda>s.
       bnd (f45efac2_parse_uint32 e s) (\<lambda>width.
       bnd (read_module e parseFloat (d\<lparr>md_totalWidth := width\<rparr>, b, data)) (\<lambda>(d, c). Inr (True, d, c))))))))))"


subsection \<open>The array\<close>

definition opt_text :: "char block \<Rightarrow> text_ref \<Rightarrow> string ptr result" where
  "opt_text b ref = (case ref of None \<Rightarrow> Inr None | Some i \<Rightarrow> bnd (text_at b i) (\<lambda>s. Inr (Some s)))"

text \<open>The loop over the channels seen so far, from index \<open>j\<close> on with \<open>n\<close> left; it stops at the first equal one.\<close>

primrec channel_loop :: "char block \<Rightarrow> text_ref \<Rightarrow> nat ListArray \<Rightarrow> nat \<Rightarrow> nat \<Rightarrow> bool result" where
  "channel_loop b bankLocator channelsInUse j 0 = Inr False"
| "channel_loop b bankLocator channelsInUse j (Suc n) =
     bnd (deref (la_values channelsInUse)) (\<lambda>values.
     bnd (rd values j) (\<lambda>channel.
     bnd (opt_text b bankLocator) (\<lambda>foo.
     bnd (opt_text b channel) (\<lambda>bar.
     if f6215943_isEqual foo bar then Inr True
     else channel_loop b bankLocator channelsInUse (Suc j) n))))"

text \<open>
  One round of the loop over the devices. Each of the fields of a device is written on either path of
  \<open>read_device\<close>, so that what the allocated memory holds (\<open>blank\<close>) does not matter.
\<close>

definition device_step :: "env \<Rightarrow> (string \<Rightarrow> 'f result) \<Rightarrow> 'f \<Rightarrow> 'f MemoryDevice \<Rightarrow>
    'f MemoryArray \<times> nat ListArray \<times> cursor \<Rightarrow> nat \<Rightarrow> ('f MemoryArray \<times> nat ListArray \<times> cursor) result" where
  "device_step e parseFloat zero blank = (\<lambda>(memoryArray, channelsInUse, c) i.
     bnd (read_device e parseFloat zero blank c) (\<lambda>(installed, memoryDevice, b, data).
     let memoryArray = memoryArray\<lparr>ma_memoryDeviceList := ma_memoryDeviceList memoryArray @ [memoryDevice]\<rparr>
     in if \<not> installed then Inr (memoryArray, channelsInUse, b, data)
        else
          let memoryArray = memoryArray\<lparr>ma_minSpeed := min (ma_minSpeed memoryArray) (md_speed memoryDevice),
                ma_numInstalled := ma_numInstalled memoryArray + 1\<rparr>
          in bnd (channel_loop b (md_bankLocator memoryDevice) channelsInUse 0 (unat (la_length channelsInUse)))
               (\<lambda>channelInUse.
             if channelInUse then Inr (memoryArray, channelsInUse, b, data)
             else bnd (b196167f_add_x86 channelsInUse (md_bankLocator memoryDevice)) (\<lambda>channelsInUse.
                  Inr (memoryArray\<lparr>ma_numChannelsInUse := ma_numChannelsInUse memoryArray + 1\<rparr>, channelsInUse,
                       b, data)))))"

definition read_devices :: "env \<Rightarrow> (string \<Rightarrow> 'f result) \<Rightarrow> 'f \<Rightarrow> 'f MemoryDevice \<Rightarrow>
    'f MemoryArray \<times> cursor \<Rightarrow> ('f MemoryArray \<times> nat ListArray \<times> cursor) result" where
  "read_devices e parseFloat zero blank = (\<lambda>(memoryArray, c).
     bnd (b196167f_initListArray \<lparr>la_values = None, la_length = 0, la_size = 0\<rparr>) (\<lambda>channelsInUse.
     fold_result (device_step e parseFloat zero blank) (memoryArray, channelsInUse, c)
       [0..<unat (ma_numDevices memoryArray)]))"

text \<open>What createMemoryArray does with the output of dmidecode.\<close>

definition array_of_output :: "env \<Rightarrow> (string \<Rightarrow> 'f result) \<Rightarrow> 'f \<Rightarrow> 'f MemoryDevice \<Rightarrow> StringBuilder \<Rightarrow>
    'f MemoryArray result" where
  "array_of_output e parseFloat zero blank dmidecodeData =
     bnd (search_at ''Physical Memory Array'' (sb_buffer dmidecodeData) (Some 0)) (\<lambda>data.
     bnd (getStringValue ''Location'' eol (sb_buffer dmidecodeData, data)) (\<lambda>(location, c).
     bnd (getStringValue ''Use'' eol c) (\<lambda>(use, c).
     bnd (getErrorCorrectionType e ''Error Correction Type'' c) (\<lambda>(ect, c).
     bnd (getMaximumCapacity e ''Maximum Capacity'' c) (\<lambda>(maxCapacity, c).
     bnd (getHexValue ''Error Information Handle'' c) (\<lambda>(errorInfoHandle, c).
     bnd (getUInt32Value e ''Number Of Devices'' eol c) (\<lambda>(numDevices, c).
     bnd (read_devices e parseFloat zero blank
            (\<lparr>ma_dmidecodeData = dmidecodeData, ma_location = location, ma_use = use, ma_minSpeed = - 1,
              ma_errorCorrectionType = ect, ma_errorInfoHandle = errorInfoHandle, ma_maxCapacity = maxCapacity,
              ma_numChannelsInUse = 0, ma_numDevices = numDevices, ma_numInstalled = 0,
              ma_memoryDeviceList = []\<rparr>, c)) (\<lambda>(memoryArray, channelsInUse, b, data).
     Inr (memoryArray\<lparr>ma_dmidecodeData := dmidecodeData\<lparr>sb_buffer := b\<rparr>\<rparr>)))))))))"

text \<open>The arguments after \<open>blank\<close> are those of execute; in the child process nothing is returned.\<close>

definition argList :: "string ptr list" where
  "argList = [Some ''/usr/sbin/dmidecode'', Some ''--type'', Some ''memory'', None]"

definition f004d1bd_createMemoryArray ::
    "env \<Rightarrow> (string \<Rightarrow> 'f result) \<Rightarrow> 'f \<Rightarrow> 'f MemoryDevice \<Rightarrow> (u32 \<times> u32) sysret \<Rightarrow> u32 sysret \<Rightarrow> (u32 \<Rightarrow> unit sysret) \<Rightarrow>
     string sysret list \<Rightarrow> (u32 \<Rightarrow> u32 sysret) \<Rightarrow> (u32 \<Rightarrow> u32 \<Rightarrow> unit sysret) \<Rightarrow> int option \<Rightarrow> 'f MemoryArray option result" where
  "f004d1bd_createMemoryArray e parseFloat zero blank sys_pipe sys_fork sys_close chunks sys_waitpid sys_dup2 execv_errno =
     bnd (c16819a0_execute e sys_pipe sys_fork sys_close chunks sys_waitpid sys_dup2 execv_errno
            ''/usr/sbin/dmidecode'' argList) (\<lambda>out. case out of
       None \<Rightarrow> Inr None
     | Some dmidecodeData \<Rightarrow>
         bnd (array_of_output e parseFloat zero blank dmidecodeData) (\<lambda>memoryArray. Inr (Some memoryArray)))"

subsection \<open>The array as a text\<close>

text \<open>
  Numbers are turned into texts first and freed after use, which needs the pointer that malloc returned.
  A line is a caption and the strings up to NULL; a text of the array is read from its buffer.
\<close>

definition freed_text :: "(nat \<times> string) result \<Rightarrow> string result" where
  "freed_text str = bnd str (\<lambda>(offset, text). if offset = 0 then Inr text else Inl Abort)"

definition line_of :: "string \<Rightarrow> string ptr list \<Rightarrow> StringBuilder \<Rightarrow> StringBuilder result" where
  "line_of caption args strBuilder =
     c598a24c_append_string_varg strBuilder (eol # CHR 0x09 # caption @ '': '') (args @ [None])"

definition number_line :: "string \<Rightarrow> (nat \<times> string) result \<Rightarrow> string ptr list \<Rightarrow> StringBuilder \<Rightarrow> StringBuilder result" where
  "number_line caption str unit strBuilder =
     bnd (freed_text str) (\<lambda>s. line_of caption (Some s # unit) strBuilder)"

definition text_line :: "char block \<Rightarrow> string \<Rightarrow> text_ref \<Rightarrow> StringBuilder \<Rightarrow> StringBuilder result" where
  "text_line b caption ref strBuilder = bnd (opt_text b ref) (\<lambda>s. line_of caption [s] strBuilder)"

text \<open>\<open>char floatString[32]\<close> takes the caption, the number, the unit and a NUL.\<close>

definition float_line :: "('f \<Rightarrow> string) \<Rightarrow> string \<Rightarrow> 'f \<Rightarrow> StringBuilder \<Rightarrow> StringBuilder result" where
  "float_line format caption value strBuilder =
     (let floatString = eol # CHR 0x09 # caption @ '': '' @ format value @ '' V''
      in bnd (check (length floatString < 32) OutOfBounds) (\<lambda>_. c598a24c_append_string strBuilder floatString))"

definition apply_all :: "(StringBuilder \<Rightarrow> StringBuilder result) list \<Rightarrow> StringBuilder \<Rightarrow> StringBuilder result" where
  "apply_all appends strBuilder = fold_result (\<lambda>strBuilder f. f strBuilder) strBuilder appends"

definition device_lines :: "('f \<Rightarrow> string) \<Rightarrow> char block \<Rightarrow> 'f MemoryDevice \<Rightarrow>
    (StringBuilder \<Rightarrow> StringBuilder result) list" where
  "device_lines format b d =
     [\<lambda>strBuilder. c598a24c_append_string strBuilder (eol # eol # ''Memory Device''),
      number_line ''Array Handle'' (f45efac2_toStringHex_uint32 (md_arrayHandle d) 4) [],
      number_line ''Error Information Handle'' (f45efac2_toStringHex_uint32 (md_errorInfoHandle d) 4) []] @
     (if md_totalWidth d = 0 then
        [\<lambda>strBuilder. c598a24c_append_string strBuilder (eol # CHR 0x09 # ''Size: No Module Installed''),
         text_line b ''Locator'' (md_locator d), text_line b ''Bank Locator'' (md_bankLocator d)]
      else
        [number_line ''Total Width'' (f45efac2_toString_uint32 (md_totalWidth d)) [Some '' bits''],
         number_line ''Data Width'' (f45efac2_toString_uint32 (md_dataWidth d)) [Some '' bits''],
         number_line ''Size'' (db0acb04_toString_uint64 (md_size d div UNITS_MiB)) [Some '' MB''],
         line_of ''Form Factor'' [Some (a88c5c62_toStringFormFactor (md_formFactor d))],
         text_line b ''Set'' (md_set d), text_line b ''Locator'' (md_locator d),
         text_line b ''Bank Locator'' (md_bankLocator d),
         line_of ''Type'' [Some (c8391d73_toStringMemoryType (md_type d))],
         text_line b ''Type Detail'' (md_typeDetail d),
         number_line ''Speed'' (db0acb04_toString_uint64 (md_speed d)) [Some '' MHz''],
         text_line b ''Manufacturer'' (md_manufacturer d), text_line b ''Serial Number'' (md_serialNumber d),
         text_line b ''Asset Tag'' (md_assetTag d), text_line b ''Part Number'' (md_partNumber d),
         number_line ''Rank'' (f45efac2_toString_uint32 (md_rank d)) [],
         number_line ''Configured Clock Speed'' (db0acb04_toString_uint64 (md_configClockSpeed d)) [Some '' MHz''],
         float_line format ''Minimum Voltage'' (md_minVoltage d), float_line format ''Maximum Voltage'' (md_maxVoltage d),
         float_line format ''Configured Voltage'' (md_configVoltage d)])"

definition f004d1bd_toStringMemoryArray :: "('f \<Rightarrow> string) \<Rightarrow> 'f MemoryArray \<Rightarrow> StringBuilder result" where
  "f004d1bd_toStringMemoryArray format a =
     (let b = sb_buffer (ma_dmidecodeData a)
      in bnd (c598a24c_createStringBuilder_uint32 1536) (apply_all
           ([\<lambda>strBuilder. c598a24c_append_string strBuilder ''Physical Memory Array'',
             text_line b ''Location'' (ma_location a), text_line b ''Use'' (ma_use a),
             line_of ''Error Correction Type''
               [Some (d485dfa0_toStringErrorCorrectionType (ma_errorCorrectionType a))],
             number_line ''Maximum Capacity'' (f45efac2_toString_uint32 (ma_maxCapacity a)) [Some '' GB''],
             number_line ''Error Information Handle'' (f45efac2_toStringHex_uint32 (ma_errorInfoHandle a) 4) [],
             number_line ''Number Of Devices'' (f45efac2_toString_uint32 (ma_numDevices a)) [],
             number_line ''Number Installed'' (f45efac2_toString_uint32 (ma_numInstalled a)) [],
             number_line ''Minimum Speed'' (db0acb04_toString_uint64 (ma_minSpeed a)) [],
             number_line ''Channels In Use'' (f45efac2_toString_uint32 (ma_numChannelsInUse a)) []] @
            concat (map (device_lines format b) (take (unat (ma_numDevices a)) (ma_memoryDeviceList a))))))"

end
