(* ===== verification/Sockets.thy ===== *)
theory Sockets
  imports LittleEndian ErrorReport CMemory
begin

text \<open>
  socket/socket.c, socket/ipv4.c, socket/unix.c, the socket half of socket/netlink.c, net/ethernet.c and
  the error exits of net/ip-util.c. System calls are parameters; a call that fills a struct yields what it
  puts there. The numbers of the kernel's interface are written out (netlink(7), rtnetlink(7), socket(2)).
\<close>

unbundle bit_operations_syntax

text \<open>Print the message with the error text of \<open>errno\<close> and exit.\<close>

definition exit_lib :: "env \<Rightarrow> string \<Rightarrow> int \<Rightarrow> 'a result" where
  "exit_lib e errorMessage errno = Inl (Exit (c7c88e52_printLibError e errorMessage errno))"

definition succeed :: "env \<Rightarrow> string \<Rightarrow> 'a sysret \<Rightarrow> 'a result" where
  "succeed e errorMessage ret = (case ret of SysOk v \<Rightarrow> Inr v | SysErr errno \<Rightarrow> exit_lib e errorMessage errno)"

subsection \<open>socket.c\<close>

text \<open>struct iovec, which the code calls IOBuffer.\<close>

record iovec =
  iov_base :: "u8 block"
  iov_len :: u64

definition a36b5966_createIOBuffer :: "u64 \<Rightarrow> iovec result" where
  "a36b5966_createIOBuffer bufLen =
     bnd (f668c4bd_malloc 1 (unat bufLen)) (\<lambda>base. Inr \<lparr>iov_base = base, iov_len = bufLen\<rparr>)"

definition a36b5966_setMaxSendBufferSize :: "env \<Rightarrow> unit sysret \<Rightarrow> u32 \<Rightarrow> unit result" where
  "a36b5966_setMaxSendBufferSize e sys_setsockopt bufSize =
     (case sys_setsockopt of
        SysErr errno \<Rightarrow>
          die_lib e [Str (''Cannot set max send buffer size '' @ [quote]), Uint bufSize, Chr quote] errno
      | SysOk _ \<Rightarrow> Inr ())"

definition a36b5966_setMaxRecvBufferSize :: "env \<Rightarrow> unit sysret \<Rightarrow> u32 \<Rightarrow> unit result" where
  "a36b5966_setMaxRecvBufferSize e sys_setsockopt bufSize =
     (case sys_setsockopt of
        SysErr errno \<Rightarrow>
          die_lib e [Str (''Cannot set max receive buffer size '' @ [quote]), Uint bufSize, Chr quote] errno
      | SysOk _ \<Rightarrow> Inr ())"

text \<open>struct sockaddr_nl.\<close>

record NetlinkAddress =
  nl_family :: u16
  nl_pad :: u16
  nl_pid :: u32
  nl_groups :: u32

text \<open>
  struct msghdr, as far as the code sets it: where the sender's address goes and the one buffer. recvmsg copies
  a datagram to the buffer, as much of it as fits, stores the sender's address and yields the number of bytes
  copied. The flags that the caller passes are not used.
\<close>

record ReceiveMessageHeader =
  msg_name :: NetlinkAddress
  msg_namelen :: u32
  msg_iov :: iovec
  msg_iovlen :: u64

definition recvmsg :: "NetlinkAddress \<times> u8 list \<Rightarrow> ReceiveMessageHeader \<Rightarrow> (int \<times> ReceiveMessageHeader) result" where
  "recvmsg datagram msg =
     (let bytes = take (unat (iov_len (msg_iov msg))) (snd datagram)
      in bnd (blit (map Some bytes) 0 (length bytes) (iov_base (msg_iov msg)) 0) (\<lambda>base.
         Inr (int (length bytes), msg\<lparr>msg_name := fst datagram, msg_iov := (msg_iov msg)\<lparr>iov_base := base\<rparr>\<rparr>)))"

definition a36b5966_receiveMessage ::
    "env \<Rightarrow> (NetlinkAddress \<times> u8 list) sysret \<Rightarrow> ReceiveMessageHeader \<Rightarrow> (int \<times> ReceiveMessageHeader) result" where
  "a36b5966_receiveMessage e sys_recvmsg msg =
     bnd (succeed e ''Cannot receive socket message'' sys_recvmsg) (\<lambda>datagram. recvmsg datagram msg)"

definition a36b5966_sendMessage :: "env \<Rightarrow> ('m \<Rightarrow> int sysret) \<Rightarrow> 'm \<Rightarrow> int result" where
  "a36b5966_sendMessage e sys_sendto buf = succeed e ''Cannot send socket message'' (sys_sendto buf)"

subsection \<open>ipv4.c and unix.c\<close>

record IPv4Socket =
  ip_fd :: u32
  ip_type :: u32

definition a34d4619_open :: "env \<Rightarrow> (u32 \<Rightarrow> u32 sysret) \<Rightarrow> IPv4Socket \<Rightarrow> u32 \<Rightarrow> IPv4Socket result" where
  "a34d4619_open e sys_socket ipv4Socket socketType =
     bnd (succeed e ''Cannot open IPv4 socket'' (sys_socket socketType)) (\<lambda>fd.
     Inr (ipv4Socket\<lparr>ip_fd := fd, ip_type := socketType\<rparr>))"

definition a34d4619_close :: "env \<Rightarrow> (u32 \<Rightarrow> unit sysret) \<Rightarrow> IPv4Socket \<Rightarrow> unit result" where
  "a34d4619_close e sys_close ipv4Socket = succeed e ''Cannot close IPv4 socket'' (sys_close (ip_fd ipv4Socket))"

record UnixSocket =
  us_fd :: u32
  us_type :: u32

definition SOCK_RAW :: u32 where "SOCK_RAW = 3"
definition SOCK_CLOEXEC :: u32 where "SOCK_CLOEXEC = 0x80000"

definition bfdb2c2a_open :: "env \<Rightarrow> (u32 \<Rightarrow> u32 sysret) \<Rightarrow> UnixSocket \<Rightarrow> u32 \<Rightarrow> UnixSocket result" where
  "bfdb2c2a_open e sys_socket unixSocket socketType =
     bnd (succeed e ''Cannot open Unix socket'' (sys_socket (socketType OR SOCK_CLOEXEC))) (\<lambda>fd.
     Inr (unixSocket\<lparr>us_fd := fd, us_type := socketType\<rparr>))"

definition bfdb2c2a_close :: "env \<Rightarrow> (u32 \<Rightarrow> unit sysret) \<Rightarrow> UnixSocket \<Rightarrow> unit result" where
  "bfdb2c2a_close e sys_close unixSocket = succeed e ''Cannot close Unix socket'' (sys_close (us_fd unixSocket))"

subsection \<open>netlink.c: sockets and requests\<close>

definition AF_UNSPEC :: u8 where "AF_UNSPEC = 0"
definition AF_INET :: u8 where "AF_INET = 2"
definition AF_INET6 :: u8 where "AF_INET6 = 10"
definition AF_NETLINK :: u16 where "AF_NETLINK = 16"
definition RTM_GETLINK :: u16 where "RTM_GETLINK = 18"
definition RTM_GETADDR :: u16 where "RTM_GETADDR = 22"
definition RTM_GETROUTE :: u16 where "RTM_GETROUTE = 26"
definition NLM_F_REQUEST :: u16 where "NLM_F_REQUEST = 1"
definition NLM_F_ROOT :: u16 where "NLM_F_ROOT = 0x100"

record NetlinkSocket =
  ns_addr :: NetlinkAddress
  ns_ioBuffer :: iovec
  ns_family :: u32
  ns_fd :: u32

definition e7173ad4_createNetlinkSocket :: "u32 \<Rightarrow> u64 \<Rightarrow> NetlinkSocket result" where
  "e7173ad4_createNetlinkSocket family ioBufLen =
     bnd (a36b5966_createIOBuffer ioBufLen) (\<lambda>ioBuffer.
     Inr \<lparr>ns_addr = \<lparr>nl_family = AF_NETLINK, nl_pad = 0, nl_pid = 0, nl_groups = 0\<rparr>, ns_ioBuffer = ioBuffer,
          ns_family = family, ns_fd = 0\<rparr>)"

text \<open>struct nlmsghdr; the cells of a request on the stack are unset until they are written.\<close>

record NetlinkMessageHeader =
  nlmsg_len :: "u32 option"
  nlmsg_type :: "u16 option"
  nlmsg_flags :: "u16 option"
  nlmsg_seq :: "u32 option"
  nlmsg_pid :: "u32 option"

record NetlinkAddressMessage =
  ifa_family :: u8
  ifa_prefixlen :: u8
  ifa_flags :: u8
  ifa_scope :: u8
  ifa_index :: u32

record NetlinkInfoMessage =
  ifi_family :: u8
  ifi_type :: u16
  ifi_index :: u32
  ifi_flags :: u32
  ifi_change :: u32

record NetlinkRouteMessage =
  rtm_family :: u8
  rtm_dst_len :: u8
  rtm_src_len :: u8
  rtm_tos :: u8
  rtm_table :: u8
  rtm_protocol :: u8
  rtm_scope :: u8
  rtm_type :: u8
  rtm_flags :: u32

text \<open>A request is a header and a body; the body is cleared before it is filled in.\<close>

record 'b NetlinkRequest =
  msgHeader :: NetlinkMessageHeader
  msgBody :: 'b

definition NLMSG_LENGTH :: "u32 \<Rightarrow> u32" where
  "NLMSG_LENGTH n = n + 16"

definition init_header :: "u32 \<Rightarrow> u16 \<Rightarrow> u16 \<Rightarrow> NetlinkMessageHeader \<Rightarrow> NetlinkMessageHeader" where
  "init_header len ty flags h = h\<lparr>nlmsg_len := Some len, nlmsg_type := Some ty, nlmsg_flags := Some flags\<rparr>"

definition e7173ad4_initNetlinkAddressRequest ::
    "NetlinkMessageHeader \<Rightarrow> u8 \<Rightarrow> NetlinkAddressMessage NetlinkRequest" where
  "e7173ad4_initNetlinkAddressRequest header addressType =
     \<lparr>msgHeader = init_header (NLMSG_LENGTH 8) RTM_GETADDR (NLM_F_REQUEST OR NLM_F_ROOT) header,
      msgBody = \<lparr>ifa_family = addressType, ifa_prefixlen = 0, ifa_flags = 0, ifa_scope = 0, ifa_index = 0\<rparr>\<rparr>"

definition e7173ad4_initNetlinkInfoRequest ::
    "NetlinkMessageHeader \<Rightarrow> u32 \<Rightarrow> NetlinkInfoMessage NetlinkRequest" where
  "e7173ad4_initNetlinkInfoRequest header ifaceIndex =
     \<lparr>msgHeader = init_header (NLMSG_LENGTH 16) RTM_GETLINK NLM_F_REQUEST header,
      msgBody = \<lparr>ifi_family = AF_UNSPEC, ifi_type = 0, ifi_index = ifaceIndex, ifi_flags = 0,
                 ifi_change = 0xffffffff\<rparr>\<rparr>"

text \<open>The table, origin, scope and type of a new request are all the number 0.\<close>

definition e7173ad4_initNetlinkRouteRequest ::
    "NetlinkMessageHeader \<Rightarrow> u8 \<Rightarrow> NetlinkRouteMessage NetlinkRequest" where
  "e7173ad4_initNetlinkRouteRequest header addressType =
     \<lparr>msgHeader = init_header (NLMSG_LENGTH 12) RTM_GETROUTE (NLM_F_REQUEST OR NLM_F_ROOT) header,
      msgBody = \<lparr>rtm_family = addressType, rtm_dst_len = 0, rtm_src_len = 0, rtm_tos = 0, rtm_table = 0,
                 rtm_protocol = 0, rtm_scope = 0, rtm_type = 0, rtm_flags = 0\<rparr>\<rparr>"

definition e7173ad4_initReceiveMessageHeader :: "NetlinkSocket \<Rightarrow> ReceiveMessageHeader" where
  "e7173ad4_initReceiveMessageHeader netlinkSocket =
     \<lparr>msg_name = ns_addr netlinkSocket, msg_namelen = 12, msg_iov = ns_ioBuffer netlinkSocket, msg_iovlen = 1\<rparr>"

text \<open>getsockname overwrites the address.\<close>

definition e7173ad4_bind ::
    "env \<Rightarrow> (NetlinkAddress \<Rightarrow> unit sysret) \<Rightarrow> NetlinkAddress sysret \<Rightarrow> NetlinkSocket \<Rightarrow> NetlinkSocket result" where
  "e7173ad4_bind e sys_bind sys_getsockname netlinkSocket =
     bnd (succeed e ''Cannot bind Netlink socket'' (sys_bind (ns_addr netlinkSocket))) (\<lambda>_.
     bnd (succeed e ''Cannot get Netlink socket name'' sys_getsockname) (\<lambda>addr.
     Inr (netlinkSocket\<lparr>ns_addr := addr\<rparr>)))"

definition e7173ad4_close :: "env \<Rightarrow> (u32 \<Rightarrow> unit sysret) \<Rightarrow> NetlinkSocket \<Rightarrow> unit result" where
  "e7173ad4_close e sys_close netlinkSocket =
     succeed e ''Cannot close Netlink socket'' (sys_close (ns_fd netlinkSocket))"

definition e7173ad4_open :: "env \<Rightarrow> (u32 \<Rightarrow> u32 \<Rightarrow> u32 sysret) \<Rightarrow> NetlinkSocket \<Rightarrow> NetlinkSocket result" where
  "e7173ad4_open e sys_socket netlinkSocket =
     bnd (succeed e ''Cannot open Netlink socket'' (sys_socket (SOCK_RAW OR SOCK_CLOEXEC) (ns_family netlinkSocket)))
       (\<lambda>fd. Inr (netlinkSocket\<lparr>ns_fd := fd\<rparr>))"

text \<open>setsockopt is told that the option has four bytes; the flag has one, and the three behind it are not its own.\<close>

definition e7173ad4_setExtendedACKReporting :: "env \<Rightarrow> unit sysret \<Rightarrow> bool \<Rightarrow> unit result" where
  "e7173ad4_setExtendedACKReporting e sys_setsockopt extAckFlag =
     bnd (read_cells [Some (if extAckFlag then 1 else 0 :: u8)] 0 4) (\<lambda>_.
     succeed e ''Cannot set Netlink extended ACK reporting flag'' sys_setsockopt)"

subsection \<open>ethernet.c and ip-util.c\<close>

definition IFNAMSIZ :: nat where "IFNAMSIZ = 16"

text \<open>
  struct ifreq: the name in the first 16 of its 40 bytes, the union behind it. Copying the name takes 16 bytes of
  it, however long it is, and puts a NUL behind them, into the union.
\<close>

definition init_ifreq :: "string \<Rightarrow> char block result" where
  "init_ifreq name =
     bnd (f668c4bd_meminit NUL (fresh 40) 0 40) (\<lambda>request. f6215943_copyToBuffer name request 0 IFNAMSIZ)"

definition d3843373_initEthernetRequest :: "string \<Rightarrow> char block result" where
  "d3843373_initEthernetRequest deviceName = init_ifreq deviceName"

record EthernetStatus =
  es_cmd :: u32
  es_speed :: u16
  es_speed_hi :: u16

record Ethernet =
  et_status :: EthernetStatus
  et_speed :: u32
  et_mtu :: u32

definition ETHTOOL_GSET :: u32 where "ETHTOOL_GSET = 1"

text \<open>\<open>sys_ioctl\<close> yields the field of the union that the call fills in.\<close>

definition d3843373_getEthernetMTU :: "env \<Rightarrow> u32 sysret \<Rightarrow> Ethernet \<Rightarrow> char block \<Rightarrow> Ethernet result" where
  "d3843373_getEthernetMTU e sys_ioctl ethernet request =
     (case sys_ioctl of
        SysErr errno \<Rightarrow>
          bnd (c_string request) (\<lambda>name.
          die_lib e (quoted (''Failure retrieving MTU for ethernet device '' @ [quote]) name) errno)
      | SysOk mtu \<Rightarrow> Inr (ethernet\<lparr>et_mtu := mtu\<rparr>))"

text \<open>
  A failure is reported, and the speed is then taken from the status as it was. The result carries the
  message written. The speed is put together from its two halves (ethtool_cmd_speed).
\<close>

definition ethtool_cmd_speed :: "EthernetStatus \<Rightarrow> u32" where
  "ethtool_cmd_speed s = push_bit 16 (ucast (es_speed_hi s)) OR ucast (es_speed s)"

definition d3843373_getEthernetStatus ::
    "env \<Rightarrow> (EthernetStatus \<Rightarrow> EthernetStatus sysret) \<Rightarrow> Ethernet \<Rightarrow> char block \<Rightarrow> (string \<times> Ethernet) result" where
  "d3843373_getEthernetStatus e sys_ioctl ethernet request =
     (let status = (et_status ethernet)\<lparr>es_cmd := ETHTOOL_GSET\<rparr>
      in bnd (case sys_ioctl status of
                SysErr errno \<Rightarrow>
                  bnd (c_string request) (\<lambda>name.
                  bnd (warn_lib e (quoted (''Failure retrieving status for ethernet device '' @ [quote]) name) errno)
                    (\<lambda>out. Inr (out, status)))
              | SysOk status \<Rightarrow> Inr ([], status)) (\<lambda>(out, status).
         Inr (out, ethernet\<lparr>et_status := status, et_speed := ethtool_cmd_speed status\<rparr>)))"

definition invalid_address :: "env \<Rightarrow> string \<Rightarrow> string \<Rightarrow> 'a result" where
  "invalid_address e caption ipAddress =
     bnd (message_in (c598a24c_initStringBuilder_uint32 128) [Str (caption @ [quote]), Str ipAddress, Chr quote])
       (\<lambda>m. Inl (Exit (c7c88e52_printError_string e m)))"

definition a25c96b2_invalidIPv4Address :: "env \<Rightarrow> string \<Rightarrow> 'a result" where
  "a25c96b2_invalidIPv4Address e ipAddress = invalid_address e ''Invalid IPv4 Address: '' ipAddress"

definition a25c96b2_invalidIPv6Address :: "env \<Rightarrow> string \<Rightarrow> 'a result" where
  "a25c96b2_invalidIPv6Address e ipAddress = invalid_address e ''Invalid IPv6 Address: '' ipAddress"

subsection \<open>Lemmas\<close>

lemma succeed_simps [simp]:
  "succeed e m (SysOk v) = Inr v" "succeed e m (SysErr errno) = exit_lib e m errno"
  by (simp_all add: succeed_def)

text \<open>A device name shorter than 15 chars is read past its end.\<close>

lemma init_ifreq_overreads: "length name < 15 \<Longrightarrow> init_ifreq name = Inl OutOfBounds"
  by (simp add: init_ifreq_def f668c4bd_meminit_def f6215943_copyToBuffer_def IFNAMSIZ_def blit_def)

lemma receiveMessage_ok:
  assumes "length bytes \<le> unat (iov_len (msg_iov msg))" and "length bytes \<le> length (iov_base (msg_iov msg))"
  shows "a36b5966_receiveMessage e (SysOk (sender, bytes)) msg =
         Inr (int (length bytes), msg\<lparr>msg_name := sender, msg_iov := (msg_iov msg)\<lparr>iov_base :=
           map Some bytes @ drop (length bytes) (iov_base (msg_iov msg))\<rparr>\<rparr>)"
  using assms by (simp add: a36b5966_receiveMessage_def recvmsg_def blit_def)

end
