(* ===== verification/NetworkDevice.thy ===== *)
theory NetworkDevice
  imports Sockets
begin

text \<open>
  net/networkdevice.c: addresses and gateways of a network device, asked of the kernel over a netlink socket. The
  answer comes as datagrams, each a sequence of messages in the socket's buffer, each of these with a sequence
  of attributes. The macros of linux/netlink.h and linux/rtnetlink.h that walk them are written out (netlink(3),
  rtnetlink(3)); a pointer into the buffer is an index. A device that malloc returned has unset cells.
\<close>

unbundle bit_operations_syntax

subsection \<open>Walking messages and attributes\<close>

definition NLMSG_DONE :: u16 where "NLMSG_DONE = 3"
definition IFA_ADDRESS :: u16 where "IFA_ADDRESS = 1"
definition RTA_OIF :: u16 where "RTA_OIF = 4"
definition RTA_GATEWAY :: u16 where "RTA_GATEWAY = 5"
definition RT_SCOPE_UNIVERSE :: u8 where "RT_SCOPE_UNIVERSE = 0"
definition RT_SCOPE_LINK :: u8 where "RT_SCOPE_LINK = 253"
definition RT_TABLE_MAIN :: u8 where "RT_TABLE_MAIN = 254"
definition DEFAULT_ROUTE_TABLE :: u8 where "DEFAULT_ROUTE_TABLE = 253"
definition RTN_UNICAST :: u8 where "RTN_UNICAST = 1"

definition align4 :: "nat \<Rightarrow> nat" where
  "align4 n = (n + 3) div 4 * 4"

definition message_length :: "u8 block \<Rightarrow> nat \<Rightarrow> nat result" where
  "message_length b msg = bnd (rd32 b msg) (\<lambda>len. Inr (unat len))"

definition message_type :: "u8 block \<Rightarrow> nat \<Rightarrow> u16 result" where
  "message_type b msg = rd16 b (msg + 4)"

definition NLMSG_OK :: "u8 block \<Rightarrow> nat \<Rightarrow> int \<Rightarrow> bool result" where
  "NLMSG_OK b msg len =
     (if len < 16 then Inr False
      else bnd (message_length b msg) (\<lambda>nlmsg_len. Inr (16 \<le> nlmsg_len \<and> int nlmsg_len \<le> len)))"

definition NLMSG_NEXT :: "u8 block \<Rightarrow> nat \<Rightarrow> int \<Rightarrow> (nat \<times> int) result" where
  "NLMSG_NEXT b msg len =
     bnd (message_length b msg) (\<lambda>nlmsg_len. Inr (msg + align4 nlmsg_len, len - int (align4 nlmsg_len)))"

definition NLMSG_DATA :: "nat \<Rightarrow> nat" where
  "NLMSG_DATA msg = msg + 16"

text \<open>The length of what follows a body of \<open>bodySize\<close> bytes, as an int.\<close>

definition NLMSG_PAYLOAD :: "u8 block \<Rightarrow> nat \<Rightarrow> nat \<Rightarrow> int result" where
  "NLMSG_PAYLOAD b msg bodySize =
     bnd (message_length b msg) (\<lambda>nlmsg_len. Inr (int nlmsg_len - int (align4 (bodySize + 16))))"

definition IFA_RTA :: "nat \<Rightarrow> nat" where "IFA_RTA body = body + 8"
definition RTM_RTA :: "nat \<Rightarrow> nat" where "RTM_RTA body = body + 12"

definition rta_len :: "u8 block \<Rightarrow> nat \<Rightarrow> nat result" where
  "rta_len b rta = bnd (rd16 b rta) (\<lambda>len. Inr (unat len))"

definition rta_type :: "u8 block \<Rightarrow> nat \<Rightarrow> u16 result" where
  "rta_type b rta = rd16 b (rta + 2)"

definition RTA_OK :: "u8 block \<Rightarrow> nat \<Rightarrow> int \<Rightarrow> bool result" where
  "RTA_OK b rta len =
     (if len < 4 then Inr False else bnd (rta_len b rta) (\<lambda>n. Inr (4 \<le> n \<and> int n \<le> len)))"

definition RTA_NEXT :: "u8 block \<Rightarrow> nat \<Rightarrow> int \<Rightarrow> (nat \<times> int) result" where
  "RTA_NEXT b rta len = bnd (rta_len b rta) (\<lambda>n. Inr (rta + align4 n, len - int (align4 n)))"

definition RTA_DATA :: "nat \<Rightarrow> nat" where "RTA_DATA rta = rta + 4"

definition RTA_PAYLOAD :: "u8 block \<Rightarrow> nat \<Rightarrow> nat result" where
  "RTA_PAYLOAD b rta = bnd (rta_len b rta) (\<lambda>n. Inr (n - 4))"

text \<open>
  The loop \<open>for (; OK(p, len); p = NEXT(p, len))\<close>: the body yields the next state and whether it leaves the loop by
  break.
\<close>

definition walk :: "(nat \<Rightarrow> int \<Rightarrow> bool result) \<Rightarrow> (nat \<Rightarrow> int \<Rightarrow> (nat \<times> int) result) \<Rightarrow>
    (nat \<Rightarrow> 's \<Rightarrow> (bool \<times> 's) result) \<Rightarrow> nat \<Rightarrow> int \<Rightarrow> 's \<Rightarrow> 's result" where
  "walk is_ok nxt body p len s =
     repeat_until (\<lambda>(p, len, s).
       bnd (is_ok p len) (\<lambda>ok.
       if \<not> ok then Inr (Inr s)
       else bnd (body p s) (\<lambda>(stop, s).
            if stop then Inr (Inr s)
            else bnd (nxt p len) (\<lambda>(p, len). Inr (Inl (p, len, s)))))) (p, len, s)"

definition for_messages :: "u8 block \<Rightarrow> (nat \<Rightarrow> 's \<Rightarrow> (bool \<times> 's) result) \<Rightarrow> int \<Rightarrow> 's \<Rightarrow> 's result" where
  "for_messages b body msgLen s = walk (NLMSG_OK b) (NLMSG_NEXT b) body 0 msgLen s"

definition for_attributes :: "u8 block \<Rightarrow> (nat \<Rightarrow> 's \<Rightarrow> (bool \<times> 's) result) \<Rightarrow> nat \<Rightarrow> int \<Rightarrow> 's \<Rightarrow> 's result" where
  "for_attributes b body attr len s = walk (RTA_OK b) (RTA_NEXT b) body attr len s"

text \<open>
  The loop around them: until the first message of a datagram is the end marker, walk the messages of the datagram
  and receive the next one. \<open>events\<close> are the results of the calls of recvmsg to come; when there are none the
  process waits forever.
\<close>

fun receive_loop :: "env \<Rightarrow> (u8 block \<Rightarrow> nat \<Rightarrow> 's \<Rightarrow> (bool \<times> 's) result) \<Rightarrow>
    (NetlinkAddress \<times> u8 list) sysret list \<Rightarrow> int \<Rightarrow> ReceiveMessageHeader \<Rightarrow> 's \<Rightarrow>
    (ReceiveMessageHeader \<times> 's) result" where
  "receive_loop e body events msgLen response s =
     (let b = iov_base (msg_iov response)
      in bnd (message_type b 0) (\<lambda>ty.
         if ty = NLMSG_DONE then Inr (response, s)
         else bnd (for_messages b (body b) msgLen s) (\<lambda>s.
              case events of
                [] \<Rightarrow> Inl NoReturn
              | ev # events \<Rightarrow> bnd (a36b5966_receiveMessage e ev response) (\<lambda>(msgLen, response).
                  receive_loop e body events msgLen response s))))"

declare receive_loop.simps [simp del]

text \<open>Send the request, receive the first datagram and enter the loop; the socket keeps its buffer and the sender's address.\<close>

definition converse :: "env \<Rightarrow> ('m \<Rightarrow> int sysret) \<Rightarrow> (NetlinkAddress \<times> u8 list) sysret list \<Rightarrow> 'm \<Rightarrow>
    (u8 block \<Rightarrow> nat \<Rightarrow> 's \<Rightarrow> (bool \<times> 's) result) \<Rightarrow> NetlinkSocket \<Rightarrow> 's \<Rightarrow> ('s \<times> NetlinkSocket) result" where
  "converse e sys_sendto events request body netlinkSocket s =
     bnd (a36b5966_sendMessage e sys_sendto request) (\<lambda>_.
     case events of
       [] \<Rightarrow> Inl NoReturn
     | ev # events \<Rightarrow>
         bnd (a36b5966_receiveMessage e ev (e7173ad4_initReceiveMessageHeader netlinkSocket)) (\<lambda>(msgLen, response).
         bnd (receive_loop e body events msgLen response s) (\<lambda>(response, s).
         Inr (s, netlinkSocket\<lparr>ns_addr := msg_name response, ns_ioBuffer := msg_iov response\<rparr>))))"

text \<open>The header of a request on the stack, before it is initialised.\<close>

definition unset_header :: NetlinkMessageHeader where
  "unset_header = \<lparr>nlmsg_len = None, nlmsg_type = None, nlmsg_flags = None, nlmsg_seq = None, nlmsg_pid = None\<rparr>"

subsection \<open>The device\<close>

record IPv4Address =
  ip4_address :: "u32 option"
  ip4_cidrSuffix :: "u32 option"
  ip4_subnetMask :: "u32 option"
  ip4_routingPrefix :: "u32 option"

record IPv6Address =
  ip6_address :: "u8 block"
  ip6_cidrSuffix :: "u32 option"

record NetworkDevice =
  nd_ipv4Address :: IPv4Address
  nd_ipv6Global :: IPv6Address
  nd_ipv6Local :: IPv6Address
  nd_name :: string
  nd_ipv6Gateway :: IPv6Address
  nd_ipv4Gateway :: "u32 option"
  nd_index :: u32

definition f0185083_createNetworkDevice :: "string \<Rightarrow> NetworkDevice" where
  "f0185083_createNetworkDevice deviceName =
     (let unset6 = \<lparr>ip6_address = fresh 16, ip6_cidrSuffix = None\<rparr>
      in \<lparr>nd_ipv4Address = \<lparr>ip4_address = None, ip4_cidrSuffix = None, ip4_subnetMask = None, ip4_routingPrefix = None\<rparr>,
          nd_ipv6Global = unset6, nd_ipv6Local = unset6, nd_name = deviceName, nd_ipv6Gateway = unset6,
          nd_ipv4Gateway = None, nd_index = 0\<rparr>)"

definition f0185083_initNetworkDevice :: "NetworkDevice \<Rightarrow> string \<Rightarrow> NetworkDevice" where
  "f0185083_initNetworkDevice networkDevice deviceName = networkDevice\<lparr>nd_name := deviceName, nd_index := 0\<rparr>"

definition f0185083_initNetworkDeviceRequest :: "NetworkDevice \<Rightarrow> char block result" where
  "f0185083_initNetworkDeviceRequest networkDevice = init_ifreq (nd_name networkDevice)"

definition f0185083_getNetworkDeviceIndex :: "env \<Rightarrow> u32 sysret \<Rightarrow> NetworkDevice \<Rightarrow> NetworkDevice result" where
  "f0185083_getNetworkDeviceIndex e sys_ioctl networkDevice =
     (case sys_ioctl of
        SysErr errno \<Rightarrow>
          die_lib e (quoted (''Failure retrieving network device index for '' @ [quote]) (nd_name networkDevice)) errno
      | SysOk ifindex \<Rightarrow> Inr (networkDevice\<lparr>nd_index := ifindex\<rparr>))"

subsection \<open>Addresses\<close>

text \<open>A message about an address of the device: what is done with each address attribute depends on the scope.\<close>

definition address_message :: "(u8 block \<Rightarrow> nat \<Rightarrow> nat \<Rightarrow> u8 \<Rightarrow> NetworkDevice \<Rightarrow> (bool \<times> NetworkDevice) result) \<Rightarrow>
    u8 block \<Rightarrow> nat \<Rightarrow> NetworkDevice \<Rightarrow> (bool \<times> NetworkDevice) result" where
  "address_message store b msg networkDevice =
     (let addrMessage = NLMSG_DATA msg
      in bnd (rd32 b (addrMessage + 4)) (\<lambda>ifa_index.
         if ifa_index \<noteq> nd_index networkDevice then Inr (False, networkDevice)
         else
           bnd (NLMSG_PAYLOAD b msg 8) (\<lambda>messageLen.
           bnd (for_attributes b (\<lambda>attribute networkDevice.
                  bnd (rta_type b attribute) (\<lambda>ty.
                  if ty \<noteq> IFA_ADDRESS then Inr (False, networkDevice)
                  else bnd (rd b (addrMessage + 3)) (\<lambda>scope.
                       store b addrMessage attribute scope networkDevice)))
                (IFA_RTA addrMessage) messageLen networkDevice) (\<lambda>networkDevice.
           Inr (False, networkDevice)))))"

definition store_ipv4 :: "u8 block \<Rightarrow> nat \<Rightarrow> nat \<Rightarrow> u8 \<Rightarrow> NetworkDevice \<Rightarrow> (bool \<times> NetworkDevice) result" where
  "store_ipv4 b addrMessage attribute scope networkDevice =
     (if scope \<noteq> RT_SCOPE_UNIVERSE then Inr (False, networkDevice)
      else bnd (rd32 b (RTA_DATA attribute)) (\<lambda>address.
           bnd (rd b (addrMessage + 1)) (\<lambda>prefixlen.
           Inr (True, networkDevice\<lparr>nd_ipv4Address := (nd_ipv4Address networkDevice)
                        \<lparr>ip4_address := Some address, ip4_cidrSuffix := Some (ucast prefixlen)\<rparr>\<rparr>))))"

definition f0185083_getIPv4Address :: "env \<Rightarrow> (NetlinkAddressMessage NetlinkRequest \<Rightarrow> int sysret) \<Rightarrow>
    (NetlinkAddress \<times> u8 list) sysret list \<Rightarrow> NetworkDevice \<Rightarrow> NetlinkSocket \<Rightarrow> (NetworkDevice \<times> NetlinkSocket) result" where
  "f0185083_getIPv4Address e sys_sendto events networkDevice netlinkSocket =
     converse e sys_sendto events (e7173ad4_initNetlinkAddressRequest unset_header AF_INET)
       (address_message store_ipv4) netlinkSocket networkDevice"

text \<open>As many bytes are copied as the attribute has; 16 of them have room.\<close>

definition copy_ipv6 :: "u8 block \<Rightarrow> nat \<Rightarrow> IPv6Address \<Rightarrow> IPv6Address result" where
  "copy_ipv6 b attribute addr =
     bnd (RTA_PAYLOAD b attribute) (\<lambda>n.
     bnd (f668c4bd_memcopy b (RTA_DATA attribute) (ip6_address addr) 0 n) (\<lambda>bytes.
     Inr (addr\<lparr>ip6_address := bytes\<rparr>)))"

definition store_ipv6 :: "u8 block \<Rightarrow> nat \<Rightarrow> nat \<Rightarrow> u8 \<Rightarrow> NetworkDevice \<Rightarrow> (bool \<times> NetworkDevice) result" where
  "store_ipv6 b addrMessage attribute scope networkDevice =
     (if scope = RT_SCOPE_UNIVERSE then
        bnd (copy_ipv6 b attribute (nd_ipv6Global networkDevice)) (\<lambda>addr.
        bnd (rd b (addrMessage + 1)) (\<lambda>prefixlen.
        Inr (True, networkDevice\<lparr>nd_ipv6Global := addr\<lparr>ip6_cidrSuffix := Some (ucast prefixlen)\<rparr>\<rparr>)))
      else if scope = RT_SCOPE_LINK then
        bnd (copy_ipv6 b attribute (nd_ipv6Local networkDevice)) (\<lambda>addr.
        bnd (rd b (addrMessage + 1)) (\<lambda>prefixlen.
        Inr (True, networkDevice\<lparr>nd_ipv6Local := addr\<lparr>ip6_cidrSuffix := Some (ucast prefixlen)\<rparr>\<rparr>)))
      else Inr (False, networkDevice))"

definition f0185083_getIPv6Addresses :: "env \<Rightarrow> (NetlinkAddressMessage NetlinkRequest \<Rightarrow> int sysret) \<Rightarrow>
    (NetlinkAddress \<times> u8 list) sysret list \<Rightarrow> NetworkDevice \<Rightarrow> NetlinkSocket \<Rightarrow> (NetworkDevice \<times> NetlinkSocket) result" where
  "f0185083_getIPv6Addresses e sys_sendto events networkDevice netlinkSocket =
     converse e sys_sendto events (e7173ad4_initNetlinkAddressRequest unset_header AF_INET6)
       (address_message store_ipv6) netlinkSocket networkDevice"

subsection \<open>Gateways\<close>

text \<open>
  A route of the main table: every gateway attribute is stored in the device when it is met, before the
  attribute with the route's device is. The state is the device, foundGateway and outputDeviceIndex.
\<close>

definition route_message :: "(u8 block \<Rightarrow> nat \<Rightarrow> NetworkDevice \<Rightarrow> NetworkDevice result) \<Rightarrow>
    u8 block \<Rightarrow> nat \<Rightarrow> NetworkDevice \<Rightarrow> (bool \<times> NetworkDevice) result" where
  "route_message store b nlMsgHeader networkDevice =
     (let nlRouteMessage = NLMSG_DATA nlMsgHeader
      in bnd (rd b (nlRouteMessage + 4)) (\<lambda>rtm_table.
         bnd (if rtm_table = RT_TABLE_MAIN then bnd (rd b (nlRouteMessage + 7)) (\<lambda>t. Inr (t = RTN_UNICAST))
              else Inr False) (\<lambda>wanted.
         if \<not> wanted then Inr (False, networkDevice)
         else
           bnd (NLMSG_PAYLOAD b nlMsgHeader 12) (\<lambda>msgLength.
           bnd (for_attributes b (\<lambda>nlAttribute (networkDevice, foundGateway, outputDeviceIndex).
                  bnd (rta_type b nlAttribute) (\<lambda>ty.
                  if ty = RTA_GATEWAY then
                    bnd (store b nlAttribute networkDevice) (\<lambda>networkDevice.
                    Inr (False, networkDevice, True, outputDeviceIndex))
                  else if ty = RTA_OIF then
                    bnd (rd32 b (RTA_DATA nlAttribute)) (\<lambda>oif.
                    Inr (oif \<noteq> nd_index networkDevice, networkDevice, foundGateway, oif))
                  else Inr (False, networkDevice, foundGateway, outputDeviceIndex)))
                (RTM_RTA nlRouteMessage) msgLength (networkDevice, False, - 1))
             (\<lambda>(networkDevice, foundGateway, outputDeviceIndex).
           Inr (foundGateway \<and> outputDeviceIndex = nd_index networkDevice, networkDevice))))))"

definition store_gateway4 :: "u8 block \<Rightarrow> nat \<Rightarrow> NetworkDevice \<Rightarrow> NetworkDevice result" where
  "store_gateway4 b nlAttribute networkDevice =
     bnd (rd32 b (RTA_DATA nlAttribute)) (\<lambda>g. Inr (networkDevice\<lparr>nd_ipv4Gateway := Some g\<rparr>))"

definition store_gateway6 :: "u8 block \<Rightarrow> nat \<Rightarrow> NetworkDevice \<Rightarrow> NetworkDevice result" where
  "store_gateway6 b nlAttribute networkDevice =
     bnd (copy_ipv6 b nlAttribute (nd_ipv6Gateway networkDevice)) (\<lambda>addr.
     Inr (networkDevice\<lparr>nd_ipv6Gateway := addr\<lparr>ip6_cidrSuffix := Some 0\<rparr>\<rparr>))"

definition route_request :: "u8 \<Rightarrow> NetlinkRouteMessage NetlinkRequest" where
  "route_request family =
     (let request = e7173ad4_initNetlinkRouteRequest unset_header family
      in request\<lparr>msgBody := (msgBody request)\<lparr>rtm_table := DEFAULT_ROUTE_TABLE\<rparr>\<rparr>)"

definition f0185083_getIPv4Gateway :: "env \<Rightarrow> (NetlinkRouteMessage NetlinkRequest \<Rightarrow> int sysret) \<Rightarrow>
    (NetlinkAddress \<times> u8 list) sysret list \<Rightarrow> NetworkDevice \<Rightarrow> NetlinkSocket \<Rightarrow> (NetworkDevice \<times> NetlinkSocket) result" where
  "f0185083_getIPv4Gateway e sys_sendto events networkDevice netlinkSocket =
     converse e sys_sendto events (route_request AF_INET) (route_message store_gateway4) netlinkSocket networkDevice"

definition f0185083_getIPv6Gateway :: "env \<Rightarrow> (NetlinkRouteMessage NetlinkRequest \<Rightarrow> int sysret) \<Rightarrow>
    (NetlinkAddress \<times> u8 list) sysret list \<Rightarrow> NetworkDevice \<Rightarrow> NetlinkSocket \<Rightarrow> (NetworkDevice \<times> NetlinkSocket) result" where
  "f0185083_getIPv6Gateway e sys_sendto events networkDevice netlinkSocket =
     converse e sys_sendto events (route_request AF_INET6) (route_message store_gateway6) netlinkSocket networkDevice"

end
