(* ===== verification/NetlinkWalk.thy ===== *)
theory NetlinkWalk
  imports NetworkDevice
begin

text \<open>
  The loops of net/networkdevice.c on well-formed answers of the kernel: the bytes of attributes, messages and
  datagrams, and what each loop yields on them. \<open>walk_items\<close> is the common part of the two inner loops.
\<close>

unbundle bit_operations_syntax

subsection \<open>Walking a sequence of items\<close>

primrec fold_until :: "('x \<Rightarrow> 's \<Rightarrow> bool \<times> 's) \<Rightarrow> 's \<Rightarrow> 'x list \<Rightarrow> 's" where
  "fold_until f s [] = s"
| "fold_until f s (x # xs) = (case f x s of (stop, s) \<Rightarrow> if stop then s else fold_until f s xs)"

lemma walk_items:
  assumes "holds b (pre @ concat (map enc xs) @ post)" and "\<And>p. is_ok p 0 = Inr False"
    and "\<And>pre x post len s. x \<in> set xs \<Longrightarrow> holds b (pre @ enc x @ post) \<Longrightarrow> int (length (enc x)) \<le> len \<Longrightarrow>
           is_ok (length pre) len = Inr True \<and>
           nxt (length pre) len = Inr (length pre + length (enc x), len - int (length (enc x))) \<and>
           body (length pre) s = Inr (f x s)"
  shows "walk is_ok nxt body (length pre) (int (length (concat (map enc xs)))) s = Inr (fold_until f s xs)"
  using assms(1,3)
proof (induction xs arbitrary: pre s)
  case Nil
  show ?case by (simp add: walk_def repeat_until_unfold assms(2))
next
  case (Cons x xs)
  let ?n = "length (enc x)" and ?rest = "concat (map enc xs)"
  have h: "holds b (pre @ enc x @ (?rest @ post))" using Cons.prems(1) by simp
  have step: "is_ok (length pre) (int (?n + length ?rest)) = Inr True"
    "nxt (length pre) (int (?n + length ?rest)) = Inr (length pre + ?n, int (length ?rest))"
    "body (length pre) s = Inr (f x s)"
    using Cons.prems(2) [OF _ h, of "int (?n + length ?rest)" s] by auto
  have "holds b ((pre @ enc x) @ ?rest @ post)" using Cons.prems(1) by simp
  from Cons.IH [OF this Cons.prems(2)] have
    IH: "walk is_ok nxt body (length (pre @ enc x)) (int (length ?rest)) s = Inr (fold_until f s xs)" for s
    by simp
  show ?case
    using step IH by (cases "f x s") (simp add: walk_def repeat_until_unfold [of _ "(_, _, s)"])
qed

subsection \<open>Bytes of attributes and messages\<close>

type_synonym attr = "u16 \<times> u8 list"

definition attr_bytes :: "attr \<Rightarrow> u8 list" where
  "attr_bytes a = le16 (of_nat (4 + length (snd a))) @ le16 (fst a) @ snd a @
     replicate (align4 (length (snd a)) - length (snd a)) 0"

definition attrs_bytes :: "attr list \<Rightarrow> u8 list" where
  "attrs_bytes as = concat (map attr_bytes as)"

definition attr_ok :: "attr \<Rightarrow> bool" where
  "attr_ok a \<longleftrightarrow> length (snd a) < 65000"

text \<open>The flags, the sequence number and the sender of a message are never looked at.\<close>

definition message_bytes :: "u16 \<Rightarrow> u8 list \<Rightarrow> u8 list \<Rightarrow> attr list \<Rightarrow> u8 list" where
  "message_bytes ty other body as =
     le32 (of_nat (16 + length body + length (attrs_bytes as))) @ le16 ty @ other @ body @ attrs_bytes as"

lemma align4_le: "n \<le> align4 n"
  by (simp add: align4_def)

lemma align4_add: "align4 (4 + n) = 4 + align4 n"
  unfolding align4_def by presburger

lemma align4_dvd: "4 dvd n \<Longrightarrow> align4 n = n"
  by (auto simp: align4_def elim!: dvdE)

lemma length_attr_bytes: "length (attr_bytes a) = 4 + align4 (length (snd a))"
  using align4_le [of "length (snd a)"] by (simp add: attr_bytes_def)

lemma length_attrs_dvd: "4 dvd length (attrs_bytes as)"
  by (induction as) (simp_all add: attrs_bytes_def length_attr_bytes align4_def)

lemma rta_fields:
  assumes "holds b (pre @ attr_bytes a @ post)" and "attr_ok a"
  shows "rta_len b (length pre) = Inr (4 + length (snd a))" and "rta_type b (length pre) = Inr (fst a)"
proof -
  have "length (snd a) + 4 < 65536" using assms(2) by (simp add: attr_ok_def)
  then have u: "unat (of_nat (4 + length (snd a)) :: u16) = 4 + length (snd a)"
    by (intro of_nat_inverse) simp_all
  show "rta_len b (length pre) = Inr (4 + length (snd a))"
    using rd16_in [OF assms(1), of 0] u by (simp add: rta_len_def attr_bytes_def)
  show "rta_type b (length pre) = Inr (fst a)"
    using rd16_in [OF assms(1), of 2] by (simp add: rta_type_def attr_bytes_def)
qed

lemma for_attributes_items:
  assumes "holds b (pre @ attrs_bytes as @ post)" and "\<forall>a \<in> set as. attr_ok a"
    and "\<And>pre a post s. a \<in> set as \<Longrightarrow> holds b (pre @ attr_bytes a @ post) \<Longrightarrow> body (length pre) s = Inr (f a s)"
  shows "for_attributes b body (length pre) (int (length (attrs_bytes as))) s = Inr (fold_until f s as)"
  unfolding for_attributes_def attrs_bytes_def
proof (rule walk_items)
  show "holds b (pre @ concat (map attr_bytes as) @ post)" using assms(1) by (simp add: attrs_bytes_def)
  show "RTA_OK b p 0 = Inr False" for p by (simp add: RTA_OK_def)
  fix pre a post len s
  assume a: "a \<in> set as" "holds b (pre @ attr_bytes a @ post)" "int (length (attr_bytes a)) \<le> len"
  have l: "int (4 + length (snd a)) \<le> int (length (attr_bytes a))"
    unfolding length_attr_bytes using align4_le [of "length (snd a)"] by linarith
  have fields: "rta_len b (length pre) = Inr (4 + length (snd a))" using rta_fields a(2) assms(2) a(1) by blast
  have "RTA_OK b (length pre) len = Inr True"
    using l a(3) fields by (simp add: RTA_OK_def)
  moreover have "RTA_NEXT b (length pre) len = Inr (length pre + length (attr_bytes a), len - int (length (attr_bytes a)))"
    using fields by (simp add: RTA_NEXT_def align4_add length_attr_bytes)
  ultimately show "RTA_OK b (length pre) len = Inr True \<and>
      RTA_NEXT b (length pre) len = Inr (length pre + length (attr_bytes a), len - int (length (attr_bytes a))) \<and>
      body (length pre) s = Inr (f a s)"
    using assms(3) [OF a(1,2)] by blast
qed

definition message_ok :: "nat \<Rightarrow> u8 list \<Rightarrow> u8 list \<Rightarrow> attr list \<Rightarrow> bool" where
  "message_ok n other body as \<longleftrightarrow> length other = 10 \<and> length body = n \<and> 4 dvd n \<and> (\<forall>a \<in> set as. attr_ok a) \<and>
     16 + n + length (attrs_bytes as) < 2 ^ 32"

lemma message_fields:
  assumes "holds b (pre @ message_bytes ty other body as @ post)" and "message_ok n other body as"
  shows "message_length b (length pre) = Inr (16 + n + length (attrs_bytes as))"
    and "message_type b (length pre) = Inr ty"
    and "length (message_bytes ty other body as) = 16 + n + length (attrs_bytes as)"
    and "\<And>k. k < n \<Longrightarrow> rd b (NLMSG_DATA (length pre) + k) = Inr (body ! k)"
    and "\<And>k w. k + 4 \<le> n \<Longrightarrow> take 4 (drop k body) = le32 w \<Longrightarrow> rd32 b (NLMSG_DATA (length pre) + k) = Inr w"
proof -
  let ?m = "message_bytes ty other body as"
  have u: "unat (of_nat (16 + n + length (attrs_bytes as)) :: u32) = 16 + n + length (attrs_bytes as)"
    using assms(2) by (intro of_nat_inverse) (simp_all add: message_ok_def)
  show len: "length ?m = 16 + n + length (attrs_bytes as)"
    using assms(2) by (simp add: message_bytes_def message_ok_def)
  show "message_length b (length pre) = Inr (16 + n + length (attrs_bytes as))"
    using rd32_in [OF assms(1), of 0] u assms(2) by (simp add: message_length_def message_bytes_def message_ok_def)
  show "message_type b (length pre) = Inr ty"
    using rd16_in [OF assms(1), of 4] by (simp add: message_type_def message_bytes_def)
  show "rd b (NLMSG_DATA (length pre) + k) = Inr (body ! k)" if "k < n" for k
    using rd_in [OF assms(1), of "16 + k"] that len assms(2)
    by (simp add: NLMSG_DATA_def message_bytes_def nth_append message_ok_def add.assoc)
  show "rd32 b (NLMSG_DATA (length pre) + k) = Inr w" if "k + 4 \<le> n" "take 4 (drop k body) = le32 w" for k w
    using rd32_in [OF assms(1), of "16 + k" w] that len assms(2)
    by (simp add: NLMSG_DATA_def message_bytes_def message_ok_def add.assoc)
qed

text \<open>The attributes of a message: where they start, and how many bytes the code takes them to have.\<close>

lemma message_attributes:
  assumes "holds b (pre @ message_bytes ty other body as @ post)" and "message_ok n other body as"
  shows "holds b ((pre @ take (16 + n) (message_bytes ty other body as)) @ attrs_bytes as @ post)"
    and "length (pre @ take (16 + n) (message_bytes ty other body as)) = length pre + 16 + n"
    and "NLMSG_PAYLOAD b (length pre) n = Inr (int (length (attrs_bytes as)))"
proof -
  have "message_bytes ty other body as = take (16 + n) (message_bytes ty other body as) @ attrs_bytes as"
    using assms(2) by (simp add: message_bytes_def message_ok_def)
  then show "holds b ((pre @ take (16 + n) (message_bytes ty other body as)) @ attrs_bytes as @ post)"
    using assms(1) by (metis append.assoc)
  show "length (pre @ take (16 + n) (message_bytes ty other body as)) = length pre + 16 + n"
    using message_fields(3) [OF assms] by simp
  have "align4 (n + 16) = n + 16" using assms(2) by (intro align4_dvd) (simp add: message_ok_def)
  then show "NLMSG_PAYLOAD b (length pre) n = Inr (int (length (attrs_bytes as)))"
    using message_fields(1) [OF assms] by (simp add: NLMSG_PAYLOAD_def)
qed

text \<open>
  A datagram of messages of one kind; \<open>enc\<close> is the encoding of a message, \<open>f\<close> what the body of the loop does
  with it. Then a sequence of datagrams and the end marker.
\<close>

definition done_bytes :: "u8 list" where
  "done_bytes = message_bytes NLMSG_DONE (replicate 10 0) [0, 0, 0, 0] []"

definition encodes :: "nat \<Rightarrow> ('x \<Rightarrow> u8 list) \<Rightarrow> 'x \<Rightarrow> bool" where
  "encodes n enc x \<longleftrightarrow> (\<exists>ty other body as. enc x = message_bytes ty other body as \<and> message_ok n other body as \<and>
     ty \<noteq> NLMSG_DONE)"

lemma for_messages_items:
  assumes "holds b (concat (map enc xs) @ post)" and "\<forall>x \<in> set xs. encodes n enc x"
    and "\<And>pre x post s. x \<in> set xs \<Longrightarrow> holds b (pre @ enc x @ post) \<Longrightarrow> body (length pre) s = Inr (f x s)"
  shows "for_messages b body (int (length (concat (map enc xs)))) s = Inr (fold_until f s xs)"
proof -
  have "walk (NLMSG_OK b) (NLMSG_NEXT b) body (length ([] :: u8 list)) (int (length (concat (map enc xs)))) s =
        Inr (fold_until f s xs)"
  proof (rule walk_items)
    show "holds b ([] @ concat (map enc xs) @ post)" using assms(1) by simp
    show "NLMSG_OK b p 0 = Inr False" for p by (simp add: NLMSG_OK_def)
    fix pre x post len s
    assume x: "x \<in> set xs" "holds b (pre @ enc x @ post)" "int (length (enc x)) \<le> len"
    from assms(2) x(1) obtain ty other mbody as where
      m: "enc x = message_bytes ty other mbody as" "message_ok n other mbody as" by (auto simp: encodes_def)
    note fields = message_fields(1,3) [OF x(2) [unfolded m(1)] m(2)]
    have "4 dvd 16 + n + length (attrs_bytes as)"
      using m(2) length_attrs_dvd [of as] by (simp add: message_ok_def)
    then have a: "align4 (16 + n + length (attrs_bytes as)) = 16 + n + length (attrs_bytes as)"
      by (rule align4_dvd)
    show "NLMSG_OK b (length pre) len = Inr True \<and>
      NLMSG_NEXT b (length pre) len = Inr (length pre + length (enc x), len - int (length (enc x))) \<and>
      body (length pre) s = Inr (f x s)"
      using fields a x(3) assms(3) [OF x(1,2)] by (simp add: NLMSG_OK_def NLMSG_NEXT_def m(1))
  qed
  then show ?thesis by (simp add: for_messages_def)
qed

definition fits :: "ReceiveMessageHeader \<Rightarrow> u8 list \<Rightarrow> bool" where
  "fits response bytes \<longleftrightarrow> length bytes \<le> unat (iov_len (msg_iov response)) \<and>
     length bytes \<le> length (iov_base (msg_iov response))"

definition received :: "NetlinkAddress \<Rightarrow> u8 list \<Rightarrow> ReceiveMessageHeader \<Rightarrow> ReceiveMessageHeader" where
  "received sender bytes msg = msg\<lparr>msg_name := sender, msg_iov := (msg_iov msg)\<lparr>iov_base :=
     map Some bytes @ drop (length bytes) (iov_base (msg_iov msg))\<rparr>\<rparr>"

lemma receive_fits:
  "fits msg bytes \<Longrightarrow> a36b5966_receiveMessage e (SysOk (sender, bytes)) msg =
     Inr (int (length bytes), received sender bytes msg)"
  by (simp add: fits_def received_def receiveMessage_ok)

lemma received_holds: "fits msg bytes \<Longrightarrow> holds (iov_base (msg_iov (received sender bytes msg))) (bytes @ [])"
  by (simp add: received_def fits_def holds_append_cells)

lemma received_fits: "fits msg bytes \<Longrightarrow> fits (received sender bytes msg) other \<longleftrightarrow> fits msg other"
  by (auto simp: received_def fits_def)

lemma done_type:
  assumes "fits msg done_bytes"
  shows "message_type (iov_base (msg_iov (received sender done_bytes msg))) 0 = Inr NLMSG_DONE"
  using message_fields(2) [of _ "[]" NLMSG_DONE "replicate 10 0" "[0, 0, 0, 0]" "[]" "[]" 4] received_holds [OF assms]
  by (simp add: done_bytes_def message_ok_def attrs_bytes_def)

text \<open>One round of the outer loop.\<close>

lemma receive_round:
  assumes "fits msg (concat (map enc xs))" and "xs \<noteq> []" and "\<forall>x \<in> set xs. encodes n enc x"
    and "\<And>b pre x post s. x \<in> set xs \<Longrightarrow> holds b (pre @ enc x @ post) \<Longrightarrow> body b (length pre) s = Inr (f x s)"
  shows "receive_loop e body (ev # events) (int (length (concat (map enc xs))))
           (received sender (concat (map enc xs)) msg) s =
         bnd (a36b5966_receiveMessage e ev (received sender (concat (map enc xs)) msg)) (\<lambda>(msgLen, response).
           receive_loop e body events msgLen response (fold_until f s xs))"
proof -
  let ?r = "received sender (concat (map enc xs)) msg"
  let ?b = "iov_base (msg_iov ?r)"
  note h = received_holds [OF assms(1), of sender]
  obtain x xs' where xs: "xs = x # xs'" using assms(2) by (cases xs) auto
  have "encodes n enc x" using assms(3) xs by simp
  then obtain ty other mbody as where m: "enc x = message_bytes ty other mbody as" "message_ok n other mbody as"
    "ty \<noteq> NLMSG_DONE" by (auto simp: encodes_def)
  have ty: "message_type ?b 0 = Inr ty"
    using message_fields(2) [of ?b "[]" ty other mbody as "concat (map enc xs')" n] h m(1,2) xs by simp
  have loop: "for_messages ?b (body ?b) (int (length (concat (map enc xs)))) s = Inr (fold_until f s xs)"
    by (rule for_messages_items [OF h]) (use assms(3,4) in auto)
  show ?thesis
    using ty m(3) loop by (subst receive_loop.simps) (simp add: Let_def)
qed

text \<open>Datagrams with at least one message each, then the end marker; what comes after it is left to the next call.\<close>

lemma receive_loop_datagrams:
  assumes "fits msg (concat (map enc xs))" and "xs \<noteq> []" and "\<forall>ds \<in> set (xs # rest). \<forall>x \<in> set ds. encodes n enc x"
    and "\<forall>ds \<in> set rest. ds \<noteq> [] \<and> fits msg (concat (map enc ds))" and "fits msg done_bytes"
    and "\<And>b pre x post s. x \<in> set (concat (xs # rest)) \<Longrightarrow> holds b (pre @ enc x @ post) \<Longrightarrow>
           body b (length pre) s = Inr (f x s)"
  shows "\<exists>response. receive_loop e body
       (map (\<lambda>ds. SysOk (sender, concat (map enc ds))) rest @ SysOk (sender, done_bytes) # later)
       (int (length (concat (map enc xs)))) (received sender (concat (map enc xs)) msg) s =
     Inr (response, foldl (fold_until f) s (xs # rest))"
  using assms
proof (induction rest arbitrary: xs msg s)
  case Nil
  let ?r = "received sender (concat (map enc xs)) msg"
  have d: "fits ?r done_bytes" using Nil.prems(1,5) by (simp add: received_fits)
  have round: "receive_loop e body (SysOk (sender, done_bytes) # later) (int (length (concat (map enc xs)))) ?r s =
      bnd (a36b5966_receiveMessage e (SysOk (sender, done_bytes)) ?r) (\<lambda>(msgLen, response).
        receive_loop e body later msgLen response (fold_until f s xs))"
    by (rule receive_round [OF Nil.prems(1,2)]) (use Nil.prems(3,6) in auto)
  show ?case
    using round receive_fits [OF d] done_type [OF d] by (simp add: Let_def receive_loop.simps [of _ _ later])
next
  case (Cons ds rest)
  let ?r = "received sender (concat (map enc xs)) msg"
  have ds: "fits ?r (concat (map enc ds))" using Cons.prems(1,4) by (simp add: received_fits)
  have round: "receive_loop e body (SysOk (sender, concat (map enc ds)) # events)
        (int (length (concat (map enc xs)))) ?r s =
      bnd (a36b5966_receiveMessage e (SysOk (sender, concat (map enc ds))) ?r) (\<lambda>(msgLen, response).
        receive_loop e body events msgLen response (fold_until f s xs))" for events
    by (rule receive_round [OF Cons.prems(1,2)]) (use Cons.prems(3,6) in auto)
  have "\<exists>response. receive_loop e body
       (map (\<lambda>ds. SysOk (sender, concat (map enc ds))) rest @ SysOk (sender, done_bytes) # later)
       (int (length (concat (map enc ds)))) (received sender (concat (map enc ds)) ?r) (fold_until f s xs) =
     Inr (response, foldl (fold_until f) (fold_until f s xs) (ds # rest))"
    by (rule Cons.IH [OF ds]) (use Cons.prems in \<open>auto simp: received_fits\<close>)
  then show ?case using round receive_fits [OF ds] by simp
qed

text \<open>The whole conversation, for a socket whose buffer has room for every datagram.\<close>

lemma converse_datagrams:
  assumes "sys_sendto request = SysOk sent" and "\<forall>ds \<in> set dss. ds \<noteq> [] \<and> (\<forall>x \<in> set ds. encodes n enc x)"
    and "\<forall>ds \<in> set dss. fits (e7173ad4_initReceiveMessageHeader sock) (concat (map enc ds))"
    and "fits (e7173ad4_initReceiveMessageHeader sock) done_bytes"
    and "\<And>b pre x post s. x \<in> set (concat dss) \<Longrightarrow> holds b (pre @ enc x @ post) \<Longrightarrow>
           body b (length pre) s = Inr (f x s)"
  shows "\<exists>sock'. converse e sys_sendto
           (map (\<lambda>ds. SysOk (sender, concat (map enc ds))) dss @ SysOk (sender, done_bytes) # later)
           request body sock s = Inr (foldl (fold_until f) s dss, sock')"
proof (cases dss)
  case Nil
  then show ?thesis
    using assms(1) receive_fits [OF assms(4)] done_type [OF assms(4)]
    by (simp add: converse_def a36b5966_sendMessage_def receive_loop.simps Let_def)
next
  case (Cons ds rest)
  have d: "fits (e7173ad4_initReceiveMessageHeader sock) (concat (map enc ds))" using assms(3) Cons by simp
  have "\<exists>response. receive_loop e body
       (map (\<lambda>ds. SysOk (sender, concat (map enc ds))) rest @ SysOk (sender, done_bytes) # later)
       (int (length (concat (map enc ds))))
       (received sender (concat (map enc ds)) (e7173ad4_initReceiveMessageHeader sock)) s =
     Inr (response, foldl (fold_until f) s (ds # rest))"
    by (rule receive_loop_datagrams [OF d]) (use assms(2-5) Cons in auto)
  then show ?thesis
    using assms(1) receive_fits [OF d] Cons by (auto simp: converse_def a36b5966_sendMessage_def)
qed

end
