(* ===== verification/NetlinkAnswers.thy ===== *)
theory NetlinkAnswers
  imports NetlinkWalk
begin

text \<open>
  What the functions of net/networkdevice.c find in the kernel's answers: the IPv4 address of a device in a list
  of addresses, and the gateway they take from a list of routes.
\<close>

unbundle bit_operations_syntax

subsection \<open>Answers about addresses\<close>

definition RTM_NEWADDR :: u16 where "RTM_NEWADDR = 20"
definition RTM_NEWROUTE :: u16 where "RTM_NEWROUTE = 24"

record address_entry =
  ae_header :: "u8 list"
  ae_family :: u8
  ae_prefixlen :: u8
  ae_flags :: u8
  ae_scope :: u8
  ae_index :: u32
  ae_attrs :: "attr list"

definition address_bytes :: "address_entry \<Rightarrow> u8 list" where
  "address_bytes x = message_bytes RTM_NEWADDR (ae_header x)
     ([ae_family x, ae_prefixlen x, ae_flags x, ae_scope x] @ le32 (ae_index x)) (ae_attrs x)"

text \<open>An address attribute of an IPv4 answer has four bytes.\<close>

definition address_ok :: "address_entry \<Rightarrow> bool" where
  "address_ok x \<longleftrightarrow> length (ae_header x) = 10 \<and>
     (\<forall>a \<in> set (ae_attrs x). attr_ok a \<and> (fst a = IFA_ADDRESS \<longrightarrow> length (snd a) = 4)) \<and>
     24 + length (attrs_bytes (ae_attrs x)) < 2 ^ 32"

definition word_of :: "u8 list \<Rightarrow> u32" where
  "word_of bytes = ucast (or_bytes 0 bytes)"

text \<open>The address of a global entry of the device: the first address attribute.\<close>

definition global_address :: "NetworkDevice \<Rightarrow> address_entry \<Rightarrow> u32 option" where
  "global_address d x =
     (if ae_index x = nd_index d \<and> ae_scope x = RT_SCOPE_UNIVERSE
      then map_option (\<lambda>a. word_of (snd a)) (find (\<lambda>a. fst a = IFA_ADDRESS) (ae_attrs x)) else None)"

definition with_address :: "NetworkDevice \<Rightarrow> u32 \<Rightarrow> u8 \<Rightarrow> NetworkDevice" where
  "with_address d address prefixlen =
     d\<lparr>nd_ipv4Address := (nd_ipv4Address d)\<lparr>ip4_address := Some address, ip4_cidrSuffix := Some (ucast prefixlen)\<rparr>\<rparr>"

definition take_address :: "NetworkDevice \<Rightarrow> address_entry \<Rightarrow> NetworkDevice" where
  "take_address d x = (case global_address d x of None \<Rightarrow> d | Some w \<Rightarrow> with_address d w (ae_prefixlen x))"

lemma address_encodes: "address_ok x \<Longrightarrow> encodes 8 address_bytes x"
  unfolding encodes_def address_bytes_def
  by (intro exI conjI, rule refl) (auto simp: message_ok_def address_ok_def RTM_NEWADDR_def NLMSG_DONE_def)

definition attr_step :: "address_entry \<Rightarrow> attr \<Rightarrow> NetworkDevice \<Rightarrow> bool \<times> NetworkDevice" where
  "attr_step x a d =
     (if fst a = IFA_ADDRESS \<and> ae_scope x = RT_SCOPE_UNIVERSE then (True, with_address d (word_of (snd a)) (ae_prefixlen x))
      else (False, d))"

lemma attr_step_fold:
  "ae_index x = nd_index d \<Longrightarrow> fold_until (attr_step x) d (ae_attrs x) = take_address d x"
proof -
  have "fold_until (attr_step x) d as =
        (case if ae_scope x = RT_SCOPE_UNIVERSE then find (\<lambda>a. fst a = IFA_ADDRESS) as else None of
           None \<Rightarrow> d | Some a \<Rightarrow> with_address d (word_of (snd a)) (ae_prefixlen x))" for as
    by (induction as) (auto simp: attr_step_def)
  then show "ae_index x = nd_index d \<Longrightarrow> ?thesis"
    by (simp add: take_address_def global_address_def split: option.split)
qed

lemma attr_data:
  assumes "holds b (pre @ attr_bytes a @ post)" and "length (snd a) = 4"
  shows "rd32 b (RTA_DATA (length pre)) = Inr (word_of (snd a))"
proof -
  have "read_cells b (length pre + 4) 4 = Inr (snd a)"
    using read_in [OF assms(1), of 4 4] assms(2) by (simp add: attr_bytes_def length_attr_bytes align4_def)
  then show ?thesis by (simp add: RTA_DATA_def rd32_def word_of_def)
qed

lemma address_message_ok:
  assumes "address_ok x" and "holds b (pre @ address_bytes x @ post)"
  shows "address_message store_ipv4 b (length pre) d = Inr (False, take_address d x)"
proof -
  let ?body = "[ae_family x, ae_prefixlen x, ae_flags x, ae_scope x] @ le32 (ae_index x)"
  have m: "message_ok 8 (ae_header x) ?body (ae_attrs x)"
    using assms(1) by (auto simp: message_ok_def address_ok_def)
  note h = assms(2) [unfolded address_bytes_def]
  have index: "rd32 b (NLMSG_DATA (length pre) + 4) = Inr (ae_index x)"
    using message_fields(5) [OF h m, of 4] by simp
  show ?thesis
  proof (cases "ae_index x = nd_index d")
    case False
    then show ?thesis
      using index by (simp add: address_message_def take_address_def global_address_def)
  next
    case True
    have prefixlen: "rd b (Suc (NLMSG_DATA (length pre))) = Inr (ae_prefixlen x)"
      and scope: "rd b (NLMSG_DATA (length pre) + 3) = Inr (ae_scope x)"
      using message_fields(4) [OF h m, of 1] message_fields(4) [OF h m, of 3] by simp_all
    note attrs = message_attributes [OF h m]
    have start: "length pre + 16 + 8 = IFA_RTA (NLMSG_DATA (length pre))"
      by (simp add: IFA_RTA_def NLMSG_DATA_def)
    have loop: "for_attributes b (\<lambda>attribute networkDevice.
        bnd (rta_type b attribute) (\<lambda>ty.
        if ty \<noteq> IFA_ADDRESS then Inr (False, networkDevice)
        else bnd (rd b (NLMSG_DATA (length pre) + 3)) (\<lambda>scope.
             store_ipv4 b (NLMSG_DATA (length pre)) attribute scope networkDevice)))
        (IFA_RTA (NLMSG_DATA (length pre))) (int (length (attrs_bytes (ae_attrs x)))) d
      = Inr (fold_until (attr_step x) d (ae_attrs x))"
      unfolding start [symmetric] attrs(2) [symmetric]
    proof (rule for_attributes_items [OF attrs(1)])
      show "\<forall>a \<in> set (ae_attrs x). attr_ok a" using assms(1) by (simp add: address_ok_def)
      fix pre' a post' s
      assume a: "a \<in> set (ae_attrs x)" "holds b (pre' @ attr_bytes a @ post')"
      have ok: "attr_ok a" "fst a = IFA_ADDRESS \<Longrightarrow> length (snd a) = 4"
        using assms(1) a(1) by (simp_all add: address_ok_def)
      show "bnd (rta_type b (length pre')) (\<lambda>ty.
          if ty \<noteq> IFA_ADDRESS then Inr (False, s)
          else bnd (rd b (NLMSG_DATA (length pre) + 3)) (\<lambda>scope.
               store_ipv4 b (NLMSG_DATA (length pre)) (length pre') scope s)) = Inr (attr_step x a s)"
        using rta_fields(2) [OF a(2) ok(1)] ok(2) scope prefixlen attr_data [OF a(2)]
        by (simp add: attr_step_def store_ipv4_def with_address_def)
    qed
    show ?thesis
      using index True attrs(3) loop attr_step_fold [OF True] by (simp add: address_message_def)
  qed
qed

lemma fold_until_never: "fold_until (\<lambda>x s. (False, g s x)) s xs = foldl g s xs"
  by (induction xs arbitrary: s) simp_all

lemma foldl_concat: "foldl (foldl g) s xss = foldl g s (concat xss)"
  by (induction xss arbitrary: s) simp_all

lemma take_address_index: "nd_index (take_address d x) = nd_index d"
  by (simp add: take_address_def with_address_def split: option.split)

text \<open>Only the last entry that has an address matters.\<close>

definition last_address :: "NetworkDevice \<Rightarrow> address_entry list \<Rightarrow> NetworkDevice" where
  "last_address d xs =
     (case rev (filter (\<lambda>x. global_address d x \<noteq> None) xs) of
        [] \<Rightarrow> d
      | x # _ \<Rightarrow> with_address d (the (global_address d x)) (ae_prefixlen x))"

lemma foldl_take_address: "foldl take_address d xs = last_address d xs"
proof (induction xs rule: rev_induct)
  case (snoc x xs)
  have same: "nd_index (foldl take_address d xs) = nd_index d" for xs
    by (induction xs rule: rev_induct) (simp_all add: take_address_index)
  then have "nd_index (last_address d xs) = nd_index d" using snoc by metis
  then have g: "global_address (last_address d xs) x = global_address d x"
    by (simp add: global_address_def)
  have twice: "with_address (last_address d xs) w q = with_address d w q" for w q
    by (simp add: last_address_def with_address_def split: list.split)
  show ?case
  proof (cases "global_address d x")
    case None
    then show ?thesis using snoc g by (simp add: take_address_def last_address_def)
  next
    case (Some w)
    have "foldl take_address d (xs @ [x]) = take_address (last_address d xs) x" using snoc by simp
    then have "foldl take_address d (xs @ [x]) = with_address (last_address d xs) w (ae_prefixlen x)"
      using g Some by (simp add: take_address_def)
    then show ?thesis using Some twice by (simp add: last_address_def)
  qed
qed (simp add: last_address_def)

subsection \<open>Answers about routes\<close>

record route_entry =
  re_header :: "u8 list"
  re_bytes :: "u8 list"
  re_table :: u8
  re_protocol :: u8
  re_scope :: u8
  re_type :: u8
  re_flags :: u32
  re_attrs :: "attr list"

definition route_bytes :: "route_entry \<Rightarrow> u8 list" where
  "route_bytes x = message_bytes RTM_NEWROUTE (re_header x)
     (re_bytes x @ [re_table x, re_protocol x, re_scope x, re_type x] @ le32 (re_flags x)) (re_attrs x)"

text \<open>\<open>re_bytes\<close> are the family, the two prefix lengths and the type of service.\<close>

definition route_ok :: "route_entry \<Rightarrow> bool" where
  "route_ok x \<longleftrightarrow> length (re_header x) = 10 \<and> length (re_bytes x) = 4 \<and>
     (\<forall>a \<in> set (re_attrs x). attr_ok a \<and> (fst a \<in> {RTA_GATEWAY, RTA_OIF} \<longrightarrow> length (snd a) = 4)) \<and>
     28 + length (attrs_bytes (re_attrs x)) < 2 ^ 32"

lemma route_encodes: "route_ok x \<Longrightarrow> encodes 12 route_bytes x"
  unfolding encodes_def route_bytes_def
  by (intro exI conjI, rule refl) (auto simp: message_ok_def route_ok_def RTM_NEWROUTE_def NLMSG_DONE_def)

definition route_attr_step :: "attr \<Rightarrow> NetworkDevice \<times> bool \<times> u32 \<Rightarrow> bool \<times> NetworkDevice \<times> bool \<times> u32" where
  "route_attr_step a = (\<lambda>(d, found, out).
     if fst a = RTA_GATEWAY then (False, d\<lparr>nd_ipv4Gateway := Some (word_of (snd a))\<rparr>, True, out)
     else if fst a = RTA_OIF then (word_of (snd a) \<noteq> nd_index d, d, found, word_of (snd a))
     else (False, d, found, out))"

definition route_step :: "route_entry \<Rightarrow> NetworkDevice \<Rightarrow> bool \<times> NetworkDevice" where
  "route_step x d =
     (if re_table x = RT_TABLE_MAIN \<and> re_type x = RTN_UNICAST then
        (case fold_until route_attr_step (d, False, - 1) (re_attrs x) of
           (d', found, out) \<Rightarrow> (found \<and> out = nd_index d', d'))
      else (False, d))"

lemma route_message_ok:
  assumes "route_ok x" and "holds b (pre @ route_bytes x @ post)"
  shows "route_message store_gateway4 b (length pre) d = Inr (route_step x d)"
proof -
  let ?body = "re_bytes x @ [re_table x, re_protocol x, re_scope x, re_type x] @ le32 (re_flags x)"
  have m: "message_ok 12 (re_header x) ?body (re_attrs x)"
    using assms(1) by (auto simp: message_ok_def route_ok_def)
  note h = assms(2) [unfolded route_bytes_def]
  have l: "length (re_bytes x) = 4" using assms(1) by (simp add: route_ok_def)
  have tbl: "rd b (NLMSG_DATA (length pre) + 4) = Inr (re_table x)"
    and ty: "rd b (NLMSG_DATA (length pre) + 7) = Inr (re_type x)"
    using message_fields(4) [OF h m, of 4] message_fields(4) [OF h m, of 7] l by (simp_all add: nth_append)
  note attrs = message_attributes [OF h m]
  have start: "length pre + 16 + 12 = RTM_RTA (NLMSG_DATA (length pre))"
    by (simp add: RTM_RTA_def NLMSG_DATA_def)
  have loop: "for_attributes b (\<lambda>nlAttribute (networkDevice, foundGateway, outputDeviceIndex).
      bnd (rta_type b nlAttribute) (\<lambda>ty.
      if ty = RTA_GATEWAY then
        bnd (store_gateway4 b nlAttribute networkDevice) (\<lambda>networkDevice.
        Inr (False, networkDevice, True, outputDeviceIndex))
      else if ty = RTA_OIF then
        bnd (rd32 b (RTA_DATA nlAttribute)) (\<lambda>oif.
        Inr (oif \<noteq> nd_index networkDevice, networkDevice, foundGateway, oif))
      else Inr (False, networkDevice, foundGateway, outputDeviceIndex)))
      (RTM_RTA (NLMSG_DATA (length pre))) (int (length (attrs_bytes (re_attrs x)))) (d, False, - 1)
    = Inr (fold_until route_attr_step (d, False, - 1) (re_attrs x))"
    unfolding start [symmetric] attrs(2) [symmetric]
  proof (rule for_attributes_items [OF attrs(1)])
    show "\<forall>a \<in> set (re_attrs x). attr_ok a" using assms(1) by (simp add: route_ok_def)
    fix pre' a post' and s :: "NetworkDevice \<times> bool \<times> u32"
    assume a: "a \<in> set (re_attrs x)" "holds b (pre' @ attr_bytes a @ post')"
    have ok: "attr_ok a" "fst a = RTA_GATEWAY \<Longrightarrow> length (snd a) = 4" "fst a = RTA_OIF \<Longrightarrow> length (snd a) = 4"
      using assms(1) a(1) by (simp_all add: route_ok_def)
    obtain d found out where s: "s = (d, found, out)" by (cases s)
    show "(case s of (networkDevice, foundGateway, outputDeviceIndex) \<Rightarrow>
        bnd (rta_type b (length pre')) (\<lambda>ty.
        if ty = RTA_GATEWAY then
          bnd (store_gateway4 b (length pre') networkDevice) (\<lambda>networkDevice.
          Inr (False, networkDevice, True, outputDeviceIndex))
        else if ty = RTA_OIF then
          bnd (rd32 b (RTA_DATA (length pre'))) (\<lambda>oif.
          Inr (oif \<noteq> nd_index networkDevice, networkDevice, foundGateway, oif))
        else Inr (False, networkDevice, foundGateway, outputDeviceIndex))) = Inr (route_attr_step a s)"
      using rta_fields(2) [OF a(2) ok(1)] ok(2,3) attr_data [OF a(2)]
      by (simp add: s route_attr_step_def store_gateway4_def)
  qed
  show ?thesis
    using tbl ty attrs(3) loop
    by (auto simp: route_message_def route_step_def Let_def split: prod.split)
qed

subsection \<open>Properties\<close>

text \<open>A socket's buffer takes each of the datagrams and the end marker.\<close>

definition room_for :: "NetlinkSocket \<Rightarrow> ('x \<Rightarrow> u8 list) \<Rightarrow> 'x list list \<Rightarrow> bool" where
  "room_for sock enc dss \<longleftrightarrow>
     (\<forall>ds \<in> set dss. ds \<noteq> [] \<and> fits (e7173ad4_initReceiveMessageHeader sock) (concat (map enc ds))) \<and>
     fits (e7173ad4_initReceiveMessageHeader sock) done_bytes"

definition answers :: "NetlinkAddress \<Rightarrow> ('x \<Rightarrow> u8 list) \<Rightarrow> 'x list list \<Rightarrow> (NetlinkAddress \<times> u8 list) sysret list" where
  "answers sender enc dss = map (\<lambda>ds. SysOk (sender, concat (map enc ds))) dss @ [SysOk (sender, done_bytes)]"

text \<open>C17: from an answer of any number of datagrams the device gets the address and the prefix length of the last
  entry that is its own, global and has an address, and is otherwise unchanged; the call returns.\<close>

theorem getIPv4Address_finds:
  assumes "sys_sendto (e7173ad4_initNetlinkAddressRequest unset_header AF_INET) = SysOk sent"
    and "\<forall>ds \<in> set dss. \<forall>x \<in> set ds. address_ok x" and "room_for sock address_bytes dss"
  shows "\<exists>sock'. f0185083_getIPv4Address e sys_sendto (answers sender address_bytes dss) d sock =
    Inr (last_address d (concat dss), sock')"
proof -
  have "\<exists>sock'. f0185083_getIPv4Address e sys_sendto (answers sender address_bytes dss) d sock =
      Inr (foldl (fold_until (\<lambda>x s. (False, take_address s x))) d dss, sock')"
    unfolding f0185083_getIPv4Address_def answers_def
    by (rule converse_datagrams [where n = 8]) (use assms address_encodes address_message_ok in \<open>auto simp: room_for_def\<close>)
  moreover have "fold_until (\<lambda>x s. (False, take_address s x)) = foldl take_address"
    by (intro ext fold_until_never)
  ultimately show ?thesis by (simp only: foldl_concat foldl_take_address)
qed

definition small_socket :: NetlinkSocket where
  "small_socket = \<lparr>ns_addr = \<lparr>nl_family = AF_NETLINK, nl_pad = 0, nl_pid = 7, nl_groups = 0\<rparr>,
     ns_ioBuffer = \<lparr>iov_base = fresh 128, iov_len = 128\<rparr>, ns_family = 0, ns_fd = 3\<rparr>"

definition sample_address :: "u32 \<Rightarrow> u8 \<Rightarrow> address_entry" where
  "sample_address index host = \<lparr>ae_header = replicate 10 0, ae_family = AF_INET, ae_prefixlen = 24, ae_flags = 0,
     ae_scope = 0, ae_index = index, ae_attrs = [(3, [1, 2]), (IFA_ADDRESS, [10, 0, 0, host])]\<rparr>"

lemmas bytes_lengths = message_bytes_def attrs_bytes_def length_attr_bytes align4_def done_bytes_def fits_def
  e7173ad4_initReceiveMessageHeader_def small_socket_def

lemma getIPv4Address_finds_witness:
  "\<forall>e. \<exists>sock'. f0185083_getIPv4Address e (\<lambda>_. SysOk 24)
     (answers (ns_addr small_socket) address_bytes [[sample_address 1 1, sample_address 2 5], [sample_address 3 9]])
     ((f0185083_createNetworkDevice ''eth0'')\<lparr>nd_index := 2\<rparr>) small_socket =
   Inr (last_address ((f0185083_createNetworkDevice ''eth0'')\<lparr>nd_index := 2\<rparr>)
          (concat [[sample_address 1 1, sample_address 2 5], [sample_address 3 9]]), sock')"
  by (intro allI getIPv4Address_finds)
    (simp_all add: room_for_def address_ok_def attr_ok_def sample_address_def address_bytes_def bytes_lengths
      IFA_ADDRESS_def)

text \<open>C24: a route of another device leaves its gateway in the device: the gateway is stored before the
  attribute with the device of the route is looked at, as the kernel sends them in this order.\<close>

theorem gateway_of_other_device:
  assumes "sys_sendto (route_request AF_INET) = SysOk sent" and "route_ok x" and "room_for sock route_bytes [[x]]"
    and "re_table x = RT_TABLE_MAIN" and "re_type x = RTN_UNICAST"
    and "re_attrs x = others @ (RTA_GATEWAY, le32 gateway) # (RTA_OIF, le32 index) # rest"
    and "\<forall>a \<in> set others. fst a \<notin> {RTA_GATEWAY, RTA_OIF}" and "index \<noteq> nd_index d"
  shows "\<exists>sock'. f0185083_getIPv4Gateway e sys_sendto (answers sender route_bytes [[x]]) d sock =
    Inr (d\<lparr>nd_ipv4Gateway := Some gateway\<rparr>, sock')"
proof -
  have skip: "fold_until route_attr_step (d, False, - 1) (others @ as) = fold_until route_attr_step (d, False, - 1) as"
    for as using assms(7) by (induction others) (auto simp: route_attr_step_def)
  have "RTA_GATEWAY \<noteq> RTA_OIF" by (simp add: RTA_GATEWAY_def RTA_OIF_def)
  then have "snd (route_step x d) = d\<lparr>nd_ipv4Gateway := Some gateway\<rparr>"
    using assms(4-6,8) by (simp add: route_step_def skip route_attr_step_def word_of_def le32_value)
  moreover have "\<exists>sock'. f0185083_getIPv4Gateway e sys_sendto (answers sender route_bytes [[x]]) d sock =
      Inr (foldl (fold_until route_step) d [[x]], sock')"
    unfolding f0185083_getIPv4Gateway_def answers_def
    by (rule converse_datagrams [where n = 12]) (use assms(1-3) route_encodes route_message_ok in \<open>auto simp: room_for_def\<close>)
  ultimately show ?thesis by (auto split: prod.splits if_splits)
qed

definition sample_route :: "u32 \<Rightarrow> u32 \<Rightarrow> route_entry" where
  "sample_route gateway index = \<lparr>re_header = replicate 10 0, re_bytes = [2, 0, 0, 0], re_table = RT_TABLE_MAIN,
     re_protocol = 3, re_scope = 0, re_type = RTN_UNICAST, re_flags = 0,
     re_attrs = [(15, [254, 0, 0, 0])] @ (RTA_GATEWAY, le32 gateway) # (RTA_OIF, le32 index) # []\<rparr>"

lemma gateway_of_other_device_witness:
  "\<forall>e. \<exists>sock'. f0185083_getIPv4Gateway e (\<lambda>_. SysOk 28)
     (answers (ns_addr small_socket) route_bytes [[sample_route 0x0101A8C0 3]])
     ((f0185083_createNetworkDevice ''eth0'')\<lparr>nd_index := 2\<rparr>) small_socket =
   Inr ((f0185083_createNetworkDevice ''eth0'')\<lparr>nd_index := 2\<rparr>\<lparr>nd_ipv4Gateway := Some 0x0101A8C0\<rparr>, sock')"
  by (intro allI gateway_of_other_device [where others = "[(15, [254, 0, 0, 0])]" and index = 3 and rest = "[]"])
    (simp_all add: room_for_def route_ok_def attr_ok_def sample_route_def route_bytes_def bytes_lengths
      RTA_GATEWAY_def RTA_OIF_def f0185083_createNetworkDevice_def)

end
