(* ===== verification/NetlinkDebug.thy ===== *)
theory NetlinkDebug
  imports NetworkDevice IntParse
begin

text \<open>
  The printing half of socket/netlink.c: what e7173ad4_debugNetlinkRouteMessage writes to stdout for a route
  message in a buffer. Texts that are formatted into the 128 chars of strBuffer are checked against them.
  inet_ntop is a parameter, as is the address that \<open>%p\<close> prints.
\<close>

definition RT_TABLE_DEFAULT :: u8 where "RT_TABLE_DEFAULT = 253"
definition RT_TABLE_LOCAL :: u8 where "RT_TABLE_LOCAL = 255"

definition getRoutingTable :: "u8 \<Rightarrow> string" where
  "getRoutingTable tbl =
     (if tbl = RT_TABLE_DEFAULT then ''RT_TABLE_DEFAULT''
      else if tbl = RT_TABLE_LOCAL then ''RT_TABLE_LOCAL''
      else if tbl = RT_TABLE_MAIN then ''RT_TABLE_MAIN''
      else ''RT_TABLE_UNSPEC'')"

text \<open>sprintf to strBuffer, and the copy of an attribute's data to dataBuffer.\<close>

definition sprintf128 :: "string \<Rightarrow> string result" where
  "sprintf128 s = (if length s < 128 then Inr s else Inl OutOfBounds)"

definition attribute_data :: "u8 block \<Rightarrow> nat \<Rightarrow> u8 block result" where
  "attribute_data b attribute =
     bnd (RTA_PAYLOAD b attribute) (\<lambda>n. f668c4bd_memcopy b (RTA_DATA attribute) (fresh 128) 0 n)"

text \<open>struct rta_cacheinfo: eight numbers of four bytes; the copy into it takes what the attribute has.\<close>

definition cache_info :: "u8 block \<Rightarrow> nat \<Rightarrow> u32 list result" where
  "cache_info b attribute =
     bnd (RTA_PAYLOAD b attribute) (\<lambda>n.
     bnd (f668c4bd_memcopy b (RTA_DATA attribute) (fresh 32) 0 n) (\<lambda>c.
     bnd (rd32 c 0) (\<lambda>clntref. bnd (rd32 c 4) (\<lambda>lastuse. bnd (rd32 c 8) (\<lambda>expires.
     bnd (rd32 c 12) (\<lambda>error. bnd (rd32 c 16) (\<lambda>used. bnd (rd32 c 20) (\<lambda>ident.
     bnd (rd32 c 24) (\<lambda>ts. bnd (rd32 c 28) (\<lambda>tsage.
     Inr [clntref, lastuse, expires, error, used, ident, ts, tsage]))))))))))"

definition cache_text :: "u32 list \<Rightarrow> string" where
  "cache_text c =
     ''{rta_clntref='' @ fmt_u (c ! 0) @ '', rta_lastuse='' @ fmt_u (c ! 1) @ '', rta_expires='' @ fmt_d (c ! 2) @
     '', rta_error='' @ fmt_u (c ! 3) @ '', rta_used='' @ fmt_u (c ! 4) @ '', rta_id='' @ fmt_u (c ! 5) @
     '', rta_ts='' @ fmt_u (c ! 6) @ '', rta_tsage='' @ fmt_u (c ! 7) @ ''}''"

text \<open>
  The type's name and the value, NULL where the case leaves it so. The cache info is formatted but not made the
  value.
\<close>

definition attribute_texts :: "(u8 \<Rightarrow> u8 block \<Rightarrow> string) \<Rightarrow> u8 block \<Rightarrow> u8 \<Rightarrow> nat \<Rightarrow> u16 \<Rightarrow>
    (string \<times> string ptr) result" where
  "attribute_texts inet_ntop b family attribute ty =
     (let number = bnd (rd32 b (RTA_DATA attribute)) (\<lambda>n. Inr (Some (fmt_d n)));
          address = bnd (attribute_data b attribute) (\<lambda>d. Inr (Some (inet_ntop family d)))
      in if ty = 12 then bnd (cache_info b attribute) (\<lambda>c. bnd (sprintf128 (cache_text c)) (\<lambda>_.
                         Inr (''RTA_CACHEINFO'', None)))
         else if ty = 1 then bnd address (\<lambda>v. Inr (''RTA_DST'', v))
         else if ty = 11 then Inr (''RTA_FLOW'', None)
         else if ty = RTA_GATEWAY then bnd address (\<lambda>v. Inr (''RTA_GATEWAY'', v))
         else if ty = 3 then Inr (''RTA_IIF'', None)
         else if ty = 8 then Inr (''RTA_METRICS'', None)
         else if ty = 9 then Inr (''RTA_MULTIPATH'', None)
         else if ty = RTA_OIF then bnd number (\<lambda>v. Inr (''RTA_OIF'', v))
         else if ty = 20 then bnd (rd b (RTA_DATA attribute)) (\<lambda>n. Inr (''RTA_PREF'', Some (fmt_d (ucast n))))
         else if ty = 7 then Inr (''RTA_PREFSRC'', None)
         else if ty = 6 then bnd number (\<lambda>v. Inr (''RTA_PRIORITY'', v))
         else if ty = 10 then Inr (''RTA_PROTOINFO'', None)
         else if ty = 2 then Inr (''RTA_SRC'', None)
         else if ty = 15 then bnd (rd b (RTA_DATA attribute)) (\<lambda>t. Inr (''RTA_TABLE'', Some (getRoutingTable t)))
         else if ty = 0 then Inr (''RTA_UNSPEC'', None)
         else Inr (''UNKNOWN'', None))"

definition tab :: string where "tab = [CHR 0x09]"

definition e7173ad4_debugNetlinkAttribute :: "(u8 \<Rightarrow> u8 block \<Rightarrow> string) \<Rightarrow> u8 block \<Rightarrow> u8 \<Rightarrow> nat \<Rightarrow> string result" where
  "e7173ad4_debugNetlinkAttribute inet_ntop b family attribute =
     bnd (rta_type b attribute) (\<lambda>ty.
     bnd (attribute_texts inet_ntop b family attribute ty) (\<lambda>(attributeType, attributeValue).
     bnd (rta_len b attribute) (\<lambda>n.
     Inr (tab @ tab @ ''{rta_len='' @ dec_string n @ '', rta_type='' @ attributeType @ ''}, '' @ fmt_s attributeValue @
          ''}'' @ newline))))"

text \<open>The switches of debugNetlinkRouteMessage: a list of numbers and texts, and the text of the default case.\<close>

definition switch_text :: "(u8 \<times> string) list \<Rightarrow> string \<Rightarrow> u8 \<Rightarrow> string" where
  "switch_text cases dflt n = (case map_of cases n of None \<Rightarrow> dflt | Some s \<Rightarrow> s)"

definition family_text :: "u8 \<Rightarrow> string" where
  "family_text = switch_text [(AF_INET, ''AF_INET''), (AF_INET6, ''AF_INET6'')] ''INVALID''"

definition protocol_text :: "u8 \<Rightarrow> string" where
  "protocol_text = switch_text [(3, ''RTPROT_BOOT''), (2, ''RTPROT_KERNEL''), (1, ''RTPROT_REDIRECT''),
     (4, ''RTPROT_STATIC'')] ''RTPROT_UNSPEC''"

definition scope_text :: "u8 \<Rightarrow> string" where
  "scope_text = switch_text [(RT_SCOPE_UNIVERSE, ''RT_SCOPE_UNIVERSE''), (254, ''RT_SCOPE_HOST''),
     (RT_SCOPE_LINK, ''RT_SCOPE_LINK''), (200, ''RT_SCOPE_SITE'')] ''RT_SCOPE_NOWHERE''"

definition type_text :: "u8 \<Rightarrow> string" where
  "type_text = switch_text [(4, ''RTN_ANYCAST''), (6, ''RTN_BLACKHOLE''), (3, ''RTN_BROADCAST''), (2, ''RTN_LOCAL''),
     (5, ''RTN_MULTICAST''), (10, ''RTN_NAT''), (8, ''RTN_PROHIBIT''), (9, ''RTN_THROW''), (RTN_UNICAST, ''RTN_UNICAST''),
     (7, ''RTN_UNREACHABLE''), (11, ''RTN_XRESOLVE'')] ''RTN_UNSPEC''"

definition field_line :: "string \<Rightarrow> string \<Rightarrow> string" where
  "field_line caption value = tab @ caption @ '' = '' @ value @ newline"

text \<open>\<open>nlMsgHeader\<close> may be NULL; the message follows it in the buffer otherwise.\<close>

definition e7173ad4_debugNetlinkRouteMessage :: "(u8 \<Rightarrow> u8 block \<Rightarrow> string) \<Rightarrow> (nat \<Rightarrow> string) \<Rightarrow> u8 block \<Rightarrow> nat \<Rightarrow>
    nat ptr \<Rightarrow> string result" where
  "e7173ad4_debugNetlinkRouteMessage inet_ntop fmt_p b m nlMsgHeader =
     bnd (read_cells b m 8) (\<lambda>f.
     bnd (rd32 b (m + 8)) (\<lambda>flags.
     bnd (case nlMsgHeader of
            None \<Rightarrow> Inr []
          | Some h \<Rightarrow>
              bnd (NLMSG_PAYLOAD b h 12) (\<lambda>msgLength.
              bnd (for_attributes b (\<lambda>attribute out.
                     bnd (e7173ad4_debugNetlinkAttribute inet_ntop b (f ! 0) attribute) (\<lambda>s. Inr (False, out @ s)))
                   (RTM_RTA m) msgLength []) (\<lambda>out.
              Inr (tab @ ''{'' @ newline @ out @ tab @ ''}'' @ newline)))) (\<lambda>attributes.
     Inr (''NetlinkRouteMessage ('' @ fmt_p m @ '')'' @ newline @ ''{'' @ newline @
          field_line ''rtm_family'' (family_text (f ! 0)) @
          field_line ''rtm_dst_len'' (fmt_u (ucast (f ! 1))) @
          field_line ''rtm_src_len'' (fmt_u (ucast (f ! 2))) @
          field_line ''rtm_tos'' (fmt_u (ucast (f ! 3))) @
          field_line ''rtm_table'' (getRoutingTable (f ! 4)) @
          field_line ''rtm_protocol'' (protocol_text (f ! 5)) @
          field_line ''rtm_scope'' (scope_text (f ! 6)) @
          field_line ''rtm_type'' (type_text (f ! 7)) @
          field_line ''rtm_flags'' (fmt_u flags) @
          attributes @ ''}'' @ newline))))"

text \<open>The text of a cache info can be longer than the buffer it is formatted into.\<close>

lemma cache_text_overflows: "sprintf128 (cache_text (replicate 8 0x7FFFFFFF)) = Inl OutOfBounds"
proof -
  have "length (dec_string 2147483647) = 10" by (simp add: dec_string.simps)
  then show ?thesis by (simp add: sprintf128_def cache_text_def fmt_u_def fmt_d_def)
qed

end
