(* ===== verification/Cgi.thy ===== *)
theory Cgi
  imports HashMap TextCursor
begin

text \<open>
  src/cgi: the parameters of an HTTP request that a CGI program gets from its environment or its standard
  input, and the headers of its response. The parameters are a hash map from names to places in paramStr, the
  decoded text, in which names and values have been closed by NULs; a name is the text it had when it was put,
  since it is not changed later. Fields of the request that are written on some paths only are cells.
\<close>

unbundle bit_operations_syntax

definition MAX_URL_SIZE :: int where "MAX_URL_SIZE = 131072"

record HttpRequest =
  hr_parameters :: "(string, nat) HashMap"
  hr_method :: "string ptr"
  hr_queryString :: "string ptr option"
  hr_paramStr :: "char block ptr option"
  hr_length :: "u32 option"

definition SYSTEM_ERROR_CODE :: u32 where "SYSTEM_ERROR_CODE = - 1"

subsection \<open>httprequest.linux.asm: decoding and mapping\<close>

text \<open>
  A percent sign takes the next two bytes, whatever they are: the first is taken for a decimal digit, the second for
  one or a capital letter. All arithmetic is on bytes. When the text ends in between, reading goes on behind
  it.
\<close>

definition byte_of :: "char \<Rightarrow> u8" where
  "byte_of ch = of_char ch"

definition percent_byte :: "char \<Rightarrow> char \<Rightarrow> char" where
  "percent_byte c1 c2 =
     (let r9b = byte_of c1 - 0x30;
          r8b = (if byte_of c2 < 0x3A then byte_of c2 - 0x30 else byte_of c2 - 0x41 + 0x0A)
      in char_of (unat (push_bit 4 r9b + r8b)))"

fun decoded :: "string \<Rightarrow> string result" where
  "decoded [] = Inr []"
| "decoded (ch # s) =
     (if ch = CHR ''+'' then bnd (decoded s) (\<lambda>t. Inr (CHR '' '' # t))
      else if ch = CHR ''%'' then
        (case s of
           c1 # c2 # s' \<Rightarrow> bnd (decoded s') (\<lambda>t. Inr (percent_byte c1 c2 # t))
         | _ \<Rightarrow> Inl OutOfBounds)
      else bnd (decoded s) (\<lambda>t. Inr (ch # t)))"

definition a2465172_urldecode :: "string \<Rightarrow> char block \<Rightarrow> char block result" where
  "a2465172_urldecode queryString paramStr =
     bnd (decoded queryString) (\<lambda>t. blit (map Some (t @ [NUL])) 0 (length t + 1) paramStr 0)"

text \<open>
  Names end at the next equals sign, for which the text is searched without regard to its end; values end at
  the next ampersand or at the end. The pairs of pointers are pushed on the stack, so the last one is first.
\<close>

function map_loop :: "char block \<Rightarrow> nat \<Rightarrow> (nat \<times> nat) list \<Rightarrow> (char block \<times> (nat \<times> nat) list) result" where
  "map_loop b name stk =
     bnd (scan_to (\<lambda>ch. ch = CHR ''='') b name) (\<lambda>i.
     bnd (wr b i NUL) (\<lambda>b.
     bnd (scan_to (\<lambda>ch. ch = CHR ''&'' \<or> ch = NUL) b (i + 1)) (\<lambda>j.
     bnd (rd b j) (\<lambda>ch.
     if ch = CHR ''&'' then bnd (wr b j NUL) (\<lambda>b. map_loop b (j + 1) ((i + 1, name) # stk))
     else Inr (b, (i + 1, name) # stk)))))"
  by pat_completeness auto
termination
  by (relation "measure (\<lambda>(b, name, stk). length b - name)")
    (auto simp: wr_eq_Inr dest!: scan_to_bounds)

declare map_loop.simps [simp del]

fun key_texts :: "char block \<Rightarrow> (nat \<times> nat) list \<Rightarrow> (nat ptr \<times> string ptr) list result" where
  "key_texts b [] = Inr []"
| "key_texts b ((v, name) # stk) =
     bnd (text_at b name) (\<lambda>key. bnd (key_texts b stk) (\<lambda>rest. Inr ((Some v, Some key) # rest)))"

definition a2465172_mapQueryString :: "HttpRequest \<Rightarrow> char block \<Rightarrow> HttpRequest result" where
  "a2465172_mapQueryString request paramStr =
     bnd (map_loop paramStr 0 []) (\<lambda>(paramStr, stk).
     bnd (key_texts paramStr stk) (\<lambda>elements.
     bnd (c47905f7_putFromStack (hr_parameters request) elements) (\<lambda>parameters.
     Inr (request\<lparr>hr_parameters := parameters, hr_paramStr := Some (Some paramStr)\<rparr>))))"

subsection \<open>lang/integer.linux-x86_64.asm: parseInt\<close>

text \<open>At most eleven chars, the sign included; no result stands for ERROR_CODE.\<close>

fun parseInt_loop :: "nat \<Rightarrow> string \<Rightarrow> u32 \<Rightarrow> u32 option" where
  "parseInt_loop numChars [] v = Some v"
| "parseInt_loop numChars (ch # s) v =
     (if numChars = 11 then None
      else if schar ch > 57 \<or> schar ch < 48 then None
      else parseInt_loop (numChars + 1) s (10 * v + of_int (schar ch - 48)))"

definition f45efac2_parseInt :: "string \<Rightarrow> u32 option" where
  "f45efac2_parseInt source =
     (case source of
        [] \<Rightarrow> None
      | ch # s \<Rightarrow>
          if ch = CHR ''-'' then if s = [] then None else map_option uminus (parseInt_loop 1 s 0)
          else parseInt_loop 0 (ch # s) 0)"

subsection \<open>httprequest.c\<close>

text \<open>
  The result of mapQueryString is whatever the register holds, since the routine returns none: \<open>None\<close> here. The
  fields of the request on the caller's stack are unset.
\<close>

definition unset_request :: "(string, nat) HashMap \<Rightarrow> string ptr \<Rightarrow> HttpRequest" where
  "unset_request parameters m =
     \<lparr>hr_parameters = parameters, hr_method = m, hr_queryString = None, hr_paramStr = None, hr_length = None\<rparr>"

definition a2465172_initHttpRequest :: "(string \<Rightarrow> string ptr) \<Rightarrow> u32 \<Rightarrow> (u32 option \<times> HttpRequest) result" where
  "a2465172_initHttpRequest getenv numParams =
     bnd (c47905f7_initHashMap f6215943_hashCode f6215943_isEqual numParams) (\<lambda>parameters.
     let request = unset_request parameters (getenv ''REQUEST_METHOD'')
     in if f6215943_isEqual (hr_method request) (Some ''GET'') then
          let request = request\<lparr>hr_queryString := Some (getenv ''QUERY_STRING'')\<rparr>
          in case getenv ''QUERY_STRING'' of
               None \<Rightarrow> Inr (Some 0, request)
             | Some queryString \<Rightarrow>
                 let len = f6215943_getLength (Some queryString); request = request\<lparr>hr_length := Some len\<rparr>
                 in if sint len > MAX_URL_SIZE then Inr (Some SYSTEM_ERROR_CODE, request)
                    else bnd (f668c4bd_stralloc (unat len)) (\<lambda>paramStr.
                         bnd (a2465172_urldecode queryString paramStr) (\<lambda>paramStr.
                         bnd (a2465172_mapQueryString request paramStr) (\<lambda>request. Inr (None, request))))
        else if f6215943_isEqual (hr_method request) (Some ''POST'') then
          bnd (deref (getenv ''CONTENT_LENGTH'')) (\<lambda>source.
          let request = request\<lparr>hr_queryString := Some None, hr_paramStr := Some None\<rparr>
          in case f45efac2_parseInt source of
               None \<Rightarrow> Inr (Some SYSTEM_ERROR_CODE, request)
             | Some n \<Rightarrow> Inr (Some 0, request\<lparr>hr_length := Some n\<rparr>))
        else Inr (Some 0, request))"

text \<open>A cell that is read must have been written.\<close>

definition cell :: "'a option \<Rightarrow> 'a result" where
  "cell c = (case c of None \<Rightarrow> Inl Uninitialised | Some x \<Rightarrow> Inr x)"

text \<open>The result: whether the query string and the parameter text are freed, and the entries of the map that are.\<close>

definition a2465172_cleanUpHttpRequest :: "HttpRequest \<Rightarrow> (bool \<times> bool \<times> (string, nat) MapEntry list) result" where
  "a2465172_cleanUpHttpRequest request =
     bnd (c47905f7_cleanUpHashMap (hr_parameters request)) (\<lambda>entries.
     bnd (if f6215943_isEqual (hr_method request) (Some ''POST'')
          then bnd (cell (hr_queryString request)) (\<lambda>q. Inr (q \<noteq> None)) else Inr False) (\<lambda>freeQuery.
     bnd (cell (hr_paramStr request)) (\<lambda>p. Inr (freeQuery, p \<noteq> None, entries))))"

text \<open>
  The value is cut in place; the result is its text then. f6215943_truncate returns its argument only because
  it leaves the register alone in which the caller has it.
\<close>

definition truncate_at :: "char block \<Rightarrow> nat \<Rightarrow> u32 \<Rightarrow> char block result" where
  "truncate_at b i maxLen =
     bnd (text_at b i) (\<lambda>s. if length s < unat maxLen then Inr b else wr b (i + unat maxLen) NUL)"

definition a2465172_getString :: "HttpRequest \<Rightarrow> string ptr \<Rightarrow> u32 \<Rightarrow> (string ptr \<times> HttpRequest) result" where
  "a2465172_getString request name maxLen =
     bnd (c47905f7_get (hr_parameters request) name) (\<lambda>v.
     case v of
       None \<Rightarrow> Inr (None, request)
     | Some i \<Rightarrow>
         bnd (cell (hr_paramStr request)) (\<lambda>p.
         bnd (deref p) (\<lambda>b.
         bnd (truncate_at b i maxLen) (\<lambda>b.
         bnd (text_at b i) (\<lambda>s. Inr (Some s, request\<lparr>hr_paramStr := Some (Some b)\<rparr>))))))"

text \<open>Everything from the first CR or LF on is cut off.\<close>

definition sanitizeInput :: "string \<Rightarrow> string" where
  "sanitizeInput s = takeWhile (\<lambda>ch. ch \<noteq> CHR 0x0D \<and> ch \<noteq> CHR 0x0A) s"

definition post_loop :: "nat \<Rightarrow> StringBuilder \<Rightarrow> string \<Rightarrow> StringBuilder result" where
  "post_loop n strBuilder inp =
     repeat_until (\<lambda>(strBuilder, inp).
       case fgets n inp of
         None \<Rightarrow> Inr (Inr strBuilder)
       | Some (line, inp) \<Rightarrow>
           bnd (if 0 < sb_length strBuilder then c598a24c_append_char strBuilder CHR ''&'' else Inr strBuilder)
             (\<lambda>strBuilder.
           bnd (c598a24c_append_string strBuilder (sanitizeInput line)) (\<lambda>strBuilder.
           Inr (Inl (strBuilder, inp))))) (strBuilder, inp)"

text \<open>\<open>inp\<close> is what stdin has; NULs in it would end a line early and are not considered.\<close>

definition a2465172_mapPostData :: "string \<Rightarrow> HttpRequest \<Rightarrow> (u32 option \<times> HttpRequest) result" where
  "a2465172_mapPostData inp request =
     bnd (cell (hr_length request)) (\<lambda>len.
     if sint len \<le> 0 then Inr (Some 0, request)
     else
       bnd (c598a24c_initStringBuilder_uint32 len) (\<lambda>strBuilder.
       bnd (f668c4bd_stralloc (unat len)) (\<lambda>queryBuffer.
       bnd (post_loop (unat len) strBuilder inp) (\<lambda>strBuilder.
       bnd (blit (sb_buffer strBuilder) 0 (unat (sb_length strBuilder) + 1) queryBuffer 0) (\<lambda>queryBuffer.
       bnd (wr queryBuffer (unat (sb_length strBuilder) + 1) NUL) (\<lambda>queryBuffer.
       bnd (c_string queryBuffer) (\<lambda>queryString.
       bnd (f668c4bd_stralloc (unat (sb_length strBuilder))) (\<lambda>paramStr.
       bnd (a2465172_urldecode queryString paramStr) (\<lambda>paramStr.
       bnd (a2465172_mapQueryString (request\<lparr>hr_queryString := Some (Some queryString)\<rparr>) paramStr) (\<lambda>request.
       Inr (None, request)))))))))))"

subsection \<open>email.c\<close>

text \<open>The same function cuts the parts of a mail, so that none of them can add a header line. The texts are cut in place.\<close>

record Email =
  em_name :: string
  em_address :: string
  em_subject :: string
  em_message :: string

definition a9740e57_initEmail :: "string \<Rightarrow> string \<Rightarrow> string \<Rightarrow> string \<Rightarrow> Email" where
  "a9740e57_initEmail nm address subject msg =
     \<lparr>em_name = sanitizeInput nm, em_address = sanitizeInput address, em_subject = sanitizeInput subject,
      em_message = sanitizeInput msg\<rparr>"

lemma email_without_line_ends:
  "CHR 0x0D \<notin> set (em_subject (a9740e57_initEmail nm address subject msg)) \<and>
   CHR 0x0A \<notin> set (em_subject (a9740e57_initEmail nm address subject msg))"
  by (auto simp: a9740e57_initEmail_def sanitizeInput_def dest: set_takeWhileD)

subsection \<open>httpresponse.c\<close>

text \<open>Each function writes one line to stdout; puts appends the newline.\<close>

record HttpCookie =
  ck_name :: string
  ck_value :: string
  ck_expires :: "string ptr"
  ck_domain :: "string ptr"
  ck_path :: "string ptr"
  ck_sameSite :: "string ptr"
  ck_maxAge :: u32
  ck_isSecure :: bool
  ck_isHttpOnly :: bool

record HttpCacheControl =
  cc_maxAge :: u32
  cc_sharedMaxAge :: u32
  cc_mustRevalidate :: bool
  cc_noCache :: bool
  cc_noStore :: bool
  cc_noTransform :: bool
  cc_isPublic :: bool
  cc_isPrivate :: bool
  cc_proxyRevalidate :: bool

definition puts :: "StringBuilder result \<Rightarrow> piece list \<Rightarrow> string result" where
  "puts create ps = bnd (message_in create ps) (\<lambda>m. Inr (m @ newline))"

definition optional :: "string \<Rightarrow> string ptr \<Rightarrow> piece list" where
  "optional caption v = (case v of None \<Rightarrow> [] | Some s \<Rightarrow> [Str caption, Str s])"

definition de3696d3_addCookie :: "HttpCookie \<Rightarrow> string result" where
  "de3696d3_addCookie cookie =
     puts (c598a24c_initStringBuilder_uint32 128)
       ([Str ''Set-Cookie: '', Str (ck_name cookie), Chr CHR ''='', Str (ck_value cookie)] @
        (if 0 < ck_maxAge cookie then [Str ''; Max-Age='', Uint (ck_maxAge cookie)]
         else optional ''; Expires='' (ck_expires cookie)) @
        optional ''; Domain='' (ck_domain cookie) @ optional ''; Path='' (ck_path cookie) @
        optional ''; SameSite='' (ck_sameSite cookie) @
        (if ck_isSecure cookie then [Str ''; Secure''] else []) @
        (if ck_isHttpOnly cookie then [Str ''; HttpOnly''] else []))"

definition de3696d3_closeResponseHeaders :: string where
  "de3696d3_closeResponseHeaders = newline"

definition de3696d3_setCacheControl :: "HttpCacheControl \<Rightarrow> string result" where
  "de3696d3_setCacheControl c =
     puts c598a24c_initStringBuilder
       ([Str ''Cache-Control: ''] @
        (if cc_mustRevalidate c then [Str ''must-revalidate'']
         else if cc_noCache c then [Str ''no-cache'']
         else if cc_noStore c then [Str ''no-store'']
         else if cc_noTransform c then [Str ''no-transform'']
         else if cc_isPublic c then [Str ''public'']
         else if cc_isPrivate c then [Str ''private'']
         else if cc_proxyRevalidate c then [Str ''proxy-revalidate''] else []) @
        (if 0 < cc_maxAge c then [Str '', max-age='', Uint (cc_maxAge c)]
         else if 0 < cc_sharedMaxAge c then [Str '', s-maxage='', Uint (cc_sharedMaxAge c)] else []))"

definition de3696d3_setContentType :: "string \<Rightarrow> string" where
  "de3696d3_setContentType contentType = ''Content-type: '' @ contentType @ newline"

definition de3696d3_setHttpAuthenticate :: "string \<Rightarrow> string ptr \<Rightarrow> string result" where
  "de3696d3_setHttpAuthenticate authType realm =
     puts (c598a24c_initStringBuilder_uint32 128)
       ([Str ''WWW-Authenticate: '', Str authType] @
        (case realm of None \<Rightarrow> [] | Some r \<Rightarrow> [Str ('' realm='' @ [CHR 0x22]), Str r, Chr CHR 0x22]))"

definition de3696d3_setRetryAfter :: "u32 \<Rightarrow> string" where
  "de3696d3_setRetryAfter numSeconds = ''Retry-After: '' @ dec_string (unat numSeconds) @ newline"

definition de3696d3_setStatusCode :: "string \<Rightarrow> string" where
  "de3696d3_setStatusCode statusCode = ''Status: '' @ statusCode @ newline"

subsection \<open>Encoded forms\<close>

text \<open>
  The encoding that browsers use for forms: letters, digits and four marks stand for themselves, a blank is a plus
  sign and everything else is a percent sign and two hexadecimal digits.
\<close>

definition plain :: "char \<Rightarrow> bool" where
  "plain ch \<longleftrightarrow> (let n = of_char ch :: nat in 48 \<le> n \<and> n \<le> 57 \<or> 65 \<le> n \<and> n \<le> 90 \<or> 97 \<le> n \<and> n \<le> 122) \<or>
     ch \<in> set ''-._~''"

definition hex_upper :: "nat \<Rightarrow> char" where
  "hex_upper d = char_of (if d < 10 then 48 + d else 55 + d)"

definition url_char :: "char \<Rightarrow> string" where
  "url_char ch =
     (if plain ch then [ch] else if ch = CHR '' '' then ''+''
      else [CHR ''%'', hex_upper (of_char ch div 16), hex_upper (of_char ch mod 16)])"

definition url_encode :: "string \<Rightarrow> string" where
  "url_encode s = concat (map url_char s)"

fun form_text :: "(string \<Rightarrow> string) \<Rightarrow> (string \<times> string) list \<Rightarrow> string" where
  "form_text enc [] = []"
| "form_text enc [(n, v)] = enc n @ CHR ''='' # enc v"
| "form_text enc ((n, v) # p # ps) = enc n @ CHR ''='' # enc v @ CHR ''&'' # form_text enc (p # ps)"

text \<open>What the code makes of an encoded char: the first digit is taken for a decimal one, so bytes from A0 on come out too small.\<close>

definition heard :: "char \<Rightarrow> char" where
  "heard ch = (let n = of_char ch :: nat in if n < 160 then ch else char_of (n - 144))"

text \<open>
  The text is decoded before it is taken apart. Its fields then are these: the name up to the next equals sign, the value up
  to the next ampersand. A last part without an equals sign is not taken apart.
\<close>

function taken_apart :: "string \<Rightarrow> (string \<times> string) list option" where
  "taken_apart s =
     (if CHR ''='' \<notin> set s then None
      else let n = takeWhile (\<lambda>ch. ch \<noteq> CHR ''='') s; t = tl (dropWhile (\<lambda>ch. ch \<noteq> CHR ''='') s);
               v = takeWhile (\<lambda>ch. ch \<noteq> CHR ''&'') t; u = dropWhile (\<lambda>ch. ch \<noteq> CHR ''&'') t
           in if u = [] then Some [(n, v)] else map_option ((#) (n, v)) (taken_apart (tl u)))"
  by pat_completeness auto
termination
proof (relation "measure length", goal_cases)
  case (2 s n t v u)
  have "length u \<le> length t" unfolding 2(5) by (rule length_dropWhile_le)
  moreover have "dropWhile (\<lambda>ch. ch \<noteq> CHR ''='') s \<noteq> []" using 2(1) by (auto simp: dropWhile_eq_Nil_conv)
  then have "length t < length s"
    unfolding 2(3) using length_dropWhile_le [of "\<lambda>ch. ch \<noteq> CHR ''=''" s] by (cases "dropWhile (\<lambda>ch. ch \<noteq> CHR ''='') s") auto
  ultimately show ?case by simp
qed simp

declare taken_apart.simps [simp del]

text \<open>The fields that can be told apart, and the forms that come through unchanged.\<close>

definition fields_ok :: "(string \<times> string) list \<Rightarrow> bool" where
  "fields_ok ps \<longleftrightarrow> ps \<noteq> [] \<and>
     (\<forall>(n, v) \<in> set ps. NUL \<notin> set n \<and> NUL \<notin> set v \<and> CHR ''='' \<notin> set n \<and> CHR ''&'' \<notin> set v)"

definition form_ok :: "(string \<times> string) list \<Rightarrow> bool" where
  "form_ok ps \<longleftrightarrow> fields_ok ps \<and> (\<forall>(n, v) \<in> set ps. \<forall>ch \<in> set (n @ v). of_char ch < (160 :: nat))"

lemma form_text_Cons: "ps \<noteq> [] \<Longrightarrow> form_text enc ((n, v) # ps) = enc n @ CHR ''='' # enc v @ CHR ''&'' # form_text enc ps"
  by (cases ps) auto

text \<open>One field is split off, and the rest is taken apart.\<close>

lemma taken_apart_last:
  assumes "CHR ''='' \<notin> set n" "CHR ''&'' \<notin> set v"
  shows "taken_apart (n @ CHR ''='' # v) = Some [(n, v)]"
proof -
  have "\<forall>ch \<in> set n. ch \<noteq> CHR ''=''" "\<forall>ch \<in> set v. ch \<noteq> CHR ''&''" using assms by auto
  then show ?thesis by (subst taken_apart.simps) (simp add: takeWhile_append2 dropWhile_append2 Let_def takeWhile_eq_all_conv)
qed

lemma taken_apart_first:
  assumes "CHR ''='' \<notin> set n" "CHR ''&'' \<notin> set v"
  shows "taken_apart (n @ CHR ''='' # v @ CHR ''&'' # rest) = map_option ((#) (n, v)) (taken_apart rest)"
proof -
  have "\<forall>ch \<in> set n. ch \<noteq> CHR ''=''" "\<forall>ch \<in> set v. ch \<noteq> CHR ''&''" using assms by auto
  then show ?thesis by (subst taken_apart.simps) (simp add: takeWhile_append2 dropWhile_append2 Let_def)
qed

lemma taken_apart_form: "fields_ok ps \<Longrightarrow> taken_apart (form_text id ps) = Some ps"
proof (induction ps)
  case (Cons p ps)
  obtain n v where p: "p = (n, v)" by (cases p)
  have ok: "CHR ''='' \<notin> set n" "CHR ''&'' \<notin> set v" using Cons.prems p by (auto simp: fields_ok_def)
  show ?case
  proof (cases "ps = []")
    case True
    then show ?thesis using taken_apart_last [OF ok] p by simp
  next
    case False
    then have "fields_ok ps" using Cons.prems by (auto simp: fields_ok_def)
    then show ?thesis using taken_apart_first [OF ok] Cons.IH p False by (simp add: form_text_Cons)
  qed
qed (simp add: fields_ok_def)

lemma first_field:
  assumes "CHR ''='' \<in> set s" and "NUL \<notin> set s"
  obtains n v where "s = n @ CHR ''='' # v" "fields_ok [(n, v)]"
  | n v rest where "s = n @ CHR ''='' # v @ CHR ''&'' # rest" "fields_ok [(n, v)]"
proof -
  obtain n t where t: "s = n @ CHR ''='' # t" "CHR ''='' \<notin> set n" using split_list_first [OF assms(1)] by blast
  show thesis
  proof (cases "CHR ''&'' \<in> set t")
    case False
    then show thesis using that(1) [of n t] t assms(2) by (auto simp: fields_ok_def)
  next
    case True
    then obtain v rest where "t = v @ CHR ''&'' # rest" "CHR ''&'' \<notin> set v" using split_list_first by fast
    then show thesis using that(2) [of n v rest] t assms(2) by (auto simp: fields_ok_def)
  qed
qed

lemma taken_apart_Some:
  "NUL \<notin> set s \<Longrightarrow> taken_apart s = Some ps \<Longrightarrow> s = form_text id ps \<and> fields_ok ps"
proof (induction ps arbitrary: s)
  case Nil
  then show ?case by (subst (asm) taken_apart.simps) (auto simp: Let_def split: if_splits)
next
  case (Cons p ps)
  have eq: "CHR ''='' \<in> set s" using Cons.prems(2) by (subst (asm) taken_apart.simps) (auto split: if_splits)
  from first_field [OF eq Cons.prems(1)] show ?case
  proof cases
    case (1 n v)
    then have "(p # ps) = [(n, v)]" using taken_apart_last [of n v] Cons.prems(2) by (auto simp: fields_ok_def)
    then show ?thesis using 1 by simp
  next
    case (2 n v rest)
    then have "NUL \<notin> set rest" "taken_apart rest = Some ps" "p = (n, v)"
      using Cons.prems taken_apart_first [of n v rest] by (auto simp: fields_ok_def)
    with Cons.IH 2 show ?thesis by (auto simp: form_text_Cons fields_ok_def)
  qed
qed

lemma byte_of_char_of: "m < 256 \<Longrightarrow> byte_of (char_of m) = of_nat m"
  using of_nat_of_char [of "char_of m", where 'a = u8] by (simp add: byte_of_def)

lemma hex_upper_byte:
  assumes "d < 16"
  shows "byte_of (hex_upper d) - 0x30 = of_nat (if d < 10 then d else d + 7)"
    and "(if byte_of (hex_upper d) < 0x3A then byte_of (hex_upper d) - 0x30 else byte_of (hex_upper d) - 0x41 + 0x0A) = of_nat d"
proof -
  have b: "byte_of (hex_upper d) = of_nat (if d < 10 then 48 + d else 55 + d)"
    unfolding hex_upper_def using assms by (intro byte_of_char_of) simp
  then show "byte_of (hex_upper d) - 0x30 = of_nat (if d < 10 then d else d + 7)" by simp
  have "unat (byte_of (hex_upper d)) = (if d < 10 then 48 + d else 55 + d)"
    unfolding b using assms by (intro of_nat_inverse [OF refl]) simp
  then have "byte_of (hex_upper d) < 0x3A \<longleftrightarrow> d < 10" by (simp add: word_less_nat_alt)
  then show "(if byte_of (hex_upper d) < 0x3A then byte_of (hex_upper d) - 0x30
      else byte_of (hex_upper d) - 0x41 + 0x0A) = of_nat d"
    unfolding b by simp
qed

lemma percent_byte_hex: "percent_byte (hex_upper (of_char ch div 16)) (hex_upper (of_char ch mod 16)) = heard ch"
proof -
  define n :: nat where "n = of_char ch"
  let ?hi = "if n div 16 < 10 then n div 16 else n div 16 + 7"
  have n: "n < 256" by (simp add: n_def)
  then have n: "n < 256" "n div 16 < 16" "n mod 16 < 16" by simp_all
  have sum: "push_bit 4 (of_nat ?hi :: u8) + of_nat (n mod 16) = of_nat (16 * ?hi + n mod 16)"
    by (simp add: push_bit_eq_mult)
  have "(16 * ?hi + n mod 16) mod 256 = (if n < 160 then n else n - 144)"
  proof (cases "n < 160")
    case False
    then have "?hi = n div 16 + 7" by simp
    moreover have "16 * (n div 16 + 7) + n mod 16 = n + 112" by (simp add: algebra_simps)
    moreover have "n + 112 = n - 144 + 256" using False by simp
    ultimately have "16 * ?hi + n mod 16 = n - 144 + 256" by metis
    moreover have "(n - 144 + 256) mod 256 = n - 144" unfolding mod_add_self2 using n by (intro mod_less) simp
    ultimately show ?thesis using False by presburger
  qed auto
  then have "unat (push_bit 4 (of_nat ?hi :: u8) + of_nat (n mod 16)) = (if n < 160 then n else n - 144)"
    unfolding sum unat_of_nat by (simp del: of_nat_add of_nat_mult)
  moreover have "char_of n = ch" by (simp add: n_def)
  ultimately have "percent_byte (hex_upper (n div 16)) (hex_upper (n mod 16)) = heard ch"
    unfolding percent_byte_def Let_def hex_upper_byte(1) [OF n(2)] hex_upper_byte(2) [OF n(3)] heard_def n_def [symmetric]
    by (simp only: split: if_split) simp
  then show ?thesis by (simp only: n_def)
qed

lemma heard_ascii: "of_char ch < (160 :: nat) \<Longrightarrow> heard ch = ch"
  by (simp add: heard_def)

lemma heard_NUL: "heard ch = NUL \<longleftrightarrow> ch = NUL"
proof (cases "of_char ch < (160 :: nat)")
  case False
  define n :: nat where "n = of_char ch"
  have n: "160 \<le> n" "n < 256" using False by (simp_all add: n_def)
  then have "of_char (char_of (n - 144)) = n - 144" by (simp add: of_char_of)
  then have "char_of (n - 144) \<noteq> NUL" using n by fastforce
  moreover have "ch \<noteq> NUL" using False by fastforce
  ultimately show ?thesis using n by (simp add: heard_def n_def Let_def)
qed (simp add: heard_ascii)

lemma decoded_url_char: "decoded (url_char ch @ t) = bnd (decoded t) (\<lambda>r. Inr (heard ch # r))"
proof (cases "plain ch")
  case True
  have "\<not> plain (CHR ''+'')" "\<not> plain (CHR ''%'')" by code_simp+
  with True have 1: "ch \<noteq> CHR ''+''" "ch \<noteq> CHR ''%''" by blast+
  have "of_char ch < (160 :: nat)" using True unfolding plain_def Let_def set_simps insert_iff empty_iff by force
  then have "heard ch = ch" by (rule heard_ascii)
  with True 1 show ?thesis by (simp add: url_char_def)
next
  case False
  have "heard (CHR '' '') = CHR '' ''" by (rule heard_ascii) simp
  with False percent_byte_hex [of ch] show ?thesis by (simp add: url_char_def)
qed

lemma decoded_url_encode: "decoded (url_encode s @ t) = bnd (decoded t) (\<lambda>r. Inr (map heard s @ r))"
  by (induction s) (simp_all add: url_encode_def decoded_url_char bnd_assoc)

lemma decoded_form: "decoded (form_text url_encode ps) = Inr (form_text (map heard) ps)"
proof (induction url_encode ps rule: form_text.induct)
  case (2 n v)
  then show ?case using decoded_url_encode [of v "[]"] by (simp add: decoded_url_encode)
qed (simp_all add: decoded_url_encode)

lemma heard_form:
  "form_ok ps \<Longrightarrow> form_text (map heard) ps = form_text id ps"
proof (induction ps)
  case (Cons p ps)
  obtain n v where p: "p = (n, v)" by (cases p)
  have "\<forall>ch \<in> set (n @ v). of_char ch < (160 :: nat)" using Cons.prems p by (auto simp: form_ok_def)
  then have h: "map heard n = n" "map heard v = v" using heard_ascii by (auto intro: map_idI)
  show ?case
  proof (cases "ps = []")
    case False
    then have "form_ok ps" using Cons.prems by (auto simp: form_ok_def fields_ok_def)
    then show ?thesis using Cons.IH p h False by (simp add: form_text_Cons)
  qed (simp add: p h)
qed simp

lemma heard_no_NUL: "\<forall>(n, v) \<in> set ps. NUL \<notin> set n \<and> NUL \<notin> set v \<Longrightarrow> NUL \<notin> set (form_text (map heard) ps)"
proof (induction ps)
  case (Cons p ps)
  have 1: "NUL \<notin> set (map heard s)" if "NUL \<notin> set s" for s using that heard_NUL by (metis (no_types) imageE list.set_map)
  show ?case
  proof (cases "ps = []")
    case True
    then show ?thesis using Cons.prems 1 by (cases p) simp
  next
    case False
    then show ?thesis using Cons 1 by (cases p) (simp add: form_text_Cons)
  qed
qed simp

subsection \<open>Taking a form apart\<close>

definition closed_pair :: "string \<times> string \<Rightarrow> string" where
  "closed_pair p = fst p @ [NUL] @ snd p @ [NUL]"

text \<open>Where the values and the names are, for a form that starts at \<open>k\<close>.\<close>

fun places :: "nat \<Rightarrow> (string \<times> string) list \<Rightarrow> (nat \<times> nat) list" where
  "places k [] = []"
| "places k (p # ps) = (k + length (fst p) + 1, k) # places (k + length (closed_pair p)) ps"

text \<open>One field in front of others is closed, and its places are pushed.\<close>

lemma map_loop_field:
  assumes "fields_ok [(n, v)]"
  shows "map_loop (map Some (pre @ n @ CHR ''='' # v @ CHR ''&'' # rest) @ beyond) (length pre) stk =
         map_loop (map Some ((pre @ closed_pair (n, v)) @ rest) @ beyond) (length (pre @ closed_pair (n, v)))
           ((length (pre @ n) + 1, length pre) # stk)"
proof -
  let ?b = "map Some (pre @ n @ [CHR ''='']) @ map Some (v @ CHR ''&'' # rest) @ beyond"
  let ?c = "map Some ((pre @ n @ [NUL]) @ v @ [CHR ''&'']) @ map Some rest @ beyond"
  have 0: "\<forall>ch \<in> set n. ch \<noteq> CHR ''=''" "\<forall>ch \<in> set v. \<not> (ch = CHR ''&'' \<or> ch = NUL)"
    using assms by (auto simp: fields_ok_def)
  let ?d = "map Some ((pre @ closed_pair (n, v)) @ rest) @ beyond"
  have 1: "scan_to (\<lambda>ch. ch = CHR ''='') ?b (length pre) = Inr (length (pre @ n))"
    using scan_to_end [OF 0(1) refl refl, of pre "map Some (v @ CHR ''&'' # rest) @ beyond"] by simp
  have 2: "wr ?b (length (pre @ n)) NUL = Inr ?c" by (simp add: wr_def list_update_append)
  have 3: "scan_to (\<lambda>ch. ch = CHR ''&'' \<or> ch = NUL) ?c (length (pre @ n) + 1) = Inr (length ((pre @ n @ [NUL]) @ v))"
    using scan_to_end [OF 0(2) disjI1 [OF refl] refl, of "pre @ n @ [NUL]" "map Some rest @ beyond"] by simp
  have 4: "rd ?c (length ((pre @ n @ [NUL]) @ v)) = Inr CHR ''&''" by (simp add: rd_def nth_append)
  have 5: "wr ?c (length ((pre @ n @ [NUL]) @ v)) NUL = Inr ?d"
    by (simp add: wr_def list_update_append closed_pair_def)
  show ?thesis
    using 1 2 3 4 5 by (subst map_loop.simps) (simp add: closed_pair_def)
qed

lemma map_loop_last:
  assumes "fields_ok [(n, v)]"
  shows "map_loop (map Some (pre @ n @ CHR ''='' # v @ [NUL]) @ beyond) (length pre) stk =
         Inr (map Some (pre @ closed_pair (n, v)) @ beyond, (length (pre @ n) + 1, length pre) # stk)"
proof -
  let ?b = "map Some (pre @ n @ [CHR ''='']) @ map Some (v @ [NUL]) @ beyond"
  let ?c = "map Some ((pre @ n @ [NUL]) @ v @ [NUL]) @ beyond"
  have 0: "\<forall>ch \<in> set n. ch \<noteq> CHR ''=''" "\<forall>ch \<in> set v. \<not> (ch = CHR ''&'' \<or> ch = NUL)"
    using assms by (auto simp: fields_ok_def)
  have 1: "scan_to (\<lambda>ch. ch = CHR ''='') ?b (length pre) = Inr (length (pre @ n))"
    using scan_to_end [OF 0(1) refl refl, of pre "map Some (v @ [NUL]) @ beyond"] by simp
  have 2: "wr ?b (length (pre @ n)) NUL = Inr ?c" by (simp add: wr_def list_update_append)
  have 3: "scan_to (\<lambda>ch. ch = CHR ''&'' \<or> ch = NUL) ?c (length (pre @ n) + 1) = Inr (length ((pre @ n @ [NUL]) @ v))"
    using scan_to_end [OF 0(2) disjI2 [OF refl] refl, of "pre @ n @ [NUL]" beyond] by simp
  have 4: "rd ?c (length ((pre @ n @ [NUL]) @ v)) = Inr NUL" by (simp add: rd_def nth_append)
  show ?thesis
    using 1 2 3 4 by (subst map_loop.simps) (simp add: closed_pair_def)
qed

lemma map_loop_form:
  "fields_ok ps \<Longrightarrow>
     map_loop (map Some (pre @ form_text id ps @ [NUL]) @ beyond) (length pre) stk =
       Inr (map Some (pre @ concat (map closed_pair ps)) @ beyond, rev (places (length pre) ps) @ stk)"
proof (induction ps arbitrary: pre stk)
  case (Cons p ps)
  obtain n v where p: "p = (n, v)" by (cases p)
  have ok: "fields_ok [(n, v)]" using Cons.prems p by (simp add: fields_ok_def)
  show ?case
  proof (cases "ps = []")
    case True
    then show ?thesis using map_loop_last [OF ok, of pre beyond stk] p by simp
  next
    case False
    then have "fields_ok ps" using Cons.prems by (auto simp: fields_ok_def)
    from map_loop_field [OF ok, of pre "form_text id ps @ [NUL]" beyond stk]
      Cons.IH [OF this, of "pre @ closed_pair p" "(length (pre @ n) + 1, length pre) # stk"]
    show ?thesis using p False by (simp add: form_text_Cons id_def)
  qed
qed (simp add: fields_ok_def)

text \<open>A part without an equals sign: the search goes on behind the text, where nothing has been written.\<close>

lemma scan_to_runs_out:
  assumes "\<forall>ch \<in> set v. \<not> stops ch" and "set beyond \<subseteq> {None}"
  shows "\<exists>f. scan_to stops (map Some (pre @ v) @ beyond) (length pre) = Inl f"
  using assms(1)
proof (induction v arbitrary: pre)
  case Nil
  have "\<exists>f. rd (map Some pre @ beyond) (length pre) = Inl f"
    using assms(2) by (cases beyond) (auto simp: rd_def nth_append)
  then show ?case by (subst scan_to.simps) auto
next
  case (Cons ch v)
  have "\<exists>f. scan_to stops (map Some ((pre @ [ch]) @ v) @ beyond) (length (pre @ [ch])) = Inl f"
    using Cons.prems by (intro Cons.IH) simp
  then show ?case using Cons.prems by (subst scan_to.simps) (simp add: rd_def nth_append)
qed

lemma map_loop_faults:
  "NUL \<notin> set s \<Longrightarrow> taken_apart s = None \<Longrightarrow> set beyond \<subseteq> {None} \<Longrightarrow>
     \<exists>f. map_loop (map Some (pre @ s @ [NUL]) @ beyond) (length pre) stk = Inl f"
proof (induction s arbitrary: pre stk rule: length_induct)
  case (1 s)
  show ?case
  proof (cases "CHR ''='' \<in> set s")
    case False
    then have "\<forall>ch \<in> set (s @ [NUL]). ch \<noteq> CHR ''=''" by auto
    from scan_to_runs_out [OF this 1(4), of pre] show ?thesis by (subst map_loop.simps) auto
  next
    case True
    from first_field [OF True 1(2)] show ?thesis
    proof cases
      case (1 n v)
      then show ?thesis using taken_apart_last [of n v] \<open>taken_apart s = None\<close> by (auto simp: fields_ok_def)
    next
      case (2 n v rest)
      then have "length rest < length s" "NUL \<notin> set rest" "taken_apart rest = None"
        using 1(2,3) taken_apart_first [of n v rest] by (auto simp: fields_ok_def)
      from 1(1) [rule_format, OF this 1(4), of "pre @ closed_pair (n, v)" "(length (pre @ n) + 1, length pre) # stk"]
      show ?thesis using map_loop_field [OF 2(2), of pre "rest @ [NUL]" beyond stk] 2(1) by simp
    qed
  qed
qed

text \<open>What is at those places.\<close>

lemma text_at_places:
  assumes "\<forall>(n, v) \<in> set ps. NUL \<notin> set n \<and> NUL \<notin> set v"
  shows "list_all2 (\<lambda>(v, n) p. text_at (map Some (pre @ concat (map closed_pair ps)) @ beyond) n = Inr (fst p) \<and>
           text_at (map Some (pre @ concat (map closed_pair ps)) @ beyond) v = Inr (snd p))
         (places (length pre) ps) ps"
  using assms
proof (induction ps arbitrary: pre)
  case (Cons p ps)
  let ?rest = "concat (map closed_pair ps)"
  have "text_at (map Some (pre @ fst p @ [NUL]) @ map Some (snd p @ NUL # ?rest) @ beyond) (length pre) = Inr (fst p)"
    "text_at (map Some ((pre @ fst p @ [NUL]) @ snd p @ [NUL]) @ map Some ?rest @ beyond) (length (pre @ fst p @ [NUL])) =
       Inr (snd p)"
    using Cons.prems by (intro text_at_field; auto)+
  then show ?case
    using Cons.IH [of "pre @ closed_pair p"] Cons.prems by (simp add: closed_pair_def [of p])
qed simp

lemma key_texts_list:
  "list_all2 (\<lambda>(v, n) p. text_at b n = Inr (fst p) \<and> text_at b v = Inr (snd p)) stk ps \<Longrightarrow>
   key_texts b stk = Inr (map2 (\<lambda>(v, n) p. (Some v, Some (fst p))) stk ps)"
  by (induction rule: list_all2_induct) auto

lemma putFromStack_rep:
  "string_map m M \<Longrightarrow>
   \<exists>m'. c47905f7_putFromStack m xs = Inr m' \<and> string_map m' (foldl (\<lambda>M (v, key). M(key := Some v)) M xs)"
proof (induction xs arbitrary: m M)
  case (Cons x xs)
  obtain v key where x: "x = (v, key)" by (cases x)
  from string_map_step [OF Cons.prems, of "Put key v"] obtain old m1 where
    m1: "c47905f7_put m key v = Inr (old, m1)" "string_map m1 (M(key := Some v))"
    by (auto simp: bnd_eq_Inr)
  from Cons.IH [OF m1(2)] m1(1) show ?case by (auto simp: x)
qed simp

lemma last_put_wins:
  "foldl (\<lambda>M (v, key). M(key := Some v)) M (rev xs) key =
   (case map_of (map prod.swap xs) key of None \<Rightarrow> M key | Some v \<Rightarrow> Some v)"
  by (induction xs) (auto split: option.split)

text \<open>The map of a form has for every name the place of the first value of that name.\<close>

lemma form_lookup:
  "list_all2 (\<lambda>(v, n) p. text_at b n = Inr (fst p) \<and> text_at b v = Inr (snd p)) stk ps \<Longrightarrow>
   (case map_of (map prod.swap (map2 (\<lambda>(v, n) p. (Some v, Some (fst p))) stk ps)) (Some name) of
      None \<Rightarrow> map_of ps name = None
    | Some q \<Rightarrow> \<exists>i s. q = Some i \<and> map_of ps name = Some s \<and> text_at b i = Inr s)"
proof (induction rule: list_all2_induct)
  case (Cons x xs p ps)
  then show ?case by (cases x; cases p) (auto split: option.splits)
qed simp

lemma c_string_cells:
  "c_string b = Inr s \<Longrightarrow> length s < length b \<and> take (length s) b = map Some s \<and> NUL \<notin> set s"
  by (induction b arbitrary: s rule: c_string.induct) (auto simp: bnd_eq_Inr split: if_splits)

lemma truncate_text:
  assumes "text_at b i = Inr s"
  shows "\<exists>b'. truncate_at b i maxLen = Inr b' \<and> text_at b' i = Inr (take (unat maxLen) s)"
proof (cases "length s < unat maxLen")
  case True
  with assms show ?thesis by (simp add: truncate_at_def)
next
  case False
  let ?n = "unat maxLen"
  have h: "length s < length (drop i b)" "take (length s) (drop i b) = map Some s"
    using assms c_string_cells [of "drop i b" s] by (auto simp: text_at_def)
  then have w: "wr b (i + ?n) NUL = Inr (b[i + ?n := Some NUL])" using False by (simp add: wr_def)
  have "take ?n (drop i b) = map Some (take ?n s)"
    using arg_cong [OF h(2), of "take ?n"] False by (simp add: take_map)
  then have "holds (drop i (b[i + ?n := Some NUL])) (take ?n s @ [NUL])"
    using False h(1) by (simp add: holds_def drop_update_swap take_Suc_conv_app_nth)
  moreover have "NUL \<notin> set (take ?n s)"
    using assms c_string_cells [of "drop i b" s] by (auto simp: text_at_def dest: in_set_takeD)
  ultimately have "text_at (b[i + ?n := Some NUL]) i = Inr (take ?n s)"
    unfolding text_at_def by (intro c_string_holds)
  with assms False w show ?thesis by (simp add: truncate_at_def)
qed

lemma mapQueryString_form:
  assumes form: "fields_ok ps" and parameters: "string_map (hr_parameters request) (\<lambda>_. None)"
  shows "\<exists>request' b. a2465172_mapQueryString request (map Some (form_text id ps @ [NUL]) @ beyond) = Inr request' \<and>
           (\<exists>M. string_map (hr_parameters request') M \<and> hr_paramStr request' = Some (Some b) \<and>
             (\<forall>name. case M (Some name) of
                None \<Rightarrow> map_of ps name = None
              | Some q \<Rightarrow> \<exists>i s. q = Some i \<and> map_of ps name = Some s \<and> text_at b i = Inr s))"
proof -
  let ?b = "map Some (concat (map closed_pair ps)) @ beyond"
  let ?pairs = "map2 (\<lambda>(v, n) p. (Some v, Some (fst p))) (places 0 ps) ps"
  from form have nul: "\<forall>(n, v) \<in> set ps. NUL \<notin> set n \<and> NUL \<notin> set v" by (auto simp: fields_ok_def)
  from map_loop_form [OF form, of "[]" beyond "[]"]
  have loop: "map_loop (map Some (form_text id ps @ [NUL]) @ beyond) 0 [] = Inr (?b, rev (places 0 ps))" by simp
  have at: "list_all2 (\<lambda>(v, n) p. text_at ?b n = Inr (fst p) \<and> text_at ?b v = Inr (snd p)) (places 0 ps) ps"
    using text_at_places [OF nul, of "[]" beyond] by simp
  then have len: "length (places 0 ps) = length ps" by (rule list_all2_lengthD)
  from at have "list_all2 (\<lambda>(v, n) p. text_at ?b n = Inr (fst p) \<and> text_at ?b v = Inr (snd p))
      (rev (places 0 ps)) (rev ps)" by simp
  from key_texts_list [OF this] have texts: "key_texts ?b (rev (places 0 ps)) = Inr (rev ?pairs)"
    using len by (simp add: zip_rev rev_map)
  from putFromStack_rep [OF parameters, of "rev ?pairs"] obtain m where
    m: "c47905f7_putFromStack (hr_parameters request) (rev ?pairs) = Inr m"
    "string_map m (foldl (\<lambda>M (v, key). M(key := Some v)) (\<lambda>_. None) (rev ?pairs))" by blast
  have "case foldl (\<lambda>M (v, key). M(key := Some v)) (\<lambda>_. None) (rev ?pairs) (Some name) of
          None \<Rightarrow> map_of ps name = None
        | Some q \<Rightarrow> \<exists>i s. q = Some i \<and> map_of ps name = Some s \<and> text_at ?b i = Inr s" for name
    using form_lookup [OF at, of name] unfolding last_put_wins by (auto split: option.splits)
  with m loop texts show ?thesis by (auto simp: a2465172_mapQueryString_def)
qed

lemma length_form_le: "length (form_text (map heard) ps) \<le> length (form_text url_encode ps)"
proof -
  have "length s \<le> length (url_encode s)" for s
  proof (induction s)
    case (Cons ch s)
    have "1 \<le> length (url_char ch)" by (simp add: url_char_def)
    with Cons show ?case by (simp add: url_encode_def)
  qed (simp add: url_encode_def)
  note this [simp]
  show ?thesis by (induction url_encode ps rule: form_text.induct) (auto intro!: add_mono)
qed

subsection \<open>Properties\<close>

text \<open>C12: what becomes of a form that a browser sends by GET, in at most 131072 chars, whatever its names and values are (without NUL). The bytes from A0 on are misread, and
  the text is taken apart only after it has been decoded, so an encoded equals sign in a name or ampersand in a value separates
  fields; when the last part is without an equals sign, the search for one leaves the text and the call faults. Otherwise
  getString gives for every name the value of the first such field of that name, cut to the length asked for, and NULL when there is
  none; and these fields are those of the form itself when it has no byte from A0 on, no equals sign in a name and no ampersand in
  a value. What initHttpRequest returns is whatever the
  register holds, the None of the statement.\<close>

theorem form_parameters:
  assumes "\<forall>(n, v) \<in> set ps. NUL \<notin> set n \<and> NUL \<notin> set v" and "length (form_text url_encode ps) \<le> 131072"
    and "getenv ''REQUEST_METHOD'' = Some ''GET''" and "getenv ''QUERY_STRING'' = Some (form_text url_encode ps)"
  shows "case taken_apart (form_text (map heard) ps) of
           None \<Rightarrow> \<exists>f. a2465172_initHttpRequest getenv numParams = Inl f
         | Some qs \<Rightarrow>
             (form_ok ps \<longrightarrow> qs = ps) \<and>
             (\<exists>request. a2465172_initHttpRequest getenv numParams = Inr (None, request) \<and>
               (\<forall>name maxLen. \<exists>request'. a2465172_getString request (Some name) maxLen =
                  Inr (map_option (take (unat maxLen)) (map_of qs name), request')))"
proof -
  let ?q = "form_text url_encode ps" and ?s = "form_text (map heard) ps"
  have nul: "NUL \<notin> set ?s" using assms(1) by (rule heard_no_NUL)
  obtain m :: "(string, nat) HashMap" where
    m: "c47905f7_initHashMap f6215943_hashCode f6215943_isEqual numParams = Inr m" "string_map m (\<lambda>_. None)"
    using string_key.init_rep by (auto simp: string_map_def)
  have n: "unat (of_nat (length ?q) :: u32) = length ?q" "sint (of_nat (length ?q) :: u32) = int (length ?q)"
    using assms(2) by (simp_all add: of_nat_inverse sint_small)
  obtain buffer :: "char block" where buffer: "f668c4bd_stralloc (length ?q) = Inr buffer" "length ?q < length buffer" "set buffer \<subseteq> {None}"
    using stralloc_room [of "length ?q"] assms(2) by (auto simp: f668c4bd_stralloc_def fresh_def Let_def split: if_splits)
  let ?beyond = "drop (length ?s + 1) buffer"
  have url: "a2465172_urldecode ?q buffer = Inr (map Some (?s @ [NUL]) @ ?beyond)"
    using buffer(2) length_form_le [of ps] by (simp add: a2465172_urldecode_def decoded_form blit_ok)
  have beyond: "set ?beyond \<subseteq> {None}" using buffer(3) set_drop_subset [of "length ?s + 1" buffer] by blast
  define request where "request = unset_request m (Some ''GET'')\<lparr>hr_queryString := Some (Some ?q), hr_length := Some (of_nat (length ?q))\<rparr>"
  have init: "a2465172_initHttpRequest getenv numParams =
      bnd (a2465172_mapQueryString request (map Some (?s @ [NUL]) @ ?beyond)) (\<lambda>request. Inr (None, request))"
    using m(1) assms(2-4) n buffer(1) url
    by (simp add: a2465172_initHttpRequest_def Let_def isEqual_iff f6215943_getLength_def MAX_URL_SIZE_def request_def
        unset_request_def)
  show ?thesis
  proof (cases "taken_apart ?s")
    case None
    obtain f where "map_loop (map Some (?s @ [NUL]) @ ?beyond) 0 [] = Inl f"
      using map_loop_faults [OF nul None beyond, of "[]" "[]"] by auto
    then show ?thesis using init None by (simp add: a2465172_mapQueryString_def)
  next
    case (Some qs)
    then have s: "?s = form_text id qs" "fields_ok qs" using taken_apart_Some [OF nul Some] by auto
    have same: "qs = ps" if "form_ok ps"
      using that Some heard_form [OF that] taken_apart_form [of ps] by (simp add: form_ok_def)
    have "string_map (hr_parameters request) (\<lambda>_. None)" using m(2) by (simp add: request_def unset_request_def)
    from mapQueryString_form [OF s(2) this, of ?beyond] obtain request' b M where r:
      "a2465172_mapQueryString request (map Some (?s @ [NUL]) @ ?beyond) = Inr request'"
      "string_map (hr_parameters request') M" "hr_paramStr request' = Some (Some b)"
      "\<And>name. case M (Some name) of None \<Rightarrow> map_of qs name = None
         | Some q \<Rightarrow> \<exists>i s. q = Some i \<and> map_of qs name = Some s \<and> text_at b i = Inr s" unfolding s(1) by blast
    have get: "c47905f7_get (hr_parameters request') key = Inr (case M key of None \<Rightarrow> None | Some v \<Rightarrow> v)" for key
      using r(2) string_key.get_rep(1) [of _ M key] by (auto simp: string_map_def)
    have "\<exists>request''. a2465172_getString request' (Some name) maxLen =
        Inr (map_option (take (unat maxLen)) (map_of qs name), request'')" for name maxLen
    proof (cases "M (Some name)")
      case None
      with r(4) [of name] get show ?thesis by (simp add: a2465172_getString_def)
    next
      case (Some q)
      with r(4) [of name] obtain i s where i: "q = Some i" "map_of qs name = Some s" "text_at b i = Inr s" by auto
      from truncate_text [OF i(3)] obtain b' where
        "truncate_at b i maxLen = Inr b'" "text_at b' i = Inr (take (unat maxLen) s)" by blast
      with i r(3) Some get show ?thesis by (simp add: a2465172_getString_def cell_def)
    qed
    then show ?thesis using init r(1) same Some by auto
  qed
qed

lemma form_parameters_witness:
  "\<exists>request request'. a2465172_initHttpRequest
       (\<lambda>name. if name = ''REQUEST_METHOD'' then Some ''GET'' else if name = ''QUERY_STRING'' then Some ''q=a+b&r=%2F&q=2'' else None) 8 =
       Inr (None, request) \<and>
     a2465172_getString request (Some ''q'') 2 = Inr (Some ''a '', request')"
proof -
  let ?ps = "[(''q'', ''a b''), (''r'', ''/''), (''q'', ''2'')]"
  let ?env = "\<lambda>name. if name = ''REQUEST_METHOD'' then Some ''GET'' else if name = ''QUERY_STRING'' then Some ''q=a+b&r=%2F&q=2'' else None"
  have q: "form_text url_encode ?ps = ''q=a+b&r=%2F&q=2''" by code_simp
  have ok: "form_ok ?ps" by code_simp
  have heard: "taken_apart (form_text (map heard) ?ps) = Some ?ps"
    using taken_apart_form [of ?ps] heard_form [OF ok] ok by (simp add: form_ok_def)
  have nul: "\<forall>(n, v) \<in> set ?ps. NUL \<notin> set n \<and> NUL \<notin> set v" by simp
  have "\<exists>request. a2465172_initHttpRequest ?env 8 = Inr (None, request) \<and>
           (\<forall>name maxLen. \<exists>request'. a2465172_getString request (Some name) maxLen =
              Inr (map_option (take (unat maxLen)) (map_of ?ps name), request'))"
    using form_parameters [OF nul, of ?env 8] unfolding q heard by simp
  then obtain request where r: "a2465172_initHttpRequest ?env 8 = Inr (None, request)"
    "\<And>name maxLen. \<exists>request'. a2465172_getString request (Some name) maxLen =
              Inr (map_option (take (unat maxLen)) (map_of ?ps name), request')" by blast
  from r(2) [of "''q''" 2] r(1) show ?thesis by auto
qed

end
