(* ===== verification/UIntArray.thy ===== *)
theory UIntArray
  imports ErrorReport
begin

text \<open>
  adt/unsignedintarray: a growable array of 32-bit values, whose add is in assembler, and the printing of byte and
  16-bit arrays (lang/byte.c, lang/short.c).
\<close>

record UnsignedIntArray =
  ua_values :: "u32 block ptr"
  ua_length :: u32
  ua_size :: u32

definition A8638224_DEFAULT_SIZE :: u32 where "A8638224_DEFAULT_SIZE = 16"

definition a8638224_createUnsignedIntArray :: "UnsignedIntArray result" where
  "a8638224_createUnsignedIntArray =
     bnd (f668c4bd_mallocArray 4 (unat A8638224_DEFAULT_SIZE)) (\<lambda>values.
     Inr \<lparr>ua_values = Some values, ua_length = 0, ua_size = A8638224_DEFAULT_SIZE\<rparr>)"

definition a8638224_initUnsignedIntArray :: "UnsignedIntArray \<Rightarrow> UnsignedIntArray result" where
  "a8638224_initUnsignedIntArray listArray =
     bnd (f668c4bd_mallocArray 4 (unat A8638224_DEFAULT_SIZE)) (\<lambda>values.
     Inr (listArray\<lparr>ua_values := Some values, ua_size := A8638224_DEFAULT_SIZE, ua_length := 0\<rparr>))"

text \<open>The new size is stored before the values are moved; a NULL array is left alone.\<close>

definition add_element :: "UnsignedIntArray \<Rightarrow> u32 \<Rightarrow> UnsignedIntArray result" where
  "add_element listArray element =
     bnd (if ua_length listArray = ua_size listArray then
            let newLength = push_bit 1 (ua_size listArray)
            in bnd (f668c4bd_resizeArray (ua_values listArray) (ua_length listArray) 4 (unat newLength)) (\<lambda>values.
               Inr (listArray\<lparr>ua_values := Some values, ua_size := newLength\<rparr>))
          else Inr listArray) (\<lambda>listArray.
     bnd (deref (ua_values listArray)) (\<lambda>values.
     bnd (wr values (unat (ua_length listArray)) element) (\<lambda>values.
     Inr (listArray\<lparr>ua_values := Some values, ua_length := ua_length listArray + 1\<rparr>))))"

definition a8638224_add :: "UnsignedIntArray ptr \<Rightarrow> u32 \<Rightarrow> UnsignedIntArray ptr result" where
  "a8638224_add listArray element =
     (case listArray of None \<Rightarrow> Inr None | Some a \<Rightarrow> bnd (add_element a element) (\<lambda>a. Inr (Some a)))"

definition append_value :: "UnsignedIntArray \<Rightarrow> StringBuilder \<Rightarrow> nat \<Rightarrow> StringBuilder result" where
  "append_value listArray strBuilder i =
     bnd (deref (ua_values listArray)) (\<lambda>values. bnd (rd values i) (\<lambda>v. c598a24c_append_uint strBuilder v))"

definition a8638224_extract :: "UnsignedIntArray \<Rightarrow> StringBuilder \<Rightarrow> StringBuilder result" where
  "a8638224_extract listArray strBuilder =
     bnd (c598a24c_append_char strBuilder CHR ''['') (\<lambda>strBuilder.
     bnd (if 0 < ua_length listArray then
            bnd (append_value listArray strBuilder 0) (\<lambda>strBuilder.
            fold_result (\<lambda>strBuilder i. bnd (c598a24c_append_char strBuilder CHR '','') (\<lambda>strBuilder.
                append_value listArray strBuilder i)) strBuilder [1..<unat (ua_length listArray)])
          else Inr strBuilder) (\<lambda>strBuilder.
     c598a24c_append_char strBuilder CHR '']''))"

subsection \<open>lang/byte.c and lang/short.c\<close>

text \<open>What is written to stdout for \<open>len\<close> values; \<open>%u\<close> of a promoted unsigned value is its decimal text.\<close>

definition print_array :: "'w::len word block \<Rightarrow> nat \<Rightarrow> string result" where
  "print_array values len =
     (if len = 0 then Inr (''[]'' @ newline)
      else bnd (rd values 0) (\<lambda>v.
           bnd (fold_result (\<lambda>s i. bnd (rd values i) (\<lambda>v. Inr (s @ '','' @ dec_string (unat v))))
                  (CHR ''['' # dec_string (unat v)) [1..<len]) (\<lambda>s. Inr (s @ '']'' @ newline))))"

definition d9352b73_printByteArray :: "u8 block \<Rightarrow> u32 \<Rightarrow> string result" where
  "d9352b73_printByteArray byteArray len = print_array byteArray (unat len)"

definition a4b6dbea_printShortArray :: "u16 block \<Rightarrow> u32 \<Rightarrow> string result" where
  "a4b6dbea_printShortArray shortArray len = print_array shortArray (unat len)"

subsection \<open>Lemmas\<close>

definition ua_rep :: "UnsignedIntArray \<Rightarrow> u32 list \<Rightarrow> bool" where
  "ua_rep a xs \<longleftrightarrow> (\<exists>vs. ua_values a = Some vs \<and> holds vs xs \<and> unat (ua_length a) = length xs \<and>
     length vs = unat (ua_size a) \<and> even (unat (ua_size a)) \<and> 0 < unat (ua_size a) \<and> length xs \<le> unat (ua_size a))"

lemma create_ua_rep: "\<exists>a. a8638224_createUnsignedIntArray = Inr a \<and> ua_rep a []"
  by (simp add: a8638224_createUnsignedIntArray_def A8638224_DEFAULT_SIZE_def mallocArray_small ua_rep_def fresh_def)

lemma add_ua_rep:
  assumes "ua_rep a xs" and "length xs < 2 ^ 30"
  shows "\<exists>a'. add_element a x = Inr a' \<and> ua_rep a' (xs @ [x])"
proof -
  from assms(1) obtain vs where v: "ua_values a = Some vs" "holds vs xs" "unat (ua_length a) = length xs"
    "length vs = unat (ua_size a)" "even (unat (ua_size a))" "0 < unat (ua_size a)" "length xs \<le> unat (ua_size a)"
    by (auto simp: ua_rep_def)
  have len: "unat (ua_length a + 1) = length xs + 1" using v(3) assms(2) by (simp add: unat_plus_fits)
  show ?thesis
  proof (cases "ua_length a = ua_size a")
    case False
    then have "length xs < unat (ua_size a)" using v(3,7) by (metis le_neq_implies_less unsigned_word_eqI)
    then show ?thesis
      using v False len holds_snoc [OF v(2), of x] by (auto simp: add_element_def ua_rep_def wr_ok)
  next
    case True
    let ?n = "push_bit 1 (ua_size a)"
    have size: "unat (ua_size a) = length xs" using True v(3) by simp
    have n: "unat ?n = 2 * length xs" using size assms(2) size_shl [of "ua_size a"] by simp
    have "f668c4bd_resizeArray (Some vs) (ua_length a) 4 (unat ?n) =
        Inr (vs @ fresh (length xs))"
      using v size n assms(2) True
      by (auto simp: f668c4bd_resizeArray_def alloc_size_small copied_cells4 blit_def fresh_def elim!: evenE)
    moreover have "holds ((vs @ fresh (length xs))[length xs := Some x]) (xs @ [x])"
      using v(2,4,6) size by (intro holds_snoc) (auto simp: holds_iff_nth nth_append fresh_def)
    ultimately show ?thesis
      using v True len n size by (auto simp: add_element_def ua_rep_def wr_ok fresh_def Suc_le_eq)
  qed
qed

text \<open>Any list of values can be added one by one; the array then holds them in order.\<close>

lemma add_values:
  "ua_rep a xs \<Longrightarrow> length xs + length ys \<le> 2 ^ 30 \<Longrightarrow>
   \<exists>a'. fold_result a8638224_add (Some a) ys = Inr (Some a') \<and> ua_rep a' (xs @ ys)"
proof (induction ys arbitrary: a xs)
  case (Cons y ys)
  from add_ua_rep [OF Cons.prems(1), of y] Cons.prems(2) obtain a1 where
    a1: "add_element a y = Inr a1" "ua_rep a1 (xs @ [y])" by auto
  from Cons.IH [OF a1(2)] Cons.prems(2) a1(1) show ?case by (simp add: a8638224_add_def)
qed simp

text \<open>The printed text, as a function of the values.\<close>

fun listed :: "nat list \<Rightarrow> string" where
  "listed [] = []"
| "listed [n] = dec_string n"
| "listed (n # m # ns) = dec_string n @ '','' @ listed (m # ns)"

lemma listed_snoc: "ns \<noteq> [] \<Longrightarrow> listed (ns @ [n]) = listed ns @ '','' @ dec_string n"
  by (induction ns rule: listed.induct) auto

lemma print_array_holds:
  assumes "holds values xs"
  shows "print_array values (length xs) = Inr (''['' @ listed (map unat xs) @ '']'' @ newline)"
proof (cases xs)
  case (Cons x ys)
  have "fold_result (\<lambda>s i. bnd (rd values i) (\<lambda>v. Inr (s @ '','' @ dec_string (unat v))))
      (CHR ''['' # dec_string (unat x)) [1..<n] = Inr (''['' @ listed (map unat (take n xs)))"
    if "0 < n" "n \<le> length xs" for n
    using that
  proof (induction n)
    case (Suc n)
    show ?case
    proof (cases "n = 0")
      case True
      then show ?thesis using Cons by simp
    next
      case False
      have "rd values n = Inr (xs ! n)" using assms Suc.prems by (intro holds_rd) simp_all
      moreover have "take n xs \<noteq> []" using False Cons by simp
      ultimately show ?thesis
        using Suc False by (simp add: fold_result_append take_Suc_conv_app_nth listed_snoc)
    qed
  qed simp
  from this [of "length xs"] holds_rd [OF assms, of 0] Cons show ?thesis by (simp add: print_array_def)
qed (simp add: print_array_def)

end
