(* ===== verification/IPv4Text.thy ===== *)
theory IPv4Text
  imports NetworkDevice
begin

text \<open>
  net/ipv4address.linux-x86_64.asm: IPv4 addresses from and to text, and the masks of their networks. The texts
  pass through registers, eight or four chars at a time: a register is the list of the chars that are left in it, low byte
  first, and shifting lets NULs in. Words in memory are little endian, so the first octet of an address is the low byte.
\<close>

unbundle bit_operations_syntax

subsection \<open>Parsing\<close>

definition reg_char :: "string \<Rightarrow> char" where
  "reg_char reg = (case reg of [] \<Rightarrow> NUL | ch # _ \<Rightarrow> ch)"

text \<open>A digit more: AX is the low byte times ten, then the digit is added to the low byte without a carry.\<close>

definition next_digit :: "u16 \<Rightarrow> char \<Rightarrow> u16" where
  "next_digit ax ch =
     (let m = (ax AND 0xFF) * 10
      in (m AND 0xFF00) OR ucast ((ucast m :: u8) + (of_char ch - 0x30)))"

text \<open>
  One to three digits; no result when the first char is no digit or a later one is greater than a nine. AX, the rest of
  the register and the count of chars. (The high byte of AX is stale when an octet has one digit; only the low byte
  of octets is used.)
\<close>

definition convertStringToOctet :: "string \<Rightarrow> nat \<Rightarrow> (u16 \<times> string \<times> nat) option" where
  "convertStringToOctet reg n =
     (let dl = reg_char reg
      in if schar dl > 57 \<or> schar dl < 48 then None
         else let ax = ucast (of_char dl - 0x30 :: u8); reg = tl reg; dl = reg_char reg
              in if schar dl > 57 then None
                 else if schar dl < 48 then Some (ax, reg, n + 1)
                 else let ax = next_digit ax dl; reg = tl reg; dl = reg_char reg
                      in if schar dl > 57 then None
                         else if schar dl < 48 then Some (ax, reg, n + 2)
                         else Some (next_digit ax dl, tl reg, n + 3))"

definition octet_and_dot :: "string \<Rightarrow> nat \<Rightarrow> (u16 \<times> string \<times> nat) option" where
  "octet_and_dot reg n =
     Option.bind (convertStringToOctet reg n) (\<lambda>(ax, reg, n).
     if reg_char reg = CHR ''.'' then Some (ax, tl reg, n + 1) else None)"

definition bswap :: "u32 \<Rightarrow> u32" where
  "bswap w = ucast (or_bytes 0 (rev (le32 w)))"

definition accumulate :: "u32 \<Rightarrow> u16 \<Rightarrow> u32" where
  "accumulate r9 ax = push_bit 8 r9 OR ucast (ucast ax :: u8)"

text \<open>The address in memory order and the suffix, 0 when there is none.\<close>

definition parse_ipv4 :: "string \<Rightarrow> (u32 \<times> u32) option" where
  "parse_ipv4 s =
     Option.bind (octet_and_dot (take 8 s) 0) (\<lambda>(a, reg, n).
     Option.bind (octet_and_dot reg n) (\<lambda>(b, _, n).
     let s = drop n s
     in Option.bind (octet_and_dot (take 8 s) 0) (\<lambda>(c, reg, n).
        Option.bind (convertStringToOctet reg n) (\<lambda>(d, reg, n).
        let r9 = bswap (accumulate (accumulate (accumulate (accumulate 0 a) b) c) d)
        in if reg_char reg = NUL then Some (r9, 0)
           else if reg_char reg \<noteq> CHR ''/'' then None
           else Option.bind (convertStringToOctet (if n + 1 > 6 then take 4 (drop (n + 1) s) else tl reg) (n + 1))
                  (\<lambda>(ax, reg, n).
                if reg_char reg \<noteq> NUL \<or> (ucast ax :: u8) > 0x20 then None
                else if (ucast ax :: u8) = 0 then Some (r9, 0)
                else Some (r9, ucast ax))))))"

subsection \<open>Masks\<close>

definition subnet_mask :: "u32 \<Rightarrow> u32" where
  "subnet_mask cidrSuffix =
     (let ecx = 32 - cidrSuffix
      in if ecx = 0 then - 1 else bswap (NOT (push_bit (unat (ecx AND 31)) 1 - 1)))"

definition e1e7e8f5_deriveSubnetMask :: "IPv4Address \<Rightarrow> IPv4Address result" where
  "e1e7e8f5_deriveSubnetMask ip =
     (case (ip4_address ip, ip4_cidrSuffix ip) of
        (Some address, Some cidrSuffix) \<Rightarrow>
          let mask = subnet_mask cidrSuffix
          in Inr (ip\<lparr>ip4_subnetMask := Some mask, ip4_routingPrefix := Some (address AND mask)\<rparr>)
      | _ \<Rightarrow> Inl Uninitialised)"

text \<open>Without a suffix the mask and the prefix stay as they were.\<close>

definition e1e7e8f5_initIPv4Address :: "IPv4Address \<Rightarrow> string \<Rightarrow> (u32 \<times> IPv4Address) result" where
  "e1e7e8f5_initIPv4Address ip ipAddress =
     (case parse_ipv4 ipAddress of
        None \<Rightarrow> Inr (- 1, ip)
      | Some (address, cidrSuffix) \<Rightarrow>
          let ip = ip\<lparr>ip4_address := Some address, ip4_cidrSuffix := Some cidrSuffix\<rparr>
          in if cidrSuffix = 0 then Inr (0, ip) else bnd (e1e7e8f5_deriveSubnetMask ip) (\<lambda>ip. Inr (0, ip)))"

text \<open>On an error the pointer that is returned is the error code, zero-extended: the left alternative.\<close>

definition e1e7e8f5_createIPv4Address :: "string \<Rightarrow> (u32 + IPv4Address) result" where
  "e1e7e8f5_createIPv4Address ipAddress =
     (let ip = \<lparr>ip4_address = None, ip4_cidrSuffix = None, ip4_subnetMask = None, ip4_routingPrefix = None\<rparr>
      in bnd (e1e7e8f5_initIPv4Address ip ipAddress) (\<lambda>(status, ip).
         Inr (if status = 0 then Inr ip else Inl status)))"

subsection \<open>Printing\<close>

text \<open>The division of AX by ten into AL and AH, which faults when the quotient is too large.\<close>

definition div10 :: "u16 \<Rightarrow> (u8 \<times> u8) result" where
  "div10 ax = (if ax div 10 > 255 then Inl Abort else Inr (ucast (ax div 10), ucast (ax mod 10)))"

definition digit_char :: "u8 \<Rightarrow> char" where
  "digit_char d = char_of (unat (d + 0x30))"

text \<open>
  The text is built in the four bytes of ECX from its last char on; what is in them already moves up and is written
  behind the text. The rest is the buffer and the place behind the text in it.
\<close>

definition put_digit :: "u8 \<Rightarrow> string \<times> nat \<Rightarrow> string \<times> nat" where
  "put_digit d = (\<lambda>(ecx, n). (take 4 (digit_char d # ecx), n + 1))"

definition split_digit :: "bool \<Rightarrow> u16 \<times> string \<times> nat \<Rightarrow> (u16 \<times> string \<times> nat) result" where
  "split_digit wanted = (\<lambda>(ax, ecx, n).
     if wanted then bnd (div10 ax) (\<lambda>(q, r). Inr (ucast q, put_digit r (ecx, n))) else Inr (ax, ecx, n))"

definition convertOctetToString ::
    "u16 \<Rightarrow> char \<Rightarrow> string \<times> char block \<times> nat \<Rightarrow> (string \<times> char block \<times> nat) result" where
  "convertOctetToString ax r9b = (\<lambda>(ecx, buffer, rdx).
     let al = ucast ax :: u8
     in bnd (split_digit (al \<ge> 100) (ax, r9b # tl ecx, 1)) (\<lambda>st.
        bnd (split_digit (al \<ge> 10) st) (\<lambda>(ax, st).
        let (ecx, n) = put_digit (ucast ax) st
        in bnd (blit (map Some ecx) 0 4 buffer rdx) (\<lambda>buffer. Inr (ecx, buffer, rdx + n)))))"

datatype IPv4StringType = IPV4_ADDR | IVP4_CIDR_SUFFIX | IPV4_SUBNET | IPV4_ROUTE

fun type_value :: "IPv4StringType \<Rightarrow> u32" where
  "type_value IPV4_ADDR = 0"
| "type_value IVP4_CIDR_SUFFIX = 256"
| "type_value IPV4_SUBNET = 2"
| "type_value IPV4_ROUTE = 259"

text \<open>The low byte is the index of the word to print, the others say whether the suffix follows.\<close>

definition word_at :: "IPv4Address \<Rightarrow> nat \<Rightarrow> u32 result" where
  "word_at ip i =
     bnd (if i < 4 then Inr ([ip4_address ip, ip4_cidrSuffix ip, ip4_subnetMask ip, ip4_routingPrefix ip] ! i)
          else Inl OutOfBounds) (\<lambda>c.
     case c of None \<Rightarrow> Inl Uninitialised | Some w \<Rightarrow> Inr w)"

definition e1e7e8f5_extractString :: "IPv4Address \<Rightarrow> IPv4StringType \<Rightarrow> char block \<Rightarrow> (char block \<times> nat) result" where
  "e1e7e8f5_extractString ip strType buffer =
     (let suffix = drop_bit 8 (type_value strType) \<noteq> 0;
          octet = \<lambda>w. ucast (w AND 0xFF) :: u16
      in bnd (word_at ip (unat (type_value strType AND 0xFF))) (\<lambda>w.
         bnd (convertOctetToString (octet w) CHR ''.'' (replicate 4 NUL, buffer, 0)) (\<lambda>st.
         bnd (convertOctetToString (octet (drop_bit 8 w)) CHR ''.'' st) (\<lambda>st.
         bnd (convertOctetToString (octet (drop_bit 16 w)) CHR ''.'' st) (\<lambda>st.
         let r11 = ucast (drop_bit 24 w) :: u16
         in if suffix then
              bnd (convertOctetToString r11 CHR ''/'' st) (\<lambda>st.
              bnd (word_at ip 1) (\<lambda>cidrSuffix.
              bnd (convertOctetToString (ucast cidrSuffix) NUL st) (\<lambda>(_, buffer, rdx). Inr (buffer, rdx))))
            else bnd (convertOctetToString r11 NUL st) (\<lambda>(_, buffer, rdx). Inr (buffer, rdx)))))))"

text \<open>What is returned is the place where the printing ended, not the start of the new buffer.\<close>

definition e1e7e8f5_toString :: "IPv4Address \<Rightarrow> IPv4StringType \<Rightarrow> (char block \<times> nat) result" where
  "e1e7e8f5_toString ip strType = e1e7e8f5_extractString ip strType (fresh 20)"

subsection \<open>Lemmas on parsing\<close>

lemma digit_char_facts:
  assumes "d < 10"
  shows "48 \<le> schar (ascii_digit d)" "schar (ascii_digit d) \<le> 57" "ascii_digit d \<noteq> NUL"
    "digit_char (of_nat d) = ascii_digit d" "ucast (of_char (ascii_digit d) - 0x30 :: u8) = (of_nat d :: u16)"
proof -
  have "\<forall>d \<in> set [0..<10]. 48 \<le> schar (ascii_digit d) \<and> schar (ascii_digit d) \<le> 57 \<and> ascii_digit d \<noteq> NUL \<and>
     digit_char (of_nat d) = ascii_digit d \<and> ucast (of_char (ascii_digit d) - 0x30 :: u8) = (of_nat d :: u16)"
    by code_simp
  with assms show "48 \<le> schar (ascii_digit d)" "schar (ascii_digit d) \<le> 57" "ascii_digit d \<noteq> NUL"
    "digit_char (of_nat d) = ascii_digit d" "ucast (of_char (ascii_digit d) - 0x30 :: u8) = (of_nat d :: u16)"
    by simp_all
qed

lemma next_digit_value:
  assumes "a * 10 + d < 256" and "d < 10"
  shows "next_digit (of_nat a) (ascii_digit d) = of_nat (a * 10 + d)"
proof -
  have "\<forall>a \<in> set [0..<26]. \<forall>d \<in> set [0..<10].
      a * 10 + d < 256 \<longrightarrow> next_digit (of_nat a) (ascii_digit d) = of_nat (a * 10 + d)"
    by code_simp
  with assms show ?thesis by simp
qed

lemma dec_octet:
  assumes "v < 256"
  shows "dec_string v =
    (if v < 10 then [ascii_digit v]
     else if v < 100 then [ascii_digit (v div 10), ascii_digit (v mod 10)]
     else [ascii_digit (v div 100), ascii_digit (v div 10 mod 10), ascii_digit (v mod 10)])"
proof -
  have "v div 10 < 10 \<longleftrightarrow> v < 100" "v div 10 div 10 < 10" using assms by auto
  then show ?thesis
    by (simp add: dec_string.simps [of v] dec_string.simps [of "v div 10"] dec_string.simps [of "v div 100"]
        div_mult2_eq [symmetric])
qed

lemma convert_octet:
  assumes "v < 256" and "schar (reg_char rest) < 48"
  shows "convertStringToOctet (dec_string v @ rest) n = Some (of_nat v, rest, n + length (dec_string v))"
proof -
  have step: "next_digit (of_nat (v div 10)) (ascii_digit (v mod 10)) = of_nat v"
    using next_digit_value [of "v div 10" "v mod 10"] assms(1) by simp
  consider "v < 10" | "10 \<le> v" "v < 100" | "100 \<le> v" by linarith
  then show ?thesis
  proof cases
    case 1
    with assms digit_char_facts [of v] show ?thesis
      by (simp add: dec_octet convertStringToOctet_def reg_char_def Let_def)
  next
    case 2
    then have h: "v div 10 < 10" by linarith
    from 2 assms digit_char_facts [OF h] digit_char_facts [of "v mod 10"] step show ?thesis
      by (simp add: dec_octet convertStringToOctet_def reg_char_def Let_def)
  next
    case 3
    have h: "v div 100 < 10" using assms(1) by linarith
    have "v div 100 * 10 + v div 10 mod 10 = v div 10" using div_mult_mod_eq [of "v div 10" 10] by (simp add: div_mult2_eq [symmetric])
    then have "next_digit (of_nat (v div 100)) (ascii_digit (v div 10 mod 10)) = of_nat (v div 10)"
      using next_digit_value [of "v div 100" "v div 10 mod 10"] assms(1) by simp
    with 3 assms digit_char_facts [OF h] digit_char_facts [of "v div 10 mod 10"]
      digit_char_facts [of "v mod 10"] step show ?thesis
      by (simp add: dec_octet convertStringToOctet_def reg_char_def Let_def)
  qed
qed

lemma octet_length: "v < 256 \<Longrightarrow> length (dec_string v) \<le> 3 \<and> 0 < length (dec_string v)"
  by (simp add: dec_octet)

lemma octet_and_dot_value:
  "v < 256 \<Longrightarrow> octet_and_dot (dec_string v @ CHR ''.'' # rest) n = Some (of_nat v, rest, n + length (dec_string v) + 1)"
  using convert_octet [of v "CHR ''.'' # rest" n] by (simp add: octet_and_dot_def reg_char_def schar_def)

lemma le32_bswap: "le32 (bswap w) = rev (le32 w)"
  by (simp add: bswap_def or_bytes_le32)

lemma le32_accumulate:
  "le32 (accumulate (accumulate (accumulate (accumulate 0 a) b) c) d) = [ucast d, ucast c, ucast b, ucast a]"
proof -
  have "\<not> bit (x :: u8) (8 + n)" "\<not> bit (x :: u8) (16 + n)" "\<not> bit (x :: u8) (24 + n)" for x n
    by (auto dest: bit_imp_le_length)
  then show ?thesis
    unfolding le32_def accumulate_def by (auto intro!: bit_word_eqI simp: bit_simps)
qed

text \<open>The text of an address, and the suffix that may follow.\<close>

definition address_text :: "nat \<Rightarrow> nat \<Rightarrow> nat \<Rightarrow> nat \<Rightarrow> string" where
  "address_text a b c d = dec_string a @ CHR ''.'' # dec_string b @ CHR ''.'' # dec_string c @ CHR ''.'' # dec_string d"

definition suffix_text :: "nat \<Rightarrow> string" where
  "suffix_text n = (if n = 0 then [] else CHR ''/'' # dec_string n)"

lemma ucast_octet: "v < 256 \<Longrightarrow> ucast (of_nat v :: u16) = (of_nat v :: u8)"
  by (simp add: unsigned_of_nat take_bit_nat_eq_self)

lemma parse_ipv4_text:
  assumes "a < 256" "b < 256" "c < 256" "d < 256" "n \<le> 32"
  shows "\<exists>address. parse_ipv4 (address_text a b c d @ suffix_text n) = Some (address, of_nat n) \<and>
           le32 address = [of_nat a, of_nat b, of_nat c, of_nat d]"
proof -
  let ?r9 = "bswap (accumulate (accumulate (accumulate (accumulate 0 (of_nat a)) (of_nat b)) (of_nat c)) (of_nat d))"
  let ?t = "dec_string c @ CHR ''.'' # dec_string d @ suffix_text n"
  let ?k = "length (dec_string c) + length (dec_string d) + 1"
  note lens = octet_length [OF assms(1)] octet_length [OF assms(2)] octet_length [OF assms(3)] octet_length [OF assms(4)]
  have "length (dec_string b) \<le> 7 - length (dec_string a)" using lens by linarith
  then have "take 8 (dec_string a @ CHR ''.'' # dec_string b @ CHR ''.'' # ?t) =
      dec_string a @ CHR ''.'' # dec_string b @ CHR ''.'' # take (6 - length (dec_string a) - length (dec_string b)) ?t"
    using lens by (simp add: take_Cons')
  then have 1: "octet_and_dot (take 8 (address_text a b c d @ suffix_text n)) 0 =
      Some (of_nat a, dec_string b @ CHR ''.'' # take (6 - length (dec_string a) - length (dec_string b)) ?t,
        length (dec_string a) + 1)"
    using assms(1) by (simp add: address_text_def octet_and_dot_value)
  have 2: "drop (length (dec_string a) + 1 + length (dec_string b) + 1) (address_text a b c d @ suffix_text n) = ?t"
    by (simp add: address_text_def)
  have less: "length (dec_string d) \<le> 7 - length (dec_string c)" using lens by linarith
  have 3: "take 8 ?t = dec_string c @ CHR ''.'' # dec_string d @ take (8 - ?k) (suffix_text n)"
    using lens less by (simp add: take_Cons')
  have short: "length (dec_string n) \<le> 2" using assms(5) by (simp add: dec_octet)
  have "schar (reg_char (take (8 - ?k) (suffix_text n))) < 48"
    using lens by (cases "8 - ?k") (auto simp: suffix_text_def reg_char_def schar_def)
  then have 4: "convertStringToOctet (dec_string d @ take (8 - ?k) (suffix_text n)) (length (dec_string c) + 1) =
      Some (of_nat d, take (8 - ?k) (suffix_text n), ?k)"
    using convert_octet [OF assms(4), of _ "length (dec_string c) + 1"] by (simp add: add.commute)
  have addr: "le32 ?r9 = [of_nat a, of_nat b, of_nat c, of_nat d]"
    using assms by (simp add: le32_bswap le32_accumulate ucast_octet)
  show ?thesis
  proof (cases "n = 0")
    case True
    then show ?thesis
      using assms(2,3) 1 2 3 4 addr
      by (simp add: parse_ipv4_def octet_and_dot_value Let_def suffix_text_def reg_char_def)
  next
    case False
    have slash: "take (8 - ?k) (suffix_text n) = CHR ''/'' # take (7 - ?k) (dec_string n)"
    proof -
      have "8 - ?k = Suc (7 - ?k)" using lens by linarith
      then show ?thesis using False by (simp only: suffix_text_def if_False take_Suc_Cons)
    qed
    have reg: "(if ?k + 1 > 6 then take 4 (drop (?k + 1) ?t) else take (7 - ?k) (dec_string n)) = dec_string n"
      using short False by (simp add: suffix_text_def)
    have 5: "convertStringToOctet (dec_string n) (?k + 1) = Some (of_nat n, [], ?k + 1 + length (dec_string n))"
      using convert_octet [of n "[]" "?k + 1"] assms(5) by (simp add: reg_char_def schar_def)
    have "(ucast (of_nat n :: u16) :: u8) = of_nat n" "(of_nat n :: u8) \<le> 0x20" "(of_nat n :: u8) \<noteq> 0"
      "ucast (of_nat n :: u16) = (of_nat n :: u32)"
      using False assms(5)
      by (simp_all add: ucast_octet word_le_nat_alt of_nat_inverse unsigned_of_nat take_bit_nat_eq_self word_unat_eq_iff)
    note suffix = this
    have "parse_ipv4 (address_text a b c d @ suffix_text n) =
        Option.bind (convertStringToOctet (dec_string n) (?k + 1)) (\<lambda>(ax, reg, n).
          if reg_char reg \<noteq> NUL \<or> (ucast ax :: u8) > 0x20 then None
          else if (ucast ax :: u8) = 0 then Some (?r9, 0) else Some (?r9, ucast ax))"
      unfolding parse_ipv4_def Let_def 1 Option.bind.simps prod.case octet_and_dot_value [OF assms(2)] 2 3
        octet_and_dot_value [OF assms(3)] add_0 4
      unfolding Option.bind.simps prod.case slash list.sel reg
      by (simp add: reg_char_def)
    with 5 suffix addr show ?thesis by (simp add: reg_char_def)
  qed
qed

subsection \<open>Lemmas on printing\<close>

lemma div10_value: "v < 2560 \<Longrightarrow> div10 (of_nat v) = Inr (of_nat (v div 10), of_nat (v mod 10))"
proof -
  assume v: "v < 2560"
  have "(of_nat v :: u16) div 10 = of_nat (v div 10)" "(of_nat v :: u16) mod 10 = of_nat (v mod 10)"
    using v by (simp_all add: word_unat_eq_iff unat_div unat_mod unat_of_nat take_bit_nat_eq_self)
  moreover have "\<not> (of_nat (v div 10) :: u16) > 255"
    using v by (simp add: word_less_nat_alt of_nat_inverse)
  moreover have "ucast (of_nat (v div 10) :: u16) = (of_nat (v div 10) :: u8)"
    "ucast (of_nat (v mod 10) :: u16) = (of_nat (v mod 10) :: u8)"
    using v by (simp_all add: ucast_octet)
  ultimately show ?thesis by (simp add: div10_def)
qed

text \<open>An octet and the char behind it are appended to the text that the buffer holds.\<close>

lemma convertOctetToString_value:
  assumes "v < 256" and "length ecx = 4" and "4 \<le> length rest"
  shows "\<exists>ecx' rest'. convertOctetToString (of_nat v) r9b (ecx, map Some pre @ rest, length pre) =
           Inr (ecx', map Some (pre @ dec_string v @ [r9b]) @ rest', length (pre @ dec_string v @ [r9b])) \<and>
           length ecx' = 4 \<and> length (dec_string v) + 1 + length rest' = length rest"
proof -
  obtain e0 e1 e2 e3 where e: "ecx = [e0, e1, e2, e3]" using assms(2) by (auto simp: length_Suc_conv numeral_eq_Suc)
  have b: "blit [Some w, Some x, Some y, Some z] 0 4 (map Some pre @ rest) (length pre) =
      Inr (map Some pre @ [Some w, Some x, Some y, Some z] @ drop 4 rest)" for w x y z
    using assms(3) by (simp add: blit_def)
  have al: "(ucast (of_nat v :: u16) :: u8) = of_nat v" using assms(1) by (rule ucast_octet)
  have cmp: "(of_nat v :: u8) \<ge> 100 \<longleftrightarrow> 100 \<le> v" "(of_nat v :: u8) \<ge> 10 \<longleftrightarrow> 10 \<le> v"
    using assms(1) by (simp_all add: word_le_nat_alt of_nat_inverse)
  have w: "(ucast (of_nat x :: u8) :: u16) = of_nat x" if "x < 256" for x
    using that by (simp add: unsigned_of_nat take_bit_nat_eq_self)
  consider "v < 10" | "10 \<le> v" "v < 100" | "100 \<le> v" by linarith
  then show ?thesis
  proof cases
    case 1
    then show ?thesis
      using assms digit_char_facts(4) [of v]
      by (simp add: convertOctetToString_def al cmp split_digit_def put_digit_def e b dec_octet)
  next
    case 2
    have h: "v div 10 < 10" using 2 by linarith
    show ?thesis
      using 2 assms digit_char_facts(4) [OF h] digit_char_facts(4) [of "v mod 10"]
      by (simp add: convertOctetToString_def al cmp split_digit_def put_digit_def e b dec_octet div10_value w ucast_octet)
  next
    case 3
    have h: "v div 100 < 10" using assms(1) by linarith
    show ?thesis
      using 3 assms digit_char_facts(4) [OF h] digit_char_facts(4) [of "v mod 10"] digit_char_facts(4) [of "v div 10 mod 10"]
      by (simp add: convertOctetToString_def al cmp split_digit_def put_digit_def e b dec_octet div10_value w ucast_octet
          div_mult2_eq [symmetric])
  qed
qed

lemma octets_of_word:
  assumes "le32 w = [of_nat a, of_nat b, of_nat c, of_nat d]" and "a < 256" "b < 256" "c < 256" "d < 256"
  shows "(ucast (w AND 0xFF) :: u16) = of_nat a" "(ucast (drop_bit 8 w AND 0xFF) :: u16) = of_nat b"
    "(ucast (drop_bit 16 w AND 0xFF) :: u16) = of_nat c" "(ucast (drop_bit 24 w) :: u16) = of_nat d"
proof -
  have m: "(ucast (x AND 0xFF) :: u16) = ucast (ucast x :: u8)" for x :: u32
  proof -
    have "(0xFF :: u32) = mask 8" by (simp add: mask_eq_exp_minus_1)
    show ?thesis unfolding \<open>0xFF = mask 8\<close> by (intro bit_word_eqI) (auto simp: bit_simps)
  qed
  have h: "(ucast (drop_bit 24 w) :: u16) = ucast (ucast (drop_bit 24 w) :: u8)"
    by (rule bit_word_eqI) (auto simp: bit_simps dest: bit_imp_le_length)
  have u: "(ucast (of_nat x :: u8) :: u16) = of_nat x" if "x < 256" for x
    using that by (simp add: unsigned_of_nat take_bit_nat_eq_self)
  show "(ucast (w AND 0xFF) :: u16) = of_nat a" "(ucast (drop_bit 8 w AND 0xFF) :: u16) = of_nat b"
    "(ucast (drop_bit 16 w AND 0xFF) :: u16) = of_nat c" "(ucast (drop_bit 24 w) :: u16) = of_nat d"
    unfolding m h using assms by (simp_all add: le32_def u)
qed

lemma extractString_value:
  assumes w: "le32 w = [of_nat a, of_nat b, of_nat c, of_nat d]" and "a < 256" "b < 256" "c < 256" "d < 256"
    and ip: "ip4_address ip = Some w" and "20 \<le> length buffer"
    and t: "t = IPV4_ADDR \<and> n = 0 \<or> t = IVP4_CIDR_SUFFIX \<and> 0 < n \<and> n < 256 \<and> ip4_cidrSuffix ip = Some (of_nat n)"
  shows "\<exists>rest. e1e7e8f5_extractString ip t buffer =
    Inr (map Some (address_text a b c d @ suffix_text n @ [NUL]) @ rest, length (address_text a b c d @ suffix_text n @ [NUL]))"
proof -
  note lens = octet_length [OF assms(2)] octet_length [OF assms(3)] octet_length [OF assms(4)] octet_length [OF assms(5)]
  note octets = octets_of_word [OF assms(1-5)]
  have "4 \<le> length buffer" using assms(7) by simp
  from convertOctetToString_value [OF assms(2) _ this, of "replicate 4 NUL" "CHR ''.''" "[]"] obtain e1 r1 where
    1: "convertOctetToString (of_nat a) CHR ''.'' (replicate 4 NUL, buffer, 0) =
         Inr (e1, map Some (dec_string a @ [CHR ''.'']) @ r1, length (dec_string a @ [CHR ''.'']))"
    "length e1 = 4" "length (dec_string a) + 1 + length r1 = length buffer" by auto
  have "4 \<le> length r1" using 1(3) lens assms(7) by linarith
  from convertOctetToString_value [OF assms(3) 1(2) this, of "CHR ''.''" "dec_string a @ [CHR ''.'']"] obtain e2 r2 where
    2: "convertOctetToString (of_nat b) CHR ''.'' (e1, map Some (dec_string a @ [CHR ''.'']) @ r1, length (dec_string a @ [CHR ''.''])) =
         Inr (e2, map Some ((dec_string a @ [CHR ''.'']) @ dec_string b @ [CHR ''.'']) @ r2,
            length ((dec_string a @ [CHR ''.'']) @ dec_string b @ [CHR ''.'']))"
    "length e2 = 4" "length (dec_string b) + 1 + length r2 = length r1" by auto
  let ?ab = "(dec_string a @ [CHR ''.'']) @ dec_string b @ [CHR ''.'']"
  have "4 \<le> length r2" using 1(3) 2(3) lens assms(7) by linarith
  from convertOctetToString_value [OF assms(4) 2(2) this, of "CHR ''.''" ?ab] obtain e3 r3 where
    3: "convertOctetToString (of_nat c) CHR ''.'' (e2, map Some ?ab @ r2, length ?ab) =
         Inr (e3, map Some (?ab @ dec_string c @ [CHR ''.'']) @ r3, length (?ab @ dec_string c @ [CHR ''.'']))"
    "length e3 = 4" "length (dec_string c) + 1 + length r3 = length r2" by auto
  let ?abc = "?ab @ dec_string c @ [CHR ''.'']"
  have "4 \<le> length r3" using 1(3) 2(3) 3(3) lens assms(7) by linarith
  note fourth = convertOctetToString_value [OF assms(5) 3(2) this, of _ ?abc]
  show ?thesis
  proof (cases "t = IPV4_ADDR")
    case True
    obtain e4 r4 where "convertOctetToString (of_nat d) NUL (e3, map Some ?abc @ r3, length ?abc) =
         Inr (e4, map Some (?abc @ dec_string d @ [NUL]) @ r4, length (?abc @ dec_string d @ [NUL]))"
      using fourth [of NUL] by auto
    with 1(1) 2(1) 3(1) True t ip show ?thesis
      by (simp add: e1e7e8f5_extractString_def Let_def word_at_def octets address_text_def suffix_text_def)
  next
    case False
    with t have n: "t = IVP4_CIDR_SUFFIX" "0 < n" "n < 256" "ip4_cidrSuffix ip = Some (of_nat n)" by auto
    obtain e4 r4 where 4: "convertOctetToString (of_nat d) CHR ''/'' (e3, map Some ?abc @ r3, length ?abc) =
         Inr (e4, map Some (?abc @ dec_string d @ [CHR ''/'']) @ r4, length (?abc @ dec_string d @ [CHR ''/'']))"
      "length e4 = 4" "length (dec_string d) + 1 + length r4 = length r3"
      using fourth [of "CHR ''/''"] by auto
    have "4 \<le> length r4" using 1(3) 2(3) 3(3) 4(3) lens assms(7) by linarith
    from convertOctetToString_value [OF n(3) 4(2) this, of NUL "?abc @ dec_string d @ [CHR ''/'']"] obtain e5 r5 where
      5: "convertOctetToString (of_nat n) NUL (e4, map Some (?abc @ dec_string d @ [CHR ''/'']) @ r4, length (?abc @ dec_string d @ [CHR ''/''])) =
         Inr (e5, map Some ((?abc @ dec_string d @ [CHR ''/'']) @ dec_string n @ [NUL]) @ r5,
           length ((?abc @ dec_string d @ [CHR ''/'']) @ dec_string n @ [NUL]))" by auto
    have "ucast (of_nat n :: u32) = (of_nat n :: u16)" using n(3) by (simp add: unsigned_of_nat take_bit_nat_eq_self)
    with 1(1) 2(1) 3(1) 4(1) 5 n ip show ?thesis
      by (simp add: e1e7e8f5_extractString_def Let_def word_at_def octets address_text_def suffix_text_def)
  qed
qed

subsection \<open>Masks\<close>

lemma bswap_bswap: "bswap (bswap w) = w"
  using le32_bswap [of "bswap w"] le32_bswap [of w] by (simp add: le32_inject [symmetric])

text \<open>In host order the mask has the high \<open>n\<close> bits.\<close>

lemma subnet_mask_bits:
  assumes "0 < n" "n \<le> 32" and "i < 32"
  shows "bit (bswap (subnet_mask (of_nat n))) i \<longleftrightarrow> 32 - n \<le> i"
proof (cases "n = 32")
  case True
  have "bswap (- 1) = - 1" by code_simp
  with True assms(3) show ?thesis by (simp add: subnet_mask_def)
next
  case False
  let ?ecx = "32 - of_nat n :: u32"
  have ecx: "?ecx = of_nat (32 - n)" using assms(2) by (simp add: of_nat_diff)
  have u: "unat (of_nat (32 - n) :: u32) = 32 - n" using assms by (intro of_nat_inverse [OF refl]) simp
  have "of_nat (32 - n) AND 31 = (of_nat (32 - n) :: u32)"
  proof -
    have "(31 :: u32) = mask 5" by (simp add: mask_eq_exp_minus_1)
    moreover have "take_bit 5 (of_nat (32 - n) :: u32) = of_nat (32 - n)"
      using assms(1) by (simp add: word_unat_eq_iff unsigned_take_bit_eq u take_bit_nat_eq_self del: of_nat_diff)
    ultimately show ?thesis by (simp only: take_bit_eq_mask)
  qed
  then have k: "unat (?ecx AND 31) = 32 - n" by (simp only: ecx u)
  have "unat ?ecx \<noteq> 0" using False assms(2) by (simp only: ecx u)
  then have "?ecx \<noteq> 0" by (metis unsigned_0)
  moreover have "push_bit (32 - n) 1 - 1 = (mask (32 - n) :: u32)" by (simp add: mask_eq_exp_minus_1 push_bit_eq_mult)
  ultimately show ?thesis
    using assms(3) by (simp add: subnet_mask_def k bswap_bswap bit_not_iff bit_mask_iff not_less Let_def)
qed

lemma address_no_NUL: "NUL \<notin> set (address_text a b c d @ suffix_text n)"
  using dec_string_no_NUL by (simp add: address_text_def suffix_text_def)

subsection \<open>Defects\<close>

text \<open>Octets are taken modulo 256, and suffixes are checked by their low byte only.\<close>

lemma octets_wrap:
  "parse_ipv4 ''999.1.1.1'' = parse_ipv4 ''231.1.1.1''"
  "parse_ipv4 ''1.1.1.1/280'' = map_option (\<lambda>(w, _). (w, 280)) (parse_ipv4 ''1.1.1.1/24'')"
  by code_simp+

text \<open>When the suffix starts in the last two places of the register, nothing is read behind it.\<close>

lemma trailing_text_accepted: "parse_ipv4 ''1.1.22.22/32abc'' = parse_ipv4 ''1.1.22.22/32''"
  by code_simp

text \<open>A suffix of 0 gives the mask of a suffix of 32.\<close>

lemma mask_of_zero: "subnet_mask 0 = subnet_mask 32"
  by code_simp

text \<open>The place that toString returns is behind the text and its NUL.\<close>

lemma toString_points_behind:
  assumes "le32 w = [of_nat a, of_nat b, of_nat c, of_nat d]" and "a < 256" "b < 256" "c < 256" "d < 256"
    and "ip4_address ip = Some w"
  shows "\<exists>buffer. e1e7e8f5_toString ip IPV4_ADDR = Inr (buffer, length (address_text a b c d) + 1)"
  using extractString_value [OF assms, of "fresh 20" IPV4_ADDR 0]
  by (auto simp: e1e7e8f5_toString_def suffix_text_def fresh_def)

subsection \<open>Properties\<close>

text \<open>C14: the text of an address, with or without a suffix, is read as that address: its octets lie in memory in their
  order, the mask has as many high bits as the suffix says, the routing prefix is the masked address, and the address is
  printed as the same text again.\<close>

theorem ipv4_text_roundtrip:
  assumes "a < 256" "b < 256" "c < 256" "d < 256" "n \<le> 32" and "20 \<le> length buffer"
  shows "\<exists>ip' w. e1e7e8f5_initIPv4Address ip (address_text a b c d @ suffix_text n) = Inr (0, ip') \<and>
           ip4_address ip' = Some w \<and> le32 w = [of_nat a, of_nat b, of_nat c, of_nat d] \<and>
           (0 < n \<longrightarrow> (\<exists>mask. ip4_subnetMask ip' = Some mask \<and> ip4_routingPrefix ip' = Some (w AND mask) \<and>
              (\<forall>i < 32. bit (bswap mask) i \<longleftrightarrow> 32 - n \<le> i))) \<and>
           (\<exists>b' p. e1e7e8f5_extractString ip' (if n = 0 then IPV4_ADDR else IVP4_CIDR_SUFFIX) buffer = Inr (b', p) \<and>
              c_string b' = Inr (address_text a b c d @ suffix_text n))"
proof -
  from parse_ipv4_text [OF assms(1-5)] obtain w where w:
    "parse_ipv4 (address_text a b c d @ suffix_text n) = Some (w, of_nat n)"
    "le32 w = [of_nat a, of_nat b, of_nat c, of_nat d]" by blast
  let ?t = "if n = 0 then IPV4_ADDR else IVP4_CIDR_SUFFIX"
  have "unat (of_nat n :: u32) = n" using assms(5) by (intro of_nat_inverse [OF refl]) simp
  then have zero: "(of_nat n :: u32) = 0 \<longleftrightarrow> n = 0" by (simp only: word_unat_eq_iff unsigned_0)
  define ip' where "ip' = ip\<lparr>ip4_address := Some w, ip4_cidrSuffix := Some (of_nat n)\<rparr>"
  define ip'' where "ip'' = (if n = 0 then ip' else ip'\<lparr>ip4_subnetMask := Some (subnet_mask (of_nat n)),
      ip4_routingPrefix := Some (w AND subnet_mask (of_nat n))\<rparr>)"
  have init: "e1e7e8f5_initIPv4Address ip (address_text a b c d @ suffix_text n) = Inr (0, ip'')"
    using w(1) zero by (simp add: e1e7e8f5_initIPv4Address_def e1e7e8f5_deriveSubnetMask_def Let_def ip'_def ip''_def)
  have fields: "ip4_address ip'' = Some w" "ip4_cidrSuffix ip'' = Some (of_nat n)" by (simp_all add: ip'_def ip''_def)
  have mask: "0 < n \<longrightarrow> (\<exists>mask. ip4_subnetMask ip'' = Some mask \<and> ip4_routingPrefix ip'' = Some (w AND mask) \<and>
      (\<forall>i < 32. bit (bswap mask) i \<longleftrightarrow> 32 - n \<le> i))"
    using subnet_mask_bits [OF _ assms(5)] by (simp add: ip''_def)
  have "?t = IPV4_ADDR \<and> n = 0 \<or> ?t = IVP4_CIDR_SUFFIX \<and> 0 < n \<and> n < 256 \<and> ip4_cidrSuffix ip'' = Some (of_nat n)"
    using assms(5) fields(2) by simp
  from extractString_value [OF w(2) assms(1-4) fields(1) assms(6) this] obtain r where r:
    "e1e7e8f5_extractString ip'' ?t buffer = Inr (map Some (address_text a b c d @ suffix_text n @ [NUL]) @ r,
       length (address_text a b c d @ suffix_text n @ [NUL]))" by blast
  have "c_string (map Some (address_text a b c d @ suffix_text n @ [NUL]) @ r) = Inr (address_text a b c d @ suffix_text n)"
    using address_no_NUL holds_append_cells [of "(address_text a b c d @ suffix_text n) @ [NUL]" r]
    by (intro c_string_holds) auto
  with init fields(1) w(2) mask r show ?thesis by blast
qed

lemma ipv4_text_roundtrip_witness:
  "\<forall>ip. \<exists>ip' w. e1e7e8f5_initIPv4Address ip ''192.168.1.102/24'' = Inr (0, ip') \<and> ip4_address ip' = Some w \<and>
     le32 w = [192, 168, 1, 102]"
proof
  fix ip
  have t: "address_text 192 168 1 102 @ suffix_text 24 = ''192.168.1.102/24''" by code_simp
  from ipv4_text_roundtrip [of 192 168 1 102 24 "fresh 20" ip, unfolded t]
  show "\<exists>ip' w. e1e7e8f5_initIPv4Address ip ''192.168.1.102/24'' = Inr (0, ip') \<and> ip4_address ip' = Some w \<and>
     le32 w = [192, 168, 1, 102]" by (auto simp: fresh_def)
qed

end
