(* ===== verification/IPv6Text.thy ===== *)
theory IPv6Text
  imports IPv4Text Sockets
begin

text \<open>
  net/ipv6address.linux-x86_64.asm and net/ip-util.linux-x86_64.asm: IPv6 addresses from and to text, and the kind of an
  address. The address is sixteen bytes, two for each of the eight hextets, the high one first. The parser for
  addresses with a double colon is unfinished in the code; it is modelled as it stands.
\<close>

unbundle bit_operations_syntax

subsection \<open>net/ip-util: the kind of an address\<close>

text \<open>At most five chars are looked at.\<close>

fun detect_loop :: "nat \<Rightarrow> string \<Rightarrow> u32" where
  "detect_loop 0 reg = - 1"
| "detect_loop (Suc n) reg =
     (let cl = reg_char reg
      in if cl = NUL then - 1
         else if cl = CHR ''.'' then 4
         else if cl = CHR '':'' then 6
         else let c = schar (char_of (unat ((of_char cl :: u8) OR 0x20)))
              in if c > 0x66 then - 1 else if c < 0x61 then detect_loop n (tl reg) else 6)"

definition a25c96b2_detectIPType :: "string \<Rightarrow> u32" where
  "a25c96b2_detectIPType ipAddress = detect_loop 5 (take 8 ipAddress)"

subsection \<open>Parsing\<close>

text \<open>A digit: up to the colon the chars count from the zero on, above it they are letters; an f is refused.\<close>

definition hextet_digit :: "char \<Rightarrow> u8 option" where
  "hextet_digit ch =
     (let r8b = of_char ch :: u8
      in if r8b > 0x3A then
           let r8b = r8b OR 0x20
           in if r8b \<ge> 0x66 \<or> r8b < 0x61 then None else Some (r8b - 0x61 + 0x0A)
         else if r8b < 0x30 then None else Some (r8b - 0x30))"

text \<open>
  Up to four digits, each of which moves the register up by four bits; then a NUL, or a colon that is skipped. The
  register, the index behind, and the char that ended the hextet; or, of an invalid one, the index of the char that is refused.
\<close>

fun convertStringToHextet :: "nat \<Rightarrow> u64 \<Rightarrow> string \<Rightarrow> nat \<Rightarrow> nat + u64 \<times> nat \<times> char" where
  "convertStringToHextet 0 rax reg rsi = Inl rsi"
| "convertStringToHextet (Suc n) rax reg rsi =
     (case hextet_digit (reg_char reg) of
        None \<Rightarrow> Inl rsi
      | Some d \<Rightarrow>
          let rax = push_bit 4 rax OR ucast d; reg = tl reg; rsi = rsi + 1; ch = reg_char reg
          in if ch = NUL then Inr (rax, rsi, ch)
             else if ch = CHR '':'' then Inr (rax, rsi + 1, ch)
             else convertStringToHextet n rax reg rsi)"

definition be64 :: "u64 \<Rightarrow> u8 list" where
  "be64 w = map (\<lambda>k. ucast (drop_bit (56 - 8 * k) w)) [0..<8]"

text \<open>The bytes of the register are stored in the order of the text.\<close>

definition store_half :: "u64 \<Rightarrow> nat \<Rightarrow> IPv6Address \<Rightarrow> IPv6Address result" where
  "store_half rax i ip =
     bnd (blit (map Some (be64 rax)) 0 8 (ip6_address ip) i) (\<lambda>b. Inr (ip\<lparr>ip6_address := b\<rparr>))"

text \<open>
  Behind a double colon: the register holds the rest of the first eight chars, while the index still points to the
  colon. Nothing is stored; the status is what EAX holds. The status, and RSI.
\<close>

lemma hextet_digit_NUL: "hextet_digit NUL = None"
  by code_simp

lemma convert_progress:
  "convertStringToHextet n rax reg rsi = Inr (rax', rsi', ch) \<Longrightarrow> rsi < rsi' \<and> reg \<noteq> []"
proof (induction n rax reg rsi rule: convertStringToHextet.induct)
  case (2 n rax reg rsi)
  from 2(2) obtain d where d: "hextet_digit (reg_char reg) = Some d" by (auto split: option.splits)
  then have "reg \<noteq> []" by (auto simp: reg_char_def hextet_digit_NUL)
  moreover have "rsi < rsi'"
  proof (cases "reg_char (tl reg) = NUL \<or> reg_char (tl reg) = CHR '':''")
    case True
    with 2(2) d show ?thesis by (auto simp: Let_def split: if_splits)
  next
    case False
    with 2(2) d have "convertStringToHextet n (push_bit 4 rax OR ucast d) (tl reg) (rsi + 1) = Inr (rax', rsi', ch)"
      by (simp add: Let_def)
    from 2(1) [OF d refl refl refl refl _ _ this] False show ?thesis by simp
  qed
  ultimately show ?case by simp
qed simp

function shorthand_loop :: "string \<Rightarrow> u8 \<Rightarrow> u64 \<Rightarrow> string \<Rightarrow> nat \<Rightarrow> u32 \<times> nat" where
  "shorthand_loop s cl rax reg rsi =
     (let rax = (if cl = 4 then 0 else rax); cl = cl + 1
      in case convertStringToHextet 4 rax reg rsi of
           Inl rsi \<Rightarrow> (- 1, rsi)
         | Inr (rax, rsi, ch) \<Rightarrow>
             if cl = 6 then (if ch = NUL then ucast rax else - 1, rsi)
             else shorthand_loop s cl rax (take 8 (drop rsi s)) rsi)"
  by pat_completeness auto
termination
  by (relation "measure (\<lambda>(s, cl, rax, reg, rsi). if reg = [] then 0 else Suc (length s - rsi))")
    (auto dest!: convert_progress)

declare shorthand_loop.simps [simp del]

definition processShorthandAddress :: "string \<Rightarrow> u8 \<Rightarrow> u64 \<Rightarrow> nat \<Rightarrow> u32 \<times> nat" where
  "processShorthandAddress s cl rax rsi =
     (let reg = tl (take 8 (drop rsi s))
      in if reg_char reg = NUL then (ucast rax, rsi) else shorthand_loop s (cl + 1) rax reg rsi)"

text \<open>\<open>n\<close> hextets are left of the eight. The status, RSI and the address.\<close>

fun hextets_loop :: "string \<Rightarrow> nat \<Rightarrow> u64 \<Rightarrow> nat \<Rightarrow> IPv6Address \<Rightarrow> (u32 \<times> nat \<times> IPv6Address) result" where
  "hextets_loop s 0 rax rsi ip = bnd (store_half rax 8 ip) (\<lambda>ip. Inr (0, rsi, ip))"
| "hextets_loop s (Suc n) rax rsi ip =
     (let reg = take 8 (drop rsi s)
      in if reg_char reg = CHR '':'' then
           let (status, rsi) = processShorthandAddress s (of_nat (7 - n)) rax rsi in Inr (status, rsi, ip)
         else case convertStringToHextet 4 rax reg rsi of
                Inl rsi \<Rightarrow> Inr (- 1, rsi, ip)
              | Inr (rax, rsi, _) \<Rightarrow>
                  if n = 4 then bnd (store_half rax 0 ip) (\<lambda>ip. hextets_loop s n 0 rsi ip)
                  else hextets_loop s n rax rsi ip)"

definition b7808f25_initIPv6Address :: "IPv6Address \<Rightarrow> string \<Rightarrow> (u32 \<times> nat \<times> IPv6Address) result" where
  "b7808f25_initIPv6Address ip ipAddress = hextets_loop ipAddress 8 0 0 ip"

text \<open>The error exit gets what RSI points to then, not the text that was passed.\<close>

definition b7808f25_createIPv6Address :: "env \<Rightarrow> string \<Rightarrow> IPv6Address result" where
  "b7808f25_createIPv6Address e ipAddress =
     bnd (b7808f25_initIPv6Address \<lparr>ip6_address = fresh 16, ip6_cidrSuffix = None\<rparr> ipAddress) (\<lambda>(status, rsi, ip).
     if status = 0 then Inr ip else a25c96b2_invalidIPv6Address e (drop rsi ipAddress))"

subsection \<open>The subnet and the zero test\<close>

definition b7808f25_deriveSubnet :: "IPv6Address \<Rightarrow> IPv6Address \<Rightarrow> IPv6Address result" where
  "b7808f25_deriveSubnet ip subnet =
     bnd (read_cells (ip6_address ip) 0 8) (\<lambda>prefix.
     bnd (blit (map Some (prefix @ replicate 8 0)) 0 16 (ip6_address subnet) 0) (\<lambda>b.
     Inr (subnet\<lparr>ip6_address := b, ip6_cidrSuffix := Some 64\<rparr>)))"

definition b7808f25_isIpAddressZero :: "IPv6Address \<Rightarrow> bool result" where
  "b7808f25_isIpAddressZero ip =
     bnd (read_cells (ip6_address ip) 0 8) (\<lambda>prefix.
     if or_bytes 0 prefix \<noteq> 0 then Inr False
     else bnd (read_cells (ip6_address ip) 8 8) (\<lambda>suffix. Inr (or_bytes 0 suffix = 0)))"

subsection \<open>Printing: which hextets are left out\<close>

text \<open>
  The registers R8, R11 and RAX hold a byte for each hextet; they are lists of their bytes, low byte first. A byte of the
  mask is 1 when the hextet is not zero.
\<close>

definition nonzero_mask :: "u16 list \<Rightarrow> u8 list" where
  "nonzero_mask ws = map (\<lambda>w. if w \<noteq> 0 then 1 else 0) ws"

definition shift_byte :: "u8 list \<Rightarrow> u8 list" where "shift_byte r = tl r @ [0]"

text \<open>
  The search for the longest run of zero bytes: two bytes of R8 are tested at a time; the counter AL says how many shifts are
  left, DH and DL are the length and the start of the best run, CH and CL those of the current one. The flag
  says whether the inner loop is running.
\<close>

type_synonym search_state = "bool \<times> u8 list \<times> u8 \<times> u8 \<times> u8 \<times> u8 \<times> u8"

definition run_search :: "search_state \<Rightarrow> (search_state + u8 \<times> u8) result" where
  "run_search = (\<lambda>(inner, r8, al, dh, dl, ch, cl).
     let zeros = \<lambda>r8. take 2 r8 = [0, 0];
         check = \<lambda>r8 al ch.
           if ch > dh then if al = 0 then Inr (Inr (ch, cl)) else Inr (Inl (False, r8, al, ch, cl, ch, cl + ch))
           else Inr (Inl (False, r8, al, dh, dl, ch, cl + ch))
     in if inner then
          let ch = ch + 1
          in if al = 0 then check r8 al ch
             else let r8 = shift_byte r8; al = al - 1
                  in if zeros r8 then Inr (Inl (True, r8, al, dh, dl, ch, cl)) else check r8 al ch
        else if zeros r8 then Inr (Inl (True, r8, al, dh, dl, 1, cl))
        else if al = 0 then Inr (Inr (dh, dl))
        else Inr (Inl (False, shift_byte r8, al - 1, dh, dl, ch, cl + 1)))"

text \<open>The bytes of the run become 0xFF: two of them, one more for each further zero, moved up to the start of the run (the
  shift is taken modulo the width). Without a run every hextet is written.\<close>

definition run_bytes :: "u8 \<Rightarrow> u8 \<Rightarrow> u8 list" where
  "run_bytes dh dl =
     take 8 (replicate (unat dl mod 8) 0 @ ((\<lambda>rax. take 8 (0xFF # rax)) ^^ unat (dh - 2)) ([0xFF, 0xFF] @ replicate 6 0))"

definition reduce_bytemask :: "u8 list \<Rightarrow> u8 list result" where
  "reduce_bytemask r11 =
     bnd (repeat_until run_search (False, r11, 6, 0, 0, 0, 0)) (\<lambda>(dh, dl).
     Inr (map2 (OR) r11 (if dh = 0 then replicate 8 1 else run_bytes dh dl)))"

definition calculateShorthandBytemask :: "u16 list \<Rightarrow> u8 list result" where
  "calculateShorthandBytemask ws =
     (let r11 = nonzero_mask ws in if r11 = replicate 8 1 then Inr r11 else reduce_bytemask r11)"

subsection \<open>Printing: the text\<close>

text \<open>The SSE instructions, on one word: its last hexadecimal digit and the rest, and the digit as a char.\<close>

definition low_digit :: "u16 \<Rightarrow> u16" where
  "low_digit w = w - push_bit 4 (drop_bit 4 w)"

definition hex_char :: "u16 \<Rightarrow> u16" where
  "hex_char d = d + (if sint d < 10 then 0x30 else 0x57)"

text \<open>The low byte of a word in memory is the first half of the hextet.\<close>

definition hextet_chars :: "u16 \<Rightarrow> string" where
  "hextet_chars w =
     (let xmm8 = push_bit 8 (hex_char (low_digit w)) OR hex_char (low_digit (drop_bit 4 w));
          xmm9 = push_bit 8 (hex_char (low_digit (drop_bit 4 (drop_bit 4 w)))) OR hex_char (drop_bit 4 (drop_bit 4 (drop_bit 4 w)))
      in map (\<lambda>b. char_of (unat b)) (le16 xmm8 @ le16 xmm9))"

text \<open>
  One hextet: with its colon and without leading zeros when its byte of the mask is 1, a colon for the first of the run, and
  otherwise a NUL and a colon. More is written than is kept.
\<close>

definition processHextet :: "string \<Rightarrow> u8 \<Rightarrow> bool \<times> char block \<times> nat \<Rightarrow> (bool \<times> char block \<times> nat) result" where
  "processHextet edx m = (\<lambda>(isShorthand, buffer, rsi).
     if m = 1 then
       let rdx = dropWhile (\<lambda>ch. ch = CHR ''0'') (edx @ [CHR '':''])
       in bnd (blit (map Some (take 8 (rdx @ replicate 8 NUL))) 0 8 buffer rsi) (\<lambda>buffer.
          Inr (False, buffer, rsi + length rdx))
     else if m = 0xFF then
       if isShorthand then Inr (isShorthand, buffer, rsi)
       else bnd (blit (map Some [CHR '':'', NUL, NUL, NUL]) 0 4 buffer rsi) (\<lambda>buffer. Inr (True, buffer, rsi + 1))
     else bnd (blit (map Some [NUL, CHR '':'', NUL, NUL]) 0 4 buffer rsi) (\<lambda>buffer. Inr (isShorthand, buffer, rsi + 2)))"

text \<open>The suffix, from its last digit on; the divisions are of AX.\<close>

definition suffix_chars :: "u32 \<Rightarrow> string result" where
  "suffix_chars eax =
     (let al = ucast eax :: u8; ax = ucast eax :: u16
      in bnd (if al \<ge> 100 then bnd (div10 ax) (\<lambda>(q, r). Inr (ucast q, [digit_char r])) else Inr (ax, [])) (\<lambda>(ax, s).
         bnd (if al \<ge> 10 then bnd (div10 ax) (\<lambda>(q, r). Inr (ucast q, digit_char r # s)) else Inr (ax, s)) (\<lambda>(ax, s).
         Inr (CHR ''/'' # digit_char (ucast ax) # s))))"

definition b7808f25_extractString :: "IPv6Address \<Rightarrow> char block \<Rightarrow> char block result" where
  "b7808f25_extractString ip buffer =
     bnd (collect 8 (\<lambda>i. bnd (rd16 (ip6_address ip) (2 * i)) (\<lambda>w. Inr (w, i + 1))) 0) (\<lambda>(ws, _).
     bnd (case ip6_cidrSuffix ip of None \<Rightarrow> Inl Uninitialised | Some n \<Rightarrow> Inr n) (\<lambda>cidrSuffix.
     bnd (calculateShorthandBytemask ws) (\<lambda>r11.
     bnd (fold_result (\<lambda>st i. processHextet (hextet_chars (ws ! i)) (r11 ! i) st)
            (False, buffer, 0) [0..<8]) (\<lambda>(isShorthand, buffer, rsi).
     let rsi = (if isShorthand then rsi else rsi - 1)
     in if \<not> isShorthand \<and> cidrSuffix = 0 then blit (map Some (replicate 4 NUL)) 0 4 buffer rsi
        else bnd (suffix_chars cidrSuffix) (\<lambda>s. blit (map Some (take 8 (s @ replicate 8 NUL))) 0 8 buffer rsi)))))"

subsection \<open>Lemmas on the mask\<close>

text \<open>A loop that has ended within \<open>n\<close> rounds, which can be evaluated; and one that keeps an invariant and never leaves.\<close>

fun run_steps :: "('s \<Rightarrow> ('s + 'r) result) \<Rightarrow> nat \<Rightarrow> 's \<Rightarrow> 'r result option" where
  "run_steps body 0 s = None"
| "run_steps body (Suc n) s =
     (case body s of Inl e \<Rightarrow> Some (Inl e) | Inr (Inl s') \<Rightarrow> run_steps body n s' | Inr (Inr r) \<Rightarrow> Some (Inr r))"

lemma run_steps_repeat: "run_steps body n s = Some r \<Longrightarrow> repeat_until body s = r"
  by (induction n arbitrary: s) (auto simp: repeat_until_unfold [of body] split: sum.splits)

lemma repeat_until_forever:
  assumes "P s" and "\<And>s. P s \<Longrightarrow> \<exists>s'. body s = Inr (Inl s') \<and> P s'"
  shows "repeat_until body s = Inl NoReturn"
proof -
  let ?c = "\<lambda>x. case x of Inr (Inl s) \<Rightarrow> body s | _ \<Rightarrow> x"
  have "while_option goes_on ?c (Inr (Inl s)) = None"
  proof (rule ccontr)
    assume "while_option goes_on ?c (Inr (Inl s)) \<noteq> None"
    then obtain x where x: "while_option goes_on ?c (Inr (Inl s)) = Some x" by blast
    have "(\<lambda>x. \<exists>t. x = Inr (Inl t) \<and> P t) x"
    proof (rule while_option_rule [OF _ x])
      show "\<exists>t. ?c y = Inr (Inl t) \<and> P t" if "\<exists>t. y = Inr (Inl t) \<and> P t" for y
        using that assms(2) by auto
    qed (use assms(1) in simp)
    with while_option_stop [OF x] show False by (auto simp: goes_on_def)
  qed
  then show ?thesis by (simp add: repeat_until_def)
qed

text \<open>One run of zero hextets, from \<open>i\<close> to before \<open>j\<close>: the search finds it, and its bytes are marked.\<close>

definition run_mask :: "u8 \<Rightarrow> nat \<Rightarrow> nat \<Rightarrow> u8 list" where
  "run_mask m i j = map (\<lambda>k. if i \<le> k \<and> k < j then m else 1) [0..<8]"

lemma single_run_found:
  assumes "i + 2 \<le> j" "j \<le> 8"
  shows "reduce_bytemask (run_mask 0 i j) = Inr (run_mask 0xFF i j)"
proof -
  have all: "\<forall>i \<in> set [0..<7]. \<forall>j \<in> set [i + 2..<9].
      run_steps run_search 20 (False, run_mask 0 i j, 6, 0, 0, 0, 0) = Some (Inr (of_nat (j - i), of_nat i)) \<and>
      (of_nat (j - i) :: u8) \<noteq> 0 \<and> map2 (OR) (run_mask 0 i j) (run_bytes (of_nat (j - i)) (of_nat i)) = run_mask 0xFF i j"
    by code_simp
  have "i \<in> set [0..<7]" "j \<in> set [i + 2..<9]" using assms by auto
  with all have one: "run_steps run_search 20 (False, run_mask 0 i j, 6, 0, 0, 0, 0) = Some (Inr (of_nat (j - i), of_nat i))"
    "(of_nat (j - i) :: u8) \<noteq> 0" "map2 (OR) (run_mask 0 i j) (run_bytes (of_nat (j - i)) (of_nat i)) = run_mask 0xFF i j"
    by blast+
  from one(2,3) show ?thesis by (simp only: reduce_bytemask_def run_steps_repeat [OF one(1)] bnd_Inr prod.case if_False)
qed

text \<open>A single zero hextet is no run, and is treated as the others.\<close>

lemma single_zero_found:
  assumes "i < 8"
  shows "reduce_bytemask (run_mask 0 i (i + 1)) = Inr (run_mask 1 i (i + 1))"
proof -
  have all: "\<forall>i \<in> set [0..<8]. (case run_steps run_search 20 (False, run_mask 0 i (i + 1), 6, 0, 0, 0, 0) of
      Some (Inr (dh, dl)) \<Rightarrow> dh = 0 | _ \<Rightarrow> False) \<and> map2 (OR) (run_mask 0 i (i + 1)) (replicate 8 1) = run_mask 1 i (i + 1)"
    by code_simp
  have "i \<in> set [0..<8]" using assms by simp
  with all have one: "case run_steps run_search 20 (False, run_mask 0 i (i + 1), 6, 0, 0, 0, 0) of
      Some (Inr (dh, dl)) \<Rightarrow> dh = 0 | _ \<Rightarrow> False" "map2 (OR) (run_mask 0 i (i + 1)) (replicate 8 1) = run_mask 1 i (i + 1)"
    by blast+
  from one(1) obtain dl where "run_steps run_search 20 (False, run_mask 0 i (i + 1), 6, 0, 0, 0, 0) = Some (Inr (0, dl))"
    by (auto split: option.splits sum.splits)
  from run_steps_repeat [OF this] one(2) show ?thesis by (simp only: reduce_bytemask_def bnd_Inr prod.case if_True simp_thms)
qed

text \<open>The byte that the zero hextets from \<open>i\<close> to before \<open>j\<close> get.\<close>

definition mark :: "nat \<Rightarrow> nat \<Rightarrow> u8" where "mark i j = (if j = i + 1 then 1 else 0xFF)"

subsection \<open>Lemmas on printing\<close>

lemma byte_char: "char_of (unat (of_char c :: u8)) = c"
proof -
  have "unat (of_nat (of_char c) :: u8) = of_char c" by (intro of_nat_inverse [OF refl]) simp
  then show ?thesis using of_nat_of_char [of c, where 'a = u8] by simp
qed

lemma hex_chars_of_digits:
  assumes "a < 16" "b < 16"
  shows "map (\<lambda>b. char_of (unat b)) (le16 (push_bit 8 (hex_char (of_nat a)) OR hex_char (of_nat b))) =
           [f6215943_digitHex ! b, f6215943_digitHex ! a]"
proof -
  have all: "\<forall>a \<in> set [0..<16]. hex_char (of_nat a) = ucast (of_char (f6215943_digitHex ! a) :: u8)"
    by code_simp
  have "a \<in> set [0..<16]" "b \<in> set [0..<16]" using assms by auto
  with all have h: "hex_char (of_nat a) = ucast (of_char (f6215943_digitHex ! a) :: u8)"
    "hex_char (of_nat b) = ucast (of_char (f6215943_digitHex ! b) :: u8)" by blast+
  have "\<not> bit (x :: u8) (8 + n)" for x n by (auto dest: bit_imp_le_length)
  then have "le16 (push_bit 8 (ucast x) OR ucast y) = [y, x]" for x y :: u8
    unfolding le16_def by (auto intro!: bit_word_eqI simp: bit_simps)
  then show ?thesis unfolding h by (simp add: byte_char)
qed

lemma low_digit_value: "low_digit (of_nat n) = of_nat (n mod 16)"
proof -
  have "low_digit w = take_bit 4 w" for w
    using bits_ident [of 4 w] by (simp add: low_digit_def algebra_simps)
  moreover have "take_bit 4 n = n mod 16" by (simp add: take_bit_eq_mod)
  ultimately show ?thesis by (metis take_bit_of_nat)
qed

lemma drop_digit: "n < 65536 \<Longrightarrow> drop_bit 4 (of_nat n :: u16) = of_nat (n div 16)"
  by (simp add: drop_bit_eq_div word_unat_eq_iff unat_div unat_of_nat take_bit_nat_eq_self)

text \<open>A hextet and the word that its two bytes are in memory.\<close>

definition hextet_bytes :: "nat \<Rightarrow> u8 list" where
  "hextet_bytes h = [of_nat (h div 256), of_nat (h mod 256)]"

definition swapped :: "nat \<Rightarrow> nat" where "swapped h = h div 256 + 256 * (h mod 256)"

definition hex4 :: "nat \<Rightarrow> string" where
  "hex4 h = map ((!) f6215943_digitHex) [h div 4096, h div 256 mod 16, h div 16 mod 16, h mod 16]"

lemma swapped_digits:
  assumes "h < 65536"
  shows "swapped h < 65536" "swapped h div 16 mod 16 = h div 4096" "swapped h mod 16 = h div 256 mod 16"
    "swapped h div 16 div 16 div 16 = h div 16 mod 16" "swapped h div 16 div 16 mod 16 = h mod 16"
proof -
  define a b c d where "a = h div 4096" "b = h div 256 mod 16" "c = h div 16 mod 16" "d = h mod 16"
  have l: "a < 16" "b < 16" "c < 16" "d < 16" using assms by (auto simp: a_b_c_d_def)
  have "h div 256 = 16 * a + b" "h div 16 = 16 * (h div 256) + c" "h = 16 * (h div 16) + d"
    using div_mult_mod_eq [of "h div 256" 16] div_mult_mod_eq [of "h div 16" 16] div_mult_mod_eq [of h 16]
    by (simp_all add: a_b_c_d_def div_mult2_eq [symmetric] mult.commute)
  moreover from this have "h mod 256 = 16 * c + d" using div_mult_mod_eq [of h 256] by linarith
  ultimately have s: "swapped h = 16 * (a + 256 * c + 16 * d) + b" by (simp add: swapped_def)
  have "(16 * x + b) div 16 = x" "(16 * x + b) mod 16 = b" for x using l by simp_all
  note digit = this [of "a + 256 * c + 16 * d"]
  have s1: "swapped h div 16 = a + 16 * (16 * c + d)" "swapped h mod 16 = b" unfolding s digit by simp_all
  have "(a + 16 * y) div 16 = y" "(a + 16 * y) mod 16 = a" for y using l by simp_all
  note s2 = this [of "16 * c + d"]
  have s3: "(16 * c + d) div 16 = c" "(16 * c + d) mod 16 = d" using l by simp_all
  have "h div 256 + 256 * r < 65536" if "h div 256 < 256" "r < 256" for r using that by linarith
  then show "swapped h < 65536" using assms by (simp add: swapped_def less_mult_imp_div_less)
  show "swapped h div 16 mod 16 = h div 4096" "swapped h mod 16 = h div 256 mod 16"
    "swapped h div 16 div 16 div 16 = h div 16 mod 16" "swapped h div 16 div 16 mod 16 = h mod 16"
    unfolding s1 s2 s3 by (simp_all add: a_b_c_d_def)
qed

lemma hextet_chars_hex4: "h < 65536 \<Longrightarrow> hextet_chars (of_nat (swapped h)) = hex4 h"
proof -
  assume h: "h < 65536"
  note d = swapped_digits [OF h]
  have drops: "drop_bit 4 (of_nat (swapped h) :: u16) = of_nat (swapped h div 16)"
    "drop_bit 4 (of_nat (swapped h div 16) :: u16) = of_nat (swapped h div 16 div 16)"
    "drop_bit 4 (of_nat (swapped h div 16 div 16) :: u16) = of_nat (swapped h div 16 div 16 div 16)"
    using d(1) by (intro drop_digit; linarith)+
  have "h div 4096 < 16" using h by linarith
  then show ?thesis
    unfolding hextet_chars_def drops low_digit_value d(2-) Let_def map_append
    by (simp add: hex_chars_of_digits hex4_def)
qed

lemma digitHex_zero: "d < 16 \<Longrightarrow> f6215943_digitHex ! d = CHR ''0'' \<longleftrightarrow> d = 0"
  using hex_digit_char [of d] by simp

lemma strip_zeros:
  assumes "0 < h" "h < 65536"
  shows "dropWhile (\<lambda>ch. ch = CHR ''0'') (hex4 h @ [CHR '':'']) = hex_string h @ [CHR '':'']"
proof -
  consider "h < 16" | "16 \<le> h" "h < 256" | "256 \<le> h" "h < 4096" | "4096 \<le> h" by linarith
  then show ?thesis
  proof cases
    case 1
    with assms show ?thesis by (simp add: hex4_def digitHex_zero hex_string.simps [of h])
  next
    case 2
    then have "h div 16 < 16" "h div 16 \<noteq> 0" "h div 16 mod 16 = h div 16" by auto
    with 2 show ?thesis
      by (simp add: hex4_def digitHex_zero hex_string.simps [of h] hex_string.simps [of "h div 16"])
  next
    case 3
    then have "h div 256 < 16" "h div 256 \<noteq> 0" "h div 256 mod 16 = h div 256" "\<not> h div 16 < 16" by auto
    with 3 show ?thesis
      by (simp add: hex4_def digitHex_zero hex_string.simps [of h] hex_string.simps [of "h div 16"]
          hex_string.simps [of "h div 256"] div_mult2_eq [symmetric])
  next
    case 4
    then have "h div 4096 < 16" "h div 4096 \<noteq> 0" "\<not> h div 16 < 16" "\<not> h div 256 < 16" using assms by auto
    with 4 show ?thesis
      by (simp add: hex4_def digitHex_zero hex_string.simps [of h] hex_string.simps [of "h div 16"]
          hex_string.simps [of "h div 256"] hex_string.simps [of "h div 4096"] div_mult2_eq [symmetric])
  qed
qed

text \<open>Of a hextet of zero nothing is left.\<close>

definition bare :: "nat \<Rightarrow> string" where "bare h = (if h = 0 then [] else hex_string h)"

lemma strip_any: "h < 65536 \<Longrightarrow> dropWhile (\<lambda>ch. ch = CHR ''0'') (hex4 h @ [CHR '':'']) = bare h @ [CHR '':'']"
  using strip_zeros [of h] by (cases "h = 0") (simp_all add: bare_def hex4_def digitHex_zero)

lemma length_hex_string: "h < 65536 \<Longrightarrow> length (hex_string h) \<le> 4"
  by (simp add: hex_string.simps [of h] hex_string.simps [of "h div 16"] hex_string.simps [of "h div 256"]
      hex_string.simps [of "h div 4096"] div_mult2_eq [symmetric] less_mult_imp_div_less)

lemma write_cells:
  assumes "length cs = n" "n \<le> length rest" "k \<le> n" "take k cs = t"
  shows "\<exists>rest'. blit (map Some cs) 0 n (map Some pre @ rest) (length pre) = Inr (map Some (pre @ t) @ rest') \<and>
           k + length rest' = length rest"
proof -
  have "blit (map Some cs) 0 n (map Some pre @ rest) (length pre) = Inr (map Some pre @ map Some cs @ drop n rest)"
    using assms by (simp add: blit_def)
  moreover have "map Some cs = map Some t @ map Some (drop k cs)"
    unfolding assms(4) [symmetric] by (metis append_take_drop_id map_append)
  ultimately show ?thesis using assms by (intro exI [of _ "map Some (drop k cs) @ drop n rest"]) simp
qed

text \<open>A hextet with its byte 1 is appended with its colon.\<close>

lemma write_hextet:
  assumes "h < 65536" "8 \<le> length rest"
  shows "\<exists>rest'. processHextet (hex4 h) 1 (sh, map Some pre @ rest, length pre) =
           Inr (False, map Some (pre @ bare h @ [CHR '':'']) @ rest', length (pre @ bare h @ [CHR '':''])) \<and>
           length (bare h) + 1 + length rest' = length rest"
proof -
  let ?t = "bare h @ [CHR '':'']"
  have len: "length ?t \<le> 8" using length_hex_string [OF assms(1)] by (simp add: bare_def)
  define cs where "cs = take 8 (?t @ replicate 8 NUL)"
  have "length cs = 8" "take (length ?t) cs = ?t" using len by (simp_all add: cs_def)
  from write_cells [OF this(1) assms(2) len this(2), of pre] obtain rest' where
    "blit (map Some cs) 0 8 (map Some pre @ rest) (length pre) = Inr (map Some (pre @ ?t) @ rest')"
    "length ?t + length rest' = length rest" by blast
  note written = this [unfolded cs_def]
  then show ?thesis unfolding processHextet_def prod.case strip_any [OF assms(1)] Let_def
    by (simp del: take_append map_append)
qed

text \<open>The first hextet of the run is a colon, the others are nothing.\<close>

lemma write_run:
  assumes "8 \<le> length rest"
  shows "\<exists>rest'. processHextet edx 0xFF (sh, map Some pre @ rest, length pre) =
           Inr (True, map Some (pre @ (if sh then [] else [CHR '':''])) @ rest', length (pre @ (if sh then [] else [CHR '':'']))) \<and>
           (if sh then 0 else 1) + length rest' = length rest"
proof (cases sh)
  case False
  have "take 1 [CHR '':'', NUL, NUL, NUL] = [CHR '':'']" by simp
  from write_cells [OF _ _ _ this, of 4 rest pre] assms False show ?thesis by (auto simp: processHextet_def)
qed (simp add: processHextet_def)

text \<open>What is printed of the first \<open>n\<close> hextets, with a run from \<open>i\<close> to before \<open>j\<close>.\<close>

definition piece_of :: "nat list \<Rightarrow> nat \<Rightarrow> nat \<Rightarrow> nat \<Rightarrow> string" where
  "piece_of hs i j k =
     (if i \<le> k \<and> k < j then if k = i then [CHR '':''] else [] else hex_string (hs ! k) @ [CHR '':''])"

definition printed :: "nat list \<Rightarrow> nat \<Rightarrow> nat \<Rightarrow> nat \<Rightarrow> string" where
  "printed hs i j n = concat (map (piece_of hs i j) [0..<n])"

lemma printed_Suc: "printed hs i j (Suc n) = printed hs i j n @ piece_of hs i j n"
  by (simp add: printed_def)

lemma print_hextets:
  assumes "\<forall>h \<in> set hs. h < 65536" "length hs = 8" "\<forall>k < 8. hs ! k = 0 \<longleftrightarrow> i \<le> k \<and> k < j"
    and "48 \<le> length buffer" "n \<le> 8"
  shows "\<exists>rest. fold_result (\<lambda>st k. processHextet (hextet_chars (map (\<lambda>h. of_nat (swapped h)) hs ! k)) (run_mask (mark i j) i j ! k) st)
             (False, buffer, 0) [0..<n] =
           Inr (i + 2 \<le> j \<and> i < n \<and> n \<le> j, map Some (printed hs i j n) @ rest, length (printed hs i j n)) \<and>
           48 \<le> 5 * n + length rest \<and> length (printed hs i j n) + length rest = length buffer"
  using assms(5)
proof (induction n)
  case 0
  then show ?case using assms(4) by (simp add: printed_def)
next
  case (Suc n)
  let ?f = "\<lambda>st k. processHextet (hextet_chars (map (\<lambda>h. of_nat (swapped h)) hs ! k)) (run_mask (mark i j) i j ! k) st"
  let ?p = "printed hs i j n" and ?sh = "i + 2 \<le> j \<and> i < n \<and> n \<le> j"
  from Suc obtain rest where r: "fold_result ?f (False, buffer, 0) [0..<n] = Inr (?sh, map Some ?p @ rest, length ?p)"
    "48 \<le> 5 * n + length rest" "length ?p + length rest = length buffer" by auto
  have h: "hs ! n < 65536" using assms(1,2) Suc.prems by simp
  have chars: "hextet_chars (map (\<lambda>h. of_nat (swapped h)) hs ! n) = hex4 (hs ! n)"
    using hextet_chars_hex4 [OF h] assms(2) Suc.prems by simp
  have m: "run_mask (mark i j) i j ! n = (if i \<le> n \<and> n < j then mark i j else 1)" using Suc.prems by (simp add: run_mask_def)
  have room: "8 \<le> length rest" using r(2) Suc.prems by linarith
  have "\<exists>rest'. ?f (?sh, map Some ?p @ rest, length ?p) n =
      Inr (i + 2 \<le> j \<and> i < Suc n \<and> Suc n \<le> j, map Some (?p @ piece_of hs i j n) @ rest', length (?p @ piece_of hs i j n)) \<and>
      length (piece_of hs i j n) + length rest' = length rest \<and> length (piece_of hs i j n) \<le> 5"
  proof -
    consider "i \<le> n" "n < j" "j = i + 1" | "i \<le> n" "n < j" "i + 2 \<le> j" | "\<not> (i \<le> n \<and> n < j)" by linarith
    then show ?thesis
    proof cases
      case 1
      then have "hs ! n = 0" "n = i" using assms(3) [rule_format, of n] Suc.prems by auto
      with write_hextet [OF h room, of ?sh ?p] 1 chars m show ?thesis by (auto simp: piece_of_def bare_def mark_def)
    next
      case 2
      have "(if ?sh then [] else [CHR '':'']) = piece_of hs i j n" using 2 by (auto simp: piece_of_def)
      with write_run [OF room, of "hex4 (hs ! n)" ?sh ?p] 2 chars m show ?thesis by (auto simp: piece_of_def mark_def)
    next
      case 3
      then have "hs ! n \<noteq> 0" using assms(3) [rule_format, of n] Suc.prems by force
      with write_hextet [OF h room, of ?sh ?p] 3 chars m length_hex_string [OF h] show ?thesis
        by (auto simp: piece_of_def bare_def)
    qed
  qed
  then obtain rest' where r': "?f (?sh, map Some ?p @ rest, length ?p) n =
      Inr (i + 2 \<le> j \<and> i < Suc n \<and> Suc n \<le> j, map Some (?p @ piece_of hs i j n) @ rest', length (?p @ piece_of hs i j n))"
    "length (piece_of hs i j n) + length rest' = length rest" "length (piece_of hs i j n) \<le> 5" by blast
  have "fold_result ?f (False, buffer, 0) [0..<Suc n] =
      Inr (i + 2 \<le> j \<and> i < Suc n \<and> Suc n \<le> j, map Some (printed hs i j (Suc n)) @ rest', length (printed hs i j (Suc n)))"
    using r(1) r'(1) by (simp add: fold_result_append printed_Suc)
  moreover have "48 \<le> 5 * Suc n + length rest'" "length (printed hs i j (Suc n)) + length rest' = length buffer"
    using r(2,3) r'(2,3) by (simp_all add: printed_Suc)
  ultimately show ?case by blast
qed

subsection \<open>The text of an address\<close>

text \<open>Hextets with colons between them, and a double colon for the run.\<close>

fun colons :: "nat list \<Rightarrow> string" where
  "colons [] = []"
| "colons [h] = hex_string h"
| "colons (h # h' # hs) = hex_string h @ CHR '':'' # colons (h' # hs)"

definition ipv6_text :: "nat list \<Rightarrow> nat \<Rightarrow> nat \<Rightarrow> string" where
  "ipv6_text hs i j = (if i = j then colons hs else colons (take i hs) @ ''::'' @ colons (drop j hs))"

text \<open>
  What the code prints: with one colon only for zeros at either end that the search has not taken for a run, or that begin the
  address; and with the suffix 0 behind a run that ends it.
\<close>

definition shown_text :: "nat list \<Rightarrow> nat \<Rightarrow> nat \<Rightarrow> string" where
  "shown_text hs i j =
     (if i < j \<and> (i = 0 \<or> i = 7) then colons (take i hs) @ '':'' @ colons (drop j hs) else ipv6_text hs i j)"

definition shown_suffix :: "nat \<Rightarrow> nat \<Rightarrow> nat \<Rightarrow> string" where
  "shown_suffix i j n = (if i + 2 \<le> j \<and> j = 8 \<and> n = 0 then ''/0'' else suffix_text n)"

lemma concat_colons:
  "hs \<noteq> [] \<Longrightarrow> concat (map (\<lambda>h. hex_string h @ [CHR '':'']) hs) = colons hs @ [CHR '':'']"
  by (induction hs rule: colons.induct) auto

lemma printed_text:
  assumes "length hs = 8" "i \<le> j" "j \<le> 8"
  shows "printed hs i j 8 = shown_text hs i j @ (if i + 2 \<le> j \<and> j = 8 then [] else [CHR '':''])"
proof (cases "i = j")
  case True
  then have "map (piece_of hs i j) [0..<8] = map (\<lambda>h. hex_string h @ [CHR '':'']) hs"
    using assms(1) by (intro nth_equalityI) (auto simp: piece_of_def)
  then have "printed hs i j 8 = colons hs @ [CHR '':'']"
    using concat_colons [of hs] assms(1) by (cases hs) (simp_all add: printed_def)
  then show ?thesis using True by (simp add: shown_text_def ipv6_text_def)
next
  case False
  with assms(2,3) have ij: "i < j" "j \<le> 8" by auto
  have split: "[0..<8] = [0..<i] @ (i # [Suc i..<j]) @ [j..<8]"
    using upt_add_eq_append [of 0 i "8 - i"] upt_add_eq_append [of i j "8 - j"] upt_conv_Cons [OF ij(1)] ij by simp
  have 1: "map (piece_of hs i j) [0..<i] = map (\<lambda>h. hex_string h @ [CHR '':'']) (take i hs)"
    using assms(1) ij by (intro nth_equalityI) (auto simp: piece_of_def)
  have 2: "concat (map (piece_of hs i j) [Suc i..<j]) = []" by (auto simp: piece_of_def)
  have 3: "map (piece_of hs i j) [j..<8] = map (\<lambda>h. hex_string h @ [CHR '':'']) (drop j hs)"
    using assms(1) ij by (intro nth_equalityI) (auto simp: piece_of_def)
  have "piece_of hs i j i = [CHR '':'']" using ij by (simp add: piece_of_def)
  with 2 have p: "printed hs i j 8 = concat (map (\<lambda>h. hex_string h @ [CHR '':'']) (take i hs)) @ [CHR '':''] @
      concat (map (\<lambda>h. hex_string h @ [CHR '':'']) (drop j hs))"
    unfolding printed_def split map_append concat_append 1 3 by simp
  have ne: "take i hs = [] \<longleftrightarrow> i = 0" "drop j hs = [] \<longleftrightarrow> j = 8" using assms(1) ij by auto
  have 4: "concat (map (\<lambda>h. hex_string h @ [CHR '':'']) (take i hs)) = colons (take i hs) @ (if i = 0 then [] else [CHR '':''])"
    using concat_colons [of "take i hs"] ne(1) by (cases "i = 0") auto
  have 5: "concat (map (\<lambda>h. hex_string h @ [CHR '':'']) (drop j hs)) = colons (drop j hs) @ (if j = 8 then [] else [CHR '':''])"
    using concat_colons [of "drop j hs"] ne(2) by (cases "j = 8") auto
  have "i = 7" if "\<not> i + 2 \<le> j" "j = 8" using that ij by linarith
  moreover have "j = 8" if "i = 7" using that ij by linarith
  ultimately show ?thesis
    unfolding p 4 5 using False ij(1) ne(2) by (auto simp: shown_text_def ipv6_text_def)
qed

lemma suffix_chars_value:
  assumes "n < 256"
  shows "suffix_chars (of_nat n) = Inr (CHR ''/'' # dec_string n)"
proof -
  have al: "(ucast (of_nat n :: u32) :: u8) = of_nat n" "(ucast (of_nat n :: u32) :: u16) = of_nat n"
    using assms by (simp_all add: unsigned_of_nat take_bit_nat_eq_self)
  have w: "(ucast (of_nat x :: u8) :: u16) = of_nat x" if "x < 256" for x
    using that by (simp add: unsigned_of_nat take_bit_nat_eq_self)
  have cmp: "(of_nat n :: u8) \<ge> 100 \<longleftrightarrow> 100 \<le> n" "(of_nat n :: u8) \<ge> 10 \<longleftrightarrow> 10 \<le> n"
    using assms by (simp_all add: word_le_nat_alt of_nat_inverse)
  consider "n < 10" | "10 \<le> n" "n < 100" | "100 \<le> n" by linarith
  then show ?thesis
  proof cases
    case 1
    with assms show ?thesis using digit_char_facts(4) [of n]
      by (simp add: suffix_chars_def al cmp dec_octet ucast_octet)
  next
    case 2
    have h: "n div 10 < 10" using 2 by linarith
    from 2 assms show ?thesis using digit_char_facts(4) [OF h] digit_char_facts(4) [of "n mod 10"]
      by (simp add: suffix_chars_def al cmp dec_octet div10_value w ucast_octet)
  next
    case 3
    have h: "n div 100 < 10" using assms by linarith
    from 3 assms show ?thesis
      using digit_char_facts(4) [OF h] digit_char_facts(4) [of "n mod 10"] digit_char_facts(4) [of "n div 10 mod 10"]
      by (simp add: suffix_chars_def al cmp dec_octet div10_value w ucast_octet div_mult2_eq [symmetric])
  qed
qed

text \<open>The words that are read are the hextets with their bytes swapped.\<close>

lemma le16_swapped: "h < 65536 \<Longrightarrow> le16 (of_nat (swapped h)) = hextet_bytes h"
proof -
  assume h: "h < 65536"
  have d: "h div 256 < 256" using h by linarith
  have "drop_bit 8 (of_nat n :: u16) = of_nat (n div 256)" if "n < 65536" for n
    using that by (simp add: drop_bit_eq_div word_unat_eq_iff unat_div unat_of_nat take_bit_nat_eq_self)
  from this [OF swapped_digits(1) [OF h]] have "drop_bit 8 (of_nat (swapped h) :: u16) = of_nat (h mod 256)"
    using d by (simp add: swapped_def)
  moreover have wrap: "(256 :: u8) = 0" by code_simp
  have "(256 :: u8) * x = 0" for x by (simp only: wrap mult_zero_left)
  then have "(of_nat (swapped h) :: u8) = of_nat (h div 256)" by (simp add: swapped_def)
  moreover have "swapped h < 65536" using swapped_digits(1) [OF h] .
  ultimately show ?thesis
    by (simp add: le16_def hextet_bytes_def unsigned_of_nat take_bit_nat_eq_self)
qed

lemma collect_hextets:
  "holds b (pre @ concat (map hextet_bytes hs)) \<Longrightarrow> \<forall>h \<in> set hs. h < 65536 \<Longrightarrow> length pre = 2 * k \<Longrightarrow>
     collect (length hs) (\<lambda>i. bnd (rd16 b (2 * i)) (\<lambda>w. Inr (w, i + 1))) k =
       Inr (map (\<lambda>h. of_nat (swapped h)) hs, k + length hs)"
proof (induction hs arbitrary: pre k)
  case (Cons h hs)
  have "holds b (pre @ hextet_bytes h @ concat (map hextet_bytes hs))" using Cons.prems(1) by simp
  from rd16_in [OF this, of 0 "of_nat (swapped h)"] Cons.prems(2,3)
  have "rd16 b (2 * k) = Inr (of_nat (swapped h))" by (simp add: le16_swapped hextet_bytes_def)
  moreover have "length (pre @ hextet_bytes h) = 2 * (k + 1)" using Cons.prems(3) by (simp add: hextet_bytes_def)
  ultimately show ?case using Cons.IH [of "pre @ hextet_bytes h" "k + 1"] Cons.prems by simp
qed simp

lemma mask_of_hextets:
  assumes "\<forall>h \<in> set hs. h < 65536" "length hs = 8" "\<forall>k < 8. hs ! k = 0 \<longleftrightarrow> i \<le> k \<and> k < j"
  shows "nonzero_mask (map (\<lambda>h. of_nat (swapped h)) hs) = run_mask 0 i j"
proof (rule nth_equalityI)
  fix k assume "k < length (nonzero_mask (map (\<lambda>h. of_nat (swapped h)) hs))"
  then have k: "k < 8" using assms(2) by (simp add: nonzero_mask_def)
  then have h: "hs ! k < 65536" using assms(1,2) by simp
  have "unat (of_nat (swapped (hs ! k)) :: u16) = swapped (hs ! k)"
    using swapped_digits(1) [OF h] by (intro of_nat_inverse [OF refl]) simp
  then have "(of_nat (swapped (hs ! k)) :: u16) = 0 \<longleftrightarrow> swapped (hs ! k) = 0" by (simp only: word_unat_eq_iff unsigned_0)
  also have "\<dots> \<longleftrightarrow> hs ! k = 0" by (auto simp: swapped_def)
  finally show "nonzero_mask (map (\<lambda>h. of_nat (swapped h)) hs) ! k = run_mask 0 i j ! k"
    using assms(2,3) k by (simp add: nonzero_mask_def run_mask_def)
qed (simp add: nonzero_mask_def run_mask_def assms(2))

lemma bytemask_of_run:
  assumes "i \<le> j" "j \<le> 8" and "nonzero_mask ws = run_mask 0 i j"
  shows "calculateShorthandBytemask ws = Inr (run_mask (mark i j) i j)"
proof (cases "i = j")
  case True
  then have "run_mask m i j = replicate 8 1" for m by (auto simp: run_mask_def list_eq_iff_nth_eq)
  then show ?thesis using assms(3) by (simp add: calculateShorthandBytemask_def)
next
  case False
  then have ij: "i < j" "i < 8" using assms(1,2) by auto
  then have "run_mask 0 i j ! i \<noteq> replicate 8 1 ! i" by (simp add: run_mask_def)
  then have ne: "run_mask 0 i j \<noteq> replicate 8 1" by metis
  show ?thesis
  proof (cases "j = i + 1")
    case True
    then show ?thesis using single_zero_found [OF ij(2)] ne assms(3) by (simp add: calculateShorthandBytemask_def mark_def)
  next
    case False
    then have "i + 2 \<le> j" using ij by linarith
    from single_run_found [OF this assms(2)] False ne assms(3) show ?thesis by (simp add: calculateShorthandBytemask_def mark_def)
  qed
qed

lemma text_no_NUL: "NUL \<notin> set (shown_text hs i j)"
proof -
  have "f6215943_digitHex ! d \<noteq> NUL" if "d < 16" for d
  proof -
    have "\<forall>d \<in> set [0..<16]. f6215943_digitHex ! d \<noteq> NUL" by code_simp
    with that show ?thesis by simp
  qed
  then have "NUL \<notin> set (hex_string h)" for h using hex_string_digits by metis
  then have "NUL \<notin> set (colons hs)" for hs by (induction hs rule: colons.induct) auto
  then show ?thesis by (simp add: shown_text_def ipv6_text_def)
qed

subsection \<open>Defects\<close>

text \<open>
  When the address ends with a run that is not longer than an earlier one, the search never moves on from it.
\<close>

fun advance :: "('s \<Rightarrow> ('s + 'r) result) \<Rightarrow> nat \<Rightarrow> 's \<Rightarrow> 's option" where
  "advance body 0 s = Some s"
| "advance body (Suc n) s = (case body s of Inr (Inl s') \<Rightarrow> advance body n s' | _ \<Rightarrow> None)"

lemma advance_repeat: "advance body n s = Some s' \<Longrightarrow> repeat_until body s = repeat_until body s'"
proof (induction n arbitrary: s)
  case (Suc n)
  then show ?case by (auto simp: repeat_until_unfold [of body s] split: sum.splits)
qed simp

lemma second_run_never_ends: "reduce_bytemask (nonzero_mask [1, 0, 0, 4, 5, 6, 0, 0]) = Inl NoReturn"
proof -
  define stuck :: "search_state \<Rightarrow> bool" where
    "stuck = (\<lambda>(inner, r8, al, dh, dl, ch, cl). r8 = replicate 8 0 \<and> al = 0 \<and> dh = 2 \<and> (inner \<longrightarrow> ch = 1))"
  have m: "nonzero_mask [1, 0, 0, 4, 5, 6, 0, 0] = [1, 0, 0, 1, 1, 1, 0, 0]" by code_simp
  have a: "advance run_search 7 (False, [1, 0, 0, 1, 1, 1, 0, 0], 6, 0, 0, 0, 0) = Some (False, replicate 8 0, 0, 2, 1, 2, 7)"
    by code_simp
  have "repeat_until run_search (False, replicate 8 0, 0, 2, 1, 2, 7) = Inl NoReturn"
  proof (rule repeat_until_forever [where P = stuck])
    show "\<exists>s'. run_search s = Inr (Inl s') \<and> stuck s'" if "stuck s" for s
      using that by (cases s) (auto simp: stuck_def run_search_def Let_def numeral_eq_Suc)
  qed (simp add: stuck_def)
  then show ?thesis by (simp only: m reduce_bytemask_def advance_repeat [OF a] bnd_Inl)
qed

text \<open>
  A second run that is longer is marked one place too far, so that the hextet behind it is not printed. The start of a
  run is moved on by its length, and once more by the shift.
\<close>

lemma second_run_misplaced:
  "reduce_bytemask (nonzero_mask [1, 0, 0, 4, 0, 0, 0, 8]) = Inr [1, 0, 0, 1, 0, 0xFF, 0xFF, 0xFF]"
proof -
  have m: "nonzero_mask [1, 0, 0, 4, 0, 0, 0, 8] = [1, 0, 0, 1, 0, 0, 0, 1]" by code_simp
  have s: "run_steps run_search 20 (False, [1, 0, 0, 1, 0, 0, 0, 1], 6, 0, 0, 0, 0) = Some (Inr (3, 5))" by code_simp
  have "map2 (OR) [1, 0, 0, 1, 0, 0, 0, 1] (if (3 :: u8) = 0 then replicate 8 1 else run_bytes 3 5) =
      [1, 0, 0, 1, 0, 0xFF, 0xFF, 0xFF]" by code_simp
  then show ?thesis by (simp only: m reduce_bytemask_def run_steps_repeat [OF s] bnd_Inr prod.case)
qed

text \<open>
  A single zero hextet beside a run is written as a NUL and a colon, so the text ends there; without a run it is written as
  nothing; and a run at the start is printed with one colon only.
\<close>

definition print_all :: "nat list \<Rightarrow> u8 list \<Rightarrow> string result" where
  "print_all hs r11 =
     bnd (fold_result (\<lambda>st k. processHextet (hex4 (hs ! k)) (r11 ! k) st) (False, fresh 48, 0) [0..<8])
       (\<lambda>(_, buffer, _). c_string (buffer[47 := Some NUL]))"

lemma single_zero_cuts_text:
  "reduce_bytemask (nonzero_mask [1, 0, 0, 4, 0, 6, 7, 8]) = Inr [1, 0xFF, 0xFF, 1, 0, 1, 1, 1]"
  "print_all [1, 0, 0, 4, 0, 6, 7, 8] [1, 0xFF, 0xFF, 1, 0, 1, 1, 1] = Inr ''1::4:''"
proof -
  have m: "nonzero_mask [1, 0, 0, 4, 0, 6, 7, 8] = [1, 0, 0, 1, 0, 1, 1, 1]" by code_simp
  have s: "run_steps run_search 20 (False, [1, 0, 0, 1, 0, 1, 1, 1], 6, 0, 0, 0, 0) = Some (Inr (2, 1))" by code_simp
  have "map2 (OR) [1, 0, 0, 1, 0, 1, 1, 1] (if (2 :: u8) = 0 then replicate 8 1 else run_bytes 2 1) =
      [1, 0xFF, 0xFF, 1, 0, 1, 1, 1]" by code_simp
  then show "reduce_bytemask (nonzero_mask [1, 0, 0, 4, 0, 6, 7, 8]) = Inr [1, 0xFF, 0xFF, 1, 0, 1, 1, 1]"
    by (simp only: m reduce_bytemask_def run_steps_repeat [OF s] bnd_Inr prod.case)
  show "print_all [1, 0, 0, 4, 0, 6, 7, 8] [1, 0xFF, 0xFF, 1, 0, 1, 1, 1] = Inr ''1::4:''" by code_simp
qed

lemma zeros_misprinted:
  "print_all [1, 2, 0, 4, 5, 6, 7, 8] (replicate 8 1) = Inr ''1:2::4:5:6:7:8:''"
  "print_all [0, 0, 3, 4, 5, 6, 7, 8] [0xFF, 0xFF, 1, 1, 1, 1, 1, 1] = Inr '':3:4:5:6:7:8:''"
  by code_simp+

text \<open>
  The parser moves the register by the digits that are there, so that a hextet with less than four of them runs into the one
  before; it refuses the digit f; it does not look behind the last hextet; and it stores nothing for a double colon.
\<close>

definition parsed :: "string \<Rightarrow> (u32 \<times> u8 block) result" where
  "parsed s =
     bnd (b7808f25_initIPv6Address \<lparr>ip6_address = fresh 16, ip6_cidrSuffix = None\<rparr> s) (\<lambda>(n, rsi, ip). Inr (n, ip6_address ip))"

lemma short_hextets_run_together:
  "parsed ''1:2:3:4:5:6:7:8'' = Inr (0, map Some [0, 0, 0, 0, 0, 0, 0x12, 0x34, 0, 0, 0, 0, 0, 0, 0x56, 0x78])"
  by code_simp

lemma digit_f_refused: "hextet_digit CHR ''e'' = Some 14" "hextet_digit CHR ''f'' = None"
  by code_simp+

lemma double_colon_stores_nothing: "bnd (parsed ''2001::6666'') (\<lambda>(_, b). Inr b) = Inr (fresh 16)"
  by code_simp

lemma invalid_text_cut: "b7808f25_createIPv6Address e ''2001:67g8::1'' = a25c96b2_invalidIPv6Address e ''g8::1''"
proof -
  have "b7808f25_initIPv6Address \<lparr>ip6_address = fresh 16, ip6_cidrSuffix = None\<rparr> ''2001:67g8::1'' =
      Inr (- 1, 7, \<lparr>ip6_address = fresh 16, ip6_cidrSuffix = None\<rparr>)"
    by code_simp
  then show ?thesis by (simp add: b7808f25_createIPv6Address_def)
qed

subsection \<open>Properties\<close>

text \<open>C15: an IPv6 address whose zero hextets, if there are any, stand beside each other is printed in the short form: hexadecimal
  numbers without leading zeros, with colons between them, a double colon for the zeros, and the suffix behind a slash when there is one;
  except that zeros that begin the address, and a single zero that ends it, get one colon only, so that ::1 is printed as :1, and
  that behind a run that ends the address a suffix is printed even when there is none.\<close>

theorem ipv6_short_form:
  assumes "length hs = 8" "\<forall>h \<in> set hs. h < 65536" "\<forall>k < 8. hs ! k = 0 \<longleftrightarrow> i \<le> k \<and> k < j"
    and "i \<le> j" "j \<le> 8" "n < 256"
    and "ip6_address ip = map Some (concat (map hextet_bytes hs))" "ip6_cidrSuffix ip = Some (of_nat n)"
    and "48 \<le> length buffer"
  shows "\<exists>b'. b7808f25_extractString ip buffer = Inr b' \<and> c_string b' = Inr (shown_text hs i j @ shown_suffix i j n)"
proof -
  let ?ws = "map (\<lambda>h. of_nat (swapped h)) hs" and ?t = "shown_text hs i j" and ?p = "printed hs i j 8"
  let ?last = "i + 2 \<le> j \<and> j = 8"
  have "holds (ip6_address ip) ([] @ concat (map hextet_bytes hs))" using assms(7) by (simp add: holds_def)
  from collect_hextets [OF this assms(2), of 0] have ws:
    "collect 8 (\<lambda>i. bnd (rd16 (ip6_address ip) (2 * i)) (\<lambda>w. Inr (w, i + 1))) 0 = Inr (?ws, 8)"
    using assms(1) by simp
  have m: "calculateShorthandBytemask ?ws = Inr (run_mask (mark i j) i j)"
    by (rule bytemask_of_run [OF assms(4,5) mask_of_hextets [OF assms(2,1,3)]])
  have flag: "(i + 2 \<le> j \<and> i < 8 \<and> 8 \<le> j) = ?last" using assms(5) by auto
  from print_hextets [OF assms(2,1,3,9), of 8, unfolded flag] obtain rest where rest:
    "fold_result (\<lambda>st k. processHextet (hextet_chars (?ws ! k)) (run_mask (mark i j) i j ! k) st) (False, buffer, 0) [0..<8] =
       Inr (?last, map Some ?p @ rest, length ?p)" "8 \<le> length rest"
    by (auto intro: that)
  have p: "?p = ?t @ (if ?last then [] else [CHR '':''])" using printed_text [OF assms(1,4,5)] .
  define rest' where "rest' = (if ?last then rest else Some (CHR '':'') # rest)"
  have split: "map Some ?p @ rest = map Some ?t @ rest'" "(if ?last then length ?p else length ?p - 1) = length ?t"
    unfolding p by (simp_all add: rest'_def)
  have room: "8 \<le> length rest'" using rest(2) by (simp add: rest'_def)
  have zero: "(of_nat n :: u32) = 0 \<longleftrightarrow> n = 0"
  proof -
    have "unat (of_nat n :: u32) = n" using assms(6) by (intro of_nat_inverse [OF refl]) simp
    then show ?thesis by (simp only: word_unat_eq_iff unsigned_0)
  qed
  have ext: "b7808f25_extractString ip buffer =
      (if \<not> ?last \<and> n = 0 then blit (map Some (replicate 4 NUL)) 0 4 (map Some ?t @ rest') (length ?t)
       else bnd (suffix_chars (of_nat n)) (\<lambda>s. blit (map Some (take 8 (s @ replicate 8 NUL))) 0 8 (map Some ?t @ rest') (length ?t)))"
    by (simp only: b7808f25_extractString_def ws m assms(8) rest(1) bnd_Inr prod.case option.case Let_def zero split)
  have "dec_string 0 = ''0''" by (simp add: dec_octet ascii_digit_table)
  then have suffix: "shown_suffix i j n = (if \<not> ?last \<and> n = 0 then [] else CHR ''/'' # dec_string n)"
    by (auto simp: shown_suffix_def suffix_text_def)
  have "\<exists>r. b7808f25_extractString ip buffer = Inr (map Some (?t @ shown_suffix i j n @ [NUL]) @ r)"
  proof (cases "\<not> ?last \<and> n = 0")
    case True
    have "take 1 (replicate 4 NUL) = [NUL]" by (simp add: numeral_eq_Suc)
    from write_cells [OF _ _ _ this, of 4 rest' ?t] room obtain r where
      "blit (map Some (replicate 4 NUL)) 0 4 (map Some ?t @ rest') (length ?t) = Inr (map Some (?t @ [NUL]) @ r)" by auto
    then show ?thesis unfolding ext suffix using True by (simp del: map_append)
  next
    case False
    let ?s = "CHR ''/'' # dec_string n"
    define cs where "cs = take 8 (?s @ replicate 8 NUL)"
    have l: "length ?s + 1 \<le> 8" using octet_length [OF assms(6)] by simp
    then have "take (length ?s + 1) cs = take (length ?s + 1) (?s @ replicate 8 NUL)"
      by (simp add: cs_def min_absorb1 del: take_append)
    also have "\<dots> = ?s @ take 1 (replicate 8 NUL)" by simp
    also have "take 1 (replicate 8 NUL) = [NUL]" by (simp add: numeral_eq_Suc)
    finally have first: "take (length ?s + 1) cs = ?s @ [NUL]" .
    have "length cs = 8" by (simp add: cs_def)
    from write_cells [OF this room l first, of ?t] obtain r where
      "blit (map Some cs) 0 8 (map Some ?t @ rest') (length ?t) = Inr (map Some (?t @ ?s @ [NUL]) @ r)" by auto
    then show ?thesis using False unfolding ext suffix suffix_chars_value [OF assms(6)] bnd_Inr cs_def [symmetric] by auto
  qed
  then obtain r where r: "b7808f25_extractString ip buffer = Inr (map Some (?t @ shown_suffix i j n @ [NUL]) @ r)" by blast
  have "NUL \<notin> set (?t @ shown_suffix i j n)" using text_no_NUL dec_string_no_NUL by (simp add: suffix)
  moreover have "holds (map Some (?t @ shown_suffix i j n @ [NUL]) @ r) ((?t @ shown_suffix i j n) @ [NUL])"
    using holds_append_cells [of "(?t @ shown_suffix i j n) @ [NUL]" r] by simp
  ultimately show ?thesis using r c_string_holds by blast
qed

lemma ipv6_short_form_witness:
  "\<exists>b'. b7808f25_extractString
      \<lparr>ip6_address = map Some (concat (map hextet_bytes [0x2001, 0xdb8, 0, 0, 0, 0xff00, 0x42, 0x8329])),
        ip6_cidrSuffix = Some 64\<rparr> (fresh 48) = Inr b' \<and> c_string b' = Inr ''2001:db8::ff00:42:8329/64''"
proof -
  let ?hs = "[0x2001, 0xdb8, 0, 0, 0, 0xff00, 0x42, 0x8329] :: nat list"
  have ascii64: "[ascii_digit 6, ascii_digit 4] = ''64''" by code_simp
  have t: "shown_text ?hs 2 5 @ shown_suffix 2 5 64 = ''2001:db8::ff00:42:8329/64''"
    using ascii64 by (simp add: shown_text_def shown_suffix_def ipv6_text_def suffix_text_def f6215943_digitHex_def dec_octet
      hex_string.simps [of 65280] hex_string.simps [of 33577] hex_string.simps [of 8193] hex_string.simps [of
      4080] hex_string.simps [of 3512] hex_string.simps [of 2098] hex_string.simps [of 512]
      hex_string.simps [of 255] hex_string.simps [of 219] hex_string.simps [of 131] hex_string.simps [of
      66] hex_string.simps [of 32] hex_string.simps [of 15] hex_string.simps [of 13] hex_string.simps [of
      8] hex_string.simps [of 4] hex_string.simps [of 2])
  let ?ip = "\<lparr>ip6_address = map Some (concat (map hextet_bytes ?hs)), ip6_cidrSuffix = Some (64 :: u32)\<rparr>"
  have "\<forall>k \<in> set [0..<8]. ?hs ! k = 0 \<longleftrightarrow> 2 \<le> k \<and> k < 5" by (simp add: upt_rec nth_Cons')
  then have "\<forall>k < 8. ?hs ! k = 0 \<longleftrightarrow> 2 \<le> k \<and> k < 5" by (simp only: set_upt atLeastLessThan_iff) simp
  moreover have "ip6_address ?ip = map Some (concat (map hextet_bytes ?hs))" by (simp only: IPv6Address.simps)
  moreover have "ip6_cidrSuffix ?ip = Some (of_nat 64)" by simp
  ultimately show ?thesis
    using ipv6_short_form [of ?hs 2 5 64 ?ip "fresh 48", unfolded t] by (auto simp only: list.size set_simps fresh_def) simp_all
qed

end
