(* ===== verification/LineBuffer.thy ===== *)
theory LineBuffer
  imports FileBuffer TextCursor
begin

text \<open>
  text/linebuffer.linux-x86_64.asm: lines of a file, cut out of a buffer of 4072 chars in place. The text that has not been
  delivered stands between length and size; an incomplete line at the end is moved to the front, and the next
  read goes behind it. A line is the index where its text starts and its length.
\<close>

definition C196BC72_BUFFER_SIZE :: nat where "C196BC72_BUFFER_SIZE = 4072"

record LineBuffer =
  lb_buffer :: "char block"
  lb_length :: u32
  lb_size :: u32
  lb_line :: "nat ptr \<times> u32"

subsection \<open>Create and initialise\<close>

text \<open>The first four chars are cleared.\<close>

definition c196bc72_initLineBuffer :: "LineBuffer \<Rightarrow> LineBuffer result" where
  "c196bc72_initLineBuffer lineBuffer =
     bnd (f668c4bd_meminit NUL (lb_buffer lineBuffer) 0 4) (\<lambda>buffer.
     Inr \<lparr>lb_buffer = buffer, lb_length = 0, lb_size = 0, lb_line = (None, 0)\<rparr>)"

definition c196bc72_createLineBuffer :: "LineBuffer result" where
  "c196bc72_createLineBuffer =
     bnd (f668c4bd_meminit NUL (fresh C196BC72_BUFFER_SIZE) 0 4) (\<lambda>buffer.
     Inr \<lparr>lb_buffer = buffer, lb_length = 0, lb_size = 0, lb_line = (None, 0)\<rparr>)"

subsection \<open>Lines\<close>

datatype scan = EndOfText | Newline nat | NoNewline

text \<open>The search for the end of the line in \<open>n\<close> cells.\<close>

fun find_newline :: "'c \<Rightarrow> 'c \<Rightarrow> 'c block \<Rightarrow> nat \<Rightarrow> nat \<Rightarrow> scan result" where
  "find_newline nul nl b i 0 = Inr NoNewline"
| "find_newline nul nl b i (Suc n) =
     bnd (rd b i) (\<lambda>ch.
     if ch = nul then Inr EndOfText else if ch = nl then Inr (Newline i) else find_newline nul nl b (i + 1) n)"

text \<open>
  The incomplete line goes to the front and a NUL behind it; when it fills the buffer, that NUL falls into the field length,
  which is set to 0 next.
\<close>

definition move_to_front :: "LineBuffer \<Rightarrow> LineBuffer result" where
  "move_to_front lineBuffer =
     (let n = lb_size lineBuffer - lb_length lineBuffer
      in bnd (blit (lb_buffer lineBuffer) (unat (lb_length lineBuffer)) (unat n) (lb_buffer lineBuffer) 0) (\<lambda>buffer.
         bnd (if unat n = C196BC72_BUFFER_SIZE then Inr buffer else wr buffer (unat n) NUL) (\<lambda>buffer.
         Inr (lineBuffer\<lparr>lb_buffer := buffer, lb_length := 0, lb_size := n\<rparr>))))"

definition c196bc72_getLine :: "LineBuffer \<Rightarrow> ((nat \<times> u32) ptr \<times> LineBuffer) result" where
  "c196bc72_getLine lineBuffer =
     (if lb_length lineBuffer = lb_size lineBuffer then Inr (None, lineBuffer)
      else
        let start = unat (lb_length lineBuffer)
        in bnd (find_newline NUL CHR 0x0A (lb_buffer lineBuffer) start
                  (unat (lb_size lineBuffer - lb_length lineBuffer))) (\<lambda>end.
           case end of
             EndOfText \<Rightarrow> Inr (None, lineBuffer)
           | NoNewline \<Rightarrow> bnd (move_to_front lineBuffer) (\<lambda>lineBuffer. Inr (None, lineBuffer))
           | Newline i \<Rightarrow>
               bnd (wr (lb_buffer lineBuffer) i NUL) (\<lambda>buffer.
               let len = of_nat (i - start)
               in Inr (Some (start, len), lineBuffer\<lparr>lb_buffer := buffer, lb_line := (Some start, len),
                         lb_length := lb_length lineBuffer + len + 1\<rparr>))))"

text \<open>
  In a page buffer the line is closed as well, but the place where the data start is not moved. The count of bytes left
  is decremented before it is looked at.
\<close>

definition c196bc72_getLineFromFileBuffer :: "fb_state \<Rightarrow> nat ptr \<Rightarrow> ((nat \<times> u32) ptr \<times> fb_state) result" where
  "c196bc72_getLineFromFileBuffer st fileBuffer =
     bnd (fb_get st fileBuffer) (\<lambda>fb.
     bnd (page_get st (fb_buffer fb)) (\<lambda>page.
     let start = unat (fb_dataOffset fb); n = fb_numBytes fb - fb_dataOffset fb
     in bnd (find_newline 0 10 page start (if n = 0 then 2 ^ 32 else unat n)) (\<lambda>end.
        case end of
          Newline i \<Rightarrow>
            bnd (wr page i 0) (\<lambda>page.
            bnd (deref (fb_buffer fb)) (\<lambda>a.
            Inr (Some (start, of_nat (i - start)), st\<lparr>pageBytes := (pageBytes st)(a := Some page)\<rparr>)))
        | _ \<Rightarrow> Inr (None, st))))"

text \<open>\<open>sys_read\<close>: the chars that read yields for a count.\<close>

definition c196bc72_populateLineBuffer :: "env \<Rightarrow> (nat \<Rightarrow> string sysret) \<Rightarrow> LineBuffer \<Rightarrow> LineBuffer result" where
  "c196bc72_populateLineBuffer e sys_read lineBuffer =
     (let sz = unat (lb_size lineBuffer)
      in case sys_read (C196BC72_BUFFER_SIZE - sz) of
           SysErr errno \<Rightarrow> Inl (Exit (''Cannot read from file: '' @ strerror e errno @ newline))
         | SysOk chunk \<Rightarrow>
             bnd (blit (map Some chunk) 0 (length chunk) (lb_buffer lineBuffer) sz) (\<lambda>buffer.
             Inr (lineBuffer\<lparr>lb_buffer := buffer, lb_size := lb_size lineBuffer + of_nat (length chunk)\<rparr>)))"

subsection \<open>Reading a file\<close>

text \<open>The way the buffer is used: lines are taken until there is none, each text being read at once, then more is read.\<close>

definition take_lines :: "string list \<Rightarrow> LineBuffer \<Rightarrow> (string list \<times> LineBuffer) result" where
  "take_lines acc lineBuffer =
     repeat_until (\<lambda>(acc, lineBuffer).
       bnd (c196bc72_getLine lineBuffer) (\<lambda>(line, lineBuffer).
       case line of
         None \<Rightarrow> Inr (Inr (acc, lineBuffer))
       | Some (i, _) \<Rightarrow> bnd (text_at (lb_buffer lineBuffer) i) (\<lambda>s. Inr (Inl (acc @ [s], lineBuffer)))))
       (acc, lineBuffer)"

text \<open>A file of which each read yields at most as many chars as asked for, and at most as many as the list says.\<close>

fun read_lines ::
    "env \<Rightarrow> nat list \<Rightarrow> string \<Rightarrow> string list \<Rightarrow> LineBuffer \<Rightarrow> (string list \<times> string \<times> LineBuffer) result" where
  "read_lines e [] file acc lineBuffer = Inr (acc, file, lineBuffer)"
| "read_lines e (k # ks) file acc lineBuffer =
     (let n = min k (C196BC72_BUFFER_SIZE - unat (lb_size lineBuffer))
      in bnd (c196bc72_populateLineBuffer e (\<lambda>count. SysOk (take (min k count) file)) lineBuffer) (\<lambda>lineBuffer.
         bnd (take_lines acc lineBuffer) (\<lambda>(acc, lineBuffer).
         read_lines e ks (drop n file) acc lineBuffer)))"

subsection \<open>Lemmas\<close>

lemma find_newline_here:
  assumes "nul \<notin> set l" "nl \<notin> set l" "nl \<noteq> nul" and "length l < n"
  shows "find_newline nul nl (pre @ map Some (l @ [nl]) @ b) (length pre) n = Inr (Newline (length pre + length l))"
  using assms
proof (induction l arbitrary: pre n)
  case Nil
  then show ?case by (cases n) (simp_all add: rd_def nth_append)
next
  case (Cons ch l)
  from Cons.prems obtain m where n: "n = Suc m" by (cases n) auto
  have "rd (pre @ map Some ((ch # l) @ [nl]) @ b) (length pre) = Inr ch" by (simp add: rd_def nth_append)
  with Cons.IH [of m "pre @ [Some ch]"] Cons.prems n show ?case by auto
qed

lemma find_newline_none:
  assumes "nul \<notin> set l" "nl \<notin> set l"
  shows "find_newline nul nl (pre @ map Some l @ b) (length pre) (length l) = Inr NoNewline"
  using assms
proof (induction l arbitrary: pre)
  case (Cons ch l)
  have "rd (pre @ map Some (ch # l) @ b) (length pre) = Inr ch" by (simp add: rd_def nth_append)
  with Cons.IH [of "pre @ [Some ch]"] Cons.prems show ?case by auto
qed simp

text \<open>The buffer holds the text \<open>p\<close> that is not delivered yet.\<close>

definition lb_rep :: "LineBuffer \<Rightarrow> string \<Rightarrow> bool" where
  "lb_rep lb p \<longleftrightarrow> length (lb_buffer lb) = C196BC72_BUFFER_SIZE \<and> NUL \<notin> set p \<and>
     unat (lb_size lb) = unat (lb_length lb) + length p \<and> unat (lb_size lb) \<le> C196BC72_BUFFER_SIZE \<and>
     holds (drop (unat (lb_length lb)) (lb_buffer lb)) p"

lemma holds_split: "holds b xs \<Longrightarrow> b = map Some xs @ drop (length xs) b"
  unfolding holds_def by (metis append_take_drop_id)

lemma lb_repD:
  assumes "lb_rep lb p"
  obtains pre post where "lb_buffer lb = pre @ map Some p @ post" "length pre = unat (lb_length lb)"
    "unat (lb_size lb) = length pre + length p" "length pre + length p + length post = 4072" "NUL \<notin> set p"
    "unat (lb_size lb - lb_length lb) = length p" "p = [] \<longleftrightarrow> lb_length lb = lb_size lb"
proof -
  let ?n = "unat (lb_length lb)"
  from assms have a: "length (lb_buffer lb) = 4072" "NUL \<notin> set p" "unat (lb_size lb) = ?n + length p"
    "unat (lb_size lb) \<le> 4072" "holds (drop ?n (lb_buffer lb)) p" by (auto simp: lb_rep_def C196BC72_BUFFER_SIZE_def)
  have b: "lb_buffer lb = take ?n (lb_buffer lb) @ map Some p @ drop (?n + length p) (lb_buffer lb)"
    using holds_split [OF a(5)] by (metis append_take_drop_id drop_drop add.commute)
  have "unat (lb_size lb - lb_length lb) = length p" using a(3) by (simp add: unat_sub_if_size)
  moreover have "p = [] \<longleftrightarrow> lb_length lb = lb_size lb" using a(3) by (auto simp: word_unat_eq_iff)
  ultimately show ?thesis using b a by (intro that [of "take ?n (lb_buffer lb)" "drop (?n + length p) (lb_buffer lb)"]) auto
qed

lemma getLine_found:
  assumes "lb_rep lb (l @ CHR 0x0A # p)" and "CHR 0x0A \<notin> set l"
  shows "\<exists>i lb'. c196bc72_getLine lb = Inr (Some (i, of_nat (length l)), lb') \<and> lb_rep lb' p \<and>
           text_at (lb_buffer lb') i = Inr l \<and> lb_size lb' = lb_size lb"
proof -
  from assms(1) obtain pre post where b: "lb_buffer lb = pre @ map Some (l @ CHR 0x0A # p) @ post"
    "length pre = unat (lb_length lb)" "unat (lb_size lb) = length pre + length (l @ CHR 0x0A # p)"
    "length pre + length (l @ CHR 0x0A # p) + length post = 4072" "NUL \<notin> set (l @ CHR 0x0A # p)"
    "unat (lb_size lb - lb_length lb) = length (l @ CHR 0x0A # p)"
    "l @ CHR 0x0A # p = [] \<longleftrightarrow> lb_length lb = lb_size lb" by (rule lb_repD)
  let ?b = "pre @ map Some (l @ [CHR 0x0A]) @ map Some p @ post"
  let ?c = "pre @ map Some (l @ [NUL]) @ map Some p @ post"
  have scan: "find_newline NUL CHR 0x0A ?b (length pre) (length (l @ CHR 0x0A # p)) = Inr (Newline (length pre + length l))"
    using assms(2) b(5) by (intro find_newline_here) auto
  have put: "wr ?b (length pre + length l) NUL = Inr ?c" by (simp add: wr_def list_update_append)
  have room: "length pre + length l + 1 < 2 ^ 32" using b(4) by simp
  have len: "unat (lb_length lb + of_nat (length l) + 1) = length pre + length l + 1"
    using b(2) room by (simp add: unat_word_ariths unat_of_nat)
  have "holds (drop (length pre) ?c) (l @ [NUL])" by (simp add: holds_def)
  then have reads: "text_at ?c (length pre) = Inr l"
    unfolding text_at_def using b(5) by (intro c_string_holds) auto
  let ?lb' = "lb\<lparr>lb_buffer := ?c, lb_line := (Some (length pre), of_nat (length l)), lb_length := lb_length lb + of_nat (length l) + 1\<rparr>"
  have "c196bc72_getLine lb = Inr (Some (length pre, of_nat (length l)), ?lb')"
    using b scan put by (simp add: c196bc72_getLine_def Let_def)
  moreover have "lb_rep ?lb' p"
    unfolding lb_rep_def using b len by (simp add: C196BC72_BUFFER_SIZE_def holds_def)
  ultimately show ?thesis using reads by (intro exI [of _ "length pre"] exI [of _ ?lb']) simp
qed

lemma getLine_none:
  assumes "lb_rep lb p" and "CHR 0x0A \<notin> set p"
  shows "\<exists>lb'. c196bc72_getLine lb = Inr (None, lb') \<and> lb_rep lb' p \<and> (p \<noteq> [] \<longrightarrow> lb_length lb' = 0)"
proof -
  from assms(1) obtain pre post where b: "lb_buffer lb = pre @ map Some p @ post"
    "length pre = unat (lb_length lb)" "unat (lb_size lb) = length pre + length p"
    "length pre + length p + length post = 4072" "NUL \<notin> set p" "unat (lb_size lb - lb_length lb) = length p"
    "p = [] \<longleftrightarrow> lb_length lb = lb_size lb" by (rule lb_repD)
  show ?thesis
  proof (cases "p = []")
    case True
    with assms(1) b(7) show ?thesis by (simp add: c196bc72_getLine_def)
  next
    case False
    let ?b = "pre @ map Some p @ post"
    have scan: "find_newline NUL CHR 0x0A ?b (length pre) (length p) = Inr NoNewline"
      using assms(2) b(5) by (intro find_newline_none) auto
    have mv: "blit ?b (length pre) (length p) ?b 0 = Inr (map Some p @ drop (length p) ?b)"
      by (simp add: blit_def)
    define c where "c = (if length p = 4072 then map Some p @ drop (length p) ?b
        else (map Some p @ drop (length p) ?b)[length p := Some NUL])"
    let ?lb' = "lb\<lparr>lb_buffer := c, lb_length := 0, lb_size := lb_size lb - lb_length lb\<rparr>"
    have "move_to_front lb = Inr ?lb'"
      using b(1,2,4,6) mv by (auto simp: move_to_front_def Let_def C196BC72_BUFFER_SIZE_def c_def wr_def)
    then have "c196bc72_getLine lb = Inr (None, ?lb')"
      using b False scan by (simp add: c196bc72_getLine_def Let_def)
    moreover have "lb_rep ?lb' p"
      unfolding lb_rep_def using b(4-6) by (auto simp: C196BC72_BUFFER_SIZE_def c_def holds_def)
    ultimately show ?thesis by (intro exI [of _ ?lb']) simp
  qed
qed

lemma populate_ok:
  assumes "lb_rep lb p" and "length chunk \<le> 4072 - unat (lb_size lb)" and "NUL \<notin> set chunk"
    and "sys_read (4072 - unat (lb_size lb)) = SysOk chunk"
  shows "\<exists>lb'. c196bc72_populateLineBuffer e sys_read lb = Inr lb' \<and> lb_rep lb' (p @ chunk)"
proof -
  from assms(1) obtain pre post where b: "lb_buffer lb = pre @ map Some p @ post"
    "length pre = unat (lb_length lb)" "unat (lb_size lb) = length pre + length p"
    "length pre + length p + length post = 4072" "NUL \<notin> set p" "unat (lb_size lb - lb_length lb) = length p"
    "p = [] \<longleftrightarrow> lb_length lb = lb_size lb" by (rule lb_repD)
  have room: "length chunk \<le> length post" using assms(2) b(3,4) by linarith
  have cp: "blit (map Some chunk) 0 (length chunk) (lb_buffer lb) (unat (lb_size lb)) =
      Inr (pre @ map Some (p @ chunk) @ drop (length chunk) post)"
    unfolding b(1,3) using room by (simp add: blit_def)
  have size: "unat (lb_size lb + of_nat (length chunk)) = length pre + length p + length chunk"
    using b(3,4) room by (simp add: unat_word_ariths unat_of_nat)
  show ?thesis
    using assms(3,4) b size cp room
    by (simp add: c196bc72_populateLineBuffer_def Let_def C196BC72_BUFFER_SIZE_def lb_rep_def holds_def)
qed

definition lines_of :: "string list \<Rightarrow> string" where
  "lines_of ls = concat (map (\<lambda>l. l @ newline) ls)"

lemma lines_of_simps [simp]:
  "lines_of [] = []" "lines_of (l # ls) = l @ CHR 0x0A # lines_of ls" "lines_of (ls @ ms) = lines_of ls @ lines_of ms"
  by (simp_all add: lines_of_def newline_def)

lemma take_lines_ok:
  "lb_rep lb p \<Longrightarrow>
   \<exists>ls q lb'. take_lines acc lb = Inr (acc @ ls, lb') \<and> lb_rep lb' q \<and> p = lines_of ls @ q \<and>
     (\<forall>l \<in> set (q # ls). CHR 0x0A \<notin> set l)"
proof (induction "length p" arbitrary: p acc lb rule: less_induct)
  case less
  show ?case
  proof (cases "CHR 0x0A \<in> set p")
    case False
    with getLine_none [OF less.prems] obtain lb' where "c196bc72_getLine lb = Inr (None, lb')" "lb_rep lb' p" by blast
    with False show ?thesis
      by (intro exI [of _ "[]"] exI [of _ p] exI [of _ lb'])
        (simp add: take_lines_def repeat_until_unfold [of _ "(acc, lb)"])
  next
    case True
    then obtain l p' where p: "p = l @ CHR 0x0A # p'" "CHR 0x0A \<notin> set l" by (meson split_list_first)
    from getLine_found [of lb l p'] less.prems p obtain i lb1 where g:
      "c196bc72_getLine lb = Inr (Some (i, of_nat (length l)), lb1)" "lb_rep lb1 p'" "text_at (lb_buffer lb1) i = Inr l"
      by blast
    have "length p' < length p" using p(1) by simp
    from less.hyps [OF this g(2), of "acc @ [l]"] obtain ls q lb' where
      r: "take_lines (acc @ [l]) lb1 = Inr (acc @ [l] @ ls, lb')" "lb_rep lb' q" "p' = lines_of ls @ q"
      "\<forall>l \<in> set (q # ls). CHR 0x0A \<notin> set l" by auto
    from g r(1) have "take_lines acc lb = Inr (acc @ l # ls, lb')"
      by (simp add: take_lines_def repeat_until_unfold [of _ "(acc, lb)"])
    with p r show ?thesis by (intro exI [of _ "l # ls"] exI [of _ q] exI [of _ lb']) auto
  qed
qed

lemma read_lines_ok:
  "lb_rep lb p \<Longrightarrow> CHR 0x0A \<notin> set p \<Longrightarrow> NUL \<notin> set content \<Longrightarrow>
   \<exists>ls q rest lb'. read_lines e ks content acc lb = Inr (acc @ ls, rest, lb') \<and> lb_rep lb' q \<and>
     p @ content = lines_of ls @ q @ rest \<and> (\<forall>l \<in> set (q # ls). CHR 0x0A \<notin> set l)"
proof (induction ks arbitrary: lb p content acc)
  case Nil
  then show ?case by (intro exI [of _ "[]"] exI [of _ p] exI [of _ content] exI [of _ lb]) simp
next
  case (Cons k ks)
  let ?n = "min k (4072 - unat (lb_size lb))"
  have "NUL \<notin> set (take ?n content)" using Cons.prems(3) in_set_takeD by fast
  moreover have "length (take ?n content) \<le> 4072 - unat (lb_size lb)" by simp
  ultimately obtain lb1 where
    lb1: "c196bc72_populateLineBuffer e (\<lambda>count. SysOk (take (min k count) content)) lb = Inr lb1"
    "lb_rep lb1 (p @ take ?n content)"
    using populate_ok [OF Cons.prems(1), of "take ?n content" "\<lambda>count. SysOk (take (min k count) content)" e] by blast
  from take_lines_ok [OF lb1(2), of acc] obtain ls q lb2 where
    t: "take_lines acc lb1 = Inr (acc @ ls, lb2)" "lb_rep lb2 q" "p @ take ?n content = lines_of ls @ q"
    "\<forall>l \<in> set (q # ls). CHR 0x0A \<notin> set l" by blast
  have "NUL \<notin> set (drop ?n content)" using Cons.prems(3) in_set_dropD by fast
  with Cons.IH [OF t(2), of "drop ?n content" "acc @ ls"] t(4) obtain ls' q' rest lb' where
    r: "read_lines e ks (drop ?n content) (acc @ ls) lb2 = Inr (acc @ ls @ ls', rest, lb')" "lb_rep lb' q'"
    "q @ drop ?n content = lines_of ls' @ q' @ rest" "\<forall>l \<in> set (q' # ls'). CHR 0x0A \<notin> set l" by auto
  have "p @ content = (p @ take ?n content) @ drop ?n content" by simp
  also have "\<dots> = lines_of (ls @ ls') @ q' @ rest" unfolding t(3) using r(3) by simp
  finally have "p @ content = lines_of (ls @ ls') @ q' @ rest" .
  with lb1(1) t(1,4) r show ?case
    by (intro exI [of _ "ls @ ls'"] exI [of _ q'] exI [of _ rest] exI [of _ lb'])
      (auto simp: C196BC72_BUFFER_SIZE_def Let_def)
qed

lemma create_rep: "\<exists>lb. c196bc72_createLineBuffer = Inr lb \<and> lb_rep lb []"
  by (simp add: c196bc72_createLineBuffer_def f668c4bd_meminit_def fresh_def lb_rep_def C196BC72_BUFFER_SIZE_def)

text \<open>When the lines end where the buffer ends, nothing is moved to the front and every further read asks for 0 chars.\<close>

lemma full_buffer_is_stuck:
  assumes "lb_rep lb []" and "unat (lb_size lb) = 4072"
  shows "read_lines e ks file acc lb = Inr (acc, file, lb)"
proof (induction ks)
  case (Cons k ks)
  have "lb_length lb = lb_size lb" "length (lb_buffer lb) = 4072"
    using assms by (auto simp: lb_rep_def C196BC72_BUFFER_SIZE_def word_unat_eq_iff)
  then have "c196bc72_getLine lb = Inr (None, lb)" by (simp add: c196bc72_getLine_def)
  then have "take_lines acc lb = Inr (acc, lb)"
    by (simp add: take_lines_def repeat_until_unfold [of _ "(acc, lb)"])
  moreover have "c196bc72_populateLineBuffer e (\<lambda>count. SysOk (take (min k count) file)) lb = Inr lb"
    using assms(2) \<open>length (lb_buffer lb) = 4072\<close>
    by (simp add: c196bc72_populateLineBuffer_def Let_def C196BC72_BUFFER_SIZE_def blit_def)
  ultimately show ?case using Cons assms(2) by (simp add: Let_def C196BC72_BUFFER_SIZE_def)
qed simp

subsection \<open>Properties\<close>

text \<open>C13: whatever amounts the reads of a file yield, no char is lost or repeated: the lines delivered so far, the
  incomplete line in the buffer and the unread rest are the file, and every line delivered is a line of it.\<close>

theorem lines_of_file:
  assumes "NUL \<notin> set file"
  shows "\<exists>lb ls q rest lb'. c196bc72_createLineBuffer = Inr lb \<and> read_lines e ks file [] lb = Inr (ls, rest, lb') \<and>
           lb_rep lb' q \<and> file = lines_of ls @ q @ rest \<and> (\<forall>l \<in> set (q # ls). CHR 0x0A \<notin> set l)"
proof -
  obtain lb where lb: "c196bc72_createLineBuffer = Inr lb" "lb_rep lb []" using create_rep by blast
  from read_lines_ok [OF lb(2) _ assms, of e ks "[]"] obtain ls q rest lb' where
    "read_lines e ks file [] lb = Inr (ls, rest, lb')" "lb_rep lb' q" "file = lines_of ls @ q @ rest"
    "\<forall>l \<in> set (q # ls). CHR 0x0A \<notin> set l" by auto
  with lb(1) show ?thesis by blast
qed

lemma lines_of_file_witness:
  "\<forall>e. \<exists>lb ls q rest lb'. c196bc72_createLineBuffer = Inr lb \<and>
     read_lines e [2, 3] (''ab'' @ newline @ ''cd'') [] lb = Inr (ls, rest, lb') \<and> ''ab'' @ newline @ ''cd'' = lines_of ls @ q @ rest"
proof
  fix e
  have "NUL \<notin> set (''ab'' @ newline @ ''cd'')" by (simp add: newline_def)
  from lines_of_file [OF this, of e "[2, 3]"]
  show "\<exists>lb ls q rest lb'. c196bc72_createLineBuffer = Inr lb \<and>
     read_lines e [2, 3] (''ab'' @ newline @ ''cd'') [] lb = Inr (ls, rest, lb') \<and> ''ab'' @ newline @ ''cd'' = lines_of ls @ q @ rest"
    by blast
qed

end
