(* ===== verification/MachineInfo.thy ===== *)
theory MachineInfo
  imports Process LittleEndian
begin

text \<open>
  info/: what the processor says of itself and the system's counters. The instruction cpuid is a parameter, a function
  from the leaf to the registers EAX, EBX, ECX and EDX; the flags of a CPUID are its bools in memory order, from
  hasx87Fpu (EDX, bit 0) to alwaysZero (ECX, bit 31), as the bytes that are stored.
\<close>

unbundle bit_operations_syntax

type_synonym cpuid_leaf = "u32 \<Rightarrow> u32 \<times> u32 \<times> u32 \<times> u32"

record CPUID =
  ci_modelName :: "u8 block"
  ci_vendorId :: "u8 block"
  ci_maxCpuIdLevel :: "u32 option"
  ci_family :: "u32 option"
  ci_model :: "u32 option"
  ci_steppingId :: "u32 option"
  ci_brandIndex :: "u32 option"
  ci_clflushSize :: "u32 option"
  ci_numLogicalProcs :: "u32 option"
  ci_numPhysicalCores :: "u32 option"
  ci_flags :: "u8 block"

subsection \<open>Names\<close>

definition EXTEND_INFO :: u32 where "EXTEND_INFO = 0x80000000"
definition MODEL_NAME_1 :: u32 where "MODEL_NAME_1 = 0x80000002"
definition MODEL_NAME_3 :: u32 where "MODEL_NAME_3 = 0x80000004"

definition name_part :: "cpuid_leaf \<Rightarrow> u32 \<Rightarrow> u8 list" where
  "name_part cpuid leaf = (let (eax, ebx, ecx, edx) = cpuid leaf in le32 eax @ le32 ebx @ le32 ecx @ le32 edx)"

text \<open>Three parts of 16 bytes; without them only the first four bytes are cleared.\<close>

definition f618482d_getModelName :: "cpuid_leaf \<Rightarrow> CPUID \<Rightarrow> CPUID result" where
  "f618482d_getModelName cpuid info =
     bnd (if fst (cpuid EXTEND_INFO) \<ge> MODEL_NAME_3
          then fold_result (\<lambda>name i. blit (map Some (name_part cpuid (MODEL_NAME_1 + of_nat i))) 0 16 name (16 * i))
                 (ci_modelName info) [0..<3]
          else f668c4bd_meminit 0 (ci_modelName info) 0 4) (\<lambda>name.
     Inr (info\<lparr>ci_modelName := name\<rparr>))"

text \<open>EBX, EDX and ECX, in this order, and four zeros.\<close>

definition f618482d_getVendorID :: "cpuid_leaf \<Rightarrow> CPUID \<Rightarrow> CPUID result" where
  "f618482d_getVendorID cpuid info =
     (let (eax, ebx, ecx, edx) = cpuid 0
      in bnd (blit (map Some (le32 ebx @ le32 edx @ le32 ecx @ [0, 0, 0, 0])) 0 16 (ci_vendorId info) 0) (\<lambda>vendor.
         Inr (info\<lparr>ci_vendorId := vendor, ci_maxCpuIdLevel := Some eax\<rparr>)))"

subsection \<open>getProcessorInfo\<close>

text \<open>The SSE instructions, on the sixteen bytes of their registers.\<close>

definition broadcast_bytes :: "u8 \<Rightarrow> u8 \<Rightarrow> u8 list" where
  "broadcast_bytes lo hi = replicate 8 lo @ replicate 8 hi"

definition pand :: "u8 list \<Rightarrow> u8 list \<Rightarrow> u8 list" where "pand a b = map2 (AND) a b"

definition pcmpeqb :: "u8 list \<Rightarrow> u8 list \<Rightarrow> u8 list" where
  "pcmpeqb a b = map2 (\<lambda>x y. if x = y then 0xFF else 0) a b"

definition pandn :: "u8 list \<Rightarrow> u8 list \<Rightarrow> u8 list" where "pandn a b = map2 (\<lambda>x y. NOT x AND y) a b"

definition flag_masks :: "u8 list" where
  "flag_masks = [0x01, 0x02, 0x04, 0x08, 0x10, 0x20, 0x40, 0x80] @ [0x01, 0x02, 0x04, 0x08, 0x10, 0x20, 0x40, 0x80]"

text \<open>A byte for each of sixteen bits.\<close>

definition flag_bytes :: "u8 \<Rightarrow> u8 \<Rightarrow> u8 list" where
  "flag_bytes lo hi = pandn (pcmpeqb (pand (broadcast_bytes lo hi) flag_masks) (replicate 16 0)) (replicate 16 1)"

definition register_flags :: "u32 \<Rightarrow> u8 list" where
  "register_flags r =
     flag_bytes (ucast r) (ucast (drop_bit 8 r)) @ flag_bytes (ucast (drop_bit 16 r)) (ucast (drop_bit 24 r))"

text \<open>
  Family and model are computed in byte registers. The extended family is added when the family is not 15; then the
  extended model, when the sum is 6 or 15.
\<close>

definition processor_family :: "u32 \<Rightarrow> u8" where
  "processor_family eax =
     (let family = ucast (drop_bit 8 eax) AND 0x0F
      in if family = 0x0F then family else family + ucast (drop_bit 20 eax))"

definition processor_model :: "u32 \<Rightarrow> u8" where
  "processor_model eax =
     (let family = processor_family eax; model = drop_bit 4 (ucast eax)
      in if family = 0x0F \<or> family = 0x06 then model + (ucast (drop_bit 12 eax) AND 0xF0) else model)"

definition f618482d_getProcessorInfo :: "cpuid_leaf \<Rightarrow> CPUID \<Rightarrow> CPUID result" where
  "f618482d_getProcessorInfo cpuid info =
     (let (eax, ebx, ecx, edx) = cpuid 1
      in bnd (blit (map Some (register_flags edx @ register_flags ecx)) 0 64 (ci_flags info) 0) (\<lambda>flags.
         Inr (info\<lparr>ci_family := Some (ucast (processor_family eax)),
                   ci_model := Some (ucast (processor_model eax)),
                   ci_steppingId := Some (eax AND 0x0F),
                   ci_brandIndex := Some (ebx AND 0xFF),
                   ci_clflushSize := Some (drop_bit 8 ebx AND 0xFF),
                   ci_numLogicalProcs := Some (drop_bit 16 ebx AND 0xFF),
                   ci_flags := flags\<rparr>)))"

subsection \<open>The C functions\<close>

definition lscpu_command :: string where
  "lscpu_command = ''/usr/bin/lscpu | /usr/bin/awk '' @ [CHR 0x27] @
     ''/(Thread... per core:|Core... per socket:)/{ print $4 }'' @ [CHR 0x27]"

text \<open>The threads come first. The parameters are those of the shell stream.\<close>

definition f618482d_getCoreTopology ::
    "(string \<Rightarrow> string ptr) \<Rightarrow> (string \<Rightarrow> u32) \<Rightarrow> (string \<Rightarrow> (u32 option \<times> string) option) \<Rightarrow> CPUID \<Rightarrow> CPUID result" where
  "f618482d_getCoreTopology c_popen c_fileno scan_d info =
     bnd (f6843e7e_openShellForRead c_popen c_fileno lscpu_command) (\<lambda>lscpu.
     bnd (f6843e7e_readInt scan_d lscpu) (\<lambda>(numThreadsPerCore, lscpu).
     bnd (f6843e7e_readInt scan_d lscpu) (\<lambda>(cores, lscpu).
     Inr (info\<lparr>ci_numPhysicalCores := Some cores, ci_numLogicalProcs := Some (numThreadsPerCore * cores)\<rparr>))))"

definition c6059903_initSystemInfo :: "env \<Rightarrow> 'i sysret \<Rightarrow> 'i result" where
  "c6059903_initSystemInfo e sys_sysinfo =
     (case sys_sysinfo of
        SysOk info \<Rightarrow> Inr info
      | SysErr errno \<Rightarrow> Inl (Exit (c7c88e52_printLibError e ''c6059903_initSystemInfo error: '' errno)))"

subsection \<open>Lemmas\<close>

lemma byte_masks:
  fixes b :: u8
  shows "b AND 1 = 0 \<longleftrightarrow> \<not> bit b 0" "b AND 2 = 0 \<longleftrightarrow> \<not> bit b 1" "b AND 4 = 0 \<longleftrightarrow> \<not> bit b 2"
    "b AND 8 = 0 \<longleftrightarrow> \<not> bit b 3" "b AND 16 = 0 \<longleftrightarrow> \<not> bit b 4" "b AND 32 = 0 \<longleftrightarrow> \<not> bit b 5"
    "b AND 64 = 0 \<longleftrightarrow> \<not> bit b 6" "b AND 128 = 0 \<longleftrightarrow> \<not> bit b 7"
  using and_exp_eq_0_iff_not_bit [of b 0] and_exp_eq_0_iff_not_bit [of b 1] and_exp_eq_0_iff_not_bit [of b 2]
    and_exp_eq_0_iff_not_bit [of b 3] and_exp_eq_0_iff_not_bit [of b 4] and_exp_eq_0_iff_not_bit [of b 5]
    and_exp_eq_0_iff_not_bit [of b 6] and_exp_eq_0_iff_not_bit [of b 7] by simp_all

lemma not_byte: "NOT (if c then 0xFF else 0) AND 1 = (of_bool (\<not> c) :: u8)"
  by simp

lemma flag_bytes_bits:
  "flag_bytes lo hi = map (\<lambda>k. of_bool (bit lo k)) [0..<8] @ map (\<lambda>k. of_bool (bit hi k)) [0..<8]"
  by (simp add: flag_bytes_def pandn_def pcmpeqb_def pand_def broadcast_bytes_def flag_masks_def numeral_eq_Suc
      upt_conv_Cons byte_masks not_byte)

lemma register_flags_bits: "register_flags r = map (\<lambda>k. of_bool (bit r k)) [0..<32]"
proof -
  have "[0..<32] = [0..<8] @ map (\<lambda>k. 8 + k) [0..<8] @ map (\<lambda>k. 16 + k) [0..<8] @ map (\<lambda>k. 24 + k) [0..<8 :: nat]"
    by code_simp
  then show ?thesis
    by (simp add: register_flags_def flag_bytes_bits bit_simps add.commute del: upt_Suc)
qed

lemma length_register_flags [simp]: "length (register_flags r) = 32"
  by (simp add: register_flags_bits)

text \<open>The twelve chars of the vendor.\<close>

lemma vendor_id:
  assumes "cpuid 0 = (eax, ebx, ecx, edx)" and "length (ci_vendorId info) = 16"
  shows "\<exists>info'. f618482d_getVendorID cpuid info = Inr info' \<and> ci_maxCpuIdLevel info' = Some eax \<and>
           ci_vendorId info' = map Some (le32 ebx @ le32 edx @ le32 ecx @ [0, 0, 0, 0])"
  using assms by (simp add: f618482d_getVendorID_def blit_def)

text \<open>The name is that of three leaves, when the processor has them.\<close>

lemma model_name:
  assumes "fst (cpuid EXTEND_INFO) \<ge> MODEL_NAME_3" and "length (ci_modelName info) = 48"
  shows "\<exists>info'. f618482d_getModelName cpuid info = Inr info' \<and>
           ci_modelName info' = map Some (name_part cpuid 0x80000002 @ name_part cpuid 0x80000003 @ name_part cpuid 0x80000004)"
proof -
  have len: "length (name_part cpuid leaf) = 16" for leaf by (simp add: name_part_def case_prod_unfold Let_def)
  have "[0..<3] = [0, 1, 2 :: nat]" by (simp add: upt_rec)
  with assms len show ?thesis
    by (simp add: f618482d_getModelName_def MODEL_NAME_1_def blit_def)
qed

text \<open>A family of 15 is the one to which the extended family must be added; here it is the one to which it is not.\<close>

lemma extended_family_left_out:
  "processor_family 0x00800F12 = 15" "processor_family 0x000906EA = 6"
  by code_simp+

subsection \<open>Properties\<close>

text \<open>C11: the SSE computation of the 64 feature bools is right: the k-th bool is 1 exactly when bit k of EDX is set, and
  the (32 + k)-th exactly when bit k of ECX is.\<close>

theorem processor_flags:
  assumes "cpuid 1 = (eax, ebx, ecx, edx)" and "length (ci_flags info) = 64" and "k < 32"
  shows "\<exists>info'. f618482d_getProcessorInfo cpuid info = Inr info' \<and>
           ci_flags info' ! k = Some (of_bool (bit edx k)) \<and> ci_flags info' ! (32 + k) = Some (of_bool (bit ecx k))"
proof -
  let ?flags = "register_flags edx @ register_flags ecx"
  have "?flags ! k = of_bool (bit edx k)" "?flags ! (32 + k) = of_bool (bit ecx k)"
    using assms(3) by (simp_all add: nth_append) (simp_all add: register_flags_bits)
  then have "map Some ?flags ! k = Some (of_bool (bit edx k))" "map Some ?flags ! (32 + k) = Some (of_bool (bit ecx k))"
    using assms(3) by (simp_all add: nth_append)
  moreover have "blit (map Some ?flags) 0 64 (ci_flags info) 0 = Inr (map Some ?flags)"
    using assms(2) by (simp add: blit_def)
  ultimately show ?thesis
    using assms(1) by (simp add: f618482d_getProcessorInfo_def)
qed

lemma processor_flags_witness:
  "\<forall>info. \<exists>info'. f618482d_getProcessorInfo (\<lambda>_. (0x906EA, 0, 0, 16)) (info\<lparr>ci_flags := fresh 64\<rparr>) = Inr info' \<and>
     ci_flags info' ! 4 = Some 1"
proof
  fix info
  from processor_flags [of "\<lambda>_. (0x906EA, 0, 0, 16)" "0x906EA" 0 0 16 "info\<lparr>ci_flags := fresh 64\<rparr>" 4]
  show "\<exists>info'. f618482d_getProcessorInfo (\<lambda>_. (0x906EA, 0, 0, 16)) (info\<lparr>ci_flags := fresh 64\<rparr>) = Inr info' \<and>
     ci_flags info' ! 4 = Some 1" by (auto simp: fresh_def bit_numeral_rec)
qed

end
