(* ===== verification/CommandLine.thy ===== *)
theory CommandLine
  imports TextCursor
begin

text \<open>
  The arguments of a program (terminal/commandline), and what a program shows and asks on a terminal
  (terminal/ansi.c, terminal/userinput.c); the error exit of text/regex.c. \<open>argv\<close> ends with NULL, at the index argc.
\<close>

record CmdLineParam =
  cl_usageMsg :: string
  cl_argv :: "string ptr list"
  cl_argc :: u32

definition d7ad7024_initCmdLineParam :: "u32 \<Rightarrow> string ptr list \<Rightarrow> string \<Rightarrow> CmdLineParam" where
  "d7ad7024_initCmdLineParam argc argv usageMsg = \<lparr>cl_usageMsg = usageMsg, cl_argv = argv, cl_argc = argc\<rparr>"

definition argument :: "CmdLineParam \<Rightarrow> u32 \<Rightarrow> string ptr result" where
  "argument p i = (if unat i < length (cl_argv p) then Inr (cl_argv p ! unat i) else Inl OutOfBounds)"

definition missingParameter :: "env \<Rightarrow> CmdLineParam \<Rightarrow> string \<Rightarrow> 'a result" where
  "missingParameter e p paramName =
     Inl (Exit (c7c88e52_missingParam e paramName @ c7c88e52_printUsage (cl_usageMsg p)))"

definition invalidValue :: "env \<Rightarrow> CmdLineParam \<Rightarrow> string \<Rightarrow> string \<Rightarrow> 'a result" where
  "invalidValue e p paramName arg =
     Inl (Exit (c7c88e52_invalidValue e paramName arg @ c7c88e52_printUsage (cl_usageMsg p)))"

text \<open>The argument behind the index is meant; only the index argc itself is refused.\<close>

definition d7ad7024_getString :: "env \<Rightarrow> CmdLineParam \<Rightarrow> string \<Rightarrow> u32 \<Rightarrow> string ptr result" where
  "d7ad7024_getString e p paramName i =
     (if i + 1 = cl_argc p then missingParameter e p paramName else argument p (i + 1))"

text \<open>The digits of an unsigned number at the width of the word; no value when a char is no digit.\<close>

fun digits_loop :: "string \<Rightarrow> 'w::len word \<Rightarrow> 'w word option" where
  "digits_loop [] v = Some v"
| "digits_loop (ch # s) v =
     (if schar ch > 57 \<or> schar ch < 48 then None else digits_loop s (v * 10 + of_int (schar ch - 48)))"

definition parse_argument :: "env \<Rightarrow> CmdLineParam \<Rightarrow> string \<Rightarrow> u32 \<Rightarrow> 'w::len word result" where
  "parse_argument e p paramName i =
     (if i = cl_argc p then missingParameter e p paramName
      else bnd (argument p i) (\<lambda>a. bnd (deref a) (\<lambda>arg.
           case digits_loop arg 0 of None \<Rightarrow> invalidValue e p paramName arg | Some v \<Rightarrow> Inr v)))"

text \<open>Unlike the other functions this one takes the argument at the index itself.\<close>

definition d7ad7024_getUint32 :: "env \<Rightarrow> CmdLineParam \<Rightarrow> string \<Rightarrow> u32 \<Rightarrow> u32 result" where
  "d7ad7024_getUint32 e p paramName argIndex = parse_argument e p paramName argIndex"

definition d7ad7024_getUint64 :: "env \<Rightarrow> CmdLineParam \<Rightarrow> string \<Rightarrow> u32 \<Rightarrow> u64 result" where
  "d7ad7024_getUint64 e p paramName i = parse_argument e p paramName (i + 1)"

fun equal_loop :: "string \<Rightarrow> string \<Rightarrow> bool" where
  "equal_loop (a # s) (b # t) = (if a \<noteq> b then False else equal_loop s t)"
| "equal_loop [] [] = True"
| "equal_loop _ _ = False"

definition d7ad7024_isEqual :: "CmdLineParam \<Rightarrow> string \<Rightarrow> u32 \<Rightarrow> bool result" where
  "d7ad7024_isEqual p v argIndex =
     bnd (argument p argIndex) (\<lambda>a. bnd (deref a) (\<lambda>arg. Inr (equal_loop arg v)))"

subsection \<open>Terminal\<close>

text \<open>What printf writes, as code points: chars and the wide chars of the box.\<close>

definition ANSI_PURPLE :: string where "ANSI_PURPLE = CHR 0x1B # ''[95m''"

definition singleLineList :: "nat list" where "singleLineList = [0x250C, 0x2500, 0x2510, 0x2502, 0x2514, 0x2518]"
definition doubleLineList :: "nat list" where "doubleLineList = [0x2554, 0x2550, 0x2557, 0x2551, 0x255A, 0x255D]"

definition code_points :: "string \<Rightarrow> nat list" where "code_points s = map of_char s"

definition d99c60f5_printBox :: "string \<Rightarrow> bool \<Rightarrow> nat list" where
  "d99c60f5_printBox msg useDoubleLine =
     (let lineList = (if useDoubleLine then doubleLineList else singleLineList);
          msgLength = f6215943_getLength (Some msg) + 2;
          boxLine = replicate (unat msgLength) (lineList ! 1)
      in code_points (ANSI_BOLD @ ANSI_PURPLE @ newline) @
         [lineList ! 0] @ boxLine @ [lineList ! 2] @ code_points newline @
         [lineList ! 3] @ code_points ('' '' @ ANSI_WHITE @ msg @ ANSI_PURPLE @ '' '') @ [lineList ! 3] @ code_points newline @
         [lineList ! 4] @ boxLine @ [lineList ! 5] @ code_points (newline @ ANSI_RESET @ newline))"

text \<open>The size asked for is that of the pointer, so seven chars are read; at the end of the input sscanf gets NULL.\<close>

definition a5c0506e_read_uint64 :: "(string \<Rightarrow> u32 \<times> u64 ptr) \<Rightarrow> string \<Rightarrow> ((u32 \<times> u64 ptr) \<times> string) result" where
  "a5c0506e_read_uint64 sscanf inp =
     (case fgets 7 inp of None \<Rightarrow> Inl NullPointer | Some (line, rest) \<Rightarrow> Inr (sscanf line, rest))"

subsection \<open>text/regex.c\<close>

text \<open>\<open>error\<close> is what regcomp and regerror say: 0, or an error code with its text, which is absent for a size of 0.\<close>

definition b395ed5f_compileRegExpr :: "env \<Rightarrow> string \<Rightarrow> (u32 \<times> string ptr) \<Rightarrow> unit result" where
  "b395ed5f_compileRegExpr e regExpr error =
     (case error of (errorCode, text) \<Rightarrow>
        if errorCode = 0 then Inr ()
        else bnd (case text of
                    Some m \<Rightarrow> Inr m
                  | None \<Rightarrow> message (quoted (''Could not compile regex '' @ [quote]) regExpr)) (\<lambda>m.
             Inl (Exit (c7c88e52_printError_string e m))))"

subsection \<open>Lemmas\<close>

lemma equal_loop_iff: "equal_loop s t \<longleftrightarrow> s = t"
  by (induction s t rule: equal_loop.induct) auto

lemma digits_loop_value:
  "\<forall>ch \<in> set s. is_digit ch \<Longrightarrow> digits_loop s v = Some (v * 10 ^ length s + of_nat (digits_value s))"
proof (induction s arbitrary: v)
  case (Cons ch s)
  have d: "0 \<le> digit_of ch" "digit_of ch \<le> 9" using Cons.prems by (auto simp: is_digit_def)
  then have "of_int (schar ch - 48) = (of_nat (nat (digit_of ch)) :: 'a word)"
    by (simp add: digit_of_def)
  moreover have "digits_value (ch # s) = nat (digit_of ch) * 10 ^ length s + digits_value s"
    using foldl_value [of "nat (digit_of ch)" s] by (simp add: digits_value_def)
  ultimately show ?case
    using Cons d by (simp add: digit_of_def algebra_simps)
qed (simp add: digits_value_def)

lemma digits_loop_bad: "\<exists>ch \<in> set s. \<not> is_digit ch \<Longrightarrow> digits_loop s v = None"
  by (induction s arbitrary: v) (auto simp: is_digit_def digit_of_def)

text \<open>
  An unsigned argument: its decimal text gives the value back, any other text ends the program with a message that
  names the parameter and shows the argument.
\<close>

lemma getUint64_argument:
  assumes "i + 1 \<noteq> cl_argc p" and "argument p (i + 1) = Inr (Some arg)"
  shows "d7ad7024_getUint64 e p name i =
    (if \<forall>ch \<in> set arg. is_digit ch then Inr (of_nat (digits_value arg)) else invalidValue e p name arg)"
  using assms digits_loop_value [of arg "0 :: u64"] digits_loop_bad [of arg "0 :: u64"]
  by (auto simp: d7ad7024_getUint64_def parse_argument_def)

lemma getUint64_roundtrip:
  assumes "i + 1 \<noteq> cl_argc p" and "argument p (i + 1) = Inr (Some (dec_string (unat v)))"
  shows "d7ad7024_getUint64 e p name i = Inr v"
  using getUint64_argument [OF assms] dec_string_digits by (simp add: dec_string_value)

lemma isEqual_argument:
  "argument p i = Inr (Some arg) \<Longrightarrow> d7ad7024_isEqual p v i = Inr (arg = v)"
  by (simp add: d7ad7024_isEqual_def equal_loop_iff)

end
