(* ===== verification/KernelFile.thy ===== *)
theory KernelFile
  imports IPv4Text File
begin

text \<open>
  system/linux.linux-x86_64.asm, io/file.linux-x86_64.asm and io/stream.linux-x86_64.asm: numbers and texts in the small
  files of the kernel, read with the system calls alone, and a text that is put back into a stream. A buffer on the stack
  starts unset; a register that was loaded from it is a list of its cells, low byte first, with zeros behind them.
\<close>

unbundle bit_operations_syntax

definition reg_cell :: "char option list \<Rightarrow> char result" where
  "reg_cell reg = (case reg of [] \<Rightarrow> Inr NUL | None # _ \<Rightarrow> Inl Uninitialised | Some ch # _ \<Rightarrow> Inr ch)"

definition load_cells :: "char block \<Rightarrow> nat \<Rightarrow> nat \<Rightarrow> char option list result" where
  "load_cells buf off n = (if off + n \<le> length buf then Inr (take n (drop off buf)) else Inl OutOfBounds)"

subsection \<open>system/linux: reading a number\<close>

text \<open>
  One round: a digit is added, then the next char is looked at. After seven rounds the char buffer is loaded with the four bytes
  behind the first eight.
\<close>

definition convert_round ::
    "char block \<Rightarrow> nat \<times> char option list \<times> u32 \<Rightarrow> ((nat \<times> char option list \<times> u32) + u32) result" where
  "convert_round buf = (\<lambda>(cl, r8, eax).
     bnd (reg_cell r8) (\<lambda>ch.
     if schar ch > 0x39 \<or> schar ch < 0x30 then Inr (Inr eax)
     else
       let eax = 10 * eax + word_of_int (schar ch - 0x30); r8 = tl r8
       in bnd (reg_cell r8) (\<lambda>ch.
          if ch = NUL then Inr (Inr eax)
          else if cl = 1 then bnd (load_cells buf 8 4) (\<lambda>r8. Inr (Inl (4, r8, eax)))
          else Inr (Inl (cl - 1, r8, eax)))))"

definition convertString :: "char block \<Rightarrow> u32 result" where
  "convertString buf =
     bnd (load_cells buf 0 8) (\<lambda>r8.
     bnd (reg_cell r8) (\<lambda>ch.
     if schar ch > 0x39 \<or> schar ch < 0x30 then Inr 0
     else
       let eax = word_of_int (schar ch - 0x30); r8 = tl r8
       in bnd (reg_cell r8) (\<lambda>ch. if ch = NUL then Inr eax else repeat_until (convert_round buf) (7, r8, eax))))"

text \<open>
  The text on stderr and the value, None where the function returns without setting it. \<open>perror\<close> prints the error of
  errno, which the calls here do not set.
\<close>

definition e0004944_getUnsignedInt ::
    "env \<Rightarrow> (string \<Rightarrow> string) \<Rightarrow> (string \<Rightarrow> u32 \<Rightarrow> u32 sysret) \<Rightarrow> (u32 \<Rightarrow> nat \<Rightarrow> string sysret) \<Rightarrow> (u32 \<Rightarrow> unit sysret) \<Rightarrow>
     string \<Rightarrow> (string \<times> u32 option) result" where
  "e0004944_getUnsignedInt e perror sys_open sys_read sys_close infoPath =
     (let readError = \<lambda>rax. bnd (e0004944_printError e infoPath (- rax)) (\<lambda>out. Inr (out, Some 0))
      in case sys_open infoPath O_RDONLY of
           SysErr errno \<Rightarrow> bnd (e0004944_printError e infoPath (word_of_int errno)) (\<lambda>out. Inr (out, None))
         | SysOk fd \<Rightarrow>
             (case sys_read fd 16 of
                SysErr errno \<Rightarrow> readError (- word_of_int errno)
              | SysOk s \<Rightarrow>
                  bnd (blit (map Some s) 0 (length s) (fresh 16) 0) (\<lambda>buf.
                  if (of_nat (length s) :: u8) \<ge> 12 then readError (of_nat (length s))
                  else
                    let out = (case sys_close fd of SysOk u \<Rightarrow> [] | SysErr errno \<Rightarrow> perror ''Cannot close file'')
                    in if length s = 0 then Inr (out, Some 0)
                       else bnd (wr buf (length s) NUL) (\<lambda>buf.
                            bnd (convertString buf) (\<lambda>n. Inr (out, Some n))))))"

subsection \<open>system/linux: writing a number\<close>

text \<open>The digits move up in the register while the next one is put below them.\<close>

function convertUnsigned :: "u32 \<Rightarrow> string \<Rightarrow> nat \<Rightarrow> string \<times> nat" where
  "convertUnsigned eax xmm0 strLen =
     (if eax < 10 then (char_of (unat (eax + 0x30)) # xmm0, strLen + 1)
      else convertUnsigned (eax div 10) (char_of (unat (eax mod 10 + 0x30)) # xmm0) (strLen + 1))"
  by pat_completeness auto
termination
  by (relation "measure (\<lambda>(eax, _). unat eax)") (auto simp: unat_div word_less_nat_alt not_less)

declare convertUnsigned.simps [simp del]

text \<open>The text on stderr and what was handed to write, if it came to that. A short write counts as a success.\<close>

definition e0004944_setUnsignedInt ::
    "env \<Rightarrow> (string \<Rightarrow> string) \<Rightarrow> (string \<Rightarrow> u32 \<Rightarrow> u32 sysret) \<Rightarrow> (u32 \<Rightarrow> string \<Rightarrow> nat sysret) \<Rightarrow> (u32 \<Rightarrow> unit sysret) \<Rightarrow>
     string \<Rightarrow> u32 \<Rightarrow> (string \<times> (u32 \<times> string) option) result" where
  "e0004944_setUnsignedInt e perror sys_open sys_write sys_close infoPath value =
     (let (xmm0, strLen) = convertUnsigned value [] 0; buf = take 16 (xmm0 @ replicate 16 NUL); str = take strLen buf
      in case sys_open infoPath O_WRONLY of
           SysErr errno \<Rightarrow> bnd (e0004944_printError e infoPath (word_of_int errno)) (\<lambda>out. Inr (out, None))
         | SysOk fd \<Rightarrow>
             bnd (case sys_write fd str of
                    SysErr errno \<Rightarrow> e0004944_printError e infoPath (word_of_int errno)
                  | SysOk n \<Rightarrow> Inr []) (\<lambda>out.
             let out' = (case sys_close fd of SysOk u \<Rightarrow> [] | SysErr errno \<Rightarrow> perror ''Cannot close file'')
             in Inr (out @ out', Some (fd, str))))"

subsection \<open>io/file: texts and hexadecimal numbers\<close>

text \<open>
  The result of open is tested with \<open>test eax, -1\<close>, which is zero only for 0: so descriptor 0 counts as a failure, and a failed
  open goes on with descriptor -1. The value is what is in EAX; after a failed read that is -1.
\<close>

definition open_eax :: "u32 sysret \<Rightarrow> u32" where
  "open_eax r = (case r of SysOk fd \<Rightarrow> fd | SysErr errno \<Rightarrow> - 1)"

definition e2f74138_readString ::
    "(string \<Rightarrow> u32 \<Rightarrow> u32 sysret) \<Rightarrow> (u32 \<Rightarrow> nat \<Rightarrow> string sysret) \<Rightarrow> string \<Rightarrow> char block \<Rightarrow> u32 \<Rightarrow> (u32 \<times> char block) result" where
  "e2f74138_readString sys_open sys_read pathName buffer bufSize =
     (let eax = open_eax (sys_open pathName O_RDONLY)
      in if eax = 0 then Inr (0, buffer)
         else case sys_read eax (unat bufSize) of
                SysErr errno \<Rightarrow> Inr (- 1, buffer)
              | SysOk s \<Rightarrow> bnd (blit (map Some s) 0 (length s) buffer 0) (\<lambda>buffer. Inr (of_nat (length s), buffer)))"

definition hex_char_value :: "char \<Rightarrow> u32 option" where
  "hex_char_value ch =
     (let dl = of_char ch :: u8
      in if dl > 0x39 then
           let dl = dl OR 0x20 in if dl > 0x66 \<or> dl < 0x61 then None else Some (ucast (dl - 0x61 + 0x0A))
         else if dl < 0x30 then None else Some (ucast (dl - 0x30)))"

text \<open>
  One digit: the register RDX, the counter R8B of the chars in it, the place in the buffer and the value. The counter
  is not set before the first round.
\<close>

definition hex_round ::
    "char block \<Rightarrow> char option list \<times> u8 \<times> nat \<times> u32 \<Rightarrow> ((char option list \<times> u8 \<times> nat \<times> u32) + u32) result" where
  "hex_round buf = (\<lambda>(rdx, r8b, rsi, eax).
     bnd (reg_cell rdx) (\<lambda>ch.
     if ch = NUL then Inr (Inr eax)
     else case hex_char_value ch of
            None \<Rightarrow> Inr (Inr eax)
          | Some d \<Rightarrow>
              let eax = push_bit 4 eax + d; rdx = tl rdx; r8b = r8b - 1; rsi = rsi + 1
              in if r8b \<noteq> 0 then Inr (Inl (rdx, r8b, rsi, eax))
                 else bnd (load_cells buf rsi 8) (\<lambda>rdx. Inr (Inl (rdx, 8, rsi, eax)))))"

definition e2f74138_readUint32Hex ::
    "(string \<Rightarrow> u32 \<Rightarrow> u32 sysret) \<Rightarrow> (u32 \<Rightarrow> nat \<Rightarrow> string sysret) \<Rightarrow> u8 \<Rightarrow> string \<Rightarrow> u32 result" where
  "e2f74138_readUint32Hex sys_open sys_read r8b pathName =
     (let eax = open_eax (sys_open pathName O_RDONLY)
      in if eax = 0 then Inr 0
         else bnd (case sys_read eax 16 of
                     SysErr errno \<Rightarrow> Inr (- 1 :: u32, fresh 16)
                   | SysOk s \<Rightarrow> bnd (blit (map Some s) 0 (length s) (fresh 16) 0) (\<lambda>buf. Inr (of_nat (length s), buf))) (\<lambda>(eax, buf).
              if (ucast eax :: u8) = 0 then Inr eax
              else bnd (load_cells buf 0 8) (\<lambda>rdx. repeat_until (hex_round buf) (rdx, r8b, 0, 0))))"

subsection \<open>io/stream: putting a text back\<close>

text \<open>
  From the last char to the first. For a null pointer the registers are popped that were not pushed, and the return
  address with them.
\<close>

definition a8d15ebe_ungetString :: "(char \<Rightarrow> 's \<Rightarrow> 's) \<Rightarrow> char block ptr \<Rightarrow> 's \<Rightarrow> 's result" where
  "a8d15ebe_ungetString ungetc str stream =
     (case str of None \<Rightarrow> Inl OutOfBounds | Some b \<Rightarrow> bnd (c_string b) (\<lambda>s. Inr (foldr ungetc s stream)))"

subsection \<open>Lemmas on digits\<close>

fun dec_digits :: "nat \<Rightarrow> nat list" where
  "dec_digits n = (if n < 10 then [n] else dec_digits (n div 10) @ [n mod 10])"

declare dec_digits.simps [simp del]

definition decimal_value :: "nat \<Rightarrow> nat list \<Rightarrow> nat" where
  "decimal_value acc ds = foldl (\<lambda>a d. 10 * a + d) acc ds"

lemma dec_string_dec_digits: "dec_string n = map ascii_digit (dec_digits n)"
  by (induction n rule: dec_digits.induct) (simp add: dec_digits.simps dec_string.simps)

lemma dec_digits_less: "d \<in> set (dec_digits n) \<Longrightarrow> d < 10"
  by (induction n rule: dec_digits.induct) (subst (asm) (2) dec_digits.simps, auto split: if_splits)

lemma dec_digits_nonempty: "dec_digits n \<noteq> []"
  by (subst dec_digits.simps) simp

text \<open>The first \<open>k\<close> digits are the number without the others.\<close>

lemma decimal_value_take:
  "k \<le> length (dec_digits n) \<Longrightarrow> decimal_value 0 (take k (dec_digits n)) = n div 10 ^ (length (dec_digits n) - k)"
proof (induction n arbitrary: k rule: dec_digits.induct)
  case (1 n)
  show ?case
  proof (cases "n < 10")
    case True
    then have d: "dec_digits n = [n]" by (simp add: dec_digits.simps)
    with 1(2) True show ?thesis by (cases k) (simp_all add: decimal_value_def)
  next
    case False
    let ?ds = "dec_digits (n div 10)"
    have d: "dec_digits n = ?ds @ [n mod 10]" using False by (simp add: dec_digits.simps [of n])
    show ?thesis
    proof (cases "k \<le> length ?ds")
      case True
      then have "length (dec_digits n) - k = Suc (length ?ds - k)" by (simp add: d)
      then show ?thesis using 1(1) [OF False True] True by (simp add: d div_mult2_eq)
    next
      case k: False
      then have "take k (dec_digits n) = ?ds @ [n mod 10]" "length (dec_digits n) - k = 0" using 1(2) d by auto
      moreover have "decimal_value 0 ?ds = n div 10" using 1(1) [OF False order_refl] by simp
      ultimately show ?thesis by (simp add: decimal_value_def)
    qed
  qed
qed

text \<open>A char that ends a number.\<close>

definition ends_number :: "char \<Rightarrow> bool" where
  "ends_number ch \<longleftrightarrow> schar ch < 48 \<or> schar ch > 57"

lemma reg_cell_Cons [simp]: "reg_cell (Some ch # reg) = Inr ch" "reg_cell [] = Inr NUL"
  by (simp_all add: reg_cell_def)

lemma digit_value: "d < 10 \<Longrightarrow> word_of_int (schar (ascii_digit d) - 48) = (of_nat d :: u32)"
proof -
  have "\<forall>d \<in> set [0..<10]. schar (ascii_digit d) - 48 = int d" by code_simp
  then show "d < 10 \<Longrightarrow> ?thesis" by simp
qed

lemma convert_round_digit:
  assumes "d < 10" and "reg_cell r8 = Inr ch"
  shows "convert_round buf (cl, Some (ascii_digit d) # r8, eax) =
     (if ch = NUL then Inr (Inr (10 * eax + of_nat d))
      else if cl = 1 then bnd (load_cells buf 8 4) (\<lambda>r8. Inr (Inl (4, r8, 10 * eax + of_nat d)))
      else Inr (Inl (cl - 1, r8, 10 * eax + of_nat d)))"
  using assms digit_char_facts(1,2) [OF assms(1)] digit_value [OF assms(1)]
  by (simp add: convert_round_def)

text \<open>The digits of a register are read; the four bytes behind it never are.\<close>

lemma convert_rounds:
  assumes "\<forall>d \<in> set ds. d < 10" "ds \<noteq> []" "reg_cell cells = Inr t" "ends_number t"
    and "length ds + length cells \<le> cl"
  shows "repeat_until (convert_round buf) (cl, map (\<lambda>d. Some (ascii_digit d)) ds @ cells, of_nat a) =
           Inr (of_nat (decimal_value a ds))"
  using assms
proof (induction ds arbitrary: a cl)
  case (Cons d ds)
  let ?r8 = "map (\<lambda>d. Some (ascii_digit d)) ds @ cells"
  have d: "d < 10" using Cons.prems(1) by simp
  have unfold: "repeat_until (convert_round buf) (cl, map (\<lambda>d. Some (ascii_digit d)) (d # ds) @ cells, of_nat a) =
      bnd (convert_round buf (cl, Some (ascii_digit d) # ?r8, of_nat a))
        (\<lambda>x. case x of Inl s' \<Rightarrow> repeat_until (convert_round buf) s' | Inr r \<Rightarrow> Inr r)"
    by (subst repeat_until_unfold) simp
  have stop: "repeat_until (convert_round buf) (k, cells, w) = Inr w" for k w
    using Cons.prems(3,4) by (subst repeat_until_unfold) (auto simp: convert_round_def ends_number_def)
  show ?case
  proof (cases ds)
    case Nil
    then have "t \<noteq> NUL \<Longrightarrow> cl \<noteq> 1" using Cons.prems(3,5) by (cases cells) auto
    then show ?thesis
      unfolding unfold using convert_round_digit [OF d, of ?r8 t buf cl "of_nat a"] Cons.prems(3) Nil stop
      by (cases "t = NUL") (simp_all add: decimal_value_def)
  next
    case (Cons d' ds')
    have d': "d' < 10" using Cons.prems(1) \<open>ds = d' # ds'\<close> by simp
    have "cl \<noteq> 1" using Cons.prems(5) \<open>ds = d' # ds'\<close> by simp
    moreover have "reg_cell ?r8 = Inr (ascii_digit d')" using \<open>ds = d' # ds'\<close> by simp
    ultimately have "convert_round buf (cl, Some (ascii_digit d) # ?r8, of_nat a) =
        Inr (Inl (cl - 1, ?r8, of_nat (10 * a + d)))"
      using convert_round_digit [OF d, of ?r8 "ascii_digit d'" buf cl "of_nat a"] digit_char_facts(3) [OF d'] by simp
    moreover have "repeat_until (convert_round buf) (cl - 1, ?r8, of_nat (10 * a + d)) =
        Inr (of_nat (decimal_value (10 * a + d) ds))"
      using Cons.IH [of "cl - 1" "10 * a + d"] Cons.prems \<open>ds = d' # ds'\<close> by simp
    ultimately show ?thesis unfolding unfold by (simp only: bnd_Inr sum.case decimal_value_def foldl_Cons)
  qed
qed simp

lemma convertString_digits:
  assumes "\<forall>d \<in> set ds. d < 10" "ds \<noteq> []" "reg_cell cells = Inr t" "ends_number t"
    and "load_cells buf 0 8 = Inr (map (\<lambda>d. Some (ascii_digit d)) ds @ cells)"
  shows "convertString buf = Inr (of_nat (decimal_value 0 ds))"
proof -
  obtain d ds' where ds: "ds = d # ds'" using assms(2) by (cases ds) auto
  have d: "d < 10" using assms(1) ds by simp
  have len: "length ds + length cells \<le> 8"
    using assms(5) by (auto simp: load_cells_def split: if_splits dest!: arg_cong [of _ _ length])
  have w: "word_of_int (schar (ascii_digit d) - 48) = (of_nat d :: u32)" by (rule digit_value [OF d])
  let ?r8 = "map (\<lambda>d. Some (ascii_digit d)) ds' @ cells"
  have start: "convertString buf =
      bnd (reg_cell ?r8) (\<lambda>ch. if ch = NUL then Inr (of_nat d) else repeat_until (convert_round buf) (7, ?r8, of_nat d))"
    using assms(5) digit_char_facts(1,2) [OF d] w by (simp add: convertString_def ds Let_def)
  show ?thesis
  proof (cases ds')
    case Nil
    have "repeat_until (convert_round buf) (7, cells, w) = Inr w" for w
      using assms(3,4) by (subst repeat_until_unfold) (auto simp: convert_round_def ends_number_def)
    then show ?thesis using start assms(3) Nil ds by (simp add: decimal_value_def)
  next
    case (Cons d' ds'')
    then have "d' < 10" using assms(1) ds by simp
    then have "reg_cell ?r8 = Inr (ascii_digit d')" "ascii_digit d' \<noteq> NUL" using digit_char_facts(3) Cons by simp_all
    moreover have "repeat_until (convert_round buf) (7, ?r8, of_nat d) = Inr (of_nat (decimal_value d ds'))"
      using convert_rounds [of ds' cells t 7 buf d] assms(1,3,4) len ds Cons by simp
    ultimately show ?thesis using start by (simp add: ds decimal_value_def)
  qed
qed

lemma convertUnsigned_digits:
  "convertUnsigned w s n = (dec_string (unat w) @ s, n + length (dec_string (unat w)))"
proof (induction w s n rule: convertUnsigned.induct)
  case (1 w s n)
  have char: "char_of (unat (x + 0x30)) = ascii_digit (unat x)" if "x < 10" for x :: u32
  proof -
    have "unat x < 10" using that by (simp add: word_less_nat_alt)
    then have "unat (x + 0x30) = unat x + 48" by (simp add: unat_word_ariths)
    then show ?thesis by (simp add: ascii_digit_def add.commute)
  qed
  show ?case
  proof (cases "w < 10")
    case True
    then show ?thesis
      using char [OF True] by (simp add: convertUnsigned.simps [of w] dec_string.simps [of "unat w"] word_less_nat_alt)
  next
    case False
    have "w mod 10 < 10" by (simp add: word_less_nat_alt unat_mod)
    from char [OF this] 1 [OF False] False show ?thesis
      by (simp add: convertUnsigned.simps [of w] dec_string.simps [of "unat w"] word_less_nat_alt unat_div unat_mod)
  qed
qed

text \<open>The number that is read is that of the first eight digits.\<close>

lemma convertString_text:
  assumes "nl = [] \<or> ends_number (hd nl)" and "7 \<le> length (dec_string v @ nl) + k"
  shows "convertString (map Some (dec_string v @ nl @ [NUL]) @ replicate k None) =
           Inr (of_nat (v div 10 ^ (length (dec_string v) - 8)))"
proof -
  let ?ds = "take 8 (dec_digits v)" and ?buf = "map Some (dec_string v @ nl @ [NUL]) @ replicate k None"
  define cells where "cells = take (8 - length (dec_digits v)) (map Some (nl @ [NUL]) @ replicate k None)"
  have load: "load_cells ?buf 0 8 = Inr (map (\<lambda>d. Some (ascii_digit d)) ?ds @ cells)"
    using assms(2) by (simp add: load_cells_def cells_def dec_string_dec_digits take_map comp_def)
  have nul: "ends_number NUL" by code_simp
  have "\<exists>t. reg_cell cells = Inr t \<and> ends_number t"
  proof (cases "8 \<le> length (dec_digits v)")
    case False
    then obtain j where "8 - length (dec_digits v) = Suc j" by (metis Suc_diff_Suc not_le)
    then show ?thesis using assms(1) nul by (cases nl) (simp_all add: cells_def)
  qed (use nul in \<open>simp add: cells_def\<close>)
  then obtain t where "reg_cell cells = Inr t" "ends_number t" by blast
  from convertString_digits [OF _ _ this load] have "convertString ?buf = Inr (of_nat (decimal_value 0 ?ds))"
    using dec_digits_less dec_digits_nonempty by (auto dest: in_set_takeD)
  also have "?ds = take (min 8 (length (dec_digits v))) (dec_digits v)" by (simp add: min_def)
  also have "decimal_value 0 \<dots> = v div 10 ^ (length (dec_string v) - 8)"
    by (subst decimal_value_take) (auto simp: dec_string_dec_digits min_def)
  finally show ?thesis .
qed

lemma getUnsignedInt_text:
  assumes "sys_open path O_RDONLY = SysOk fd" "sys_read fd 16 = SysOk s" "sys_close fd = SysOk ()"
    and "s \<noteq> []" "length s \<le> 11"
  shows "e0004944_getUnsignedInt e perror sys_open sys_read sys_close path =
           bnd (convertString (map Some (s @ [NUL]) @ replicate (15 - length s) None)) (\<lambda>n. Inr ([], Some n))"
proof -
  have fill: "blit (map Some s) 0 (length s) (fresh 16) 0 = Inr (map Some s @ replicate (16 - length s) None)"
    using assms(5) by (simp add: blit_def fresh_def)
  have "16 - length s = Suc (15 - length s)" using assms(5) by simp
  then have nul: "wr (map Some s @ replicate (16 - length s) None) (length s) NUL =
      Inr (map Some (s @ [NUL]) @ replicate (15 - length s) None)"
    using list_update_length [of "map Some s"] by (simp add: wr_def)
  have "unat (of_nat (length s) :: u8) = length s" using assms(5) by (intro of_nat_inverse [OF refl]) simp
  then have "\<not> (of_nat (length s) :: u8) \<ge> 12" using assms(5) by (simp only: word_le_nat_alt) simp
  then show ?thesis
    using assms fill nul by (simp add: e0004944_getUnsignedInt_def Let_def del: map_append)
qed

subsection \<open>Lemmas on hexadecimal digits\<close>

fun hex_digits :: "nat \<Rightarrow> nat list" where
  "hex_digits n = (if n < 16 then [n] else hex_digits (n div 16) @ [n mod 16])"

declare hex_digits.simps [simp del]

definition hex_value :: "nat \<Rightarrow> nat list \<Rightarrow> nat" where
  "hex_value acc ds = foldl (\<lambda>a d. 16 * a + d) acc ds"

lemma hex_string_hex_digits: "hex_string n = map ((!) f6215943_digitHex) (hex_digits n)"
  by (induction n rule: hex_digits.induct) (simp add: hex_digits.simps hex_string.simps)

lemma hex_digits_less: "d \<in> set (hex_digits n) \<Longrightarrow> d < 16"
  by (induction n rule: hex_digits.induct) (subst (asm) (2) hex_digits.simps, auto split: if_splits)

lemma hex_value_digits: "hex_value 0 (hex_digits n) = n"
  by (induction n rule: hex_digits.induct) (subst hex_digits.simps, simp add: hex_value_def)

lemma hex_digits_length: "n < 16 ^ Suc k \<Longrightarrow> length (hex_digits n) \<le> Suc k"
proof (induction k arbitrary: n)
  case (Suc k)
  then have "n div 16 < 16 ^ Suc k" by (simp add: less_mult_imp_div_less)
  from Suc.IH [OF this] show ?case by (subst hex_digits.simps) simp
qed (simp add: hex_digits.simps)

lemma hex_char_value_digit:
  "d < 16 \<Longrightarrow> hex_char_value (f6215943_digitHex ! d) = Some (of_nat d) \<and> f6215943_digitHex ! d \<noteq> NUL"
proof -
  have "\<forall>d \<in> set [0..<16]. hex_char_value (f6215943_digitHex ! d) = Some (of_nat d) \<and> f6215943_digitHex ! d \<noteq> NUL"
    by code_simp
  then show "d < 16 \<Longrightarrow> ?thesis" by simp
qed

text \<open>
  Whatever the counter starts with: the register holds at least the digits that are left, or it is loaded again from the
  place of the next one.
\<close>

lemma hex_rounds:
  assumes "\<forall>d \<in> set ds. d < 16" "drop off buf = map (\<lambda>d. Some (f6215943_digitHex ! d)) ds @ Some t # rest"
    and "hex_char_value t = None \<or> t = NUL" "length ds \<le> m" "off + length ds \<le> 8" "length buf = 16"
  shows "repeat_until (hex_round buf) (take m (drop off buf), r8b, off, of_nat a) = Inr (of_nat (hex_value a ds))"
  using assms
proof (induction ds arbitrary: off m r8b a)
  case Nil
  have "reg_cell (take m (drop off buf)) \<in> {Inr NUL, Inr t}" using Nil.prems(2) by (cases m) auto
  with Nil.prems(3) show ?case by (subst repeat_until_unfold) (auto simp: hex_round_def hex_value_def split: option.split)
next
  case (Cons d ds)
  note c = hex_char_value_digit [of d]
  from Cons.prems(4) obtain m' where m: "m = Suc m'" by (cases m) auto
  have next_cells: "drop (Suc off) buf = map (\<lambda>d. Some (f6215943_digitHex ! d)) ds @ Some t # rest"
    using Cons.prems(2) by (metis drop_Suc list.sel(3) list.simps(9) append_Cons tl_drop)
  let ?a = "of_nat (16 * a + d) :: u32"
  have acc: "push_bit 4 (of_nat a) + of_nat d = ?a" by (simp add: push_bit_eq_mult)
  have cells: "take m (drop off buf) = Some (f6215943_digitHex ! d) # take m' (drop (Suc off) buf)"
    unfolding Cons.prems(2) next_cells m by simp
  have load: "load_cells buf (Suc off) 8 = Inr (take 8 (drop (Suc off) buf))"
    using Cons.prems(5,6) by (simp add: load_cells_def)
  have "hex_round buf (take m (drop off buf), r8b, off, of_nat a) =
      (if r8b - 1 \<noteq> 0 then Inr (Inl (take m' (drop (Suc off) buf), r8b - 1, Suc off, ?a))
       else Inr (Inl (take 8 (drop (Suc off) buf), 8, Suc off, ?a)))"
    using c Cons.prems(1) load by (simp add: hex_round_def cells acc Let_def del: of_nat_add of_nat_mult)
  moreover have "repeat_until (hex_round buf) (take k (drop (Suc off) buf), b, Suc off, ?a) = Inr (of_nat (hex_value (16 * a + d) ds))"
    if "length ds \<le> k" for k b
    by (rule Cons.IH [OF _ next_cells Cons.prems(3) that _ Cons.prems(6)]) (use Cons.prems(1,5) in simp_all)
  ultimately show ?case
    using Cons.prems(4,5) m by (subst repeat_until_unfold) (simp add: hex_value_def del: of_nat_add of_nat_mult)
qed

text \<open>A hexadecimal number in a file with a line end is read whatever was left in the register of the counter.\<close>

lemma readUint32Hex_number:
  assumes "sys_open path O_RDONLY = SysOk fd" "fd \<noteq> 0" "sys_read fd 16 = SysOk (hex_string (unat v) @ newline)"
  shows "e2f74138_readUint32Hex sys_open sys_read r8b path = Inr v"
proof -
  let ?s = "hex_string (unat v) @ newline" and ?ds = "hex_digits (unat v)"
  have "length ?ds \<le> 8" using hex_digits_length [of "unat v" 7] unat_u32_lt [of v] by simp
  then have len: "length (hex_string (unat v)) \<le> 8" "length ?s \<le> 9" by (simp_all add: hex_string_hex_digits newline_def)
  define buf where "buf = map Some ?s @ replicate (16 - length ?s) None"
  have fill: "blit (map Some ?s) 0 (length ?s) (fresh 16) 0 = Inr buf" using len(2) by (simp add: blit_def fresh_def buf_def)
  have count: "(ucast (of_nat n :: u32) :: u8) \<noteq> 0" if "0 < n" "n < 256" for n
  proof -
    have "(ucast (of_nat n :: u32) :: u8) = of_nat n" using that by (simp add: unsigned_of_nat take_bit_nat_eq_self)
    moreover have "unat (of_nat n :: u8) = n" using that by (intro of_nat_inverse [OF refl]) simp
    ultimately show ?thesis using that(1) by (metis less_irrefl unsigned_0)
  qed
  have "0 < length ?s" by (simp add: newline_def)
  then have count: "(ucast (of_nat (length ?s) :: u32) :: u8) \<noteq> 0" using len(2) by (intro count) simp_all
  have cells: "drop 0 buf = map (\<lambda>d. Some (f6215943_digitHex ! d)) ?ds @ Some (CHR 0x0A) # replicate (16 - length ?s) None"
    by (simp add: buf_def hex_string_hex_digits newline_def)
  have stop: "hex_char_value (CHR 0x0A) = None" by code_simp
  have "repeat_until (hex_round buf) (take 8 (drop 0 buf), r8b, 0, of_nat 0) = Inr (of_nat (hex_value 0 ?ds))"
  proof (rule hex_rounds [OF _ cells])
    show "\<forall>d \<in> set ?ds. d < 16" using hex_digits_less by blast
    show "length ?ds \<le> 8" "0 + length ?ds \<le> 8" using len(1) by (simp_all add: hex_string_hex_digits)
    show "length buf = 16" using len(2) by (simp add: buf_def)
  qed (use stop in simp)
  moreover have "load_cells buf 0 8 = Inr (take 8 (drop 0 buf))" using len(2) by (simp add: load_cells_def buf_def)
  ultimately show ?thesis
    using assms fill count by (simp add: e2f74138_readUint32Hex_def open_eax_def hex_value_digits Let_def del: of_nat_add)
qed

text \<open>A text that was put back is what is read next.\<close>

lemma ungetString_pushes:
  assumes "NUL \<notin> set s"
  shows "a8d15ebe_ungetString (#) (Some (map Some (s @ [NUL]) @ rest)) stream = Inr (s @ stream)"
proof -
  have "c_string (map Some (s @ [NUL]) @ rest) = Inr s"
    using assms holds_append_cells [of "s @ [NUL]" rest] by (intro c_string_holds) auto
  moreover have "foldr (#) s stream = s @ stream" by (induction s) simp_all
  ultimately show ?thesis by (simp add: a8d15ebe_ungetString_def)
qed

subsection \<open>Defects\<close>

text \<open>A failed open is not noticed: the buffer that nothing was read into is taken for digits. Descriptor 0 counts as a failure.\<close>

lemma failed_open_not_noticed:
  assumes "sys_open path O_RDONLY = SysErr errno" "sys_read (- 1) 16 = SysErr errno'"
  shows "e2f74138_readUint32Hex sys_open sys_read r8b path = Inl Uninitialised"
proof -
  have "load_cells (fresh 16) 0 8 = Inr (replicate 8 None)" by (simp add: load_cells_def fresh_def)
  moreover have "reg_cell (replicate 8 None) = Inl Uninitialised" by (simp add: reg_cell_def numeral_eq_Suc)
  then have "repeat_until (hex_round (fresh 16)) (replicate 8 None, r8b, 0, 0) = Inl Uninitialised"
    by (subst repeat_until_unfold) (simp add: hex_round_def)
  moreover have "(ucast (- 1 :: u32) :: u8) \<noteq> 0" by code_simp
  ultimately show ?thesis using assms by (simp add: e2f74138_readUint32Hex_def open_eax_def)
qed

lemma descriptor_zero_is_a_failure:
  "sys_open path O_RDONLY = SysOk 0 \<Longrightarrow> e2f74138_readString sys_open sys_read path buffer n = Inr (0, buffer)"
  by (simp add: e2f74138_readString_def open_eax_def)

text \<open>When the file cannot be opened, the value is what the call that prints the error leaves in the register.\<close>

lemma open_error_value_unset:
  assumes "sys_open path O_RDONLY = SysErr errno"
    and "e0004944_getUnsignedInt e perror sys_open sys_read sys_close path = Inr (out, r)"
  shows "r = None"
  using assms by (auto simp: e0004944_getUnsignedInt_def bnd_eq_Inr)

subsection \<open>Properties\<close>

text \<open>C37: the number that setUnsignedInt writes to a file of the kernel is read back by getUnsignedInt, with or without
  a line end behind it, when it has at most eight digits; of a longer one, the first eight digits are read.\<close>

theorem kernel_number_roundtrip:
  assumes "sys_open path O_WRONLY = SysOk fd" "sys_write fd (dec_string (unat v)) = SysOk n" "sys_close fd = SysOk ()"
    and "sys_open path O_RDONLY = SysOk fd'" "sys_read fd' 16 = SysOk (dec_string (unat v) @ nl)" "sys_close fd' = SysOk ()"
    and "nl = [] \<or> nl = newline"
  shows "e0004944_setUnsignedInt e perror sys_open sys_write sys_close path v = Inr ([], Some (fd, dec_string (unat v))) \<and>
         e0004944_getUnsignedInt e perror sys_open sys_read sys_close path =
           Inr ([], Some (if unat v < 10 ^ 8 then v else of_nat (unat v div 10 ^ (length (dec_string (unat v)) - 8))))"
proof (rule conjI)
  have len: "length (dec_string (unat v)) \<le> 10" by (rule dec_string_length_le)
  then have str: "take (length (dec_string (unat v))) (take 16 (dec_string (unat v) @ replicate 16 NUL)) = dec_string (unat v)"
    by simp
  show "e0004944_setUnsignedInt e perror sys_open sys_write sys_close path v = Inr ([], Some (fd, dec_string (unat v)))"
    using assms(1-3) unfolding e0004944_setUnsignedInt_def convertUnsigned_digits Let_def prod.case append_Nil2 add_0 str by simp
  let ?s = "dec_string (unat v) @ nl"
  have s: "length ?s \<le> 11" "?s \<noteq> []" using len assms(7) octet_length [of 0] by (auto simp: newline_def dec_string_dec_digits dec_digits_nonempty)
  have ends: "nl = [] \<or> ends_number (hd nl)" using assms(7) by (auto simp: newline_def ends_number_def schar_def)
  show "e0004944_getUnsignedInt e perror sys_open sys_read sys_close path =
      Inr ([], Some (if unat v < 10 ^ 8 then v else of_nat (unat v div 10 ^ (length (dec_string (unat v)) - 8))))"
  proof -
    have "e0004944_getUnsignedInt e perror sys_open sys_read sys_close path =
        bnd (convertString (map Some (?s @ [NUL]) @ replicate (15 - length ?s) None)) (\<lambda>n. Inr ([], Some n))"
      by (rule getUnsignedInt_text) (fact assms(4-6) s)+
    moreover have "convertString (map Some (?s @ [NUL]) @ replicate (15 - length ?s) None) =
        Inr (of_nat (unat v div 10 ^ (length (dec_string (unat v)) - 8)))"
      using convertString_text [OF ends, of "unat v" "15 - length ?s"] s(1) by simp
    moreover have "length (dec_string (unat v)) \<le> 8" if "unat v < 10 ^ 8"
      using that getStringSize_uint32_exact [of v]
      by (simp add: f45efac2_getStringSize_uint32_def word_less_nat_alt not_less split: if_splits)
    ultimately show ?thesis by simp
  qed
qed

lemma kernel_number_roundtrip_witness:
  "\<forall>e perror. e0004944_getUnsignedInt e perror (\<lambda>_ _. SysOk 3) (\<lambda>_ _. SysOk (''4294967295'' @ newline)) (\<lambda>_. SysOk ()) ''/proc/sys/x'' =
     Inr ([], Some 42949672)"
proof (intro allI)
  fix e perror
  have d: "dec_string (unat (4294967295 :: u32)) = ''4294967295''"
  proof -
    have "map ascii_digit [4, 2, 9, 4, 9, 6, 7, 2, 9, 5] = ''4294967295''" by code_simp
    then show ?thesis by (simp add: dec_string.simps)
  qed
  have "e0004944_getUnsignedInt e perror (\<lambda>_ _. SysOk 3) (\<lambda>_ _. SysOk (dec_string (unat (4294967295 :: u32)) @ newline)) (\<lambda>_. SysOk ())
      ''/proc/sys/x'' = Inr ([], Some 42949672)"
    using kernel_number_roundtrip [of "\<lambda>_ _. SysOk 3" "''/proc/sys/x''" 3 "\<lambda>_ _. SysOk 10" 4294967295 10 "\<lambda>_. SysOk ()" 3
        "\<lambda>_ _. SysOk (dec_string (unat (4294967295 :: u32)) @ newline)" newline e perror] by (simp add: d [simplified])
  then show "e0004944_getUnsignedInt e perror (\<lambda>_ _. SysOk 3) (\<lambda>_ _. SysOk (''4294967295'' @ newline)) (\<lambda>_. SysOk ()) ''/proc/sys/x'' =
      Inr ([], Some 42949672)" by (simp only: d)
qed

end
