(* ===== verification/SinglePrecision.thy ===== *)
theory SinglePrecision
  imports Complex_Main "HOL-Library.Log_Nat"
begin

text \<open>
  Rounding to single precision, which the parser of floats relies on. A number of single precision has a magnitude of 24 bits
  and an exponent; the result of an instruction is one that is nearest to the exact result, whichever it is when two are.
  Exponents are not bounded here: \<open>in_range\<close> says where the bounds of the format make no difference. One rounding changes a
  number by at most one part in \<open>2 ^ 24\<close>, and \<open>near n\<close> counts the roundings that have been made.
\<close>

subsection \<open>Nearest numbers\<close>

definition single_rep :: "rat \<Rightarrow> bool" where
  "single_rep x \<longleftrightarrow> (\<exists>m e. \<bar>m\<bar> \<le> 2 ^ 24 \<and> x = of_int m * 2 powi e)"

definition nearest :: "rat \<Rightarrow> rat \<Rightarrow> bool" where
  "nearest r x \<longleftrightarrow> single_rep x \<and> (\<forall>y. single_rep y \<longrightarrow> \<bar>r - x\<bar> \<le> \<bar>r - y\<bar>)"

definition in_range :: "rat \<Rightarrow> bool" where
  "in_range r \<longleftrightarrow> r = 0 \<or> 1 / 2 ^ 126 \<le> \<bar>r\<bar> \<and> \<bar>r\<bar> \<le> 2 ^ 127"

text \<open>A nearest number by computation: the exponent for which the magnitude has 24 bits, and the next integer there.\<close>

definition exponent :: "rat \<Rightarrow> int" where
  "exponent r = (let (p, q) = quotient_of r; k = int (floorlog 2 (nat \<bar>p\<bar>)) - int (floorlog 2 (nat q))
     in if \<bar>r\<bar> < 2 powi k then k - 24 else k - 23)"

definition round24 :: "rat \<Rightarrow> rat" where
  "round24 r = of_int (round (r / 2 powi exponent r)) * 2 powi exponent r"

lemma quotient_bounds:
  assumes "r \<noteq> 0" "quotient_of r = (p, q)"
  defines "k \<equiv> int (floorlog 2 (nat \<bar>p\<bar>)) - int (floorlog 2 (nat q))"
  shows "2 powi (k - 1) \<le> \<bar>r\<bar>" "\<bar>r\<bar> < 2 powi (k + 1)"
proof -
  let ?a = "floorlog 2 (nat \<bar>p\<bar>)" and ?b = "floorlog 2 (nat q)"
  have r: "r = of_int p / of_int q" and q: "q > 0" and p: "p \<noteq> 0"
    using assms(1) quotient_of_div [OF assms(2)] quotient_of_denom_pos [OF assms(2)] by auto
  have two: "(2 :: rat) powi (i - j) = 2 powi i / 2 powi j" for i j by (simp add: power_int_diff)
  have bounds: "(2 :: rat) ^ (floorlog 2 (nat z) - 1) \<le> of_int z \<and> (of_int z :: rat) < 2 ^ floorlog 2 (nat z)" if "z > 0" for z
  proof -
    have "2 ^ (floorlog 2 (nat z) - 1) \<le> nat z \<and> nat z < 2 ^ floorlog 2 (nat z)"
      using that by (intro floorlog_bounds) auto
    then have "2 ^ (floorlog 2 (nat z) - 1) \<le> z \<and> z < 2 ^ floorlog 2 (nat z)" using that by (simp add: nat_less_iff le_nat_iff)
    then have "of_int (2 ^ (floorlog 2 (nat z) - 1)) \<le> (of_int z :: rat) \<and> (of_int z :: rat) < of_int (2 ^ floorlog 2 (nat z))"
      by (simp only: of_int_le_iff of_int_less_iff)
    then show ?thesis by simp
  qed
  have pos: "?a \<ge> 1" "?b \<ge> 1" using p q by (simp_all add: floorlog_def)
  have P: "(2 :: rat) powi (int ?a - 1) \<le> of_int \<bar>p\<bar>" "(of_int \<bar>p\<bar> :: rat) < 2 powi int ?a"
    and Q: "(2 :: rat) powi (int ?b - 1) \<le> of_int q" "(of_int q :: rat) < 2 powi int ?b"
    using bounds [of "\<bar>p\<bar>"] bounds [of q] p q pos by (simp_all add: power_int_def nat_diff_distrib')
  have abs: "\<bar>r\<bar> = of_int \<bar>p\<bar> / of_int q" using r q by (simp add: abs_divide)
  have "(2 :: rat) powi (int ?a - 1) / 2 powi int ?b \<le> of_int \<bar>p\<bar> / of_int q"
    using P(1) Q(2) q by (intro frac_le) auto
  then have "2 powi (int ?a - 1 - int ?b) \<le> \<bar>r\<bar>" unfolding abs by (simp only: two)
  moreover have "int ?a - 1 - int ?b = k - 1" by (simp add: k_def)
  ultimately show "2 powi (k - 1) \<le> \<bar>r\<bar>" by simp
  have "(of_int \<bar>p\<bar> :: rat) / of_int q < 2 powi int ?a / 2 powi (int ?b - 1)"
    using P(2) Q(1) q p by (intro frac_less) auto
  then have "\<bar>r\<bar> < 2 powi (int ?a - (int ?b - 1))" unfolding abs by (simp only: two)
  moreover have "int ?a - (int ?b - 1) = k + 1" by (simp add: k_def)
  ultimately show "\<bar>r\<bar> < 2 powi (k + 1)" by simp
qed

lemma exponent_bounds:
  assumes "r \<noteq> 0"
  shows "2 ^ 23 * 2 powi exponent r \<le> \<bar>r\<bar>" "\<bar>r\<bar> < 2 ^ 24 * 2 powi exponent r"
proof -
  obtain p q where pq: "quotient_of r = (p, q)" by fastforce
  have scale: "(2 :: rat) ^ n * 2 powi j = 2 powi (int n + j)" for n j by (simp add: power_int_add)
  show "2 ^ 23 * 2 powi exponent r \<le> \<bar>r\<bar>" "\<bar>r\<bar> < 2 ^ 24 * 2 powi exponent r"
    unfolding scale using quotient_bounds [OF assms pq] by (auto simp: exponent_def pq Let_def algebra_simps)
qed

lemma scaled_distance: "(s :: rat) > 0 \<Longrightarrow> \<bar>r - z * s\<bar> = \<bar>r / s - z\<bar> * s"
  using abs_mult_pos [of s "r / s - z"] by (simp add: left_diff_distrib)

lemma round24_nearest: "nearest r (round24 r)"
proof (cases "r = 0")
  case True
  have "round24 r = 0" using True by (simp add: round24_def)
  moreover have "single_rep 0" by (auto simp: single_rep_def intro!: exI [of _ 0])
  ultimately show ?thesis using True by (simp add: nearest_def)
next
  case False
  define s :: rat where "s = 2 powi exponent r"
  have s: "s > 0" "2 ^ 23 * s \<le> \<bar>r\<bar>" "\<bar>r\<bar> < 2 ^ 24 * s" using exponent_bounds [OF False] by (simp_all add: s_def)
  let ?m = "round (r / s)"
  have x: "round24 r = of_int ?m * s" by (simp add: round24_def s_def)
  have best: "\<bar>r - round24 r\<bar> \<le> \<bar>r - of_int m * s\<bar>" for m
    unfolding x scaled_distance [OF s(1)] using s(1) round_diff_minimal [of "r / s" m] by simp
  have "\<bar>r / s\<bar> < 2 ^ 24" using s by (simp add: abs_divide divide_less_eq)
  then have "- (2 ^ 24) < r / s" "r / s < 2 ^ 24" by (simp_all only: abs_less_iff) linarith+
  then have "r / s + 1 / 2 < of_int (2 ^ 24 + 1)" "of_int (- (2 ^ 24)) \<le> r / s + 1 / 2" by simp_all
  then have "?m < 2 ^ 24 + 1" "- (2 ^ 24) \<le> ?m" unfolding round_def by (simp_all only: floor_less_iff le_floor_iff)
  then have "\<bar>?m\<bar> \<le> 2 ^ 24" by simp
  then have rep: "single_rep (round24 r)" unfolding x s_def by (auto simp: single_rep_def)
  have "\<bar>r - round24 r\<bar> \<le> \<bar>r - y\<bar>" if y: "\<bar>m\<bar> \<le> 2 ^ 24" "y = of_int m * 2 powi e" for y m e
  proof (cases "e \<ge> exponent r")
    case True
    then have "2 powi e = of_int (2 ^ nat (e - exponent r)) * s"
      by (simp add: s_def power_int_add [symmetric] power_int_def [of _ "e - exponent r", symmetric] flip: power_int_of_nat)
    then have "y = of_int (m * 2 ^ nat (e - exponent r)) * s" using y(2) by simp
    then show ?thesis using best by metis
  next
    case False
    then have "2 powi e \<le> (2 :: rat) powi (exponent r - 1)" by (intro power_int_increasing) auto
    then have e: "2 powi e \<le> s / 2" by (simp add: s_def power_int_diff)
    have "\<bar>of_int m :: rat\<bar> \<le> 2 ^ 24" using y(1) by (simp add: of_int_abs [symmetric] del: of_int_abs)
    then have "\<bar>of_int m\<bar> * 2 powi e \<le> 2 ^ 24 * (s / 2)" using e by (intro mult_mono) auto
    then have "\<bar>y\<bar> \<le> 2 ^ 23 * s" unfolding y(2) abs_mult by simp
    then have "\<bar>r\<bar> - 2 ^ 23 * s \<le> \<bar>r - y\<bar>" by linarith
    moreover have "\<bar>r - of_int (if r < 0 then - (2 ^ 23) else 2 ^ 23) * s\<bar> = \<bar>r\<bar> - 2 ^ 23 * s" using s(2) by auto
    ultimately show ?thesis using best [of "if r < 0 then - (2 ^ 23) else 2 ^ 23"] by linarith
  qed
  with rep show ?thesis by (auto simp: nearest_def single_rep_def)
qed

lemma round24_error: "\<bar>r - round24 r\<bar> \<le> \<bar>r\<bar> / 2 ^ 24"
proof (cases "r = 0")
  case False
  define s :: rat where "s = 2 powi exponent r"
  have s: "s > 0" "2 ^ 23 * s \<le> \<bar>r\<bar>" using exponent_bounds [OF False] by (simp_all add: s_def)
  have "\<bar>r - round24 r\<bar> = \<bar>r / s - of_int (round (r / s))\<bar> * s"
    unfolding round24_def s_def [symmetric] by (rule scaled_distance [OF s(1)])
  also have "\<dots> \<le> 1 / 2 * s"
    using of_int_round_abs_le [of "r / s"] s(1) by (intro mult_right_mono) (simp_all add: abs_minus_commute)
  also have "\<dots> \<le> \<bar>r\<bar> / 2 ^ 24" using s(2) by simp
  finally show ?thesis .
qed (simp add: round24_def)

text \<open>Whichever of the nearest numbers it is, it is as near; a number of the format stays what it is.\<close>

lemma nearest_error: "nearest r x \<Longrightarrow> \<bar>r - x\<bar> \<le> \<bar>r\<bar> / 2 ^ 24"
  using round24_nearest [of r] round24_error [of r] unfolding nearest_def by (meson order_trans)

lemma nearest_same: "nearest r x \<Longrightarrow> single_rep r \<Longrightarrow> x = r"
  unfolding nearest_def by fastforce

lemma single_rep_nat: "n \<le> 2 ^ 24 \<Longrightarrow> single_rep (of_nat n)"
  unfolding single_rep_def by (intro exI [of _ "int n"] exI [of _ 0]) auto

lemma single_rep_ten: "n \<le> 10 \<Longrightarrow> single_rep (10 ^ n)"
proof -
  assume n: "n \<le> 10"
  have "(5 :: int) ^ n \<le> 5 ^ 10" using n by (intro power_increasing) auto
  then have "\<bar>(5 :: int) ^ n\<bar> \<le> 2 ^ 24" by simp
  moreover have "(10 :: rat) ^ n = of_int (5 ^ n) * 2 powi int n" by (simp add: power_mult_distrib [symmetric])
  ultimately show "single_rep (10 ^ n)" unfolding single_rep_def by blast
qed

subsection \<open>Counting roundings\<close>

definition low :: rat where "low = 1 - 1 / 2 ^ 24"
definition high :: rat where "high = 1 + 1 / 2 ^ 24"

definition near :: "nat \<Rightarrow> rat \<Rightarrow> rat \<Rightarrow> bool" where
  "near n a x \<longleftrightarrow> 0 \<le> a \<and> a * low ^ n \<le> x \<and> x \<le> a * high ^ n"

lemma low_high: "0 < low" "low \<le> 1" "1 \<le> high"
  by (simp_all add: low_def high_def)

lemma near_refl: "0 \<le> a \<Longrightarrow> near n a a"
  using low_high power_le_one [of low n] one_le_power [of high n] by (simp add: near_def mult_left_le mult_le_cancel_left1)

lemma near_nonneg: "near n a x \<Longrightarrow> 0 \<le> x"
  using low_high(1) unfolding near_def by (meson less_imp_le mult_nonneg_nonneg order_trans zero_le_power)

lemma near_mono: "near n a x \<Longrightarrow> n \<le> k \<Longrightarrow> near k a x"
  using power_decreasing [of n k low] power_increasing [of n k high] low_high unfolding near_def
  by (meson less_imp_le mult_left_mono order_trans)

lemma near_add: "near n a x \<Longrightarrow> near n b y \<Longrightarrow> near n (a + b) (x + y)"
  by (auto simp: near_def distrib_right)

lemma near_mult:
  assumes "near n a x" "0 \<le> c"
  shows "near n (a * c) (x * c)"
  using assms mult_right_mono [of "a * low ^ n" x c] mult_right_mono [of x "a * high ^ n" c]
  by (simp add: near_def mult_ac)

lemma near_round:
  assumes "near n a x" "nearest x z"
  shows "near (Suc n) a z"
proof -
  have "0 \<le> x" using assms(1) by (rule near_nonneg)
  then have "\<bar>x - z\<bar> \<le> x / 2 ^ 24" using nearest_error [OF assms(2)] by simp
  then have "x - x / 2 ^ 24 \<le> z" "z \<le> x + x / 2 ^ 24" unfolding abs_le_iff by linarith+
  then have "x * low \<le> z" "z \<le> x * high" by (simp_all add: low_def high_def right_diff_distrib distrib_left)
  moreover have "a * low ^ Suc n \<le> x * low" "x * high \<le> a * high ^ Suc n"
    using assms(1) low_high mult_right_mono [of "a * low ^ n" x low] mult_right_mono [of x "a * high ^ n" high]
    by (simp_all add: near_def mult_ac)
  ultimately show ?thesis using assms(1) by (simp add: near_def)
qed

text \<open>Sixteen roundings change a number by less than one part in \<open>2 ^ 19\<close>.\<close>

lemma near_sixteen:
  assumes "near n a x" "n \<le> 16"
  shows "\<bar>x - a\<bar> \<le> a / 2 ^ 19"
proof -
  have a: "0 \<le> a" using assms(1) by (simp add: near_def)
  have lo: "1 - 1 / 2 ^ 19 \<le> low ^ 16" and hi: "high ^ 16 \<le> 1 + 1 / 2 ^ 19"
    by (simp_all add: low_def high_def power_divide)
  have "a * low ^ 16 \<le> x" "x \<le> a * high ^ 16" using near_mono [OF assms] by (simp_all add: near_def)
  then have "a * (1 - 1 / 2 ^ 19) \<le> x" "x \<le> a * (1 + 1 / 2 ^ 19)"
    using mult_left_mono [OF lo a] mult_left_mono [OF hi a] by (meson order_trans)+
  then have "a - a / 2 ^ 19 \<le> x" "x \<le> a + a / 2 ^ 19" by (simp_all add: right_diff_distrib distrib_left)
  then show ?thesis unfolding abs_le_iff by linarith
qed

lemma near_in_range:
  assumes "near n a x" "n \<le> 16" "a = 0 \<or> 1 / 10 ^ 8 \<le> a" "a \<le> 10 ^ 9"
  shows "in_range x"
proof (cases "a = 0")
  case False
  have "\<bar>x - a\<bar> \<le> a / 2 ^ 19" using assms(1,2) by (rule near_sixteen)
  moreover have "a / 2 ^ 19 \<le> a / 2" using assms(1) by (simp add: near_def)
  ultimately have x: "a / 2 \<le> x" "x \<le> 2 * a" unfolding abs_le_iff by linarith+
  have "1 / 2 ^ 126 \<le> (1 / 10 ^ 8 :: rat) / 2" "2 * 10 ^ 9 \<le> (2 ^ 127 :: rat)" by simp_all
  moreover have "(1 / 10 ^ 8) / 2 \<le> a / 2" "2 * a \<le> 2 * 10 ^ 9" using False assms(3,4) by auto
  ultimately have "1 / 2 ^ 126 \<le> x" "x \<le> 2 ^ 127" using x by (meson order_trans)+
  then show ?thesis using near_nonneg [OF assms(1)] by (simp add: in_range_def)
qed (use assms(1) in \<open>simp add: near_def in_range_def\<close>)

end
