(* ===== verification/FloatText.thy ===== *)
theory FloatText
  imports SinglePrecision CommandLine KernelFile
begin

text \<open>
  lang/float.linux-x86_64.asm and d7ad7024_getFloat of terminal/commandline: a number with a decimal point. The arithmetic of
  the processor is a parameter, the six instructions on single floats that the code uses; the theorems hold for every
  arithmetic, or for every one that rounds to a nearest number of single precision. Eight chars of the text are looked at.
\<close>

subsection \<open>The parser\<close>

record 'f sse =
  movd_from :: "u32 \<Rightarrow> 'f"
  movd_to :: "'f \<Rightarrow> u32"
  cvtsi2ss :: "u32 \<Rightarrow> 'f"
  addss :: "'f \<Rightarrow> 'f \<Rightarrow> 'f"
  mulss :: "'f \<Rightarrow> 'f \<Rightarrow> 'f"
  divss :: "'f \<Rightarrow> 'f \<Rightarrow> 'f"

definition TEN :: u32 where "TEN = 0x41200000"
definition NAN :: u32 where "NAN = 0x7fc00000"

definition float_digit :: "char \<Rightarrow> u32 option" where
  "float_digit ch = (if schar ch > 0x39 \<or> schar ch < 0x30 then None else Some (word_of_int (schar ch - 0x30)))"

text \<open>The loop behind the decimal point: \<open>ah\<close> counts the chars, XMM2 is the magnitude.\<close>

function whileDecimal :: "'f sse \<Rightarrow> nat \<Rightarrow> string \<Rightarrow> 'f \<Rightarrow> 'f \<Rightarrow> 'f" where
  "whileDecimal ops ah rcx xmm0 xmm2 =
     (case float_digit (reg_char rcx) of
        None \<Rightarrow> movd_from ops NAN
      | Some d \<Rightarrow>
          let xmm0 = addss ops xmm0 (divss ops (cvtsi2ss ops d) xmm2); xmm2 = mulss ops xmm2 (movd_from ops TEN);
              ah = ah + 1; rcx = tl rcx
          in if reg_char rcx = NUL then xmm0 else if ah = 8 then xmm0 else whileDecimal ops ah rcx xmm0 xmm2)"
  by pat_completeness auto
termination
  by (relation "measure (\<lambda>(ops, ah, rcx, _). length rcx)") (auto simp: reg_char_def split: list.splits)

definition processDecimal :: "'f sse \<Rightarrow> nat \<Rightarrow> string \<Rightarrow> 'f \<Rightarrow> 'f" where
  "processDecimal ops ah rcx xmm0 =
     (if ah + 1 = 8 then movd_from ops NAN else whileDecimal ops (ah + 1) (tl rcx) xmm0 (movd_from ops TEN))"

function whileInteger :: "'f sse \<Rightarrow> nat \<Rightarrow> string \<Rightarrow> 'f \<Rightarrow> 'f" where
  "whileInteger ops ah rcx xmm0 =
     (case float_digit (reg_char rcx) of
        None \<Rightarrow> movd_from ops NAN
      | Some d \<Rightarrow>
          let xmm0 = addss ops (mulss ops xmm0 (movd_from ops TEN)) (cvtsi2ss ops d); ah = ah + 1; rcx = tl rcx
          in if reg_char rcx = CHR ''.'' then processDecimal ops ah rcx xmm0
             else if reg_char rcx = NUL then xmm0
             else if ah = 8 then movd_from ops NAN
             else whileInteger ops ah rcx xmm0)"
  by pat_completeness auto
termination
  by (relation "measure (\<lambda>(ops, ah, rcx, _). length rcx)") (auto simp: reg_char_def split: list.splits)

declare whileDecimal.simps [simp del] whileInteger.simps [simp del]

text \<open>The sign is skipped; nothing reads the flag that is set for it.\<close>

definition b08dcfcc_parseFloat :: "'f sse \<Rightarrow> string \<Rightarrow> 'f" where
  "b08dcfcc_parseFloat ops source =
     (let rcx = take 8 source; xmm0 = movd_from ops 0;
          (ah, rcx) = (if reg_char rcx = CHR ''-'' then (1, tl rcx) else (0, rcx))
      in if reg_char rcx = NUL then movd_from ops NAN
         else if reg_char rcx = CHR ''.'' then processDecimal ops ah rcx xmm0
         else whileInteger ops ah rcx xmm0)"

subsection \<open>terminal/commandline\<close>

text \<open>
  After a failed parse the register of the struct holds the argument instead, and the usage message is looked for in its text.
\<close>

definition d7ad7024_getFloat :: "'f sse \<Rightarrow> env \<Rightarrow> CmdLineParam \<Rightarrow> string \<Rightarrow> u32 \<Rightarrow> 'f result" where
  "d7ad7024_getFloat ops e p paramName i =
     (if i + 1 = cl_argc p then missingParameter e p paramName
      else bnd (argument p (i + 1)) (\<lambda>a. bnd (deref a) (\<lambda>arg.
           let f = b08dcfcc_parseFloat ops arg in if movd_to ops f = NAN then Inl OutOfBounds else Inr f)))"

subsection \<open>Lemmas\<close>

text \<open>The integer part by Horner's rule, and the decimals with their magnitudes, in the given arithmetic.\<close>

definition integer_part :: "'f sse \<Rightarrow> 'f \<Rightarrow> nat list \<Rightarrow> 'f" where
  "integer_part ops x ds = foldl (\<lambda>x d. addss ops (mulss ops x (movd_from ops TEN)) (cvtsi2ss ops (of_nat d))) x ds"

fun with_decimals :: "'f sse \<Rightarrow> 'f \<Rightarrow> 'f \<Rightarrow> nat list \<Rightarrow> 'f" where
  "with_decimals ops x mag [] = x"
| "with_decimals ops x mag (d # ds) =
     with_decimals ops (addss ops x (divss ops (cvtsi2ss ops (of_nat d)) mag)) (mulss ops mag (movd_from ops TEN)) ds"

lemma float_digit_value: "d < 10 \<Longrightarrow> float_digit (ascii_digit d) = Some (of_nat d)"
  using digit_char_facts(1,2) [of d] digit_value [of d] by (simp add: float_digit_def)

lemma digit_not_point: "d < 10 \<Longrightarrow> ascii_digit d \<noteq> CHR ''.'' \<and> ascii_digit d \<noteq> NUL \<and> ascii_digit d \<noteq> CHR ''-''"
proof -
  have "\<forall>d \<in> set [0..<10]. ascii_digit d \<noteq> CHR ''.'' \<and> ascii_digit d \<noteq> NUL \<and> ascii_digit d \<noteq> CHR ''-''" by code_simp
  then show "d < 10 \<Longrightarrow> ?thesis" by simp
qed

lemma whileDecimal_digits:
  "\<forall>d \<in> set ds. d < 10 \<Longrightarrow> ds \<noteq> [] \<Longrightarrow> ah + length ds \<le> 8 \<Longrightarrow>
     whileDecimal ops ah (map ascii_digit ds) x mag = with_decimals ops x mag ds"
proof (induction ds arbitrary: ah x mag)
  case (Cons d ds)
  show ?case
  proof (cases ds)
    case Nil
    then show ?thesis using Cons.prems by (simp add: whileDecimal.simps [of ops ah] reg_char_def float_digit_value)
  next
    case (Cons d' ds')
    with Cons.prems have "d' < 10" "ah + 1 \<noteq> 8" by auto
    with Cons.prems Cons.IH [of "ah + 1"] Cons show ?thesis
      using digit_not_point [of d'] by (simp add: whileDecimal.simps [of ops ah] reg_char_def float_digit_value Let_def)
  qed
qed simp

lemma whileInteger_digits:
  assumes "\<forall>d \<in> set ds. d < 10" "ds \<noteq> []" "\<forall>d \<in> set fs. d < 10"
    and "tail = [] \<and> fs = [] \<and> ah + length ds \<le> 8 \<or> tail = CHR ''.'' # map ascii_digit fs \<and> fs \<noteq> [] \<and> ah + length ds + 1 + length fs \<le> 8"
  shows "whileInteger ops ah (map ascii_digit ds @ tail) x =
           with_decimals ops (integer_part ops x ds) (movd_from ops TEN) fs"
  using assms
proof (induction ds arbitrary: ah x)
  case (Cons d ds)
  let ?x = "addss ops (mulss ops x (movd_from ops TEN)) (cvtsi2ss ops (of_nat d))"
  have d: "float_digit (ascii_digit d) = Some (of_nat d)" using Cons.prems(1) float_digit_value by simp
  show ?case
  proof (cases ds)
    case Nil
    show ?thesis
    proof (cases "tail = []")
      case True
      then show ?thesis using Nil Cons.prems(4) d by (simp add: whileInteger.simps [of ops ah] reg_char_def integer_part_def)
    next
      case False
      then have t: "tail = CHR ''.'' # map ascii_digit fs" "fs \<noteq> []" "ah + 2 + length fs \<le> 8" using Cons.prems(4) Nil by auto
      then have "ah + 2 \<noteq> 8" by (cases fs) auto
      then have "processDecimal ops (ah + 1) tail ?x = with_decimals ops ?x (movd_from ops TEN) fs"
        using t whileDecimal_digits [OF Cons.prems(3) t(2), of "ah + 2" ops] by (simp add: processDecimal_def)
      then show ?thesis using Nil t(1) d by (simp add: whileInteger.simps [of ops ah] reg_char_def integer_part_def)
    qed
  next
    case (Cons d' ds')
    then have d': "d' < 10" using Cons.prems(1) by simp
    have "ah + 1 \<noteq> 8" using Cons.prems(4) \<open>ds = d' # ds'\<close> by auto
    moreover have "whileInteger ops (ah + 1) (map ascii_digit ds @ tail) ?x =
        with_decimals ops (integer_part ops ?x ds) (movd_from ops TEN) fs"
      using Cons.IH [of "ah + 1" ?x] Cons.prems \<open>ds = d' # ds'\<close> by auto
    ultimately show ?thesis using d digit_not_point [OF d'] \<open>ds = d' # ds'\<close>
      by (simp add: whileInteger.simps [of ops ah] reg_char_def integer_part_def Let_def)
  qed
qed simp

text \<open>A text of digits with or without a point, and a sign that is skipped.\<close>

definition float_text :: "bool \<Rightarrow> nat list \<Rightarrow> nat list \<Rightarrow> string" where
  "float_text neg ds fs =
     (if neg then ''-'' else []) @ map ascii_digit ds @ (if fs = [] then [] else CHR ''.'' # map ascii_digit fs)"

lemma parseFloat_text:
  assumes "\<forall>d \<in> set (ds @ fs). d < 10" "ds @ fs \<noteq> []" "length (float_text neg ds fs) \<le> 8"
  shows "b08dcfcc_parseFloat ops (float_text neg ds fs) =
           with_decimals ops (integer_part ops (movd_from ops 0) ds) (movd_from ops TEN) fs"
proof -
  let ?tail = "if fs = [] then [] else CHR ''.'' # map ascii_digit fs" and ?ah = "if neg then 1 else 0 :: nat"
  let ?x = "movd_from ops 0"
  have len: "?ah + length ds + length ?tail \<le> 8" using assms(3) by (cases neg; cases "fs = []") (simp_all add: float_text_def)
  have all: "take 8 (float_text neg ds fs) = float_text neg ds fs" using assms(3) by simp
  have body: "(if reg_char (map ascii_digit ds @ ?tail) = NUL then movd_from ops NAN
      else if reg_char (map ascii_digit ds @ ?tail) = CHR ''.'' then processDecimal ops ?ah (map ascii_digit ds @ ?tail) ?x
      else whileInteger ops ?ah (map ascii_digit ds @ ?tail) ?x) =
      with_decimals ops (integer_part ops ?x ds) (movd_from ops TEN) fs"
  proof (cases ds)
    case Nil
    then have fs: "fs \<noteq> []" "\<forall>d \<in> set fs. d < 10" using assms(1,2) by auto
    then have "processDecimal ops ?ah (CHR ''.'' # map ascii_digit fs) ?x = with_decimals ops ?x (movd_from ops TEN) fs"
      using len Nil whileDecimal_digits [OF fs(2,1), of "?ah + 1" ops] by (simp add: processDecimal_def)
    then show ?thesis using Nil fs(1) by (simp add: reg_char_def integer_part_def)
  next
    case (Cons d ds')
    then have "d < 10" using assms(1) by simp
    moreover have "whileInteger ops ?ah (map ascii_digit ds @ ?tail) ?x =
        with_decimals ops (integer_part ops ?x ds) (movd_from ops TEN) fs"
      using assms(1) len Cons by (intro whileInteger_digits) auto
    ultimately show ?thesis using Cons digit_not_point [of d] by (simp add: reg_char_def)
  qed
  have "reg_char (map ascii_digit ds @ ?tail) \<noteq> CHR ''-''"
  proof (cases ds)
    case Nil
    then show ?thesis using assms(2) by (simp add: reg_char_def)
  next
    case (Cons d ds')
    then show ?thesis using assms(1) digit_not_point [of d] by (simp add: reg_char_def)
  qed
  moreover define t where "t = map ascii_digit ds @ ?tail"
  ultimately have t: "float_text neg ds fs = (if neg then CHR ''-'' # t else t)" "reg_char t \<noteq> CHR ''-''"
    "(if reg_char t = NUL then movd_from ops NAN else if reg_char t = CHR ''.'' then processDecimal ops ?ah t ?x
      else whileInteger ops ?ah t ?x) = with_decimals ops (integer_part ops ?x ds) (movd_from ops TEN) fs"
    using body by (simp_all only: t_def float_text_def if_True if_False append_Nil append_Cons split: if_split) simp_all
  have "reg_char (CHR ''-'' # t) = CHR ''-''" by (simp add: reg_char_def)
  then show ?thesis using t(2,3) unfolding b08dcfcc_parseFloat_def all unfolding t(1) by (cases neg) (simp_all add: Let_def split: if_splits)
qed

lemma whileInteger_late_point:
  assumes "\<forall>d \<in> set ds. d < 10" "ds \<noteq> []" "ah + length ds = 7"
  shows "whileInteger ops ah (map ascii_digit ds @ CHR ''.'' # rest) x = movd_from ops NAN"
  using assms
proof (induction ds arbitrary: ah x)
  case (Cons d ds)
  have d: "float_digit (ascii_digit d) = Some (of_nat d)" using Cons.prems(1) float_digit_value by simp
  show ?case
  proof (cases ds)
    case Nil
    then have "ah = 6" using Cons.prems(3) by simp
    then show ?thesis using Nil d by (simp add: whileInteger.simps [of ops 6] reg_char_def processDecimal_def)
  next
    case (Cons d' ds')
    then have d': "d' < 10" "ah + 1 \<noteq> 8" using Cons.prems(1,3) by auto
    have "whileInteger ops (ah + 1) (map ascii_digit ds @ CHR ''.'' # rest) y = movd_from ops NAN" for y
      using Cons.IH [of "ah + 1"] Cons.prems Cons by auto
    then show ?thesis using d digit_not_point [OF d'(1)] d'(2) \<open>ds = d' # ds'\<close>
      by (simp add: whileInteger.simps [of ops ah] reg_char_def Let_def)
  qed
qed simp

text \<open>What the first eight chars of such a text are: digits and decimals, or nothing when the eighth is the point.\<close>

definition kept :: "bool \<Rightarrow> nat list \<Rightarrow> nat list \<Rightarrow> (nat list \<times> nat list) option" where
  "kept neg ds fs =
     (let k = if neg then 7 else 8
      in if k \<le> length ds then Some (take k ds, []) else if length ds + 1 = k \<and> fs \<noteq> [] then None
         else Some (ds, take (k - 1 - length ds) fs))"

lemma kept_text:
  assumes "kept neg ds fs = Some (ds', fs')"
  shows "take 8 (float_text neg ds fs) = float_text neg ds' fs'"
  using assms
  by (cases neg) (auto simp: kept_def float_text_def Let_def take_Cons' take_map split: if_splits)

lemma kept_facts:
  assumes "kept neg ds fs = Some (ds', fs')" "\<forall>d \<in> set (ds @ fs). d < 10" "ds @ fs \<noteq> []"
  shows "\<forall>d \<in> set (ds' @ fs'). d < 10" "ds' @ fs' \<noteq> []" "length (ds' @ fs') \<le> 8"
  using assms by (auto simp: kept_def Let_def split: if_splits dest: in_set_takeD)

lemma parseFloat_kept:
  assumes "kept neg ds fs = Some (ds', fs')" "\<forall>d \<in> set (ds @ fs). d < 10" "ds @ fs \<noteq> []"
  shows "b08dcfcc_parseFloat ops (float_text neg ds fs) =
           with_decimals ops (integer_part ops (movd_from ops 0) ds') (movd_from ops TEN) fs'"
proof -
  have t: "take 8 (float_text neg ds fs) = float_text neg ds' fs'" using assms(1) by (rule kept_text)
  have "length (float_text neg ds' fs') \<le> 8" unfolding t [symmetric] by simp
  with kept_facts [OF assms] have "b08dcfcc_parseFloat ops (float_text neg ds' fs') =
      with_decimals ops (integer_part ops (movd_from ops 0) ds') (movd_from ops TEN) fs'"
    by (intro parseFloat_text)
  moreover have "b08dcfcc_parseFloat ops s = b08dcfcc_parseFloat ops (take 8 s)" for s by (simp add: b08dcfcc_parseFloat_def)
  ultimately show ?thesis using t by metis
qed

lemma parseFloat_late_point:
  assumes "kept neg ds fs = None" "\<forall>d \<in> set (ds @ fs). d < 10"
  shows "b08dcfcc_parseFloat ops (float_text neg ds fs) = movd_from ops NAN"
proof -
  have fs: "fs \<noteq> []" and len: "length ds + (if neg then 1 else 0) = 7" using assms(1) by (auto simp: kept_def Let_def split: if_splits)
  obtain d ds' where ds: "ds = d # ds'" using len by (cases ds) (auto split: if_splits)
  have "take 8 (float_text neg ds fs) = (if neg then ''-'' else []) @ map ascii_digit ds @ ''.''"
    using fs len by (cases neg) (simp_all add: float_text_def take_Cons')
  moreover have "whileInteger ops (if neg then 1 else 0) (map ascii_digit ds @ ''.'') (movd_from ops 0) = movd_from ops NAN"
    using assms(2) ds len by (intro whileInteger_late_point) auto
  ultimately show ?thesis using digit_not_point [of d] assms(2) ds
    by (cases neg) (simp_all add: b08dcfcc_parseFloat_def Let_def reg_char_def)
qed

text \<open>
  The instructions as the processor gives them: single precision, the result nearest to the exact one, whichever way ties and
  numbers outside the range of the format are settled.
\<close>

definition rounds :: "rat option \<Rightarrow> rat \<Rightarrow> bool" where
  "rounds v r \<longleftrightarrow> (in_range r \<longrightarrow> (\<exists>z. v = Some z \<and> nearest r z))"

definition single_sse :: "'f sse \<Rightarrow> ('f \<Rightarrow> rat option) \<Rightarrow> bool" where
  "single_sse ops val \<longleftrightarrow>
     val (movd_from ops 0) = Some 0 \<and> val (movd_from ops TEN) = Some 10 \<and> val (movd_from ops NAN) = None \<and>
     (\<forall>d < 10. val (cvtsi2ss ops (of_nat d)) = Some (of_nat d)) \<and>
     (\<forall>a b x y. val a = Some x \<longrightarrow> val b = Some y \<longrightarrow>
        rounds (val (addss ops a b)) (x + y) \<and> rounds (val (mulss ops a b)) (x * y) \<and>
        (y \<noteq> 0 \<longrightarrow> rounds (val (divss ops a b)) (x / y)))"

text \<open>One arithmetic of this kind, by computation on rational numbers; None is not a number.\<close>

definition nearest_sse :: "rat option sse" where
  "nearest_sse = \<lparr>movd_from = (\<lambda>w. if w = 0 then Some 0 else if w = TEN then Some 10 else None),
     movd_to = (\<lambda>x. if x = None then NAN else 0), cvtsi2ss = (\<lambda>w. Some (round24 (rat_of_int (sint w)))),
     addss = (\<lambda>x y. Option.bind x (\<lambda>x. map_option (\<lambda>y. round24 (x + y)) y)),
     mulss = (\<lambda>x y. Option.bind x (\<lambda>x. map_option (\<lambda>y. round24 (x * y)) y)),
     divss = (\<lambda>x y. Option.bind x (\<lambda>x. map_option (\<lambda>y. round24 (x / y)) y))\<rparr>"

lemma nearest_sse_single: "single_sse nearest_sse (\<lambda>x. x)"
proof -
  have "cvtsi2ss nearest_sse (of_nat d) = Some (of_nat d)" if d: "d < 10" for d
  proof -
    have "\<forall>d \<in> set [0..<10]. sint (of_nat d :: u32) = int d" by code_simp
    then have "sint (of_nat d :: u32) = int d" using d by (simp only: set_upt atLeastLessThan_iff) simp
    moreover have "round24 (of_nat d) = of_nat d" using d by (intro nearest_same [OF round24_nearest] single_rep_nat) simp
    ultimately show ?thesis unfolding nearest_sse_def by (simp only: sse.simps of_int_of_nat_eq)
  qed
  then show ?thesis
    by (simp add: single_sse_def rounds_def round24_nearest) (simp add: nearest_sse_def TEN_def NAN_def round24_nearest)
qed

lemma single_sse_digit: "single_sse ops val \<Longrightarrow> d < 10 \<Longrightarrow> val (cvtsi2ss ops (of_nat d)) = Some (of_nat d)"
  by (simp add: single_sse_def)

lemma single_sse_rounds:
  assumes "single_sse ops val" "val a = Some x" "val b = Some y"
  shows "in_range (x + y) \<Longrightarrow> \<exists>z. val (addss ops a b) = Some z \<and> nearest (x + y) z"
    and "in_range (x * y) \<Longrightarrow> \<exists>z. val (mulss ops a b) = Some z \<and> nearest (x * y) z"
    and "y \<noteq> 0 \<Longrightarrow> in_range (x / y) \<Longrightarrow> \<exists>z. val (divss ops a b) = Some z \<and> nearest (x / y) z"
  using assms unfolding single_sse_def rounds_def by blast+

lemma decimal_value_split: "decimal_value a (ds @ fs) = decimal_value (decimal_value a ds) fs"
  by (simp add: decimal_value_def)

lemma decimal_value_Cons: "decimal_value a (d # ds) = decimal_value (10 * a + d) ds"
  by (simp add: decimal_value_def)

lemma digit_room: "d < 10 \<Longrightarrow> (10 * a + d + 1) * 10 ^ k \<le> (a + 1) * (10 :: nat) ^ Suc k"
proof -
  assume "d < 10"
  then have "(10 * a + d + 1) * 10 ^ k \<le> ((a + 1) * 10) * (10 :: nat) ^ k" by (intro mult_right_mono) auto
  then show ?thesis by (simp only: power_Suc mult.assoc)
qed

lemma decimal_value_bound:
  "\<forall>d \<in> set ds. d < 10 \<Longrightarrow> decimal_value a ds + 1 \<le> (a + 1) * 10 ^ length ds \<and> a \<le> decimal_value a ds"
proof (induction ds arbitrary: a)
  case (Cons d ds)
  have "(10 * a + d + 1) * 10 ^ length ds \<le> (a + 1) * 10 ^ length (d # ds)" using digit_room [of d a] Cons.prems by simp
  moreover have "decimal_value (10 * a + d) ds + 1 \<le> (10 * a + d + 1) * 10 ^ length ds" "10 * a + d \<le> decimal_value (10 * a + d) ds"
    using Cons.IH [of "10 * a + d"] Cons.prems by simp_all
  ultimately show ?case unfolding decimal_value_Cons by linarith
qed (simp add: decimal_value_def)

text \<open>One digit of the integer part: two roundings, and none while the numbers are small.\<close>

lemma integer_step:
  assumes sse: "single_sse ops val" and x: "val a = Some x" "near n (of_nat N) x" and d: "d < 10"
    and small: "n + 2 \<le> 16" "10 * N + d < 10 ^ 8"
  obtains z where "val (addss ops (mulss ops a (movd_from ops TEN)) (cvtsi2ss ops (of_nat d))) = Some z"
    "near (n + 2) (of_nat (10 * N + d)) z" "x = of_nat N \<Longrightarrow> 10 * N + d \<le> 2 ^ 24 \<Longrightarrow> z = of_nat (10 * N + d)"
proof -
  have big: "in_range y" if "near k (of_nat M) y" "k \<le> 16" "M < 10 ^ 8" for k M y
  proof -
    have "(of_nat M :: rat) \<le> of_nat (10 ^ 8)" using that(3) by (simp only: of_nat_le_iff)
    moreover have "M = 0 \<or> 1 \<le> (of_nat M :: rat)" by (cases M) auto
    ultimately show ?thesis using that(1,2) by (intro near_in_range) auto
  qed
  have 1: "near n (of_nat (10 * N)) (x * 10)" using near_mult [OF x(2), of 10] by (simp add: mult.commute)
  have "val (movd_from ops TEN) = Some 10" using sse by (simp add: single_sse_def)
  moreover have "in_range (x * 10)" using small by (intro big [OF 1]) auto
  ultimately obtain y where y: "val (mulss ops a (movd_from ops TEN)) = Some y" "nearest (x * 10) y"
    using single_sse_rounds(2) [OF sse x(1)] by blast
  have "near (n + 1) (of_nat (10 * N) + of_nat d) (y + of_nat d)"
    using near_round [OF 1 y(2)] by (intro near_add near_refl) simp_all
  then have 2: "near (n + 1) (of_nat (10 * N + d)) (y + of_nat d)" by simp
  then have "in_range (y + of_nat d)" using small by (intro big [OF 2]) auto
  then obtain z where z: "val (addss ops (mulss ops a (movd_from ops TEN)) (cvtsi2ss ops (of_nat d))) = Some z" "nearest (y + of_nat d) z"
    using single_sse_rounds(1) [OF sse y(1) single_sse_digit [OF sse d]] by blast
  have "z = of_nat (10 * N + d)" if e: "x = of_nat N" "10 * N + d \<le> 2 ^ 24"
  proof -
    have "y = of_nat (10 * N)" using y(2) e by (intro nearest_same) (auto simp: mult.commute intro: single_rep_nat [of "10 * N", simplified])
    then have "nearest (of_nat (10 * N + d)) z" using z(2) by simp
    then show ?thesis using e(2) by (intro nearest_same single_rep_nat)
  qed
  then show thesis using that [OF z(1)] near_round [OF 2 z(2)] by simp
qed

lemma integer_part_near:
  assumes "single_sse ops val" "val a = Some x" "near n (of_nat N) x" "\<forall>d \<in> set ds. d < 10"
    and "n + 2 * length ds \<le> 16" "(N + 1) * 10 ^ length ds \<le> 10 ^ 8"
  shows "\<exists>z. val (integer_part ops a ds) = Some z \<and> near (n + 2 * length ds) (of_nat (decimal_value N ds)) z \<and>
           (x = of_nat N \<longrightarrow> decimal_value N ds \<le> 2 ^ 24 \<longrightarrow> z = of_nat (decimal_value N ds))"
  using assms(2-)
proof (induction ds arbitrary: a x n N)
  case (Cons d ds)
  have d: "d < 10" "\<forall>d \<in> set ds. d < 10" using Cons.prems by auto
  have "(N + 1) * 10 ^ Suc (length ds) \<le> 10 ^ 8" using Cons.prems(5) by simp
  with digit_room [OF d(1)] have room: "(10 * N + d + 1) * 10 ^ length ds \<le> 10 ^ 8" by (rule order_trans)
  have "(10 * N + d + 1) * 1 \<le> (10 * N + d + 1) * 10 ^ length ds" by (intro mult_left_mono) auto
  also note room
  finally have "10 * N + d < 10 ^ 8" by simp
  with integer_step [OF assms(1) Cons.prems(1,2) d(1)] Cons.prems(4) obtain z where
    z: "val (addss ops (mulss ops a (movd_from ops TEN)) (cvtsi2ss ops (of_nat d))) = Some z"
      "near (n + 2) (of_nat (10 * N + d)) z" "x = of_nat N \<Longrightarrow> 10 * N + d \<le> 2 ^ 24 \<Longrightarrow> z = of_nat (10 * N + d)" by auto
  have "10 * N + d \<le> decimal_value N (d # ds)" using decimal_value_bound [OF d(2)] by (simp add: decimal_value_Cons)
  then show ?case using Cons.IH [OF z(1,2) d(2) _ room] Cons.prems(4) z(3)
    by (auto simp: integer_part_def decimal_value_Cons)
qed (simp add: integer_part_def decimal_value_def)

text \<open>The decimals: their magnitudes are powers of ten and exact.\<close>

lemma decimal_step:
  assumes sse: "single_sse ops val" and x: "val a = Some x" "near n (of_nat N / 10 ^ i) x" and m: "val mag = Some (10 ^ Suc i)"
    and d: "d < 10" and small: "n + 2 \<le> 16" "i < 8" "10 * N + d < 10 ^ 8"
  obtains z where "val (addss ops a (divss ops (cvtsi2ss ops (of_nat d)) mag)) = Some z"
    "near (n + 2) (of_nat (10 * N + d) / 10 ^ Suc i) z" "val (mulss ops mag (movd_from ops TEN)) = Some (10 ^ Suc (Suc i))"
proof -
  have big: "in_range y" if "near k (of_nat M / 10 ^ Suc i) y" "k \<le> 16" "M < 10 ^ 8" for k M y
  proof -
    have "(of_nat M :: rat) \<le> of_nat (10 ^ 8)" using that(3) by (simp only: of_nat_le_iff)
    moreover have "(1 :: rat) \<le> 10 ^ Suc i" by (rule one_le_power) simp
    moreover have "(of_nat M :: rat) / 10 ^ Suc i \<le> of_nat M / 1" using calculation(2) by (intro divide_left_mono) auto
    ultimately have hi: "(of_nat M :: rat) / 10 ^ Suc i \<le> 10 ^ 9" by simp
    have "(10 :: rat) ^ Suc i \<le> 10 ^ 8" using small(2) by (intro power_increasing) auto
    then have "1 / 10 ^ 8 \<le> (1 :: rat) / 10 ^ Suc i" by (intro divide_left_mono) auto
    moreover have "(1 :: rat) / 10 ^ Suc i \<le> of_nat M / 10 ^ Suc i" if "M \<noteq> 0" using that by (intro divide_right_mono) auto
    ultimately have "M = 0 \<or> 1 / 10 ^ 8 \<le> (of_nat M :: rat) / 10 ^ Suc i" by (metis order_trans)
    then show ?thesis using that(1,2) hi by (intro near_in_range) auto
  qed
  have 0: "near 0 (of_nat d / 10 ^ Suc i) (of_nat d / 10 ^ Suc i)" by (intro near_refl) simp
  have "in_range (of_nat d / 10 ^ Suc i)" using d by (intro big [OF 0]) auto
  then obtain y where y: "val (divss ops (cvtsi2ss ops (of_nat d)) mag) = Some y" "nearest (of_nat d / 10 ^ Suc i) y"
    using single_sse_rounds(3) [OF sse single_sse_digit [OF sse d] m] by auto
  have "near (n + 1) (of_nat N / 10 ^ i + of_nat d / 10 ^ Suc i) (x + y)"
    using near_mono [OF x(2), of "n + 1"] near_mono [OF near_round [OF 0 y(2)], of "n + 1"] by (intro near_add) simp_all
  moreover have "of_nat N / 10 ^ i + of_nat d / 10 ^ Suc i = (of_nat (10 * N + d) / 10 ^ Suc i :: rat)"
    by (simp add: add_divide_distrib)
  ultimately have 1: "near (n + 1) (of_nat (10 * N + d) / 10 ^ Suc i) (x + y)" by simp
  then have "in_range (x + y)" using small by (intro big [OF 1]) auto
  then obtain z where z: "val (addss ops a (divss ops (cvtsi2ss ops (of_nat d)) mag)) = Some z" "nearest (x + y) z"
    using single_sse_rounds(1) [OF sse x(1) y(1)] by blast
  have rep: "single_rep (10 ^ Suc i * 10)" using single_rep_ten [of "Suc (Suc i)"] small(2) by (simp add: mult.commute)
  have "1 \<le> (10 :: rat) ^ Suc i" by (rule one_le_power) simp
  moreover have "(10 :: rat) ^ Suc i \<le> 10 ^ 8" using small(2) by (intro power_increasing) auto
  ultimately have "in_range (10 ^ Suc i * 10)" by (simp add: in_range_def)
  moreover have "val (movd_from ops TEN) = Some 10" using sse by (simp add: single_sse_def)
  ultimately obtain w where w: "val (mulss ops mag (movd_from ops TEN)) = Some w" "nearest (10 ^ Suc i * 10) w"
    using single_sse_rounds(2) [OF sse m] by blast
  have "w = 10 ^ Suc i * 10" using w(2) rep by (rule nearest_same)
  then show thesis using that [OF z(1)] near_round [OF 1 z(2)] w(1) by (simp add: mult.commute)
qed

lemma with_decimals_near:
  assumes "single_sse ops val" "val a = Some x" "near n (of_nat N / 10 ^ i) x" "val mag = Some (10 ^ Suc i)"
    and "\<forall>d \<in> set fs. d < 10" "n + 2 * length fs \<le> 16" "i + length fs \<le> 8" "(N + 1) * 10 ^ length fs \<le> 10 ^ 8"
  shows "\<exists>z. val (with_decimals ops a mag fs) = Some z \<and>
           near (n + 2 * length fs) (of_nat (decimal_value N fs) / 10 ^ (i + length fs)) z"
  using assms(2-)
proof (induction fs arbitrary: a x n N i mag)
  case (Cons d fs)
  have d: "d < 10" "\<forall>d \<in> set fs. d < 10" using Cons.prems by auto
  have "(N + 1) * 10 ^ Suc (length fs) \<le> 10 ^ 8" using Cons.prems(7) by simp
  with digit_room [OF d(1)] have room: "(10 * N + d + 1) * 10 ^ length fs \<le> 10 ^ 8" by (rule order_trans)
  have "(10 * N + d + 1) * 1 \<le> (10 * N + d + 1) * 10 ^ length fs" by (intro mult_left_mono) auto
  also note room
  finally have "10 * N + d < 10 ^ 8" by simp
  with decimal_step [OF assms(1) Cons.prems(1,2,3) d(1)] Cons.prems(5,6) obtain z where
    z: "val (addss ops a (divss ops (cvtsi2ss ops (of_nat d)) mag)) = Some z"
      "near (n + 2) (of_nat (10 * N + d) / 10 ^ Suc i) z" "val (mulss ops mag (movd_from ops TEN)) = Some (10 ^ Suc (Suc i))" by auto
  show ?case using Cons.IH [OF z(1,2,3) d(2) _ _ room] Cons.prems(5,6) by (simp add: decimal_value_Cons)
qed (simp add: decimal_value_def)

text \<open>The sign has no effect, in any arithmetic.\<close>

lemma sign_is_lost:
  "\<forall>d \<in> set (ds @ fs). d < 10 \<Longrightarrow> ds @ fs \<noteq> [] \<Longrightarrow> length (float_text True ds fs) \<le> 8 \<Longrightarrow>
     b08dcfcc_parseFloat ops (float_text True ds fs) = b08dcfcc_parseFloat ops (float_text False ds fs)"
  by (subst (1 2) parseFloat_text) (auto simp: float_text_def)

text \<open>Nine digits are read as the first eight.\<close>

lemma long_text_is_cut: "b08dcfcc_parseFloat ops ''123456789'' = b08dcfcc_parseFloat ops ''12345678''"
  by (simp add: b08dcfcc_parseFloat_def)

subsection \<open>Properties\<close>

text \<open>C38: on a processor that rounds every result to a nearest number of single precision, a text of digits, of any length and
  with a decimal point before some of them or without, is read by its first eight chars alone, the minus sign and the point
  counted. When the eighth is the point the result is not a number. Otherwise it is within one part in \<open>2 ^ 19\<close> of the number
  that the kept digits are, divided by ten for every kept decimal, and is that number exactly when no decimal is kept and it is
  at most \<open>2 ^ 24\<close>. The minus sign does not change the result.\<close>

theorem parseFloat_rounds:
  assumes "single_sse ops val" "\<forall>d \<in> set (ds @ fs). d < 10" "ds @ fs \<noteq> []"
  shows "case kept neg ds fs of
           None \<Rightarrow> val (b08dcfcc_parseFloat ops (float_text neg ds fs)) = None
         | Some (ds', fs') \<Rightarrow> \<exists>v. val (b08dcfcc_parseFloat ops (float_text neg ds fs)) = Some v \<and>
             \<bar>v - of_nat (decimal_value 0 (ds' @ fs')) / 10 ^ length fs'\<bar> \<le>
               of_nat (decimal_value 0 (ds' @ fs')) / 10 ^ length fs' / 2 ^ 19 \<and>
             (fs' = [] \<and> decimal_value 0 ds' \<le> 2 ^ 24 \<longrightarrow> v = of_nat (decimal_value 0 ds'))"
proof (cases "kept neg ds fs")
  case None
  then show ?thesis using parseFloat_late_point [OF None assms(2), of ops] assms(1) by (simp add: single_sse_def)
next
  case (Some p)
  obtain ds' fs' where p: "p = (ds', fs')" by (cases p)
  note k = Some [unfolded p]
  have ds: "\<forall>d \<in> set ds'. d < 10" "\<forall>d \<in> set fs'. d < 10" "length ds' + length fs' \<le> 8"
    using kept_facts [OF k assms(2,3)] by auto
  have zero: "val (movd_from ops 0) = Some 0" and ten: "val (movd_from ops TEN) = Some (10 ^ Suc 0)"
    using assms(1) by (simp_all add: single_sse_def)
  have total: "(10 :: nat) ^ length ds' * 10 ^ length fs' \<le> 10 ^ 8"
    unfolding power_add [symmetric] using ds(3) by (intro power_increasing) auto
  have "(10 :: nat) ^ length ds' \<le> 10 ^ 8" using ds(3) by (intro power_increasing) auto
  moreover have "near 0 (of_nat 0) 0" by (simp add: near_refl)
  ultimately obtain x where
    x: "val (integer_part ops (movd_from ops 0) ds') = Some x" "near (2 * length ds') (of_nat (decimal_value 0 ds')) x"
      "decimal_value 0 ds' \<le> 2 ^ 24 \<Longrightarrow> x = of_nat (decimal_value 0 ds')"
    using integer_part_near [OF assms(1) zero _ ds(1), of 0 0] ds(3) by auto
  have "(decimal_value 0 ds' + 1) * 10 ^ length fs' \<le> 10 ^ length ds' * 10 ^ length fs'"
    using decimal_value_bound [OF ds(1), of 0] by (intro mult_right_mono) auto
  with total have room: "(decimal_value 0 ds' + 1) * 10 ^ length fs' \<le> 10 ^ 8" by (rule order_trans [rotated])
  have "near (2 * length ds') (of_nat (decimal_value 0 ds') / 10 ^ 0) x" using x(2) by simp
  from with_decimals_near [OF assms(1) x(1) this ten ds(2) _ _ room] ds(3) obtain v where
    v: "val (with_decimals ops (integer_part ops (movd_from ops 0) ds') (movd_from ops TEN) fs') = Some v"
      "near (2 * length ds' + 2 * length fs') (of_nat (decimal_value 0 (ds' @ fs')) / 10 ^ length fs') v"
    by (auto simp: decimal_value_split)
  have "\<bar>v - of_nat (decimal_value 0 (ds' @ fs')) / 10 ^ length fs'\<bar> \<le> of_nat (decimal_value 0 (ds' @ fs')) / 10 ^ length fs' / 2 ^ 19"
    using v(2) ds(3) by (intro near_sixteen) auto
  then show ?thesis using v(1) x k parseFloat_kept [OF k assms(2,3), of ops] p Some by auto
qed

lemma parseFloat_rounds_witness:
  "\<exists>v. b08dcfcc_parseFloat nearest_sse ''-12.75'' = Some v \<and> \<bar>v - 51 / 4\<bar> \<le> 51 / 4 / 2 ^ 19"
proof -
  have t: "float_text True [1, 2] [7, 5] = ''-12.75''" by code_simp
  have k: "kept True [1, 2] [7, 5] = Some ([1, 2], [7, 5])" by code_simp
  show ?thesis using parseFloat_rounds [OF nearest_sse_single, of "[1, 2]" "[7, 5]" True] unfolding t k by (simp add: decimal_value_def)
qed

end
