(* ===== verification/Spec2Isabelle.thy ===== *)
theory Spec2Isabelle
  imports Prelude CMemory StackArray QueueBounded ArraySort ListArray IntText StringBuilder
    BuilderRuns CString ErrorReport IntParse HashMap Pools File Process Bits Async AsyncSystem
    FileBuffer IOBuffer HuffmanCode Huffman Inflate InflateEnds Deflate InflateBlock InflateDynamic
    InflateFrame Md5 Md5Reference MemoryRoutines Time StringSplit Directory LittleEndian ZipArchive
    ZipFiles ZipProgram DebugText TextCursor LogLine Smbios MemoryArray Sockets NetworkDevice
    NetlinkWalk NetlinkAnswers NetlinkDebug Cgi UIntArray IPv4Text IPv6Text LineBuffer MachineInfo
    CommandLine KernelFile SinglePrecision FloatText
begin

text \<open>
  libdevopsbroker is a C library with x86-64 assembler routines: data structures, text handling, memory
  pools, file and process access, asynchronous I/O, decompression, Zip archives, digests, netlink sockets, and
  the requests of CGI programs. The code is under src/C/src/org/devopsbroker; paths below are relative to it, and src/cgi stands beside it. A function or a struct keeps its name,
  prefix included, and the fields of a struct are the fields of a record under the struct's own prefix.

  \<^bold>\<open>How the program is modelled.\<close> A function that can end early yields a \<open>result\<close>: \<open>Inr\<close> a value, or \<open>Inl\<close> a
  \<open>fault\<close>, which says how the code leaves the function instead: an access outside an object
  (\<open>OutOfBounds\<close>), the dereference of NULL (\<open>NullPointer\<close>), a read of a cell that was never written
  (\<open>Uninitialised\<close>), a call of abort (\<open>Abort\<close>), a call of exit with the text written before
  (\<open>Exit\<close>), or a loop that does not end (\<open>NoReturn\<close>). Memory is a \<open>block\<close>, a list of cells each of which may
  be unset; \<open>rd\<close> and \<open>wr\<close> check the index, so that "inside the bounds" is part of every theorem whose
  conclusion is an \<open>Inr\<close>. Integers are words of the C width and wrap. Where two pointers to one object matter
  (page buffers, directories, requests) the objects live in a store by address. Calls of the system and of the C
  library are parameters: a \<open>sysret\<close> (the value or the errno) for each call, or a function of the call's
  arguments; nothing is assumed of them except where a theorem says so.

  \<^bold>\<open>The parts, from the bottom up.\<close>
  \<^item> \<open>Prelude\<close>, \<open>CMemory\<close> (lang/memory): faults, blocks, loops, and the allocation and copy routines.
  \<^item> \<open>StackArray\<close>, \<open>QueueBounded\<close>, \<open>ListArray\<close> with \<open>ArraySort\<close>, \<open>HashMap\<close> (adt/, lang/array.c): the
  containers. Each has a representation invariant and a contract that is a locale (\<open>lifo\<close>,
  \<open>fifo\<close>, \<open>growable\<close>, \<open>keyed\<close>; \<open>text_sink\<close> and \<open>bit_source\<close> likewise further down), interpreted on the code's functions. The stack serves the
  pools and request stores, the queue serves asynchronous I/O, the list serves directories and archives.
  \<^item> \<open>MemoryRoutines\<close> (lang/memory in assembler): the copy and clear loops on one memory, which the block operations of
  \<open>CMemory\<close> are shown to be, and the routines that no C code calls.
  \<^item> \<open>IntText\<close>, \<open>IntParse\<close> (lang/integer.c, lang/long.c), \<open>CString\<close>, \<open>StringSplit\<close> (lang/string), \<open>StringBuilder\<close>, \<open>BuilderRuns\<close>,
  \<open>ErrorReport\<close> (lang/error): text. The messages of the error functions are the texts that the builder
  makes from their parts.
  \<^item> \<open>Pools\<close> (memory/): slab pool on memory pool on page pool, in one state. The invariant says that free and used
  objects are distinct, so nothing is handed out twice.
  \<^item> \<open>File\<close>, \<open>Process\<close> (io/file.c, io/shell.c, io/pipe.h, lang/system.c), \<open>Time\<close>, \<open>Directory\<close> (fs/directory.c): the operating
  system's side.
  \<^item> \<open>Async\<close>, \<open>FileBuffer\<close> (io/async.c, io/filebuffer.c): batches of page requests and the chains of page
  buffers that they fill. \<open>AsyncSystem\<close>: the calls for several files of one context as the steps of a relation, with
  an invariant of the reachable states and that every request gets to the kernel.
  \<^item> \<open>Bits\<close>, \<open>IOBuffer\<close>, \<open>Huffman\<close>, \<open>Inflate\<close> (compress/, hash/crc32): the decompressor, which reads bits from a
  chain of page buffers, builds decoders in which it looks codes up, and copies back references in a
  window that is also its output.
  \<^item> \<open>Md5\<close>, \<open>Md5Reference\<close> (hash/md5): the digest, at once and in pieces, and the transform in C.
  \<^item> \<open>TextCursor\<close>, \<open>LogLine\<close> (log/logline.c), \<open>Smbios\<close>, \<open>MemoryArray\<close> (sysfs/): texts that are taken apart in place, a line of the
  firewall's log and the output of dmidecode, which \<open>Process\<close> collects.
  \<^item> \<open>Sockets\<close> (socket/, net/ethernet.c, net/ip-util.c), \<open>NetworkDevice\<close> (net/networkdevice.c), \<open>NetlinkDebug\<close> (socket/netlink.c):
  requests to the kernel and the walk over its answers, with the datagrams as bytes. \<open>NetlinkWalk\<close> and
  \<open>NetlinkAnswers\<close> relate the walk to lists of messages and attributes.
  \<^item> \<open>IPv4Text\<close> (net/ipv4address), \<open>IPv6Text\<close> (net/ipv6address, net/ip-util), \<open>LineBuffer\<close> (text/linebuffer), \<open>MachineInfo\<close> (info/), \<open>CommandLine\<close> (terminal/), \<open>UIntArray\<close>: most of them
  assembler, modelled register by register where the width of a register or the order of its bytes matters.
  \<^item> \<open>KernelFile\<close> (system/linux, io/file and io/stream in assembler), \<open>FloatText\<close> (lang/float): numbers in the small files
  of the kernel, to and from text in a register, and the float parser over an arbitrary arithmetic. \<open>SinglePrecision\<close> is what is known
  of the processor's: results are rounded to a nearest number of 24 bits, and the errors of several roundings are counted.
  \<^item> \<open>Cgi\<close> (src/cgi): the parameters of a request, a hash map into the decoded text that is taken apart in place, and the
  headers of a response.
  \<^item> \<open>LittleEndian\<close>, \<open>ZipArchive\<close>, \<open>ZipFiles\<close>, \<open>ZipProgram\<close>, \<open>DebugText\<close> (compress/ziparchive.c): on top of the file buffers, the decompressor, the directories and times.
  \<open>ZipFiles\<close> takes a whole archive in memory apart, \<open>ZipProgram\<close> runs the program from its start: pools, request queue, kernel, archive, pools.

  \<^bold>\<open>References that are not code.\<close> \<open>HuffmanCode\<close> is the canonical prefix code of a list of lengths, \<open>Deflate\<close>
  the format of a compressed block: tokens, the bits that encode them and the bytes they stand for.
  \<open>InflateBlock\<close> and \<open>InflateDynamic\<close> relate the decompressor to it, \<open>InflateEnds\<close> shows that it ends on
  arbitrary input and \<open>InflateFrame\<close> what it leaves alone. \<open>dec_string\<close> is decimal notation,
  \<open>crc_bit\<close> one step of the bit-by-bit CRC, \<open>MD5Transform\<close> the C routine that hash/md5.c keeps in a comment.

  \<^bold>\<open>What the lemmas show.\<close> For each container: what an operation does on its abstract value, that the
  invariant is kept, and a theorem on arbitrary sequences of calls. For the parsers and printers: the round
  trip, and the error exits. For the loops over words and pages: that they end, and the value. For the
  file, process and archive functions: which calls are made in which order and what the caller gets, on
  the success path and on each error path. Defects are theorems as well: a stack that one element
  overflows, a builder that forgets its new size, a queue copy that leaves the ring, a search that
  overlooks an occurrence, an uncleared hash table, the abort of a path of more than eight parts. Where a function goes wrong on ordinary input
  its main theorem says so: the sort of one element, the line of a protocol without ports, the zeros at the ends of an address,
  the encoded separators of a form, the length in the padding of the digest.

  \<^bold>\<open>Bounds and fuel.\<close> A loop whose end depends on the data is \<open>repeat_until\<close>, whose value is
  \<open>NoReturn\<close> when the loop does not end; the theorems state values that are not \<open>NoReturn\<close>, so they include
  termination. The recursive functions of \<open>Directory\<close> get the depth of the calls as fuel, since a
  file system may nest without bound, and yield \<open>NoReturn\<close> beyond it. Everything else is structural
  recursion or has a measure.

  \<^bold>\<open>Not modelled.\<close> What only calls the C library, and what free does, except that the free of a string literal is an \<open>Abort\<close>. The arithmetic on floats is a parameter, of which the float parser's theorem assumes rounding to
  a nearest number of single precision as the processor documents it, and the
  arguments of a variadic function are a list. The bytes that the eight-at-a-time loops of the assembler read behind a NUL
  are not in the model.
\<close>

end
